(* ===== verification/Rong_Prelude.thy ===== *)
theory Rong_Prelude
  imports Main "HOL-Library.Word" "HOL-Library.Char_ord" "HOL-Library.List_Lexorder"
begin

text \<open>
  Shared vocabulary of the development: the widths of Rust's integers, the checked and saturating
  operations of the standard library the sources call, decimal printing, a few string operations of
  \<^verbatim>\<open>str\<close>, ordered maps (\<^verbatim>\<open>BTreeMap\<close>) as sorted association lists, and the lemma collections
  the component theories add to.

  A Rust \<^verbatim>\<open>String\<close> is the list of its UTF-8 bytes, one \<^typ>\<open>char\<close> each, so the byte order of
  \<^verbatim>\<open>str\<close> is the lexicographic order of \<^typ>\<open>string\<close>. A \<^verbatim>\<open>Duration\<close> is its number of nanoseconds.
\<close>

named_theorems rong_defs "handlers unfolded together in case analyses"
named_theorems rong_inv "steps that keep a component's invariant"

type_synonym usize = "64 word"
type_synonym u64 = "64 word"
type_synonym u32 = "32 word"
type_synonym u8 = "8 word"
type_synonym duration = nat

section \<open>Checked and saturating machine arithmetic\<close>

definition checked_add :: "'a::len word \<Rightarrow> 'a word \<Rightarrow> 'a word option" where
  "checked_add a b = (if unat a + unat b < 2 ^ LENGTH('a) then Some (a + b) else None)"

definition saturating_add :: "'a::len word \<Rightarrow> 'a word \<Rightarrow> 'a word" where
  "saturating_add a b = (if unat a + unat b < 2 ^ LENGTH('a) then a + b else - 1)"

definition saturating_sub :: "'a::len word \<Rightarrow> 'a word \<Rightarrow> 'a word" where
  "saturating_sub a b = (if b \<le> a then a - b else 0)"

definition saturating_mul :: "'a::len word \<Rightarrow> 'a word \<Rightarrow> 'a word" where
  "saturating_mul a b = (if unat a * unat b < 2 ^ LENGTH('a) then a * b else - 1)"

definition wmin :: "'a::len word \<Rightarrow> 'a word \<Rightarrow> 'a word" where
  "wmin a b = (if a \<le> b then a else b)"

definition wmax :: "'a::len word \<Rightarrow> 'a word \<Rightarrow> 'a word" where
  "wmax a b = (if a \<le> b then b else a)"

text \<open>\<^verbatim>\<open>Ord::clamp\<close>; it panics when the bounds are reversed, so the callers' bounds are proved ordered.\<close>

definition wclamp :: "'a::len word \<Rightarrow> 'a word \<Rightarrow> 'a word \<Rightarrow> 'a word" where
  "wclamp x lo hi = (if x < lo then lo else if hi < x then hi else x)"

lemma checked_add_Some_iff:
  "checked_add a b = Some c \<longleftrightarrow> unat a + unat b < 2 ^ LENGTH('a) \<and> c = (a + b :: 'a::len word)"
  by (auto simp: checked_add_def)

lemma checked_add_None_iff:
  "checked_add a b = None \<longleftrightarrow> 2 ^ LENGTH('a) \<le> unat a + unat (b :: 'a::len word)"
  by (auto simp: checked_add_def)

lemma unat_checked_add:
  "checked_add a b = Some (c :: 'a::len word) \<Longrightarrow> unat c = unat a + unat b"
  by (auto simp: checked_add_Some_iff unat_word_ariths)

lemma unat_saturating_add:
  "unat (saturating_add a b) = min (unat a + unat b) (2 ^ LENGTH('a) - 1)" for a b :: "'a::len word"
proof (cases "unat a + unat b < 2 ^ LENGTH('a)")
  case True
  then show ?thesis by (simp add: saturating_add_def unat_word_ariths)
next
  case False
  then show ?thesis by (simp add: saturating_add_def unsigned_minus_1_eq_mask mask_eq_exp_minus_1)
qed

lemma unat_saturating_mul:
  "unat (saturating_mul a b) = min (unat a * unat b) (2 ^ LENGTH('a) - 1)" for a b :: "'a::len word"
proof (cases "unat a * unat b < 2 ^ LENGTH('a)")
  case True
  then show ?thesis by (simp add: saturating_mul_def unat_word_ariths)
next
  case False
  then show ?thesis by (simp add: saturating_mul_def unsigned_minus_1_eq_mask mask_eq_exp_minus_1)
qed

lemma unat_saturating_sub:
  "unat (saturating_sub a b) = unat a - unat b" for a b :: "'a::len word"
  by (auto simp: saturating_sub_def unat_sub word_le_nat_alt)

lemma unat_wmin [simp]: "unat (wmin a b) = min (unat a) (unat b)"
  by (auto simp: wmin_def word_le_nat_alt)

lemma unat_wmax [simp]: "unat (wmax a b) = max (unat a) (unat b)"
  by (auto simp: wmax_def word_le_nat_alt)

lemma unat_wclamp:
  "lo \<le> hi \<Longrightarrow> unat (wclamp x lo hi) = max (unat lo) (min (unat x) (unat hi))"
  by (auto simp: wclamp_def word_le_nat_alt word_less_nat_alt)

lemma unat_bound: "unat (w :: 'a::len word) < 2 ^ LENGTH('a)"
  by (rule unsigned_less)

lemma unat_inject [simp]: "unat a = unat b \<longleftrightarrow> a = b"
  by (simp add: word_unat_eq_iff)

lemma unat_le_uint: "unat w \<le> n \<Longrightarrow> uint w \<le> int n"
  by (metis of_nat_le_iff of_nat_unat)

lemma word_of_nat_remove1:
  assumes "x \<in> set xs"
  shows "(of_nat (length xs) :: 'a::len word) - 1 = of_nat (length (remove1 x xs))"
proof -
  have "length xs = Suc (length (remove1 x xs))"
    using assms length_pos_if_in_set [OF assms] by (simp add: length_remove1)
  then show ?thesis by simp
qed

section \<open>Decimal printing\<close>

definition digit_char :: "nat \<Rightarrow> char" where
  "digit_char d = char_of (48 + d)"

fun string_of_nat :: "nat \<Rightarrow> string" where
  "string_of_nat n =
     (if n < 10 then [digit_char n] else string_of_nat (n div 10) @ [digit_char (n mod 10)])"

declare string_of_nat.simps [simp del]

lemma string_of_nat_nonempty [simp]: "string_of_nat n \<noteq> []"
  by (subst string_of_nat.simps) simp

definition string_of_int :: "int \<Rightarrow> string" where
  "string_of_int i = (if i < 0 then ''-'' @ string_of_nat (nat (- i)) else string_of_nat (nat i))"

lemma string_of_nat_no_minus: "string_of_nat n \<noteq> CHR ''-'' # s"
proof (induction n arbitrary: s rule: string_of_nat.induct)
  case (1 n)
  have "digit_char d = CHR ''-'' \<Longrightarrow> d < 10 \<Longrightarrow> False" for d
  proof -
    assume "digit_char d = CHR ''-''" "d < 10"
    then have "of_char (digit_char d) = (45 :: nat)" by simp
    then show False using \<open>d < 10\<close> by (simp add: digit_char_def)
  qed
  with 1 show ?case
    by (subst string_of_nat.simps) (auto simp: append_eq_Cons_conv)
qed

definition is_digit :: "char \<Rightarrow> bool" where
  "is_digit c \<longleftrightarrow> (48 :: nat) \<le> of_char c \<and> (of_char c :: nat) \<le> 57"

definition digit_value :: "char \<Rightarrow> nat" where
  "digit_value c = of_char c - 48"

fun nat_of_digits :: "nat \<Rightarrow> string \<Rightarrow> nat" where
  "nat_of_digits acc [] = acc"
| "nat_of_digits acc (c # cs) = nat_of_digits (10 * acc + digit_value c) cs"

lemma of_char_digit_char: "d < 10 \<Longrightarrow> of_char (digit_char d) = 48 + d"
  by (simp add: digit_char_def)

lemma is_digit_digit_char [simp]: "d < 10 \<Longrightarrow> is_digit (digit_char d)"
  by (simp add: is_digit_def of_char_digit_char)

lemma digit_value_digit_char [simp]: "d < 10 \<Longrightarrow> digit_value (digit_char d) = d"
  by (simp add: digit_value_def of_char_digit_char)

lemma nat_of_digits_append:
  "nat_of_digits acc (xs @ ys) = nat_of_digits (nat_of_digits acc xs) ys"
  by (induction xs arbitrary: acc) auto

lemma string_of_nat_digits: "list_all is_digit (string_of_nat n)"
proof (induction n rule: string_of_nat.induct)
  case (1 n)
  then show ?case by (subst string_of_nat.simps) auto
qed

lemma nat_of_digits_string_of_nat: "nat_of_digits 0 (string_of_nat n) = n"
proof (induction n rule: string_of_nat.induct)
  case (1 n)
  then show ?case by (subst string_of_nat.simps) (auto simp: nat_of_digits_append)
qed

lemma string_of_nat_inject [simp]: "string_of_nat m = string_of_nat n \<longleftrightarrow> m = n"
  using nat_of_digits_string_of_nat by metis

lemma string_of_int_inject [simp]: "string_of_int i = string_of_int j \<longleftrightarrow> i = j"
  using string_of_nat_no_minus string_of_nat_no_minus [symmetric]
  by (auto simp: string_of_int_def)

section \<open>Ordered maps\<close>

text \<open>\<^verbatim>\<open>BTreeMap<String, _>\<close>: an association list in strictly ascending key order.\<close>

type_synonym 'v btree = "(string \<times> 'v) list"

fun bt_insert :: "string \<Rightarrow> 'v \<Rightarrow> 'v btree \<Rightarrow> 'v btree" where
  "bt_insert k v [] = [(k, v)]"
| "bt_insert k v ((k', v') # m) =
     (if k < k' then (k, v) # (k', v') # m
      else if k = k' then (k, v) # m
      else (k', v') # bt_insert k v m)"

definition bt_of_list :: "(string \<times> 'v) list \<Rightarrow> 'v btree" where
  "bt_of_list kvs = fold (\<lambda>(k, v). bt_insert k v) kvs []"

definition bt_sorted :: "'v btree \<Rightarrow> bool" where
  "bt_sorted m \<longleftrightarrow> sorted_wrt (<) (map fst m)"

lemma bt_sorted_Nil [simp]: "bt_sorted []"
  by (simp add: bt_sorted_def)

lemma map_of_bt_insert: "map_of (bt_insert k v m) = (map_of m)(k \<mapsto> v)"
  by (induction k v m rule: bt_insert.induct) (auto simp: fun_upd_twist)

lemma keys_bt_insert: "fst ` set (bt_insert k v m) = insert k (fst ` set m)"
  by (induction k v m rule: bt_insert.induct) auto

lemma bt_sorted_Cons:
  "bt_sorted ((k, v) # m) \<longleftrightarrow> (\<forall>k' \<in> fst ` set m. k < k') \<and> bt_sorted m"
  by (auto simp: bt_sorted_def)

lemma bt_sorted_insert: "bt_sorted m \<Longrightarrow> bt_sorted (bt_insert k v m)"
  by (induction k v m rule: bt_insert.induct) (auto simp: bt_sorted_Cons keys_bt_insert)

lemma bt_sorted_distinct: "bt_sorted m \<Longrightarrow> distinct (map fst m)"
  by (simp add: bt_sorted_def strict_sorted_iff)

lemma bt_sorted_ext:
  assumes "bt_sorted m" "bt_sorted m'" "map_of m = map_of m'"
  shows "m = m'"
proof -
  have d: "distinct (map fst m)" "distinct (map fst m')"
    using assms by (auto intro: bt_sorted_distinct)
  have s: "set m = set m'"
    using map_of_inject_set [OF d] assms(3) by simp
  have "inj_on fst (set m \<union> set m')"
    using d(1) s by (simp add: distinct_map)
  moreover have "sorted (map fst m)" "sorted (map fst m')"
    using assms(1,2) by (auto simp: bt_sorted_def strict_sorted_iff)
  ultimately show ?thesis
    using d s by (intro map_sorted_distinct_set_unique)
qed

section \<open>Exclusive loans\<close>

text \<open>
  The contract of everything that is handed out to one holder at a time (a stream's reader or writer): while it is
  lent nobody else gets it, and giving it back makes it available again with its content as it was.
\<close>

locale exclusive_loan =
  fixes acquire :: "'s \<Rightarrow> ('h \<times> 's) option"
    and release :: "'h \<Rightarrow> 's \<Rightarrow> 's"
    and wf :: "'s \<Rightarrow> bool"
    and content :: "'s \<Rightarrow> 'c"
  assumes exclusive: "wf s \<Longrightarrow> acquire s = Some (h, s') \<Longrightarrow> acquire s' = None"
    and available: "wf s \<Longrightarrow> acquire s = Some (h, s') \<Longrightarrow> acquire (release h s') \<noteq> None"
    and content_back: "wf s \<Longrightarrow> acquire s = Some (h, s') \<Longrightarrow> content (release h s') = content s"
    and wf_back: "wf s \<Longrightarrow> acquire s = Some (h, s') \<Longrightarrow> wf (release h s')"
begin

definition loan :: "'s \<Rightarrow> 's" where
  "loan s = (case acquire s of None \<Rightarrow> s | Some (h, s') \<Rightarrow> release h s')"

lemma loans_keep:
  assumes "wf s" "acquire s \<noteq> None"
  shows "content ((loan ^^ n) s) = content s \<and> wf ((loan ^^ n) s) \<and> acquire ((loan ^^ n) s) \<noteq> None"
proof (induction n)
  case (Suc n)
  let ?s = "(loan ^^ n) s"
  obtain h s' where a: "acquire ?s = Some (h, s')" using Suc by auto
  then have "loan ?s = release h s'" by (simp add: loan_def)
  then show ?case using Suc available [OF _ a] content_back [OF _ a] wf_back [OF _ a] by simp
qed (use assms in simp)

end

section \<open>Operations that fail without effect\<close>

text \<open>
  The contract of an operation that either takes effect or reports an error and leaves its state alone. A client may
  then reason about a run as if the failed operations had not been made.
\<close>

locale atomic_step =
  fixes step :: "'i \<Rightarrow> 's \<Rightarrow> ('e + 'a) \<times> 's"
  assumes atomic: "step i s = (Inl e, s') \<Longrightarrow> s' = s"
begin

definition run :: "'i list \<Rightarrow> 's \<Rightarrow> 's" where
  "run xs s = fold (\<lambda>i s. snd (step i s)) xs s"

primrec successes :: "'i list \<Rightarrow> 's \<Rightarrow> 'i list" where
  "successes [] s = []"
| "successes (i # xs) s =
     (case step i s of (Inl _, s') \<Rightarrow> successes xs s' | (Inr _, s') \<Rightarrow> i # successes xs s')"

lemma run_successes: "run (successes xs s) s = run xs s"
proof (induction xs arbitrary: s)
  case (Cons i xs)
  obtain r s' where r: "step i s = (r, s')" by (cases "step i s")
  then have "r = Inl e \<Longrightarrow> s' = s" for e using atomic by blast
  then show ?case using Cons.IH [of s'] r by (cases r) (auto simp: run_def)
qed (simp add: run_def)

lemma run_invariant: "(\<And>i s s' x. P s \<Longrightarrow> step i s = (Inr x, s') \<Longrightarrow> P s') \<Longrightarrow> P s \<Longrightarrow> P (run xs s)"
proof (induction xs arbitrary: s)
  case (Cons i xs)
  obtain r s' where r: "step i s = (r, s')" by (cases "step i s")
  have "P s'"
  proof (cases r)
    case (Inl e)
    then show ?thesis using atomic [OF r [unfolded Inl]] Cons.prems(2) by simp
  next
    case (Inr x)
    show ?thesis by (rule Cons.prems(1) [OF Cons.prems(2) r [unfolded Inr]])
  qed
  then show ?case using Cons.IH [of s', OF Cons.prems(1)] r by (simp add: run_def)
qed (simp add: run_def)

end

text \<open>
  The contract of a cheap operation that now and then does a piece of work proportional to its state: every step pays a
  fixed price in advance, and the credit saved up in the state covers the work. A run then costs at most the price of its
  steps.
\<close>

locale prepaid =
  fixes step :: "'i \<Rightarrow> 's \<Rightarrow> 's"
    and cost :: "'i \<Rightarrow> 's \<Rightarrow> nat"
    and credit :: "'s \<Rightarrow> nat"
    and price :: nat
    and inv :: "'s \<Rightarrow> bool"
  assumes inv_step: "inv s \<Longrightarrow> inv (step i s)"
    and paid: "inv s \<Longrightarrow> cost i s + credit (step i s) \<le> credit s + price"
begin

primrec total_cost :: "'i list \<Rightarrow> 's \<Rightarrow> nat" where
  "total_cost [] s = 0"
| "total_cost (i # xs) s = cost i s + total_cost xs (step i s)"

lemma inv_run: "inv s \<Longrightarrow> inv (fold step xs s)"
  by (induction xs arbitrary: s) (simp_all add: inv_step)

lemma total_paid: "inv s \<Longrightarrow> total_cost xs s + credit (fold step xs s) \<le> credit s + price * length xs"
proof (induction xs arbitrary: s)
  case (Cons i xs)
  from Cons.IH [OF inv_step [OF Cons.prems, of i]] paid [OF Cons.prems, of i] show ?case by simp
qed simp

end

end
