(* ===== verification/Thrown_Store.thy ===== *)
theory Thrown_Store
  imports Rong_Prelude
begin

text \<open>
  The generational arena of \<^verbatim>\<open>core/src/context/thrown_store.rs\<close> that keeps thrown or rejected
  JavaScript values across asynchronous boundaries, and the three accessors
  \<^verbatim>\<open>capture_thrown\<close>, \<^verbatim>\<open>resolve_thrown\<close> and \<^verbatim>\<open>take_thrown\<close> of \<^verbatim>\<open>core/src/context.rs\<close> over it.
  The abstraction of a store, seen from one context, is the partial map from handles to values that
  \<open>get\<close> answers; insertion and removal are its update and deletion. The slot generation is a 32-bit
  counter that wraps around (skipping zero); how long a spent handle stays dead is proved below.
\<close>

section \<open>Data\<close>

record thrown_value_handle =
  th_context_id :: usize
  th_id :: u32
  th_generation :: u32

record 'v thrown_slot =
  ts_generation :: u32
  ts_value :: "'v option"

record 'v thrown_value_store =
  slots :: "'v thrown_slot list"
  free :: "nat list"

definition store_new :: "'v thrown_value_store" where
  "store_new = \<lparr>slots = [], free = []\<rparr>"

definition next_generation :: "u32 \<Rightarrow> u32" where
  "next_generation g = wmax (g + 1) 1"

section \<open>Operations\<close>

text \<open>\<^const>\<open>None\<close> is the panic of indexing \<^verbatim>\<open>self.slots[id]\<close> out of range.\<close>

definition store_insert ::
  "usize \<Rightarrow> 'v \<Rightarrow> 'v thrown_value_store \<Rightarrow> (thrown_value_handle \<times> 'v thrown_value_store) option"
where
  "store_insert ctx v st =
     (if free st \<noteq> [] then
        (let i = last (free st) in
         if i < length (slots st) then
           (let g = next_generation (ts_generation (slots st ! i)) in
            Some (\<lparr>th_context_id = ctx, th_id = of_nat i, th_generation = g\<rparr>,
                  st\<lparr>slots := (slots st)[i := \<lparr>ts_generation = g, ts_value = Some v\<rparr>],
                     free := butlast (free st)\<rparr>))
         else None)
      else
        Some (\<lparr>th_context_id = ctx, th_id = of_nat (length (slots st)), th_generation = 1\<rparr>,
              st\<lparr>slots := slots st @ [\<lparr>ts_generation = 1, ts_value = Some v\<rparr>]\<rparr>))"

definition store_get :: "usize \<Rightarrow> thrown_value_handle \<Rightarrow> 'v thrown_value_store \<Rightarrow> 'v option" where
  "store_get ctx h st =
     (if th_context_id h \<noteq> ctx then None
      else
        (let i = unat (th_id h) in
         if i < length (slots st) then
           (if ts_generation (slots st ! i) \<noteq> th_generation h then None
            else ts_value (slots st ! i))
         else None))"

definition store_take ::
  "usize \<Rightarrow> thrown_value_handle \<Rightarrow> 'v thrown_value_store \<Rightarrow> 'v option \<times> 'v thrown_value_store"
where
  "store_take ctx h st =
     (if th_context_id h \<noteq> ctx then (None, st)
      else
        (let i = unat (th_id h) in
         if i < length (slots st) then
           (if ts_generation (slots st ! i) \<noteq> th_generation h then (None, st)
            else
              (let value = ts_value (slots st ! i);
                   st' = st\<lparr>slots := (slots st)[i := (slots st ! i)\<lparr>ts_value := None\<rparr>]\<rparr>
               in (value, if value \<noteq> None then st'\<lparr>free := free st @ [i]\<rparr> else st')))
         else (None, st)))"

section \<open>Well-formed stores\<close>

definition store_wf :: "'v thrown_value_store \<Rightarrow> bool" where
  "store_wf st \<longleftrightarrow>
     distinct (free st) \<and>
     (\<forall>i. i \<in> set (free st) \<longleftrightarrow> i < length (slots st) \<and> ts_value (slots st ! i) = None)"

text \<open>The 32-bit identifier of a handle names its slot only while the arena is small enough.\<close>

definition store_small :: "'v thrown_value_store \<Rightarrow> bool" where
  "store_small st \<longleftrightarrow> length (slots st) < 2 ^ 32"

lemma store_wf_new: "store_wf store_new"
  by (simp add: store_wf_def store_new_def)

lemma store_wf_last_free:
  assumes "store_wf st" "free st \<noteq> []"
  shows "last (free st) < length (slots st)" "ts_value (slots st ! last (free st)) = None"
  using assms last_in_set [of "free st"] by (auto simp: store_wf_def)

lemma set_butlast_distinct: "distinct xs \<Longrightarrow> xs \<noteq> [] \<Longrightarrow> set (butlast xs) = set xs - {last xs}"
  by (cases xs rule: rev_cases) auto

lemma store_insert_total:
  assumes "store_wf st"
  shows "\<exists>h st'. store_insert ctx v st = Some (h, st')"
proof (cases "free st = []")
  case True
  then show ?thesis by (simp add: store_insert_def)
next
  case False
  with store_wf_last_free(1) [OF assms False] show ?thesis
    by (simp add: store_insert_def Let_def)
qed

lemma store_wf_insert:
  assumes "store_wf st" "store_insert ctx v st = Some (h, st')"
  shows "store_wf st'"
proof (cases "free st = []")
  case True
  with assms show ?thesis
    by (fastforce simp: store_insert_def store_wf_def nth_append less_Suc_eq)
next
  case False
  note l = store_wf_last_free [OF assms(1) False]
  from assms False l have st': "slots st' = (slots st)[last (free st) :=
      \<lparr>ts_generation = next_generation (ts_generation (slots st ! last (free st))), ts_value = Some v\<rparr>]"
    "free st' = butlast (free st)"
    by (auto simp: store_insert_def Let_def)
  have "set (free st') = set (free st) - {last (free st)}"
    using assms(1) False st'(2) by (simp add: store_wf_def set_butlast_distinct)
  then show ?thesis
    using assms(1) l st' by (auto simp: store_wf_def nth_list_update distinct_butlast)
qed

lemma store_wf_take: "store_wf st \<Longrightarrow> store_wf (snd (store_take ctx h st))"
  by (auto simp: store_take_def store_wf_def Let_def nth_list_update)

section \<open>Refinement of a partial map\<close>

definition store_abs :: "usize \<Rightarrow> 'v thrown_value_store \<Rightarrow> thrown_value_handle \<rightharpoonup> 'v" where
  "store_abs ctx st = (\<lambda>h. store_get ctx h st)"

lemma store_abs_new: "store_abs ctx store_new = Map.empty"
  by (simp add: store_abs_def store_get_def store_new_def fun_eq_iff)

lemma handle_eqI:
  "th_context_id h = th_context_id h' \<Longrightarrow> th_id h = th_id h' \<Longrightarrow> th_generation h = th_generation h' \<Longrightarrow>
    h = (h' :: thrown_value_handle)"
  by simp

lemma unat_of_nat_u32: "n < 2 ^ 32 \<Longrightarrow> unat (of_nat n :: u32) = n"
  by (simp add: unat_of_nat)

lemma store_abs_append:
  assumes small: "store_small st" and free: "free st = []" and ins: "store_insert ctx v st = Some (h, st')"
  shows "store_abs ctx st' k = ((store_abs ctx st)(h \<mapsto> v)) k" "store_abs ctx st h = None"
proof -
  define n where "n = length (slots st)"
  have u: "unat (of_nat n :: u32) = n" using small by (intro unat_of_nat_u32) (simp add: store_small_def n_def)
  from ins free have eqs: "h = \<lparr>th_context_id = ctx, th_id = of_nat n, th_generation = 1\<rparr>"
    "slots st' = slots st @ [\<lparr>ts_generation = 1, ts_value = Some v\<rparr>]"
    by (auto simp: store_insert_def n_def)
  show "store_abs ctx st h = None" using eqs u by (simp add: store_abs_def store_get_def n_def)
  show "store_abs ctx st' k = ((store_abs ctx st)(h \<mapsto> v)) k"
  proof (cases "unat (th_id k) = n")
    case True
    then have "th_id k = of_nat n" using u by (metis unat_inject)
    then show ?thesis using u eqs by (cases k) (simp add: store_abs_def store_get_def n_def)
  next
    case False
    then have "k \<noteq> h" using eqs u by auto
    then show ?thesis using False eqs by (auto simp: store_abs_def store_get_def nth_append n_def Let_def)
  qed
qed

lemma store_abs_reuse:
  assumes wf: "store_wf st" and small: "store_small st" and free: "free st \<noteq> []"
    and ins: "store_insert ctx v st = Some (h, st')"
  shows "store_abs ctx st' k = ((store_abs ctx st)(h \<mapsto> v)) k" "store_abs ctx st h = None"
proof -
  define i where "i = last (free st)"
  define g where "g = next_generation (ts_generation (slots st ! i))"
  have i: "i < length (slots st)" "ts_value (slots st ! i) = None"
    using store_wf_last_free [OF wf free] by (simp_all add: i_def)
  have u: "unat (of_nat i :: u32) = i" using small i(1) by (intro unat_of_nat_u32) (simp add: store_small_def)
  from ins free i(1) have eqs: "h = \<lparr>th_context_id = ctx, th_id = of_nat i, th_generation = g\<rparr>"
    "slots st' = (slots st)[i := \<lparr>ts_generation = g, ts_value = Some v\<rparr>]"
    by (auto simp: store_insert_def Let_def i_def g_def)
  show "store_abs ctx st h = None" using eqs u i by (simp add: store_abs_def store_get_def Let_def)
  show "store_abs ctx st' k = ((store_abs ctx st)(h \<mapsto> v)) k"
  proof (cases "unat (th_id k) = i")
    case True
    then have "th_id k = of_nat i" using u by (metis unat_inject)
    then show ?thesis using i u eqs by (cases k) (simp add: store_abs_def store_get_def)
  next
    case False
    then have "k \<noteq> h" using eqs u by auto
    then show ?thesis using False eqs by (auto simp: store_abs_def store_get_def Let_def)
  qed
qed

lemma store_abs_insert:
  assumes "store_wf st" "store_small st" "store_insert ctx v st = Some (h, st')"
  shows "store_abs ctx st' = (store_abs ctx st)(h \<mapsto> v)" and "store_abs ctx st h = None"
  using store_abs_append [OF assms(2) _ assms(3)] store_abs_reuse [OF assms(1,2) _ assms(3)]
  by (cases "free st = []", blast, blast)+

lemma store_take_fst: "fst (store_take ctx h st) = store_get ctx h st"
  by (simp add: store_take_def store_get_def Let_def)

lemma store_abs_take: "store_abs ctx (snd (store_take ctx h st)) = (store_abs ctx st)(h := None)"
proof
  fix k
  show "store_abs ctx (snd (store_take ctx h st)) k = ((store_abs ctx st)(h := None)) k"
    by (cases k; cases h)
      (auto simp: store_abs_def store_get_def store_take_def nth_list_update Let_def)
qed

section \<open>Histories of operations and spent handles\<close>

datatype 'v store_op = Insert usize 'v | Take usize thrown_value_handle

fun store_run :: "'v store_op list \<Rightarrow> 'v thrown_value_store \<Rightarrow> 'v thrown_value_store option" where
  "store_run [] st = Some st"
| "store_run (Insert ctx v # ops) st =
     (case store_insert ctx v st of None \<Rightarrow> None | Some (h, st') \<Rightarrow> store_run ops st')"
| "store_run (Take ctx h # ops) st = store_run ops (snd (store_take ctx h st))"

definition is_insert :: "'v store_op \<Rightarrow> bool" where
  "is_insert op \<longleftrightarrow> (case op of Insert _ _ \<Rightarrow> True | Take _ _ \<Rightarrow> False)"

lemma store_run_wf: "store_wf st \<Longrightarrow> \<exists>st'. store_run ops st = Some st' \<and> store_wf st'"
proof (induction ops st rule: store_run.induct)
  case (2 ctx v ops st)
  obtain h st' where ins: "store_insert ctx v st = Some (h, st')"
    using store_insert_total [OF "2.prems", of ctx v] by blast
  have "store_wf st'" by (rule store_wf_insert [OF "2.prems" ins])
  with "2.IH" [OF ins refl] ins show ?case by simp
qed (simp_all add: store_wf_take)

lemma next_generation_nonzero: "next_generation g \<noteq> 0"
  by (auto simp: next_generation_def wmax_def word_le_nat_alt)

text \<open>The generations cycle through the nonzero 32-bit values.\<close>

definition gen_rank :: "u32 \<Rightarrow> nat" where
  "gen_rank g = unat g - 1"

lemma gen_rank_inject: "g \<noteq> 0 \<Longrightarrow> g' \<noteq> 0 \<Longrightarrow> gen_rank g = gen_rank g' \<longleftrightarrow> g = g'"
  by (metis One_nat_def Suc_pred gen_rank_def unat_gt_0 unat_inject)

lemma gen_rank_next:
  assumes "g \<noteq> 0"
  shows "gen_rank (next_generation g) = (gen_rank g + 1) mod (2 ^ 32 - 1)"
proof -
  have pos: "0 < unat g" using assms by (simp add: unat_gt_0)
  have lt: "unat g < 2 ^ 32" using unat_bound [of g] by simp
  show ?thesis
  proof (cases "unat g = 2 ^ 32 - 1")
    case True
    then have "unat (g + 1) = 0" by (simp add: unat_word_ariths)
    then have "next_generation g = 1" by (simp add: next_generation_def wmax_def unat_eq_0)
    with True show ?thesis by (simp add: gen_rank_def)
  next
    case False
    then have u: "unat (g + 1) = unat g + 1" using lt by (simp add: unat_word_ariths)
    then have "unat (next_generation g) = unat g + 1"
      using pos by (simp add: next_generation_def)
    then show ?thesis using False lt pos by (simp add: gen_rank_def)
  qed
qed

lemma next_generation_funpow_nonzero: "g \<noteq> 0 \<Longrightarrow> (next_generation ^^ d) g \<noteq> 0"
  by (induction d) (auto simp: next_generation_nonzero)

lemma gen_rank_funpow:
  assumes "g \<noteq> 0"
  shows "gen_rank ((next_generation ^^ d) g) = (gen_rank g + d) mod (2 ^ 32 - 1)"
proof (induction d)
  case 0
  have "gen_rank g < 2 ^ 32 - 1"
    using unat_bound [of g] assms unat_gt_0 [of g] by (simp add: gen_rank_def)
  then show ?case by simp
next
  case (Suc d)
  then show ?case
    using gen_rank_next [OF next_generation_funpow_nonzero [OF assms, of d]]
    by (simp add: mod_Suc_eq)
qed

lemma next_generation_period:
  assumes "g \<noteq> 0"
  shows "(next_generation ^^ d) g = g \<longleftrightarrow> (2 ^ 32 - 1) dvd d"
proof -
  have "(next_generation ^^ d) g = g \<longleftrightarrow> gen_rank ((next_generation ^^ d) g) = gen_rank g"
    using gen_rank_inject [OF next_generation_funpow_nonzero [OF assms] assms] by simp
  also have "\<dots> \<longleftrightarrow> (gen_rank g + d) mod (2 ^ 32 - 1) = gen_rank g mod (2 ^ 32 - 1)"
    using gen_rank_funpow [OF assms, of d] gen_rank_funpow [OF assms, of 0] by simp
  also have "\<dots> \<longleftrightarrow> (2 ^ 32 - 1) dvd d"
    using mod_eq_dvd_iff_nat [of "gen_rank g" "gen_rank g + d" "2 ^ 32 - 1"] by simp
  finally show ?thesis .
qed

text \<open>
  \<open>dead_since i g n st\<close>: slot \<open>i\<close> has been reused at most \<open>n\<close> times since it held generation \<open>g\<close>,
  and holds nothing when it still has that generation.
\<close>

definition dead_since :: "nat \<Rightarrow> u32 \<Rightarrow> nat \<Rightarrow> 'v thrown_value_store \<Rightarrow> bool" where
  "dead_since i g n st \<longleftrightarrow>
     i < length (slots st) \<and>
     (\<exists>d \<le> n. ts_generation (slots st ! i) = (next_generation ^^ d) g \<and>
        (d = 0 \<longrightarrow> ts_value (slots st ! i) = None))"

lemma dead_since_insert:
  assumes "dead_since i g n st" "store_insert ctx v st = Some (h, st')"
  shows "dead_since i g (Suc n) st'"
proof -
  from assms(1) obtain d where d: "d \<le> n" "ts_generation (slots st ! i) = (next_generation ^^ d) g"
      "d = 0 \<longrightarrow> ts_value (slots st ! i) = None" and i: "i < length (slots st)"
    by (auto simp: dead_since_def)
  show ?thesis
  proof (cases "free st \<noteq> [] \<and> last (free st) = i")
    case True
    with assms(2) i have "slots st' = (slots st)[i :=
        \<lparr>ts_generation = next_generation (ts_generation (slots st ! i)), ts_value = Some v\<rparr>]"
      by (auto simp: store_insert_def Let_def)
    with d i show ?thesis by (auto simp: dead_since_def intro!: exI [of _ "Suc d"])
  next
    case False
    with assms(2) i have "i < length (slots st')" "slots st' ! i = slots st ! i"
      by (auto simp: store_insert_def Let_def nth_append split: if_splits)
    with d show ?thesis by (auto simp: dead_since_def intro!: exI [of _ d])
  qed
qed

lemma dead_since_take:
  assumes "dead_since i g n st"
  shows "dead_since i g n (snd (store_take ctx h st))"
proof -
  let ?st = "snd (store_take ctx h st)"
  have "length (slots ?st) = length (slots st)"
    "ts_generation (slots ?st ! i) = ts_generation (slots st ! i)"
    "ts_value (slots st ! i) = None \<Longrightarrow> ts_value (slots ?st ! i) = None"
    using assms by (auto simp: store_take_def Let_def nth_list_update dead_since_def)
  with assms show ?thesis by (auto simp: dead_since_def)
qed

lemma dead_since_run:
  "dead_since i g n st \<Longrightarrow> store_run ops st = Some st' \<Longrightarrow>
    dead_since i g (n + length (filter is_insert ops)) st'"
proof (induction ops st arbitrary: n rule: store_run.induct)
  case (2 ctx v ops st)
  then obtain h st1 where "store_insert ctx v st = Some (h, st1)" "store_run ops st1 = Some st'"
    by (auto split: option.splits)
  with "2.IH" [OF _ refl, of h st1 "Suc n"] "2.prems"(1) show ?case
    by (simp add: is_insert_def dead_since_insert)
next
  case (3 ctx h ops st)
  then show ?case by (simp add: is_insert_def dead_since_take)
qed simp

lemma store_insert_handle:
  assumes "store_wf st" "store_small st" "store_insert ctx v st = Some (h, st')"
  shows "th_context_id h = ctx" "unat (th_id h) < length (slots st')"
    "ts_generation (slots st' ! unat (th_id h)) = th_generation h" "th_generation h \<noteq> 0"
  using assms store_wf_last_free [OF assms(1)]
  by (auto simp: store_insert_def Let_def store_small_def unat_of_nat_u32 next_generation_nonzero
      split: if_splits)

lemma dead_since_take_self:
  assumes "store_wf st" "store_small st" "store_insert ctx v st = Some (h, st')"
  shows "dead_since (unat (th_id h)) (th_generation h) 0 (snd (store_take ctx h st'))"
  using store_insert_handle [OF assms]
  by (simp add: dead_since_def store_take_def Let_def nth_list_update)

lemma dead_since_get:
  assumes "dead_since (unat (th_id h)) (th_generation h) n st" "th_generation h \<noteq> 0" "n < 2 ^ 32 - 1"
  shows "store_get ctx h st = None"
proof -
  from assms(1) obtain d where d: "d \<le> n"
      "ts_generation (slots st ! unat (th_id h)) = (next_generation ^^ d) (th_generation h)"
      "d = 0 \<longrightarrow> ts_value (slots st ! unat (th_id h)) = None"
    by (auto simp: dead_since_def)
  have "d = 0" if "(next_generation ^^ d) (th_generation h) = th_generation h"
    using that next_generation_period [OF assms(2), of d] d(1) assms(3)
    by (auto dest!: dvd_imp_le)
  with d show ?thesis by (auto simp: store_get_def Let_def)
qed

section \<open>The interface the context relies on\<close>

text \<open>
  What a client of the arena uses: a fresh handle answers the value it was given, other handles are
  unaffected, and taking a handle answers once and then never again. The context's accessors need
  nothing else.
\<close>

locale handle_arena =
  fixes ins :: "'v \<Rightarrow> 's \<Rightarrow> ('h \<times> 's) option"
    and look :: "'h \<Rightarrow> 's \<Rightarrow> 'v option"
    and tak :: "'h \<Rightarrow> 's \<Rightarrow> 'v option \<times> 's"
    and ok :: "'s \<Rightarrow> bool"
    and room :: "'s \<Rightarrow> bool"
  assumes ins_total: "ok s \<Longrightarrow> \<exists>h s'. ins v s = Some (h, s')"
    and ok_ins: "ok s \<Longrightarrow> ins v s = Some (h, s') \<Longrightarrow> ok s'"
    and look_ins: "ok s \<Longrightarrow> room s \<Longrightarrow> ins v s = Some (h, s') \<Longrightarrow>
      look k s' = (if k = h then Some v else look k s)"
    and fresh_ins: "ok s \<Longrightarrow> room s \<Longrightarrow> ins v s = Some (h, s') \<Longrightarrow> look h s = None"
    and ok_tak: "ok s \<Longrightarrow> ok (snd (tak h s))"
    and tak_value: "fst (tak h s) = look h s"
    and look_tak: "look k (snd (tak h s)) = (if k = h then None else look k s)"
begin

lemma ins_tak_roundtrip:
  assumes "ok s" "room s" "ins v s = Some (h, s')"
  shows "fst (tak h s') = Some v" and "look k (snd (tak h s')) = look k s"
  using look_ins [OF assms] fresh_ins [OF assms] by (simp_all add: tak_value look_tak)

lemma tak_once: "fst (tak h (snd (tak h s))) = None"
  by (simp add: tak_value look_tak)

lemma tak_commute:
  "fst (tak k (snd (tak h s))) = (if k = h then None else fst (tak k s))"
  by (simp add: tak_value look_tak)

end

interpretation thrown: handle_arena "store_insert ctx" "store_get ctx" "store_take ctx"
  store_wf store_small for ctx
proof unfold_locales
  fix s :: "'a thrown_value_store" and v h s' k
  show "store_wf s \<Longrightarrow> \<exists>h s'. store_insert ctx v s = Some (h, s')"
    by (rule store_insert_total)
  show "store_wf s \<Longrightarrow> store_insert ctx v s = Some (h, s') \<Longrightarrow> store_wf s'"
    by (rule store_wf_insert)
  show "store_wf s \<Longrightarrow> store_small s \<Longrightarrow> store_insert ctx v s = Some (h, s') \<Longrightarrow>
      store_get ctx k s' = (if k = h then Some v else store_get ctx k s)"
    using store_abs_insert(1) [of s ctx v h s'] by (auto simp: store_abs_def fun_eq_iff)
  show "store_wf s \<Longrightarrow> store_small s \<Longrightarrow> store_insert ctx v s = Some (h, s') \<Longrightarrow>
      store_get ctx h s = None"
    using store_abs_insert(2) [of s ctx v h s'] by (simp add: store_abs_def)
  show "store_wf s \<Longrightarrow> store_wf (snd (store_take ctx h s))"
    by (rule store_wf_take)
  show "fst (store_take ctx h s) = store_get ctx h s"
    by (rule store_take_fst)
  show "store_get ctx k (snd (store_take ctx h s)) = (if k = h then None else store_get ctx k s)"
    using store_abs_take [of ctx h s] by (auto simp: store_abs_def fun_eq_iff)
qed

section \<open>The context's accessors\<close>

text \<open>
  The part of a \<^verbatim>\<open>JSContext\<close> the accessors touch: its identifier and the \<^verbatim>\<open>thrown\<close> cell of its
  \<^verbatim>\<open>ContextOpaque\<close>, absent when the opaque pointer is null. The \<^verbatim>\<open>RefCell\<close> keeps a dynamic borrow
  state, which a nested call can find taken.
\<close>

datatype borrow_state = Unborrowed | Reading | Writing

record 'v js_context =
  cx_id :: usize
  cx_thrown :: "'v thrown_value_store option"
  cx_borrow :: borrow_state

datatype context_panic = Opaque_Empty | Store_Already_Borrowed | Slot_Out_Of_Range

definition capture_thrown ::
  "'v \<Rightarrow> 'v js_context \<Rightarrow> context_panic + (thrown_value_handle \<times> 'v js_context)" where
  "capture_thrown v cx =
     (case cx_thrown cx of
        None \<Rightarrow> Inl Opaque_Empty
      | Some st \<Rightarrow>
          if cx_borrow cx \<noteq> Unborrowed then Inl Store_Already_Borrowed
          else (case store_insert (cx_id cx) v st of
                  None \<Rightarrow> Inl Slot_Out_Of_Range
                | Some (h, st') \<Rightarrow> Inr (h, cx\<lparr>cx_thrown := Some st'\<rparr>)))"

definition resolve_thrown :: "thrown_value_handle \<Rightarrow> 'v js_context \<Rightarrow> 'v option" where
  "resolve_thrown h cx =
     (case cx_thrown cx of
        None \<Rightarrow> None
      | Some st \<Rightarrow> if cx_borrow cx = Writing then None else store_get (cx_id cx) h st)"

definition take_thrown :: "thrown_value_handle \<Rightarrow> 'v js_context \<Rightarrow> 'v option \<times> 'v js_context" where
  "take_thrown h cx =
     (case cx_thrown cx of
        None \<Rightarrow> (None, cx)
      | Some st \<Rightarrow>
          if cx_borrow cx \<noteq> Unborrowed then (None, cx)
          else (case store_take (cx_id cx) h st of
                  (v, st') \<Rightarrow> (v, cx\<lparr>cx_thrown := Some st'\<rparr>)))"

text \<open>A context outside any borrow of its store, with a well-formed arena that has room.\<close>

definition context_ready :: "'v js_context \<Rightarrow> bool" where
  "context_ready cx \<longleftrightarrow>
     cx_borrow cx = Unborrowed \<and>
     (case cx_thrown cx of None \<Rightarrow> False | Some st \<Rightarrow> store_wf st \<and> store_small st)"

definition context_wf :: "'v js_context \<Rightarrow> bool" where
  "context_wf cx \<longleftrightarrow> (case cx_thrown cx of None \<Rightarrow> True | Some st \<Rightarrow> store_wf st)"

lemma context_readyE:
  assumes "context_ready cx"
  obtains st where "cx_thrown cx = Some st" "cx_borrow cx = Unborrowed" "store_wf st" "store_small st"
  using assms by (auto simp: context_ready_def split: option.splits)

lemma capture_thrown_ready:
  assumes "context_ready cx"
  obtains h cx' where "capture_thrown v cx = Inr (h, cx')"
    "cx_id cx' = cx_id cx" "cx_borrow cx' = Unborrowed" "context_wf cx'"
proof -
  obtain st where st: "cx_thrown cx = Some st" "cx_borrow cx = Unborrowed" "store_wf st"
    using assms by (rule context_readyE)
  obtain h st' where ins: "store_insert (cx_id cx) v st = Some (h, st')"
    using thrown.ins_total [OF st(3), of "cx_id cx" v] by blast
  have "store_wf st'" by (rule thrown.ok_ins [OF st(3) ins])
  with st ins show ?thesis
    by (intro that [of h "cx\<lparr>cx_thrown := Some st'\<rparr>"])
      (simp_all add: capture_thrown_def context_wf_def)
qed

lemma resolve_after_capture:
  assumes "context_ready cx" "capture_thrown v cx = Inr (h, cx')"
  shows "resolve_thrown k cx' = (if k = h then Some v else resolve_thrown k cx)"
  using assms
  by (elim context_readyE)
    (auto simp: capture_thrown_def resolve_thrown_def thrown.look_ins split: option.splits)

lemma take_thrown_value:
  "cx_borrow cx = Unborrowed \<Longrightarrow> fst (take_thrown h cx) = resolve_thrown h cx"
  by (auto simp: take_thrown_def resolve_thrown_def thrown.tak_value [symmetric]
      split: option.splits prod.splits)

lemma resolve_after_take:
  "cx_borrow cx = Unborrowed \<Longrightarrow>
    resolve_thrown k (snd (take_thrown h cx)) = (if k = h then None else resolve_thrown k cx)"
  by (simp add: take_thrown_def resolve_thrown_def thrown.look_tak case_prod_beta
      split: option.splits)

lemma take_thrown_frame [simp]:
  "cx_id (snd (take_thrown h cx)) = cx_id cx" "cx_borrow (snd (take_thrown h cx)) = cx_borrow cx"
  by (auto simp: take_thrown_def split: option.splits prod.splits)

lemma take_thrown_wf: "context_wf cx \<Longrightarrow> context_wf (snd (take_thrown h cx))"
  by (auto simp: take_thrown_def context_wf_def thrown.ok_tak case_prod_beta split: option.splits)

lemmas thrown_access = capture_thrown_def resolve_thrown_def take_thrown_def

section \<open>Properties\<close>

text \<open>
  C10. The arena refines a partial map from handles to values: inserting into a well-formed store
  (with fewer than \<open>2 ^ 32\<close> slots, so that the 32-bit identifier is exact) succeeds, hands out a
  handle that resolved to nothing before, and updates the map at that handle only; taking a handle
  answers what the map held and deletes it, and both keep the store well-formed.
\<close>

theorem thrown_store_refines_map:
  assumes "store_wf st" "store_small st"
  shows "(\<exists>h st'. store_insert ctx v st = Some (h, st') \<and> store_wf st' \<and>
            store_abs ctx st h = None \<and> store_abs ctx st' = (store_abs ctx st)(h \<mapsto> v)) \<and>
         fst (store_take ctx k st) = store_abs ctx st k \<and>
         store_abs ctx (snd (store_take ctx k st)) = (store_abs ctx st)(k := None) \<and>
         store_wf (snd (store_take ctx k st))"
proof -
  obtain h st' where ins: "store_insert ctx v st = Some (h, st')"
    using store_insert_total [OF assms(1), of ctx v] by blast
  with assms have "store_insert ctx v st = Some (h, st') \<and> store_wf st' \<and>
      store_abs ctx st h = None \<and> store_abs ctx st' = (store_abs ctx st)(h \<mapsto> v)"
    by (intro conjI store_abs_insert store_wf_insert [OF assms(1) ins])
  moreover have "fst (store_take ctx k st) = store_abs ctx st k"
    by (simp add: store_take_fst store_abs_def)
  ultimately show ?thesis
    using store_abs_take [of ctx k st] store_wf_take [OF assms(1)] by blast
qed

theorem thrown_store_refines_map_witness:
  "store_wf (store_new :: nat thrown_value_store) \<and> store_small (store_new :: nat thrown_value_store) \<and>
   (\<exists>h st'. store_insert 3 (42 :: nat) store_new = Some (h, st') \<and> store_wf st' \<and>
      store_abs 3 store_new h = (None :: nat option) \<and>
      store_abs 3 st' = (store_abs 3 store_new)(h \<mapsto> 42))"
proof -
  have h: "store_wf (store_new :: nat thrown_value_store)" by (rule store_wf_new)
  have s: "store_small (store_new :: nat thrown_value_store)"
    by (simp add: store_small_def store_new_def)
  show ?thesis
    using h s thrown_store_refines_map [OF h s, of 3 42 "\<lparr>th_context_id = 3, th_id = 0, th_generation = 1\<rparr>"]
    by blast
qed

text \<open>
  C8. A spent handle stays dead although the slot is reused and its 32-bit generation wraps: after a
  handle was taken, any history of further insertions and removals with fewer than \<open>2 ^ 32 - 1\<close>
  insertions leaves it unresolvable. (The bound is exact for a single slot: the generations repeat
  with period \<open>2 ^ 32 - 1\<close>, see \<open>next_generation_period\<close>.)
\<close>

theorem spent_handle_stays_dead:
  assumes "store_wf st" "store_small st" "store_insert ctx v st = Some (h, st1)"
    and "length (filter is_insert ops) < 2 ^ 32 - 1"
  shows "\<exists>st2. store_run ops (snd (store_take ctx h st1)) = Some st2 \<and> store_get ctx h st2 = None"
proof -
  have "store_wf (snd (store_take ctx h st1))"
    by (intro store_wf_take store_wf_insert [OF assms(1,3)])
  then obtain st2 where run: "store_run ops (snd (store_take ctx h st1)) = Some st2"
    using store_run_wf by blast
  have "dead_since (unat (th_id h)) (th_generation h) (0 + length (filter is_insert ops)) st2"
    using dead_since_take_self [OF assms(1-3)] run by (rule dead_since_run)
  then have "store_get ctx h st2 = None"
    by (rule dead_since_get)
      (use assms store_insert_handle(4) [OF assms(1-3)] in simp_all)
  with run show ?thesis by blast
qed

theorem spent_handle_stays_dead_witness:
  "\<exists>h st1 st2. store_insert 3 (42 :: nat) store_new = Some (h, st1) \<and>
     store_run [Insert 3 43, Take 4 h] (snd (store_take 3 h st1)) = Some st2 \<and>
     store_get 3 h st2 = None"
proof -
  have s: "store_small (store_new :: nat thrown_value_store)"
    by (simp add: store_small_def store_new_def)
  obtain h st1 where ins: "store_insert 3 (42 :: nat) store_new = Some (h, st1)"
    using store_insert_total [OF store_wf_new, of 3 "42 :: nat"] by blast
  show ?thesis
    using spent_handle_stays_dead [OF store_wf_new s ins, of "[Insert 3 43, Take 4 h]"] ins
    by (auto simp: is_insert_def)
qed

text \<open>
  Capturing a thrown value and taking it back is a round trip: in a context that can capture,
  \<open>capture_thrown\<close> does not panic, the handle resolves to the value, \<open>take_thrown\<close> returns exactly
  that value, a second \<open>take_thrown\<close> returns nothing, and every other handle resolves as before.
\<close>

theorem capture_take_roundtrip:
  assumes "context_ready cx"
  shows "\<exists>h cx'. capture_thrown v cx = Inr (h, cx') \<and>
           resolve_thrown h cx' = Some v \<and>
           fst (take_thrown h cx') = Some v \<and>
           fst (take_thrown h (snd (take_thrown h cx'))) = None \<and>
           (\<forall>k. resolve_thrown k (snd (take_thrown h cx')) =
                 (if k = h then None else resolve_thrown k cx))"
proof -
  obtain h cx' where c: "capture_thrown v cx = Inr (h, cx')" "cx_borrow cx' = Unborrowed"
    using assms by (rule capture_thrown_ready)
  note r = resolve_after_capture [OF assms c(1)]
  show ?thesis
    using c r by (intro exI [of _ h] exI [of _ cx']) (simp add: take_thrown_value resolve_after_take)
qed

theorem capture_take_roundtrip_witness:
  "\<exists>h cx'. capture_thrown (7 :: nat) \<lparr>cx_id = 1, cx_thrown = Some store_new, cx_borrow = Unborrowed\<rparr> =
        Inr (h, cx') \<and> fst (take_thrown h cx') = Some 7"
proof -
  have "context_ready \<lparr>cx_id = 1, cx_thrown = Some (store_new :: nat thrown_value_store),
      cx_borrow = Unborrowed\<rparr>"
    by (simp add: context_ready_def store_wf_new) (simp add: store_small_def store_new_def)
  from capture_take_roundtrip [OF this, of 7] show ?thesis by blast
qed

end
