(* ===== verification/Host_Error.thy ===== *)
theory Host_Error
  imports Thrown_Store "HOL-Library.Multiset"
begin

text \<open>
  The error values of the Rust/JavaScript boundary, \<^verbatim>\<open>core/src/error.rs\<close>: stable codes, structured
  error data, \<^verbatim>\<open>HostError\<close> and its constructors, \<^verbatim>\<open>RongJSError\<close> (a host error or a captured JavaScript
  value) and the conversions between them. The JavaScript engine behind the traits
  (\<^verbatim>\<open>JSValueImpl\<close>, \<^verbatim>\<open>JSErrorFactory\<close>, \<^verbatim>\<open>JSExceptionThrower\<close>) is not part of the repository's Rust code, so the
  conversions take the engine's operations as a record of functions and nothing is assumed of them.
\<close>

section \<open>Stable codes\<close>

definition E_ABORT :: string where "E_ABORT = ''E_ABORT''"
definition E_ALREADY_EXISTS :: string where "E_ALREADY_EXISTS = ''E_ALREADY_EXISTS''"
definition E_COMPILE :: string where "E_COMPILE = ''E_COMPILE''"
definition E_ERROR :: string where "E_ERROR = ''E_ERROR''"
definition E_ILLEGAL_CONSTRUCTOR :: string where "E_ILLEGAL_CONSTRUCTOR = ''E_ILLEGAL_CONSTRUCTOR''"
definition E_INTERNAL :: string where "E_INTERNAL = ''E_INTERNAL''"
definition E_INVALID_ARG :: string where "E_INVALID_ARG = ''E_INVALID_ARG''"
definition E_INVALID_DATA :: string where "E_INVALID_DATA = ''E_INVALID_DATA''"
definition E_INTERRUPTED :: string where "E_INTERRUPTED = ''E_INTERRUPTED''"
definition E_INVALID_STATE :: string where "E_INVALID_STATE = ''E_INVALID_STATE''"
definition E_IO :: string where "E_IO = ''E_IO''"
definition E_JS_THROWN :: string where "E_JS_THROWN = ''E_JS_THROWN''"
definition E_MISSING_PROPERTY :: string where "E_MISSING_PROPERTY = ''E_MISSING_PROPERTY''"
definition E_NETWORK :: string where "E_NETWORK = ''E_NETWORK''"
definition E_NOT_ARRAY :: string where "E_NOT_ARRAY = ''E_NOT_ARRAY''"
definition E_NOT_ARRAY_BUFFER :: string where "E_NOT_ARRAY_BUFFER = ''E_NOT_ARRAY_BUFFER''"
definition E_NOT_EXCEPTION :: string where "E_NOT_EXCEPTION = ''E_NOT_EXCEPTION''"
definition E_NOT_FOUND :: string where "E_NOT_FOUND = ''E_NOT_FOUND''"
definition E_NOT_FUNCTION :: string where "E_NOT_FUNCTION = ''E_NOT_FUNCTION''"
definition E_NOT_SUPPORTED :: string where "E_NOT_SUPPORTED = ''E_NOT_SUPPORTED''"
definition E_NOT_TYPED_ARRAY :: string where "E_NOT_TYPED_ARRAY = ''E_NOT_TYPED_ARRAY''"
definition E_OUT_OF_RANGE :: string where "E_OUT_OF_RANGE = ''E_OUT_OF_RANGE''"
definition E_PERMISSION_DENIED :: string where "E_PERMISSION_DENIED = ''E_PERMISSION_DENIED''"
definition E_STREAM :: string where "E_STREAM = ''E_STREAM''"
definition E_TIMEOUT :: string where "E_TIMEOUT = ''E_TIMEOUT''"
definition E_TYPE :: string where "E_TYPE = ''E_TYPE''"

lemmas error_code_defs =
  E_ABORT_def E_ALREADY_EXISTS_def E_COMPILE_def E_ERROR_def E_ILLEGAL_CONSTRUCTOR_def
  E_INTERNAL_def E_INVALID_ARG_def E_INVALID_DATA_def E_INTERRUPTED_def E_INVALID_STATE_def
  E_IO_def E_JS_THROWN_def E_MISSING_PROPERTY_def E_NETWORK_def E_NOT_ARRAY_def
  E_NOT_ARRAY_BUFFER_def E_NOT_EXCEPTION_def E_NOT_FOUND_def E_NOT_FUNCTION_def
  E_NOT_SUPPORTED_def E_NOT_TYPED_ARRAY_def E_OUT_OF_RANGE_def E_PERMISSION_DENIED_def
  E_STREAM_def E_TIMEOUT_def E_TYPE_def

section \<open>Error data\<close>

text \<open>An \<^verbatim>\<open>i64\<close> and an \<^verbatim>\<open>f64\<close> are kept as their 64 bits; an object is a \<^verbatim>\<open>BTreeMap\<close>.\<close>

datatype error_number = I64 "64 word" | U64 u64 | F64 u64

datatype error_data =
    ED_Null
  | ED_Bool bool
  | ED_Number error_number
  | ED_String string
  | ED_Array "error_data list"
  | ED_Object "(string \<times> error_data) list"

definition error_number_from_f64 :: "u64 \<Rightarrow> error_number" where
  "error_number_from_f64 bits = F64 bits"

definition ed_as_str :: "error_data \<Rightarrow> string option" where
  "ed_as_str d = (case d of ED_String s \<Rightarrow> Some s | _ \<Rightarrow> None)"

definition ed_from_bool :: "bool \<Rightarrow> error_data" where "ed_from_bool b = ED_Bool b"
definition ed_from_string :: "string \<Rightarrow> error_data" where "ed_from_string s = ED_String s"
definition ed_from_f64 :: "u64 \<Rightarrow> error_data" where
  "ed_from_f64 bits = ED_Number (error_number_from_f64 bits)"
definition ed_from_i64 :: "64 word \<Rightarrow> error_data" where "ed_from_i64 v = ED_Number (I64 v)"
definition ed_from_i32 :: "32 word \<Rightarrow> error_data" where "ed_from_i32 v = ed_from_i64 (scast v)"
definition ed_from_i16 :: "16 word \<Rightarrow> error_data" where "ed_from_i16 v = ed_from_i64 (scast v)"
definition ed_from_i8 :: "8 word \<Rightarrow> error_data" where "ed_from_i8 v = ed_from_i64 (scast v)"
definition ed_from_u64 :: "u64 \<Rightarrow> error_data" where "ed_from_u64 v = ED_Number (U64 v)"
definition ed_from_u32 :: "u32 \<Rightarrow> error_data" where "ed_from_u32 v = ed_from_u64 (ucast v)"
definition ed_from_u16 :: "16 word \<Rightarrow> error_data" where "ed_from_u16 v = ed_from_u64 (ucast v)"
definition ed_from_u8 :: "u8 \<Rightarrow> error_data" where "ed_from_u8 v = ed_from_u64 (ucast v)"
definition ed_from_usize :: "usize \<Rightarrow> error_data" where "ed_from_usize v = ed_from_u64 v"

definition ed_from_option :: "('t \<Rightarrow> error_data) \<Rightarrow> 't option \<Rightarrow> error_data" where
  "ed_from_option into v = (case v of Some x \<Rightarrow> into x | None \<Rightarrow> ED_Null)"

definition ed_from_vec :: "('t \<Rightarrow> error_data) \<Rightarrow> 't list \<Rightarrow> error_data" where
  "ed_from_vec into v = ED_Array (map into v)"

text \<open>
  Both maps are collected into a \<^verbatim>\<open>BTreeMap\<close>, entry by entry in the iteration order of the source map:
  ascending for a \<^verbatim>\<open>BTreeMap\<close>, arbitrary for a \<^verbatim>\<open>HashMap\<close>.
\<close>

definition ed_from_map :: "('t \<Rightarrow> error_data) \<Rightarrow> (string \<times> 't) list \<Rightarrow> error_data" where
  "ed_from_map into m = ED_Object (bt_of_list (map (\<lambda>(k, v). (k, into v)) m))"

text \<open>The object form of the \<^verbatim>\<open>err_data!\<close> macro: insert the entries in the order they are written.\<close>

definition err_data_object :: "(string \<times> error_data) list \<Rightarrow> error_data" where
  "err_data_object kvs = ED_Object (bt_of_list kvs)"

section \<open>Host errors\<close>

record host_error =
  he_name :: string
  he_code :: string
  he_message :: string
  he_data :: "error_data option"
  he_thrown :: "thrown_value_handle option"

definition he_new :: "string \<Rightarrow> string \<Rightarrow> host_error" where
  "he_new code message =
     \<lparr>he_name = ''Error'', he_code = code, he_message = message, he_data = None, he_thrown = None\<rparr>"

definition with_name :: "string \<Rightarrow> host_error \<Rightarrow> host_error" where
  "with_name name e = e\<lparr>he_name := name\<rparr>"

definition with_data :: "error_data \<Rightarrow> host_error \<Rightarrow> host_error" where
  "with_data d e = e\<lparr>he_data := Some d\<rparr>"

definition type_error :: "string \<Rightarrow> string \<Rightarrow> host_error" where
  "type_error code message = with_name ''TypeError'' (he_new code message)"

definition range_error :: "string \<Rightarrow> string \<Rightarrow> host_error" where
  "range_error code message = with_name ''RangeError'' (he_new code message)"

definition invalid_arg_count :: "u32 \<Rightarrow> u32 \<Rightarrow> host_error" where
  "invalid_arg_count expected got =
     with_data (err_data_object [(''expected'', ed_from_u32 expected), (''got'', ed_from_u32 got)])
       (type_error E_INVALID_ARG
          (string_of_nat (unat expected) @ '' arguments required, but '' @
           string_of_nat (unat got) @ '' found''))"

definition not_array :: host_error where "not_array = type_error E_NOT_ARRAY ''Not JS Array''"
definition not_array_buffer :: host_error where
  "not_array_buffer = type_error E_NOT_ARRAY_BUFFER ''Not JS ArrayBuffer''"
definition not_exception :: host_error where
  "not_exception = type_error E_NOT_EXCEPTION ''Not JS Exception''"
definition not_function :: host_error where "not_function = type_error E_NOT_FUNCTION ''Not JS Function''"
definition not_object :: host_error where "not_object = type_error E_TYPE ''Not JS Object''"
definition not_symbol :: host_error where "not_symbol = type_error E_TYPE ''Not JS Symbol''"
definition not_proxy :: host_error where "not_proxy = type_error E_TYPE ''Not JS Proxy''"
definition not_typed_array :: host_error where
  "not_typed_array = type_error E_NOT_TYPED_ARRAY ''Not JS TypedArray''"

text \<open>Apostrophes of messages are the byte 39, which a string literal of the logic cannot hold.\<close>

definition quote_char :: char where "quote_char = CHR 0x27"

definition property_not_found :: "string \<Rightarrow> host_error" where
  "property_not_found name =
     with_name ''ReferenceError''
       (he_new E_MISSING_PROPERTY (''Property '' @ [quote_char] @ name @ [quote_char] @ '' Not Found''))"

definition once_fn_called :: host_error where
  "once_fn_called = he_new E_INVALID_STATE ''OnceFn had been called''"

definition typed_array_kind_mismatch :: "string \<Rightarrow> string \<Rightarrow> host_error" where
  "typed_array_kind_mismatch expected actual =
     type_error E_TYPE (''TypedArray kind mismatch: expected '' @ expected @ '', got '' @ actual)"

definition typed_array_alignment_error :: host_error where
  "typed_array_alignment_error =
     range_error E_OUT_OF_RANGE
       ''Invalid TypedArray alignment: byte_offset must be a multiple of element size''"

definition typed_array_range_error :: host_error where
  "typed_array_range_error =
     range_error E_OUT_OF_RANGE ''Invalid TypedArray range: offset or length exceeds buffer size''"

definition he_aborted :: "string option \<Rightarrow> host_error" where
  "he_aborted reason =
     (let err = with_name ''AbortError'' (he_new E_ABORT ''Operation aborted'') in
      case reason of
        Some r \<Rightarrow> err\<lparr>he_data := Some (err_data_object [(''reason'', ed_from_string r)])\<rparr>
      | None \<Rightarrow> err)"

lemmas host_error_defs = he_new_def with_name_def with_data_def type_error_def range_error_def

section \<open>Errors of the runtime\<close>

datatype rong_js_error = Host host_error | Thrown thrown_value_handle

type_synonym 'a js_result = "rong_js_error + 'a"

definition js_error_text :: "rong_js_error \<Rightarrow> string" where
  "js_error_text e =
     (case e of Host h \<Rightarrow> he_code h @ '': '' @ he_message h | Thrown _ \<Rightarrow> ''JavaScript threw a value'')"

definition illegal_constructor :: "string \<Rightarrow> 'a js_result" where
  "illegal_constructor message = Inl (Host (type_error E_ILLEGAL_CONSTRUCTOR message))"

definition as_host_error :: "rong_js_error \<Rightarrow> host_error option" where
  "as_host_error e = (case e of Host h \<Rightarrow> Some h | Thrown _ \<Rightarrow> None)"

definition error_code :: "rong_js_error \<Rightarrow> string option" where
  "error_code e = map_option he_code (as_host_error e)"

definition is_code :: "string \<Rightarrow> rong_js_error \<Rightarrow> bool" where
  "is_code c e \<longleftrightarrow> error_code e = Some c"

definition is_interrupted :: "rong_js_error \<Rightarrow> bool" where
  "is_interrupted e = is_code E_INTERRUPTED e"

definition is_timeout :: "rong_js_error \<Rightarrow> bool" where
  "is_timeout e = is_code E_TIMEOUT e"

definition is_thrown :: "rong_js_error \<Rightarrow> bool" where
  "is_thrown e \<longleftrightarrow> (case e of Thrown _ \<Rightarrow> True | Host _ \<Rightarrow> False)"

definition is_property_not_found :: "rong_js_error \<Rightarrow> bool" where
  "is_property_not_found e \<longleftrightarrow>
     (case e of Host h \<Rightarrow> he_code h = E_MISSING_PROPERTY | Thrown _ \<Rightarrow> False)"

definition is_not_support_bytecode :: "rong_js_error \<Rightarrow> bool" where
  "is_not_support_bytecode e \<longleftrightarrow>
     (case e of
        Host h \<Rightarrow>
          he_code h = E_NOT_SUPPORTED \<and>
          (case he_data h of
             Some (ED_Object m) \<Rightarrow>
               Option.bind (map_of m ''feature'') ed_as_str = Some ''bytecode''
           | _ \<Rightarrow> False)
      | Thrown _ \<Rightarrow> False)"

section \<open>Crossing to JavaScript\<close>

text \<open>
  The engine operations the conversions call. Objects are handed back updated; the conversions only
  update objects they have just created. \<open>e_to_string\<close> is \<^verbatim>\<open>String::from_js_value\<close> and \<open>e_get_string\<close> is
  \<^verbatim>\<open>get::<_, String>\<close>, both fallible; \<open>e_num_of_int\<close> is the double of an integer (\<^verbatim>\<open>v as f64\<close>).
\<close>

record 'v engine =
  e_null :: 'v
  e_undefined :: 'v
  e_bool :: "bool \<Rightarrow> 'v"
  e_string :: "string \<Rightarrow> 'v"
  e_num_of_int :: "int \<Rightarrow> 'v"
  e_num_of_bits :: "u64 \<Rightarrow> 'v"
  e_array_new :: "'v option"
  e_array_set :: "'v \<Rightarrow> u32 \<Rightarrow> 'v \<Rightarrow> 'v"
  e_object_new :: 'v
  e_object_set :: "'v \<Rightarrow> string \<Rightarrow> 'v \<Rightarrow> 'v"
  e_into_object :: "'v \<Rightarrow> 'v option"
  e_new_error :: "string \<Rightarrow> string \<Rightarrow> string option \<Rightarrow> 'v"
  e_is_error :: "'v \<Rightarrow> bool"
  e_to_string :: "'v \<Rightarrow> string option"
  e_get_string :: "'v \<Rightarrow> string \<Rightarrow> string option"
  e_throw :: "'v \<Rightarrow> 'v"

definition MAX_SAFE_INTEGER :: nat where "MAX_SAFE_INTEGER = 9007199254740991"

definition error_number_to_js :: "'v engine \<Rightarrow> error_number \<Rightarrow> 'v" where
  "error_number_to_js e n =
     (case n of
        I64 v \<Rightarrow> if nat \<bar>sint v\<bar> \<le> MAX_SAFE_INTEGER then e_num_of_int e (sint v)
                 else e_string e (string_of_int (sint v))
      | U64 v \<Rightarrow> if unat v \<le> MAX_SAFE_INTEGER then e_num_of_int e (uint v)
                 else e_string e (string_of_nat (unat v))
      | F64 bits \<Rightarrow> e_num_of_bits e bits)"

fun error_data_to_js_value :: "'v engine \<Rightarrow> error_data \<Rightarrow> 'v" where
  "error_data_to_js_value e ED_Null = e_null e"
| "error_data_to_js_value e (ED_Bool b) = e_bool e b"
| "error_data_to_js_value e (ED_String s) = e_string e s"
| "error_data_to_js_value e (ED_Number n) = error_number_to_js e n"
| "error_data_to_js_value e (ED_Array items) =
     (case e_array_new e of
        None \<Rightarrow> e_undefined e
      | Some a \<Rightarrow>
          fold (\<lambda>(i, v) arr. e_array_set e arr (of_nat i) v)
            (enumerate 0 (map (error_data_to_js_value e) items)) a)"
| "error_data_to_js_value e (ED_Object m) =
     fold (\<lambda>(k, v) obj. e_object_set e obj k v)
       (map (\<lambda>(k, d). (k, error_data_to_js_value e d)) m) (e_object_new e)"

definition host_error_object :: "'v engine \<Rightarrow> host_error \<Rightarrow> 'v js_context \<Rightarrow> 'v" where
  "host_error_object e host cx =
     (let obj = e_new_error e (he_name host) (he_message host) (Some (he_code host)) in
      if he_code host = E_JS_THROWN then
        (let data_obj =
               (case Option.bind (he_data host) (\<lambda>d. e_into_object e (error_data_to_js_value e d)) of
                  Some o' \<Rightarrow> o' | None \<Rightarrow> e_object_new e);
             resolved = Option.bind (he_thrown host) (\<lambda>h. resolve_thrown h cx);
             data_obj = (case resolved of
                           Some t \<Rightarrow> e_object_set e data_obj ''thrown'' t | None \<Rightarrow> data_obj);
             obj = (case resolved of
                      Some t \<Rightarrow> if e_is_error e t then e_object_set e obj ''cause'' t else obj
                    | None \<Rightarrow> obj)
         in e_object_set e obj ''data'' data_obj)
      else (case he_data host of
              Some d \<Rightarrow> e_object_set e obj ''data'' (error_data_to_js_value e d)
            | None \<Rightarrow> obj))"

definition into_host_in :: "'v engine \<Rightarrow> 'v js_context \<Rightarrow> rong_js_error \<Rightarrow> rong_js_error" where
  "into_host_in e cx err =
     (case err of
        Host host \<Rightarrow> Host host
      | Thrown h \<Rightarrow>
          (let thrown = resolve_thrown h cx;
               data = (case thrown of
                   Some t \<Rightarrow>
                     bt_insert ''is_error'' (ed_from_bool (e_is_error e t))
                       (case e_to_string e t of
                          Some s \<Rightarrow> bt_insert ''thrown'' (ed_from_string s) []
                        | None \<Rightarrow> [])
                 | None \<Rightarrow> bt_insert ''thrown'' (ed_from_string ''<unavailable>'') []);
               message =
                 (case Option.bind thrown
                     (\<lambda>t. Option.bind (e_into_object e t) (\<lambda>o'. e_get_string e o' ''message'')) of
                    Some m \<Rightarrow> m
                  | None \<Rightarrow>
                      (case Option.bind thrown (e_to_string e) of
                         Some m \<Rightarrow> m
                       | None \<Rightarrow> ''JavaScript threw a value''))
           in Host \<lparr>he_name = ''Error'', he_code = E_JS_THROWN, he_message = message,
                    he_data = Some (ED_Object data), he_thrown = Some h\<rparr>))"

definition invalid_handle_error :: "'v engine \<Rightarrow> 'v" where
  "invalid_handle_error e = e_new_error e ''Error'' ''Invalid thrown value handle'' (Some E_INTERNAL)"

text \<open>The \<^verbatim>\<open>Host\<close> branch of both exits drops the captured value once the error object carries it.\<close>

definition drop_host_thrown :: "host_error \<Rightarrow> 'v js_context \<Rightarrow> 'v js_context" where
  "drop_host_thrown host cx =
     (if he_code host = E_JS_THROWN then
        (case he_thrown host of Some h \<Rightarrow> snd (take_thrown h cx) | None \<Rightarrow> cx)
      else cx)"

definition throw_js_exception ::
  "'v engine \<Rightarrow> rong_js_error \<Rightarrow> 'v js_context \<Rightarrow> 'v \<times> 'v js_context" where
  "throw_js_exception e err cx =
     (case err of
        Thrown h \<Rightarrow>
          (case take_thrown h cx of
             (Some v, cx') \<Rightarrow> (e_throw e v, cx')
           | (None, cx') \<Rightarrow> (e_throw e (invalid_handle_error e), cx'))
      | Host host \<Rightarrow> (e_throw e (host_error_object e host cx), drop_host_thrown host cx))"

definition into_catch_value ::
  "'v engine \<Rightarrow> rong_js_error \<Rightarrow> 'v js_context \<Rightarrow> 'v \<times> 'v js_context" where
  "into_catch_value e err cx =
     (case err of
        Thrown h \<Rightarrow>
          (case take_thrown h cx of
             (Some v, cx') \<Rightarrow> (v, cx')
           | (None, cx') \<Rightarrow> (invalid_handle_error e, cx'))
      | Host host \<Rightarrow> (host_error_object e host cx, drop_host_thrown host cx))"

definition from_thrown_value ::
  "'v \<Rightarrow> 'v js_context \<Rightarrow> context_panic + (rong_js_error \<times> 'v js_context)" where
  "from_thrown_value v cx =
     (case capture_thrown v cx of Inl p \<Rightarrow> Inl p | Inr (h, cx') \<Rightarrow> Inr (Thrown h, cx'))"

definition thrown_value :: "rong_js_error \<Rightarrow> 'v js_context \<Rightarrow> 'v option" where
  "thrown_value err cx = (case err of Thrown h \<Rightarrow> resolve_thrown h cx | Host _ \<Rightarrow> None)"

definition result_into_js ::
  "'v engine \<Rightarrow> ('t \<Rightarrow> 'v) \<Rightarrow> 't js_result \<Rightarrow> 'v js_context \<Rightarrow> 'v \<times> 'v js_context" where
  "result_into_js e into r cx =
     (case r of Inr v \<Rightarrow> (into v, cx) | Inl err \<Rightarrow> throw_js_exception e err cx)"

section \<open>Facts\<close>

text \<open>The handle an error owns: the captured value it keeps alive in the context.\<close>

definition owned_handle :: "rong_js_error \<Rightarrow> thrown_value_handle option" where
  "owned_handle err =
     (case err of
        Thrown h \<Rightarrow> Some h
      | Host host \<Rightarrow> if he_code host = E_JS_THROWN then he_thrown host else None)"

lemma take_thrown_cases:
  obtains v cx' where "take_thrown h cx = (v, cx')"
  by (cases "take_thrown h cx")

lemma throw_is_catch:
  "throw_js_exception e err cx = (e_throw e (fst (into_catch_value e err cx)), snd (into_catch_value e err cx))"
  by (auto simp: throw_js_exception_def into_catch_value_def split: rong_js_error.splits prod.splits option.splits)

lemma into_catch_value_context:
  "snd (into_catch_value e err cx) =
     (case owned_handle err of Some h \<Rightarrow> snd (take_thrown h cx) | None \<Rightarrow> cx)"
  by (auto simp: into_catch_value_def owned_handle_def drop_host_thrown_def
      split: rong_js_error.splits prod.splits option.splits)

lemma error_code_Host [simp]: "error_code (Host h) = Some (he_code h)"
  by (simp add: error_code_def as_host_error_def)

lemma into_host_in_owned: "owned_handle (into_host_in e cx err) = owned_handle err"
  by (auto simp: into_host_in_def owned_handle_def Let_def split: rong_js_error.splits)

lemma into_host_in_host: "\<exists>h. into_host_in e cx err = Host h"
  by (auto simp: into_host_in_def Let_def split: rong_js_error.splits)

lemma bt_sorted_bt_of_list: "bt_sorted (bt_of_list kvs)"
proof -
  have "bt_sorted m \<Longrightarrow> bt_sorted (fold (\<lambda>(k, v). bt_insert k v) kvs m)" for m :: "'a btree"
    by (induction kvs arbitrary: m) (auto intro: bt_sorted_insert)
  then show ?thesis by (simp add: bt_of_list_def)
qed

lemma map_of_bt_of_list: "map_of (bt_of_list kvs) = map_of (rev kvs)"
proof -
  have "map_of (fold (\<lambda>(k, v). bt_insert k v) kvs m) = map_of m ++ map_of (rev kvs)" for m :: "'a btree"
  proof (induction kvs arbitrary: m)
    case (Cons kv kvs)
    then show ?case by (cases kv) (simp add: map_of_bt_insert fun_eq_iff map_add_def split: option.splits)
  qed simp
  then show ?thesis by (simp add: bt_of_list_def)
qed

lemma bt_of_list_perm:
  assumes "distinct (map fst kvs)" "mset kvs = mset kvs'"
  shows "bt_of_list kvs = bt_of_list kvs'"
proof (rule bt_sorted_ext)
  have d: "distinct (map fst kvs')"
    using assms by (metis mset_eq_imp_distinct_iff mset_map)
  have "set (rev kvs) = set (rev kvs')" using assms(2) mset_eq_setD by simp
  then show "map_of (bt_of_list kvs) = map_of (bt_of_list kvs')"
    using assms(1) d by (subst (1 2) map_of_bt_of_list) (simp add: map_of_inject_set rev_map [symmetric])
qed (rule bt_sorted_bt_of_list)+

section \<open>Properties\<close>

text \<open>A small concrete engine for the witnesses: values print as strings, numbers are tagged.\<close>

datatype toy_value = TV_Str string | TV_Num int | TV_Bits u64 | TV_Other "toy_value list"

definition toy_engine :: "toy_value engine" where
  "toy_engine = \<lparr>
     e_null = TV_Other [], e_undefined = TV_Other [], e_bool = (\<lambda>b. TV_Num (of_bool b)),
     e_string = TV_Str, e_num_of_int = TV_Num, e_num_of_bits = TV_Bits,
     e_array_new = Some (TV_Other []), e_array_set = (\<lambda>a i v. TV_Other [a, v]),
     e_object_new = TV_Other [], e_object_set = (\<lambda>a k v. TV_Other [a, TV_Str k, v]),
     e_into_object = (\<lambda>v. case v of TV_Other _ \<Rightarrow> Some v | _ \<Rightarrow> None),
     e_new_error = (\<lambda>n m c. TV_Other [TV_Str n, TV_Str m]), e_is_error = (\<lambda>v. False),
     e_to_string = (\<lambda>v. case v of TV_Str s \<Rightarrow> Some s | _ \<Rightarrow> None),
     e_get_string = (\<lambda>v k. None), e_throw = id\<rparr>"

definition toy_context :: "toy_value js_context" where
  "toy_context = \<lparr>cx_id = 1, cx_thrown = Some store_new, cx_borrow = Unborrowed\<rparr>"

lemma toy_context_ready: "context_ready toy_context"
  by (simp add: context_ready_def toy_context_def store_wf_new) (simp add: store_small_def store_new_def)

text \<open>
  A JavaScript value that crosses into Rust as an error comes back unchanged, once: capturing it
  (\<open>from_thrown_value\<close>) in a context that can capture gives an error whose \<open>thrown_value\<close> is the value,
  whose \<open>into_catch_value\<close> is the value itself and whose \<open>throw_js_exception\<close> throws the value itself;
  converting the same error a second time yields the \<^verbatim>\<open>Invalid thrown value handle\<close> error.
\<close>

theorem thrown_value_roundtrip:
  assumes "context_ready cx"
  shows "\<exists>err cx'. from_thrown_value v cx = Inr (err, cx') \<and> is_thrown err \<and>
           thrown_value err cx' = Some v \<and>
           fst (into_catch_value e err cx') = v \<and>
           fst (throw_js_exception e err cx') = e_throw e v \<and>
           fst (into_catch_value e err (snd (into_catch_value e err cx'))) = invalid_handle_error e"
proof -
  obtain h cx' where c: "capture_thrown v cx = Inr (h, cx')" "cx_borrow cx' = Unborrowed"
    using assms by (rule capture_thrown_ready)
  have r: "resolve_thrown h cx' = Some v"
    using resolve_after_capture [OF assms c(1), of h] by simp
  then have t: "fst (take_thrown h cx') = Some v" using c(2) by (simp add: take_thrown_value)
  then obtain cx2 where cx2: "take_thrown h cx' = (Some v, cx2)" by (metis prod.collapse)
  have "fst (take_thrown h cx2) = None"
    using take_thrown_value [of cx2 h] resolve_after_take [OF c(2), of h h] take_thrown_frame(2) [of h cx']
      cx2 c(2) by simp
  then obtain cx3 where "take_thrown h cx2 = (None, cx3)" by (metis prod.collapse)
  with c r cx2 show ?thesis
    by (intro exI [of _ "Thrown h"] exI [of _ cx'])
      (simp add: from_thrown_value_def is_thrown_def thrown_value_def into_catch_value_def
        throw_js_exception_def)
qed

theorem thrown_value_roundtrip_witness:
  "\<exists>err cx'. from_thrown_value (TV_Str ''boom'') toy_context = Inr (err, cx') \<and>
     fst (into_catch_value toy_engine err cx') = TV_Str ''boom''"
  using thrown_value_roundtrip [OF toy_context_ready, of "TV_Str ''boom''" toy_engine] by blast

text \<open>
  Converting an error to a JavaScript value releases what it captured: for an error that owns a
  handle (a thrown value, or the host error made from one by \<open>into_host_in\<close>, which keeps the handle and
  carries the code \<^verbatim>\<open>E_JS_THROWN\<close>), both exits leave that handle dead and every other handle untouched;
  an error that owns none leaves the context as it was.
\<close>

theorem error_conversion_releases_handle:
  assumes "cx_borrow cx = Unborrowed"
  shows "(\<forall>k. resolve_thrown k (snd (into_catch_value e err cx)) =
            (if owned_handle err = Some k then None else resolve_thrown k cx)) \<and>
         snd (throw_js_exception e err cx) = snd (into_catch_value e err cx) \<and>
         owned_handle (into_host_in e cx err) = owned_handle err \<and>
         (is_thrown err \<longrightarrow> error_code (into_host_in e cx err) = Some E_JS_THROWN) \<and>
         into_host_in e cx (into_host_in e cx err) = into_host_in e cx err"
proof -
  have "error_code (into_host_in e cx err) = Some E_JS_THROWN" if "is_thrown err"
    using that by (auto simp: is_thrown_def into_host_in_def Let_def split: rong_js_error.splits)
  moreover have "into_host_in e cx (into_host_in e cx err) = into_host_in e cx err"
  proof -
    obtain h where "into_host_in e cx err = Host h" using into_host_in_host by blast
    then show ?thesis by (simp add: into_host_in_def)
  qed
  ultimately show ?thesis
    using assms
    by (auto simp: resolve_after_take into_catch_value_context throw_is_catch into_host_in_owned split: option.splits)
qed

theorem error_conversion_releases_handle_witness:
  "resolve_thrown \<lparr>th_context_id = 1, th_id = 0, th_generation = 1\<rparr>
     (snd (into_catch_value toy_engine (Thrown \<lparr>th_context_id = 1, th_id = 0, th_generation = 1\<rparr>)
        toy_context)) = None"
  using error_conversion_releases_handle [of toy_context toy_engine
      "Thrown \<lparr>th_context_id = 1, th_id = 0, th_generation = 1\<rparr>"]
  by (simp add: toy_context_def owned_handle_def)

text \<open>
  Error data built from a hash map does not depend on the map's iteration order: two enumerations of
  the same entries give the same object, its keys strictly ascending, and looking a key up gives the
  converted entry.
\<close>

theorem ed_from_map_order_independent:
  assumes "distinct (map fst m)" "mset m = mset m'"
  shows "ed_from_map into m = ed_from_map into m' \<and>
         (\<exists>obj. ed_from_map into m = ED_Object obj \<and> bt_sorted obj \<and>
            map_of obj = map_option into \<circ> map_of m)"
proof -
  let ?f = "\<lambda>(k, v). (k, into v)"
  have d: "distinct (map fst (map ?f m))"
    using assms(1) by (simp add: comp_def case_prod_beta)
  have "mset (map ?f m) = mset (map ?f m')" using assms(2) by simp
  with d have eq: "ed_from_map into m = ed_from_map into m'"
    unfolding ed_from_map_def by (subst bt_of_list_perm [OF d]) auto
  have "map_of (bt_of_list (map ?f m)) = map_of (map ?f m)"
    using d map_of_inject_set [of "rev (map ?f m)" "map ?f m"]
    by (simp add: map_of_bt_of_list rev_map [symmetric])
  then show ?thesis
    using eq bt_sorted_bt_of_list by (auto simp: ed_from_map_def map_of_map)
qed

theorem ed_from_map_order_independent_witness:
  "ed_from_map ED_Bool [(''b'', True), (''a'', False)] = ed_from_map ED_Bool [(''a'', False), (''b'', True)]"
  using ed_from_map_order_independent [of "[(''b'', True), (''a'', False)]"
      "[(''a'', False), (''b'', True)]" ED_Bool]
  by simp

text \<open>
  64-bit counters survive the crossing to JavaScript: on any engine whose doubles are exact for
  integers of magnitude at most \<open>2 ^ 53 - 1\<close>, whose strings are faithful and which keeps numbers and strings
  apart, two different \<^verbatim>\<open>u64\<close> values (and two different \<^verbatim>\<open>i64\<close> values) never become the same JavaScript
  value, because larger ones are sent as decimal strings.
\<close>

theorem error_number_lossless:
  assumes "inj_on (e_num_of_int e) {i. \<bar>i\<bar> \<le> 2 ^ 53 - 1}" "inj (e_string e)"
    and "\<forall>i s. e_num_of_int e i \<noteq> e_string e s"
  shows "inj (error_number_to_js e \<circ> U64) \<and> inj (error_number_to_js e \<circ> I64)"
proof -
  have "inj (error_number_to_js e \<circ> U64)"
  proof (rule injI)
    fix a b :: u64
    assume "(error_number_to_js e \<circ> U64) a = (error_number_to_js e \<circ> U64) b"
    then have "uint a = uint b"
      using inj_onD [OF assms(1), of "uint a" "uint b"] assms(3)
        unat_le_uint [of a 9007199254740991] unat_le_uint [of b 9007199254740991]
      by (auto simp: error_number_to_js_def MAX_SAFE_INTEGER_def inj_eq [OF assms(2)]
          split: if_splits dest!: sym [of "e_string e _" "e_num_of_int e _"])
    then show "a = b" by (simp add: word_uint_eq_iff)
  qed
  moreover have "inj (error_number_to_js e \<circ> I64)"
  proof (rule injI)
    fix a b :: "64 word"
    assume "(error_number_to_js e \<circ> I64) a = (error_number_to_js e \<circ> I64) b"
    then have "sint a = sint b"
      using inj_onD [OF assms(1), of "sint a" "sint b"] assms(3)
      by (auto simp: error_number_to_js_def MAX_SAFE_INTEGER_def nat_le_iff inj_eq [OF assms(2)]
          split: if_splits dest!: sym [of "e_string e _" "e_num_of_int e _"])
    then show "a = b" by (simp add: signed_word_eqI)
  qed
  ultimately show ?thesis ..
qed

theorem error_number_lossless_witness:
  "inj (error_number_to_js toy_engine \<circ> U64) \<and> inj (error_number_to_js toy_engine \<circ> I64)"
  by (rule error_number_lossless) (auto simp: toy_engine_def inj_on_def)

end
