(* ===== verification/Interrupt.thy ===== *)
theory Interrupt
  imports Rong_Prelude
begin

text \<open>
  Cross-engine interruption, \<^verbatim>\<open>core/src/interrupt.rs\<close>: a handle shared by every clone of it (one flag the
  engine polls, the engine's support level, and the request counters under one mutex) and the guards
  that own a scoped request. Every mutation happens under the mutex and ends with the store of the flag,
  so each operation is one atomic step on the shared record. The transition system at the end lets any
  number of holders interleave the operations.
\<close>

section \<open>Data\<close>

definition SUPPORT_UNKNOWN :: u8 where "SUPPORT_UNKNOWN = 0"
definition SUPPORT_COOPERATIVE :: u8 where "SUPPORT_COOPERATIVE = 1"
definition SUPPORT_PREEMPTIVE :: u8 where "SUPPORT_PREEMPTIVE = 2"

lemmas support_consts = SUPPORT_UNKNOWN_def SUPPORT_COOPERATIVE_def SUPPORT_PREEMPTIVE_def

datatype interrupt_mode = Unbound | Cooperative | Preemptive

definition is_preemptive :: "interrupt_mode \<Rightarrow> bool" where
  "is_preemptive m \<longleftrightarrow> m = Preemptive"

record interrupt_handle =
  ih_flag :: bool
  ih_support :: u8
  ih_persistent :: bool
  ih_scoped :: usize

record interrupt_guard =
  ig_active :: bool

definition ih_new :: interrupt_handle where
  "ih_new = \<lparr>ih_flag = False, ih_support = SUPPORT_UNKNOWN, ih_persistent = False, ih_scoped = 0\<rparr>"

section \<open>Operations\<close>

definition ih_interrupt :: "interrupt_handle \<Rightarrow> interrupt_handle" where
  "ih_interrupt h = h\<lparr>ih_persistent := True, ih_flag := True\<rparr>"

definition ih_clear :: "interrupt_handle \<Rightarrow> interrupt_handle" where
  "ih_clear h = h\<lparr>ih_persistent := False, ih_flag := ih_scoped h \<noteq> 0\<rparr>"

text \<open>\<^const>\<open>None\<close>: the \<^verbatim>\<open>expect\<close> on the checked increment panics and nothing has been changed.\<close>

definition ih_interrupt_scoped :: "interrupt_handle \<Rightarrow> (interrupt_guard \<times> interrupt_handle) option" where
  "ih_interrupt_scoped h =
     (case checked_add (ih_scoped h) 1 of
        None \<Rightarrow> None
      | Some n \<Rightarrow> Some (\<lparr>ig_active = True\<rparr>, h\<lparr>ih_scoped := n, ih_flag := True\<rparr>))"

definition ih_is_interrupted :: "interrupt_handle \<Rightarrow> bool" where
  "ih_is_interrupted h = ih_flag h"

definition ih_mode :: "interrupt_handle \<Rightarrow> interrupt_mode" where
  "ih_mode h =
     (if ih_support h = SUPPORT_PREEMPTIVE then Preemptive
      else if ih_support h = SUPPORT_COOPERATIVE then Cooperative
      else Unbound)"

definition ih_bind_engine :: "bool \<Rightarrow> interrupt_handle \<Rightarrow> interrupt_handle" where
  "ih_bind_engine preemption h =
     h\<lparr>ih_support := (if preemption then SUPPORT_PREEMPTIVE else SUPPORT_COOPERATIVE)\<rparr>"

definition ig_release ::
  "interrupt_guard \<Rightarrow> interrupt_handle \<Rightarrow> interrupt_guard \<times> interrupt_handle" where
  "ig_release g h =
     (if \<not> ig_active g then (g, h)
      else (let n = saturating_sub (ih_scoped h) 1 in
            (g\<lparr>ig_active := False\<rparr>,
             h\<lparr>ih_scoped := n, ih_flag := ih_persistent h \<or> n \<noteq> 0\<rparr>)))"

text \<open>Dropping a guard releases it; \<^verbatim>\<open>clear\<close> consumes it, so it releases and then drops.\<close>

definition ig_drop :: "interrupt_guard \<Rightarrow> interrupt_handle \<Rightarrow> interrupt_handle" where
  "ig_drop g h = snd (ig_release g h)"

definition ig_clear :: "interrupt_guard \<Rightarrow> interrupt_handle \<Rightarrow> interrupt_handle" where
  "ig_clear g h = (case ig_release g h of (g', h') \<Rightarrow> ig_drop g' h')"

section \<open>The resource contract of scoped requests\<close>

text \<open>
  What an owner of a scoped request relies on: acquiring adds one request and gives a live guard;
  releasing a live guard removes exactly one; a released guard is inert.
\<close>

locale scoped_resource =
  fixes acquire :: "'h \<Rightarrow> ('g \<times> 'h) option"
    and release :: "'g \<Rightarrow> 'h \<Rightarrow> 'g \<times> 'h"
    and live :: "'g \<Rightarrow> bool"
    and held :: "'h \<Rightarrow> nat"
  assumes acquire_live: "acquire h = Some (g, h') \<Longrightarrow> live g"
    and acquire_held: "acquire h = Some (g, h') \<Longrightarrow> held h' = Suc (held h)"
    and release_dead_guard: "\<not> live (fst (release g h))"
    and release_live_held: "live g \<Longrightarrow> held (snd (release g h)) = held h - 1"
    and release_dead: "\<not> live g \<Longrightarrow> release g h = (g, h)"
begin

lemma release_twice: "release (fst (release g h)) h' = (fst (release g h), h')"
  by (rule release_dead [OF release_dead_guard])

lemma release_held: "held (snd (release g h)) = (if live g then held h - 1 else held h)"
  by (simp add: release_live_held release_dead)

lemma acquire_release_balanced:
  assumes "acquire h = Some (g, h1)" "held h2 = held h1 + n"
  shows "held (snd (release g h2)) = held h + n"
  using assms acquire_live [OF assms(1)] acquire_held [OF assms(1)] by (simp add: release_held)

end

definition ih_held :: "interrupt_handle \<Rightarrow> nat" where
  "ih_held h = unat (ih_scoped h)"

interpretation scoped: scoped_resource ih_interrupt_scoped ig_release ig_active ih_held
proof unfold_locales
  fix g h g' h'
  show "ih_interrupt_scoped h = Some (g, h') \<Longrightarrow> ig_active g"
    by (auto simp: ih_interrupt_scoped_def split: option.splits)
  show "ih_interrupt_scoped h = Some (g, h') \<Longrightarrow> ih_held h' = Suc (ih_held h)"
    by (auto simp: ih_interrupt_scoped_def ih_held_def dest!: unat_checked_add split: option.splits)
  show "\<not> ig_active (fst (ig_release g h))"
    by (simp add: ig_release_def Let_def)
  show "ig_active g \<Longrightarrow> ih_held (snd (ig_release g h)) = ih_held h - 1"
    by (simp add: ig_release_def Let_def ih_held_def unat_saturating_sub)
  show "\<not> ig_active g \<Longrightarrow> ig_release g h = (g, h)"
    by (simp add: ig_release_def)
qed

lemma ig_clear_eq_drop: "ig_clear g h = ig_drop g h"
  using scoped.release_twice [of g h]
  by (simp add: ig_clear_def ig_drop_def case_prod_beta)

section \<open>The flag\<close>

definition flag_ok :: "interrupt_handle \<Rightarrow> bool" where
  "flag_ok h \<longleftrightarrow> (ih_flag h \<longleftrightarrow> ih_persistent h \<or> ih_scoped h \<noteq> 0)"

lemma flag_ok_new: "flag_ok ih_new"
  by (simp add: flag_ok_def ih_new_def)

lemma flag_ok_interrupt [rong_inv]: "flag_ok (ih_interrupt h)"
  by (simp add: flag_ok_def ih_interrupt_def)

lemma flag_ok_clear [rong_inv]: "flag_ok (ih_clear h)"
  by (simp add: flag_ok_def ih_clear_def)

lemma scoped_nonzero: "ih_interrupt_scoped h = Some (g, h') \<Longrightarrow> ih_scoped h' \<noteq> 0"
  using scoped.acquire_held [of h g h'] by (auto simp: ih_held_def)

lemma flag_ok_scoped [rong_inv]: "ih_interrupt_scoped h = Some (g, h') \<Longrightarrow> flag_ok h'"
  using scoped_nonzero [of h g h']
  by (auto simp: flag_ok_def ih_interrupt_scoped_def split: option.splits)

lemma flag_ok_release [rong_inv]: "flag_ok h \<Longrightarrow> flag_ok (snd (ig_release g h))"
  by (simp add: flag_ok_def ig_release_def Let_def)

lemma flag_ok_bind [rong_inv]: "flag_ok h \<Longrightarrow> flag_ok (ih_bind_engine p h)"
  by (simp add: flag_ok_def ih_bind_engine_def)

lemma release_persistent [simp]: "ih_persistent (snd (ig_release g h)) = ih_persistent h"
  by (simp add: ig_release_def Let_def)

lemma scoped_persistent:
  "ih_interrupt_scoped h = Some (g, h') \<Longrightarrow> ih_persistent h' = ih_persistent h"
  by (auto simp: ih_interrupt_scoped_def split: option.splits)

lemma ih_held_simps [simp]:
  "ih_held (ih_interrupt h) = ih_held h" "ih_held (ih_clear h) = ih_held h"
  "ih_held (ih_bind_engine p h) = ih_held h" "ih_held ih_new = 0"
  by (simp_all add: ih_held_def ih_interrupt_def ih_clear_def ih_bind_engine_def ih_new_def)

section \<open>Any number of holders\<close>

text \<open>
  The handle together with the guards alive in the program, by name. A guard is released where it is
  (the explicit \<^verbatim>\<open>clear\<close> and the end of a scope both go through \<open>release\<close>) or dropped.
\<close>

record interrupt_system =
  is_handle :: interrupt_handle
  is_guards :: "nat \<rightharpoonup> interrupt_guard"

definition is_init :: interrupt_system where
  "is_init = \<lparr>is_handle = ih_new, is_guards = Map.empty\<rparr>"

inductive interrupt_step :: "interrupt_system \<Rightarrow> interrupt_system \<Rightarrow> bool" where
  persist: "interrupt_step s (s\<lparr>is_handle := ih_interrupt (is_handle s)\<rparr>)"
| clear: "interrupt_step s (s\<lparr>is_handle := ih_clear (is_handle s)\<rparr>)"
| bind: "interrupt_step s (s\<lparr>is_handle := ih_bind_engine p (is_handle s)\<rparr>)"
| scope: "is_guards s i = None \<Longrightarrow> ih_interrupt_scoped (is_handle s) = Some (g, h) \<Longrightarrow>
    interrupt_step s (s\<lparr>is_handle := h, is_guards := (is_guards s)(i \<mapsto> g)\<rparr>)"
| release: "is_guards s i = Some g \<Longrightarrow> ig_release g (is_handle s) = (g', h) \<Longrightarrow>
    interrupt_step s (s\<lparr>is_handle := h, is_guards := (is_guards s)(i \<mapsto> g')\<rparr>)"
| drop: "is_guards s i = Some g \<Longrightarrow>
    interrupt_step s
      (s\<lparr>is_handle := ig_drop g (is_handle s), is_guards := (is_guards s)(i := None)\<rparr>)"

inductive interrupt_reachable :: "interrupt_system \<Rightarrow> bool" where
  start: "interrupt_reachable is_init"
| step: "interrupt_reachable s \<Longrightarrow> interrupt_step s t \<Longrightarrow> interrupt_reachable t"

definition live_guards :: "interrupt_system \<Rightarrow> nat set" where
  "live_guards s = {i. \<exists>g. is_guards s i = Some g \<and> ig_active g}"

definition interrupt_inv :: "interrupt_system \<Rightarrow> bool" where
  "interrupt_inv s \<longleftrightarrow>
     flag_ok (is_handle s) \<and> finite (live_guards s) \<and> ih_held (is_handle s) = card (live_guards s)"

lemma live_guards_upd:
  "live_guards (s\<lparr>is_handle := h, is_guards := (is_guards s)(i := go)\<rparr>) =
     (case go of None \<Rightarrow> live_guards s - {i}
      | Some g \<Rightarrow> if ig_active g then insert i (live_guards s) else live_guards s - {i})"
  by (auto simp: live_guards_def split: option.splits)

lemma live_guards_handle [simp]: "live_guards (s\<lparr>is_handle := h\<rparr>) = live_guards s"
  by (simp add: live_guards_def)

lemma live_guards_iff: "is_guards s i = Some g \<Longrightarrow> i \<in> live_guards s \<longleftrightarrow> ig_active g"
  by (simp add: live_guards_def)

lemma interrupt_inv_release:
  assumes "interrupt_inv s" "is_guards s i = Some g" "go \<in> {None, Some (fst (ig_release g (is_handle s)))}"
  shows "interrupt_inv (s\<lparr>is_handle := snd (ig_release g (is_handle s)),
           is_guards := (is_guards s)(i := go)\<rparr>)"
proof -
  let ?s = "s\<lparr>is_handle := snd (ig_release g (is_handle s)), is_guards := (is_guards s)(i := go)\<rparr>"
  have lg: "live_guards ?s = live_guards s - {i}"
    using assms(3) scoped.release_dead_guard [of g "is_handle s"]
    by (auto simp: live_guards_upd split: option.splits)
  have "ih_held (is_handle ?s) = card (live_guards ?s)"
    using assms(1) live_guards_iff [OF assms(2)] lg
    by (auto simp: interrupt_inv_def scoped.release_held card_Diff_singleton_if)
  then show ?thesis
    using assms(1) lg by (auto simp: interrupt_inv_def intro: flag_ok_release)
qed

lemma interrupt_inv_step:
  assumes "interrupt_step s t" "interrupt_inv s"
  shows "interrupt_inv t"
  using assms
proof (induction rule: interrupt_step.induct)
  case (scope s i g h)
  have "live_guards (s\<lparr>is_handle := h, is_guards := (is_guards s)(i \<mapsto> g)\<rparr>) = insert i (live_guards s)"
    using scope scoped.acquire_live by (simp add: live_guards_upd)
  moreover have "i \<notin> live_guards s" using scope by (simp add: live_guards_def)
  ultimately show ?case
    using scope scoped.acquire_held flag_ok_scoped by (simp add: interrupt_inv_def)
next
  case (release s i g g' h)
  then show ?case
    using interrupt_inv_release [OF release(3,1), of "Some g'"] by simp
next
  case (drop s i g)
  then show ?case
    using interrupt_inv_release [OF drop(2,1), of None] by (simp add: ig_drop_def)
qed (auto simp: interrupt_inv_def intro: rong_inv)

lemma interrupt_reachable_inv: "interrupt_reachable s \<Longrightarrow> interrupt_inv s"
proof (induction rule: interrupt_reachable.induct)
  case start
  show ?case by (simp add: interrupt_inv_def is_init_def flag_ok_new live_guards_def)
next
  case (step s t)
  then show ?case by (blast intro: interrupt_inv_step)
qed

section \<open>Properties\<close>

lemma live_guards_nonempty_iff:
  "interrupt_inv s \<Longrightarrow> live_guards s \<noteq> {} \<longleftrightarrow> ih_scoped (is_handle s) \<noteq> 0"
  by (auto simp: interrupt_inv_def ih_held_def unat_eq_0)

text \<open>
  C9. The flag the engine polls is exact: in every state that any interleaving of holders can reach,
  it is raised exactly when a persistent request or some live guard's request is outstanding, the
  counter is the number of live guards (so the debug assertion in \<open>release\<close> cannot fail), and a new scoped
  request panics only when \<open>2 ^ 64 - 1\<close> guards are alive.
\<close>

theorem interrupt_flag_exact:
  assumes "interrupt_reachable s"
  shows "(ih_is_interrupted (is_handle s) \<longleftrightarrow> ih_persistent (is_handle s) \<or> live_guards s \<noteq> {}) \<and>
         ih_held (is_handle s) = card (live_guards s) \<and>
         (ih_interrupt_scoped (is_handle s) = None \<longleftrightarrow> card (live_guards s) = 2 ^ 64 - 1)"
proof -
  have inv: "interrupt_inv s" using assms by (rule interrupt_reachable_inv)
  have "ih_interrupt_scoped (is_handle s) = None \<longleftrightarrow> 2 ^ 64 \<le> ih_held (is_handle s) + 1"
    by (auto simp: ih_interrupt_scoped_def checked_add_def ih_held_def split: option.splits)
  also have "\<dots> \<longleftrightarrow> ih_held (is_handle s) = 2 ^ 64 - 1"
    using unat_bound [of "ih_scoped (is_handle s)"] by (auto simp: ih_held_def)
  finally show ?thesis
    using inv live_guards_nonempty_iff [OF inv]
    by (simp add: interrupt_inv_def ih_is_interrupted_def flag_ok_def)
qed

lemma reachable_one_guard:
  "interrupt_reachable \<lparr>is_handle = ih_new\<lparr>ih_scoped := 1, ih_flag := True\<rparr>,
     is_guards = [0 \<mapsto> \<lparr>ig_active = True\<rparr>]\<rparr>"
proof -
  have "interrupt_step is_init (is_init\<lparr>is_handle := ih_new\<lparr>ih_scoped := 1, ih_flag := True\<rparr>,
      is_guards := (is_guards is_init)(0 \<mapsto> \<lparr>ig_active = True\<rparr>)\<rparr>)"
    by (rule interrupt_step.scope)
      (simp_all add: is_init_def ih_interrupt_scoped_def checked_add_def ih_new_def)
  from interrupt_reachable.step [OF interrupt_reachable.start this]
  show ?thesis by (simp add: is_init_def)
qed

lemma live_guards_one:
  "live_guards \<lparr>is_handle = h, is_guards = [0 \<mapsto> \<lparr>ig_active = True\<rparr>]\<rparr> = {0}"
  by (auto simp: live_guards_def split: if_splits)

theorem interrupt_flag_exact_witness:
  "\<exists>s. interrupt_reachable s \<and> live_guards s = {0} \<and> ih_is_interrupted (is_handle s) \<and>
     ih_held (is_handle s) = 1"
  using interrupt_flag_exact [OF reachable_one_guard] reachable_one_guard
  by (intro exI [of _ "\<lparr>is_handle = ih_new\<lparr>ih_scoped := 1, ih_flag := True\<rparr>,
     is_guards = [0 \<mapsto> \<lparr>ig_active = True\<rparr>]\<rparr>"]) (simp add: live_guards_one)

text \<open>
  Scoped requests compose: dropping (or explicitly clearing) one guard withdraws that guard's
  request only, the runtime stays interrupted exactly while a persistent request or another live guard
  remains, and clearing the persistent request leaves every guard's request in force. A guard already
  released changes nothing.
\<close>

theorem release_only_own_request:
  assumes "interrupt_reachable s" "is_guards s i = Some g"
  shows "(ih_is_interrupted (ig_drop g (is_handle s)) \<longleftrightarrow>
            ih_persistent (is_handle s) \<or> live_guards s - {i} \<noteq> {}) \<and>
         ig_clear g (is_handle s) = ig_drop g (is_handle s) \<and>
         (ih_is_interrupted (ih_clear (is_handle s)) \<longleftrightarrow> live_guards s \<noteq> {}) \<and>
         (\<not> ig_active g \<longrightarrow> ig_drop g (is_handle s) = is_handle s)"
proof -
  have inv: "interrupt_inv s" using assms(1) by (rule interrupt_reachable_inv)
  let ?t = "s\<lparr>is_handle := snd (ig_release g (is_handle s)), is_guards := (is_guards s)(i := None)\<rparr>"
  have t: "interrupt_inv ?t" using interrupt_inv_release [OF inv assms(2), of None] by simp
  have "live_guards ?t = live_guards s - {i}" by (simp add: live_guards_upd)
  then have "ih_flag (snd (ig_release g (is_handle s))) \<longleftrightarrow>
      ih_persistent (is_handle s) \<or> live_guards s - {i} \<noteq> {}"
    using t live_guards_nonempty_iff [OF t] by (simp add: interrupt_inv_def flag_ok_def)
  then show ?thesis
    using live_guards_nonempty_iff [OF inv] scoped.release_dead
    by (simp add: ig_clear_eq_drop ig_drop_def ih_is_interrupted_def ih_clear_def)
qed

theorem release_only_own_request_witness:
  "\<not> ih_is_interrupted (ig_drop \<lparr>ig_active = True\<rparr> (ih_new\<lparr>ih_scoped := 1, ih_flag := True\<rparr>))"
  using release_only_own_request [OF reachable_one_guard, of 0 "\<lparr>ig_active = True\<rparr>"]
  by (simp add: live_guards_one) (simp add: ih_new_def)

end
