(* ===== verification/Task_Control.thy ===== *)
theory Task_Control
  imports Host_Error Interrupt
begin

text \<open>
  One task's execution control, \<^verbatim>\<open>TaskExecutionControl\<close> of \<^verbatim>\<open>core/src/shared.rs\<close>: the state that decides the
  race between a task's start, its completion and its deadline, and the timeout errors reported for it.
  Each operation holds the control's mutex from beginning to end, so it is one step on the pair of the
  control's state and the worker's shared interrupt handle. A poisoned mutex is recovered
  (\<^verbatim>\<open>into_inner\<close>), so a panic inside leaves the writes made before it.
\<close>

section \<open>Data\<close>

datatype task_execution_phase = Queued | Starting | Running | TimedOut | Finished

text \<open>An abort handle is named by the number of the task it aborts.\<close>

record task_execution_state =
  ex_phase :: task_execution_phase
  ex_abort_handle :: "nat option"
  ex_timeout :: "duration option"
  ex_timeout_interrupt :: "interrupt_guard option"

definition ex_new :: task_execution_state where
  "ex_new = \<lparr>ex_phase = Queued, ex_abort_handle = None, ex_timeout = None, ex_timeout_interrupt = None\<rparr>"

section \<open>Operations\<close>

definition begin_start :: "task_execution_state \<Rightarrow> bool \<times> task_execution_state" where
  "begin_start ex =
     (if ex_phase ex \<noteq> Queued then (False, ex) else (True, ex\<lparr>ex_phase := Starting\<rparr>))"

text \<open>
  The last component is the handle \<^verbatim>\<open>abort()\<close> is called on, if any. The debug assertion of the second
  branch (the phase is \<^verbatim>\<open>TimedOut\<close>) is proved of every reachable state of a worker.
\<close>

definition install_abort ::
  "nat \<Rightarrow> task_execution_state \<Rightarrow> bool \<times> task_execution_state \<times> nat option" where
  "install_abort a ex =
     (if ex_phase ex = Starting
      then (True, ex\<lparr>ex_phase := Running, ex_abort_handle := Some a\<rparr>, None)
      else (False, ex, Some a))"

text \<open>
  The answer is \<^const>\<open>None\<close> when taking the scoped request panics (the counter is exhausted): the phase and
  the timeout have been written, the guard has not.
\<close>

definition request_timeout ::
  "duration \<Rightarrow> interrupt_handle \<Rightarrow> task_execution_state \<Rightarrow>
     bool option \<times> task_execution_state \<times> interrupt_handle \<times> nat option" where
  "request_timeout d ih ex =
     (case ex_phase ex of
        Queued \<Rightarrow> (Some True, ex\<lparr>ex_phase := TimedOut, ex_timeout := Some d\<rparr>, ih, None)
      | TimedOut \<Rightarrow> (Some True, ex, ih, None)
      | Finished \<Rightarrow> (Some False, ex, ih, None)
      | _ \<Rightarrow>
          (case ih_interrupt_scoped ih of
             None \<Rightarrow> (None, ex\<lparr>ex_phase := TimedOut, ex_timeout := Some d\<rparr>, ih, None)
           | Some (g, ih') \<Rightarrow>
               (Some True,
                ex\<lparr>ex_phase := TimedOut, ex_timeout := Some d, ex_timeout_interrupt := Some g\<rparr>,
                ih', ex_abort_handle ex)))"

definition drop_guard :: "interrupt_guard option \<Rightarrow> interrupt_handle \<Rightarrow> interrupt_handle" where
  "drop_guard g ih = (case g of None \<Rightarrow> ih | Some g \<Rightarrow> ig_drop g ih)"

definition ex_finish ::
  "interrupt_handle \<Rightarrow> task_execution_state \<Rightarrow>
     duration option \<times> task_execution_state \<times> interrupt_handle" where
  "ex_finish ih ex =
     (ex_timeout ex,
      ex\<lparr>ex_phase := Finished, ex_abort_handle := None, ex_timeout := None, ex_timeout_interrupt := None\<rparr>,
      drop_guard (ex_timeout_interrupt ex) ih)"

section \<open>Timeout errors\<close>

text \<open>
  The debug format of a duration: the integer part in the largest unit that is not zero and the
  fraction without trailing zeros. The micro sign is two bytes of UTF-8.
\<close>

definition strip_zeros :: "string \<Rightarrow> string" where
  "strip_zeros s = rev (dropWhile (\<lambda>c. c = CHR ''0'') (rev s))"

definition pad_left :: "nat \<Rightarrow> string \<Rightarrow> string" where
  "pad_left n s = replicate (n - length s) (CHR ''0'') @ s"

definition fmt_decimal :: "nat \<Rightarrow> nat \<Rightarrow> nat \<Rightarrow> string \<Rightarrow> string" where
  "fmt_decimal whole frac width unit =
     string_of_nat whole @
     (if frac = 0 then '''' else ''.'' @ strip_zeros (pad_left width (string_of_nat frac))) @ unit"

definition duration_debug :: "duration \<Rightarrow> string" where
  "duration_debug ns =
     (if 1000000000 \<le> ns then fmt_decimal (ns div 1000000000) (ns mod 1000000000) 9 ''s''
      else if 1000000 \<le> ns then fmt_decimal (ns div 1000000) (ns mod 1000000) 6 ''ms''
      else if 1000 \<le> ns then fmt_decimal (ns div 1000) (ns mod 1000) 3 (CHR 0xC2 # CHR 0xB5 # ''s'')
      else string_of_nat ns @ ''ns'')"

definition timeout_millis :: "duration \<Rightarrow> u64" where
  "timeout_millis ns =
     (let ms = ns div 1000000 in if ms < 2 ^ 64 then of_nat ms else - 1)"

definition task_timeout_error :: "usize \<Rightarrow> duration \<Rightarrow> rong_js_error" where
  "task_timeout_error worker_id timeout =
     Host (with_data
       (err_data_object [(''worker_id'', ed_from_usize worker_id),
                         (''timeout_ms'', ed_from_u64 (timeout_millis timeout))])
       (with_name ''TimeoutError''
         (he_new E_TIMEOUT
            (''Worker task on worker '' @ string_of_nat (unat worker_id) @ '' timed out after '' @
             duration_debug timeout))))"

definition pool_timeout_error :: "duration \<Rightarrow> rong_js_error" where
  "pool_timeout_error timeout =
     Host (with_data (err_data_object [(''timeout_ms'', ed_from_u64 (timeout_millis timeout))])
       (with_name ''TimeoutError''
         (he_new E_TIMEOUT (''Worker pool task timed out after '' @ duration_debug timeout))))"

lemma is_timeout_task_timeout_error [simp]: "is_timeout (task_timeout_error w d)"
  by (simp add: is_timeout_def is_code_def task_timeout_error_def host_error_defs)

lemma unat_timeout_millis: "unat (timeout_millis ns) = min (ns div 1000000) (2 ^ 64 - 1)"
proof (cases "ns div 1000000 < 2 ^ 64")
  case True
  then show ?thesis by (simp add: timeout_millis_def Let_def unat_of_nat)
next
  case False
  then show ?thesis
    by (simp add: timeout_millis_def Let_def unsigned_minus_1_eq_mask mask_eq_exp_minus_1)
qed

section \<open>Invariant of one control\<close>

definition ex_guards :: "task_execution_state \<Rightarrow> nat" where
  "ex_guards ex = (case ex_timeout_interrupt ex of Some g \<Rightarrow> if ig_active g then 1 else 0 | None \<Rightarrow> 0)"

definition ex_wf :: "task_execution_state \<Rightarrow> bool" where
  "ex_wf ex \<longleftrightarrow>
     (ex_phase ex = TimedOut \<longleftrightarrow> ex_timeout ex \<noteq> None) \<and>
     (ex_timeout_interrupt ex \<noteq> None \<longrightarrow> ex_phase ex = TimedOut)"

lemma ex_wf_new [simp]: "ex_wf ex_new" "ex_guards ex_new = 0" "ex_phase ex_new = Queued"
  by (simp_all add: ex_wf_def ex_new_def ex_guards_def)

lemma ex_guards_update [simp]:
  "ex_guards (ex\<lparr>ex_phase := p\<rparr>) = ex_guards ex" "ex_guards (ex\<lparr>ex_timeout := d\<rparr>) = ex_guards ex"
  "ex_guards (ex\<lparr>ex_abort_handle := a\<rparr>) = ex_guards ex"
  by (simp_all add: ex_guards_def)

lemma ex_guards_not_timed_out: "ex_wf ex \<Longrightarrow> ex_phase ex \<noteq> TimedOut \<Longrightarrow> ex_guards ex = 0"
  by (auto simp: ex_wf_def ex_guards_def split: option.splits)

lemma ex_wf_begin_start [rong_inv]: "ex_wf ex \<Longrightarrow> ex_wf (snd (begin_start ex))"
  by (auto simp: begin_start_def ex_wf_def)

lemma ex_wf_install_abort [rong_inv]: "ex_wf ex \<Longrightarrow> ex_wf (fst (snd (install_abort a ex)))"
  by (auto simp: install_abort_def ex_wf_def)

lemma ex_wf_request_timeout [rong_inv]:
  "ex_wf ex \<Longrightarrow> ex_wf (fst (snd (request_timeout d ih ex)))"
  by (auto simp: request_timeout_def ex_wf_def
      split: task_execution_phase.splits option.splits prod.splits)

lemma ex_wf_finish [rong_inv]: "ex_wf (fst (snd (ex_finish ih ex)))"
  by (simp add: ex_finish_def ex_wf_def)

lemma ex_guards_begin_start: "ex_guards (snd (begin_start ex)) = ex_guards ex"
  by (simp add: begin_start_def ex_guards_def)

lemma ex_guards_install_abort: "ex_guards (fst (snd (install_abort a ex))) = ex_guards ex"
  by (simp add: install_abort_def ex_guards_def)

lemma ex_guards_finish: "ex_guards (fst (snd (ex_finish ih ex))) = 0"
  by (simp add: ex_finish_def ex_guards_def)

text \<open>Requests the handle holds beyond those of this control do not change.\<close>

lemma held_request_timeout:
  assumes "ex_wf ex" "request_timeout d ih ex = (ans, ex', ih', ab)"
  shows "ih_held ih' + ex_guards ex = ih_held ih + ex_guards ex'"
proof (cases "ih_interrupt_scoped ih")
  case None
  with assms show ?thesis
    by (auto simp: request_timeout_def ex_guards_def ex_wf_def
        split: task_execution_phase.splits option.splits)
next
  case (Some p)
  obtain g h where p: "ih_interrupt_scoped ih = Some (g, h)" using Some by (cases p) auto
  show ?thesis
    using assms p scoped.acquire_live [OF p] scoped.acquire_held [OF p]
    by (auto simp: request_timeout_def ex_guards_def ex_wf_def
        split: task_execution_phase.splits)
qed

lemma held_drop_guard:
  "ih_held (drop_guard go ih) =
     ih_held ih - (case go of Some g \<Rightarrow> if ig_active g then 1 else 0 | None \<Rightarrow> 0)"
  by (auto simp: drop_guard_def ig_drop_def scoped.release_held split: option.splits)

lemma held_finish:
  "ih_held (snd (snd (ex_finish ih ex))) = ih_held ih - ex_guards ex"
  by (simp add: ex_finish_def held_drop_guard ex_guards_def)

lemma flag_ok_request_timeout [rong_inv]:
  "flag_ok ih \<Longrightarrow> flag_ok (fst (snd (snd (request_timeout d ih ex))))"
  by (auto simp: request_timeout_def intro: rong_inv
      split: task_execution_phase.splits option.splits prod.splits)

lemma flag_ok_finish [rong_inv]: "flag_ok ih \<Longrightarrow> flag_ok (snd (snd (ex_finish ih ex)))"
  by (auto simp: ex_finish_def drop_guard_def ig_drop_def intro: rong_inv split: option.splits)

end
