(* ===== verification/Shared_Worker.thy ===== *)
theory Shared_Worker
  imports Task_Control
begin

text \<open>
  A worker of the shared pool, \<^verbatim>\<open>core/src/shared.rs\<close>: submission of tasks (\<^verbatim>\<open>spawn_inner\<close> and its
  \<^verbatim>\<open>InflightGuard\<close>), the loop that runs them on the worker's thread (\<^verbatim>\<open>run_worker_loop\<close>), the deadline of a
  \<^verbatim>\<open>TaskHandle\<close>, and \<^verbatim>\<open>Worker::join\<close>. The record holds everything the submitting threads and the worker
  thread share, and the loop's own variables. One transition is one uninterrupted stretch of code: between
  two transitions the other threads may run.

  The primitives of \<^verbatim>\<open>tokio\<close> and \<^verbatim>\<open>futures\<close> appear by their documented behaviour: a bounded channel is a
  list (sends append while there is room and the receiver lives, receives take the head), \<^verbatim>\<open>notify_one\<close>
  stores at most one permit, \<^verbatim>\<open>notify_waiters\<close> wakes only the futures that exist, an aborted future may end as
  \<^verbatim>\<open>Aborted\<close>. What a task's own code returns is arbitrary.
\<close>

section \<open>Data\<close>

datatype worker_state = Idle | Busy

datatype 'r oneshot = Waiting | Sent "'r js_result" | Sender_Dropped

text \<open>
  Where the loop is: in its \<^verbatim>\<open>select!\<close>, inside the user's future factory for a task it has claimed
  (\<^verbatim>\<open>begin_start\<close> succeeded, \<^verbatim>\<open>install_abort\<close> not yet called), about to send the result of a task whose control
  it has finished, about to count a task out whose result it has sent, in the drain after the loop, in the
  shutdown of the engine timers, or finished with the receiver dropped. The flag of the two stages of an
  answer says whether the drain gives it. Other threads can run between the stages.
\<close>

datatype 'r loop_pc =
    Selecting
  | Constructing nat
  | Answering nat "'r js_result" bool
  | Counting nat bool
  | Draining
  | Stopping
  | Stopped

record 'r worker =
  w_id :: usize
  w_capacity :: nat
  w_queue :: "nat list"
  w_tx_open :: bool
  w_rx_open :: bool
  w_term :: bool
  w_interrupt :: interrupt_handle
  w_ext_scoped :: nat
  w_inflight :: usize
  w_idle_events :: nat
  w_any_idle :: bool
  w_sending :: "nat list"
  w_execs :: "nat \<rightharpoonup> task_execution_state"
  w_aborted :: "nat set"
  w_results :: "nat \<Rightarrow> 'r oneshot"
  w_lost :: "nat list"
  w_pc :: "'r loop_pc"
  w_join :: "nat option"
  w_abort :: "nat option"
  w_result_tx :: "nat option"
  w_execution :: "nat option"
  w_shutting_down :: bool

definition worker_new :: "usize \<Rightarrow> nat \<Rightarrow> 'r worker" where
  "worker_new i cap = \<lparr>
     w_id = i, w_capacity = cap, w_queue = [], w_tx_open = True, w_rx_open = True, w_term = False,
     w_interrupt = ih_new, w_ext_scoped = 0, w_inflight = 0, w_idle_events = 0, w_any_idle = False,
     w_sending = [], w_execs = Map.empty, w_aborted = {}, w_results = (\<lambda>_. Waiting), w_lost = [],
     w_pc = Selecting, w_join = None, w_abort = None, w_result_tx = None, w_execution = None,
     w_shutting_down = False\<rparr>"

definition worker_state_of :: "'r worker \<Rightarrow> worker_state" where
  "worker_state_of w = (if w_inflight w = 0 then Idle else Busy)"

section \<open>The in-flight counter\<close>

definition increment_inflight :: "'r worker \<Rightarrow> 'r worker" where
  "increment_inflight w = w\<lparr>w_inflight := w_inflight w + 1\<rparr>"

definition reserve_if_idle :: "'r worker \<Rightarrow> bool \<times> 'r worker" where
  "reserve_if_idle w = (if w_inflight w = 0 then (True, w\<lparr>w_inflight := 1\<rparr>) else (False, w))"

text \<open>The wrapping decrement and the two notifications of the transition to zero.\<close>

definition decrement_inflight :: "'r worker \<Rightarrow> 'r worker" where
  "decrement_inflight w =
     (let w' = w\<lparr>w_inflight := w_inflight w - 1\<rparr> in
      if w_inflight w = 1
      then w'\<lparr>w_idle_events := Suc (w_idle_events w), w_any_idle := True\<rparr>
      else w')"

definition inflight_guard_drop :: "bool \<Rightarrow> 'r worker \<Rightarrow> 'r worker" where
  "inflight_guard_drop armed w = (if armed then decrement_inflight w else w)"

section \<open>Submitting a task\<close>

text \<open>
  \<^verbatim>\<open>spawn_inner\<close> up to its \<^verbatim>\<open>await\<close>: count the task in (unless the pool already reserved the worker), arm
  the guard, create its channels and its execution control. What follows is one of three: the send is
  accepted and the guard disarmed, the send fails because the receiver is gone, or the caller drops the
  future while it waits for room (the deadline of \<^verbatim>\<open>call_with_timeout\<close>); the last two drop the armed guard.
\<close>

definition spawn_begin :: "bool \<Rightarrow> nat \<Rightarrow> 'r worker \<Rightarrow> 'r worker" where
  "spawn_begin already_reserved t w =
     (let w = (if already_reserved then w else increment_inflight w) in
      w\<lparr>w_sending := t # w_sending w, w_execs := (w_execs w)(t \<mapsto> ex_new)\<rparr>)"

definition spawn_send :: "nat \<Rightarrow> 'r worker \<Rightarrow> 'r worker" where
  "spawn_send t w =
     inflight_guard_drop False (w\<lparr>w_sending := remove1 t (w_sending w), w_queue := w_queue w @ [t]\<rparr>)"

definition spawn_abandon :: "nat \<Rightarrow> 'r worker \<Rightarrow> 'r worker" where
  "spawn_abandon t w =
     inflight_guard_drop True
       (w\<lparr>w_sending := remove1 t (w_sending w), w_execs := (w_execs w)(t := None)\<rparr>)"

definition spawn_error :: "usize \<Rightarrow> string \<Rightarrow> rong_js_error" where
  "spawn_error worker_id cause =
     Host (he_new E_INTERNAL
       (''Failed to queue task on worker '' @ string_of_nat (unat worker_id) @ '': '' @ cause))"

section \<open>The deadline of a handle\<close>

definition mark_aborted :: "nat option \<Rightarrow> 'r worker \<Rightarrow> 'r worker" where
  "mark_aborted a w = (case a of None \<Rightarrow> w | Some t \<Rightarrow> w\<lparr>w_aborted := insert t (w_aborted w)\<rparr>)"

definition handle_timeout :: "nat \<Rightarrow> duration \<Rightarrow> 'r worker \<Rightarrow> bool option \<times> 'r worker" where
  "handle_timeout t d w =
     (case w_execs w t of
        None \<Rightarrow> (None, w)
      | Some ex \<Rightarrow>
          (case request_timeout d (w_interrupt w) ex of
             (answer, ex', ih', a) \<Rightarrow>
               (answer, mark_aborted a (w\<lparr>w_execs := (w_execs w)(t \<mapsto> ex'), w_interrupt := ih'\<rparr>))))"

definition receive_error :: "usize \<Rightarrow> string \<Rightarrow> rong_js_error" where
  "receive_error worker_id cause =
     Host (he_new E_INTERNAL
       (''Failed to receive task result from worker '' @ string_of_nat (unat worker_id) @ '': '' @ cause))"

definition downcast_error :: rong_js_error where
  "downcast_error = Host (he_new E_INTERNAL ''Downcast failed while reading task result'')"

text \<open>
  \<^verbatim>\<open>decode_result\<close> on what the oneshot receiver delivered; \<^const>\<open>None\<close> while it is still waiting. The downcast
  to the handle's type and the debug text of the receive error are the caller's.
\<close>

definition decode_result ::
  "('r \<Rightarrow> 'x option) \<Rightarrow> string \<Rightarrow> usize \<Rightarrow> 'r oneshot \<Rightarrow> 'x js_result option" where
  "decode_result downcast recv_err worker_id rx =
     (case rx of
        Waiting \<Rightarrow> None
      | Sender_Dropped \<Rightarrow> Some (Inl (receive_error worker_id recv_err))
      | Sent (Inl e) \<Rightarrow> Some (Inl e)
      | Sent (Inr v) \<Rightarrow>
          Some (case downcast v of Some x \<Rightarrow> Inr x | None \<Rightarrow> Inl downcast_error))"

text \<open>
  \<^verbatim>\<open>join_with_timeout_reported\<close>, given whether the wait elapsed before a result was there: the answer (if
  there is one yet) and the worker after the request. A request that panics never answers.
\<close>

definition join_with_timeout_reported ::
  "('r \<Rightarrow> 'x option) \<Rightarrow> string \<Rightarrow> nat \<Rightarrow> bool \<Rightarrow> duration \<Rightarrow> 'r worker \<Rightarrow>
     'x js_result option \<times> 'r worker" where
  "join_with_timeout_reported downcast recv_err t elapsed reported w =
     (if \<not> elapsed then (decode_result downcast recv_err (w_id w) (w_results w t), w)
      else
        (case handle_timeout t reported w of
           (Some True, w') \<Rightarrow> (Some (Inl (task_timeout_error (w_id w) reported)), w')
         | (Some False, w') \<Rightarrow> (decode_result downcast recv_err (w_id w) (w_results w' t), w')
         | (None, w') \<Rightarrow> (None, w')))"

text \<open>
  \<^verbatim>\<open>call_with_timeout\<close>: what came of the submission within the deadline (\<^const>\<open>None\<close>: the deadline passed
  while it waited for room), then the wait for the rest of the time. \<open>elapses\<close> tells of a duration whether
  waiting that long for the result runs out; \<open>spent\<close> is the time the submission took.
\<close>

definition call_with_timeout ::
  "('r \<Rightarrow> 'x option) \<Rightarrow> string \<Rightarrow> duration \<Rightarrow> (duration \<Rightarrow> bool) \<Rightarrow> duration \<Rightarrow> nat js_result option \<Rightarrow>
     'r worker \<Rightarrow> 'x js_result option \<times> 'r worker" where
  "call_with_timeout downcast recv_err timeout elapses spent submitted w =
     (case submitted of
        None \<Rightarrow> (Some (Inl (task_timeout_error (w_id w) timeout)), w)
      | Some (Inl e) \<Rightarrow> (Some (Inl e), w)
      | Some (Inr t) \<Rightarrow>
          join_with_timeout_reported downcast recv_err t (elapses (timeout - spent)) timeout w)"

section \<open>Waiting for the worker\<close>

text \<open>
  \<^verbatim>\<open>Worker::join\<close>, one uninterrupted stretch at a time: load the counter, then create the future of
  \<^verbatim>\<open>notified()\<close> (which only sees notifications sent after that), then wait for it and start over.
\<close>

datatype joiner = J_Check | J_Register | J_Wait nat | J_Done

definition join_step :: "'r worker \<Rightarrow> joiner \<Rightarrow> joiner" where
  "join_step w j =
     (case j of
        J_Check \<Rightarrow> if w_inflight w = 0 then J_Done else J_Register
      | J_Register \<Rightarrow> J_Wait (w_idle_events w)
      | J_Wait n \<Rightarrow> if n < w_idle_events w then J_Check else J_Wait n
      | J_Done \<Rightarrow> J_Done)"

section \<open>The loop on the worker's thread\<close>

datatype 'r task_outcome = Completed "'r js_result" | Aborted_Future | Join_Error string

definition panic_error :: "string \<Rightarrow> rong_js_error" where
  "panic_error cause = Host (he_new E_INTERNAL (''User task panicked or runtime dropped: '' @ cause))"

definition send_result :: "nat \<Rightarrow> 'r js_result \<Rightarrow> 'r worker \<Rightarrow> 'r worker" where
  "send_result t r w = w\<lparr>w_results := (w_results w)(t := Sent r)\<rparr>"

definition loop_end_check :: "'r worker \<Rightarrow> 'r worker" where
  "loop_end_check w =
     (if w_shutting_down w \<and> w_join w = None then w\<lparr>w_pc := Draining\<rparr> else w)"

text \<open>The handler of the termination signal.\<close>

definition on_terminate :: "'r worker \<Rightarrow> 'r worker" where
  "on_terminate w =
     loop_end_check
       (mark_aborted (w_abort w) (w\<lparr>w_term := False, w_shutting_down := True, w_abort := None\<rparr>))"

text \<open>Finish a task's control: its timeout, if its deadline won.\<close>

definition finish_task :: "nat \<Rightarrow> 'r worker \<Rightarrow> duration option \<times> 'r worker" where
  "finish_task t w =
     (case w_execs w t of
        None \<Rightarrow> (None, w)
      | Some ex \<Rightarrow>
          (case ex_finish (w_interrupt w) ex of
             (d, ex', ih') \<Rightarrow> (d, w\<lparr>w_execs := (w_execs w)(t \<mapsto> ex'), w_interrupt := ih'\<rparr>)))"

text \<open>
  Answering a task takes three stretches: its control is finished and its result decided, the result is sent,
  the counter is decremented. The variables of a running task are cleared after the send.
\<close>

definition send_answer :: "'r worker \<Rightarrow> 'r worker" where
  "send_answer w =
     (case w_pc w of
        Answering t r draining \<Rightarrow>
          send_result t r (w\<lparr>w_pc := Counting t draining, w_result_tx := None, w_join := None, w_abort := None\<rparr>)
      | _ \<Rightarrow> w)"

definition count_out :: "'r worker \<Rightarrow> 'r worker" where
  "count_out w =
     (case w_pc w of
        Counting t draining \<Rightarrow>
          loop_end_check (decrement_inflight (w\<lparr>w_pc := (if draining then Draining else Selecting)\<rparr>))
      | _ \<Rightarrow> w)"

text \<open>Decide the answer of a task whose deadline passed before it ran; \<^const>\<open>None\<close> is the panic of \<^verbatim>\<open>expect\<close>.\<close>

definition answer_cancelled :: "nat \<Rightarrow> 'r worker \<Rightarrow> 'r worker option" where
  "answer_cancelled t w =
     (case finish_task t w of
        (None, _) \<Rightarrow> None
      | (Some d, w') \<Rightarrow>
          Some (w'\<lparr>w_pc := Answering t (Inl (task_timeout_error (w_id w) d)) False\<rparr>))"

text \<open>The handler of a received task, up to the call of its future factory.\<close>

definition on_recv :: "'r worker \<Rightarrow> 'r worker option" where
  "on_recv w =
     (case w_queue w of
        [] \<Rightarrow> None
      | t # q \<Rightarrow>
          (let w = w\<lparr>w_queue := q\<rparr> in
           case w_execs w t of
             None \<Rightarrow> None
           | Some ex \<Rightarrow>
               (case begin_start ex of
                  (True, ex') \<Rightarrow>
                    Some (w\<lparr>w_execs := (w_execs w)(t \<mapsto> ex'), w_pc := Constructing t\<rparr>)
                | (False, ex') \<Rightarrow>
                    answer_cancelled t (w\<lparr>w_execs := (w_execs w)(t \<mapsto> ex')\<rparr>))))"

text \<open>The rest of that handler, once the factory has returned the future.\<close>

definition on_constructed :: "nat \<Rightarrow> 'r worker \<Rightarrow> 'r worker option" where
  "on_constructed t w =
     (case w_execs w t of
        None \<Rightarrow> None
      | Some ex \<Rightarrow>
          (case install_abort t ex of
             (True, ex', _) \<Rightarrow>
               Some (w\<lparr>w_execs := (w_execs w)(t \<mapsto> ex'), w_pc := Selecting, w_join := Some t,
                       w_abort := Some t, w_result_tx := Some t, w_execution := Some t\<rparr>)
           | (False, ex', a) \<Rightarrow>
               answer_cancelled t
                 (mark_aborted a (w\<lparr>w_execs := (w_execs w)(t \<mapsto> ex'), w_pc := Selecting\<rparr>))))"

definition on_channel_closed :: "'r worker \<Rightarrow> 'r worker" where
  "on_channel_closed w = loop_end_check (w\<lparr>w_shutting_down := True\<rparr>)"

definition final_result :: "usize \<Rightarrow> duration option \<Rightarrow> 'r task_outcome \<Rightarrow> 'r js_result" where
  "final_result worker_id timeout outcome =
     (case timeout of
        Some d \<Rightarrow> Inl (task_timeout_error worker_id d)
      | None \<Rightarrow>
          (case outcome of
             Completed r \<Rightarrow> r
           | Aborted_Future \<Rightarrow> Inl (Host (he_aborted None))
           | Join_Error cause \<Rightarrow> Inl (panic_error cause)))"

text \<open>The handler of the running task's end, up to the decision; without a sender only the counting is left.\<close>

definition on_task_result :: "'r task_outcome \<Rightarrow> 'r worker \<Rightarrow> 'r worker" where
  "on_task_result outcome w =
     (case (case w_execution w of None \<Rightarrow> (None, w) | Some t \<Rightarrow> finish_task t w) of
        (timeout, w) \<Rightarrow>
          (let w = w\<lparr>w_execution := None\<rparr>
           in case (w_result_tx w, w_join w) of
                (Some t, _) \<Rightarrow> w\<lparr>w_pc := Answering t (final_result (w_id w) timeout outcome) False\<rparr>
              | (None, Some t) \<Rightarrow> w\<lparr>w_pc := Counting t False, w_join := None, w_abort := None\<rparr>
              | (None, None) \<Rightarrow> w))"

text \<open>One turn of the drain after the loop.\<close>

definition drain_result :: "usize \<Rightarrow> duration option \<Rightarrow> 'r js_result" where
  "drain_result worker_id timeout =
     Inl (case timeout of Some d \<Rightarrow> task_timeout_error worker_id d | None \<Rightarrow> Host (he_aborted None))"

definition on_drain :: "'r worker \<Rightarrow> 'r worker" where
  "on_drain w =
     (case w_queue w of
        [] \<Rightarrow> w\<lparr>w_pc := Stopping\<rparr>
      | t # q \<Rightarrow>
          (case finish_task t (w\<lparr>w_queue := q\<rparr>) of
             (timeout, w') \<Rightarrow> w'\<lparr>w_pc := Answering t (drain_result (w_id w) timeout) True\<rparr>))"

text \<open>
  The end of the worker: the last notification, then the receiver goes out of scope; tasks that reached
  the channel after the drain saw it empty are dropped with it, and with them their result senders.
\<close>

definition on_stop :: "'r worker \<Rightarrow> 'r worker" where
  "on_stop w =
     (let w = (if w_inflight w = 0
               then w\<lparr>w_idle_events := Suc (w_idle_events w), w_any_idle := True\<rparr> else w)
      in w\<lparr>w_rx_open := False, w_pc := Stopped, w_lost := w_lost w @ w_queue w, w_queue := [],
           w_results := (\<lambda>t. if t \<in> set (w_queue w) then Sender_Dropped else w_results w t)\<rparr>)"

section \<open>Transitions\<close>

text \<open>The biased \<^verbatim>\<open>select!\<close> polls the termination signal first.\<close>

definition terminate_ready :: "'r worker \<Rightarrow> bool" where
  "terminate_ready w \<longleftrightarrow> w_term w \<and> \<not> w_shutting_down w"

definition drop_ext_guard :: "'r worker \<Rightarrow> 'r worker" where
  "drop_ext_guard w =
     w\<lparr>w_interrupt := ig_drop \<lparr>ig_active = True\<rparr> (w_interrupt w), w_ext_scoped := w_ext_scoped w - 1\<rparr>"

inductive worker_step :: "'r worker \<Rightarrow> 'r worker \<Rightarrow> bool" where
  spawn: "w_tx_open w \<Longrightarrow> w_execs w t = None \<Longrightarrow> worker_step w (spawn_begin False t w)"
| spawn_reserved: "w_tx_open w \<Longrightarrow> w_execs w t = None \<Longrightarrow> reserve_if_idle w = (True, w') \<Longrightarrow>
    worker_step w (spawn_begin True t w')"
| send: "t \<in> set (w_sending w) \<Longrightarrow> w_rx_open w \<Longrightarrow> length (w_queue w) < w_capacity w \<Longrightarrow>
    worker_step w (spawn_send t w)"
| abandon: "t \<in> set (w_sending w) \<Longrightarrow> worker_step w (spawn_abandon t w)"
| deadline: "w_execs w t \<noteq> None \<Longrightarrow> t \<notin> set (w_sending w) \<Longrightarrow>
    worker_step w (snd (handle_timeout t d w))"
| terminate: "worker_step w (w\<lparr>w_term := True\<rparr>)"
| interrupt: "worker_step w (w\<lparr>w_interrupt := ih_interrupt (w_interrupt w)\<rparr>)"
| clear_interrupt: "worker_step w (w\<lparr>w_interrupt := ih_clear (w_interrupt w)\<rparr>)"
| bind: "worker_step w (w\<lparr>w_interrupt := ih_bind_engine p (w_interrupt w)\<rparr>)"
| ext_scope: "ih_interrupt_scoped (w_interrupt w) = Some (g, ih) \<Longrightarrow>
    worker_step w (w\<lparr>w_interrupt := ih, w_ext_scoped := Suc (w_ext_scoped w)\<rparr>)"
| ext_drop: "0 < w_ext_scoped w \<Longrightarrow> worker_step w (drop_ext_guard w)"
| senders_dropped: "w_sending w = [] \<Longrightarrow> worker_step w (w\<lparr>w_tx_open := False\<rparr>)"
| take_any_idle: "w_any_idle w \<Longrightarrow> worker_step w (w\<lparr>w_any_idle := False\<rparr>)"
| loop_terminate: "w_pc w = Selecting \<Longrightarrow> terminate_ready w \<Longrightarrow> worker_step w (on_terminate w)"
| loop_recv: "w_pc w = Selecting \<Longrightarrow> \<not> terminate_ready w \<Longrightarrow> w_join w = None \<Longrightarrow>
    \<not> w_shutting_down w \<Longrightarrow> on_recv w = Some w' \<Longrightarrow> worker_step w w'"
| loop_closed: "w_pc w = Selecting \<Longrightarrow> \<not> terminate_ready w \<Longrightarrow> w_join w = None \<Longrightarrow>
    \<not> w_shutting_down w \<Longrightarrow> w_queue w = [] \<Longrightarrow> \<not> w_tx_open w \<Longrightarrow> worker_step w (on_channel_closed w)"
| loop_constructed: "w_pc w = Constructing t \<Longrightarrow> on_constructed t w = Some w' \<Longrightarrow> worker_step w w'"
| loop_result: "w_pc w = Selecting \<Longrightarrow> \<not> terminate_ready w \<Longrightarrow> w_join w = Some t \<Longrightarrow>
    (outcome = Aborted_Future \<longrightarrow> t \<in> w_aborted w) \<Longrightarrow> worker_step w (on_task_result outcome w)"
| loop_send: "w_pc w = Answering t r b \<Longrightarrow> worker_step w (send_answer w)"
| loop_count: "w_pc w = Counting t b \<Longrightarrow> worker_step w (count_out w)"
| loop_drain: "w_pc w = Draining \<Longrightarrow> worker_step w (on_drain w)"
| loop_stop: "w_pc w = Stopping \<Longrightarrow> worker_step w (on_stop w)"

inductive worker_reachable :: "usize \<Rightarrow> nat \<Rightarrow> 'r worker \<Rightarrow> bool" for i cap where
  start: "worker_reachable i cap (worker_new i cap)"
| step: "worker_reachable i cap w \<Longrightarrow> worker_step w w' \<Longrightarrow> worker_reachable i cap w'"

section \<open>Invariant\<close>

text \<open>The task the loop is occupied with, and every task that is counted in and not yet counted out.\<close>

definition busy_task :: "'r worker \<Rightarrow> nat option" where
  "busy_task w =
     (case w_pc w of Constructing t \<Rightarrow> Some t | Answering t _ _ \<Rightarrow> Some t | Counting t _ \<Rightarrow> Some t | _ \<Rightarrow> w_join w)"

definition counted_tasks :: "'r worker \<Rightarrow> nat list" where
  "counted_tasks w =
     w_sending w @ w_queue w @ (case busy_task w of Some t \<Rightarrow> [t] | None \<Rightarrow> []) @ w_lost w"

definition loop_wf :: "'r worker \<Rightarrow> bool" where
  "loop_wf w \<longleftrightarrow>
     w_result_tx w = w_join w \<and> w_abort w \<in> {None, w_join w} \<and>
     w_execution w = (case w_pc w of Answering _ _ _ \<Rightarrow> None | _ \<Rightarrow> w_join w) \<and>
     (case w_pc w of
        Selecting \<Rightarrow> (w_shutting_down w \<longrightarrow> w_join w \<noteq> None) \<and> w_rx_open w \<and> w_lost w = []
      | Constructing t \<Rightarrow> w_join w = None \<and> \<not> w_shutting_down w \<and> w_rx_open w \<and> w_lost w = []
      | Answering t _ b \<Rightarrow>
          w_join w \<in> {None, Some t} \<and> (b \<longrightarrow> w_join w = None \<and> w_shutting_down w) \<and> w_rx_open w \<and> w_lost w = []
      | Counting t b \<Rightarrow> w_join w = None \<and> (b \<longrightarrow> w_shutting_down w) \<and> w_rx_open w \<and> w_lost w = []
      | Stopped \<Rightarrow> w_join w = None \<and> w_shutting_down w \<and> \<not> w_rx_open w \<and> w_queue w = []
      | _ \<Rightarrow> w_join w = None \<and> w_shutting_down w \<and> w_rx_open w \<and> w_lost w = [])"

text \<open>What the control and the result channel of each task look like, by where the task is.\<close>

definition task_ok :: "'r worker \<Rightarrow> nat \<Rightarrow> bool" where
  "task_ok w t \<longleftrightarrow>
     (case w_execs w t of
        None \<Rightarrow> t \<notin> set (counted_tasks w) \<and> w_results w t = Waiting
      | Some ex \<Rightarrow>
          ex_wf ex \<and>
          (if t \<in> set (w_sending w) then ex_phase ex = Queued \<and> w_results w t = Waiting
           else if t \<in> set (w_queue w) then
             ex_phase ex \<in> {Queued, TimedOut} \<and> ex_guards ex = 0 \<and> w_results w t = Waiting
           else if busy_task w = Some t then
             (case w_pc w of
                Constructing _ \<Rightarrow> ex_phase ex \<in> {Starting, TimedOut} \<and> w_results w t = Waiting
              | Answering _ _ _ \<Rightarrow> ex_phase ex = Finished \<and> w_results w t = Waiting
              | Counting _ _ \<Rightarrow> ex_phase ex = Finished \<and> (\<exists>r. w_results w t = Sent r)
              | _ \<Rightarrow> ex_phase ex \<in> {Running, TimedOut} \<and> w_results w t = Waiting)
           else if t \<in> set (w_lost w) then
             ex_phase ex \<in> {Queued, TimedOut} \<and> ex_guards ex = 0 \<and> w_results w t = Sender_Dropped
           else ex_phase ex = Finished \<and> (\<exists>r. w_results w t = Sent r)))"

definition busy_guards :: "'r worker \<Rightarrow> nat" where
  "busy_guards w =
     (case busy_task w of
        None \<Rightarrow> 0
      | Some t \<Rightarrow> (case w_execs w t of None \<Rightarrow> 0 | Some ex \<Rightarrow> ex_guards ex))"

definition worker_inv :: "'r worker \<Rightarrow> bool" where
  "worker_inv w \<longleftrightarrow>
     loop_wf w \<and>
     w_inflight w = of_nat (length (counted_tasks w)) \<and>
     distinct (counted_tasks w) \<and>
     (\<forall>t. task_ok w t) \<and>
     flag_ok (w_interrupt w) \<and>
     ih_held (w_interrupt w) = w_ext_scoped w + busy_guards w"

lemma worker_inv_new: "worker_inv (worker_new i cap)"
  by (simp add: worker_inv_def worker_new_def loop_wf_def counted_tasks_def busy_task_def task_ok_def
      flag_ok_new busy_guards_def)

subsection \<open>Frames of the small updates\<close>

lemma decrement_frame [simp]:
  "w_id (decrement_inflight w) = w_id w" "w_capacity (decrement_inflight w) = w_capacity w"
  "w_queue (decrement_inflight w) = w_queue w" "w_tx_open (decrement_inflight w) = w_tx_open w"
  "w_rx_open (decrement_inflight w) = w_rx_open w" "w_term (decrement_inflight w) = w_term w"
  "w_interrupt (decrement_inflight w) = w_interrupt w"
  "w_ext_scoped (decrement_inflight w) = w_ext_scoped w"
  "w_inflight (decrement_inflight w) = w_inflight w - 1"
  "w_sending (decrement_inflight w) = w_sending w" "w_execs (decrement_inflight w) = w_execs w"
  "w_aborted (decrement_inflight w) = w_aborted w" "w_results (decrement_inflight w) = w_results w"
  "w_lost (decrement_inflight w) = w_lost w" "w_pc (decrement_inflight w) = w_pc w"
  "w_join (decrement_inflight w) = w_join w" "w_abort (decrement_inflight w) = w_abort w"
  "w_result_tx (decrement_inflight w) = w_result_tx w"
  "w_execution (decrement_inflight w) = w_execution w"
  "w_shutting_down (decrement_inflight w) = w_shutting_down w"
  by (simp_all add: decrement_inflight_def Let_def)

lemma mark_aborted_frame [simp]:
  "w_id (mark_aborted a w) = w_id w" "w_queue (mark_aborted a w) = w_queue w"
  "w_rx_open (mark_aborted a w) = w_rx_open w" "w_interrupt (mark_aborted a w) = w_interrupt w"
  "w_ext_scoped (mark_aborted a w) = w_ext_scoped w" "w_inflight (mark_aborted a w) = w_inflight w"
  "w_sending (mark_aborted a w) = w_sending w" "w_execs (mark_aborted a w) = w_execs w"
  "w_results (mark_aborted a w) = w_results w" "w_lost (mark_aborted a w) = w_lost w"
  "w_pc (mark_aborted a w) = w_pc w" "w_join (mark_aborted a w) = w_join w"
  "w_abort (mark_aborted a w) = w_abort w" "w_result_tx (mark_aborted a w) = w_result_tx w"
  "w_execution (mark_aborted a w) = w_execution w"
  "w_shutting_down (mark_aborted a w) = w_shutting_down w"
  by (simp_all add: mark_aborted_def split: option.splits)

lemma loop_end_check_frame [simp]:
  "w_id (loop_end_check w) = w_id w" "w_queue (loop_end_check w) = w_queue w"
  "w_rx_open (loop_end_check w) = w_rx_open w" "w_interrupt (loop_end_check w) = w_interrupt w"
  "w_ext_scoped (loop_end_check w) = w_ext_scoped w" "w_inflight (loop_end_check w) = w_inflight w"
  "w_sending (loop_end_check w) = w_sending w" "w_execs (loop_end_check w) = w_execs w"
  "w_results (loop_end_check w) = w_results w" "w_lost (loop_end_check w) = w_lost w"
  "w_join (loop_end_check w) = w_join w" "w_abort (loop_end_check w) = w_abort w"
  "w_result_tx (loop_end_check w) = w_result_tx w" "w_execution (loop_end_check w) = w_execution w"
  "w_shutting_down (loop_end_check w) = w_shutting_down w"
  "w_pc (loop_end_check w) = (if w_shutting_down w \<and> w_join w = None then Draining else w_pc w)"
  by (simp_all add: loop_end_check_def)

lemma send_result_frame [simp]:
  "w_id (send_result t r w) = w_id w" "w_queue (send_result t r w) = w_queue w"
  "w_rx_open (send_result t r w) = w_rx_open w" "w_interrupt (send_result t r w) = w_interrupt w"
  "w_ext_scoped (send_result t r w) = w_ext_scoped w" "w_inflight (send_result t r w) = w_inflight w"
  "w_sending (send_result t r w) = w_sending w" "w_execs (send_result t r w) = w_execs w"
  "w_results (send_result t r w) = (w_results w)(t := Sent r)" "w_lost (send_result t r w) = w_lost w"
  "w_pc (send_result t r w) = w_pc w" "w_join (send_result t r w) = w_join w"
  "w_abort (send_result t r w) = w_abort w" "w_result_tx (send_result t r w) = w_result_tx w"
  "w_execution (send_result t r w) = w_execution w"
  "w_shutting_down (send_result t r w) = w_shutting_down w"
  by (simp_all add: send_result_def)

lemma rest_frame [simp]:
  "w_term (mark_aborted a w) = w_term w" "w_tx_open (mark_aborted a w) = w_tx_open w"
  "w_capacity (mark_aborted a w) = w_capacity w" "w_idle_events (mark_aborted a w) = w_idle_events w"
  "w_term (loop_end_check w) = w_term w" "w_tx_open (loop_end_check w) = w_tx_open w"
  "w_capacity (loop_end_check w) = w_capacity w" "w_idle_events (loop_end_check w) = w_idle_events w"
  "w_term (send_result t r w) = w_term w" "w_tx_open (send_result t r w) = w_tx_open w"
  "w_capacity (send_result t r w) = w_capacity w" "w_idle_events (send_result t r w) = w_idle_events w"
  by (simp_all add: mark_aborted_def loop_end_check_def send_result_def split: option.splits)

lemma worker_inv_mark_aborted [simp]: "worker_inv (mark_aborted a w) = worker_inv w"
  by (simp add: worker_inv_def loop_wf_def counted_tasks_def busy_task_def task_ok_def busy_guards_def
      cong: option.case_cong loop_pc.case_cong)

lemmas inv_defs = worker_inv_def loop_wf_def counted_tasks_def busy_task_def task_ok_def busy_guards_def

lemma worker_invD:
  assumes "worker_inv w"
  shows "loop_wf w" "w_inflight w = of_nat (length (counted_tasks w))" "distinct (counted_tasks w)"
    "task_ok w t" "flag_ok (w_interrupt w)"
    "ih_held (w_interrupt w) = w_ext_scoped w + busy_guards w"
  using assms by (simp_all add: worker_inv_def)

lemma counted_tasks_iff:
  "t \<in> set (counted_tasks w) \<longleftrightarrow>
     t \<in> set (w_sending w) \<or> t \<in> set (w_queue w) \<or> busy_task w = Some t \<or> t \<in> set (w_lost w)"
  by (auto simp: counted_tasks_def split: option.splits)

lemma task_ok_cong:
  assumes "w_execs w' u = w_execs w u" "w_results w' u = w_results w u"
    and "u \<in> set (w_sending w') \<longleftrightarrow> u \<in> set (w_sending w)"
    and "u \<in> set (w_queue w') \<longleftrightarrow> u \<in> set (w_queue w)"
    and "u \<in> set (w_lost w') \<longleftrightarrow> u \<in> set (w_lost w)"
    and "busy_task w' = Some u \<longleftrightarrow> busy_task w = Some u"
    and "busy_task w = Some u \<Longrightarrow> w_pc w' = w_pc w"
  shows "task_ok w' u = task_ok w u"
proof (cases "busy_task w = Some u")
  case True
  show ?thesis unfolding task_ok_def counted_tasks_iff assms(1-6) assms(7) [OF True] by (rule refl)
next
  case False
  then show ?thesis unfolding task_ok_def counted_tasks_iff assms(1-6) by (simp cong: option.case_cong)
qed

subsection \<open>Submission keeps the invariant\<close>

lemma worker_inv_spawn_begin:
  assumes inv: "worker_inv w" and fresh: "w_execs w t = None"
  shows "worker_inv (spawn_begin False t w)"
proof -
  note d = worker_invD [OF inv]
  let ?w = "spawn_begin False t w"
  have sel: "w_sending ?w = t # w_sending w" "w_execs ?w = (w_execs w)(t \<mapsto> ex_new)"
    "w_inflight ?w = w_inflight w + 1" "w_queue ?w = w_queue w" "w_lost ?w = w_lost w"
    "w_results ?w = w_results w" "w_interrupt ?w = w_interrupt w" "w_ext_scoped ?w = w_ext_scoped w"
    "w_pc ?w = w_pc w" "w_join ?w = w_join w"
    by (simp_all add: spawn_begin_def increment_inflight_def Let_def)
  have b: "busy_task ?w = busy_task w" by (simp add: busy_task_def sel cong: loop_pc.case_cong)
  have t: "t \<notin> set (counted_tasks w)" "w_results w t = Waiting"
    using d(4) [of t] fresh by (simp_all add: task_ok_def)
  have "loop_wf ?w"
    using d(1) by (simp add: loop_wf_def spawn_begin_def increment_inflight_def Let_def cong: loop_pc.case_cong)
  moreover have "counted_tasks ?w = t # counted_tasks w"
    by (simp add: counted_tasks_def sel b)
  moreover have "task_ok ?w u" for u
  proof (cases "u = t")
    case True
    then show ?thesis using t by (simp add: task_ok_def sel)
  next
    case False
    then have "task_ok ?w u = task_ok w u" by (intro task_ok_cong) (simp_all add: sel b)
    then show ?thesis using d(4) by simp
  qed
  moreover have "busy_guards ?w = busy_guards w"
  proof -
    have "busy_task w \<noteq> Some t" using t by (auto simp: counted_tasks_def)
    then show ?thesis by (auto simp: busy_guards_def b sel split: option.splits)
  qed
  ultimately show ?thesis
    using d(2,3,5,6) t sel by (simp add: worker_inv_def)
qed

lemma worker_inv_spawn_reserved:
  assumes "worker_inv w" "w_execs w t = None" "reserve_if_idle w = (True, w')"
  shows "worker_inv (spawn_begin True t w')"
proof -
  have "spawn_begin True t w' = spawn_begin False t w"
    using assms(3)
    by (auto simp: reserve_if_idle_def spawn_begin_def increment_inflight_def split: if_splits)
  then show ?thesis using worker_inv_spawn_begin [OF assms(1,2)] by simp
qed

lemma worker_inv_spawn_send:
  assumes inv: "worker_inv w" and t: "t \<in> set (w_sending w)" and rx: "w_rx_open w"
  shows "worker_inv (spawn_send t w)"
proof -
  note d = worker_invD [OF inv]
  let ?w = "spawn_send t w"
  have sel: "w_sending ?w = remove1 t (w_sending w)" "w_queue ?w = w_queue w @ [t]"
    "w_execs ?w = w_execs w" "w_inflight ?w = w_inflight w" "w_lost ?w = w_lost w"
    "w_results ?w = w_results w" "w_interrupt ?w = w_interrupt w" "w_ext_scoped ?w = w_ext_scoped w"
    "w_pc ?w = w_pc w" "w_join ?w = w_join w"
    by (simp_all add: spawn_send_def inflight_guard_drop_def)
  have b: "busy_task ?w = busy_task w" by (simp add: busy_task_def sel cong: loop_pc.case_cong)
  have dist: "distinct (w_sending w)" using d(3) by (simp add: counted_tasks_def)
  have "loop_wf ?w"
    using d(1) rx by (auto simp: loop_wf_def spawn_send_def inflight_guard_drop_def split: loop_pc.splits)
  moreover have perm: "mset (counted_tasks ?w) = mset (counted_tasks w)"
    using t by (simp add: counted_tasks_def sel b)
  then have "length (counted_tasks ?w) = length (counted_tasks w)"
    "distinct (counted_tasks ?w) = distinct (counted_tasks w)"
    "set (counted_tasks ?w) = set (counted_tasks w)"
    by (auto dest: mset_eq_length mset_eq_imp_distinct_iff mset_eq_setD)
  moreover have "task_ok ?w u" for u
  proof (cases "u = t")
    case True
    then show ?thesis using d(4) [of t] t dist
      by (auto simp: task_ok_def sel b ex_guards_not_timed_out counted_tasks_iff split: option.splits)
  next
    case False
    then have "task_ok ?w u = task_ok w u" by (intro task_ok_cong) (simp_all add: sel b)
    then show ?thesis using d(4) by simp
  qed
  moreover have "busy_guards ?w = busy_guards w" by (simp add: busy_guards_def b sel cong: option.case_cong)
  ultimately show ?thesis
    using d(2,3,5,6) sel by (simp add: worker_inv_def)
qed

lemma worker_inv_spawn_abandon:
  assumes inv: "worker_inv w" and t: "t \<in> set (w_sending w)"
  shows "worker_inv (spawn_abandon t w)"
proof -
  note d = worker_invD [OF inv]
  let ?w = "spawn_abandon t w"
  have sel: "w_sending ?w = remove1 t (w_sending w)" "w_queue ?w = w_queue w"
    "w_execs ?w = (w_execs w)(t := None)" "w_inflight ?w = w_inflight w - 1" "w_lost ?w = w_lost w"
    "w_results ?w = w_results w" "w_interrupt ?w = w_interrupt w" "w_ext_scoped ?w = w_ext_scoped w"
    "w_pc ?w = w_pc w" "w_join ?w = w_join w"
    by (simp_all add: spawn_abandon_def inflight_guard_drop_def)
  have b: "busy_task ?w = busy_task w" by (simp add: busy_task_def sel cong: loop_pc.case_cong)
  have c: "counted_tasks ?w = remove1 t (counted_tasks w)"
    using t by (simp add: counted_tasks_def sel b remove1_append)
  have tc: "t \<in> set (counted_tasks w)" using t by (simp add: counted_tasks_def)
  have t': "t \<notin> set (w_queue w)" "busy_task w \<noteq> Some t" "t \<notin> set (w_lost w)" "distinct (w_sending w)"
    using d(3) t by (auto simp: counted_tasks_def)
  have "loop_wf ?w"
    using d(1) by (auto simp: loop_wf_def spawn_abandon_def inflight_guard_drop_def split: loop_pc.splits)
  moreover have "task_ok ?w u" for u
  proof (cases "u = t")
    case True
    then show ?thesis using d(4) [of t] t t'
      by (auto simp: task_ok_def sel b counted_tasks_iff split: option.splits)
  next
    case False
    then have "task_ok ?w u = task_ok w u" by (intro task_ok_cong) (simp_all add: sel b)
    then show ?thesis using d(4) by simp
  qed
  moreover have "busy_guards ?w = busy_guards w"
    using t' by (auto simp: busy_guards_def b sel split: option.splits)
  moreover have "w_inflight ?w = of_nat (length (counted_tasks ?w))"
    using d(2) sel c word_of_nat_remove1 [OF tc] by simp
  ultimately show ?thesis
    using d(3,5,6) sel c by (simp add: worker_inv_def)
qed

subsection \<open>Deadlines and finished tasks\<close>

text \<open>Updating one task's control and the interrupt handle together, as a deadline does.\<close>

lemma worker_inv_update_exec:
  assumes inv: "worker_inv w" and ex: "w_execs w t = Some ex" and wf: "ex_wf ex'"
    and ok: "task_ok (w\<lparr>w_execs := (w_execs w)(t \<mapsto> ex'), w_interrupt := ih'\<rparr>) t"
    and flag: "flag_ok ih'" and held: "ih_held ih' + ex_guards ex = ih_held (w_interrupt w) + ex_guards ex'"
    and busy: "busy_task w \<noteq> Some t \<Longrightarrow> ex_guards ex' = ex_guards ex"
  shows "worker_inv (w\<lparr>w_execs := (w_execs w)(t \<mapsto> ex'), w_interrupt := ih'\<rparr>)"
proof -
  note d = worker_invD [OF inv]
  let ?w = "w\<lparr>w_execs := (w_execs w)(t \<mapsto> ex'), w_interrupt := ih'\<rparr>"
  have b: "busy_task ?w = busy_task w" by (simp add: busy_task_def cong: loop_pc.case_cong)
  have c: "counted_tasks ?w = counted_tasks w" by (simp add: counted_tasks_def b)
  have "loop_wf ?w" using d(1) by (simp add: loop_wf_def cong: loop_pc.case_cong)
  moreover have "task_ok ?w u" for u
  proof (cases "u = t")
    case True
    then show ?thesis using ok by simp
  next
    case False
    then have "task_ok ?w u = task_ok w u" by (intro task_ok_cong) (simp_all add: b)
    then show ?thesis using d(4) by simp
  qed
  moreover have "ih_held ih' = w_ext_scoped w + busy_guards ?w"
  proof (cases "busy_task w = Some t")
    case True
    then show ?thesis using d(6) ex held by (simp add: busy_guards_def b)
  next
    case False
    then have "busy_guards ?w = busy_guards w"
      by (auto simp: busy_guards_def b split: option.splits)
    then show ?thesis using d(6) held busy [OF False] by simp
  qed
  ultimately show ?thesis using d(2,3) c flag by (simp add: worker_inv_def)
qed

lemma worker_inv_handle_timeout:
  assumes inv: "worker_inv w" and t: "t \<notin> set (w_sending w)"
  shows "worker_inv (snd (handle_timeout t dur w))"
proof (cases "w_execs w t")
  case None
  then show ?thesis using inv by (simp add: handle_timeout_def)
next
  case (Some ex)
  obtain ans ex' ih' ab where rt: "request_timeout dur (w_interrupt w) ex = (ans, ex', ih', ab)"
    by (metis prod_cases4)
  have ok: "task_ok w t" using worker_invD(4) [OF inv] .
  then have wf: "ex_wf ex" using Some by (simp add: task_ok_def)
  have wf': "ex_wf ex'" using ex_wf_request_timeout [OF wf, of dur "w_interrupt w"] rt by simp
  have fl: "flag_ok ih'"
    using flag_ok_request_timeout [OF worker_invD(5) [OF inv], of dur ex] rt by simp
  have place: "ex_guards ex' = ex_guards ex" if "busy_task w \<noteq> Some t"
    using ok rt Some t that
    by (auto simp: task_ok_def request_timeout_def ex_guards_def split: if_splits option.splits)
  have "task_ok (w\<lparr>w_execs := (w_execs w)(t \<mapsto> ex'), w_interrupt := ih'\<rparr>) t"
    using ok rt Some t wf' place
    by (auto simp: task_ok_def request_timeout_def busy_task_def
        split: task_execution_phase.splits if_splits option.splits prod.splits loop_pc.splits)
  then have "worker_inv (w\<lparr>w_execs := (w_execs w)(t \<mapsto> ex'), w_interrupt := ih'\<rparr>)"
    using inv Some wf' fl held_request_timeout [OF wf rt] place
    by (intro worker_inv_update_exec [where ex = ex]) auto
  then show ?thesis using Some rt by (simp add: handle_timeout_def)
qed

lemma finish_task_eq:
  "w_execs w t = Some ex \<Longrightarrow>
     finish_task t w =
       (ex_timeout ex,
        w\<lparr>w_execs := (w_execs w)(t \<mapsto> fst (snd (ex_finish (w_interrupt w) ex))),
          w_interrupt := snd (snd (ex_finish (w_interrupt w) ex))\<rparr>)"
  by (simp add: finish_task_def ex_finish_def)

text \<open>
  A decided answer: the task leaves the queue or goes on occupying the loop, its control is finished, which
  releases the interrupt its deadline raised. Every handler that answers a task is an instance.
\<close>

lemma worker_inv_decided:
  assumes inv: "worker_inv w" and ex: "w_execs w t = Some ex"
    and t: "t \<in> set (w_queue w) \<or> busy_task w = Some t" and busy: "busy_task w \<in> {None, Some t}"
    and r: "w_results w t = Waiting"
    and pc': "w_pc w' = Answering t r b" and wf': "loop_wf w'"
    and sel: "w_sending w' = w_sending w" "w_queue w' = remove1 t (w_queue w)" "w_lost w' = w_lost w"
      "w_execs w' = (w_execs w)(t \<mapsto> fst (snd (ex_finish (w_interrupt w) ex)))"
      "w_interrupt w' = snd (snd (ex_finish (w_interrupt w) ex))"
      "w_results w' = w_results w" "w_inflight w' = w_inflight w" "w_ext_scoped w' = w_ext_scoped w"
  shows "worker_inv w'"
proof -
  note d = worker_invD [OF inv]
  have busy': "busy_task w' = Some t" using pc' by (simp add: busy_task_def)
  have ns: "t \<notin> set (w_sending w)" "t \<notin> set (w_lost w)" "distinct (w_queue w)"
    "busy_task w = Some t \<Longrightarrow> t \<notin> set (w_queue w)"
    using d(3) t by (auto simp: counted_tasks_def)
  have perm: "mset (counted_tasks w') = mset (counted_tasks w)"
  proof (cases "busy_task w")
    case None
    then have "t \<in> set (w_queue w)" using t by simp
    then show ?thesis using None busy' by (simp add: counted_tasks_def sel)
  next
    case (Some u)
    then have "u = t" "t \<notin> set (w_queue w)" using busy ns(4) by simp_all
    then show ?thesis using Some busy' by (simp add: counted_tasks_def sel remove1_idem)
  qed
  have "task_ok w' u" for u
  proof (cases "u = t")
    case True
    then show ?thesis using ns busy' r pc'
      by (simp add: task_ok_def sel) (simp add: ex_finish_def ex_wf_def)
  next
    case False
    then have "task_ok w' u = task_ok w u"
      using busy busy' by (intro task_ok_cong) (auto simp: sel in_set_remove1)
    then show ?thesis using d(4) by simp
  qed
  moreover have "busy_guards w' = 0" using busy' by (simp add: busy_guards_def sel ex_guards_finish)
  moreover have "ih_held (w_interrupt w') = w_ext_scoped w'"
  proof (cases "busy_task w = Some t")
    case True
    then show ?thesis using d(6) ex by (simp add: sel held_finish busy_guards_def)
  next
    case False
    then have "ex_guards ex = 0" using d(4) [of t] t ns ex by (simp add: task_ok_def)
    then show ?thesis using False busy d(6) by (simp add: sel held_finish busy_guards_def)
  qed
  moreover have "flag_ok (w_interrupt w')"
    using d(5) by (simp add: sel flag_ok_finish)
  ultimately show ?thesis
    using wf' d(2,3) mset_eq_length [OF perm] mset_eq_imp_distinct_iff [OF perm]
    by (simp add: worker_inv_def sel)
qed

lemma answering_task:
  assumes inv: "worker_inv w" and pc: "w_pc w = Answering t r b \<or> w_pc w = Counting t b"
  obtains ex where "w_execs w t = Some ex" "ex_wf ex" "ex_phase ex = Finished" "busy_task w = Some t"
    "t \<notin> set (w_sending w)" "t \<notin> set (w_queue w)" "t \<notin> set (w_lost w)"
    "if w_pc w = Counting t b then \<exists>r. w_results w t = Sent r else w_results w t = Waiting"
proof -
  have bt: "busy_task w = Some t" using pc by (auto simp: busy_task_def)
  moreover from this have "t \<notin> set (w_sending w)" "t \<notin> set (w_queue w)" "t \<notin> set (w_lost w)"
    using worker_invD(3) [OF inv] by (auto simp: counted_tasks_def)
  ultimately show ?thesis
    using worker_invD(4) [OF inv, of t] pc that
    by (auto simp: task_ok_def counted_tasks_iff split: option.splits)
qed

lemma worker_inv_send_answer:
  assumes inv: "worker_inv w" and pc: "w_pc w = Answering t r b"
  shows "worker_inv (send_answer w)"
proof -
  note d = worker_invD [OF inv]
  let ?w = "send_answer w"
  obtain ex where ex: "w_execs w t = Some ex" "ex_wf ex" "ex_phase ex = Finished" "busy_task w = Some t"
    "t \<notin> set (w_sending w)" "t \<notin> set (w_queue w)" "t \<notin> set (w_lost w)"
    using answering_task [OF inv disjI1 [OF pc]] by blast
  have sel: "w_sending ?w = w_sending w" "w_queue ?w = w_queue w" "w_lost ?w = w_lost w" "w_execs ?w = w_execs w"
    "w_interrupt ?w = w_interrupt w" "w_results ?w = (w_results w)(t := Sent r)" "w_inflight ?w = w_inflight w"
    "w_ext_scoped ?w = w_ext_scoped w" "w_pc ?w = Counting t b"
    using pc by (simp_all add: send_answer_def)
  have b: "busy_task ?w = Some t" by (simp add: busy_task_def sel)
  have "task_ok ?w u" for u
  proof (cases "u = t")
    case True
    then show ?thesis using ex b by (simp add: task_ok_def sel)
  next
    case False
    then have "task_ok ?w u = task_ok w u" using ex(4) b by (intro task_ok_cong) (simp_all add: sel)
    then show ?thesis using d(4) by simp
  qed
  moreover have "loop_wf ?w" using d(1) pc by (auto simp: loop_wf_def send_answer_def)
  moreover have "counted_tasks ?w = counted_tasks w" by (simp add: counted_tasks_def sel b ex(4))
  moreover have "busy_guards ?w = busy_guards w" by (simp add: busy_guards_def sel b ex(4))
  ultimately show ?thesis using d by (simp add: worker_inv_def sel)
qed

lemma worker_inv_count_out:
  assumes inv: "worker_inv w" and pc: "w_pc w = Counting t b"
  shows "worker_inv (count_out w)"
proof -
  note d = worker_invD [OF inv]
  let ?w = "count_out w"
  obtain ex where ex: "w_execs w t = Some ex" "ex_wf ex" "ex_phase ex = Finished" "busy_task w = Some t"
    "t \<notin> set (w_sending w)" "t \<notin> set (w_queue w)" "t \<notin> set (w_lost w)" "\<exists>r. w_results w t = Sent r"
    using answering_task [OF inv disjI2 [OF pc]] pc by auto
  have j: "w_join w = None" using d(1) pc by (simp add: loop_wf_def)
  have sel: "w_sending ?w = w_sending w" "w_queue ?w = w_queue w" "w_lost ?w = w_lost w" "w_execs ?w = w_execs w"
    "w_interrupt ?w = w_interrupt w" "w_results ?w = w_results w" "w_inflight ?w = w_inflight w - 1"
    "w_ext_scoped ?w = w_ext_scoped w" "w_join ?w = None" "w_pc ?w \<in> {Selecting, Draining}"
    using pc j by (simp_all add: count_out_def)
  have b: "busy_task ?w = None" using sel(9,10) by (auto simp: busy_task_def)
  have tc: "t \<in> set (counted_tasks w)" using ex(4) by (simp add: counted_tasks_iff)
  have c: "counted_tasks ?w = remove1 t (counted_tasks w)"
    using ex(5,6,7) by (simp add: counted_tasks_def sel b ex(4) remove1_append remove1_idem)
  have "task_ok ?w u" for u
  proof (cases "u = t")
    case True
    then show ?thesis using ex b by (simp add: task_ok_def sel)
  next
    case False
    then have "task_ok ?w u = task_ok w u" using ex(4) b by (intro task_ok_cong) (simp_all add: sel)
    then show ?thesis using d(4) by simp
  qed
  moreover have "loop_wf ?w" using d(1) pc by (auto simp: loop_wf_def count_out_def)
  moreover have "busy_guards w = 0" using ex by (simp add: busy_guards_def ex_guards_not_timed_out)
  moreover have "busy_guards ?w = 0" by (simp add: busy_guards_def b)
  ultimately show ?thesis
    using d(2,3,5,6) c word_of_nat_remove1 [OF tc, where 'a = 64] by (simp add: worker_inv_def sel)
qed

subsection \<open>The loop keeps the invariant\<close>

lemma worker_inv_update_loop:
  assumes inv: "worker_inv w" and wf: "loop_wf w'" and busy: "busy_task w' = busy_task w"
    and pc: "\<And>u. busy_task w = Some u \<Longrightarrow> w_pc w' = w_pc w"
    and sel: "w_sending w' = w_sending w" "w_queue w' = w_queue w" "w_lost w' = w_lost w"
      "w_execs w' = w_execs w" "ih_held (w_interrupt w') = ih_held (w_interrupt w)"
      "flag_ok (w_interrupt w')" "w_results w' = w_results w" "w_inflight w' = w_inflight w"
      "w_ext_scoped w' = w_ext_scoped w"
  shows "worker_inv w'"
proof -
  have "task_ok w' u" for u
  proof -
    have "task_ok w' u = task_ok w u" by (intro task_ok_cong) (simp_all add: sel busy pc)
    then show ?thesis using worker_invD(4) [OF inv] by simp
  qed
  moreover have "counted_tasks w' = counted_tasks w" by (simp add: counted_tasks_def sel busy)
  moreover have "busy_guards w' = busy_guards w"
    by (simp add: busy_guards_def busy sel cong: option.case_cong)
  ultimately show ?thesis using worker_invD [OF inv] wf sel by (simp add: worker_inv_def)
qed

lemma worker_inv_on_terminate:
  assumes inv: "worker_inv w" and pc: "w_pc w = Selecting"
  shows "worker_inv (on_terminate w)"
proof (rule worker_inv_update_loop [OF inv])
  show "loop_wf (on_terminate w)"
    using worker_invD(1) [OF inv] pc by (auto simp: loop_wf_def on_terminate_def)
  show "busy_task (on_terminate w) = busy_task w"
    using pc by (simp add: busy_task_def on_terminate_def)
qed (use pc worker_invD [OF inv] in \<open>simp_all add: on_terminate_def busy_task_def\<close>)

lemma worker_inv_on_channel_closed:
  assumes inv: "worker_inv w" and pc: "w_pc w = Selecting" "w_join w = None"
  shows "worker_inv (on_channel_closed w)"
proof (rule worker_inv_update_loop [OF inv])
  show "loop_wf (on_channel_closed w)"
    using worker_invD(1) [OF inv] pc by (auto simp: loop_wf_def on_channel_closed_def)
  show "busy_task (on_channel_closed w) = busy_task w"
    using pc by (simp add: busy_task_def on_channel_closed_def)
qed (use pc worker_invD [OF inv] in \<open>simp_all add: on_channel_closed_def busy_task_def\<close>)

lemma answer_cancelled_eq:
  assumes "w_execs w t = Some ex" "ex_timeout ex = Some d"
  shows "answer_cancelled t w =
    Some ((snd (finish_task t w))\<lparr>w_pc := Answering t (Inl (task_timeout_error (w_id w) d)) False\<rparr>)"
  using assms by (simp add: answer_cancelled_def finish_task_eq)

lemma queued_exec:
  assumes inv: "worker_inv w" and q: "t \<in> set (w_queue w)"
  obtains ex where "w_execs w t = Some ex" "ex_wf ex" "ex_phase ex \<in> {Queued, TimedOut}"
    "ex_guards ex = 0" "w_results w t = Waiting"
proof -
  have "t \<notin> set (w_sending w)" using worker_invD(3) [OF inv] q by (auto simp: counted_tasks_def)
  then show ?thesis
    using worker_invD(4) [OF inv, of t] q that
    by (auto simp: task_ok_def counted_tasks_iff split: option.splits)
qed

lemma worker_inv_claim:
  assumes inv: "worker_inv w" and pc: "w_pc w = Selecting" "w_join w = None" "\<not> w_shutting_down w"
    and q: "w_queue w = t # q" and ex: "w_execs w t = Some ex" "ex_wf ex" "ex_phase ex = Queued"
  shows "worker_inv (w\<lparr>w_queue := q, w_execs := (w_execs w)(t \<mapsto> ex\<lparr>ex_phase := Starting\<rparr>),
            w_pc := Constructing t\<rparr>)"
    (is "worker_inv ?w")
proof -
  note d = worker_invD [OF inv]
  have b: "busy_task w = None" "busy_task ?w = Some t" using pc by (simp_all add: busy_task_def)
  have perm: "mset (counted_tasks ?w) = mset (counted_tasks w)"
    using q b by (simp add: counted_tasks_def)
  have tn: "t \<notin> set q" "t \<notin> set (w_sending w)" using d(3) q by (auto simp: counted_tasks_def)
  have g0: "ex_guards ex = 0" using ex(2,3) by (simp add: ex_guards_not_timed_out)
  have "task_ok ?w u" for u
  proof (cases "u = t")
    case True
    then show ?thesis using d(4) [of t] ex q tn b
      by (simp add: task_ok_def) (simp add: ex_wf_def)
  next
    case False
    then have "task_ok ?w u = task_ok w u"
      using q b pc by (intro task_ok_cong) auto
    then show ?thesis using d(4) by simp
  qed
  moreover have "loop_wf ?w" using d(1) pc by (simp add: loop_wf_def)
  moreover have "busy_guards ?w = 0" "busy_guards w = 0"
    using b g0 by (simp_all add: busy_guards_def)
  ultimately show ?thesis
    using d(2,3,5,6) mset_eq_length [OF perm] mset_eq_imp_distinct_iff [OF perm]
    by (simp add: worker_inv_def)
qed

lemma on_recv_inv:
  assumes inv: "worker_inv w" and pc: "w_pc w = Selecting" "w_join w = None" "\<not> w_shutting_down w"
    and q: "w_queue w = t # q"
  shows "\<exists>w'. on_recv w = Some w' \<and> worker_inv w'"
proof -
  have tq: "t \<in> set (w_queue w)" using q by simp
  obtain ex where ex: "w_execs w t = Some ex" "ex_wf ex" "ex_phase ex \<in> {Queued, TimedOut}" "w_results w t = Waiting"
    using queued_exec [OF inv tq] by blast
  have b: "busy_task w = None" using pc by (simp add: busy_task_def)
  show ?thesis
  proof (cases "ex_phase ex = Queued")
    case True
    then have "on_recv w = Some (w\<lparr>w_queue := q, w_execs := (w_execs w)(t \<mapsto> ex\<lparr>ex_phase := Starting\<rparr>),
        w_pc := Constructing t\<rparr>)"
      using q ex by (simp add: on_recv_def begin_start_def)
    with worker_inv_claim [OF inv pc q ex(1,2) True] show ?thesis by blast
  next
    case False
    then have "ex_phase ex = TimedOut" using ex(3) by simp
    then obtain d where dd: "ex_timeout ex = Some d" using ex(2) by (auto simp: ex_wf_def)
    define w1 where "w1 = w\<lparr>w_queue := q\<rparr>"
    have w1: "w_execs w1 t = Some ex" "w1\<lparr>w_execs := (w_execs w)(t \<mapsto> ex)\<rparr> = w1"
      using ex(1) by (simp_all add: w1_def map_upd_triv)
    define w' where "w' = (snd (finish_task t w1))\<lparr>w_pc := Answering t (Inl (task_timeout_error (w_id w1) d)) False\<rparr>"
    have r: "on_recv w = Some w'"
      using q ex(1) False w1 answer_cancelled_eq [OF w1(1) dd]
      by (simp add: on_recv_def begin_start_def w'_def w1_def [symmetric])
    have "worker_inv w'"
    proof (rule worker_inv_decided [OF inv ex(1)])
      show "w_pc w' = Answering t (Inl (task_timeout_error (w_id w1) d)) False" by (simp add: w'_def)
      show "loop_wf w'"
        using worker_invD(1) [OF inv] pc ex(1)
        by (simp add: w'_def loop_wf_def finish_task_eq [OF w1(1)]) (simp add: w1_def)
    qed (simp_all add: w'_def finish_task_eq [OF w1(1)],
         use tq b pc q ex(4) in \<open>simp_all add: w1_def\<close>)
    with r show ?thesis by blast
  qed
qed


lemma constructing_exec:
  assumes inv: "worker_inv w" and pc: "w_pc w = Constructing t"
  obtains ex where "w_execs w t = Some ex" "ex_wf ex" "ex_phase ex \<in> {Starting, TimedOut}"
    "w_results w t = Waiting" "t \<notin> set (w_queue w)" "t \<notin> set (w_sending w)"
proof -
  have "busy_task w = Some t" using pc by (simp add: busy_task_def)
  moreover from this have "t \<notin> set (w_sending w)" "t \<notin> set (w_queue w)"
    using worker_invD(3) [OF inv] by (auto simp: counted_tasks_def)
  ultimately show ?thesis
    using worker_invD(4) [OF inv, of t] that pc
    by (auto simp: task_ok_def counted_tasks_iff split: option.splits)
qed

lemma running_exec:
  assumes inv: "worker_inv w" and pc: "w_pc w = Selecting" "w_join w = Some t"
  obtains ex where "w_execs w t = Some ex" "ex_wf ex" "ex_phase ex \<in> {Running, TimedOut}"
    "w_results w t = Waiting" "t \<notin> set (w_queue w)" "t \<notin> set (w_sending w)"
proof -
  have "busy_task w = Some t" using pc by (simp add: busy_task_def)
  moreover from this have "t \<notin> set (w_sending w)" "t \<notin> set (w_queue w)"
    using worker_invD(3) [OF inv] by (auto simp: counted_tasks_def)
  ultimately show ?thesis
    using worker_invD(4) [OF inv, of t] that pc
    by (auto simp: task_ok_def counted_tasks_iff split: option.splits)
qed

lemma worker_inv_install:
  assumes inv: "worker_inv w" and pc: "w_pc w = Constructing t"
    and ex: "w_execs w t = Some ex" "ex_wf ex" "ex_phase ex = Starting"
  shows "worker_inv (w\<lparr>w_execs := (w_execs w)(t \<mapsto> ex\<lparr>ex_phase := Running, ex_abort_handle := Some t\<rparr>),
            w_pc := Selecting, w_join := Some t, w_abort := Some t, w_result_tx := Some t,
            w_execution := Some t\<rparr>)"
    (is "worker_inv ?w")
proof -
  note d = worker_invD [OF inv]
  have b: "busy_task w = Some t" "busy_task ?w = Some t" using pc by (simp_all add: busy_task_def)
  have c: "counted_tasks ?w = counted_tasks w" by (simp add: counted_tasks_def b)
  have g0: "ex_guards ex = 0" using ex(2,3) by (simp add: ex_guards_not_timed_out)
  have "task_ok ?w u" for u
  proof (cases "u = t")
    case True
    then show ?thesis using d(3) d(4) [of t] ex b
      by (auto simp: task_ok_def ex_wf_def counted_tasks_def pc)
  next
    case False
    then have "task_ok ?w u = task_ok w u" using b pc by (intro task_ok_cong) auto
    then show ?thesis using d(4) by simp
  qed
  moreover have "loop_wf ?w" using d(1) pc by (simp add: loop_wf_def)
  moreover have "busy_guards ?w = 0" "busy_guards w = 0"
    using b g0 ex(1) by (simp_all add: busy_guards_def)
  ultimately show ?thesis using d(2,3,5,6) c by (simp add: worker_inv_def)
qed

lemma on_constructed_inv:
  assumes inv: "worker_inv w" and pc: "w_pc w = Constructing t"
  shows "\<exists>w'. on_constructed t w = Some w' \<and> worker_inv w'"
proof -
  obtain ex where ex: "w_execs w t = Some ex" "ex_wf ex" "ex_phase ex \<in> {Starting, TimedOut}" "w_results w t = Waiting"
    and nt: "t \<notin> set (w_queue w)"
    using constructing_exec [OF inv pc] by blast
  have b: "busy_task w = Some t" using pc by (simp add: busy_task_def)
  show ?thesis
  proof (cases "ex_phase ex = Starting")
    case True
    then show ?thesis
      using worker_inv_install [OF inv pc ex(1,2) True] ex(1)
      by (simp add: on_constructed_def install_abort_def)
  next
    case False
    then have "ex_phase ex = TimedOut" using ex(3) by simp
    then obtain d where dd: "ex_timeout ex = Some d" using ex(2) by (auto simp: ex_wf_def)
    define w1 where "w1 = mark_aborted (Some t) (w\<lparr>w_execs := (w_execs w)(t \<mapsto> ex), w_pc := Selecting\<rparr>)"
    have w1: "w_execs w1 t = Some ex" "w_execs w1 = w_execs w"
      using ex(1) by (simp_all add: w1_def map_upd_triv)
    define w' where "w' = (snd (finish_task t w1))\<lparr>w_pc := Answering t (Inl (task_timeout_error (w_id w1) d)) False\<rparr>"
    have r: "on_constructed t w = Some w'"
      using ex(1) False answer_cancelled_eq [OF w1(1) dd]
      by (simp add: on_constructed_def install_abort_def w'_def w1_def [symmetric])
    have "worker_inv w'"
    proof (rule worker_inv_decided [OF inv ex(1)])
      show "w_pc w' = Answering t (Inl (task_timeout_error (w_id w1) d)) False" by (simp add: w'_def)
      show "loop_wf w'"
        using worker_invD(1) [OF inv] pc
        by (simp add: w'_def loop_wf_def finish_task_eq [OF w1(1)]) (auto simp: w1_def)
    qed (use b pc nt w1(2) ex(4) in \<open>simp_all add: w'_def finish_task_eq [OF w1(1)] remove1_idem\<close>,
         simp_all add: w1_def)
    with r show ?thesis by blast
  qed
qed

lemma on_task_result_eq:
  assumes inv: "worker_inv w" and pc: "w_pc w = Selecting" "w_join w = Some t"
    and ex: "w_execs w t = Some ex"
  shows "on_task_result oc w =
    (snd (finish_task t w))\<lparr>w_execution := None, w_pc := Answering t (final_result (w_id w) (ex_timeout ex) oc) False\<rparr>"
proof -
  have "w_execution w = Some t" "w_result_tx w = Some t"
    using worker_invD(1) [OF inv] pc by (simp_all add: loop_wf_def)
  then show ?thesis by (simp add: on_task_result_def finish_task_eq [OF ex] Let_def)
qed

lemma worker_inv_on_task_result:
  assumes inv: "worker_inv w" and pc: "w_pc w = Selecting" "w_join w = Some t"
  shows "worker_inv (on_task_result oc w)"
proof -
  obtain ex where ex: "w_execs w t = Some ex" and nt: "t \<notin> set (w_queue w)" and r: "w_results w t = Waiting"
    using running_exec [OF inv pc] .
  have b: "busy_task w = Some t" using pc by (simp add: busy_task_def)
  note eq = on_task_result_eq [OF inv pc ex] finish_task_eq [OF ex]
  show ?thesis
  proof (rule worker_inv_decided [OF inv ex])
    show "w_pc (on_task_result oc w) = Answering t (final_result (w_id w) (ex_timeout ex) oc) False" by (simp add: eq)
    show "loop_wf (on_task_result oc w)"
      using worker_invD(1) [OF inv] pc by (auto simp: loop_wf_def eq)
  qed (use b nt r in \<open>simp_all add: eq remove1_idem\<close>)
qed

lemma on_drain_eq:
  assumes "w_queue w = t # q" "w_execs w t = Some ex"
  shows "on_drain w =
    (snd (finish_task t (w\<lparr>w_queue := q\<rparr>)))\<lparr>w_pc := Answering t (drain_result (w_id w) (ex_timeout ex)) True\<rparr>"
proof -
  have "w_execs (w\<lparr>w_queue := q\<rparr>) t = Some ex" using assms(2) by simp
  from finish_task_eq [OF this] show ?thesis using assms(1) by (simp add: on_drain_def)
qed

lemma worker_inv_on_drain:
  assumes inv: "worker_inv w" and pc: "w_pc w = Draining"
  shows "worker_inv (on_drain w)"
proof (cases "w_queue w")
  case Nil
  have j: "w_join w = None" using worker_invD(1) [OF inv] pc by (simp add: loop_wf_def)
  show ?thesis
  proof (rule worker_inv_update_loop [OF inv])
    show "loop_wf (on_drain w)"
      using worker_invD(1) [OF inv] pc Nil by (auto simp: loop_wf_def on_drain_def)
    show "busy_task (on_drain w) = busy_task w" using pc Nil by (simp add: busy_task_def on_drain_def)
  qed (use pc Nil j worker_invD [OF inv] in \<open>simp_all add: on_drain_def busy_task_def\<close>)
next
  case (Cons t q)
  have tq: "t \<in> set (w_queue w)" using Cons by simp
  obtain ex where ex: "w_execs w t = Some ex" and r: "w_results w t = Waiting" using queued_exec [OF inv tq] by blast
  have j: "w_join w = None" using worker_invD(1) [OF inv] pc by (simp add: loop_wf_def)
  have b: "busy_task w = None" using pc j by (simp add: busy_task_def)
  have ex1: "w_execs (w\<lparr>w_queue := q\<rparr>) t = Some ex" using ex by simp
  note eq = on_drain_eq [OF Cons ex] finish_task_eq [OF ex1]
  show ?thesis
  proof (rule worker_inv_decided [OF inv ex])
    show "w_pc (on_drain w) = Answering t (drain_result (w_id w) (ex_timeout ex)) True" by (simp add: eq)
    show "loop_wf (on_drain w)" using worker_invD(1) [OF inv] pc by (auto simp: loop_wf_def eq)
  qed (use tq b r Cons in \<open>simp_all add: eq\<close>)
qed

lemma worker_inv_on_stop:
  assumes inv: "worker_inv w" and pc: "w_pc w = Stopping"
  shows "worker_inv (on_stop w)"
proof -
  note d = worker_invD [OF inv]
  have j: "w_join w = None" "w_lost w = []" using d(1) pc by (simp_all add: loop_wf_def)
  have sel: "w_sending (on_stop w) = w_sending w" "w_queue (on_stop w) = []"
    "w_execs (on_stop w) = w_execs w" "w_inflight (on_stop w) = w_inflight w"
    "w_lost (on_stop w) = w_queue w" "w_interrupt (on_stop w) = w_interrupt w"
    "w_ext_scoped (on_stop w) = w_ext_scoped w" "w_pc (on_stop w) = Stopped"
    "w_join (on_stop w) = None"
    "w_results (on_stop w) = (\<lambda>t. if t \<in> set (w_queue w) then Sender_Dropped else w_results w t)"
    using j by (simp_all add: on_stop_def Let_def fun_eq_iff)
  have b: "busy_task w = None" "busy_task (on_stop w) = None" using pc j sel by (simp_all add: busy_task_def)
  have c: "counted_tasks (on_stop w) = counted_tasks w" using j b by (simp add: counted_tasks_def sel)
  have "loop_wf (on_stop w)" using d(1) pc by (auto simp: loop_wf_def on_stop_def Let_def)
  moreover have "task_ok (on_stop w) u" for u
  proof (cases "u \<in> set (w_queue w)")
    case True
    then have "u \<notin> set (w_sending w)" using d(3) by (auto simp: counted_tasks_def)
    then show ?thesis using True d(4) [of u] b j
      by (auto simp: task_ok_def sel counted_tasks_iff split: option.splits)
  next
    case False
    then have "task_ok (on_stop w) u = task_ok w u"
      using b pc j by (intro task_ok_cong) (simp_all add: sel)
    then show ?thesis using d(4) by simp
  qed
  ultimately show ?thesis
    using d(2,3,5,6) c b by (simp add: worker_inv_def sel busy_guards_def)
qed

lemma worker_inv_external:
  assumes inv: "worker_inv w" and fl: "flag_ok ih"
    and h: "ih_held ih + w_ext_scoped w = ih_held (w_interrupt w) + n"
  shows "worker_inv (w\<lparr>w_interrupt := ih, w_ext_scoped := n\<rparr>)"
proof -
  note d = worker_invD [OF inv]
  let ?w = "w\<lparr>w_interrupt := ih, w_ext_scoped := n\<rparr>"
  have b: "busy_task ?w = busy_task w" by (simp add: busy_task_def cong: loop_pc.case_cong)
  have "task_ok ?w u" for u
  proof -
    have "task_ok ?w u = task_ok w u" by (intro task_ok_cong) (simp_all add: b)
    then show ?thesis using d(4) by simp
  qed
  moreover have "loop_wf ?w" using d(1) by (simp add: loop_wf_def cong: loop_pc.case_cong)
  moreover have "counted_tasks ?w = counted_tasks w" by (simp add: counted_tasks_def b)
  moreover have "busy_guards ?w = busy_guards w"
    by (simp add: busy_guards_def b cong: option.case_cong)
  ultimately show ?thesis using d(2,3,6) fl h by (simp add: worker_inv_def)
qed

lemma worker_inv_drop_ext_guard:
  assumes inv: "worker_inv w" and pos: "0 < w_ext_scoped w"
  shows "worker_inv (drop_ext_guard w)"
  unfolding drop_ext_guard_def
proof (rule worker_inv_external [OF inv])
  show "flag_ok (ig_drop \<lparr>ig_active = True\<rparr> (w_interrupt w))"
    using worker_invD(5) [OF inv] by (simp add: ig_drop_def flag_ok_release)
  show "ih_held (ig_drop \<lparr>ig_active = True\<rparr> (w_interrupt w)) + w_ext_scoped w =
      ih_held (w_interrupt w) + (w_ext_scoped w - 1)"
    using pos worker_invD(6) [OF inv] by (simp add: ig_drop_def scoped.release_held)
qed

lemma worker_inv_trivial_update:
  assumes "worker_inv w"
  shows "worker_inv (w\<lparr>w_term := b\<rparr>)" "worker_inv (w\<lparr>w_tx_open := b\<rparr>)" "worker_inv (w\<lparr>w_any_idle := b\<rparr>)"
  using worker_invD [OF assms]
  by (auto intro!: worker_inv_update_loop [OF assms] simp: busy_task_def loop_wf_def
      cong: loop_pc.case_cong)

lemma worker_inv_interrupt_update:
  assumes "worker_inv w" "flag_ok ih" "ih_held ih = ih_held (w_interrupt w)"
  shows "worker_inv (w\<lparr>w_interrupt := ih\<rparr>)"
  using worker_inv_external [OF assms(1,2), of "w_ext_scoped w"] assms(3) by simp

lemma worker_inv_step:
  assumes "worker_step w w'" "worker_inv w"
  shows "worker_inv w'"
  using assms
proof (induction rule: worker_step.induct)
  case (ext_scope w g ih)
  then show ?case
    using worker_inv_external [OF ext_scope(2) flag_ok_scoped [OF ext_scope(1)]]
      scoped.acquire_held [OF ext_scope(1)] by simp
next
  case (loop_recv w w')
  obtain t q where "w_queue w = t # q"
    using loop_recv(5) by (auto simp: on_recv_def split: list.splits)
  then show ?case using on_recv_inv [OF loop_recv(6,1,3,4)] loop_recv(5) by auto
next
  case (loop_constructed w t w')
  then show ?case using on_constructed_inv [OF loop_constructed(3,1)] by auto
qed (auto intro: worker_inv_spawn_begin worker_inv_spawn_reserved worker_inv_spawn_send
      worker_inv_spawn_abandon worker_inv_handle_timeout worker_inv_trivial_update
      worker_inv_interrupt_update rong_inv worker_inv_drop_ext_guard worker_inv_on_terminate
      worker_inv_on_channel_closed worker_inv_on_task_result worker_inv_on_drain worker_inv_on_stop
      worker_inv_send_answer worker_inv_count_out
      intro!: worker_inv_interrupt_update dest: worker_invD(5))

lemma worker_reachable_inv: "worker_reachable i cap w \<Longrightarrow> worker_inv w"
  by (induction rule: worker_reachable.induct) (auto intro: worker_inv_new worker_inv_step)

end
