(* ===== verification/Worker_Guarantees.thy ===== *)
theory Worker_Guarantees
  imports Shared_Worker
begin

text \<open>
  What a user of a worker of \<^verbatim>\<open>core/src/shared.rs\<close> can rely on, whatever the interleaving of submitters,
  deadlines, external interrupts and the worker's loop: exact accounting, no panic, one answer per task,
  one verdict per deadline, no interrupt left behind. Two runs at the end show what it does not guarantee:
  \<^verbatim>\<open>Worker::join\<close> can miss the notification it waits for, and a task sent after the drain is never
  counted out.
\<close>

section \<open>Result channels are written once\<close>

lemma results_finish_task [simp]: "w_results (snd (finish_task t w)) = w_results w"
  by (simp add: finish_task_def ex_finish_def split: option.splits)

lemma id_finish_task [simp]: "w_id (snd (finish_task t w)) = w_id w"
  by (simp add: finish_task_def ex_finish_def split: option.splits)

lemma results_handle_timeout [simp]:
  "w_results (snd (handle_timeout t d w)) = w_results w" "w_id (snd (handle_timeout t d w)) = w_id w"
  by (simp_all add: handle_timeout_def split: option.splits prod.splits)

lemma results_spawn [simp]:
  "w_results (spawn_begin b t w) = w_results w" "w_results (spawn_send t w) = w_results w"
  "w_results (spawn_abandon t w) = w_results w"
  by (simp_all add: spawn_begin_def spawn_send_def spawn_abandon_def inflight_guard_drop_def
      increment_inflight_def Let_def)

lemma results_reserve: "reserve_if_idle w = (b, w') \<Longrightarrow> w_results w' = w_results w"
  by (auto simp: reserve_if_idle_def split: if_splits)

lemma answer_cancelled_results: "answer_cancelled t w = Some w' \<Longrightarrow> w_results w' = w_results w"
  using results_finish_task [of t w]
  by (auto simp: answer_cancelled_def simp del: results_finish_task split: prod.splits option.splits)

lemma on_recv_results: "on_recv w = Some w' \<Longrightarrow> w_results w' = w_results w"
  by (auto simp: on_recv_def Let_def dest!: answer_cancelled_results
      split: list.splits option.splits prod.splits bool.splits)

lemma on_constructed_results: "on_constructed t w = Some w' \<Longrightarrow> w_results w' = w_results w"
  by (auto simp: on_constructed_def dest!: answer_cancelled_results
      split: option.splits prod.splits bool.splits)

lemma on_task_result_results [simp]: "w_results (on_task_result oc w) = w_results w"
  using results_finish_task
  by (simp add: on_task_result_def Let_def case_prod_beta split: option.splits)

lemma on_drain_results [simp]: "w_results (on_drain w) = w_results w"
  by (simp add: on_drain_def case_prod_beta split: list.splits)

lemma count_out_results [simp]: "w_results (count_out w) = w_results w"
  by (simp add: count_out_def split: loop_pc.splits)

text \<open>A transition only writes the channel of a task that was still unanswered.\<close>

lemma result_kept:
  assumes "worker_step w w'" "worker_inv w" "w_results w t \<noteq> Waiting"
  shows "w_results w' t = w_results w t"
  using assms
proof (induction rule: worker_step.induct)
  case (loop_recv w w')
  then show ?case using on_recv_results by metis
next
  case (loop_constructed w u w')
  then show ?case using on_constructed_results by metis
next
  case (loop_send w u r b)
  have "w_results w u = Waiting" using answering_task [OF loop_send(2) disjI1 [OF loop_send(1)]] loop_send(1) by auto
  then have "u \<noteq> t" using loop_send(3) by auto
  then show ?case using loop_send(1) by (simp add: send_answer_def)
next
  case (loop_stop w)
  have "t \<notin> set (w_queue w)" using queued_exec [OF loop_stop(2), of t] loop_stop(3) by auto
  then show ?case by (simp add: on_stop_def Let_def)
qed (simp_all add: results_reserve on_terminate_def on_channel_closed_def drop_ext_guard_def)

text \<open>
  The worker has decided the result of a task: it has sent it, or sending it is what the loop does next.
\<close>

definition decided :: "nat \<Rightarrow> 'r js_result \<Rightarrow> 'r worker \<Rightarrow> bool" where
  "decided t r w \<longleftrightarrow> w_results w t = Sent r \<or> (\<exists>b. w_pc w = Answering t r b)"

lemma answering_step:
  assumes "worker_step w w'" "w_pc w = Answering t r b"
  shows "w_pc w' = Answering t r b \<or> w' = send_answer w"
  using assms
  by (induction rule: worker_step.induct)
    (auto simp: spawn_begin_def spawn_send_def spawn_abandon_def inflight_guard_drop_def Let_def
      increment_inflight_def handle_timeout_def drop_ext_guard_def reserve_if_idle_def case_prod_beta
      split: if_splits option.splits)

lemma decided_step:
  assumes "worker_step w w'" "worker_inv w" "decided t r w"
  shows "decided t r w'"
proof (cases "w_results w t = Sent r")
  case True
  then show ?thesis using result_kept [OF assms(1,2), of t] by (simp add: decided_def)
next
  case False
  then obtain b where b: "w_pc w = Answering t r b" using assms(3) by (auto simp: decided_def)
  show ?thesis using answering_step [OF assms(1) b] b by (auto simp: decided_def send_answer_def)
qed

lemma decided_sent:
  assumes "decided t r w"
  shows "w_results w t = Sent r \<or> worker_step w (send_answer w) \<and> w_results (send_answer w) t = Sent r"
  using assms worker_step.loop_send [of w t r] by (auto simp: decided_def send_answer_def)

lemma decided_unique:
  assumes "worker_inv w" "decided t r w" "decided t r' w"
  shows "r = r'"
proof (cases "\<exists>b u. w_pc w = Answering t u b")
  case True
  then obtain b u where b: "w_pc w = Answering t u b" by blast
  then have "w_results w t = Waiting" using answering_task [OF assms(1) disjI1 [OF b]] by auto
  then show ?thesis using assms(2,3) b by (auto simp: decided_def)
qed (use assms(2,3) in \<open>auto simp: decided_def\<close>)

section \<open>The verdict of a deadline\<close>

text \<open>
  The deadline of task \<open>t\<close> has won with duration \<open>d\<close>: its control remembers it, or the worker has already
  decided to answer the task with the timeout error of that duration.
\<close>

definition timed_out_as :: "nat \<Rightarrow> duration \<Rightarrow> 'r worker \<Rightarrow> bool" where
  "timed_out_as t d w \<longleftrightarrow>
     (\<exists>ex. w_execs w t = Some ex \<and> t \<notin> set (w_sending w) \<and> ex_timeout ex = Some d) \<or>
     decided t (Inl (task_timeout_error (w_id w) d)) w"

lemma finish_task_other: "u \<noteq> t \<Longrightarrow> w_execs (snd (finish_task t w)) u = w_execs w u"
  by (simp add: finish_task_def ex_finish_def split: option.splits)

lemma finish_task_sending [simp]: "w_sending (snd (finish_task t w)) = w_sending w"
  by (simp add: finish_task_def ex_finish_def split: option.splits)

lemma answer_cancelled_frame:
  assumes "answer_cancelled t w = Some w'"
  shows "w_id w' = w_id w \<and> w_sending w' = w_sending w \<and> (\<forall>u. u \<noteq> t \<longrightarrow> w_execs w' u = w_execs w u)"
proof -
  obtain dd w1 where f: "finish_task t w = (dd, w1)" by (cases "finish_task t w")
  have "w_id w1 = w_id w" "w_sending w1 = w_sending w" "\<And>u. u \<noteq> t \<Longrightarrow> w_execs w1 u = w_execs w u"
    using f id_finish_task [of t w] finish_task_sending [of t w] finish_task_other [of _ t w] by simp_all
  then show ?thesis using assms f by (auto simp: answer_cancelled_def split: option.splits)
qed

lemma on_recv_frame:
  assumes "on_recv w = Some w'" "w_queue w = t # q"
  shows "w_id w' = w_id w \<and> w_sending w' = w_sending w \<and> (\<forall>u. u \<noteq> t \<longrightarrow> w_execs w' u = w_execs w u)"
  using assms
  by (auto simp: on_recv_def Let_def dest!: answer_cancelled_frame
      split: option.splits prod.splits bool.splits)

lemma on_constructed_frame:
  assumes "on_constructed t w = Some w'"
  shows "w_id w' = w_id w \<and> w_sending w' = w_sending w \<and> (\<forall>u. u \<noteq> t \<longrightarrow> w_execs w' u = w_execs w u)"
  using assms
  by (auto simp: on_constructed_def dest!: answer_cancelled_frame
      split: option.splits prod.splits bool.splits)

lemma on_stop_frame [simp]:
  "w_id (on_stop w) = w_id w" "w_sending (on_stop w) = w_sending w" "w_execs (on_stop w) = w_execs w"
  by (simp_all add: on_stop_def Let_def)

lemma on_recv_timed_out:
  assumes "worker_inv w" "w_queue w = t # q" "w_execs w t = Some ex" "ex_timeout ex = Some d"
    and "on_recv w = Some w'"
  shows "decided t (Inl (task_timeout_error (w_id w) d)) w'"
proof -
  have "ex_phase ex = TimedOut"
    using assms queued_exec [OF assms(1), of t] by (auto simp: ex_wf_def)
  then show ?thesis
    using assms by (auto simp: on_recv_def Let_def begin_start_def answer_cancelled_def finish_task_eq decided_def)
qed

lemma on_constructed_timed_out:
  assumes "worker_inv w" "w_pc w = Constructing t" "w_execs w t = Some ex" "ex_timeout ex = Some d"
    and "on_constructed t w = Some w'"
  shows "decided t (Inl (task_timeout_error (w_id w) d)) w'"
proof -
  have "ex_phase ex = TimedOut"
    using assms constructing_exec [OF assms(1,2)] by (auto simp: ex_wf_def)
  then show ?thesis
    using assms by (auto simp: on_constructed_def install_abort_def answer_cancelled_def finish_task_eq decided_def)
qed

lemma handle_timeout_exec:
  assumes "w_execs w t = Some ex"
  shows "w_execs (snd (handle_timeout t d w)) t = Some (fst (snd (request_timeout d (w_interrupt w) ex)))"
    "u \<noteq> t \<Longrightarrow> w_execs (snd (handle_timeout t d w)) u = w_execs w u"
    "w_sending (snd (handle_timeout t d w)) = w_sending w"
    "fst (handle_timeout t d w) = fst (request_timeout d (w_interrupt w) ex)"
  using assms by (simp_all add: handle_timeout_def case_prod_beta)

lemma task_answered_not_timed_out:
  assumes "worker_inv w" "w_execs w t = Some ex" "ex_timeout ex = Some d" "t \<notin> set (w_sending w)"
  shows "t \<in> set (w_queue w) \<or> busy_task w = Some t \<or> t \<in> set (w_lost w)"
  using worker_invD(4) [OF assms(1), of t] assms(2-4)
  by (auto simp: task_ok_def ex_wf_def split: if_splits)

lemma on_drain_id [simp]: "w_id (on_drain w) = w_id w"
  by (simp add: on_drain_def finish_task_def ex_finish_def split: list.splits option.splits)

lemma on_task_result_id [simp]: "w_id (on_task_result oc w) = w_id w"
  by (simp add: on_task_result_def finish_task_def ex_finish_def Let_def split: option.splits)

lemma answer_id [simp]: "w_id (send_answer w) = w_id w" "w_id (count_out w) = w_id w"
  by (simp_all add: send_answer_def count_out_def split: loop_pc.splits)

lemma answer_execs [simp]: "w_execs (send_answer w) = w_execs w" "w_execs (count_out w) = w_execs w"
  "w_sending (send_answer w) = w_sending w" "w_sending (count_out w) = w_sending w"
  by (simp_all add: send_answer_def count_out_def split: loop_pc.splits)

lemma reserve_id: "reserve_if_idle w = (b, w') \<Longrightarrow> w_id w' = w_id w"
  by (auto simp: reserve_if_idle_def split: if_splits)

lemma worker_step_id:
  assumes "worker_step w w'" shows "w_id w' = w_id w"
  using assms
proof (induction rule: worker_step.induct)
  case (loop_recv w w')
  then show ?case using on_recv_frame [OF loop_recv(5)] by (auto simp: on_recv_def split: list.splits)
next
  case (loop_constructed w t w')
  then show ?case using on_constructed_frame by blast
qed (simp_all add: spawn_begin_def spawn_send_def spawn_abandon_def inflight_guard_drop_def
    increment_inflight_def on_terminate_def on_channel_closed_def drop_ext_guard_def reserve_id)

text \<open>Once won, a deadline stays won: no transition takes the verdict back.\<close>

lemma timed_out_deadline:
  assumes inv: "worker_inv w" and ex: "w_execs w t = Some ex" "t \<notin> set (w_sending w)" "ex_timeout ex = Some d"
    and eu: "w_execs w u = Some eu"
  shows "timed_out_as t d (snd (handle_timeout u dd w))"
proof (cases "u = t")
  case True
  then have "ex_phase ex = TimedOut" "eu = ex"
    using worker_invD(4) [OF inv, of t] ex(1,3) eu by (auto simp: task_ok_def ex_wf_def)
  then show ?thesis
    using True ex handle_timeout_exec(1,3) [OF eu] by (simp add: timed_out_as_def request_timeout_def)
next
  case False
  then show ?thesis using ex handle_timeout_exec(2,3) [OF eu] by (simp add: timed_out_as_def)
qed

lemma timed_out_recv:
  assumes inv: "worker_inv w" and ex: "w_execs w t = Some ex" "t \<notin> set (w_sending w)" "ex_timeout ex = Some d"
    and r: "on_recv w = Some w'"
  shows "timed_out_as t d w'"
proof -
  obtain u q where q: "w_queue w = u # q" using r by (auto simp: on_recv_def split: list.splits)
  show ?thesis
  proof (cases "u = t")
    case True
    then show ?thesis
      using on_recv_timed_out [OF inv _ ex(1,3) r, of q] q on_recv_frame [OF r q] by (simp add: timed_out_as_def)
  next
    case False
    then show ?thesis using on_recv_frame [OF r q] ex by (auto simp: timed_out_as_def)
  qed
qed

lemma timed_out_constructed:
  assumes inv: "worker_inv w" and ex: "w_execs w t = Some ex" "t \<notin> set (w_sending w)" "ex_timeout ex = Some d"
    and pc: "w_pc w = Constructing u" and r: "on_constructed u w = Some w'"
  shows "timed_out_as t d w'"
proof (cases "u = t")
  case True
  then show ?thesis
    using on_constructed_timed_out [OF inv _ ex(1,3)] pc r on_constructed_frame [OF r] by (simp add: timed_out_as_def)
next
  case False
  then show ?thesis using on_constructed_frame [OF r] ex by (auto simp: timed_out_as_def)
qed

lemma timed_out_drain:
  assumes inv: "worker_inv w" and ex: "w_execs w t = Some ex" "t \<notin> set (w_sending w)" "ex_timeout ex = Some d"
  shows "timed_out_as t d (on_drain w)"
proof (cases "w_queue w")
  case Nil
  then show ?thesis using ex by (auto simp: timed_out_as_def on_drain_def)
next
  case (Cons u q)
  obtain eu where eu: "w_execs w u = Some eu" using queued_exec [OF inv, of u] Cons by auto
  have eu1: "w_execs (w\<lparr>w_queue := q\<rparr>) u = Some eu" using eu by simp
  note eq = on_drain_eq [OF Cons eu] finish_task_eq [OF eu1]
  show ?thesis using ex eu by (cases "u = t") (auto simp: timed_out_as_def eq drain_result_def decided_def)
qed

lemma timed_out_exec_step:
  assumes "worker_step w w'" "worker_inv w"
    and "w_execs w t = Some ex" "t \<notin> set (w_sending w)" "ex_timeout ex = Some d"
  shows "timed_out_as t d w'"
  using assms
proof (induction rule: worker_step.induct)
  case (spawn w u)
  then show ?case by (auto simp: timed_out_as_def spawn_begin_def increment_inflight_def Let_def)
next
  case (spawn_reserved w u w')
  then show ?case
    by (auto simp: timed_out_as_def spawn_begin_def reserve_if_idle_def split: if_splits)
next
  case (send u w)
  then show ?case
    by (auto simp: timed_out_as_def spawn_send_def inflight_guard_drop_def dest: notin_set_remove1)
next
  case (abandon u w)
  then show ?case
    by (auto simp: timed_out_as_def spawn_abandon_def inflight_guard_drop_def dest: notin_set_remove1)
next
  case (deadline w u dd)
  then show ?case using timed_out_deadline [OF deadline(3-6)] by blast
next
  case (loop_recv w w')
  show ?case by (rule timed_out_recv [OF loop_recv(6-9,5)])
next
  case (loop_constructed w u w')
  show ?case by (rule timed_out_constructed [OF loop_constructed(3-6,1,2)])
next
  case (loop_result w u oc)
  obtain eu where eu: "w_execs w u = Some eu" using running_exec [OF loop_result(5,1,3)] .
  note eq = on_task_result_eq [OF loop_result(5,1,3) eu] finish_task_eq [OF eu]
  show ?case
    using loop_result(6-8) eu by (cases "u = t") (auto simp: timed_out_as_def eq final_result_def decided_def)
next
  case (loop_drain w)
  show ?case by (rule timed_out_drain [OF loop_drain(2-5)])
next
  case (loop_terminate w)
  then show ?case by (auto simp: timed_out_as_def on_terminate_def)
next
  case (loop_closed w)
  then show ?case by (auto simp: timed_out_as_def on_channel_closed_def)
qed (auto simp: timed_out_as_def drop_ext_guard_def)

lemma timed_out_as_step:
  assumes "worker_step w w'" "worker_inv w" "timed_out_as t d w"
  shows "timed_out_as t d w'"
proof (cases "decided t (Inl (task_timeout_error (w_id w) d)) w")
  case True
  then show ?thesis using decided_step [OF assms(1,2)] worker_step_id [OF assms(1)] by (simp add: timed_out_as_def)
next
  case False
  then show ?thesis using assms(3) timed_out_exec_step [OF assms(1,2)] by (auto simp: timed_out_as_def)
qed

lemma reachable_steps:
  "worker_step\<^sup>*\<^sup>* w w' \<Longrightarrow> worker_reachable i cap w \<Longrightarrow> worker_reachable i cap w'"
  by (induction rule: rtranclp_induct) (auto intro: worker_reachable.step)

lemma timed_out_as_steps:
  assumes "worker_step\<^sup>*\<^sup>* w w'" "worker_reachable i cap w" "timed_out_as t d w"
  shows "timed_out_as t d w'"
  using assms(1)
proof (induction rule: rtranclp_induct)
  case (step y z)
  have "worker_inv y" using reachable_steps [OF step(1) assms(2)] by (rule worker_reachable_inv)
  then show ?case using timed_out_as_step [OF step(2)] step(3) by blast
qed (rule assms(3))

lemma decided_steps:
  assumes "worker_step\<^sup>*\<^sup>* w w'" "worker_reachable i cap w" "decided t r w"
  shows "decided t r w'"
  using assms(1)
proof (induction rule: rtranclp_induct)
  case (step y z)
  have "worker_inv y" using reachable_steps [OF step(1) assms(2)] by (rule worker_reachable_inv)
  then show ?case using decided_step [OF step(2)] step(3) by blast
qed (rule assms(3))

lemma decided_finished:
  assumes "worker_inv w" "decided t r w" "w_execs w t = Some ex"
  shows "ex_timeout ex = None"
proof -
  have "ex_phase ex = Finished"
  proof (cases "w_results w t = Sent r")
    case True
    then show ?thesis using worker_invD(4) [OF assms(1), of t] assms(3)
      by (auto simp: task_ok_def split: if_splits loop_pc.splits)
  next
    case False
    then obtain b where "w_pc w = Answering t r b" using assms(2) by (auto simp: decided_def)
    then show ?thesis using answering_task [OF assms(1)] assms(3) by (metis option.inject)
  qed
  then show ?thesis using worker_invD(4) [OF assms(1), of t] assms(3) by (auto simp: task_ok_def ex_wf_def)
qed

lemma timed_out_as_result:
  assumes inv: "worker_inv w" and v: "timed_out_as t d w" and r: "decided t r w"
  shows "r = Inl (task_timeout_error (w_id w) d)"
  using v unfolding timed_out_as_def
proof
  assume "\<exists>ex. w_execs w t = Some ex \<and> t \<notin> set (w_sending w) \<and> ex_timeout ex = Some d"
  then show ?thesis using decided_finished [OF inv r] by auto
qed (rule decided_unique [OF inv r])

lemma w_id_steps: "worker_step\<^sup>*\<^sup>* w w' \<Longrightarrow> w_id w' = w_id w"
  by (induction rule: rtranclp_induct) (simp_all add: worker_step_id)

lemma reachable_id: "worker_reachable i cap w \<Longrightarrow> w_id w = i"
  by (induction rule: worker_reachable.induct) (simp_all add: worker_step_id worker_new_def)

lemma handle_timeout_wins:
  assumes inv: "worker_inv w" and t: "t \<notin> set (w_sending w)" and h: "handle_timeout t d w = (Some True, w')"
  shows "\<exists>d'. timed_out_as t d' w'"
proof -
  obtain ex where ex: "w_execs w t = Some ex" using h by (auto simp: handle_timeout_def split: option.splits)
  have wf: "ex_wf ex" using worker_invD(4) [OF inv, of t] ex by (simp add: task_ok_def)
  have "\<exists>d'. ex_timeout (fst (snd (request_timeout d (w_interrupt w) ex))) = Some d'"
    using h ex wf
    by (auto simp: handle_timeout_def request_timeout_def ex_wf_def
        split: task_execution_phase.splits option.splits prod.splits)
  then show ?thesis
    using handle_timeout_exec [OF ex, of d] h t by (auto simp: timed_out_as_def)
qed

lemma handle_timeout_loses:
  assumes inv: "worker_inv w" and h: "handle_timeout t d w = (Some False, w')"
  shows "w' = w \<and> (\<exists>r. decided t r w)"
proof -
  obtain ex where ex: "w_execs w t = Some ex" using h by (auto simp: handle_timeout_def split: option.splits)
  have p: "ex_phase ex = Finished" "w' = w"
    using h ex
    by (auto simp: handle_timeout_def request_timeout_def mark_aborted_def map_upd_triv
        split: task_execution_phase.splits option.splits prod.splits)
  then show ?thesis
    using worker_invD(4) [OF inv, of t] ex
    by (auto simp: task_ok_def decided_def busy_task_def split: if_splits loop_pc.splits)
qed

section \<open>Concrete runs\<close>

text \<open>
  A worker of capacity one: task 0 submitted and sent, claimed, its future constructed; then either its
  deadline passes, or it completes.
\<close>

definition run_sent :: "nat worker" where
  "run_sent = spawn_send 0 (spawn_begin False 0 (worker_new 7 1))"

definition run_claimed :: "nat worker" where
  "run_claimed = run_sent\<lparr>w_queue := [], w_execs := [0 \<mapsto> ex_new\<lparr>ex_phase := Starting\<rparr>], w_pc := Constructing 0\<rparr>"

definition run_running :: "nat worker" where
  "run_running = run_claimed\<lparr>w_execs := [0 \<mapsto> ex_new\<lparr>ex_phase := Running, ex_abort_handle := Some 0\<rparr>],
     w_pc := Selecting, w_join := Some 0, w_abort := Some 0, w_result_tx := Some 0, w_execution := Some 0\<rparr>"

definition run_expired :: "nat worker" where
  "run_expired = snd (handle_timeout 0 5 run_running)"

definition run_decided :: "nat worker" where
  "run_decided = on_task_result (Completed (Inr 42)) run_running"

definition run_answered :: "nat worker" where
  "run_answered = send_answer run_decided"

definition run_done :: "nat worker" where
  "run_done = count_out run_answered"

lemmas run_defs = run_sent_def run_claimed_def run_running_def spawn_send_def spawn_begin_def
  inflight_guard_drop_def increment_inflight_def worker_new_def

lemma run_sent_reachable: "worker_reachable 7 1 run_sent"
  unfolding run_sent_def
proof (rule worker_reachable.step [OF worker_reachable.step [OF worker_reachable.start]])
  show "worker_step (worker_new 7 1) (spawn_begin False 0 (worker_new 7 1))"
    by (rule worker_step.spawn) (simp_all add: worker_new_def)
  show "worker_step (spawn_begin False 0 (worker_new 7 1)) (spawn_send 0 (spawn_begin False 0 (worker_new 7 1)))"
    by (rule worker_step.send) (simp_all add: run_defs)
qed

lemma run_sent_sel [simp]: "w_queue run_sent = [0]" "w_pc run_sent = Selecting"
  "w_execs run_sent = [0 \<mapsto> ex_new]" "w_inflight run_sent = 1" "w_join run_sent = None"
  "\<not> w_shutting_down run_sent" "\<not> w_term run_sent" "w_sending run_sent = []" "w_lost run_sent = []"
  "w_results run_sent = (\<lambda>_. Waiting)" "w_interrupt run_sent = ih_new" "w_id run_sent = 7"
  "w_ext_scoped run_sent = 0" "w_idle_events run_sent = 0" "w_rx_open run_sent" "w_tx_open run_sent"
  "w_capacity run_sent = 1"
  by (simp_all add: run_defs)

lemma run_claimed_reachable: "worker_reachable 7 1 run_claimed"
proof (rule worker_reachable.step [OF run_sent_reachable worker_step.loop_recv])
  show "on_recv run_sent = Some run_claimed"
    by (simp add: on_recv_def begin_start_def run_claimed_def)
qed (simp_all add: terminate_ready_def)

lemma run_running_reachable: "worker_reachable 7 1 run_running"
proof (rule worker_reachable.step [OF run_claimed_reachable worker_step.loop_constructed])
  show "w_pc run_claimed = Constructing 0" by (simp add: run_claimed_def)
  show "on_constructed 0 run_claimed = Some run_running"
    by (simp add: on_constructed_def install_abort_def run_claimed_def run_running_def)
qed

lemma run_running_sel [simp]: "w_queue run_running = []" "w_pc run_running = Selecting"
  "w_execs run_running = [0 \<mapsto> ex_new\<lparr>ex_phase := Running, ex_abort_handle := Some 0\<rparr>]"
  "w_inflight run_running = 1" "w_join run_running = Some 0" "w_execution run_running = Some 0"
  "w_result_tx run_running = Some 0" "\<not> w_shutting_down run_running" "\<not> w_term run_running"
  "w_sending run_running = []" "w_lost run_running = []" "w_results run_running = (\<lambda>_. Waiting)"
  "w_interrupt run_running = ih_new" "w_id run_running = 7" "w_ext_scoped run_running = 0"
  "w_idle_events run_running = 0" "w_rx_open run_running"
  by (simp_all add: run_running_def run_claimed_def)

lemma run_expired_eq:
  "handle_timeout 0 5 run_running = (Some True, run_expired)"
  by (simp add: run_expired_def handle_timeout_def request_timeout_def ih_interrupt_scoped_def
      checked_add_def ih_new_def)

lemma run_expired_reachable: "worker_reachable 7 1 run_expired"
  unfolding run_expired_def
  by (rule worker_reachable.step [OF run_running_reachable worker_step.deadline]) simp_all

lemma run_expired_sel [simp]: "w_pc run_expired = Selecting" "w_join run_expired = Some 0"
  "\<not> w_term run_expired" "w_id run_expired = 7" "w_sending run_expired = []"
  "w_results run_expired = (\<lambda>_. Waiting)"
  by (simp_all add: run_expired_def handle_timeout_def case_prod_beta)

lemma run_expired_answered:
  "worker_step\<^sup>*\<^sup>* run_expired (on_task_result Aborted_Future run_expired)"
proof (rule r_into_rtranclp, rule worker_step.loop_result [where t = 0])
  have "0 \<in> w_aborted run_expired"
    by (simp add: run_expired_def handle_timeout_def request_timeout_def ih_interrupt_scoped_def
        checked_add_def ih_new_def mark_aborted_def)
  then show "Aborted_Future = Aborted_Future \<longrightarrow> 0 \<in> w_aborted run_expired" by simp
qed (simp_all add: terminate_ready_def)

lemma run_decided_sel [simp]: "w_pc run_decided = Answering 0 (Inr 42) False" "w_results run_decided = (\<lambda>_. Waiting)"
  "w_inflight run_decided = 1" "w_queue run_decided = []" "w_sending run_decided = []" "w_lost run_decided = []"
  "w_idle_events run_decided = 0" "\<not> w_shutting_down run_decided"
  by (simp_all add: run_decided_def on_task_result_def finish_task_def ex_finish_def Let_def final_result_def ex_new_def)

lemma run_answered_sel [simp]: "w_pc run_answered = Counting 0 False" "w_results run_answered 0 = Sent (Inr 42)"
  "w_inflight run_answered = 1" "w_queue run_answered = []" "w_sending run_answered = []" "w_lost run_answered = []"
  "w_idle_events run_answered = 0" "\<not> w_shutting_down run_answered" "w_join run_answered = None"
  by (simp_all add: run_answered_def send_answer_def)

lemma run_done_sel [simp]: "w_results run_done 0 = Sent (Inr 42)" "w_inflight run_done = 0"
  "w_pc run_done = Selecting" "w_join run_done = None" "w_idle_events run_done = 1"
  "w_queue run_done = []" "w_sending run_done = []" "w_lost run_done = []"
  by (simp_all add: run_done_def count_out_def) (simp add: decrement_inflight_def Let_def)

lemma run_decided_reachable: "worker_reachable 7 1 run_decided"
  unfolding run_decided_def
  by (rule worker_reachable.step [OF run_running_reachable worker_step.loop_result [where t = 0]])
    (simp_all add: terminate_ready_def)

lemma run_answered_reachable: "worker_reachable 7 1 run_answered"
  unfolding run_answered_def
  by (rule worker_reachable.step [OF run_decided_reachable worker_step.loop_send [where t = 0 and r = "Inr 42" and b = False]]) simp

lemma run_done_step: "worker_step run_answered run_done"
  unfolding run_done_def by (rule worker_step.loop_count [where t = 0 and b = False]) simp

lemma run_done_reachable: "worker_reachable 7 1 run_done"
  by (rule worker_reachable.step [OF run_answered_reachable run_done_step])

section \<open>Properties\<close>

text \<open>
  C1. The in-flight counter is exact in every reachable state: it counts, modulo the width of the counter,
  exactly the tasks being submitted, queued, occupying the loop or lost with the channel, each once; so
  while fewer than \<open>2 ^ 64\<close> tasks are outstanding a worker reports \<^verbatim>\<open>Idle\<close> exactly when none is, and the pool's
  reservation succeeds exactly then.
\<close>

theorem worker_accounting:
  assumes "worker_reachable i cap w"
  shows "w_inflight w = of_nat (length (counted_tasks w)) \<and> distinct (counted_tasks w) \<and>
         (length (counted_tasks w) < 2 ^ 64 \<longrightarrow>
            (worker_state_of w = Idle \<longleftrightarrow> counted_tasks w = []) \<and>
            (fst (reserve_if_idle w) \<longleftrightarrow> counted_tasks w = []))"
proof -
  note d = worker_invD [OF worker_reachable_inv [OF assms]]
  have "w_inflight w = 0 \<longleftrightarrow> counted_tasks w = []" if "length (counted_tasks w) < 2 ^ 64"
  proof -
    have "unat (w_inflight w) = length (counted_tasks w)"
      using d(2) that by (simp add: unat_of_nat)
    then show ?thesis by (metis length_0_conv unat_eq_zero)
  qed
  then show ?thesis using d(2,3) by (auto simp: worker_state_of_def reserve_if_idle_def)
qed

theorem worker_accounting_witness:
  "worker_reachable 7 1 run_sent \<and> w_inflight run_sent = 1 \<and> worker_state_of run_sent = Busy \<and>
   worker_state_of run_done = Idle"
  using worker_accounting [OF run_sent_reachable] worker_accounting [OF run_done_reachable]
    run_sent_reachable
  by (simp add: counted_tasks_def busy_task_def worker_state_of_def)

text \<open>
  The worker's loop cannot panic: in every reachable state, receiving a queued task and publishing its
  abort handle both go through (the two \<^verbatim>\<open>expect\<close>s find a timeout), the phase asserted when publication
  fails is \<^verbatim>\<open>TimedOut\<close>, and a running task always has its control and its result sender.
\<close>

theorem worker_loop_never_panics:
  assumes "worker_reachable i cap w"
  shows "(w_pc w = Selecting \<and> w_join w = None \<and> \<not> w_shutting_down w \<and> w_queue w \<noteq> [] \<longrightarrow>
            (\<exists>w'. on_recv w = Some w')) \<and>
         (\<forall>t. w_pc w = Constructing t \<longrightarrow>
            (\<exists>w'. on_constructed t w = Some w') \<and>
            (\<exists>ex. w_execs w t = Some ex \<and> (fst (install_abort t ex) \<or> ex_phase ex = TimedOut))) \<and>
         (\<forall>t. w_pc w = Selecting \<and> w_join w = Some t \<longrightarrow>
            w_execution w = Some t \<and> w_result_tx w = Some t \<and> w_results w t = Waiting)"
proof -
  have inv: "worker_inv w" using assms by (rule worker_reachable_inv)
  have "\<exists>w'. on_recv w = Some w'"
    if "w_pc w = Selecting \<and> w_join w = None \<and> \<not> w_shutting_down w \<and> w_queue w \<noteq> []"
    using that on_recv_inv [OF inv] by (cases "w_queue w") blast+
  moreover have "(\<exists>w'. on_constructed t w = Some w') \<and>
      (\<exists>ex. w_execs w t = Some ex \<and> (fst (install_abort t ex) \<or> ex_phase ex = TimedOut))"
    if "w_pc w = Constructing t" for t
    using on_constructed_inv [OF inv that] constructing_exec [OF inv that]
    by (auto simp: install_abort_def)
  moreover have "w_execution w = Some t \<and> w_result_tx w = Some t \<and> w_results w t = Waiting"
    if "w_pc w = Selecting \<and> w_join w = Some t" for t
    using worker_invD(1) [OF inv] running_exec [OF inv, of t] that by (auto simp: loop_wf_def)
  ultimately show ?thesis by blast
qed

theorem worker_loop_never_panics_witness:
  "(\<exists>w'. on_recv run_sent = Some w') \<and> (\<exists>w'. on_constructed 0 run_claimed = Some w')"
  using worker_loop_never_panics [OF run_sent_reachable] worker_loop_never_panics [OF run_claimed_reachable]
  by (simp add: run_claimed_def)

text \<open>
  C2. Every task is answered at most once and its answer never changes: along any run from a reachable
  state, a result channel that has been written or closed keeps what it holds.
\<close>

theorem result_written_once:
  assumes "worker_reachable i cap w" "worker_step\<^sup>*\<^sup>* w w'" "w_results w t \<noteq> Waiting"
  shows "w_results w' t = w_results w t"
  using assms(2)
proof (induction rule: rtranclp_induct)
  case (step y z)
  have "worker_inv y" using reachable_steps [OF step(1) assms(1)] by (rule worker_reachable_inv)
  then show ?case using result_kept [OF step(2)] step(3) assms(3) by metis
qed (rule refl)

theorem result_written_once_witness:
  "w_results (run_done\<lparr>w_term := True\<rparr>) 0 = Sent (Inr 42)"
proof -
  have "worker_step\<^sup>*\<^sup>* run_done (run_done\<lparr>w_term := True\<rparr>)"
    by (rule r_into_rtranclp) (rule worker_step.terminate)
  from result_written_once [OF run_done_reachable this, of 0] show ?thesis by simp
qed

text \<open>
  C3. A deadline and the worker agree on who won, at whatever moment the deadline's request falls, also between the
  worker's decision and its delivery. If the request answers true, then on every continuation the only result the worker
  decides on or delivers for the task is its timeout error. If it answers false, nothing has been changed and the worker
  has decided a result: it stays decided on every continuation, where it has been delivered or the next step of the
  worker's loop delivers it, so that the caller who goes on to wait gets this result.
\<close>

theorem deadline_has_one_winner:
  assumes "worker_reachable i cap w" "t \<notin> set (w_sending w)" "handle_timeout t d w = (Some won, w')"
    and "worker_step\<^sup>*\<^sup>* w' w''"
  shows "if won
         then \<forall>r. decided t r w'' \<longrightarrow> (\<exists>d'. r = Inl (task_timeout_error i d'))
         else w' = w \<and>
           (\<exists>r. decided t r w \<and>
              (w_results w'' t = Sent r \<or> worker_step w'' (send_answer w'') \<and> w_results (send_answer w'') t = Sent r))"
proof (cases won)
  case True
  have inv: "worker_inv w" using assms(1) by (rule worker_reachable_inv)
  have "w_execs w t \<noteq> None" using assms(3) by (auto simp: handle_timeout_def split: option.splits)
  then have "worker_step w w'"
    using worker_step.deadline [of w t d] assms(2,3) by simp
  then have r': "worker_reachable i cap w'" using assms(1) by (blast intro: worker_reachable.step)
  then have r'': "worker_reachable i cap w''" using reachable_steps assms(4) by blast
  obtain d' where "timed_out_as t d' w'" using handle_timeout_wins [OF inv assms(2)] assms(3) True by auto
  then have "timed_out_as t d' w''" using timed_out_as_steps [OF assms(4) r'] by blast
  then show ?thesis
    using True timed_out_as_result [OF worker_reachable_inv [OF r'']] reachable_id [OF r''] by (metis (full_types))
next
  case False
  then obtain r where r: "w' = w" "decided t r w"
    using handle_timeout_loses [OF worker_reachable_inv [OF assms(1)]] assms(3) by (metis (full_types))
  then have "decided t r w''" using decided_steps assms(1,4) by blast
  then show ?thesis using False r decided_sent by auto
qed

theorem deadline_has_one_winner_witness:
  "decided 0 (Inl (task_timeout_error 7 5)) (on_task_result Aborted_Future run_expired) \<and>
   (\<exists>d. (Inl (task_timeout_error 7 5) :: nat js_result) = Inl (task_timeout_error 7 d)) \<and>
   handle_timeout 0 5 run_decided = (Some False, run_decided) \<and> w_results run_decided 0 = Waiting \<and>
   w_results (send_answer run_decided) 0 = Sent (Inr 42)"
proof -
  have t: "w_execs run_expired 0 = Some ex \<Longrightarrow> ex_timeout ex = Some 5" for ex
    by (auto simp: run_expired_def handle_timeout_def request_timeout_def ih_interrupt_scoped_def
        checked_add_def ih_new_def)
  obtain ex where ex: "w_execs run_expired 0 = Some ex"
    using running_exec [OF worker_reachable_inv [OF run_expired_reachable], of 0] by auto
  have r: "decided 0 (Inl (task_timeout_error 7 5)) (on_task_result Aborted_Future run_expired)"
    using on_task_result_eq [OF worker_reachable_inv [OF run_expired_reachable] _ _ ex, of Aborted_Future] t [OF ex]
    by (auto simp: final_result_def decided_def intro: exI [of _ False])
  have h: "handle_timeout 0 5 run_decided = (Some False, run_decided)"
    by (simp add: handle_timeout_def request_timeout_def run_decided_def on_task_result_def finish_task_def ex_finish_def
        mark_aborted_def Let_def)
  have s: "w_sending run_running = []" "w_sending run_decided = []" by simp_all
  have one: "\<forall>r. decided 0 r (on_task_result Aborted_Future run_expired) \<longrightarrow> (\<exists>d'. r = Inl (task_timeout_error 7 d'))"
    using deadline_has_one_winner [OF run_running_reachable _ run_expired_eq run_expired_answered] s(1) by simp
  have two: "\<exists>r. decided 0 r run_decided \<and>
      (w_results run_decided 0 = Sent r \<or> worker_step run_decided (send_answer run_decided) \<and> w_results (send_answer run_decided) 0 = Sent r)"
    using deadline_has_one_winner [OF run_decided_reachable _ h rtranclp.rtrancl_refl] s(2) by simp
  have "decided 0 r' run_decided \<longleftrightarrow> r' = Inr 42" for r' by (auto simp: decided_def)
  then show ?thesis using one two r h by auto
qed

text \<open>
  C4. Deadlines leave no interrupt behind: whenever the loop holds no task, and already once it has decided the result of
  the one it holds, the worker's interrupt is raised only for a persistent request or a guard some other holder owns, and
  the deadline of a task that is still queued never touches the interrupt, so it cannot disturb the task that is running.
\<close>

theorem deadline_interrupt_scoped_to_task:
  assumes "worker_reachable i cap w"
  shows "((case w_pc w of Answering _ _ _ \<Rightarrow> True | Counting _ _ \<Rightarrow> True | _ \<Rightarrow> busy_task w = None) \<longrightarrow>
            (ih_is_interrupted (w_interrupt w) \<longleftrightarrow>
               ih_persistent (w_interrupt w) \<or> 0 < w_ext_scoped w)) \<and>
         (\<forall>t d. t \<in> set (w_queue w) \<longrightarrow> w_interrupt (snd (handle_timeout t d w)) = w_interrupt w)"
proof -
  have inv: "worker_inv w" using assms by (rule worker_reachable_inv)
  note d = worker_invD [OF inv]
  have "ih_is_interrupted (w_interrupt w) \<longleftrightarrow> ih_persistent (w_interrupt w) \<or> 0 < w_ext_scoped w"
    if quiet: "case w_pc w of Answering _ _ _ \<Rightarrow> True | Counting _ _ \<Rightarrow> True | _ \<Rightarrow> busy_task w = None"
  proof -
    have "busy_guards w = 0"
    proof (cases "busy_task w")
      case (Some t)
      have "\<exists>r b. w_pc w = Answering t r b \<or> w_pc w = Counting t b"
        using quiet Some by (cases "w_pc w") (simp_all add: busy_task_def)
      then obtain r b where "w_pc w = Answering t r b \<or> w_pc w = Counting t b" by blast
      from answering_task [OF inv this] obtain ex where "w_execs w t = Some ex" "ex_wf ex" "ex_phase ex = Finished" .
      then show ?thesis using Some by (simp add: busy_guards_def ex_guards_not_timed_out)
    qed (simp add: busy_guards_def)
    then have "ih_held (w_interrupt w) = w_ext_scoped w" using d(6) by simp
    then have "ih_scoped (w_interrupt w) \<noteq> 0 \<longleftrightarrow> 0 < w_ext_scoped w"
      by (metis ih_held_def unat_gt_0)
    then show ?thesis using d(5) by (simp add: ih_is_interrupted_def flag_ok_def)
  qed
  moreover have "w_interrupt (snd (handle_timeout t dd w)) = w_interrupt w" if q: "t \<in> set (w_queue w)" for t dd
  proof -
    obtain ex where "w_execs w t = Some ex" "ex_phase ex \<in> {Queued, TimedOut}"
      using queued_exec [OF inv q] by auto
    then show ?thesis by (auto simp: handle_timeout_def request_timeout_def)
  qed
  ultimately show ?thesis by blast
qed

theorem deadline_interrupt_scoped_to_task_witness:
  "\<not> ih_is_interrupted (w_interrupt run_done) \<and> w_interrupt (snd (handle_timeout 0 9 run_sent)) = ih_new"
proof -
  have p: "\<not> ih_persistent (w_interrupt run_done)" "w_ext_scoped run_done = 0"
    by (simp_all add: run_done_def run_answered_def run_decided_def count_out_def send_answer_def on_task_result_def
        finish_task_def ex_finish_def Let_def drop_guard_def ex_new_def) (simp add: ih_new_def)
  show ?thesis
    using deadline_interrupt_scoped_to_task [OF run_done_reachable]
      deadline_interrupt_scoped_to_task [OF run_sent_reachable] p
    by (simp add: busy_task_def)
qed

section \<open>Shutdown\<close>

text \<open>One turn of the drain: the next task is finished, answered and counted out.\<close>

definition drain_turn :: "'r worker \<Rightarrow> 'r worker" where
  "drain_turn w = count_out (send_answer (on_drain w))"

lemma drain_step:
  assumes inv: "worker_inv w" and pc: "w_pc w = Draining" and q: "w_queue w = t # q"
  shows "worker_inv (drain_turn w)" "w_pc (drain_turn w) = Draining" "w_queue (drain_turn w) = q"
    "w_inflight (drain_turn w) = w_inflight w - 1"
    "\<exists>e. w_results (drain_turn w) t = Sent (Inl e) \<and> error_code e \<in> {Some E_TIMEOUT, Some E_ABORT}"
    "\<forall>u. w_results w u \<noteq> Waiting \<longrightarrow> w_results (drain_turn w) u = w_results w u"
    "worker_step\<^sup>*\<^sup>* w (drain_turn w)"
proof -
  obtain ex where ex: "w_execs w t = Some ex" and wt: "w_results w t = Waiting" using queued_exec [OF inv, of t] q by auto
  have sd: "w_shutting_down w" "w_join w = None" using worker_invD(1) [OF inv] pc by (simp_all add: loop_wf_def)
  have ex1: "w_execs (w\<lparr>w_queue := q\<rparr>) t = Some ex" using ex by simp
  note eq = on_drain_eq [OF q ex] finish_task_eq [OF ex1]
  have p1: "w_pc (on_drain w) = Answering t (drain_result (w_id w) (ex_timeout ex)) True" by (simp add: eq)
  then have p2: "w_pc (send_answer (on_drain w)) = Counting t True" by (simp add: send_answer_def)
  have i1: "worker_inv (on_drain w)" using worker_inv_on_drain [OF inv pc] .
  have i2: "worker_inv (send_answer (on_drain w))" using worker_inv_send_answer [OF i1 p1] .
  show "worker_inv (drain_turn w)" unfolding drain_turn_def using worker_inv_count_out [OF i2 p2] .
  have s1: "worker_step w (on_drain w)" using pc by (rule worker_step.loop_drain)
  have s2: "worker_step (on_drain w) (send_answer (on_drain w))" using p1 by (rule worker_step.loop_send)
  have s3: "worker_step (send_answer (on_drain w)) (drain_turn w)"
    unfolding drain_turn_def using p2 by (rule worker_step.loop_count)
  from s1 s2 s3 show "worker_step\<^sup>*\<^sup>* w (drain_turn w)" by (meson converse_rtranclp_into_rtranclp r_into_rtranclp)
  note turn = drain_turn_def count_out_def send_answer_def
  show "w_pc (drain_turn w) = Draining" "w_queue (drain_turn w) = q" "w_inflight (drain_turn w) = w_inflight w - 1"
    using sd by (simp_all add: turn p1) (simp_all add: eq)
  have r: "w_results (drain_turn w) = (w_results w)(t := Sent (drain_result (w_id w) (ex_timeout ex)))"
    by (simp add: turn p1)
  show "\<exists>e. w_results (drain_turn w) t = Sent (Inl e) \<and> error_code e \<in> {Some E_TIMEOUT, Some E_ABORT}"
    by (simp add: r drain_result_def task_timeout_error_def he_aborted_def with_data_def with_name_def
        he_new_def Let_def split: option.splits)
  show "\<forall>u. w_results w u \<noteq> Waiting \<longrightarrow> w_results (drain_turn w) u = w_results w u" using wt by (simp add: r)
qed

lemma drain_loop:
  assumes "worker_inv w" "w_pc w = Draining" "w_queue w = q"
  shows "w_queue ((drain_turn ^^ length q) w) = [] \<and> w_pc ((drain_turn ^^ length q) w) = Draining \<and>
    worker_step\<^sup>*\<^sup>* w ((drain_turn ^^ length q) w) \<and>
    w_inflight ((drain_turn ^^ length q) w) = w_inflight w - of_nat (length q) \<and>
    (\<forall>t. w_results w t \<noteq> Waiting \<longrightarrow> w_results ((drain_turn ^^ length q) w) t = w_results w t) \<and>
    (\<forall>t \<in> set q. \<exists>e. w_results ((drain_turn ^^ length q) w) t = Sent (Inl e) \<and>
       error_code e \<in> {Some E_TIMEOUT, Some E_ABORT})"
  using assms
proof (induction q arbitrary: w)
  case (Cons t q)
  note st = drain_step [OF Cons.prems(1,2,3)]
  note ih = Cons.IH [OF st(1,2,3)]
  have k: "(drain_turn ^^ length (t # q)) w = (drain_turn ^^ length q) (drain_turn w)"
    by (simp add: funpow_swap1)
  obtain e where e: "w_results (drain_turn w) t = Sent (Inl e)"
    "error_code e \<in> {Some E_TIMEOUT, Some E_ABORT}" using st(5) by auto
  have t: "w_results ((drain_turn ^^ length q) (drain_turn w)) t = Sent (Inl e)"
    using ih e(1) by simp
  have old: "w_results ((drain_turn ^^ length q) (drain_turn w)) u = w_results w u" if "w_results w u \<noteq> Waiting" for u
    using ih st(6) that by metis
  have "worker_step\<^sup>*\<^sup>* w ((drain_turn ^^ length q) (drain_turn w))" using st(7) ih by (meson rtranclp_trans)
  then show ?case
    unfolding k using ih e(2) t old st(4) by auto
qed simp

text \<open>
  Shutdown answers every queued task: the drain, run once per queued task, empties the queue, counts
  each task out, and leaves every one of them with an error whose code is the timeout (if its deadline had
  won) or the abort; tasks already answered keep their answer.
\<close>

theorem drain_answers_queue:
  assumes "worker_reachable i cap w" "w_pc w = Draining"
  shows "w_queue ((drain_turn ^^ length (w_queue w)) w) = [] \<and>
         worker_step\<^sup>*\<^sup>* w ((drain_turn ^^ length (w_queue w)) w) \<and>
         w_inflight ((drain_turn ^^ length (w_queue w)) w) = w_inflight w - of_nat (length (w_queue w)) \<and>
         (\<forall>t \<in> set (w_queue w). \<exists>e. w_results ((drain_turn ^^ length (w_queue w)) w) t = Sent (Inl e) \<and>
            error_code e \<in> {Some E_TIMEOUT, Some E_ABORT}) \<and>
         (\<forall>t. w_results w t \<noteq> Waiting \<longrightarrow>
            w_results ((drain_turn ^^ length (w_queue w)) w) t = w_results w t)"
  using drain_loop [OF worker_reachable_inv [OF assms(1)] assms(2) refl] by blast

definition run_draining :: "nat worker" where
  "run_draining = on_terminate (run_sent\<lparr>w_term := True\<rparr>)"

lemma run_draining_reachable: "worker_reachable 7 1 run_draining"
  unfolding run_draining_def
  by (rule worker_reachable.step [OF worker_reachable.step [OF run_sent_reachable worker_step.terminate]
        worker_step.loop_terminate]) (simp_all add: terminate_ready_def)

theorem drain_answers_queue_witness:
  "w_pc run_draining = Draining \<and> w_queue run_draining = [0] \<and> w_inflight (drain_turn run_draining) = 0 \<and>
   (\<exists>e. w_results (drain_turn run_draining) 0 = Sent (Inl e))"
proof -
  have s: "w_pc run_draining = Draining" "w_queue run_draining = [0]" "w_inflight run_draining = 1"
    by (simp_all add: run_draining_def on_terminate_def)
  show ?thesis using drain_answers_queue [OF run_draining_reachable s(1)] s by auto
qed

section \<open>What is not guaranteed\<close>

text \<open>
  \<^verbatim>\<open>Worker::join\<close> can miss the wake-up it waits for. There is a run in which the waiter loads a non-zero
  counter, the last task completes, and only then the waiter creates its notification future: it is
  then waiting on a worker that has no task left, and no notification is pending for it.
\<close>

theorem join_can_miss_wakeup:
  "\<exists>(w :: nat worker) w' n. worker_reachable 7 1 w \<and> worker_step w w' \<and>
     join_step w J_Check = J_Register \<and> counted_tasks w' = [] \<and> worker_state_of w' = Idle \<and>
     join_step w' J_Register = J_Wait n \<and> join_step w' (J_Wait n) = J_Wait n"
proof (intro exI conjI)
  show "worker_reachable 7 1 run_answered" by (rule run_answered_reachable)
  show "worker_step run_answered run_done" by (rule run_done_step)
  show "join_step run_answered J_Check = J_Register" by (simp add: join_step_def)
  show "counted_tasks run_done = []" by (simp add: counted_tasks_def busy_task_def)
  show "worker_state_of run_done = Idle" by (simp add: worker_state_of_def)
  show "join_step run_done J_Register = J_Wait 1" "join_step run_done (J_Wait 1) = J_Wait 1"
    by (simp_all add: join_step_def)
qed

lemma stopped_step:
  assumes "worker_step w w'" "w_pc w = Stopped"
  shows "w_pc w' = Stopped \<and> w_lost w' = w_lost w"
  using assms
  by (induction rule: worker_step.induct)
    (auto simp: spawn_begin_def spawn_send_def spawn_abandon_def inflight_guard_drop_def Let_def
      increment_inflight_def handle_timeout_def drop_ext_guard_def reserve_if_idle_def case_prod_beta
      split: if_splits option.splits)

lemma stopped_steps:
  assumes "worker_step\<^sup>*\<^sup>* w w'" "w_pc w = Stopped"
  shows "w_pc w' = Stopped \<and> w_lost w' = w_lost w"
  using assms(1) by (induction rule: rtranclp_induct) (use assms(2) stopped_step in auto)

definition run_stopping :: "nat worker" where
  "run_stopping = on_drain (on_terminate ((worker_new 7 1)\<lparr>w_term := True\<rparr>))"

definition run_late :: "nat worker" where
  "run_late = on_stop (spawn_send 0 (spawn_begin False 0 run_stopping))"

lemma run_stopping_sel [simp]: "w_pc run_stopping = Stopping" "w_queue run_stopping = []"
  "w_tx_open run_stopping" "w_rx_open run_stopping" "w_execs run_stopping = Map.empty"
  "w_capacity run_stopping = 1" "w_sending run_stopping = []" "w_inflight run_stopping = 0"
  "w_lost run_stopping = []" "w_join run_stopping = None"
  by (simp_all add: run_stopping_def on_drain_def on_terminate_def worker_new_def loop_end_check_def
      mark_aborted_def)

lemma run_stopping_reachable: "worker_reachable 7 1 run_stopping"
  unfolding run_stopping_def
proof (rule worker_reachable.step [OF worker_reachable.step [OF worker_reachable.step
      [OF worker_reachable.start worker_step.terminate] worker_step.loop_terminate] worker_step.loop_drain])
  show "w_pc (on_terminate ((worker_new 7 1)\<lparr>w_term := True\<rparr>)) = Draining"
    by (simp add: on_terminate_def worker_new_def)
qed (simp_all add: worker_new_def terminate_ready_def)

lemma run_late_reachable: "worker_reachable 7 1 run_late"
  unfolding run_late_def
proof (rule worker_reachable.step [OF worker_reachable.step [OF worker_reachable.step
      [OF run_stopping_reachable worker_step.spawn] worker_step.send] worker_step.loop_stop])
qed (simp_all add: spawn_begin_def spawn_send_def inflight_guard_drop_def increment_inflight_def)

lemma run_late_sel: "w_pc run_late = Stopped" "w_lost run_late = [0]" "w_inflight run_late = 1"
  "w_results run_late 0 = Sender_Dropped"
  by (simp_all add: run_late_def on_stop_def spawn_begin_def spawn_send_def inflight_guard_drop_def
      increment_inflight_def Let_def)

text \<open>
  A task sent after the drain has seen the channel empty, and before the receiver is dropped, is never
  counted out: the stopped worker of the run \<open>run_late\<close> (reachable, its task's result sender dropped) is,
  on every continuation with fewer than \<open>2 ^ 64\<close> outstanding tasks, still \<^verbatim>\<open>Busy\<close>, so \<^verbatim>\<open>Worker::join\<close> on it
  never gets past its check.
\<close>

theorem late_task_keeps_worker_busy:
  assumes "worker_step\<^sup>*\<^sup>* run_late w'" "length (counted_tasks w') < 2 ^ 64"
  shows "worker_reachable 7 1 run_late \<and> w_pc run_late = Stopped \<and> w_results run_late 0 = Sender_Dropped \<and>
         worker_state_of w' = Busy \<and> join_step w' J_Check = J_Register"
proof -
  have "0 \<in> set (counted_tasks w')"
    using stopped_steps [OF assms(1)] run_late_sel by (simp add: counted_tasks_iff)
  moreover have "w_inflight w' = of_nat (length (counted_tasks w'))"
    using worker_invD(2) [OF worker_reachable_inv [OF reachable_steps [OF assms(1) run_late_reachable]]] .
  ultimately have "unat (w_inflight w') \<noteq> 0" using assms(2) by (auto simp: unat_of_nat)
  then have "w_inflight w' \<noteq> 0" by auto
  then show ?thesis
    using run_late_reachable run_late_sel by (simp add: worker_state_of_def join_step_def)
qed

theorem late_task_keeps_worker_busy_witness:
  "worker_step\<^sup>*\<^sup>* run_late run_late \<and> length (counted_tasks run_late) = 1 \<and> worker_state_of run_late = Busy"
proof -
  have c: "length (counted_tasks run_late) = 1"
    by (simp add: counted_tasks_def busy_task_def run_late_def on_stop_def spawn_begin_def spawn_send_def
        inflight_guard_drop_def increment_inflight_def Let_def)
  then show ?thesis using late_task_keeps_worker_busy [of run_late] by simp
qed

end
