(* ===== verification/Worker_Pool.thy ===== *)
theory Worker_Pool
  imports Worker_Guarantees
begin

text \<open>
  Building, dispatching to and shutting down a pool of shared workers: the builder of \<^verbatim>\<open>core/src/rong.rs\<close>,
  the pool \<^verbatim>\<open>Rong\<close> of \<^verbatim>\<open>core/src/shared.rs\<close>, and the thread helpers of \<^verbatim>\<open>core/src/worker_thread.rs\<close>. What
  the operating system does when a thread is started (the message its ready channel delivers) is a
  parameter.
\<close>

section \<open>The builder\<close>

datatype rong_build_error =
    InvalidWorkers
  | InvalidTaskQueueCapacity
  | InvalidMessageQueueCapacity
  | WorkerStart usize string

definition rong_build_error_to_string :: "rong_build_error \<Rightarrow> string" where
  "rong_build_error_to_string e =
     (case e of
        InvalidWorkers \<Rightarrow> ''workers must be greater than 0''
      | InvalidTaskQueueCapacity \<Rightarrow> ''task queue capacity must be greater than 0''
      | InvalidMessageQueueCapacity \<Rightarrow> ''message queue capacity must be greater than 0''
      | WorkerStart i reason \<Rightarrow>
          ''worker '' @ string_of_nat (unat i) @ '' failed to start: '' @ reason)"

definition rong_build_error_into :: "rong_build_error \<Rightarrow> rong_js_error" where
  "rong_build_error_into e = Host (he_new E_INTERNAL (rong_build_error_to_string e))"

record rong_builder_config =
  rb_workers :: usize
  rb_task_queue_capacity :: usize
  rb_message_queue_capacity :: usize

definition rb_default :: rong_builder_config where
  "rb_default = \<lparr>rb_workers = 1, rb_task_queue_capacity = 100, rb_message_queue_capacity = 512\<rparr>"

definition rb_validate :: "rong_builder_config \<Rightarrow> rong_build_error + rong_builder_config" where
  "rb_validate c =
     (if rb_workers c = 0 then Inl InvalidWorkers
      else if rb_task_queue_capacity c = 0 then Inl InvalidTaskQueueCapacity
      else if rb_message_queue_capacity c = 0 then Inl InvalidMessageQueueCapacity
      else Inr c)"

definition rb_set_workers :: "usize \<Rightarrow> rong_builder_config \<Rightarrow> rong_builder_config" where
  "rb_set_workers n c = c\<lparr>rb_workers := n\<rparr>"

definition rb_set_task_queue_capacity :: "usize \<Rightarrow> rong_builder_config \<Rightarrow> rong_builder_config" where
  "rb_set_task_queue_capacity n c = c\<lparr>rb_task_queue_capacity := n\<rparr>"

definition rb_set_message_queue_capacity :: "usize \<Rightarrow> rong_builder_config \<Rightarrow> rong_builder_config" where
  "rb_set_message_queue_capacity n c = c\<lparr>rb_message_queue_capacity := n\<rparr>"

section \<open>Worker threads\<close>

definition ENGINE_TIMERS_MIN_WAIT :: duration where "ENGINE_TIMERS_MIN_WAIT = 10000000"
definition ENGINE_TIMERS_MAX_WAIT :: duration where "ENGINE_TIMERS_MAX_WAIT = 1000000000"

definition engine_timers_wait :: "duration \<Rightarrow> duration" where
  "engine_timers_wait due =
     (if due < ENGINE_TIMERS_MIN_WAIT then ENGINE_TIMERS_MIN_WAIT
      else if ENGINE_TIMERS_MAX_WAIT < due then ENGINE_TIMERS_MAX_WAIT else due)"

text \<open>
  The engine-timer loop of \<^verbatim>\<open>EngineTimers::start\<close>, as the waits it makes: the engine's answers to successive
  calls of \<^verbatim>\<open>run_engine_timers\<close> are the argument; an engine with no deferred work starts no loop.
\<close>

definition engine_timers_start :: "duration option list \<Rightarrow> duration list option" where
  "engine_timers_start answers =
     (case answers of
        [] \<Rightarrow> None
      | None # _ \<Rightarrow> None
      | Some first # later \<Rightarrow>
          Some (engine_timers_wait first #
                map (\<lambda>due. engine_timers_wait (case due of None \<Rightarrow> ENGINE_TIMERS_MAX_WAIT | Some d \<Rightarrow> d)) later))"

text \<open>
  What the starting thread reads from the ready channel: the worker is up, its runtime could not be built,
  or the thread died before reporting.
\<close>

datatype ready = Ready_Ok | Ready_Err string | Ready_Closed string

text \<open>
  A thread handle is the name of its thread. The first component of the result lists the workers whose
  threads were joined; a worker whose handle is gone ends the loop, because the closure that yields the
  handles returns \<^verbatim>\<open>None\<close> for it.
\<close>

fun shutdown_worker_threads ::
  "nat \<Rightarrow> (usize \<times> nat option) list \<Rightarrow> usize list \<times> (usize \<times> nat option) list" where
  "shutdown_worker_threads current [] = ([], [])"
| "shutdown_worker_threads current ((i, None) # hs) = ([], (i, None) # hs)"
| "shutdown_worker_threads current ((i, Some th) # hs) =
     (case shutdown_worker_threads current hs of
        (joined, hs') \<Rightarrow> (if th = current then joined else i # joined, (i, None) # hs'))"

section \<open>The pool\<close>

definition worker_terminate :: "'r worker \<Rightarrow> 'r worker" where
  "worker_terminate w = w\<lparr>w_term := True\<rparr>"

text \<open>
  The loop of \<^verbatim>\<open>initialize_workers\<close>: on a failed start the workers started before are shut down and the
  error names the worker; the failing one was never added.
\<close>

fun initialize_workers ::
  "(usize \<Rightarrow> ready) \<Rightarrow> nat \<Rightarrow> nat list \<Rightarrow> 'r worker list \<Rightarrow>
     (rong_build_error \<times> 'r worker list) + 'r worker list" where
  "initialize_workers start cap [] workers = Inr workers"
| "initialize_workers start cap (n # ns) workers =
     (let worker_id = of_nat n in
      case start worker_id of
        Ready_Ok \<Rightarrow> initialize_workers start cap ns (workers @ [worker_new worker_id cap])
      | Ready_Err reason \<Rightarrow> Inl (WorkerStart worker_id reason, map worker_terminate workers)
      | Ready_Closed err \<Rightarrow> Inl (WorkerStart worker_id err, map worker_terminate workers))"

definition build_shared_workers ::
  "(usize \<Rightarrow> ready) \<Rightarrow> rong_builder_config \<Rightarrow> (rong_build_error \<times> 'r worker list) + 'r worker list" where
  "build_shared_workers start config =
     (case rb_validate config of
        Inl e \<Rightarrow> Inl (e, [])
      | Inr c \<Rightarrow>
          initialize_workers start (unat (rb_task_queue_capacity c)) [0..<unat (rb_workers c)] [])"

definition pool_worker :: "nat \<Rightarrow> 'r worker list \<Rightarrow> 'r worker js_result" where
  "pool_worker i ws =
     (if i < length ws then Inr (ws ! i)
      else Inl (Host (he_new E_NOT_FOUND (''Worker '' @ string_of_nat i @ '' not found''))))"

definition free_workers_count :: "'r worker list \<Rightarrow> nat" where
  "free_workers_count ws = length (filter (\<lambda>w. worker_state_of w = Idle) ws)"

definition total_workers_count :: "'r worker list \<Rightarrow> nat" where
  "total_workers_count ws = length ws"

text \<open>
  One pass of \<^verbatim>\<open>Rong::spawn\<close> over the workers: the index of the first worker that could be reserved, with that
  worker's reservation made; \<^const>\<open>None\<close> when every worker is busy and the caller goes on to wait.
\<close>

fun pool_reserve :: "'r worker list \<Rightarrow> (nat \<times> 'r worker list) option" where
  "pool_reserve [] = None"
| "pool_reserve (w # ws) =
     (case reserve_if_idle w of
        (True, w') \<Rightarrow> Some (0, w' # ws)
      | (False, w') \<Rightarrow> map_option (\<lambda>(i, ws'). (Suc i, w' # ws')) (pool_reserve ws))"

definition pool_spawn :: "nat \<Rightarrow> 'r worker list \<Rightarrow> (nat \<times> 'r worker list) option" where
  "pool_spawn t ws =
     map_option (\<lambda>(i, ws'). (i, ws'[i := spawn_begin True t (ws' ! i)])) (pool_reserve ws)"

definition pool_shutdown ::
  "nat \<Rightarrow> 'r worker list \<Rightarrow> (usize \<times> nat option) list \<Rightarrow>
     'r worker list \<times> usize list \<times> (usize \<times> nat option) list" where
  "pool_shutdown current ws handles =
     (map worker_terminate ws, shutdown_worker_threads current handles)"

definition ensure_sync_bridge_allowed :: "bool \<Rightarrow> bool \<Rightarrow> string \<Rightarrow> unit js_result" where
  "ensure_sync_bridge_allowed in_worker in_tokio api_name =
     (if in_worker then
        Inl (Host (he_new E_INTERNAL (api_name @ '' cannot run from inside a Rong worker thread'')))
      else if in_tokio then
        Inl (Host (he_new E_INTERNAL
          (api_name @ '' cannot run from inside an active Tokio runtime; use .await instead'')))
      else Inr ())"

text \<open>The blocking entry points run the asynchronous call only outside a worker and outside a runtime.\<close>

definition call_blocking ::
  "bool \<Rightarrow> bool \<Rightarrow> string \<Rightarrow> ('s \<Rightarrow> 'x js_result \<times> 's) \<Rightarrow> 's \<Rightarrow> 'x js_result \<times> 's" where
  "call_blocking in_worker in_tokio api_name call s =
     (case ensure_sync_bridge_allowed in_worker in_tokio api_name of
        Inl e \<Rightarrow> (Inl e, s)
      | Inr _ \<Rightarrow> call s)"

section \<open>Lemmas\<close>

lemma initialize_workers_ok:
  "(\<forall>n \<in> set ns. start (of_nat n) = Ready_Ok) \<Longrightarrow>
     initialize_workers start cap ns ws = Inr (ws @ map (\<lambda>n. worker_new (of_nat n) cap) ns)"
  by (induction ns arbitrary: ws) (simp_all add: Let_def)

lemma initialize_workers_fail:
  assumes "start (of_nat n) = bad" "bad \<noteq> Ready_Ok" "\<forall>m \<in> set ms. start (of_nat m) = Ready_Ok"
  shows "\<exists>reason. initialize_workers start cap (ms @ n # ns) ws =
     Inl (WorkerStart (of_nat n) reason, map worker_terminate (ws @ map (\<lambda>m. worker_new (of_nat m) cap) ms))"
  using assms
proof (induction ms arbitrary: ws)
  case Nil
  then show ?case by (cases bad) (auto simp: Let_def)
next
  case (Cons m ms)
  then show ?case using Cons.IH [of "ws @ [worker_new (of_nat m) cap]"] by (simp add: Let_def)
qed

lemma pool_reserve_Some:
  "pool_reserve ws = Some (i, ws') \<Longrightarrow>
     i < length ws \<and> worker_state_of (ws ! i) = Idle \<and> (\<forall>j < i. worker_state_of (ws ! j) = Busy) \<and>
     ws' = ws[i := (ws ! i)\<lparr>w_inflight := 1\<rparr>]"
proof (induction ws arbitrary: i ws')
  case (Cons w ws)
  show ?case
  proof (cases "w_inflight w = 0")
    case True
    then show ?thesis using Cons.prems by (auto simp: reserve_if_idle_def worker_state_of_def)
  next
    case False
    then obtain k vs where k: "pool_reserve ws = Some (k, vs)" "i = Suc k" "ws' = w # vs"
      using Cons.prems by (auto simp: reserve_if_idle_def)
    have "\<forall>j < Suc k. worker_state_of ((w # ws) ! j) = Busy"
      using Cons.IH [OF k(1)] False by (auto simp: worker_state_of_def less_Suc_eq_0_disj)
    then show ?thesis using Cons.IH [OF k(1)] k(2,3) by simp
  qed
qed simp

lemma pool_reserve_None: "pool_reserve ws = None \<longleftrightarrow> (\<forall>w \<in> set ws. worker_state_of w = Busy)"
  by (induction ws) (auto simp: reserve_if_idle_def worker_state_of_def split: if_splits)

lemma length_shutdown [simp]: "length (snd (shutdown_worker_threads c hs)) = length hs"
  by (induction c hs rule: shutdown_worker_threads.induct) (simp_all add: case_prod_beta)

lemma shutdown_all:
  assumes "\<forall>h \<in> set hs. snd h \<noteq> None"
  shows "shutdown_worker_threads c hs =
    (map fst (filter (\<lambda>h. snd h \<noteq> Some c) hs), map (\<lambda>h. (fst h, None)) hs)"
  using assms by (induction c hs rule: shutdown_worker_threads.induct) simp_all

lemma shutdown_stops:
  assumes "\<forall>h \<in> set hs. snd h \<noteq> None"
  shows "fst (shutdown_worker_threads c (hs @ (i, None) # hs')) = fst (shutdown_worker_threads c hs) \<and>
         snd (shutdown_worker_threads c (hs @ (i, None) # hs')) = snd (shutdown_worker_threads c hs) @ (i, None) # hs'"
  using assms
  by (induction c hs rule: shutdown_worker_threads.induct) (simp_all add: case_prod_beta)

section \<open>Properties\<close>

text \<open>
  Building a shared pool is all or nothing. A configuration with a zero in it is refused before any
  thread starts; otherwise, if every worker reports ready, the pool has exactly the configured number of
  idle workers, numbered from 0 and with the configured queue capacity; and if worker \<open>n\<close> is the first
  that does not, the error names it and all the workers before it have been told to terminate.
\<close>

theorem build_shared_all_or_nothing:
  fixes start :: "usize \<Rightarrow> ready"
  shows "(\<forall>e. rb_validate c = Inl e \<longrightarrow> build_shared_workers start c = (Inl (e, []) :: (rong_build_error \<times> 'r worker list) + 'r worker list)) \<and>
    (rb_validate c = Inr c \<and> (\<forall>n < unat (rb_workers c). start (of_nat n) = Ready_Ok) \<longrightarrow>
       (\<exists>ws :: 'r worker list. build_shared_workers start c = Inr ws \<and> length ws = unat (rb_workers c) \<and>
          free_workers_count ws = total_workers_count ws \<and>
          (\<forall>n < length ws. pool_worker n ws = Inr (worker_new (of_nat n) (unat (rb_task_queue_capacity c)))))) \<and>
    (\<forall>n < unat (rb_workers c). rb_validate c = Inr c \<and> start (of_nat n) \<noteq> Ready_Ok \<and>
        (\<forall>m < n. start (of_nat m) = Ready_Ok) \<longrightarrow>
       (\<exists>reason (ws :: 'r worker list). build_shared_workers start c = Inl (WorkerStart (of_nat n) reason, ws) \<and>
          length ws = n \<and> (\<forall>w \<in> set ws. w_term w)))"
proof (intro conjI allI impI)
  fix e assume "rb_validate c = Inl e"
  then show "build_shared_workers start c = (Inl (e, []) :: (rong_build_error \<times> 'r worker list) + 'r worker list)"
    by (simp add: build_shared_workers_def)
next
  assume a: "rb_validate c = Inr c \<and> (\<forall>n < unat (rb_workers c). start (of_nat n) = Ready_Ok)"
  let ?cap = "unat (rb_task_queue_capacity c)"
  let ?ws = "map (\<lambda>n. worker_new (of_nat n) ?cap) [0..<unat (rb_workers c)] :: 'r worker list"
  have "filter (\<lambda>w. worker_state_of w = Idle) ?ws = ?ws"
    by (simp add: filter_map o_def worker_state_of_def worker_new_def)
  then have "free_workers_count ?ws = total_workers_count ?ws"
    by (simp only: free_workers_count_def total_workers_count_def)
  moreover have "build_shared_workers start c = Inr ?ws"
    using a initialize_workers_ok [of "[0..<unat (rb_workers c)]" start ?cap "[]"]
    by (simp add: build_shared_workers_def)
  ultimately show "\<exists>ws :: 'r worker list. build_shared_workers start c = Inr ws \<and> length ws = unat (rb_workers c) \<and>
      free_workers_count ws = total_workers_count ws \<and>
      (\<forall>n < length ws. pool_worker n ws = Inr (worker_new (of_nat n) ?cap))"
    by (intro exI [of _ ?ws]) (simp add: pool_worker_def)
next
  fix n assume n: "n < unat (rb_workers c)"
    and a: "rb_validate c = Inr c \<and> start (of_nat n) \<noteq> Ready_Ok \<and> (\<forall>m < n. start (of_nat m) = Ready_Ok)"
  let ?cap = "unat (rb_task_queue_capacity c)"
  have split: "[0..<unat (rb_workers c)] = [0..<n] @ n # [Suc n..<unat (rb_workers c)]"
    using n by (metis less_imp_le_nat upt_conv_Cons upt_add_eq_append le_add_diff_inverse zero_le)
  obtain reason where "initialize_workers start ?cap ([0..<n] @ n # [Suc n..<unat (rb_workers c)]) ([] :: 'r worker list) =
     Inl (WorkerStart (of_nat n) reason, map worker_terminate ([] @ map (\<lambda>m. worker_new (of_nat m) ?cap) [0..<n]))"
    using initialize_workers_fail [of start n "start (of_nat n)" "[0..<n]" ?cap
        "[Suc n..<unat (rb_workers c)]" "[]"] a by auto
  then show "\<exists>reason (ws :: 'r worker list). build_shared_workers start c = Inl (WorkerStart (of_nat n) reason, ws) \<and>
      length ws = n \<and> (\<forall>w \<in> set ws. w_term w)"
    using a by (auto simp: build_shared_workers_def split [symmetric] worker_terminate_def)
qed

theorem build_shared_all_or_nothing_witness:
  "\<exists>reason (ws :: nat worker list).
     build_shared_workers (\<lambda>i. if i = 2 then Ready_Err ''no memory'' else Ready_Ok) (rb_set_workers 3 rb_default) =
       Inl (WorkerStart 2 reason, ws) \<and> length ws = 2 \<and> list_all w_term ws"
proof -
  have v: "rb_validate (rb_set_workers 3 rb_default) = Inr (rb_set_workers 3 rb_default)"
    "rb_workers (rb_set_workers 3 rb_default) = 3"
    by (simp_all add: rb_validate_def rb_set_workers_def rb_default_def)
  have "\<forall>m < 2. (if (of_nat m :: usize) = 2 then Ready_Err ''no memory'' else Ready_Ok) = Ready_Ok"
    by (auto simp: less_2_cases_iff)
  then show ?thesis
    using spec [OF conjunct2 [OF conjunct2 [OF build_shared_all_or_nothing [of "rb_set_workers 3 rb_default"
        "\<lambda>i. if i = 2 then Ready_Err ''no memory'' else Ready_Ok"]]], of 2] v
    by (simp add: list_all_iff)
qed

text \<open>
  Dispatch is safe and fair to the order of the workers: a pass of \<^verbatim>\<open>Rong::spawn\<close> takes the first idle
  worker, marks it busy and touches no other; it goes on to wait exactly when every worker is busy, which
  is exactly when the count of free workers is zero.
\<close>

theorem pool_spawn_first_idle:
  "(case pool_spawn t ws of
      None \<Rightarrow> free_workers_count ws = 0
    | Some (i, ws') \<Rightarrow>
        i < length ws \<and> worker_state_of (ws ! i) = Idle \<and> (\<forall>j < i. worker_state_of (ws ! j) = Busy) \<and>
        length ws' = length ws \<and> (\<forall>j < length ws. j \<noteq> i \<longrightarrow> ws' ! j = ws ! j) \<and>
        ws' ! i = spawn_begin False t (ws ! i) \<and> worker_state_of (ws' ! i) = Busy)"
proof (cases "pool_reserve ws")
  case None
  then have "\<forall>w \<in> set ws. worker_state_of w = Busy" by (simp add: pool_reserve_None)
  then show ?thesis using None by (simp add: pool_spawn_def free_workers_count_def)
next
  case (Some p)
  obtain i ws1 where p: "pool_reserve ws = Some (i, ws1)" using Some by (cases p) auto
  have r: "i < length ws" "worker_state_of (ws ! i) = Idle" "\<forall>j < i. worker_state_of (ws ! j) = Busy"
    "ws1 = ws[i := (ws ! i)\<lparr>w_inflight := 1\<rparr>]" using pool_reserve_Some [OF p] by auto
  have "w_inflight (ws ! i) = 0" using r(2) by (simp add: worker_state_of_def split: if_splits)
  then have s: "spawn_begin True t ((ws ! i)\<lparr>w_inflight := 1\<rparr>) = spawn_begin False t (ws ! i)"
    "worker_state_of (spawn_begin False t (ws ! i)) = Busy"
    by (simp_all add: spawn_begin_def increment_inflight_def worker_state_of_def)
  show ?thesis using r s p by (simp add: pool_spawn_def)
qed

theorem pool_spawn_first_idle_witness:
  "\<exists>ws'. pool_spawn 5 [run_sent, run_done] = Some (1, ws') \<and> worker_state_of (ws' ! 1) = Busy"
proof -
  have "pool_spawn 5 [run_sent, run_done] =
      Some (1, [run_sent, spawn_begin True 5 (run_done\<lparr>w_inflight := 1\<rparr>)])"
    by (simp add: pool_spawn_def reserve_if_idle_def)
  then show ?thesis using pool_spawn_first_idle [where t = 5 and ws = "[run_sent, run_done]"] by auto
qed

text \<open>
  Shutting a pool down tells every worker to terminate and joins the thread of every worker that still
  has its handle, except the thread that is shutting down; but the join loop ends at the first worker whose
  handle is already gone, so with a shutdown in progress elsewhere the threads of later workers are not
  waited for.
\<close>

theorem pool_shutdown_joins:
  assumes "\<forall>h \<in> set hs. snd h \<noteq> None"
  shows "pool_shutdown c ws hs =
           (map worker_terminate ws, map fst (filter (\<lambda>h. snd h \<noteq> Some c) hs), map (\<lambda>h. (fst h, None)) hs) \<and>
         fst (snd (pool_shutdown c ws (hs @ (i, None) # hs'))) =
           map fst (filter (\<lambda>h. snd h \<noteq> Some c) hs) \<and>
         snd (snd (pool_shutdown c ws (hs @ (i, None) # hs'))) = map (\<lambda>h. (fst h, None)) hs @ (i, None) # hs'"
  using shutdown_all [OF assms, of c] shutdown_stops [OF assms, of c i hs'] by (simp add: pool_shutdown_def)

theorem pool_shutdown_joins_witness:
  "pool_shutdown 9 [run_sent] [(0, Some 8), (1, Some 9), (2, Some 10)] =
     ([worker_terminate run_sent], [0, 2], [(0, None), (1, None), (2, None)]) \<and>
   fst (snd (pool_shutdown 9 [run_sent] [(0, None), (1, Some 11)])) = ([] :: usize list)"
  using pool_shutdown_joins [of "[(0, Some 8), (1, Some 9), (2, Some 10)]" 9 "[run_sent]"]
    pool_shutdown_joins [of "[]" 9 "[run_sent]" 0 "[(1, Some 11)]"]
  by simp

text \<open>
  The engine-timer loop never spins and never sleeps too long: every wait it makes is between 10 ms and
  1 s, whatever the engine reports, and a report inside that range is used unchanged.
\<close>

theorem engine_timers_wait_bounds:
  "(\<forall>waits. engine_timers_start answers = Some waits \<longrightarrow>
      (\<forall>d \<in> set waits. ENGINE_TIMERS_MIN_WAIT \<le> d \<and> d \<le> ENGINE_TIMERS_MAX_WAIT)) \<and>
   (ENGINE_TIMERS_MIN_WAIT \<le> due \<and> due \<le> ENGINE_TIMERS_MAX_WAIT \<longrightarrow> engine_timers_wait due = due)"
proof -
  have "ENGINE_TIMERS_MIN_WAIT \<le> engine_timers_wait d \<and> engine_timers_wait d \<le> ENGINE_TIMERS_MAX_WAIT" for d
    by (simp add: engine_timers_wait_def ENGINE_TIMERS_MIN_WAIT_def ENGINE_TIMERS_MAX_WAIT_def)
  moreover have "ENGINE_TIMERS_MIN_WAIT \<le> due \<Longrightarrow> due \<le> ENGINE_TIMERS_MAX_WAIT \<Longrightarrow> engine_timers_wait due = due"
    by (simp add: engine_timers_wait_def)
  ultimately show ?thesis
    by (auto simp: engine_timers_start_def split: list.splits option.splits)
qed

theorem engine_timers_wait_bounds_witness:
  "engine_timers_start [Some 0, None, Some 250000000] = Some [10000000, 1000000000, 250000000] \<and>
   engine_timers_wait 250000000 = 250000000"
  using engine_timers_wait_bounds [of "[Some 0, None, Some 250000000]" 250000000]
  by (simp add: engine_timers_start_def engine_timers_wait_def ENGINE_TIMERS_MIN_WAIT_def
      ENGINE_TIMERS_MAX_WAIT_def)

end
