(* ===== verification/Pinned_Worker.thy ===== *)
theory Pinned_Worker
  imports Worker_Pool
begin

text \<open>
  The pinned pool, \<^verbatim>\<open>core/src/pinned.rs\<close>: tasks carry a key, a key always goes to the same worker, and the
  worker keeps one state per key between tasks. A pinned worker is a shared worker together with the keys
  of its tasks and the map of states; each of its handlers is the shared handler plus what it does to that
  map. The refinement below shows that forgetting keys and states gives a run of the shared worker, so
  every guarantee of \<^verbatim>\<open>Worker_Guarantees\<close> carries over.
\<close>

section \<open>Data\<close>

datatype pinned_spawn_error = QueueFull usize usize | WorkerStopped usize

record ('k, 's, 'r) pinned_worker =
  pw_base :: "'r worker"
  pw_key :: "nat \<Rightarrow> 'k option"
  pw_states :: "'k \<rightharpoonup> 's"
  pw_given :: "'s option"

definition pinned_new :: "usize \<Rightarrow> nat \<Rightarrow> ('k, 's, 'r) pinned_worker" where
  "pinned_new i cap =
     \<lparr>pw_base = worker_new i cap, pw_key = (\<lambda>_. None), pw_states = Map.empty, pw_given = None\<rparr>"

definition pinned_state :: "('k, 's, 'r) pinned_worker \<Rightarrow> worker_state" where
  "pinned_state p = worker_state_of (pw_base p)"

definition pinned_pending :: "('k, 's, 'r) pinned_worker \<Rightarrow> usize" where
  "pinned_pending p = w_inflight (pw_base p)"

section \<open>Submitting\<close>

definition pinned_spawn_begin :: "'k \<Rightarrow> nat \<Rightarrow> ('k, 's, 'r) pinned_worker \<Rightarrow> ('k, 's, 'r) pinned_worker" where
  "pinned_spawn_begin key t p =
     p\<lparr>pw_base := spawn_begin False t (pw_base p), pw_key := (pw_key p)(t := Some key)\<rparr>"

definition pinned_spawn_send :: "nat \<Rightarrow> ('k, 's, 'r) pinned_worker \<Rightarrow> ('k, 's, 'r) pinned_worker" where
  "pinned_spawn_send t p = p\<lparr>pw_base := spawn_send t (pw_base p)\<rparr>"

definition pinned_spawn_abandon :: "nat \<Rightarrow> ('k, 's, 'r) pinned_worker \<Rightarrow> ('k, 's, 'r) pinned_worker" where
  "pinned_spawn_abandon t p = p\<lparr>pw_base := spawn_abandon t (pw_base p)\<rparr>"

definition pinned_queue_error :: "usize \<Rightarrow> string \<Rightarrow> rong_js_error" where
  "pinned_queue_error worker_id cause =
     Host (he_new E_INTERNAL
       (''Failed to queue pinned task on worker '' @ string_of_nat (unat worker_id) @ '': '' @ cause))"

text \<open>
  \<^verbatim>\<open>try_spawn_inner\<close>: count the task in, then try to send without waiting; a full or closed channel counts it
  out again and reports the number of tasks that were pending before.
\<close>

definition pinned_try_spawn ::
  "'k \<Rightarrow> nat \<Rightarrow> ('k, 's, 'r) pinned_worker \<Rightarrow>
     (pinned_spawn_error + nat) \<times> ('k, 's, 'r) pinned_worker" where
  "pinned_try_spawn key t p =
     (let pending_before = w_inflight (pw_base p);
          worker_id = w_id (pw_base p);
          p' = pinned_spawn_begin key t p
      in if \<not> w_rx_open (pw_base p)
         then (Inl (WorkerStopped worker_id), pinned_spawn_abandon t p')
         else if w_capacity (pw_base p) \<le> length (w_queue (pw_base p))
         then (Inl (QueueFull worker_id pending_before), pinned_spawn_abandon t p')
         else (Inr t, pinned_spawn_send t p'))"

section \<open>The loop\<close>

definition pinned_panic_error :: "string \<Rightarrow> rong_js_error" where
  "pinned_panic_error cause =
     Host (he_new E_INTERNAL (''Pinned task panicked or runtime dropped: '' @ cause))"

text \<open>
  A received task is claimed as in the shared loop; a claimed task takes the state of its key out of the map
  and is given it.
\<close>

definition pinned_on_recv :: "('k, 's, 'r) pinned_worker \<Rightarrow> ('k, 's, 'r) pinned_worker option" where
  "pinned_on_recv p =
     (case on_recv (pw_base p) of
        None \<Rightarrow> None
      | Some w \<Rightarrow>
          (case w_pc w of
             Constructing t \<Rightarrow>
               (case pw_key p t of
                  None \<Rightarrow> None
                | Some key \<Rightarrow>
                    Some (p\<lparr>pw_base := w, pw_given := pw_states p key,
                            pw_states := (pw_states p)(key := None)\<rparr>))
           | _ \<Rightarrow> Some (p\<lparr>pw_base := w\<rparr>)))"

definition pinned_on_constructed ::
  "nat \<Rightarrow> ('k, 's, 'r) pinned_worker \<Rightarrow> ('k, 's, 'r) pinned_worker option" where
  "pinned_on_constructed t p =
     map_option (\<lambda>w. p\<lparr>pw_base := w\<rparr>) (on_constructed t (pw_base p))"

datatype ('r, 's) pinned_outcome =
    P_Completed "'r js_result" "'s option"
  | P_Aborted
  | P_Join_Error string

text \<open>What the shared handler sees of a pinned task's end: its result without the state.\<close>

definition pinned_result :: "('r, 's) pinned_outcome \<Rightarrow> 'r task_outcome" where
  "pinned_result oc =
     (case oc of
        P_Completed r _ \<Rightarrow> Completed r
      | P_Aborted \<Rightarrow> Aborted_Future
      | P_Join_Error cause \<Rightarrow> Completed (Inl (pinned_panic_error cause)))"

text \<open>The state goes back into the map only when the task completed, no deadline had won, and it returned one.\<close>

definition pinned_on_task_result ::
  "('r, 's) pinned_outcome \<Rightarrow> ('k, 's, 'r) pinned_worker \<Rightarrow> ('k, 's, 'r) pinned_worker" where
  "pinned_on_task_result oc p =
     (let w = pw_base p;
          timeout = (case w_execution w of None \<Rightarrow> None | Some t \<Rightarrow> fst (finish_task t w));
          key = (case w_join w of None \<Rightarrow> None | Some t \<Rightarrow> pw_key p t);
          states = (case (timeout, oc, key) of
                      (None, P_Completed r (Some s), Some k) \<Rightarrow> (pw_states p)(k \<mapsto> s)
                    | _ \<Rightarrow> pw_states p)
      in p\<lparr>pw_base := on_task_result (pinned_result oc) w, pw_states := states, pw_given := None\<rparr>)"

definition pinned_on_drain :: "('k, 's, 'r) pinned_worker \<Rightarrow> ('k, 's, 'r) pinned_worker" where
  "pinned_on_drain p = p\<lparr>pw_base := on_drain (pw_base p)\<rparr>"

definition pinned_on_stop :: "('k, 's, 'r) pinned_worker \<Rightarrow> ('k, 's, 'r) pinned_worker" where
  "pinned_on_stop p = p\<lparr>pw_base := on_stop (pw_base p)\<rparr>"

section \<open>The pool\<close>

text \<open>The key's 64-bit hash (\<^verbatim>\<open>DefaultHasher\<close>) is the first argument; \<^verbatim>\<open>as usize\<close> keeps it whole.\<close>

definition worker_id_for_key :: "('k \<Rightarrow> u64) \<Rightarrow> nat \<Rightarrow> 'k \<Rightarrow> nat" where
  "worker_id_for_key hash n key = unat (hash key) mod n"

definition worker_for_key ::
  "('k \<Rightarrow> u64) \<Rightarrow> ('k, 's, 'r) pinned_worker list \<Rightarrow> 'k \<Rightarrow> ('k, 's, 'r) pinned_worker" where
  "worker_for_key hash ws key = ws ! worker_id_for_key hash (length ws) key"

definition pinned_rong_try_spawn ::
  "('k \<Rightarrow> u64) \<Rightarrow> 'k \<Rightarrow> nat \<Rightarrow> ('k, 's, 'r) pinned_worker list \<Rightarrow>
     (pinned_spawn_error + nat) \<times> ('k, 's, 'r) pinned_worker list" where
  "pinned_rong_try_spawn hash key t ws =
     (case pinned_try_spawn key t (worker_for_key hash ws key) of
        (r, p) \<Rightarrow> (r, ws[worker_id_for_key hash (length ws) key := p]))"

text \<open>\<^verbatim>\<open>PinnedRong::build\<close> validates again and starts the workers as the shared pool does.\<close>

definition pinned_of_shared :: "'r worker \<Rightarrow> ('k, 's, 'r) pinned_worker" where
  "pinned_of_shared w = \<lparr>pw_base = w, pw_key = (\<lambda>_. None), pw_states = Map.empty, pw_given = None\<rparr>"

definition build_pinned_workers ::
  "(usize \<Rightarrow> ready) \<Rightarrow> rong_builder_config \<Rightarrow>
     (rong_build_error \<times> ('k, 's, 'r) pinned_worker list) + ('k, 's, 'r) pinned_worker list" where
  "build_pinned_workers start config =
     (case rb_validate config of
        Inl e \<Rightarrow> Inl (e, [])
      | Inr c \<Rightarrow>
          (if rb_workers c = 0 then Inl (InvalidWorkers, [])
           else if rb_task_queue_capacity c = 0 then Inl (InvalidTaskQueueCapacity, [])
           else if rb_message_queue_capacity c = 0 then Inl (InvalidMessageQueueCapacity, [])
           else
             (case initialize_workers start (unat (rb_task_queue_capacity c)) [0..<unat (rb_workers c)] [] of
                Inl (e, ws) \<Rightarrow> Inl (e, map pinned_of_shared ws)
              | Inr ws \<Rightarrow> Inr (map pinned_of_shared ws))))"

section \<open>Transitions\<close>

definition on_base :: "('r worker \<Rightarrow> 'r worker) \<Rightarrow> ('k, 's, 'r) pinned_worker \<Rightarrow> ('k, 's, 'r) pinned_worker" where
  "on_base f p = p\<lparr>pw_base := f (pw_base p)\<rparr>"

inductive pinned_step :: "('k, 's, 'r) pinned_worker \<Rightarrow> ('k, 's, 'r) pinned_worker \<Rightarrow> bool" where
  spawn: "w_tx_open (pw_base p) \<Longrightarrow> w_execs (pw_base p) t = None \<Longrightarrow>
    pinned_step p (pinned_spawn_begin key t p)"
| send: "t \<in> set (w_sending (pw_base p)) \<Longrightarrow> w_rx_open (pw_base p) \<Longrightarrow>
    length (w_queue (pw_base p)) < w_capacity (pw_base p) \<Longrightarrow> pinned_step p (pinned_spawn_send t p)"
| abandon: "t \<in> set (w_sending (pw_base p)) \<Longrightarrow> pinned_step p (pinned_spawn_abandon t p)"
| try_spawn: "w_tx_open (pw_base p) \<Longrightarrow> w_execs (pw_base p) t = None \<Longrightarrow>
    pinned_step p (snd (pinned_try_spawn key t p))"
| deadline: "w_execs (pw_base p) t \<noteq> None \<Longrightarrow> t \<notin> set (w_sending (pw_base p)) \<Longrightarrow>
    pinned_step p (on_base (\<lambda>w. snd (handle_timeout t d w)) p)"
| terminate: "pinned_step p (on_base worker_terminate p)"
| interrupt: "pinned_step p (on_base (\<lambda>w. w\<lparr>w_interrupt := ih_interrupt (w_interrupt w)\<rparr>) p)"
| clear_interrupt: "pinned_step p (on_base (\<lambda>w. w\<lparr>w_interrupt := ih_clear (w_interrupt w)\<rparr>) p)"
| bind: "pinned_step p (on_base (\<lambda>w. w\<lparr>w_interrupt := ih_bind_engine f (w_interrupt w)\<rparr>) p)"
| ext_scope: "ih_interrupt_scoped (w_interrupt (pw_base p)) = Some (g, ih) \<Longrightarrow>
    pinned_step p (on_base (\<lambda>w. w\<lparr>w_interrupt := ih, w_ext_scoped := Suc (w_ext_scoped w)\<rparr>) p)"
| ext_drop: "0 < w_ext_scoped (pw_base p) \<Longrightarrow> pinned_step p (on_base drop_ext_guard p)"
| senders_dropped: "w_sending (pw_base p) = [] \<Longrightarrow> pinned_step p (on_base (\<lambda>w. w\<lparr>w_tx_open := False\<rparr>) p)"
| loop_terminate: "w_pc (pw_base p) = Selecting \<Longrightarrow> terminate_ready (pw_base p) \<Longrightarrow>
    pinned_step p (on_base on_terminate p)"
| loop_recv: "w_pc (pw_base p) = Selecting \<Longrightarrow> \<not> terminate_ready (pw_base p) \<Longrightarrow> w_join (pw_base p) = None \<Longrightarrow>
    \<not> w_shutting_down (pw_base p) \<Longrightarrow> pinned_on_recv p = Some p' \<Longrightarrow> pinned_step p p'"
| loop_closed: "w_pc (pw_base p) = Selecting \<Longrightarrow> \<not> terminate_ready (pw_base p) \<Longrightarrow> w_join (pw_base p) = None \<Longrightarrow>
    \<not> w_shutting_down (pw_base p) \<Longrightarrow> w_queue (pw_base p) = [] \<Longrightarrow> \<not> w_tx_open (pw_base p) \<Longrightarrow>
    pinned_step p (on_base on_channel_closed p)"
| loop_constructed: "w_pc (pw_base p) = Constructing t \<Longrightarrow> pinned_on_constructed t p = Some p' \<Longrightarrow>
    pinned_step p p'"
| loop_result: "w_pc (pw_base p) = Selecting \<Longrightarrow> \<not> terminate_ready (pw_base p) \<Longrightarrow>
    w_join (pw_base p) = Some t \<Longrightarrow> (oc = P_Aborted \<longrightarrow> t \<in> w_aborted (pw_base p)) \<Longrightarrow>
    pinned_step p (pinned_on_task_result oc p)"
| loop_send: "w_pc (pw_base p) = Answering t r b \<Longrightarrow> pinned_step p (on_base send_answer p)"
| loop_count: "w_pc (pw_base p) = Counting t b \<Longrightarrow> pinned_step p (on_base count_out p)"
| loop_drain: "w_pc (pw_base p) = Draining \<Longrightarrow> pinned_step p (pinned_on_drain p)"
| loop_stop: "w_pc (pw_base p) = Stopping \<Longrightarrow> pinned_step p (pinned_on_stop p)"

inductive pinned_reachable :: "usize \<Rightarrow> nat \<Rightarrow> ('k, 's, 'r) pinned_worker \<Rightarrow> bool" for i cap where
  start: "pinned_reachable i cap (pinned_new i cap)"
| step: "pinned_reachable i cap p \<Longrightarrow> pinned_step p p' \<Longrightarrow> pinned_reachable i cap p'"

section \<open>Refinement\<close>

text \<open>
  What makes a worker a keyed one: a client that forgets the keys and the states sees some base worker's runs.
\<close>

locale forgets =
  fixes cstep :: "'c \<Rightarrow> 'c \<Rightarrow> bool" and astep :: "'a \<Rightarrow> 'a \<Rightarrow> bool" and abs :: "'c \<Rightarrow> 'a"
  assumes simulates: "cstep c c' \<Longrightarrow> astep\<^sup>*\<^sup>* (abs c) (abs c')"
begin

lemma simulates_run: "cstep\<^sup>*\<^sup>* c c' \<Longrightarrow> astep\<^sup>*\<^sup>* (abs c) (abs c')"
  by (induction rule: rtranclp_induct) (auto dest: simulates)

end

lemma try_spawn_simulated:
  assumes tx: "w_tx_open (pw_base p)" and fresh: "w_execs (pw_base p) t = None"
  shows "worker_step\<^sup>*\<^sup>* (pw_base p) (pw_base (snd (pinned_try_spawn key t p)))"
proof -
  let ?b = "spawn_begin False t (pw_base p)"
  have b: "worker_step (pw_base p) ?b" using tx fresh by (rule worker_step.spawn)
  have sel: "t \<in> set (w_sending ?b)" "w_rx_open ?b = w_rx_open (pw_base p)" "w_queue ?b = w_queue (pw_base p)"
    "w_capacity ?b = w_capacity (pw_base p)"
    by (simp_all add: spawn_begin_def increment_inflight_def Let_def)
  show ?thesis
  proof (cases "w_rx_open (pw_base p) \<and> length (w_queue (pw_base p)) < w_capacity (pw_base p)")
    case True
    then have "worker_step ?b (spawn_send t ?b)" using sel by (intro worker_step.send) simp_all
    then show ?thesis using True b
      by (simp add: pinned_try_spawn_def pinned_spawn_send_def pinned_spawn_begin_def)
  next
    case False
    have "worker_step ?b (spawn_abandon t ?b)" using sel(1) by (rule worker_step.abandon)
    then show ?thesis using False b
      by (auto simp: pinned_try_spawn_def pinned_spawn_abandon_def pinned_spawn_begin_def Let_def)
  qed
qed

lemma on_base_simps [simp]:
  "pw_base (on_base f p) = f (pw_base p)" "pw_key (on_base f p) = pw_key p"
  "pw_states (on_base f p) = pw_states p" "pw_given (on_base f p) = pw_given p"
  by (simp_all add: on_base_def)

lemma pinned_on_recv_base: "pinned_on_recv p = Some p' \<Longrightarrow> on_recv (pw_base p) = Some (pw_base p')"
  by (auto simp: pinned_on_recv_def split: option.splits loop_pc.splits)

lemma pinned_on_task_result_base [simp]:
  "pw_base (pinned_on_task_result oc p) = on_task_result (pinned_result oc) (pw_base p)"
  "pw_key (pinned_on_task_result oc p) = pw_key p"
  by (simp_all add: pinned_on_task_result_def Let_def)

interpretation pinned: forgets pinned_step worker_step pw_base
proof
  fix p p' :: "('k, 's, 'r) pinned_worker"
  assume "pinned_step p p'"
  then show "worker_step\<^sup>*\<^sup>* (pw_base p) (pw_base p')"
  proof cases
    case (try_spawn t key)
    then show ?thesis using try_spawn_simulated by simp
  next
    case (loop_recv)
    then show ?thesis
      using worker_step.loop_recv [of "pw_base p" "pw_base p'"] pinned_on_recv_base by blast
  next
    case (loop_constructed t)
    then show ?thesis
      using worker_step.loop_constructed [of "pw_base p" t "pw_base p'"]
      by (auto simp: pinned_on_constructed_def)
  next
    case (loop_result t oc)
    then have "pinned_result oc = Aborted_Future \<longrightarrow> t \<in> w_aborted (pw_base p)"
      by (auto simp: pinned_result_def split: pinned_outcome.splits)
    then show ?thesis
      using worker_step.loop_result [of "pw_base p" t "pinned_result oc"] loop_result by auto
  qed (auto simp: pinned_spawn_begin_def pinned_spawn_send_def pinned_spawn_abandon_def worker_terminate_def
      pinned_on_drain_def pinned_on_stop_def intro: worker_step.intros)
qed

lemma pinned_reachable_base:
  "pinned_reachable i cap p \<Longrightarrow> worker_reachable i cap (pw_base p)"
proof (induction rule: pinned_reachable.induct)
  case start
  show ?case by (simp add: pinned_new_def worker_reachable.start)
next
  case (step p p')
  then show ?case using pinned.simulates reachable_steps by blast
qed

section \<open>Keys and states\<close>

lemma finish_task_dom: "w_execs (snd (finish_task t w)) u = None \<longleftrightarrow> w_execs w u = None"
  by (auto simp: finish_task_def ex_finish_def split: option.splits)

lemma finish_task_loop [simp]:
  "w_pc (snd (finish_task t w)) = w_pc w" "w_join (snd (finish_task t w)) = w_join w"
  "w_shutting_down (snd (finish_task t w)) = w_shutting_down w"
  by (simp_all add: finish_task_def ex_finish_def split: option.splits)

lemma answer_cancelled_loop:
  assumes "answer_cancelled t w = Some w'"
  shows "(\<exists>r. w_pc w' = Answering t r False) \<and> (\<forall>u. w_execs w' u = None \<longleftrightarrow> w_execs w u = None)"
  using assms finish_task_dom [of t w]
  by (auto simp: answer_cancelled_def split: prod.splits option.splits)

text \<open>The task that runs, or whose future is being made: the one that owns the state of its key.\<close>

definition running_task :: "'r worker \<Rightarrow> nat option" where
  "running_task w = (case w_pc w of Constructing t \<Rightarrow> Some t | Selecting \<Rightarrow> w_join w | _ \<Rightarrow> None)"

lemma on_recv_cases:
  assumes r: "on_recv w = Some w'"
  shows "(\<forall>u. w_execs w' u = None \<longleftrightarrow> w_execs w u = None) \<and>
    (\<exists>t q. w_queue w = t # q \<and>
       (w_pc w' = Constructing t \<and> w_execs w t \<noteq> None \<or> (\<exists>r. w_pc w' = Answering t r False)))"
proof -
  obtain t q ex where q: "w_queue w = t # q" "w_execs w t = Some ex"
    using r by (auto simp: on_recv_def Let_def split: list.splits option.splits)
  show ?thesis
  proof (cases "ex_phase ex = Queued")
    case True
    then show ?thesis using r q by (auto simp: on_recv_def begin_start_def split: if_splits)
  next
    case False
    then have "answer_cancelled t (w\<lparr>w_queue := q, w_execs := (w_execs w)(t \<mapsto> ex)\<rparr>) = Some w'"
      using r q by (auto simp: on_recv_def begin_start_def)
    from answer_cancelled_loop [OF this] show ?thesis using q by auto
  qed
qed

lemma on_constructed_cases:
  assumes r: "on_constructed t w = Some w'" and pc: "w_pc w = Constructing t"
  shows "(\<forall>u. w_execs w' u = None \<longleftrightarrow> w_execs w u = None) \<and> running_task w' \<in> {None, Some t}"
proof -
  obtain ex where ex: "w_execs w t = Some ex" using r by (auto simp: on_constructed_def split: option.splits)
  show ?thesis
  proof (cases "ex_phase ex = Starting")
    case True
    then show ?thesis
      using r ex by (auto simp: on_constructed_def install_abort_def running_task_def split: if_splits)
  next
    case False
    then have "answer_cancelled t
        (mark_aborted (Some t) (w\<lparr>w_execs := (w_execs w)(t \<mapsto> ex), w_pc := Selecting\<rparr>)) = Some w'"
      using r ex by (auto simp: on_constructed_def install_abort_def)
    from answer_cancelled_loop [OF this] show ?thesis using ex by (auto simp: running_task_def)
  qed
qed

definition pinned_inv :: "('k, 's, 'r) pinned_worker \<Rightarrow> bool" where
  "pinned_inv p \<longleftrightarrow>
     (\<forall>t. w_execs (pw_base p) t \<noteq> None \<longrightarrow> pw_key p t \<noteq> None) \<and>
     (\<forall>t k. running_task (pw_base p) = Some t \<and> pw_key p t = Some k \<longrightarrow> pw_states p k = None)"

lemma pinned_inv_mono:
  assumes "pinned_inv p" "pw_key p' = pw_key p" "pw_states p' = pw_states p"
    and "\<And>t. w_execs (pw_base p) t = None \<Longrightarrow> w_execs (pw_base p') t = None"
    and "running_task (pw_base p') \<in> {None, running_task (pw_base p)}"
  shows "pinned_inv p'"
  unfolding pinned_inv_def
proof (intro conjI allI impI)
  fix t assume "w_execs (pw_base p') t \<noteq> None"
  then show "pw_key p' t \<noteq> None" using assms(1,2,4) unfolding pinned_inv_def by metis
next
  fix t k assume "running_task (pw_base p') = Some t \<and> pw_key p' t = Some k"
  then have "running_task (pw_base p) = Some t" "pw_key p t = Some k" using assms(2,5) by auto
  then show "pw_states p' k = None" using assms(1,3) unfolding pinned_inv_def by metis
qed

lemma pinned_inv_begin:
  assumes inv: "pinned_inv p" and w: "worker_inv (pw_base p)" and fresh: "w_execs (pw_base p) t = None"
    and sel: "pw_key p' = (pw_key p)(t := Some key)" "pw_states p' = pw_states p"
      "running_task (pw_base p') = running_task (pw_base p)"
      "\<And>u. u \<noteq> t \<Longrightarrow> w_execs (pw_base p') u = w_execs (pw_base p) u"
  shows "pinned_inv p'"
proof -
  have "busy_task (pw_base p) \<noteq> Some t"
    using worker_invD(4) [OF w, of t] fresh by (auto simp: task_ok_def counted_tasks_iff)
  then have "running_task (pw_base p) \<noteq> Some t" by (auto simp: running_task_def busy_task_def split: loop_pc.splits)
  then show ?thesis using inv sel by (auto simp: pinned_inv_def)
qed

lemma running_task_frames [simp]:
  "running_task (spawn_begin b t w) = running_task w" "running_task (spawn_send t w) = running_task w"
  "running_task (spawn_abandon t w) = running_task w" "running_task (snd (handle_timeout t d w)) = running_task w"
  "running_task (worker_terminate w) = running_task w"
  by (simp_all add: running_task_def spawn_begin_def spawn_send_def spawn_abandon_def inflight_guard_drop_def
      increment_inflight_def Let_def handle_timeout_def worker_terminate_def case_prod_beta
      split: option.splits cong: loop_pc.case_cong)

lemma execs_frames [simp]:
  "w_execs (spawn_begin b t w) = (w_execs w)(t \<mapsto> ex_new)" "w_execs (spawn_send t w) = w_execs w"
  "w_execs (spawn_abandon t w) = (w_execs w)(t := None)"
  by (simp_all add: spawn_begin_def spawn_send_def spawn_abandon_def inflight_guard_drop_def
      increment_inflight_def Let_def)

lemma pinned_inv_on_base:
  assumes "pinned_inv p" "w_execs (f (pw_base p)) = w_execs (pw_base p)" "w_pc (f (pw_base p)) = w_pc (pw_base p)"
    "w_join (f (pw_base p)) = w_join (pw_base p)"
  shows "pinned_inv (on_base f p)"
  by (rule pinned_inv_mono [OF assms(1)]) (simp_all add: running_task_def assms(2-4) cong: loop_pc.case_cong)

lemma pinned_inv_recv:
  assumes inv: "pinned_inv p" and p': "pinned_on_recv p = Some p'"
  shows "pinned_inv p'"
proof -
  note c = on_recv_cases [OF pinned_on_recv_base [OF p']]
  show ?thesis
  proof (cases "\<exists>t. w_pc (pw_base p') = Constructing t")
    case False
    then have "pw_key p' = pw_key p" "pw_states p' = pw_states p"
      using p' by (auto simp: pinned_on_recv_def split: option.splits loop_pc.splits)
    then show ?thesis using False c by (intro pinned_inv_mono [OF inv]) (auto simp: running_task_def)
  next
    case True
    then obtain t where t: "w_pc (pw_base p') = Constructing t" by blast
    then obtain k where "pw_key p t = Some k" "pw_states p' = (pw_states p)(k := None)" "pw_key p' = pw_key p"
      using p' by (auto simp: pinned_on_recv_def split: option.splits loop_pc.splits)
    then show ?thesis using c t inv by (auto simp: pinned_inv_def running_task_def)
  qed
qed

lemma pinned_inv_constructed:
  assumes inv: "pinned_inv p" and p': "pinned_on_constructed t p = Some p'"
    and pc: "w_pc (pw_base p) = Constructing t"
  shows "pinned_inv p'"
proof -
  have base: "on_constructed t (pw_base p) = Some (pw_base p')" "pw_key p' = pw_key p" "pw_states p' = pw_states p"
    using p' by (auto simp: pinned_on_constructed_def)
  show ?thesis
    using on_constructed_cases [OF base(1) pc] base pc
    by (intro pinned_inv_mono [OF inv]) (auto simp: running_task_def)
qed

lemma pinned_inv_result:
  assumes inv: "pinned_inv p" "worker_inv (pw_base p)" and pc: "w_pc (pw_base p) = Selecting"
    and j: "w_join (pw_base p) = Some t"
  shows "pinned_inv (pinned_on_task_result oc p)"
proof -
  obtain ex where ex: "w_execs (pw_base p) t = Some ex" using running_exec [OF inv(2) pc j] .
  note eq = on_task_result_eq [OF inv(2) pc j ex, of "pinned_result oc"] finish_task_eq [OF ex]
  have "running_task (pw_base (pinned_on_task_result oc p)) = None"
    "\<And>u. w_execs (pw_base (pinned_on_task_result oc p)) u = None \<longleftrightarrow> w_execs (pw_base p) u = None"
    using pc ex by (simp_all add: eq running_task_def)
  then show ?thesis using inv(1) by (simp add: pinned_inv_def)
qed

lemma pinned_inv_drain:
  assumes inv: "pinned_inv p" and pc: "w_pc (pw_base p) = Draining" shows "pinned_inv (pinned_on_drain p)"
proof -
  have "w_execs (on_drain (pw_base p)) u = None \<longleftrightarrow> w_execs (pw_base p) u = None" for u
    using finish_task_dom [of _ "(pw_base p)\<lparr>w_queue := _\<rparr>" u]
    by (simp add: on_drain_def case_prod_beta split: list.splits)
  moreover have "running_task (on_drain (pw_base p)) = None"
    by (simp add: on_drain_def case_prod_beta running_task_def split: list.splits)
  ultimately show ?thesis by (intro pinned_inv_mono [OF inv]) (auto simp: pinned_on_drain_def)
qed

lemma pinned_inv_step:
  assumes "pinned_step p p'" "pinned_inv p" "worker_inv (pw_base p)"
  shows "pinned_inv p'"
  using assms
proof (induction rule: pinned_step.induct)
  case (spawn p t key)
  show ?case
    by (rule pinned_inv_begin [OF spawn(3,4,2), where key = key]) (simp_all add: pinned_spawn_begin_def)
next
  case (try_spawn p t key)
  show ?case
    by (rule pinned_inv_begin [OF try_spawn(3,4,2), where key = key])
      (simp_all add: pinned_try_spawn_def pinned_spawn_begin_def pinned_spawn_send_def
        pinned_spawn_abandon_def Let_def)
next
  case (send t p)
  show ?case by (rule pinned_inv_mono [OF send(4)]) (simp_all add: pinned_spawn_send_def)
next
  case (abandon t p)
  show ?case by (rule pinned_inv_mono [OF abandon(2)]) (simp_all add: pinned_spawn_abandon_def)
next
  case (loop_terminate p)
  show ?case
    by (rule pinned_inv_mono [OF loop_terminate(3)])
      (simp_all add: on_terminate_def running_task_def loop_terminate(1))
next
  case (loop_closed p)
  show ?case
    by (rule pinned_inv_mono [OF loop_closed(7)])
      (simp_all add: on_channel_closed_def running_task_def loop_closed(1))
next
  case (deadline p t d)
  have "w_execs (snd (handle_timeout t d (pw_base p))) u = None \<longleftrightarrow> w_execs (pw_base p) u = None" for u
    by (auto simp: handle_timeout_def split: option.splits prod.splits)
  then show ?case by (intro pinned_inv_mono [OF deadline(3)]) simp_all
next
  case (loop_stop p)
  show ?case
    by (rule pinned_inv_mono [OF loop_stop(2)])
      (auto simp: pinned_on_stop_def on_stop_def Let_def running_task_def loop_stop(1))
next
  case (loop_recv p p')
  show ?case by (rule pinned_inv_recv [OF loop_recv(6,5)])
next
  case (loop_constructed p t p')
  show ?case by (rule pinned_inv_constructed [OF loop_constructed(3,2,1)])
next
  case (loop_result p t oc)
  show ?case by (rule pinned_inv_result [OF loop_result(5,6,1,3)])
next
  case (loop_send p t r b)
  show ?case
    by (rule pinned_inv_mono [OF loop_send(2)]) (simp_all add: loop_send(1) running_task_def send_answer_def)
next
  case (loop_count p t b)
  have "w_join (pw_base p) = None" using worker_invD(1) [OF loop_count(3)] loop_count(1) by (simp add: loop_wf_def)
  then show ?case
    by (intro pinned_inv_mono [OF loop_count(2)]) (simp_all add: loop_count(1) running_task_def count_out_def)
next
  case (loop_drain p)
  show ?case by (rule pinned_inv_drain [OF loop_drain(2,1)])
qed (simp_all add: pinned_inv_on_base worker_terminate_def drop_ext_guard_def)

lemma pinned_reachable_inv: "pinned_reachable i cap p \<Longrightarrow> pinned_inv p"
proof (induction rule: pinned_reachable.induct)
  case start
  show ?case by (simp add: pinned_inv_def pinned_new_def worker_new_def running_task_def)
next
  case (step p p')
  then show ?case
    using pinned_inv_step worker_reachable_inv [OF pinned_reachable_base [OF step(1)]] by blast
qed

section \<open>Properties\<close>

text \<open>Forgetting keys and states, the guarantees of the shared worker hold of a pinned one.\<close>

lemma pinned_guarantees:
  assumes "pinned_reachable i cap p"
  shows "pinned_pending p = of_nat (length (counted_tasks (pw_base p)))"
  unfolding pinned_pending_def using worker_invD(2) [OF worker_reachable_inv [OF pinned_reachable_base [OF assms]]] .




text \<open>The pinned run of the witnesses: task 0 with key 3 queued, claimed and running.\<close>

definition prun_sent :: "(nat, string, nat) pinned_worker" where
  "prun_sent = snd (pinned_try_spawn 3 0 (pinned_new 7 1))"

lemma worker_new_sel [simp]:
  "w_rx_open (worker_new i c)" "w_tx_open (worker_new i c)" "w_queue (worker_new i c) = []"
  "w_capacity (worker_new i c) = c" "w_execs (worker_new i c) = Map.empty"
  by (simp_all add: worker_new_def)

lemma prun_sent_eq: "pw_base prun_sent = run_sent" "pw_key prun_sent 0 = Some 3" "pw_states prun_sent = Map.empty"
  "pinned_try_spawn 3 0 (pinned_new 7 1) = (Inr 0, prun_sent)"
  by (simp_all add: prun_sent_def pinned_try_spawn_def pinned_new_def pinned_spawn_send_def
      pinned_spawn_begin_def run_sent_def)

lemma prun_sent_reachable: "pinned_reachable 7 1 prun_sent"
proof -
  have "pinned_step (pinned_new 7 1) (snd (pinned_try_spawn 3 0 (pinned_new 7 1 :: (nat, string, nat) pinned_worker)))"
    by (rule pinned_step.try_spawn) (simp_all add: pinned_new_def)
  then show ?thesis unfolding prun_sent_def by (rule pinned_reachable.step [OF pinned_reachable.start])
qed

text \<open>
  C17. A key's state is owned by one task at a time. While a task of key \<open>k\<close> runs or is being started, nothing is stored
  under \<open>k\<close>. Receiving a task always succeeds (it has a key), and either it is answered as cancelled and no
  state moves, or it is claimed and given exactly the state stored under its key, which leaves the map; no
  other key's state changes.
\<close>

theorem pinned_state_exclusive:
  assumes "pinned_reachable i cap p"
  shows "(\<forall>t k. running_task (pw_base p) = Some t \<and> pw_key p t = Some k \<longrightarrow> pw_states p k = None) \<and>
         (\<forall>t q. w_pc (pw_base p) = Selecting \<and> w_join (pw_base p) = None \<and>
            \<not> w_shutting_down (pw_base p) \<and> w_queue (pw_base p) = t # q \<longrightarrow>
            (\<exists>p' k. pinned_on_recv p = Some p' \<and> pw_key p t = Some k \<and>
               (if running_task (pw_base p') = Some t
                then pw_given p' = pw_states p k \<and> pw_states p' = (pw_states p)(k := None)
                else (\<exists>r. w_pc (pw_base p') = Answering t r False) \<and> pw_states p' = pw_states p)))"
proof -
  have inv: "pinned_inv p" using assms by (rule pinned_reachable_inv)
  have w: "worker_inv (pw_base p)" using worker_reachable_inv [OF pinned_reachable_base [OF assms]] .
  have "\<exists>p' k. pinned_on_recv p = Some p' \<and> pw_key p t = Some k \<and>
      (if running_task (pw_base p') = Some t
       then pw_given p' = pw_states p k \<and> pw_states p' = (pw_states p)(k := None)
       else (\<exists>r. w_pc (pw_base p') = Answering t r False) \<and> pw_states p' = pw_states p)"
    if a: "w_pc (pw_base p) = Selecting" "w_join (pw_base p) = None" "\<not> w_shutting_down (pw_base p)"
      "w_queue (pw_base p) = t # q" for t q
  proof -
    obtain w' where r: "on_recv (pw_base p) = Some w'" using on_recv_inv [OF w a] by blast
    have "t \<in> set (w_queue (pw_base p))" using a(4) by simp
    from queued_exec [OF w this] have "w_execs (pw_base p) t \<noteq> None" by auto
    then obtain k where k: "pw_key p t = Some k" using inv by (auto simp: pinned_inv_def)
    show ?thesis
      using on_recv_cases [OF r] r a(4) k
      by (auto simp: pinned_on_recv_def running_task_def)
  qed
  then show ?thesis using inv unfolding pinned_inv_def by blast
qed

theorem pinned_state_exclusive_witness:
  "\<exists>p'. pinned_on_recv prun_sent = Some p'"
  using pinned_state_exclusive [OF prun_sent_reachable] by (simp add: prun_sent_eq) blast

text \<open>
  What a pinned task leaves behind. If it completes before its deadline and returns a state, that state
  is stored under its key; if it returns none, is aborted, panics, or its deadline has won, nothing is stored
  under its key and the state it was given is gone. In every case no other key is touched and the task is
  answered.
\<close>

theorem pinned_state_returned:
  assumes "pinned_reachable i cap p" "w_pc (pw_base p) = Selecting" "w_join (pw_base p) = Some t"
    "pw_key p t = Some k" "w_execs (pw_base p) t = Some ex"
  shows "pw_states (pinned_on_task_result oc p) =
           (case (ex_timeout ex, oc) of
              (None, P_Completed r (Some s)) \<Rightarrow> (pw_states p)(k \<mapsto> s)
            | _ \<Rightarrow> pw_states p) \<and>
         pw_states p k = None \<and>
         w_pc (pw_base (pinned_on_task_result oc p)) =
           Answering t (final_result i (ex_timeout ex) (pinned_result oc)) False"
proof -
  have w: "worker_inv (pw_base p)" using worker_reachable_inv [OF pinned_reachable_base [OF assms(1)]] .
  have b: "running_task (pw_base p) = Some t" using assms(2,3) by (simp add: running_task_def)
  have e: "w_execution (pw_base p) = Some t" using worker_invD(1) [OF w] assms(2,3) by (simp add: loop_wf_def)
  have "pw_states p k = None" using pinned_reachable_inv [OF assms(1)] b assms(4) by (simp add: pinned_inv_def)
  moreover have "w_pc (pw_base (pinned_on_task_result oc p)) =
      Answering t (final_result i (ex_timeout ex) (pinned_result oc)) False"
    using on_task_result_eq [OF w assms(2,3,5), of "pinned_result oc"]
      reachable_id [OF pinned_reachable_base [OF assms(1)]] by simp
  moreover have "fst (finish_task t (pw_base p)) = ex_timeout ex" using finish_task_eq [OF assms(5)] by simp
  then have "pw_states (pinned_on_task_result oc p) =
      (case (ex_timeout ex, oc) of (None, P_Completed r (Some s)) \<Rightarrow> (pw_states p)(k \<mapsto> s) | _ \<Rightarrow> pw_states p)"
    using e assms(3,4)
    by (simp add: pinned_on_task_result_def Let_def split: option.split pinned_outcome.split)
  ultimately show ?thesis by blast
qed

definition prun_running :: "(nat, string, nat) pinned_worker" where
  "prun_running = prun_sent\<lparr>pw_base := run_running\<rparr>"

lemma prun_running_reachable: "pinned_reachable 7 1 prun_running"
proof -
  define c where "c = prun_sent\<lparr>pw_base := run_claimed\<rparr>"
  have g: "pw_given prun_sent = None" "(pw_states prun_sent)(3 := None) = pw_states prun_sent"
    by (simp_all add: prun_sent_eq) (simp add: prun_sent_def pinned_try_spawn_def pinned_new_def
        pinned_spawn_send_def pinned_spawn_begin_def)
  have pc: "w_pc run_claimed = Constructing 0" by (simp add: run_claimed_def)
  have "on_recv run_sent = Some run_claimed" by (simp add: on_recv_def begin_start_def run_claimed_def)
  then have "pinned_on_recv prun_sent = Some c"
    using g pc by (simp add: pinned_on_recv_def prun_sent_eq c_def)
  then have c: "pinned_reachable 7 1 c"
    by (intro pinned_reachable.step [OF prun_sent_reachable pinned_step.loop_recv])
      (simp_all add: prun_sent_eq terminate_ready_def)
  have "on_constructed 0 run_claimed = Some run_running"
    by (simp add: on_constructed_def install_abort_def run_claimed_def run_running_def)
  then have "pinned_on_constructed 0 c = Some prun_running"
    by (simp add: pinned_on_constructed_def c_def prun_running_def)
  moreover have "w_pc (pw_base c) = Constructing 0" using pc by (simp add: c_def)
  ultimately show ?thesis by (intro pinned_reachable.step [OF c pinned_step.loop_constructed])
qed

lemma prun_running_sel: "pw_base prun_running = run_running" "pw_key prun_running 0 = Some 3"
  "pw_states prun_running = Map.empty"
  by (simp_all add: prun_running_def prun_sent_eq)

theorem pinned_state_returned_witness:
  "pw_states (pinned_on_task_result (P_Completed (Inr 42) (Some ''ctx'')) prun_running) 3 = Some ''ctx'' \<and>
   pw_states (pinned_on_task_result P_Aborted prun_running) 3 = None"
  using pinned_state_returned [OF prun_running_reachable, where t = 0 and k = 3 and
      ex = "ex_new\<lparr>ex_phase := Running, ex_abort_handle := Some 0\<rparr>" and oc = "P_Completed (Inr 42) (Some ''ctx'')"]
    pinned_state_returned [OF prun_running_reachable, where t = 0 and k = 3 and
      ex = "ex_new\<lparr>ex_phase := Running, ex_abort_handle := Some 0\<rparr>" and oc = P_Aborted]
    prun_running_sel
  by (simp add: ex_new_def)





text \<open>
  Submitting without waiting never miscounts: \<^verbatim>\<open>try_spawn\<close> is refused exactly when the worker has stopped
  or its queue is full, a refusal leaves the number of pending tasks as it was and reports it, and an accepted
  task is counted once and stands last in the queue. The worker a key is routed to exists, depends on the key
  alone, and is the only one touched.
\<close>

theorem pinned_try_spawn_exact:
  assumes "ws \<noteq> []" "n = worker_id_for_key hash (length ws) key" "pinned_rong_try_spawn hash key t ws = (r, ws')"
  shows "n < length ws \<and> length ws' = length ws \<and> (\<forall>m < length ws. m \<noteq> n \<longrightarrow> ws' ! m = ws ! m) \<and>
    (case r of
       Inl (WorkerStopped j) \<Rightarrow> \<not> w_rx_open (pw_base (ws ! n)) \<and> pinned_pending (ws' ! n) = pinned_pending (ws ! n)
     | Inl (QueueFull j depth) \<Rightarrow>
         w_capacity (pw_base (ws ! n)) \<le> length (w_queue (pw_base (ws ! n))) \<and>
         depth = pinned_pending (ws ! n) \<and> pinned_pending (ws' ! n) = pinned_pending (ws ! n)
     | Inr u \<Rightarrow>
         u = t \<and> w_rx_open (pw_base (ws ! n)) \<and> pw_key (ws' ! n) t = Some key \<and>
         length (w_queue (pw_base (ws ! n))) < w_capacity (pw_base (ws ! n)) \<and>
         w_queue (pw_base (ws' ! n)) = w_queue (pw_base (ws ! n)) @ [t] \<and>
         pinned_pending (ws' ! n) = pinned_pending (ws ! n) + 1)"
proof -
  have n: "n < length ws" using assms(1,2) by (simp add: worker_id_for_key_def)
  obtain p where p: "pinned_try_spawn key t (ws ! n) = (r, p)" "ws' = ws[n := p]"
    using assms(2,3) by (auto simp: pinned_rong_try_spawn_def worker_for_key_def split: prod.splits)
  have sel: "w_inflight (spawn_begin False t w) = w_inflight w + 1"
    "w_inflight (spawn_abandon t (spawn_begin False t w)) = w_inflight w"
    "w_inflight (spawn_send t w) = w_inflight w" "w_queue (spawn_send t w) = w_queue w @ [t]"
    "w_queue (spawn_begin False t w) = w_queue w" for w :: "'c worker"
    by (simp_all add: spawn_begin_def spawn_send_def spawn_abandon_def inflight_guard_drop_def
        increment_inflight_def Let_def)
  show ?thesis
    using n p sel
    by (auto simp: pinned_try_spawn_def Let_def pinned_pending_def pinned_spawn_begin_def
        pinned_spawn_send_def pinned_spawn_abandon_def split: if_splits)
qed

theorem pinned_try_spawn_exact_witness:
  "fst (pinned_rong_try_spawn (\<lambda>k. of_nat k) 3 5 [prun_sent]) = Inl (QueueFull 7 1) \<and>
   pinned_pending (snd (pinned_rong_try_spawn (\<lambda>k. of_nat k) 3 5 [prun_sent]) ! 0) = 1"
proof -
  have "pinned_pending prun_sent = 1" by (simp add: pinned_pending_def prun_sent_eq)
  moreover have "fst (pinned_rong_try_spawn (\<lambda>k. of_nat k) 3 5 [prun_sent]) = Inl (QueueFull 7 1)"
    by (simp add: pinned_rong_try_spawn_def worker_for_key_def worker_id_for_key_def pinned_try_spawn_def
        prun_sent_eq)
  ultimately show ?thesis
    using pinned_try_spawn_exact [OF _ _ prod.collapse [symmetric], of "[prun_sent]" 0 "\<lambda>k. of_nat k" 3 5]
    by (simp add: worker_id_for_key_def)
qed

end
