(* ===== verification/Rust_String.thy ===== *)
theory Rust_String
  imports Rong_Prelude
begin

text \<open>
  The operations of \<^verbatim>\<open>str\<close> and \<^verbatim>\<open>String\<close> the sources use. A Rust string is the list of its UTF-8 bytes, one
  \<open>char\<close> per byte; what works on Unicode scalar values (trimming, lossy decoding) works here on the byte
  sequences that encode them.
\<close>

definition byte_of :: "char \<Rightarrow> nat" where
  "byte_of c = of_char c"

section \<open>Lossy decoding\<close>

definition REPLACEMENT :: string where
  "REPLACEMENT = [CHR 0xEF, CHR 0xBF, CHR 0xBD]"

definition byte_in :: "nat \<Rightarrow> nat \<Rightarrow> char \<Rightarrow> bool" where
  "byte_in lo hi c \<longleftrightarrow> lo \<le> byte_of c \<and> byte_of c \<le> hi"

definition cont_byte :: "char \<Rightarrow> bool" where
  "cont_byte c = byte_in 0x80 0xBF c"

text \<open>The range of the second byte of a sequence of three or four, by its first byte.\<close>

definition second_ok3 :: "char \<Rightarrow> char \<Rightarrow> bool" where
  "second_ok3 a b =
     (if byte_of a = 0xE0 then byte_in 0xA0 0xBF b
      else if byte_of a = 0xED then byte_in 0x80 0x9F b
      else cont_byte b)"

definition second_ok4 :: "char \<Rightarrow> char \<Rightarrow> bool" where
  "second_ok4 a b =
     (if byte_of a = 0xF0 then byte_in 0x90 0xBF b
      else if byte_of a = 0xF4 then byte_in 0x80 0x8F b
      else cont_byte b)"

text \<open>
  One step of \<^verbatim>\<open>from_utf8_lossy\<close>: how many bytes the next scalar value or the next maximal invalid sequence
  takes, and whether it is valid.
\<close>

definition utf8_step :: "string \<Rightarrow> nat \<times> bool" where
  "utf8_step s =
     (case s of
        [] \<Rightarrow> (0, True)
      | a # r \<Rightarrow>
          if byte_of a < 0x80 then (1, True)
          else if byte_in 0xC2 0xDF a then
            (case r of b # _ \<Rightarrow> if cont_byte b then (2, True) else (1, False) | [] \<Rightarrow> (1, False))
          else if byte_in 0xE0 0xEF a then
            (case r of
               b # r' \<Rightarrow>
                 if \<not> second_ok3 a b then (1, False)
                 else (case r' of c # _ \<Rightarrow> if cont_byte c then (3, True) else (2, False) | [] \<Rightarrow> (2, False))
             | [] \<Rightarrow> (1, False))
          else if byte_in 0xF0 0xF4 a then
            (case r of
               b # r' \<Rightarrow>
                 if \<not> second_ok4 a b then (1, False)
                 else (case r' of
                         c # r'' \<Rightarrow>
                           if \<not> cont_byte c then (2, False)
                           else (case r'' of d # _ \<Rightarrow> if cont_byte d then (4, True) else (3, False)
                                 | [] \<Rightarrow> (3, False))
                       | [] \<Rightarrow> (2, False))
             | [] \<Rightarrow> (1, False))
          else (1, False))"

lemma utf8_step_pos: "s \<noteq> [] \<Longrightarrow> 0 < fst (utf8_step s)"
  by (simp add: utf8_step_def split: list.splits)

function from_utf8_lossy :: "string \<Rightarrow> string" where
  "from_utf8_lossy s =
     (if s = [] then []
      else (case utf8_step s of
              (n, ok) \<Rightarrow> (if ok then take n s else REPLACEMENT) @ from_utf8_lossy (drop n s)))"
  by auto
termination
proof (relation "measure length")
  fix s :: string and n ok
  assume a: "s \<noteq> []" "(n, ok) = utf8_step s"
  have "0 < n" using utf8_step_pos [OF a(1)] a(2) by (metis fst_conv)
  then show "(drop n s, s) \<in> measure length" using a(1) by simp
qed simp

declare from_utf8_lossy.simps [simp del]

lemma from_utf8_lossy_Nil [simp]: "from_utf8_lossy [] = []"
  by (simp add: from_utf8_lossy.simps)

definition is_ascii :: "string \<Rightarrow> bool" where
  "is_ascii s = list_all (\<lambda>c. byte_of c < 0x80) s"

lemma from_utf8_lossy_ascii_Cons: "byte_of a < 0x80 \<Longrightarrow> from_utf8_lossy (a # s) = a # from_utf8_lossy s"
  by (subst from_utf8_lossy.simps) (simp add: utf8_step_def)

lemma from_utf8_lossy_ascii: "is_ascii s \<Longrightarrow> from_utf8_lossy s = s"
  by (induction s) (simp_all add: is_ascii_def from_utf8_lossy_ascii_Cons)

text \<open>Strings that are UTF-8, byte by byte: decoding leaves them alone, whatever follows.\<close>

function is_utf8 :: "string \<Rightarrow> bool" where
  "is_utf8 s = (if s = [] then True else if snd (utf8_step s) then is_utf8 (drop (fst (utf8_step s)) s) else False)"
  by auto
termination
  by (relation "measure length") (auto simp: utf8_step_pos)

declare is_utf8.simps [simp del]

lemma utf8_step_append: "s \<noteq> [] \<Longrightarrow> snd (utf8_step s) \<Longrightarrow> utf8_step (s @ t) = utf8_step s \<and> fst (utf8_step s) \<le> length s"
  by (cases s; cases "tl s"; cases "tl (tl s)"; cases "tl (tl (tl s))") (simp_all add: utf8_step_def split: if_splits)

lemma from_utf8_lossy_append: "is_utf8 s \<Longrightarrow> from_utf8_lossy (s @ t) = s @ from_utf8_lossy t"
proof (induction s rule: is_utf8.induct)
  case (1 s)
  show ?case
  proof (cases "s = []")
    case False
    define n where "n = fst (utf8_step s)"
    have st: "snd (utf8_step s)" "is_utf8 (drop n s)" using "1.prems" False is_utf8.simps [of s] by (simp_all add: n_def split: if_splits)
    have a: "utf8_step (s @ t) = (n, True)" "n \<le> length s"
      using utf8_step_append [OF False st(1), of t] st(1) by (simp_all add: n_def prod_eq_iff)
    have "from_utf8_lossy (s @ t) = take n s @ from_utf8_lossy (drop n s @ t)"
      by (subst from_utf8_lossy.simps) (use False a in simp)
    also have "\<dots> = take n s @ drop n s @ from_utf8_lossy t" using "1.IH" [OF False st(1)] st(2) by (simp add: n_def)
    finally show ?thesis by simp
  qed simp
qed

lemma from_utf8_lossy_utf8: "is_utf8 s \<Longrightarrow> from_utf8_lossy s = s"
  using from_utf8_lossy_append [of s "[]"] by simp

lemma is_utf8_ascii: "is_ascii s \<Longrightarrow> is_utf8 s"
proof (induction s)
  case (Cons a s)
  then show ?case by (subst is_utf8.simps) (simp add: is_ascii_def utf8_step_def)
qed (simp add: is_utf8.simps)

lemma is_utf8_append: "is_utf8 s \<Longrightarrow> is_utf8 t \<Longrightarrow> is_utf8 (s @ t)"
proof (induction s rule: is_utf8.induct)
  case (1 s)
  show ?case
  proof (cases "s = []")
    case False
    have st: "snd (utf8_step s)" "is_utf8 (drop (fst (utf8_step s)) s)" using "1.prems"(1) False is_utf8.simps [of s] by (simp_all split: if_splits)
    then show ?thesis
      using "1.IH" [OF False st(1) st(2)] "1.prems"(2) utf8_step_append [OF False st(1), of t] False by (subst is_utf8.simps) simp
  qed (use "1.prems" in simp)
qed

section \<open>Trimming\<close>

text \<open>The length of the white-space character a string starts with, 0 if it starts with none.\<close>

definition ws_at :: "string \<Rightarrow> nat" where
  "ws_at s =
     (case map byte_of (take 3 s) of
        [] \<Rightarrow> 0
      | a # r \<Rightarrow>
          if 9 \<le> a \<and> a \<le> 13 \<or> a = 32 then 1
          else if a = 0xC2 \<and> (\<exists>b \<in> set (take 1 r). b = 0x85 \<or> b = 0xA0) then 2
          else if a = 0xE1 \<and> r = [0x9A, 0x80] then 3
          else if a = 0xE2 \<and>
                  (r \<in> {[0x80, 0xA8], [0x80, 0xA9], [0x80, 0xAF], [0x81, 0x9F]} \<or>
                   (length r = 2 \<and> hd r = 0x80 \<and> 0x80 \<le> last r \<and> last r \<le> 0x8A)) then 3
          else if a = 0xE3 \<and> r = [0x80, 0x80] then 3
          else 0)"

lemma ws_at_Nil [simp]: "ws_at [] = 0"
  by (simp add: ws_at_def)

function trim_start :: "string \<Rightarrow> string" where
  "trim_start s = (if s = [] \<or> ws_at s = 0 then s else trim_start (drop (ws_at s) s))"
  by auto
termination
  by (relation "measure length") auto

declare trim_start.simps [simp del]

text \<open>The same from the end: the length of the white-space character a string ends with.\<close>

definition ws_end :: "string \<Rightarrow> nat" where
  "ws_end s =
     (if 1 \<le> length s \<and> ws_at (drop (length s - 1) s) = 1 then 1
      else if 2 \<le> length s \<and> ws_at (drop (length s - 2) s) = 2 then 2
      else if 3 \<le> length s \<and> ws_at (drop (length s - 3) s) = 3 then 3
      else 0)"

function trim_end :: "string \<Rightarrow> string" where
  "trim_end s = (if s = [] \<or> ws_end s = 0 then s else trim_end (take (length s - ws_end s) s))"
  by auto
termination
  by (relation "measure length") (auto simp: ws_end_def)

declare trim_end.simps [simp del]

definition trim :: "string \<Rightarrow> string" where
  "trim s = trim_end (trim_start s)"

definition trim_start_matches :: "char \<Rightarrow> string \<Rightarrow> string" where
  "trim_start_matches c s = dropWhile (\<lambda>x. x = c) s"

section \<open>Searching, splitting, parsing\<close>

definition starts_with :: "string \<Rightarrow> string \<Rightarrow> bool" where
  "starts_with p s \<longleftrightarrow> take (length p) s = p"

definition ends_with :: "string \<Rightarrow> string \<Rightarrow> bool" where
  "ends_with p s \<longleftrightarrow> length p \<le> length s \<and> drop (length s - length p) s = p"

definition strip_prefix :: "string \<Rightarrow> string \<Rightarrow> string option" where
  "strip_prefix p s = (if starts_with p s then Some (drop (length p) s) else None)"

definition split_once :: "char \<Rightarrow> string \<Rightarrow> (string \<times> string) option" where
  "split_once c s =
     (if c \<in> set s then Some (takeWhile (\<lambda>x. x \<noteq> c) s, tl (dropWhile (\<lambda>x. x \<noteq> c) s)) else None)"

text \<open>\<^verbatim>\<open>join\<close> of a slice of strings.\<close>

fun join_with :: "string \<Rightarrow> string list \<Rightarrow> string" where
  "join_with sep [] = ''''"
| "join_with sep [s] = s"
| "join_with sep (s # ss) = s @ sep @ join_with sep ss"

definition ascii_lower :: "char \<Rightarrow> char" where
  "ascii_lower c = (if 65 \<le> byte_of c \<and> byte_of c \<le> 90 then char_of (byte_of c + 32) else c)"

definition ascii_upper :: "char \<Rightarrow> char" where
  "ascii_upper c = (if 97 \<le> byte_of c \<and> byte_of c \<le> 122 then char_of (byte_of c - 32) else c)"

definition to_ascii_uppercase :: "string \<Rightarrow> string" where
  "to_ascii_uppercase s = map ascii_upper s"

definition to_ascii_lowercase :: "string \<Rightarrow> string" where
  "to_ascii_lowercase s = map ascii_lower s"

text \<open>\<^verbatim>\<open>parse::<u64>\<close>: an optional plus sign, at least one digit, no overflow.\<close>

definition parse_u64 :: "string \<Rightarrow> u64 option" where
  "parse_u64 s =
     (let ds = (case s of c # r \<Rightarrow> if c = CHR ''+'' then r else s | [] \<Rightarrow> s) in
      if ds = [] \<or> \<not> list_all is_digit ds then None
      else if nat_of_digits 0 ds < 2 ^ 64 then Some (of_nat (nat_of_digits 0 ds)) else None)"

lemma ascii_upper_twice: "ascii_upper (ascii_upper c) = ascii_upper c"
  by (auto simp: ascii_upper_def byte_of_def)

lemma uppercase_twice: "to_ascii_uppercase (to_ascii_uppercase s) = to_ascii_uppercase s"
  by (simp add: to_ascii_uppercase_def ascii_upper_twice)

lemma split_once_append: "c \<notin> set f \<Longrightarrow> split_once c (f @ c # v) = Some (f, v)"
  by (induction f) (auto simp: split_once_def)

lemma parse_u64_string_of_nat: "n < 2 ^ 64 \<Longrightarrow> parse_u64 (string_of_nat n) = Some (of_nat n)"
proof -
  assume n: "n < 2 ^ 64"
  obtain c r where cr: "string_of_nat n = c # r" using string_of_nat_nonempty [of n] by (cases "string_of_nat n") auto
  have "is_digit c" using string_of_nat_digits [of n] cr by simp
  then have "c \<noteq> CHR ''+''" by (auto simp: is_digit_def)
  then show ?thesis
    using n cr string_of_nat_digits [of n] nat_of_digits_string_of_nat [of n] by (simp add: parse_u64_def)
qed

definition graphic :: "char \<Rightarrow> bool" where
  "graphic c \<longleftrightarrow> 33 \<le> byte_of c \<and> byte_of c \<le> 126"

lemma ws_at_graphic: "graphic c \<Longrightarrow> ws_at (c # s) = 0"
  by (simp add: ws_at_def graphic_def)

lemma ws_at_two: "graphic c \<Longrightarrow> ws_at [a, c] \<noteq> 2"
  by (simp add: ws_at_def graphic_def)

lemma ws_at_three: "graphic c \<Longrightarrow> ws_at [a, b, c] \<noteq> 3"
  by (auto simp: ws_at_def graphic_def)

lemma ws_end_graphic:
  assumes "graphic c"
  shows "ws_end (s @ [c]) = 0"
proof -
  have "ws_at (drop (length s - 1) s @ [c]) \<noteq> 2" if "1 \<le> length s"
    using that assms by (cases s rule: rev_cases) (simp_all add: ws_at_two)
  moreover have "ws_at (drop (length s - 2) s @ [c]) \<noteq> 3" if l: "2 \<le> length s"
  proof -
    obtain a b r where "s = r @ [a, b]"
      using l by (cases s rule: rev_cases; cases "butlast s" rule: rev_cases) auto
    then show ?thesis using assms by (simp add: ws_at_three)
  qed
  ultimately show ?thesis using ws_at_graphic [OF assms, of "[]"]
    by (auto simp: ws_end_def Suc_diff_Suc numeral_2_eq_2 numeral_3_eq_3)
qed

lemma trim_graphic: "graphic (hd s) \<Longrightarrow> graphic (last s) \<Longrightarrow> trim s = s"
proof (cases "s = []")
  case False
  assume g: "graphic (hd s)" "graphic (last s)"
  have "trim_start s = s"
    using False g(1) ws_at_graphic by (subst trim_start.simps) (metis list.collapse)
  moreover have "ws_end s = 0"
    using ws_end_graphic [OF g(2), of "butlast s"] False by simp
  ultimately show ?thesis by (simp add: trim_def trim_end.simps)
qed (simp add: trim_def trim_start.simps trim_end.simps)

lemma graphic_digit: "is_digit c \<Longrightarrow> graphic c"
  by (simp add: is_digit_def graphic_def byte_of_def)

lemma graphic_string_of_nat: "graphic (hd (string_of_nat n))" "graphic (last (string_of_nat n))"
  using string_of_nat_digits [of n] string_of_nat_nonempty [of n]
  by (simp_all add: list_all_iff graphic_digit)

lemma trim_string_of_nat [simp]: "trim (string_of_nat n) = string_of_nat n"
  by (intro trim_graphic graphic_string_of_nat)

lemma not_in_string_of_nat: "\<not> is_digit c \<Longrightarrow> c \<notin> set (string_of_nat n)"
  using string_of_nat_digits [of n] by (auto simp: list_all_iff)

lemma strip_prefix_append [simp]: "strip_prefix p (p @ s) = Some s"
  by (simp add: strip_prefix_def starts_with_def)

end
