(* ===== verification/Sse.thy ===== *)
theory Sse
  imports Rust_String
begin

text \<open>
  The server-sent-events client, \<^verbatim>\<open>rong_rt/src/sse.rs\<close>: destinations and URLs, the incremental parser of the
  event stream, and the worker that connects, reads, reconnects with exponential back-off and stops. The
  HTTP client, the URL parser, header validation and the clock are outside the file; their answers are
  arguments of the definitions that use them.
\<close>

section \<open>Destinations and options\<close>

datatype sse_scheme = Http | Https

definition scheme_as_str :: "sse_scheme \<Rightarrow> string" where
  "scheme_as_str s = (case s of Http \<Rightarrow> ''http'' | Https \<Rightarrow> ''https'')"

record sse_destination =
  sd_scheme :: sse_scheme
  sd_target :: string
  sd_path :: string
  sd_query :: "string option"

definition to_url :: "sse_destination \<Rightarrow> string + string" where
  "to_url d =
     (let target = trim (sd_target d) in
      if target = [] then Inl ''destination.target cannot be empty''
      else
        (let p = trim (sd_path d);
             path = (if p = [] then ''/'' else if \<not> starts_with ''/'' p then ''/'' @ p else p);
             url = scheme_as_str (sd_scheme d) @ ''://'' @ target @ path
         in Inr (case sd_query d of
                   None \<Rightarrow> url
                 | Some query \<Rightarrow>
                     (let q = trim_start_matches (CHR ''?'') query in
                      if q = [] then url else url @ ''?'' @ q))))"

text \<open>What \<^verbatim>\<open>url::Url\<close> reports of a parsed URL.\<close>

record parsed_url =
  pu_scheme :: string
  pu_host :: "string option"
  pu_port :: "nat option"
  pu_path :: string
  pu_query :: "string option"

definition parse_destination :: "(string \<Rightarrow> string + parsed_url) \<Rightarrow> string \<Rightarrow> string + sse_destination" where
  "parse_destination url_parse url =
     (case url_parse url of
        Inl e \<Rightarrow> Inl (''invalid sse url: '' @ e)
      | Inr parsed \<Rightarrow>
          (if pu_scheme parsed \<noteq> ''http'' \<and> pu_scheme parsed \<noteq> ''https''
           then Inl (''unsupported sse url scheme: '' @ pu_scheme parsed)
           else
             (let scheme = (if pu_scheme parsed = ''http'' then Http else Https) in
              case pu_host parsed of
                None \<Rightarrow> Inl ''sse url must contain a host''
              | Some host \<Rightarrow>
                  Inr \<lparr>sd_scheme = scheme,
                       sd_target = (case pu_port parsed of
                                      Some port \<Rightarrow> host @ '':'' @ string_of_nat port
                                    | None \<Rightarrow> host),
                       sd_path = pu_path parsed, sd_query = pu_query parsed\<rparr>)))"

record sse_reconnect_options =
  rc_enabled :: bool
  rc_max_retries :: "u32 option"
  rc_base_delay :: duration
  rc_max_delay :: duration

definition rc_default :: sse_reconnect_options where
  "rc_default = \<lparr>rc_enabled = True, rc_max_retries = None, rc_base_delay = 1000 * 1000000,
                 rc_max_delay = 30000 * 1000000\<rparr>"

record sse_connect_options =
  so_destination :: sse_destination
  so_headers :: "(string \<times> string) list"
  so_last_event_id :: "string option"
  so_reconnect :: sse_reconnect_options
  so_request_timeout :: "duration option"
  so_connect_timeout :: "duration option"

definition so_new :: "(string \<Rightarrow> string + parsed_url) \<Rightarrow> string \<Rightarrow> string + sse_connect_options" where
  "so_new url_parse url =
     (case parse_destination url_parse url of
        Inl e \<Rightarrow> Inl e
      | Inr d \<Rightarrow>
          Inr \<lparr>so_destination = d, so_headers = [], so_last_event_id = None, so_reconnect = rc_default,
               so_request_timeout = None, so_connect_timeout = None\<rparr>)"

definition with_header :: "string \<Rightarrow> string \<Rightarrow> sse_connect_options \<Rightarrow> sse_connect_options" where
  "with_header n v o' = o'\<lparr>so_headers := so_headers o' @ [(n, v)]\<rparr>"

definition with_last_event_id :: "string \<Rightarrow> sse_connect_options \<Rightarrow> sse_connect_options" where
  "with_last_event_id i o' = o'\<lparr>so_last_event_id := Some i\<rparr>"

definition with_reconnect :: "sse_reconnect_options \<Rightarrow> sse_connect_options \<Rightarrow> sse_connect_options" where
  "with_reconnect r o' = o'\<lparr>so_reconnect := r\<rparr>"

section \<open>The event-stream parser\<close>

record sse_event =
  ev_event :: string
  ev_data :: string
  ev_id :: "string option"
  ev_retry_ms :: "u64 option"
  ev_origin :: string

record pending_event =
  pe_event :: "string option"
  pe_data_lines :: "string list"
  pe_id :: "string option"
  pe_retry_ms :: "u64 option"

definition pe_default :: pending_event where
  "pe_default = \<lparr>pe_event = None, pe_data_lines = [], pe_id = None, pe_retry_ms = None\<rparr>"

text \<open>
  The variables of the worker the parser writes, and the event channel: what has been sent, and how many more
  sends the consumer will accept before it drops its receiver (\<^const>\<open>None\<close>: it never does).
\<close>

record sse_parser =
  ps_pending :: pending_event
  ps_last_event_id :: "string option"
  ps_delay :: u64
  ps_sent :: "(string + sse_event) list"
  ps_room :: "nat option"

definition events_send :: "string + sse_event \<Rightarrow> sse_parser \<Rightarrow> bool \<times> sse_parser" where
  "events_send m p =
     (case ps_room p of
        None \<Rightarrow> (True, p\<lparr>ps_sent := ps_sent p @ [m]\<rparr>)
      | Some 0 \<Rightarrow> (False, p)
      | Some (Suc n) \<Rightarrow> (True, p\<lparr>ps_sent := ps_sent p @ [m], ps_room := Some n\<rparr>))"

definition origin_of :: "sse_destination \<Rightarrow> string" where
  "origin_of d = scheme_as_str (sd_scheme d) @ ''://'' @ sd_target d"

text \<open>False stands for the error \<^verbatim>\<open>"sse consumer dropped"\<close>, the only one the parser returns.\<close>

definition flush_pending_event :: "u64 \<Rightarrow> sse_destination \<Rightarrow> sse_parser \<Rightarrow> bool \<times> sse_parser" where
  "flush_pending_event max_delay_ms dest p =
     (let pe = ps_pending p;
          p = (case pe_retry_ms pe of
                 None \<Rightarrow> p | Some r \<Rightarrow> p\<lparr>ps_delay := wclamp r 1 max_delay_ms\<rparr>);
          p = (case pe_id pe of None \<Rightarrow> p | Some i \<Rightarrow> p\<lparr>ps_last_event_id := Some i\<rparr>);
          pe = pe\<lparr>pe_retry_ms := None, pe_id := None\<rparr>
      in if pe_data_lines pe = [] then (True, p\<lparr>ps_pending := pe\<lparr>pe_event := None\<rparr>\<rparr>)
         else
           (let evt = \<lparr>ev_event = (case pe_event pe of None \<Rightarrow> ''message'' | Some e \<Rightarrow> e),
                       ev_data = join_with [CHR 0x0A] (pe_data_lines pe),
                       ev_id = ps_last_event_id p, ev_retry_ms = Some (ps_delay p),
                       ev_origin = origin_of dest\<rparr>
            in events_send (Inr evt) (p\<lparr>ps_pending := pe\<lparr>pe_event := None, pe_data_lines := []\<rparr>\<rparr>)))"

text \<open>The field of a line that is neither empty nor a comment, and its value.\<close>

definition line_field :: "string \<Rightarrow> string \<times> string" where
  "line_field line =
     (case split_once (CHR '':'') line of
        Some (f, v) \<Rightarrow> (f, case strip_prefix '' '' v of Some v' \<Rightarrow> v' | None \<Rightarrow> v)
      | None \<Rightarrow> (line, ''''))"

definition apply_field :: "string \<Rightarrow> string \<Rightarrow> pending_event \<Rightarrow> pending_event" where
  "apply_field field value pe =
     (if field = ''event'' then pe\<lparr>pe_event := Some value\<rparr>
      else if field = ''data'' then pe\<lparr>pe_data_lines := pe_data_lines pe @ [value]\<rparr>
      else if field = ''id'' \<and> CHR 0x00 \<notin> set value then pe\<lparr>pe_id := Some value\<rparr>
      else if field = ''retry'' then
        (case parse_u64 value of Some v \<Rightarrow> pe\<lparr>pe_retry_ms := Some v\<rparr> | None \<Rightarrow> pe)
      else pe)"

definition parse_line :: "u64 \<Rightarrow> sse_destination \<Rightarrow> string \<Rightarrow> sse_parser \<Rightarrow> bool \<times> sse_parser" where
  "parse_line max_delay_ms dest line p =
     (if line = [] then flush_pending_event max_delay_ms dest p
      else if starts_with '':'' line then (True, p)
      else (case line_field line of
              (f, v) \<Rightarrow> (True, p\<lparr>ps_pending := apply_field f v (ps_pending p)\<rparr>)))"

text \<open>The bytes up to the next line feed and those after it.\<close>

fun next_line :: "string \<Rightarrow> (string \<times> string) option" where
  "next_line [] = None"
| "next_line (c # s) =
     (if c = CHR 0x0A then Some ([], s) else map_option (\<lambda>(l, r). (c # l, r)) (next_line s))"

lemma next_line_Some: "next_line s = Some (l, r) \<Longrightarrow> s = l @ CHR 0x0A # r \<and> CHR 0x0A \<notin> set l"
  by (induction s arbitrary: l) (auto split: if_splits)

lemma next_line_length: "next_line s = Some (l, r) \<Longrightarrow> length r < length s"
  using next_line_Some [of s l r] by simp

definition strip_cr :: "string \<Rightarrow> string" where
  "strip_cr l = (if l \<noteq> [] \<and> last l = CHR 0x0D then butlast l else l)"

text \<open>The buffer holds what has been received; what is left is the last, unfinished line.\<close>

function parse_available_events ::
  "u64 \<Rightarrow> sse_destination \<Rightarrow> string \<Rightarrow> sse_parser \<Rightarrow> bool \<times> string \<times> sse_parser" where
  "parse_available_events max_delay_ms dest line_buf p =
     (case next_line line_buf of
        None \<Rightarrow> (True, line_buf, p)
      | Some (raw, rest) \<Rightarrow>
          (case parse_line max_delay_ms dest (from_utf8_lossy (strip_cr raw)) p of
             (True, p') \<Rightarrow> parse_available_events max_delay_ms dest rest p'
           | (False, p') \<Rightarrow> (False, rest, p')))"
  by auto
termination
  by (relation "measure (\<lambda>(m, d, b, p). length b)") (auto dest: next_line_length)

declare parse_available_events.simps [simp del]

section \<open>The connection worker\<close>

definition should_reconnect :: "sse_reconnect_options \<Rightarrow> u32 \<Rightarrow> bool" where
  "should_reconnect rc retries =
     (if \<not> rc_enabled rc then False
      else (case rc_max_retries rc of Some n \<Rightarrow> retries < n | None \<Rightarrow> True))"

definition millis_u64 :: "duration \<Rightarrow> u64" where
  "millis_u64 d = of_nat (d div 1000000)"

definition initial_delay_ms :: "sse_reconnect_options \<Rightarrow> u64" where
  "initial_delay_ms rc = wmax 1 (millis_u64 (rc_base_delay rc))"

definition max_delay_ms_of :: "sse_reconnect_options \<Rightarrow> u64" where
  "max_delay_ms_of rc = wmax (initial_delay_ms rc) (millis_u64 (rc_max_delay rc))"

text \<open>One back-off: the delay to wait now and the delay kept for the next time.\<close>

definition backoff :: "u64 \<Rightarrow> u64 \<Rightarrow> u64 \<times> u64" where
  "backoff reconnect_delay_ms max_delay_ms =
     (let delay_ms = wmin reconnect_delay_ms max_delay_ms in
      (delay_ms, wmin (saturating_mul delay_ms 2) max_delay_ms))"

text \<open>
  What the HTTP library says of a request: whether the URI is accepted, and of each header name and value
  whether it is valid.
\<close>

record http_rules =
  hr_uri :: "string \<Rightarrow> string option"
  hr_name :: "string \<Rightarrow> string + string"
  hr_value :: "string \<Rightarrow> string + string"
  hr_user_agent :: string

record sse_request =
  rq_uri :: string
  rq_headers :: "(string \<times> string) list"

definition header_insert :: "string \<Rightarrow> string \<Rightarrow> (string \<times> string) list \<Rightarrow> (string \<times> string) list" where
  "header_insert n v hs = filter (\<lambda>h. fst h \<noteq> n) hs @ [(n, v)]"

fun add_headers ::
  "http_rules \<Rightarrow> (string \<times> string) list \<Rightarrow> (string \<times> string) list \<Rightarrow> string + (string \<times> string) list" where
  "add_headers hr [] hs = Inr hs"
| "add_headers hr ((n, v) # rest) hs =
     (case hr_name hr n of
        Inl e \<Rightarrow> Inl (''invalid sse header name '' @ [CHR 0x27] @ n @ [CHR 0x27] @ '': '' @ e)
      | Inr key \<Rightarrow>
          (case hr_value hr v of
             Inl e \<Rightarrow> Inl (''invalid sse header '' @ [CHR 0x27] @ n @ [CHR 0x27] @ '' value: '' @ e)
           | Inr val \<Rightarrow> add_headers hr rest (header_insert key val hs)))"

text \<open>The error the request builder has collected: the URI, then the headers given to it directly.\<close>

definition builder_error :: "http_rules \<Rightarrow> string \<Rightarrow> string option \<Rightarrow> string option" where
  "builder_error hr uri last_event_id =
     (case hr_uri hr uri of
        Some e \<Rightarrow> Some e
      | None \<Rightarrow>
          (case hr_value hr (hr_user_agent hr) of
             Inl e \<Rightarrow> Some e
           | Inr _ \<Rightarrow>
               (case last_event_id of
                  None \<Rightarrow> None
                | Some i \<Rightarrow>
                    if i = [] then None
                    else (case hr_value hr i of Inl e \<Rightarrow> Some e | Inr _ \<Rightarrow> None))))"

definition build_sse_request ::
  "http_rules \<Rightarrow> sse_connect_options \<Rightarrow> string option \<Rightarrow> string + sse_request" where
  "build_sse_request hr options last_event_id =
     (case to_url (so_destination options) of
        Inl e \<Rightarrow> Inl e
      | Inr uri \<Rightarrow>
          (let base = [(''accept'', ''text/event-stream''), (''cache-control'', ''no-cache''),
                       (''user-agent'', hr_user_agent hr)];
               hs = (case last_event_id of
                       Some i \<Rightarrow> if i \<noteq> [] then base @ [(''last-event-id'', i)] else base
                     | None \<Rightarrow> base)
           in case builder_error hr uri last_event_id of
                Some e \<Rightarrow> Inl (''failed to build sse request: '' @ e)
              | None \<Rightarrow>
                  (case add_headers hr (so_headers options) hs of
                     Inl e \<Rightarrow> Inl e
                   | Inr hs' \<Rightarrow> Inr \<lparr>rq_uri = uri, rq_headers = hs'\<rparr>)))"

text \<open>What one attempt meets: the network guard's refusal, the answer, and what the body delivers.\<close>

datatype sse_read = Chunk string | Read_Error string | Read_Stop

datatype sse_body = Body_Stream "sse_read list" | Body_Small string | Body_Empty

datatype sse_answer =
    Stopped_While_Sending
  | Send_Failed string
  | Response nat string "string option" sse_body

record sse_attempt =
  at_denied :: "string option"
  at_answer :: sse_answer
  at_wait_stopped :: bool

record sse_worker =
  sw_retries :: u32
  sw_opened :: "(string + string) option"
  sw_waits :: "u64 list"
  sw_parser :: sse_parser

datatype sse_flow = Sse_Break | Sse_Continue

definition complete_initial_open :: "string + string \<Rightarrow> sse_worker \<Rightarrow> sse_worker" where
  "complete_initial_open r w = (case sw_opened w of Some _ \<Rightarrow> w | None \<Rightarrow> w\<lparr>sw_opened := Some r\<rparr>)"

definition worker_send :: "string + sse_event \<Rightarrow> sse_worker \<Rightarrow> sse_worker" where
  "worker_send m w = w\<lparr>sw_parser := snd (events_send m (sw_parser w))\<rparr>"

text \<open>Give up with a message: to the opener, if it still waits, and to the consumer.\<close>

definition fail_open :: "string \<Rightarrow> sse_worker \<Rightarrow> sse_worker" where
  "fail_open message w = worker_send (Inl message) (complete_initial_open (Inl message) w)"

definition wait_and_retry :: "u64 \<Rightarrow> bool \<Rightarrow> sse_worker \<Rightarrow> sse_flow \<times> sse_worker" where
  "wait_and_retry max_delay_ms stopped w =
     (case backoff (ps_delay (sw_parser w)) max_delay_ms of
        (delay, next) \<Rightarrow>
          (if stopped then Sse_Break else Sse_Continue,
           w\<lparr>sw_retries := saturating_add (sw_retries w) 1, sw_waits := sw_waits w @ [wmax delay 1],
             sw_parser := (sw_parser w)\<lparr>ps_delay := next\<rparr>\<rparr>))"

text \<open>
  The read loop over one body. The result says whether it was stopped, what is left in the line buffer and
  the stream error, if any.
\<close>

fun read_body ::
  "u64 \<Rightarrow> sse_destination \<Rightarrow> sse_read list \<Rightarrow> string \<Rightarrow> sse_parser \<Rightarrow>
     bool \<times> string option \<times> string \<times> sse_parser" where
  "read_body m d [] buf p = (False, None, buf, p)"
| "read_body m d (Read_Stop # rs) buf p = (True, None, buf, p)"
| "read_body m d (Read_Error e # rs) buf p = (False, Some e, buf, p)"
| "read_body m d (Chunk c # rs) buf p =
     (case parse_available_events m d (buf @ c) p of
        (True, buf', p') \<Rightarrow> read_body m d rs buf' p'
      | (False, buf', p') \<Rightarrow> (False, Some ''sse consumer dropped'', buf', p'))"

text \<open>The end of a body: a last line without its line feed, then the event that is pending.\<close>

definition finish_body :: "u64 \<Rightarrow> sse_destination \<Rightarrow> string \<Rightarrow> sse_parser \<Rightarrow> sse_parser" where
  "finish_body m d buf p =
     (let p = (if buf \<noteq> [] then snd (snd (parse_available_events m d (buf @ [CHR 0x0A]) p)) else p)
      in snd (flush_pending_event m d p))"

definition after_body ::
  "sse_connect_options \<Rightarrow> bool \<Rightarrow> string option \<Rightarrow> sse_worker \<Rightarrow> sse_flow \<times> sse_worker" where
  "after_body options wait_stopped stream_error w =
     (let rc = so_reconnect options in
      case stream_error of
        Some err \<Rightarrow>
          if \<not> should_reconnect rc (sw_retries w)
          then (Sse_Break, worker_send (Inl (''sse stream failed: '' @ err)) w)
          else if \<not> rc_enabled rc then (Sse_Break, w)
          else if (case rc_max_retries rc of Some n \<Rightarrow> n \<le> sw_retries w | None \<Rightarrow> False) then (Sse_Break, w)
          else wait_and_retry (max_delay_ms_of rc) wait_stopped w
      | None \<Rightarrow>
          if \<not> rc_enabled rc then (Sse_Break, w)
          else if (case rc_max_retries rc of Some n \<Rightarrow> n \<le> sw_retries w | None \<Rightarrow> False) then (Sse_Break, w)
          else wait_and_retry (max_delay_ms_of rc) wait_stopped w)"

definition body_reads :: "sse_body \<Rightarrow> sse_read list" where
  "body_reads b = (case b of Body_Stream rs \<Rightarrow> rs | Body_Small bytes \<Rightarrow> [Chunk bytes] | Body_Empty \<Rightarrow> [])"

definition read_response ::
  "sse_connect_options \<Rightarrow> bool \<Rightarrow> sse_body \<Rightarrow> sse_worker \<Rightarrow> sse_flow \<times> sse_worker" where
  "read_response options wait_stopped body w =
     (let rc = so_reconnect options; m = max_delay_ms_of rc; d = so_destination options in
      if body = Body_Empty then
        (if \<not> should_reconnect rc (sw_retries w) then (Sse_Break, w) else wait_and_retry m wait_stopped w)
      else
        (let w = w\<lparr>sw_retries := 0,
                   sw_parser := (sw_parser w)\<lparr>ps_delay := initial_delay_ms rc, ps_pending := pe_default\<rparr>\<rparr>
         in case read_body m d (body_reads body) [] (sw_parser w) of
              (True, _, _, p) \<Rightarrow> (Sse_Break, w\<lparr>sw_parser := p\<rparr>)
            | (False, err, buf, p) \<Rightarrow>
                after_body options wait_stopped err (w\<lparr>sw_parser := finish_body m d buf p\<rparr>)))"

definition content_type_message :: "string \<Rightarrow> string" where
  "content_type_message ct =
     ''invalid sse content-type: '' @ (if ct = [] then ''<empty>'' else ct)"

text \<open>One turn of the outer loop.\<close>

definition sse_turn ::
  "http_rules \<Rightarrow> sse_connect_options \<Rightarrow> sse_attempt \<Rightarrow> sse_worker \<Rightarrow> sse_flow \<times> sse_worker" where
  "sse_turn hr options att w =
     (case build_sse_request hr options (ps_last_event_id (sw_parser w)) of
        Inl e \<Rightarrow> (Sse_Break, fail_open e w)
      | Inr req \<Rightarrow>
          (case at_denied att of
             Some err \<Rightarrow> (Sse_Break, fail_open (''sse request failed: '' @ err) w)
           | None \<Rightarrow>
               (case at_answer att of
                  Stopped_While_Sending \<Rightarrow> (Sse_Break, w)
                | Send_Failed e \<Rightarrow>
                    (if \<not> should_reconnect (so_reconnect options) (sw_retries w)
                     then (Sse_Break, fail_open (''sse request failed: '' @ e) w)
                     else wait_and_retry (max_delay_ms_of (so_reconnect options)) (at_wait_stopped att) w)
                | Response status status_text ctype body \<Rightarrow>
                    (let content_type = to_ascii_lowercase (case ctype of Some c \<Rightarrow> c | None \<Rightarrow> '''') in
                     if status \<noteq> 200
                     then (Sse_Break, fail_open (''sse server returned status '' @ status_text) w)
                     else if \<not> starts_with ''text/event-stream'' content_type
                     then (Sse_Break, fail_open (content_type_message content_type) w)
                     else read_response options (at_wait_stopped att) body
                            (complete_initial_open (Inr (origin_of (so_destination options))) w)))))"

definition sse_start :: "sse_connect_options \<Rightarrow> nat option \<Rightarrow> sse_worker" where
  "sse_start options room =
     \<lparr>sw_retries = 0, sw_opened = None, sw_waits = [],
      sw_parser = \<lparr>ps_pending = pe_default, ps_last_event_id = so_last_event_id options,
                   ps_delay = initial_delay_ms (so_reconnect options), ps_sent = [], ps_room = room\<rparr>\<rparr>"

text \<open>The worker against the attempts its environment offers; the flag tells whether it ended by itself.\<close>

fun run_sse_worker ::
  "http_rules \<Rightarrow> sse_connect_options \<Rightarrow> sse_attempt list \<Rightarrow> sse_worker \<Rightarrow> bool \<times> sse_worker" where
  "run_sse_worker hr options [] w = (False, w)"
| "run_sse_worker hr options (att # atts) w =
     (case sse_turn hr options att w of
        (Sse_Break, w') \<Rightarrow> (True, w')
      | (Sse_Continue, w') \<Rightarrow> run_sse_worker hr options atts w')"

section \<open>The parser does not see chunk boundaries\<close>

lemma next_line_append: "next_line s = Some (l, r) \<Longrightarrow> next_line (s @ t) = Some (l, r @ t)"
  by (induction s arbitrary: l) (auto split: if_splits)

lemma next_line_line: "CHR 0x0A \<notin> set l \<Longrightarrow> next_line (l @ CHR 0x0A # r) = Some (l, r)"
  by (induction l) auto

lemma parse_append:
  "parse_available_events m d (buf @ c) p =
     (case parse_available_events m d buf p of
        (True, buf', p') \<Rightarrow> parse_available_events m d (buf' @ c) p'
      | (False, buf', p') \<Rightarrow> (False, buf' @ c, p'))"
proof (induction m d buf p rule: parse_available_events.induct)
  case (1 m d buf p)
  show ?case
  proof (cases "next_line buf")
    case None
    then show ?thesis by (subst (2) parse_available_events.simps) simp
  next
    case (Some lr)
    obtain l r where lr: "next_line buf = Some (l, r)" using Some by (cases lr) auto
    obtain ok q where q: "parse_line m d (from_utf8_lossy (strip_cr l)) p = (ok, q)" by fastforce
    show ?thesis
      using 1 [OF lr refl q [symmetric]] lr next_line_append [OF lr, of c] q
      by (subst parse_available_events.simps, subst (2) parse_available_events.simps) (cases ok; simp)
  qed
qed

lemma events_send_room: "ps_room p = None \<Longrightarrow> fst (events_send m p) \<and> ps_room (snd (events_send m p)) = None"
  by (simp add: events_send_def)

lemma flush_room:
  "ps_room p = None \<Longrightarrow>
     fst (flush_pending_event m d p) \<and> ps_room (snd (flush_pending_event m d p)) = None"
  by (simp add: flush_pending_event_def Let_def events_send_def split: option.splits)

lemma parse_line_room:
  "ps_room p = None \<Longrightarrow> fst (parse_line m d l p) \<and> ps_room (snd (parse_line m d l p)) = None"
  by (simp add: parse_line_def flush_room case_prod_beta)

lemma parse_room:
  "ps_room p = None \<Longrightarrow>
     fst (parse_available_events m d buf p) \<and> ps_room (snd (snd (parse_available_events m d buf p))) = None"
proof (induction m d buf p rule: parse_available_events.induct)
  case (1 m d buf p)
  show ?case
  proof (cases "next_line buf")
    case None
    then show ?thesis using 1(2) by (subst parse_available_events.simps, subst parse_available_events.simps) simp
  next
    case (Some lr)
    obtain l r where lr: "next_line buf = Some (l, r)" using Some by (cases lr) auto
    obtain q where q: "parse_line m d (from_utf8_lossy (strip_cr l)) p = (True, q)" "ps_room q = None"
      using parse_line_room [OF 1(2), of m d "from_utf8_lossy (strip_cr l)"] by (metis prod.collapse)
    have "parse_available_events m d buf p = parse_available_events m d r q"
      using lr q(1) by (subst parse_available_events.simps) simp
    then show ?thesis using 1(1) [OF lr refl q(1) [symmetric]] q by simp
  qed
qed

lemma parse_rest:
  "parse_available_events m d buf p = (True, rest, q) \<Longrightarrow> next_line rest = None"
proof (induction m d buf p rule: parse_available_events.induct)
  case (1 m d buf p)
  show ?case
  proof (cases "next_line buf")
    case None
    then show ?thesis using 1(2) by (subst (asm) parse_available_events.simps) simp
  next
    case (Some lr)
    obtain l r where lr: "next_line buf = Some (l, r)" using Some by (cases lr) auto
    obtain ok q' where q: "parse_line m d (from_utf8_lossy (strip_cr l)) p = (ok, q')" by fastforce
    have "ok" "parse_available_events m d r q' = (True, rest, q)"
      using 1(2) lr q by (subst (asm) parse_available_events.simps, cases ok, simp, simp)+
    then show ?thesis using 1(1) [OF lr refl q [symmetric]] by simp
  qed
qed

lemma read_chunks:
  assumes "next_line buf = None" "ps_room p = None"
  shows "read_body m d (map Chunk cs) buf p =
    (case parse_available_events m d (buf @ concat cs) p of (ok, buf', p') \<Rightarrow> (False, None, buf', p'))"
  using assms
proof (induction cs arbitrary: buf p)
  case Nil
  then show ?case by (subst parse_available_events.simps) simp
next
  case (Cons c cs)
  obtain buf' p' where r: "parse_available_events m d (buf @ c) p = (True, buf', p')" "ps_room p' = None"
    using parse_room [OF Cons.prems(2), of m d "buf @ c"] by (metis prod.collapse)
  have "next_line buf' = None" using parse_rest [OF r(1)] .
  then show ?case
    using Cons.IH [OF _ r(2)] r(1) parse_append [of m d "buf @ c" "concat cs" p] by simp
qed

section \<open>Delays\<close>

text \<open>What every delay of a worker satisfies.\<close>

definition delay_ok :: "u64 \<Rightarrow> u64 \<Rightarrow> bool" where
  "delay_ok m v \<longleftrightarrow> 1 \<le> unat v \<and> unat v \<le> unat m"

lemma max_delay_pos: "1 \<le> unat (max_delay_ms_of rc)" "unat (initial_delay_ms rc) \<le> unat (max_delay_ms_of rc)"
  "1 \<le> unat (initial_delay_ms rc)"
  by (simp_all add: max_delay_ms_of_def initial_delay_ms_def)

lemma delay_ok_initial: "delay_ok (max_delay_ms_of rc) (initial_delay_ms rc)"
  using max_delay_pos [of rc] by (simp add: delay_ok_def)

lemma backoff_unat:
  assumes "delay_ok m v"
  shows "unat (fst (backoff v m)) = unat v" "unat (snd (backoff v m)) = min (2 * unat v) (unat m)"
proof -
  show f: "unat (fst (backoff v m)) = unat v" using assms by (simp add: backoff_def Let_def delay_ok_def)
  have "unat m < 2 ^ 64" using unat_bound [of m] by simp
  then show "unat (snd (backoff v m)) = min (2 * unat v) (unat m)"
    using f assms by (simp add: backoff_def Let_def unat_saturating_mul delay_ok_def)
qed

lemma delay_ok_backoff: "delay_ok m v \<Longrightarrow> delay_ok m (fst (backoff v m)) \<and> delay_ok m (snd (backoff v m))"
  using backoff_unat [of m v] by (simp add: delay_ok_def)

lemma wclamp_ok: "1 \<le> unat m \<Longrightarrow> delay_ok m (wclamp r 1 m)"
  by (simp add: delay_ok_def unat_wclamp word_le_nat_alt)

lemma flush_delay:
  "1 \<le> unat m \<Longrightarrow> delay_ok m (ps_delay p) \<Longrightarrow> delay_ok m (ps_delay (snd (flush_pending_event m d p)))"
  by (simp add: flush_pending_event_def Let_def events_send_def wclamp_ok split: option.splits nat.splits)

lemma parse_line_delay:
  "1 \<le> unat m \<Longrightarrow> delay_ok m (ps_delay p) \<Longrightarrow> delay_ok m (ps_delay (snd (parse_line m d l p)))"
  by (simp add: parse_line_def flush_delay case_prod_beta)

lemma parse_delay:
  "1 \<le> unat m \<Longrightarrow> delay_ok m (ps_delay p) \<Longrightarrow>
     delay_ok m (ps_delay (snd (snd (parse_available_events m d buf p))))"
proof (induction m d buf p rule: parse_available_events.induct)
  case (1 m d buf p)
  show ?case
  proof (cases "next_line buf")
    case None
    then show ?thesis using 1(3) by (subst parse_available_events.simps) simp
  next
    case (Some lr)
    obtain l r where lr: "next_line buf = Some (l, r)" using Some by (cases lr) auto
    obtain ok q where q: "parse_line m d (from_utf8_lossy (strip_cr l)) p = (ok, q)" by fastforce
    have "delay_ok m (ps_delay q)"
      using parse_line_delay [OF 1(2,3), of d "from_utf8_lossy (strip_cr l)"] q by simp
    then show ?thesis
      using 1(1) [OF lr refl q [symmetric]] 1(2) lr q
      by (subst parse_available_events.simps) (cases ok; simp)
  qed
qed

lemma read_body_delay:
  "1 \<le> unat m \<Longrightarrow> delay_ok m (ps_delay p) \<Longrightarrow>
     delay_ok m (ps_delay (snd (snd (snd (read_body m d rs buf p)))))"
proof (induction m d rs buf p rule: read_body.induct)
  case (4 m d c rs buf p)
  obtain ok b q where q: "parse_available_events m d (buf @ c) p = (ok, b, q)" by (metis prod_cases3)
  have "delay_ok m (ps_delay q)" using parse_delay [OF 4(2,3), of d "buf @ c"] q by simp
  then show ?case using 4(1) [OF q [symmetric] _ refl] 4(2) q by (cases ok) auto
qed simp_all

lemma finish_body_delay:
  "1 \<le> unat m \<Longrightarrow> delay_ok m (ps_delay p) \<Longrightarrow> delay_ok m (ps_delay (finish_body m d buf p))"
  by (simp add: finish_body_def Let_def flush_delay parse_delay)

definition worker_delay_ok :: "u64 \<Rightarrow> sse_worker \<Rightarrow> bool" where
  "worker_delay_ok m w \<longleftrightarrow> delay_ok m (ps_delay (sw_parser w)) \<and> (\<forall>v \<in> set (sw_waits w). delay_ok m v)"

lemma worker_delay_wait:
  assumes "worker_delay_ok m w"
  shows "worker_delay_ok m (snd (wait_and_retry m b w))"
proof -
  have d: "delay_ok m (fst (backoff (ps_delay (sw_parser w)) m))"
    "delay_ok m (snd (backoff (ps_delay (sw_parser w)) m))"
    using assms delay_ok_backoff by (simp_all add: worker_delay_ok_def)
  then have "delay_ok m (wmax (fst (backoff (ps_delay (sw_parser w)) m)) 1)"
    by (simp add: delay_ok_def)
  then show ?thesis using assms d by (simp add: worker_delay_ok_def wait_and_retry_def case_prod_beta)
qed

lemma worker_delay_simps [simp]:
  "worker_delay_ok m (worker_send x w) = worker_delay_ok m w"
  "worker_delay_ok m (complete_initial_open r w) = worker_delay_ok m w"
  "worker_delay_ok m (fail_open e w) = worker_delay_ok m w"
  by (simp_all add: worker_delay_ok_def worker_send_def complete_initial_open_def fail_open_def
      events_send_def split: option.splits nat.splits)

lemma after_body_delay:
  "worker_delay_ok (max_delay_ms_of (so_reconnect opts)) w \<Longrightarrow>
     worker_delay_ok (max_delay_ms_of (so_reconnect opts)) (snd (after_body opts b e w))"
  by (simp add: after_body_def Let_def worker_delay_wait split: option.split)

lemma read_response_delay:
  assumes "worker_delay_ok (max_delay_ms_of (so_reconnect opts)) w"
  shows "worker_delay_ok (max_delay_ms_of (so_reconnect opts)) (snd (read_response opts b body w))"
proof (cases "body = Body_Empty")
  case True
  then show ?thesis using assms by (simp add: read_response_def Let_def worker_delay_wait)
next
  case False
  let ?m = "max_delay_ms_of (so_reconnect opts)" and ?d = "so_destination opts"
  let ?w = "w\<lparr>sw_retries := 0, sw_parser := (sw_parser w)\<lparr>ps_delay := initial_delay_ms (so_reconnect opts),
              ps_pending := pe_default\<rparr>\<rparr>"
  obtain st err buf p where r: "read_body ?m ?d (body_reads body) [] (sw_parser ?w) = (st, err, buf, p)"
    by (metis prod_cases4)
  have p: "delay_ok ?m (ps_delay p)"
    using read_body_delay [OF max_delay_pos(1), of "so_reconnect opts" "sw_parser ?w" ?d "body_reads body" "[]"]
      r delay_ok_initial by simp
  then have "worker_delay_ok ?m (?w\<lparr>sw_parser := p\<rparr>)"
    "worker_delay_ok ?m (?w\<lparr>sw_parser := finish_body ?m ?d buf p\<rparr>)"
    using assms finish_body_delay [OF max_delay_pos(1)] by (simp_all add: worker_delay_ok_def)
  then show ?thesis
    using False r after_body_delay by (cases st) (simp_all add: read_response_def Let_def)
qed

lemma sse_turn_delay:
  "worker_delay_ok (max_delay_ms_of (so_reconnect opts)) w \<Longrightarrow>
     worker_delay_ok (max_delay_ms_of (so_reconnect opts)) (snd (sse_turn hr opts att w))"
  by (simp add: sse_turn_def Let_def worker_delay_wait read_response_delay
      split: sum.split option.split sse_answer.split)

lemma run_sse_worker_delay:
  "worker_delay_ok (max_delay_ms_of (so_reconnect opts)) w \<Longrightarrow>
     worker_delay_ok (max_delay_ms_of (so_reconnect opts)) (snd (run_sse_worker hr opts atts w))"
proof (induction atts arbitrary: w)
  case (Cons att atts)
  then show ?case
    using sse_turn_delay [OF Cons.prems, of hr att]
    by (auto split: prod.split sse_flow.split)
qed simp

section \<open>Repeated failure\<close>

lemma wait_and_retry_effect:
  assumes "delay_ok m (ps_delay (sw_parser w))" "unat (sw_retries w) < 2 ^ 32 - 1"
  shows "fst (wait_and_retry m False w) = Sse_Continue"
    "unat (sw_retries (snd (wait_and_retry m b w))) = Suc (unat (sw_retries w))"
    "unat (ps_delay (sw_parser (snd (wait_and_retry m b w)))) = min (2 * unat (ps_delay (sw_parser w))) (unat m)"
    "sw_waits (snd (wait_and_retry m b w)) = sw_waits w @ [ps_delay (sw_parser w)]"
    "sw_opened (snd (wait_and_retry m b w)) = sw_opened w"
    "ps_sent (sw_parser (snd (wait_and_retry m b w))) = ps_sent (sw_parser w)"
    "ps_room (sw_parser (snd (wait_and_retry m b w))) = ps_room (sw_parser w)"
    "ps_last_event_id (sw_parser (snd (wait_and_retry m b w))) = ps_last_event_id (sw_parser w)"
proof -
  have "unat (wmax (fst (backoff (ps_delay (sw_parser w)) m)) 1) = unat (ps_delay (sw_parser w))"
    using backoff_unat [OF assms(1)] assms(1) by (simp add: delay_ok_def)
  then have x: "wmax (fst (backoff (ps_delay (sw_parser w)) m)) 1 = ps_delay (sw_parser w)"
    using unat_inject by blast
  show "fst (wait_and_retry m False w) = Sse_Continue"
    "unat (sw_retries (snd (wait_and_retry m b w))) = Suc (unat (sw_retries w))"
    "unat (ps_delay (sw_parser (snd (wait_and_retry m b w)))) = min (2 * unat (ps_delay (sw_parser w))) (unat m)"
    "sw_waits (snd (wait_and_retry m b w)) = sw_waits w @ [ps_delay (sw_parser w)]"
    "sw_opened (snd (wait_and_retry m b w)) = sw_opened w"
    "ps_sent (sw_parser (snd (wait_and_retry m b w))) = ps_sent (sw_parser w)"
    "ps_room (sw_parser (snd (wait_and_retry m b w))) = ps_room (sw_parser w)"
    "ps_last_event_id (sw_parser (snd (wait_and_retry m b w))) = ps_last_event_id (sw_parser w)"
    using x backoff_unat [OF assms(1)] assms(2)
    by (simp_all add: wait_and_retry_def case_prod_beta unat_saturating_add)
qed

definition failed_attempt :: "string \<Rightarrow> sse_attempt" where
  "failed_attempt e = \<lparr>at_denied = None, at_answer = Send_Failed e, at_wait_stopped = False\<rparr>"

lemma turn_failed:
  assumes "build_sse_request hr opts (ps_last_event_id (sw_parser w)) = Inr req"
  shows "sse_turn hr opts (failed_attempt e) w =
    (if \<not> should_reconnect (so_reconnect opts) (sw_retries w)
     then (Sse_Break, fail_open (''sse request failed: '' @ e) w)
     else wait_and_retry (max_delay_ms_of (so_reconnect opts)) False w)"
  using assms by (simp add: sse_turn_def failed_attempt_def)

lemma min_double: "min (2 * min a m) m = min (2 * a) (m :: nat)"
  by simp

text \<open>From any point of the count, the remaining attempts fail in turn and the last one reports.\<close>

lemma run_failing:
  assumes rc: "rc_enabled (so_reconnect opts)" "rc_max_retries (so_reconnect opts) = Some n"
    and req: "build_sse_request hr opts (so_last_event_id opts) = Inr req"
    and w: "unat (sw_retries w) + k = unat n" "ps_last_event_id (sw_parser w) = so_last_event_id opts"
      "delay_ok (max_delay_ms_of (so_reconnect opts)) (ps_delay (sw_parser w))"
      "unat (ps_delay (sw_parser w)) = min (D * 2 ^ unat (sw_retries w)) (unat (max_delay_ms_of (so_reconnect opts)))"
      "ps_room (sw_parser w) = None" "sw_opened w = None"
    and es: "length es = Suc k"
  shows "\<exists>w'. run_sse_worker hr opts (map failed_attempt es @ rest) w = (True, w') \<and>
    sw_opened w' = Some (Inl (''sse request failed: '' @ last es)) \<and>
    ps_sent (sw_parser w') = ps_sent (sw_parser w) @ [Inl (''sse request failed: '' @ last es)] \<and>
    map unat (sw_waits w') = map unat (sw_waits w) @
      map (\<lambda>j. min (D * 2 ^ j) (unat (max_delay_ms_of (so_reconnect opts)))) [unat (sw_retries w)..<unat n]"
  using w es
proof (induction k arbitrary: w es)
  case 0
  then obtain e where e: "es = [e]" by (auto simp: length_Suc_conv)
  have "\<not> should_reconnect (so_reconnect opts) (sw_retries w)"
    using 0(1) rc by (simp add: should_reconnect_def word_less_nat_alt)
  then show ?case
    using 0 e turn_failed [of hr opts w req e] req
    by (simp add: fail_open_def worker_send_def complete_initial_open_def events_send_def)
next
  case (Suc k)
  then obtain e es' where e: "es = e # es'" "length es' = Suc k" by (auto simp: length_Suc_conv)
  then have ne: "es' \<noteq> []" by auto
  let ?m = "max_delay_ms_of (so_reconnect opts)"
  let ?w = "snd (wait_and_retry ?m False w)"
  have lt: "unat (sw_retries w) < unat n" using Suc.prems(1) by simp
  then have rt: "unat (sw_retries w) < 2 ^ 32 - 1" using unat_bound [of n] by simp
  note ef = wait_and_retry_effect [OF Suc.prems(3) rt]
  have "should_reconnect (so_reconnect opts) (sw_retries w)"
    using lt rc by (simp add: should_reconnect_def word_less_nat_alt)
  then have t: "sse_turn hr opts (failed_attempt e) w = (Sse_Continue, ?w)"
    using turn_failed [of hr opts w req e] req Suc.prems(2) ef(1) by (metis prod.collapse)
  have "delay_ok ?m (ps_delay (sw_parser ?w))"
    using ef(3) Suc.prems(3) by (simp add: delay_ok_def)
  moreover have "unat (ps_delay (sw_parser ?w)) = min (D * 2 ^ unat (sw_retries ?w)) (unat ?m)"
    using ef(2,3) Suc.prems(4) min_double [of "D * 2 ^ unat (sw_retries w)" "unat ?m"]
    by (simp add: mult.left_commute)
  ultimately obtain w' where "run_sse_worker hr opts (map failed_attempt es' @ rest) ?w = (True, w')"
    "sw_opened w' = Some (Inl (''sse request failed: '' @ last es'))"
    "ps_sent (sw_parser w') = ps_sent (sw_parser w) @ [Inl (''sse request failed: '' @ last es')]"
    "map unat (sw_waits w') = map unat (sw_waits w) @ [unat (ps_delay (sw_parser w))] @
      map (\<lambda>j. min (D * 2 ^ j) (unat ?m)) [Suc (unat (sw_retries w))..<unat n]"
    using Suc.IH [of ?w es'] Suc.prems e(2) ef by auto
  moreover have "[unat (sw_retries w)..<unat n] = unat (sw_retries w) # [Suc (unat (sw_retries w))..<unat n]"
    using lt by (rule upt_conv_Cons)
  ultimately show ?case using t e(1) ne Suc.prems(4) by simp
qed

section \<open>Encoding an event\<close>

definition plain :: "string \<Rightarrow> bool" where
  "plain s \<longleftrightarrow> is_ascii s \<and> CHR 0x0A \<notin> set s \<and> CHR 0x0D \<notin> set s"

definition field_line :: "string \<Rightarrow> string \<Rightarrow> string" where
  "field_line f v = f @ '': '' @ v @ [CHR 0x0A]"

text \<open>An event as a server writes it.\<close>

definition encode_event :: "string \<Rightarrow> string \<Rightarrow> string list \<Rightarrow> string" where
  "encode_event name i ls =
     field_line ''event'' name @ field_line ''id'' i @ concat (map (field_line ''data'') ls) @ [CHR 0x0A]"

lemma parse_field_line:
  assumes f: "f \<noteq> []" "CHR '':'' \<notin> set f" "plain f" and v: "plain v"
  shows "parse_available_events m d (field_line f v @ rest) p =
    parse_available_events m d rest (p\<lparr>ps_pending := apply_field f v (ps_pending p)\<rparr>)"
proof -
  let ?l = "f @ CHR '':'' # CHR '' '' # v"
  have nl: "CHR 0x0A \<notin> set ?l" and cr: "CHR 0x0D \<notin> set ?l" and asc: "is_ascii ?l"
    using f(3) v by (auto simp: plain_def is_ascii_def byte_of_def)
  have "next_line (field_line f v @ rest) = Some (?l, rest)"
    using next_line_line [OF nl, of rest] by (simp add: field_line_def)
  moreover have "strip_cr ?l = ?l"
    using cr last_in_set [of ?l] by (auto simp: strip_cr_def)
  moreover have "from_utf8_lossy ?l = ?l" using asc by (rule from_utf8_lossy_ascii)
  moreover have "line_field ?l = (f, v)"
    using split_once_append [OF f(2)] by (simp add: line_field_def strip_prefix_def starts_with_def)
  moreover have "\<not> starts_with '':'' ?l" "?l \<noteq> []" using f(1,2) by (auto simp: starts_with_def neq_Nil_conv)
  ultimately have "parse_line m d (from_utf8_lossy (strip_cr ?l)) p =
      (True, p\<lparr>ps_pending := apply_field f v (ps_pending p)\<rparr>)"
    by (simp add: parse_line_def)
  then show ?thesis
    using \<open>next_line (field_line f v @ rest) = Some (?l, rest)\<close>
    by (subst parse_available_events.simps) simp
qed

lemma parse_data_lines:
  assumes "list_all plain ls"
  shows "parse_available_events m d (concat (map (field_line ''data'') ls) @ rest) p =
    parse_available_events m d rest
      (p\<lparr>ps_pending := (ps_pending p)\<lparr>pe_data_lines := pe_data_lines (ps_pending p) @ ls\<rparr>\<rparr>)"
  using assms
proof (induction ls arbitrary: p)
  case (Cons l ls)
  have "parse_available_events m d (field_line ''data'' l @ (concat (map (field_line ''data'') ls) @ rest)) p =
      parse_available_events m d (concat (map (field_line ''data'') ls) @ rest)
        (p\<lparr>ps_pending := apply_field ''data'' l (ps_pending p)\<rparr>)"
    by (rule parse_field_line) (use Cons.prems in \<open>simp_all add: plain_def is_ascii_def byte_of_def\<close>)
  then show ?case using Cons by (simp add: apply_field_def)
qed simp

lemma parse_blank:
  "parse_available_events m d (CHR 0x0A # rest) p =
     (case flush_pending_event m d p of
        (True, p') \<Rightarrow> parse_available_events m d rest p'
      | (False, p') \<Rightarrow> (False, rest, p'))"
  by (subst parse_available_events.simps) (simp add: strip_cr_def parse_line_def)

section \<open>Properties\<close>

text \<open>The inputs of the witnesses.\<close>

definition demo_rules :: http_rules where
  "demo_rules = \<lparr>hr_uri = (\<lambda>_. None), hr_name = Inr,
     hr_value = (\<lambda>v. if CHR 0x01 \<in> set v then Inl ''failed to parse header value'' else Inr v),
     hr_user_agent = ''rong''\<rparr>"

definition demo_options :: sse_connect_options where
  "demo_options =
     \<lparr>so_destination = \<lparr>sd_scheme = Http, sd_target = ''h'', sd_path = ''/e'', sd_query = None\<rparr>,
      so_headers = [], so_last_event_id = None,
      so_reconnect = \<lparr>rc_enabled = True, rc_max_retries = Some 2, rc_base_delay = 1000000000, rc_max_delay = 1500000000\<rparr>,
      so_request_timeout = None, so_connect_timeout = None\<rparr>"

definition demo_parser :: sse_parser where
  "demo_parser = \<lparr>ps_pending = pe_default, ps_last_event_id = None, ps_delay = 1000, ps_sent = [], ps_room = None\<rparr>"

text \<open>
  C38. The event parser does not depend on how the network cut the stream: reading any list of chunks gives the
  same events, the same state and the same left-over bytes as reading their concatenation at once, as long
  as the consumer is there.
\<close>

theorem sse_chunks_irrelevant:
  assumes "ps_room p = None" "concat cs = concat cs'"
  shows "read_body m d (map Chunk cs) [] p = read_body m d (map Chunk cs') [] p"
  using read_chunks [OF _ assms(1), of "[]"] assms(2) by simp

theorem sse_chunks_irrelevant_witness:
  "read_body 5000 (so_destination demo_options) (map Chunk [''data: a'', [CHR 0x0A], [CHR 0x0A]]) [] demo_parser =
   read_body 5000 (so_destination demo_options) (map Chunk [''da'', ''ta: a'' @ [CHR 0x0A, CHR 0x0A]]) [] demo_parser"
  using sse_chunks_irrelevant [of demo_parser "[''data: a'', [CHR 0x0A], [CHR 0x0A]]"
      "[''da'', ''ta: a'' @ [CHR 0x0A, CHR 0x0A]]" 5000 "so_destination demo_options"]
  by (simp add: demo_parser_def)

text \<open>
  Every reconnect delay the worker waits is at least 1 ms and at most the configured maximum (itself at
  least the base delay), whatever the server's \<^verbatim>\<open>retry\<close> fields say and however often it reconnects; the bounds
  given to \<^verbatim>\<open>clamp\<close> are never reversed, so it cannot panic.
\<close>

theorem sse_delays_bounded:
  "1 \<le> unat (max_delay_ms_of (so_reconnect opts)) \<and>
   (\<forall>v \<in> set (sw_waits (snd (run_sse_worker hr opts atts (sse_start opts room)))).
      1 \<le> unat v \<and> unat v \<le> unat (max_delay_ms_of (so_reconnect opts)))"
proof -
  have "worker_delay_ok (max_delay_ms_of (so_reconnect opts)) (sse_start opts room)"
    using delay_ok_initial by (simp add: worker_delay_ok_def sse_start_def)
  then have "worker_delay_ok (max_delay_ms_of (so_reconnect opts)) (snd (run_sse_worker hr opts atts (sse_start opts room)))"
    by (rule run_sse_worker_delay)
  then show ?thesis using max_delay_pos by (simp add: worker_delay_ok_def delay_ok_def)
qed

theorem sse_delays_bounded_witness:
  "list_all (\<lambda>v. 1 \<le> unat v \<and> unat v \<le> unat (max_delay_ms_of (so_reconnect demo_options)))
     (sw_waits (snd (run_sse_worker demo_rules demo_options [failed_attempt ''x''] (sse_start demo_options None))))"
  using sse_delays_bounded [of demo_options demo_rules "[failed_attempt ''x'']" None]
  by (simp add: list_all_iff)

text \<open>
  Giving up: with at most \<open>n\<close> retries and a server that cannot be reached, the worker makes exactly
  \<open>n + 1\<close> attempts, waits between them the base delay doubled each time up to the maximum, then reports the
  last failure once to the opener and once to the consumer and ends.
\<close>

theorem sse_retries_then_gives_up:
  assumes "rc_enabled (so_reconnect opts)" "rc_max_retries (so_reconnect opts) = Some n"
    and "build_sse_request hr opts (so_last_event_id opts) = Inr req" "length es = Suc (unat n)"
  shows "\<exists>w. run_sse_worker hr opts (map failed_attempt es @ rest) (sse_start opts None) = (True, w) \<and>
    sw_opened w = Some (Inl (''sse request failed: '' @ last es)) \<and>
    ps_sent (sw_parser w) = [Inl (''sse request failed: '' @ last es)] \<and>
    map unat (sw_waits w) =
      map (\<lambda>j. min (unat (initial_delay_ms (so_reconnect opts)) * 2 ^ j) (unat (max_delay_ms_of (so_reconnect opts))))
        [0..<unat n]"
  using run_failing [OF assms(1-3), of "sse_start opts None" "unat n" "unat (initial_delay_ms (so_reconnect opts))" es rest]
    assms(4) delay_ok_initial [of "so_reconnect opts"] max_delay_pos [of "so_reconnect opts"]
  by (simp add: sse_start_def)


lemma demo_request: "\<exists>req. build_sse_request demo_rules demo_options (so_last_event_id demo_options) = Inr req"
proof -
  have t: "trim ''h'' = ''h''" "trim ''/e'' = ''/e''"
    by (simp_all add: trim_def trim_start.simps [of "''h''"] trim_end.simps [of "''h''"]
        trim_start.simps [of "''/e''"] trim_end.simps [of "''/e''"] ws_at_def ws_end_def byte_of_def)
  show ?thesis
    by (simp add: build_sse_request_def demo_options_def demo_rules_def to_url_def t builder_error_def
        Let_def starts_with_def)
qed

theorem sse_retries_then_gives_up_witness:
  "\<exists>w. run_sse_worker demo_rules demo_options (map failed_attempt [''a'', ''b'', ''c'']) (sse_start demo_options None) = (True, w) \<and>
    sw_opened w = Some (Inl ''sse request failed: c'') \<and> map unat (sw_waits w) = [1000, 1500]"
proof -
  obtain req where r: "build_sse_request demo_rules demo_options (so_last_event_id demo_options) = Inr req"
    using demo_request by blast
  have d: "unat (initial_delay_ms (so_reconnect demo_options)) = 1000"
    "unat (max_delay_ms_of (so_reconnect demo_options)) = 1500"
    by (simp_all add: initial_delay_ms_def max_delay_ms_of_def demo_options_def millis_u64_def)
  have n: "unat (2 :: u32) = 2" by simp
  show ?thesis
    using sse_retries_then_gives_up [OF _ _ r, of 2 "[''a'', ''b'', ''c'']" "[]"] d
    by (auto simp: demo_options_def upt_rec)
qed

text \<open>
  Round trip: an event written out line by line (its type, its identifier and any number of data lines,
  in plain text) is delivered exactly once and exactly as written, with the data lines joined by line feeds,
  and leaves the parser ready for the next event with the identifier remembered for reconnecting.
\<close>

theorem sse_event_roundtrip:
  assumes "plain name" "plain i" "CHR 0x00 \<notin> set i" "list_all plain ls" "ls \<noteq> []"
    and "ps_pending p = pe_default" "ps_room p = None"
  shows "parse_available_events m d (encode_event name i ls) p =
    (True, [],
     p\<lparr>ps_last_event_id := Some i,
       ps_sent := ps_sent p @
         [Inr \<lparr>ev_event = name, ev_data = join_with [CHR 0x0A] ls, ev_id = Some i,
               ev_retry_ms = Some (ps_delay p), ev_origin = origin_of d\<rparr>]\<rparr>)"
proof -
  have e: "plain ''event''" "plain ''id''" by (simp_all add: plain_def is_ascii_def byte_of_def)
  have "parse_available_events m d (encode_event name i ls) p =
      parse_available_events m d [CHR 0x0A]
        (p\<lparr>ps_pending := \<lparr>pe_event = Some name, pe_data_lines = ls, pe_id = Some i, pe_retry_ms = None\<rparr>\<rparr>)"
    using assms(1-4,6) e
    by (simp add: encode_event_def parse_field_line parse_data_lines apply_field_def pe_default_def)
  then show ?thesis
    using assms(5-7)
    by (simp add: parse_blank flush_pending_event_def events_send_def)
      (subst parse_available_events.simps, simp add: pe_default_def)
qed

theorem sse_event_roundtrip_witness:
  "\<exists>p. parse_available_events 5000 (so_destination demo_options) (encode_event ''tick'' ''7'' [''a'', ''b'']) demo_parser =
     (True, [], p) \<and> ps_last_event_id p = Some ''7'' \<and> length (ps_sent p) = 1"
  using sse_event_roundtrip [of "''tick''" "''7''" "[''a'', ''b'']" demo_parser 5000 "so_destination demo_options"]
  by (simp add: plain_def is_ascii_def byte_of_def demo_parser_def)

text \<open>
  The identifier a server sends is fed back into a request header unchecked: the parser accepts any
  identifier without a zero byte, and if the HTTP library does not accept it as a header value, the next
  attempt ends the connection with an error instead of reconnecting, whatever the reconnect options are.
\<close>

theorem sse_unsendable_id_is_fatal:
  assumes "ps_last_event_id (sw_parser w) = Some i" "i \<noteq> []" "hr_value hr i = Inl e"
    and "to_url (so_destination opts) = Inr uri" "hr_uri hr uri = None" "hr_value hr (hr_user_agent hr) = Inr ua"
    and "CHR 0x00 \<notin> set i"
  shows "sse_turn hr opts att w = (Sse_Break, fail_open (''failed to build sse request: '' @ e) w) \<and>
         pe_id (apply_field ''id'' i pe_default) = Some i"
  using assms
  by (simp add: sse_turn_def build_sse_request_def builder_error_def apply_field_def)

theorem sse_unsendable_id_is_fatal_witness:
  "fst (sse_turn demo_rules demo_options (failed_attempt ''x'')
     ((sse_start demo_options None)\<lparr>sw_parser := demo_parser\<lparr>ps_last_event_id := Some [CHR 0x01]\<rparr>\<rparr>)) = Sse_Break"
proof -
  have t: "trim ''h'' = ''h''" "trim ''/e'' = ''/e''"
    by (simp_all add: trim_def trim_start.simps [of "''h''"] trim_end.simps [of "''h''"]
        trim_start.simps [of "''/e''"] trim_end.simps [of "''/e''"] ws_at_def ws_end_def byte_of_def)
  have "to_url (so_destination demo_options) = Inr ''http://h/e''"
    by (simp add: to_url_def demo_options_def t Let_def starts_with_def scheme_as_str_def)
  then show ?thesis
    using sse_unsendable_id_is_fatal [of
        "(sse_start demo_options None)\<lparr>sw_parser := demo_parser\<lparr>ps_last_event_id := Some [CHR 0x01]\<rparr>\<rparr>"
        "[CHR 0x01]" demo_rules "''failed to parse header value''" demo_options "''http://h/e''" "''rong''"
        "failed_attempt ''x''"]
    by (simp add: demo_rules_def)
qed

end
