(* ===== verification/Timer.thy ===== *)
theory Timer
  imports Host_Error
begin

text \<open>
  Timers, \<^verbatim>\<open>modules/rong_timer/src/lib.rs\<close> and \<^verbatim>\<open>sleep.rs\<close>: the registry of a context, the task behind each
  \<^verbatim>\<open>setTimeout\<close>, \<^verbatim>\<open>setInterval\<close> and \<^verbatim>\<open>Rong.sleep\<close> on the shared executor, and the receiver on the context's
  thread that runs the callbacks. Each timer is known by the number of its creation; the \<^verbatim>\<open>u32\<close> identifier the
  program hands out is that number modulo \<open>2 ^ 32\<close>. The steps are what the JavaScript thread, the timer tasks
  and the receiver do between two points where another of them can run; a running callback is the receiver's
  state \<open>R_Calling\<close> and the jobs run after it are \<open>R_Jobs\<close>, during which JavaScript may set and clear timers.
\<close>

section \<open>Delays\<close>

text \<open>A JavaScript number as the casts see it: a finite number by its integer part (rounded towards zero).\<close>

datatype f64v = F_NaN | F_Pos_Inf | F_Neg_Inf | F_Fin int

definition is_finite_f64 :: "f64v \<Rightarrow> bool" where
  "is_finite_f64 v = (case v of F_Fin _ \<Rightarrow> True | _ \<Rightarrow> False)"

text \<open>\<^verbatim>\<open>v.max(0.0) as u64\<close>: the maximum ignores a NaN, the cast saturates.\<close>

definition f64_max0_as_u64 :: "f64v \<Rightarrow> u64" where
  "f64_max0_as_u64 v =
     (case v of
        F_NaN \<Rightarrow> 0
      | F_Neg_Inf \<Rightarrow> 0
      | F_Pos_Inf \<Rightarrow> - 1
      | F_Fin i \<Rightarrow> if i \<le> 0 then 0 else if 2 ^ 64 \<le> i then - 1 else of_int i)"

definition timer_delay :: "f64v option \<Rightarrow> u64" where
  "timer_delay delay = f64_max0_as_u64 (case delay of Some d \<Rightarrow> d | None \<Rightarrow> F_Fin 0)"

definition interval_delay :: "f64v option \<Rightarrow> u64" where
  "interval_delay delay = wmax (timer_delay delay) 1"

definition sleep_type_error :: "string \<Rightarrow> host_error" where
  "sleep_type_error message = with_name ''TypeError'' (he_new E_TYPE message)"

definition duration_from_number :: "f64v \<Rightarrow> string \<Rightarrow> u64 js_result" where
  "duration_from_number ms message =
     (if \<not> is_finite_f64 ms then Inl (Host (sleep_type_error message)) else Inr (f64_max0_as_u64 ms))"

text \<open>
  The argument of \<^verbatim>\<open>Rong.sleep\<close>: absent, a date (by its time and the difference of that time to the clock,
  the error of either read included), or another value (by its conversion to a number).
\<close>

datatype sleep_arg =
    Sleep_Absent
  | Sleep_Date "(rong_js_error + f64v)" "(rong_js_error + f64v)"
  | Sleep_Value "f64v option"

definition parse_sleep_delay :: "sleep_arg \<Rightarrow> u64 js_result" where
  "parse_sleep_delay arg =
     (case arg of
        Sleep_Absent \<Rightarrow> Inr 0
      | Sleep_Date time diff \<Rightarrow>
          (case time of
             Inl e \<Rightarrow> Inl e
           | Inr target \<Rightarrow>
               if \<not> is_finite_f64 target
               then Inl (Host (sleep_type_error ''Rong.sleep target Date must be valid''))
               else (case diff of
                       Inl e \<Rightarrow> Inl e
                     | Inr ms \<Rightarrow> duration_from_number ms ''Rong.sleep target Date must be valid''))
      | Sleep_Value None \<Rightarrow>
          Inl (Host (sleep_type_error ''Rong.sleep expects a number of milliseconds or a Date''))
      | Sleep_Value (Some ms) \<Rightarrow>
          duration_from_number ms ''Rong.sleep expects a finite number of milliseconds or a valid Date'')"

definition parse_sleep_sync_delay :: "f64v option option \<Rightarrow> u64 js_result" where
  "parse_sleep_sync_delay arg =
     (case arg of
        None \<Rightarrow> Inr 0
      | Some None \<Rightarrow> Inl (Host (sleep_type_error ''Rong.sleepSync expects a number of milliseconds''))
      | Some (Some ms) \<Rightarrow> duration_from_number ms ''Rong.sleepSync expects a finite number of milliseconds'')"

section \<open>Data\<close>

text \<open>An entry of the registry; \<open>te_timer\<close> names the timer whose cancellation it holds.\<close>

record 'f timer_entry =
  te_timer :: nat
  te_callback :: "'f option"
  te_repeat :: bool

text \<open>
  Where a timer's task is: asleep, waiting for the receiver to finish its tick (intervals), ended with its
  tick handed over, ended otherwise, or gone with its registration dropped.
\<close>

datatype task_pc = T_Sleeping | T_Waiting | T_Queued | T_Stopped | T_Gone

record timer_task =
  tt_repeat :: bool
  tt_sleep :: bool
  tt_delay :: u64
  tt_cancelled :: bool
  tt_pending :: bool
  tt_pc :: task_pc

datatype receiver_pc = R_Idle | R_Calling nat u32 bool | R_Jobs nat

record 'f timers =
  tm_next :: nat
  tm_timers :: "u32 \<rightharpoonup> 'f timer_entry"
  tm_tasks :: "nat \<rightharpoonup> timer_task"
  tm_open :: bool
  tm_queue :: "nat list"
  tm_receiver :: receiver_pc
  tm_calls :: "nat list"

definition tm_init :: "'f timers" where
  "tm_init = \<lparr>tm_next = 0, tm_timers = Map.empty, tm_tasks = Map.empty, tm_open = True, tm_queue = [],
              tm_receiver = R_Idle, tm_calls = []\<rparr>"

definition timer_id :: "nat \<Rightarrow> u32" where
  "timer_id n = of_nat n"

section \<open>The registry\<close>

definition set_cancelled :: "nat \<Rightarrow> 'f timers \<Rightarrow> 'f timers" where
  "set_cancelled n s =
     (case tm_tasks s n of
        None \<Rightarrow> s
      | Some t \<Rightarrow> s\<lparr>tm_tasks := (tm_tasks s)(n \<mapsto> t\<lparr>tt_cancelled := True\<rparr>)\<rparr>)"

definition cancel_timer :: "u32 \<Rightarrow> 'f timers \<Rightarrow> 'f timers" where
  "cancel_timer i s =
     (case tm_timers s i of
        None \<Rightarrow> s
      | Some e \<Rightarrow> set_cancelled (te_timer e) (s\<lparr>tm_timers := (tm_timers s)(i := None)\<rparr>))"

text \<open>Shutting the context down drains the registry and cancels every timer that was in it.\<close>

definition tm_shutdown :: "'f timers \<Rightarrow> 'f timers" where
  "tm_shutdown s =
     s\<lparr>tm_timers := Map.empty,
       tm_tasks := (\<lambda>n. map_option
         (\<lambda>t. if \<exists>e \<in> ran (tm_timers s). te_timer e = n then t\<lparr>tt_cancelled := True\<rparr> else t) (tm_tasks s n))\<rparr>"

text \<open>
  \<^verbatim>\<open>set_timeout_with_repeat\<close>: a fresh timer with its callback; \<^verbatim>\<open>sleep_async\<close> registers one without. The answer
  is the identifier.
\<close>

definition register_timer :: "'f option \<Rightarrow> bool \<Rightarrow> u64 \<Rightarrow> 'f timers \<Rightarrow> u32 \<times> 'f timers" where
  "register_timer callback repeat delay s =
     (let n = tm_next s; i = timer_id n in
      (i, s\<lparr>tm_next := Suc n,
            tm_timers := (tm_timers s)(i \<mapsto> \<lparr>te_timer = n, te_callback = callback, te_repeat = repeat\<rparr>),
            tm_tasks := (tm_tasks s)(n \<mapsto>
              \<lparr>tt_repeat = repeat, tt_sleep = (callback = None), tt_delay = delay, tt_cancelled = False,
               tt_pending = False, tt_pc = T_Sleeping\<rparr>)\<rparr>))"

definition set_timeout_with_repeat :: "'f \<Rightarrow> f64v option \<Rightarrow> bool \<Rightarrow> 'f timers \<Rightarrow> u32 \<times> 'f timers" where
  "set_timeout_with_repeat callback delay repeat s =
     register_timer (Some callback) repeat (if repeat then interval_delay delay else timer_delay delay) s"

definition sleep_async :: "sleep_arg \<Rightarrow> 'f timers \<Rightarrow> unit js_result \<times> 'f timers" where
  "sleep_async arg s =
     (case parse_sleep_delay arg of
        Inl e \<Rightarrow> (Inl e, s)
      | Inr delay \<Rightarrow> (Inr (), snd (register_timer None False delay s)))"

definition clear_timer :: "u32 option \<Rightarrow> 'f timers \<Rightarrow> 'f timers" where
  "clear_timer i s = (case i of Some i \<Rightarrow> cancel_timer i s | None \<Rightarrow> s)"

section \<open>The task of a timer\<close>

text \<open>
  The delay has passed: hand a tick over, unless one is still pending. The send fails once the receiver is gone,
  and the flag is then lowered again.
\<close>

definition task_elapsed :: "nat \<Rightarrow> timer_task \<Rightarrow> 'f timers \<Rightarrow> 'f timers" where
  "task_elapsed n t s =
     (if tt_sleep t then s\<lparr>tm_tasks := (tm_tasks s)(n \<mapsto> t\<lparr>tt_pc := T_Stopped\<rparr>)\<rparr>
      else if tt_pending t \<or> \<not> tm_open s then
        s\<lparr>tm_tasks := (tm_tasks s)(n \<mapsto> t\<lparr>tt_pc := if tt_repeat t then T_Sleeping else T_Stopped\<rparr>)\<rparr>
      else
        s\<lparr>tm_tasks := (tm_tasks s)(n \<mapsto>
            t\<lparr>tt_pending := True, tt_pc := if tt_repeat t then T_Waiting else T_Queued\<rparr>),
          tm_queue := tm_queue s @ [n]\<rparr>)"

definition task_resume :: "nat \<Rightarrow> timer_task \<Rightarrow> 'f timers \<Rightarrow> 'f timers" where
  "task_resume n t s = s\<lparr>tm_tasks := (tm_tasks s)(n \<mapsto> t\<lparr>tt_pc := T_Sleeping\<rparr>)\<rparr>"

text \<open>A one-shot timer without a delay does not look at its cancellation: the receiver drops its tick.\<close>

definition watches_cancel :: "timer_task \<Rightarrow> bool" where
  "watches_cancel t \<longleftrightarrow> tt_repeat t \<or> tt_sleep t \<or> 0 < tt_delay t"

definition task_cancelled :: "nat \<Rightarrow> timer_task \<Rightarrow> 'f timers \<Rightarrow> 'f timers" where
  "task_cancelled n t s = s\<lparr>tm_tasks := (tm_tasks s)(n \<mapsto> t\<lparr>tt_pc := T_Stopped\<rparr>)\<rparr>"

text \<open>The end of the task: a queued one-shot disarms its registration, everything else unregisters.\<close>

definition registration_end :: "nat \<Rightarrow> timer_task \<Rightarrow> 'f timers \<Rightarrow> 'f timers" where
  "registration_end n t s =
     (let s = (if tt_pc t = T_Queued then s else cancel_timer (timer_id n) s) in
      case tm_tasks s n of
        None \<Rightarrow> s
      | Some t \<Rightarrow> s\<lparr>tm_tasks := (tm_tasks s)(n \<mapsto> t\<lparr>tt_pc := T_Gone\<rparr>)\<rparr>)"

section \<open>The receiver\<close>

definition clear_pending :: "nat \<Rightarrow> 'f timers \<Rightarrow> 'f timers" where
  "clear_pending n s =
     (case tm_tasks s n of
        None \<Rightarrow> s
      | Some t \<Rightarrow> s\<lparr>tm_tasks := (tm_tasks s)(n \<mapsto> t\<lparr>tt_pending := False\<rparr>)\<rparr>)"

text \<open>Take the next tick: look its entry up, remove it if it fires once, and start its callback.\<close>

definition receive_tick :: "nat \<Rightarrow> nat list \<Rightarrow> 'f timers \<Rightarrow> 'f timers" where
  "receive_tick n q s =
     (let s = s\<lparr>tm_queue := q\<rparr>; i = timer_id n in
      case tm_timers s i of
        None \<Rightarrow> clear_pending n s
      | Some e \<Rightarrow>
          (let s = (if \<not> te_repeat e then s\<lparr>tm_timers := (tm_timers s)(i := None)\<rparr> else s) in
           case te_callback e of
             None \<Rightarrow> clear_pending n s
           | Some f \<Rightarrow> s\<lparr>tm_receiver := R_Calling n i (te_repeat e), tm_calls := tm_calls s @ [te_timer e]\<rparr>))"

text \<open>The callback has returned; an interval whose callback threw is cancelled. Then the queued jobs run.\<close>

definition callback_returned :: "bool \<Rightarrow> 'f timers \<Rightarrow> 'f timers" where
  "callback_returned threw s =
     (case tm_receiver s of
        R_Calling n i repeat \<Rightarrow> (if threw \<and> repeat then cancel_timer i s else s)\<lparr>tm_receiver := R_Jobs n\<rparr>
      | _ \<Rightarrow> s)"

definition finish_tick :: "'f timers \<Rightarrow> 'f timers" where
  "finish_tick s =
     (case tm_receiver s of
        R_Jobs n \<Rightarrow> clear_pending n (s\<lparr>tm_receiver := R_Idle\<rparr>)
      | _ \<Rightarrow> s)"

text \<open>The context drops the receiver's task, between two ticks; the ticks still queued are lost.\<close>

definition drop_receiver :: "'f timers \<Rightarrow> 'f timers" where
  "drop_receiver s = s\<lparr>tm_open := False, tm_queue := []\<rparr>"

section \<open>Transitions\<close>

inductive timer_step :: "'f timers \<Rightarrow> 'f timers \<Rightarrow> bool" where
  set_timer: "timer_step s (snd (set_timeout_with_repeat f delay repeat s))"
| sleep: "timer_step s (snd (sleep_async arg s))"
| clear: "timer_step s (clear_timer i s)"
| shutdown: "timer_step s (tm_shutdown s)"
| elapsed: "tm_tasks s n = Some t \<Longrightarrow> tt_pc t = T_Sleeping \<Longrightarrow> timer_step s (task_elapsed n t s)"
| resumed: "tm_tasks s n = Some t \<Longrightarrow> tt_pc t = T_Waiting \<Longrightarrow> \<not> tt_pending t \<Longrightarrow> timer_step s (task_resume n t s)"
| cancelled: "tm_tasks s n = Some t \<Longrightarrow> tt_pc t \<in> {T_Sleeping, T_Waiting} \<Longrightarrow> watches_cancel t \<Longrightarrow>
    tt_cancelled t \<Longrightarrow> timer_step s (task_cancelled n t s)"
| ended: "tm_tasks s n = Some t \<Longrightarrow> tt_pc t \<in> {T_Queued, T_Stopped} \<Longrightarrow> timer_step s (registration_end n t s)"
| receive: "tm_open s \<Longrightarrow> tm_receiver s = R_Idle \<Longrightarrow> tm_queue s = n # q \<Longrightarrow> timer_step s (receive_tick n q s)"
| returned: "tm_receiver s = R_Calling n i repeat \<Longrightarrow> timer_step s (callback_returned threw s)"
| finished: "tm_receiver s = R_Jobs n \<Longrightarrow> timer_step s (finish_tick s)"
| dropped: "tm_receiver s = R_Idle \<Longrightarrow> timer_step s (drop_receiver s)"

inductive timer_reachable :: "'f timers \<Rightarrow> bool" where
  start: "timer_reachable tm_init"
| step: "timer_reachable s \<Longrightarrow> timer_step s s' \<Longrightarrow> timer_reachable s'"

section \<open>Invariant\<close>

definition has_entry :: "nat \<Rightarrow> 'f timers \<Rightarrow> bool" where
  "has_entry n s \<longleftrightarrow> (\<exists>e. tm_timers s (timer_id n) = Some e \<and> te_timer e = n)"

text \<open>The ticks that have been handed over and not finished: the one being served and those queued.\<close>

definition serving :: "receiver_pc \<Rightarrow> nat list" where
  "serving r = (case r of R_Idle \<Rightarrow> [] | R_Calling n i repeat \<Rightarrow> [n] | R_Jobs n \<Rightarrow> [n])"

definition outstanding :: "'f timers \<Rightarrow> nat list" where
  "outstanding s = serving (tm_receiver s) @ tm_queue s"

definition entries_ok :: "'f timers \<Rightarrow> bool" where
  "entries_ok s \<longleftrightarrow>
     (\<forall>n. tm_tasks s n = None \<longleftrightarrow> tm_next s \<le> n) \<and>
     (\<forall>i e. tm_timers s i = Some e \<longrightarrow>
        i = timer_id (te_timer e) \<and>
        (\<exists>t. tm_tasks s (te_timer e) = Some t \<and> te_repeat e = tt_repeat t \<and> (te_callback e = None \<longleftrightarrow> tt_sleep t)))"

definition ticks_ok :: "'f timers \<Rightarrow> bool" where
  "ticks_ok s \<longleftrightarrow>
     distinct (outstanding s) \<and>
     (\<forall>n \<in> set (outstanding s). \<exists>t. tm_tasks s n = Some t \<and> tt_pending t \<and> \<not> tt_sleep t) \<and>
     (\<forall>n t. tm_tasks s n = Some t \<longrightarrow> tt_pending t \<longrightarrow> tt_pc t \<noteq> T_Sleeping)"

definition calls_ok :: "'f timers \<Rightarrow> bool" where
  "calls_ok s \<longleftrightarrow>
     (\<forall>n \<in> set (tm_calls s). tm_tasks s n \<noteq> None) \<and>
     (\<forall>n t. tm_tasks s n = Some t \<longrightarrow> \<not> tt_repeat t \<longrightarrow>
        count_list (tm_calls s) n \<le> 1 \<and> (has_entry n s \<longrightarrow> n \<notin> set (tm_calls s)))"

definition tm_inv :: "'f timers \<Rightarrow> bool" where
  "tm_inv s \<longleftrightarrow> entries_ok s \<and> ticks_ok s \<and> calls_ok s"

lemma tm_inv_init: "tm_inv tm_init"
  by (simp add: tm_inv_def tm_init_def entries_ok_def ticks_ok_def calls_ok_def outstanding_def serving_def)

lemma entries_okD:
  assumes "entries_ok s" "tm_timers s i = Some e"
  obtains t where "i = timer_id (te_timer e)" "tm_tasks s (te_timer e) = Some t" "te_repeat e = tt_repeat t"
    "te_callback e = None \<longleftrightarrow> tt_sleep t"
  using assms unfolding entries_ok_def by blast

lemma entry_has_entry: "entries_ok s \<Longrightarrow> tm_timers s i = Some e \<Longrightarrow> has_entry (te_timer e) s"
  by (auto simp: has_entry_def elim: entries_okD)

text \<open>What every step except a registration and a call does: entries go, tasks keep their kind.\<close>

definition same_kind :: "timer_task \<Rightarrow> timer_task \<Rightarrow> bool" where
  "same_kind t u \<longleftrightarrow> tt_repeat u = tt_repeat t \<and> tt_sleep u = tt_sleep t"

definition evolves :: "'f timers \<Rightarrow> 'f timers \<Rightarrow> bool" where
  "evolves s s' \<longleftrightarrow>
     tm_next s' = tm_next s \<and> (\<forall>i e. tm_timers s' i = Some e \<longrightarrow> tm_timers s i = Some e) \<and>
     (\<forall>n. rel_option same_kind (tm_tasks s n) (tm_tasks s' n))"

lemma same_kind_refl [simp]: "same_kind t t"
  by (simp add: same_kind_def)

lemma evolves_None: "evolves s s' \<Longrightarrow> tm_tasks s' n = None \<longleftrightarrow> tm_tasks s n = None"
  unfolding evolves_def by (metis option.rel_distinct not_None_eq)

lemma evolves_fwd:
  assumes "evolves s s'" "tm_tasks s n = Some t"
  obtains u where "tm_tasks s' n = Some u" "same_kind t u"
  using assms unfolding evolves_def by (metis option_rel_Some1)

lemma evolves_bwd:
  assumes "evolves s s'" "tm_tasks s' n = Some u"
  obtains t where "tm_tasks s n = Some t" "same_kind t u"
  using assms unfolding evolves_def by (metis option_rel_Some2)

lemma evolves_has_entry: "evolves s s' \<Longrightarrow> has_entry n s' \<Longrightarrow> has_entry n s"
  by (auto simp: evolves_def has_entry_def)

lemma evolves_trans:
  assumes "evolves s s'" "evolves s' s''" shows "evolves s s''"
proof -
  have "rel_option same_kind (tm_tasks s n) (tm_tasks s'' n)" for n
    using assms [unfolded evolves_def]
    by (cases "tm_tasks s n"; cases "tm_tasks s' n"; cases "tm_tasks s'' n") (auto simp: same_kind_def dest!: spec [of _ n])
  then show ?thesis using assms by (simp add: evolves_def)
qed

lemma entries_ok_evolves:
  assumes ok: "entries_ok s" and ev: "evolves s s'"
  shows "entries_ok s'"
  unfolding entries_ok_def
proof (intro conjI allI impI)
  fix n show "tm_tasks s' n = None \<longleftrightarrow> tm_next s' \<le> n"
    using ok ev evolves_None [OF ev] by (simp add: entries_ok_def evolves_def)
next
  fix i e assume "tm_timers s' i = Some e"
  then have e: "tm_timers s i = Some e" using ev by (simp add: evolves_def)
  obtain t where t: "i = timer_id (te_timer e)" "tm_tasks s (te_timer e) = Some t" "te_repeat e = tt_repeat t"
    "te_callback e = None \<longleftrightarrow> tt_sleep t" using entries_okD [OF ok e] .
  show "i = timer_id (te_timer e)" by (rule t(1))
  obtain u where "tm_tasks s' (te_timer e) = Some u" "same_kind t u" using evolves_fwd [OF ev t(2)] .
  then show "\<exists>t. tm_tasks s' (te_timer e) = Some t \<and> te_repeat e = tt_repeat t \<and> (te_callback e = None \<longleftrightarrow> tt_sleep t)"
    using t(3,4) by (simp add: same_kind_def)
qed

lemma calls_ok_evolves:
  assumes ok: "calls_ok s" and ev: "evolves s s'" and calls: "tm_calls s' = tm_calls s"
  shows "calls_ok s'"
  unfolding calls_ok_def calls
proof (intro conjI allI impI ballI)
  fix n assume "n \<in> set (tm_calls s)"
  then show "tm_tasks s' n \<noteq> None" using ok evolves_None [OF ev] by (simp add: calls_ok_def)
next
  fix n u assume u: "tm_tasks s' n = Some u" "\<not> tt_repeat u"
  obtain t where t: "tm_tasks s n = Some t" "same_kind t u" using evolves_bwd [OF ev u(1)] .
  then have "\<not> tt_repeat t" using u(2) by (simp add: same_kind_def)
  then show "count_list (tm_calls s) n \<le> 1" using ok t(1) by (simp add: calls_ok_def)
  assume "has_entry n s'"
  from evolves_has_entry [OF ev this] show "n \<notin> set (tm_calls s)"
    using ok t(1) \<open>\<not> tt_repeat t\<close> by (simp add: calls_ok_def)
qed

subsection \<open>Cancelling\<close>

text \<open>Cancelling the timers \<open>C\<close>, in whatever way: entries go, the flags are raised, and nothing else changes.\<close>

definition cancels :: "nat set \<Rightarrow> 'f timers \<Rightarrow> 'f timers \<Rightarrow> bool" where
  "cancels C s s' \<longleftrightarrow>
     tm_next s' = tm_next s \<and> tm_open s' = tm_open s \<and> tm_queue s' = tm_queue s \<and>
     tm_receiver s' = tm_receiver s \<and> tm_calls s' = tm_calls s \<and>
     (\<forall>i e. tm_timers s' i = Some e \<longleftrightarrow> tm_timers s i = Some e \<and> te_timer e \<notin> C) \<and>
     (\<forall>n. tm_tasks s' n = map_option (\<lambda>t. t\<lparr>tt_cancelled := tt_cancelled t \<or> n \<in> C\<rparr>) (tm_tasks s n))"

definition cancelled_by :: "u32 \<Rightarrow> 'f timers \<Rightarrow> nat set" where
  "cancelled_by i s = (case tm_timers s i of None \<Rightarrow> {} | Some e \<Rightarrow> {te_timer e})"

lemma task_flag_id [simp]: "(t::timer_task)\<lparr>tt_cancelled := tt_cancelled t\<rparr> = t"
  by simp

lemma cancels_refl: "cancels {} s s"
  by (simp add: cancels_def option.map_ident)

lemma cancels_cancel_timer:
  assumes ok: "entries_ok s" shows "cancels (cancelled_by i s) s (cancel_timer i s)"
proof (cases "tm_timers s i")
  case None
  then show ?thesis by (simp add: cancel_timer_def cancelled_by_def cancels_refl)
next
  case (Some e)
  obtain t where t: "tm_tasks s (te_timer e) = Some t" and i: "i = timer_id (te_timer e)"
    using entries_okD [OF ok Some] .
  have eq: "cancel_timer i s = s\<lparr>tm_timers := (tm_timers s)(i := None),
      tm_tasks := (tm_tasks s)(te_timer e \<mapsto> t\<lparr>tt_cancelled := True\<rparr>)\<rparr>"
    using Some t by (simp add: cancel_timer_def set_cancelled_def)
  have C: "cancelled_by i s = {te_timer e}" using Some by (simp add: cancelled_by_def)
  have "((tm_timers s)(i := None)) j = Some e' \<longleftrightarrow> tm_timers s j = Some e' \<and> te_timer e' \<noteq> te_timer e" for j e'
  proof (cases "j = i")
    case False
    have "te_timer e' \<noteq> te_timer e" if "tm_timers s j = Some e'"
      using entries_okD [OF ok that] False i by metis
    with False show ?thesis by auto
  qed (use Some in auto)
  moreover have "((tm_tasks s)(te_timer e \<mapsto> t\<lparr>tt_cancelled := True\<rparr>)) n =
      map_option (\<lambda>t. t\<lparr>tt_cancelled := tt_cancelled t \<or> n = te_timer e\<rparr>) (tm_tasks s n)" for n
    using t by (simp add: option.map_ident)
  ultimately show ?thesis by (simp add: cancels_def eq C)
qed

lemma cancels_shutdown: "cancels {n. \<exists>e \<in> ran (tm_timers s). te_timer e = n} s (tm_shutdown s)"
proof -
  have "(\<lambda>t::timer_task. if b then t\<lparr>tt_cancelled := True\<rparr> else t) = (\<lambda>t. t\<lparr>tt_cancelled := tt_cancelled t \<or> b\<rparr>)" for b
    by (rule ext) simp
  then have "tm_tasks (tm_shutdown s) n = map_option (\<lambda>t. t\<lparr>tt_cancelled := tt_cancelled t \<or>
      n \<in> {n. \<exists>e \<in> ran (tm_timers s). te_timer e = n}\<rparr>) (tm_tasks s n)" for n
    by (simp add: tm_shutdown_def)
  then show ?thesis unfolding cancels_def by (auto simp: tm_shutdown_def ran_def)
qed

lemma evolves_cancels: "cancels C s s' \<Longrightarrow> evolves s s'"
  unfolding cancels_def evolves_def by (simp add: option.rel_map same_kind_def option.rel_refl)

lemma outstanding_cancels: "cancels C s s' \<Longrightarrow> outstanding s' = outstanding s"
  by (simp add: cancels_def outstanding_def)

lemma ticks_ok_cancels:
  assumes ok: "ticks_ok s" and c: "cancels C s s'" shows "ticks_ok s'"
proof -
  have tasks: "tm_tasks s' n = map_option (\<lambda>t. t\<lparr>tt_cancelled := tt_cancelled t \<or> n \<in> C\<rparr>) (tm_tasks s n)" for n
    using c by (simp add: cancels_def)
  show ?thesis
    unfolding ticks_ok_def outstanding_cancels [OF c]
  proof (intro conjI ballI allI impI)
    show "distinct (outstanding s)" using ok by (simp add: ticks_ok_def)
  next
    fix n assume "n \<in> set (outstanding s)"
    then obtain t where "tm_tasks s n = Some t" "tt_pending t" "\<not> tt_sleep t" using ok by (auto simp: ticks_ok_def)
    then show "\<exists>t. tm_tasks s' n = Some t \<and> tt_pending t \<and> \<not> tt_sleep t" by (simp add: tasks)
  next
    fix n u assume u: "tm_tasks s' n = Some u" "tt_pending u"
    then obtain t where "tm_tasks s n = Some t" "u = t\<lparr>tt_cancelled := tt_cancelled t \<or> n \<in> C\<rparr>"
      using tasks [of n] by auto
    then show "tt_pc u \<noteq> T_Sleeping" using ok u(2) by (simp add: ticks_ok_def)
  qed
qed

lemma tm_inv_cancels:
  assumes inv: "tm_inv s" and c: "cancels C s s'" shows "tm_inv s'"
proof -
  have "tm_calls s' = tm_calls s" using c by (simp add: cancels_def)
  then show ?thesis
    using inv entries_ok_evolves [OF _ evolves_cancels [OF c]] ticks_ok_cancels [OF _ c]
      calls_ok_evolves [OF _ evolves_cancels [OF c]] by (simp add: tm_inv_def)
qed

subsection \<open>One task\<close>

text \<open>The task of one timer, the queue and the receiver change; the registry and the calls do not.\<close>

lemma tm_inv_retask:
  assumes inv: "tm_inv s" and n: "tm_tasks s n = Some t" and kind: "same_kind t u"
    and frame: "tm_next s' = tm_next s" "tm_timers s' = tm_timers s" "tm_calls s' = tm_calls s"
    and tasks: "tm_tasks s' = (tm_tasks s)(n \<mapsto> u)"
    and out: "distinct (outstanding s')" "set (outstanding s') \<subseteq> insert n (set (outstanding s))"
    and pend: "n \<in> set (outstanding s') \<Longrightarrow> tt_pending u \<and> \<not> tt_sleep u" "tt_pending u \<Longrightarrow> tt_pc u \<noteq> T_Sleeping"
  shows "tm_inv s'"
proof -
  have "rel_option same_kind (tm_tasks s m) (tm_tasks s' m)" for m
    using n kind by (simp add: tasks option.rel_refl)
  then have ev: "evolves s s'" by (simp add: evolves_def frame)
  have "ticks_ok s'"
    unfolding ticks_ok_def
  proof (intro conjI ballI allI impI)
    show "distinct (outstanding s')" by (rule out(1))
  next
    fix m assume m: "m \<in> set (outstanding s')"
    show "\<exists>t. tm_tasks s' m = Some t \<and> tt_pending t \<and> \<not> tt_sleep t"
    proof (cases "m = n")
      case True
      then show ?thesis using pend(1) m by (simp add: tasks)
    next
      case False
      then show ?thesis using m out(2) inv by (auto simp: tasks tm_inv_def ticks_ok_def)
    qed
  next
    fix m v assume "tm_tasks s' m = Some v" "tt_pending v"
    then show "tt_pc v \<noteq> T_Sleeping"
      using pend(2) inv by (cases "m = n") (simp_all add: tasks tm_inv_def ticks_ok_def)
  qed
  then show ?thesis
    using inv entries_ok_evolves [OF _ ev] calls_ok_evolves [OF _ ev frame(3)] by (simp add: tm_inv_def)
qed

lemma pending_not_sleeping: "tm_inv s \<Longrightarrow> tm_tasks s n = Some t \<Longrightarrow> tt_pc t = T_Sleeping \<Longrightarrow> \<not> tt_pending t"
  by (auto simp: tm_inv_def ticks_ok_def)

lemma outstanding_pending:
  assumes "tm_inv s" "n \<in> set (outstanding s)" "tm_tasks s n = Some t" shows "tt_pending t \<and> \<not> tt_sleep t"
  using assms by (force simp: tm_inv_def ticks_ok_def)

lemma tm_inv_outstanding: "tm_inv s \<Longrightarrow> distinct (outstanding s)"
  by (simp add: tm_inv_def ticks_ok_def)

lemma tm_inv_elapsed:
  assumes inv: "tm_inv s" and n: "tm_tasks s n = Some t" "tt_pc t = T_Sleeping"
  shows "tm_inv (task_elapsed n t s)"
proof -
  have p: "\<not> tt_pending t" using pending_not_sleeping [OF inv n] .
  have no: "n \<notin> set (outstanding s)" using outstanding_pending [OF inv _ n(1)] p by blast
  note d = tm_inv_outstanding [OF inv]
  consider "tt_sleep t" | "\<not> tt_sleep t" "\<not> tm_open s" | "\<not> tt_sleep t" "tm_open s" by blast
  then show ?thesis
  proof cases
    case 1
    show ?thesis
      by (rule tm_inv_retask [OF inv n(1), of "t\<lparr>tt_pc := T_Stopped\<rparr>"])
        (use 1 p no d in \<open>simp_all add: task_elapsed_def same_kind_def outstanding_def subset_iff\<close>)
  next
    case 2
    show ?thesis
      by (rule tm_inv_retask [OF inv n(1), of "t\<lparr>tt_pc := if tt_repeat t then T_Sleeping else T_Stopped\<rparr>"])
        (use 2 p no d in \<open>simp_all add: task_elapsed_def same_kind_def outstanding_def subset_iff\<close>)
  next
    case 3
    show ?thesis
      by (rule tm_inv_retask [OF inv n(1),
            of "t\<lparr>tt_pending := True, tt_pc := if tt_repeat t then T_Waiting else T_Queued\<rparr>"])
        (use 3 p no d in \<open>simp_all add: task_elapsed_def same_kind_def outstanding_def subset_iff\<close>)
  qed
qed

lemma tm_inv_pc:
  assumes inv: "tm_inv s" and n: "tm_tasks s n = Some t" and pc: "pc = T_Sleeping \<Longrightarrow> \<not> tt_pending t"
  shows "tm_inv (s\<lparr>tm_tasks := (tm_tasks s)(n \<mapsto> t\<lparr>tt_pc := pc\<rparr>)\<rparr>)"
proof (rule tm_inv_retask [OF inv n, of "t\<lparr>tt_pc := pc\<rparr>"])
  let ?s = "s\<lparr>tm_tasks := (tm_tasks s)(n \<mapsto> t\<lparr>tt_pc := pc\<rparr>)\<rparr>"
  have out: "outstanding ?s = outstanding s" by (simp add: outstanding_def)
  show "distinct (outstanding ?s)" by (simp only: out tm_inv_outstanding [OF inv])
  show "set (outstanding ?s) \<subseteq> insert n (set (outstanding s))" unfolding out by blast
  show "n \<in> set (outstanding ?s) \<Longrightarrow> tt_pending (t\<lparr>tt_pc := pc\<rparr>) \<and> \<not> tt_sleep (t\<lparr>tt_pc := pc\<rparr>)"
    using outstanding_pending [OF inv _ n] unfolding out by simp
qed (use pc in \<open>auto simp: same_kind_def\<close>)

lemma tm_inv_ended:
  assumes inv: "tm_inv s" shows "tm_inv (registration_end n t s)"
proof -
  define s1 where "s1 = (if tt_pc t = T_Queued then s else cancel_timer (timer_id n) s)"
  have "tm_inv s1"
    using inv tm_inv_cancels [OF inv cancels_cancel_timer] by (simp add: s1_def tm_inv_def)
  moreover have "registration_end n t s = (case tm_tasks s1 n of None \<Rightarrow> s1
      | Some t \<Rightarrow> s1\<lparr>tm_tasks := (tm_tasks s1)(n \<mapsto> t\<lparr>tt_pc := T_Gone\<rparr>)\<rparr>)"
    unfolding registration_end_def s1_def Let_def by (rule refl)
  ultimately show ?thesis
    using tm_inv_pc [of s1 n _ T_Gone] by (cases "tm_tasks s1 n") simp_all
qed

subsection \<open>Registering\<close>

lemma tm_inv_register:
  assumes inv: "tm_inv s" shows "tm_inv (snd (register_timer f repeat delay s))"
proof -
  define s' where "s' = snd (register_timer f repeat delay s)"
  define n where "n = tm_next s"
  have fresh: "tm_tasks s n = None" using inv by (simp add: n_def tm_inv_def entries_ok_def)
  define e where "e = \<lparr>te_timer = n, te_callback = f, te_repeat = repeat\<rparr>"
  define t where "t = \<lparr>tt_repeat = repeat, tt_sleep = (f = None), tt_delay = delay, tt_cancelled = False,
    tt_pending = False, tt_pc = T_Sleeping\<rparr>"
  have e: "te_timer e = n" "te_repeat e = tt_repeat t" "te_callback e = None \<longleftrightarrow> tt_sleep t" "\<not> tt_pending t"
    by (simp_all add: e_def t_def)
  have s': "tm_next s' = Suc n" "tm_timers s' = (tm_timers s)(timer_id n \<mapsto> e)"
        "tm_tasks s' = (tm_tasks s)(n \<mapsto> t)" "tm_calls s' = tm_calls s" "outstanding s' = outstanding s"
    by (simp_all add: s'_def register_timer_def Let_def n_def outstanding_def e_def t_def)
  have "entries_ok s'"
    unfolding entries_ok_def
  proof (intro conjI allI impI)
    fix m show "tm_tasks s' m = None \<longleftrightarrow> tm_next s' \<le> m"
      using inv by (auto simp: s' tm_inv_def entries_ok_def n_def)
  next
    fix i e' assume i: "tm_timers s' i = Some e'"
    have "i = timer_id (te_timer e') \<and> (\<exists>u. tm_tasks s' (te_timer e') = Some u \<and> te_repeat e' = tt_repeat u \<and>
        (te_callback e' = None \<longleftrightarrow> tt_sleep u))"
    proof (cases "i = timer_id n")
      case True
      then show ?thesis using i e by (simp add: s')
    next
      case False
      then have "tm_timers s i = Some e'" using i by (simp add: s')
      with inv obtain u where "i = timer_id (te_timer e')" "tm_tasks s (te_timer e') = Some u"
        "te_repeat e' = tt_repeat u" "te_callback e' = None \<longleftrightarrow> tt_sleep u"
        unfolding tm_inv_def by (elim conjE entries_okD)
      then show ?thesis using False by (auto simp: s')
    qed
    then show "i = timer_id (te_timer e')" "\<exists>u. tm_tasks s' (te_timer e') = Some u \<and> te_repeat e' = tt_repeat u \<and>
        (te_callback e' = None \<longleftrightarrow> tt_sleep u)" by blast+
  qed
  moreover have "ticks_ok s'"
    using inv fresh e(4) unfolding tm_inv_def ticks_ok_def s' by (metis fun_upd_apply option.distinct(1) option.inject)
  moreover have "has_entry m s' \<Longrightarrow> m \<noteq> n \<Longrightarrow> has_entry m s" for m
    using e(1) by (auto simp: has_entry_def s' split: if_splits)
  then have "calls_ok s'"
    using inv fresh unfolding tm_inv_def calls_ok_def s'
    by (metis count_list_0_iff fun_upd_apply less_eq_nat.simps(1) not_None_eq)
  ultimately show ?thesis by (simp add: tm_inv_def s'_def)
qed

subsection \<open>The receiver's steps\<close>

lemma tm_inv_clear_pending:
  assumes inv: "tm_inv s" and no: "n \<notin> set (outstanding s)" shows "tm_inv (clear_pending n s)"
proof (cases "tm_tasks s n")
  case None
  then show ?thesis using inv by (simp add: clear_pending_def)
next
  case (Some t)
  let ?s = "s\<lparr>tm_tasks := (tm_tasks s)(n \<mapsto> t\<lparr>tt_pending := False\<rparr>)\<rparr>"
  have out: "outstanding ?s = outstanding s" by (simp add: outstanding_def)
  have "tm_inv ?s"
    by (rule tm_inv_retask [OF inv Some, of "t\<lparr>tt_pending := False\<rparr>"], unfold out)
      (use no tm_inv_outstanding [OF inv] in \<open>auto simp: same_kind_def\<close>)
  then show ?thesis using Some by (simp add: clear_pending_def)
qed

text \<open>Entries are removed and ticks taken off the queue, or the receiver moves on within its tick.\<close>

lemma tm_inv_take:
  assumes inv: "tm_inv s"
    and frame: "tm_next s' = tm_next s" "tm_tasks s' = tm_tasks s" "tm_calls s' = tm_calls s"
      "\<And>i e. tm_timers s' i = Some e \<Longrightarrow> tm_timers s i = Some e"
    and out: "distinct (outstanding s')" "set (outstanding s') \<subseteq> set (outstanding s)"
  shows "tm_inv s'"
proof -
  have ev: "evolves s s'" using frame(4) by (simp add: evolves_def frame(1,2) option.rel_refl)
  have "ticks_ok s'" using inv out unfolding tm_inv_def ticks_ok_def frame(2) by blast
  then show ?thesis
    using inv entries_ok_evolves [OF _ ev] calls_ok_evolves [OF _ ev frame(3)] by (simp add: tm_inv_def)
qed

lemma tm_inv_finish:
  assumes inv: "tm_inv s" and r: "tm_receiver s = R_Jobs n" shows "tm_inv (finish_tick s)"
proof -
  have out: "outstanding s = n # outstanding (s\<lparr>tm_receiver := R_Idle\<rparr>)"
    using r by (simp add: outstanding_def serving_def)
  have "tm_inv (s\<lparr>tm_receiver := R_Idle\<rparr>)"
    by (rule tm_inv_take [OF inv]) (use tm_inv_outstanding [OF inv] in \<open>auto simp: out\<close>)
  then show ?thesis
    using r tm_inv_outstanding [OF inv] by (simp add: finish_tick_def out tm_inv_clear_pending)
qed

lemma tm_inv_drop:
  assumes inv: "tm_inv s" and r: "tm_receiver s = R_Idle" shows "tm_inv (drop_receiver s)"
  by (rule tm_inv_take [OF inv]) (simp_all add: drop_receiver_def outstanding_def serving_def r)

lemma tm_inv_returned:
  assumes inv: "tm_inv s" and r: "tm_receiver s = R_Calling n i repeat" shows "tm_inv (callback_returned threw s)"
proof -
  define s1 where "s1 = (if threw \<and> repeat then cancel_timer i s else s)"
  have s1: "tm_inv s1"
    using inv tm_inv_cancels [OF inv cancels_cancel_timer] by (simp add: s1_def tm_inv_def)
  have "cancels (if threw \<and> repeat then cancelled_by i s else {}) s s1"
    using inv by (simp add: s1_def tm_inv_def cancels_cancel_timer cancels_refl)
  then have r1: "tm_receiver s1 = R_Calling n i repeat" using r by (simp add: cancels_def)
  then have out: "outstanding (s1\<lparr>tm_receiver := R_Jobs n\<rparr>) = outstanding s1" by (simp add: outstanding_def serving_def)
  have "tm_inv (s1\<lparr>tm_receiver := R_Jobs n\<rparr>)"
    by (rule tm_inv_take [OF s1], unfold out) (simp_all add: tm_inv_outstanding [OF s1])
  then show ?thesis using r by (simp add: callback_returned_def s1_def)
qed

text \<open>The call itself: the entry of a one-shot timer is gone before its callback runs.\<close>

lemma tm_inv_call:
  assumes inv: "tm_inv s" and e: "tm_timers s i = Some e" and gone: "\<not> te_repeat e \<Longrightarrow> tm_timers s' i = None"
    and ev: "evolves s s'" and out: "outstanding s' = outstanding s" "tm_tasks s' = tm_tasks s"
    and calls: "tm_calls s' = tm_calls s @ [te_timer e]"
  shows "tm_inv s'"
proof -
  obtain t where t: "i = timer_id (te_timer e)" "tm_tasks s (te_timer e) = Some t" "te_repeat e = tt_repeat t"
    using inv e unfolding tm_inv_def by (elim conjE entries_okD)
  have c: "calls_ok s" and h: "has_entry (te_timer e) s"
    using inv entry_has_entry [OF _ e] by (simp_all add: tm_inv_def)
  have "calls_ok s'"
    unfolding calls_ok_def
  proof (intro conjI ballI allI impI)
    fix n assume "n \<in> set (tm_calls s')"
    then show "tm_tasks s' n \<noteq> None" using c t(2) by (auto simp: calls calls_ok_def out(2))
  next
    fix n u assume u: "tm_tasks s' n = Some u" "\<not> tt_repeat u"
    then have n: "count_list (tm_calls s) n \<le> 1" "has_entry n s \<Longrightarrow> n \<notin> set (tm_calls s)"
      using c by (simp_all add: calls_ok_def out(2))
    show "count_list (tm_calls s') n \<le> 1"
      using n h by (auto simp: calls count_list_0_iff)
    assume h': "has_entry n s'"
    have "n \<noteq> te_timer e" using h' gone t u by (auto simp: has_entry_def out(2))
    then show "n \<notin> set (tm_calls s')" using n(2) evolves_has_entry [OF ev h'] by (simp add: calls)
  qed
  moreover have "ticks_ok s'" using inv by (simp add: tm_inv_def ticks_ok_def out)
  ultimately show ?thesis using inv entries_ok_evolves [OF _ ev] by (simp add: tm_inv_def)
qed

lemma tm_inv_receive:
  fixes s :: "'f timers"
  assumes inv: "tm_inv s" and r: "tm_receiver s = R_Idle" and q: "tm_queue s = n # q"
  shows "tm_inv (receive_tick n q s)"
proof -
  define i where "i = timer_id n"
  have out: "outstanding s = n # q" using r q by (simp add: outstanding_def serving_def)
  define drop where "drop = (\<lambda>e :: 'f timer_entry. if \<not> te_repeat e then (tm_timers s)(i := None) else tm_timers s)"
  define s1 where "s1 = (\<lambda>m. s\<lparr>tm_queue := q, tm_timers := m\<rparr>)"
  have sub: "drop e j = Some e' \<Longrightarrow> tm_timers s j = Some e'" for e j e' by (simp add: drop_def split: if_splits)
  have o1: "outstanding (s1 m) = q" for m using r by (simp add: s1_def outstanding_def serving_def)
  have s1: "tm_inv (clear_pending n (s1 m))" if "\<And>j e. m j = Some e \<Longrightarrow> tm_timers s j = Some e" for m
  proof (rule tm_inv_clear_pending)
    show "tm_inv (s1 m)"
      by (rule tm_inv_take [OF inv], unfold o1) (use that tm_inv_outstanding [OF inv] in \<open>auto simp: s1_def out\<close>)
    show "n \<notin> set (outstanding (s1 m))" using tm_inv_outstanding [OF inv] by (simp add: o1 out)
  qed
  show ?thesis
  proof (cases "tm_timers s i")
    case None
    then have "receive_tick n q s = clear_pending n (s1 (tm_timers s))"
      by (simp add: receive_tick_def i_def s1_def Let_def)
    then show ?thesis using s1 [of "tm_timers s"] by simp
  next
    case (Some e)
    show ?thesis
    proof (cases "te_callback e")
      case None
      then have "receive_tick n q s = clear_pending n (s1 (drop e))"
        using Some by (simp add: receive_tick_def i_def [symmetric] s1_def Let_def drop_def)
      then show ?thesis using s1 [of "drop e"] sub [of e] by simp
    next
      case cb: (Some f)
      let ?s = "s\<lparr>tm_queue := q, tm_timers := drop e, tm_receiver := R_Calling n i (te_repeat e),
        tm_calls := tm_calls s @ [te_timer e]\<rparr>"
      have eq: "receive_tick n q s = ?s"
        using Some cb by (simp add: receive_tick_def i_def [symmetric] Let_def drop_def)
      have "evolves s ?s" using sub [of e] by (simp add: evolves_def option.rel_refl)
      then show ?thesis
        unfolding eq by (rule tm_inv_call [OF inv Some, rotated])
          (simp_all add: drop_def out, simp add: outstanding_def serving_def)
    qed
  qed
qed

lemma tm_inv_step:
  assumes "timer_step s s'" "tm_inv s" shows "tm_inv s'"
  using assms
proof (induction rule: timer_step.induct)
  case (set_timer s f delay repeat)
  then show ?case by (simp add: set_timeout_with_repeat_def tm_inv_register)
next
  case (sleep s arg)
  then show ?case by (simp add: sleep_async_def tm_inv_register split: sum.split)
next
  case (clear s i)
  then show ?case
    using tm_inv_cancels [OF clear cancels_cancel_timer] by (cases i) (simp_all add: clear_timer_def tm_inv_def)
next
  case (shutdown s)
  then show ?case by (rule tm_inv_cancels [OF _ cancels_shutdown])
next
  case (resumed s n t)
  then show ?case unfolding task_resume_def by (intro tm_inv_pc) simp_all
next
  case (cancelled s n t)
  then show ?case unfolding task_cancelled_def by (intro tm_inv_pc) simp_all
qed (auto intro: tm_inv_elapsed tm_inv_ended tm_inv_receive tm_inv_returned tm_inv_finish tm_inv_drop)

lemma timer_reachable_inv: "timer_reachable s \<Longrightarrow> tm_inv s"
  by (induction rule: timer_reachable.induct) (auto intro: tm_inv_init tm_inv_step)

section \<open>A timer is not lost\<close>

text \<open>
  As long as the receiver runs and identifiers have not wrapped around, a timeout that nobody cancelled is
  asleep, or queued with its entry in place, or has been called.
\<close>

definition tick_safe :: "'f timers \<Rightarrow> nat \<Rightarrow> timer_task \<Rightarrow> bool" where
  "tick_safe s n t \<longleftrightarrow>
     tt_repeat t \<or> tt_sleep t \<or> tt_cancelled t \<or> tt_pc t = T_Sleeping \<and> has_entry n s \<or>
     tt_pc t \<in> {T_Queued, T_Gone} \<and> (n \<in> set (tm_queue s) \<and> has_entry n s \<or> n \<in> set (tm_calls s))"

definition fired_ok :: "'f timers \<Rightarrow> bool" where
  "fired_ok s \<longleftrightarrow> (\<forall>n t. tm_tasks s n = Some t \<longrightarrow> tick_safe s n t)"

definition ids_fresh :: "'f timers \<Rightarrow> bool" where
  "ids_fresh s \<longleftrightarrow> tm_open s \<and> tm_next s \<le> 2 ^ 32"

lemma timer_id_inj: "m < 2 ^ 32 \<Longrightarrow> n < 2 ^ 32 \<Longrightarrow> timer_id m = timer_id n \<Longrightarrow> m = n"
  by (drule arg_cong [of _ _ unat]) (simp add: timer_id_def unat_of_nat)

lemma tick_safe_mono:
  assumes "tick_safe s n t" "same_kind t u" "tt_pc u = tt_pc t" "tt_cancelled t \<Longrightarrow> tt_cancelled u"
    "has_entry n s \<Longrightarrow> \<not> tt_cancelled u \<Longrightarrow> has_entry n s'" "set (tm_queue s) \<subseteq> set (tm_queue s')"
    "set (tm_calls s) \<subseteq> set (tm_calls s')"
  shows "tick_safe s' n u"
  using assms unfolding tick_safe_def same_kind_def by (cases "tt_cancelled u") auto

lemma has_entry_same: "tm_timers s' = tm_timers s \<Longrightarrow> has_entry n s' = has_entry n s"
  by (simp add: has_entry_def)

lemma fired_ok_retask:
  assumes ok: "fired_ok s" and tasks: "tm_tasks s' = (tm_tasks s)(n \<mapsto> u)" and u: "tick_safe s' n u"
    and frame: "tm_timers s' = tm_timers s" "set (tm_queue s) \<subseteq> set (tm_queue s')" "tm_calls s' = tm_calls s"
  shows "fired_ok s'"
  unfolding fired_ok_def
proof (intro allI impI)
  fix m t assume t: "tm_tasks s' m = Some t"
  show "tick_safe s' m t"
  proof (cases "m = n")
    case True
    then show ?thesis using t u by (simp add: tasks)
  next
    case False
    then have "tick_safe s m t" using t ok by (simp add: tasks fired_ok_def)
    then show ?thesis by (rule tick_safe_mono) (use frame has_entry_same [OF frame(1)] in simp_all)
  qed
qed

lemma fired_ok_cancels:
  assumes ok: "fired_ok s" and c: "cancels C s s'" shows "fired_ok s'"
  unfolding fired_ok_def
proof (intro allI impI)
  fix n u assume "tm_tasks s' n = Some u"
  then obtain t where t: "tm_tasks s n = Some t" "u = t\<lparr>tt_cancelled := tt_cancelled t \<or> n \<in> C\<rparr>"
    using c by (auto simp: cancels_def)
  have "tick_safe s n t" using ok t(1) by (simp add: fired_ok_def)
  then show "tick_safe s' n u"
  proof (rule tick_safe_mono)
    assume "has_entry n s" "\<not> tt_cancelled u"
    then show "has_entry n s'" using c t(2) by (auto simp: cancels_def has_entry_def)
  qed (use c t(2) in \<open>simp_all add: cancels_def same_kind_def\<close>)
qed

lemma fired_ok_register:
  assumes inv: "tm_inv s" and ok: "fired_ok s" and fresh: "tm_next s < 2 ^ 32"
  shows "fired_ok (snd (register_timer f repeat delay s))"
  unfolding fired_ok_def
proof (intro allI impI)
  let ?s = "snd (register_timer f repeat delay s)"
  fix n t assume n: "tm_tasks ?s n = Some t"
  show "tick_safe ?s n t"
  proof (cases "n = tm_next s")
    case True
    then show ?thesis using n by (auto simp: register_timer_def Let_def tick_safe_def has_entry_def)
  next
    case False
    then have t: "tm_tasks s n = Some t" using n by (simp add: register_timer_def Let_def)
    then have "tick_safe s n t" using ok by (simp add: fired_ok_def)
    then show ?thesis
    proof (rule tick_safe_mono)
      assume h: "has_entry n s"
      have "n < tm_next s" using t inv unfolding tm_inv_def entries_ok_def by (metis not_le option.distinct(1))
      then have "timer_id n \<noteq> timer_id (tm_next s)" using timer_id_inj [of n "tm_next s"] fresh False by auto
      then show "has_entry n ?s" using h by (simp add: has_entry_def register_timer_def Let_def)
    qed (simp_all add: register_timer_def Let_def)
  qed
qed

lemma fired_ok_elapsed:
  assumes inv: "tm_inv s" and ok: "fired_ok s" and n: "tm_tasks s n = Some t" "tt_pc t = T_Sleeping" and o: "tm_open s"
  shows "fired_ok (task_elapsed n t s)"
proof -
  have p: "\<not> tt_pending t" using pending_not_sleeping [OF inv n] .
  have safe: "tick_safe s n t" using ok n(1) by (simp add: fired_ok_def)
  show ?thesis
  proof (cases "tt_sleep t")
    case True
    show ?thesis
      by (rule fired_ok_retask [OF ok, of _ n "t\<lparr>tt_pc := T_Stopped\<rparr>"])
        (use True in \<open>simp_all add: task_elapsed_def tick_safe_def\<close>)
  next
    case False
    let ?u = "t\<lparr>tt_pending := True, tt_pc := if tt_repeat t then T_Waiting else T_Queued\<rparr>"
    have eq: "task_elapsed n t s = s\<lparr>tm_tasks := (tm_tasks s)(n \<mapsto> ?u), tm_queue := tm_queue s @ [n]\<rparr>"
      using False p o by (simp add: task_elapsed_def)
    show ?thesis
      unfolding eq by (rule fired_ok_retask [OF ok, of _ n ?u])
        (use safe n(2) in \<open>auto simp: tick_safe_def has_entry_def\<close>)
  qed
qed

lemma fired_ok_ended:
  assumes inv: "tm_inv s" and ok: "fired_ok s" and n: "tm_tasks s n = Some t" and pc: "tt_pc t \<in> {T_Queued, T_Stopped}"
  shows "fired_ok (registration_end n t s)"
proof -
  define C where "C = (if tt_pc t = T_Queued then {} else cancelled_by (timer_id n) s)"
  define s1 where "s1 = (if tt_pc t = T_Queued then s else cancel_timer (timer_id n) s)"
  have c: "cancels C s s1" using inv by (simp add: C_def s1_def cancels_refl cancels_cancel_timer tm_inv_def)
  have ok1: "fired_ok s1" by (rule fired_ok_cancels [OF ok c])
  define u where "u = t\<lparr>tt_cancelled := tt_cancelled t \<or> n \<in> C\<rparr>"
  have u: "tm_tasks s1 n = Some u" using c n by (simp add: cancels_def u_def)
  have eq: "registration_end n t s = s1\<lparr>tm_tasks := (tm_tasks s1)(n \<mapsto> u\<lparr>tt_pc := T_Gone\<rparr>)\<rparr>"
    using u unfolding registration_end_def s1_def [symmetric] Let_def by simp
  have "tick_safe s1 n u" using ok1 u by (simp add: fired_ok_def)
  then have "tick_safe (registration_end n t s) n (u\<lparr>tt_pc := T_Gone\<rparr>)"
    using pc unfolding eq by (auto simp: tick_safe_def has_entry_def u_def)
  then show ?thesis unfolding eq by (rule fired_ok_retask [OF ok1, rotated]) simp_all
qed

lemma fired_ok_clear_pending:
  assumes ok: "fired_ok s" shows "fired_ok (clear_pending n s)"
proof (cases "tm_tasks s n")
  case None
  then show ?thesis using ok by (simp add: clear_pending_def)
next
  case (Some t)
  then have "tick_safe s n t" using ok by (simp add: fired_ok_def)
  then have "tick_safe (clear_pending n s) n (t\<lparr>tt_pending := False\<rparr>)"
    using Some by (simp add: clear_pending_def tick_safe_def has_entry_def)
  then show ?thesis by (rule fired_ok_retask [OF ok, rotated]) (use Some in \<open>simp_all add: clear_pending_def\<close>)
qed

lemma timer_id_differs:
  assumes inv: "tm_inv s" and fresh: "ids_fresh s" and m: "tm_tasks s m \<noteq> None" and n: "tm_tasks s n \<noteq> None" and ne: "m \<noteq> n"
  shows "timer_id m \<noteq> timer_id n"
proof -
  have "m < tm_next s" "n < tm_next s" using inv m n by (auto simp: tm_inv_def entries_ok_def not_le)
  then show ?thesis using timer_id_inj [of m n] fresh ne by (auto simp: ids_fresh_def)
qed

text \<open>What the receiver does with a tick: for the timer itself, and for the others.\<close>

lemma receive_tick_calls:
  assumes inv: "tm_inv s" and n: "tm_tasks s n = Some t" "\<not> tt_sleep t" and h: "has_entry n s"
  shows "n \<in> set (tm_calls (receive_tick n q s))"
proof -
  obtain e where e: "tm_timers s (timer_id n) = Some e" "te_timer e = n" using h by (auto simp: has_entry_def)
  obtain f where "te_callback e = Some f"
    using inv e n unfolding tm_inv_def by (metis entries_okD option.exhaust option.inject)
  then show ?thesis using e by (simp add: receive_tick_def Let_def)
qed

lemma clear_pending_frame [simp]:
  "tm_timers (clear_pending n s) = tm_timers s" "tm_queue (clear_pending n s) = tm_queue s"
  "tm_calls (clear_pending n s) = tm_calls s" "tm_next (clear_pending n s) = tm_next s"
  "tm_open (clear_pending n s) = tm_open s"
  by (simp_all add: clear_pending_def split: option.split)

lemma receive_tick_frame:
  "tm_next (receive_tick n q s) = tm_next s" "tm_open (receive_tick n q s) = tm_open s"
  "tm_queue (receive_tick n q s) = q" "set (tm_calls s) \<subseteq> set (tm_calls (receive_tick n q s))"
  "i \<noteq> timer_id n \<Longrightarrow> tm_timers (receive_tick n q s) i = tm_timers s i"
  by (auto simp: receive_tick_def Let_def split: option.split)

lemma receive_tick_task:
  assumes "tm_tasks (receive_tick n q s) m = Some u"
  obtains b t where "tm_tasks s m = Some t" "u = t\<lparr>tt_pending := b\<rparr>"
proof -
  have "\<exists>t b. tm_tasks s m = Some t \<and> u = t\<lparr>tt_pending := b\<rparr>"
  proof -
    have same: "\<exists>b. u = u\<lparr>tt_pending := b\<rparr>" by (rule exI [of _ "tt_pending u"]) simp
    show ?thesis
      using assms same by (auto simp: receive_tick_def clear_pending_def Let_def split: option.splits if_splits)
  qed
  then show ?thesis using that by blast
qed

lemma fired_ok_receive:
  assumes inv: "tm_inv s" and ok: "fired_ok s" and fresh: "ids_fresh s" and q: "tm_queue s = n # q"
  shows "fired_ok (receive_tick n q s)"
  unfolding fired_ok_def
proof (intro allI impI)
  let ?s = "receive_tick n q s"
  fix m u assume "tm_tasks ?s m = Some u"
  then obtain b t where t: "tm_tasks s m = Some t" "u = t\<lparr>tt_pending := b\<rparr>" by (rule receive_tick_task)
  have safe: "tick_safe s m t" using ok t(1) by (simp add: fired_ok_def)
  obtain t' where t': "tm_tasks s n = Some t'" using inv q by (auto simp: tm_inv_def ticks_ok_def outstanding_def)
  show "tick_safe ?s m u"
  proof (cases "m = n")
    case True
    have np: "tt_pc t \<noteq> T_Sleeping"
      using inv q t(1) True by (auto simp: tm_inv_def ticks_ok_def outstanding_def)
    have "n \<in> set (tm_calls ?s)" if "\<not> tt_sleep t" "has_entry n s"
      using receive_tick_calls [OF inv _ that(1) that(2)] t(1) True by simp
    then show ?thesis
      using safe t(2) True np receive_tick_frame(4) [where n=n and q=q and s=s] unfolding tick_safe_def by auto
  next
    case False
    have id: "timer_id m \<noteq> timer_id n" by (rule timer_id_differs [OF inv fresh _ _ False]) (simp_all add: t(1) t')
    have "has_entry m ?s = has_entry m s" by (simp add: has_entry_def receive_tick_frame(5) [OF id])
    then show ?thesis
      using safe t(2) False q receive_tick_frame(3,4) [where n=n and q=q and s=s]
      unfolding tick_safe_def by auto
  qed
qed

text \<open>
  Every step evolves the state, or registers a timer, or calls the callback of an entry.
\<close>

definition calls_entry :: "'f timers \<Rightarrow> 'f timers \<Rightarrow> bool" where
  "calls_entry s s' \<longleftrightarrow> (\<exists>i e. tm_timers s i = Some e \<and> tm_calls s' = tm_calls s @ [te_timer e])"

definition registers :: "'f timers \<Rightarrow> 'f timers \<Rightarrow> bool" where
  "registers s s' \<longleftrightarrow> (\<exists>f repeat delay. s' = snd (register_timer f repeat delay s))"

lemma evolves_refl: "evolves s s"
  by (simp add: evolves_def option.rel_refl)

lemma evolves_retask:
  "tm_next s' = tm_next s \<Longrightarrow> tm_timers s' = tm_timers s \<Longrightarrow> tm_tasks s n = Some t \<Longrightarrow> tm_tasks s' = (tm_tasks s)(n \<mapsto> u) \<Longrightarrow>
   same_kind t u \<Longrightarrow> evolves s s'"
  by (simp add: evolves_def option.rel_refl)

lemma evolves_clear_pending: "evolves s (clear_pending n s)"
proof (cases "tm_tasks s n")
  case (Some t)
  show ?thesis
    by (rule evolves_retask [where n = n and t = t and u = "t\<lparr>tt_pending := False\<rparr>"])
      (use Some in \<open>simp_all add: clear_pending_def same_kind_def\<close>)
qed (simp add: clear_pending_def evolves_refl)

lemma evolves_shrink:
  "tm_next s' = tm_next s \<Longrightarrow> (\<And>i e. tm_timers s' i = Some e \<Longrightarrow> tm_timers s i = Some e) \<Longrightarrow> tm_tasks s' = tm_tasks s \<Longrightarrow>
   evolves s s'"
  by (simp add: evolves_def option.rel_refl)

lemma receive_tick_step:
  "evolves s (receive_tick n q s) \<and> (tm_calls (receive_tick n q s) = tm_calls s \<or> calls_entry s (receive_tick n q s))"
proof (cases "tm_timers s (timer_id n)")
  case None
  have "evolves s (s\<lparr>tm_queue := q\<rparr>)" by (rule evolves_shrink) simp_all
  from evolves_trans [OF this evolves_clear_pending] show ?thesis using None by (simp add: receive_tick_def Let_def)
next
  case (Some e)
  define s1 where "s1 = (if \<not> te_repeat e then s\<lparr>tm_queue := q, tm_timers := (tm_timers s)(timer_id n := None)\<rparr>
    else s\<lparr>tm_queue := q\<rparr>)"
  have ev: "evolves s s1" by (rule evolves_shrink) (simp_all add: s1_def split: if_splits)
  have c1: "tm_calls s1 = tm_calls s" by (simp add: s1_def)
  show ?thesis
  proof (cases "te_callback e")
    case None
    then have eq: "receive_tick n q s = clear_pending n s1" using Some by (simp add: receive_tick_def s1_def Let_def)
    show ?thesis unfolding eq using evolves_trans [OF ev evolves_clear_pending] by (simp add: c1)
  next
    case cb: (Some f)
    have eq: "receive_tick n q s = s1\<lparr>tm_receiver := R_Calling n (timer_id n) (te_repeat e),
        tm_calls := tm_calls s1 @ [te_timer e]\<rparr>"
      using Some cb by (simp add: receive_tick_def s1_def Let_def)
    have "evolves s1 (receive_tick n q s)" unfolding eq by (rule evolves_shrink) simp_all
    moreover have "calls_entry s (receive_tick n q s)" unfolding eq calls_entry_def using Some c1 by auto
    ultimately show ?thesis using evolves_trans [OF ev] by blast
  qed
qed

lemma evolves_ended:
  assumes "tm_inv s" shows "evolves s (registration_end n t s) \<and> tm_calls (registration_end n t s) = tm_calls s \<and>
    tm_open (registration_end n t s) = tm_open s"
proof -
  define C where "C = (if tt_pc t = T_Queued then {} else cancelled_by (timer_id n) s)"
  define s1 where "s1 = (if tt_pc t = T_Queued then s else cancel_timer (timer_id n) s)"
  have c: "cancels C s s1" using assms by (simp add: C_def s1_def cancels_refl cancels_cancel_timer tm_inv_def)
  have eq: "registration_end n t s = (case tm_tasks s1 n of None \<Rightarrow> s1
      | Some t \<Rightarrow> s1\<lparr>tm_tasks := (tm_tasks s1)(n \<mapsto> t\<lparr>tt_pc := T_Gone\<rparr>)\<rparr>)"
    unfolding registration_end_def s1_def Let_def by (rule refl)
  have "evolves s1 (registration_end n t s)"
  proof (cases "tm_tasks s1 n")
    case (Some u)
    show ?thesis
      by (rule evolves_retask [where n = n and t = u and u = "u\<lparr>tt_pc := T_Gone\<rparr>"]) (use Some eq in \<open>simp_all add: same_kind_def\<close>)
  qed (simp add: eq evolves_refl)
  with evolves_trans [OF evolves_cancels [OF c]] show ?thesis
    using c by (simp add: eq cancels_def split: option.split)
qed

lemma evolves_elapsed:
  assumes n: "tm_tasks s n = Some t" shows "evolves s (task_elapsed n t s)"
proof (cases "tt_sleep t \<or> tt_pending t \<or> \<not> tm_open s")
  case True
  show ?thesis
    by (rule evolves_retask [where n = n and t = t and
          u = "t\<lparr>tt_pc := if \<not> tt_sleep t \<and> tt_repeat t then T_Sleeping else T_Stopped\<rparr>"])
      (use n True in \<open>auto simp: task_elapsed_def same_kind_def\<close>)
next
  case False
  show ?thesis
    by (rule evolves_retask [where n = n and t = t and
          u = "t\<lparr>tt_pending := True, tt_pc := if tt_repeat t then T_Waiting else T_Queued\<rparr>"])
      (use n False in \<open>simp_all add: task_elapsed_def same_kind_def\<close>)
qed

lemma evolves_pc:
  "tm_tasks s n = Some t \<Longrightarrow> evolves s (s\<lparr>tm_tasks := (tm_tasks s)(n \<mapsto> t\<lparr>tt_pc := pc\<rparr>)\<rparr>)"
  by (rule evolves_retask [where n = n and t = t and u = "t\<lparr>tt_pc := pc\<rparr>"]) (simp_all add: same_kind_def)

lemma evolves_returned:
  assumes inv: "tm_inv s" and r: "tm_receiver s = R_Calling n i repeat"
  shows "evolves s (callback_returned threw s) \<and> tm_calls (callback_returned threw s) = tm_calls s \<and>
    tm_open (callback_returned threw s) = tm_open s"
proof -
  define C where "C = (if threw \<and> repeat then cancelled_by i s else {})"
  define s1 where "s1 = (if threw \<and> repeat then cancel_timer i s else s)"
  have c: "cancels C s s1" using inv by (simp add: C_def s1_def cancels_refl cancels_cancel_timer tm_inv_def)
  have eq: "callback_returned threw s = s1\<lparr>tm_receiver := R_Jobs n\<rparr>" using r by (simp add: callback_returned_def s1_def)
  have "evolves s1 (s1\<lparr>tm_receiver := R_Jobs n\<rparr>)" by (rule evolves_shrink) simp_all
  then show ?thesis unfolding eq using evolves_trans [OF evolves_cancels [OF c]] c by (simp add: cancels_def)
qed

lemma timer_step_kind:
  assumes "timer_step s s'" "tm_inv s"
  shows "(tm_open s' \<longrightarrow> tm_open s) \<and>
    (registers s s' \<or> evolves s s' \<and> (tm_calls s' = tm_calls s \<or> calls_entry s s'))"
  using assms
proof (induction rule: timer_step.induct)
  case (set_timer s f delay repeat)
  have "registers s (snd (set_timeout_with_repeat f delay repeat s))"
    unfolding registers_def set_timeout_with_repeat_def by blast
  then show ?case by (simp add: set_timeout_with_repeat_def register_timer_def Let_def)
next
  case (sleep s arg)
  show ?case
  proof (cases "parse_sleep_delay arg")
    case (Inr d)
    then have "registers s (snd (sleep_async arg s))" unfolding registers_def sleep_async_def by auto
    then show ?thesis using Inr by (simp add: sleep_async_def register_timer_def Let_def)
  qed (simp add: sleep_async_def evolves_refl)
next
  case (clear s i)
  show ?case
  proof (cases i)
    case (Some j)
    have c: "cancels (cancelled_by j s) s (cancel_timer j s)"
      using clear by (simp add: tm_inv_def cancels_cancel_timer)
    then show ?thesis using evolves_cancels [OF c] Some by (simp add: clear_timer_def cancels_def)
  qed (simp add: clear_timer_def evolves_refl)
next
  case (shutdown s)
  show ?case using evolves_cancels [OF cancels_shutdown [of s]] by (simp add: tm_shutdown_def)
next
  case (elapsed s n t)
  show ?case using evolves_elapsed [OF elapsed(1)] by (simp add: task_elapsed_def)
next
  case (resumed s n t)
  show ?case using evolves_pc [OF resumed(1)] by (simp add: task_resume_def)
next
  case (cancelled s n t)
  show ?case using evolves_pc [OF cancelled(1)] by (simp add: task_cancelled_def)
next
  case (ended s n t)
  then show ?case using evolves_ended [of s n t] by simp
next
  case (receive s n q)
  then show ?case using receive_tick_step [of s n q] by simp
next
  case (returned s n i repeat threw)
  show ?case using evolves_returned [OF returned(2,1)] by simp
next
  case (finished s n)
  have "evolves s (s\<lparr>tm_receiver := R_Idle\<rparr>)" by (rule evolves_shrink) simp_all
  from evolves_trans [OF this evolves_clear_pending] show ?case using finished by (simp add: finish_tick_def)
next
  case (dropped s)
  have "evolves s (drop_receiver s)" by (rule evolves_shrink) (simp_all add: drop_receiver_def)
  then show ?case by (simp add: drop_receiver_def)
qed

lemma ids_fresh_step:
  assumes "timer_step s s'" "tm_inv s" "ids_fresh s'" shows "ids_fresh s"
  using timer_step_kind [OF assms(1,2)] assms(3)
  by (auto simp: ids_fresh_def registers_def evolves_def register_timer_def Let_def)

lemma fired_ok_step:
  assumes "timer_step s s'" "tm_inv s" "fired_ok s" "ids_fresh s'" "ids_fresh s" shows "fired_ok s'"
  using assms
proof (induction rule: timer_step.induct)
  case (set_timer s f delay repeat)
  have "tm_next s < 2 ^ 32" using set_timer(3) by (simp add: set_timeout_with_repeat_def register_timer_def Let_def ids_fresh_def)
  then show ?case unfolding set_timeout_with_repeat_def by (rule fired_ok_register [OF set_timer(1,2)])
next
  case (sleep s arg)
  show ?case
  proof (cases "parse_sleep_delay arg")
    case (Inr d)
    then have eq: "snd (sleep_async arg s) = snd (register_timer None False d s)" by (simp add: sleep_async_def)
    have "tm_next s < 2 ^ 32" using sleep(3) unfolding eq by (simp add: ids_fresh_def register_timer_def Let_def)
    then show ?thesis unfolding eq by (rule fired_ok_register [OF sleep(1,2)])
  qed (simp add: sleep_async_def sleep)
next
  case (clear s i)
  then show ?case
    using fired_ok_cancels [OF clear(2) cancels_cancel_timer] by (cases i) (simp_all add: clear_timer_def tm_inv_def)
next
  case (shutdown s)
  then show ?case using fired_ok_cancels [OF _ cancels_shutdown] by blast
next
  case (elapsed s n t)
  then show ?case by (simp add: ids_fresh_def fired_ok_elapsed)
next
  case (resumed s n t)
  have "tick_safe s n t" using resumed(5,1) by (simp add: fired_ok_def)
  then have "tick_safe (task_resume n t s) n (t\<lparr>tt_pc := T_Sleeping\<rparr>)"
    using resumed(2) by (auto simp: tick_safe_def)
  then show ?case by (rule fired_ok_retask [OF resumed(5), rotated]) (simp_all add: task_resume_def)
next
  case (cancelled s n t)
  show ?case
    by (rule fired_ok_retask [OF cancelled(6), of _ n "t\<lparr>tt_pc := T_Stopped\<rparr>"])
      (use cancelled(4) in \<open>simp_all add: task_cancelled_def tick_safe_def\<close>)
next
  case (ended s n t)
  show ?case by (rule fired_ok_ended [OF ended(3,4,1,2)])
next
  case (receive s n q)
  show ?case by (rule fired_ok_receive [OF receive(4,5,7,3)])
next
  case (returned s n i repeat threw)
  have "fired_ok (if threw \<and> repeat then cancel_timer i s else s)"
    using returned fired_ok_cancels [OF returned(3) cancels_cancel_timer] by (simp add: tm_inv_def)
  then show ?case using returned(1) unfolding callback_returned_def fired_ok_def tick_safe_def has_entry_def by simp
next
  case (finished s n)
  have "fired_ok (s\<lparr>tm_receiver := R_Idle\<rparr>)" using finished(3) unfolding fired_ok_def tick_safe_def has_entry_def by simp
  then show ?case using finished(1) by (simp add: finish_tick_def fired_ok_clear_pending)
qed (simp add: drop_receiver_def ids_fresh_def)

lemma timer_reachable_fired: "timer_reachable s \<Longrightarrow> ids_fresh s \<Longrightarrow> fired_ok s"
proof (induction rule: timer_reachable.induct)
  case (step s s')
  note inv = timer_reachable_inv [OF step(1)]
  have "ids_fresh s" by (rule ids_fresh_step [OF step(2) inv step(4)])
  then show ?case using fired_ok_step [OF step(2) inv step(3) step(4)] by simp
qed (simp add: fired_ok_def tm_init_def)

text \<open>A timer without its entry does not get it back, and is not called.\<close>

lemma no_entry_step:
  assumes step: "timer_step s s'" and inv: "tm_inv s" and no: "\<not> has_entry n s" and n: "n < tm_next s"
  shows "\<not> has_entry n s' \<and> n < tm_next s' \<and> count_list (tm_calls s') n = count_list (tm_calls s) n"
proof -
  consider "registers s s'" | "evolves s s'" "tm_calls s' = tm_calls s" | "evolves s s'" "calls_entry s s'"
    using timer_step_kind [OF step inv] by blast
  then show ?thesis
  proof cases
    case 1
    then show ?thesis using no n by (auto simp: registers_def register_timer_def Let_def has_entry_def split: if_splits)
  next
    case 2
    then show ?thesis using no n evolves_has_entry [OF 2(1)] by (auto simp: evolves_def)
  next
    case 3
    then obtain i e where e: "tm_timers s i = Some e" "tm_calls s' = tm_calls s @ [te_timer e]"
      by (auto simp: calls_entry_def)
    have "te_timer e \<noteq> n" using entry_has_entry [OF _ e(1)] inv no by (auto simp: tm_inv_def)
    then show ?thesis using no n evolves_has_entry [OF 3(1)] 3(1) by (auto simp: evolves_def e(2))
  qed
qed

lemma no_entry_steps:
  assumes "timer_step\<^sup>*\<^sup>* s s'" "tm_inv s" "\<not> has_entry n s" "n < tm_next s"
  shows "tm_inv s' \<and> \<not> has_entry n s' \<and> n < tm_next s' \<and> count_list (tm_calls s') n = count_list (tm_calls s) n"
  using assms by (induction rule: rtranclp_induct) (auto dest: no_entry_step tm_inv_step)

section \<open>Properties\<close>

definition t_set :: "nat timers" where
  "t_set = snd (set_timeout_with_repeat 7 (Some (F_Fin 10)) False tm_init)"

definition t_queued :: "nat timers" where
  "t_queued = task_elapsed 0 (the (tm_tasks t_set 0)) t_set"

lemmas t_run_defs = t_queued_def t_set_def set_timeout_with_repeat_def register_timer_def timer_delay_def
  f64_max0_as_u64_def tm_init_def task_elapsed_def Let_def timer_id_def has_entry_def ids_fresh_def outstanding_def
  serving_def

lemma t_set_reachable: "timer_reachable t_set"
  unfolding t_set_def by (rule timer_reachable.step [OF timer_reachable.start timer_step.set_timer])

lemma t_queued_reachable: "timer_reachable t_queued"
  unfolding t_queued_def
  by (rule timer_reachable.step [OF t_set_reachable timer_step.elapsed]) (simp_all add: t_run_defs)

text \<open>
  C33. A timeout fires exactly once. In every reachable state, a timeout that nobody has cancelled has either been
  called, once, and its entry is gone; or it has not been called, its entry is in place, and it is still asleep or
  its tick is queued, and the receiver calls it when it takes that tick. The receiver must not have been dropped
  and fewer than \<open>2 ^ 32\<close> timers must have been created, since identifiers are reused after that.
\<close>

theorem timeout_fires_once:
  assumes "timer_reachable s" "ids_fresh s" "tm_tasks s n = Some t" "\<not> tt_repeat t" "\<not> tt_sleep t" "\<not> tt_cancelled t"
  shows "if n \<in> set (tm_calls s) then count_list (tm_calls s) n = 1 \<and> \<not> has_entry n s
    else has_entry n s \<and> (tt_pc t = T_Sleeping \<or> n \<in> set (tm_queue s)) \<and> n \<in> set (tm_calls (receive_tick n q s))"
proof -
  note inv = timer_reachable_inv [OF assms(1)]
  have c: "count_list (tm_calls s) n \<le> 1" "has_entry n s \<Longrightarrow> n \<notin> set (tm_calls s)"
    using inv assms(3,4) by (auto simp: tm_inv_def calls_ok_def)
  have "tick_safe s n t" using timer_reachable_fired [OF assms(1,2)] assms(3) by (simp add: fired_ok_def)
  then have safe: "has_entry n s \<and> (tt_pc t = T_Sleeping \<or> n \<in> set (tm_queue s)) \<or> n \<in> set (tm_calls s)"
    using assms(4-6) by (auto simp: tick_safe_def)
  show ?thesis
  proof (cases "n \<in> set (tm_calls s)")
    case True
    then have "count_list (tm_calls s) n \<noteq> 0" by (simp add: count_list_0_iff)
    then show ?thesis using True c by auto
  next
    case False
    then show ?thesis using safe receive_tick_calls [OF inv assms(3,5)] by auto
  qed
qed

theorem timeout_fires_once_witness:
  "tm_tasks t_queued 0 \<noteq> None \<and>
   (if 0 \<in> set (tm_calls t_queued) then count_list (tm_calls t_queued) 0 = 1 \<and> \<not> has_entry 0 t_queued
    else has_entry 0 t_queued \<and> (tt_pc (the (tm_tasks t_queued 0)) = T_Sleeping \<or> 0 \<in> set (tm_queue t_queued)) \<and>
      0 \<in> set (tm_calls (receive_tick 0 [] t_queued)))"
proof -
  have t: "tm_tasks t_queued 0 = Some (the (tm_tasks t_queued 0))" by (simp add: t_run_defs)
  show ?thesis
    using timeout_fires_once [OF t_queued_reachable _ t, of "[]"] t by (simp add: t_run_defs)
qed

text \<open>
  C34. A cleared timer never fires again: once \<^verbatim>\<open>clearTimeout\<close> or \<^verbatim>\<open>clearInterval\<close> has been called with the
  identifier of a timer whose entry is in place, no later step calls it, whatever its task does, whatever ticks are
  still queued, and whether or not its identifier is handed out again.
\<close>

theorem cleared_timer_never_fires:
  assumes "timer_reachable s" "tm_timers s i = Some e" "timer_step\<^sup>*\<^sup>* (clear_timer (Some i) s) s'"
  shows "count_list (tm_calls s') (te_timer e) = count_list (tm_calls s) (te_timer e) \<and> \<not> has_entry (te_timer e) s'"
proof -
  note inv = timer_reachable_inv [OF assms(1)]
  then have ok: "entries_ok s" by (simp add: tm_inv_def)
  let ?s = "clear_timer (Some i) s"
  have c: "cancels (cancelled_by i s) s ?s" using cancels_cancel_timer [OF ok] by (simp add: clear_timer_def)
  have "\<not> has_entry (te_timer e) ?s"
    using c assms(2) by (auto simp: has_entry_def cancels_def cancelled_by_def)
  moreover obtain t where "tm_tasks s (te_timer e) = Some t" using entries_okD [OF ok assms(2)] .
  then have "te_timer e < tm_next s" using ok unfolding entries_ok_def by (metis not_le option.distinct(1))
  moreover have "tm_calls ?s = tm_calls s" "tm_next ?s = tm_next s" using c by (simp_all add: cancels_def)
  ultimately show ?thesis using no_entry_steps [OF assms(3) tm_inv_cancels [OF inv c]] by simp
qed

theorem cleared_timer_never_fires_witness:
  "count_list (tm_calls (receive_tick 0 [] (clear_timer (Some 0) t_queued))) 0 = 0"
proof -
  have e: "tm_timers t_queued 0 = Some \<lparr>te_timer = 0, te_callback = Some 7, te_repeat = False\<rparr>"
    by (simp add: t_run_defs)
  have "timer_step (clear_timer (Some 0) t_queued) (receive_tick 0 [] (clear_timer (Some 0) t_queued))"
    by (rule timer_step.receive) (simp_all add: clear_timer_def cancel_timer_def set_cancelled_def e, simp_all add: t_run_defs)
  then show ?thesis
    using cleared_timer_never_fires [OF t_queued_reachable e r_into_rtranclp] by (simp add: t_run_defs)
qed

text \<open>
  Ticks do not pile up: at any time at most one tick of a timer is queued or being served, and while it is, the
  timer's task is not asleep for the next one. An interval shorter than its callback is delayed, not queued.
\<close>

theorem timer_ticks_do_not_pile_up:
  assumes "timer_reachable s"
  shows "distinct (outstanding s) \<and> (\<forall>n \<in> set (outstanding s). \<exists>t. tm_tasks s n = Some t \<and> tt_pc t \<noteq> T_Sleeping)"
  using timer_reachable_inv [OF assms] unfolding tm_inv_def ticks_ok_def by blast

theorem timer_ticks_do_not_pile_up_witness: "outstanding t_queued = [0] \<and> distinct (outstanding t_queued)"
  using timer_ticks_do_not_pile_up [OF t_queued_reachable] by (simp add: t_run_defs)

end
