(* ===== verification/Readable_Stream.thy ===== *)
theory Readable_Stream
  imports Host_Error "HOL-Library.Sublist"
begin

text \<open>
  Readable streams, \<^verbatim>\<open>modules/rong_stream/src/readable.rs\<close>. A stream owns the receiving end of a bounded channel
  in a slot; \<^verbatim>\<open>getReader\<close> moves it into a reader, \<^verbatim>\<open>releaseLock\<close> moves it back, a pending \<^verbatim>\<open>read\<close> or \<^verbatim>\<open>next\<close> holds
  it while it waits, and Rust consumers take it for good. Behind the channel a controller queues chunks that a
  forwarding task moves on. The record keeps where the receiver is as the code does, one option per place (a
  truth value, since there is one channel), the content of the two queues, and the history of what was accepted
  and what was delivered. The steps are the stretches of code between two awaits.
\<close>

section \<open>Data\<close>

type_synonym bytes = "u8 list"

text \<open>\<^verbatim>\<open>StreamChunk\<close>: bytes or the text of an error.\<close>

type_synonym stream_chunk = "string + bytes"

text \<open>A reader: its slot, its flag, the reads that hold the receiver, and whether its lock is poisoned.\<close>

record readable_stream_default_reader =
  rd_rx :: bool
  rd_canceled :: bool
  rd_reading :: nat
  rd_poisoned :: bool

record readable_stream =
  rs_ctl :: bool
  rs_ctl_poisoned :: bool
  rs_ctl_queue :: "stream_chunk list"
  rs_forwarding :: "stream_chunk option"
  rs_forwarder :: bool
  rs_queue :: "stream_chunk list"
  rs_rx :: bool
  rs_slot :: bool
  rs_init :: bool
  rs_poisoned :: bool
  rs_nexts :: nat
  rs_taken :: nat
  rs_readers :: "readable_stream_default_reader list"
  rs_in :: "stream_chunk list"
  rs_out :: "stream_chunk list"

datatype read_result = Read_Done | Read_Value bytes

definition channel_capacity :: nat where
  "channel_capacity = 16"

text \<open>
  The constructor: a controller, the forwarding task and the channel between them. With no underlying source the
  controller is dropped at once. A lazy stream creates its channel and its producer on first use.
\<close>

definition rs_constructor :: "bool \<Rightarrow> readable_stream" where
  "rs_constructor source =
     \<lparr>rs_ctl = source, rs_ctl_poisoned = False, rs_ctl_queue = [], rs_forwarding = None, rs_forwarder = True,
      rs_queue = [], rs_rx = True, rs_slot = True, rs_init = False, rs_poisoned = False, rs_nexts = 0, rs_taken = 0,
      rs_readers = [], rs_in = [], rs_out = []\<rparr>"

definition from_lazy_receiver :: readable_stream where
  "from_lazy_receiver = (rs_constructor True)\<lparr>rs_slot := False, rs_init := True\<rparr>"

definition stream_poisoned :: rong_js_error where
  "stream_poisoned = Host (he_new E_INTERNAL ''Stream is poisoned'')"

definition reader_poisoned :: rong_js_error where
  "reader_poisoned = Host (he_new E_INTERNAL ''Reader is poisoned'')"

definition stream_locked :: rong_js_error where
  "stream_locked = Host (with_name ''TypeError'' (he_new E_INVALID_STATE ''ReadableStream is locked''))"

definition stream_closed :: rong_js_error where
  "stream_closed = Host (he_new E_INVALID_STATE ''ReadableStream is closed'')"

definition stream_failed :: "string \<Rightarrow> rong_js_error" where
  "stream_failed e = Host (he_new E_STREAM e)"

section \<open>The channel\<close>

text \<open>Dropping the receiver loses what is buffered; receiving waits until there is an item or no sender.\<close>

definition drop_rx :: "readable_stream \<Rightarrow> readable_stream" where
  "drop_rx s = s\<lparr>rs_rx := False, rs_queue := []\<rparr>"

definition recv_ready :: "readable_stream \<Rightarrow> bool" where
  "recv_ready s \<longleftrightarrow> rs_queue s \<noteq> [] \<or> \<not> rs_forwarder s"

definition recv :: "readable_stream \<Rightarrow> stream_chunk option \<times> readable_stream" where
  "recv s = (case rs_queue s of [] \<Rightarrow> (None, s) | c # q \<Rightarrow> (Some c, s\<lparr>rs_queue := q\<rparr>))"

definition deliver :: "stream_chunk option \<Rightarrow> readable_stream \<Rightarrow> readable_stream" where
  "deliver item s = (case item of None \<Rightarrow> s | Some c \<Rightarrow> s\<lparr>rs_out := rs_out s @ [c]\<rparr>)"

section \<open>The stream\<close>

text \<open>A lazy stream makes its receiver when the slot is empty.\<close>

definition run_initializer :: "readable_stream \<Rightarrow> readable_stream" where
  "run_initializer s = (if \<not> rs_slot s \<and> rs_init s then s\<lparr>rs_slot := True, rs_init := False\<rparr> else s)"

definition reader_new :: readable_stream_default_reader where
  "reader_new = \<lparr>rd_rx = True, rd_canceled = False, rd_reading = 0, rd_poisoned = False\<rparr>"

definition get_reader :: "readable_stream \<Rightarrow> nat js_result \<times> readable_stream" where
  "get_reader s =
     (if rs_poisoned s then (Inl stream_poisoned, s)
      else
        (let s = run_initializer s in
         if rs_slot s
         then (Inr (length (rs_readers s)), s\<lparr>rs_slot := False, rs_readers := rs_readers s @ [reader_new]\<rparr>)
         else (Inl stream_locked, s)))"

definition stream_cancel :: "readable_stream \<Rightarrow> unit js_result \<times> readable_stream" where
  "stream_cancel s =
     (if rs_poisoned s then (Inl stream_poisoned, s)
      else
        (let s = (if rs_slot s then drop_rx (s\<lparr>rs_slot := False\<rparr>) else s);
             s = (if rs_init s then drop_rx (s\<lparr>rs_init := False\<rparr>) else s)
         in (Inr (), s)))"

definition readable_stream_take_receiver :: "readable_stream \<Rightarrow> bool \<times> readable_stream" where
  "readable_stream_take_receiver s =
     (if rs_poisoned s then (False, s)
      else
        (let s = run_initializer s in
         if rs_slot s then (True, s\<lparr>rs_slot := False, rs_taken := Suc (rs_taken s)\<rparr>) else (False, s)))"

definition readable_stream_is_locked :: "readable_stream \<Rightarrow> bool" where
  "readable_stream_is_locked s =
     (if rs_poisoned s then True else if rs_slot s then False else \<not> rs_init s)"

text \<open>The asynchronous iterator: the first half of \<^verbatim>\<open>next\<close> answers at once if the slot is empty.\<close>

definition next_begin :: "readable_stream \<Rightarrow> read_result js_result option \<times> readable_stream" where
  "next_begin s =
     (if rs_poisoned s then (Some (Inl stream_poisoned), s)
      else if rs_slot s then (None, s\<lparr>rs_slot := False, rs_nexts := Suc (rs_nexts s)\<rparr>)
      else (Some (Inr Read_Done), s))"

definition next_end :: "readable_stream \<Rightarrow> read_result js_result \<times> readable_stream" where
  "next_end s =
     (case recv s of
        (item, s) \<Rightarrow>
          (let s = deliver item (s\<lparr>rs_nexts := rs_nexts s - 1\<rparr>) in
           case item of
             Some (Inr b) \<Rightarrow>
               (Inr (Read_Value b),
                if \<not> rs_poisoned s \<and> \<not> rs_slot s then s\<lparr>rs_slot := True\<rparr> else drop_rx s)
           | Some (Inl e) \<Rightarrow> (Inl (stream_failed e), drop_rx s)
           | None \<Rightarrow> (Inr Read_Done, drop_rx s)))"

section \<open>A reader\<close>

definition set_reader ::
  "nat \<Rightarrow> readable_stream_default_reader \<Rightarrow> readable_stream \<Rightarrow> readable_stream" where
  "set_reader k r s = s\<lparr>rs_readers := (rs_readers s)[k := r]\<rparr>"

text \<open>\<^verbatim>\<open>read\<close> up to its await: no receiver in the reader answers at once.\<close>

definition read_begin :: "nat \<Rightarrow> readable_stream \<Rightarrow> read_result js_result option \<times> readable_stream" where
  "read_begin k s =
     (let r = rs_readers s ! k in
      if rd_poisoned r then (Some (Inl reader_poisoned), s)
      else if rd_rx r then (None, set_reader k (r\<lparr>rd_rx := False, rd_reading := Suc (rd_reading r)\<rparr>) s)
      else (Some (Inr Read_Done), s))"

text \<open>
  After the await: the receiver is put back, or dropped if the reader was cancelled meanwhile, and then the
  received item is dropped with it.
\<close>

definition read_end :: "nat \<Rightarrow> readable_stream \<Rightarrow> read_result js_result \<times> readable_stream" where
  "read_end k s =
     (case recv s of
        (item, s) \<Rightarrow>
          (let r = (rs_readers s ! k)\<lparr>rd_reading := rd_reading (rs_readers s ! k) - 1\<rparr> in
           if rd_poisoned r then (Inl reader_poisoned, drop_rx (set_reader k r s))
           else if rd_canceled r then (Inr Read_Done, drop_rx (set_reader k (r\<lparr>rd_rx := False\<rparr>) s))
           else
             (let s = deliver item (set_reader k (r\<lparr>rd_rx := True\<rparr>) s) in
              (case item of
                 Some (Inr b) \<Rightarrow> Inr (Read_Value b)
               | Some (Inl e) \<Rightarrow> Inl (stream_failed e)
               | None \<Rightarrow> Inr Read_Done, s))))"

definition release_lock :: "nat \<Rightarrow> readable_stream \<Rightarrow> unit js_result \<times> readable_stream" where
  "release_lock k s =
     (let r = rs_readers s ! k in
      if rd_poisoned r then (Inl reader_poisoned, s)
      else if rd_rx r then
        (let s = set_reader k (r\<lparr>rd_rx := False\<rparr>) s in
         if rd_canceled r then (Inr (), drop_rx s)
         else if rs_poisoned s then (Inl stream_poisoned, drop_rx s)
         else if \<not> rs_slot s then (Inr (), s\<lparr>rs_slot := True\<rparr>)
         else (Inr (), drop_rx s))
      else (Inr (), s))"

definition reader_cancel :: "nat \<Rightarrow> readable_stream \<Rightarrow> unit js_result \<times> readable_stream" where
  "reader_cancel k s =
     (let r = (rs_readers s ! k)\<lparr>rd_canceled := True\<rparr> in
      if rd_poisoned r then (Inl reader_poisoned, set_reader k r s)
      else if rd_rx r then (Inr (), drop_rx (set_reader k (r\<lparr>rd_rx := False\<rparr>) s))
      else (Inr (), set_reader k r s))"

definition take_channel :: "nat \<Rightarrow> readable_stream \<Rightarrow> bool \<times> readable_stream" where
  "take_channel k s =
     (let r = rs_readers s ! k in
      if rd_poisoned r then (False, s)
      else if rd_rx r then (True, (set_reader k (r\<lparr>rd_rx := False\<rparr>) s)\<lparr>rs_taken := Suc (rs_taken s)\<rparr>)
      else (False, s))"

section \<open>The controller and the forwarding task\<close>

text \<open>
  A chunk from JavaScript as the conversion to bytes sees it: a typed array (with its bytes, if they can be had),
  an array buffer, another object, or no object at all. \<open>op\<close> is the operation the messages name.
\<close>

datatype js_chunk = Typed_Array "bytes option" | Array_Buffer bytes | Other_Object | No_Object

definition invalid_chunk :: "string \<Rightarrow> 'a js_result" where
  "invalid_chunk message = Inl (Host (with_name ''TypeError'' (he_new E_INVALID_ARG message)))"

definition chunk_to_bytes :: "string \<Rightarrow> js_chunk \<Rightarrow> bytes js_result" where
  "chunk_to_bytes op chunk =
     (case chunk of
        Typed_Array (Some b) \<Rightarrow> Inr b
      | Typed_Array None \<Rightarrow> invalid_chunk ''Invalid TypedArray''
      | Array_Buffer b \<Rightarrow> Inr b
      | Other_Object \<Rightarrow> invalid_chunk (op @ '' expects Uint8Array or ArrayBuffer'')
      | No_Object \<Rightarrow> invalid_chunk (op @ '' expects a TypedArray or ArrayBuffer''))"

definition enqueue :: "js_chunk \<Rightarrow> readable_stream \<Rightarrow> unit js_result \<times> readable_stream" where
  "enqueue chunk s =
     (case chunk_to_bytes ''enqueue'' chunk of
        Inl e \<Rightarrow> (Inl e, s)
      | Inr b \<Rightarrow>
          if rs_ctl_poisoned s then (Inl stream_poisoned, s)
          else if rs_ctl s \<and> rs_forwarder s
          then (Inr (), s\<lparr>rs_ctl_queue := rs_ctl_queue s @ [Inr b], rs_in := rs_in s @ [Inr b]\<rparr>)
          else (Inl stream_closed, s))"

definition controller_close :: "readable_stream \<Rightarrow> unit js_result \<times> readable_stream" where
  "controller_close s = (if rs_ctl_poisoned s then (Inl stream_poisoned, s) else (Inr (), s\<lparr>rs_ctl := False\<rparr>))"

definition controller_error :: "string option \<Rightarrow> readable_stream \<Rightarrow> unit js_result \<times> readable_stream" where
  "controller_error reason s =
     (let msg = (case reason of Some m \<Rightarrow> m | None \<Rightarrow> ''ReadableStream error'') in
      if rs_ctl_poisoned s then (Inl stream_poisoned, s)
      else
        (Inr (),
         (if rs_ctl s \<and> rs_forwarder s
          then s\<lparr>rs_ctl_queue := rs_ctl_queue s @ [Inl msg], rs_in := rs_in s @ [Inl msg]\<rparr> else s)\<lparr>rs_ctl := False\<rparr>))"

text \<open>The forwarding task: take an item, send it when there is room, end when a send fails or nothing can come.\<close>

definition forward_take :: "readable_stream \<Rightarrow> readable_stream" where
  "forward_take s =
     (case rs_ctl_queue s of
        [] \<Rightarrow> s
      | c # q \<Rightarrow> s\<lparr>rs_ctl_queue := q, rs_forwarding := Some c\<rparr>)"

definition forward_send :: "readable_stream \<Rightarrow> readable_stream" where
  "forward_send s =
     (case rs_forwarding s of
        None \<Rightarrow> s
      | Some c \<Rightarrow> s\<lparr>rs_queue := rs_queue s @ [c], rs_forwarding := None\<rparr>)"

definition forward_stop :: "readable_stream \<Rightarrow> readable_stream" where
  "forward_stop s = s\<lparr>rs_forwarder := False, rs_forwarding := None, rs_ctl_queue := []\<rparr>"

section \<open>Transitions\<close>

inductive stream_step :: "readable_stream \<Rightarrow> readable_stream \<Rightarrow> bool" where
  get_reader: "stream_step s (snd (get_reader s))"
| cancel: "stream_step s (snd (stream_cancel s))"
| take: "stream_step s (snd (readable_stream_take_receiver s))"
| next_begin: "stream_step s (snd (next_begin s))"
| next_end: "0 < rs_nexts s \<Longrightarrow> recv_ready s \<Longrightarrow> stream_step s (snd (next_end s))"
| read_begin: "k < length (rs_readers s) \<Longrightarrow> stream_step s (snd (read_begin k s))"
| read_end: "k < length (rs_readers s) \<Longrightarrow> 0 < rd_reading (rs_readers s ! k) \<Longrightarrow> recv_ready s \<Longrightarrow>
    stream_step s (snd (read_end k s))"
| release: "k < length (rs_readers s) \<Longrightarrow> stream_step s (snd (release_lock k s))"
| reader_cancel: "k < length (rs_readers s) \<Longrightarrow> stream_step s (snd (reader_cancel k s))"
| take_channel: "k < length (rs_readers s) \<Longrightarrow> stream_step s (snd (take_channel k s))"
| taken_recv: "0 < rs_taken s \<Longrightarrow> recv_ready s \<Longrightarrow> recv s = (item, s') \<Longrightarrow> stream_step s (deliver item s')"
| taken_drop: "0 < rs_taken s \<Longrightarrow> stream_step s (drop_rx (s\<lparr>rs_taken := rs_taken s - 1\<rparr>))"
| enqueue: "stream_step s (snd (enqueue chunk s))"
| close: "stream_step s (snd (controller_close s))"
| error: "stream_step s (snd (controller_error reason s))"
| forward_take: "rs_forwarder s \<Longrightarrow> \<not> rs_init s \<Longrightarrow> rs_forwarding s = None \<Longrightarrow> stream_step s (forward_take s)"
| forward_send: "rs_forwarder s \<Longrightarrow> rs_rx s \<Longrightarrow> length (rs_queue s) < channel_capacity \<Longrightarrow>
    stream_step s (forward_send s)"
| forward_fail: "rs_forwarding s \<noteq> None \<Longrightarrow> \<not> rs_rx s \<Longrightarrow> stream_step s (forward_stop s)"
| forward_end: "\<not> rs_init s \<Longrightarrow> rs_forwarding s = None \<Longrightarrow> rs_ctl_queue s = [] \<Longrightarrow> \<not> rs_ctl s \<Longrightarrow> stream_step s (forward_stop s)"
| poison: "stream_step s (s\<lparr>rs_poisoned := True\<rparr>)"
| poison_controller: "stream_step s (s\<lparr>rs_ctl_poisoned := True\<rparr>)"
| poison_reader: "k < length (rs_readers s) \<Longrightarrow>
    stream_step s (set_reader k ((rs_readers s ! k)\<lparr>rd_poisoned := True\<rparr>) s)"

inductive stream_reachable :: "readable_stream \<Rightarrow> bool" where
  constructed: "stream_reachable (rs_constructor source)"
| lazy: "stream_reachable from_lazy_receiver"
| step: "stream_reachable s \<Longrightarrow> stream_step s s' \<Longrightarrow> stream_reachable s'"

section \<open>Ownership of the receiver\<close>

text \<open>The places that hold the receiver, counted.\<close>

definition held :: "readable_stream_default_reader \<Rightarrow> nat" where
  "held r = of_bool (rd_rx r) + rd_reading r"

definition reader_handles :: "readable_stream_default_reader list \<Rightarrow> nat" where
  "reader_handles rs = sum_list (map held rs)"

definition handles :: "readable_stream \<Rightarrow> nat" where
  "handles s =
     of_bool (rs_slot s) + of_bool (rs_init s) + rs_nexts s + rs_taken s + reader_handles (rs_readers s)"

definition owned_ok :: "readable_stream \<Rightarrow> bool" where
  "owned_ok s \<longleftrightarrow> handles s = of_bool (rs_rx s)"

lemma reader_handles_append [simp]: "reader_handles (rs @ [r]) = reader_handles rs + held r"
  by (simp add: reader_handles_def)

lemma reader_handles_update:
  assumes "k < length rs"
  shows "reader_handles (rs[k := r]) = reader_handles rs + held r - held (rs ! k)" "held (rs ! k) \<le> reader_handles rs"
proof -
  show "held (rs ! k) \<le> reader_handles rs"
    unfolding reader_handles_def using assms by (metis length_map nth_map elem_le_sum_list)
  show "reader_handles (rs[k := r]) = reader_handles rs + held r - held (rs ! k)"
    unfolding reader_handles_def using assms by (simp add: map_update sum_list_update)
qed

lemma held_new [simp]: "held reader_new = 1"
  by (simp add: held_def reader_new_def)

lemmas owned_defs = owned_ok_def handles_def drop_rx_def set_reader_def of_bool_def

lemma recv_frame:
  assumes "recv s = (item, s')"
  shows "rs_slot s' = rs_slot s" "rs_init s' = rs_init s" "rs_nexts s' = rs_nexts s" "rs_taken s' = rs_taken s"
    "rs_readers s' = rs_readers s" "rs_rx s' = rs_rx s" "rs_poisoned s' = rs_poisoned s"
    "rs_in s' = rs_in s" "rs_out s' = rs_out s" "rs_forwarder s' = rs_forwarder s"
    "rs_forwarding s' = rs_forwarding s" "rs_ctl_queue s' = rs_ctl_queue s"
    "rs_queue s = (case item of None \<Rightarrow> [] | Some c \<Rightarrow> [c]) @ rs_queue s'"
  using assms by (auto simp: recv_def split: list.splits)

lemma deliver_frame [simp]:
  "rs_slot (deliver i s) = rs_slot s" "rs_init (deliver i s) = rs_init s" "rs_nexts (deliver i s) = rs_nexts s"
  "rs_taken (deliver i s) = rs_taken s" "rs_readers (deliver i s) = rs_readers s" "rs_rx (deliver i s) = rs_rx s"
  "rs_poisoned (deliver i s) = rs_poisoned s" "rs_in (deliver i s) = rs_in s" "rs_queue (deliver i s) = rs_queue s"
  "rs_forwarder (deliver i s) = rs_forwarder s" "rs_forwarding (deliver i s) = rs_forwarding s"
  "rs_ctl_queue (deliver i s) = rs_ctl_queue s"
  "rs_out (deliver i s) = rs_out s @ (case i of None \<Rightarrow> [] | Some c \<Rightarrow> [c])"
  by (simp_all add: deliver_def split: option.split)

lemma owned_initializer: "owned_ok s \<Longrightarrow> owned_ok (run_initializer s)"
  by (auto simp: run_initializer_def owned_defs split: if_splits)

lemma owned_get_reader: "owned_ok s \<Longrightarrow> owned_ok (snd (get_reader s))"
  using owned_initializer [of s] by (auto simp: get_reader_def Let_def owned_defs split: if_splits)

lemma owned_take: "owned_ok s \<Longrightarrow> owned_ok (snd (readable_stream_take_receiver s))"
  using owned_initializer [of s] by (auto simp: readable_stream_take_receiver_def Let_def owned_defs split: if_splits)

lemma owned_cancel: "owned_ok s \<Longrightarrow> owned_ok (snd (stream_cancel s))"
  by (auto simp: stream_cancel_def Let_def owned_defs split: if_splits)

lemma owned_next_begin: "owned_ok s \<Longrightarrow> owned_ok (snd (next_begin s))"
  by (auto simp: next_begin_def owned_defs split: if_splits)

lemma owned_next_end:
  assumes "owned_ok s" "0 < rs_nexts s" shows "owned_ok (snd (next_end s))"
proof -
  obtain item s1 where r: "recv s = (item, s1)" by fastforce
  show ?thesis
    using assms recv_frame(1-7) [OF r]
    by (auto simp: next_end_def r Let_def owned_defs split: option.split sum.split if_splits)
qed

lemma owned_read_begin:
  assumes "owned_ok s" "k < length (rs_readers s)" shows "owned_ok (snd (read_begin k s))"
  using assms reader_handles_update [OF assms(2)] by (auto simp: read_begin_def Let_def owned_defs held_def split: if_splits)

text \<open>While a read waits, it is the only holder.\<close>

lemma reading_holds:
  assumes "owned_ok s" "k < length (rs_readers s)" "0 < rd_reading (rs_readers s ! k)"
  shows "rd_reading (rs_readers s ! k) = 1" "\<not> rd_rx (rs_readers s ! k)" "rs_rx s" "\<not> rs_slot s" "\<not> rs_init s"
    "rs_nexts s = 0" "rs_taken s = 0" "reader_handles (rs_readers s) = 1"
proof -
  have h: "0 < held (rs_readers s ! k)" "held (rs_readers s ! k) \<le> reader_handles (rs_readers s)"
    using assms(3) reader_handles_update(2) [OF assms(2)] by (simp_all add: held_def)
  then have "rs_rx s \<and> \<not> rs_slot s \<and> \<not> rs_init s \<and> rs_nexts s = 0 \<and> rs_taken s = 0 \<and> reader_handles (rs_readers s) = 1"
    using assms(1) by (cases "rs_rx s"; cases "rs_slot s"; cases "rs_init s") (simp_all add: owned_ok_def handles_def)
  moreover from this h have "held (rs_readers s ! k) = 1" by simp
  ultimately show "rd_reading (rs_readers s ! k) = 1" "\<not> rd_rx (rs_readers s ! k)" "rs_rx s" "\<not> rs_slot s"
    "\<not> rs_init s" "rs_nexts s = 0" "rs_taken s = 0" "reader_handles (rs_readers s) = 1"
    using assms(3) by (auto simp: held_def of_bool_def split: if_splits)
qed

lemma owned_read_end:
  assumes "owned_ok s" "k < length (rs_readers s)" "0 < rd_reading (rs_readers s ! k)"
  shows "owned_ok (snd (read_end k s))"
proof -
  obtain item s1 where r: "recv s = (item, s1)" by fastforce
  show ?thesis
    using reading_holds [OF assms] recv_frame(1-7) [OF r] reader_handles_update(1) [OF assms(2)] assms(2)
    by (simp add: read_end_def r Let_def owned_ok_def handles_def drop_rx_def set_reader_def held_def)
qed

lemma owned_reader_ops:
  assumes "owned_ok s" "k < length (rs_readers s)"
  shows "owned_ok (snd (release_lock k s))" "owned_ok (snd (reader_cancel k s))" "owned_ok (snd (take_channel k s))"
    "owned_ok (set_reader k ((rs_readers s ! k)\<lparr>rd_poisoned := True\<rparr>) s)"
  using assms reader_handles_update [OF assms(2)]
  by (auto simp: release_lock_def reader_cancel_def take_channel_def Let_def owned_defs held_def of_bool_def split: if_splits)

lemma owned_step: "stream_step s s' \<Longrightarrow> owned_ok s \<Longrightarrow> owned_ok s'"
proof (induction rule: stream_step.induct)
  case (taken_recv s item s')
  then show ?case using recv_frame(1-7) [OF taken_recv(3)] by (simp add: owned_ok_def handles_def)
qed (simp_all add: owned_get_reader owned_cancel owned_take owned_next_begin owned_next_end owned_read_begin
    owned_read_end owned_reader_ops,
  auto simp: owned_defs enqueue_def controller_close_def controller_error_def forward_take_def forward_send_def
    forward_stop_def Let_def split: sum.split list.split option.split if_splits)

lemma stream_reachable_owned: "stream_reachable s \<Longrightarrow> owned_ok s"
proof (induction rule: stream_reachable.induct)
  case (step s s')
  then show ?case using owned_step by blast
qed (simp_all add: rs_constructor_def from_lazy_receiver_def owned_defs reader_handles_def)

section \<open>Order of the data\<close>

definition pending_chunks :: "readable_stream \<Rightarrow> stream_chunk list" where
  "pending_chunks s =
     rs_queue s @ (case rs_forwarding s of None \<Rightarrow> [] | Some c \<Rightarrow> [c]) @ rs_ctl_queue s"

text \<open>Nothing is lost while the receiver lives, and what was delivered is always a prefix of what was accepted.\<close>

definition data_ok :: "readable_stream \<Rightarrow> bool" where
  "data_ok s \<longleftrightarrow>
     (rs_rx s \<longrightarrow> rs_in s = rs_out s @ pending_chunks s) \<and> prefix (rs_out s) (rs_in s) \<and>
     (\<not> rs_rx s \<longrightarrow> rs_queue s = []) \<and>
     (\<not> rs_forwarder s \<longrightarrow> rs_forwarding s = None \<and> rs_ctl_queue s = []) \<and> length (rs_queue s) \<le> channel_capacity"

text \<open>The parts of the state the data invariant reads.\<close>

lemma data_ok_cong:
  assumes "data_ok s" "rs_rx s' = rs_rx s" "rs_in s' = rs_in s" "rs_out s' = rs_out s" "rs_queue s' = rs_queue s"
    "rs_forwarder s' = rs_forwarder s" "rs_forwarding s' = rs_forwarding s" "rs_ctl_queue s' = rs_ctl_queue s"
  shows "data_ok s'"
  using assms by (simp add: data_ok_def pending_chunks_def)

lemma data_ok_drop: "data_ok s \<Longrightarrow> data_ok (drop_rx s)"
  by (simp add: data_ok_def drop_rx_def)

text \<open>An item is received and delivered, or received and dropped with the receiver.\<close>

lemma data_ok_deliver:
  assumes ok: "data_ok s" and r: "recv s = (item, s1)" and live: "rs_rx s"
  shows "data_ok (deliver item s1)"
proof -
  have "rs_in s = rs_out s @ pending_chunks s" "length (rs_queue s) \<le> channel_capacity"
    using ok live by (simp_all add: data_ok_def)
  moreover have "pending_chunks s = (case item of None \<Rightarrow> [] | Some c \<Rightarrow> [c]) @ pending_chunks s1"
    using recv_frame [OF r] by (simp add: pending_chunks_def)
  moreover have "length (rs_queue s1) \<le> length (rs_queue s)" using recv_frame(13) [OF r] by simp
  moreover have "pending_chunks (deliver item s1) = pending_chunks s1" by (simp add: pending_chunks_def)
  ultimately show ?thesis
    using recv_frame [OF r] ok live by (simp add: data_ok_def)
qed

lemma data_ok_lose: "data_ok s \<Longrightarrow> recv s = (item, s1) \<Longrightarrow> data_ok (drop_rx s1)"
  using recv_frame [of s item s1] by (simp add: data_ok_def drop_rx_def channel_capacity_def)

lemma data_ok_next_end:
  assumes ok: "data_ok s" and live: "rs_rx s" shows "data_ok (snd (next_end s))"
proof -
  obtain item s1 where r: "recv s = (item, s1)" by fastforce
  let ?s = "deliver item (s1\<lparr>rs_nexts := rs_nexts s1 - 1\<rparr>)"
  have d: "data_ok ?s" by (rule data_ok_cong [OF data_ok_deliver [OF ok r live]]) simp_all
  have "data_ok (?s\<lparr>rs_slot := True\<rparr>)" by (rule data_ok_cong [OF d]) simp_all
  then show ?thesis
    using d data_ok_drop [OF d] by (auto simp: next_end_def r Let_def split: option.split sum.split)
qed

lemma data_ok_read_end:
  assumes ok: "data_ok s" and live: "rs_rx s" shows "data_ok (snd (read_end k s))"
proof -
  obtain item s1 where r: "recv s = (item, s1)" by fastforce
  have lost: "data_ok (drop_rx (set_reader k x s1))" for x
    by (rule data_ok_cong [OF data_ok_lose [OF ok r]]) (simp_all add: drop_rx_def set_reader_def)
  have "data_ok (deliver item (set_reader k x s1))" for x
    by (rule data_ok_cong [OF data_ok_deliver [OF ok r live]]) (simp_all add: set_reader_def)
  then show ?thesis using lost by (simp add: read_end_def r Let_def)
qed

lemma data_ok_set_reader: "data_ok s \<Longrightarrow> data_ok (set_reader k x s)"
  by (rule data_ok_cong) (simp_all add: set_reader_def)

lemma data_ok_reader_ops:
  assumes "data_ok s"
  shows "data_ok (snd (release_lock k s))" "data_ok (snd (reader_cancel k s))" "data_ok (snd (take_channel k s))"
    "data_ok (snd (read_begin k s))"
proof -
  have d: "data_ok (set_reader k x s)" "data_ok (drop_rx (set_reader k x s))" for x
    using assms by (simp_all add: data_ok_set_reader data_ok_drop)
  have "data_ok ((set_reader k x s)\<lparr>rs_slot := True\<rparr>)" "data_ok ((set_reader k x s)\<lparr>rs_taken := n\<rparr>)" for x n
    by (rule data_ok_cong [OF d(1)]; simp)+
  then show "data_ok (snd (release_lock k s))" "data_ok (snd (reader_cancel k s))" "data_ok (snd (take_channel k s))"
    "data_ok (snd (read_begin k s))"
    using assms d by (simp_all add: release_lock_def reader_cancel_def take_channel_def read_begin_def Let_def)
qed

lemma data_ok_stream_ops:
  assumes "data_ok s"
  shows "data_ok (snd (get_reader s))" "data_ok (snd (stream_cancel s))" "data_ok (snd (next_begin s))"
    "data_ok (snd (readable_stream_take_receiver s))"
proof -
  show "data_ok (snd (get_reader s))"
    by (rule data_ok_cong [OF assms]) (simp_all add: get_reader_def run_initializer_def Let_def)
  show "data_ok (snd (readable_stream_take_receiver s))"
    by (rule data_ok_cong [OF assms]) (simp_all add: readable_stream_take_receiver_def run_initializer_def Let_def)
  show "data_ok (snd (next_begin s))"
    by (rule data_ok_cong [OF assms]) (simp_all add: next_begin_def)
  have a: "data_ok (if rs_slot s then drop_rx (s\<lparr>rs_slot := False\<rparr>) else s)" (is "data_ok ?s")
    using assms data_ok_cong [OF data_ok_drop [OF assms], of "drop_rx (s\<lparr>rs_slot := False\<rparr>)"] by (simp add: drop_rx_def)
  have b: "data_ok (drop_rx (?s\<lparr>rs_init := False\<rparr>))"
    by (rule data_ok_cong [OF data_ok_drop [OF a]]) (simp_all add: drop_rx_def)
  show "data_ok (snd (stream_cancel s))"
    using assms a b by (auto simp: stream_cancel_def Let_def split: if_splits)
qed

lemma data_ok_controller:
  assumes "data_ok s"
  shows "data_ok (snd (enqueue chunk s))" "data_ok (snd (controller_close s))" "data_ok (snd (controller_error reason s))"
proof -
  have add: "data_ok (s\<lparr>rs_ctl_queue := rs_ctl_queue s @ [c], rs_in := rs_in s @ [c]\<rparr>)" if "rs_forwarder s" for c
    using assms that by (simp add: data_ok_def pending_chunks_def)
  have shut: "data_ok (s'\<lparr>rs_ctl := False\<rparr>)" if "data_ok s'" for s' by (rule data_ok_cong [OF that]) simp_all
  show "data_ok (snd (enqueue chunk s))" using assms add by (simp add: enqueue_def split: sum.split)
  show "data_ok (snd (controller_close s))" using assms shut by (simp add: controller_close_def)
  show "data_ok (snd (controller_error reason s))"
    using assms shut [OF assms] shut [OF add] by (simp add: controller_error_def Let_def)
qed

lemma data_ok_forward:
  assumes "data_ok s"
  shows "rs_forwarder s \<Longrightarrow> rs_forwarding s = None \<Longrightarrow> data_ok (forward_take s)"
    "rs_forwarder s \<Longrightarrow> rs_rx s \<Longrightarrow> length (rs_queue s) < channel_capacity \<Longrightarrow> data_ok (forward_send s)"
    "rs_forwarding s \<noteq> None \<Longrightarrow> \<not> rs_rx s \<Longrightarrow> data_ok (forward_stop s)"
    "rs_forwarding s = None \<Longrightarrow> rs_ctl_queue s = [] \<Longrightarrow> data_ok (forward_stop s)"
  using assms
  by (auto simp: data_ok_def pending_chunks_def forward_take_def forward_send_def forward_stop_def
      split: list.split option.split)

lemma data_ok_step:
  assumes "stream_step s s'" "data_ok s" "owned_ok s" shows "data_ok s'"
  using assms
proof (induction rule: stream_step.induct)
  case (next_end s)
  have "rs_rx s" using next_end(1,4) by (cases "rs_rx s") (simp_all add: owned_ok_def handles_def)
  then show ?case using next_end by (simp add: data_ok_next_end)
next
  case (read_end k s)
  have "rs_rx s" using reading_holds(3) [OF read_end(5,1,2)] .
  then show ?case using read_end by (simp add: data_ok_read_end)
next
  case (taken_recv s item s')
  have "rs_rx s" using taken_recv(1,5) by (cases "rs_rx s") (simp_all add: owned_ok_def handles_def)
  then show ?case using taken_recv by (simp add: data_ok_deliver)
next
  case (taken_drop s)
  show ?case by (rule data_ok_cong [OF data_ok_drop [OF taken_drop(2)]]) (simp_all add: drop_rx_def)
next
  case (poison s)
  show ?case by (rule data_ok_cong [OF poison(1)]) simp_all
next
  case (poison_controller s)
  show ?case by (rule data_ok_cong [OF poison_controller(1)]) simp_all
qed (simp_all add: data_ok_stream_ops data_ok_reader_ops data_ok_controller data_ok_forward data_ok_set_reader)

lemma stream_reachable_data: "stream_reachable s \<Longrightarrow> data_ok s"
proof (induction rule: stream_reachable.induct)
  case (step s s')
  then show ?case using data_ok_step stream_reachable_owned by blast
qed (simp_all add: rs_constructor_def from_lazy_receiver_def data_ok_def pending_chunks_def)

section \<open>The reader's lock\<close>

definition reader_acquire :: "readable_stream \<Rightarrow> (nat \<times> readable_stream) option" where
  "reader_acquire s = (case get_reader s of (Inr k, s') \<Rightarrow> Some (k, s') | (Inl _, _) \<Rightarrow> None)"

definition reader_release :: "nat \<Rightarrow> readable_stream \<Rightarrow> readable_stream" where
  "reader_release k s = snd (release_lock k s)"

definition lendable :: "readable_stream \<Rightarrow> bool" where
  "lendable s \<longleftrightarrow> owned_ok s \<and> \<not> rs_poisoned s"

lemma reader_acquireD:
  assumes "lendable s" "reader_acquire s = Some (k, s')"
  shows "k = length (rs_readers s)" "s' = (run_initializer s)\<lparr>rs_slot := False, rs_readers := rs_readers s @ [reader_new]\<rparr>"
    "\<not> rs_init s'" "\<not> rs_poisoned s'"
    "reader_release k s' = s'\<lparr>rs_slot := True, rs_readers := rs_readers s @ [reader_new\<lparr>rd_rx := False\<rparr>]\<rparr>"
proof -
  have i: "rs_readers (run_initializer s) = rs_readers s" "rs_poisoned (run_initializer s) = rs_poisoned s"
    by (simp_all add: run_initializer_def)
  have "\<not> (rs_slot s \<and> rs_init s)"
    using assms(1) by (cases "rs_rx s") (auto simp: lendable_def owned_ok_def handles_def)
  then have ni: "rs_slot (run_initializer s) \<Longrightarrow> \<not> rs_init (run_initializer s)"
    by (auto simp: run_initializer_def split: if_splits)
  show k: "k = length (rs_readers s)"
    and s': "s' = (run_initializer s)\<lparr>rs_slot := False, rs_readers := rs_readers s @ [reader_new]\<rparr>"
    and "\<not> rs_init s'" "\<not> rs_poisoned s'"
    using assms ni i by (auto simp: reader_acquire_def get_reader_def lendable_def Let_def split: if_splits)
  then show "reader_release k s' = s'\<lparr>rs_slot := True, rs_readers := rs_readers s @ [reader_new\<lparr>rd_rx := False\<rparr>]\<rparr>"
    by (simp add: reader_release_def release_lock_def set_reader_def reader_new_def Let_def)
qed

interpretation reader_lock: exclusive_loan reader_acquire reader_release lendable
  "\<lambda>s. (rs_rx s, rs_in s, rs_out s, pending_chunks s)"
proof
  fix s k s' assume s: "lendable s" "reader_acquire s = Some (k, s')"
  note d = reader_acquireD [OF s]
  show "reader_acquire s' = None"
    using d(3,4) by (simp add: reader_acquire_def get_reader_def run_initializer_def Let_def d(2))
  show "reader_acquire (reader_release k s') \<noteq> None"
    using d(3,4) by (simp add: d(5) reader_acquire_def get_reader_def run_initializer_def Let_def)
  show "(rs_rx (reader_release k s'), rs_in (reader_release k s'), rs_out (reader_release k s'),
      pending_chunks (reader_release k s')) = (rs_rx s, rs_in s, rs_out s, pending_chunks s)"
    unfolding d(5) by (simp add: d(2) pending_chunks_def run_initializer_def)
  have "owned_ok s'" using owned_get_reader [of s] s by (auto simp: lendable_def reader_acquire_def split: prod.splits sum.splits)
  moreover have "k < length (rs_readers s')" by (simp add: d(1,2))
  ultimately have "owned_ok (reader_release k s')" unfolding reader_release_def by (rule owned_reader_ops(1))
  then show "lendable (reader_release k s')" using d(4) unfolding lendable_def d(5) by simp
qed

section \<open>Properties\<close>

definition rs_reading :: readable_stream where
  "rs_reading = snd (read_begin 0 (snd (get_reader (snd (enqueue (Array_Buffer [7]) (rs_constructor True))))))"

lemma rs_reading_reachable: "stream_reachable rs_reading"
  unfolding rs_reading_def
  by (intro stream_reachable.step [OF stream_reachable.step [OF stream_reachable.step [OF stream_reachable.constructed
        stream_step.enqueue] stream_step.get_reader] stream_step.read_begin])
    (simp add: enqueue_def chunk_to_bytes_def rs_constructor_def get_reader_def run_initializer_def Let_def)

lemmas rs_run_defs = rs_reading_def enqueue_def chunk_to_bytes_def rs_constructor_def get_reader_def run_initializer_def Let_def
  read_begin_def set_reader_def reader_new_def readable_stream_is_locked_def pending_chunks_def handles_def
  reader_handles_def held_def

text \<open>
  C35. A readable stream has one consumer. In every reachable state the receiver is in at most one place (the
  stream's slot, an unused initializer, one reader, one waiting read or iteration, or a Rust consumer), and in none
  exactly when it has been dropped; a reader can be acquired exactly when the stream does not report itself
  locked, and it is then locked.
\<close>

theorem stream_single_consumer:
  assumes "stream_reachable s"
  shows "handles s = of_bool (rs_rx s) \<and>
    ((\<exists>k. fst (get_reader s) = Inr k) \<longleftrightarrow> \<not> readable_stream_is_locked s) \<and>
    readable_stream_is_locked (snd (get_reader s))"
proof -
  have own: "handles s = of_bool (rs_rx s)" using stream_reachable_owned [OF assms] by (simp add: owned_ok_def)
  then have one: "\<not> (rs_slot s \<and> rs_init s)" by (cases "rs_rx s") (auto simp: handles_def)
  have "(\<exists>k. fst (get_reader s) = Inr k) \<longleftrightarrow> \<not> readable_stream_is_locked s"
    by (simp add: get_reader_def run_initializer_def readable_stream_is_locked_def Let_def)
  moreover have "readable_stream_is_locked (snd (get_reader s))"
    using one by (auto simp: get_reader_def run_initializer_def readable_stream_is_locked_def Let_def)
  ultimately show ?thesis using own by simp
qed

theorem stream_single_consumer_witness: "handles rs_reading = 1 \<and> readable_stream_is_locked (snd (get_reader rs_reading))"
  using stream_single_consumer [OF rs_reading_reachable] by (simp add: rs_run_defs)

text \<open>
  C36. Chunks are delivered in order, at most once, and none is skipped: in every reachable state, whatever readers
  were acquired, released or cancelled, what has been delivered is a prefix of what the controller accepted, and as
  long as the receiver has not been dropped the rest is still queued, at most 16 chunks of it in the channel.
\<close>

theorem stream_delivers_in_order:
  assumes "stream_reachable s"
  shows "prefix (rs_out s) (rs_in s) \<and> (rs_rx s \<longrightarrow> rs_in s = rs_out s @ pending_chunks s) \<and> length (rs_queue s) \<le> 16"
  using stream_reachable_data [OF assms] by (simp add: data_ok_def channel_capacity_def)

theorem stream_delivers_in_order_witness: "rs_rx rs_reading \<and> rs_in rs_reading = [Inr [7]] \<and> pending_chunks rs_reading = [Inr [7]]"
  using stream_delivers_in_order [OF rs_reading_reachable] by (simp add: rs_run_defs)

text \<open>
  A read made while another read of the same reader is waiting reports the end of the stream at once, although
  the receiver is alive and chunks may still be queued: the reader takes an empty slot to mean that it was released
  or cancelled, but a waiting read leaves it empty too.
\<close>

theorem overlapping_read_reports_done:
  assumes "stream_reachable s" "k < length (rs_readers s)" "0 < rd_reading (rs_readers s ! k)"
    "\<not> rd_poisoned (rs_readers s ! k)"
  shows "fst (read_begin k s) = Some (Inr Read_Done) \<and> rs_rx s \<and> rs_in s = rs_out s @ pending_chunks s"
  using reading_holds [OF stream_reachable_owned [OF assms(1)] assms(2,3)] stream_reachable_data [OF assms(1)] assms(4)
  by (simp add: read_begin_def Let_def data_ok_def)

theorem overlapping_read_reports_done_witness:
  "fst (read_begin 0 rs_reading) = Some (Inr Read_Done) \<and> pending_chunks rs_reading = [Inr [7]]"
  using overlapping_read_reports_done [OF rs_reading_reachable, of 0] by (simp add: rs_run_defs)

text \<open>
  Iterating a stream whose channel is made on first use ends at once: \<^verbatim>\<open>next\<close> looks at the slot only and never
  runs the initializer, so it reports the end of a stream that is not locked and from which a reader could still
  read everything.
\<close>

theorem lazy_stream_iterates_empty:
  assumes "stream_reachable s" "rs_init s" "\<not> rs_poisoned s"
  shows "next_begin s = (Some (Inr Read_Done), s) \<and> \<not> readable_stream_is_locked s \<and> (\<exists>k. fst (get_reader s) = Inr k)"
proof -
  have "\<not> rs_slot s"
    using stream_reachable_owned [OF assms(1)] assms(2) by (cases "rs_rx s") (auto simp: owned_ok_def handles_def)
  then show ?thesis
    using assms(2,3) by (simp add: next_begin_def readable_stream_is_locked_def get_reader_def run_initializer_def Let_def)
qed

theorem lazy_stream_iterates_empty_witness: "fst (next_begin from_lazy_receiver) = Some (Inr Read_Done)"
  using lazy_stream_iterates_empty [OF stream_reachable.lazy] by (simp add: from_lazy_receiver_def rs_constructor_def)

end
