(* ===== verification/Writable_Stream.thy ===== *)
theory Writable_Stream
  imports Readable_Stream
begin

text \<open>
  Writable streams, \<^verbatim>\<open>modules/rong_stream/src/writable.rs\<close>, and the pipe between a readable and a writable stream
  (\<^verbatim>\<open>pipe_to_with_handles\<close> and the fan-out of \<^verbatim>\<open>tee\<close> in \<^verbatim>\<open>readable.rs\<close>). A writable stream is backed by a channel
  to Rust code or by a JavaScript sink; a writer takes what the stream has and gives it back on \<^verbatim>\<open>releaseLock\<close>.
  The locks of these slots are never held while other code runs, so they are not poisoned. A sink's methods are
  arbitrary functions of the writer's and the stream's state. A write that finds the channel full has no answer
  yet (\<^const>\<open>None\<close>).
\<close>

section \<open>Data\<close>

datatype done_signal = Done_Waiting | Done_Sent "string + unit" | Done_Dropped

record 'o writable_stream =
  ws_tx :: bool
  ws_done :: bool
  ws_err :: "string option"
  ws_sink :: "'o option"
  ws_queue :: "bytes list"
  ws_rx :: bool
  ws_signal :: done_signal

record 'o writable_stream_default_writer =
  wr_tx :: bool
  wr_done :: bool
  wr_sink :: "'o option"

type_synonym 'o w_state = "'o writable_stream_default_writer \<times> 'o writable_stream"

text \<open>A method of a sink: absent, or what calling it does.\<close>

type_synonym 'o sink_method = "'o \<Rightarrow> ('o w_state \<Rightarrow> unit js_result \<times> 'o w_state) option"

definition to_sender :: "'o writable_stream" where
  "to_sender = \<lparr>ws_tx = True, ws_done = False, ws_err = None, ws_sink = None, ws_queue = [], ws_rx = True,
     ws_signal = Done_Dropped\<rparr>"

definition to_async_writer :: "'o writable_stream" where
  "to_async_writer = to_sender\<lparr>ws_done := True, ws_signal := Done_Waiting\<rparr>"

definition ws_constructor :: "'o option \<Rightarrow> 'o writable_stream" where
  "ws_constructor sink = to_sender\<lparr>ws_tx := False, ws_sink := sink, ws_rx := False\<rparr>"

section \<open>The task behind an asynchronous writer\<close>

text \<open>
  Write the chunks until one fails, flush, and report the first failure in the error slot and on the completion
  signal. The writer itself is a parameter: what writing a chunk and flushing answer.
\<close>

fun write_chunks :: "('w \<Rightarrow> bytes \<Rightarrow> string option \<times> 'w) \<Rightarrow> 'w \<Rightarrow> bytes list \<Rightarrow> string option \<times> 'w" where
  "write_chunks write_all w [] = (None, w)"
| "write_chunks write_all w (c # cs) =
     (case write_all w c of
        (Some e, w) \<Rightarrow> (Some e, w)
      | (None, w) \<Rightarrow> write_chunks write_all w cs)"

definition writer_task ::
  "('w \<Rightarrow> bytes \<Rightarrow> string option \<times> 'w) \<Rightarrow> ('w \<Rightarrow> string option) \<Rightarrow> 'w \<Rightarrow> bytes list \<Rightarrow> 'o writable_stream \<Rightarrow> 'o writable_stream"
where
  "writer_task write_all flush w chunks ws =
     (case write_chunks write_all w chunks of
        (error, w) \<Rightarrow>
          (let error = (case flush w of
                          Some e \<Rightarrow> (if error = None then Some e else error)
                        | None \<Rightarrow> error);
               ws = (case error of Some e \<Rightarrow> ws\<lparr>ws_err := Some e\<rparr> | None \<Rightarrow> ws)
           in ws\<lparr>ws_rx := False, ws_queue := [],
                 ws_signal := Done_Sent (case error of Some e \<Rightarrow> Inl e | None \<Rightarrow> Inr ())\<rparr>))"

section \<open>Acquiring and releasing a writer\<close>

definition writable_locked :: rong_js_error where
  "writable_locked = Host (with_name ''TypeError'' (he_new E_INVALID_STATE ''WritableStream is locked''))"

definition get_writer ::
  "'o writable_stream \<Rightarrow> 'o writable_stream_default_writer js_result \<times> 'o writable_stream" where
  "get_writer ws =
     (if ws_tx ws then
        (Inr \<lparr>wr_tx = True, wr_done = ws_done ws, wr_sink = None\<rparr>, ws\<lparr>ws_tx := False, ws_done := False\<rparr>)
      else
        (case ws_sink ws of
           None \<Rightarrow> (Inl writable_locked, ws)
         | Some sink \<Rightarrow>
             (Inr \<lparr>wr_tx = False, wr_done = False, wr_sink = Some sink\<rparr>, ws\<lparr>ws_sink := None\<rparr>)))"

definition stream_abort :: "'o writable_stream \<Rightarrow> unit js_result \<times> 'o writable_stream" where
  "stream_abort ws = (Inr (), ws\<lparr>ws_tx := False\<rparr>)"

definition writer_release_lock :: "'o w_state \<Rightarrow> unit js_result \<times> 'o w_state" where
  "writer_release_lock st =
     (case st of
        (wr, ws) \<Rightarrow>
          (Inr (),
           wr\<lparr>wr_tx := False, wr_done := False, wr_sink := None\<rparr>,
           ws\<lparr>ws_tx := ws_tx ws \<or> wr_tx wr, ws_done := ws_done ws \<or> wr_done wr,
              ws_sink := (if ws_sink ws = None then wr_sink wr else ws_sink ws)\<rparr>))"

text \<open>For the fast path: only a writer backed by a channel gives its sender and completion signal away.\<close>

definition writer_take_channel ::
  "'o writable_stream_default_writer \<Rightarrow> bool option \<times> 'o writable_stream_default_writer" where
  "writer_take_channel wr =
     (if wr_sink wr \<noteq> None then (None, wr)
      else if wr_tx wr then (Some (wr_done wr), wr\<lparr>wr_tx := False, wr_done := False\<rparr>)
      else (None, wr))"

section \<open>Writing\<close>

definition write_error :: "string \<Rightarrow> rong_js_error" where
  "write_error e = Host (he_new E_STREAM (''WritableStream error: '' @ e))"

definition channel_send :: "bytes \<Rightarrow> 'o w_state \<Rightarrow> unit js_result option \<times> 'o w_state" where
  "channel_send b st =
     (case st of
        (wr, ws) \<Rightarrow>
          if \<not> wr_tx wr then
            (Some (Inl (Host (he_new E_INVALID_STATE ''Writer not acquired or closed''))), st)
          else if \<not> ws_rx ws then (Some (Inl (Host (he_new E_INVALID_STATE ''WritableStream closed''))), st)
          else if length (ws_queue ws) < channel_capacity
          then (Some (Inr ()), wr, ws\<lparr>ws_queue := ws_queue ws @ [b]\<rparr>)
          else (None, st))"

text \<open>\<^verbatim>\<open>write\<close>, given the sink's method.\<close>

definition writer_write ::
  "'o sink_method \<Rightarrow> js_chunk \<Rightarrow> 'o w_state \<Rightarrow> unit js_result option \<times> 'o w_state" where
  "writer_write write_fn chunk st =
     (case ws_err (snd st) of
        Some e \<Rightarrow> (Some (Inl (write_error e)), st)
      | None \<Rightarrow>
          (case Option.bind (wr_sink (fst st)) write_fn of
             Some call \<Rightarrow> (case call st of (r, st) \<Rightarrow> (Some r, st))
           | None \<Rightarrow>
               (case chunk_to_bytes ''write'' chunk of Inl e \<Rightarrow> (Some (Inl e), st) | Inr b \<Rightarrow> channel_send b st)))"

text \<open>A method that is absent or answers normally lets the operation go on.\<close>

definition call_sink :: "'o sink_method \<Rightarrow> 'o w_state \<Rightarrow> rong_js_error option \<times> 'o w_state" where
  "call_sink method st =
     (case Option.bind (wr_sink (fst st)) method of
        None \<Rightarrow> (None, st)
      | Some call \<Rightarrow> (case call st of (Inl e, st) \<Rightarrow> (Some e, st) | (Inr _, st) \<Rightarrow> (None, st)))"

definition await_done :: "bool \<Rightarrow> done_signal \<Rightarrow> unit js_result option" where
  "await_done has_rx signal =
     (if \<not> has_rx then Some (Inr ())
      else
        (case signal of
           Done_Waiting \<Rightarrow> None
         | Done_Sent (Inr _) \<Rightarrow> Some (Inr ())
         | Done_Sent (Inl e) \<Rightarrow> Some (Inl (stream_failed e))
         | Done_Dropped \<Rightarrow> Some (Inr ())))"

definition writer_close :: "'o sink_method \<Rightarrow> 'o w_state \<Rightarrow> unit js_result option \<times> 'o w_state" where
  "writer_close close_fn st =
     (case call_sink close_fn st of
        (Some e, st) \<Rightarrow> (Some (Inl e), st)
      | (None, wr, ws) \<Rightarrow>
          (await_done (wr_done wr) (ws_signal ws), wr\<lparr>wr_tx := False, wr_done := False\<rparr>, ws))"

definition writer_abort :: "'o sink_method \<Rightarrow> 'o w_state \<Rightarrow> unit js_result \<times> 'o w_state" where
  "writer_abort abort_fn st =
     (case call_sink abort_fn st of
        (Some e, st) \<Rightarrow> (Inl e, st)
      | (None, wr, ws) \<Rightarrow> (Inr (), wr\<lparr>wr_tx := False\<rparr>, ws))"

section \<open>Failures of the task surface\<close>

text \<open>
  A failure of the underlying writer, of a chunk or of the final flush, is what every later \<^verbatim>\<open>write\<close> and the
  \<^verbatim>\<open>close\<close> that waits for completion report; without a failure both go on, and everything has been written.
\<close>

lemma writer_task_failure:
  assumes "fst (write_chunks write_all w chunks) = Some e"
  shows "ws_err (writer_task write_all flush w chunks ws) = Some e \<and>
    ws_signal (writer_task write_all flush w chunks ws) = Done_Sent (Inl e)"
  using assms by (auto simp: writer_task_def Let_def split: prod.split option.split)

lemma writer_task_success:
  assumes "write_chunks write_all w chunks = (None, w')" "flush w' = None"
  shows "ws_err (writer_task write_all flush w chunks ws) = ws_err ws \<and>
    ws_signal (writer_task write_all flush w chunks ws) = Done_Sent (Inr ())"
  using assms by (simp add: writer_task_def Let_def)

lemma failure_surfaces:
  assumes "ws_err ws = Some e" "ws_signal ws = Done_Sent (Inl e)" "wr_done wr" "wr_sink wr = None"
  shows "writer_write write_fn chunk (wr, ws) = (Some (Inl (write_error e)), wr, ws) \<and>
    fst (writer_close close_fn (wr, ws)) = Some (Inl (stream_failed e))"
  using assms by (simp add: writer_write_def writer_close_def call_sink_def await_done_def)

end
