(* ===== verification/Stream_Pipe.thy ===== *)
theory Stream_Pipe
  imports Writable_Stream
begin

text \<open>
  Moving data between streams, \<^verbatim>\<open>modules/rong_stream/src/readable.rs\<close>: \<^verbatim>\<open>pipe_to_with_handles\<close> with its direct
  path between two channels and its path through a JavaScript sink, and the fan-out of \<^verbatim>\<open>tee\<close>. What arrives
  from the source and from the abort signal is a list of events; a list that runs out leaves the operation
  waiting (\<^const>\<open>None\<close>). The receiving side of a channel takes any number of chunks, or a fixed number before it
  is dropped.
\<close>

section \<open>Pipes\<close>

record pipe_to_options =
  po_prevent_close :: "bool option"
  po_prevent_abort :: "bool option"
  po_prevent_cancel :: "bool option"

definition po_default :: pipe_to_options where
  "po_default = \<lparr>po_prevent_close = None, po_prevent_abort = None, po_prevent_cancel = None\<rparr>"

definition unwrap_or_false :: "bool option \<Rightarrow> bool" where
  "unwrap_or_false b = (case b of Some b \<Rightarrow> b | None \<Rightarrow> False)"

datatype pipe_event = Pipe_Item "stream_chunk option" | Pipe_Abort rong_js_error

fun room_dec :: "nat option \<Rightarrow> nat option" where
  "room_dec None = None"
| "room_dec (Some n) = Some (n - 1)"

text \<open>The pump between two channels: the error it ends with, and the chunks it sent.\<close>

fun pump_channels :: "pipe_event list \<Rightarrow> nat option \<Rightarrow> bytes list \<Rightarrow> (rong_js_error option \<times> bytes list) option" where
  "pump_channels [] room sent = None"
| "pump_channels (Pipe_Abort reason # evs) room sent = Some (Some reason, sent)"
| "pump_channels (Pipe_Item None # evs) room sent = Some (None, sent)"
| "pump_channels (Pipe_Item (Some (Inl e)) # evs) room sent = Some (Some (stream_failed e), sent)"
| "pump_channels (Pipe_Item (Some (Inr b)) # evs) room sent =
     (if room = Some 0 then Some (None, sent) else pump_channels evs (room_dec room) (sent @ [b]))"

definition pipe_fast ::
  "'o sink_method \<Rightarrow> pipe_to_options \<Rightarrow> bool \<Rightarrow> pipe_event list \<Rightarrow> nat option \<Rightarrow> 'o w_state \<Rightarrow>
     (unit js_result \<times> bytes list \<times> 'o w_state) option" where
  "pipe_fast abort_fn opts has_done evs room st =
     (case pump_channels evs room [] of
        None \<Rightarrow> None
      | Some (None, sent) \<Rightarrow>
          if \<not> unwrap_or_false (po_prevent_close opts) \<and> await_done has_done (ws_signal (snd st)) = None then None
          else Some (Inr (), sent, snd (writer_release_lock st))
      | Some (Some e, sent) \<Rightarrow>
          (let st = (if \<not> unwrap_or_false (po_prevent_abort opts) then snd (writer_abort abort_fn st) else st) in
           Some (Inl e, sent, snd (writer_release_lock st))))"

text \<open>
  The pump through a sink: each turn sees the abort signal, or what the read answered and whether the signal was
  aborted by then. A failed read leaves the function at once.
\<close>

datatype js_event =
    Js_Abort rong_js_error
  | Js_Read_Failed rong_js_error
  | Js_Read_End
  | Js_Chunk bytes "rong_js_error option"

datatype pump_end = Pump_Early rong_js_error | Pump_Done "rong_js_error option" bool

fun pump_js ::
  "'o sink_method \<Rightarrow> bool \<Rightarrow> js_event list \<Rightarrow> bytes list \<Rightarrow> 'o w_state \<Rightarrow> (pump_end \<times> bytes list \<times> 'o w_state) option"
where
  "pump_js write_fn prevent_cancel [] written st = None"
| "pump_js write_fn prevent_cancel (Js_Abort reason # evs) written st =
     Some (Pump_Done (Some reason) False, written, st)"
| "pump_js write_fn prevent_cancel (Js_Read_Failed e # evs) written st = Some (Pump_Early e, written, st)"
| "pump_js write_fn prevent_cancel (Js_Read_End # evs) written st = Some (Pump_Done None False, written, st)"
| "pump_js write_fn prevent_cancel (Js_Chunk b aborted # evs) written st =
     (case aborted of
        Some reason \<Rightarrow> Some (Pump_Done (Some reason) False, written, st)
      | None \<Rightarrow>
          (case writer_write write_fn (Array_Buffer b) st of
             (None, _) \<Rightarrow> None
           | (Some (Inl e), st) \<Rightarrow> Some (Pump_Done (Some e) (\<not> prevent_cancel), written, st)
           | (Some (Inr _), st) \<Rightarrow> pump_js write_fn prevent_cancel evs (written @ [b]) st))"

definition pipe_js ::
  "'o sink_method \<Rightarrow> 'o sink_method \<Rightarrow> 'o sink_method \<Rightarrow> pipe_to_options \<Rightarrow> rong_js_error option \<Rightarrow> js_event list \<Rightarrow>
     'o w_state \<Rightarrow> (unit js_result \<times> bytes list \<times> 'o w_state) option" where
  "pipe_js write_fn close_fn abort_fn opts pre_aborted evs st =
     (case (case pre_aborted of
              Some e \<Rightarrow> Some (Pump_Done (Some e) False, [], st)
            | None \<Rightarrow> pump_js write_fn (unwrap_or_false (po_prevent_cancel opts)) evs [] st) of
        None \<Rightarrow> None
      | Some (Pump_Early e, written, st) \<Rightarrow> Some (Inl e, written, st)
      | Some (Pump_Done (Some e) _, written, st) \<Rightarrow>
          (let st = (if \<not> unwrap_or_false (po_prevent_abort opts) \<and> pre_aborted = None
                     then snd (writer_abort abort_fn st) else st) in
           Some (Inl e, written, snd (writer_release_lock st)))
      | Some (Pump_Done None _, written, st) \<Rightarrow>
          if unwrap_or_false (po_prevent_close opts) then Some (Inr (), written, snd (writer_release_lock st))
          else
            (case writer_close close_fn st of
               (None, _) \<Rightarrow> None
             | (Some _, st) \<Rightarrow> Some (Inr (), written, snd (writer_release_lock st))))"

text \<open>
  The two paths: the direct one needs a channel on both sides; \<open>reader_rx\<close> tells whether the reader still has its
  receiver.
\<close>

definition pipe_to_with_handles ::
  "'o sink_method \<Rightarrow> 'o sink_method \<Rightarrow> 'o sink_method \<Rightarrow> pipe_to_options option \<Rightarrow> rong_js_error option \<Rightarrow> bool \<Rightarrow>
     pipe_event list \<Rightarrow> nat option \<Rightarrow> js_event list \<Rightarrow> 'o w_state \<Rightarrow> (unit js_result \<times> bytes list \<times> 'o w_state) option" where
  "pipe_to_with_handles write_fn close_fn abort_fn options pre_aborted reader_rx evs room js_evs st =
     (let opts = (case options of Some opts \<Rightarrow> opts | None \<Rightarrow> po_default) in
      if pre_aborted \<noteq> None then pipe_js write_fn close_fn abort_fn opts pre_aborted js_evs st
      else
        (case writer_take_channel (fst st) of
           (Some has_done, wr) \<Rightarrow>
             if reader_rx then pipe_fast abort_fn opts has_done evs room (wr, snd st)
             else pipe_js write_fn close_fn abort_fn opts None js_evs (wr, snd st)
         | (None, wr) \<Rightarrow> pipe_js write_fn close_fn abort_fn opts None js_evs (wr, snd st)))"

section \<open>Splitting a stream\<close>

text \<open>A branch: whether its sender is still held, how much its consumer takes, and what it got.\<close>

record tee_branch =
  tb_tx :: bool
  tb_room :: "nat option"
  tb_got :: "stream_chunk list"

definition branch_new :: "nat option \<Rightarrow> tee_branch" where
  "branch_new room = \<lparr>tb_tx = True, tb_room = room, tb_got = []\<rparr>"

definition branch_send :: "stream_chunk \<Rightarrow> tee_branch \<Rightarrow> tee_branch" where
  "branch_send c br =
     (if \<not> tb_tx br then br
      else if tb_room br = Some 0 then br\<lparr>tb_tx := False\<rparr>
      else br\<lparr>tb_got := tb_got br @ [c], tb_room := room_dec (tb_room br)\<rparr>)"

fun tee_loop :: "stream_chunk list \<Rightarrow> tee_branch \<Rightarrow> tee_branch \<Rightarrow> tee_branch \<times> tee_branch" where
  "tee_loop [] b1 b2 = (b1, b2)"
| "tee_loop (Inr b # cs) b1 b2 =
     (let b1 = branch_send (Inr b) b1; b2 = branch_send (Inr b) b2 in
      if \<not> tb_tx b1 \<and> \<not> tb_tx b2 then (b1, b2) else tee_loop cs b1 b2)"
| "tee_loop (Inl e # cs) b1 b2 = (branch_send (Inl e) b1, branch_send (Inl e) b2)"

section \<open>The direct path\<close>

definition items :: "bytes list \<Rightarrow> pipe_event list" where
  "items bs = map (\<lambda>b. Pipe_Item (Some (Inr b))) bs"

lemma items_simps [simp]: "items [] = []" "items (b # bs) = Pipe_Item (Some (Inr b)) # items bs"
  by (simp_all add: items_def)

lemma pump_channels_unbounded: "pump_channels (items bs @ evs) None sent = pump_channels evs None (sent @ bs)"
  by (induction bs arbitrary: sent) simp_all

lemma pump_channels_bounded:
  "n < length bs \<Longrightarrow> pump_channels (items bs @ evs) (Some n) sent = Some (None, sent @ take n bs)"
proof (induction bs arbitrary: n sent)
  case (Cons b bs)
  then show ?case by (cases n) simp_all
qed simp

lemma js_chunks:
  assumes "\<And>b. writer_write write_fn (Array_Buffer b) st = (Some (Inr ()), st)"
  shows "pump_js write_fn p (map (\<lambda>b. Js_Chunk b None) bs @ evs) written st = pump_js write_fn p evs (written @ bs) st"
  using assms by (induction bs arbitrary: written) simp_all

section \<open>Branches\<close>

fun until_error :: "stream_chunk list \<Rightarrow> stream_chunk list" where
  "until_error [] = []"
| "until_error (Inr b # cs) = Inr b # until_error cs"
| "until_error (Inl e # cs) = [Inl e]"

lemma branch_send_unbounded [simp]:
  "tb_tx br \<Longrightarrow> tb_room br = None \<Longrightarrow> branch_send c br = br\<lparr>tb_got := tb_got br @ [c]\<rparr>"
  by (simp add: branch_send_def)

lemma tee_first:
  "tb_tx b1 \<Longrightarrow> tb_room b1 = None \<Longrightarrow> tb_got (fst (tee_loop cs b1 b2)) = tb_got b1 @ until_error cs"
  by (induction cs b1 b2 rule: tee_loop.induct) (simp_all add: Let_def)

lemma tee_second:
  "tb_tx b2 \<Longrightarrow> tb_room b2 = None \<Longrightarrow> tb_got (snd (tee_loop cs b1 b2)) = tb_got b2 @ until_error cs"
  by (induction cs b1 b2 rule: tee_loop.induct) (simp_all add: Let_def)

section \<open>The writer's lock\<close>

definition writer_acquire :: "'o writable_stream \<Rightarrow> ('o writable_stream_default_writer \<times> 'o writable_stream) option" where
  "writer_acquire ws = (case get_writer ws of (Inr wr, ws') \<Rightarrow> Some (wr, ws') | (Inl _, _) \<Rightarrow> None)"

definition writer_release :: "'o writable_stream_default_writer \<Rightarrow> 'o writable_stream \<Rightarrow> 'o writable_stream" where
  "writer_release wr ws = snd (snd (writer_release_lock (wr, ws)))"

text \<open>A stream has a channel or a sink, never both.\<close>

definition one_backend :: "'o writable_stream \<Rightarrow> bool" where
  "one_backend ws \<longleftrightarrow> \<not> (ws_tx ws \<and> ws_sink ws \<noteq> None)"

lemma writer_acquire_release:
  assumes "one_backend ws" "writer_acquire ws = Some (wr, ws')"
  shows "writer_release wr ws' = ws" "fst (get_writer ws') = Inl writable_locked"
proof -
  consider "ws_tx ws" "ws_sink ws = None" | sink where "\<not> ws_tx ws" "ws_sink ws = Some sink" | "\<not> ws_tx ws" "ws_sink ws = None"
    using assms(1) by (cases "ws_tx ws"; cases "ws_sink ws") (auto simp: one_backend_def)
  then have "writer_release wr ws' = ws \<and> fst (get_writer ws') = Inl writable_locked"
    by cases (use assms(2) in \<open>auto simp: writer_acquire_def get_writer_def writer_release_def writer_release_lock_def\<close>)
  then show "writer_release wr ws' = ws" "fst (get_writer ws') = Inl writable_locked" by simp_all
qed

interpretation writer_lock: exclusive_loan writer_acquire writer_release one_backend "\<lambda>ws. ws"
proof
  fix ws ws' :: "'o writable_stream" and wr
  assume s: "one_backend ws" "writer_acquire ws = Some (wr, ws')"
  note d = writer_acquire_release [OF s]
  show "writer_acquire ws' = None" using d(2) by (cases "get_writer ws'") (simp add: writer_acquire_def)
  show "writer_acquire (writer_release wr ws') \<noteq> None" using s(2) by (simp add: d(1))
  show "writer_release wr ws' = ws" by (rule d(1))
  show "one_backend (writer_release wr ws')" using s(1) by (simp add: d(1))
qed

section \<open>Properties\<close>

text \<open>
  The locks of streams are loans. While a reader or a writer is out, another one is refused; any number of
  acquisitions and releases leaves a readable stream available with its queued chunks, its history and its receiver
  untouched, and gives a writable stream back exactly as it was.
\<close>

theorem stream_locks_are_loans:
  assumes "stream_reachable s" "reader_acquire s = Some (k, s')" "one_backend ws" "writer_acquire ws = Some (wr, ws')"
  shows "reader_acquire s' = None \<and> fst (get_writer ws') = Inl writable_locked \<and>
    pending_chunks ((reader_lock.loan ^^ n) s) = pending_chunks s \<and> rs_rx ((reader_lock.loan ^^ n) s) = rs_rx s \<and>
    reader_acquire ((reader_lock.loan ^^ n) s) \<noteq> None \<and> (writer_lock.loan ^^ n) ws = ws"
proof -
  have l: "lendable s"
    using stream_reachable_owned [OF assms(1)] assms(2)
    by (auto simp: lendable_def reader_acquire_def get_reader_def)
  show ?thesis
    using reader_lock.exclusive [OF l assms(2)] writer_acquire_release(2) [OF assms(3,4)]
      reader_lock.loans_keep [OF l, of n] writer_lock.loans_keep [OF assms(3), of n] assms(2,4) by simp
qed

theorem stream_locks_are_loans_witness:
  "reader_acquire ((reader_lock.loan ^^ 3) from_lazy_receiver) \<noteq> None \<and>
   (writer_lock.loan ^^ 3) (to_async_writer :: nat writable_stream) = to_async_writer"
proof -
  obtain k s where r: "reader_acquire from_lazy_receiver = Some (k, s)"
    by (simp add: reader_acquire_def get_reader_def from_lazy_receiver_def rs_constructor_def run_initializer_def Let_def)
  obtain wr ws where w: "writer_acquire (to_async_writer :: nat writable_stream) = Some (wr, ws)"
    by (simp add: writer_acquire_def get_writer_def to_async_writer_def to_sender_def)
  have o: "one_backend (to_async_writer :: nat writable_stream)"
    by (simp add: one_backend_def to_async_writer_def to_sender_def)
  show ?thesis using stream_locks_are_loans [OF stream_reachable.lazy r o w, of 3] by simp
qed

text \<open>
  A pipe copies: on the direct path, a source that delivers the chunks \<open>bs\<close> and ends makes the pipe send exactly
  \<open>bs\<close>, in order, and succeed once the destination is done; one that delivers \<open>bs\<close> and fails makes it send \<open>bs\<close> and
  fail with that error. Through a sink whose \<^verbatim>\<open>write\<close> succeeds, exactly \<open>bs\<close> is written and the pipe succeeds.
\<close>

theorem pipe_copies_in_order:
  assumes "wr_tx wr" "wr_sink wr = None" "await_done (wr_done wr) (ws_signal ws) \<noteq> None"
    and "\<And>b. writer_write write_fn (Array_Buffer b) st = (Some (Inr ()), st)" "wr_sink (fst st) \<noteq> None"
      "fst (writer_close close_fn st) \<noteq> None"
  shows "(\<exists>st'. pipe_to_with_handles write_fn close_fn abort_fn options None True (items bs @ [Pipe_Item None]) None js_evs
            (wr, ws) = Some (Inr (), bs, st')) \<and>
    (\<exists>st'. pipe_to_with_handles write_fn close_fn abort_fn options None True (items bs @ [Pipe_Item (Some (Inl e))]) None
            js_evs (wr, ws) = Some (Inl (stream_failed e), bs, st')) \<and>
    (\<exists>st'. pipe_to_with_handles write_fn close_fn abort_fn options None True evs room
            (map (\<lambda>b. Js_Chunk b None) bs @ [Js_Read_End]) st = Some (Inr (), bs, st'))"
proof -
  have t: "writer_take_channel wr = (Some (wr_done wr), wr\<lparr>wr_tx := False, wr_done := False\<rparr>)"
    using assms(1,2) by (simp add: writer_take_channel_def)
  have n: "writer_take_channel (fst st) = (None, fst st)" using assms(5) by (simp add: writer_take_channel_def)
  obtain r st' where "writer_close close_fn st = (Some r, st')" using assms(6) by (metis not_None_eq prod.collapse)
  moreover obtain y where "await_done (wr_done wr) (ws_signal ws) = Some y" using assms(3) by auto
  ultimately show ?thesis
    by (simp add: pipe_to_with_handles_def t n pipe_fast_def pipe_js_def pump_channels_unbounded js_chunks [OF assms(4)] Let_def)
qed

theorem pipe_copies_in_order_witness:
  "\<exists>st'. pipe_to_with_handles (\<lambda>_. Some (\<lambda>st. (Inr (), st))) (\<lambda>_. None) (\<lambda>_. None) None None True
     (items [[1], [2, 3]] @ [Pipe_Item None]) None []
     (\<lparr>wr_tx = True, wr_done = False, wr_sink = None :: nat option\<rparr>, to_sender) = Some (Inr (), [[1], [2, 3]], st')"
  using pipe_copies_in_order [of "\<lparr>wr_tx = True, wr_done = False, wr_sink = None :: nat option\<rparr>" to_sender
      "\<lambda>_. Some (\<lambda>st. (Inr (), st))" "(\<lparr>wr_tx = False, wr_done = False, wr_sink = Some 1\<rparr>, to_sender)" "\<lambda>_. None"
      "\<lambda>_. None" None "[[1], [2, 3]]" "[]"]
  by (simp add: await_done_def writer_write_def to_sender_def writer_close_def call_sink_def)

text \<open>
  The branches of a split stream are independent: a branch that is being consumed gets every chunk of the source
  in order, up to and including its first error, whatever the consumer of the other branch does.
\<close>

theorem tee_branches_independent:
  "tb_got (fst (tee_loop cs (branch_new None) b)) = until_error cs \<and>
   tb_got (snd (tee_loop cs b (branch_new None))) = until_error cs"
  using tee_first [of "branch_new None"] tee_second [of "branch_new None"] by (simp add: branch_new_def)

text \<open>
  The direct path hides a failing destination: when the receiving side goes away after \<open>n\<close> of the chunks, the pipe
  reports success although only those \<open>n\<close> were sent.
\<close>

theorem fast_pipe_hides_write_failure:
  assumes "wr_tx wr" "wr_sink wr = None" "await_done (wr_done wr) (ws_signal ws) \<noteq> None" "n < length bs"
  shows "\<exists>st'. pipe_to_with_handles write_fn close_fn abort_fn options None True (items bs @ evs) (Some n) js_evs (wr, ws) =
    Some (Inr (), take n bs, st')"
  using assms
  by (simp add: pipe_to_with_handles_def writer_take_channel_def pipe_fast_def pump_channels_bounded Let_def)

text \<open>
  It also ends the destination whatever \<^verbatim>\<open>preventClose\<close> says: the sender was moved out of the writer and is dropped,
  so after the pipe the destination refuses every new writer.
\<close>

theorem fast_pipe_ends_destination:
  assumes "wr_tx wr" "wr_sink wr = None" "\<not> ws_tx ws" "ws_sink ws = None"
    "pipe_to_with_handles write_fn close_fn abort_fn options None True evs room js_evs (wr, ws) = Some (r, sent, st')"
  shows "fst (get_writer (snd st')) = Inl writable_locked"
  using assms
  by (auto simp: pipe_to_with_handles_def writer_take_channel_def pipe_fast_def writer_release_lock_def writer_abort_def
      call_sink_def get_writer_def Let_def split: option.splits prod.splits if_splits)

text \<open>
  A failed read on the path through a sink leaves without releasing anything: the destination is neither aborted nor
  closed, and stays locked.
\<close>

theorem js_pipe_read_failure_leaks_locks:
  assumes "wr_sink (fst st) \<noteq> None"
  shows "pipe_to_with_handles write_fn close_fn abort_fn options None True evs room (Js_Read_Failed e # js_evs) st =
    Some (Inl e, [], st)"
  using assms by (simp add: pipe_to_with_handles_def writer_take_channel_def pipe_js_def Let_def)

end
