(* ===== verification/Http_Client.thy ===== *)
theory Http_Client
  imports Rust_String "HOL-Library.Sublist"
begin

text \<open>
  The HTTP client every transfer goes through, \<^verbatim>\<open>rong_rt/src/client.rs\<close>: the proxy setting and the cache of the
  connection pool, the timeouts of a request, and the task that reads a response body and hands it to its consumer
  either whole or as a channel of coalesced chunks. The connection itself (hyper, TLS, the resolver) and the
  clock are outside; what they answer is an argument.
\<close>

section \<open>Proxy and client cache\<close>

text \<open>What \<^verbatim>\<open>http::Uri\<close> reports of a parsed URI.\<close>

record proxy_uri =
  px_text :: string
  px_scheme :: "string option"
  px_authority :: "string option"
  px_host :: "string option"

definition parse_proxy_uri :: "(string \<Rightarrow> string + proxy_uri) \<Rightarrow> string \<Rightarrow> string + proxy_uri" where
  "parse_proxy_uri uri_parse proxy_url =
     (case uri_parse proxy_url of
        Inl e \<Rightarrow> Inl (''invalid proxy URL: '' @ e)
      | Inr uri \<Rightarrow>
          if px_scheme uri \<noteq> Some ''http'' then
            Inl ''unsupported proxy URL scheme (only http:// is supported)''
          else if px_authority uri = None then Inl ''proxy URL must include host[:port]''
          else if px_host uri = None then Inl ''proxy URL must include host''
          else Inr uri)"

record request_timeouts =
  rt_request :: "duration option"
  rt_connect :: "duration option"

text \<open>A client is what it was built with and the number of its connection pool: two clients share connections exactly
  when the numbers agree, as the clones of one \<^verbatim>\<open>Client\<close> do.\<close>

record http_client =
  hc_proxy :: "proxy_uri option"
  hc_connect_timeout :: "duration option"
  hc_pool :: nat

record client_store =
  cs_proxy :: "proxy_uri option"
  cs_cache :: "(proxy_uri option \<times> http_client) option"
  cs_next_pool :: nat

definition cs_init :: client_store where
  "cs_init = \<lparr>cs_proxy = None, cs_cache = None, cs_next_pool = 0\<rparr>"

definition invalidate_client_cache :: "client_store \<Rightarrow> client_store" where
  "invalidate_client_cache s = s\<lparr>cs_cache := None\<rparr>"

definition set_proxy :: "(string \<Rightarrow> string + proxy_uri) \<Rightarrow> string \<Rightarrow> client_store \<Rightarrow> (string + unit) \<times> client_store" where
  "set_proxy uri_parse proxy_url s =
     (case parse_proxy_uri uri_parse proxy_url of
        Inl e \<Rightarrow> (Inl e, s)
      | Inr uri \<Rightarrow> (Inr (), invalidate_client_cache (s\<lparr>cs_proxy := Some uri\<rparr>)))"

definition clear_proxy :: "client_store \<Rightarrow> client_store" where
  "clear_proxy s = invalidate_client_cache (s\<lparr>cs_proxy := None\<rparr>)"

definition get_proxy :: "client_store \<Rightarrow> string option" where
  "get_proxy s = map_option px_text (cs_proxy s)"

definition build_client :: "proxy_uri option \<Rightarrow> duration option \<Rightarrow> client_store \<Rightarrow> http_client \<times> client_store" where
  "build_client proxy connect_timeout s =
     (\<lparr>hc_proxy = proxy, hc_connect_timeout = connect_timeout, hc_pool = cs_next_pool s\<rparr>,
      s\<lparr>cs_next_pool := Suc (cs_next_pool s)\<rparr>)"

definition client :: "bool \<Rightarrow> request_timeouts \<Rightarrow> client_store \<Rightarrow> http_client \<times> client_store" where
  "client guarded timeouts s =
     (let proxy = (if guarded then None else cs_proxy s);
          connect_timeout = rt_connect timeouts
      in if guarded then build_client None connect_timeout s
         else
           (case cs_cache s of
              Some (p, c) \<Rightarrow>
                if p = proxy \<and> connect_timeout = None then (c, s)
                else (case build_client proxy connect_timeout s of
                        (built, s') \<Rightarrow>
                          if connect_timeout \<noteq> None then (built, s')
                          else (built, s'\<lparr>cs_cache := Some (proxy, built)\<rparr>))
            | None \<Rightarrow>
                (case build_client proxy connect_timeout s of
                   (built, s') \<Rightarrow>
                     if connect_timeout \<noteq> None then (built, s')
                     else (built, s'\<lparr>cs_cache := Some (proxy, built)\<rparr>))))"

text \<open>The resolver: the guard is asked about every address, the first refusal fails the lookup.\<close>

definition resolve_guarded ::
  "(string \<Rightarrow> string \<Rightarrow> string option) option \<Rightarrow> string \<Rightarrow> string + string list \<Rightarrow> string + string list" where
  "resolve_guarded guard host resolved =
     (case resolved of
        Inl e \<Rightarrow> Inl e
      | Inr addresses \<Rightarrow>
          (case guard of
             None \<Rightarrow> Inr addresses
           | Some check \<Rightarrow>
               (case List.find (\<lambda>a. check host a \<noteq> None) addresses of
                  Some a \<Rightarrow> Inl (the (check host a))
                | None \<Rightarrow> Inr addresses)))"

section \<open>Reading a response body\<close>

definition DEFAULT_REQUEST_TIMEOUT :: duration where
  "DEFAULT_REQUEST_TIMEOUT = 60 * 10 ^ 9"

definition DEFAULT_STREAM_COALESCE_TARGET :: nat where
  "DEFAULT_STREAM_COALESCE_TARGET = 512 * 1024"

definition MIN_STREAM_COALESCE_TARGET :: nat where
  "MIN_STREAM_COALESCE_TARGET = 4 * 1024"

definition READ_FRAME_TIMEOUT :: duration where
  "READ_FRAME_TIMEOUT = 120 * 10 ^ 9"

text \<open>An instant is the number of nanoseconds since an origin; subtraction saturates at zero.\<close>

definition body_frame_timeout :: "nat option \<Rightarrow> nat \<Rightarrow> duration \<Rightarrow> string + (duration \<times> bool)" where
  "body_frame_timeout request_deadline now read_frame_timeout =
     (case request_deadline of
        None \<Rightarrow> Inr (read_frame_timeout, False)
      | Some deadline \<Rightarrow>
          (let remaining = deadline - now in
           if remaining = 0 then Inl ''request timeout''
           else Inr (min remaining read_frame_timeout, remaining \<le> read_frame_timeout)))"

text \<open>The message of an error and of its causes.\<close>

fun chain :: "string \<Rightarrow> string list \<Rightarrow> string" where
  "chain message [] = message"
| "chain message (cause # sources) = chain (message @ '': '' @ cause) sources"

text \<open>What one wait for a frame ends with: data, a frame without data, an error of the connection, the end of the body,
  the timeout, or the abort signal.\<close>

datatype frame_read =
    Frame_Data string | Frame_Trailers | Frame_Error string | Frame_End | Frame_Timeout | Frame_Aborted

datatype rec_event = Rec_Head nat | Rec_Chunk string | Rec_Fail string | Rec_Abort | Rec_Complete

text \<open>
  The body of at most \<^verbatim>\<open>small\<close> bytes is collected before the response is returned. Each element of the list is
  one turn of the loop: the clock when it starts and what the wait gives; a list that runs out leaves the loop
  waiting, the value \<^const>\<open>None\<close>.
\<close>

fun collect_small ::
  "nat \<Rightarrow> nat option \<Rightarrow> (nat \<times> frame_read) list \<Rightarrow> string \<Rightarrow> rec_event list \<Rightarrow>
     ((string + string) \<times> rec_event list) option" where
  "collect_small small deadline [] buf rc = None"
| "collect_small small deadline ((now, read) # rest) buf rc =
     (case body_frame_timeout deadline now READ_FRAME_TIMEOUT of
        Inl err \<Rightarrow> Some (Inl err, rc @ [Rec_Fail err])
      | Inr (frame_timeout, request_limited) \<Rightarrow>
          (case read of
             Frame_Data data \<Rightarrow>
               if small < length (buf @ data)
               then Some (Inl ''body exceeded small threshold'',
                          rc @ [Rec_Chunk data, Rec_Fail ''body exceeded small threshold''])
               else collect_small small deadline rest (buf @ data) (rc @ [Rec_Chunk data])
           | Frame_Trailers \<Rightarrow>
               if small < length buf
               then Some (Inl ''body exceeded small threshold'', rc @ [Rec_Fail ''body exceeded small threshold''])
               else collect_small small deadline rest buf rc
           | Frame_Error e \<Rightarrow> Some (Inl (''read frame: '' @ e), rc @ [Rec_Fail (''read frame: '' @ e)])
           | Frame_End \<Rightarrow> Some (Inr buf, rc @ [Rec_Complete])
           | Frame_Timeout \<Rightarrow>
               (let e = (if request_limited then ''request timeout'' else ''read timeout'') in
                Some (Inl e, rc @ [Rec_Fail e]))
           | Frame_Aborted \<Rightarrow> Some (Inl ''aborted'', rc @ [Rec_Abort])))"

text \<open>
  The task behind a streamed body: the channel holds what has been sent, and how many more sends it takes before the
  consumer drops its end (\<^const>\<open>None\<close>: it never does).
\<close>

datatype stream_end = Stream_Aborted | Stream_Failed string | Stream_Dropped | Stream_Ended

record stream_task =
  st_buf :: string
  st_sent :: "(string + string) list"
  st_room :: "nat option"
  st_rec :: "rec_event list"

definition tx_send :: "string + string \<Rightarrow> stream_task \<Rightarrow> bool \<times> stream_task" where
  "tx_send m t =
     (case st_room t of
        None \<Rightarrow> (True, t\<lparr>st_sent := st_sent t @ [m]\<rparr>)
      | Some 0 \<Rightarrow> (False, t)
      | Some (Suc n) \<Rightarrow> (True, t\<lparr>st_sent := st_sent t @ [m], st_room := Some n\<rparr>))"

definition forward_or_buffer_chunk :: "nat \<Rightarrow> string \<Rightarrow> stream_task \<Rightarrow> bool \<times> stream_task" where
  "forward_or_buffer_chunk coalesce_target data t =
     (if coalesce_target = 0 \<or> (st_buf t = [] \<and> coalesce_target \<le> length data)
      then tx_send (Inr data) t
      else
        (let t = t\<lparr>st_buf := st_buf t @ data\<rparr> in
         if coalesce_target \<le> length (st_buf t)
         then tx_send (Inr (st_buf t)) (t\<lparr>st_buf := []\<rparr>)
         else (True, t)))"

definition st_note :: "rec_event \<Rightarrow> stream_task \<Rightarrow> stream_task" where
  "st_note e t = t\<lparr>st_rec := st_rec t @ [e]\<rparr>"

text \<open>The reading loop of the task; the end it breaks with, \<^const>\<open>None\<close> while it waits for more.\<close>

fun stream_loop ::
  "nat \<Rightarrow> nat option \<Rightarrow> (nat \<times> frame_read) list \<Rightarrow> stream_task \<Rightarrow> stream_end option \<times> stream_task" where
  "stream_loop coalesce_target deadline [] t = (None, t)"
| "stream_loop coalesce_target deadline ((now, read) # rest) t =
     (case body_frame_timeout deadline now READ_FRAME_TIMEOUT of
        Inl err \<Rightarrow> (Some (Stream_Failed err), t)
      | Inr (frame_timeout, request_limited) \<Rightarrow>
          (case read of
             Frame_Data data \<Rightarrow>
               (case forward_or_buffer_chunk coalesce_target data (st_note (Rec_Chunk data) t) of
                  (True, t') \<Rightarrow> stream_loop coalesce_target deadline rest t'
                | (False, t') \<Rightarrow> (Some Stream_Dropped, t'))
           | Frame_Trailers \<Rightarrow> stream_loop coalesce_target deadline rest t
           | Frame_Error e \<Rightarrow> (Some (Stream_Failed (''read frame: '' @ e)), t)
           | Frame_End \<Rightarrow> (Some Stream_Ended, t)
           | Frame_Timeout \<Rightarrow>
               (Some (Stream_Failed (if request_limited then ''request timeout'' else ''read timeout'')), t)
           | Frame_Aborted \<Rightarrow> (Some Stream_Aborted, t)))"

text \<open>What the task does after the loop: an abort drops the buffer; an error is sent, then the buffer.\<close>

definition stream_flush :: "bool \<Rightarrow> bool \<Rightarrow> stream_task \<Rightarrow> stream_task" where
  "stream_flush failed dropped t =
     (case (if st_buf t \<noteq> [] then tx_send (Inr (st_buf t)) (t\<lparr>st_buf := []\<rparr>) else (True, t)) of
        (ok, t') \<Rightarrow> if \<not> failed \<and> \<not> dropped \<and> ok then st_note Rec_Complete t' else t')"

definition stream_finish :: "stream_end \<Rightarrow> stream_task \<Rightarrow> stream_task" where
  "stream_finish e t =
     (case e of
        Stream_Aborted \<Rightarrow> snd (tx_send (Inl ''aborted'') (st_note Rec_Abort t))
      | Stream_Failed err \<Rightarrow> stream_flush True False (snd (tx_send (Inl err) (st_note (Rec_Fail err) t)))
      | Stream_Dropped \<Rightarrow> stream_flush False True t
      | Stream_Ended \<Rightarrow> stream_flush False False t)"

definition run_stream_task ::
  "nat \<Rightarrow> nat option \<Rightarrow> (nat \<times> frame_read) list \<Rightarrow> stream_task \<Rightarrow> stream_end option \<times> stream_task" where
  "run_stream_task coalesce_target deadline frames t =
     (case stream_loop coalesce_target deadline frames t of
        (None, t') \<Rightarrow> (None, t')
      | (Some e, t') \<Rightarrow> (Some e, stream_finish e t'))"

definition coalesce_target_of :: "nat \<Rightarrow> nat" where
  "coalesce_target_of stream_coalesce_target =
     (if stream_coalesce_target = 0 then 0 else max stream_coalesce_target MIN_STREAM_COALESCE_TARGET)"

section \<open>A request\<close>

text \<open>The consumer's view of a streamed body is the list of what its channel will deliver.\<close>

datatype http_body = HB_Empty | HB_Small string | HB_Stream "(string + string) list"

record http_response =
  rs_status :: nat
  rs_headers :: "(string \<times> string) list"
  rs_body :: http_body

text \<open>What waiting for the response head ends with.\<close>

datatype sent_outcome =
    Sent_Head nat "(string \<times> string) list" | Sent_Failed string "string list" | Sent_Timeout | Sent_Aborted

definition content_length_of :: "(string \<Rightarrow> string option) \<Rightarrow> (string \<times> string) list \<Rightarrow> nat" where
  "content_length_of to_str headers =
     (case map_of headers ''content-length'' of
        None \<Rightarrow> 0
      | Some v \<Rightarrow>
          (case to_str v of
             None \<Rightarrow> 0
           | Some s \<Rightarrow> (case parse_u64 s of None \<Rightarrow> 0 | Some n \<Rightarrow> unat n)))"

definition st_init :: "nat option \<Rightarrow> rec_event list \<Rightarrow> stream_task" where
  "st_init room rc = \<lparr>st_buf = [], st_sent = [], st_room = room, st_rec = rc\<rparr>"

text \<open>\<^const>\<open>None\<close>: the request is still waiting for a frame of a small body. The deadline is the checked sum, absent when the
  instant cannot be represented.\<close>

definition process_request ::
  "(string \<Rightarrow> string option) \<Rightarrow> nat \<Rightarrow> nat \<Rightarrow> nat option \<Rightarrow> sent_outcome \<Rightarrow> (nat \<times> frame_read) list \<Rightarrow> nat option \<Rightarrow>
     ((string + http_response) \<times> rec_event list) option" where
  "process_request to_str small stream_coalesce_target request_deadline sent frames room =
     (case sent of
        Sent_Failed e causes \<Rightarrow>
          (let m = ''request failed: '' @ chain e causes in Some (Inl m, [Rec_Fail m]))
      | Sent_Timeout \<Rightarrow> Some (Inl ''request timeout'', [Rec_Fail ''request timeout''])
      | Sent_Aborted \<Rightarrow> Some (Inl ''aborted'', [Rec_Abort])
      | Sent_Head status headers \<Rightarrow>
          (let cl = content_length_of to_str headers in
           if 0 < cl \<and> cl \<le> small then
             (case collect_small small request_deadline frames [] [Rec_Head status] of
                None \<Rightarrow> None
              | Some (Inl e, rc) \<Rightarrow> Some (Inl e, rc)
              | Some (Inr buf, rc) \<Rightarrow>
                  Some (Inr \<lparr>rs_status = status, rs_headers = headers, rs_body = HB_Small buf\<rparr>, rc))
           else
             (let t = snd (run_stream_task (coalesce_target_of stream_coalesce_target) request_deadline frames
                             (st_init room [Rec_Head status])) in
              Some (Inr \<lparr>rs_status = status, rs_headers = headers, rs_body = HB_Stream (st_sent t)\<rparr>, st_rec t))))"


text \<open>The deadline: the sum of the clock and the timeout, absent when it is past the last instant of the clock.\<close>

definition request_deadline_of :: "request_timeouts \<Rightarrow> nat \<Rightarrow> nat \<Rightarrow> nat option" where
  "request_deadline_of to last_instant now =
     (let request_timeout = (case rt_request to of Some t \<Rightarrow> t | None \<Rightarrow> DEFAULT_REQUEST_TIMEOUT) in
      if now + request_timeout \<le> last_instant then Some (now + request_timeout) else None)"

definition send_request_with_shared_abort ::
  "(string \<Rightarrow> string option) \<Rightarrow> nat \<Rightarrow> nat \<Rightarrow> bool \<Rightarrow> nat \<Rightarrow> nat \<Rightarrow> request_timeouts \<Rightarrow>
     (http_client \<Rightarrow> sent_outcome \<times> (nat \<times> frame_read) list) \<Rightarrow> nat option \<Rightarrow> client_store \<Rightarrow>
     ((string + http_response) \<times> rec_event list) option \<times> client_store" where
  "send_request_with_shared_abort to_str last_instant now guarded small stream_coalesce_target to network room s =
     (case client guarded to s of
        (c, s') \<Rightarrow>
          (case network c of
             (sent, frames) \<Rightarrow>
               (process_request to_str small stream_coalesce_target (request_deadline_of to last_instant now)
                  sent frames room, s')))"

section \<open>What the consumer of a streamed body sees\<close>

text \<open>The bytes the loop takes from the connection before it breaks, and the end it breaks with.\<close>

fun loop_data :: "nat option \<Rightarrow> (nat \<times> frame_read) list \<Rightarrow> string" where
  "loop_data deadline [] = []"
| "loop_data deadline ((now, read) # rest) =
     (case (body_frame_timeout deadline now READ_FRAME_TIMEOUT, read) of
        (Inr _, Frame_Data data) \<Rightarrow> data @ loop_data deadline rest
      | (Inr _, Frame_Trailers) \<Rightarrow> loop_data deadline rest
      | _ \<Rightarrow> [])"

text \<open>The bytes a consumer has read when it meets the first error, and whether it meets one.\<close>

fun ok_prefix :: "(string + string) list \<Rightarrow> string" where
  "ok_prefix [] = []"
| "ok_prefix (Inr b # ms) = b @ ok_prefix ms"
| "ok_prefix (Inl e # ms) = []"

fun first_error :: "(string + string) list \<Rightarrow> string option" where
  "first_error [] = None"
| "first_error (Inr b # ms) = first_error ms"
| "first_error (Inl e # ms) = Some e"

lemma ok_prefix_Inr_append [simp]: "ok_prefix (map Inr bs @ ms) = concat bs @ ok_prefix ms"
  by (induction bs) auto

lemma ok_prefix_Inr [simp]: "ok_prefix (map Inr bs) = concat bs"
  using ok_prefix_Inr_append [of bs "[]"] by simp

lemma first_error_Inr_append [simp]: "first_error (map Inr bs @ ms) = first_error ms"
  by (induction bs) auto

lemma first_error_Inr [simp]: "first_error (map Inr bs) = None"
  using first_error_Inr_append [of bs "[]"] by simp

lemma map_Inr_snoc: "map Inr bs @ [Inr b] = map Inr (bs @ [b])"
  by simp

text \<open>The state of the task over a consumer that never drops its end: chunks of at least the target size, and a buffer
  below it.\<close>

definition stream_inv :: "nat \<Rightarrow> string \<Rightarrow> stream_task \<Rightarrow> bool" where
  "stream_inv c data t \<longleftrightarrow>
     (\<exists>bs. st_sent t = map Inr bs \<and> concat bs @ st_buf t = data \<and> (\<forall>b\<in>set bs. c \<le> length b)) \<and>
     st_room t = None \<and> (c = 0 \<longrightarrow> st_buf t = []) \<and> (0 < c \<longrightarrow> length (st_buf t) < c)"

lemma stream_inv_init: "stream_inv c [] (st_init None rc)"
  by (simp add: stream_inv_def st_init_def)

lemma stream_inv_note [simp]: "stream_inv c data (st_note e t) = stream_inv c data t"
  by (simp add: stream_inv_def st_note_def)

lemma stream_inv_send:
  assumes "st_sent t = map Inr bs" "concat bs @ b = data" "\<forall>b\<in>set bs. c \<le> length b" "c \<le> length b"
    "st_buf t = []" "st_room t = None"
  shows "stream_inv c data (t\<lparr>st_sent := st_sent t @ [Inr b]\<rparr>)"
  unfolding stream_inv_def using assms by (auto intro!: exI [of _ "bs @ [b]"])

lemma forward_keeps_stream_inv:
  assumes i: "stream_inv c data t"
  shows "\<exists>t'. forward_or_buffer_chunk c d t = (True, t') \<and> stream_inv c (data @ d) t'"
proof -
  obtain bs where bs: "st_sent t = map Inr bs" "concat bs @ st_buf t = data" "\<forall>b\<in>set bs. c \<le> length b"
    and r: "st_room t = None" and b: "c = 0 \<longrightarrow> st_buf t = []" "0 < c \<longrightarrow> length (st_buf t) < c"
    using i by (auto simp: stream_inv_def)
  consider (direct) "c = 0 \<or> (st_buf t = [] \<and> c \<le> length d)"
    | (full) "\<not> (c = 0 \<or> (st_buf t = [] \<and> c \<le> length d))" "c \<le> length (st_buf t @ d)"
    | (keep) "\<not> (c = 0 \<or> (st_buf t = [] \<and> c \<le> length d))" "length (st_buf t @ d) < c"
    by linarith
  then show ?thesis
  proof cases
    case direct
    then have e: "st_buf t = []" "c \<le> length d" using b by auto
    have "stream_inv c (data @ d) (t\<lparr>st_sent := st_sent t @ [Inr d]\<rparr>)"
      by (rule stream_inv_send [OF bs(1) _ bs(3) e(2,1) r]) (use bs(2) e in simp)
    then show ?thesis using direct r by (simp add: forward_or_buffer_chunk_def tx_send_def)
  next
    case full
    let ?t = "t\<lparr>st_buf := []\<rparr>"
    have "stream_inv c (data @ d) (?t\<lparr>st_sent := st_sent ?t @ [Inr (st_buf t @ d)]\<rparr>)"
      by (rule stream_inv_send [OF _ _ bs(3) full(2)]) (use bs r in auto)
    moreover have "forward_or_buffer_chunk c d t = (True, ?t\<lparr>st_sent := st_sent ?t @ [Inr (st_buf t @ d)]\<rparr>)"
      using full r by (simp add: forward_or_buffer_chunk_def tx_send_def)
    ultimately show ?thesis by blast
  next
    case keep
    then have "forward_or_buffer_chunk c d t = (True, t\<lparr>st_buf := st_buf t @ d\<rparr>)"
      by (simp add: forward_or_buffer_chunk_def)
    moreover have "stream_inv c (data @ d) (t\<lparr>st_buf := st_buf t @ d\<rparr>)"
      using bs r keep by (auto simp: stream_inv_def)
    ultimately show ?thesis by blast
  qed
qed

lemma stream_loop_inv:
  assumes "stream_inv c data t" "stream_loop c dl fs t = (e, t')"
  shows "stream_inv c (data @ loop_data dl fs) t' \<and> e \<noteq> Some Stream_Dropped"
  using assms
proof (induction c dl fs t arbitrary: data rule: stream_loop.induct)
  case (2 c dl now read rest t)
  show ?case
  proof (cases "body_frame_timeout dl now READ_FRAME_TIMEOUT")
    case (Inl err)
    then show ?thesis using "2.prems" by auto
  next
    case (Inr p)
    obtain ft rl where p: "p = (ft, rl)" by (cases p)
    note b = Inr [unfolded p]
    show ?thesis
    proof (cases read)
      case (Frame_Data d)
      have n: "stream_inv c data (st_note (Rec_Chunk d) t)" using "2.prems" by simp
      obtain u where u: "forward_or_buffer_chunk c d (st_note (Rec_Chunk d) t) = (True, u)"
        "stream_inv c (data @ d) u"
        using forward_keeps_stream_inv [OF n] by blast
      have "stream_loop c dl rest u = (e, t')" using "2.prems" b Frame_Data u by simp
      from "2.IH"(1) [OF b refl Frame_Data u(1) [symmetric] refl u(2) this]
      show ?thesis using b Frame_Data by simp
    next
      case Frame_Trailers
      then have "stream_loop c dl rest t = (e, t')" using "2.prems" b by simp
      from "2.IH"(2) [OF b refl Frame_Trailers "2.prems"(1) this]
      show ?thesis using b Frame_Trailers by simp
    qed (use "2.prems" b in auto)
  qed
qed simp

text \<open>What the channel holds once the task is over, for each end of the loop.\<close>

lemma stream_finish_sent:
  assumes i: "stream_inv c data t" and f: "e \<noteq> Stream_Dropped"
  shows "\<exists>bs rest. concat bs @ rest = data \<and> (\<forall>b\<in>set bs. c \<le> length b) \<and> (0 < c \<longrightarrow> length rest < c) \<and>
     st_sent (stream_finish e t) =
       map Inr bs @
       (case e of Stream_Aborted \<Rightarrow> [Inl ''aborted''] | Stream_Failed err \<Rightarrow> [Inl err] | _ \<Rightarrow> []) @
       (if e = Stream_Aborted \<or> rest = [] then [] else [Inr rest])"
proof -
  obtain bs where bs: "st_sent t = map Inr bs" "concat bs @ st_buf t = data" "\<forall>b\<in>set bs. c \<le> length b"
    and r: "st_room t = None" and b: "0 < c \<longrightarrow> length (st_buf t) < c"
    using i by (auto simp: stream_inv_def)
  show ?thesis
    by (rule exI [of _ bs], rule exI [of _ "st_buf t"], cases e)
       (use bs r b f in \<open>simp_all add: stream_finish_def stream_flush_def tx_send_def st_note_def\<close>)
qed


text \<open>
  A consumer that reads a streamed response to its end or to its first error gets the bytes of the body in the
  order in which they came, with nothing lost, repeated or invented: all of them when the body ended, a prefix of
  them and then the error when reading failed or was aborted. Every chunk but the last one it could read has at
  least the coalescing size.
\<close>

theorem stream_body_in_order:
  assumes "run_stream_task c deadline frames (st_init None rc) = (Some e, t)"
  shows "(case e of
            Stream_Ended \<Rightarrow> first_error (st_sent t) = None \<and> ok_prefix (st_sent t) = loop_data deadline frames
          | Stream_Failed err \<Rightarrow>
              first_error (st_sent t) = Some err \<and> prefix (ok_prefix (st_sent t)) (loop_data deadline frames)
          | Stream_Aborted \<Rightarrow>
              first_error (st_sent t) = Some ''aborted'' \<and>
              prefix (ok_prefix (st_sent t)) (loop_data deadline frames)
          | Stream_Dropped \<Rightarrow> False) \<and>
         list_all (\<lambda>m. case m of Inr b \<Rightarrow> c \<le> length b | Inl _ \<Rightarrow> True) (butlast (st_sent t))"
proof -
  obtain u where u: "stream_loop c deadline frames (st_init None rc) = (Some e, u)" "t = stream_finish e u"
    using assms by (auto simp: run_stream_task_def split: prod.splits option.splits)
  have i: "stream_inv c (loop_data deadline frames) u" "e \<noteq> Stream_Dropped"
    using stream_loop_inv [OF stream_inv_init u(1)] by auto
  obtain bs rest where k: "concat bs @ rest = loop_data deadline frames" "\<forall>b\<in>set bs. c \<le> length b"
    "st_sent t = map Inr bs @
       (case e of Stream_Aborted \<Rightarrow> [Inl ''aborted''] | Stream_Failed err \<Rightarrow> [Inl err] | _ \<Rightarrow> []) @
       (if e = Stream_Aborted \<or> rest = [] then [] else [Inr rest])"
    using stream_finish_sent [OF i] u(2) by metis
  have "list_all (\<lambda>m. case m of Inr b \<Rightarrow> c \<le> length b | Inl _ \<Rightarrow> True) (butlast (st_sent t))"
    unfolding k(3) list_all_iff using k(2)
    by (cases e) (auto simp: butlast_append map_butlast [symmetric] dest: in_set_butlastD split: if_splits)
  moreover have "prefix (concat bs) (loop_data deadline frames)"
    unfolding k(1) [symmetric] by simp
  ultimately show ?thesis using i(2) k(1) unfolding k(3) by (cases e) auto
qed

theorem stream_body_in_order_witness:
  "ok_prefix (st_sent (snd (run_stream_task 4 (Some 9) [(1, Frame_Data ''ab''), (2, Frame_Data ''cde''), (3, Frame_End)]
     (st_init None [])))) = ''abcde''"
proof -
  let ?fs = "[(1, Frame_Data ''ab''), (2, Frame_Data ''cde''), (3, Frame_End)] :: (nat \<times> frame_read) list"
  have r: "run_stream_task 4 (Some 9) ?fs (st_init None []) =
      (Some Stream_Ended, snd (run_stream_task 4 (Some 9) ?fs (st_init None [])))"
    by (simp add: run_stream_task_def body_frame_timeout_def forward_or_buffer_chunk_def stream_finish_def stream_flush_def
        tx_send_def st_note_def st_init_def)
  show ?thesis using stream_body_in_order [OF r] by (simp add: body_frame_timeout_def)
qed

text \<open>The consumer's part of it, as the transfers that stop at the first error use it.\<close>

lemma run_stream_task_prefix:
  assumes "run_stream_task c deadline frames (st_init None rc) = (Some e, t)"
  shows "prefix (ok_prefix (st_sent t)) (loop_data deadline frames) \<and>
         (first_error (st_sent t) = None \<longrightarrow> e = Stream_Ended \<and> ok_prefix (st_sent t) = loop_data deadline frames)"
proof -
  obtain u where u: "stream_loop c deadline frames (st_init None rc) = (Some e, u)" "t = stream_finish e u"
    using assms by (auto simp: run_stream_task_def split: prod.splits option.splits)
  have i: "stream_inv c (loop_data deadline frames) u" "e \<noteq> Stream_Dropped"
    using stream_loop_inv [OF stream_inv_init u(1)] by auto
  obtain bs rest where k: "concat bs @ rest = loop_data deadline frames"
    "st_sent t = map Inr bs @
       (case e of Stream_Aborted \<Rightarrow> [Inl ''aborted''] | Stream_Failed err \<Rightarrow> [Inl err] | _ \<Rightarrow> []) @
       (if e = Stream_Aborted \<or> rest = [] then [] else [Inr rest])"
    using stream_finish_sent [OF i] u(2) by metis
  show ?thesis unfolding k(2) unfolding k(1) [symmetric] using i(2) by (cases e) auto
qed

text \<open>
  A body that fails after data has been buffered sends the error first and the data after it, so a consumer that
  stops at the error never sees bytes that had arrived before the failure.
\<close>

lemma error_overtakes_buffered_data:
  "st_sent (snd (run_stream_task (coalesce_target_of DEFAULT_STREAM_COALESCE_TARGET) None
     [(0, Frame_Data ''abc''), (1, Frame_Error ''reset'')] (st_init None []))) =
   [Inl ''read frame: reset'', Inr ''abc'']"
  by (simp add: run_stream_task_def body_frame_timeout_def forward_or_buffer_chunk_def coalesce_target_of_def
      DEFAULT_STREAM_COALESCE_TARGET_def MIN_STREAM_COALESCE_TARGET_def stream_finish_def stream_flush_def tx_send_def
      st_note_def st_init_def)

lemma stream_ends_by_deadline:
  "(now, r) \<in> set frames \<Longrightarrow> d \<le> now \<Longrightarrow> fst (stream_loop c (Some d) frames t) \<noteq> None"
proof (induction c "Some d" frames t rule: stream_loop.induct)
  case (2 c now' read rest t)
  show ?case
  proof (cases "body_frame_timeout (Some d) now' READ_FRAME_TIMEOUT")
    case (Inr p)
    obtain ft rl where p: "p = (ft, rl)" by (cases p)
    have "now' < d" using Inr by (auto simp: body_frame_timeout_def Let_def split: if_splits)
    then have m: "(now, r) \<in> set rest" using "2.prems" by auto
    show ?thesis
    proof (cases read)
      case (Frame_Data x)
      then show ?thesis
        using "2.hyps"(1) [OF Inr p [symmetric] Frame_Data _ _ m "2.prems"(2)] Inr p
        by (auto split: prod.splits bool.splits)
    next
      case Frame_Trailers
      then show ?thesis using "2.hyps"(2) [OF Inr p [symmetric] Frame_Trailers m "2.prems"(2)] Inr p by simp
    qed (use Inr p in auto)
  qed simp
qed simp

section \<open>Which connections a request may use\<close>

datatype client_op = Op_Set_Proxy string | Op_Clear_Proxy | Op_Client bool request_timeouts

fun run_client_ops ::
  "(string \<Rightarrow> string + proxy_uri) \<Rightarrow> client_op list \<Rightarrow> client_store \<Rightarrow> (bool \<times> http_client) list \<times> client_store" where
  "run_client_ops up [] s = ([], s)"
| "run_client_ops up (Op_Set_Proxy u # ops) s = run_client_ops up ops (snd (set_proxy up u s))"
| "run_client_ops up (Op_Clear_Proxy # ops) s = run_client_ops up ops (clear_proxy s)"
| "run_client_ops up (Op_Client g to # ops) s =
     (case client g to s of
        (c, s') \<Rightarrow> (case run_client_ops up ops s' of (cs, s'') \<Rightarrow> ((g, c) # cs, s'')))"

definition cache_ok :: "client_store \<Rightarrow> bool" where
  "cache_ok s \<longleftrightarrow>
     (case cs_cache s of
        None \<Rightarrow> True
      | Some (p, c) \<Rightarrow> hc_proxy c = p \<and> hc_connect_timeout c = None \<and> hc_pool c < cs_next_pool s)"

lemmas client_defs = client_def build_client_def Let_def

lemma cache_ok_set_proxy [rong_inv]: "cache_ok s \<Longrightarrow> cache_ok (snd (set_proxy up u s))"
  by (cases "parse_proxy_uri up u") (simp_all add: cache_ok_def set_proxy_def invalidate_client_cache_def)

lemma cache_ok_clear_proxy [rong_inv]: "cache_ok (clear_proxy s)"
  by (simp add: cache_ok_def clear_proxy_def invalidate_client_cache_def)

lemma cache_ok_client [rong_inv]: "cache_ok s \<Longrightarrow> client g to s = (c, s') \<Longrightarrow> cache_ok s'"
  by (auto simp: cache_ok_def client_defs split: option.splits prod.splits if_splits)

lemma client_pool:
  assumes "cache_ok s" "client g to s = (c, s')"
  shows "hc_pool c < cs_next_pool s' \<and> cs_next_pool s \<le> cs_next_pool s' \<and>
         (g \<longrightarrow> hc_pool c = cs_next_pool s \<and> cs_cache s' = cs_cache s \<and> hc_proxy c = None \<and> cs_next_pool s' = Suc (cs_next_pool s)) \<and>
         (\<not> g \<longrightarrow> hc_proxy c = cs_proxy s) \<and> hc_connect_timeout c = rt_connect to \<and> cs_proxy s' = cs_proxy s"
  using assms by (auto simp: cache_ok_def client_defs split: option.splits prod.splits if_splits)

text \<open>A pool that no later request can be given: it is neither in the cache nor still to be made.\<close>

definition retired :: "nat \<Rightarrow> client_store \<Rightarrow> bool" where
  "retired n s \<longleftrightarrow> n < cs_next_pool s \<and> (case cs_cache s of Some (_, c) \<Rightarrow> hc_pool c \<noteq> n | None \<Rightarrow> True)"

lemma retired_set_proxy: "retired n s \<Longrightarrow> retired n (snd (set_proxy up u s))"
  by (cases "parse_proxy_uri up u") (simp_all add: retired_def set_proxy_def invalidate_client_cache_def)

lemma retired_clear_proxy: "retired n s \<Longrightarrow> retired n (clear_proxy s)"
  by (simp add: retired_def clear_proxy_def invalidate_client_cache_def)

lemma retired_client: "retired n s \<Longrightarrow> client g to s = (c, s') \<Longrightarrow> retired n s' \<and> hc_pool c \<noteq> n"
  by (auto simp: retired_def client_defs split: option.splits prod.splits if_splits)

lemma retired_run: "retired n s \<Longrightarrow> (g, c) \<in> set (fst (run_client_ops up ops s)) \<Longrightarrow> hc_pool c \<noteq> n"
proof (induction up ops s rule: run_client_ops.induct)
  case (4 up g' to ops s)
  obtain c' s' where e: "client g' to s = (c', s')" by (cases "client g' to s")
  have k: "retired n s'" "hc_pool c' \<noteq> n" using retired_client [OF "4.prems"(1) e] by auto
  show ?case using "4.IH" [OF e [symmetric] k(1)] "4.prems"(2) e k(2) by (auto split: prod.splits)
qed (auto simp: retired_set_proxy retired_clear_proxy)

lemma next_pool_set_proxy [simp]: "cs_next_pool (snd (set_proxy up u s)) = cs_next_pool s"
  by (cases "parse_proxy_uri up u") (simp_all add: set_proxy_def invalidate_client_cache_def)

lemma next_pool_clear_proxy [simp]: "cs_next_pool (clear_proxy s) = cs_next_pool s"
  by (simp add: clear_proxy_def invalidate_client_cache_def)

lemma guarded_run:
  "cache_ok s \<Longrightarrow> (True, c) \<in> set (fst (run_client_ops up ops s)) \<Longrightarrow>
   hc_proxy c = None \<and> cs_next_pool s \<le> hc_pool c"
proof (induction up ops s rule: run_client_ops.induct)
  case (4 up g' to ops s)
  obtain c' s' where e: "client g' to s = (c', s')" by (cases "client g' to s")
  note k = client_pool [OF "4.prems"(1) e]
  have i: "(True, c) \<in> set (fst (run_client_ops up ops s')) \<Longrightarrow> hc_proxy c = None \<and> cs_next_pool s' \<le> hc_pool c"
    by (rule "4.IH" [OF e [symmetric] cache_ok_client [OF "4.prems"(1) e]])
  show ?case
  proof (cases "(True, c) = (g', c')")
    case True
    then show ?thesis using k by simp
  next
    case False
    then have "(True, c) \<in> set (fst (run_client_ops up ops s'))"
      using "4.prems"(2) e by (auto split: prod.splits)
    then show ?thesis using i k by auto
  qed
qed (simp_all add: cache_ok_set_proxy cache_ok_clear_proxy)

lemma guarded_pool_unshared:
  "cache_ok s \<Longrightarrow> i < length cs \<Longrightarrow> j < length cs \<Longrightarrow> i \<noteq> j \<Longrightarrow> fst (cs ! i) \<Longrightarrow>
   cs = fst (run_client_ops up ops s) \<Longrightarrow> hc_pool (snd (cs ! i)) \<noteq> hc_pool (snd (cs ! j))"
proof (induction up ops s arbitrary: cs i j rule: run_client_ops.induct)
  case (4 up g to ops s)
  obtain c s' where e: "client g to s = (c, s')" by (cases "client g to s")
  define ds where "ds = fst (run_client_ops up ops s')"
  have cs: "cs = (g, c) # ds" using "4.prems"(6) e by (simp add: ds_def split: prod.splits)
  note k = client_pool [OF "4.prems"(1) e]
  note ok = cache_ok_client [OF "4.prems"(1) e]
  have rest: "(fst (ds ! n), snd (ds ! n)) \<in> set (fst (run_client_ops up ops s'))" if "n < length ds" for n
    using that by (simp add: ds_def)
  consider (first) "i = 0" "j - 1 < length ds" | (second) "j = 0" "0 < i" "i - 1 < length ds"
    | (later) "0 < i" "0 < j" using "4.prems" cs by fastforce
  then show ?case
  proof cases
    case first
    then have g: "g" using "4.prems"(5) cs by simp
    have "retired (hc_pool c) s'"
      using k g "4.prems"(1) by (auto simp: retired_def cache_ok_def split: option.splits)
    from retired_run [OF this rest [OF first(2)]] show ?thesis
      using first "4.prems"(4) cs by (cases j) auto
  next
    case second
    have g: "fst (ds ! (i - 1))" using "4.prems"(5) cs second by (cases i) auto
    have "cs_next_pool s' \<le> hc_pool (snd (ds ! (i - 1)))"
      using guarded_run [OF ok, of "snd (ds ! (i - 1))" up ops] rest [OF second(3), unfolded g [THEN eqTrueI]] by simp
    then show ?thesis using k second cs by (cases i) auto
  next
    case later
    have "hc_pool (snd (ds ! (i - 1))) \<noteq> hc_pool (snd (ds ! (j - 1)))"
      by (rule "4.IH" [OF e [symmetric] ok _ _ _ _ ds_def]) (use later "4.prems"(2-5) cs in auto)
    then show ?thesis using later cs by simp
  qed
qed (simp_all add: cache_ok_set_proxy cache_ok_clear_proxy)

text \<open>
  A request made under a network access guard gets a connection pool of its own: it goes through no proxy, and
  whatever requests and proxy changes came before or come after it, no other request is ever given its pool.
\<close>

theorem guarded_request_isolated:
  assumes "i < length (fst (run_client_ops up ops cs_init))" "j < length (fst (run_client_ops up ops cs_init))"
    and "i \<noteq> j" "fst (fst (run_client_ops up ops cs_init) ! i)"
  shows "hc_proxy (snd (fst (run_client_ops up ops cs_init) ! i)) = None \<and>
         hc_pool (snd (fst (run_client_ops up ops cs_init) ! i)) \<noteq> hc_pool (snd (fst (run_client_ops up ops cs_init) ! j))"
proof -
  let ?cs = "fst (run_client_ops up ops cs_init)"
  have ok: "cache_ok cs_init" by (simp add: cache_ok_def cs_init_def)
  have "(True, snd (?cs ! i)) \<in> set ?cs"
    using nth_mem [OF assms(1)] assms(4) by (metis prod.collapse)
  then show ?thesis
    using guarded_run [OF ok] guarded_pool_unshared [OF ok assms refl] by auto
qed

theorem guarded_request_isolated_witness:
  "hc_pool (snd (fst (run_client_ops Inl [Op_Client False \<lparr>rt_request = None, rt_connect = None\<rparr>,
     Op_Client True \<lparr>rt_request = None, rt_connect = None\<rparr>] cs_init) ! 1)) \<noteq>
   hc_pool (snd (fst (run_client_ops Inl [Op_Client False \<lparr>rt_request = None, rt_connect = None\<rparr>,
     Op_Client True \<lparr>rt_request = None, rt_connect = None\<rparr>] cs_init) ! 0))"
proof -
  let ?ops = "[Op_Client False \<lparr>rt_request = None, rt_connect = None\<rparr>,
    Op_Client True \<lparr>rt_request = None, rt_connect = None\<rparr>]"
  have n: "1 < length (fst (run_client_ops Inl ?ops cs_init))" "0 < length (fst (run_client_ops Inl ?ops cs_init))"
    "fst (fst (run_client_ops Inl ?ops cs_init) ! 1)"
    by code_simp+
  show ?thesis by (rule guarded_request_isolated [OF n(1,2) _ n(3), THEN conjunct2]) simp
qed

end
