(* ===== verification/Download.thy ===== *)
theory Download
  imports Http_Client
begin

text \<open>
  Downloads to a file, \<^verbatim>\<open>rong_rt/src/download.rs\<close>: the options, the redirect loop, the handling of range responses,
  the copy of the body into the \<^verbatim>\<open>.part\<close> file and into an optional sink, and the final rename. The file system is a
  map from paths to contents; that it fails, when the clock is read and what the network answers are arguments.
\<close>

section \<open>Paths\<close>

text \<open>
  The part of \<^verbatim>\<open>std::path::Path\<close> in use, on Unix: trailing separators and trailing \<^verbatim>\<open>.\<close> components do not count, the
  file name is the last component unless it is \<^verbatim>\<open>..\<close>, and \<^verbatim>\<open>with_extension\<close> replaces what follows the last dot of the
  file name (a leading dot excepted).
\<close>

function trim_path :: "string \<Rightarrow> string" where
  "trim_path p =
     (if p \<noteq> [] \<and> last p = CHR ''/'' then trim_path (butlast p)
      else if ends_with ''/.'' p then trim_path (take (length p - 2) p)
      else p)"
  by auto
termination
  by (relation "measure length") (auto simp: ends_with_def)

declare trim_path.simps [simp del]

definition path_dir :: "string \<Rightarrow> string" where
  "path_dir p = rev (dropWhile (\<lambda>c. c \<noteq> CHR ''/'') (rev p))"

definition path_name :: "string \<Rightarrow> string" where
  "path_name p = rev (takeWhile (\<lambda>c. c \<noteq> CHR ''/'') (rev p))"

definition has_parent :: "string \<Rightarrow> bool" where
  "has_parent p \<longleftrightarrow> trim_path p \<noteq> []"

definition file_name :: "string \<Rightarrow> string option" where
  "file_name p =
     (let n = path_name (trim_path p) in if n \<in> {'''', ''.'', ''..''} then None else Some n)"

definition file_stem_of :: "string \<Rightarrow> string" where
  "file_stem_of n =
     (let before = rev (tl (dropWhile (\<lambda>c. c \<noteq> CHR ''.'') (rev n))) in
      if CHR ''.'' \<notin> set n \<or> before = [] then n else before)"

definition with_extension :: "string \<Rightarrow> string \<Rightarrow> string" where
  "with_extension ext p =
     (case file_name p of
        None \<Rightarrow> p
      | Some n \<Rightarrow> path_dir (trim_path p) @ file_stem_of n @ ''.'' @ ext)"

section \<open>Content-Range\<close>

datatype content_range =
    CR_Bytes u64 u64 "u64 option"
  | CR_Unsatisfied "u64 option"

definition parse_complete_length :: "string \<Rightarrow> u64 option option" where
  "parse_complete_length value = (if value = ''*'' then Some None else map_option Some (parse_u64 value))"

definition parse_content_range :: "string \<Rightarrow> content_range option" where
  "parse_content_range value =
     (case strip_prefix ''bytes '' (trim value) of
        None \<Rightarrow> None
      | Some rest \<Rightarrow>
          (case strip_prefix ''*/'' rest of
             Some len \<Rightarrow> map_option CR_Unsatisfied (parse_complete_length (trim len))
           | None \<Rightarrow>
               (case split_once (CHR ''/'') rest of
                  None \<Rightarrow> None
                | Some (rng, complete) \<Rightarrow>
                    (case split_once (CHR ''-'') rng of
                       None \<Rightarrow> None
                     | Some (s, e) \<Rightarrow>
                         (case (parse_u64 (trim s), parse_u64 (trim e)) of
                            (Some start, Some end') \<Rightarrow>
                              if end' < start then None
                              else
                                (case parse_complete_length (trim complete) of
                                   None \<Rightarrow> None
                                 | Some None \<Rightarrow> Some (CR_Bytes start end' None)
                                 | Some (Some len) \<Rightarrow>
                                     if len \<le> end' then None else Some (CR_Bytes start end' (Some len)))
                          | _ \<Rightarrow> None)))))"

section \<open>Options, requests, environment\<close>

record download_options =
  do_url :: string
  do_dest :: string
  do_sink :: bool
  do_request_timeout :: "duration option"
  do_connect_timeout :: "duration option"
  do_resume :: bool

definition do_new :: "string \<Rightarrow> string \<Rightarrow> download_options" where
  "do_new url dest =
     \<lparr>do_url = url, do_dest = dest, do_sink = False, do_request_timeout = None, do_connect_timeout = None,
      do_resume = False\<rparr>"

definition with_sink :: "download_options \<Rightarrow> download_options" where
  "with_sink d = d\<lparr>do_sink := True\<rparr>"

definition with_request_timeout :: "duration \<Rightarrow> download_options \<Rightarrow> download_options" where
  "with_request_timeout t d = d\<lparr>do_request_timeout := Some t\<rparr>"

definition with_connect_timeout :: "duration \<Rightarrow> download_options \<Rightarrow> download_options" where
  "with_connect_timeout t d = d\<lparr>do_connect_timeout := Some t\<rparr>"

definition with_resume :: "download_options \<Rightarrow> download_options" where
  "with_resume d = d\<lparr>do_resume := True\<rparr>"

definition timeouts :: "download_options \<Rightarrow> request_timeouts" where
  "timeouts d = \<lparr>rt_request = do_request_timeout d, rt_connect = do_connect_timeout d\<rparr>"

record http_request =
  hq_url :: string
  hq_headers :: "(string \<times> string) list"

text \<open>
  What the download asks of its surroundings. The network: the HTTP library's judgement of URIs and header values and its
  text of a status, the guard, the answer to the n-th request. Files: the error of each operation that fails; of a write, how many of the
  bytes the handle holds have reached the file when it returns; of a handle dropped before it was flushed, how many
  still get there. The sink: the error of its n-th write.
\<close>

record download_env =
  de_uri_error :: "string \<Rightarrow> string option"
  de_header_value :: "string \<Rightarrow> string option"
  de_user_agent :: string
  de_to_str :: "string \<Rightarrow> string + string"
  de_status_text :: "nat \<Rightarrow> string"
  de_url_parse :: "string \<Rightarrow> string + string"
  de_url_join :: "string \<Rightarrow> string \<Rightarrow> string + (string \<times> string)"
  de_access :: "http_request \<Rightarrow> string option"
  de_now :: "nat \<Rightarrow> nat"
  de_send :: "nat \<Rightarrow> http_request \<Rightarrow> request_timeouts \<Rightarrow> string + http_response"
  io_mkdir :: "string option"
  io_metadata :: bool
  io_open :: "string option"
  io_reopen :: "string option"
  io_write :: "nat \<Rightarrow> nat \<times> string option"
  io_flush :: "nat \<times> string option"
  io_drop :: nat
  io_rename :: "string option"
  io_remove :: bool
  sk_write :: "nat \<Rightarrow> string option"

text \<open>The first error the builder meets is the one \<^verbatim>\<open>body\<close> reports; a builder with an error has no headers to fill.\<close>

definition build_download_request :: "download_env \<Rightarrow> string \<Rightarrow> u64 \<Rightarrow> string + http_request" where
  "build_download_request env url resume_offset =
     (case de_uri_error env url of
        Some e \<Rightarrow> Inl (''build request: '' @ e)
      | None \<Rightarrow>
          (case de_header_value env (de_user_agent env) of
             Some e \<Rightarrow> Inl (''invalid user agent header: '' @ e)
           | None \<Rightarrow>
               (let hs = [(''accept'', ''*/*''), (''user-agent'', de_user_agent env)];
                    rng = ''bytes='' @ string_of_nat (unat resume_offset) @ ''-''
                in if resume_offset > 0 then
                     (case de_header_value env rng of
                        Some e \<Rightarrow> Inl (''invalid range header: '' @ e)
                      | None \<Rightarrow> Inr \<lparr>hq_url = url, hq_headers = hs @ [(''range'', rng)]\<rparr>)
                   else Inr \<lparr>hq_url = url, hq_headers = hs\<rparr>)))"

definition content_range_of :: "download_env \<Rightarrow> (string \<times> string) list \<Rightarrow> string + content_range" where
  "content_range_of env headers =
     (case map_of headers ''content-range'' of
        None \<Rightarrow> Inl ''missing Content-Range header''
      | Some raw \<Rightarrow>
          (case de_to_str env raw of
             Inl e \<Rightarrow> Inl (''invalid Content-Range header: '' @ e)
           | Inr value \<Rightarrow>
               (case parse_content_range value of
                  None \<Rightarrow> Inl (''invalid Content-Range header value: '' @ value)
                | Some r \<Rightarrow> Inr r)))"

definition is_download_redirect :: "nat \<Rightarrow> bool" where
  "is_download_redirect status \<longleftrightarrow> status \<in> {301, 302, 303, 307, 308}"

definition is_success :: "nat \<Rightarrow> bool" where
  "is_success status \<longleftrightarrow> 200 \<le> status \<and> status < 300"

definition redirect_target :: "download_env \<Rightarrow> string \<Rightarrow> (string \<times> string) list \<Rightarrow> string + string" where
  "redirect_target env current_url headers =
     (case map_of headers ''location'' of
        None \<Rightarrow> Inl ''redirect response missing Location header''
      | Some raw \<Rightarrow>
          (case de_to_str env raw of
             Inl e \<Rightarrow> Inl (''invalid redirect Location header: '' @ e)
           | Inr value \<Rightarrow>
               (let location = trim value in
                if location = [] then Inl ''redirect Location header is empty''
                else
                  (case de_url_parse env current_url of
                     Inl e \<Rightarrow> Inl (''invalid current URL for redirect: '' @ e)
                   | Inr base \<Rightarrow>
                       (case de_url_join env base location of
                          Inl e \<Rightarrow> Inl (''invalid redirect URL: '' @ e)
                        | Inr (scheme, next) \<Rightarrow>
                            if scheme = ''http'' \<or> scheme = ''https'' then Inr next
                            else Inl (''unsupported redirect URL scheme: '' @ scheme))))))"

definition remaining_request_timeouts ::
  "request_timeouts \<Rightarrow> nat option \<Rightarrow> nat \<Rightarrow> string + request_timeouts" where
  "remaining_request_timeouts to deadline now =
     (case deadline of
        Some d \<Rightarrow>
          if d \<le> now then Inl ''request timeout''
          else Inr \<lparr>rt_request = Some (d - now), rt_connect = rt_connect to\<rparr>
      | None \<Rightarrow> Inr \<lparr>rt_request = rt_request to, rt_connect = rt_connect to\<rparr>)"

section \<open>The state of a download\<close>

datatype sink_event = Sink_Write string | Sink_Close "string + unit"

type_synonym files = "string \<Rightarrow> string option"

text \<open>\<open>dl_pending\<close> is what the open handle has accepted and not yet written; \<open>dl_hops\<close> are the requests sent with their
  answers.\<close>

record download_state =
  dl_files :: files
  dl_pending :: string
  dl_writes :: nat
  dl_sink :: bool
  dl_sink_log :: "sink_event list"
  dl_hops :: "(http_request \<times> (string + http_response)) list"

datatype 'a dl_flow = Dl_Return "string + unit" | Dl_Go 'a

definition sink_writes :: "sink_event list \<Rightarrow> nat" where
  "sink_writes l = length (filter (\<lambda>e. case e of Sink_Write _ \<Rightarrow> True | _ \<Rightarrow> False) l)"

definition finalize_sink :: "string + unit \<Rightarrow> download_state \<Rightarrow> (string + unit) \<times> download_state" where
  "finalize_sink res s =
     (res, if dl_sink s then s\<lparr>dl_sink_log := dl_sink_log s @ [Sink_Close res], dl_sink := False\<rparr> else s)"

text \<open>A write error closes the sink with it and forgets it; the download goes on.\<close>

definition forward :: "download_env \<Rightarrow> string \<Rightarrow> download_state \<Rightarrow> download_state" where
  "forward env data s =
     (if dl_sink s then
        (let s' = s\<lparr>dl_sink_log := dl_sink_log s @ [Sink_Write data]\<rparr> in
         case sk_write env (sink_writes (dl_sink_log s)) of
           None \<Rightarrow> s'
         | Some err \<Rightarrow> s'\<lparr>dl_sink_log := dl_sink_log s' @ [Sink_Close (Inl err)], dl_sink := False\<rparr>)
      else s)"

definition append_file :: "string \<Rightarrow> string \<Rightarrow> download_state \<Rightarrow> download_state" where
  "append_file path data s =
     s\<lparr>dl_files := (dl_files s)(path := map_option (\<lambda>c. c @ data) (dl_files s path))\<rparr>"

definition write_all :: "download_env \<Rightarrow> string \<Rightarrow> string \<Rightarrow> download_state \<Rightarrow> string option \<times> download_state" where
  "write_all env path data s =
     (let all = dl_pending s @ data in
      case io_write env (dl_writes s) of
        (n, None) \<Rightarrow> (None, (append_file path (take n all) s)\<lparr>dl_pending := drop n all, dl_writes := Suc (dl_writes s)\<rparr>)
      | (n, Some e) \<Rightarrow> (Some e, (append_file path (take n all) s)\<lparr>dl_pending := [], dl_writes := Suc (dl_writes s)\<rparr>))"

definition flush :: "download_env \<Rightarrow> string \<Rightarrow> download_state \<Rightarrow> string option \<times> download_state" where
  "flush env path s =
     (case io_flush env of
        (n, None) \<Rightarrow> (None, (append_file path (dl_pending s) s)\<lparr>dl_pending := []\<rparr>)
      | (n, Some e) \<Rightarrow> (Some e, (append_file path (take n (dl_pending s)) s)\<lparr>dl_pending := []\<rparr>))"

definition drop_file :: "download_env \<Rightarrow> string \<Rightarrow> download_state \<Rightarrow> download_state" where
  "drop_file env path s = (append_file path (take (io_drop env) (dl_pending s)) s)\<lparr>dl_pending := []\<rparr>"

definition create_file :: "string \<Rightarrow> download_state \<Rightarrow> download_state" where
  "create_file path s = s\<lparr>dl_files := (dl_files s)(path \<mapsto> [])\<rparr>"

definition rename_file ::
  "download_env \<Rightarrow> string \<Rightarrow> string \<Rightarrow> download_state \<Rightarrow> string option \<times> download_state" where
  "rename_file env from to s =
     (case io_rename env of
        Some e \<Rightarrow> (Some e, s)
      | None \<Rightarrow> (None, s\<lparr>dl_files := ((dl_files s)(from := None))(to := dl_files s from)\<rparr>))"

definition remove_file :: "download_env \<Rightarrow> string \<Rightarrow> download_state \<Rightarrow> download_state" where
  "remove_file env path s = (if io_remove env then s\<lparr>dl_files := (dl_files s)(path := None)\<rparr> else s)"

section \<open>The download\<close>

definition MAX_DOWNLOAD_REDIRECTS :: nat where
  "MAX_DOWNLOAD_REDIRECTS = 10"

definition resume_offset_of :: "download_env \<Rightarrow> bool \<Rightarrow> string \<Rightarrow> download_state \<Rightarrow> u64" where
  "resume_offset_of env resume temp_path s =
     (if resume then
        (if io_metadata env
         then (case dl_files s temp_path of Some c \<Rightarrow> of_nat (length c) | None \<Rightarrow> 0)
         else 0)
      else 0)"

text \<open>Opening the part file: for appending when there is something to resume, truncated otherwise.\<close>

definition open_part :: "download_env \<Rightarrow> u64 \<Rightarrow> string \<Rightarrow> download_state \<Rightarrow> string option \<times> download_state" where
  "open_part env resume_offset temp_path s =
     (case io_open env of
        Some e \<Rightarrow> (Some (''open: '' @ e), s)
      | None \<Rightarrow>
          (None,
           if resume_offset > 0
           then (case dl_files s temp_path of None \<Rightarrow> create_file temp_path s | Some _ \<Rightarrow> s)
           else create_file temp_path s))"

text \<open>One turn of the loop up to the answer: build the request, ask the guard, compute what is left of the time, send.\<close>

definition request_hop ::
  "download_env \<Rightarrow> u64 \<Rightarrow> request_timeouts \<Rightarrow> nat option \<Rightarrow> string \<Rightarrow> nat \<Rightarrow> download_state \<Rightarrow>
     (string + http_response) \<times> download_state" where
  "request_hop env resume_offset to deadline current_url count s =
     (case build_download_request env current_url resume_offset of
        Inl e \<Rightarrow> (Inl e, s)
      | Inr request \<Rightarrow>
          (case de_access env request of
             Some e \<Rightarrow> (Inl e, s)
           | None \<Rightarrow>
               (case remaining_request_timeouts to deadline (de_now env (Suc count)) of
                  Inl e \<Rightarrow> (Inl e, s)
                | Inr remaining \<Rightarrow>
                    (let answer = de_send env count request remaining in
                     (answer, s\<lparr>dl_hops := dl_hops s @ [(request, answer)]\<rparr>)))))"

text \<open>The loop that follows redirects; \<open>count\<close> is the number followed so far.\<close>

function request_loop ::
  "download_env \<Rightarrow> u64 \<Rightarrow> request_timeouts \<Rightarrow> nat option \<Rightarrow> string \<Rightarrow> nat \<Rightarrow> download_state \<Rightarrow>
     (string + http_response) \<times> download_state" where
  "request_loop env resume_offset to deadline current_url count s =
     (case request_hop env resume_offset to deadline current_url count s of
        (Inl e, s') \<Rightarrow> (Inl e, s')
      | (Inr resp, s') \<Rightarrow>
          if \<not> is_download_redirect (rs_status resp) then (Inr resp, s')
          else if MAX_DOWNLOAD_REDIRECTS \<le> count then (Inl ''too many redirects'', s')
          else (case redirect_target env current_url (rs_headers resp) of
                  Inl e \<Rightarrow> (Inl e, s')
                | Inr url \<Rightarrow> request_loop env resume_offset to deadline url (Suc count) s'))"
  by pat_completeness auto
termination
  by (relation "measure (\<lambda>(env, ro, to, d, u, count, s). Suc MAX_DOWNLOAD_REDIRECTS - count)") auto

declare request_loop.simps [simp del]

text \<open>
  What the status says when a resume was asked for: the body length a partial response must have, or the end of the
  download. The handle holds nothing yet, so dropping it has no effect here.
\<close>

definition resume_status ::
  "download_env \<Rightarrow> u64 \<Rightarrow> string \<Rightarrow> string \<Rightarrow> http_response \<Rightarrow> download_state \<Rightarrow> u64 option dl_flow \<times> download_state" where
  "resume_status env resume_offset temp_path dest resp s =
     (if rs_status resp = 200 then
        (case io_reopen env of
           Some e \<Rightarrow> (Dl_Return (Inl (''reopen: '' @ e)), s)
         | None \<Rightarrow> (Dl_Go None, create_file temp_path s))
      else if rs_status resp = 206 then
        (case content_range_of env (rs_headers resp) of
           Inr (CR_Bytes start end' complete_length) \<Rightarrow>
             if start = resume_offset then
               (case checked_add end' 1 of
                  None \<Rightarrow> (Dl_Return (Inl ''resume Content-Range end exceeds supported length''), s)
                | Some range_end \<Rightarrow>
                    (case complete_length of
                       Some len \<Rightarrow>
                         if range_end = len then (Dl_Go (Some (end' - start + 1)), s)
                         else (Dl_Return (Inl (''resume Content-Range ends before complete length: end '' @
                                 string_of_nat (unat end') @ '', length '' @ string_of_nat (unat len))), s)
                     | None \<Rightarrow> (Dl_Return (Inl ''resume Content-Range must include a complete length''), s)))
             else (Dl_Return (Inl (''resume content range starts at '' @ string_of_nat (unat start) @
                     '', expected '' @ string_of_nat (unat resume_offset))), s)
         | Inr (CR_Unsatisfied _) \<Rightarrow> (Dl_Return (Inl ''invalid content range for partial response''), s)
         | Inl e \<Rightarrow> (Dl_Return (Inl e), s))
      else if rs_status resp = 416 then
        (if content_range_of env (rs_headers resp) = Inr (CR_Unsatisfied (Some resume_offset)) then
           (case rename_file env temp_path dest s of
              (Some e, s') \<Rightarrow> (Dl_Return (Inl (''rename: '' @ e)), s')
            | (None, s') \<Rightarrow> (Dl_Return (Inr ()), s'))
         else (Dl_Return (Inl ''range not satisfiable; stale `.part` discarded''), remove_file env temp_path s))
      else if is_success (rs_status resp) then
        (Dl_Return (Inl (''unexpected resume response status: '' @ de_status_text env (rs_status resp))), s)
      else (Dl_Go None, s))"

definition check_status ::
  "download_env \<Rightarrow> u64 \<Rightarrow> string \<Rightarrow> string \<Rightarrow> http_response \<Rightarrow> download_state \<Rightarrow> u64 option dl_flow \<times> download_state" where
  "check_status env resume_offset temp_path dest resp s =
     (if resume_offset = 0 \<and> rs_status resp = 206 then
        (Dl_Return (Inl ''unexpected partial response without a resume range''), s)
      else
        (case (if resume_offset > 0 then resume_status env resume_offset temp_path dest resp s else (Dl_Go None, s)) of
           (Dl_Return r, s') \<Rightarrow> (Dl_Return r, s')
         | (Dl_Go expected, s') \<Rightarrow>
             if \<not> is_success (rs_status resp)
             then (Dl_Return (Inl (''http status: '' @ de_status_text env (rs_status resp))), s')
             else (Dl_Go expected, s')))"

definition check_partial_body_len :: "u64 option \<Rightarrow> nat \<Rightarrow> u64 \<Rightarrow> string + u64" where
  "check_partial_body_len expected chunk_len received =
     (case checked_add received (of_nat chunk_len) of
        None \<Rightarrow> Inl ''response body length overflow''
      | Some r \<Rightarrow>
          if (case expected of Some x \<Rightarrow> x < r | None \<Rightarrow> False)
          then Inl ''response body exceeds Content-Range length''
          else Inr r)"

text \<open>One chunk of the body: counted, mirrored into the sink, written to the file.\<close>

definition copy_chunk ::
  "download_env \<Rightarrow> string \<Rightarrow> u64 option \<Rightarrow> string \<Rightarrow> u64 \<Rightarrow> download_state \<Rightarrow> (string + u64) \<times> download_state" where
  "copy_chunk env temp_path expected bytes received s =
     (case check_partial_body_len expected (length bytes) received of
        Inl e \<Rightarrow> (Inl e, s)
      | Inr received' \<Rightarrow>
          (case write_all env temp_path bytes (forward env bytes s) of
             (Some e, s') \<Rightarrow> (Inl (''write chunk: '' @ e), s')
           | (None, s') \<Rightarrow> (Inr received', s')))"

fun copy_stream ::
  "download_env \<Rightarrow> string \<Rightarrow> u64 option \<Rightarrow> (string + string) list \<Rightarrow> u64 \<Rightarrow> download_state \<Rightarrow>
     (string + u64) \<times> download_state" where
  "copy_stream env temp_path expected [] received s = (Inr received, s)"
| "copy_stream env temp_path expected (Inl e # rest) received s = (Inl e, s)"
| "copy_stream env temp_path expected (Inr bytes # rest) received s =
     (case copy_chunk env temp_path expected bytes received s of
        (Inl e, s') \<Rightarrow> (Inl e, s')
      | (Inr received', s') \<Rightarrow> copy_stream env temp_path expected rest received' s')"

definition copy_body ::
  "download_env \<Rightarrow> string \<Rightarrow> u64 option \<Rightarrow> http_body \<Rightarrow> download_state \<Rightarrow> (string + u64) \<times> download_state" where
  "copy_body env temp_path expected body s =
     (case body of
        HB_Empty \<Rightarrow> (Inr 0, s)
      | HB_Small buf \<Rightarrow> copy_chunk env temp_path expected buf 0 s
      | HB_Stream items \<Rightarrow> copy_stream env temp_path expected items 0 s)"

text \<open>After the body: its length is compared with the announced one, the file flushed and renamed.\<close>

definition finish_download ::
  "download_env \<Rightarrow> string \<Rightarrow> string \<Rightarrow> u64 option \<Rightarrow> u64 \<Rightarrow> download_state \<Rightarrow> (string + unit) \<times> download_state" where
  "finish_download env temp_path dest expected received s =
     (if (case expected of Some x \<Rightarrow> received \<noteq> x | None \<Rightarrow> False)
      then (Inl (''response body length '' @ string_of_nat (unat received) @ '' does not match Content-Range length '' @
              string_of_nat (unat (the expected))), drop_file env temp_path s)
      else
        (case flush env temp_path s of
           (Some e, s') \<Rightarrow> (Inl (''flush: '' @ e), s')
         | (None, s') \<Rightarrow>
             (case rename_file env temp_path dest s' of
                (Some e, s'') \<Rightarrow> (Inl (''rename: '' @ e), s'')
              | (None, s'') \<Rightarrow> (Inr (), s''))))"

text \<open>From an accepted response on: the body, then the end; an error drops the handle.\<close>

definition body_phase ::
  "download_env \<Rightarrow> string \<Rightarrow> string \<Rightarrow> u64 option \<Rightarrow> http_body \<Rightarrow> download_state \<Rightarrow> (string + unit) \<times> download_state" where
  "body_phase env temp_path dest expected body s =
     (case copy_body env temp_path expected body s of
        (Inl e, s4) \<Rightarrow> (Inl e, drop_file env temp_path s4)
      | (Inr received, s4) \<Rightarrow> finish_download env temp_path dest expected received s4)"

text \<open>Everything up to the point where the sink is told the result: every return of the source goes through
  \<^const>\<open>finalize_sink\<close>.\<close>

definition transfer ::
  "download_env \<Rightarrow> string \<Rightarrow> string \<Rightarrow> request_timeouts \<Rightarrow> bool \<Rightarrow> download_state \<Rightarrow> (string + unit) \<times> download_state" where
  "transfer env url dest to resume s =
     (case (if has_parent dest then io_mkdir env else None) of
        Some e \<Rightarrow> (Inl (''create dir: '' @ e), s)
      | None \<Rightarrow>
          (let temp_path = with_extension ''part'' dest;
               resume_offset = resume_offset_of env resume temp_path s
           in case open_part env resume_offset temp_path s of
                (Some e, s1) \<Rightarrow> (Inl e, s1)
              | (None, s1) \<Rightarrow>
                  (let deadline = map_option (\<lambda>t. de_now env 0 + t) (rt_request to) in
                   case request_loop env resume_offset to deadline url 0 s1 of
                     (Inl e, s2) \<Rightarrow> (Inl e, s2)
                   | (Inr resp, s2) \<Rightarrow>
                       (case check_status env resume_offset temp_path dest resp s2 of
                          (Dl_Return r, s3) \<Rightarrow> (r, s3)
                        | (Dl_Go expected, s3) \<Rightarrow>
                            body_phase env temp_path dest expected (rs_body resp) s3))))"

definition download_resource ::
  "download_env \<Rightarrow> string \<Rightarrow> string \<Rightarrow> request_timeouts \<Rightarrow> bool \<Rightarrow> download_state \<Rightarrow> (string + unit) \<times> download_state" where
  "download_resource env url dest to resume s = (case transfer env url dest to resume s of (r, s') \<Rightarrow> finalize_sink r s')"

definition dl_init :: "files \<Rightarrow> bool \<Rightarrow> download_state" where
  "dl_init fs sink = \<lparr>dl_files = fs, dl_pending = [], dl_writes = 0, dl_sink = sink, dl_sink_log = [], dl_hops = []\<rparr>"

definition download :: "download_env \<Rightarrow> download_options \<Rightarrow> files \<Rightarrow> (string + unit) \<times> download_state" where
  "download env options fs =
     download_resource env (do_url options) (do_dest options) (timeouts options) (do_resume options)
       (dl_init fs (do_sink options))"

text \<open>The spawned form runs the same transfer and leaves its result in the completion channel; the guard and the
  observer's owner are those of the caller.\<close>

definition spawn_download ::
  "download_env \<Rightarrow> download_options \<Rightarrow> files \<Rightarrow> (string + unit) option \<times> download_state" where
  "spawn_download env options fs = (case download env options fs of (r, s) \<Rightarrow> (Some r, s))"

section \<open>Content-Range values\<close>

text \<open>The header a server writes for a range, RFC 9110 section 14.4.\<close>

definition print_content_range :: "content_range \<Rightarrow> string" where
  "print_content_range r =
     (case r of
        CR_Bytes s e len \<Rightarrow>
          ''bytes '' @ string_of_nat (unat s) @ ''-'' @ string_of_nat (unat e) @ ''/'' @
          (case len of None \<Rightarrow> ''*'' | Some l \<Rightarrow> string_of_nat (unat l))
      | CR_Unsatisfied len \<Rightarrow> ''bytes */'' @ (case len of None \<Rightarrow> ''*'' | Some l \<Rightarrow> string_of_nat (unat l)))"

definition content_range_ok :: "content_range \<Rightarrow> bool" where
  "content_range_ok r =
     (case r of
        CR_Bytes s e len \<Rightarrow> s \<le> e \<and> (case len of None \<Rightarrow> True | Some l \<Rightarrow> e < l)
      | CR_Unsatisfied _ \<Rightarrow> True)"

lemma parse_u64_unat [simp]: "parse_u64 (string_of_nat (unat (w :: u64))) = Some w"
  using parse_u64_string_of_nat [of "unat w"] unat_bound [of w] by simp

lemma string_of_nat_not_star: "string_of_nat n \<noteq> ''*''"
  using string_of_nat_digits [of n] by (auto simp: list_all_iff is_digit_def)

lemma trim_star [simp]: "trim ''*'' = ''*''"
  by (rule trim_graphic) (simp_all add: graphic_def byte_of_def)

lemma parse_printed_length [simp]:
  "parse_complete_length (trim (case len of None \<Rightarrow> ''*'' | Some l \<Rightarrow> string_of_nat (unat l))) = Some len"
proof (cases len)
  case None
  then show ?thesis by (simp add: parse_complete_length_def)
next
  case (Some l)
  then show ?thesis by (simp add: parse_complete_length_def string_of_nat_not_star)
qed

lemma trim_bytes_prefix:
  assumes "v \<noteq> []" "graphic (last v)"
  shows "trim (''bytes '' @ v) = ''bytes '' @ v"
  by (rule trim_graphic) (use assms in \<open>simp_all add: graphic_def byte_of_def\<close>)

lemma printed_length_last:
  "graphic (last (v @ (case len of None \<Rightarrow> ''*'' | Some l \<Rightarrow> string_of_nat (unat (l :: u64)))))"
  by (cases len) (simp add: graphic_def byte_of_def, simp add: graphic_string_of_nat)

lemma parse_print_content_range: "content_range_ok r \<longrightarrow> parse_content_range (print_content_range r) = Some r"
proof (cases r)
  case (CR_Bytes s e len)
  let ?l = "case len of None \<Rightarrow> ''*'' | Some l \<Rightarrow> string_of_nat (unat l)"
  let ?rng = "string_of_nat (unat s) @ ''-'' @ string_of_nat (unat e)"
  have t: "trim (''bytes '' @ ?rng @ ''/'' @ ?l) = ''bytes '' @ ?rng @ ''/'' @ ?l"
    using printed_length_last [of "?rng @ ''/''" len] by (intro trim_bytes_prefix) simp_all
  have d: "CHR ''/'' \<notin> set (string_of_nat n)" "CHR ''-'' \<notin> set (string_of_nat n)" for n
    by (auto intro!: not_in_string_of_nat simp: is_digit_def)
  have a: "split_once (CHR ''/'') (?rng @ ''/'' @ ?l) = Some (?rng, ?l)"
    using split_once_append [of "CHR ''/''" ?rng ?l] d by simp
  have b: "split_once (CHR ''-'') ?rng = Some (string_of_nat (unat s), string_of_nat (unat e))"
    using split_once_append [of "CHR ''-''" "string_of_nat (unat s)" "string_of_nat (unat e)"] d by simp
  have n: "strip_prefix ''*/'' (?rng @ ''/'' @ ?l) = None"
    using string_of_nat_digits [of "unat s"] string_of_nat_nonempty [of "unat s"]
    by (cases "string_of_nat (unat s)") (auto simp: strip_prefix_def starts_with_def is_digit_def)
  show ?thesis
    using t [simplified] a b n by (cases len)
      (auto simp: CR_Bytes print_content_range_def parse_content_range_def content_range_ok_def
        strip_prefix_append [of "''bytes ''", simplified] parse_complete_length_def string_of_nat_not_star
        linorder_not_less linorder_not_le)
next
  case (CR_Unsatisfied len)
  let ?l = "case len of None \<Rightarrow> ''*'' | Some l \<Rightarrow> string_of_nat (unat l)"
  have t: "trim (''bytes '' @ ''*/'' @ ?l) = ''bytes '' @ ''*/'' @ ?l"
    using printed_length_last [of "''*/''" len] by (intro trim_bytes_prefix) simp_all
  show ?thesis
    using t [simplified] by (simp add: CR_Unsatisfied print_content_range_def parse_content_range_def
        strip_prefix_append [of "''bytes ''", simplified] strip_prefix_append [of "''*/''", simplified])
qed

lemma parse_content_range_ok: "parse_content_range v = Some r \<Longrightarrow> content_range_ok r"
  by (auto simp: parse_content_range_def content_range_ok_def Let_def linorder_not_less linorder_not_le
      split: option.splits if_splits prod.splits)

text \<open>
  The parser of the Content-Range header is exact on what servers write: it reads back every well-formed range,
  and whatever it accepts satisfies the order that the download relies on (the start is not behind the end, the end is
  inside the complete length), so the length it computes from a range cannot wrap.
\<close>

theorem content_range_roundtrip:
  "(content_range_ok r \<longrightarrow> parse_content_range (print_content_range r) = Some r) \<and>
   (parse_content_range v = Some r' \<longrightarrow> content_range_ok r')"
  using parse_print_content_range parse_content_range_ok by blast

theorem content_range_roundtrip_witness:
  "parse_content_range (print_content_range (CR_Bytes 5 9 (Some 10))) = Some (CR_Bytes 5 9 (Some 10)) \<and>
   content_range_ok (CR_Bytes 5 9 (Some 10))"
proof -
  have ok: "content_range_ok (CR_Bytes 5 9 (Some 10))" by (simp add: content_range_ok_def)
  then show ?thesis
    using content_range_roundtrip [of "CR_Bytes 5 9 (Some 10)" "''bytes 5-9/10''" "CR_Bytes 5 9 (Some 10)"] by blast
qed

section \<open>What reaches the file\<close>

text \<open>The bytes of a body a transfer reads before it stops, and whether it stops at an error.\<close>

definition body_bytes :: "http_body \<Rightarrow> string" where
  "body_bytes b = (case b of HB_Empty \<Rightarrow> [] | HB_Small buf \<Rightarrow> buf | HB_Stream items \<Rightarrow> ok_prefix items)"

definition body_error :: "http_body \<Rightarrow> string option" where
  "body_error b = (case b of HB_Stream items \<Rightarrow> first_error items | _ \<Rightarrow> None)"

text \<open>\<open>held p s c\<close>: the file at \<open>p\<close> and what its handle still holds make up \<open>c\<close>; \<open>same_but p s s'\<close>: nothing else has
  changed in the file system, and no request was sent.\<close>

definition held :: "string \<Rightarrow> download_state \<Rightarrow> string \<Rightarrow> bool" where
  "held p s c \<longleftrightarrow> (\<exists>f. dl_files s p = Some f \<and> f @ dl_pending s = c)"

definition held_prefix :: "string \<Rightarrow> download_state \<Rightarrow> string \<Rightarrow> bool" where
  "held_prefix p s c \<longleftrightarrow> (\<exists>f. dl_files s p = Some f \<and> prefix (f @ dl_pending s) c)"

definition same_but :: "string \<Rightarrow> download_state \<Rightarrow> download_state \<Rightarrow> bool" where
  "same_but p s s' \<longleftrightarrow> (\<forall>q. q \<noteq> p \<longrightarrow> dl_files s' q = dl_files s q) \<and> dl_hops s' = dl_hops s"

lemma held_is_prefix: "held p s c \<Longrightarrow> held_prefix p s c"
  by (auto simp: held_def held_prefix_def)

lemma held_prefix_mono: "held_prefix p s c \<Longrightarrow> prefix c d \<Longrightarrow> held_prefix p s d"
  by (auto simp: held_prefix_def intro: prefix_order.trans)

lemma same_but_refl [simp]: "same_but p s s"
  by (simp add: same_but_def)

lemma same_but_trans: "same_but p s t \<Longrightarrow> same_but p t u \<Longrightarrow> same_but p s u"
  by (simp add: same_but_def)

lemma forward_frame [simp]:
  "dl_files (forward env d s) = dl_files s" "dl_pending (forward env d s) = dl_pending s"
  "dl_hops (forward env d s) = dl_hops s" "dl_writes (forward env d s) = dl_writes s"
  by (simp_all add: forward_def Let_def split: option.splits)

lemma forward_held [simp]: "held p (forward env d s) c = held p s c"
  by (simp add: held_def)

lemma forward_same [simp]: "same_but p s (forward env d s)"
  by (simp add: same_but_def)

lemma write_all_held:
  assumes "held p s c" "write_all env p d s = (r, s')"
  shows "same_but p s s' \<and> held_prefix p s' (c @ d) \<and> (r = None \<longrightarrow> held p s' (c @ d))"
proof -
  obtain f where f: "dl_files s p = Some f" "f @ dl_pending s = c" using assms(1) by (auto simp: held_def)
  obtain n e where n: "io_write env (dl_writes s) = (n, e)" by (cases "io_write env (dl_writes s)")
  have t: "prefix (f @ take n (dl_pending s @ d)) (f @ dl_pending s @ d)"
    by (simp only: same_prefix_prefix take_is_prefix)
  show ?thesis
  proof (cases e)
    case None
    then have s': "r = None" "s' = (append_file p (take n (dl_pending s @ d)) s)\<lparr>dl_pending := drop n (dl_pending s @ d),
        dl_writes := Suc (dl_writes s)\<rparr>"
      using assms(2) n by (auto simp: write_all_def Let_def)
    have "held p s' (c @ d)" using f unfolding s' by (simp add: held_def append_file_def del: take_append drop_append)
    then show ?thesis using s' by (auto simp: held_is_prefix same_but_def append_file_def)
  next
    case (Some x)
    then have s': "r = Some x" "s' = (append_file p (take n (dl_pending s @ d)) s)\<lparr>dl_pending := [],
        dl_writes := Suc (dl_writes s)\<rparr>"
      using assms(2) n by (auto simp: write_all_def Let_def)
    then show ?thesis using f t by (auto simp: held_prefix_def same_but_def append_file_def)
  qed
qed

lemma copy_chunk_held:
  assumes h: "held p s c" and r: "copy_chunk env p x d rcv s = (r, s')"
  shows "same_but p s s' \<and> held_prefix p s' (c @ d) \<and> (\<forall>n. r = Inr n \<longrightarrow> held p s' (c @ d))"
proof (cases "check_partial_body_len x (length d) rcv")
  case (Inl e)
  then show ?thesis using r h held_prefix_mono [OF held_is_prefix [OF h], of "c @ d"] by (auto simp: copy_chunk_def)
next
  case (Inr n)
  obtain e t where e: "write_all env p d (forward env d s) = (e, t)" by (cases "write_all env p d (forward env d s)")
  have "held p (forward env d s) c" using h by simp
  note w = write_all_held [OF this e]
  have st: "s' = t" "r = (case e of None \<Rightarrow> Inr n | Some x \<Rightarrow> Inl (''write chunk: '' @ x))"
    using r Inr e by (auto simp: copy_chunk_def split: option.splits)
  have "same_but p s t" using w same_but_trans [OF forward_same] by blast
  then show ?thesis using w st by (auto split: option.splits)
qed

lemma copy_stream_held:
  "held p s c \<Longrightarrow> copy_stream env p x items rcv s = (r, s') \<Longrightarrow>
   same_but p s s' \<and> held_prefix p s' (c @ ok_prefix items) \<and>
   (\<forall>n. r = Inr n \<longrightarrow> held p s' (c @ ok_prefix items) \<and> first_error items = None)"
proof (induction env p x items rcv s arbitrary: c rule: copy_stream.induct)
  case (3 env p x d rest rcv s)
  obtain q t where q: "copy_chunk env p x d rcv s = (q, t)" by (cases "copy_chunk env p x d rcv s")
  note k = copy_chunk_held [OF "3.prems"(1) q]
  show ?case
  proof (cases q)
    case (Inl e)
    then have "r = Inl e" "s' = t" using "3.prems"(2) q by auto
    then show ?thesis using k held_prefix_mono [of p t "c @ d" "c @ d @ ok_prefix rest"] by simp
  next
    case (Inr n)
    then have "copy_stream env p x rest n t = (r, s')" using "3.prems"(2) q by simp
    from "3.IH" [OF q [unfolded Inr, symmetric] refl _ this, of "c @ d"] show ?thesis
      using k Inr same_but_trans by auto
  qed
qed (auto dest: held_is_prefix)

lemma copy_body_held:
  assumes "held p s c" "copy_body env p x b s = (r, s')"
  shows "same_but p s s' \<and> held_prefix p s' (c @ body_bytes b) \<and>
         (\<forall>n. r = Inr n \<longrightarrow> held p s' (c @ body_bytes b) \<and> body_error b = None)"
proof (cases b)
  case HB_Empty
  then show ?thesis using assms by (auto simp: copy_body_def body_bytes_def body_error_def held_is_prefix)
next
  case (HB_Small buf)
  then show ?thesis
    using copy_chunk_held [OF assms(1)] assms(2) by (simp add: copy_body_def body_bytes_def body_error_def)
next
  case (HB_Stream items)
  then show ?thesis
    using copy_stream_held [OF assms(1)] assms(2) by (simp add: copy_body_def body_bytes_def body_error_def)
qed

text \<open>The count a partial response is checked against is the number of bytes copied.\<close>

lemma copy_chunk_count:
  assumes "copy_chunk env p x d rcv s = (Inr n, s')" "length d < 2 ^ 64"
  shows "unat n = unat rcv + length d"
proof -
  have "checked_add rcv (of_nat (length d)) = Some n"
    using assms(1) by (auto simp: copy_chunk_def check_partial_body_len_def split: option.splits if_splits prod.splits)
  then show ?thesis using unat_checked_add assms(2) by (fastforce simp: unat_of_nat)
qed

lemma copy_stream_count:
  "copy_stream env p x items rcv s = (Inr n, s') \<Longrightarrow> length (ok_prefix items) < 2 ^ 64 \<Longrightarrow>
   unat n = unat rcv + length (ok_prefix items)"
proof (induction env p x items rcv s rule: copy_stream.induct)
  case (3 env p x d rest rcv s)
  obtain q t where q: "copy_chunk env p x d rcv s = (Inr q, t)" "copy_stream env p x rest q t = (Inr n, s')"
    using "3.prems"(1) by (auto split: prod.splits sum.splits)
  show ?case
    using copy_chunk_count [OF q(1)] "3.IH" [OF q(1) [symmetric] refl q(2)] "3.prems"(2) by simp
qed auto

lemma copy_body_count:
  assumes "copy_body env p x b s = (Inr n, s')" "length (body_bytes b) < 2 ^ 64"
  shows "unat n = length (body_bytes b)"
  using assms copy_chunk_count [of env p x _ 0 s n s'] copy_stream_count [of env p x _ 0 s n s']
  by (cases b) (auto simp: copy_body_def body_bytes_def)

section \<open>Following redirects\<close>

text \<open>What is known of a hop: the guard accepted the request, it carries the range exactly when a resume is under way.\<close>

definition hop_ok :: "download_env \<Rightarrow> u64 \<Rightarrow> http_request \<times> (string + http_response) \<Rightarrow> bool" where
  "hop_ok env off h \<longleftrightarrow>
     de_access env (fst h) = None \<and> build_download_request env (hq_url (fst h)) off = Inr (fst h)"

text \<open>A hop follows another: that one answered with a redirect, and this one asks for its target.\<close>

fun hops_linked :: "download_env \<Rightarrow> (http_request \<times> (string + http_response)) list \<Rightarrow> bool" where
  "hops_linked env ((q, a) # (q', a') # hs) =
     ((case a of
         Inr resp \<Rightarrow> is_download_redirect (rs_status resp) \<and>
           redirect_target env (hq_url q) (rs_headers resp) = Inr (hq_url q')
       | Inl _ \<Rightarrow> False) \<and> hops_linked env ((q', a') # hs))"
| "hops_linked env _ = True"

lemma build_download_request_url: "build_download_request env url off = Inr q \<Longrightarrow> hq_url q = url"
  by (auto simp: build_download_request_def Let_def split: option.splits if_splits)

text \<open>What a run of the loop adds to the log: nothing, or a chain of hops that starts at the URL; when it returns a
  response, that is the answer of the last one.\<close>

definition hops_added ::
  "download_env \<Rightarrow> u64 \<Rightarrow> string \<Rightarrow> (http_request \<times> (string + http_response)) list \<Rightarrow> bool" where
  "hops_added env off url hs \<longleftrightarrow>
     list_all (hop_ok env off) hs \<and> hops_linked env hs \<and> (hs \<noteq> [] \<longrightarrow> hq_url (fst (hd hs)) = url)"

definition final_answer ::
  "download_env \<Rightarrow> string + http_response \<Rightarrow> (http_request \<times> (string + http_response)) list \<Rightarrow> bool" where
  "final_answer env r hs \<longleftrightarrow>
     (\<forall>resp. r = Inr resp \<longrightarrow> hs \<noteq> [] \<and> snd (last hs) = r \<and> (\<exists>n q t. de_send env n q t = r))"

lemma request_hop_cases:
  assumes "request_hop env off to dl url count s = (r, s')"
  shows "(\<exists>e. r = Inl e \<and> s' = s) \<or>
         (\<exists>q. s' = s\<lparr>dl_hops := dl_hops s @ [(q, r)]\<rparr> \<and> hops_added env off url [(q, r)] \<and> final_answer env r [(q, r)])"
  using assms build_download_request_url [of env url off]
  by (auto simp: request_hop_def hops_added_def final_answer_def hop_ok_def Let_def split: sum.splits option.splits)

lemma request_loop_hops:
  "request_loop env off to dl url count s = (r, s') \<Longrightarrow> count \<le> MAX_DOWNLOAD_REDIRECTS \<Longrightarrow>
   \<exists>hs. s' = s\<lparr>dl_hops := dl_hops s @ hs\<rparr> \<and> length hs \<le> Suc MAX_DOWNLOAD_REDIRECTS - count \<and>
     hops_added env off url hs \<and> final_answer env r hs"
proof (induction env off to dl url count s rule: request_loop.induct)
  case (1 env off to dl url count s)
  obtain a s1 where h: "request_hop env off to dl url count s = (a, s1)"
    by (cases "request_hop env off to dl url count s")
  from request_hop_cases [OF h] show ?case
  proof (elim disjE exE conjE)
    fix e assume "a = Inl e" "s1 = s"
    then show ?case using "1.prems" h
      by (subst (asm) request_loop.simps) (auto intro!: exI [of _ "[]"] simp: hops_added_def final_answer_def)
  next
    fix q assume q: "s1 = s\<lparr>dl_hops := dl_hops s @ [(q, a)]\<rparr>" "hops_added env off url [(q, a)]"
      "final_answer env a [(q, a)]"
    have last: ?case if "(r, s') = (a, s1) \<or> (\<exists>e. (r, s') = (Inl e, s1))"
      using that q "1.prems"(2) by (intro exI [of _ "[(q, a)]"]) (auto simp: final_answer_def)
    show ?case
    proof (cases "\<exists>resp url'. a = Inr resp \<and> is_download_redirect (rs_status resp) \<and>
        \<not> MAX_DOWNLOAD_REDIRECTS \<le> count \<and> redirect_target env url (rs_headers resp) = Inr url'")
      case False
      then show ?thesis
        using "1.prems"(1) h by (intro last) (subst (asm) request_loop.simps, auto split: sum.splits if_splits)
    next
      case True
      then obtain resp url' where rd: "a = Inr resp" "is_download_redirect (rs_status resp)"
        "\<not> MAX_DOWNLOAD_REDIRECTS \<le> count" "redirect_target env url (rs_headers resp) = Inr url'"
        by blast
      have "request_loop env off to dl url' (Suc count) s1 = (r, s')"
        using "1.prems"(1) by (subst (asm) request_loop.simps) (simp add: h rd)
      from "1.IH" [OF h [symmetric] rd(1) _ rd(3,4) this]
      obtain hs where hs: "s' = s1\<lparr>dl_hops := dl_hops s1 @ hs\<rparr>" "length hs \<le> Suc MAX_DOWNLOAD_REDIRECTS - Suc count"
        "hops_added env off url' hs" "final_answer env r hs"
        using rd(2,3) by auto
      have "hops_added env off url ((q, a) # hs)"
        using hs(3) q(2) rd by (cases hs) (auto simp: hops_added_def)
      moreover have "final_answer env r ((q, a) # hs)" using hs(4) by (auto simp: final_answer_def)
      ultimately show ?thesis using hs(1,2) q(1) rd(3) by (intro exI [of _ "(q, a) # hs"]) auto
    qed
  qed
qed

section \<open>What a transfer leaves behind\<close>

text \<open>A response whose body is copied: a success, and when partial one that continues the part file to the complete
  length. Then the file is made of the bytes there before, if they are continued, and those of the body.\<close>

definition accepted :: "download_env \<Rightarrow> u64 \<Rightarrow> http_response \<Rightarrow> bool" where
  "accepted env off resp \<longleftrightarrow>
     is_success (rs_status resp) \<and>
     (rs_status resp = 206 \<longrightarrow>
        0 < off \<and> (\<exists>e len. content_range_of env (rs_headers resp) = Inr (CR_Bytes off e (Some len)) \<and>
                          unat len = unat e + 1))"

definition assembled :: "string \<Rightarrow> http_response \<Rightarrow> string" where
  "assembled old resp = (if rs_status resp = 206 then old else []) @ body_bytes (rs_body resp)"

lemma open_part_base:
  assumes "open_part env off p s = (None, s1)" "dl_pending s = []" "off = resume_offset_of env resume p s"
  shows "same_but p s s1 \<and> dl_pending s1 = [] \<and>
         held p s1 (if 0 < off then the (dl_files s p) else []) \<and> (0 < off \<longrightarrow> s1 = s)"
  using assms
  by (auto simp: open_part_def resume_offset_of_def create_file_def same_but_def held_def split: option.splits if_splits)

lemma open_part_err: "open_part env off p s = (Some e, s1) \<Longrightarrow> s1 = s"
  by (auto simp: open_part_def split: option.splits if_splits)

lemma content_range_of_ok: "content_range_of env hs = Inr r \<Longrightarrow> content_range_ok r"
  by (auto simp: content_range_of_def parse_content_range_ok split: option.splits sum.splits)

lemma range_length:
  fixes off e l :: u64
  assumes "off \<le> e" "unat l = unat e + 1"
  shows "unat (e - off + 1) = unat e - unat off + 1"
  using assms unat_bound [of l] by (simp add: unat_word_ariths unat_sub word_le_nat_alt)

lemma checked_range_end:
  assumes "checked_add (e :: u64) 1 = Some len"
  shows "unat len = unat e + 1"
  using unat_checked_add [OF assms] by simp

lemma check_status_go:
  assumes "check_status env off p dest resp s = (Dl_Go x, s')" "held p s old" "dl_pending s = []"
  shows "accepted env off resp \<and> same_but p s s' \<and>
         held p s' (if rs_status resp = 206 \<or> off = 0 then old else []) \<and> dl_pending s' = [] \<and>
         (rs_status resp = 206 \<longrightarrow>
            (\<exists>e len. content_range_of env (rs_headers resp) = Inr (CR_Bytes off e (Some len)) \<and> x = Some (e - off + 1)))"
proof (cases "0 < off")
  case False
  then have "off = 0" by (simp add: word_gt_0)
  then show ?thesis using assms by (auto simp: check_status_def accepted_def split: if_splits)
next
  case True
  then have r: "resume_status env off p dest resp s = (Dl_Go x, s')" "is_success (rs_status resp)"
    using assms(1) by (auto simp: check_status_def split: prod.splits dl_flow.splits if_splits)
  show ?thesis
  proof (cases "rs_status resp = 206")
    case True
    with r(1) obtain e len where "content_range_of env (rs_headers resp) = Inr (CR_Bytes off e (Some len))"
      "checked_add e 1 = Some len" "x = Some (e - off + 1)" "s' = s"
      by (auto simp: resume_status_def split: sum.splits content_range.splits option.splits if_splits)
    then show ?thesis using True r(2) assms(2,3) \<open>0 < off\<close> checked_range_end by (auto simp: accepted_def)
  next
    case False
    have "\<not> is_success 416" by (simp add: is_success_def)
    with False r have "rs_status resp = 200" "s' = create_file p s"
      by (auto simp: resume_status_def split: sum.splits content_range.splits option.splits if_splits prod.splits)
    then show ?thesis using True r(2) assms(3)
      by (auto simp: accepted_def create_file_def same_but_def held_def)
  qed
qed

lemma check_status_return:
  assumes "check_status env off p dest resp s = (Dl_Return r, s')"
  shows "(\<exists>e. r = Inl e \<and> same_but p s s' \<and> dl_pending s' = dl_pending s \<and> dl_files s' p \<in> {None, Some [], dl_files s p}) \<or>
         (r = Inr () \<and> 0 < off \<and> rs_status resp = 416 \<and>
          content_range_of env (rs_headers resp) = Inr (CR_Unsatisfied (Some off)) \<and>
          s' = s\<lparr>dl_files := ((dl_files s)(p := None))(dest := dl_files s p)\<rparr>)"
  using assms
  by (auto simp: check_status_def resume_status_def create_file_def rename_file_def remove_file_def same_but_def
      split: if_splits option.splits sum.splits content_range.splits)

lemma finish_download_result:
  assumes "held p s c" "finish_download env p dest x n s = (r, s')"
  shows "(\<exists>e. r = Inl e \<and> same_but p s s' \<and> (\<exists>f. dl_files s' p = Some f \<and> prefix f c)) \<or>
         (r = Inr () \<and> dl_files s' = ((dl_files s)(p := None))(dest \<mapsto> c) \<and> dl_hops s' = dl_hops s \<and>
          (\<forall>y. x = Some y \<longrightarrow> n = y))"
proof -
  obtain f where f: "dl_files s p = Some f" "f @ dl_pending s = c" using assms(1) by (auto simp: held_def)
  have t: "prefix (f @ take k (dl_pending s)) c" for k unfolding f(2) [symmetric] by (simp add: take_is_prefix)
  show ?thesis
    using assms(2) f t
    by (auto simp: finish_download_def flush_def rename_file_def drop_file_def append_file_def same_but_def
        split: if_splits option.splits prod.splits)
qed

lemma drop_file_prefix:
  assumes "held_prefix p s c"
  shows "same_but p s (drop_file env p s) \<and> (\<exists>f. dl_files (drop_file env p s) p = Some f \<and> prefix f c)"
proof -
  obtain f where f: "dl_files s p = Some f" "prefix (f @ dl_pending s) c" using assms by (auto simp: held_prefix_def)
  have "prefix (f @ take (io_drop env) (dl_pending s)) (f @ dl_pending s)" by (simp add: take_is_prefix)
  then have "prefix (f @ take (io_drop env) (dl_pending s)) c" using f(2) by (rule prefix_order.trans)
  then show ?thesis using f(1) by (simp add: drop_file_def append_file_def same_but_def)
qed

lemma body_phase_result:
  assumes h: "held p s c" and r: "body_phase env p dest x b s = (r, s')"
  shows "(\<exists>e. r = Inl e \<and> same_but p s s' \<and> (\<exists>f. dl_files s' p = Some f \<and> prefix f (c @ body_bytes b))) \<or>
         (r = Inr () \<and> dl_files s' = ((dl_files s)(p := None))(dest \<mapsto> c @ body_bytes b) \<and> dl_hops s' = dl_hops s \<and>
          body_error b = None \<and> (\<forall>y. x = Some y \<longrightarrow> length (body_bytes b) < 2 ^ 64 \<longrightarrow> unat y = length (body_bytes b)))"
proof -
  obtain q t where q: "copy_body env p x b s = (q, t)" by (cases "copy_body env p x b s")
  note k = copy_body_held [OF h q]
  show ?thesis
  proof (cases q)
    case (Inl e)
    then show ?thesis using r q k drop_file_prefix [of p t "c @ body_bytes b" env] same_but_trans
      by (auto simp: body_phase_def)
  next
    case (Inr n)
    have f: "finish_download env p dest x n t = (r, s')" using r q Inr by (simp add: body_phase_def)
    have sb: "same_but p s t" and ht: "held p t (c @ body_bytes b)" and e: "body_error b = None"
      using k Inr by auto
    have "(dl_files t)(p := None) = (dl_files s)(p := None)" "dl_hops t = dl_hops s"
      using sb by (auto simp: same_but_def)
    then show ?thesis
      using finish_download_result [OF ht f] e sb copy_body_count [OF q [unfolded Inr]] same_but_trans by auto
  qed
qed

text \<open>The two outcomes of a transfer. It fails: only the part file may differ, and it is gone, empty, as it was, or a
  prefix of what was being assembled. It succeeds: the part file became the destination.\<close>

definition failed_with ::
  "download_env \<Rightarrow> u64 \<Rightarrow> string \<Rightarrow> download_state \<Rightarrow> download_state \<Rightarrow> bool" where
  "failed_with env off p s s' \<longleftrightarrow>
     (\<forall>q. q \<noteq> p \<longrightarrow> dl_files s' q = dl_files s q) \<and>
     (dl_files s' p \<in> {None, Some [], dl_files s p} \<or>
      (\<exists>resp f. (\<exists>n q t. de_send env n q t = Inr resp) \<and> accepted env off resp \<and> dl_files s' p = Some f \<and>
         prefix f (assembled (the (dl_files s p)) resp)))"

definition succeeded_with ::
  "download_env \<Rightarrow> u64 \<Rightarrow> string \<Rightarrow> string \<Rightarrow> http_response \<Rightarrow> download_state \<Rightarrow> download_state \<Rightarrow> bool" where
  "succeeded_with env off p dest resp s s' \<longleftrightarrow>
     (if rs_status resp = 416
      then 0 < off \<and> content_range_of env (rs_headers resp) = Inr (CR_Unsatisfied (Some off)) \<and>
           dl_files s' = ((dl_files s)(p := None))(dest := dl_files s p)
      else accepted env off resp \<and> body_error (rs_body resp) = None \<and>
           dl_files s' = ((dl_files s)(p := None))(dest \<mapsto> assembled (the (dl_files s p)) resp) \<and>
           (\<forall>e len. rs_status resp = 206 \<longrightarrow> content_range_of env (rs_headers resp) = Inr (CR_Bytes off e (Some len)) \<longrightarrow>
              length (body_bytes (rs_body resp)) < 2 ^ 64 \<longrightarrow> unat (e - off + 1) = length (body_bytes (rs_body resp))))"

lemma fun_upd_same_but: "same_but p s t \<Longrightarrow> (dl_files t)(p := x) = (dl_files s)(p := x)"
  by (auto simp: same_but_def)

lemma transfer_body:
  assumes g: "check_status env off p dest resp s2 = (Dl_Go x, s3)"
    and h: "held p s2 (if 0 < off then the (dl_files s p) else [])" "dl_pending s2 = []"
    and frame: "\<forall>q. q \<noteq> p \<longrightarrow> dl_files s2 q = dl_files s q"
    and sent: "de_send env n q t = Inr resp"
    and bp: "body_phase env p dest x (rs_body resp) s3 = (r, s')"
  shows "(\<exists>e. r = Inl e \<and> failed_with env off p s s') \<or>
         (r = Inr () \<and> succeeded_with env off p dest resp s s' \<and> dl_hops s' = dl_hops s2)"
proof -
  note c = check_status_go [OF g h]
  let ?base = "if rs_status resp = 206 then the (dl_files s p) else []"
  have acc: "accepted env off resp" and nr: "rs_status resp \<noteq> 416" and sb: "same_but p s2 s3"
    using c by (auto simp: accepted_def is_success_def)
  have base: "held p s3 ?base" using c by (auto simp: accepted_def split: if_splits)
  have as: "?base @ body_bytes (rs_body resp) = assembled (the (dl_files s p)) resp"
    by (simp add: assembled_def)
  have s3: "(dl_files s3)(p := None) = (dl_files s)(p := None)" "\<forall>q. q \<noteq> p \<longrightarrow> dl_files s3 q = dl_files s q"
    using sb frame by (auto simp: same_but_def)
  from body_phase_result [OF base bp, unfolded as] show ?thesis
  proof (elim disjE exE conjE)
    fix e f assume e: "r = Inl e" "same_but p s3 s'" "dl_files s' p = Some f"
      "prefix f (assembled (the (dl_files s p)) resp)"
    then have "failed_with env off p s s'"
      unfolding failed_with_def using s3(2) acc sent by (auto simp: same_but_def intro!: exI [of _ resp])
    then show ?thesis using e(1) by simp
  next
    assume o: "r = Inr ()" "dl_files s' = ((dl_files s3)(p := None))(dest \<mapsto> assembled (the (dl_files s p)) resp)"
      "dl_hops s' = dl_hops s3" "body_error (rs_body resp) = None"
      "\<forall>y. x = Some y \<longrightarrow> length (body_bytes (rs_body resp)) < 2 ^ 64 \<longrightarrow> unat y = length (body_bytes (rs_body resp))"
    have "succeeded_with env off p dest resp s s'"
      using o(2,4,5) acc nr c s3(1) by (auto simp: succeeded_with_def)
    then show ?thesis using o(1,3) sb by (simp add: same_but_def)
  qed
qed

lemma transfer_after_open:
  assumes off: "off = resume_offset_of env resume p s" and n: "dl_pending s = []"
    and o: "open_part env off p s = (None, s1)"
    and l: "request_loop env off to dl url 0 s1 = (a, s2)"
    and r: "(case a of
               Inl e \<Rightarrow> (Inl e, s2)
             | Inr resp \<Rightarrow>
                 (case check_status env off p dest resp s2 of
                    (Dl_Return r, s3) \<Rightarrow> (r, s3)
                  | (Dl_Go x, s3) \<Rightarrow> body_phase env p dest x (rs_body resp) s3)) = (r, s')"
  shows "(\<exists>e. r = Inl e \<and> failed_with env off p s s') \<or>
         (r = Inr () \<and> (\<exists>resp. succeeded_with env off p dest resp s s' \<and> dl_hops s' \<noteq> [] \<and>
            snd (last (dl_hops s')) = Inr resp \<and> (\<exists>n q t. de_send env n q t = Inr resp)))"
proof -
  let ?old = "if 0 < off then the (dl_files s p) else []"
  note b = open_part_base [OF o n off]
  obtain hs where hs: "s2 = s1\<lparr>dl_hops := dl_hops s1 @ hs\<rparr>" "final_answer env a hs"
    using request_loop_hops [OF l] by auto
  have f2: "dl_files s2 = dl_files s1" "dl_pending s2 = []" "held p s2 ?old" "0 < off \<longrightarrow> dl_files s2 = dl_files s"
    using b hs(1) by (auto simp: held_def)
  have frame: "\<forall>q. q \<noteq> p \<longrightarrow> dl_files s2 q = dl_files s q" "\<And>x. (dl_files s2)(p := x) = (dl_files s)(p := x)"
    using b f2(1) fun_upd_same_but [of p s s1] by (auto simp: same_but_def)
  have p2: "dl_files s2 p \<in> {Some [], dl_files s p}" using f2(2-4) by (auto simp: held_def split: if_splits)
  show ?thesis
  proof (cases a)
    case (Inl e)
    then show ?thesis using r frame p2 by (auto simp: failed_with_def)
  next
    case (Inr resp)
    have ans: "hs \<noteq> []" "snd (last hs) = Inr resp" "\<exists>n q t. de_send env n q t = Inr resp"
      using hs(2) Inr by (auto simp: final_answer_def)
    have h2: "dl_hops s2 \<noteq> []" "snd (last (dl_hops s2)) = Inr resp" using hs(1) ans by auto
    show ?thesis
    proof (cases "check_status env off p dest resp s2")
      case (Pair fl s3)
      show ?thesis
      proof (cases fl)
        case (Dl_Return rr)
        then have rs: "rr = r" "s3 = s'" using r Inr Pair by auto
        note c = check_status_return [OF Pair [unfolded Dl_Return]]
        then show ?thesis
        proof (elim disjE exE conjE)
          fix e assume "rr = Inl e" "same_but p s2 s3" "dl_files s3 p \<in> {None, Some [], dl_files s2 p}"
          then show ?thesis using rs frame p2 by (auto simp: failed_with_def same_but_def)
        next
          assume c: "rr = Inr ()" "0 < off" "rs_status resp = 416"
            "content_range_of env (rs_headers resp) = Inr (CR_Unsatisfied (Some off))"
            "s3 = s2\<lparr>dl_files := ((dl_files s2)(p := None))(dest := dl_files s2 p)\<rparr>"
          then have "succeeded_with env off p dest resp s s'" using rs f2(4) by (simp add: succeeded_with_def)
          then show ?thesis using c rs h2 ans(3) by auto
        qed
      next
        case (Dl_Go x)
        obtain n q t where sent: "de_send env n q t = Inr resp" using ans(3) by blast
        have bp: "body_phase env p dest x (rs_body resp) s3 = (r, s')" using r Inr Pair Dl_Go by simp
        from transfer_body [OF Pair [unfolded Dl_Go] f2(3,2) frame(1) sent bp]
        show ?thesis using h2 ans(3) by auto
      qed
    qed
  qed
qed

text \<open>The whole transfer, with the part file and the offset it computes.\<close>

lemma transfer_result:
  assumes t: "transfer env url dest to resume s = (r, s')" and n: "dl_pending s = []"
    and p: "p = with_extension ''part'' dest" and off: "off = resume_offset_of env resume p s"
  shows "(\<exists>e. r = Inl e \<and> failed_with env off p s s') \<or>
         (r = Inr () \<and> (\<exists>resp. succeeded_with env off p dest resp s s' \<and> dl_hops s' \<noteq> [] \<and>
            snd (last (dl_hops s')) = Inr resp \<and> (\<exists>n q t. de_send env n q t = Inr resp)))"
proof (cases "if has_parent dest then io_mkdir env else None")
  case (Some e)
  then show ?thesis using t by (auto simp: transfer_def failed_with_def)
next
  case None
  let ?dl = "map_option (\<lambda>t. de_now env 0 + t) (rt_request to)"
  obtain oe s1 where o: "open_part env off p s = (oe, s1)" by (cases "open_part env off p s")
  obtain a s2 where l: "request_loop env off to ?dl url 0 s1 = (a, s2)" by (cases "request_loop env off to ?dl url 0 s1")
  show ?thesis
  proof (cases oe)
    case (Some e)
    then show ?thesis using t None o open_part_err [of env off p s e s1] p off
      by (auto simp: transfer_def Let_def failed_with_def)
  next
    case oe: None
    show ?thesis
      by (rule transfer_after_open [OF off n o [unfolded oe] l])
         (use t None o l oe p off in \<open>auto simp: transfer_def Let_def split: sum.splits\<close>)
  qed
qed

lemma finalize_sink_frame [simp]:
  "fst (finalize_sink r s) = r" "dl_files (snd (finalize_sink r s)) = dl_files s"
  "dl_hops (snd (finalize_sink r s)) = dl_hops s" "dl_pending (snd (finalize_sink r s)) = dl_pending s"
  by (simp_all add: finalize_sink_def)

lemma download_result:
  assumes "download env options fs = (r, s)"
    and "p = with_extension ''part'' (do_dest options)" "off = resume_offset_of env (do_resume options) p (dl_init fs sk)"
  shows "(\<exists>e. r = Inl e \<and> failed_with env off p (dl_init fs sk) s) \<or>
         (r = Inr () \<and> (\<exists>resp. succeeded_with env off p (do_dest options) resp (dl_init fs sk) s \<and> dl_hops s \<noteq> [] \<and>
            snd (last (dl_hops s)) = Inr resp \<and> (\<exists>n q t. de_send env n q t = Inr resp)))"
proof -
  let ?i = "dl_init fs (do_sink options)"
  obtain r' t where t: "transfer env (do_url options) (do_dest options) (timeouts options) (do_resume options) ?i = (r', t)"
    by (cases "transfer env (do_url options) (do_dest options) (timeouts options) (do_resume options) ?i")
  have f: "fst (finalize_sink r' t) = r" "snd (finalize_sink r' t) = s"
    using assms(1) t by (simp_all add: download_def download_resource_def)
  then have rs: "r' = r" "dl_files t = dl_files s" "dl_hops t = dl_hops s" by auto
  have i: "dl_pending ?i = []" "dl_files (dl_init fs sk) = fs" "dl_files ?i = fs" by (simp_all add: dl_init_def)
  have o: "off = resume_offset_of env (do_resume options) p ?i" using assms(3) i by (simp add: resume_offset_of_def)
  from transfer_result [OF t i(1) assms(2) o] show ?thesis
    unfolding failed_with_def succeeded_with_def i rs by simp
qed

text \<open>
  C30. When a download reports success the destination holds exactly what was announced and received, and the part
  file is gone: after a complete response its whole body; after a partial one the bytes already there followed by the
  body, of the complete length the server declared; after the refusal of a range that starts at the declared
  end the bytes already there. The body ended without an error, and no other file was touched.
\<close>

theorem download_commits_exactly:
  assumes d: "download env options fs = (Inr (), s)"
    and p: "p = with_extension ''part'' (do_dest options)" "p \<noteq> do_dest options"
    and len: "length (case fs p of None \<Rightarrow> [] | Some c \<Rightarrow> c) < 2 ^ 64"
  shows "\<exists>resp. snd (last (dl_hops s)) = Inr resp \<and>
     dl_files s p = None \<and> (\<forall>q. q \<noteq> p \<longrightarrow> q \<noteq> do_dest options \<longrightarrow> dl_files s q = fs q) \<and>
     (if rs_status resp = 416 then do_resume options \<and> dl_files s (do_dest options) = fs p \<and>
        content_range_of env (rs_headers resp) = Inr (CR_Unsatisfied (Some (of_nat (length (the (fs p))))))
      else is_success (rs_status resp) \<and> body_error (rs_body resp) = None \<and>
        dl_files s (do_dest options) = Some (assembled (the (fs p)) resp) \<and>
        (rs_status resp = 206 \<longrightarrow> length (body_bytes (rs_body resp)) < 2 ^ 64 \<longrightarrow>
           (\<exists>e l. content_range_of env (rs_headers resp) = Inr (CR_Bytes (of_nat (length (the (fs p)))) e (Some l)) \<and>
              length (assembled (the (fs p)) resp) = unat l)))"
proof -
  let ?off = "resume_offset_of env (do_resume options) p (dl_init fs False)"
  obtain resp where k: "succeeded_with env ?off p (do_dest options) resp (dl_init fs False) s"
    "snd (last (dl_hops s)) = Inr resp"
    using download_result [OF d p(1) refl, of False] by auto
  have i: "dl_files (dl_init fs False) = fs" by (simp add: dl_init_def)
  have off: "?off = of_nat (length (the (fs p))) \<and> do_resume options" if "0 < ?off"
    using that by (auto simp: resume_offset_of_def i split: if_splits option.splits)
  show ?thesis
  proof (cases "rs_status resp = 416")
    case True
    then show ?thesis using k off p(2) by (intro exI [of _ resp]) (auto simp: succeeded_with_def i)
  next
    case False
    have l: "\<exists>e l. content_range_of env (rs_headers resp) = Inr (CR_Bytes (of_nat (length (the (fs p)))) e (Some l)) \<and>
        length (assembled (the (fs p)) resp) = unat l"
      if st: "rs_status resp = 206" and b: "length (body_bytes (rs_body resp)) < 2 ^ 64"
    proof -
      obtain e l where c: "0 < ?off" "content_range_of env (rs_headers resp) = Inr (CR_Bytes ?off e (Some l))"
        "unat l = unat e + 1"
        using k(1) False st by (auto simp: succeeded_with_def accepted_def)
      have n: "unat (e - ?off + 1) = length (body_bytes (rs_body resp))"
        using k(1) False st b c by (auto simp: succeeded_with_def)
      have ok: "?off \<le> e"
        using content_range_of_ok [OF c(2)] by (simp add: content_range_ok_def)
      have "length (the (fs p)) < 2 ^ 64" using len by (cases "fs p") (use c(1) off in \<open>auto simp: resume_offset_of_def i split: if_splits\<close>)
      then have o: "unat ?off = length (the (fs p))" using off [OF c(1), THEN conjunct1] by (simp add: unat_of_nat)
      have "unat l = length (the (fs p)) + length (body_bytes (rs_body resp))"
        using n o c(3) ok range_length [OF ok c(3)] by (simp add: word_le_nat_alt)
      then show ?thesis using c(2) off [OF c(1)] st by (auto simp: assembled_def)
    qed
    then show ?thesis using k False p(2)
      by (intro exI [of _ resp]) (auto simp: succeeded_with_def accepted_def i)
  qed
qed

text \<open>
  A download that fails leaves the destination and every other file as they were; only its part file may have
  changed.
\<close>

theorem failed_download_keeps_dest:
  assumes "download env options fs = (Inl e, s)" "q \<noteq> with_extension ''part'' (do_dest options)"
  shows "dl_files s q = fs q"
  using download_result [OF assms(1) refl refl, of False] assms(2) by (auto simp: failed_with_def dl_init_def)

section \<open>Resuming against a server that tells the truth\<close>

text \<open>What a truthful server does: a complete response carries the content, a partial one the range it announces, and the
  lengths it states are right; a body may break off, but then it ends in an error.\<close>

definition body_serves :: "string \<Rightarrow> http_body \<Rightarrow> bool" where
  "body_serves x b \<longleftrightarrow> prefix (body_bytes b) x \<and> (body_error b = None \<longrightarrow> body_bytes b = x)"

definition response_serves :: "download_env \<Rightarrow> string \<Rightarrow> http_response \<Rightarrow> bool" where
  "response_serves env content resp \<longleftrightarrow>
     (is_success (rs_status resp) \<longrightarrow> rs_status resp \<noteq> 206 \<longrightarrow> body_serves content (rs_body resp)) \<and>
     (rs_status resp = 206 \<longrightarrow>
        (\<forall>off e l. content_range_of env (rs_headers resp) = Inr (CR_Bytes off e (Some l)) \<longrightarrow>
           unat l = length content \<and>
           body_serves (take (unat e + 1 - unat off) (drop (unat off) content)) (rs_body resp))) \<and>
     (rs_status resp = 416 \<longrightarrow>
        (\<forall>l. content_range_of env (rs_headers resp) = Inr (CR_Unsatisfied (Some l)) \<longrightarrow> unat l = length content))"

definition serves :: "string \<Rightarrow> download_env \<Rightarrow> bool" where
  "serves content env \<longleftrightarrow> (\<forall>n q t resp. de_send env n q t = Inr resp \<longrightarrow> response_serves env content resp)"

definition part_of :: "string \<Rightarrow> string option \<Rightarrow> bool" where
  "part_of content c \<longleftrightarrow> (case c of None \<Rightarrow> True | Some f \<Rightarrow> prefix f content)"

lemma assembled_serves:
  assumes a: "accepted env off resp" and sv: "response_serves env content resp"
    and o: "0 < off \<longrightarrow> unat off = length old \<and> prefix old content"
  shows "prefix (assembled old resp) content \<and> (body_error (rs_body resp) = None \<longrightarrow> assembled old resp = content)"
proof (cases "rs_status resp = 206")
  case False
  then show ?thesis using a sv by (auto simp: accepted_def response_serves_def assembled_def body_serves_def)
next
  case True
  then obtain e l where c: "0 < off" "content_range_of env (rs_headers resp) = Inr (CR_Bytes off e (Some l))"
    "unat l = unat e + 1"
    using a by (auto simp: accepted_def)
  have l: "length content = unat e + 1"
    "body_serves (take (unat e + 1 - unat off) (drop (unat off) content)) (rs_body resp)"
    using sv True c by (auto simp: response_serves_def)
  have "take (unat e + 1 - unat off) (drop (unat off) content) = drop (length old) content"
    using l(1) o c(1) by simp
  then have "body_serves (drop (length old) content) (rs_body resp)" using l(2) by simp
  moreover obtain x where "content = old @ x" using o c(1) by (auto simp: prefix_def)
  ultimately show ?thesis using True by (auto simp: assembled_def body_serves_def)
qed

lemma download_attempt:
  assumes d: "download env options fs = (r, s)" and sv: "serves content env"
    and p: "p = with_extension ''part'' (do_dest options)" "p \<noteq> do_dest options"
    and part: "part_of content (fs p)" and len: "length content < 2 ^ 64"
  shows "part_of content (dl_files s p) \<and>
         dl_files s (do_dest options) = (if r = Inr () then Some content else fs (do_dest options))"
proof -
  let ?off = "resume_offset_of env (do_resume options) p (dl_init fs False)"
  have i: "dl_files (dl_init fs False) = fs" by (simp add: dl_init_def)
  have o: "\<exists>old. fs p = Some old \<and> unat ?off = length old \<and> prefix old content" if "0 < ?off"
    using that part len prefix_length_le
    by (fastforce simp: resume_offset_of_def i part_of_def unat_of_nat split: if_splits option.splits)
  have ob: "0 < ?off \<longrightarrow> unat ?off = length (the (fs p)) \<and> prefix (the (fs p)) content" using o by force
  from download_result [OF d p(1) refl, of False] show ?thesis
  proof (elim disjE exE conjE)
    fix e assume e: "r = Inl e" "failed_with env ?off p (dl_init fs False) s"
    have "prefix f content" if "de_send env n q t = Inr resp" "accepted env ?off resp"
      "prefix f (assembled (the (fs p)) resp)" for n q t resp f
      using that sv assembled_serves [OF that(2) _ ob] by (auto simp: serves_def intro: prefix_order.trans)
    then show ?thesis using e p(2) part by (auto simp: failed_with_def i part_of_def)
  next
    fix resp n q t
    assume k: "r = Inr ()" "succeeded_with env ?off p (do_dest options) resp (dl_init fs False) s"
      "de_send env n q t = Inr resp"
    have rs: "response_serves env content resp" using sv k(3) by (auto simp: serves_def)
    show ?thesis
    proof (cases "rs_status resp = 416")
      case True
      then have c: "0 < ?off" "unat ?off = length content" "dl_files s = (fs(p := None))(do_dest options := fs p)"
        using k(2) rs by (auto simp: succeeded_with_def response_serves_def i)
      obtain old where "fs p = Some old" "length old = length content" "prefix old content"
        using o [OF c(1)] c(2) by auto
      then have "fs p = Some content" by (auto simp: prefix_def)
      then show ?thesis using c(3) k(1) p(2) by (simp add: part_of_def)
    next
      case False
      then show ?thesis using k p(2) assembled_serves [OF _ rs ob] by (auto simp: succeeded_with_def i part_of_def)
    qed
  qed
qed

text \<open>The client keeps its side of it: frames that are a prefix of the content, and all of it when the body ends, come out as
  a body that serves the content.\<close>

lemma streamed_body_serves:
  assumes r: "run_stream_task c deadline frames (st_init None rc) = (Some e, t)"
    and d: "prefix (loop_data deadline frames) content" "e = Stream_Ended \<Longrightarrow> loop_data deadline frames = content"
  shows "body_serves content (HB_Stream (st_sent t))"
  using run_stream_task_prefix [OF r] d
  by (auto simp: body_serves_def body_bytes_def body_error_def intro: prefix_order.trans)








section \<open>The sink\<close>

text \<open>A sink that has taken \<open>ws\<close> and is still open, and one that was closed because a write to it failed.\<close>

definition sink_has :: "download_state \<Rightarrow> string list \<Rightarrow> bool" where
  "sink_has s ws \<longleftrightarrow> dl_sink s \<and> dl_sink_log s = map Sink_Write ws"

definition sink_gone :: "download_env \<Rightarrow> download_state \<Rightarrow> bool" where
  "sink_gone env s \<longleftrightarrow>
     \<not> dl_sink s \<and> (\<exists>ws e n. dl_sink_log s = map Sink_Write ws @ [Sink_Close (Inl e)] \<and> sk_write env n = Some e)"

definition same_sink :: "download_state \<Rightarrow> download_state \<Rightarrow> bool" where
  "same_sink s s' \<longleftrightarrow> dl_sink s' = dl_sink s \<and> dl_sink_log s' = dl_sink_log s"

lemma same_sink_has: "same_sink s s' \<Longrightarrow> sink_has s' ws = sink_has s ws"
  by (simp add: same_sink_def sink_has_def)

lemma same_sink_gone: "same_sink s s' \<Longrightarrow> sink_gone env s' = sink_gone env s"
  by (simp add: same_sink_def sink_gone_def)

lemma sink_forward:
  "sink_has s ws \<Longrightarrow> sink_has (forward env d s) (ws @ [d]) \<or> sink_gone env (forward env d s)"
proof -
  assume "sink_has s ws"
  then have h: "dl_sink s" "dl_sink_log s = map Sink_Write ws" by (simp_all add: sink_has_def)
  show ?thesis
  proof (cases "sk_write env (sink_writes (dl_sink_log s))")
    case None
    then show ?thesis using h by (simp add: forward_def sink_has_def)
  next
    case (Some e)
    then have "forward env d s = s\<lparr>dl_sink_log := map Sink_Write (ws @ [d]) @ [Sink_Close (Inl e)], dl_sink := False\<rparr>"
      using h by (simp add: forward_def)
    then have "sink_gone env (forward env d s)"
      unfolding sink_gone_def using Some
      by (intro conjI exI [of _ "ws @ [d]"] exI [of _ e] exI [of _ "sink_writes (dl_sink_log s)"]) simp_all
    then show ?thesis ..
  qed
qed

lemma sink_gone_forward [simp]: "sink_gone env s \<Longrightarrow> forward env d s = s"
  by (simp add: sink_gone_def forward_def)

lemma write_all_sink: "write_all env p d s = (r, s') \<Longrightarrow> same_sink s s'"
  by (auto simp: write_all_def append_file_def same_sink_def Let_def split: prod.splits option.splits)

lemma finish_download_sink: "finish_download env p dest x n s = (r, s') \<Longrightarrow> same_sink s s'"
  by (auto simp: finish_download_def flush_def rename_file_def drop_file_def append_file_def same_sink_def
      split: prod.splits option.splits if_splits)

lemma open_part_sink: "open_part env off p s = (r, s') \<Longrightarrow> same_sink s s'"
  by (auto simp: open_part_def create_file_def same_sink_def split: option.splits if_splits)

lemma check_status_sink: "check_status env off p dest resp s = (r, s') \<Longrightarrow> same_sink s s'"
  by (auto simp: check_status_def resume_status_def create_file_def rename_file_def remove_file_def same_sink_def
      split: if_splits option.splits sum.splits content_range.splits)

lemma drop_file_sink: "same_sink s (drop_file env p s)"
  by (simp add: same_sink_def drop_file_def append_file_def)

lemma copy_chunk_sink:
  assumes "copy_chunk env p x d rcv s = (r, s')"
  shows "(sink_gone env s \<longrightarrow> sink_gone env s') \<and>
         (sink_has s ws \<longrightarrow> sink_gone env s' \<or> sink_has s' (ws @ [d]) \<or> (sink_has s' ws \<and> (\<exists>e. r = Inl e)))"
proof (cases "check_partial_body_len x (length d) rcv")
  case (Inl e)
  then have "r = Inl e" "s' = s" using assms by (auto simp: copy_chunk_def)
  then show ?thesis by simp
next
  case (Inr n)
  then have "same_sink (forward env d s) s'"
    using assms write_all_sink by (auto simp: copy_chunk_def split: prod.splits option.splits)
  then show ?thesis
    using sink_forward [of s ws env d] same_sink_has [of "forward env d s" s'] same_sink_gone [of "forward env d s" s']
    by auto
qed

lemma copy_stream_sink:
  "copy_stream env p x items rcv s = (r, s') \<Longrightarrow>
   (sink_gone env s \<longrightarrow> sink_gone env s') \<and>
   (sink_has s ws \<longrightarrow> sink_gone env s' \<or>
      (\<exists>ws'. sink_has s' ws' \<and> ((\<exists>n. r = Inr n) \<longrightarrow> concat ws' = concat ws @ ok_prefix items)))"
proof (induction env p x items rcv s arbitrary: ws rule: copy_stream.induct)
  case (3 env p x d rest rcv s)
  obtain q t where q: "copy_chunk env p x d rcv s = (q, t)" by (cases "copy_chunk env p x d rcv s")
  note k = copy_chunk_sink [OF q, of ws]
  show ?case
  proof (cases q)
    case (Inl e)
    then show ?thesis using "3.prems" q k by auto
  next
    case (Inr n)
    then have "copy_stream env p x rest n t = (r, s')" using "3.prems" q by simp
    from "3.IH" [OF q [unfolded Inr, symmetric] refl this, of "ws @ [d]"] show ?thesis using k Inr by auto
  qed
qed auto

lemma body_phase_sink:
  assumes "body_phase env p dest x b s = (r, s')" "sink_has s []"
  shows "sink_gone env s' \<or> (\<exists>ws. sink_has s' ws \<and> (r = Inr () \<longrightarrow> concat ws = body_bytes b))"
proof -
  obtain q t where q: "copy_body env p x b s = (q, t)" by (cases "copy_body env p x b s")
  have ss: "same_sink t s'" "r = Inr () \<longrightarrow> (\<exists>n. q = Inr n)"
    using assms(1) q finish_download_sink drop_file_sink by (auto simp: body_phase_def split: sum.splits)
  have "sink_gone env t \<or> (\<exists>ws. sink_has t ws \<and> ((\<exists>n. q = Inr n) \<longrightarrow> concat ws = body_bytes b))"
  proof (cases b)
    case HB_Empty
    then show ?thesis using q assms(2) by (auto simp: copy_body_def body_bytes_def)
  next
    case (HB_Small buf)
    then show ?thesis using q assms(2) copy_chunk_sink [of env p x buf 0 s q t "[]"]
      by (auto simp: copy_body_def body_bytes_def)
  next
    case (HB_Stream items)
    then show ?thesis using q assms(2) copy_stream_sink [of env p x items 0 s q t "[]"]
      by (auto simp: copy_body_def body_bytes_def)
  qed
  then show ?thesis using ss same_sink_has [OF ss(1)] same_sink_gone [OF ss(1)] by auto
qed

text \<open>What the sink has seen when the transfer is over.\<close>

definition mirrored :: "download_env \<Rightarrow> string + unit \<Rightarrow> download_state \<Rightarrow> bool" where
  "mirrored env r s \<longleftrightarrow>
     sink_gone env s \<or>
     (\<exists>ws. sink_has s ws \<and>
        (r = Inr () \<longrightarrow> (\<exists>resp. snd (last (dl_hops s)) = Inr resp \<and>
           concat ws = (if rs_status resp = 416 then [] else body_bytes (rs_body resp)))))"

lemma mirrored_err: "sink_has s' [] \<Longrightarrow> r = Inl e \<Longrightarrow> mirrored env r s'"
  by (auto simp: mirrored_def)

lemma transfer_response_sink:
  assumes h: "sink_has s2 []" "held p s2 old" "dl_pending s2 = []" and hop: "snd (last (dl_hops s2)) = Inr resp"
    and r: "(case check_status env off p dest resp s2 of
               (Dl_Return r, s3) \<Rightarrow> (r, s3)
             | (Dl_Go x, s3) \<Rightarrow> body_phase env p dest x (rs_body resp) s3) = (r, s')"
  shows "mirrored env r s'"
proof -
  obtain fl s3 where c: "check_status env off p dest resp s2 = (fl, s3)" by (cases "check_status env off p dest resp s2")
  have s3: "sink_has s3 []" using h(1) same_sink_has [OF check_status_sink [OF c]] by simp
  show ?thesis
  proof (cases fl)
    case (Dl_Return rr)
    then have "rr = r" "s3 = s'" using r c by auto
    then have "(\<exists>e. r = Inl e) \<or> (rs_status resp = 416 \<and> snd (last (dl_hops s')) = Inr resp)"
      using check_status_return [OF c [unfolded Dl_Return]] hop by auto
    then show ?thesis using s3 \<open>s3 = s'\<close> by (auto simp: mirrored_def intro!: exI [of _ "[]"] exI [of _ resp])
  next
    case (Dl_Go x)
    have bp: "body_phase env p dest x (rs_body resp) s3 = (r, s')" using r c Dl_Go by simp
    note g = check_status_go [OF c [unfolded Dl_Go] h(2,3)]
    have nr: "rs_status resp \<noteq> 416" using g by (auto simp: accepted_def is_success_def)
    obtain b where b: "held p s3 b" using g by blast
    have "r = Inr () \<longrightarrow> snd (last (dl_hops s')) = Inr resp"
      using body_phase_result [OF b bp] g hop by (auto simp: same_but_def)
    then show ?thesis using body_phase_sink [OF bp s3] nr by (auto simp: mirrored_def)
  qed
qed

lemma transfer_sink:
  assumes t: "transfer env url dest to resume s = (r, s')" and h: "sink_has s []" "dl_pending s = []"
  shows "mirrored env r s'"
proof (cases "if has_parent dest then io_mkdir env else None")
  case (Some e)
  then show ?thesis using t h by (auto simp: transfer_def intro: mirrored_err)
next
  case None
  define p where "p = with_extension ''part'' dest"
  define off where "off = resume_offset_of env resume p s"
  let ?dl = "map_option (\<lambda>t. de_now env 0 + t) (rt_request to)"
  obtain oe s1 where o: "open_part env off p s = (oe, s1)" by (cases "open_part env off p s")
  have s1: "sink_has s1 []" using h(1) same_sink_has [OF open_part_sink [OF o]] by simp
  obtain a s2 where l: "request_loop env off to ?dl url 0 s1 = (a, s2)" by (cases "request_loop env off to ?dl url 0 s1")
  obtain hs where hs: "s2 = s1\<lparr>dl_hops := dl_hops s1 @ hs\<rparr>" "final_answer env a hs"
    using request_loop_hops [OF l] by auto
  have s2: "sink_has s2 []" using s1 hs(1) by (simp add: sink_has_def)
  show ?thesis
  proof (cases "oe = None \<and> (\<exists>resp. a = Inr resp)")
    case False
    then show ?thesis using t None o l s1 s2 p_def off_def
      by (auto simp: transfer_def Let_def intro: mirrored_err split: option.splits sum.splits)
  next
    case True
    then obtain resp where oe: "oe = None" and resp: "a = Inr resp" by blast
    note b = open_part_base [OF o [unfolded oe] h(2) off_def]
    have "held p s2 (if 0 < off then the (dl_files s p) else [])" "dl_pending s2 = []"
      using b hs(1) by (auto simp: held_def)
    moreover have "snd (last (dl_hops s2)) = Inr resp" using hs resp by (auto simp: final_answer_def)
    moreover have "(case check_status env off p dest resp s2 of
               (Dl_Return r, s3) \<Rightarrow> (r, s3)
             | (Dl_Go x, s3) \<Rightarrow> body_phase env p dest x (rs_body resp) s3) = (r, s')"
      using t None o l oe resp unfolding p_def off_def by (simp add: transfer_def Let_def)
    ultimately show ?thesis by (rule transfer_response_sink [OF s2])
  qed
qed

text \<open>
  A sink is told the end of its download exactly once and nothing afterwards: its log is the chunks it was given
  and then one close, with the download's result, or with the sink's own error if a write to it failed. A sink
  closed with success was given the whole body. Without a sink nothing is logged.
\<close>

theorem sink_closed_exactly_once:
  "\<exists>ws r'. dl_sink_log (snd (download env (with_sink options) fs)) = map Sink_Write ws @ [Sink_Close r'] \<and>
     \<not> dl_sink (snd (download env (with_sink options) fs)) \<and>
     (r' = fst (download env (with_sink options) fs) \<or> (\<exists>n e. sk_write env n = Some e \<and> r' = Inl e)) \<and>
     (r' = Inr () \<longrightarrow>
        (\<exists>resp. snd (last (dl_hops (snd (download env (with_sink options) fs)))) = Inr resp \<and>
           concat ws = (if rs_status resp = 416 then [] else body_bytes (rs_body resp))))"
proof -
  let ?i = "dl_init fs True"
  obtain r t where t: "transfer env (do_url options) (do_dest options) (timeouts (with_sink options)) (do_resume options) ?i = (r, t)"
    by (cases "transfer env (do_url options) (do_dest options) (timeouts (with_sink options)) (do_resume options) ?i")
  have d: "download env (with_sink options) fs = finalize_sink r t"
    using t by (simp add: download_def download_resource_def with_sink_def)
  have "sink_has ?i []" "dl_pending ?i = []" by (simp_all add: sink_has_def dl_init_def)
  from transfer_sink [OF t this] show ?thesis
    unfolding mirrored_def
  proof (elim disjE exE conjE)
    assume "sink_gone env t"
    then show ?thesis by (auto simp: d sink_gone_def finalize_sink_def)
  next
    fix ws assume "sink_has t ws"
      "r = Inr () \<longrightarrow> (\<exists>resp. snd (last (dl_hops t)) = Inr resp \<and>
         concat ws = (if rs_status resp = 416 then [] else body_bytes (rs_body resp)))"
    then show ?thesis
      by (intro exI [of _ ws] exI [of _ r]) (auto simp: d sink_has_def finalize_sink_def)
  qed
qed

section \<open>Completion\<close>

text \<open>A server of ranges: the whole content, the rest of it from the offset asked for, or a refusal that states the length.\<close>

definition range_offset :: "http_request \<Rightarrow> u64 option" where
  "range_offset q =
     (case map_of (hq_headers q) ''range'' of
        None \<Rightarrow> None
      | Some v \<Rightarrow>
          (case strip_prefix ''bytes='' v of
             None \<Rightarrow> None
           | Some r \<Rightarrow> (case split_once (CHR ''-'') r of None \<Rightarrow> None | Some (n, _) \<Rightarrow> parse_u64 n)))"

definition range_server :: "string \<Rightarrow> nat \<Rightarrow> http_request \<Rightarrow> request_timeouts \<Rightarrow> string + http_response" where
  "range_server content k q to =
     (let len = of_nat (length content) in
      Inr (case range_offset q of
             None \<Rightarrow> \<lparr>rs_status = 200, rs_headers = [], rs_body = HB_Stream [Inr content]\<rparr>
           | Some n \<Rightarrow>
               if unat n < length content
               then \<lparr>rs_status = 206, rs_headers = [(''content-range'', print_content_range (CR_Bytes n (len - 1) (Some len)))],
                     rs_body = HB_Stream [Inr (drop (unat n) content)]\<rparr>
               else \<lparr>rs_status = 416, rs_headers = [(''content-range'', print_content_range (CR_Unsatisfied (Some len)))],
                     rs_body = HB_Empty\<rparr>))"

text \<open>An environment in which nothing fails.\<close>

definition faultless :: "download_env \<Rightarrow> bool" where
  "faultless env \<longleftrightarrow>
     (\<forall>u. de_uri_error env u = None) \<and> (\<forall>v. de_header_value env v = None) \<and> (\<forall>v. de_to_str env v = Inr v) \<and>
     (\<forall>q. de_access env q = None) \<and> io_mkdir env = None \<and> io_metadata env \<and> io_open env = None \<and> io_reopen env = None \<and>
     (\<forall>n. snd (io_write env n) = None) \<and> snd (io_flush env) = None \<and> io_rename env = None"

lemma range_offset_built:
  assumes "faultless env"
  shows "\<exists>q. build_download_request env url off = Inr q \<and> range_offset q = (if 0 < off then Some off else None)"
proof -
  have d: "CHR ''-'' \<notin> set (string_of_nat n)" for n by (auto intro!: not_in_string_of_nat simp: is_digit_def)
  have "split_once (CHR ''-'') (string_of_nat (unat off) @ ''-'') = Some (string_of_nat (unat off), [])"
    using split_once_append [OF d, of "unat off" "[]"] by simp
  then show ?thesis using assms strip_prefix_append [of "''bytes=''" "string_of_nat (unat off) @ ''-''"]
    by (auto simp: build_download_request_def faultless_def range_offset_def Let_def)
qed

lemma content_range_of_printed:
  assumes "de_to_str env v = Inr v" "v = print_content_range r" "content_range_ok r"
  shows "content_range_of env [(''content-range'', v)] = Inr r"
  using assms parse_print_content_range by (simp add: content_range_of_def)

lemma last_byte:
  assumes "n < length content" "length content < 2 ^ 64"
  shows "unat (of_nat (length content) - 1 :: u64) = length content - 1"
proof -
  have "of_nat (length content) - 1 = (of_nat (length content - 1) :: u64)" using assms(1) by (simp add: of_nat_diff)
  then show ?thesis using assms(2) by (simp add: unat_of_nat)
qed

lemma range_server_range_ok:
  assumes "unat n < length content" "length content < 2 ^ 64"
  shows "content_range_ok (CR_Bytes n (of_nat (length content) - 1) (Some (of_nat (length content))))"
  using assms last_byte [OF assms]
  by (auto simp: content_range_ok_def word_le_nat_alt word_less_nat_alt unat_of_nat)

lemma range_server_serves:
  assumes "faultless env" "de_send env = range_server content" "length content < 2 ^ 64"
  shows "serves content env"
proof -
  have ts: "de_to_str env v = Inr v" for v using assms(1) by (simp add: faultless_def)
  have "response_serves env content resp" if "range_server content k q to = Inr resp" for k q to resp
  proof (cases "range_offset q")
    case None
    then show ?thesis using that
      by (auto simp: range_server_def Let_def response_serves_def body_serves_def body_bytes_def body_error_def is_success_def)
  next
    case (Some n)
    let ?len = "of_nat (length content) :: u64"
    show ?thesis
    proof (cases "unat n < length content")
      case True
      have cr: "content_range_of env (rs_headers resp) = Inr (CR_Bytes n (?len - 1) (Some ?len))"
        using content_range_of_printed [OF ts refl range_server_range_ok [OF True assms(3)]] that Some True
        by (auto simp: range_server_def Let_def)
      have "take (unat (?len - 1) + 1 - unat n) (drop (unat n) content) = drop (unat n) content"
        using last_byte [OF True assms(3)] True by simp
      then show ?thesis using that Some True cr assms(3)
        by (auto simp: range_server_def Let_def response_serves_def body_serves_def body_bytes_def body_error_def unat_of_nat)
    next
      case False
      have "content_range_of env (rs_headers resp) = Inr (CR_Unsatisfied (Some ?len))"
        using content_range_of_printed [OF ts refl, of "CR_Unsatisfied (Some ?len)"] that Some False
        by (auto simp: range_server_def Let_def content_range_ok_def)
      then show ?thesis using that Some False assms(3)
        by (auto simp: range_server_def Let_def response_serves_def is_success_def unat_of_nat)
    qed
  qed
  then show ?thesis using assms(2) by (simp add: serves_def)
qed

lemma copy_chunk_faultless:
  assumes "faultless env" "length d < 2 ^ 64" "\<forall>y. x = Some y \<longrightarrow> length d \<le> unat y"
  shows "\<exists>s'. copy_chunk env p x d 0 s = (Inr (of_nat (length d)), s')"
proof -
  have "check_partial_body_len x (length d) 0 = Inr (of_nat (length d))"
    using assms(2,3)
    by (auto simp: check_partial_body_len_def checked_add_def unat_of_nat word_less_nat_alt split: option.splits)
  moreover have w: "\<exists>s'. write_all env p d t = (None, s')" for t
    using assms(1) by (cases "io_write env (dl_writes t)") (auto simp: write_all_def faultless_def Let_def split: option.splits, metis option.distinct(1) snd_conv)
  moreover obtain s' where "write_all env p d (forward env d s) = (None, s')" using w by blast
  ultimately show ?thesis by (simp add: copy_chunk_def)
qed

lemma body_phase_faultless:
  assumes f: "faultless env" "length d < 2 ^ 64" and x: "x = None \<or> x = Some (of_nat (length d))"
  shows "fst (body_phase env p dest x (HB_Stream [Inr d]) s) = Inr ()"
proof -
  obtain s' where "copy_chunk env p x d 0 s = (Inr (of_nat (length d)), s')"
    using copy_chunk_faultless [OF f, of x p s] x f(2) by (auto simp: unat_of_nat)
  then show ?thesis
    using f(1) x by (cases "io_flush env")
      (auto simp: body_phase_def copy_body_def finish_download_def flush_def rename_file_def faultless_def)
qed

lemma request_loop_faultless:
  assumes "faultless env" "de_send env = range_server content" "rt_request to = None"
  shows "\<exists>q s'. request_loop env off to None url 0 s = (range_server content 0 q to, s') \<and>
                range_offset q = (if 0 < off then Some off else None)"
proof -
  obtain q where q: "build_download_request env url off = Inr q" "range_offset q = (if 0 < off then Some off else None)"
    using range_offset_built [OF assms(1)] by blast
  have r: "remaining_request_timeouts to None t = Inr to" for t
    by (cases to) (simp add: remaining_request_timeouts_def)
  have a: "range_server content 0 q to = Inr resp \<Longrightarrow> \<not> is_download_redirect (rs_status resp)" for resp
    by (auto simp: range_server_def is_download_redirect_def Let_def split: option.splits if_splits)
  obtain resp where resp: "range_server content 0 q to = Inr resp" by (simp add: range_server_def Let_def)
  have "request_hop env off to None url 0 s = (Inr resp, s\<lparr>dl_hops := dl_hops s @ [(q, Inr resp)]\<rparr>)"
    using assms q(1) r resp by (simp add: request_hop_def faultless_def Let_def)
  then show ?thesis using q(2) resp a [OF resp] by (intro exI [of _ q]) (subst request_loop.simps, auto)
qed

text \<open>The answer to each of the three requests takes the transfer to its end.\<close>

lemma answer_completes:
  assumes f: "faultless env" "length content < 2 ^ 64" and a: "range_server content 0 q to = Inr resp"
    and q: "range_offset q = (if 0 < off then Some off else None)" and o: "unat off \<le> length content"
  shows "fst (case check_status env off p dest resp s of
               (Dl_Return r, s3) \<Rightarrow> (r, s3)
             | (Dl_Go x, s3) \<Rightarrow> body_phase env p dest x (rs_body resp) s3) = Inr ()"
proof -
  let ?len = "of_nat (length content) :: u64"
  have ts: "de_to_str env v = Inr v" for v using f(1) by (simp add: faultless_def)
  have io: "io_rename env = None" "io_reopen env = None" using f(1) by (simp_all add: faultless_def)
  consider (whole) "off = 0" | (rest) "0 < off" "unat off < length content" | (full) "0 < off" "unat off = length content"
    using o by (metis le_neq_implies_less word_gt_0)
  then show ?thesis
  proof cases
    case whole
    then have "resp = \<lparr>rs_status = 200, rs_headers = [], rs_body = HB_Stream [Inr content]\<rparr>"
      using a q by (auto simp: range_server_def Let_def)
    then show ?thesis using whole body_phase_faultless [OF f] by (simp add: check_status_def is_success_def)
  next
    case rest
    note lb = last_byte [OF rest(2) f(2)]
    have r: "rs_status resp = 206" "rs_body resp = HB_Stream [Inr (drop (unat off) content)]"
      "content_range_of env (rs_headers resp) = Inr (CR_Bytes off (?len - 1) (Some ?len))"
      using content_range_of_printed [OF ts refl range_server_range_ok [OF rest(2) f(2)]] a q rest
      by (auto simp: range_server_def Let_def)
    have "checked_add (?len - 1) 1 = Some ?len"
      unfolding checked_add_def using lb f(2) rest(2) by simp
    then have c: "check_status env off p dest resp s = (Dl_Go (Some (?len - 1 - off + 1)), s)"
      using r rest(1) by (auto simp: check_status_def resume_status_def is_success_def)
    have "?len - 1 - off + 1 = of_nat (length (drop (unat off) content))"
      using rest(2) by (simp add: of_nat_diff)
    then show ?thesis
      using c r(2) body_phase_faultless [OF f(1), of "drop (unat off) content" "Some (?len - 1 - off + 1)" p dest s] f(2)
      by simp
  next
    case full
    then have l: "?len = off" by (simp flip: full(2))
    have "rs_status resp = 416"
      "content_range_of env (rs_headers resp) = Inr (CR_Unsatisfied (Some ?len))"
      using content_range_of_printed [OF ts refl, of "CR_Unsatisfied (Some ?len)"] a q full
      by (auto simp: range_server_def content_range_ok_def Let_def)
    then show ?thesis using full(1) l io by (simp add: check_status_def resume_status_def rename_file_def)
  qed
qed

lemma resumed_attempt_ok:
  assumes f: "faultless env" "de_send env = range_server content" "length content < 2 ^ 64"
    and o: "do_resume options" "do_request_timeout options = None"
    and p: "p = with_extension ''part'' (do_dest options)" "p \<noteq> do_dest options" "part_of content (fs p)"
  shows "fst (download env options fs) = Inr () \<and>
         dl_files (snd (download env options fs)) (do_dest options) = Some content"
proof -
  let ?i = "dl_init fs (do_sink options)"
  define off where "off = resume_offset_of env (do_resume options) p ?i"
  have ol: "unat off \<le> length content"
    using p(3) prefix_length_le [of _ content]
    by (auto simp: off_def resume_offset_of_def dl_init_def part_of_def unat_of_nat split: option.splits
        intro: order_trans [OF mod_less_eq_dividend])
  obtain s1 where s1: "open_part env off p ?i = (None, s1)" using f(1) by (simp add: open_part_def faultless_def)
  have to: "rt_request (timeouts options) = None" using o(2) by (simp add: timeouts_def)
  obtain q s2 where q: "request_loop env off (timeouts options) None (do_url options) 0 s1 =
      (range_server content 0 q (timeouts options), s2)" "range_offset q = (if 0 < off then Some off else None)"
    using request_loop_faultless [OF f(1,2) to] by blast
  obtain resp where resp: "range_server content 0 q (timeouts options) = Inr resp"
    by (simp add: range_server_def Let_def)
  have m: "(if has_parent (do_dest options) then io_mkdir env else None) = None" using f(1) by (simp add: faultless_def)
  have "transfer env (do_url options) (do_dest options) (timeouts options) (do_resume options) ?i =
      (case check_status env off p (do_dest options) resp s2 of
         (Dl_Return r, s3) \<Rightarrow> (r, s3)
       | (Dl_Go x, s3) \<Rightarrow> body_phase env p (do_dest options) x (rs_body resp) s3)"
    using s1 q(1) resp to m unfolding transfer_def off_def p(1) by (simp add: Let_def)
  then have "fst (transfer env (do_url options) (do_dest options) (timeouts options) (do_resume options) ?i) = Inr ()"
    using answer_completes [OF f(1,3) resp q(2) ol] by simp
  then have ok: "fst (download env options fs) = Inr ()"
    by (simp add: download_def download_resource_def case_prod_unfold)
  then show ?thesis
    using download_attempt [OF _ range_server_serves [OF f] p(1,2), of fs "Inr ()" "snd (download env options fs)"] p(3) f(3)
    by (metis prod.collapse)
qed

text \<open>
  An interrupted download can always be finished: whatever prefix of the content the part file holds (nothing, some
  of it, all of it), one resumed attempt against a server of ranges in which nothing fails succeeds, and the
  destination then holds the whole content.
\<close>

theorem resume_completes:
  assumes f: "faultless env" "de_send env = range_server content" "length content < 2 ^ 64"
    and o: "do_resume options" "do_request_timeout options = None"
    and p: "p = with_extension ''part'' (do_dest options)" "p \<noteq> do_dest options" "part_of content (fs p)"
  shows "fst (download env options fs) = Inr () \<and>
         dl_files (snd (download env options fs)) (do_dest options) = Some content"
  using assms by (rule resumed_attempt_ok)

lemma transfer_hops:
  assumes t: "transfer env url dest to resume s = (r, s')" and n: "dl_pending s = []" "dl_hops s = []"
  shows "length (dl_hops s') \<le> Suc MAX_DOWNLOAD_REDIRECTS \<and>
         (\<exists>off. hops_added env off url (dl_hops s'))"
proof -
  define p where "p = with_extension ''part'' dest"
  define off where "off = resume_offset_of env resume p s"
  let ?dl = "map_option (\<lambda>t. de_now env 0 + t) (rt_request to)"
  obtain oe s1 where o: "open_part env off p s = (oe, s1)" by (cases "open_part env off p s")
  have h1: "dl_hops s1 = []" using o n(2) by (auto simp: open_part_def create_file_def split: option.splits if_splits)
  obtain a s2 where l: "request_loop env off to ?dl url 0 s1 = (a, s2)" by (cases "request_loop env off to ?dl url 0 s1")
  obtain hs where hs: "s2 = s1\<lparr>dl_hops := dl_hops s1 @ hs\<rparr>" "length hs \<le> Suc MAX_DOWNLOAD_REDIRECTS"
    "hops_added env off url hs"
    using request_loop_hops [OF l] by auto
  have "dl_hops s' = [] \<or> dl_hops s' = hs"
  proof (cases "oe = None \<and> (if has_parent dest then io_mkdir env else None) = None \<and> (\<exists>resp. a = Inr resp)")
    case False
    then show ?thesis using t o l hs(1) h1 n(2) p_def off_def
      by (auto simp: transfer_def Let_def split: option.splits sum.splits)
  next
    case True
    then obtain resp where oe: "oe = None" and resp: "a = Inr resp"
      and m: "(if has_parent dest then io_mkdir env else None) = None" by blast
    obtain fl s3 where c: "check_status env off p dest resp s2 = (fl, s3)" by (cases "check_status env off p dest resp s2")
    have tr: "(case fl of Dl_Return r \<Rightarrow> (r, s3) | Dl_Go x \<Rightarrow> body_phase env p dest x (rs_body resp) s3) = (r, s')"
      using t m o l oe resp c unfolding p_def off_def by (simp add: transfer_def Let_def)
    note b = open_part_base [OF o [unfolded oe] n(1) off_def]
    have h: "held p s2 (if 0 < off then the (dl_files s p) else [])" "dl_pending s2 = []" "dl_hops s2 = hs"
      using b hs(1) h1 by (auto simp: held_def)
    show ?thesis
    proof (cases fl)
      case (Dl_Return rr)
      then show ?thesis using tr check_status_return [OF c [unfolded Dl_Return]] h(3) by (auto simp: same_but_def)
    next
      case (Dl_Go x)
      note g = check_status_go [OF c [unfolded Dl_Go] h(1,2)]
      obtain z where z: "held p s3 z" using g by blast
      have "body_phase env p dest x (rs_body resp) s3 = (r, s')" using tr Dl_Go by simp
      from body_phase_result [OF z this] show ?thesis using g h(3) by (auto simp: same_but_def)
    qed
  qed
  then show ?thesis using hs(2,3) by (auto simp: hops_added_def)
qed

text \<open>
  A download sends at most eleven requests, each one accepted by the network guard before it is sent, redirects
  included; each request after the first goes to the target of a redirect the one before it was answered with.
\<close>

theorem every_hop_is_guarded:
  "length (dl_hops (snd (download env options fs))) \<le> 11 \<and>
   list_all (\<lambda>h. de_access env (fst h) = None) (dl_hops (snd (download env options fs))) \<and>
   hops_linked env (dl_hops (snd (download env options fs)))"
proof -
  let ?i = "dl_init fs (do_sink options)"
  obtain r t where t: "transfer env (do_url options) (do_dest options) (timeouts options) (do_resume options) ?i = (r, t)"
    by (cases "transfer env (do_url options) (do_dest options) (timeouts options) (do_resume options) ?i")
  have d: "dl_hops (snd (download env options fs)) = dl_hops t"
    using t by (simp add: download_def download_resource_def)
  have "dl_pending ?i = []" "dl_hops ?i = []" by (simp_all add: dl_init_def)
  from transfer_hops [OF t this] show ?thesis
    unfolding d by (auto simp: hops_added_def hop_ok_def list_all_iff MAX_DOWNLOAD_REDIRECTS_def)
qed

section \<open>Instances\<close>

text \<open>A server of ranges reached without faults, whose body writes reach the file one byte at a time.\<close>

definition calm_env :: "string \<Rightarrow> download_env" where
  "calm_env content =
     \<lparr>de_uri_error = (\<lambda>_. None), de_header_value = (\<lambda>_. None), de_user_agent = ''rong'', de_to_str = Inr,
      de_status_text = string_of_nat, de_url_parse = Inr, de_url_join = (\<lambda>_ u. Inr (''http'', u)), de_access = (\<lambda>_. None),
      de_now = id, de_send = range_server content, io_mkdir = None, io_metadata = True, io_open = None, io_reopen = None,
      io_write = (\<lambda>_. (1, None)), io_flush = (0, None), io_drop = 0, io_rename = None, io_remove = True,
      sk_write = (\<lambda>_. None)\<rparr>"

text \<open>The same server, and a destination directory that cannot be made.\<close>

definition denied_env :: "string \<Rightarrow> download_env" where
  "denied_env content = (calm_env content)\<lparr>io_mkdir := Some ''denied''\<rparr>"

definition demo_options :: download_options where
  "demo_options = with_resume (do_new ''http://a/f'' ''f.bin'')"

lemma demo_paths:
  "with_extension ''part'' (do_dest demo_options) = ''f.part''" "do_dest demo_options = ''f.bin''"
  "has_parent (do_dest demo_options)"
  by code_simp+

lemma demo_flags: "do_resume demo_options" "do_request_timeout demo_options = None"
  by code_simp+

lemma calm_env_faultless: "faultless (calm_env c)" "de_send (calm_env c) = range_server c"
  by (simp_all add: faultless_def calm_env_def)

lemma demo_ok: "fst (download (calm_env ''hello'') demo_options [''f.part'' \<mapsto> ''he'']) = Inr ()"
  by (rule resumed_attempt_ok [OF calm_env_faultless _ demo_flags demo_paths(1) [symmetric], THEN conjunct1])
     (simp_all add: demo_paths part_of_def)

lemma demo_denied: "fst (download (denied_env ''hello'') demo_options fs) = Inl ''create dir: denied''"
  using demo_paths(3)
  by (simp add: download_def download_resource_def transfer_def denied_env_def)

theorem download_commits_exactly_witness:
  "dl_files (snd (download (calm_env ''hello'') demo_options [''f.part'' \<mapsto> ''he''])) ''f.part'' = None"
proof -
  have d: "download (calm_env ''hello'') demo_options [''f.part'' \<mapsto> ''he''] =
      (Inr (), snd (download (calm_env ''hello'') demo_options [''f.part'' \<mapsto> ''he'']))"
    using demo_ok by (metis prod.collapse)
  show ?thesis
    using download_commits_exactly [OF d demo_paths(1) [symmetric]] by (auto simp: demo_paths)
qed

theorem failed_download_keeps_dest_witness:
  "dl_files (snd (download (denied_env ''hello'') demo_options [''f.bin'' \<mapsto> ''old''])) ''f.bin'' = Some ''old''"
proof -
  have d: "download (denied_env ''hello'') demo_options [''f.bin'' \<mapsto> ''old''] =
      (Inl ''create dir: denied'', snd (download (denied_env ''hello'') demo_options [''f.bin'' \<mapsto> ''old'']))"
    using demo_denied by (metis prod.collapse)
  show ?thesis using failed_download_keeps_dest [OF d, of "''f.bin''"] by (simp add: demo_paths(1) demo_paths(1) [unfolded demo_paths(2)])
qed



text \<open>Two destinations that differ only in their extension share their part file, so neither is elsewhere for the other.\<close>

lemma shared_part_path: "with_extension ''part'' ''f.txt'' = with_extension ''part'' ''f.bin''"
  by code_simp

theorem resume_completes_witness:
  "dl_files (snd (download (calm_env ''hello'') demo_options [''f.part'' \<mapsto> ''he''])) ''f.bin'' = Some ''hello''"
  using resume_completes [OF calm_env_faultless _ demo_flags demo_paths(1) [symmetric], of "''hello''" "[''f.part'' \<mapsto> ''he'']"]
  by (simp add: demo_paths part_of_def)

theorem sink_closed_exactly_once_witness:
  "\<not> dl_sink (snd (download (calm_env ''hello'') (with_sink demo_options) Map.empty))"
  using sink_closed_exactly_once [of "calm_env ''hello''" demo_options Map.empty] by blast

end
