(* ===== verification/Storage.thy ===== *)
theory Storage
  imports Host_Error Rust_String
begin

text \<open>
  The key-value storage module, \<^verbatim>\<open>modules/rong_storage/src\<close>: limits, the encoding of JavaScript values as JSON text
  and back, the operations of a \<^verbatim>\<open>Storage\<close> and their errors. The database (redb) is its table, the rows
  in ascending key order, and any of its calls may fail; serde_json and the engine's JSON are arguments.
\<close>

section \<open>Numbers\<close>

text \<open>An \<^verbatim>\<open>f64\<close> is its 64 bits: sign, eleven bits of exponent, 52 of fraction. Its value is a natural number times a power
  of two.\<close>

definition f_neg :: "u64 \<Rightarrow> bool" where
  "f_neg b \<longleftrightarrow> 2 ^ 63 \<le> unat b"

definition f_exp :: "u64 \<Rightarrow> nat" where
  "f_exp b = (unat b div 2 ^ 52) mod 2 ^ 11"

definition f_frac :: "u64 \<Rightarrow> nat" where
  "f_frac b = unat b mod 2 ^ 52"

definition is_nan :: "u64 \<Rightarrow> bool" where
  "is_nan b \<longleftrightarrow> f_exp b = 2047 \<and> f_frac b \<noteq> 0"

definition is_finite :: "u64 \<Rightarrow> bool" where
  "is_finite b \<longleftrightarrow> f_exp b \<noteq> 2047"

definition f_mant :: "u64 \<Rightarrow> nat" where
  "f_mant b = (if f_exp b = 0 then f_frac b else 2 ^ 52 + f_frac b)"

text \<open>The exponent of two, as the number of places the mantissa is shifted left or right.\<close>

definition f_left :: "u64 \<Rightarrow> nat" where
  "f_left b = (if 1075 \<le> f_exp b then f_exp b - 1075 else 0)"

definition f_right :: "u64 \<Rightarrow> nat" where
  "f_right b = (if f_exp b = 0 then 1074 else 1075 - f_exp b)"

definition fract_is_zero :: "u64 \<Rightarrow> bool" where
  "fract_is_zero b \<longleftrightarrow> 2 ^ f_right b dvd f_mant b"

definition f_trunc :: "u64 \<Rightarrow> int" where
  "f_trunc b = (if f_neg b then - 1 else 1) * int ((f_mant b * 2 ^ f_left b) div 2 ^ f_right b)"

definition F_NAN :: u64 where "F_NAN = 0x7FF8000000000000"
definition F_INFINITY :: u64 where "F_INFINITY = 0x7FF0000000000000"
definition F_NEG_INFINITY :: u64 where "F_NEG_INFINITY = 0xFFF0000000000000"

text \<open>The double of an integer of at most 53 bits.\<close>

fun nat_log2 :: "nat \<Rightarrow> nat" where
  "nat_log2 n = (if n < 2 then 0 else Suc (nat_log2 (n div 2)))"

declare nat_log2.simps [simp del]

definition f64_of_nat :: "nat \<Rightarrow> nat" where
  "f64_of_nat n =
     (if n = 0 then 0 else (nat_log2 n + 1023) * 2 ^ 52 + (n * 2 ^ (52 - nat_log2 n) - 2 ^ 52))"

definition f64_of_int :: "int \<Rightarrow> u64" where
  "f64_of_int i = (if i < 0 then of_nat (2 ^ 63 + f64_of_nat (nat (- i))) else of_nat (f64_of_nat (nat i)))"

section \<open>Values and JSON\<close>

datatype json =
    J_Null | J_Bool bool | J_Int int | J_Float u64 | J_Str string | J_Arr "json list" | J_Obj "(string \<times> json) list"

text \<open>An object or array is the data JSON makes of it; what is left converts to a string or does not. A value of a
  primitive kind converts to the Rust type of that kind.\<close>

datatype js_val =
    JS_Str string | JS_Num u64 | JS_BigInt string | JS_Bool bool | JS_Null | JS_Undefined | JS_Date u64
  | JS_Obj json | JS_Other "string option"

text \<open>serde_json, the engine's \<^verbatim>\<open>JSON\<close> and \<^verbatim>\<open>BigInt\<close>, and what the engine makes of an integer beyond the safe range.\<close>

record codec =
  cd_to_string :: "json \<Rightarrow> string + string"
  cd_from_str :: "string \<Rightarrow> json option"
  cd_stringify :: "json \<Rightarrow> string + string"
  cd_parse :: "string \<Rightarrow> host_error + js_val"
  cd_bigint :: "string \<Rightarrow> host_error + js_val"
  cd_large_int :: "int \<Rightarrow> js_val"
  cd_get_time :: "u64 \<Rightarrow> string + u64"

text \<open>The \<^verbatim>\<open>json!\<close> macro turns a number that is not finite into null.\<close>

definition json_of_f64 :: "u64 \<Rightarrow> json" where
  "json_of_f64 b = (if is_finite b then J_Float b else J_Null)"

definition serialize :: "codec \<Rightarrow> string \<Rightarrow> json \<Rightarrow> host_error + string" where
  "serialize cd what j =
     (case cd_to_string cd j of
        Inl e \<Rightarrow> Inl (he_new E_INTERNAL (''Failed to serialize '' @ what @ '': '' @ e))
      | Inr s \<Rightarrow> Inr s)"

definition encode_number :: "codec \<Rightarrow> u64 \<Rightarrow> host_error + string" where
  "encode_number cd f =
     (if \<not> is_finite f then
        serialize cd ''non-finite number''
          (J_Obj [(''__type'', J_Str ''Number''),
                  (''value'', J_Str (if is_nan f then ''NaN'' else if \<not> f_neg f then ''Infinity'' else ''-Infinity''))])
      else if fract_is_zero f then
        (if - (2 ^ 31) \<le> f_trunc f \<and> f_trunc f \<le> 2 ^ 31 - 1 then serialize cd ''i32'' (J_Int (f_trunc f))
         else if 0 \<le> f_trunc f \<and> f_trunc f \<le> 2 ^ 32 - 1 then serialize cd ''u32'' (J_Int (f_trunc f))
         else serialize cd ''large integer as f64'' (J_Float f))
      else serialize cd ''f64'' (J_Float f))"

definition encode_value :: "codec \<Rightarrow> js_val \<Rightarrow> host_error + string" where
  "encode_value cd v =
     (case v of
        JS_Str s \<Rightarrow> serialize cd ''string'' (J_Str s)
      | JS_Num f \<Rightarrow> encode_number cd f
      | JS_BigInt n \<Rightarrow> serialize cd ''bigint'' (J_Obj [(''__type'', J_Str ''BigInt''), (''value'', J_Str n)])
      | JS_Bool b \<Rightarrow> serialize cd ''boolean'' (J_Bool b)
      | JS_Null \<Rightarrow> Inr ''null''
      | JS_Undefined \<Rightarrow> Inl (type_error E_INVALID_ARG ''Cannot store undefined values'')
      | JS_Date t \<Rightarrow>
          (case cd_get_time cd t of
             Inl e \<Rightarrow> Inl (type_error E_INVALID_ARG (''Failed to get Date timestamp: '' @ e))
           | Inr timestamp \<Rightarrow>
               serialize cd ''Date'' (J_Obj [(''__type'', J_Str ''Date''), (''timestamp'', json_of_f64 timestamp)]))
      | JS_Obj j \<Rightarrow>
          (case cd_stringify cd j of
             Inl e \<Rightarrow> Inl (type_error E_INVALID_ARG (''Failed to stringify object: '' @ e))
           | Inr s \<Rightarrow> Inr s)
      | JS_Other (Some s) \<Rightarrow> serialize cd ''fallback string'' (J_Str s)
      | JS_Other None \<Rightarrow> Inl (type_error E_INVALID_ARG ''Value cannot be converted to a storable type''))"

definition js_of_int :: "codec \<Rightarrow> int \<Rightarrow> js_val" where
  "js_of_int cd i = (if \<bar>i\<bar> < 2 ^ 53 then JS_Num (f64_of_int i) else cd_large_int cd i)"

text \<open>\<^verbatim>\<open>Value::as_str\<close>, \<^verbatim>\<open>Value::as_f64\<close> and the lookup of a member; the last of two members with the same name counts.\<close>

definition json_str :: "json option \<Rightarrow> string option" where
  "json_str j = (case j of Some (J_Str s) \<Rightarrow> Some s | _ \<Rightarrow> None)"

definition json_f64 :: "json option \<Rightarrow> u64 option" where
  "json_f64 j = (case j of Some (J_Float b) \<Rightarrow> Some b | Some (J_Int i) \<Rightarrow> Some (f64_of_int i) | _ \<Rightarrow> None)"

definition json_member :: "string \<Rightarrow> (string \<times> json) list \<Rightarrow> json option" where
  "json_member k ms = map_of (rev ms) k"

definition decode_object :: "codec \<Rightarrow> string \<Rightarrow> (string \<times> json) list \<Rightarrow> host_error + js_val" where
  "decode_object cd text ms =
     (case json_str (json_member ''__type'' ms) of
        None \<Rightarrow> cd_parse cd text
      | Some ty \<Rightarrow>
          if ty = ''Date'' then
            (case json_f64 (json_member ''timestamp'' ms) of
               Some t \<Rightarrow> Inr (JS_Date t)
             | None \<Rightarrow> Inl (he_new E_INVALID_DATA ''Invalid Date object: missing timestamp''))
          else if ty = ''BigInt'' then
            (case json_str (json_member ''value'' ms) of
               Some n \<Rightarrow> cd_bigint cd n
             | None \<Rightarrow> Inl (he_new E_INVALID_DATA ''Invalid BigInt object: missing value''))
          else if ty = ''Number'' then
            (case json_str (json_member ''value'' ms) of
               None \<Rightarrow> Inl (he_new E_INVALID_DATA ''Invalid non-finite Number object'')
             | Some n \<Rightarrow>
                 if n = ''NaN'' then Inr (JS_Num F_NAN)
                 else if n = ''Infinity'' then Inr (JS_Num F_INFINITY)
                 else if n = ''-Infinity'' then Inr (JS_Num F_NEG_INFINITY)
                 else Inl (he_new E_INVALID_DATA ''Invalid non-finite Number object''))
          else cd_parse cd text)"

definition decode_value :: "codec \<Rightarrow> string \<Rightarrow> host_error + js_val" where
  "decode_value cd text =
     (case cd_from_str cd text of
        None \<Rightarrow> Inr (JS_Str text)
      | Some j \<Rightarrow>
          (case j of
             J_Str s \<Rightarrow> Inr (JS_Str s)
           | J_Int i \<Rightarrow> Inr (js_of_int cd i)
           | J_Float b \<Rightarrow> Inr (JS_Num b)
           | J_Bool b \<Rightarrow> Inr (JS_Bool b)
           | J_Null \<Rightarrow> Inr JS_Null
           | J_Obj ms \<Rightarrow> decode_object cd text ms
           | J_Arr _ \<Rightarrow> cd_parse cd text))"

section \<open>Options and limits\<close>

record storage_options =
  op_max_key_size :: "u32 option"
  op_max_value_size :: "u32 option"
  op_max_data_size :: "u32 option"

record storage_config =
  max_key_size :: nat
  max_value_size :: nat
  max_user_data_size :: nat

definition DEFAULT_MAX_USER_DATA_SIZE :: nat where
  "DEFAULT_MAX_USER_DATA_SIZE = 20 * 1024 * 1024 + 1024 * 1536"

definition DEFAULT_MAX_KEY_SIZE :: nat where
  "DEFAULT_MAX_KEY_SIZE = 1024"

definition DEFAULT_MAX_VALUE_SIZE :: nat where
  "DEFAULT_MAX_VALUE_SIZE = 5 * 1024 * 1024"

definition validate_limit :: "string \<Rightarrow> u32 option \<Rightarrow> nat \<Rightarrow> host_error + nat" where
  "validate_limit field value default_value =
     (let v = (case value of Some w \<Rightarrow> unat w | None \<Rightarrow> default_value) in
      if v = 0 then Inl (type_error E_INVALID_ARG (field @ '' must be greater than 0'')) else Inr v)"

definition from_options :: "storage_options \<Rightarrow> host_error + storage_config" where
  "from_options options =
     (case validate_limit ''maxKeySize'' (op_max_key_size options) DEFAULT_MAX_KEY_SIZE of
        Inl e \<Rightarrow> Inl e
      | Inr k \<Rightarrow>
          (case validate_limit ''maxValueSize'' (op_max_value_size options) DEFAULT_MAX_VALUE_SIZE of
             Inl e \<Rightarrow> Inl e
           | Inr v \<Rightarrow>
               (case validate_limit ''maxDataSize'' (op_max_data_size options) DEFAULT_MAX_USER_DATA_SIZE of
                  Inl e \<Rightarrow> Inl e
                | Inr d \<Rightarrow> Inr \<lparr>max_key_size = k, max_value_size = v, max_user_data_size = d\<rparr>)))"

definition limit_size_u32 :: "storage_config \<Rightarrow> u32" where
  "limit_size_u32 cfg = of_nat (min (max_user_data_size cfg) (2 ^ 32 - 1))"

section \<open>The storage\<close>

type_synonym table = "string btree"

record storage =
  sg_db :: "table option"
  sg_config :: storage_config

text \<open>Every call on the database, for the error it may report.\<close>

datatype db_call =
    Create_Dir | Create_Db | Begin_Read | Begin_Write | Open_Table | Iter_Table | Read_Item nat | Get_Row
  | Insert_Row | Remove_Row nat | Commit

type_synonym io = "db_call \<Rightarrow> string option"

definition io_call :: "io \<Rightarrow> db_call \<Rightarrow> string \<Rightarrow> host_error + 'a \<Rightarrow> host_error + 'a" where
  "io_call io c msg k = (case io c of Some e \<Rightarrow> Inl (he_new E_IO (msg @ '': '' @ e)) | None \<Rightarrow> k)"

definition bt_remove :: "string \<Rightarrow> 'v btree \<Rightarrow> 'v btree" where
  "bt_remove k m = filter (\<lambda>r. fst r \<noteq> k) m"

definition ensure_storage_table :: "io \<Rightarrow> host_error + unit" where
  "ensure_storage_table io =
     io_call io Begin_Write ''Failed to begin write transaction''
       (io_call io Open_Table ''Failed to create/open storage table''
         (io_call io Commit ''Failed to commit table creation'' (Inr ())))"

text \<open>Opening makes the directory, the database and the table before it looks at the limits.\<close>

definition open_with_path :: "io \<Rightarrow> (string \<Rightarrow> string) \<Rightarrow> bool \<Rightarrow> string \<Rightarrow> storage_options \<Rightarrow> table \<Rightarrow> host_error + storage" where
  "open_with_path io debug has_parent path options table =
     (case (if has_parent then io Create_Dir else None) of
        Some e \<Rightarrow> Inl (he_new E_IO (''Failed to create directory '' @ debug path @ '': '' @ e))
      | None \<Rightarrow>
          (case io Create_Db of
             Some e \<Rightarrow> Inl (he_new E_IO (''Failed to open database at '' @ debug path @ '': '' @ e))
           | None \<Rightarrow>
               (case ensure_storage_table io of
                  Inl e \<Rightarrow> Inl e
                | Inr _ \<Rightarrow>
                    (case from_options options of
                       Inl e \<Rightarrow> Inl e
                     | Inr cfg \<Rightarrow> Inr \<lparr>sg_db = Some table, sg_config = cfg\<rparr>))))"

definition close :: "storage \<Rightarrow> storage" where
  "close s = (if sg_db s \<noteq> None then s\<lparr>sg_db := None\<rparr> else s)"

definition with_db :: "storage \<Rightarrow> (table \<Rightarrow> host_error + 'a) \<Rightarrow> host_error + 'a" where
  "with_db s f =
     (case sg_db s of
        None \<Rightarrow> Inl (type_error E_INVALID_STATE ''Storage database is closed'')
      | Some t \<Rightarrow> f t)"

text \<open>The scan before a write: the size of everything stored, and of the row the write replaces.\<close>

fun scan_sizes :: "io \<Rightarrow> string \<Rightarrow> nat \<Rightarrow> table \<Rightarrow> nat \<Rightarrow> nat \<Rightarrow> host_error + (nat \<times> nat)" where
  "scan_sizes io key i [] current existing = Inr (current, existing)"
| "scan_sizes io key i ((k, v) # rows) current existing =
     io_call io (Read_Item i) ''Failed to read item''
       (scan_sizes io key (Suc i) rows (current + (length k + length v))
          (if k = key then length k + length v else existing))"

text \<open>The write of a value already encoded: quota, then the insertion in a transaction of its own.\<close>

definition write_value :: "io \<Rightarrow> storage_config \<Rightarrow> string \<Rightarrow> string \<Rightarrow> table \<Rightarrow> host_error + table" where
  "write_value io cfg key value_str t =
     io_call io Begin_Read ''Failed to begin read transaction''
      (io_call io Open_Table ''Failed to open table''
       (io_call io Iter_Table ''Failed to create iterator''
        (case scan_sizes io key 0 t 0 0 of
           Inl e \<Rightarrow> Inl e
         | Inr (current_size, existing_key_size) \<Rightarrow>
             (let new_entry_size = length key + length value_str;
                  new_total_size = current_size - existing_key_size + new_entry_size
              in if max_user_data_size cfg < new_total_size then
                   Inl (range_error E_OUT_OF_RANGE
                     (''Storage size would exceed maximum limit of '' @ string_of_nat (max_user_data_size cfg) @
                      '' bytes (current: '' @ string_of_nat (current_size - existing_key_size) @ '', new entry: '' @
                      string_of_nat new_entry_size @ '')''))
                 else
                   io_call io Begin_Write ''Failed to begin write transaction''
                    (io_call io Open_Table ''Failed to open table''
                     (io_call io Insert_Row ''Failed to insert value''
                      (io_call io Commit ''Failed to commit transaction'' (Inr (bt_insert key value_str t)))))))))"

definition set_value :: "codec \<Rightarrow> io \<Rightarrow> string \<Rightarrow> js_val \<Rightarrow> storage \<Rightarrow> (host_error + unit) \<times> storage" where
  "set_value cd io key value s =
     (let cfg = sg_config s in
      if max_key_size cfg < length key then
        (Inl (range_error E_OUT_OF_RANGE
           (''Key size exceeds maximum limit of '' @ string_of_nat (max_key_size cfg) @ '' bytes'')), s)
      else
        (case encode_value cd value of
           Inl e \<Rightarrow> (Inl e, s)
         | Inr value_str \<Rightarrow>
             if max_value_size cfg < length value_str then
               (Inl (range_error E_OUT_OF_RANGE
                  (''Value size exceeds maximum limit of '' @ string_of_nat (max_value_size cfg) @ '' bytes'')), s)
             else
               (case with_db s (write_value io cfg key value_str) of
                  Inl e \<Rightarrow> (Inl e, s)
                | Inr t \<Rightarrow> (Inr (), s\<lparr>sg_db := Some t\<rparr>))))"

definition read_row :: "io \<Rightarrow> string \<Rightarrow> string \<Rightarrow> table \<Rightarrow> (string option \<Rightarrow> host_error + 'a) \<Rightarrow> host_error + 'a" where
  "read_row io msg key t k =
     io_call io Begin_Read ''Failed to begin read transaction''
      (io_call io Open_Table ''Failed to open table''
       (io_call io Get_Row msg (k (map_of t key))))"

text \<open>The bytes of a row are decoded as UTF-8 first; rows are only ever written from strings.\<close>

function from_utf8 :: "string \<Rightarrow> string option" where
  "from_utf8 s =
     (if s = [] then Some []
      else (case utf8_step s of
              (n, ok) \<Rightarrow> if ok then map_option (\<lambda>r. take n s @ r) (from_utf8 (drop n s)) else None))"
  by auto
termination
proof (relation "measure length")
  fix s :: string and n ok
  assume a: "s \<noteq> []" "(n, ok) = utf8_step s"
  have "0 < n" using utf8_step_pos [OF a(1)] a(2) by (metis fst_conv)
  then show "(drop n s, s) \<in> measure length" using a(1) by simp
qed simp

declare from_utf8.simps [simp del]

definition get_value :: "codec \<Rightarrow> io \<Rightarrow> (string \<Rightarrow> string) \<Rightarrow> string \<Rightarrow> storage \<Rightarrow> host_error + js_val" where
  "get_value cd io utf8_error key s =
     with_db s (\<lambda>t. read_row io ''Failed to get value'' key t
       (\<lambda>row. case row of
          None \<Rightarrow> Inr JS_Undefined
        | Some bytes \<Rightarrow>
            (case from_utf8 bytes of
               None \<Rightarrow> Inl (he_new E_INVALID_DATA (''Failed to decode value as UTF-8: '' @ utf8_error bytes))
             | Some text \<Rightarrow> decode_value cd text)))"

definition has_value :: "io \<Rightarrow> string \<Rightarrow> storage \<Rightarrow> host_error + bool" where
  "has_value io key s =
     with_db s (\<lambda>t. read_row io ''Failed to check key'' key t (\<lambda>row. Inr (row \<noteq> None)))"

definition delete_value :: "io \<Rightarrow> string \<Rightarrow> storage \<Rightarrow> (host_error + unit) \<times> storage" where
  "delete_value io key s =
     (case with_db s (\<lambda>t.
         io_call io Begin_Write ''Failed to begin write transaction''
          (io_call io Open_Table ''Failed to open table''
           (io_call io (Remove_Row 0) ''Failed to remove key''
            (io_call io Commit ''Failed to commit transaction'' (Inr (bt_remove key t)))))) of
        Inl e \<Rightarrow> (Inl e, s)
      | Inr t \<Rightarrow> (Inr (), s\<lparr>sg_db := Some t\<rparr>))"

fun collect_keys :: "io \<Rightarrow> string \<Rightarrow> nat \<Rightarrow> table \<Rightarrow> host_error + string list" where
  "collect_keys io msg i [] = Inr []"
| "collect_keys io msg i ((k, v) # rows) =
     io_call io (Read_Item i) msg
       (case collect_keys io msg (Suc i) rows of Inl e \<Rightarrow> Inl e | Inr ks \<Rightarrow> Inr (k # ks))"

fun remove_keys :: "io \<Rightarrow> nat \<Rightarrow> string list \<Rightarrow> table \<Rightarrow> host_error + table" where
  "remove_keys io i [] t = Inr t"
| "remove_keys io i (k # ks) t =
     io_call io (Remove_Row i) ''Failed to remove key'' (remove_keys io (Suc i) ks (bt_remove k t))"

definition clear :: "io \<Rightarrow> storage \<Rightarrow> (host_error + unit) \<times> storage" where
  "clear io s =
     (case with_db s (\<lambda>t.
         io_call io Begin_Write ''Failed to begin write transaction''
          (io_call io Open_Table ''Failed to open table''
           (io_call io Iter_Table ''Failed to iterate table''
            (case collect_keys io ''Failed to read key'' 0 t of
               Inl e \<Rightarrow> Inl e
             | Inr keys \<Rightarrow>
                 (case remove_keys io 0 keys t of
                    Inl e \<Rightarrow> Inl e
                  | Inr t' \<Rightarrow> io_call io Commit ''Failed to commit transaction'' (Inr t')))))) of
        Inl e \<Rightarrow> (Inl e, s)
      | Inr t \<Rightarrow> (Inr (), s\<lparr>sg_db := Some t\<rparr>))"

definition list_keys :: "io \<Rightarrow> string option \<Rightarrow> storage \<Rightarrow> host_error + string list" where
  "list_keys io prefix s =
     with_db s (\<lambda>t.
       io_call io Begin_Read ''Failed to begin read transaction''
        (io_call io Open_Table ''Failed to open table''
         (io_call io Iter_Table ''Failed to create iterator''
          (case collect_keys io ''Failed to read item'' 0 t of
             Inl e \<Rightarrow> Inl e
           | Inr keys \<Rightarrow>
               Inr (case prefix of Some p \<Rightarrow> filter (starts_with p) keys | None \<Rightarrow> keys)))))"

record storage_info =
  si_current_size :: u32
  si_limit_size :: u32
  si_key_count :: u32

definition info :: "io \<Rightarrow> storage \<Rightarrow> host_error + storage_info" where
  "info io s =
     with_db s (\<lambda>t.
       io_call io Begin_Read ''Failed to begin read transaction''
        (io_call io Open_Table ''Failed to open table''
         (io_call io Iter_Table ''Failed to create iterator''
          (case scan_sizes io [] 0 t 0 0 of
             Inl e \<Rightarrow> Inl e
           | Inr (current_size, _) \<Rightarrow>
               Inr \<lparr>si_current_size = of_nat current_size, si_limit_size = limit_size_u32 (sg_config s),
                    si_key_count = of_nat (length t)\<rparr>))))"

section \<open>Sizes and limits\<close>

definition data_size :: "table \<Rightarrow> nat" where
  "data_size t = sum_list (map (\<lambda>r. length (fst r) + length (snd r)) t)"

lemma data_size_simps [simp]:
  "data_size [] = 0" "data_size ((k, v) # t) = length k + length v + data_size t"
  by (simp_all add: data_size_def)

definition row_size :: "string \<Rightarrow> table \<Rightarrow> nat" where
  "row_size key t = (case map_of t key of None \<Rightarrow> 0 | Some v \<Rightarrow> length key + length v)"

text \<open>What a storage keeps true of an open database: rows in ascending key order, each key, each value and the
  whole within their limits.\<close>

definition storage_ok :: "storage \<Rightarrow> bool" where
  "storage_ok s \<longleftrightarrow>
     (case sg_db s of
        None \<Rightarrow> True
      | Some t \<Rightarrow>
          bt_sorted t \<and> data_size t \<le> max_user_data_size (sg_config s) \<and>
          list_all (\<lambda>r. length (fst r) \<le> max_key_size (sg_config s) \<and> length (snd r) \<le> max_value_size (sg_config s)) t)"

lemma io_call_Inr: "io_call io c msg k = Inr x \<longleftrightarrow> io c = None \<and> k = Inr x"
  by (simp add: io_call_def split: option.splits)

lemma sum_bind_Inr: "(case x of Inl e \<Rightarrow> Inl e | Inr y \<Rightarrow> f y) = Inr z \<longleftrightarrow> (\<exists>y. x = Inr y \<and> f y = Inr z)"
  by (cases x) simp_all

lemma with_db_Inr: "with_db s f = Inr x \<longleftrightarrow> (\<exists>t. sg_db s = Some t \<and> f t = Inr x)"
  by (simp add: with_db_def split: option.splits)

lemma scan_sizes_exact:
  "scan_sizes io key i t cur ex = Inr (c, e) \<Longrightarrow> distinct (map fst t) \<Longrightarrow>
   c = cur + data_size t \<and> e = (if key \<in> fst ` set t then row_size key t else ex)"
proof (induction io key i t cur ex rule: scan_sizes.induct)
  case (2 io key i k v rows cur ex)
  then show ?case by (force simp: io_call_Inr row_size_def split: option.splits)
qed simp

lemma row_size_le: "row_size key t \<le> data_size t"
  by (induction t) (auto simp: row_size_def split: option.splits)

lemma data_size_insert:
  "distinct (map fst t) \<Longrightarrow> bt_sorted t \<Longrightarrow> data_size (bt_insert key v t) = data_size t - row_size key t + (length key + length v)"
proof (induction key v t rule: bt_insert.induct)
  case (2 key v k' v' t)
  have le: "row_size key t \<le> data_size t" by (rule row_size_le)
  consider "key < k'" | "key = k'" | "k' < key" by fastforce
  then show ?case
  proof cases
    case 1
    then have "key \<notin> fst ` set t" "key \<noteq> k'" using 2 by (auto simp: bt_sorted_Cons)
    then have "map_of t key = None" by (simp add: map_of_eq_None_iff)
    then show ?thesis using 1 \<open>key \<noteq> k'\<close> by (simp add: row_size_def)
  next
    case 2
    then show ?thesis by (simp add: row_size_def)
  next
    case 3
    then have "row_size key ((k', v') # t) = row_size key t" by (simp add: row_size_def less_imp_neq [THEN not_sym])
    then show ?thesis using 3 "2.IH" "2.prems" le by (auto simp: bt_sorted_Cons)
  qed
qed (simp add: row_size_def)

lemma set_bt_insert: "r \<in> set (bt_insert k v t) \<Longrightarrow> r = (k, v) \<or> r \<in> set t"
  by (induction k v t rule: bt_insert.induct) (auto split: if_splits)

lemma write_value_result:
  assumes "write_value io cfg key v t = Inr t'" "bt_sorted t"
  shows "t' = bt_insert key v t \<and> data_size t' \<le> max_user_data_size cfg"
proof -
  have d: "distinct (map fst t)" using assms(2) by (rule bt_sorted_distinct)
  obtain c e where c: "scan_sizes io key 0 t 0 0 = Inr (c, e)" "t' = bt_insert key v t"
    "c - e + (length key + length v) \<le> max_user_data_size cfg"
    using assms(1) by (auto simp: write_value_def io_call_Inr Let_def split: sum.splits if_splits)
  have "key \<notin> fst ` set t \<Longrightarrow> row_size key t = 0" by (simp add: row_size_def flip: map_of_eq_None_iff)
  then have "c = data_size t" "e = row_size key t" using scan_sizes_exact [OF c(1) d] by auto
  then show ?thesis using c data_size_insert [OF d assms(2)] by simp
qed

lemma bt_sorted_remove: "bt_sorted m \<Longrightarrow> bt_sorted (bt_remove k m)"
  by (induction m) (auto simp: bt_remove_def bt_sorted_Cons)

lemma map_of_bt_remove: "map_of (bt_remove k m) = (map_of m)(k := None)"
  by (induction m) (auto simp: bt_remove_def fun_eq_iff)

lemma data_size_remove: "data_size (bt_remove k t) \<le> data_size t"
  by (induction t) (auto simp: bt_remove_def)

section \<open>Operations as steps\<close>

datatype storage_op = Op_Set string js_val | Op_Delete string | Op_Clear | Op_Close

text \<open>Reading changes nothing, so the operations that matter to the state are these four; each meets its own failures.\<close>

fun storage_step :: "codec \<Rightarrow> storage_op \<times> io \<Rightarrow> storage \<Rightarrow> (host_error + unit) \<times> storage" where
  "storage_step cd (Op_Set k v, io) s = set_value cd io k v s"
| "storage_step cd (Op_Delete k, io) s = delete_value io k s"
| "storage_step cd (Op_Clear, io) s = clear io s"
| "storage_step cd (Op_Close, io) s = (Inr (), close s)"

lemma collect_keys_exact: "collect_keys io msg i t = Inr ks \<Longrightarrow> ks = map fst t"
  by (induction io msg i t arbitrary: ks rule: collect_keys.induct) (auto simp: io_call_Inr split: sum.splits)

lemma remove_keys_exact: "remove_keys io i ks t = Inr t' \<Longrightarrow> t' = filter (\<lambda>r. fst r \<notin> set ks) t"
  by (induction io i ks t rule: remove_keys.induct)
     (auto simp: io_call_Inr bt_remove_def intro!: filter_cong)

lemma clear_empties:
  assumes "clear io s = (Inr (), s')"
  shows "sg_db s \<noteq> None \<and> s' = s\<lparr>sg_db := Some []\<rparr>"
proof -
  obtain t' where c: "with_db s (\<lambda>t.
         io_call io Begin_Write ''Failed to begin write transaction''
          (io_call io Open_Table ''Failed to open table''
           (io_call io Iter_Table ''Failed to iterate table''
            (case collect_keys io ''Failed to read key'' 0 t of
               Inl e \<Rightarrow> Inl e
             | Inr keys \<Rightarrow>
                 (case remove_keys io 0 keys t of
                    Inl e \<Rightarrow> Inl e
                  | Inr t' \<Rightarrow> io_call io Commit ''Failed to commit transaction'' (Inr t')))))) = Inr t'"
    "s' = s\<lparr>sg_db := Some t'\<rparr>"
    using assms unfolding clear_def by (auto split: sum.splits)
  then obtain t where t: "sg_db s = Some t" "remove_keys io 0 (map fst t) t = Inr t'"
    by (auto simp: with_db_Inr io_call_Inr sum_bind_Inr dest: collect_keys_exact)
  have "t' = filter (\<lambda>r. fst r \<notin> set (map fst t)) t" by (rule remove_keys_exact [OF t(2)])
  also have "\<dots> = []" by (auto simp: filter_empty_conv)
  finally show ?thesis using t c(2) by simp
qed

lemma delete_removes:
  assumes "delete_value io k s = (Inr (), s')"
  shows "\<exists>t. sg_db s = Some t \<and> s' = s\<lparr>sg_db := Some (bt_remove k t)\<rparr>"
  using assms by (auto simp: delete_value_def with_db_Inr io_call_Inr split: sum.splits)

lemma set_inserts:
  assumes "set_value cd io k v s = (Inr (), s')"
  shows "\<exists>t x t'. sg_db s = Some t \<and> encode_value cd v = Inr x \<and> write_value io (sg_config s) k x t = Inr t' \<and>
     s' = s\<lparr>sg_db := Some t'\<rparr> \<and> length k \<le> max_key_size (sg_config s) \<and> length x \<le> max_value_size (sg_config s)"
  using assms by (auto simp: set_value_def with_db_Inr Let_def split: sum.splits if_splits)

lemma step_error_unchanged: "storage_step cd x s = (Inl e, s') \<Longrightarrow> s' = s"
  by (cases "(cd, x, s)" rule: storage_step.cases)
     (auto simp: set_value_def delete_value_def clear_def Let_def split: sum.splits if_splits)

interpretation st: atomic_step "storage_step cd" for cd
  by unfold_locales (rule step_error_unchanged)

definition run_ops :: "codec \<Rightarrow> (storage_op \<times> io) list \<Rightarrow> storage \<Rightarrow> storage" where
  "run_ops cd ops s = fold (\<lambda>x s. snd (storage_step cd x s)) ops s"

fun successful_ops :: "codec \<Rightarrow> (storage_op \<times> io) list \<Rightarrow> storage \<Rightarrow> (storage_op \<times> io) list" where
  "successful_ops cd [] s = []"
| "successful_ops cd (x # xs) s =
     (case storage_step cd x s of
        (Inl _, s') \<Rightarrow> successful_ops cd xs s'
      | (Inr _, s') \<Rightarrow> x # successful_ops cd xs s')"

lemma run_ops_run: "run_ops cd ops s = st.run cd ops s"
  by (simp add: run_ops_def st.run_def)

lemma successful_ops_successes: "successful_ops cd ops s = st.successes cd ops s"
  by (induction ops arbitrary: s) (auto split: prod.splits sum.splits)

lemma step_config [simp]: "sg_config (snd (storage_step cd x s)) = sg_config s"
  by (cases "(cd, x, s)" rule: storage_step.cases)
     (auto simp: set_value_def delete_value_def clear_def close_def Let_def split: sum.splits)

lemma storage_ok_step:
  assumes ok: "storage_ok s" and st: "storage_step cd x s = (Inr u, s')"
  shows "storage_ok s'"
proof (cases "(cd, x, s)" rule: storage_step.cases)
  case (1 cd' k v io s0)
  then have "set_value cd io k v s = (Inr (), s')" using st by simp
  then obtain t y t' where e: "sg_db s = Some t" "write_value io (sg_config s) k y t = Inr t'" "s' = s\<lparr>sg_db := Some t'\<rparr>"
    "length k \<le> max_key_size (sg_config s)" "length y \<le> max_value_size (sg_config s)"
    using set_inserts by blast
  have t: "bt_sorted t" using ok e(1) by (simp add: storage_ok_def)
  have w: "t' = bt_insert k y t" "data_size t' \<le> max_user_data_size (sg_config s)"
    using write_value_result [OF e(2) t] by auto
  then show ?thesis using ok e t by (auto simp: storage_ok_def bt_sorted_insert list_all_iff dest!: set_bt_insert)
next
  case (2 cd' k io s0)
  then obtain t where t: "sg_db s = Some t" "s' = s\<lparr>sg_db := Some (bt_remove k t)\<rparr>"
    using st delete_removes by force
  have "list_all P t \<Longrightarrow> list_all P (bt_remove k t)" for P by (simp add: list_all_iff bt_remove_def)
  moreover have "data_size (bt_remove k t) \<le> data_size t" by (rule data_size_remove)
  ultimately show ?thesis using ok t by (auto simp: storage_ok_def bt_sorted_remove)
next
  case (3 cd' io s0)
  then have "s' = s\<lparr>sg_db := Some []\<rparr>" using st clear_empties by force
  then show ?thesis by (simp add: storage_ok_def)
next
  case (4 cd' io s0)
  then show ?thesis using st ok by (auto simp: close_def storage_ok_def)
qed

text \<open>
  What a storage opened on a table that was already there keeps true: opening checks nothing of the rows it finds, so a row
  is one of them or within its limits, and the whole is within the quota or consists of nothing but rows that were found.
\<close>

definition limits_kept :: "table \<Rightarrow> storage_config \<Rightarrow> storage \<Rightarrow> bool" where
  "limits_kept found cfg s \<longleftrightarrow>
     (case sg_db s of
        None \<Rightarrow> True
      | Some t \<Rightarrow>
          bt_sorted t \<and>
          (\<forall>r \<in> set t. r \<in> set found \<or> length (fst r) \<le> max_key_size cfg \<and> length (snd r) \<le> max_value_size cfg) \<and>
          (data_size t \<le> max_user_data_size cfg \<or> set t \<subseteq> set found \<and> data_size t \<le> data_size found))"

lemma set_bt_remove: "set (bt_remove k t) \<subseteq> set t"
  by (auto simp: bt_remove_def)

lemma limits_kept_step:
  assumes ok: "limits_kept found cfg s \<and> sg_config s = cfg" and st: "storage_step cd x s = (Inr u, s')"
  shows "limits_kept found cfg s' \<and> sg_config s' = cfg"
proof -
  have "sg_config s' = cfg" using step_config [of cd x s] st ok by simp
  moreover have "limits_kept found cfg s'"
  proof (cases "(cd, x, s)" rule: storage_step.cases)
    case (1 cd' k v io s0)
    then have "set_value cd io k v s = (Inr (), s')" using st by simp
    then obtain t y t' where e: "sg_db s = Some t" "write_value io cfg k y t = Inr t'" "s' = s\<lparr>sg_db := Some t'\<rparr>"
      "length k \<le> max_key_size cfg" "length y \<le> max_value_size cfg"
      using set_inserts ok by blast
    have t: "bt_sorted t" using ok e(1) by (simp add: limits_kept_def)
    have "t' = bt_insert k y t" "data_size t' \<le> max_user_data_size cfg" using write_value_result [OF e(2) t] by auto
    then show ?thesis using ok e t by (auto simp: limits_kept_def bt_sorted_insert dest!: set_bt_insert)
  next
    case (2 cd' k io s0)
    then obtain t where t: "sg_db s = Some t" "s' = s\<lparr>sg_db := Some (bt_remove k t)\<rparr>" using st delete_removes by force
    then show ?thesis
      using ok set_bt_remove [of k t] data_size_remove [of k t] by (auto simp: limits_kept_def bt_sorted_remove)
  next
    case (3 cd' io s0)
    then have "s' = s\<lparr>sg_db := Some []\<rparr>" using st clear_empties by force
    then show ?thesis by (simp add: limits_kept_def)
  next
    case (4 cd' io s0)
    then show ?thesis using st ok by (auto simp: close_def limits_kept_def)
  qed
  ultimately show ?thesis by simp
qed

text \<open>
  C31. A storage never grows past its limits. Open it on whatever rows the database holds, which need not respect the
  limits it is opened with, and store, delete, clear and close in any order and with any failures of the database: the
  rows stay in key order; every key and every value is within its limit, except in rows that were there at the opening
  and have not been touched since; and the total size is within the quota, unless nothing has been stored since the
  opening, so that only rows found then are left. A storage opened on an empty database keeps all its limits at all
  times.
\<close>

theorem storage_within_limits:
  assumes "open_with_path io debug has_parent path options found = Inr s" "bt_sorted found"
  shows "(case sg_db (run_ops cd ops s) of
      None \<Rightarrow> True
    | Some t \<Rightarrow>
        bt_sorted t \<and>
        (\<forall>r \<in> set t. r \<in> set found \<or>
           length (fst r) \<le> max_key_size (sg_config s) \<and> length (snd r) \<le> max_value_size (sg_config s)) \<and>
        (data_size t \<le> max_user_data_size (sg_config s) \<or> set t \<subseteq> set found \<and> data_size t \<le> data_size found)) \<and>
    (found = [] \<longrightarrow> storage_ok (run_ops cd ops s))"
proof -
  have o: "sg_db s = Some found" using assms(1) by (auto simp: open_with_path_def split: option.splits sum.splits if_splits)
  have "limits_kept found (sg_config s) s \<and> sg_config s = sg_config s" using o assms(2) by (simp add: limits_kept_def)
  then have "limits_kept found (sg_config s) (run_ops cd ops s) \<and> sg_config (run_ops cd ops s) = sg_config s"
    unfolding run_ops_run using limits_kept_step by (rule st.run_invariant [rotated])
  moreover have "storage_ok (run_ops cd ops s)" if "found = []"
  proof -
    have "storage_ok s" using o that by (simp add: storage_ok_def)
    then show ?thesis unfolding run_ops_run using storage_ok_step by (rule st.run_invariant [rotated])
  qed
  ultimately show ?thesis unfolding limits_kept_def by blast
qed

text \<open>
  Operations on a storage are atomic: one that reports an error has changed nothing, so any run ends in the state
  that its successful operations alone lead to.
\<close>

theorem failed_operations_do_not_count:
  "run_ops cd (successful_ops cd ops s) s = run_ops cd ops s \<and>
   (storage_step cd x s = (Inl e, s') \<longrightarrow> s' = s)"
  unfolding run_ops_run successful_ops_successes using st.run_successes step_error_unchanged by blast

section \<open>The storage as a map\<close>

definition storage_abs :: "storage \<Rightarrow> (string \<rightharpoonup> string) option" where
  "storage_abs s = map_option map_of (sg_db s)"

text \<open>The specification: a map from keys to texts, or nothing once it is closed.\<close>

definition spec_step :: "codec \<Rightarrow> storage_op \<Rightarrow> (string \<rightharpoonup> string) option \<Rightarrow> (string \<rightharpoonup> string) option" where
  "spec_step cd op m =
     (case op of
        Op_Set k v \<Rightarrow> (case encode_value cd v of Inr x \<Rightarrow> map_option (\<lambda>m. m(k \<mapsto> x)) m | Inl _ \<Rightarrow> m)
      | Op_Delete k \<Rightarrow> map_option (\<lambda>m. m(k := None)) m
      | Op_Clear \<Rightarrow> map_option (\<lambda>_. Map.empty) m
      | Op_Close \<Rightarrow> None)"

definition quiet :: "io \<Rightarrow> bool" where
  "quiet io \<longleftrightarrow> (\<forall>c. io c = None)"

lemma io_call_quiet [simp]: "quiet io \<Longrightarrow> io_call io c msg k = k"
  by (simp add: quiet_def io_call_def)

lemma collect_keys_quiet: "quiet io \<Longrightarrow> collect_keys io msg i t = Inr (map fst t)"
  by (induction io msg i t rule: collect_keys.induct) auto

lemma scan_sizes_quiet: "quiet io \<Longrightarrow> \<exists>e. scan_sizes io key i t cur ex = Inr (cur + data_size t, e)"
proof (induction io key i t cur ex rule: scan_sizes.induct)
  case (2 io key i k v rows cur ex)
  then show ?case by (simp add: add.assoc)
qed simp

lemma dom_map_of_rows: "dom (map_of t) = set (map fst t)"
  by (simp add: dom_map_of_conv_image_fst)

lemma sorted_keys_unique:
  assumes "bt_sorted t"
  shows "filter P (map fst t) = sorted_list_of_set {k \<in> dom (map_of t). P k}"
proof -
  have "sorted (map fst t)" "distinct (map fst t)"
    using assms by (auto simp: bt_sorted_def strict_sorted_iff)
  then have "sorted (filter P (map fst t))" "distinct (filter P (map fst t))"
    by (auto intro: sorted_wrt_filter)
  then have "sorted_list_of_set (set (filter P (map fst t))) = filter P (map fst t)"
    by (rule sorted_list_of_set.idem_if_sorted_distinct)
  moreover have "set (filter P (map fst t)) = {k \<in> dom (map_of t). P k}" by (auto simp: dom_map_of_rows)
  ultimately show ?thesis by simp
qed

lemma storage_step_refines:
  assumes "storage_ok s" "storage_step cd (op, io) s = (Inr u, s')"
  shows "storage_abs s' = spec_step cd op (storage_abs s)"
proof (cases op)
  case (Op_Set k v)
  then obtain t x t' where e: "sg_db s = Some t" "encode_value cd v = Inr x" "write_value io (sg_config s) k x t = Inr t'"
    "s' = s\<lparr>sg_db := Some t'\<rparr>"
    using assms(2) set_inserts [of cd io k v s s'] by auto
  have "bt_sorted t" using assms(1) e(1) by (simp add: storage_ok_def)
  then have "t' = bt_insert k x t" using write_value_result [OF e(3)] by simp
  then show ?thesis using e Op_Set by (simp add: storage_abs_def spec_step_def map_of_bt_insert)
next
  case (Op_Delete k)
  then show ?thesis using assms(2) delete_removes [of io k s s']
    by (auto simp: storage_abs_def spec_step_def map_of_bt_remove)
next
  case Op_Clear
  then show ?thesis using assms(2) clear_empties [of io s s'] by (auto simp: storage_abs_def spec_step_def)
next
  case Op_Close
  then show ?thesis using assms(2) by (auto simp: storage_abs_def spec_step_def close_def)
qed

text \<open>
  C32. A storage is a map from keys to encoded values. Every successful operation does to the map what it says (store one
  key, delete one key, empty it, close it), and when the database answers, \<^verbatim>\<open>has\<close> tells whether a key is in the map
  and \<^verbatim>\<open>list\<close> gives the keys with a prefix, each once and in order.
\<close>

theorem storage_refines_map:
  assumes "storage_ok s" "storage_step cd (op, io) s = (Inr u, s')" "quiet io'" "storage_abs s' = Some m"
  shows "Some m = spec_step cd op (storage_abs s) \<and>
         has_value io' k s' = Inr (m k \<noteq> None) \<and>
         list_keys io' (Some p) s' = Inr (sorted_list_of_set {k \<in> dom m. starts_with p k})"
proof -
  obtain t where t: "sg_db s' = Some t" "m = map_of t" using assms(4) by (auto simp: storage_abs_def)
  have "storage_ok s'" by (rule storage_ok_step [OF assms(1,2)])
  then have "bt_sorted t" using t(1) by (simp add: storage_ok_def)
  then have "list_keys io' (Some p) s' = Inr (sorted_list_of_set {k \<in> dom m. starts_with p k})"
    using assms(3) t sorted_keys_unique [of t "starts_with p"]
    by (simp add: list_keys_def with_db_def collect_keys_quiet)
  moreover have "has_value io' k s' = Inr (m k \<noteq> None)"
    using assms(3) t by (simp add: has_value_def with_db_def read_row_def)
  ultimately show ?thesis using storage_step_refines [OF assms(1,2)] assms(4) by simp
qed

lemma from_options_quota:
  "from_options options = Inr cfg \<Longrightarrow>
   validate_limit ''maxDataSize'' (op_max_data_size options) DEFAULT_MAX_USER_DATA_SIZE = Inr (max_user_data_size cfg)"
  by (auto simp: from_options_def split: sum.splits)

text \<open>
  \<^verbatim>\<open>info\<close> is exact although it answers in 32 bits: for a storage whose limits come from its options (or the defaults)
  the reported size is the number of bytes stored, the reported limit is the quota, and the first is at most the
  second.
\<close>

theorem storage_info_exact:
  assumes "storage_ok s" "sg_db s = Some t" "from_options options = Inr (sg_config s)" "quiet io"
  shows "\<exists>i. info io s = Inr i \<and> unat (si_current_size i) = data_size t \<and>
         unat (si_limit_size i) = max_user_data_size (sg_config s) \<and> si_current_size i \<le> si_limit_size i"
proof -
  have d: "data_size t \<le> max_user_data_size (sg_config s)" using assms(1,2) by (simp add: storage_ok_def)
  have m: "max_user_data_size (sg_config s) < 2 ^ 32"
    using from_options_quota [OF assms(3)] unat_bound [of "the (op_max_data_size options)"]
    by (cases "op_max_data_size options")
       (auto simp: validate_limit_def Let_def DEFAULT_MAX_USER_DATA_SIZE_def split: if_splits)
  obtain e where "scan_sizes io [] 0 t 0 0 = Inr (data_size t, e)" using scan_sizes_quiet [OF assms(4), of "[]" 0 t 0 0] by auto
  then have "info io s = Inr \<lparr>si_current_size = of_nat (data_size t), si_limit_size = limit_size_u32 (sg_config s),
      si_key_count = of_nat (length t)\<rparr>"
    using assms(2,4) by (simp add: info_def with_db_def)
  then show ?thesis using d m by (auto simp: limit_size_u32_def unat_of_nat word_le_nat_alt)
qed

section \<open>Reading back what was stored\<close>

lemma nat_log2_unique: "2 ^ k \<le> n \<Longrightarrow> n < 2 ^ Suc k \<Longrightarrow> nat_log2 n = k"
proof (induction k arbitrary: n)
  case 0
  then show ?case by (simp add: nat_log2.simps)
next
  case (Suc k)
  have "2 ^ k \<le> n div 2" "n div 2 < 2 ^ Suc k" using Suc.prems by (auto simp: less_eq_div_iff_mult_less_eq div_less_iff_less_mult)
  then have "nat_log2 (n div 2) = k" by (rule Suc.IH)
  moreover have "\<not> n < 2" using Suc.prems(1) by (simp add: not_less) (metis one_le_numeral one_le_power mult_le_mono2 mult_1_right order_trans)
  ultimately show ?case by (subst nat_log2.simps) simp
qed

text \<open>The bits of a double are its sign, exponent and fraction.\<close>

lemma f64_parts: "unat b = (if f_neg b then 2 ^ 63 else 0) + f_exp b * 2 ^ 52 + f_frac b"
proof -
  let ?n = "unat b"
  have n: "?n < 2 ^ 64" using unat_bound [of b] by simp
  have d: "?n div 2 ^ 63 = ?n div 2 ^ 52 div 2 ^ 11" by (simp flip: div_mult2_eq)
  have "?n div 2 ^ 52 = 2 ^ 11 * (?n div 2 ^ 63) + f_exp b" unfolding d f_exp_def by simp
  moreover have "?n div 2 ^ 63 = (if f_neg b then 1 else 0)"
    using n by (auto simp: f_neg_def div_eq_0_iff intro: div_nat_eqI)
  moreover have "?n = 2 ^ 52 * (?n div 2 ^ 52) + f_frac b" unfolding f_frac_def by simp
  ultimately show ?thesis by (auto split: if_splits)
qed

lemma f_frac_less: "f_frac b < 2 ^ 52"
  by (simp add: f_frac_def)

text \<open>An integer below two to the 53 has one double, negative zero apart.\<close>

lemma f64_of_nat_trunc:
  assumes fin: "fract_is_zero b" and lt: "f_mant b * 2 ^ f_left b div 2 ^ f_right b < 2 ^ 53"
  shows "f64_of_nat (f_mant b * 2 ^ f_left b div 2 ^ f_right b) = f_exp b * 2 ^ 52 + f_frac b"
proof (cases "f_exp b = 0")
  case True
  have "f_frac b = 0"
  proof (rule ccontr)
    assume "f_frac b \<noteq> 0"
    then have "2 ^ 1074 \<le> f_frac b" using fin True by (auto simp: fract_is_zero_def f_mant_def f_right_def dest: dvd_imp_le)
    moreover have "(2::nat) ^ 52 \<le> 2 ^ 1074" by (rule power_increasing) simp_all
    ultimately show False using f_frac_less [of b] by linarith
  qed
  then show ?thesis using True by (simp add: f_mant_def f64_of_nat_def)
next
  case False
  let ?k = "1075 - f_exp b" and ?q = "f_mant b div 2 ^ (1075 - f_exp b)"
  have m: "2 ^ 52 \<le> f_mant b" "f_mant b < 2 ^ 53" "f_mant b = 2 ^ 52 + f_frac b"
    using False f_frac_less [of b] by (auto simp: f_mant_def)
  have r: "f_right b = ?k" using False by (simp add: f_right_def)
  have e: "f_exp b \<le> 1075"
  proof (rule ccontr)
    assume "\<not> f_exp b \<le> 1075"
    then have "f_left b = Suc (f_exp b - 1076)" "?k = 0" by (auto simp: f_left_def)
    then have "2 ^ 53 \<le> f_mant b * 2 ^ f_left b" using m(1) mult_le_mono [of "2 ^ 52" "f_mant b" 2 "2 ^ f_left b"] by simp
    then show False using lt r \<open>?k = 0\<close> by simp
  qed
  then have l: "f_left b = 0" by (auto simp: f_left_def)
  have q: "f_mant b = ?q * 2 ^ ?k" using fin r by (simp add: fract_is_zero_def)
  have k: "?k \<le> 52"
  proof (rule ccontr)
    assume "\<not> ?k \<le> 52"
    then have "(2::nat) ^ 53 \<le> 2 ^ ?k" by (intro power_increasing) auto
    moreover have "2 ^ ?k \<le> f_mant b" using fin r m(1) by (intro dvd_imp_le) (auto simp: fract_is_zero_def)
    ultimately show False using m(2) by linarith
  qed
  have p: "(2::nat) ^ 52 = 2 ^ (52 - ?k) * 2 ^ ?k" using k by (simp flip: power_add)
  have "2 ^ (52 - ?k) \<le> ?q" using m(1) p q by (metis mult_le_cancel2 zero_less_numeral zero_less_power)
  moreover have "?q < 2 ^ Suc (52 - ?k)"
  proof -
    have "?q * 2 ^ ?k < 2 * (2 ^ (52 - ?k) * 2 ^ ?k)" using m(2) q p by simp
    then show ?thesis by (simp add: mult.assoc [symmetric])
  qed
  ultimately have log: "nat_log2 ?q = 52 - ?k" by (rule nat_log2_unique)
  have "?q \<noteq> 0" using q m(1) by (metis mult_0 not_less zero_less_numeral zero_less_power)
  then have "f64_of_nat ?q = (52 - ?k + 1023) * 2 ^ 52 + (?q * 2 ^ ?k - 2 ^ 52)"
    using log k by (simp add: f64_of_nat_def)
  also have "\<dots> = f_exp b * 2 ^ 52 + f_frac b" using q m(3) e k by simp
  finally show ?thesis using l r by simp
qed

lemma f64_of_int_trunc:
  assumes "fract_is_zero b" "\<bar>f_trunc b\<bar> < 2 ^ 53" "b \<noteq> 0x8000000000000000"
  shows "f64_of_int (f_trunc b) = b"
proof -
  let ?v = "f_mant b * 2 ^ f_left b div 2 ^ f_right b"
  have v: "?v < 2 ^ 53" using assms(2) by (auto simp: f_trunc_def split: if_splits)
  note r = f64_of_nat_trunc [OF assms(1) v]
  show ?thesis
  proof (cases "f_neg b")
    case False
    then have "f64_of_int (f_trunc b) = of_nat (f_exp b * 2 ^ 52 + f_frac b)"
      using r by (simp add: f_trunc_def f64_of_int_def)
    also have "\<dots> = of_nat (unat b)" using False f64_parts [of b] by simp
    finally show ?thesis by simp
  next
    case True
    have u: "unat b = 2 ^ 63 + (f_exp b * 2 ^ 52 + f_frac b)" using True f64_parts [of b] by simp
    have "?v \<noteq> 0"
    proof
      assume "?v = 0"
      then have "unat b = 2 ^ 63" using r u by (simp add: f64_of_nat_def)
      then show False using assms(3) by (simp add: word_unat_eq_iff)
    qed
    then have "f64_of_int (f_trunc b) = of_nat (2 ^ 63 + f64_of_nat ?v)"
      using True by (simp add: f_trunc_def f64_of_int_def)
    also have "\<dots> = of_nat (unat b)" using r u by simp
    finally show ?thesis by simp
  qed
qed

text \<open>
  The JSON document that stands for a value, and the values that can be preserved: not undefined, no negative zero, no
  invalid date, and no plain object that carries one of the markers the storage uses itself.
\<close>

definition document_of :: "js_val \<Rightarrow> json" where
  "document_of v =
     (case v of
        JS_Str s \<Rightarrow> J_Str s
      | JS_Num f \<Rightarrow>
          (if \<not> is_finite f then
             J_Obj [(''__type'', J_Str ''Number''),
                    (''value'', J_Str (if is_nan f then ''NaN'' else if \<not> f_neg f then ''Infinity'' else ''-Infinity''))]
           else if fract_is_zero f \<and> - (2 ^ 31) \<le> f_trunc f \<and> f_trunc f \<le> 2 ^ 32 - 1 then J_Int (f_trunc f)
           else J_Float f)
      | JS_BigInt n \<Rightarrow> J_Obj [(''__type'', J_Str ''BigInt''), (''value'', J_Str n)]
      | JS_Bool b \<Rightarrow> J_Bool b
      | JS_Date t \<Rightarrow> J_Obj [(''__type'', J_Str ''Date''), (''timestamp'', json_of_f64 t)]
      | JS_Obj j \<Rightarrow> j
      | _ \<Rightarrow> J_Null)"

definition marked :: "json \<Rightarrow> bool" where
  "marked j \<longleftrightarrow>
     (case j of
        J_Obj ms \<Rightarrow> json_str (json_member ''__type'' ms) \<in> {Some ''Date'', Some ''BigInt'', Some ''Number''}
      | _ \<Rightarrow> False)"

definition preservable :: "js_val \<Rightarrow> bool" where
  "preservable v \<longleftrightarrow>
     (case v of
        JS_Num f \<Rightarrow> f \<noteq> 0x8000000000000000 \<and> (is_finite f \<or> f \<in> {F_NAN, F_INFINITY, F_NEG_INFINITY})
      | JS_Date t \<Rightarrow> is_finite t
      | JS_Obj j \<Rightarrow> \<not> marked j \<and> (case j of J_Obj _ \<Rightarrow> True | J_Arr _ \<Rightarrow> True | _ \<Rightarrow> False)
      | JS_Undefined \<Rightarrow> False
      | JS_Other _ \<Rightarrow> False
      | _ \<Rightarrow> True)"

text \<open>
  What is relied on of the libraries for one value: serde_json reads the document it has written, the engine's JSON the
  object it has written, \<^verbatim>\<open>BigInt\<close> the digits of a big integer, and a date tells its time.
\<close>

definition codec_faithful :: "codec \<Rightarrow> js_val \<Rightarrow> bool" where
  "codec_faithful cd v \<longleftrightarrow>
     (\<forall>t. cd_to_string cd (document_of v) = Inr t \<longrightarrow> cd_from_str cd t = Some (document_of v) \<and> from_utf8 t = Some t) \<and>
     cd_from_str cd ''null'' = Some J_Null \<and>
     (case v of
        JS_Obj j \<Rightarrow>
          (\<forall>t. cd_stringify cd j = Inr t \<longrightarrow>
             cd_from_str cd t = Some j \<and> from_utf8 t = Some t \<and> cd_parse cd t = Inr (JS_Obj j))
      | JS_BigInt n \<Rightarrow> cd_bigint cd n = Inr (JS_BigInt n)
      | JS_Date t \<Rightarrow> cd_get_time cd t = Inr t
      | _ \<Rightarrow> True)"

lemma serialize_Inr: "serialize cd what j = Inr t \<longleftrightarrow> cd_to_string cd j = Inr t"
  by (simp add: serialize_def split: sum.splits)

lemma encode_document:
  assumes "encode_value cd v = Inr t" "codec_faithful cd v" "preservable v"
  shows "cd_from_str cd t = Some (document_of v) \<and> from_utf8 t = Some t"
proof -
  have n: "from_utf8 ''null'' = Some ''null''" by code_simp
  show ?thesis
  proof (cases v)
    case (JS_Num f)
    then have "cd_to_string cd (document_of v) = Inr t"
      using assms(1) by (auto simp: encode_value_def encode_number_def document_of_def serialize_Inr split: if_splits)
    then show ?thesis using assms(2) by (simp add: codec_faithful_def)
  next
    case (JS_Date d)
    then show ?thesis using assms
      by (auto simp: encode_value_def document_of_def serialize_Inr codec_faithful_def)
  next
    case (JS_Obj j)
    then show ?thesis using assms by (auto simp: encode_value_def document_of_def codec_faithful_def split: sum.splits)
  qed (use assms n in \<open>auto simp: encode_value_def document_of_def serialize_Inr codec_faithful_def preservable_def\<close>)
qed

lemma member_simps:
  "json_member ''__type'' [(''__type'', a), (''value'', b)] = Some a"
  "json_member ''value'' [(''__type'', a), (''value'', b)] = Some b"
  "json_member ''__type'' [(''__type'', a), (''timestamp'', b)] = Some a"
  "json_member ''timestamp'' [(''__type'', a), (''timestamp'', b)] = Some b"
  by (simp_all add: json_member_def)

lemma special_numbers:
  "is_nan F_NAN" "\<not> is_finite F_NAN" "\<not> is_nan F_INFINITY" "\<not> is_finite F_INFINITY" "\<not> f_neg F_INFINITY"
  "\<not> is_nan F_NEG_INFINITY" "\<not> is_finite F_NEG_INFINITY" "f_neg F_NEG_INFINITY"
  by (simp_all add: is_nan_def is_finite_def f_exp_def f_frac_def f_neg_def F_NAN_def F_INFINITY_def F_NEG_INFINITY_def)

lemma decode_number:
  assumes "cd_from_str cd t = Some (document_of (JS_Num f))" "preservable (JS_Num f)"
  shows "decode_value cd t = Inr (JS_Num f)"
proof (cases "is_finite f")
  case False
  then have "f \<in> {F_NAN, F_INFINITY, F_NEG_INFINITY}" using assms(2) by (simp add: preservable_def)
  then show ?thesis using assms(1) False
    by (auto simp: decode_value_def decode_object_def document_of_def json_str_def member_simps special_numbers)
next
  case True
  show ?thesis
  proof (cases "fract_is_zero f \<and> - (2 ^ 31) \<le> f_trunc f \<and> f_trunc f \<le> 2 ^ 32 - 1")
    case int: True
    then have "f64_of_int (f_trunc f) = f"
      using assms(2) by (intro f64_of_int_trunc) (auto simp: preservable_def)
    then show ?thesis using int True assms(1) by (auto simp: decode_value_def document_of_def js_of_int_def)
  next
    case fl: False
    then have "document_of (JS_Num f) = J_Float f" using True by (auto simp: document_of_def)
    then show ?thesis using assms(1) by (simp add: decode_value_def)
  qed
qed

lemma decode_document:
  assumes "cd_from_str cd t = Some (document_of v)" "codec_faithful cd v" "preservable v" "encode_value cd v = Inr t"
  shows "decode_value cd t = Inr v"
proof (cases v)
  case (JS_Num f)
  then show ?thesis using decode_number assms(1,3) by simp
next
  case (JS_Obj j)
  then have "cd_parse cd t = Inr v"
    using assms(2,4) by (auto simp: codec_faithful_def encode_value_def split: sum.splits)
  then show ?thesis using assms(1,3) JS_Obj
    by (cases j) (auto simp: decode_value_def decode_object_def document_of_def preservable_def marked_def split: option.splits)
next
  case (JS_Date d)
  then show ?thesis using assms(1,3)
    by (auto simp: decode_value_def decode_object_def document_of_def json_str_def json_f64_def member_simps preservable_def
        json_of_f64_def)
next
  case (JS_BigInt n)
  then show ?thesis using assms(1,2)
    by (auto simp: decode_value_def decode_object_def document_of_def json_str_def member_simps codec_faithful_def)
qed (use assms in \<open>auto simp: decode_value_def document_of_def preservable_def\<close>)

text \<open>
  What is stored is read back: after a successful \<^verbatim>\<open>set\<close>, \<^verbatim>\<open>get\<close> of the same key gives the same value with the same
  type (strings, numbers bit for bit, infinities and NaN, big integers, booleans, null, dates, objects and
  arrays), and \<^verbatim>\<open>get\<close> of any other key gives what it gave before.
\<close>

theorem storage_set_get:
  assumes ok: "storage_ok s" and st: "set_value cd io k v s = (Inr (), s')"
    and v: "codec_faithful cd v" "preservable v" and q: "quiet io'"
  shows "get_value cd io' u k s' = Inr v \<and> (k' \<noteq> k \<longrightarrow> get_value cd io' u k' s' = get_value cd io' u k' s)"
proof -
  obtain t x t' where e: "sg_db s = Some t" "encode_value cd v = Inr x" "write_value io (sg_config s) k x t = Inr t'"
    "s' = s\<lparr>sg_db := Some t'\<rparr>"
    using set_inserts [OF st] by blast
  have "bt_sorted t" using ok e(1) by (simp add: storage_ok_def)
  then have t': "map_of t' = (map_of t)(k \<mapsto> x)" using write_value_result [OF e(3)] by (simp add: map_of_bt_insert)
  note d = encode_document [OF e(2) v]
  have "get_value cd io' u k s' = decode_value cd x"
    using q e(4) t' d by (simp add: get_value_def with_db_def read_row_def)
  moreover have "decode_value cd x = Inr v" using decode_document [OF _ v e(2)] d by blast
  moreover have "get_value cd io' u k' s' = get_value cd io' u k' s" if "k' \<noteq> k"
    using that q e(1,4) t' by (simp add: get_value_def with_db_def read_row_def)
  ultimately show ?thesis by simp
qed

text \<open>
  What is not preserved. A plain object that happens to carry a marker is stored without complaint and comes back as
  something else or not at all; so does an invalid date; negative zero comes back as zero.
\<close>

lemma marked_object_unreadable:
  assumes "cd_from_str cd t = Some (J_Obj [(''__type'', J_Str ''Number''), (''value'', J_Int 1)])"
  shows "decode_value cd t = Inl (he_new E_INVALID_DATA ''Invalid non-finite Number object'')"
  using assms by (simp add: decode_value_def decode_object_def json_str_def member_simps)

lemma marked_object_becomes_date:
  assumes "cd_from_str cd t = Some (J_Obj [(''__type'', J_Str ''Date''), (''timestamp'', J_Int 0)])"
  shows "decode_value cd t = Inr (JS_Date 0)"
  using assms by (simp add: decode_value_def decode_object_def json_str_def json_f64_def member_simps f64_of_int_def f64_of_nat_def)

lemma invalid_date_unreadable:
  assumes "\<not> is_finite d" "cd_from_str cd t = Some (document_of (JS_Date d))"
  shows "decode_value cd t = Inl (he_new E_INVALID_DATA ''Invalid Date object: missing timestamp'')"
  using assms
  by (simp add: decode_value_def decode_object_def document_of_def json_of_f64_def json_str_def json_f64_def member_simps)

section \<open>Instances\<close>

definition five_codec :: codec where
  "five_codec =
     \<lparr>cd_to_string = (\<lambda>j. if j = J_Int 5 then Inr ''5'' else Inl ''unsupported''),
      cd_from_str = (\<lambda>t. if t = ''5'' then Some (J_Int 5) else if t = ''null'' then Some J_Null else None),
      cd_stringify = (\<lambda>_. Inl ''unsupported''), cd_parse = (\<lambda>t. Inr (JS_Str t)), cd_bigint = (\<lambda>n. Inr (JS_BigInt n)),
      cd_large_int = (\<lambda>_. JS_Null), cd_get_time = Inr\<rparr>"

definition small_storage :: storage where
  "small_storage = \<lparr>sg_db = Some [(''a'', ''5'')], sg_config = \<lparr>max_key_size = 4, max_value_size = 4, max_user_data_size = 6\<rparr>\<rparr>"

definition small_options :: storage_options where
  "small_options = \<lparr>op_max_key_size = Some 4, op_max_value_size = Some 4, op_max_data_size = Some 6\<rparr>"

definition no_faults :: io where
  "no_faults = (\<lambda>_. None)"

definition FIVE :: js_val where
  "FIVE = JS_Num 0x4014000000000000"

lemma small_storage_ok: "storage_ok small_storage"
  by (simp add: storage_ok_def small_storage_def bt_sorted_def)

lemma no_faults_quiet: "quiet no_faults"
  by (simp add: quiet_def no_faults_def)

lemma five_document: "document_of FIVE = J_Int 5" "encode_value five_codec FIVE = Inr ''5''"
  by (simp_all add: FIVE_def document_of_def encode_value_def encode_number_def serialize_def five_codec_def is_finite_def
      f_exp_def f_frac_def f_neg_def f_mant_def f_left_def f_right_def fract_is_zero_def f_trunc_def)

lemma five_faithful: "codec_faithful five_codec FIVE" "preservable FIVE"
proof -
  have "from_utf8 ''5'' = Some ''5''" by code_simp
  then show "codec_faithful five_codec FIVE"
    unfolding codec_faithful_def five_document by (simp add: five_codec_def FIVE_def)
  show "preservable FIVE" by (simp add: preservable_def FIVE_def is_finite_def f_exp_def)
qed

lemma small_set: "\<exists>s'. set_value five_codec no_faults ''b'' FIVE small_storage = (Inr (), s') \<and>
    sg_db s' = Some [(''a'', ''5''), (''b'', ''5'')]"
  using no_faults_quiet
  by (simp add: set_value_def five_document small_storage_def with_db_def write_value_def)

text \<open>A database of seven bytes opened with a quota of six: the rows found are left alone until one is deleted.\<close>

theorem storage_within_limits_witness:
  "\<exists>s. open_with_path no_faults id False ''db'' small_options [(''a'', ''5''), (''bcde'', ''5'')] = Inr s \<and>
     (case sg_db (run_ops five_codec [(Op_Set ''b'' FIVE, no_faults), (Op_Delete ''a'', no_faults)] s) of
        None \<Rightarrow> True
      | Some t \<Rightarrow> data_size t \<le> max_user_data_size (sg_config s) \<or> data_size t \<le> 7)"
proof -
  obtain s where s: "open_with_path no_faults id False ''db'' small_options [(''a'', ''5''), (''bcde'', ''5'')] = Inr s"
    by (simp add: open_with_path_def no_faults_def small_options_def ensure_storage_table_def io_call_def from_options_def
        validate_limit_def)
  have "bt_sorted [(''a'', ''5''), (''bcde'', ''5'')]" by code_simp
  from storage_within_limits [OF s this, of five_codec "[(Op_Set ''b'' FIVE, no_faults), (Op_Delete ''a'', no_faults)]"] s
  show ?thesis by (auto split: option.splits)
qed

theorem failed_operations_do_not_count_witness:
  "snd (storage_step five_codec (Op_Delete ''a'', \<lambda>_. Some ''disk'') small_storage) = small_storage"
proof -
  have "storage_step five_codec (Op_Delete ''a'', \<lambda>_. Some ''disk'') small_storage =
      (Inl (he_new E_IO ''Failed to begin write transaction: disk''),
       snd (storage_step five_codec (Op_Delete ''a'', \<lambda>_. Some ''disk'') small_storage))"
    by (simp add: delete_value_def with_db_def io_call_def small_storage_def)
  then show ?thesis using failed_operations_do_not_count by blast
qed

theorem storage_refines_map_witness:
  "\<exists>m. Some m = spec_step five_codec (Op_Set ''b'' FIVE) (storage_abs small_storage) \<and> m ''b'' = Some ''5''"
proof -
  obtain s' where s: "set_value five_codec no_faults ''b'' FIVE small_storage = (Inr (), s')"
    "sg_db s' = Some [(''a'', ''5''), (''b'', ''5'')]"
    using small_set by blast
  have a: "storage_abs s' = Some [''a'' \<mapsto> ''5'', ''b'' \<mapsto> ''5'']"
    using s(2) by (auto simp: storage_abs_def fun_eq_iff)
  have "storage_step five_codec (Op_Set ''b'' FIVE, no_faults) small_storage = (Inr (), s')" using s(1) by simp
  from storage_refines_map [OF small_storage_ok this no_faults_quiet a]
  show ?thesis by (intro exI [of _ "[''a'' \<mapsto> ''5'', ''b'' \<mapsto> ''5'']"]) auto
qed

theorem storage_info_exact_witness:
  "\<exists>i. info no_faults small_storage = Inr i \<and> unat (si_current_size i) = 2"
proof -
  have f: "from_options small_options = Inr (sg_config small_storage)"
    by (simp add: from_options_def validate_limit_def small_options_def small_storage_def)
  have d: "sg_db small_storage = Some [(''a'', ''5'')]" by (simp add: small_storage_def)
  show ?thesis using storage_info_exact [OF small_storage_ok d f no_faults_quiet] by auto
qed

theorem storage_set_get_witness:
  "get_value five_codec no_faults id ''b'' (snd (set_value five_codec no_faults ''b'' FIVE small_storage)) = Inr FIVE"
proof -
  obtain s' where s: "set_value five_codec no_faults ''b'' FIVE small_storage = (Inr (), s')" using small_set by blast
  show ?thesis using storage_set_get [OF small_storage_ok s five_faithful no_faults_quiet] s by simp
qed

end
