(* ===== verification/Event_Emitter.thy ===== *)
theory Event_Emitter
  imports Host_Error
begin

text \<open>
  The event emitter of \<^verbatim>\<open>modules/rong_event/src/event_emitter.rs\<close>: listeners per event key, emission with
  re-entrant callbacks, once-listeners, and the methods the class exposes to JavaScript. A JavaScript
  function is known by its identity (the type \<open>'f\<close>, compared as \<^verbatim>\<open>JSFunc\<close> compares). Calling one is an argument of
  the model: it may change the emitter (it runs without the lock), change any other state, and throw. The
  mutex is never poisoned, because nothing that can panic runs while it is held.
\<close>

section \<open>Data\<close>

datatype 'y event_key = EK_String string | EK_Symbol 'y

record 'f event_listener =
  el_listener :: 'f
  el_once :: bool

record ('y, 'f) event_emitter =
  ee_listeners :: "'y event_key \<rightharpoonup> 'f event_listener list"
  ee_max_listener :: u32

definition ee_default :: "('y, 'f) event_emitter" where
  "ee_default = \<lparr>ee_listeners = Map.empty, ee_max_listener = 10\<rparr>"

text \<open>Everything a callback can reach: the emitter and the rest of the program's state.\<close>

record ('y, 'f, 's) ee_world =
  ew_emitter :: "('y, 'f) event_emitter"
  ew_state :: 's

text \<open>A call of a listener: the error it throws, if it throws, and the world after it.\<close>

type_synonym ('y, 'f, 's) ee_call = "'f \<Rightarrow> ('y, 'f, 's) ee_world \<Rightarrow> rong_js_error option \<times> ('y, 'f, 's) ee_world"

text \<open>The hook \<^verbatim>\<open>on_event_changed\<close> of the class that owns the emitter.\<close>

type_synonym ('y, 'f, 's) ee_hook =
  "'y event_key \<Rightarrow> bool \<Rightarrow> ('y, 'f, 's) ee_world \<Rightarrow> rong_js_error option \<times> ('y, 'f, 's) ee_world"

definition key_from_js_value :: "('v \<Rightarrow> string option) \<Rightarrow> ('v \<Rightarrow> 'y option) \<Rightarrow> 'v \<Rightarrow> 'y event_key js_result" where
  "key_from_js_value as_string as_symbol v =
     (case as_string v of
        Some k \<Rightarrow> Inr (EK_String k)
      | None \<Rightarrow>
          (case as_symbol v of
             Some y \<Rightarrow> Inr (EK_Symbol y)
           | None \<Rightarrow>
               Inl (Host (with_name ''TypeError''
                 (he_new E_INVALID_ARG ''EventKey must be Symbol or String!'')))))"

section \<open>The emitter\<close>

definition listeners_of :: "'y event_key \<Rightarrow> ('y, 'f) event_emitter \<Rightarrow> 'f event_listener list" where
  "listeners_of key ee = (case ee_listeners ee key of Some ls \<Rightarrow> ls | None \<Rightarrow> [])"

definition has_listeners :: "'y event_key \<Rightarrow> ('y, 'f) event_emitter \<Rightarrow> bool" where
  "has_listeners key ee = (case ee_listeners ee key of Some ls \<Rightarrow> ls \<noteq> [] | None \<Rightarrow> False)"

definition get_listener :: "'y event_key \<Rightarrow> ('y, 'f) event_emitter \<Rightarrow> 'f option" where
  "get_listener key ee =
     (case ee_listeners ee key of
        Some (l # ls) \<Rightarrow> Some (el_listener l)
      | _ \<Rightarrow> None)"

definition overflow_error :: "nat \<Rightarrow> rong_js_error" where
  "overflow_error current_len =
     Host (he_new E_INVALID_STATE
       (''EventEmitter overflow: '' @ string_of_nat (current_len + 1) @
        '' listeners added. Use setMaxListeners() to increase limit''))"

definition add_listener ::
  "'y event_key \<Rightarrow> 'f \<Rightarrow> bool \<Rightarrow> bool \<Rightarrow> ('y, 'f) event_emitter \<Rightarrow>
     rong_js_error + (bool \<times> ('y, 'f) event_emitter)" where
  "add_listener key f prepend once ee =
     (let is_new = (ee_listeners ee key = None);
          current_len = length (listeners_of key ee)
      in if ee_max_listener ee \<le> of_nat current_len then Inl (overflow_error current_len)
         else
           (let l = \<lparr>el_listener = f, el_once = once\<rparr>;
                ls = (if prepend then l # listeners_of key ee else listeners_of key ee @ [l])
            in Inr (is_new, ee\<lparr>ee_listeners := (ee_listeners ee)(key \<mapsto> ls)\<rparr>)))"

definition remove_listener :: "'y event_key \<Rightarrow> 'f \<Rightarrow> ('y, 'f) event_emitter \<Rightarrow> ('y, 'f) event_emitter" where
  "remove_listener key f ee =
     (case ee_listeners ee key of
        None \<Rightarrow> ee
      | Some ls \<Rightarrow>
          ee\<lparr>ee_listeners := (ee_listeners ee)(key \<mapsto> filter (\<lambda>l. el_listener l \<noteq> f) ls)\<rparr>)"

text \<open>The order of a hash map's keys is unspecified, so the names are a set.\<close>

definition event_names :: "('y, 'f) event_emitter \<Rightarrow> 'y event_key set" where
  "event_names ee = dom (ee_listeners ee)"

text \<open>
  The loop over the snapshot: the once-listeners reached so far are noted before each call, and the first
  error ends it.
\<close>

fun call_listeners ::
  "('y, 'f, 's) ee_call \<Rightarrow> 'f event_listener list \<Rightarrow> 'f list \<Rightarrow> ('y, 'f, 's) ee_world \<Rightarrow>
     rong_js_error option \<times> 'f list \<times> ('y, 'f, 's) ee_world" where
  "call_listeners call [] once w = (None, once, w)"
| "call_listeners call (l # ls) once w =
     (let once = (if el_once l then once @ [el_listener l] else once) in
      case call (el_listener l) w of
        (Some e, w') \<Rightarrow> (Some e, once, w')
      | (None, w') \<Rightarrow> call_listeners call ls once w')"

definition retain_listeners :: "'f list \<Rightarrow> 'f event_listener list \<Rightarrow> 'f event_listener list" where
  "retain_listeners removed ls = filter (\<lambda>l. el_listener l \<notin> set removed) ls"

text \<open>What follows the loop, under the lock again; the flag is \<^verbatim>\<open>is_empty\<close>.\<close>

definition cleanup_error ::
  "'y event_key \<Rightarrow> 'f list \<Rightarrow> ('y, 'f) event_emitter \<Rightarrow> bool \<times> ('y, 'f) event_emitter" where
  "cleanup_error key once ee =
     (if once = [] then (False, ee)
      else (case ee_listeners ee key of
              None \<Rightarrow> (True, ee)
            | Some ls \<Rightarrow>
                (let ls' = retain_listeners once ls in
                 if ls' = [] then (True, ee\<lparr>ee_listeners := (ee_listeners ee)(key := None)\<rparr>)
                 else (False, ee\<lparr>ee_listeners := (ee_listeners ee)(key \<mapsto> ls')\<rparr>))))"

definition cleanup_ok ::
  "'y event_key \<Rightarrow> 'f list \<Rightarrow> ('y, 'f) event_emitter \<Rightarrow> bool \<times> ('y, 'f) event_emitter" where
  "cleanup_ok key once ee =
     (case ee_listeners ee key of
        None \<Rightarrow> (True, ee)
      | Some ls \<Rightarrow>
          (let ls' = (if once \<noteq> [] then retain_listeners once ls else ls) in
           if ls' = [] then (True, ee\<lparr>ee_listeners := (ee_listeners ee)(key := None)\<rparr>)
           else (False, ee\<lparr>ee_listeners := (ee_listeners ee)(key \<mapsto> ls')\<rparr>)))"

definition emitter_do_emit ::
  "('y, 'f, 's) ee_call \<Rightarrow> 'y event_key \<Rightarrow> ('y, 'f, 's) ee_world \<Rightarrow>
     bool js_result \<times> bool \<times> ('y, 'f, 's) ee_world" where
  "emitter_do_emit call key w =
     (let snapshot = listeners_of key (ew_emitter w) in
      if snapshot = [] then (Inr False, False, w)
      else
        (case call_listeners call snapshot [] w of
           (Some e, once, w') \<Rightarrow>
             (case cleanup_error key once (ew_emitter w') of
                (is_empty, ee) \<Rightarrow> (Inl e, is_empty, w'\<lparr>ew_emitter := ee\<rparr>))
         | (None, once, w') \<Rightarrow>
             (case cleanup_ok key once (ew_emitter w') of
                (is_empty, ee) \<Rightarrow> (Inr True, is_empty, w'\<lparr>ew_emitter := ee\<rparr>))))"

definition remove_all_listeners :: "'y event_key option \<Rightarrow> ('y, 'f) event_emitter \<Rightarrow> ('y, 'f) event_emitter" where
  "remove_all_listeners key ee =
     (case key of
        Some k \<Rightarrow> ee\<lparr>ee_listeners := (ee_listeners ee)(k := None)\<rparr>
      | None \<Rightarrow> ee\<lparr>ee_listeners := Map.empty\<rparr>)"

definition listener_count :: "'y event_key \<Rightarrow> 'f option \<Rightarrow> ('y, 'f) event_emitter \<Rightarrow> u32" where
  "listener_count key f ee =
     (case ee_listeners ee key of
        None \<Rightarrow> 0
      | Some ls \<Rightarrow>
          of_nat (case f of
                    Some f \<Rightarrow> length (filter (\<lambda>l. el_listener l = f) ls)
                  | None \<Rightarrow> length ls))"

definition set_max_listeners :: "u32 \<Rightarrow> ('y, 'f) event_emitter \<Rightarrow> ('y, 'f) event_emitter" where
  "set_max_listeners m ee = ee\<lparr>ee_max_listener := m\<rparr>"

definition get_max_listeners :: "('y, 'f) event_emitter \<Rightarrow> u32" where
  "get_max_listeners ee = ee_max_listener ee"

section \<open>The methods of the class\<close>

definition add_event_listener ::
  "('y, 'f, 's) ee_hook \<Rightarrow> 'y event_key \<Rightarrow> 'f \<Rightarrow> bool \<Rightarrow> bool \<Rightarrow> ('y, 'f, 's) ee_world \<Rightarrow>
     unit js_result \<times> ('y, 'f, 's) ee_world" where
  "add_event_listener hook key f prepend once w =
     (case add_listener key f prepend once (ew_emitter w) of
        Inl e \<Rightarrow> (Inl e, w)
      | Inr (is_new, ee) \<Rightarrow>
          (let w = w\<lparr>ew_emitter := ee\<rparr> in
           if is_new
           then (case hook key True w of (Some e, w') \<Rightarrow> (Inl e, w') | (None, w') \<Rightarrow> (Inr (), w'))
           else (Inr (), w)))"

definition remove_event_listener ::
  "'y event_key \<Rightarrow> 'f \<Rightarrow> ('y, 'f, 's) ee_world \<Rightarrow> unit js_result \<times> ('y, 'f, 's) ee_world" where
  "remove_event_listener key f w = (Inr (), w\<lparr>ew_emitter := remove_listener key f (ew_emitter w)\<rparr>)"

definition do_emit ::
  "('y, 'f, 's) ee_call \<Rightarrow> ('y, 'f, 's) ee_hook \<Rightarrow> 'y event_key \<Rightarrow> ('y, 'f, 's) ee_world \<Rightarrow>
     bool js_result \<times> ('y, 'f, 's) ee_world" where
  "do_emit call hook key w =
     (case emitter_do_emit call key w of
        (has, is_empty, w') \<Rightarrow>
          (if is_empty
           then (case hook key False w' of (Some e, w'') \<Rightarrow> (Inl e, w'') | (None, w'') \<Rightarrow> (has, w''))
           else (has, w')))"

text \<open>
  \<open>event_type\<close> is what reading the property \<^verbatim>\<open>type\<close> of the event gives: nothing when the event is no object,
  \<open>Some None\<close> when it has no such string.
\<close>

definition dispatch_event ::
  "('y, 'f, 's) ee_call \<Rightarrow> ('y, 'f, 's) ee_hook \<Rightarrow> string option option \<Rightarrow> ('y, 'f, 's) ee_world \<Rightarrow>
     bool js_result \<times> ('y, 'f, 's) ee_world" where
  "dispatch_event call hook event_type w =
     (case event_type of
        None \<Rightarrow> (Inr True, w)
      | Some None \<Rightarrow> (Inr True, w)
      | Some (Some t) \<Rightarrow>
          (case do_emit call hook (EK_String t) w of
             (Inl e, w') \<Rightarrow> (Inl e, w')
           | (Inr _, w') \<Rightarrow> (Inr True, w')))"

text \<open>\<^verbatim>\<open>emit_error\<close> of a result whose error prints as \<open>err\<close>.\<close>

definition emit_error ::
  "('y, 'f, 's) ee_call \<Rightarrow> ('y, 'f, 's) ee_hook \<Rightarrow> string option \<Rightarrow> ('y, 'f, 's) ee_world \<Rightarrow>
     bool js_result \<times> ('y, 'f, 's) ee_world" where
  "emit_error call hook err w =
     (case err of
        None \<Rightarrow> (Inr False, w)
      | Some err \<Rightarrow>
          (case do_emit call hook (EK_String ''error'') w of
             (Inr True, w') \<Rightarrow> (Inr True, w')
           | (_, w') \<Rightarrow> (Inl (Host (he_new E_ERROR err)), w')))"

definition js_remove_all_listeners ::
  "('v \<Rightarrow> 'y event_key js_result) \<Rightarrow> 'v list \<Rightarrow> ('y, 'f, 's) ee_world \<Rightarrow>
     unit js_result \<times> ('y, 'f, 's) ee_world" where
  "js_remove_all_listeners to_key args w =
     (case args of
        [] \<Rightarrow> (Inr (), w\<lparr>ew_emitter := remove_all_listeners None (ew_emitter w)\<rparr>)
      | v # _ \<Rightarrow>
          (case to_key v of
             Inl e \<Rightarrow> (Inl e, w)
           | Inr k \<Rightarrow> (Inr (), w\<lparr>ew_emitter := remove_all_listeners (Some k) (ew_emitter w)\<rparr>)))"

section \<open>Lemmas\<close>

lemma listeners_of_simps [simp]:
  "listeners_of k (ee\<lparr>ee_listeners := (ee_listeners ee)(k' \<mapsto> ls)\<rparr>) = (if k = k' then ls else listeners_of k ee)"
  "listeners_of k (ee\<lparr>ee_listeners := (ee_listeners ee)(k' := None)\<rparr>) = (if k = k' then [] else listeners_of k ee)"
  by (simp_all add: listeners_of_def)

lemma listeners_of_remove:
  "listeners_of k (remove_listener k' f ee) =
     (if k = k' then filter (\<lambda>l. el_listener l \<noteq> f) (listeners_of k ee) else listeners_of k ee)"
  by (auto simp: remove_listener_def listeners_of_def split: option.splits)

lemma listeners_of_cleanup_ok:
  "listeners_of k (snd (cleanup_ok k once ee)) = retain_listeners once (listeners_of k ee)"
  by (simp add: cleanup_ok_def Let_def retain_listeners_def listeners_of_def split: option.splits)

lemma listeners_of_cleanup_error:
  "listeners_of k (snd (cleanup_error k once ee)) = retain_listeners once (listeners_of k ee)"
  by (simp add: cleanup_error_def Let_def retain_listeners_def listeners_of_def split: option.splits)

lemma cleanup_other:
  "k' \<noteq> k \<Longrightarrow> listeners_of k' (snd (cleanup_ok k once ee)) = listeners_of k' ee"
  "k' \<noteq> k \<Longrightarrow> listeners_of k' (snd (cleanup_error k once ee)) = listeners_of k' ee"
  by (simp_all add: cleanup_ok_def cleanup_error_def Let_def listeners_of_def split: option.splits)

text \<open>The functions of the once-listeners of a list, in order.\<close>

definition once_fns :: "'f event_listener list \<Rightarrow> 'f list" where
  "once_fns ls = map el_listener (filter el_once ls)"

lemma call_listeners_once:
  "fst (call_listeners call ls once w) = None \<Longrightarrow> fst (snd (call_listeners call ls once w)) = once @ once_fns ls"
proof (induction call ls once w rule: call_listeners.induct)
  case (2 call l ls once w)
  obtain r w' where "call (el_listener l) w = (r, w')" by fastforce
  then show ?case using 2 by (cases r) (auto simp: once_fns_def)
qed (simp add: once_fns_def)

text \<open>
  A callback that records its invocation and otherwise does what it likes to the emitter, without throwing.
\<close>

definition logs_calls :: "('y, 'f, 'f list) ee_call \<Rightarrow> bool" where
  "logs_calls call \<longleftrightarrow> (\<forall>f w. fst (call f w) = None \<and> ew_state (snd (call f w)) = ew_state w @ [f])"

lemma call_listeners_log:
  assumes "logs_calls call"
  shows "fst (call_listeners call ls once w) = None \<and>
         ew_state (snd (snd (call_listeners call ls once w))) = ew_state w @ map el_listener ls"
proof (induction ls arbitrary: once w)
  case (Cons l ls)
  obtain w' where c: "call (el_listener l) w = (None, w')" "ew_state w' = ew_state w @ [el_listener l]"
    using assms unfolding logs_calls_def by (metis prod.collapse)
  then show ?case using Cons [of "if el_once l then once @ [el_listener l] else once" w'] by simp
qed simp

section \<open>Properties\<close>

text \<open>
  An emission calls exactly the listeners registered when it started, each once, in order, whatever the
  callbacks do to the emitter meanwhile, and answers whether there were any.
\<close>

theorem emit_calls_snapshot_in_order:
  assumes "logs_calls call"
  shows "fst (emitter_do_emit call key w) = Inr (has_listeners key (ew_emitter w)) \<and>
         ew_state (snd (snd (emitter_do_emit call key w))) =
           ew_state w @ map el_listener (listeners_of key (ew_emitter w))"
proof (cases "listeners_of key (ew_emitter w) = []")
  case True
  then show ?thesis
    by (simp add: emitter_do_emit_def has_listeners_def listeners_of_def split: option.splits)
next
  case False
  then have h: "has_listeners key (ew_emitter w)"
    by (auto simp: has_listeners_def listeners_of_def split: option.splits)
  obtain e once w' where c: "call_listeners call (listeners_of key (ew_emitter w)) [] w = (e, once, w')"
    by (metis prod_cases3)
  have "e = None" "ew_state w' = ew_state w @ map el_listener (listeners_of key (ew_emitter w))"
    using call_listeners_log [OF assms, of "listeners_of key (ew_emitter w)" "[]" w] c by simp_all
  then show ?thesis using False h c by (simp add: emitter_do_emit_def case_prod_beta)
qed

text \<open>A call that only records, for the witnesses.\<close>

definition plain_call :: "(nat, nat, nat list) ee_call" where
  "plain_call f w = (None, w\<lparr>ew_state := ew_state w @ [f]\<rparr>)"

lemma logs_plain_call: "logs_calls plain_call"
  by (simp add: logs_calls_def plain_call_def)

definition demo_world :: "nat event_listener list \<Rightarrow> (nat, nat, nat list) ee_world" where
  "demo_world ls = \<lparr>ew_emitter = \<lparr>ee_listeners = [EK_String ''a'' \<mapsto> ls], ee_max_listener = 10\<rparr>, ew_state = []\<rparr>"

theorem emit_calls_snapshot_in_order_witness:
  "ew_state (snd (snd (emitter_do_emit plain_call (EK_String ''a'')
     (demo_world [\<lparr>el_listener = 1, el_once = False\<rparr>, \<lparr>el_listener = 2, el_once = True\<rparr>])))) = [1, 2]"
  using emit_calls_snapshot_in_order [OF logs_plain_call, of "EK_String ''a''"
      "demo_world [\<lparr>el_listener = 1, el_once = False\<rparr>, \<lparr>el_listener = 2, el_once = True\<rparr>]"]
  by (simp add: demo_world_def listeners_of_def)

text \<open>
  After an emission whose callbacks leave the emitter alone, no function that was called as a
  once-listener is registered for the event any more and every other registration is kept, in order; when
  no function is registered both ways this keeps exactly the persistent listeners. Other events are not
  touched. A function registered both persistently and once loses its persistent registration too.
\<close>

theorem emit_removes_once_listeners:
  assumes "logs_calls call" "\<forall>f w. ew_emitter (snd (call f w)) = ew_emitter w"
    and "w' = snd (snd (emitter_do_emit call key w))" "ls = listeners_of key (ew_emitter w)"
  shows "listeners_of key (ew_emitter w') = filter (\<lambda>l. el_listener l \<notin> set (once_fns ls)) ls \<and>
         (\<forall>k. k \<noteq> key \<longrightarrow> listeners_of k (ew_emitter w') = listeners_of k (ew_emitter w)) \<and>
         ((\<forall>l \<in> set ls. \<forall>l' \<in> set ls. el_listener l = el_listener l' \<longrightarrow> el_once l = el_once l') \<longrightarrow>
            listeners_of key (ew_emitter w') = filter (\<lambda>l. \<not> el_once l) ls)"
proof (cases "ls = []")
  case True
  then show ?thesis using assms(3,4) by (simp add: emitter_do_emit_def once_fns_def)
next
  case False
  obtain e once w1 where c: "call_listeners call ls [] w = (e, once, w1)" by (metis prod_cases3)
  have e: "e = None" using call_listeners_log [OF assms(1), of ls "[]" w] c by simp
  have once: "once = once_fns ls" using call_listeners_once [of call ls "[]" w] c e by simp
  have keep: "ew_emitter (snd (snd (call_listeners call ks oc v))) = ew_emitter v" for ks oc v
  proof (induction ks arbitrary: oc v)
    case (Cons k ks)
    obtain r v' where r: "call (el_listener k) v = (r, v')" by fastforce
    have "ew_emitter v' = ew_emitter v" using assms(2) r by (metis snd_conv)
    then show ?case using Cons r by (cases r) simp_all
  qed simp
  have w1: "ew_emitter w1 = ew_emitter w" using keep [of ls "[]" w] c by simp
  have w': "ew_emitter w' = snd (cleanup_ok key once (ew_emitter w))"
    using False assms(3,4) c e w1 by (simp add: emitter_do_emit_def case_prod_beta)
  have 1: "listeners_of key (ew_emitter w') = filter (\<lambda>l. el_listener l \<notin> set (once_fns ls)) ls"
    using w' once assms(4) by (simp add: listeners_of_cleanup_ok retain_listeners_def)
  have 2: "\<forall>k. k \<noteq> key \<longrightarrow> listeners_of k (ew_emitter w') = listeners_of k (ew_emitter w)"
    by (simp add: w' cleanup_other(1))
  have 3: "filter (\<lambda>l. el_listener l \<notin> set (once_fns ls)) ls = filter (\<lambda>l. \<not> el_once l) ls"
    if u: "\<forall>l \<in> set ls. \<forall>l' \<in> set ls. el_listener l = el_listener l' \<longrightarrow> el_once l = el_once l'"
  proof (rule filter_cong [OF refl])
    fix l assume l: "l \<in> set ls"
    show "(el_listener l \<notin> set (once_fns ls)) = (\<not> el_once l)"
    proof
      assume n: "el_listener l \<notin> set (once_fns ls)"
      show "\<not> el_once l" using n l by (auto simp: once_fns_def)
    next
      assume n: "\<not> el_once l"
      show "el_listener l \<notin> set (once_fns ls)"
      proof
        assume "el_listener l \<in> set (once_fns ls)"
        then obtain l' where "l' \<in> set ls" "el_once l'" "el_listener l = el_listener l'"
          by (auto simp: once_fns_def)
        then show False using bspec [OF bspec [OF u l], of l'] n by simp
      qed
    qed
  qed
  show ?thesis
  proof (intro conjI impI)
    assume u: "\<forall>l \<in> set ls. \<forall>l' \<in> set ls. el_listener l = el_listener l' \<longrightarrow> el_once l = el_once l'"
    show "listeners_of key (ew_emitter w') = filter (\<lambda>l. \<not> el_once l) ls" by (rule trans [OF 1 3 [OF u]])
  qed (rule 1, rule 2)
qed

theorem emit_removes_once_listeners_witness:
  "listeners_of (EK_String ''a'') (ew_emitter (snd (snd (emitter_do_emit plain_call (EK_String ''a'')
     (demo_world [\<lparr>el_listener = 1, el_once = False\<rparr>, \<lparr>el_listener = 2, el_once = True\<rparr>,
                  \<lparr>el_listener = 2, el_once = False\<rparr>]))))) = [\<lparr>el_listener = 1, el_once = False\<rparr>]"
  using emit_removes_once_listeners [OF logs_plain_call _ refl refl, of "EK_String ''a''"
      "demo_world [\<lparr>el_listener = 1, el_once = False\<rparr>, \<lparr>el_listener = 2, el_once = True\<rparr>,
                   \<lparr>el_listener = 2, el_once = False\<rparr>]"]
  by (simp add: demo_world_def listeners_of_def plain_call_def once_fns_def)

text \<open>
  A listener that throws ends the emission with its error: the listeners before it and itself have been
  called, no later one is, and of the registrations only those of once-listeners that were reached are
  removed.
\<close>

theorem emit_stops_at_throw:
  assumes "\<forall>f w. call f w = (if f = bad then Some e else None, w\<lparr>ew_state := ew_state w @ [f]\<rparr>)"
    and "listeners_of key (ew_emitter w) = ls @ l # ls'" "el_listener l = bad" "\<forall>x \<in> set ls. el_listener x \<noteq> bad"
    and "emitter_do_emit call key w = (r, is_empty, w')"
  shows "r = Inl e \<and> ew_state w' = ew_state w @ map el_listener (ls @ [l]) \<and>
         listeners_of key (ew_emitter w') =
           filter (\<lambda>x. el_listener x \<notin> set (once_fns (ls @ [l]))) (ls @ l # ls')"
proof -
  have run: "call_listeners call (xs @ l # ls') oc v =
      (Some e, oc @ once_fns (xs @ [l]), v\<lparr>ew_state := ew_state v @ map el_listener (xs @ [l])\<rparr>)"
    if "\<forall>x \<in> set xs. el_listener x \<noteq> bad" for xs oc v
    using that
  proof (induction xs arbitrary: oc v)
    case Nil
    then show ?case using assms(1,3) by (simp add: once_fns_def)
  next
    case (Cons x xs)
    then show ?case using assms(1) by (simp add: once_fns_def)
  qed
  have ne: "ls @ l # ls' \<noteq> []" by simp
  have w': "r = Inl e" "ew_state w' = ew_state w @ map el_listener (ls @ [l])"
    "ew_emitter w' = snd (cleanup_error key (once_fns (ls @ [l])) (ew_emitter w))"
    using assms(5) assms(2) run [OF assms(4), of "[]" w]
    by (auto simp: emitter_do_emit_def case_prod_beta)
  then show ?thesis
    using assms(2) by (simp add: listeners_of_cleanup_error retain_listeners_def)
qed

definition throwing_call :: "(nat, nat, nat list) ee_call" where
  "throwing_call f w =
     (if f = 2 then Some (Host (he_new E_ERROR ''boom'')) else None, w\<lparr>ew_state := ew_state w @ [f]\<rparr>)"

theorem emit_stops_at_throw_witness:
  "ew_state (snd (snd (emitter_do_emit throwing_call (EK_String ''a'')
     (demo_world [\<lparr>el_listener = 1, el_once = True\<rparr>, \<lparr>el_listener = 2, el_once = False\<rparr>,
                  \<lparr>el_listener = 3, el_once = True\<rparr>])))) = [1, 2]"
proof -
  let ?w = "demo_world [\<lparr>el_listener = 1, el_once = True\<rparr>, \<lparr>el_listener = 2, el_once = False\<rparr>,
      \<lparr>el_listener = 3, el_once = True\<rparr>]"
  obtain r b w' where r: "emitter_do_emit throwing_call (EK_String ''a'') ?w = (r, b, w')" by (metis prod_cases3)
  show ?thesis
    using emit_stops_at_throw [where call = throwing_call and bad = 2 and w = ?w and ls = "[\<lparr>el_listener = 1, el_once = True\<rparr>]"
        and l = "\<lparr>el_listener = 2, el_once = False\<rparr>" and ls' = "[\<lparr>el_listener = 3, el_once = True\<rparr>]",
        OF _ _ _ _ r] r
    by (simp add: throwing_call_def demo_world_def listeners_of_def)
qed

text \<open>
  Adding a listener is refused exactly when the event already has the maximal number of them, and
  otherwise puts it at the end, or at the front when prepending, counts one more, reports whether the event is
  new, and leaves every other event alone; removing a function that was not registered before undoes it.
\<close>

theorem add_listener_exact:
  assumes "length (listeners_of key ee) < 2 ^ 32"
  shows "case add_listener key f prepend once ee of
      Inl e \<Rightarrow> unat (ee_max_listener ee) \<le> length (listeners_of key ee) \<and> error_code e = Some E_INVALID_STATE
    | Inr (is_new, ee') \<Rightarrow>
        length (listeners_of key ee') \<le> unat (get_max_listeners ee') \<and>
        listeners_of key ee' =
          (if prepend then \<lparr>el_listener = f, el_once = once\<rparr> # listeners_of key ee
           else listeners_of key ee @ [\<lparr>el_listener = f, el_once = once\<rparr>]) \<and>
        (\<forall>k. k \<noteq> key \<longrightarrow> listeners_of k ee' = listeners_of k ee) \<and>
        listener_count key None ee' = listener_count key None ee + 1 \<and>
        is_new = (key \<notin> event_names ee) \<and> event_names ee' = insert key (event_names ee) \<and>
        (f \<notin> el_listener ` set (listeners_of key ee) \<longrightarrow>
           listeners_of key (remove_listener key f ee') = listeners_of key ee)"
proof -
  have "ee_max_listener ee \<le> of_nat (length (listeners_of key ee)) \<longleftrightarrow>
      unat (ee_max_listener ee) \<le> length (listeners_of key ee)"
    using assms by (simp add: word_le_nat_alt unat_of_nat)
  moreover have "filter (\<lambda>l. el_listener l \<noteq> f) (listeners_of key ee) = listeners_of key ee"
    if "f \<notin> el_listener ` set (listeners_of key ee)"
    using that by (auto simp: filter_id_conv)
  moreover have "listener_count key None ee = of_nat (length (listeners_of key ee))"
    by (simp add: listener_count_def listeners_of_def split: option.splits)
  ultimately show ?thesis
    by (auto simp: add_listener_def Let_def listeners_of_remove listener_count_def event_names_def
        get_max_listeners_def overflow_error_def he_new_def)
qed

theorem add_listener_exact_witness:
  "\<exists>ee. add_listener (EK_String ''a'') 5 False True (ew_emitter (demo_world [])) = Inr (False, ee) \<and>
     listener_count (EK_String ''a'') None ee = 1"
proof -
  obtain ee where a: "add_listener (EK_String ''a'') 5 False True (ew_emitter (demo_world [])) = Inr (False, ee)"
    by (simp add: add_listener_def demo_world_def listeners_of_def)
  then show ?thesis
    using add_listener_exact [where key = "EK_String ''a''" and ee = "ew_emitter (demo_world [])" and f = 5
        and prepend = False and once = True]
    by (simp add: demo_world_def listeners_of_def listener_count_def)
qed

text \<open>A callback that emits the same event again, some levels deep.\<close>

fun reentrant_call :: "nat \<Rightarrow> (nat, nat, nat list) ee_call" where
  "reentrant_call 0 f w = plain_call f w"
| "reentrant_call (Suc n) f w =
     (case emitter_do_emit (reentrant_call n) (EK_String ''a'') (w\<lparr>ew_state := ew_state w @ [f]\<rparr>) of
        (Inl e, _, w') \<Rightarrow> (Some e, w')
      | (Inr _, _, w') \<Rightarrow> (None, w'))"

lemma reentrant_emit:
  assumes "listeners_of (EK_String ''a'') (ew_emitter w) = [\<lparr>el_listener = 1, el_once = True\<rparr>]"
  shows "fst (emitter_do_emit (reentrant_call n) (EK_String ''a'') w) = Inr True \<and>
    ew_state (snd (snd (emitter_do_emit (reentrant_call n) (EK_String ''a'') w))) = ew_state w @ replicate (Suc n) 1"
  using assms
proof (induction n arbitrary: w)
  case 0
  then show ?case by (simp add: emitter_do_emit_def plain_call_def case_prod_beta)
next
  case (Suc n)
  let ?v = "w\<lparr>ew_state := ew_state w @ [1]\<rparr>"
  obtain r b v where v: "emitter_do_emit (reentrant_call n) (EK_String ''a'') ?v = (r, b, v)"
    by (metis prod_cases3)
  have "r = Inr True" "ew_state v = ew_state w @ [1] @ replicate (Suc n) 1"
    using Suc.IH [of ?v] Suc.prems v by simp_all
  then have c: "reentrant_call (Suc n) 1 w = (None, v)" "ew_state v = ew_state w @ replicate (Suc (Suc n)) 1"
    using v by simp_all
  then have "call_listeners (reentrant_call (Suc n)) [\<lparr>el_listener = 1, el_once = True\<rparr>] [] w = (None, [1], v)"
    by (simp del: reentrant_call.simps)
  then show ?case
    using Suc.prems c(2) by (simp add: emitter_do_emit_def case_prod_beta del: reentrant_call.simps call_listeners.simps)
qed

text \<open>
  A once-listener is not protected against re-entrance: it is only removed after the emission, so a
  once-listener whose callback emits the same event \<open>n\<close> levels deep is called \<open>n + 1\<close> times.
\<close>

theorem once_listener_reentrance:
  "ew_state (snd (snd (emitter_do_emit (reentrant_call n) (EK_String ''a'')
     (demo_world [\<lparr>el_listener = 1, el_once = True\<rparr>])))) = replicate (Suc n) 1"
  using reentrant_emit [of "demo_world [\<lparr>el_listener = 1, el_once = True\<rparr>]" n]
  by (simp add: demo_world_def listeners_of_def)

text \<open>
  Removing the last listener of an event leaves the event behind: it has no listeners, yet it is still
  among the event names, and the next listener added for it is not reported as the first of a new event, so
  the owner's hook is not told.
\<close>

theorem removed_event_still_named:
  assumes "listeners_of key ee = [\<lparr>el_listener = f, el_once = once\<rparr>]" "0 < ee_max_listener ee"
  shows "\<not> has_listeners key (remove_listener key f ee) \<and> key \<in> event_names (remove_listener key f ee) \<and>
         (\<exists>ee'. add_listener key g prepend once' (remove_listener key f ee) = Inr (False, ee'))"
proof -
  have k: "ee_listeners ee key = Some [\<lparr>el_listener = f, el_once = once\<rparr>]"
    using assms(1) by (simp add: listeners_of_def split: option.splits)
  then show ?thesis
    using assms(2)
    by (auto simp: remove_listener_def has_listeners_def event_names_def add_listener_def listeners_of_def
        word_less_nat_alt word_le_nat_alt Let_def)
qed

theorem removed_event_still_named_witness:
  "EK_String ''a'' \<in> event_names (remove_listener (EK_String ''a'') 1
     (ew_emitter (demo_world [\<lparr>el_listener = 1, el_once = False\<rparr>])))"
  using removed_event_still_named [of "EK_String ''a''"
      "ew_emitter (demo_world [\<lparr>el_listener = 1, el_once = False\<rparr>])" 1 False]
  by (simp add: demo_world_def listeners_of_def)

end
