(* ===== verification/Abort.thy ===== *)
theory Abort
  imports Event_Emitter
begin

text \<open>
  The abort module, \<^verbatim>\<open>modules/rong_abort/src\<close>: signals, the watch channel their Rust receivers wait on, controllers,
  and the static constructors \<^verbatim>\<open>abort\<close>, \<^verbatim>\<open>timeout\<close> and \<^verbatim>\<open>any\<close>, over the event emitter. A signal is known by its
  number. Listeners are functions of the program, whose calls are an argument of the model and may do
  anything to the signals, and the notifiers that \<^verbatim>\<open>any\<close> registers.
\<close>

section \<open>Signals\<close>

text \<open>A notifier has an identity of its own and the signal it aborts.\<close>

datatype 'f abort_listener = L_User 'f | L_Link nat nat

text \<open>\<^const>\<open>None\<close> is the value undefined. The watch channel is its current value and its number of receivers.\<close>

record ('v, 'y, 'f) abort_signal =
  sig_aborted :: bool
  sig_reason :: "'v option"
  sig_emitter :: "('y, 'f abort_listener) event_emitter"
  sig_value :: "'v option"
  sig_receivers :: nat

text \<open>Notifiers are one-shot functions: \<open>aw_spent\<close> are those already called. \<open>aw_stuck\<close> says that a cascade of notifiers
  was cut off by the bound on its depth.\<close>

record ('v, 'y, 'f, 's) abort_world =
  aw_signals :: "('v, 'y, 'f) abort_signal list"
  aw_next_link :: nat
  aw_spent :: "nat list"
  aw_stuck :: bool
  aw_rest :: 's

definition signal_new :: "('v, 'y, 'f) abort_signal" where
  "signal_new = \<lparr>sig_aborted = False, sig_reason = None, sig_emitter = ee_default, sig_value = None, sig_receivers = 0\<rparr>"

definition upd_signal ::
  "nat \<Rightarrow> (('v, 'y, 'f) abort_signal \<Rightarrow> ('v, 'y, 'f) abort_signal) \<Rightarrow>
     ('v, 'y, 'f, 's) abort_world \<Rightarrow> ('v, 'y, 'f, 's) abort_world" where
  "upd_signal i g w = w\<lparr>aw_signals := (aw_signals w)[i := g (aw_signals w ! i)]\<rparr>"

definition instance_signal :: "('v, 'y, 'f) abort_signal \<Rightarrow> ('v, 'y, 'f, 's) abort_world \<Rightarrow> nat \<times> ('v, 'y, 'f, 's) abort_world" where
  "instance_signal s w = (length (aw_signals w), w\<lparr>aw_signals := aw_signals w @ [s]\<rparr>)"

text \<open>A watch channel without receivers refuses a value; subscribing to an aborted signal sends its reason again.\<close>

definition watch_send :: "'v option \<Rightarrow> ('v, 'y, 'f) abort_signal \<Rightarrow> ('v, 'y, 'f) abort_signal" where
  "watch_send v s = (if sig_receivers s > 0 then s\<lparr>sig_value := v\<rparr> else s)"

definition subscribe :: "('v, 'y, 'f) abort_signal \<Rightarrow> ('v, 'y, 'f) abort_signal" where
  "subscribe s =
     (let s = s\<lparr>sig_receivers := Suc (sig_receivers s)\<rparr> in
      if sig_aborted s then watch_send (sig_reason s) s else s)"

definition drop_receiver :: "('v, 'y, 'f) abort_signal \<Rightarrow> ('v, 'y, 'f) abort_signal" where
  "drop_receiver s = s\<lparr>sig_receivers := sig_receivers s - 1\<rparr>"

definition notify_abort :: "'v \<Rightarrow> ('v, 'y, 'f) abort_signal \<Rightarrow> ('v, 'y, 'f) abort_signal" where
  "notify_abort abort s = (if sig_receivers s > 0 then watch_send (Some abort) s else s)"

text \<open>What \<^verbatim>\<open>recv\<close> returns at once; \<^const>\<open>None\<close>: it waits for the channel to change.\<close>

definition signal_recv :: "('v, 'y, 'f) abort_signal \<Rightarrow> 'v option" where
  "signal_recv s = sig_value s"

definition aborted :: "('v, 'y, 'f) abort_signal \<Rightarrow> bool" where
  "aborted s = sig_aborted s"

definition get_reason :: "('v, 'y, 'f) abort_signal \<Rightarrow> 'v option" where
  "get_reason s = sig_reason s"

definition set_reason :: "'v option \<Rightarrow> ('v, 'y, 'f) abort_signal \<Rightarrow> ('v, 'y, 'f) abort_signal" where
  "set_reason r s = s\<lparr>sig_reason := r\<rparr>"

text \<open>The value thrown, if one is.\<close>

definition throw_if_aborted :: "('v, 'y, 'f) abort_signal \<Rightarrow> 'v option" where
  "throw_if_aborted s = (if sig_aborted s \<and> sig_reason s \<noteq> None then sig_reason s else None)"

definition get_on_abort :: "('v, 'y, 'f) abort_signal \<Rightarrow> 'f abort_listener option" where
  "get_on_abort s = get_listener (EK_String ''abort'') (sig_emitter s)"

section \<open>Listeners and emission\<close>

text \<open>The class of signals keeps the emitter's default hook, which does nothing.\<close>

definition no_hook :: "('y, 'f, 's) ee_hook" where
  "no_hook key added w = (None, w)"

text \<open>The emitter's operations on one signal: the emitter is taken out of the signal for the emitter's code and put back
  whenever a listener runs, and at the end.\<close>

definition focus :: "nat \<Rightarrow> ('v, 'y, 'f, 's) abort_world \<Rightarrow>
    ('y, 'f abort_listener, ('v, 'y, 'f, 's) abort_world) ee_world" where
  "focus i w = \<lparr>ew_emitter = sig_emitter (aw_signals w ! i), ew_state = w\<rparr>"

definition unfocus :: "nat \<Rightarrow> ('y, 'f abort_listener, ('v, 'y, 'f, 's) abort_world) ee_world \<Rightarrow>
    ('v, 'y, 'f, 's) abort_world" where
  "unfocus i x = upd_signal i (\<lambda>s. s\<lparr>sig_emitter := ew_emitter x\<rparr>) (ew_state x)"

definition add_abort_listener ::
  "nat \<Rightarrow> 'f abort_listener \<Rightarrow> bool \<Rightarrow> ('v, 'y, 'f, 's) abort_world \<Rightarrow> unit js_result \<times> ('v, 'y, 'f, 's) abort_world" where
  "add_abort_listener i l once w =
     (case add_event_listener no_hook (EK_String ''abort'') l False once (focus i w) of
        (r, x) \<Rightarrow> (r, unfocus i x))"

definition set_on_abort ::
  "nat \<Rightarrow> 'f \<Rightarrow> ('v, 'y, 'f, 's) abort_world \<Rightarrow> unit js_result \<times> ('v, 'y, 'f, 's) abort_world" where
  "set_on_abort i f w = add_abort_listener i (L_User f) False w"

definition call_in :: "nat \<Rightarrow> ('f abort_listener \<Rightarrow> ('v, 'y, 'f, 's) abort_world \<Rightarrow>
    rong_js_error option \<times> ('v, 'y, 'f, 's) abort_world) \<Rightarrow>
    ('y, 'f abort_listener, ('v, 'y, 'f, 's) abort_world) ee_call" where
  "call_in i call l x = (case call l (unfocus i x) of (e, w) \<Rightarrow> (e, focus i w))"

definition emit_abort :: "nat \<Rightarrow> ('f abort_listener \<Rightarrow> ('v, 'y, 'f, 's) abort_world \<Rightarrow>
    rong_js_error option \<times> ('v, 'y, 'f, 's) abort_world) \<Rightarrow> ('v, 'y, 'f, 's) abort_world \<Rightarrow>
    unit js_result \<times> ('v, 'y, 'f, 's) abort_world" where
  "emit_abort i call w =
     (case do_emit (call_in i call) no_hook (EK_String ''abort'') (focus i w) of
        (Inl e, x) \<Rightarrow> (Inl e, unfocus i x)
      | (Inr _, x) \<Rightarrow> (Inr (), unfocus i x))"

definition get_reason_or_dom_exception :: "(string \<Rightarrow> 'v js_result) \<Rightarrow> 'v option \<Rightarrow> string \<Rightarrow> 'v js_result" where
  "get_reason_or_dom_exception create reason name = (case reason of Some r \<Rightarrow> Inr r | None \<Rightarrow> create name)"

text \<open>The state a signal has before its listeners are called.\<close>

definition mark_signal_aborted :: "'v \<Rightarrow> ('v, 'y, 'f) abort_signal \<Rightarrow> ('v, 'y, 'f) abort_signal" where
  "mark_signal_aborted reason s = notify_abort reason (s\<lparr>sig_aborted := True, sig_reason := Some reason\<rparr>)"

text \<open>The notifier that \<^verbatim>\<open>any\<close> registers at signal \<open>i\<close>, with the broadcast it makes as an argument; then the call of any
  listener of that signal.\<close>

definition notifier ::
  "(nat \<Rightarrow> ('v, 'y, 'f, 's) abort_world \<Rightarrow> unit js_result \<times> ('v, 'y, 'f, 's) abort_world) \<Rightarrow> nat \<Rightarrow> nat \<Rightarrow> nat \<Rightarrow>
     ('v, 'y, 'f, 's) abort_world \<Rightarrow> rong_js_error option \<times> ('v, 'y, 'f, 's) abort_world" where
  "notifier broadcast i k j w =
     (if k \<in> set (aw_spent w) then (Some (Host once_fn_called), w)
      else
        (let reason = get_reason (aw_signals w ! i);
             w = upd_signal j (\<lambda>s. s\<lparr>sig_aborted := True, sig_reason := reason\<rparr>) (w\<lparr>aw_spent := k # aw_spent w\<rparr>)
         in case broadcast j w of
              (Inl e, w) \<Rightarrow> (Some e, w)
            | (Inr _, w) \<Rightarrow> (None, w)))"

definition listener_call ::
  "(nat \<Rightarrow> ('v, 'y, 'f, 's) abort_world \<Rightarrow> unit js_result \<times> ('v, 'y, 'f, 's) abort_world) \<Rightarrow>
     ('f \<Rightarrow> ('v, 'y, 'f, 's) abort_world \<Rightarrow> rong_js_error option \<times> ('v, 'y, 'f, 's) abort_world) \<Rightarrow> nat \<Rightarrow>
     'f abort_listener \<Rightarrow> ('v, 'y, 'f, 's) abort_world \<Rightarrow> rong_js_error option \<times> ('v, 'y, 'f, 's) abort_world" where
  "listener_call broadcast ucall i l w =
     (case l of L_User f \<Rightarrow> ucall f w | L_Link k j \<Rightarrow> notifier broadcast i k j w)"

text \<open>The broadcast; its first argument bounds the depth of a cascade of notifiers.\<close>

primrec broadcast_abort ::
  "nat \<Rightarrow> (string \<Rightarrow> 'v js_result) \<Rightarrow> ('f \<Rightarrow> ('v, 'y, 'f, 's) abort_world \<Rightarrow> rong_js_error option \<times> ('v, 'y, 'f, 's) abort_world) \<Rightarrow>
     nat \<Rightarrow> ('v, 'y, 'f, 's) abort_world \<Rightarrow> unit js_result \<times> ('v, 'y, 'f, 's) abort_world" where
  "broadcast_abort 0 create ucall i w = (Inr (), w\<lparr>aw_stuck := True\<rparr>)"
| "broadcast_abort (Suc n) create ucall i w =
     (case get_reason_or_dom_exception create (sig_reason (aw_signals w ! i)) ''AbortError'' of
        Inl e \<Rightarrow> (Inl e, w)
      | Inr reason \<Rightarrow>
          emit_abort i (listener_call (broadcast_abort n create ucall) ucall i) (upd_signal i (mark_signal_aborted reason) w))"

section \<open>Constructors and controllers\<close>

definition static_abort :: "'v option \<Rightarrow> ('v, 'y, 'f) abort_signal" where
  "static_abort reason = (set_reason reason signal_new)\<lparr>sig_aborted := True\<rparr>"

text \<open>The signal of \<^verbatim>\<open>timeout\<close>; after the time its task broadcasts and drops the result.\<close>

definition static_timeout ::
  "(string \<Rightarrow> 'v js_result) \<Rightarrow> ('v, 'y, 'f, 's) abort_world \<Rightarrow> nat js_result \<times> ('v, 'y, 'f, 's) abort_world" where
  "static_timeout create w =
     (case get_reason_or_dom_exception create None ''TimeoutError'' of
        Inl e \<Rightarrow> (Inl e, w)
      | Inr err \<Rightarrow> (case instance_signal (set_reason (Some err) signal_new) w of (i, w') \<Rightarrow> (Inr i, w')))"

definition timeout_elapsed ::
  "nat \<Rightarrow> (string \<Rightarrow> 'v js_result) \<Rightarrow> ('f \<Rightarrow> ('v, 'y, 'f, 's) abort_world \<Rightarrow> rong_js_error option \<times> ('v, 'y, 'f, 's) abort_world) \<Rightarrow>
     nat \<Rightarrow> ('v, 'y, 'f, 's) abort_world \<Rightarrow> ('v, 'y, 'f, 's) abort_world" where
  "timeout_elapsed n create ucall i w = snd (broadcast_abort n create ucall i w)"

text \<open>Registration of the notifiers of \<^verbatim>\<open>any\<close>, one for each input signal.\<close>

fun link_all :: "nat \<Rightarrow> nat list \<Rightarrow> ('v, 'y, 'f, 's) abort_world \<Rightarrow> unit js_result \<times> ('v, 'y, 'f, 's) abort_world" where
  "link_all j [] w = (Inr (), w)"
| "link_all j (i # is) w =
     (let k = aw_next_link w in
      case add_abort_listener i (L_Link k j) True (w\<lparr>aw_next_link := Suc k\<rparr>) of
        (Inl e, w') \<Rightarrow> (Inl e, w')
      | (Inr _, w') \<Rightarrow> link_all j is w')"

definition any_signal :: "nat list \<Rightarrow> ('v, 'y, 'f, 's) abort_world \<Rightarrow> nat js_result \<times> ('v, 'y, 'f, 's) abort_world" where
  "any_signal signals w =
     (case List.find (\<lambda>i. aborted (aw_signals w ! i)) signals of
        Some i \<Rightarrow>
          (case instance_signal (signal_new\<lparr>sig_aborted := True, sig_reason := get_reason (aw_signals w ! i)\<rparr>) w of
             (j, w') \<Rightarrow> (Inr j, w'))
      | None \<Rightarrow>
          (case instance_signal signal_new w of
             (j, w') \<Rightarrow>
               (case link_all j signals w' of
                  (Inl e, w'') \<Rightarrow> (Inl e, w'')
                | (Inr _, w'') \<Rightarrow> (Inr j, w''))))"

text \<open>A controller is the number of its signal.\<close>

definition controller_new :: "('v, 'y, 'f, 's) abort_world \<Rightarrow> nat \<times> ('v, 'y, 'f, 's) abort_world" where
  "controller_new w = instance_signal signal_new w"

definition controller_abort ::
  "nat \<Rightarrow> (string \<Rightarrow> 'v js_result) \<Rightarrow> ('f \<Rightarrow> ('v, 'y, 'f, 's) abort_world \<Rightarrow> rong_js_error option \<times> ('v, 'y, 'f, 's) abort_world) \<Rightarrow>
     nat \<Rightarrow> 'v option \<Rightarrow> ('v, 'y, 'f, 's) abort_world \<Rightarrow> unit js_result \<times> ('v, 'y, 'f, 's) abort_world" where
  "controller_abort n create ucall i reason w =
     (if aborted (aw_signals w ! i) then (Inr (), w)
      else broadcast_abort n create ucall i (upd_signal i (set_reason reason) w))"

section \<open>What an emission keeps\<close>

text \<open>A relation between worlds that is a preorder and does not look at the emitters of the signals.\<close>

definition emitter_blind :: "(('v, 'y, 'f, 's) abort_world \<Rightarrow> ('v, 'y, 'f, 's) abort_world \<Rightarrow> bool) \<Rightarrow> bool" where
  "emitter_blind R \<longleftrightarrow>
     (\<forall>w. R w w) \<and> (\<forall>u v w. R u v \<longrightarrow> R v w \<longrightarrow> R u w) \<and>
     (\<forall>w i e. R w (upd_signal i (\<lambda>s. s\<lparr>sig_emitter := e\<rparr>) w))"

definition call_rel :: "(('v, 'y, 'f, 's) abort_world \<Rightarrow> ('v, 'y, 'f, 's) abort_world \<Rightarrow> bool) \<Rightarrow>
    ('l \<Rightarrow> ('v, 'y, 'f, 's) abort_world \<Rightarrow> rong_js_error option \<times> ('v, 'y, 'f, 's) abort_world) \<Rightarrow> bool" where
  "call_rel R call \<longleftrightarrow> (\<forall>l w. R w (snd (call l w)))"

lemma emitter_blindD:
  assumes "emitter_blind R"
  shows "R w w" "R u v \<Longrightarrow> R v w \<Longrightarrow> R u w" "R w (upd_signal i (\<lambda>s. s\<lparr>sig_emitter := e\<rparr>) w)"
  using assms unfolding emitter_blind_def by blast+

lemma focus_state [simp]: "ew_state (focus i w) = w"
  by (simp add: focus_def)

lemma blind_unfocus: "emitter_blind R \<Longrightarrow> R (ew_state x) (unfocus i x)"
  unfolding unfocus_def by (rule emitter_blindD(3))

lemma blind_call:
  assumes "emitter_blind R" "call_rel R call"
  shows "R (ew_state x) (ew_state (snd (call_in i call l x)))"
proof -
  have "R (unfocus i x) (snd (call l (unfocus i x)))" using assms(2) by (simp add: call_rel_def)
  then have "R (ew_state x) (snd (call l (unfocus i x)))"
    using emitter_blindD(2) [OF assms(1) blind_unfocus [OF assms(1)]] by blast
  then show ?thesis by (simp add: call_in_def case_prod_unfold)
qed

lemma blind_call_listeners:
  assumes b: "emitter_blind R" and c: "call_rel R call"
  shows "call_listeners (call_in i call) ls once x = (e, once', x') \<Longrightarrow> R (ew_state x) (ew_state x')"
proof (induction ls arbitrary: once x)
  case Nil
  then show ?case using emitter_blindD(1) [OF b] by simp
next
  case (Cons l ls)
  obtain r y where y: "call_in i call (el_listener l) x = (r, y)" by (cases "call_in i call (el_listener l) x")
  have xy: "R (ew_state x) (ew_state y)" using blind_call [OF b c, where x = x and i = i and l = "el_listener l"] y by simp
  show ?case
  proof (cases r)
    case None
    then have "call_listeners (call_in i call) ls (if el_once l then once @ [el_listener l] else once) y = (e, once', x')"
      using Cons.prems y by simp
    from Cons.IH [OF this] show ?thesis using emitter_blindD(2) [OF b xy] by blast
  next
    case (Some err)
    then show ?thesis using Cons.prems y xy by auto
  qed
qed

lemma call_listeners_reaches:
  assumes b: "emitter_blind R" and c: "call_rel R call"
  shows "call_listeners (call_in i call) ls once x = (None, once', x') \<Longrightarrow> l \<in> set ls \<Longrightarrow>
    \<exists>y z. R (ew_state x) (ew_state y) \<and> call_in i call (el_listener l) y = (None, z) \<and> R (ew_state z) (ew_state x')"
proof (induction ls arbitrary: once x)
  case (Cons m ls)
  obtain y where y: "call_in i call (el_listener m) x = (None, y)"
    "call_listeners (call_in i call) ls (if el_once m then once @ [el_listener m] else once) y = (None, once', x')"
    using Cons.prems(1) by (auto simp: Let_def split: prod.splits option.splits)
  have xy: "R (ew_state x) (ew_state y)" using blind_call [OF b c, where x = x and i = i and l = "el_listener m"] y(1) by simp
  show ?case
  proof (cases "l = m")
    case True
    then show ?thesis using y blind_call_listeners [OF b c y(2)] emitter_blindD(1) [OF b] by blast
  next
    case False
    then obtain u z where "R (ew_state y) (ew_state u)" "call_in i call (el_listener l) u = (None, z)" "R (ew_state z) (ew_state x')"
      using Cons.IH [OF y(2)] Cons.prems(2) by auto
    then show ?thesis using emitter_blindD(2) [OF b xy] by blast
  qed
qed simp

lemma do_emit_no_hook: "do_emit call no_hook k x = (case emitter_do_emit call k x of (has, _, x') \<Rightarrow> (has, x'))"
  by (simp add: do_emit_def no_hook_def split: prod.splits)

lemma emit_abort_rel:
  assumes b: "emitter_blind R" and c: "call_rel R call"
  shows "R w (snd (emit_abort i call w))"
proof -
  let ?x = "focus i w" and ?k = "EK_String ''abort''"
  obtain has emp x' where e: "emitter_do_emit (call_in i call) ?k ?x = (has, emp, x')"
    by (cases "emitter_do_emit (call_in i call) ?k ?x")
  have "R w (ew_state x')"
  proof (cases "listeners_of ?k (ew_emitter ?x) = []")
    case True
    then have "x' = ?x" using e by (auto simp: emitter_do_emit_def)
    then show ?thesis using emitter_blindD(1) [OF b] by simp
  next
    case False
    obtain r o' y where y: "call_listeners (call_in i call) (listeners_of ?k (ew_emitter ?x)) [] ?x = (r, o', y)"
      by (cases "call_listeners (call_in i call) (listeners_of ?k (ew_emitter ?x)) [] ?x")
    have "ew_state x' = ew_state y"
      using e y False by (auto simp: emitter_do_emit_def split: option.splits prod.splits)
    then show ?thesis using blind_call_listeners [OF b c y] by simp
  qed
  moreover have "snd (emit_abort i call w) = unfocus i x'"
    using e by (auto simp: emit_abort_def do_emit_no_hook split: sum.splits)
  ultimately show ?thesis using emitter_blindD(2) [OF b _ blind_unfocus [OF b]] by metis
qed

lemma emit_abort_reaches:
  assumes b: "emitter_blind R" and c: "call_rel R call"
    and ok: "emit_abort i call w = (Inr (), w')" and l: "l \<in> set (listeners_of (EK_String ''abort'') (sig_emitter (aw_signals w ! i)))"
  shows "\<exists>u v. R w u \<and> call (el_listener l) u = (None, v) \<and> R v w'"
proof -
  let ?x = "focus i w" and ?k = "EK_String ''abort''" and ?ls = "listeners_of (EK_String ''abort'') (sig_emitter (aw_signals w ! i))"
  have ne: "listeners_of ?k (ew_emitter ?x) = ?ls" "?ls \<noteq> []" using l by (auto simp: focus_def)
  obtain r o' y where y: "call_listeners (call_in i call) ?ls [] ?x = (r, o', y)"
    by (cases "call_listeners (call_in i call) ?ls [] ?x")
  obtain has x' where x': "do_emit (call_in i call) no_hook ?k ?x = (has, x')" "w' = unfocus i x'" "\<exists>q. has = Inr q"
    using ok by (cases "do_emit (call_in i call) no_hook ?k ?x") (auto simp: emit_abort_def split: sum.splits)
  then have r: "r = None" "ew_state x' = ew_state y"
    using y ne by (auto simp: do_emit_no_hook emitter_do_emit_def split: option.splits prod.splits)
  obtain s t where s: "R (ew_state ?x) (ew_state s)" "call_in i call (el_listener l) s = (None, t)" "R (ew_state t) (ew_state y)"
    using call_listeners_reaches [OF b c y [unfolded r(1)] l] by blast
  then obtain v where v: "call (el_listener l) (unfocus i s) = (None, v)" "t = focus i v"
    by (auto simp: call_in_def split: prod.splits)
  have "R w (unfocus i s)" using s(1) emitter_blindD(2) [OF b _ blind_unfocus [OF b]] by simp
  moreover have "R v w'"
    using s(3) v(2) r(2) x'(2) emitter_blindD(2) [OF b _ blind_unfocus [OF b, of x' i]] by simp
  ultimately show ?thesis using v(1) by blast
qed

section \<open>Aborting\<close>

text \<open>What the broadcast itself does to the world, listeners apart.\<close>

definition broadcast_moves :: "(('v, 'y, 'f, 's) abort_world \<Rightarrow> ('v, 'y, 'f, 's) abort_world \<Rightarrow> bool) \<Rightarrow> bool" where
  "broadcast_moves R \<longleftrightarrow>
     (\<forall>w. R w (w\<lparr>aw_stuck := True\<rparr>)) \<and> (\<forall>w ks. R w (w\<lparr>aw_spent := ks\<rparr>)) \<and>
     (\<forall>w j r. R w (upd_signal j (\<lambda>s. s\<lparr>sig_aborted := True, sig_reason := r\<rparr>) w)) \<and>
     (\<forall>w j r. R w (upd_signal j (mark_signal_aborted r) w))"

lemma listener_call_rel:
  assumes b: "emitter_blind R" and m: "broadcast_moves R" and u: "call_rel R ucall" and r: "\<And>j w. R w (snd (broadcast j w))"
  shows "call_rel R (listener_call broadcast ucall i)"
proof -
  have "R w (snd (notifier broadcast i k j w))" for k j w
  proof (cases "k \<in> set (aw_spent w)")
    case True
    then show ?thesis using emitter_blindD(1) [OF b] by (simp add: notifier_def)
  next
    case False
    let ?u = "w\<lparr>aw_spent := k # aw_spent w\<rparr>"
    let ?v = "upd_signal j (\<lambda>s. s\<lparr>sig_aborted := True, sig_reason := get_reason (aw_signals w ! i)\<rparr>) ?u"
    have "R w ?u" "R ?u ?v" "R ?v (snd (broadcast j ?v))" using m r by (auto simp: broadcast_moves_def)
    then have "R w (snd (broadcast j ?v))" using emitter_blindD(2) [OF b] by blast
    moreover have "snd (notifier broadcast i k j w) = snd (broadcast j ?v)"
      using False by (simp add: notifier_def Let_def split: prod.splits sum.splits)
    ultimately show ?thesis by simp
  qed
  then show ?thesis using u by (auto simp: call_rel_def listener_call_def split: abort_listener.splits)
qed

lemma broadcast_rel:
  assumes b: "emitter_blind R" and m: "broadcast_moves R" and u: "call_rel R ucall"
  shows "R w (snd (broadcast_abort n create ucall i w))"
proof (induction n arbitrary: i w)
  case 0
  then show ?case using m by (simp add: broadcast_moves_def)
next
  case (Suc n)
  have c: "call_rel R (listener_call (broadcast_abort n create ucall) ucall i)" for i
    by (rule listener_call_rel [OF b m u Suc.IH])
  show ?case
  proof (cases "get_reason_or_dom_exception create (sig_reason (aw_signals w ! i)) ''AbortError''")
    case (Inl e)
    then show ?thesis using emitter_blindD(1) [OF b] by simp
  next
    case (Inr r)
    have "R w (upd_signal i (mark_signal_aborted r) w)" using m by (simp add: broadcast_moves_def)
    then show ?thesis using Inr emitter_blindD(2) [OF b _ emit_abort_rel [OF b c]] by simp
  qed
qed

text \<open>An abort is permanent.\<close>

definition abort_evolves :: "('v, 'y, 'f, 's) abort_world \<Rightarrow> ('v, 'y, 'f, 's) abort_world \<Rightarrow> bool" where
  "abort_evolves w w' \<longleftrightarrow>
     length (aw_signals w) \<le> length (aw_signals w') \<and>
     (\<forall>i < length (aw_signals w). sig_aborted (aw_signals w ! i) \<longrightarrow> sig_aborted (aw_signals w' ! i))"

lemma upd_signal_nth:
  "i < length (aw_signals w) \<Longrightarrow> aw_signals (upd_signal j g w) ! i = (if i = j then g (aw_signals w ! i) else aw_signals w ! i)"
  by (simp add: upd_signal_def)

lemma upd_signal_length [simp]: "length (aw_signals (upd_signal j g w)) = length (aw_signals w)"
  by (simp add: upd_signal_def)

lemma mark_aborted_simps [simp]:
  "sig_aborted (mark_signal_aborted r s)" "sig_reason (mark_signal_aborted r s) = Some r" "sig_receivers (mark_signal_aborted r s) = sig_receivers s"
  "0 < sig_receivers s \<Longrightarrow> sig_value (mark_signal_aborted r s) = Some r" "sig_emitter (mark_signal_aborted r s) = sig_emitter s"
  by (simp_all add: mark_signal_aborted_def notify_abort_def watch_send_def signal_recv_def)

lemma evolves_blind: "emitter_blind abort_evolves" "broadcast_moves abort_evolves"
  by (auto simp: emitter_blind_def broadcast_moves_def abort_evolves_def upd_signal_nth)

text \<open>
  Before any listener is called, the signal of the controller is aborted with the given reason or else an AbortError, and
  everything that waits on the signal has that reason to return; the rest of the call is the announcement to the
  listeners.
\<close>

lemma abort_wakes_before_listeners:
  assumes "i < length (aw_signals w)" "create ''AbortError'' = Inr err" "\<not> aborted (aw_signals w ! i)"
  shows "\<exists>w'. controller_abort (Suc n) create ucall i reason w =
      emit_abort i (listener_call (broadcast_abort n create ucall) ucall i) w' \<and>
    sig_aborted (aw_signals w' ! i) \<and> sig_reason (aw_signals w' ! i) = Some (case reason of Some r \<Rightarrow> r | None \<Rightarrow> err) \<and>
    (0 < sig_receivers (aw_signals w ! i) \<longrightarrow> signal_recv (aw_signals w' ! i) = sig_reason (aw_signals w' ! i))"
  using assms
  by (intro exI [of _ "upd_signal i (mark_signal_aborted (case reason of Some r \<Rightarrow> r | None \<Rightarrow> err)) (upd_signal i (set_reason reason) w)"])
    (simp add: controller_abort_def upd_signal_nth set_reason_def get_reason_or_dom_exception_def signal_recv_def split: option.split)

lemma subscriber_of_aborted:
  "sig_aborted s \<Longrightarrow> sig_reason s = Some r \<Longrightarrow> signal_recv (subscribe s) = Some r"
  by (simp add: subscribe_def watch_send_def signal_recv_def)

text \<open>The reason has a setter that scripts can reach: a script that takes it away makes a later subscription wait for ever.\<close>

lemma reason_taken_away: "sig_aborted s \<Longrightarrow> signal_recv (subscribe (set_reason None s)) = None"
  by (simp add: subscribe_def watch_send_def signal_recv_def set_reason_def)

section \<open>Signals that follow others\<close>

definition listens :: "('v, 'y, 'f, 's) abort_world \<Rightarrow> nat \<Rightarrow> 'f abort_listener \<Rightarrow> bool" where
  "listens w i l \<longleftrightarrow> (\<exists>x \<in> set (listeners_of (EK_String ''abort'') (sig_emitter (aw_signals w ! i))). el_listener x = l)"

lemma add_abort_listener_ok:
  assumes "add_abort_listener i l once w = (Inr (), w')" "i < length (aw_signals w)"
  shows "listens w' i l \<and> (\<forall>m < length (aw_signals w). listens w m l' \<longrightarrow> listens w' m l') \<and>
         length (aw_signals w') = length (aw_signals w)"
proof -
  let ?k = "EK_String ''abort''" and ?e = "sig_emitter (aw_signals w ! i)"
  obtain nw ee where a: "add_listener ?k l False once ?e = Inr (nw, ee)" "w' = upd_signal i (\<lambda>s. s\<lparr>sig_emitter := ee\<rparr>) w"
    using assms(1)
    by (auto simp: add_abort_listener_def add_event_listener_def focus_def unfocus_def no_hook_def Let_def
        split: sum.splits if_splits)
  have "listeners_of ?k ee = listeners_of ?k ?e @ [\<lparr>el_listener = l, el_once = once\<rparr>]"
    using a(1) by (auto simp: add_listener_def Let_def split: if_splits)
  then show ?thesis using a(2) assms(2) by (auto simp: listens_def upd_signal_nth)
qed

lemma link_all_registers:
  "link_all j is w = (Inr (), w') \<Longrightarrow> list_all (\<lambda>i. i < length (aw_signals w)) is \<Longrightarrow>
   length (aw_signals w') = length (aw_signals w) \<and>
   (\<forall>m < length (aw_signals w). \<forall>l. listens w m l \<longrightarrow> listens w' m l) \<and>
   (\<forall>i \<in> set is. \<exists>k. listens w' i (L_Link k j))"
proof (induction j "is" w rule: link_all.induct)
  case (2 j i "is" w)
  let ?k = "aw_next_link w" and ?w = "w\<lparr>aw_next_link := Suc (aw_next_link w)\<rparr>"
  obtain v where v: "add_abort_listener i (L_Link ?k j) True ?w = (Inr (), v)" "link_all j is v = (Inr (), w')"
    using "2.prems"(1) by (auto simp: Let_def split: prod.splits sum.splits)
  have i: "i < length (aw_signals ?w)" using "2.prems"(2) by simp
  note a = add_abort_listener_ok [OF v(1) i]
  have l: "length (aw_signals v) = length (aw_signals w)" "listens v i (L_Link ?k j)"
    "\<And>m l'. m < length (aw_signals w) \<Longrightarrow> listens w m l' \<Longrightarrow> listens v m l'"
    using a by (auto simp: listens_def)
  have "list_all (\<lambda>i. i < length (aw_signals v)) is" using "2.prems"(2) l(1) by (simp add: list_all_iff)
  note ih = "2.IH" [OF refl v(1) [symmetric] refl v(2) this]
  have "listens w' i (L_Link ?k j)" using ih l(1,2) i by auto
  then show ?case using ih l by auto
qed simp

text \<open>
  A signal made by \<^verbatim>\<open>any\<close> is aborted whenever one of its inputs is: at once and with the reason of the first aborted
  input if there is one, and otherwise as soon as an input's abort is announced to all its listeners, whatever
  those listeners do to other signals.
\<close>

theorem any_signal_follows:
  assumes a: "any_signal ids w = (Inr j, w')" and v: "list_all (\<lambda>i. i < length (aw_signals w)) ids"
    and ev: "call_rel abort_evolves ucall"
  shows "case List.find (\<lambda>i. aborted (aw_signals w ! i)) ids of
           Some i \<Rightarrow> sig_aborted (aw_signals w' ! j) \<and> sig_reason (aw_signals w' ! j) = sig_reason (aw_signals w ! i)
         | None \<Rightarrow> i \<in> set ids \<longrightarrow> broadcast_abort (Suc (Suc n)) create ucall i w' = (Inr (), w'') \<longrightarrow>
                     sig_aborted (aw_signals w'' ! j)"
proof (cases "List.find (\<lambda>i. aborted (aw_signals w ! i)) ids")
  case (Some i)
  then show ?thesis using a by (auto simp: any_signal_def instance_signal_def get_reason_def)
next
  case None
  let ?w1 = "w\<lparr>aw_signals := aw_signals w @ [signal_new]\<rparr>"
  have l: "link_all j ids ?w1 = (Inr (), w')" "j = length (aw_signals w)"
    using a None by (auto simp: any_signal_def instance_signal_def split: prod.splits sum.splits)
  have "list_all (\<lambda>i. i < length (aw_signals ?w1)) ids" using v by (auto simp: list_all_iff less_SucI)
  note k = link_all_registers [OF l(1) this]
  have "sig_aborted (aw_signals w'' ! j)"
    if i: "i \<in> set ids" and b: "broadcast_abort (Suc (Suc n)) create ucall i w' = (Inr (), w'')"
  proof -
    obtain r where r: "emit_abort i (listener_call (broadcast_abort (Suc n) create ucall) ucall i)
        (upd_signal i (mark_signal_aborted r) w') = (Inr (), w'')"
      using b by (auto simp del: broadcast_abort.simps(2) simp: broadcast_abort.simps(2) [of "Suc n"] split: sum.splits)
    let ?m = "upd_signal i (mark_signal_aborted r) w'"
    have i': "i < length (aw_signals w')" using v i k by (auto simp: list_all_iff)
    obtain q x where x: "x \<in> set (listeners_of (EK_String ''abort'') (sig_emitter (aw_signals ?m ! i)))"
      "el_listener x = L_Link q j"
      using k i i' by (auto simp: listens_def upd_signal_nth)
    have c: "call_rel abort_evolves (listener_call (broadcast_abort (Suc n) create ucall) ucall i)"
      by (rule listener_call_rel [OF evolves_blind ev broadcast_rel [OF evolves_blind ev]])
    obtain u z where u: "abort_evolves ?m u" "notifier (broadcast_abort (Suc n) create ucall) i q j u = (None, z)"
      "abort_evolves z w''"
      using emit_abort_reaches [OF evolves_blind(1) c r x(1)] x(2) by (auto simp: listener_call_def)
    have ju: "j < length (aw_signals u)" using u(1) k l(2) by (simp add: abort_evolves_def)
    define p where "p = upd_signal j (\<lambda>s. s\<lparr>sig_aborted := True, sig_reason := get_reason (aw_signals u ! i)\<rparr>)
        (u\<lparr>aw_spent := q # aw_spent u\<rparr>)"
    have z: "z = snd (broadcast_abort (Suc n) create ucall j p)"
      using u(2) unfolding p_def notifier_def Let_def by (auto split: if_splits prod.splits sum.splits)
    have "abort_evolves p z" unfolding z by (rule broadcast_rel [OF evolves_blind ev])
    moreover have "sig_aborted (aw_signals p ! j)" "j < length (aw_signals p)"
      using ju by (simp_all add: p_def upd_signal_nth)
    ultimately show ?thesis using u(3) by (auto simp: abort_evolves_def)
  qed
  then show ?thesis using None by simp
qed

section \<open>Instances and deviations\<close>

definition two_signals :: "(nat, unit, unit, unit) abort_world" where
  "two_signals = \<lparr>aw_signals = [signal_new, signal_new], aw_next_link = 0, aw_spent = [], aw_stuck = False, aw_rest = ()\<rparr>"

definition idle_call :: "unit \<Rightarrow> (nat, unit, unit, unit) abort_world \<Rightarrow> rong_js_error option \<times> (nat, unit, unit, unit) abort_world" where
  "idle_call f w = (None, w)"

definition fixed_exception :: "string \<Rightarrow> nat js_result" where
  "fixed_exception name = Inr 99"

lemma idle_call_rel: "emitter_blind R \<Longrightarrow> call_rel R idle_call"
  by (auto simp: call_rel_def idle_call_def emitter_blind_def)

definition following :: "(nat, unit, unit, unit) abort_world" where
  "following = snd (any_signal [0, 1] two_signals)"

lemma following_eq: "any_signal [0, 1] two_signals = (Inr 2, following)"
proof -
  have "fst (any_signal [0, 1] two_signals) = Inr 2" by code_simp
  then show ?thesis unfolding following_def by (metis prod.collapse)
qed

definition first_aborted :: "(nat, unit, unit, unit) abort_world" where
  "first_aborted = snd (controller_abort 4 fixed_exception idle_call 0 (Some 10) following)"

definition both_aborted :: "(nat, unit, unit, unit) abort_world" where
  "both_aborted = snd (controller_abort 4 fixed_exception idle_call 1 (Some 20) first_aborted)"

theorem any_signal_follows_witness:
  "sig_aborted (aw_signals (snd (broadcast_abort (Suc (Suc 1)) fixed_exception idle_call 0 following)) ! 2)"
proof -
  have v: "list_all (\<lambda>i. i < length (aw_signals two_signals)) [0, 1]" by (simp add: two_signals_def)
  have f: "List.find (\<lambda>i. aborted (aw_signals two_signals ! i)) [0, 1] = None"
    by (simp add: two_signals_def aborted_def signal_new_def)
  have "fst (broadcast_abort (Suc (Suc 1)) fixed_exception idle_call 0 following) = Inr ()" by code_simp
  then have b: "broadcast_abort (Suc (Suc 1)) fixed_exception idle_call 0 following =
      (Inr (), snd (broadcast_abort (Suc (Suc 1)) fixed_exception idle_call 0 following))"
    by (metis prod.collapse)
  show ?thesis
    using any_signal_follows [OF following_eq v idle_call_rel [OF evolves_blind(1)], where i = 0 and n = 1] f b
    by (simp del: broadcast_abort.simps)
qed

text \<open>
  The reason of a signal made by \<^verbatim>\<open>any\<close> is that of the last input aborted so far, not of the first: each notifier
  overwrites it, and announces the abort again.
\<close>

lemma any_reason_overwritten:
  "sig_reason (aw_signals first_aborted ! 2) = Some 10" "sig_reason (aw_signals both_aborted ! 2) = Some 20"
  by code_simp+

text \<open>
  \<^verbatim>\<open>AbortSignal.abort()\<close> without a reason gives a signal that is aborted and whose reason is undefined: a receiver of it
  waits for ever, and \<^verbatim>\<open>throwIfAborted\<close> throws nothing.
\<close>

lemma static_abort_without_reason:
  "aborted (static_abort None)" "signal_recv (subscribe (static_abort None)) = None" "throw_if_aborted (static_abort None) = None"
  by (simp_all add: static_abort_def set_reason_def signal_new_def aborted_def signal_recv_def subscribe_def watch_send_def
      throw_if_aborted_def)

end
