(* ===== verification/Task_Scope.thy ===== *)
theory Task_Scope
  imports Host_Error
begin

text \<open>
  The host tasks of a context: the task registry and the task scopes of \<^verbatim>\<open>core/src/context.rs\<close> and the host promises
  of \<^verbatim>\<open>core/src/promise.rs\<close> that run in them. A task is identified by the order of creation. The executor (\<^verbatim>\<open>tokio\<close>'s
  local set) appears by its documented behaviour: a task whose abort was requested is dropped instead of polled, a poll
  in progress runs to its end first, and a task is finished once it has returned or was dropped. All of it runs on
  the context's thread; while a task is polled, JavaScript and host code called from it may use the registry again.
\<close>

section \<open>Handle lists\<close>

definition MIN_TASK_SWEEP :: nat where
  "MIN_TASK_SWEEP = 64"

definition push_task_handle :: "('h \<Rightarrow> bool) \<Rightarrow> 'h \<Rightarrow> 'h list \<times> nat \<Rightarrow> 'h list \<times> nat" where
  "push_task_handle is_finished handle s =
     (case s of (handles, sweep_at) \<Rightarrow>
        let (handles, sweep_at) =
              (if length handles \<ge> max sweep_at MIN_TASK_SWEEP
               then (let left = filter (\<lambda>h. \<not> is_finished h) handles in (left, length left * 2))
               else (handles, sweep_at))
        in (handles @ [handle], sweep_at))"

text \<open>How many handles a push looks at.\<close>

definition push_checks :: "'h list \<times> nat \<Rightarrow> nat" where
  "push_checks s = (case s of (handles, sweep_at) \<Rightarrow> if length handles \<ge> max sweep_at MIN_TASK_SWEEP then length handles else 0)"

lemma push_task_handle_unfinished:
  "\<not> is_finished h \<Longrightarrow> h \<in> set (fst s) \<or> h = handle \<Longrightarrow> h \<in> set (fst (push_task_handle is_finished handle s))"
  by (auto simp: push_task_handle_def Let_def split: prod.splits)

lemma push_task_handle_set: "set (fst (push_task_handle is_finished handle s)) \<subseteq> insert handle (set (fst s))"
  by (auto simp: push_task_handle_def Let_def split: prod.splits)

lemma push_task_handle_new [simp]: "handle \<in> set (fst (push_task_handle is_finished handle s))"
  by (auto simp: push_task_handle_def Let_def split: prod.splits)

definition sweep_inv :: "'h list \<times> nat \<Rightarrow> bool" where
  "sweep_inv s \<longleftrightarrow> snd s \<le> 2 * length (fst s) \<and> length (fst s) \<le> max (snd s) MIN_TASK_SWEEP"

lemma sweep_inv_push: "sweep_inv s \<Longrightarrow> sweep_inv (push_task_handle is_finished handle s)"
  by (auto simp: sweep_inv_def push_task_handle_def MIN_TASK_SWEEP_def Let_def split: prod.splits)

lemma push_paid:
  "sweep_inv s \<Longrightarrow>
   push_checks s + (2 * length (fst (push_task_handle f h s)) - snd (push_task_handle f h s)) \<le> 2 * length (fst s) - snd s + 2"
  by (auto simp: sweep_inv_def push_task_handle_def push_checks_def Let_def split: prod.splits)

text \<open>
  Pushes made at different times find different tasks finished, so a run of pushes comes with the predicate of each
  moment.
\<close>

definition push_all :: "(('h \<Rightarrow> bool) \<times> 'h) list \<Rightarrow> 'h list \<times> nat \<Rightarrow> 'h list \<times> nat" where
  "push_all ops s = fold (\<lambda>x. push_task_handle (fst x) (snd x)) ops s"

fun total_checks :: "(('h \<Rightarrow> bool) \<times> 'h) list \<Rightarrow> 'h list \<times> nat \<Rightarrow> nat" where
  "total_checks [] s = 0"
| "total_checks (x # ops) s = push_checks s + total_checks ops (push_task_handle (fst x) (snd x) s)"

interpretation pushes: prepaid
  "\<lambda>x. push_task_handle (fst x) (snd x)" "\<lambda>_. push_checks" "\<lambda>s. 2 * length (fst s) - snd s" 2 sweep_inv
  by unfold_locales (erule sweep_inv_push, erule push_paid)

lemma total_checks_cost: "total_checks ops s = pushes.total_cost ops s"
  by (induction ops arbitrary: s) simp_all

text \<open>
  C40. Keeping the list of task handles is cheap and loses nothing: any number of pushes onto a new list looks at no more
  than two handles per push in all, whatever finishes in between; the list is never longer than 64 or twice
  what was unfinished at the last sweep; and a push keeps the handle of every task that has not finished.
\<close>

theorem push_task_handle_amortized:
  "total_checks ops ([], 0) \<le> 2 * length ops \<and>
   length (fst (push_all ops ([], 0))) \<le> max (snd (push_all ops ([], 0))) MIN_TASK_SWEEP \<and>
   {h \<in> insert handle (set (fst s)). \<not> is_finished h} \<subseteq> set (fst (push_task_handle is_finished handle s))"
proof -
  have i: "sweep_inv ([], 0)" by (simp add: sweep_inv_def)
  from pushes.total_paid [OF i, of ops] have "total_checks ops ([], 0) \<le> 2 * length ops"
    by (simp add: total_checks_cost)
  moreover have "length (fst (push_all ops ([], 0))) \<le> max (snd (push_all ops ([], 0))) MIN_TASK_SWEEP"
    using pushes.inv_run [OF i, of ops] unfolding push_all_def sweep_inv_def by simp
  ultimately show ?thesis by (auto intro: push_task_handle_unfinished)
qed

section \<open>Scopes and tasks\<close>

text \<open>
  \<^verbatim>\<open>TaskScopeState\<close> is shared between the registry and the tasks of the scope. It is made together with the scope's
  number, which is never used again, so the number stands for the shared reference.
\<close>

record scope_state =
  sc_cancelled :: bool
  sc_tasks :: "nat list"
  sc_sweep_at :: nat

datatype task_end = Tk_Live | Tk_Settled | Tk_Dropped

record host_task =
  tk_scope :: "u64 option"
  tk_abort :: bool
  tk_end :: task_end

record task_world =
  tr_closed :: bool
  tr_tasks :: "nat list"
  tr_sweep_at :: nat
  tr_current :: "u64 option"
  tr_scopes :: "u64 set"
  tw_states :: "u64 \<rightharpoonup> scope_state"
  tw_next_scope :: u64
  tw_tasks :: "host_task list"
  tw_polling :: "nat option"

definition scope_default :: scope_state where
  "scope_default = \<lparr>sc_cancelled = False, sc_tasks = [], sc_sweep_at = 0\<rparr>"

definition tw_init :: "u64 \<Rightarrow> task_world" where
  "tw_init n = \<lparr>tr_closed = False, tr_tasks = [], tr_sweep_at = 0, tr_current = None, tr_scopes = {}, tw_states = Map.empty,
     tw_next_scope = n, tw_tasks = [], tw_polling = None\<rparr>"

definition task_finished :: "task_world \<Rightarrow> nat \<Rightarrow> bool" where
  "task_finished w t \<longleftrightarrow> tk_end (tw_tasks w ! t) \<noteq> Tk_Live"

definition scope_cancelled :: "task_world \<Rightarrow> u64 \<Rightarrow> bool" where
  "scope_cancelled w i = (case tw_states w i of Some st \<Rightarrow> sc_cancelled st | None \<Rightarrow> False)"

definition adopt :: "u64 \<Rightarrow> nat \<Rightarrow> task_world \<Rightarrow> task_world" where
  "adopt i t w =
     (case tw_states w i of
        None \<Rightarrow> w
      | Some st \<Rightarrow>
          (case push_task_handle (task_finished w) t (sc_tasks st, sc_sweep_at st) of
             (ts, n) \<Rightarrow> w\<lparr>tw_states := (tw_states w)(i \<mapsto> st\<lparr>sc_tasks := ts, sc_sweep_at := n\<rparr>)\<rparr>))"

definition abort_task :: "host_task \<Rightarrow> host_task" where
  "abort_task x = x\<lparr>tk_abort := True\<rparr>"

definition abort_each :: "nat list \<Rightarrow> host_task list \<Rightarrow> host_task list" where
  "abort_each ts xs = fold (\<lambda>t xs. xs[t := abort_task (xs ! t)]) ts xs"

definition abort_tasks :: "u64 \<Rightarrow> task_world \<Rightarrow> task_world" where
  "abort_tasks i w =
     (case tw_states w i of
        None \<Rightarrow> w
      | Some st \<Rightarrow>
          w\<lparr>tw_states := (tw_states w)(i \<mapsto> st\<lparr>sc_tasks := []\<rparr>), tw_tasks := abort_each (sc_tasks st) (tw_tasks w)\<rparr>)"

section \<open>The registry\<close>

text \<open>The answer is the handle of the task, or nothing once the registry is closed.\<close>

definition registry_spawn :: "u64 option \<Rightarrow> task_world \<Rightarrow> nat option \<times> task_world" where
  "registry_spawn scope w =
     (if tr_closed w then (None, w)
      else
        (let t = length (tw_tasks w);
             w' = w\<lparr>tw_tasks := tw_tasks w @ [\<lparr>tk_scope = scope, tk_abort = False, tk_end = Tk_Live\<rparr>]\<rparr>
         in case push_task_handle (task_finished w') t (tr_tasks w', tr_sweep_at w') of
              (ts, n) \<Rightarrow> (Some t, w'\<lparr>tr_tasks := ts, tr_sweep_at := n\<rparr>)))"

text \<open>\<^const>\<open>None\<close>: the scope numbers are used up and the call panics.\<close>

definition begin_scope :: "task_world \<Rightarrow> (u64 \<times> task_world) option" where
  "begin_scope w =
     (case checked_add (tw_next_scope w) 1 of
        None \<Rightarrow> None
      | Some n \<Rightarrow>
          (let scope = tw_next_scope w
           in Some (scope, w\<lparr>tw_next_scope := n, tw_states := (tw_states w)(scope \<mapsto> scope_default),
                tr_scopes := insert scope (tr_scopes w), tr_current := Some scope\<rparr>)))"

definition current_scope :: "task_world \<Rightarrow> u64 option" where
  "current_scope w = tr_current w"

definition enter_scope :: "u64 option \<Rightarrow> task_world \<Rightarrow> u64 option \<times> task_world" where
  "enter_scope scope w =
     (let previous = tr_current w;
          next_scope = (case scope of None \<Rightarrow> None | Some i \<Rightarrow> if i \<in> tr_scopes w then Some i else None)
      in (previous, w\<lparr>tr_current := next_scope\<rparr>))"

definition mark_cancelled :: "u64 \<Rightarrow> task_world \<Rightarrow> task_world" where
  "mark_cancelled i w =
     (case tw_states w i of
        None \<Rightarrow> w
      | Some st \<Rightarrow> w\<lparr>tw_states := (tw_states w)(i \<mapsto> st\<lparr>sc_cancelled := True\<rparr>)\<rparr>)"

definition cancel_scope :: "u64 \<Rightarrow> task_world \<Rightarrow> bool \<times> task_world" where
  "cancel_scope i w =
     (if i \<in> tr_scopes w then
        (let w = abort_tasks i (mark_cancelled i (w\<lparr>tr_scopes := tr_scopes w - {i}\<rparr>))
         in (True, if tr_current w = Some i then w\<lparr>tr_current := None\<rparr> else w))
      else (False, w))"

definition abort_all :: "task_world \<Rightarrow> nat list \<times> task_world" where
  "abort_all w =
     (tr_tasks w, w\<lparr>tr_closed := True, tr_tasks := [], tw_tasks := abort_each (tr_tasks w) (tw_tasks w)\<rparr>)"

section \<open>Host promises\<close>

text \<open>
  \<^verbatim>\<open>from_future\<close>: the task is spawned with the scope that is current, which then owns its handle. The answer tells
  whether there is a task; the promise exists in any case and is never settled without one.
\<close>

definition from_future :: "task_world \<Rightarrow> nat option \<times> task_world" where
  "from_future w =
     (let scope = current_scope w in
      case registry_spawn scope w of
        (task, w') \<Rightarrow>
          (task, case (scope, task) of (Some i, Some t) \<Rightarrow> adopt i t w' | _ \<Rightarrow> w'))"

definition end_task :: "nat \<Rightarrow> task_end \<Rightarrow> task_world \<Rightarrow> task_world" where
  "end_task t x w = w\<lparr>tw_tasks := (tw_tasks w)[t := (tw_tasks w ! t)\<lparr>tk_end := x\<rparr>]\<rparr>"

definition abandoned :: "task_world \<Rightarrow> nat \<Rightarrow> bool" where
  "abandoned w t = (case tk_scope (tw_tasks w ! t) of Some i \<Rightarrow> scope_cancelled w i | None \<Rightarrow> False)"

text \<open>
  The executor turns to task \<open>t\<close>: it drops it if its abort was requested; otherwise the scoped future looks at the flag of
  its scope before it polls the future of the host.
\<close>

definition poll_begin :: "nat \<Rightarrow> task_world \<Rightarrow> task_world" where
  "poll_begin t w =
     (if tk_abort (tw_tasks w ! t) then end_task t Tk_Dropped w
      else if abandoned w t then end_task t Tk_Dropped w
      else w\<lparr>tw_polling := Some t\<rparr>)"

text \<open>
  The poll returns, \<open>ready\<close> or not: the scoped future looks at the flag again, then the task either settles its promise,
  or stays, or is dropped because its abort was requested meanwhile.
\<close>

definition poll_end :: "bool \<Rightarrow> task_world \<Rightarrow> task_world" where
  "poll_end ready w =
     (case tw_polling w of
        None \<Rightarrow> w
      | Some t \<Rightarrow>
          (let w = w\<lparr>tw_polling := None\<rparr> in
           if abandoned w t then end_task t Tk_Dropped w
           else if ready then end_task t Tk_Settled w
           else if tk_abort (tw_tasks w ! t) then end_task t Tk_Dropped w
           else w))"

section \<open>Runs\<close>

text \<open>Scope numbers are counted for the whole process, so other contexts move the counter too.\<close>

inductive task_step :: "task_world \<Rightarrow> task_world \<Rightarrow> bool" where
  ts_spawn: "task_step w (snd (registry_spawn None w))"
| ts_promise: "task_step w (snd (from_future w))"
| ts_begin: "begin_scope w = Some (i, w') \<Longrightarrow> task_step w w'"
| ts_enter: "task_step w (snd (enter_scope scope w))"
| ts_cancel: "task_step w (snd (cancel_scope i w))"
| ts_shutdown: "task_step w (snd (abort_all w))"
| ts_poll: "tw_polling w = None \<Longrightarrow> t < length (tw_tasks w) \<Longrightarrow> \<not> task_finished w t \<Longrightarrow> task_step w (poll_begin t w)"
| ts_poll_end: "task_step w (poll_end ready w)"
| ts_elsewhere: "tw_next_scope w \<le> n \<Longrightarrow> task_step w (w\<lparr>tw_next_scope := n\<rparr>)"

inductive task_run :: "task_world \<Rightarrow> task_world \<Rightarrow> bool" where
  tr_refl: "task_run w w"
| tr_step: "task_run w v \<Longrightarrow> task_step v u \<Longrightarrow> task_run w u"

definition task_reachable :: "task_world \<Rightarrow> bool" where
  "task_reachable w \<longleftrightarrow> (\<exists>n. task_run (tw_init n) w)"

section \<open>Selectors\<close>

lemma abort_each_Nil [simp]: "abort_each [] xs = xs"
  by (simp add: abort_each_def)

lemma length_abort_each [simp]: "length (abort_each ts xs) = length xs"
  unfolding abort_each_def by (induction ts arbitrary: xs) simp_all

lemma abort_task_twice [simp]: "abort_task (abort_task x) = abort_task x"
  by (simp add: abort_task_def)

lemma abort_each_nth:
  "t < length xs \<Longrightarrow> abort_each ts xs ! t = (if t \<in> set ts then abort_task (xs ! t) else xs ! t)"
  unfolding abort_each_def
proof (induction ts arbitrary: xs)
  case (Cons a ts)
  then show ?case by (cases "t = a") simp_all
qed simp

lemma abort_task_simps [simp]:
  "tk_scope (abort_task x) = tk_scope x" "tk_end (abort_task x) = tk_end x" "tk_abort (abort_task x)"
  by (simp_all add: abort_task_def)

lemma abort_each_keeps [simp]:
  "t < length xs \<Longrightarrow> tk_end (abort_each ts xs ! t) = tk_end (xs ! t)"
  "t < length xs \<Longrightarrow> tk_scope (abort_each ts xs ! t) = tk_scope (xs ! t)"
  by (simp_all add: abort_each_nth)

lemma mark_cancelled_simps [simp]:
  "tr_closed (mark_cancelled i w) = tr_closed w" "tr_tasks (mark_cancelled i w) = tr_tasks w"
  "tr_current (mark_cancelled i w) = tr_current w" "tr_scopes (mark_cancelled i w) = tr_scopes w"
  "tw_next_scope (mark_cancelled i w) = tw_next_scope w" "tw_tasks (mark_cancelled i w) = tw_tasks w"
  "tw_polling (mark_cancelled i w) = tw_polling w"
  "tw_states (mark_cancelled i w) j =
     (if j = i then map_option (\<lambda>st. st\<lparr>sc_cancelled := True\<rparr>) (tw_states w i) else tw_states w j)"
  by (auto simp: mark_cancelled_def split: option.splits)

lemma abort_tasks_simps [simp]:
  "tr_closed (abort_tasks i w) = tr_closed w" "tr_tasks (abort_tasks i w) = tr_tasks w"
  "tr_current (abort_tasks i w) = tr_current w" "tr_scopes (abort_tasks i w) = tr_scopes w"
  "tw_next_scope (abort_tasks i w) = tw_next_scope w" "tw_polling (abort_tasks i w) = tw_polling w"
  "tw_states (abort_tasks i w) j = (if j = i then map_option (\<lambda>st. st\<lparr>sc_tasks := []\<rparr>) (tw_states w i) else tw_states w j)"
  "tw_tasks (abort_tasks i w) =
     abort_each (case tw_states w i of Some st \<Rightarrow> sc_tasks st | None \<Rightarrow> []) (tw_tasks w)"
  by (auto simp: abort_tasks_def split: option.splits)

lemma cancel_scope_simps:
  assumes "cancel_scope i w = (True, w')" "tw_states w i = Some st"
  shows "tr_closed w' = tr_closed w" "tr_tasks w' = tr_tasks w" "tw_next_scope w' = tw_next_scope w"
    "tw_polling w' = tw_polling w" "tr_scopes w' = tr_scopes w - {i}"
    "tr_current w' = (if tr_current w = Some i then None else tr_current w)"
    "tw_states w' = (tw_states w)(i \<mapsto> st\<lparr>sc_cancelled := True, sc_tasks := []\<rparr>)"
    "tw_tasks w' = abort_each (sc_tasks st) (tw_tasks w)"
  using assms by (auto simp: cancel_scope_def Let_def fun_eq_iff split: if_splits)

lemma end_task_simps [simp]:
  "tr_closed (end_task t x w) = tr_closed w" "tr_tasks (end_task t x w) = tr_tasks w"
  "tr_current (end_task t x w) = tr_current w" "tr_scopes (end_task t x w) = tr_scopes w"
  "tw_next_scope (end_task t x w) = tw_next_scope w" "tw_polling (end_task t x w) = tw_polling w"
  "tw_states (end_task t x w) = tw_states w" "length (tw_tasks (end_task t x w)) = length (tw_tasks w)"
  by (simp_all add: end_task_def)

lemma end_task_nth:
  "u < length (tw_tasks w) \<Longrightarrow>
   tw_tasks (end_task t x w) ! u = (if u = t then (tw_tasks w ! t)\<lparr>tk_end := x\<rparr> else tw_tasks w ! u)"
  by (simp add: end_task_def nth_list_update)

section \<open>Invariant\<close>

text \<open>
  Exactly the scopes that are open are registered, and the current scope is one of them. A scope that is open holds the
  handle of each of its tasks that has not finished, and no other scope's; once it is cancelled those tasks have been
  aborted. The registry holds the handle of every task that has not finished until it is closed, which aborts them.
\<close>

definition scopes_ok :: "task_world \<Rightarrow> bool" where
  "scopes_ok w \<longleftrightarrow>
     (\<forall>i. tr_current w = Some i \<longrightarrow> i \<in> tr_scopes w) \<and>
     tr_scopes w = {i. \<exists>st. tw_states w i = Some st \<and> \<not> sc_cancelled st} \<and>
     (\<forall>i. tw_states w i \<noteq> None \<longrightarrow> i < tw_next_scope w)"

definition handle_ok :: "scope_state \<Rightarrow> host_task \<Rightarrow> nat \<Rightarrow> bool" where
  "handle_ok st x t \<longleftrightarrow> tk_end x = Tk_Live \<longrightarrow> (if sc_cancelled st then tk_abort x else t \<in> set (sc_tasks st))"

definition owned_ok :: "task_world \<Rightarrow> bool" where
  "owned_ok w \<longleftrightarrow>
     (\<forall>i st. tw_states w i = Some st \<longrightarrow>
        (\<forall>t \<in> set (sc_tasks st). t < length (tw_tasks w) \<and> tk_scope (tw_tasks w ! t) = Some i)) \<and>
     (\<forall>t < length (tw_tasks w). \<forall>i. tk_scope (tw_tasks w ! t) = Some i \<longrightarrow>
        (\<exists>st. tw_states w i = Some st \<and> handle_ok st (tw_tasks w ! t) t))"

definition registry_ok :: "task_world \<Rightarrow> bool" where
  "registry_ok w \<longleftrightarrow>
     (\<forall>t < length (tw_tasks w). tk_end (tw_tasks w ! t) = Tk_Live \<longrightarrow>
        (if tr_closed w then tk_abort (tw_tasks w ! t) else t \<in> set (tr_tasks w))) \<and>
     (\<forall>t. tw_polling w = Some t \<longrightarrow> t < length (tw_tasks w) \<and> tk_end (tw_tasks w ! t) = Tk_Live)"

definition task_inv :: "task_world \<Rightarrow> bool" where
  "task_inv w \<longleftrightarrow> scopes_ok w \<and> owned_ok w \<and> registry_ok w"

lemma scopes_ok_cong:
  assumes "scopes_ok w" "tr_current w' = tr_current w" "tr_scopes w' = tr_scopes w" "tw_states w' = tw_states w"
    "tw_next_scope w' = tw_next_scope w"
  shows "scopes_ok w'"
  unfolding scopes_ok_def assms(2-) by (rule assms(1) [unfolded scopes_ok_def])

lemma owned_ok_cong: "owned_ok w \<Longrightarrow> tw_states w' = tw_states w \<Longrightarrow> tw_tasks w' = tw_tasks w \<Longrightarrow> owned_ok w'"
  unfolding owned_ok_def by simp

lemma registry_ok_cong:
  "registry_ok w \<Longrightarrow> tr_closed w' = tr_closed w \<Longrightarrow> tr_tasks w' = tr_tasks w \<Longrightarrow> tw_tasks w' = tw_tasks w \<Longrightarrow>
   tw_polling w' = tw_polling w \<Longrightarrow> registry_ok w'"
  unfolding registry_ok_def by simp

lemma owned_okI:
  assumes "\<And>i st t. tw_states w i = Some st \<Longrightarrow> t \<in> set (sc_tasks st) \<Longrightarrow>
             t < length (tw_tasks w) \<and> tk_scope (tw_tasks w ! t) = Some i"
    and "\<And>t i. t < length (tw_tasks w) \<Longrightarrow> tk_scope (tw_tasks w ! t) = Some i \<Longrightarrow>
             \<exists>st. tw_states w i = Some st \<and> handle_ok st (tw_tasks w ! t) t"
  shows "owned_ok w"
  using assms unfolding owned_ok_def by blast

lemma owned_task:
  assumes "owned_ok w" "t < length (tw_tasks w)" "tk_scope (tw_tasks w ! t) = Some i"
  obtains st where "tw_states w i = Some st" "handle_ok st (tw_tasks w ! t) t"
  using assms unfolding owned_ok_def by blast

lemma owned_handle:
  "owned_ok w \<Longrightarrow> tw_states w i = Some st \<Longrightarrow> t \<in> set (sc_tasks st) \<Longrightarrow>
   t < length (tw_tasks w) \<and> tk_scope (tw_tasks w ! t) = Some i"
  unfolding owned_ok_def by blast

lemma task_inv_init: "task_inv (tw_init n)"
  by (simp add: task_inv_def scopes_ok_def owned_ok_def registry_ok_def tw_init_def)

text \<open>Changes of tasks that keep their scope, do not revive them and withdraw no abort.\<close>

definition tasks_advance :: "host_task list \<Rightarrow> host_task list \<Rightarrow> bool" where
  "tasks_advance xs ys \<longleftrightarrow> length ys = length xs \<and>
     (\<forall>t < length xs. tk_scope (ys ! t) = tk_scope (xs ! t) \<and> (tk_abort (xs ! t) \<longrightarrow> tk_abort (ys ! t)) \<and>
        (tk_end (ys ! t) = Tk_Live \<longrightarrow> tk_end (xs ! t) = Tk_Live))"

lemma handle_ok_advance:
  "tasks_advance xs ys \<Longrightarrow> t < length xs \<Longrightarrow> handle_ok st (xs ! t) t \<Longrightarrow> handle_ok st (ys ! t) t"
  by (auto simp: tasks_advance_def handle_ok_def split: if_splits)

lemma owned_ok_advance:
  assumes "owned_ok w" "tasks_advance (tw_tasks w) (tw_tasks w')" "tw_states w' = tw_states w"
  shows "owned_ok w'"
proof -
  have l: "length (tw_tasks w') = length (tw_tasks w)"
    and sc: "tk_scope (tw_tasks w' ! t) = tk_scope (tw_tasks w ! t)" if "t < length (tw_tasks w)" for t
    using assms(2) that by (auto simp: tasks_advance_def)
  have "t < length (tw_tasks w) \<and> tk_scope (tw_tasks w' ! t) = Some i" if "tw_states w i = Some st" "t \<in> set (sc_tasks st)" for i st t
    using owned_handle [OF assms(1) that] sc by auto
  moreover have "\<exists>st. tw_states w i = Some st \<and> handle_ok st (tw_tasks w' ! t) t"
    if t: "t < length (tw_tasks w)" and i: "tk_scope (tw_tasks w' ! t) = Some i" for t i
  proof -
    obtain st where "tw_states w i = Some st" "handle_ok st (tw_tasks w ! t) t"
      using owned_task [OF assms(1) t, of i] i sc [OF t] by auto
    then show ?thesis using handle_ok_advance [OF assms(2) t] by auto
  qed
  moreover have "length (tw_tasks w') = length (tw_tasks w)" using assms(2) by (simp add: tasks_advance_def)
  ultimately show ?thesis unfolding owned_ok_def assms(3) by auto
qed

lemma end_task_advance: "x \<noteq> Tk_Live \<Longrightarrow> tasks_advance (tw_tasks w) (tw_tasks (end_task t x w))"
  by (simp add: tasks_advance_def end_task_nth)

lemma abort_each_advance: "tasks_advance xs (abort_each ts xs)"
  by (simp add: tasks_advance_def abort_each_nth)

lemma end_task_inv:
  assumes "task_inv w" "x \<noteq> Tk_Live" "tw_polling w \<noteq> Some t"
  shows "task_inv (end_task t x w)"
proof -
  have "scopes_ok (end_task t x w)" using assms(1) by (auto simp: task_inv_def elim: scopes_ok_cong)
  moreover have "owned_ok (end_task t x w)"
    using assms(1) end_task_advance [OF assms(2)] by (auto simp: task_inv_def intro: owned_ok_advance)
  moreover have "registry_ok (end_task t x w)" using assms
    unfolding task_inv_def registry_ok_def end_task_simps by (auto simp: end_task_nth)
  ultimately show ?thesis by (simp add: task_inv_def)
qed

lemma polling_inv:
  assumes "task_inv w" "\<And>t. p = Some t \<Longrightarrow> t < length (tw_tasks w) \<and> \<not> task_finished w t"
  shows "task_inv (w\<lparr>tw_polling := p\<rparr>)"
proof -
  have "registry_ok (w\<lparr>tw_polling := p\<rparr>)" using assms by (simp add: task_inv_def registry_ok_def task_finished_def)
  then show ?thesis using assms(1) unfolding task_inv_def by (auto elim: scopes_ok_cong owned_ok_cong)
qed

lemma poll_begin_inv:
  assumes "task_inv w" "tw_polling w = None" "t < length (tw_tasks w)" "\<not> task_finished w t"
  shows "task_inv (poll_begin t w)"
  using polling_inv [of w "Some t"] end_task_inv [of w Tk_Dropped t] assms by (simp add: poll_begin_def)

lemma poll_end_inv:
  assumes "task_inv w"
  shows "task_inv (poll_end ready w)"
proof (cases "tw_polling w")
  case (Some t)
  then show ?thesis
    using polling_inv [OF assms, of None] end_task_inv [of "w\<lparr>tw_polling := None\<rparr>" _ t] by (simp add: poll_end_def Let_def)
qed (simp add: poll_end_def assms)

lemma enter_inv:
  assumes "task_inv w"
  shows "task_inv (snd (enter_scope scope w))"
proof -
  have "scopes_ok (snd (enter_scope scope w))"
    using assms unfolding task_inv_def scopes_ok_def by (auto simp: enter_scope_def Let_def split: option.splits)
  then show ?thesis
    using assms unfolding task_inv_def by (auto simp: enter_scope_def Let_def elim: owned_ok_cong registry_ok_cong)
qed

lemma elsewhere_inv:
  assumes "task_inv w" "tw_next_scope w \<le> n"
  shows "task_inv (w\<lparr>tw_next_scope := n\<rparr>)"
proof -
  have "scopes_ok (w\<lparr>tw_next_scope := n\<rparr>)"
    using assms unfolding task_inv_def scopes_ok_def by (auto dest: less_le_trans)
  then show ?thesis using assms unfolding task_inv_def by (auto elim: owned_ok_cong registry_ok_cong)
qed

lemma shutdown_inv:
  assumes "task_inv w"
  shows "task_inv (snd (abort_all w))"
proof -
  have "owned_ok (snd (abort_all w))"
    using assms abort_each_advance by (auto simp: task_inv_def abort_all_def intro: owned_ok_advance)
  moreover have "scopes_ok (snd (abort_all w))" using assms by (auto simp: task_inv_def abort_all_def elim: scopes_ok_cong)
  moreover have "registry_ok (snd (abort_all w))"
    using assms unfolding task_inv_def registry_ok_def abort_all_def by (auto simp: abort_each_nth split: if_splits)
  ultimately show ?thesis by (simp add: task_inv_def)
qed

lemma begin_inv:
  assumes "task_inv w" "begin_scope w = Some (i, w')"
  shows "task_inv w'"
proof -
  obtain n where n: "checked_add (tw_next_scope w) 1 = Some n" "i = tw_next_scope w"
    and w': "w' = w\<lparr>tw_next_scope := n, tw_states := (tw_states w)(i \<mapsto> scope_default),
                tr_scopes := insert i (tr_scopes w), tr_current := Some i\<rparr>"
    using assms(2) by (auto simp: begin_scope_def Let_def split: option.splits)
  have lt: "tw_next_scope w < n"
    using n(1) unat_checked_add [OF n(1)] by (simp add: word_less_nat_alt)
  have old: "tw_states w i = None" using assms(1) n(2) by (auto simp: task_inv_def scopes_ok_def)
  have s: "\<forall>j. tw_states w j \<noteq> None \<longrightarrow> j < tw_next_scope w"
    "tr_scopes w = {i. \<exists>st. tw_states w i = Some st \<and> \<not> sc_cancelled st}"
    using assms(1) unfolding task_inv_def scopes_ok_def by blast+
  have "\<forall>j. ((tw_states w)(i \<mapsto> scope_default)) j \<noteq> None \<longrightarrow> j < n"
    using s(1) lt n(2) by (auto dest: less_trans)
  moreover have "insert i (tr_scopes w) =
      {j. \<exists>st. ((tw_states w)(i \<mapsto> scope_default)) j = Some st \<and> \<not> sc_cancelled st}"
    unfolding s(2) using old by (auto simp: scope_default_def)
  ultimately have "scopes_ok w'" unfolding scopes_ok_def w' by simp
  moreover have "owned_ok w'"
    using assms(1) old unfolding task_inv_def owned_ok_def w'
    by (auto simp: scope_default_def)
  moreover have "registry_ok w'" using assms(1) by (auto simp: task_inv_def w' elim: registry_ok_cong)
  ultimately show ?thesis by (simp add: task_inv_def)
qed

lemma cancel_inv:
  assumes "task_inv w"
  shows "task_inv (snd (cancel_scope i w))"
proof (cases "i \<in> tr_scopes w")
  case True
  then obtain st where st: "tw_states w i = Some st" "\<not> sc_cancelled st"
    using assms unfolding task_inv_def scopes_ok_def by blast
  obtain w' where c: "cancel_scope i w = (True, w')" using True by (auto simp: cancel_scope_def Let_def)
  note sel = cancel_scope_simps [OF c st(1)]
  have s: "\<forall>j. tr_current w = Some j \<longrightarrow> j \<in> tr_scopes w" "\<forall>j. tw_states w j \<noteq> None \<longrightarrow> j < tw_next_scope w"
    "tr_scopes w = {i. \<exists>st. tw_states w i = Some st \<and> \<not> sc_cancelled st}"
    using assms unfolding task_inv_def scopes_ok_def by blast+
  have "tr_scopes w - {i} =
      {j. \<exists>x. ((tw_states w)(i \<mapsto> st\<lparr>sc_cancelled := True, sc_tasks := []\<rparr>)) j = Some x \<and> \<not> sc_cancelled x}"
    unfolding s(3) by auto
  then have "scopes_ok w'" using s st(1) unfolding scopes_ok_def sel by auto
  moreover have "owned_ok w'"
  proof -
    have o: "owned_ok w" using assms by (simp add: task_inv_def)
    have "\<exists>x. tw_states w' j = Some x \<and> handle_ok x (tw_tasks w' ! t) t"
      if t: "t < length (tw_tasks w)" "tk_scope (tw_tasks w ! t) = Some j" for t j
    proof -
      obtain x where x: "tw_states w j = Some x" "handle_ok x (tw_tasks w ! t) t" by (rule owned_task [OF o t])
      have "handle_ok x (tw_tasks w' ! t) t"
        unfolding sel(8) by (rule handle_ok_advance [OF abort_each_advance t(1) x(2)])
      moreover have "j = i \<Longrightarrow> handle_ok (st\<lparr>sc_cancelled := True, sc_tasks := []\<rparr>) (tw_tasks w' ! t) t"
        using x st t(1) unfolding sel(8) by (auto simp: handle_ok_def abort_each_nth)
      ultimately show ?thesis using x(1) unfolding sel(7) by auto
    qed
    moreover have "t < length (tw_tasks w) \<and> tk_scope (tw_tasks w' ! t) = Some j"
      if "tw_states w' j = Some x" "t \<in> set (sc_tasks x)" for t j x
      using owned_handle [OF o, of j x t] that unfolding sel(7,8) by (auto simp: abort_each_nth split: if_splits)
    moreover have "length (tw_tasks w') = length (tw_tasks w)"
      "t < length (tw_tasks w) \<Longrightarrow> tk_scope (tw_tasks w' ! t) = tk_scope (tw_tasks w ! t)" for t
      by (simp_all add: sel(8) abort_each_nth)
    ultimately show ?thesis by (intro owned_okI) simp_all
  qed
  moreover have "registry_ok w'"
    using assms unfolding task_inv_def registry_ok_def sel by (auto simp: abort_each_nth)
  ultimately show ?thesis using c by (simp add: task_inv_def)
qed (simp add: cancel_scope_def assms)

text \<open>A new task, first without its place in a scope.\<close>

abbreviation new_task :: "u64 option \<Rightarrow> host_task" where
  "new_task scope \<equiv> \<lparr>tk_scope = scope, tk_abort = False, tk_end = Tk_Live\<rparr>"

lemma spawn_simps:
  assumes "registry_spawn scope w = (Some t, w')"
  shows "\<not> tr_closed w" "t = length (tw_tasks w)" "tw_tasks w' = tw_tasks w @ [new_task scope]" "tr_closed w' = tr_closed w"
    "tr_current w' = tr_current w" "tr_scopes w' = tr_scopes w" "tw_states w' = tw_states w"
    "tw_next_scope w' = tw_next_scope w" "tw_polling w' = tw_polling w"
    "tr_tasks w' = fst (push_task_handle (task_finished (w\<lparr>tw_tasks := tw_tasks w @ [new_task scope]\<rparr>)) t
       (tr_tasks w, tr_sweep_at w))"
  using assms by (auto simp: registry_spawn_def Let_def split: if_splits prod.splits)

lemma task_finished_append:
  "task_finished (w\<lparr>tw_tasks := tw_tasks w @ [x]\<rparr>) u = (if u < length (tw_tasks w) then task_finished w u else tk_end ((tw_tasks w @ [x]) ! u) \<noteq> Tk_Live)"
  by (simp add: task_finished_def nth_append)

lemma spawn_registry_ok:
  assumes "registry_ok w" "registry_spawn scope w = (Some t, w')"
  shows "registry_ok w'"
proof -
  note sel = spawn_simps [OF assms(2)]
  have "u \<in> set (tr_tasks w')" if u: "u < Suc (length (tw_tasks w))" "tk_end ((tw_tasks w @ [new_task scope]) ! u) = Tk_Live" for u
  proof (cases "u = t")
    case False
    then have "u \<in> set (tr_tasks w)" using u assms(1) sel(1,2) by (auto simp: registry_ok_def nth_append split: if_splits)
    moreover have "\<not> task_finished (w\<lparr>tw_tasks := tw_tasks w @ [new_task scope]\<rparr>) u" using u(2) by (simp add: task_finished_def)
    ultimately show ?thesis unfolding sel(10) by (intro push_task_handle_unfinished) auto
  qed (simp add: sel(10))
  then show ?thesis using assms(1) sel(1) unfolding registry_ok_def sel(3,4,9)
    by (auto simp: nth_append less_Suc_eq split: if_splits)
qed

lemma spawn_owned:
  assumes "owned_ok w" "registry_spawn scope w = (Some t, w')"
  shows "tw_states w' i = Some st \<Longrightarrow> u \<in> set (sc_tasks st) \<Longrightarrow>
           u < length (tw_tasks w') \<and> tk_scope (tw_tasks w' ! u) = Some i"
    and "u < t \<Longrightarrow> tk_scope (tw_tasks w' ! u) = Some i \<Longrightarrow>
           \<exists>st. tw_states w' i = Some st \<and> handle_ok st (tw_tasks w' ! u) u"
  using owned_handle [OF assms(1), of i st u] owned_task [OF assms(1), of u i] spawn_simps [OF assms(2)]
  by (auto simp: nth_append)

lemma spawn_inv:
  assumes "task_inv w"
  shows "task_inv (snd (registry_spawn None w))"
proof (cases "tr_closed w")
  case False
  then have "fst (registry_spawn None w) = Some (length (tw_tasks w))"
    by (simp add: registry_spawn_def Let_def split: prod.splits)
  then obtain t w' where r: "registry_spawn None w = (Some t, w')" by (cases "registry_spawn None w") auto
  note sel = spawn_simps [OF r]
  have o: "owned_ok w" using assms by (simp add: task_inv_def)
  have "owned_ok w'"
    unfolding owned_ok_def
  proof (intro conjI allI impI ballI)
    fix u i assume "u < length (tw_tasks w')" "tk_scope (tw_tasks w' ! u) = Some i"
    then show "\<exists>st. tw_states w' i = Some st \<and> handle_ok st (tw_tasks w' ! u) u"
      using spawn_owned(2) [OF o r] sel(2,3) by (cases "u = t") auto
  qed (use spawn_owned(1) [OF o r] in blast)+
  moreover have "scopes_ok w'" using assms sel by (auto simp: task_inv_def elim: scopes_ok_cong)
  moreover have "registry_ok w'" using spawn_registry_ok [OF _ r] assms by (simp add: task_inv_def)
  ultimately show ?thesis using r by (simp add: task_inv_def)
qed (simp add: registry_spawn_def assms)

lemma adopt_inv:
  assumes "task_inv w" "tr_current w = Some i" "registry_spawn (Some i) w = (Some t, w')"
  shows "task_inv (adopt i t w')"
proof -
  note sel = spawn_simps [OF assms(3)]
  have o: "owned_ok w" and sc: "scopes_ok w'" and rg: "registry_ok w'"
    using assms(1) sel spawn_registry_ok [OF _ assms(3)] by (auto simp: task_inv_def elim: scopes_ok_cong)
  obtain st where st: "tw_states w' i = Some st" "\<not> sc_cancelled st"
    using sc assms(2) sel(5) unfolding scopes_ok_def by auto
  obtain ts n where p: "push_task_handle (task_finished w') t (sc_tasks st, sc_sweep_at st) = (ts, n)"
    by (cases "push_task_handle (task_finished w') t (sc_tasks st, sc_sweep_at st)")
  define x where "x = st\<lparr>sc_tasks := ts, sc_sweep_at := n\<rparr>"
  have a: "adopt i t w' = w'\<lparr>tw_states := (tw_states w')(i \<mapsto> x)\<rparr>" by (simp add: adopt_def st p x_def)
  have ts: "set ts \<subseteq> insert t (set (sc_tasks st))" "t \<in> set ts"
    "\<And>u. u \<in> set (sc_tasks st) \<Longrightarrow> \<not> task_finished w' u \<Longrightarrow> u \<in> set ts"
    using push_task_handle_set [of "task_finished w'" t "(sc_tasks st, sc_sweep_at st)"]
      push_task_handle_new [of t "task_finished w'" "(sc_tasks st, sc_sweep_at st)"]
      push_task_handle_unfinished [of "task_finished w'" _ "(sc_tasks st, sc_sweep_at st)" t] p by auto
  have "owned_ok (adopt i t w')"
    unfolding owned_ok_def
  proof (intro conjI allI impI ballI)
    fix j y u
    assume "tw_states (adopt i t w') j = Some y" "u \<in> set (sc_tasks y)"
    then have "(j = i \<and> u = t) \<or> (\<exists>z. tw_states w' j = Some z \<and> u \<in> set (sc_tasks z))"
      using ts(1) st(1) by (auto simp: a x_def split: if_splits)
    then have "u < length (tw_tasks w') \<and> tk_scope (tw_tasks w' ! u) = Some j"
      using spawn_owned(1) [OF o assms(3)] sel(2,3) by auto
    then show "u < length (tw_tasks (adopt i t w'))" "tk_scope (tw_tasks (adopt i t w') ! u) = Some j" by (simp_all add: a)
  next
    fix u j
    assume "u < length (tw_tasks (adopt i t w'))" "tk_scope (tw_tasks (adopt i t w') ! u) = Some j"
    then have u: "u < length (tw_tasks w')" "tk_scope (tw_tasks w' ! u) = Some j" unfolding a by simp_all
    show "\<exists>st. tw_states (adopt i t w') j = Some st \<and> handle_ok st (tw_tasks (adopt i t w') ! u) u"
    proof (cases "u = t")
      case True
      then have "j = i" using u(2) sel(2,3) by simp
      then show ?thesis using ts(2) st(2) True unfolding a by (simp add: x_def handle_ok_def)
    next
      case False
      then obtain y where y: "tw_states w' j = Some y" "handle_ok y (tw_tasks w' ! u) u"
        using u sel(2,3) spawn_owned(2) [OF o assms(3), of u j] by auto
      then have "j = i \<Longrightarrow> handle_ok x (tw_tasks w' ! u) u"
        using st ts(3) [of u] by (auto simp: handle_ok_def x_def task_finished_def)
      then show ?thesis using y by (auto simp: a)
    qed
  qed
  moreover have "scopes_ok (adopt i t w')"
    using sc st unfolding scopes_ok_def a by (auto simp: x_def)
  moreover have "registry_ok (adopt i t w')" using rg by (auto simp: a elim: registry_ok_cong)
  ultimately show ?thesis by (simp add: task_inv_def)
qed

lemma promise_inv:
  assumes "task_inv w"
  shows "task_inv (snd (from_future w))"
proof (cases "tr_current w")
  case None
  then show ?thesis using spawn_inv [OF assms] by (simp add: from_future_def current_scope_def Let_def split: prod.splits)
next
  case (Some i)
  obtain task w' where r: "registry_spawn (Some i) w = (task, w')" by (cases "registry_spawn (Some i) w")
  show ?thesis
  proof (cases task)
    case None
    then have "w' = w" using r by (auto simp: registry_spawn_def Let_def split: if_splits prod.splits)
    then show ?thesis using assms None Some r by (simp add: from_future_def current_scope_def Let_def)
  next
    case (Some t)
    then show ?thesis using adopt_inv [OF assms \<open>tr_current w = Some i\<close>] r \<open>tr_current w = Some i\<close>
      by (simp add: from_future_def current_scope_def Let_def)
  qed
qed

lemma task_step_inv: "task_step w w' \<Longrightarrow> task_inv w \<Longrightarrow> task_inv w'"
  by (induction rule: task_step.induct)
     (auto intro: spawn_inv promise_inv begin_inv enter_inv cancel_inv shutdown_inv poll_begin_inv poll_end_inv elsewhere_inv)

lemma task_run_inv: "task_run w w' \<Longrightarrow> task_inv w \<Longrightarrow> task_inv w'"
  by (induction rule: task_run.induct) (auto intro: task_step_inv)

lemma task_reachable_inv: "task_reachable w \<Longrightarrow> task_inv w"
  unfolding task_reachable_def using task_run_inv task_inv_init by blast

section \<open>What cancelling a scope guarantees\<close>

definition tasks_in :: "u64 \<Rightarrow> task_world \<Rightarrow> nat set" where
  "tasks_in i w = {t. t < length (tw_tasks w) \<and> tk_scope (tw_tasks w ! t) = Some i}"

definition settled :: "task_world \<Rightarrow> nat set" where
  "settled w = {t. t < length (tw_tasks w) \<and> tk_end (tw_tasks w ! t) = Tk_Settled}"

text \<open>Nothing new happens in scope \<open>i\<close>: it stays cancelled, gets no task, and none of its promises settles.\<close>

definition frozen :: "u64 \<Rightarrow> task_world \<Rightarrow> task_world \<Rightarrow> bool" where
  "frozen i w w' \<longleftrightarrow> scope_cancelled w' i \<and> tasks_in i w' = tasks_in i w \<and> settled w' \<inter> tasks_in i w = settled w \<inter> tasks_in i w"

lemma frozenI:
  assumes "scope_cancelled w i" "tw_states w' i = tw_states w i"
    and "length (tw_tasks w') = length (tw_tasks w)"
    and "\<And>t. t < length (tw_tasks w) \<Longrightarrow> tk_scope (tw_tasks w' ! t) = tk_scope (tw_tasks w ! t)"
    and "\<And>t. t < length (tw_tasks w) \<Longrightarrow> tk_scope (tw_tasks w ! t) = Some i \<Longrightarrow>
           tk_end (tw_tasks w' ! t) = Tk_Settled \<longleftrightarrow> tk_end (tw_tasks w ! t) = Tk_Settled"
  shows "frozen i w w'"
proof -
  have "scope_cancelled w' i" using assms(1,2) by (simp add: scope_cancelled_def)
  moreover have "tasks_in i w' = tasks_in i w" using assms(3,4) by (auto simp: tasks_in_def)
  moreover have "settled w' \<inter> tasks_in i w = settled w \<inter> tasks_in i w"
    using assms(3,5) by (auto simp: settled_def tasks_in_def)
  ultimately show ?thesis by (simp add: frozen_def)
qed

lemma frozen_append:
  assumes "scope_cancelled w i" "tw_states w' i = tw_states w i" "tw_tasks w' = tw_tasks w @ [new_task scope]" "scope \<noteq> Some i"
  shows "frozen i w w'"
proof -
  have "scope_cancelled w' i" using assms(1,2) by (simp add: scope_cancelled_def)
  moreover have "tasks_in i w' = tasks_in i w"
    using assms(3,4) by (auto simp: tasks_in_def nth_append less_Suc_eq split: if_splits)
  moreover have "settled w' \<inter> tasks_in i w = settled w \<inter> tasks_in i w"
    using assms(3) by (auto simp: settled_def tasks_in_def nth_append)
  ultimately show ?thesis by (simp add: frozen_def)
qed

lemma cancelled_not_open: "task_inv w \<Longrightarrow> scope_cancelled w i \<Longrightarrow> i \<notin> tr_scopes w \<and> tr_current w \<noteq> Some i"
  unfolding task_inv_def scopes_ok_def scope_cancelled_def by (auto split: option.splits)

lemma adopt_simps [simp]:
  "tw_tasks (adopt j t w) = tw_tasks w" "i \<noteq> j \<Longrightarrow> tw_states (adopt j t w) i = tw_states w i"
  by (auto simp: adopt_def split: option.splits prod.splits)

lemma frozen_promise:
  assumes "task_inv w" "scope_cancelled w i"
  shows "frozen i w (snd (from_future w))"
proof -
  obtain task w' where r: "registry_spawn (tr_current w) w = (task, w')" by (cases "registry_spawn (tr_current w) w")
  have f: "frozen i w w" using assms(2) by (simp add: frozen_def)
  have n: "tr_current w \<noteq> Some i" using cancelled_not_open [OF assms] by simp
  show ?thesis
  proof (cases task)
    case None
    then have "w' = w" using r by (auto simp: registry_spawn_def Let_def split: if_splits prod.splits)
    then show ?thesis using f None r by (simp add: from_future_def current_scope_def Let_def split: option.splits)
  next
    case (Some t)
    note sel = spawn_simps [OF r [unfolded Some]]
    show ?thesis
    proof (rule frozen_append [OF assms(2) _ _ n])
      show "tw_states (snd (from_future w)) i = tw_states w i"
        using r Some n sel(7) by (auto simp: from_future_def current_scope_def Let_def split: option.splits)
      show "tw_tasks (snd (from_future w)) = tw_tasks w @ [new_task (tr_current w)]"
        using r Some sel(3) by (simp add: from_future_def current_scope_def Let_def split: option.splits)
    qed
  qed
qed

lemma frozen_end_task:
  assumes "scope_cancelled w i" "t < length (tw_tasks w)" "tk_end (tw_tasks w ! t) = Tk_Live"
    and "x = Tk_Settled \<Longrightarrow> tk_scope (tw_tasks w ! t) \<noteq> Some i" "tw_states w' = tw_states w" "tw_tasks w' = tw_tasks w"
  shows "frozen i w (end_task t x w')"
  by (rule frozenI) (use assms in \<open>auto simp: end_task_nth\<close>)

lemma frozen_poll_end:
  assumes "task_inv w" "scope_cancelled w i"
  shows "frozen i w (poll_end ready w)"
proof (cases "tw_polling w")
  case None
  then show ?thesis using assms(2) by (simp add: poll_end_def frozen_def)
next
  case (Some t)
  then have t: "t < length (tw_tasks w)" "tk_end (tw_tasks w ! t) = Tk_Live"
    using assms(1) by (simp_all add: task_inv_def registry_ok_def)
  let ?w = "w\<lparr>tw_polling := None\<rparr>"
  have s: "\<not> abandoned ?w t \<Longrightarrow> tk_scope (tw_tasks w ! t) \<noteq> Some i"
    using assms(2) by (auto simp: abandoned_def scope_cancelled_def)
  have "frozen i w (end_task t Tk_Dropped ?w)" "frozen i w ?w"
    "\<not> abandoned ?w t \<Longrightarrow> frozen i w (end_task t Tk_Settled ?w)"
    using frozen_end_task [OF assms(2) t, of Tk_Dropped ?w] frozen_end_task [OF assms(2) t, of Tk_Settled ?w] s
      frozenI [OF assms(2), of ?w] by simp_all
  then show ?thesis using Some by (simp add: poll_end_def Let_def)
qed

lemma frozen_step:
  assumes "task_step w w'" "task_inv w" "scope_cancelled w i"
  shows "frozen i w w'"
  using assms(1)
proof cases
  case ts_spawn
  show ?thesis
  proof (cases "tr_closed w")
    case True
    then show ?thesis using ts_spawn assms(3) by (simp add: registry_spawn_def frozen_def)
  next
    case False
    then show ?thesis unfolding ts_spawn
      by (intro frozen_append [OF assms(3), of _ None]) (auto simp: registry_spawn_def Let_def split: prod.splits)
  qed
next
  case ts_promise
  then show ?thesis using frozen_promise [OF assms(2,3)] by simp
next
  case (ts_begin j)
  have "tw_states w (tw_next_scope w) = None" using assms(2) by (auto simp: task_inv_def scopes_ok_def)
  then have "tw_next_scope w \<noteq> i" using assms(3) by (auto simp: scope_cancelled_def)
  then show ?thesis using ts_begin
    by (intro frozenI [OF assms(3)]) (auto simp: begin_scope_def Let_def split: option.splits)
next
  case (ts_enter scope)
  then show ?thesis by (intro frozenI [OF assms(3)]) (simp_all add: enter_scope_def Let_def)
next
  case (ts_cancel j)
  show ?thesis
  proof (cases "j \<in> tr_scopes w")
    case True
    then have "j \<noteq> i" using cancelled_not_open [OF assms(2,3)] by auto
    then show ?thesis unfolding ts_cancel using True
      by (intro frozenI [OF assms(3)]) (auto simp: cancel_scope_def Let_def abort_each_nth)
  next
    case False
    then show ?thesis using ts_cancel assms(3) by (simp add: cancel_scope_def frozen_def)
  qed
next
  case ts_shutdown
  then show ?thesis by (intro frozenI [OF assms(3)]) (simp_all add: abort_all_def abort_each_nth)
next
  case (ts_poll t)
  then have "tk_end (tw_tasks w ! t) = Tk_Live" by (simp add: task_finished_def)
  then show ?thesis using ts_poll frozen_end_task [OF assms(3), of t Tk_Dropped w] frozenI [OF assms(3), of "w\<lparr>tw_polling := Some t\<rparr>"]
    by (simp add: poll_begin_def)
next
  case (ts_poll_end ready)
  then show ?thesis using frozen_poll_end [OF assms(2,3)] by simp
next
  case (ts_elsewhere n)
  then show ?thesis by (intro frozenI [OF assms(3)]) simp_all
qed

lemma frozen_trans: "frozen i w v \<Longrightarrow> frozen i v u \<Longrightarrow> frozen i w u"
  by (auto simp: frozen_def)

lemma frozen_run:
  assumes "task_run w w'" "task_inv w" "scope_cancelled w i"
  shows "frozen i w w'"
  using assms
proof (induction rule: task_run.induct)
  case (tr_step w v u)
  then have "frozen i w v" by simp
  moreover have "task_inv v" using tr_step.hyps(1) tr_step.prems(1) by (rule task_run_inv)
  ultimately show ?case using frozen_step [OF tr_step.hyps(2)] frozen_trans by (metis frozen_def)
qed (simp add: frozen_def)

text \<open>
  C5. Abandoned work never resumes. Once a scope has been cancelled, then whatever the host, the scripts and the executor
  do, in whatever order, and even if the scope was cancelled in the middle of a poll of one of its own tasks: no
  further promise of the scope settles, no new task joins it, and it stays cancelled; scope numbers are not used
  again, so no later scope is mistaken for it.
\<close>

theorem cancelled_scope_never_settles:
  assumes "task_reachable w" "scope_cancelled w i" "task_run w w'"
  shows "scope_cancelled w' i \<and> tasks_in i w' = tasks_in i w \<and>
         settled w' \<inter> tasks_in i w' = settled w \<inter> tasks_in i w"
  using frozen_run [OF assms(3) task_reachable_inv [OF assms(1)] assms(2)] by (simp add: frozen_def)

text \<open>
  Cancelling a scope aborts exactly its own unfinished work. The call answers whether the scope was open. If it was,
  every task of it that has not finished is aborted, so the executor drops its future at the next turn or, if
  it is being polled, at the end of the poll whatever it returns; tasks outside the scope, settled promises and
  other scopes are left alone; and the scope is no longer current and cannot be entered or cancelled again.
\<close>

theorem cancel_scope_exact:
  assumes "task_reachable w" "cancel_scope i w = (r, w')"
  shows "(r \<longleftrightarrow> i \<in> tr_scopes w) \<and> (\<not> r \<longrightarrow> w' = w) \<and>
         (r \<longrightarrow>
            (\<forall>t \<in> tasks_in i w. tk_end (tw_tasks w' ! t) = tk_end (tw_tasks w ! t) \<and>
               (tk_end (tw_tasks w ! t) = Tk_Live \<longrightarrow>
                  tk_abort (tw_tasks w' ! t) \<and> tk_end (tw_tasks (poll_begin t w') ! t) = Tk_Dropped \<and>
                  (tw_polling w = Some t \<longrightarrow> tk_end (tw_tasks (poll_end ready w') ! t) = Tk_Dropped))) \<and>
            (\<forall>t. t < length (tw_tasks w) \<longrightarrow> t \<notin> tasks_in i w \<longrightarrow> tw_tasks w' ! t = tw_tasks w ! t) \<and>
            (\<forall>j. j \<noteq> i \<longrightarrow> tw_states w' j = tw_states w j) \<and>
            current_scope w' \<noteq> Some i \<and> current_scope (snd (enter_scope (Some i) w')) = None \<and> \<not> fst (cancel_scope i w'))"
proof (cases "i \<in> tr_scopes w")
  case True
  have inv: "task_inv w" by (rule task_reachable_inv [OF assms(1)])
  then obtain st where st: "tw_states w i = Some st" "\<not> sc_cancelled st"
    using True unfolding task_inv_def scopes_ok_def by blast
  have r: r and c: "cancel_scope i w = (True, w')" using assms(2) True by (auto simp: cancel_scope_def Let_def)
  note sel = cancel_scope_simps [OF c st(1)]
  have o: "owned_ok w" using inv by (simp add: task_inv_def)
  have own: "t \<in> set (sc_tasks st) \<Longrightarrow> t \<in> tasks_in i w" for t
    using owned_handle [OF o st(1)] by (auto simp: tasks_in_def)
  have can: "scope_cancelled w' i" by (simp add: scope_cancelled_def sel(7))
  have "tk_end (tw_tasks w' ! t) = tk_end (tw_tasks w ! t)" if "t \<in> tasks_in i w" for t
    using that by (simp add: sel(8) tasks_in_def abort_each_nth)
  moreover have "tk_abort (tw_tasks w' ! t) \<and> tk_end (tw_tasks (poll_begin t w') ! t) = Tk_Dropped \<and>
      (tw_polling w = Some t \<longrightarrow> tk_end (tw_tasks (poll_end ready w') ! t) = Tk_Dropped)"
    if t: "t \<in> tasks_in i w" and live: "tk_end (tw_tasks w ! t) = Tk_Live" for t
  proof -
    have l: "t < length (tw_tasks w)" "tk_scope (tw_tasks w ! t) = Some i" using t by (simp_all add: tasks_in_def)
    have "t \<in> set (sc_tasks st)" using owned_task [OF o l] st live by (auto simp: handle_ok_def)
    then have a: "tk_abort (tw_tasks w' ! t)" using l by (simp add: sel(8) abort_each_nth)
    have ab: "abandoned (w'\<lparr>tw_polling := None\<rparr>) t"
      using l can by (simp add: abandoned_def sel(8) abort_each_nth scope_cancelled_def)
    have n: "t < length (tw_tasks w')" using l by (simp add: sel(8))
    show ?thesis using a ab n sel(4) by (auto simp: poll_begin_def poll_end_def end_task_nth Let_def)
  qed
  moreover have "tw_tasks w' ! t = tw_tasks w ! t" if "t < length (tw_tasks w)" "t \<notin> tasks_in i w" for t
    using that own by (auto simp: sel(8) abort_each_nth)
  ultimately show ?thesis
    using r True by (auto simp: sel current_scope_def enter_scope_def cancel_scope_def Let_def)
qed (use assms(2) in \<open>auto simp: cancel_scope_def\<close>)

text \<open>After the registry is closed there are no new tasks, and only a poll that was already running can still settle.\<close>

definition closing :: "task_world \<Rightarrow> task_world \<Rightarrow> bool" where
  "closing w w' \<longleftrightarrow> tr_closed w' \<and> length (tw_tasks w') = length (tw_tasks w) \<and>
     (\<forall>t. tw_polling w' = Some t \<longrightarrow> tw_polling w = Some t) \<and>
     settled w' \<subseteq> settled w \<union> {t. tw_polling w = Some t}"

lemma closing_step:
  assumes "task_step v u" "task_inv v" "closing w v"
  shows "closing w u"
  using assms(1)
proof cases
  case (ts_poll t)
  have "tk_abort (tw_tasks v ! t)"
    using assms(2,3) ts_poll by (auto simp: task_inv_def registry_ok_def closing_def task_finished_def)
  then show ?thesis using assms(3) ts_poll
    by (auto simp: closing_def poll_begin_def settled_def end_task_nth split: if_splits)
next
  case (ts_poll_end ready)
  show ?thesis
  proof (cases "tw_polling v")
    case None
    then show ?thesis using ts_poll_end assms(3) by (simp add: poll_end_def)
  next
    case (Some t)
    then show ?thesis using ts_poll_end assms(3)
      by (auto simp: closing_def poll_end_def Let_def settled_def end_task_nth split: if_splits)
  qed
qed (use assms(3) in \<open>auto simp: closing_def settled_def registry_spawn_def from_future_def current_scope_def begin_scope_def
      enter_scope_def cancel_scope_def abort_all_def Let_def split: option.splits\<close>)

text \<open>
  Closing a context's registry stops its tasks: every task that has not finished is aborted; after that, on every run,
  no task is spawned, no task is polled any more, and no promise settles except by the one poll that was in
  progress.
\<close>

theorem shutdown_stops_tasks:
  assumes "task_reachable w" "task_run (snd (abort_all w)) w'"
  shows "fst (registry_spawn scope w') = None \<and> length (tw_tasks w') = length (tw_tasks w) \<and>
         (\<forall>t. tw_polling w' = Some t \<longrightarrow> tw_polling w = Some t) \<and>
         settled w' \<subseteq> settled w \<union> {t. tw_polling w = Some t} \<and>
         (\<forall>t < length (tw_tasks w'). tk_end (tw_tasks w' ! t) = Tk_Live \<longrightarrow> tk_abort (tw_tasks w' ! t))"
proof -
  let ?v = "snd (abort_all w)"
  have i: "task_inv ?v" by (rule shutdown_inv [OF task_reachable_inv [OF assms(1)]])
  have c: "closing w ?v" by (auto simp: closing_def abort_all_def settled_def)
  have "closing w w' \<and> task_inv w'"
    using assms(2) i c
  proof (induction ?v w' rule: task_run.induct)
    case (tr_step v u)
    then show ?case using closing_step task_step_inv by blast
  qed simp
  then show ?thesis by (auto simp: closing_def registry_spawn_def task_inv_def registry_ok_def)
qed

section \<open>Instances\<close>

text \<open>A promise whose scope is cancelled while its future is being polled.\<close>

definition demo_open :: task_world where
  "demo_open = (tw_init 0)\<lparr>tw_next_scope := 1, tw_states := [0 \<mapsto> scope_default], tr_scopes := {0}, tr_current := Some 0\<rparr>"

definition demo_promise :: task_world where
  "demo_promise = snd (from_future demo_open)"

definition demo_polled :: task_world where
  "demo_polled = poll_begin 0 demo_promise"

definition demo_cancelled :: task_world where
  "demo_cancelled = snd (cancel_scope 0 demo_polled)"

lemma demo_promise_simps:
  "tw_tasks demo_promise = [new_task (Some 0)]" "tw_polling demo_promise = None" "tr_scopes demo_promise = {0}"
  "tw_states demo_promise = [0 \<mapsto> \<lparr>sc_cancelled = False, sc_tasks = [0], sc_sweep_at = 0\<rparr>]" "tr_tasks demo_promise = [0]"
  by (simp_all add: demo_promise_def from_future_def current_scope_def demo_open_def tw_init_def registry_spawn_def
      push_task_handle_def MIN_TASK_SWEEP_def adopt_def scope_default_def Let_def)

lemma demo_polled_simps:
  "tw_tasks demo_polled = [new_task (Some 0)]" "tw_polling demo_polled = Some 0" "tr_scopes demo_polled = {0}"
  "tw_states demo_polled = [0 \<mapsto> \<lparr>sc_cancelled = False, sc_tasks = [0], sc_sweep_at = 0\<rparr>]" "tr_tasks demo_polled = [0]"
  by (simp_all add: demo_polled_def poll_begin_def demo_promise_simps abandoned_def scope_cancelled_def)

lemma demo_polled_reachable: "task_reachable demo_polled"
proof -
  have "begin_scope (tw_init 0) = Some (0, demo_open)"
    by (simp add: begin_scope_def tw_init_def checked_add_def demo_open_def Let_def)
  then have "task_run (tw_init 0) demo_open" using tr_step [OF tr_refl ts_begin] by blast
  then have "task_run (tw_init 0) demo_promise" unfolding demo_promise_def using tr_step ts_promise by blast
  moreover have "task_step demo_promise demo_polled"
    unfolding demo_polled_def by (rule ts_poll) (simp_all add: demo_promise_simps task_finished_def)
  ultimately show ?thesis unfolding task_reachable_def using tr_step by blast
qed

lemma demo_cancelled_reachable: "task_reachable demo_cancelled"
  using demo_polled_reachable ts_cancel tr_step unfolding task_reachable_def demo_cancelled_def by blast

lemma demo_cancel: "cancel_scope 0 demo_polled = (True, demo_cancelled)"
  unfolding demo_cancelled_def by (simp add: cancel_scope_def demo_polled_simps Let_def)

lemma demo_cancelled_simps:
  "scope_cancelled demo_cancelled 0" "length (tw_tasks demo_cancelled) = 1" "tk_scope (tw_tasks demo_cancelled ! 0) = Some 0"
  "tk_end (tw_tasks demo_cancelled ! 0) = Tk_Live"
  using cancel_scope_simps(7,8) [OF demo_cancel, of "\<lparr>sc_cancelled = False, sc_tasks = [0], sc_sweep_at = 0\<rparr>"]
  by (simp_all add: demo_polled_simps scope_cancelled_def)

theorem cancelled_scope_never_settles_witness:
  "0 \<in> tasks_in 0 (poll_end True demo_cancelled) \<and> settled (poll_end True demo_cancelled) \<inter> tasks_in 0 demo_cancelled = {}"
proof -
  have "task_run demo_cancelled (poll_end True demo_cancelled)" using tr_step [OF tr_refl ts_poll_end] by blast
  from cancelled_scope_never_settles [OF demo_cancelled_reachable demo_cancelled_simps(1) this]
  have "tasks_in 0 (poll_end True demo_cancelled) = tasks_in 0 demo_cancelled"
    "settled (poll_end True demo_cancelled) \<inter> tasks_in 0 (poll_end True demo_cancelled) = settled demo_cancelled \<inter> tasks_in 0 demo_cancelled"
    by blast+
  moreover have "0 \<in> tasks_in 0 demo_cancelled" "settled demo_cancelled \<inter> tasks_in 0 demo_cancelled = {}"
    using demo_cancelled_simps by (auto simp: tasks_in_def settled_def)
  ultimately show ?thesis by simp
qed

theorem cancel_scope_exact_witness:
  "tk_abort (tw_tasks demo_cancelled ! 0) \<and> tk_end (tw_tasks (poll_end True demo_cancelled) ! 0) = Tk_Dropped \<and>
   \<not> fst (cancel_scope 0 demo_cancelled)"
proof -
  have "0 \<in> tasks_in 0 demo_polled" by (simp add: tasks_in_def demo_polled_simps)
  then show ?thesis
    using cancel_scope_exact [OF demo_polled_reachable demo_cancel, of True] by (simp add: demo_polled_simps)
qed

theorem shutdown_stops_tasks_witness:
  "fst (registry_spawn None (poll_end False (snd (abort_all demo_polled)))) = None"
proof -
  have "task_run (snd (abort_all demo_polled)) (poll_end False (snd (abort_all demo_polled)))"
    using tr_step [OF tr_refl ts_poll_end] by blast
  from shutdown_stops_tasks [OF demo_polled_reachable this, of None] show ?thesis by simp
qed

end
