(* ===== verification/Context_Life.thy ===== *)
theory Context_Life
  imports Task_Scope Interrupt "HOL-Library.Multiset"
begin

text \<open>
  The life of a context in \<^verbatim>\<open>core/src/context.rs\<close>: its services, the handles that own it, the shutdown when the last
  of them is dropped, and the checks for an interrupt around an evaluation. Services are told apart by a number; the
  log records the calls of \<^verbatim>\<open>on_shutdown\<close>. A hash map may visit its entries in any order, which is an argument of the
  shutdown.
\<close>

section \<open>Services\<close>

text \<open>A slot holds a service, or plain state, whose \<^verbatim>\<open>on_shutdown\<close> does nothing.\<close>

datatype ('i, 'v) slot = Service 'i | State_Of 'v

record ('k, 'i, 'v) service_container =
  sv_services :: "('k \<times> ('i, 'v) slot) list"
  sv_retired :: "('i, 'v) slot list"
  sv_closed :: bool
  sv_log :: "'i list"

definition sv_new :: "('k, 'i, 'v) service_container" where
  "sv_new = \<lparr>sv_services = [], sv_retired = [], sv_closed = False, sv_log = []\<rparr>"

definition on_shutdown :: "('i, 'v) slot \<Rightarrow> 'i list \<Rightarrow> 'i list" where
  "on_shutdown x log = (case x of Service i \<Rightarrow> log @ [i] | State_Of _ \<Rightarrow> log)"

text \<open>The insertion into the map and what happens to the entry it replaces.\<close>

definition sv_insert :: "'k \<Rightarrow> ('i, 'v) slot \<Rightarrow> ('k, 'i, 'v) service_container \<Rightarrow> ('k, 'i, 'v) service_container" where
  "sv_insert k x s =
     (let replaced = map_of (sv_services s) k;
          s = s\<lparr>sv_services := (k, x) # filter (\<lambda>(k', _). k' \<noteq> k) (sv_services s)\<rparr>
      in case replaced of
           Some y \<Rightarrow> s\<lparr>sv_retired := sv_retired s @ [y]\<rparr>
         | None \<Rightarrow> s)"

definition sv_register :: "'k \<Rightarrow> 'i \<Rightarrow> ('k, 'i, 'v) service_container \<Rightarrow> ('k, 'i, 'v) service_container" where
  "sv_register k i s =
     (if sv_closed s then s\<lparr>sv_log := on_shutdown (Service i :: ('i, 'v) slot) (sv_log s)\<rparr> else sv_insert k (Service i) s)"

definition sv_get :: "'k \<Rightarrow> ('k, 'i, 'v) service_container \<Rightarrow> 'i option" where
  "sv_get k s =
     (if sv_closed s then None
      else (case map_of (sv_services s) k of Some (Service i) \<Rightarrow> Some i | _ \<Rightarrow> None))"

definition sv_register_state :: "'k \<Rightarrow> 'v \<Rightarrow> ('k, 'i, 'v) service_container \<Rightarrow> ('k, 'i, 'v) service_container" where
  "sv_register_state k v s = (if sv_closed s then s else sv_insert k (State_Of v) s)"

definition sv_get_state :: "'k \<Rightarrow> ('k, 'i, 'v) service_container \<Rightarrow> 'v option" where
  "sv_get_state k s =
     (if sv_closed s then None
      else (case map_of (sv_services s) k of Some (State_Of v) \<Rightarrow> Some v | _ \<Rightarrow> None))"

definition sv_shutdown ::
  "(('i, 'v) slot list \<Rightarrow> ('i, 'v) slot list) \<Rightarrow> ('k, 'i, 'v) service_container \<Rightarrow> ('k, 'i, 'v) service_container" where
  "sv_shutdown order s =
     (if sv_closed s then s
      else s\<lparr>sv_closed := True,
             sv_log := fold on_shutdown (sv_retired s) (fold on_shutdown (order (map snd (sv_services s))) (sv_log s))\<rparr>)"

section \<open>Handles\<close>

text \<open>
  A context with the number of handles that exist, those that own its life and the borrowed ones, and whether its entry
  in the global table is there.
\<close>

record ('k, 'i, 'v) ctx_life =
  cl_services :: "('k, 'i, 'v) service_container"
  cl_owners :: usize
  cl_opaque :: bool
  cl_owning_handles :: nat
  cl_borrowed_handles :: nat

definition ctx_new :: "('k, 'i, 'v) ctx_life" where
  "ctx_new = \<lparr>cl_services = sv_new, cl_owners = 1, cl_opaque = True, cl_owning_handles = 1, cl_borrowed_handles = 0\<rparr>"

definition ctx_clone :: "bool \<Rightarrow> ('k, 'i, 'v) ctx_life \<Rightarrow> ('k, 'i, 'v) ctx_life" where
  "ctx_clone owns c =
     (if owns then c\<lparr>cl_owners := cl_owners c + 1, cl_owning_handles := Suc (cl_owning_handles c)\<rparr>
      else c\<lparr>cl_borrowed_handles := Suc (cl_borrowed_handles c)\<rparr>)"

text \<open>\<^const>\<open>None\<close>: the context is gone and the call panics.\<close>

definition from_borrowed_raw_ptr :: "('k, 'i, 'v) ctx_life \<Rightarrow> ('k, 'i, 'v) ctx_life option" where
  "from_borrowed_raw_ptr c = (if cl_opaque c then Some (c\<lparr>cl_borrowed_handles := Suc (cl_borrowed_handles c)\<rparr>) else None)"

definition ctx_drop ::
  "(('i, 'v) slot list \<Rightarrow> ('i, 'v) slot list) \<Rightarrow> bool \<Rightarrow> ('k, 'i, 'v) ctx_life \<Rightarrow> ('k, 'i, 'v) ctx_life" where
  "ctx_drop order owns c =
     (if \<not> owns then c\<lparr>cl_borrowed_handles := cl_borrowed_handles c - 1\<rparr>
      else
        (let remaining = saturating_sub (cl_owners c) 1;
             c = c\<lparr>cl_owners := remaining, cl_owning_handles := cl_owning_handles c - 1\<rparr>
         in if remaining = 0 then c\<lparr>cl_services := sv_shutdown order (cl_services c), cl_opaque := False\<rparr> else c))"

section \<open>Runs\<close>

text \<open>What is done with a context: a handle can only be copied, dropped or used while it exists.\<close>

datatype ('k, 'i, 'v) ctx_event = Clone bool | Borrow | Drop_Handle bool | Set_Service 'k 'i | Set_State 'k 'v

fun ctx_enabled :: "('k, 'i, 'v) ctx_event \<Rightarrow> ('k, 'i, 'v) ctx_life \<Rightarrow> bool" where
  "ctx_enabled (Clone True) c = (0 < cl_owning_handles c)"
| "ctx_enabled (Clone False) c = (0 < cl_borrowed_handles c)"
| "ctx_enabled Borrow c = cl_opaque c"
| "ctx_enabled (Drop_Handle True) c = (0 < cl_owning_handles c)"
| "ctx_enabled (Drop_Handle False) c = (0 < cl_borrowed_handles c)"
| "ctx_enabled (Set_Service _ _) c = (0 < cl_owning_handles c + cl_borrowed_handles c)"
| "ctx_enabled (Set_State _ _) c = (0 < cl_owning_handles c + cl_borrowed_handles c)"

fun ctx_apply ::
  "(('i, 'v) slot list \<Rightarrow> ('i, 'v) slot list) \<Rightarrow> ('k, 'i, 'v) ctx_event \<Rightarrow> ('k, 'i, 'v) ctx_life \<Rightarrow> ('k, 'i, 'v) ctx_life" where
  "ctx_apply order (Clone owns) c = ctx_clone owns c"
| "ctx_apply order Borrow c = (case from_borrowed_raw_ptr c of Some c' \<Rightarrow> c' | None \<Rightarrow> c)"
| "ctx_apply order (Drop_Handle owns) c = ctx_drop order owns c"
| "ctx_apply order (Set_Service k i) c = c\<lparr>cl_services := sv_register k i (cl_services c)\<rparr>"
| "ctx_apply order (Set_State k v) c = c\<lparr>cl_services := sv_register_state k v (cl_services c)\<rparr>"

fun ctx_run ::
  "(('i, 'v) slot list \<Rightarrow> ('i, 'v) slot list) \<Rightarrow> ('k, 'i, 'v) ctx_event list \<Rightarrow> ('k, 'i, 'v) ctx_life \<Rightarrow> ('k, 'i, 'v) ctx_life option" where
  "ctx_run order [] c = Some c"
| "ctx_run order (e # es) c = (if ctx_enabled e c then ctx_run order es (ctx_apply order e c) else None)"

text \<open>The services a run registers.\<close>

fun services_of :: "('k, 'i, 'v) ctx_event list \<Rightarrow> 'i list" where
  "services_of [] = []"
| "services_of (Set_Service k i # es) = i # services_of es"
| "services_of (_ # es) = services_of es"

fun slot_services :: "('i, 'v) slot list \<Rightarrow> 'i list" where
  "slot_services [] = []"
| "slot_services (Service i # xs) = i # slot_services xs"
| "slot_services (State_Of v # xs) = slot_services xs"

lemma fold_on_shutdown: "fold on_shutdown xs log = log @ slot_services xs"
proof (induction xs arbitrary: log)
  case (Cons x xs)
  then show ?case by (cases x) (simp_all add: on_shutdown_def)
qed simp

lemma slot_services_append: "slot_services (xs @ ys) = slot_services xs @ slot_services ys"
proof (induction xs)
  case (Cons x xs)
  then show ?case by (cases x) simp_all
qed simp

lemma slot_services_sum:
  "mset (slot_services xs) = \<Sum>\<^sub># (image_mset (\<lambda>x. case x of Service i \<Rightarrow> {#i#} | State_Of _ \<Rightarrow> {#}) (mset xs))"
proof (induction xs)
  case (Cons x xs)
  then show ?case by (cases x) simp_all
qed simp

lemma slot_services_mset: "mset xs = mset ys \<Longrightarrow> mset (slot_services xs) = mset (slot_services ys)"
  by (simp add: slot_services_sum)

text \<open>The services a container still has to notify.\<close>

definition sv_pending :: "('k, 'i, 'v) service_container \<Rightarrow> 'i list" where
  "sv_pending s = slot_services (map snd (sv_services s) @ sv_retired s)"

lemma filter_other: "distinct (map fst kvs) \<Longrightarrow> map_of kvs k = Some y \<Longrightarrow>
   mset (map snd kvs) = add_mset y (mset (map snd (filter (\<lambda>(k', _). k' \<noteq> k) kvs)))"
proof (induction kvs)
  case (Cons p kvs)
  obtain a b where p: "p = (a, b)" by (cases p)
  show ?case
  proof (cases "a = k")
    case True
    then have "k \<notin> fst ` set kvs" using Cons.prems p by auto
    then have "filter (\<lambda>(k', _). k' \<noteq> k) kvs = kvs" by (intro filter_True) force
    then show ?thesis using True Cons.prems p by simp
  next
    case False
    then show ?thesis using Cons p by simp
  qed
qed simp

lemma filter_absent: "map_of kvs k = None \<Longrightarrow> filter (\<lambda>(k', _). k' \<noteq> k) kvs = kvs"
  by (intro filter_True) (force simp: map_of_eq_None_iff)

lemma sv_insert_pending:
  assumes "distinct (map fst (sv_services s))"
  shows "mset (sv_pending (sv_insert k x s)) = mset (slot_services [x]) + mset (sv_pending s)"
    and "distinct (map fst (sv_services (sv_insert k x s)))" "sv_closed (sv_insert k x s) = sv_closed s"
    "sv_log (sv_insert k x s) = sv_log s"
proof -
  let ?f = "filter (\<lambda>(k', _). k' \<noteq> k) (sv_services s)"
  have p: "mset (map snd (sv_services (sv_insert k x s)) @ sv_retired (sv_insert k x s)) =
      mset ([x] @ map snd (sv_services s) @ sv_retired s)"
  proof (cases "map_of (sv_services s) k")
    case None
    then show ?thesis using filter_absent [OF None] by (simp add: sv_insert_def Let_def)
  next
    case (Some y)
    then show ?thesis using filter_other [OF assms Some] by (simp add: sv_insert_def Let_def)
  qed
  show "mset (sv_pending (sv_insert k x s)) = mset (slot_services [x]) + mset (sv_pending s)"
    using slot_services_mset [OF p] by (cases x) (simp_all add: sv_pending_def slot_services_append)
  have "distinct (map fst ?f)" "k \<notin> fst ` set ?f" using assms by (auto simp: distinct_map_filter)
  then show "distinct (map fst (sv_services (sv_insert k x s)))"
    by (auto simp: sv_insert_def Let_def split: option.splits)
qed (auto simp: sv_insert_def Let_def split: option.splits)

section \<open>Shutdown\<close>

text \<open>What holds after the events \<open>es\<close>.\<close>

definition life_ok :: "('k, 'i, 'v) ctx_event list \<Rightarrow> ('k, 'i, 'v) ctx_life \<Rightarrow> bool" where
  "life_ok es c \<longleftrightarrow>
     cl_owners c = of_nat (cl_owning_handles c) \<and> cl_owning_handles c \<le> Suc (length es) \<and>
     (sv_closed (cl_services c) \<longleftrightarrow> cl_owning_handles c = 0) \<and> (cl_opaque c \<longleftrightarrow> cl_owning_handles c \<noteq> 0) \<and>
     distinct (map fst (sv_services (cl_services c))) \<and>
     (if sv_closed (cl_services c) then mset (sv_log (cl_services c)) = mset (services_of es)
      else sv_log (cl_services c) = [] \<and> mset (sv_pending (cl_services c)) = mset (services_of es))"

lemma services_of_append: "services_of (xs @ ys) = services_of xs @ services_of ys"
  by (induction xs rule: services_of.induct) simp_all

lemma owners_sub:
  assumes "0 < n" "n < 2 ^ 64"
  shows "saturating_sub (of_nat n :: usize) 1 = of_nat (n - 1)" "(of_nat (n - 1) :: usize) = 0 \<longleftrightarrow> n = 1"
proof -
  have u: "unat (of_nat n :: usize) = n" using assms(2) by (simp add: unat_of_nat take_bit_nat_eq_self)
  show "saturating_sub (of_nat n :: usize) 1 = of_nat (n - 1)"
    using u assms(1) by (simp add: saturating_sub_def word_le_nat_alt of_nat_diff)
  have "unat (of_nat (n - 1) :: usize) = n - 1" using assms(2) by (simp add: unat_of_nat take_bit_nat_eq_self)
  then show "(of_nat (n - 1) :: usize) = 0 \<longleftrightarrow> n = 1" using assms(1) by (metis Suc_diff_1 One_nat_def unat_0 unat_eq_zero diff_is_0_eq le_refl)
qed

lemma drop_owner:
  assumes "life_ok es c" "0 < cl_owning_handles c" "length es < 2 ^ 64 - 1" "\<And>xs. mset (order xs) = mset xs"
  shows "life_ok (es @ [Drop_Handle True]) (ctx_drop order True c)"
proof -
  let ?n = "cl_owning_handles c"
  have n: "?n < 2 ^ 64" using assms(1,3) by (simp add: life_ok_def)
  note o = owners_sub [OF assms(2) n]
  have own: "cl_owners c = of_nat ?n" "\<not> sv_closed (cl_services c)" "sv_log (cl_services c) = []"
    "mset (sv_pending (cl_services c)) = mset (services_of es)"
    using assms(1,2) by (auto simp: life_ok_def)
  show ?thesis
  proof (cases "?n = 1")
    case True
    have "mset (slot_services (order (map snd (sv_services (cl_services c)))) @ slot_services (sv_retired (cl_services c))) =
        mset (sv_pending (cl_services c))"
      using slot_services_mset [OF assms(4)] by (simp add: sv_pending_def slot_services_append)
    then show ?thesis using assms(1) own True o
      by (auto simp: life_ok_def ctx_drop_def sv_shutdown_def fold_on_shutdown services_of_append Let_def)
  next
    case False
    then have "saturating_sub (cl_owners c) 1 \<noteq> 0" using o own(1) by simp
    then show ?thesis using assms(1,2) own False o by (auto simp: life_ok_def ctx_drop_def services_of_append Let_def)
  qed
qed

lemma life_step:
  assumes "life_ok es c" "ctx_enabled e c" "length es < 2 ^ 64 - 1" "\<And>xs. mset (order xs) = mset xs"
  shows "life_ok (es @ [e]) (ctx_apply order e c)"
proof (cases e)
  case (Clone owns)
  then show ?thesis using assms(1,2) by (cases owns) (auto simp: life_ok_def ctx_clone_def services_of_append)
next
  case Borrow
  then show ?thesis using assms(1,2) by (auto simp: life_ok_def from_borrowed_raw_ptr_def services_of_append)
next
  case (Drop_Handle owns)
  then show ?thesis using assms drop_owner [OF assms(1) _ assms(3), of order]
    by (cases owns) (auto simp: life_ok_def ctx_drop_def services_of_append)
next
  case (Set_Service k i)
  then show ?thesis using assms(1) sv_insert_pending [of "cl_services c" k "Service i"]
    by (auto simp: life_ok_def sv_register_def on_shutdown_def services_of_append)
next
  case (Set_State k v)
  then show ?thesis using assms(1) sv_insert_pending [of "cl_services c" k "State_Of v"]
    by (auto simp: life_ok_def sv_register_state_def services_of_append)
qed

lemma life_run:
  "life_ok pre c \<Longrightarrow> length (pre @ es) < 2 ^ 64 \<Longrightarrow> (\<And>xs. mset (order xs) = mset xs) \<Longrightarrow>
   ctx_run order es c = Some c' \<Longrightarrow> life_ok (pre @ es) c'"
proof (induction es arbitrary: pre c)
  case (Cons e es)
  then have "ctx_enabled e c" "ctx_run order es (ctx_apply order e c) = Some c'" by (auto split: if_splits)
  then show ?case using Cons.IH [of "pre @ [e]" "ctx_apply order e c"] life_step [OF Cons.prems(1), of e order] Cons.prems by simp
qed simp

text \<open>
  C7. A context is shut down exactly once, when its last owning handle is dropped, however many borrowed handles remain and
  whatever was copied and dropped before. Every service ever registered with it is notified exactly once: at the
  shutdown, also when another service of its type had replaced it, or at once when it is registered after the shutdown;
  none is notified before. Afterwards the context cannot be reached from a raw pointer and hands out no service.
\<close>

theorem context_shut_down_once:
  assumes "ctx_run order es ctx_new = Some c" "length es < 2 ^ 64" "\<And>xs. mset (order xs) = mset xs"
  shows "(sv_closed (cl_services c) \<longleftrightarrow> cl_owning_handles c = 0) \<and>
         (from_borrowed_raw_ptr c = None \<longleftrightarrow> cl_owning_handles c = 0) \<and>
         mset (sv_log (cl_services c)) = (if cl_owning_handles c = 0 then mset (services_of es) else {#}) \<and>
         (cl_owning_handles c = 0 \<longrightarrow> sv_get k (cl_services c) = None \<and> sv_get_state k (cl_services c) = None)"
proof -
  have "life_ok [] ctx_new" by (simp add: life_ok_def ctx_new_def sv_new_def sv_pending_def)
  from life_run [OF this _ assms(3,1)] assms(2) show ?thesis
    by (auto simp: life_ok_def from_borrowed_raw_ptr_def sv_get_def sv_get_state_def)
qed

definition demo_events :: "(nat, nat, nat) ctx_event list" where
  "demo_events = [Set_Service 0 10, Clone True, Borrow, Set_Service 0 11, Drop_Handle True, Set_Service 1 12,
     Drop_Handle True, Set_Service 2 13]"

theorem context_shut_down_once_witness:
  "\<exists>c. ctx_run id demo_events ctx_new = Some c \<and> cl_borrowed_handles c = 1 \<and>
       mset (sv_log (cl_services c)) = {#10, 11, 12, 13#}"
proof -
  have "map_option (\<lambda>c. (cl_borrowed_handles c, cl_owning_handles c)) (ctx_run id demo_events ctx_new) = Some (1, 0)"
    by code_simp
  then obtain c where c: "ctx_run id demo_events ctx_new = Some c" "cl_borrowed_handles c = 1" "cl_owning_handles c = 0"
    by auto
  have "mset (sv_log (cl_services c)) = mset (services_of demo_events)"
    using context_shut_down_once [OF c(1)] c(3) by (simp add: demo_events_def)
  then show ?thesis using c by (auto simp: demo_events_def)
qed

section \<open>Tasks of a context\<close>

text \<open>
  The registry of a context is one of its services. It is made when it is first needed; once the services are closed
  a fresh one is made for every call and closed at once, because a service registered late is shut down at once.
\<close>

record context_tasks =
  ct_closed :: bool
  ct_registry :: "task_world option"
  ct_next_scope :: u64

definition task_registry :: "context_tasks \<Rightarrow> task_world \<times> context_tasks" where
  "task_registry x =
     (case (if ct_closed x then None else ct_registry x) of
        Some w \<Rightarrow> (w, x)
      | None \<Rightarrow>
          (let w = tw_init (ct_next_scope x) in
           if ct_closed x then (snd (abort_all w), x) else (w, x\<lparr>ct_registry := Some w\<rparr>)))"

text \<open>Store the registry an operation leaves behind; the registry of a closed context is not kept.\<close>

definition put_registry :: "task_world \<Rightarrow> context_tasks \<Rightarrow> context_tasks" where
  "put_registry w x = (if ct_closed x then x else x\<lparr>ct_registry := Some w\<rparr>)"

definition spawn_task_with_handle :: "context_tasks \<Rightarrow> nat option \<times> context_tasks" where
  "spawn_task_with_handle x =
     (case task_registry x of (w, x') \<Rightarrow> (case registry_spawn None w of (t, w') \<Rightarrow> (t, put_registry w' x')))"

definition spawn_task :: "context_tasks \<Rightarrow> context_tasks" where
  "spawn_task x = snd (spawn_task_with_handle x)"

definition begin_task_scope :: "context_tasks \<Rightarrow> (u64 \<times> context_tasks) option" where
  "begin_task_scope x =
     (case task_registry x of
        (w, x') \<Rightarrow> map_option (\<lambda>(i, w'). (i, (put_registry w' x')\<lparr>ct_next_scope := tw_next_scope w'\<rparr>)) (begin_scope w))"

definition current_task_scope :: "context_tasks \<Rightarrow> u64 option \<times> context_tasks" where
  "current_task_scope x = (case task_registry x of (w, x') \<Rightarrow> (current_scope w, x'))"

definition enter_task_scope :: "u64 option \<Rightarrow> context_tasks \<Rightarrow> u64 option \<times> context_tasks" where
  "enter_task_scope scope x =
     (case task_registry x of (w, x') \<Rightarrow> (case enter_scope scope w of (p, w') \<Rightarrow> (p, put_registry w' x')))"

definition cancel_task_scope :: "u64 \<Rightarrow> context_tasks \<Rightarrow> bool \<times> context_tasks" where
  "cancel_task_scope scope x =
     (case task_registry x of (w, x') \<Rightarrow> (case cancel_scope scope w of (r, w') \<Rightarrow> (r, put_registry w' x')))"

text \<open>The shutdown of the services reaches the registry through \<^verbatim>\<open>on_shutdown\<close>.\<close>

definition close_tasks :: "context_tasks \<Rightarrow> context_tasks" where
  "close_tasks x = x\<lparr>ct_closed := True, ct_registry := map_option (\<lambda>w. snd (abort_all w)) (ct_registry x)\<rparr>"

text \<open>After the shutdown of a context nothing can be spawned on it, with or without a registry before.\<close>

lemma no_spawn_after_close:
  "fst (spawn_task_with_handle (close_tasks x)) = None" "spawn_task (close_tasks x) = close_tasks x"
  "fst (cancel_task_scope i (close_tasks x)) = False" "fst (current_task_scope (close_tasks x)) = None"
  by (simp_all add: spawn_task_def spawn_task_with_handle_def task_registry_def close_tasks_def registry_spawn_def
      abort_all_def put_registry_def cancel_task_scope_def cancel_scope_def current_task_scope_def current_scope_def
      tw_init_def Let_def)

text \<open>Leaving a scope and coming back restores it, unless it was cancelled in between.\<close>

lemma enter_scope_restores:
  assumes "task_reachable w" "enter_scope scope w = (previous, w')"
  shows "current_scope (snd (enter_scope previous w')) = previous"
proof -
  have "task_inv w" by (rule task_reachable_inv [OF assms(1)])
  then show ?thesis using assms(2)
    by (auto simp: enter_scope_def current_scope_def Let_def task_inv_def scopes_ok_def split: option.splits)
qed

section \<open>Evaluation\<close>

definition check_interrupt :: "interrupt_handle \<Rightarrow> unit js_result" where
  "check_interrupt h =
     (if ih_is_interrupted h then Inl (Host (he_new E_INTERRUPTED ''JavaScript execution was interrupted'')) else Inr ())"

text \<open>
  The engine runs the source on its own state, during which the interrupt flag may be raised or cleared; a promise is
  awaited afterwards.
\<close>

record ('src, 'v, 's) eval_engine =
  ee_eval :: "'src \<Rightarrow> 's \<times> interrupt_handle \<Rightarrow> 'v \<times> 's \<times> interrupt_handle"
  ee_run_bytecode :: "'src \<Rightarrow> 's \<times> interrupt_handle \<Rightarrow> 'v \<times> 's \<times> interrupt_handle"
  ee_is_bytecode :: "'src \<Rightarrow> bool"
  ee_is_promise :: "'v \<Rightarrow> bool"
  ee_await :: "'v \<Rightarrow> 's \<times> interrupt_handle \<Rightarrow> 'v js_result \<times> 's \<times> interrupt_handle"
  ee_compile :: "'src \<Rightarrow> 's \<times> interrupt_handle \<Rightarrow> 'src js_result \<times> 's \<times> interrupt_handle"

definition eval_source :: "('src, 'v, 's) eval_engine \<Rightarrow> 'src \<Rightarrow> 's \<times> interrupt_handle \<Rightarrow> 'v \<times> 's \<times> interrupt_handle" where
  "eval_source E source s = (if ee_is_bytecode E source then ee_run_bytecode E source s else ee_eval E source s)"

definition ctx_eval ::
  "('src, 'v, 's) eval_engine \<Rightarrow> ('v \<Rightarrow> 'a js_result) \<Rightarrow> 'src \<Rightarrow> 's \<times> interrupt_handle \<Rightarrow> 'a js_result \<times> 's \<times> interrupt_handle" where
  "ctx_eval E convert source s =
     (case check_interrupt (snd s) of
        Inl e \<Rightarrow> (Inl e, s)
      | Inr _ \<Rightarrow>
          (case eval_source E source s of
             (result, s') \<Rightarrow>
               (case check_interrupt (snd s') of
                  Inl e \<Rightarrow> (Inl e, s')
                | Inr _ \<Rightarrow> (convert result, s'))))"

definition compile_to_bytecode ::
  "('src, 'v, 's) eval_engine \<Rightarrow> 'src \<Rightarrow> 's \<times> interrupt_handle \<Rightarrow> 'src js_result \<times> 's \<times> interrupt_handle" where
  "compile_to_bytecode E source s =
     (case check_interrupt (snd s) of
        Inl e \<Rightarrow> (Inl e, s)
      | Inr _ \<Rightarrow>
          (case ee_compile E source s of
             (result, s') \<Rightarrow>
               (case check_interrupt (snd s') of
                  Inl e \<Rightarrow> (Inl e, s')
                | Inr _ \<Rightarrow> (result, s'))))"

definition ctx_eval_async ::
  "('src, 'v, 's) eval_engine \<Rightarrow> ('v \<Rightarrow> 'a js_result) \<Rightarrow> 'src \<Rightarrow> 's \<times> interrupt_handle \<Rightarrow> 'a js_result \<times> 's \<times> interrupt_handle" where
  "ctx_eval_async E convert source s =
     (case check_interrupt (snd s) of
        Inl e \<Rightarrow> (Inl e, s)
      | Inr _ \<Rightarrow>
          (case eval_source E source s of
             (result, s') \<Rightarrow>
               (case check_interrupt (snd s') of
                  Inl e \<Rightarrow> (Inl e, s')
                | Inr _ \<Rightarrow>
                    (case (if ee_is_promise E result
                           then (case ee_await E result s' of
                                   (Inl e, s'') \<Rightarrow> (Inl e, s'')
                                 | (Inr v, s'') \<Rightarrow> (convert v, s''))
                           else (convert result, s')) of
                       (output, s'') \<Rightarrow>
                         (case check_interrupt (snd s'') of
                            Inl e \<Rightarrow> (Inl e, s'')
                          | Inr _ \<Rightarrow> (output, s''))))))"

text \<open>
  An evaluation never reports success under an interrupt: if the flag is up before it, the source is not run and
  nothing changes; if it is up when the engine is done, or when an awaited promise has settled, the result is discarded.
  In both cases the error has the code \<^verbatim>\<open>E_INTERRUPTED\<close>, whichever engine ran; without an interrupt the converted
  result is returned.
\<close>

theorem eval_respects_interrupt:
  "(ih_is_interrupted (snd s) \<longrightarrow> snd (ctx_eval E convert source s) = s \<and> snd (ctx_eval_async E convert source s) = s) \<and>
   (case ctx_eval E convert source s of
      (r, s') \<Rightarrow>
        if ih_is_interrupted (snd s) \<or> ih_is_interrupted (snd s') then \<exists>e. r = Inl e \<and> is_interrupted e
        else eval_source E source s = (fst (eval_source E source s), s') \<and> r = convert (fst (eval_source E source s))) \<and>
   (case ctx_eval_async E convert source s of
      (r, s') \<Rightarrow> ih_is_interrupted (snd s') \<longrightarrow> (\<exists>e. r = Inl e \<and> is_interrupted e))"
proof -
  have i: "is_interrupted (Host (he_new E_INTERRUPTED m))" for m
    by (simp add: is_interrupted_def is_code_def he_new_def)
  have c: "(check_interrupt h = Inl e) \<longleftrightarrow> ih_is_interrupted h \<and> e = Host (he_new E_INTERRUPTED ''JavaScript execution was interrupted'')"
    "(check_interrupt h = Inr u) \<longleftrightarrow> \<not> ih_is_interrupted h" for h e u
    by (auto simp: check_interrupt_def)
  show ?thesis
    by (auto simp: ctx_eval_def ctx_eval_async_def c i split: sum.splits prod.splits if_splits)
qed

definition raising_engine :: "(unit, nat, unit) eval_engine" where
  "raising_engine = \<lparr>ee_eval = (\<lambda>_ (s, h). (7, s, ih_interrupt h)), ee_run_bytecode = (\<lambda>_ s. (7, s)), ee_is_bytecode = (\<lambda>_. False),
     ee_is_promise = (\<lambda>_. False), ee_await = (\<lambda>v s. (Inr v, s)), ee_compile = (\<lambda>x s. (Inr x, s))\<rparr>"

theorem eval_respects_interrupt_witness:
  "(\<exists>e. fst (ctx_eval raising_engine Inr () ((), ih_new)) = Inl e \<and> is_interrupted e) \<and>
   snd (ctx_eval raising_engine Inr () ((), ih_interrupt ih_new)) = ((), ih_interrupt ih_new)"
proof -
  have "ih_is_interrupted (snd (snd (ctx_eval raising_engine Inr () ((), ih_new))))" by code_simp
  moreover have "ih_is_interrupted (ih_interrupt ih_new)" by code_simp
  ultimately show ?thesis
    using eval_respects_interrupt [of "((), ih_new)" raising_engine Inr "()"]
      eval_respects_interrupt [of "((), ih_interrupt ih_new)" raising_engine Inr "()"]
    by (simp add: case_prod_unfold)
qed

end
