(* ===== verification/Promise_Future.thy ===== *)
theory Promise_Future
  imports Host_Error
begin

text \<open>
  \<^verbatim>\<open>core/src/promise.rs\<close>: the Rust future that waits for a JavaScript promise. Its first poll registers two callbacks with
  the engine and runs pending jobs; the callbacks store the first settlement and wake the task. The engine is a
  parameter: how it registered the callbacks, whether attaching them with \<^verbatim>\<open>then\<close> failed, and which settlements the jobs
  delivered.
\<close>

datatype promise_handler_registration = JavaScriptOnly | NativeOnly | NativeWithJavaScriptFallbackIfPending

datatype ('w, 't) promise_state = Pending 'w | Resolved "'t js_result"

datatype 't poll = Poll_Pending | Poll_Ready "'t js_result"

text \<open>A call of the first callback with the value it converted, or of the second with the reason it captured.\<close>

datatype 't settlement = Fulfilled "'t js_result" | Rejected rong_js_error

record ('w, 't) promise_future =
  pf_state :: "('w, 't) promise_state option"
  pf_wakes :: "'w list"

definition into_future :: "('w, 't) promise_future" where
  "into_future = \<lparr>pf_state = None, pf_wakes = []\<rparr>"

definition outcome :: "'t settlement \<Rightarrow> 't js_result" where
  "outcome s = (case s of Fulfilled r \<Rightarrow> r | Rejected e \<Rightarrow> Inl e)"

definition on_settled :: "'t settlement \<Rightarrow> ('w, 't) promise_future \<Rightarrow> ('w, 't) promise_future" where
  "on_settled s f =
     (case pf_state f of
        Some (Pending waker) \<Rightarrow> f\<lparr>pf_state := Some (Resolved (outcome s)), pf_wakes := pf_wakes f @ [waker]\<rparr>
      | _ \<Rightarrow> f)"

definition drain_microtasks :: "'t settlement list \<Rightarrow> ('w, 't) promise_future \<Rightarrow> ('w, 't) promise_future" where
  "drain_microtasks ss f = fold on_settled ss f"

definition promise_state_is_pending :: "('w, 't) promise_future \<Rightarrow> bool" where
  "promise_state_is_pending f = (case pf_state f of Some (Pending _) \<Rightarrow> True | _ \<Rightarrow> False)"

record 't poll_env =
  pe_registration :: promise_handler_registration
  pe_attach :: "unit js_result"
  pe_drain :: "'t settlement list"
  pe_drain_again :: "'t settlement list"

definition register_future_handlers ::
  "'t poll_env \<Rightarrow> ('w, 't) promise_future \<Rightarrow> unit js_result \<times> ('w, 't) promise_future" where
  "register_future_handlers env f =
     (case pe_registration env of
        JavaScriptOnly \<Rightarrow>
          (case pe_attach env of
             Inl e \<Rightarrow> (Inl e, f)
           | Inr _ \<Rightarrow> (Inr (), drain_microtasks (pe_drain env) f))
      | NativeOnly \<Rightarrow> (Inr (), drain_microtasks (pe_drain env) f)
      | NativeWithJavaScriptFallbackIfPending \<Rightarrow>
          (let f = drain_microtasks (pe_drain env) f in
           if promise_state_is_pending f then
             (case pe_attach env of
                Inl e \<Rightarrow> (Inl e, f)
              | Inr _ \<Rightarrow> (Inr (), drain_microtasks (pe_drain_again env) f))
           else (Inr (), f)))"

definition poll_promise :: "'t poll_env \<Rightarrow> 'w \<Rightarrow> ('w, 't) promise_future \<Rightarrow> 't poll \<times> ('w, 't) promise_future" where
  "poll_promise env waker f =
     (case pf_state f of
        None \<Rightarrow>
          (case register_future_handlers env (f\<lparr>pf_state := Some (Pending waker)\<rparr>) of
             (Inl e, f) \<Rightarrow> (Poll_Ready (Inl e), f)
           | (Inr _, f) \<Rightarrow>
               (case pf_state f of
                  Some (Resolved result) \<Rightarrow> (Poll_Ready result, f\<lparr>pf_state := Some (Pending waker)\<rparr>)
                | _ \<Rightarrow> (Poll_Pending, f)))
      | Some (Resolved result) \<Rightarrow> (Poll_Ready result, f\<lparr>pf_state := Some (Pending waker)\<rparr>)
      | Some (Pending _) \<Rightarrow> (Poll_Pending, f\<lparr>pf_state := Some (Pending waker)\<rparr>))"

section \<open>No settlement is lost\<close>

lemma drain_pending:
  "pf_state f = Some (Pending w) \<Longrightarrow>
   drain_microtasks ss f =
     (case ss of [] \<Rightarrow> f | s # _ \<Rightarrow> f\<lparr>pf_state := Some (Resolved (outcome s)), pf_wakes := pf_wakes f @ [w]\<rparr>)"
proof (cases ss)
  case (Cons s rest)
  assume p: "pf_state f = Some (Pending w)"
  have "fold on_settled rest g = g" if "pf_state g = Some (Resolved r)" for g :: "('a, 'b) promise_future" and r
    using that by (induction rest) (simp_all add: on_settled_def)
  then show ?thesis using p Cons by (simp add: drain_microtasks_def on_settled_def)
qed (simp add: drain_microtasks_def)

text \<open>The settlements the first poll sees, if the callbacks could be attached.\<close>

definition seen_first :: "'t poll_env \<Rightarrow> 't settlement list" where
  "seen_first env =
     (if pe_registration env = NativeWithJavaScriptFallbackIfPending \<and> pe_drain env = [] then pe_drain_again env
      else pe_drain env)"

definition attaches :: "'t poll_env \<Rightarrow> bool" where
  "attaches env \<longleftrightarrow> pe_registration env = JavaScriptOnly \<or>
     pe_registration env = NativeWithJavaScriptFallbackIfPending \<and> pe_drain env = []"

lemma first_poll:
  "poll_promise env w into_future =
     (case (if attaches env then pe_attach env else Inr ()) of
        Inl e \<Rightarrow> (Poll_Ready (Inl e), \<lparr>pf_state = Some (Pending w), pf_wakes = []\<rparr>)
      | Inr _ \<Rightarrow>
          (case seen_first env of
             [] \<Rightarrow> (Poll_Pending, \<lparr>pf_state = Some (Pending w), pf_wakes = []\<rparr>)
           | s # _ \<Rightarrow> (Poll_Ready (outcome s), \<lparr>pf_state = Some (Pending w), pf_wakes = [w]\<rparr>)))"
  by (cases "pe_registration env"; cases "pe_attach env"; cases "pe_drain env"; cases "pe_drain_again env")
     (simp_all add: poll_promise_def register_future_handlers_def into_future_def drain_pending
        promise_state_is_pending_def seen_first_def attaches_def Let_def)

lemma poll_later:
  "pf_state f = Some (Pending x) \<Longrightarrow> poll_promise env v f = (Poll_Pending, f\<lparr>pf_state := Some (Pending v)\<rparr>)"
  "pf_state f = Some (Resolved r) \<Longrightarrow> poll_promise env v f = (Poll_Ready r, f\<lparr>pf_state := Some (Pending v)\<rparr>)"
  by (simp_all add: poll_promise_def)

text \<open>Between polls the engine may settle the promise; each later poll comes with the waker of that moment.\<close>

datatype ('w, 't) pf_event = Settle "'t settlement" | Poll_Again 'w

fun pf_run :: "('w, 't) pf_event list \<Rightarrow> ('w, 't) promise_future \<Rightarrow> ('w, 't) promise_future option" where
  "pf_run [] f = Some f"
| "pf_run (Settle s # es) f = pf_run es (on_settled s f)"
| "pf_run (Poll_Again w # es) f =
     (case poll_promise \<lparr>pe_registration = NativeOnly, pe_attach = Inr (), pe_drain = [], pe_drain_again = []\<rparr> w f of
        (Poll_Ready _, _) \<Rightarrow> None
      | (Poll_Pending, f') \<Rightarrow> pf_run es f')"

fun settlements :: "('w, 't) pf_event list \<Rightarrow> 't settlement list" where
  "settlements [] = []"
| "settlements (Settle s # es) = s # settlements es"
| "settlements (Poll_Again w # es) = settlements es"

fun last_waker :: "'w \<Rightarrow> ('w, 't) pf_event list \<Rightarrow> 'w" where
  "last_waker w [] = w"
| "last_waker w (Settle s # es) = last_waker w es"
| "last_waker w (Poll_Again v # es) = last_waker v es"

lemma run_resolved:
  "pf_state f = Some (Resolved r) \<Longrightarrow> pf_run es f = Some f' \<Longrightarrow> f' = f \<and> last_waker w es = w"
  by (induction es arbitrary: w rule: settlements.induct) (auto simp: on_settled_def poll_promise_def)

lemma run_pending:
  "pf_state f = Some (Pending w) \<Longrightarrow> pf_wakes f = [] \<Longrightarrow> pf_run es f = Some f' \<Longrightarrow>
   (case settlements es of
      [] \<Rightarrow> pf_state f' = Some (Pending (last_waker w es)) \<and> pf_wakes f' = []
    | s # _ \<Rightarrow> pf_state f' = Some (Resolved (outcome s)) \<and> pf_wakes f' = [last_waker w es])"
proof (induction es arbitrary: w f rule: settlements.induct)
  case (2 s es)
  let ?f = "f\<lparr>pf_state := Some (Resolved (outcome s)), pf_wakes := [w]\<rparr>"
  have "pf_run es ?f = Some f'" using 2 by (simp add: on_settled_def)
  from run_resolved [OF _ this, of "outcome s" w] show ?case by simp
next
  case (3 v es)
  have "pf_run es (f\<lparr>pf_state := Some (Pending v)\<rparr>) = Some f'" using 3 by (simp add: poll_later)
  from "3.IH" [OF _ _ this, of v] show ?case using "3.prems"(2) by (auto split: list.splits)
qed simp

text \<open>
  C6. Awaiting a JavaScript promise from Rust neither misses nor repeats a settlement. The first poll answers at once with
  the error when the engine's registration needs \<^verbatim>\<open>then\<close> and attaching failed; otherwise it answers at once with the first
  settlement that its jobs delivered, however the callbacks were registered; and it waits only when they delivered none.
  After a first poll that waits, however often the future is polled and however often the callbacks are called: while
  nothing has settled it waits and the latest waker is the one kept; the first settlement wakes exactly that waker, once;
  later calls are ignored; and the next poll returns the first settlement.
\<close>

theorem promise_future_delivers:
  "(case (if attaches env then pe_attach env else Inr ()) of
      Inl e \<Rightarrow> fst (poll_promise env w into_future) = Poll_Ready (Inl e)
    | Inr _ \<Rightarrow>
        (case seen_first env of
           s # _ \<Rightarrow> fst (poll_promise env w into_future) = Poll_Ready (outcome s)
         | [] \<Rightarrow>
             fst (poll_promise env w into_future) = Poll_Pending \<and>
             (\<forall>es f. pf_run es (snd (poll_promise env w into_future)) = Some f \<longrightarrow>
                (case settlements es of
                   [] \<Rightarrow> pf_wakes f = [] \<and> fst (poll_promise env' v f) = Poll_Pending \<and>
                         pf_state (snd (poll_promise env' v f)) = Some (Pending v)
                 | s # _ \<Rightarrow> pf_wakes f = [last_waker w es] \<and> fst (poll_promise env' v f) = Poll_Ready (outcome s)))))"
proof -
  have "case settlements es of
      [] \<Rightarrow> pf_wakes f = [] \<and> fst (poll_promise env' v f) = Poll_Pending \<and>
            pf_state (snd (poll_promise env' v f)) = Some (Pending v)
    | s # _ \<Rightarrow> pf_wakes f = [last_waker w es] \<and> fst (poll_promise env' v f) = Poll_Ready (outcome s)"
    if "pf_run es \<lparr>pf_state = Some (Pending w), pf_wakes = []\<rparr> = Some f" for es f
    using run_pending [OF _ _ that] by (auto simp: poll_later split: list.splits)
  then show ?thesis by (simp add: first_poll split: sum.split list.split)
qed

text \<open>
  A registration that falls back to \<^verbatim>\<open>then\<close> and finds nothing waits; it is polled again, settles twice, and answers with
  the first value. When the second round of jobs delivers a value, the first poll answers with it.
\<close>

theorem promise_future_delivers_witness:
  "\<exists>f. pf_run [Poll_Again (2 :: nat), Settle (Fulfilled (Inr (5 :: nat))), Settle (Fulfilled (Inr 6))]
         (snd (poll_promise \<lparr>pe_registration = NativeWithJavaScriptFallbackIfPending, pe_attach = Inr (), pe_drain = [],
            pe_drain_again = []\<rparr> 1 into_future)) = Some f \<and>
       pf_wakes f = [2] \<and>
       fst (poll_promise \<lparr>pe_registration = NativeOnly, pe_attach = Inr (), pe_drain = [], pe_drain_again = []\<rparr> 3 f) =
         Poll_Ready (Inr 5) \<and>
       fst (poll_promise \<lparr>pe_registration = NativeWithJavaScriptFallbackIfPending, pe_attach = Inr (), pe_drain = [],
            pe_drain_again = [Fulfilled (Inr (7 :: nat))]\<rparr> (1 :: nat) into_future) = Poll_Ready (Inr 7)"
proof -
  let ?env = "\<lparr>pe_registration = NativeWithJavaScriptFallbackIfPending, pe_attach = Inr (), pe_drain = [],
     pe_drain_again = []\<rparr> :: nat poll_env"
  let ?later = "\<lparr>pe_registration = NativeOnly, pe_attach = Inr (), pe_drain = [], pe_drain_again = []\<rparr> :: nat poll_env"
  let ?es = "[Poll_Again 2, Settle (Fulfilled (Inr 5)), Settle (Fulfilled (Inr 6))] :: (nat, nat) pf_event list"
  have "pf_run ?es (snd (poll_promise ?env 1 into_future)) \<noteq> None" by code_simp
  then obtain f where f: "pf_run ?es (snd (poll_promise ?env 1 into_future)) = Some f" by blast
  note d = promise_future_delivers [of ?env 1 ?later "3 :: nat"]
  have "pf_wakes f = [2] \<and> fst (poll_promise ?later 3 f) = Poll_Ready (Inr 5)"
    using d f by (auto simp: seen_first_def attaches_def outcome_def simp del: pf_run.simps dest!: spec [of _ ?es])
  moreover have "fst (poll_promise (?env\<lparr>pe_drain_again := [Fulfilled (Inr 7)]\<rparr>) (1 :: nat) into_future) = Poll_Ready (Inr 7)"
    using promise_future_delivers [of "?env\<lparr>pe_drain_again := [Fulfilled (Inr 7)]\<rparr>" "1 :: nat" ?later "3 :: nat"]
    by (simp add: seen_first_def attaches_def outcome_def)
  ultimately show ?thesis using f by auto
qed

end
