(* ===== verification/Multimap.thy ===== *)
theory Multimap
  imports Host_Error
begin

text \<open>
  Collections that keep several values under one name, in the order in which they were added: the parameters of a query
  string and the headers of a request. The locale \<open>multimap\<close> states what their three updates promise; what a whole
  sequence of updates does to one name follows from the promises alone.
\<close>

datatype ('k, 'v) mm_op = MM_Append 'k 'v | MM_Delete 'k | MM_Set 'k 'v

fun mm_name :: "('k, 'v) mm_op \<Rightarrow> 'k" where
  "mm_name (MM_Append k v) = k"
| "mm_name (MM_Delete k) = k"
| "mm_name (MM_Set k v) = k"

text \<open>What an update does to the values of the name it is about.\<close>

fun mm_effect :: "('k, 'v) mm_op \<Rightarrow> 'v list \<Rightarrow> 'v list" where
  "mm_effect (MM_Append k v) vs = vs @ [v]"
| "mm_effect (MM_Delete k) vs = []"
| "mm_effect (MM_Set k v) vs = [v]"

definition mm_spec :: "'k \<Rightarrow> ('k, 'v) mm_op list \<Rightarrow> 'v list \<Rightarrow> 'v list" where
  "mm_spec k ops vs = fold mm_effect (filter (\<lambda>x. mm_name x = k) ops) vs"

lemma mm_spec_Nil [simp]: "mm_spec k [] vs = vs"
  by (simp add: mm_spec_def)

lemma mm_spec_Cons [simp]: "mm_spec k (x # ops) vs = mm_spec k ops (if mm_name x = k then mm_effect x vs else vs)"
  by (simp add: mm_spec_def)

lemma mm_spec_append: "mm_spec k (xs @ ys) vs = mm_spec k ys (mm_spec k xs vs)"
  by (simp add: mm_spec_def)

text \<open>A sequence of appends collects the values of each name in order.\<close>

lemma mm_spec_appends:
  "mm_spec k (map (\<lambda>(n, v). MM_Append n v) kvs) vs = vs @ map snd (filter (\<lambda>(n, v). n = k) kvs)"
  by (induction kvs arbitrary: vs) auto

locale multimap =
  fixes get_all :: "'k \<Rightarrow> 'm \<Rightarrow> 'v list"
    and append_to :: "'k \<Rightarrow> 'v \<Rightarrow> 'm \<Rightarrow> 'm"
    and delete_from :: "'k \<Rightarrow> 'm \<Rightarrow> 'm"
    and set_to :: "'k \<Rightarrow> 'v \<Rightarrow> 'm \<Rightarrow> 'm"
  assumes get_append: "get_all k (append_to k' v m) = (if k' = k then get_all k m @ [v] else get_all k m)"
    and get_delete: "get_all k (delete_from k' m) = (if k' = k then [] else get_all k m)"
    and get_set: "get_all k (set_to k' v m) = (if k' = k then [v] else get_all k m)"
begin

fun apply_op :: "('k, 'v) mm_op \<Rightarrow> 'm \<Rightarrow> 'm" where
  "apply_op (MM_Append k v) m = append_to k v m"
| "apply_op (MM_Delete k) m = delete_from k m"
| "apply_op (MM_Set k v) m = set_to k v m"

lemma get_apply: "get_all k (apply_op x m) = (if mm_name x = k then mm_effect x (get_all k m) else get_all k m)"
  by (cases x) (simp_all add: get_append get_delete get_set)

lemma get_run: "get_all k (fold apply_op xs m) = mm_spec k xs (get_all k m)"
  by (induction xs arbitrary: m) (simp_all add: get_apply)

text \<open>Updates of different names commute, as far as lookups can tell.\<close>

lemma other_names_irrelevant:
  "get_all k (fold apply_op xs m) = get_all k (fold apply_op (filter (\<lambda>x. mm_name x = k) xs) m)"
  by (simp add: get_run mm_spec_def)

end

text \<open>
  The loop of \<^verbatim>\<open>forEach\<close>: the callback gets the value and then the name of each entry; it runs on a state of its own, and
  its first error ends the loop.
\<close>

fun call_each :: "(string \<Rightarrow> string \<Rightarrow> 's \<Rightarrow> unit js_result \<times> 's) \<Rightarrow> (string \<times> string) list \<Rightarrow> 's \<Rightarrow> unit js_result \<times> 's" where
  "call_each callback [] s = (Inr (), s)"
| "call_each callback ((k, v) # ps) s =
     (case callback v k s of
        (Inl e, s') \<Rightarrow> (Inl e, s')
      | (Inr _, s') \<Rightarrow> call_each callback ps s')"

text \<open>A callback that never throws is called for every entry, in order.\<close>

lemma call_each_all:
  "(\<And>v k s. fst (callback v k s) = Inr ()) \<Longrightarrow>
   call_each callback ps s = (Inr (), fold (\<lambda>(k, v) s. snd (callback v k s)) ps s)"
proof (induction ps arbitrary: s)
  case (Cons p ps)
  obtain k v where p: "p = (k, v)" by (cases p)
  obtain s' where "callback v k s = (Inr (), s')" using Cons.prems [of v k s] by (cases "callback v k s") auto
  then show ?case using Cons by (simp add: p)
qed simp

end
