(* ===== verification/Url_Params.thy ===== *)
theory Url_Params
  imports Multimap Rust_String
begin

text \<open>
  \<^verbatim>\<open>modules/rong_url/src\<close>: the query parameters of a URL (\<^verbatim>\<open>url_search_params.rs\<close>) and the URL object that shares its
  data with them (\<^verbatim>\<open>url.rs\<close>). The \<^verbatim>\<open>url\<close> and \<^verbatim>\<open>form_urlencoded\<close> crates are a parameter. The cells of
  \<^verbatim>\<open>Rc<SharedUrlData>\<close> are a list of URLs, and a shared reference is a position in it.
\<close>

type_synonym pairs = "(string \<times> string) list"

record 'u url_lib =
  ul_parse :: "string \<Rightarrow> string + 'u"
  ul_join :: "'u \<Rightarrow> string \<Rightarrow> string + 'u"
  ul_as_str :: "'u \<Rightarrow> string"
  ul_scheme :: "'u \<Rightarrow> string"
  ul_set_scheme :: "string \<Rightarrow> 'u \<Rightarrow> 'u option"
  ul_username :: "'u \<Rightarrow> string"
  ul_set_username :: "string \<Rightarrow> 'u \<Rightarrow> 'u"
  ul_password :: "'u \<Rightarrow> string option"
  ul_set_password :: "string option \<Rightarrow> 'u \<Rightarrow> 'u"
  ul_host_str :: "'u \<Rightarrow> string option"
  ul_set_host :: "string option \<Rightarrow> 'u \<Rightarrow> 'u"
  ul_port :: "'u \<Rightarrow> 16 word option"
  ul_set_port :: "16 word option \<Rightarrow> 'u \<Rightarrow> 'u"
  ul_path :: "'u \<Rightarrow> string"
  ul_set_path :: "string \<Rightarrow> 'u \<Rightarrow> 'u"
  ul_query :: "'u \<Rightarrow> string option"
  ul_set_query :: "string option \<Rightarrow> 'u \<Rightarrow> 'u"
  ul_fragment :: "'u \<Rightarrow> string option"
  ul_set_fragment :: "string option \<Rightarrow> 'u \<Rightarrow> 'u"
  fu_parse :: "string \<Rightarrow> pairs"
  fu_serialize :: "pairs \<Rightarrow> string"

definition query_pairs :: "'u url_lib \<Rightarrow> 'u \<Rightarrow> pairs" where
  "query_pairs L u = fu_parse L (case ul_query L u of Some q \<Rightarrow> q | None \<Rightarrow> [])"

section \<open>Parameters\<close>

record url_search_params =
  us_params :: pairs
  us_shared :: "nat option"

text \<open>
  What a script passes to the constructor, as the engine shows it: a string, an array with the results of looking into
  its present elements, an object with its entries, or another value. Each look may throw.
\<close>

record pair_view =
  pv_len :: "nat js_result"
  pv_key :: "string option js_result"
  pv_value :: "string option js_result"

datatype usp_init =
  Init_String "string js_result"
| Init_Array "pair_view js_result list js_result"
| Init_Object "pairs js_result"
| Init_Other

fun usp_pairs :: "pair_view js_result list \<Rightarrow> pairs js_result" where
  "usp_pairs [] = Inr []"
| "usp_pairs (Inl e # rest) = Inl e"
| "usp_pairs (Inr pair # rest) =
     (case pv_len pair of
        Inl e \<Rightarrow> Inl e
      | Inr n \<Rightarrow>
          if 2 \<le> n then
            (case pv_key pair of
               Inl e \<Rightarrow> Inl e
             | Inr None \<Rightarrow> usp_pairs rest
             | Inr (Some key) \<Rightarrow>
                 (case pv_value pair of
                    Inl e \<Rightarrow> Inl e
                  | Inr None \<Rightarrow> usp_pairs rest
                  | Inr (Some v) \<Rightarrow> map_sum id ((#) (key, v)) (usp_pairs rest)))
          else usp_pairs rest)"

definition usp_new :: "'u url_lib \<Rightarrow> usp_init option \<Rightarrow> url_search_params js_result" where
  "usp_new L init =
     map_sum id (\<lambda>ps. \<lparr>us_params = ps, us_shared = None\<rparr>)
       (case init of
          None \<Rightarrow> Inr []
        | Some (Init_String s) \<Rightarrow>
            (case s of
               Inl e \<Rightarrow> Inl e
             | Inr query \<Rightarrow>
                 (let query = (case strip_prefix ''?'' query of Some q \<Rightarrow> q | None \<Rightarrow> query)
                  in Inr (if query = [] then [] else fu_parse L query)))
        | Some (Init_Array items) \<Rightarrow> (case items of Inl e \<Rightarrow> Inl e | Inr ps \<Rightarrow> usp_pairs ps)
        | Some (Init_Object entries) \<Rightarrow> entries
        | Some Init_Other \<Rightarrow> Inr [])"

definition from_shared_data :: "'u url_lib \<Rightarrow> nat \<Rightarrow> 'u list \<Rightarrow> url_search_params" where
  "from_shared_data L i d = \<lparr>us_params = query_pairs L (d ! i), us_shared = Some i\<rparr>"

definition usp_to_string :: "'u url_lib \<Rightarrow> url_search_params \<Rightarrow> string" where
  "usp_to_string L p = (if us_params p = [] then [] else fu_serialize L (us_params p))"

definition sync_url :: "'u url_lib \<Rightarrow> url_search_params \<Rightarrow> 'u list \<Rightarrow> 'u list" where
  "sync_url L p d =
     (case us_shared p of
        None \<Rightarrow> d
      | Some i \<Rightarrow>
          (let query_string = usp_to_string L p
           in d[i := ul_set_query L (if query_string = [] then None else Some query_string) (d ! i)]))"

definition usp_append :: "'u url_lib \<Rightarrow> string \<Rightarrow> string \<Rightarrow> url_search_params \<times> 'u list \<Rightarrow> url_search_params \<times> 'u list" where
  "usp_append L name v s =
     (case s of (p, d) \<Rightarrow> let p = p\<lparr>us_params := us_params p @ [(name, v)]\<rparr> in (p, sync_url L p d))"

definition usp_delete :: "'u url_lib \<Rightarrow> string \<Rightarrow> url_search_params \<times> 'u list \<Rightarrow> url_search_params \<times> 'u list" where
  "usp_delete L name s =
     (case s of (p, d) \<Rightarrow> let p = p\<lparr>us_params := filter (\<lambda>(k, _). k \<noteq> name) (us_params p)\<rparr> in (p, sync_url L p d))"

definition usp_get :: "string \<Rightarrow> url_search_params \<Rightarrow> string option" where
  "usp_get name p = map_option snd (List.find (\<lambda>(k, _). k = name) (us_params p))"

definition usp_get_all :: "string \<Rightarrow> url_search_params \<Rightarrow> string list" where
  "usp_get_all name p = map snd (filter (\<lambda>(k, _). k = name) (us_params p))"

definition usp_has :: "string \<Rightarrow> url_search_params \<Rightarrow> bool" where
  "usp_has name p = list_ex (\<lambda>(k, _). k = name) (us_params p)"

text \<open>The loop of \<^verbatim>\<open>set\<close>, with its index and its flag.\<close>

definition vec_remove :: "nat \<Rightarrow> 'a list \<Rightarrow> 'a list" where
  "vec_remove i xs = take i xs @ drop (Suc i) xs"

function set_loop :: "string \<Rightarrow> string \<Rightarrow> nat \<Rightarrow> bool \<Rightarrow> pairs \<Rightarrow> bool \<times> pairs" where
  "set_loop name v i found ps =
     (if i < length ps then
        if fst (ps ! i) = name then
          if \<not> found then set_loop name v (i + 1) True (ps[i := (fst (ps ! i), v)])
          else set_loop name v i found (vec_remove i ps)
        else set_loop name v (i + 1) found ps
      else (found, ps))"
  by pat_completeness auto
termination
  by (relation "measure (\<lambda>(_, _, i, _, ps). length ps - i)") (auto simp: vec_remove_def)

declare set_loop.simps [simp del]

definition usp_set :: "'u url_lib \<Rightarrow> string \<Rightarrow> string \<Rightarrow> url_search_params \<times> 'u list \<Rightarrow> url_search_params \<times> 'u list" where
  "usp_set L name v s =
     (case s of (p, d) \<Rightarrow>
        (case set_loop name v 0 False (us_params p) of
           (found, ps) \<Rightarrow>
             let p = p\<lparr>us_params := (if found then ps else ps @ [(name, v)])\<rparr> in (p, sync_url L p d)))"

text \<open>\<^verbatim>\<open>sort_by\<close> is a stable sort; strings are compared byte by byte.\<close>

definition usp_sort :: "'u url_lib \<Rightarrow> url_search_params \<times> 'u list \<Rightarrow> url_search_params \<times> 'u list" where
  "usp_sort L s =
     (case s of (p, d) \<Rightarrow> let p = p\<lparr>us_params := sort_key fst (us_params p)\<rparr> in (p, sync_url L p d))"

definition usp_size :: "url_search_params \<Rightarrow> u32" where
  "usp_size p = of_nat (length (us_params p))"

definition usp_entries :: "url_search_params \<Rightarrow> string list list" where
  "usp_entries p = map (\<lambda>(k, v). [k, v]) (us_params p)"

definition usp_keys :: "url_search_params \<Rightarrow> string list" where
  "usp_keys p = map fst (us_params p)"

definition usp_values :: "url_search_params \<Rightarrow> string list" where
  "usp_values p = map snd (us_params p)"

definition usp_for_each ::
  "(string \<Rightarrow> string \<Rightarrow> 's \<Rightarrow> unit js_result \<times> 's) \<Rightarrow> url_search_params \<Rightarrow> 's \<Rightarrow> unit js_result \<times> 's" where
  "usp_for_each callback p s = call_each callback (us_params p) s"

section \<open>URLs\<close>

record url_object =
  uo_shared :: nat
  uo_search_params :: "url_search_params option"

definition url_error :: "string \<Rightarrow> 'a js_result" where
  "url_error msg = Inl (Host (with_name ''TypeError'' (he_new E_INVALID_ARG msg)))"

definition url_new :: "'u url_lib \<Rightarrow> string \<Rightarrow> string option \<Rightarrow> 'u list \<Rightarrow> url_object js_result \<times> 'u list" where
  "url_new L url base d =
     (case (case base of
              Some b \<Rightarrow>
                (case ul_parse L b of
                   Inl e \<Rightarrow> url_error (''Invalid base URL: '' @ e)
                 | Inr base \<Rightarrow>
                     (case ul_join L base url of
                        Inl e \<Rightarrow> url_error (''Invalid URL: '' @ e)
                      | Inr u \<Rightarrow> Inr u))
            | None \<Rightarrow>
                (case ul_parse L url of
                   Inl e \<Rightarrow> url_error (''Invalid URL: '' @ e)
                 | Inr u \<Rightarrow> Inr u)) of
        Inl e \<Rightarrow> (Inl e, d)
      | Inr inner \<Rightarrow> (Inr \<lparr>uo_shared = length d, uo_search_params = None\<rparr>, d @ [inner]))"

definition inner :: "url_object \<Rightarrow> 'u list \<Rightarrow> 'u" where
  "inner x d = d ! uo_shared x"

definition inner_mut :: "url_object \<Rightarrow> ('u \<Rightarrow> 'u) \<Rightarrow> 'u list \<Rightarrow> 'u list" where
  "inner_mut x f d = d[uo_shared x := f (d ! uo_shared x)]"

definition get_hash :: "'u url_lib \<Rightarrow> 'u \<Rightarrow> string" where
  "get_hash L u = (case ul_fragment L u of Some f \<Rightarrow> ''#'' @ f | None \<Rightarrow> [])"

definition set_hash :: "'u url_lib \<Rightarrow> string \<Rightarrow> url_object \<Rightarrow> 'u list \<Rightarrow> 'u list" where
  "set_hash L v x d = inner_mut x (ul_set_fragment L (if v = [] then None else Some (trim_start_matches CHR ''#'' v))) d"

definition url_port :: "'u url_lib \<Rightarrow> 'u \<Rightarrow> string" where
  "url_port L u = (case ul_port L u of Some p \<Rightarrow> string_of_nat (unat p) | None \<Rightarrow> [])"

definition hostname :: "'u url_lib \<Rightarrow> 'u \<Rightarrow> string" where
  "hostname L u = (case ul_host_str L u of Some h \<Rightarrow> h | None \<Rightarrow> [])"

definition get_host :: "'u url_lib \<Rightarrow> 'u \<Rightarrow> string" where
  "get_host L u =
     (case ul_host_str L u of Some h \<Rightarrow> h | None \<Rightarrow> []) @
     (case ul_port L u of Some p \<Rightarrow> '':'' @ string_of_nat (unat p) | None \<Rightarrow> [])"

definition set_host :: "'u url_lib \<Rightarrow> string \<Rightarrow> url_object \<Rightarrow> 'u list \<Rightarrow> 'u list" where
  "set_host L v x d = inner_mut x (ul_set_host L (Some v)) d"

definition set_hostname :: "'u url_lib \<Rightarrow> string \<Rightarrow> url_object \<Rightarrow> 'u list \<Rightarrow> 'u list" where
  "set_hostname L v x d = inner_mut x (ul_set_host L (Some v)) d"

definition href :: "'u url_lib \<Rightarrow> 'u \<Rightarrow> string" where
  "href L u = ul_as_str L u"

definition set_href :: "'u url_lib \<Rightarrow> string \<Rightarrow> url_object \<Rightarrow> 'u list \<Rightarrow> unit js_result \<times> url_object \<times> 'u list" where
  "set_href L v x d =
     (case ul_parse L v of
        Inl e \<Rightarrow> (url_error (''Invalid URL: '' @ e), x, d)
      | Inr new_url \<Rightarrow> (Inr (), x\<lparr>uo_search_params := None\<rparr>, inner_mut x (\<lambda>_. new_url) d))"

definition url_origin :: "'u url_lib \<Rightarrow> 'u \<Rightarrow> string" where
  "url_origin L u = ul_scheme L u @ ''://'' @ get_host L u"

definition url_password :: "'u url_lib \<Rightarrow> 'u \<Rightarrow> string" where
  "url_password L u = (case ul_password L u of Some s \<Rightarrow> s | None \<Rightarrow> [])"

definition set_password :: "'u url_lib \<Rightarrow> string \<Rightarrow> url_object \<Rightarrow> 'u list \<Rightarrow> 'u list" where
  "set_password L v x d = inner_mut x (ul_set_password L (Some v)) d"

definition set_username :: "'u url_lib \<Rightarrow> string \<Rightarrow> url_object \<Rightarrow> 'u list \<Rightarrow> 'u list" where
  "set_username L v x d = inner_mut x (ul_set_username L v) d"

definition set_pathname :: "'u url_lib \<Rightarrow> string \<Rightarrow> url_object \<Rightarrow> 'u list \<Rightarrow> 'u list" where
  "set_pathname L v x d =
     inner_mut x (ul_set_path L (if \<not> starts_with ''/'' v then ''/'' @ v else v)) d"

text \<open>\<^verbatim>\<open>parse::<u16>\<close>, by way of the wider type.\<close>

definition parse_u16 :: "string \<Rightarrow> 16 word option" where
  "parse_u16 s = (case parse_u64 s of Some n \<Rightarrow> if unat n < 2 ^ 16 then Some (of_nat (unat n)) else None | None \<Rightarrow> None)"

definition set_port :: "'u url_lib \<Rightarrow> string \<Rightarrow> url_object \<Rightarrow> 'u list \<Rightarrow> 'u list" where
  "set_port L v x d =
     (if v = [] then inner_mut x (ul_set_port L None) d
      else
        (case parse_u16 v of
           Some port \<Rightarrow> inner_mut x (ul_set_port L (Some port)) d
         | None \<Rightarrow> d))"

definition protocol :: "'u url_lib \<Rightarrow> 'u \<Rightarrow> string" where
  "protocol L u = ul_scheme L u @ '':''"

text \<open>\<^verbatim>\<open>str::replace\<close> of a pattern that is not empty.\<close>

function str_replace :: "string \<Rightarrow> string \<Rightarrow> string \<Rightarrow> string" where
  "str_replace pat by_what [] = []"
| "str_replace pat by_what (c # s) =
     (if pat \<noteq> [] \<and> starts_with pat (c # s) then by_what @ str_replace pat by_what (drop (length pat) (c # s))
      else c # str_replace pat by_what s)"
  by pat_completeness auto
termination
  by (relation "measure (\<lambda>(_, _, s). length s)") (auto simp: Suc_le_eq)

definition trim_end_matches :: "char \<Rightarrow> string \<Rightarrow> string" where
  "trim_end_matches c s = rev (dropWhile (\<lambda>x. x = c) (rev s))"

definition set_protocol :: "'u url_lib \<Rightarrow> string \<Rightarrow> url_object \<Rightarrow> 'u list \<Rightarrow> 'u list" where
  "set_protocol L v x d =
     (let protocol = trim_end_matches CHR '':'' v in
      inner_mut x
        (\<lambda>url. case ul_set_scheme L protocol url of
                 Some u \<Rightarrow> u
               | None \<Rightarrow>
                   (case ul_parse L (str_replace (ul_scheme L url @ '':'') (protocol @ '':'') (ul_as_str L url)) of
                      Inr new_url \<Rightarrow> new_url
                    | Inl _ \<Rightarrow> url)) d)"

definition search :: "'u url_lib \<Rightarrow> 'u \<Rightarrow> string" where
  "search L u = (case ul_query L u of Some query \<Rightarrow> ''?'' @ query | None \<Rightarrow> [])"

definition set_search :: "'u url_lib \<Rightarrow> string \<Rightarrow> url_object \<Rightarrow> 'u list \<Rightarrow> url_object \<times> 'u list" where
  "set_search L v x d =
     (let query = (case strip_prefix ''?'' v of Some q \<Rightarrow> q | None \<Rightarrow> v)
      in (x\<lparr>uo_search_params := None\<rparr>, inner_mut x (ul_set_query L (if query = [] then None else Some query)) d))"

text \<open>The getter hands out a copy of the parameters it keeps; the copy shares the URL's data, not the list.\<close>

definition search_params :: "'u url_lib \<Rightarrow> url_object \<Rightarrow> 'u list \<Rightarrow> url_search_params \<times> url_object" where
  "search_params L x d =
     (case uo_search_params x of
        Some p \<Rightarrow> (p, x)
      | None \<Rightarrow> (let p = from_shared_data L (uo_shared x) d in (p, x\<lparr>uo_search_params := Some p\<rparr>)))"

section \<open>The loop of \<^verbatim>\<open>set\<close>\<close>

text \<open>What replacing the value of a name means: its first entry gets the value, its later ones go, all others stay.\<close>

fun replace_first :: "string \<Rightarrow> string \<Rightarrow> pairs \<Rightarrow> pairs" where
  "replace_first name v [] = []"
| "replace_first name v (p # ps) =
     (if fst p = name then (name, v) # filter (\<lambda>q. fst q \<noteq> name) ps else p # replace_first name v ps)"

definition set_pairs :: "string \<Rightarrow> string \<Rightarrow> pairs \<Rightarrow> pairs" where
  "set_pairs name v ps = (if name \<in> fst ` set ps then replace_first name v ps else ps @ [(name, v)])"

lemma set_loop_from:
  "set_loop name v (length pre) found (pre @ ps) =
     (found \<or> name \<in> fst ` set ps,
      pre @ (if found then filter (\<lambda>q. fst q \<noteq> name) ps else replace_first name v ps))"
proof (induction ps arbitrary: pre found)
  case Nil
  show ?case by (subst set_loop.simps) simp
next
  case (Cons p ps)
  have step: "set_loop name v (length pre) found (pre @ p # ps) =
     (if fst p = name then
        if \<not> found then set_loop name v (length (pre @ [(name, v)])) True ((pre @ [(name, v)]) @ ps)
        else set_loop name v (length pre) found (pre @ ps)
      else set_loop name v (length (pre @ [p])) found ((pre @ [p]) @ ps))"
    by (subst set_loop.simps) (simp add: vec_remove_def)
  show ?case
    unfolding step Cons.IH by auto
qed

lemma set_loop_replace:
  "set_loop name v 0 False ps = (name \<in> fst ` set ps, replace_first name v ps)"
  using set_loop_from [of name v "[]" False ps] by simp

lemma replace_first_absent: "name \<notin> fst ` set ps \<Longrightarrow> replace_first name v ps = ps"
  by (induction ps) auto

lemma usp_set_pairs: "us_params (fst (usp_set L name v (p, d))) = set_pairs name v (us_params p)"
  by (auto simp: usp_set_def set_loop_replace set_pairs_def replace_first_absent Let_def)

section \<open>Parameters are a multimap\<close>

definition pairs_get_all :: "string \<Rightarrow> pairs \<Rightarrow> string list" where
  "pairs_get_all name ps = map snd (filter (\<lambda>(k, _). k = name) ps)"

lemma pairs_get_all_simps [simp]:
  "pairs_get_all name [] = []"
  "pairs_get_all name ((k, v) # ps) = (if k = name then v # pairs_get_all name ps else pairs_get_all name ps)"
  "pairs_get_all name (ps @ qs) = pairs_get_all name ps @ pairs_get_all name qs"
  by (simp_all add: pairs_get_all_def)

lemma pairs_get_all_filter [simp]:
  "pairs_get_all name (filter (\<lambda>q. fst q \<noteq> k) ps) = (if k = name then [] else pairs_get_all name ps)"
  by (induction ps) auto

lemma pairs_get_all_absent: "name \<notin> fst ` set ps \<Longrightarrow> pairs_get_all name ps = []"
  by (induction ps) auto

lemma pairs_get_all_replace:
  "k \<in> fst ` set ps \<Longrightarrow>
   pairs_get_all name (replace_first k v ps) = (if k = name then [v] else pairs_get_all name ps)"
proof (induction ps)
  case (Cons p ps)
  obtain n w where p: "p = (n, w)" by (cases p)
  show ?case
  proof (cases "n = k")
    case False
    then have "k \<in> fst ` set ps" using Cons.prems p by auto
    then show ?thesis using Cons.IH False p by auto
  qed (auto simp: p)
qed simp

lemma pairs_get_all_set: "pairs_get_all name (set_pairs k v ps) = (if k = name then [v] else pairs_get_all name ps)"
  by (simp add: set_pairs_def pairs_get_all_replace pairs_get_all_absent)

interpretation pm: multimap pairs_get_all "\<lambda>name v ps. ps @ [(name, v)]" "\<lambda>name ps. filter (\<lambda>q. fst q \<noteq> name) ps" set_pairs
  by unfold_locales (simp_all add: pairs_get_all_set)

lemma usp_get_all_pairs: "usp_get_all name p = pairs_get_all name (us_params p)"
  by (simp add: usp_get_all_def pairs_get_all_def)

text \<open>The other lookups are read off the list of all values.\<close>

lemma find_filter: "List.find P xs = (case filter P xs of [] \<Rightarrow> None | x # _ \<Rightarrow> Some x)"
  by (induction xs) auto

lemma usp_get_first: "usp_get name p = (case usp_get_all name p of [] \<Rightarrow> None | v # _ \<Rightarrow> Some v)"
  unfolding usp_get_def usp_get_all_def find_filter
  by (cases "filter (\<lambda>(k, _). k = name) (us_params p)") simp_all

lemma usp_has_nonempty: "usp_has name p \<longleftrightarrow> usp_get_all name p \<noteq> []"
  by (auto simp: usp_has_def usp_get_all_def list_ex_iff filter_empty_conv)

text \<open>Sorting by name keeps the order of the values of each name.\<close>

lemma pairs_get_all_sort: "pairs_get_all name (sort_key fst ps) = pairs_get_all name ps"
proof -
  have "filter (\<lambda>(k, _). k = name) ps = filter (\<lambda>x. fst x = name) ps" for ps :: pairs
    by (rule filter_cong) auto
  then show ?thesis by (simp add: pairs_get_all_def sort_key_stable)
qed

section \<open>Runs of updates\<close>

datatype usp_op = Usp_Update "(string, string) mm_op" | Usp_Sort

fun usp_step :: "'u url_lib \<Rightarrow> usp_op \<Rightarrow> url_search_params \<times> 'u list \<Rightarrow> url_search_params \<times> 'u list" where
  "usp_step L (Usp_Update (MM_Append name v)) s = usp_append L name v s"
| "usp_step L (Usp_Update (MM_Delete name)) s = usp_delete L name s"
| "usp_step L (Usp_Update (MM_Set name v)) s = usp_set L name v s"
| "usp_step L Usp_Sort s = usp_sort L s"

fun usp_updates :: "usp_op list \<Rightarrow> (string, string) mm_op list" where
  "usp_updates [] = []"
| "usp_updates (Usp_Update x # ops) = x # usp_updates ops"
| "usp_updates (Usp_Sort # ops) = usp_updates ops"

fun pairs_step :: "usp_op \<Rightarrow> pairs \<Rightarrow> pairs" where
  "pairs_step (Usp_Update x) ps = pm.apply_op x ps"
| "pairs_step Usp_Sort ps = sort_key fst ps"

lemma filter_name: "filter (\<lambda>(k, _). k \<noteq> name) ps = filter (\<lambda>q. fst q \<noteq> name) (ps :: pairs)"
  by (rule filter_cong) auto

lemma usp_step_eq:
  "usp_step L x (p, d) =
     (let q = p\<lparr>us_params := pairs_step x (us_params p)\<rparr> in (q, sync_url L q d))"
proof (cases x)
  case (Usp_Update y)
  then show ?thesis
    by (cases y) (auto simp: usp_append_def usp_delete_def filter_name usp_set_def set_loop_replace set_pairs_def
        replace_first_absent Let_def)
qed (simp add: usp_sort_def Let_def)

lemma pairs_run: "pairs_get_all name (fold pairs_step ops ps) = mm_spec name (usp_updates ops) (pairs_get_all name ps)"
proof (induction ops arbitrary: ps)
  case (Cons x ops)
  then show ?case by (cases x) (simp_all add: pm.get_apply pairs_get_all_sort)
qed simp

lemma usp_run_params:
  "us_params (fst (fold (usp_step L) ops (p, d))) = fold pairs_step ops (us_params p) \<and>
   us_shared (fst (fold (usp_step L) ops (p, d))) = us_shared p"
proof (induction ops arbitrary: p d)
  case (Cons x ops)
  show ?case unfolding fold_Cons comp_def usp_step_eq Let_def by (simp add: Cons)
qed simp

text \<open>
  Query parameters are an ordered multimap. After any sequence of append, delete, set and sort, getAll of a name gives
  what the updates of that name alone lead to, in order; get gives the first of them and has tells whether there
  is one. A set puts the value where the name first stood, drops its later entries, and leaves every other entry in its
  place; sort only reorders entries, by name.
\<close>

theorem search_params_multimap:
  "usp_get_all name (fst (fold (usp_step L) ops (p, d))) = mm_spec name (usp_updates ops) (usp_get_all name p) \<and>
   usp_get name p = (case usp_get_all name p of [] \<Rightarrow> None | v # _ \<Rightarrow> Some v) \<and>
   (usp_has name p \<longleftrightarrow> usp_get_all name p \<noteq> []) \<and>
   us_params (fst (usp_set L name v (p, d))) = set_pairs name v (us_params p) \<and>
   mset (us_params (fst (usp_sort L (p, d)))) = mset (us_params p) \<and>
   sorted (map fst (us_params (fst (usp_sort L (p, d)))))"
proof -
  have "us_params (fst (usp_sort L (p, d))) = sort_key fst (us_params p)" by (simp add: usp_sort_def Let_def)
  then show ?thesis
    by (simp add: usp_get_all_pairs usp_run_params pairs_run usp_has_nonempty usp_set_pairs
        usp_get_first [unfolded usp_get_all_pairs])
qed

section \<open>The URL follows its parameters\<close>

text \<open>
  What the crates document, for Rust strings: parsing inverts serialization, a list that is not empty has a serialization
  that is not empty, and a serialized query is stored and returned as it is.
\<close>

definition rust_string :: "string \<Rightarrow> bool" where
  "rust_string s \<longleftrightarrow> from_utf8_lossy s = s"

definition rust_pairs :: "pairs \<Rightarrow> bool" where
  "rust_pairs ps = list_all (\<lambda>(k, v). rust_string k \<and> rust_string v) ps"

definition url_lib_ok :: "'u url_lib \<Rightarrow> bool" where
  "url_lib_ok L \<longleftrightarrow>
     (\<forall>ps. rust_pairs ps \<longrightarrow> fu_parse L (fu_serialize L ps) = ps) \<and>
     (\<forall>ps. ps \<noteq> [] \<longrightarrow> fu_serialize L ps \<noteq> []) \<and> fu_parse L [] = [] \<and>
     (\<forall>ps u. ul_query L (ul_set_query L (Some (fu_serialize L ps)) u) = Some (fu_serialize L ps)) \<and>
     (\<forall>u. ul_query L (ul_set_query L None u) = None)"

fun op_ok :: "usp_op \<Rightarrow> bool" where
  "op_ok (Usp_Update (MM_Append name v)) = (rust_string name \<and> rust_string v)"
| "op_ok (Usp_Update (MM_Set name v)) = (rust_string name \<and> rust_string v)"
| "op_ok _ = True"

definition in_sync :: "'u url_lib \<Rightarrow> nat \<Rightarrow> url_search_params \<Rightarrow> 'u list \<Rightarrow> bool" where
  "in_sync L i p d \<longleftrightarrow>
     us_shared p = Some i \<and> i < length d \<and> rust_pairs (us_params p) \<and> query_pairs L (d ! i) = us_params p \<and>
     search L (d ! i) = (if us_params p = [] then [] else ''?'' @ usp_to_string L p)"

lemma rust_pairs_iff: "rust_pairs ps \<longleftrightarrow> (\<forall>q \<in> set ps. rust_string (fst q) \<and> rust_string (snd q))"
  by (auto simp: rust_pairs_def list_all_iff)

lemma set_replace_first: "set (replace_first name v ps) \<subseteq> insert (name, v) (set ps)"
  by (induction ps) auto

lemma rust_pairs_step: "rust_pairs ps \<Longrightarrow> op_ok x \<Longrightarrow> rust_pairs (pairs_step x ps)"
  using set_replace_first
  by (cases x rule: op_ok.cases) (fastforce simp: rust_pairs_iff set_pairs_def)+

lemma sync_url_in_sync:
  assumes "url_lib_ok L" "us_shared p = Some i" "i < length d" "rust_pairs (us_params p)"
  shows "in_sync L i p (sync_url L p d)" and "\<forall>j. j \<noteq> i \<longrightarrow> sync_url L p d ! j = d ! j"
    and "length (sync_url L p d) = length d"
  using assms by (auto simp: in_sync_def sync_url_def url_lib_ok_def query_pairs_def usp_to_string_def search_def Let_def)

lemma in_sync_step:
  assumes "url_lib_ok L" "us_shared p = Some i" "i < length d" "rust_pairs (us_params p)" "op_ok x"
    and "usp_step L x (p, d) = (p', d')"
  shows "in_sync L i p' d' \<and> length d' = length d \<and> (\<forall>j. j \<noteq> i \<longrightarrow> d' ! j = d ! j)"
  using assms(6) sync_url_in_sync [OF assms(1) _ assms(3), of "p\<lparr>us_params := pairs_step x (us_params p)\<rparr>"]
    assms(2) rust_pairs_step [OF assms(4,5)]
  by (auto simp: usp_step_eq Let_def)

text \<open>
  A URL follows its parameters: if a parameters object is linked to a URL, then after any sequence of updates through it
  the query of the URL is exactly its serialized parameters (none if there are none), parsing the query gives the
  parameters back, and no other URL has changed. Before the first update the two agree because the parameters were parsed
  from the query.
\<close>

theorem url_follows_params:
  assumes "url_lib_ok L" "us_shared p = Some i" "i < length d" "rust_pairs (us_params p)" "list_all op_ok ops" "ops \<noteq> []"
    and "fold (usp_step L) ops (p, d) = (p', d')"
  shows "in_sync L i p' d' \<and> length d' = length d \<and> (\<forall>j. j \<noteq> i \<longrightarrow> d' ! j = d ! j)"
  using assms(2-)
proof (induction ops arbitrary: p d)
  case (Cons x ops)
  obtain p1 d1 where s: "usp_step L x (p, d) = (p1, d1)" by (cases "usp_step L x (p, d)")
  have 1: "in_sync L i p1 d1 \<and> length d1 = length d \<and> (\<forall>j. j \<noteq> i \<longrightarrow> d1 ! j = d ! j)"
    using in_sync_step [OF assms(1) Cons.prems(1-3) _ s] Cons.prems(4) by simp
  show ?case
  proof (cases "ops = []")
    case True
    then show ?thesis using Cons.prems(6) s 1 by simp
  next
    case False
    from 1 show ?thesis
      using Cons.IH [of p1 d1] Cons.prems(4,6) False s by (auto simp: in_sync_def)
  qed
qed simp

text \<open>
  The getter of a URL hands out copies of the parameters it read first, so changes made through two separate uses of the
  getter do not add up: the second one starts from the old list and the first is lost.
\<close>

lemma search_params_getter_loses_append:
  assumes "url_lib_ok L" "uo_search_params x = None" "uo_shared x < length d" "rust_pairs (query_pairs L (inner x d))"
    and "rust_string m" "rust_string v" "rust_string n" "rust_string w"
    and "search_params L x d = (p, x1)" "usp_append L m v (p, d) = (p', d1)"
    and "search_params L x1 d1 = (q, x2)" "usp_append L n w (q, d1) = (q', d2)"
  shows "query_pairs L (inner x2 d1) = query_pairs L (inner x d) @ [(m, v)]"
    and "query_pairs L (inner x2 d2) = query_pairs L (inner x d) @ [(n, w)]"
proof -
  have p: "p = from_shared_data L (uo_shared x) d" "q = p" "x2 = x1" "uo_shared x1 = uo_shared x"
    using assms(2,9,11) by (auto simp: search_params_def Let_def)
  have 1: "in_sync L (uo_shared x) p' d1 \<and> length d1 = length d" "in_sync L (uo_shared x) q' d2"
    using in_sync_step [OF assms(1) _ assms(3), of p "Usp_Update (MM_Append m v)" p' d1] assms(4-10,12)
      in_sync_step [OF assms(1), of p "uo_shared x" d1 "Usp_Update (MM_Append n w)" q' d2] p assms(3)
    by (auto simp: from_shared_data_def inner_def)
  have 2: "us_params p' = us_params p @ [(m, v)]" "us_params q' = us_params p @ [(n, w)]"
    using assms(10,12) p by (auto simp: usp_append_def Let_def)
  show "query_pairs L (inner x2 d1) = query_pairs L (inner x d) @ [(m, v)]"
    "query_pairs L (inner x2 d2) = query_pairs L (inner x d) @ [(n, w)]"
    using 1 2 p by (simp_all add: in_sync_def inner_def from_shared_data_def)
qed

section \<open>Instances\<close>

text \<open>A small library: a URL is its query, and a character is written after an \<open>x\<close>.\<close>

fun unmark :: "string \<Rightarrow> string \<times> string" where
  "unmark (c # a # s) = (if c = CHR ''x'' then (a # fst (unmark s), snd (unmark s)) else ([], c # a # s))"
| "unmark s = ([], s)"

lemma length_unmark: "length (snd (unmark s)) \<le> length s"
  by (induction s rule: unmark.induct) auto

lemma length_unmark_twice: "length (snd (unmark (tl (snd (unmark (c # s)))))) - 1 < Suc (length s)"
  using length_unmark [of "tl (snd (unmark (c # s)))"] length_unmark [of "c # s"] by simp

function marked_parse :: "string \<Rightarrow> pairs" where
  "marked_parse [] = []"
| "marked_parse (c # s) =
     (fst (unmark (c # s)), fst (unmark (tl (snd (unmark (c # s)))))) #
     marked_parse (tl (snd (unmark (tl (snd (unmark (c # s)))))))"
  by pat_completeness auto
termination
  by (relation "measure length") (use length_unmark_twice in auto)

definition marked :: "string \<Rightarrow> string" where
  "marked s = concat (map (\<lambda>c. [CHR ''x'', c]) s)"

definition marked_serialize :: "pairs \<Rightarrow> string" where
  "marked_serialize ps = concat (map (\<lambda>(k, v). marked k @ ''='' @ marked v @ ''&'') ps)"

lemma unmark_marked: "c \<noteq> CHR ''x'' \<Longrightarrow> unmark (marked s @ c # r) = (s, c # r)"
proof (induction s)
  case Nil
  then show ?case by (cases r) (simp_all add: marked_def)
qed (simp add: marked_def)

lemma marked_parse_serialize: "marked_parse (marked_serialize ps) = ps"
proof (induction ps)
  case (Cons p ps)
  obtain k v where p: "p = (k, v)" by (cases p)
  have "marked_serialize (p # ps) = marked k @ CHR ''='' # (marked v @ CHR ''&'' # marked_serialize ps)"
    by (simp add: marked_serialize_def p)
  then show ?case using Cons unmark_marked [of "CHR ''=''" k "marked v @ CHR ''&'' # marked_serialize ps"]
    unmark_marked [of "CHR ''&''" v "marked_serialize ps"]
    by (cases "marked k @ CHR ''='' # (marked v @ CHR ''&'' # marked_serialize ps)") (simp_all add: p)
qed (simp add: marked_serialize_def)

definition marked_lib :: "string option url_lib" where
  "marked_lib = \<lparr>ul_parse = (\<lambda>s. Inr (Some s)), ul_join = (\<lambda>u s. Inr (Some s)), ul_as_str = (\<lambda>u. case u of Some q \<Rightarrow> q | None \<Rightarrow> []),
     ul_scheme = (\<lambda>u. ''q''), ul_set_scheme = (\<lambda>s u. None), ul_username = (\<lambda>u. []), ul_set_username = (\<lambda>s u. u),
     ul_password = (\<lambda>u. None), ul_set_password = (\<lambda>s u. u), ul_host_str = (\<lambda>u. None), ul_set_host = (\<lambda>s u. u),
     ul_port = (\<lambda>u. None), ul_set_port = (\<lambda>s u. u), ul_path = (\<lambda>u. []), ul_set_path = (\<lambda>s u. u),
     ul_query = (\<lambda>u. u), ul_set_query = (\<lambda>q u. q), ul_fragment = (\<lambda>u. None), ul_set_fragment = (\<lambda>s u. u),
     fu_parse = marked_parse, fu_serialize = marked_serialize\<rparr>"

lemma marked_lib_ok: "url_lib_ok marked_lib"
  by (auto simp: url_lib_ok_def marked_lib_def marked_parse_serialize)
     (auto simp: marked_serialize_def neq_Nil_conv)

definition demo_params :: url_search_params where
  "demo_params = \<lparr>us_params = [], us_shared = Some 0\<rparr>"

definition demo_ops :: "usp_op list" where
  "demo_ops = [Usp_Update (MM_Append ''b'' ''1''), Usp_Update (MM_Append ''a'' ''2''), Usp_Sort]"

theorem url_follows_params_witness:
  "in_sync marked_lib 0 (fst (fold (usp_step marked_lib) demo_ops (demo_params, [None])))
     (snd (fold (usp_step marked_lib) demo_ops (demo_params, [None])))"
proof -
  have "list_all op_ok demo_ops" "demo_ops \<noteq> []" by (code_simp+)
  then show ?thesis
    using url_follows_params [OF marked_lib_ok, of demo_params 0 "[None]" demo_ops
        "fst (fold (usp_step marked_lib) demo_ops (demo_params, [None]))"
        "snd (fold (usp_step marked_lib) demo_ops (demo_params, [None]))"]
    by (simp add: demo_params_def rust_pairs_def)
qed

end
