(* ===== verification/Headers.thy ===== *)
theory Headers
  imports Multimap Rust_String
begin

text \<open>
  \<^verbatim>\<open>modules/rong_http/src/header.rs\<close>: the \<^verbatim>\<open>Headers\<close> object of scripts over the \<^verbatim>\<open>HeaderMap\<close> of the \<^verbatim>\<open>http\<close> crate. The map is
  modelled by what the crate documents: the values of each name in the order in which they were added. The syntax of
  names and values and the order in which names are visited are parameters.
\<close>

type_synonym header_map = "string \<rightharpoonup> string list"

definition hm_get_all :: "string \<Rightarrow> header_map \<Rightarrow> string list" where
  "hm_get_all n m = (case m n of Some vs \<Rightarrow> vs | None \<Rightarrow> [])"

definition hm_append :: "string \<Rightarrow> string \<Rightarrow> header_map \<Rightarrow> header_map" where
  "hm_append n v m = m(n \<mapsto> hm_get_all n m @ [v])"

definition hm_insert :: "string \<Rightarrow> string \<Rightarrow> header_map \<Rightarrow> header_map" where
  "hm_insert n v m = m(n \<mapsto> [v])"

definition hm_remove :: "string \<Rightarrow> header_map \<Rightarrow> header_map" where
  "hm_remove n m = m(n := None)"

text \<open>
  \<^verbatim>\<open>HeaderName::try_from\<close> gives the canonical spelling of a name, \<^verbatim>\<open>HeaderValue::try_from\<close> accepts the bytes of a value or
  does not, and \<^verbatim>\<open>to_str\<close> gives a value back as a string if it is visible ASCII.
\<close>

record http_types =
  ht_name :: "string \<Rightarrow> string option"
  ht_value :: "string \<Rightarrow> string option"
  ht_to_str :: "string \<Rightarrow> string option"
  ht_order :: "header_map \<Rightarrow> string list"

definition hm_iter :: "http_types \<Rightarrow> header_map \<Rightarrow> (string \<times> string) list" where
  "hm_iter T m = concat (map (\<lambda>n. map (Pair n) (hm_get_all n m)) (ht_order T m))"

definition header_error :: "string \<Rightarrow> 'a js_result" where
  "header_error msg = Inl (Host (with_name ''TypeError'' (he_new E_INVALID_ARG msg)))"

section \<open>Operations\<close>

definition hd_append :: "http_types \<Rightarrow> string \<Rightarrow> string \<Rightarrow> header_map \<Rightarrow> header_map js_result" where
  "hd_append T name v m =
     (case (ht_name T name, ht_value T v) of
        (Some n, Some v) \<Rightarrow> Inr (hm_append n v m)
      | (None, _) \<Rightarrow> header_error (''Invalid header name: '' @ name)
      | (_, None) \<Rightarrow> header_error ''Invalid header value'')"

text \<open>What a script passes to the constructor, as the engine shows it; each look may throw.\<close>

datatype hd_item = Hd_Pair "nat js_result" "string option js_result" "string option js_result" | Hd_Not_Array

datatype headers_init =
  HI_Headers header_map
| HI_Array "hd_item js_result list js_result"
| HI_Object "(string \<times> string) js_result list js_result"
| HI_Other

definition hd_item_pair :: "hd_item \<Rightarrow> (string \<times> string) js_result" where
  "hd_item_pair item =
     (case item of
        Hd_Pair len key v \<Rightarrow>
          (case len of
             Inl e \<Rightarrow> Inl e
           | Inr n \<Rightarrow>
               if n \<noteq> 2 then header_error ''Each header must be an array of [name, value]''
               else
                 (case key of
                    Inl e \<Rightarrow> Inl e
                  | Inr None \<Rightarrow> header_error ''Header name is required''
                  | Inr (Some k) \<Rightarrow>
                      (case v of
                         Inl e \<Rightarrow> Inl e
                       | Inr None \<Rightarrow> header_error ''Header value is required''
                       | Inr (Some v) \<Rightarrow> Inr (k, v))))
      | Hd_Not_Array \<Rightarrow> header_error ''Each header must be an array of [name, value]'')"

fun hd_append_all :: "http_types \<Rightarrow> (string \<times> string) js_result list \<Rightarrow> header_map \<Rightarrow> header_map js_result" where
  "hd_append_all T [] m = Inr m"
| "hd_append_all T (Inl e # rest) m = Inl e"
| "hd_append_all T (Inr (k, v) # rest) m =
     (case hd_append T k v m of
        Inl e \<Rightarrow> Inl e
      | Inr m' \<Rightarrow> hd_append_all T rest m')"

definition hd_new :: "http_types \<Rightarrow> headers_init option \<Rightarrow> header_map js_result" where
  "hd_new T init =
     (case init of
        None \<Rightarrow> Inr Map.empty
      | Some (HI_Headers other) \<Rightarrow> Inr (fold (\<lambda>(k, v). hm_append k v) (hm_iter T other) Map.empty)
      | Some (HI_Array items) \<Rightarrow>
          (case items of
             Inl e \<Rightarrow> Inl e
           | Inr is \<Rightarrow> hd_append_all T (map (\<lambda>item. case item of Inl e \<Rightarrow> Inl e | Inr x \<Rightarrow> hd_item_pair x) is) Map.empty)
      | Some (HI_Object entries) \<Rightarrow>
          (case entries of
             Inl e \<Rightarrow> Inl e
           | Inr es \<Rightarrow> hd_append_all T es Map.empty)
      | Some HI_Other \<Rightarrow> header_error ''Invalid Headers init'')"

definition hd_delete :: "http_types \<Rightarrow> string \<Rightarrow> header_map \<Rightarrow> header_map js_result" where
  "hd_delete T name m =
     (case ht_name T name of
        None \<Rightarrow> header_error (''Invalid header name: '' @ name)
      | Some n \<Rightarrow> Inr (hm_remove n m))"

definition hd_get :: "http_types \<Rightarrow> string \<Rightarrow> header_map \<Rightarrow> string option js_result" where
  "hd_get T name m =
     (case ht_name T name of
        Some n \<Rightarrow>
          (let values = List.map_filter (ht_to_str T) (hm_get_all n m)
           in Inr (if values = [] then None else Some (join_with '', '' values)))
      | None \<Rightarrow> header_error (''Invalid header name: '' @ name))"

definition hd_has :: "http_types \<Rightarrow> string \<Rightarrow> header_map \<Rightarrow> bool js_result" where
  "hd_has T name m =
     (case ht_name T name of
        Some n \<Rightarrow> Inr (m n \<noteq> None)
      | None \<Rightarrow> header_error (''Invalid header name: '' @ name))"

definition hd_set :: "http_types \<Rightarrow> string \<Rightarrow> string \<Rightarrow> header_map \<Rightarrow> header_map js_result" where
  "hd_set T name v m =
     (if CHR 0x00 \<in> set v then header_error ''Header value must not contain null characters''
      else
        (case (ht_name T name, ht_value T v) of
           (Some n, Some v) \<Rightarrow> Inr (hm_insert n v m)
         | (None, _) \<Rightarrow> header_error (''Invalid header name: '' @ name)
         | (_, None) \<Rightarrow> header_error ''Invalid header value''))"

definition str_or_default :: "http_types \<Rightarrow> string \<Rightarrow> string" where
  "str_or_default T v = (case ht_to_str T v of Some s \<Rightarrow> s | None \<Rightarrow> [])"

definition hd_entries :: "http_types \<Rightarrow> header_map \<Rightarrow> string list list" where
  "hd_entries T m = map (\<lambda>(n, v). [to_ascii_lowercase n, str_or_default T v]) (hm_iter T m)"

definition hd_keys :: "http_types \<Rightarrow> header_map \<Rightarrow> string list" where
  "hd_keys T m = map to_ascii_lowercase (ht_order T m)"

definition hd_values :: "http_types \<Rightarrow> header_map \<Rightarrow> string list" where
  "hd_values T m = List.map_filter (\<lambda>(n, v). ht_to_str T v) (hm_iter T m)"

definition get_set_cookie :: "http_types \<Rightarrow> header_map \<Rightarrow> string list" where
  "get_set_cookie T m = List.map_filter (ht_to_str T) (hm_get_all ''set-cookie'' m)"

definition hd_for_each ::
  "http_types \<Rightarrow> (string \<Rightarrow> string \<Rightarrow> 's \<Rightarrow> unit js_result \<times> 's) \<Rightarrow> header_map \<Rightarrow> 's \<Rightarrow> unit js_result \<times> 's" where
  "hd_for_each T callback m s = call_each callback (map (\<lambda>(n, v). (n, str_or_default T v)) (hm_iter T m)) s"

section \<open>The map of headers\<close>

interpretation hm: multimap hm_get_all hm_append hm_remove hm_insert
  by unfold_locales (simp_all add: hm_get_all_def hm_append_def hm_remove_def hm_insert_def)

text \<open>A map holds no name without values; a map that \<^verbatim>\<open>HeaderMap\<close> visits shows every name once.\<close>

definition hm_ok :: "header_map \<Rightarrow> bool" where
  "hm_ok m \<longleftrightarrow> (\<forall>n. m n \<noteq> Some [])"

definition order_ok :: "http_types \<Rightarrow> header_map \<Rightarrow> bool" where
  "order_ok T m \<longleftrightarrow> distinct (ht_order T m) \<and> set (ht_order T m) = dom m"

lemma hm_ok_apply: "hm_ok m \<Longrightarrow> hm_ok (hm.apply_op x m)"
  by (cases x) (auto simp: hm_ok_def hm_append_def hm_remove_def hm_insert_def)

lemma hm_ok_present: "hm_ok m \<Longrightarrow> m n \<noteq> None \<longleftrightarrow> hm_get_all n m \<noteq> []"
  by (auto simp: hm_ok_def hm_get_all_def split: option.splits)

lemma hm_ext: "hm_ok m \<Longrightarrow> hm_ok m' \<Longrightarrow> (\<And>n. hm_get_all n m = hm_get_all n m') \<Longrightarrow> m = m'"
proof
  fix n
  assume "hm_ok m" "hm_ok m'" "\<And>n. hm_get_all n m = hm_get_all n m'"
  from this(3) [of n] this(1,2) show "m n = m' n"
    by (cases "m n"; cases "m' n") (auto simp: hm_ok_def hm_get_all_def)
qed

text \<open>The updates a script can ask for, as it spells them, and the update of the map each comes to, if it is accepted.\<close>

fun hd_step :: "http_types \<Rightarrow> (string, string) mm_op \<Rightarrow> header_map \<Rightarrow> header_map js_result" where
  "hd_step T (MM_Append name v) m = hd_append T name v m"
| "hd_step T (MM_Delete name) m = hd_delete T name m"
| "hd_step T (MM_Set name v) m = hd_set T name v m"

fun hd_update :: "http_types \<Rightarrow> (string, string) mm_op \<Rightarrow> (string, string) mm_op option" where
  "hd_update T (MM_Append name v) =
     (case (ht_name T name, ht_value T v) of (Some n, Some w) \<Rightarrow> Some (MM_Append n w) | _ \<Rightarrow> None)"
| "hd_update T (MM_Delete name) = map_option MM_Delete (ht_name T name)"
| "hd_update T (MM_Set name v) =
     (if CHR 0x00 \<in> set v then None
      else (case (ht_name T name, ht_value T v) of (Some n, Some w) \<Rightarrow> Some (MM_Set n w) | _ \<Rightarrow> None))"

text \<open>A run of updates as a script makes them: an update that throws leaves the headers as they were.\<close>

fun hd_run :: "http_types \<Rightarrow> (string, string) mm_op list \<Rightarrow> header_map \<Rightarrow> header_map" where
  "hd_run T [] m = m"
| "hd_run T (x # ops) m = hd_run T ops (case hd_step T x m of Inl _ \<Rightarrow> m | Inr m' \<Rightarrow> m')"

lemma hd_step_update:
  "hd_step T x m = Inr m' \<longleftrightarrow> (\<exists>y. hd_update T x = Some y \<and> m' = hm.apply_op y m)"
  by (cases x) (auto simp: hd_append_def hd_delete_def hd_set_def header_error_def split: option.splits)

lemma hd_step_error: "hd_step T x m = Inl e \<Longrightarrow> hd_update T x = None"
  by (cases x) (auto simp: hd_append_def hd_delete_def hd_set_def header_error_def split: option.splits if_splits)

lemma hd_run_updates: "hd_run T ops m = fold hm.apply_op (List.map_filter (hd_update T) ops) m"
proof (induction ops arbitrary: m)
  case (Cons x ops)
  show ?case
  proof (cases "hd_step T x m")
    case (Inl e)
    then show ?thesis using Cons hd_step_error [OF Inl] by (simp add: map_filter_simps)
  next
    case (Inr m')
    then obtain y where "hd_update T x = Some y" "m' = hm.apply_op y m" by (auto simp: hd_step_update)
    then show ?thesis using Cons Inr by (simp add: map_filter_simps)
  qed
qed (simp add: map_filter_simps)

lemma hm_ok_fold: "hm_ok m \<Longrightarrow> hm_ok (fold hm.apply_op ys m)"
  by (induction ys arbitrary: m) (simp_all add: hm_ok_apply)

text \<open>
  Headers are a multimap whose names are compared in their canonical spelling. After any sequence of append, delete
  and set calls, some of which may throw and then have no effect, \<^verbatim>\<open>has\<close> tells whether the accepted updates of the
  name leave any value, and \<^verbatim>\<open>get\<close> joins the readable ones of those values with commas, in order; a name that is not
  valid is refused by both.
\<close>

theorem headers_multimap:
  assumes "hm_ok m" "m' = hd_run T ops m"
  shows "(\<forall>n. ht_name T name = Some n \<longrightarrow>
            (let vs = mm_spec n (List.map_filter (hd_update T) ops) (hm_get_all n m);
                 ss = List.map_filter (ht_to_str T) vs
             in hd_has T name m' = Inr (vs \<noteq> []) \<and>
                hd_get T name m' = Inr (if ss = [] then None else Some (join_with '', '' ss)))) \<and>
         (ht_name T name = None \<longrightarrow> hd_get T name m' = header_error (''Invalid header name: '' @ name) \<and>
            hd_has T name m' = header_error (''Invalid header name: '' @ name))"
proof -
  have ok: "hm_ok m'" unfolding assms(2) hd_run_updates using assms(1) by (rule hm_ok_fold)
  have g: "hm_get_all n m' = mm_spec n (List.map_filter (hd_update T) ops) (hm_get_all n m)" for n
    by (simp add: assms(2) hd_run_updates hm.get_run)
  have "m' n \<noteq> None \<longleftrightarrow> mm_spec n (List.map_filter (hd_update T) ops) (hm_get_all n m) \<noteq> []" for n
    using hm_ok_present [OF ok, of n] g by simp
  then show ?thesis by (simp add: hd_has_def hd_get_def g Let_def)
qed

section \<open>Copies\<close>

lemma fold_append_ops:
  "fold (\<lambda>(k, v). hm_append k v) kvs m = fold hm.apply_op (map (\<lambda>(n, v). MM_Append n v) kvs) m"
  by (induction kvs arbitrary: m) auto

lemma filter_iter_names:
  assumes "distinct ns"
  shows "map snd (filter (\<lambda>(k, v). k = n) (concat (map (\<lambda>n. map (Pair n) (f n)) ns))) = (if n \<in> set ns then f n else [])"
  using assms
proof (induction ns)
  case (Cons a ns)
  have "filter (\<lambda>(k, v). k = n) (map (Pair a) (f a)) = (if a = n then map (Pair a) (f a) else [])"
    by (auto intro: filter_True filter_False)
  then show ?case using Cons by (auto simp: comp_def)
qed simp

lemma iter_values:
  assumes "order_ok T m"
  shows "map snd (filter (\<lambda>(k, v). k = n) (hm_iter T m)) = hm_get_all n m"
proof -
  have "map snd (filter (\<lambda>(k, v). k = n) (hm_iter T m)) = (if n \<in> dom m then hm_get_all n m else [])"
    using filter_iter_names [of "ht_order T m" n "\<lambda>n. hm_get_all n m"] assms by (simp add: hm_iter_def order_ok_def)
  then show ?thesis by (auto simp: hm_get_all_def split: option.splits)
qed

text \<open>
  Copying headers is exact: a \<^verbatim>\<open>Headers\<close> object built from another one has the same names with the same values in
  the same order, whatever order the map visits its names in. A callback that does not throw is given every value of
  every name once.
\<close>

theorem headers_copy_exact:
  assumes "hm_ok m" "order_ok T m" "\<And>v k s. fst (callback v k s) = Inr ()"
  shows "hd_new T (Some (HI_Headers m)) = Inr m \<and>
         hd_for_each T callback m s =
           (Inr (), fold (\<lambda>(n, v). \<lambda>s. snd (callback (str_or_default T v) n s)) (hm_iter T m) s)"
proof -
  have "hm_get_all n (fold (\<lambda>(k, v). hm_append k v) (hm_iter T m) Map.empty) = hm_get_all n m" for n
    unfolding fold_append_ops hm.get_run mm_spec_appends iter_values [OF assms(2)] by (simp add: hm_get_all_def)
  moreover have "hm_ok (fold (\<lambda>(k, v). hm_append k v) (hm_iter T m) Map.empty)"
    unfolding fold_append_ops by (rule hm_ok_fold) (simp add: hm_ok_def)
  ultimately have "fold (\<lambda>(k, v). hm_append k v) (hm_iter T m) Map.empty = m"
    using assms(1) by (intro hm_ext)
  moreover have "fold (\<lambda>(k, v) s. snd (callback v k s)) (map (\<lambda>(n, v). (n, str_or_default T v)) xs) s =
      fold (\<lambda>(n, v) s. snd (callback (str_or_default T v) n s)) xs s" for xs
    by (induction xs arbitrary: s) auto
  ultimately show ?thesis
    using call_each_all [of callback] assms(3) by (simp add: hd_new_def hd_for_each_def)
qed

text \<open>
  A header whose values are all unreadable as strings is present and yet has no value: \<^verbatim>\<open>has\<close> answers true and \<^verbatim>\<open>get\<close>
  null.
\<close>

lemma unreadable_header_present_without_value:
  assumes "ht_name T name = Some n" "m n = Some vs" "\<forall>v \<in> set vs. ht_to_str T v = None"
  shows "hd_has T name m = Inr True \<and> hd_get T name m = Inr None"
proof -
  have "List.map_filter (ht_to_str T) vs = []" using assms(3) by (induction vs) (simp_all add: map_filter_simps)
  then show ?thesis using assms(1,2) by (simp add: hd_has_def hd_get_def hm_get_all_def)
qed

section \<open>Instances\<close>

text \<open>Names in lower case, values in printable ASCII, one name at a time in the order of a fixed list.\<close>

definition ascii_types :: http_types where
  "ascii_types = \<lparr>ht_name = (\<lambda>s. if s \<noteq> [] \<and> list_all graphic s then Some (to_ascii_lowercase s) else None),
     ht_value = (\<lambda>s. if CHR 0x00 \<in> set s then None else Some s), ht_to_str = (\<lambda>s. if is_ascii s then Some s else None),
     ht_order = (\<lambda>m. filter (\<lambda>n. m n \<noteq> None) [''accept'', ''host''])\<rparr>"

theorem headers_multimap_witness:
  "hd_get ascii_types ''ACCEPT'' (hd_run ascii_types [MM_Append ''Accept'' ''a'', MM_Append ''accept'' ''b''] Map.empty) =
     Inr (Some ''a, b'')"
proof -
  have n: "ht_name ascii_types ''ACCEPT'' = Some ''accept''" by code_simp
  have u: "mm_spec ''accept'' (List.map_filter (hd_update ascii_types) [MM_Append ''Accept'' ''a'', MM_Append ''accept'' ''b''])
      (hm_get_all ''accept'' Map.empty) = [''a'', ''b'']" by code_simp
  have s: "List.map_filter (ht_to_str ascii_types) [''a'', ''b''] = [''a'', ''b'']" by code_simp
  have "hm_ok Map.empty" by (simp add: hm_ok_def)
  from headers_multimap [OF this refl, of ascii_types "''ACCEPT''" "[MM_Append ''Accept'' ''a'', MM_Append ''accept'' ''b'']"]
  show ?thesis using n u s by (simp add: Let_def)
qed

definition one_header :: header_map where
  "one_header = [''host'' \<mapsto> [''x'', ''y'']]"

definition quiet_callback :: "string \<Rightarrow> string \<Rightarrow> string list \<Rightarrow> unit js_result \<times> string list" where
  "quiet_callback v k s = (Inr (), s @ [v])"

theorem headers_copy_exact_witness:
  "hd_new ascii_types (Some (HI_Headers one_header)) = Inr one_header \<and>
   hd_for_each ascii_types quiet_callback one_header [] = (Inr (), [''x'', ''y''])"
proof -
  have o: "hm_ok one_header" "order_ok ascii_types one_header"
    by (auto simp: hm_ok_def order_ok_def one_header_def ascii_types_def)
  have i: "hm_iter ascii_types one_header = [(''host'', ''x''), (''host'', ''y'')]" by code_simp
  have s: "str_or_default ascii_types ''x'' = ''x''" "str_or_default ascii_types ''y'' = ''y''" by code_simp+
  show ?thesis
    using headers_copy_exact [OF o, of quiet_callback "[]"] by (simp add: quiet_callback_def i s)
qed

end
