(* ===== verification/Observer.thy ===== *)
theory Observer
  imports Http_Client
begin

text \<open>
  The process-wide network observer, \<^verbatim>\<open>rong_rt/src/observer/mod.rs\<close> with the feature on: the installed observer, the
  request ids, the tags that attribute a request, the start event, the recorder that reports one request and the body
  that reports what the connection pulls from it. The events go to a log of pairs of an observer and an event. The
  instants and durations the events carry are left out.
\<close>

section \<open>Data\<close>

datatype network_request_kind = Kind_Fetch | Kind_Sse | Kind_Download | Kind_Upload | Kind_Other

record network_request_tag =
  tag_id :: u64
  tag_owner :: "string option"
  tag_kind :: network_request_kind
  tag_redirected_from :: "u64 option"

text \<open>What the observer reads of an \<^verbatim>\<open>http::Request\<close>: the size is the exact size hint of its body, the tag is the entry of
  its extensions.\<close>

record observed_request =
  oq_method :: string
  oq_uri :: string
  oq_headers :: "(string \<times> string) list"
  oq_body_size :: "u64 option"
  oq_tag :: "network_request_tag option"

record network_request_start =
  ns_id :: u64
  ns_owner :: "string option"
  ns_kind :: network_request_kind
  ns_redirected_from :: "u64 option"
  ns_method :: string
  ns_uri :: string
  ns_headers :: "(string \<times> string) list"
  ns_body_size :: "u64 option"

datatype network_outcome = Completed | Failed string | Aborted | Dropped | Blocked string

record response_parts =
  pt_status :: nat
  pt_version :: string
  pt_headers :: "(string \<times> string) list"

datatype network_event =
    RequestStart network_request_start
  | RequestBodyChunk u64 string
  | ResponseHead u64 response_parts
  | ResponseBodyChunk u64 string
  | RequestEnd u64 network_outcome u64

fun event_id :: "network_event \<Rightarrow> u64" where
  "event_id (RequestStart e) = ns_id e"
| "event_id (RequestBodyChunk i c) = i"
| "event_id (ResponseBodyChunk i c) = i"
| "event_id (ResponseHead i p) = i"
| "event_id (RequestEnd i oc n) = i"

section \<open>The installed observer\<close>

record 'o observer_state =
  os_installed :: bool
  os_slot :: "'o option"
  os_next :: u64
  os_log :: "('o \<times> network_event) list"

definition observer_init :: "'o observer_state" where
  "observer_init = \<lparr>os_installed = False, os_slot = None, os_next = 1, os_log = []\<rparr>"

definition on_event :: "'o \<Rightarrow> network_event \<Rightarrow> 'o observer_state \<Rightarrow> 'o observer_state" where
  "on_event ob e w = w\<lparr>os_log := os_log w @ [(ob, e)]\<rparr>"

definition set_network_observer :: "'o option \<Rightarrow> 'o observer_state \<Rightarrow> 'o observer_state" where
  "set_network_observer ob w = w\<lparr>os_installed := ob \<noteq> None, os_slot := ob\<rparr>"

definition network_observer_installed :: "'o observer_state \<Rightarrow> bool" where
  "network_observer_installed w = os_installed w"

text \<open>The flag is loaded before the slot is read, and another thread may swap the observer in between: the first argument is
  the flag as it was loaded.\<close>

definition current_observer :: "bool \<Rightarrow> 'o observer_state \<Rightarrow> 'o option" where
  "current_observer installed w = (if \<not> installed then None else os_slot w)"

section \<open>Ids and tags\<close>

definition network_request_id_next :: "'o observer_state \<Rightarrow> u64 \<times> 'o observer_state" where
  "network_request_id_next w = (os_next w, w\<lparr>os_next := os_next w + 1\<rparr>)"

text \<open>The owner is the one of the innermost scope of the calling task.\<close>

definition network_request_tag_new ::
  "network_request_kind \<Rightarrow> string option \<Rightarrow> 'o observer_state \<Rightarrow> network_request_tag \<times> 'o observer_state" where
  "network_request_tag_new kind owner w =
     (case network_request_id_next w of
        (i, w') \<Rightarrow> (\<lparr>tag_id = i, tag_owner = owner, tag_kind = kind, tag_redirected_from = None\<rparr>, w'))"

definition with_owner :: "string option \<Rightarrow> network_request_tag \<Rightarrow> network_request_tag" where
  "with_owner owner t = t\<lparr>tag_owner := owner\<rparr>"

definition with_redirected_from :: "u64 option \<Rightarrow> network_request_tag \<Rightarrow> network_request_tag" where
  "with_redirected_from hop t = t\<lparr>tag_redirected_from := hop\<rparr>"

definition insert_into :: "network_request_tag \<Rightarrow> observed_request \<Rightarrow> observed_request" where
  "insert_into t rq = rq\<lparr>oq_tag := Some t\<rparr>"

text \<open>The id of the hop a redirect leads away from: \<^const>\<open>None\<close> is \<^verbatim>\<open>HopId::FIRST\<close>.\<close>

definition tag_request ::
  "network_request_kind \<Rightarrow> u64 option \<Rightarrow> string option \<Rightarrow> observed_request \<Rightarrow> 'o observer_state \<Rightarrow>
     u64 option \<times> observed_request \<times> 'o observer_state" where
  "tag_request kind redirected_from owner rq w =
     (if \<not> network_observer_installed w then (None, rq, w)
      else
        (case network_request_tag_new kind owner w of
           (t, w') \<Rightarrow>
             (let t = with_redirected_from redirected_from t in (Some (tag_id t), insert_into t rq, w'))))"

section \<open>The start of a request\<close>

definition content_length :: "(string \<Rightarrow> string option) \<Rightarrow> observed_request \<Rightarrow> u64 option" where
  "content_length to_str rq =
     Option.bind (Option.bind (map_of (oq_headers rq) ''content-length'') to_str) parse_u64"

definition start_event ::
  "(string \<Rightarrow> string option) \<Rightarrow> observed_request \<Rightarrow> u64 option \<Rightarrow> string option \<Rightarrow> 'o observer_state \<Rightarrow>
     network_request_start \<times> 'o observer_state" where
  "start_event to_str rq body_size owner w =
     (case (case oq_tag rq of
              Some t \<Rightarrow> (t, w)
            | None \<Rightarrow> network_request_tag_new Kind_Other owner w) of
        (t, w') \<Rightarrow>
          (\<lparr>ns_id = tag_id t, ns_owner = tag_owner t, ns_kind = tag_kind t,
            ns_redirected_from = tag_redirected_from t, ns_method = oq_method rq, ns_uri = oq_uri rq,
            ns_headers = oq_headers rq,
            ns_body_size = (case body_size of Some n \<Rightarrow> Some n | None \<Rightarrow> content_length to_str rq)\<rparr>, w'))"

text \<open>The id reported is returned beside the state, as the log alone does not say which request an event came from.\<close>

definition notify_network_blocked ::
  "(string \<Rightarrow> string option) \<Rightarrow> bool \<Rightarrow> observed_request \<Rightarrow> string \<Rightarrow> string option \<Rightarrow> 'o observer_state \<Rightarrow>
     ('o \<times> u64) option \<times> 'o observer_state" where
  "notify_network_blocked to_str installed rq reason owner w =
     (case current_observer installed w of
        None \<Rightarrow> (None, w)
      | Some ob \<Rightarrow>
          (case start_event to_str rq None owner w of
             (start, w') \<Rightarrow>
               (let i = ns_id start in
                (Some (ob, i), on_event ob (RequestEnd i (Blocked reason) 0) (on_event ob (RequestStart start) w')))))"

section \<open>Owners\<close>

text \<open>A task runs in the stack of its owner scopes; a captured owner is entered again on the executor.\<close>

definition current_network_owner :: "string list \<Rightarrow> string option" where
  "current_network_owner scopes = (case scopes of [] \<Rightarrow> None | owner # outer \<Rightarrow> Some owner)"

definition scope_network_owner :: "string \<Rightarrow> (string list \<Rightarrow> 'r) \<Rightarrow> string list \<Rightarrow> 'r" where
  "scope_network_owner owner future scopes = future (owner # scopes)"

definition owner_capture :: "string list \<Rightarrow> string option" where
  "owner_capture scopes = current_network_owner scopes"

definition owner_capture_scope :: "string option \<Rightarrow> (string list \<Rightarrow> 'r) \<Rightarrow> string list \<Rightarrow> 'r" where
  "owner_capture_scope captured future scopes =
     (case captured of Some owner \<Rightarrow> scope_network_owner owner future scopes | None \<Rightarrow> future scopes)"

section \<open>The recorder\<close>

record 'o active =
  ac_observer :: 'o
  ac_id :: u64
  ac_response_bytes :: u64

type_synonym 'o recorder = "'o active option"

text \<open>The request body the connection reads is replaced by one that knows the observer and the id.\<close>

type_synonym 'o observed_body = "('o \<times> u64) option"

definition recorder_start ::
  "(string \<Rightarrow> string option) \<Rightarrow> bool \<Rightarrow> string option \<Rightarrow> observed_request \<Rightarrow> 'o observer_state \<Rightarrow>
     'o recorder \<times> 'o observed_body \<times> 'o observer_state" where
  "recorder_start to_str installed owner rq w =
     (case current_observer installed w of
        None \<Rightarrow> (None, None, w)
      | Some ob \<Rightarrow>
          (case start_event to_str rq (oq_body_size rq) owner w of
             (start, w') \<Rightarrow>
               (let i = ns_id start in
                (Some \<lparr>ac_observer = ob, ac_id = i, ac_response_bytes = 0\<rparr>, Some (ob, i),
                 on_event ob (RequestStart start) w'))))"

definition response_head :: "response_parts \<Rightarrow> 'o recorder \<Rightarrow> 'o observer_state \<Rightarrow> 'o observer_state" where
  "response_head p r w =
     (case r of None \<Rightarrow> w | Some a \<Rightarrow> on_event (ac_observer a) (ResponseHead (ac_id a) p) w)"

definition recorder_chunk ::
  "string \<Rightarrow> 'o recorder \<Rightarrow> 'o observer_state \<Rightarrow> 'o recorder \<times> 'o observer_state" where
  "recorder_chunk c r w =
     (case r of
        None \<Rightarrow> (None, w)
      | Some a \<Rightarrow>
          (Some (a\<lparr>ac_response_bytes := ac_response_bytes a + of_nat (length c)\<rparr>),
           on_event (ac_observer a) (ResponseBodyChunk (ac_id a) c) w))"

definition recorder_end ::
  "network_outcome \<Rightarrow> 'o recorder \<Rightarrow> 'o observer_state \<Rightarrow> 'o recorder \<times> 'o observer_state" where
  "recorder_end oc r w =
     (case r of
        None \<Rightarrow> (None, w)
      | Some a \<Rightarrow> (None, on_event (ac_observer a) (RequestEnd (ac_id a) oc (ac_response_bytes a)) w))"

definition recorder_complete :: "'o recorder \<Rightarrow> 'o observer_state \<Rightarrow> 'o recorder \<times> 'o observer_state" where
  "recorder_complete = recorder_end Completed"

definition recorder_fail :: "string \<Rightarrow> 'o recorder \<Rightarrow> 'o observer_state \<Rightarrow> 'o recorder \<times> 'o observer_state" where
  "recorder_fail message = recorder_end (Failed message)"

definition recorder_abort :: "'o recorder \<Rightarrow> 'o observer_state \<Rightarrow> 'o recorder \<times> 'o observer_state" where
  "recorder_abort = recorder_end Aborted"

definition recorder_drop :: "'o recorder \<Rightarrow> 'o observer_state \<Rightarrow> 'o recorder \<times> 'o observer_state" where
  "recorder_drop = recorder_end Dropped"

text \<open>One frame of the request body: the data of the frame, \<^const>\<open>None\<close> for trailers, an error or the end.\<close>

definition observed_poll_frame :: "'o observed_body \<Rightarrow> string option \<Rightarrow> 'o observer_state \<Rightarrow> 'o observer_state" where
  "observed_poll_frame body frame w =
     (case (body, frame) of
        (Some (ob, i), Some data) \<Rightarrow> if data \<noteq> [] then on_event ob (RequestBodyChunk i data) w else w
      | _ \<Rightarrow> w)"

text \<open>The calls the client makes while it reads a response.\<close>

fun recorder_note ::
  "string \<Rightarrow> (string \<times> string) list \<Rightarrow> rec_event \<Rightarrow> 'o recorder \<times> 'o observer_state \<Rightarrow> 'o recorder \<times> 'o observer_state" where
  "recorder_note version headers (Rec_Head status) (r, w) =
     (r, response_head \<lparr>pt_status = status, pt_version = version, pt_headers = headers\<rparr> r w)"
| "recorder_note version headers (Rec_Chunk c) (r, w) = recorder_chunk c r w"
| "recorder_note version headers (Rec_Fail m) (r, w) = recorder_fail m r w"
| "recorder_note version headers Rec_Abort (r, w) = recorder_abort r w"
| "recorder_note version headers Rec_Complete (r, w) = recorder_complete r w"

section \<open>Requests of a process\<close>

text \<open>
  A request is prepared and perhaps tagged, the flag is loaded, and then it is either denied by a guard or sent. A denied
  request remembers what was reported of it; a sent one has its teed body and its recorder.
\<close>

datatype 'o request_phase =
    Prepared | Checked bool | Denied "('o \<times> u64) option" | Sent "'o observed_body" "'o recorder"

record 'o net_request =
  nr_request :: observed_request
  nr_phase :: "'o request_phase"

record 'o network =
  nw_state :: "'o observer_state"
  nw_requests :: "'o net_request list"

datatype 'o net_step =
    Net_Install "'o option"
  | Net_Prepare string string "(string \<times> string) list" "u64 option"
  | Net_Tag nat network_request_kind "u64 option" "string option"
  | Net_Load nat
  | Net_Block nat string "string option"
  | Net_Send nat "string option"
  | Net_Note nat string "(string \<times> string) list" rec_event
  | Net_Drop nat
  | Net_Pull nat "string option"

definition net_init :: "'o network" where
  "net_init = \<lparr>nw_state = observer_init, nw_requests = []\<rparr>"

definition net_put :: "nat \<Rightarrow> 'o net_request \<Rightarrow> 'o observer_state \<Rightarrow> 'o network \<Rightarrow> 'o network" where
  "net_put k q w n = n\<lparr>nw_state := w, nw_requests := (nw_requests n)[k := q]\<rparr>"

fun net_request_step ::
  "(string \<Rightarrow> string option) \<Rightarrow> 'o net_step \<Rightarrow> 'o net_request \<Rightarrow> 'o observer_state \<Rightarrow> 'o net_request \<times> 'o observer_state" where
  "net_request_step to_str (Net_Tag k kind hop owner) q w =
     (if nr_phase q = Prepared
      then (case tag_request kind hop owner (nr_request q) w of (_, rq, w') \<Rightarrow> (q\<lparr>nr_request := rq\<rparr>, w'))
      else (q, w))"
| "net_request_step to_str (Net_Load k) q w =
     (if nr_phase q = Prepared then (q\<lparr>nr_phase := Checked (network_observer_installed w)\<rparr>, w) else (q, w))"
| "net_request_step to_str (Net_Block k reason owner) q w =
     (case nr_phase q of
        Checked b \<Rightarrow>
          (case notify_network_blocked to_str b (nr_request q) reason owner w of
             (seen, w') \<Rightarrow> (q\<lparr>nr_phase := Denied seen\<rparr>, w'))
      | _ \<Rightarrow> (q, w))"
| "net_request_step to_str (Net_Send k owner) q w =
     (case nr_phase q of
        Checked b \<Rightarrow>
          (case recorder_start to_str b owner (nr_request q) w of
             (r, body, w') \<Rightarrow> (q\<lparr>nr_phase := Sent body r\<rparr>, w'))
      | _ \<Rightarrow> (q, w))"
| "net_request_step to_str (Net_Note k version headers e) q w =
     (case nr_phase q of
        Sent body r \<Rightarrow> (case recorder_note version headers e (r, w) of (r', w') \<Rightarrow> (q\<lparr>nr_phase := Sent body r'\<rparr>, w'))
      | _ \<Rightarrow> (q, w))"
| "net_request_step to_str (Net_Drop k) q w =
     (case nr_phase q of
        Sent body r \<Rightarrow> (case recorder_drop r w of (r', w') \<Rightarrow> (q\<lparr>nr_phase := Sent body r'\<rparr>, w'))
      | _ \<Rightarrow> (q, w))"
| "net_request_step to_str (Net_Pull k frame) q w =
     (case nr_phase q of Sent body r \<Rightarrow> (q, observed_poll_frame body frame w) | _ \<Rightarrow> (q, w))"
| "net_request_step to_str _ q w = (q, w)"

fun net_target :: "'o net_step \<Rightarrow> nat option" where
  "net_target (Net_Tag k _ _ _) = Some k"
| "net_target (Net_Load k) = Some k"
| "net_target (Net_Block k _ _) = Some k"
| "net_target (Net_Send k _) = Some k"
| "net_target (Net_Note k _ _ _) = Some k"
| "net_target (Net_Drop k) = Some k"
| "net_target (Net_Pull k _) = Some k"
| "net_target _ = None"

definition net_step :: "(string \<Rightarrow> string option) \<Rightarrow> 'o net_step \<Rightarrow> 'o network \<Rightarrow> 'o network" where
  "net_step to_str s n =
     (case net_target s of
        Some k \<Rightarrow>
          if k < length (nw_requests n)
          then (case net_request_step to_str s (nw_requests n ! k) (nw_state n) of (q, w) \<Rightarrow> net_put k q w n)
          else n
      | None \<Rightarrow>
          (case s of
             Net_Install ob \<Rightarrow> n\<lparr>nw_state := set_network_observer ob (nw_state n)\<rparr>
           | Net_Prepare m u hs sz \<Rightarrow>
               n\<lparr>nw_requests := nw_requests n @
                   [\<lparr>nr_request = \<lparr>oq_method = m, oq_uri = u, oq_headers = hs, oq_body_size = sz, oq_tag = None\<rparr>,
                     nr_phase = Prepared\<rparr>]\<rparr>
           | _ \<Rightarrow> n))"

definition run_net :: "(string \<Rightarrow> string option) \<Rightarrow> 'o net_step list \<Rightarrow> 'o network" where
  "run_net to_str steps = fold (net_step to_str) steps net_init"

section \<open>What one request reports\<close>

text \<open>
  The documented life of a request, as an automaton over the events that carry its id: the start comes first, then the
  head and the chunks of the response, then the end with the number of bytes of the chunks; every event goes to the
  observer that saw the start. Chunks of the request body may come at any time after the start.
\<close>

datatype life_phase = Unseen | Running u64 | Over

fun life_step :: "'o \<Rightarrow> 'o \<times> network_event \<Rightarrow> life_phase option \<Rightarrow> life_phase option" where
  "life_step ob (ob', e) p =
     (if ob' \<noteq> ob then None
      else
        (case (p, e) of
           (Some Unseen, RequestStart _) \<Rightarrow> Some (Running 0)
         | (Some (Running n), ResponseHead _ _) \<Rightarrow> Some (Running n)
         | (Some (Running n), ResponseBodyChunk _ c) \<Rightarrow> Some (Running (n + of_nat (length c)))
         | (Some (Running n), RequestBodyChunk _ _) \<Rightarrow> Some (Running n)
         | (Some Over, RequestBodyChunk _ _) \<Rightarrow> Some Over
         | (Some (Running n), RequestEnd _ oc b) \<Rightarrow> if b = n then Some Over else None
         | _ \<Rightarrow> None))"

definition life :: "'o \<Rightarrow> ('o \<times> network_event) list \<Rightarrow> life_phase option" where
  "life ob tr = fold (life_step ob) tr (Some Unseen)"

lemma life_Nil [simp]: "life ob [] = Some Unseen"
  by (simp add: life_def)

lemma life_snoc [simp]: "life ob (tr @ [e]) = life_step ob e (life ob tr)"
  by (simp add: life_def)

definition trace :: "'o observer_state \<Rightarrow> u64 \<Rightarrow> ('o \<times> network_event) list" where
  "trace w x = filter (\<lambda>(ob, e). event_id e = x) (os_log w)"

lemma trace_on_event [simp]:
  "trace (on_event ob e w) x = (if event_id e = x then trace w x @ [(ob, e)] else trace w x)"
  by (simp add: trace_def on_event_def)

lemma on_event_inject [simp]: "on_event ob e w = on_event ob' e' w \<longleftrightarrow> ob = ob' \<and> e = e'"
  by (auto simp: on_event_def dest: arg_cong [where f = os_log])

lemma trace_next_update [simp]: "trace (w\<lparr>os_next := k\<rparr>) x = trace w x"
  by (simp add: trace_def)

lemma next_on_event [simp]: "os_next (on_event ob e w) = os_next w"
  by (simp add: on_event_def)

text \<open>The id a request holds: that of its tag before it is sent or denied, that of its reports afterwards.\<close>

definition nr_id :: "'o net_request \<Rightarrow> u64 option" where
  "nr_id q =
     (case nr_phase q of
        Denied seen \<Rightarrow> map_option snd seen
      | Sent body r \<Rightarrow> map_option snd body
      | _ \<Rightarrow> map_option tag_id (oq_tag (nr_request q)))"

definition recorder_life :: "'o recorder \<Rightarrow> life_phase" where
  "recorder_life r = (case r of None \<Rightarrow> Over | Some a \<Rightarrow> Running (ac_response_bytes a))"

definition recorder_for :: "'o \<times> u64 \<Rightarrow> 'o recorder \<Rightarrow> bool" where
  "recorder_for b r = (case r of None \<Rightarrow> True | Some a \<Rightarrow> (ac_observer a, ac_id a) = b)"

fun request_ok :: "'o observer_state \<Rightarrow> 'o net_request \<Rightarrow> bool" where
  "request_ok w q =
     ((case nr_id q of None \<Rightarrow> True | Some x \<Rightarrow> unat x < unat (os_next w)) \<and>
      (case nr_phase q of
         Denied None \<Rightarrow> True
       | Denied (Some (ob, x)) \<Rightarrow> life ob (trace w x) = Some Over
       | Sent None r \<Rightarrow> r = None
       | Sent (Some (ob, x)) r \<Rightarrow> recorder_for (ob, x) r \<and> life ob (trace w x) = Some (recorder_life r)
       | _ \<Rightarrow> (case nr_id q of None \<Rightarrow> True | Some x \<Rightarrow> trace w x = [])))"

declare request_ok.simps [simp del]

text \<open>What a step of one request does to the process: it appends events of its own id, and it keeps its id, gives it up
  or takes the next one.\<close>

definition own_events :: "'o observer_state \<Rightarrow> 'o net_request \<Rightarrow> 'o observer_state \<Rightarrow> 'o net_request \<Rightarrow> bool" where
  "own_events w q w' q' \<longleftrightarrow>
     (\<forall>x. Some x \<noteq> nr_id q' \<longrightarrow> trace w' x = trace w x) \<and>
     (os_next w' = os_next w \<and> (nr_id q' = nr_id q \<or> nr_id q' = None) \<or>
      os_next w' = os_next w + 1 \<and> nr_id q' = Some (os_next w))"

definition fresh_next :: "'o observer_state \<Rightarrow> bool" where
  "fresh_next w \<longleftrightarrow> trace w (os_next w) = [] \<and> unat (os_next w + 1) = unat (os_next w) + 1"

lemma own_events_refl [simp]: "own_events w q w q"
  by (simp add: own_events_def)

lemma nr_id_cases [simp]:
  "nr_phase q = Prepared \<Longrightarrow> nr_id q = map_option tag_id (oq_tag (nr_request q))"
  "nr_phase q = Checked b \<Longrightarrow> nr_id q = map_option tag_id (oq_tag (nr_request q))"
  "nr_phase q = Denied seen \<Longrightarrow> nr_id q = map_option snd seen"
  "nr_phase q = Sent body r \<Longrightarrow> nr_id q = map_option snd body"
  by (simp_all add: nr_id_def)

lemmas tag_defs = tag_request_def network_request_tag_new_def network_request_id_next_def with_redirected_from_def
  insert_into_def network_observer_installed_def Let_def

lemma tag_step_ok:
  assumes "request_ok w q" "fresh_next w" "nr_phase q = Prepared"
    "tag_request kind hop owner (nr_request q) w = (h, rq, w')"
  shows "request_ok w' (q\<lparr>nr_request := rq\<rparr>) \<and> own_events w q w' (q\<lparr>nr_request := rq\<rparr>)"
  using assms by (auto simp: tag_defs request_ok.simps own_events_def fresh_next_def split: if_splits)

lemma load_step_ok:
  assumes "request_ok w q" "nr_phase q = Prepared"
  shows "request_ok w (q\<lparr>nr_phase := Checked b\<rparr>) \<and> own_events w q w (q\<lparr>nr_phase := Checked b\<rparr>)"
  using assms by (simp add: request_ok.simps own_events_def)

text \<open>The start event of a checked request takes its tag's id or the next one, and no event of that id exists yet.\<close>

lemma start_event_id:
  assumes "request_ok w q" "fresh_next w" "nr_phase q = Checked b"
    "start_event to_str (nr_request q) sz owner w = (start, w')"
  shows "trace w' x = trace w x" "trace w (ns_id start) = []" "unat (ns_id start) < unat (os_next w')"
    "os_next w' = os_next w \<and> nr_id q = Some (ns_id start) \<or> os_next w' = os_next w + 1 \<and> ns_id start = os_next w"
  using assms
  by (auto simp: start_event_def network_request_tag_new_def network_request_id_next_def request_ok.simps fresh_next_def
      split: option.splits)

lemma block_step_ok:
  assumes "request_ok w q" "fresh_next w" "nr_phase q = Checked b"
    "notify_network_blocked to_str b (nr_request q) reason owner w = (seen, w')"
  shows "request_ok w' (q\<lparr>nr_phase := Denied seen\<rparr>) \<and> own_events w q w' (q\<lparr>nr_phase := Denied seen\<rparr>)"
proof (cases "current_observer b w")
  case None
  then show ?thesis using assms(4) by (auto simp: notify_network_blocked_def request_ok.simps own_events_def)
next
  case (Some ob)
  obtain start u where u: "start_event to_str (nr_request q) None owner w = (start, u)" by force
  note st = start_event_id [OF assms(1-3) u]
  have e: "seen = Some (ob, ns_id start)"
    "w' = on_event ob (RequestEnd (ns_id start) (Blocked reason) 0) (on_event ob (RequestStart start) u)"
    using assms(4) by (simp_all add: notify_network_blocked_def Some u Let_def)
  show ?thesis using st assms(3) by (auto simp: e request_ok.simps own_events_def life_def)
qed

lemma send_step_ok:
  assumes "request_ok w q" "fresh_next w" "nr_phase q = Checked b"
    "recorder_start to_str b owner (nr_request q) w = (r, body, w')"
  shows "request_ok w' (q\<lparr>nr_phase := Sent body r\<rparr>) \<and> own_events w q w' (q\<lparr>nr_phase := Sent body r\<rparr>)"
proof (cases "current_observer b w")
  case None
  then show ?thesis using assms(4) by (auto simp: recorder_start_def request_ok.simps own_events_def)
next
  case (Some ob)
  obtain start u where u: "start_event to_str (nr_request q) (oq_body_size (nr_request q)) owner w = (start, u)" by force
  note st = start_event_id [OF assms(1-3) u]
  have e: "body = Some (ob, ns_id start)" "r = Some \<lparr>ac_observer = ob, ac_id = ns_id start, ac_response_bytes = 0\<rparr>"
    "w' = on_event ob (RequestStart start) u"
    using assms(4) by (simp_all add: recorder_start_def Some u Let_def)
  show ?thesis using st assms(3) by (auto simp: e request_ok.simps own_events_def recorder_for_def recorder_life_def life_def)
qed

text \<open>What a call on the recorder of a sent request may do: nothing once it has ended, one event of the request before.\<close>

definition recorder_call ::
  "'o recorder \<Rightarrow> 'o observer_state \<Rightarrow> 'o recorder \<Rightarrow> 'o observer_state \<Rightarrow> bool" where
  "recorder_call r w r' w' \<longleftrightarrow>
     (case r of
        None \<Rightarrow> r' = None \<and> w' = w
      | Some a \<Rightarrow>
          (\<exists>e. w' = on_event (ac_observer a) e w \<and> event_id e = ac_id a \<and>
             recorder_for (ac_observer a, ac_id a) r' \<and>
             life_step (ac_observer a) (ac_observer a, e) (Some (recorder_life r)) = Some (recorder_life r')))"

lemmas recorder_defs = response_head_def recorder_chunk_def recorder_end_def recorder_complete_def recorder_fail_def
  recorder_abort_def recorder_drop_def recorder_call_def recorder_for_def recorder_life_def

lemma recorder_call_note:
  "recorder_note version headers e (r, w) = (r', w') \<Longrightarrow> recorder_call r w r' w'"
  by (cases e; cases r) (auto simp: recorder_defs)

lemma recorder_call_drop: "recorder_drop r w = (r', w') \<Longrightarrow> recorder_call r w r' w'"
  by (cases r) (auto simp: recorder_defs)

lemma call_step_ok:
  assumes "request_ok w q" "nr_phase q = Sent body r" "recorder_call r w r' w'"
  shows "request_ok w' (q\<lparr>nr_phase := Sent body r'\<rparr>) \<and> own_events w q w' (q\<lparr>nr_phase := Sent body r'\<rparr>)"
proof (cases r)
  case None
  then show ?thesis using assms by (cases body) (auto simp: recorder_call_def request_ok.simps own_events_def)
next
  case (Some a)
  obtain ob x where b: "body = Some (ob, x)" "ac_observer a = ob" "ac_id a = x"
    using assms(1,2) Some by (cases body) (auto simp: request_ok.simps recorder_for_def)
  obtain e where e: "w' = on_event ob e w" "event_id e = x" "recorder_for (ob, x) r'"
    "life_step ob (ob, e) (Some (recorder_life r)) = Some (recorder_life r')"
    using assms(3) b Some by (auto simp: recorder_call_def)
  have l: "life ob (trace w x) = Some (recorder_life r)" "unat x < unat (os_next w)"
    using assms(1,2) b by (simp_all add: request_ok.simps)
  have "life ob (trace w' x) = Some (recorder_life r')"
    using e(4) by (simp add: e(1,2) l(1) del: life_step.simps)
  then show ?thesis using e(3) l(2) assms(2) by (auto simp: request_ok.simps own_events_def b e(1,2))
qed

lemma pull_step_ok:
  assumes "request_ok w q" "nr_phase q = Sent body r"
  shows "request_ok (observed_poll_frame body frame w) q \<and> own_events w q (observed_poll_frame body frame w) q"
proof (cases "\<exists>ob x data. body = Some (ob, x) \<and> frame = Some data \<and> data \<noteq> []")
  case True
  then obtain ob x data where b: "body = Some (ob, x)" "frame = Some data" "data \<noteq> []" by blast
  have l: "life ob (trace w x) = Some (recorder_life r)" "recorder_for (ob, x) r" "unat x < unat (os_next w)"
    using assms b by (simp_all add: request_ok.simps)
  have "life_step ob (ob, RequestBodyChunk x data) (Some (recorder_life r)) = Some (recorder_life r)"
    by (simp add: recorder_life_def split: option.split)
  then show ?thesis using l assms(2)
    by (auto simp: observed_poll_frame_def b request_ok.simps own_events_def simp del: life_step.simps)
next
  case False
  then have "observed_poll_frame body frame w = w"
    by (auto simp: observed_poll_frame_def split: option.splits prod.splits)
  then show ?thesis using assms(1) by simp
qed

lemma request_step_ok:
  assumes "request_ok w q" "fresh_next w" "net_request_step to_str s q w = (q', w')"
  shows "request_ok w' q' \<and> own_events w q w' q'"
proof (cases s)
  case (Net_Tag k kind hop owner)
  then show ?thesis
    using assms tag_step_ok [OF assms(1,2), of kind hop owner] by (auto split: if_splits prod.splits)
next
  case (Net_Load k)
  then show ?thesis using assms load_step_ok [OF assms(1)] by (auto split: if_splits)
next
  case (Net_Block k reason owner)
  then show ?thesis
    using assms block_step_ok [OF assms(1,2), of _ to_str reason owner] by (auto split: request_phase.splits prod.splits)
next
  case (Net_Send k owner)
  then show ?thesis
    using assms send_step_ok [OF assms(1,2), of _ to_str owner] by (auto split: request_phase.splits prod.splits)
next
  case (Net_Note k version headers e)
  then show ?thesis
    using assms call_step_ok [OF assms(1) _ recorder_call_note] by (auto split: request_phase.splits prod.splits)
next
  case (Net_Drop k)
  then show ?thesis
    using assms call_step_ok [OF assms(1) _ recorder_call_drop] by (auto split: request_phase.splits prod.splits)
next
  case (Net_Pull k frame)
  then show ?thesis using assms pull_step_ok [OF assms(1)] by (auto split: request_phase.splits)
qed (use assms in auto)

section \<open>Every request of a process\<close>

lemma request_ok_frame:
  assumes "request_ok w q" "\<And>x. nr_id q = Some x \<Longrightarrow> trace w' x = trace w x" "unat (os_next w) \<le> unat (os_next w')"
  shows "request_ok w' q"
  using assms unfolding request_ok.simps
  by (cases "nr_phase q") (auto split: option.splits)

definition ids_apart :: "'o net_request list \<Rightarrow> bool" where
  "ids_apart qs \<longleftrightarrow>
     (\<forall>i < length qs. \<forall>j < length qs. i \<noteq> j \<longrightarrow> nr_id (qs ! i) \<noteq> None \<longrightarrow> nr_id (qs ! i) \<noteq> nr_id (qs ! j))"

definition net_ok :: "nat \<Rightarrow> 'o network \<Rightarrow> bool" where
  "net_ok m n \<longleftrightarrow>
     (\<forall>q \<in> set (nw_requests n). request_ok (nw_state n) q) \<and> ids_apart (nw_requests n) \<and>
     (\<forall>x. unat (os_next (nw_state n)) \<le> unat x \<longrightarrow> trace (nw_state n) x = []) \<and>
     unat (os_next (nw_state n)) \<le> Suc m"

lemma net_ok_init: "net_ok 0 net_init"
  by (simp add: net_ok_def net_init_def observer_init_def ids_apart_def trace_def)

lemma net_ok_fresh: "net_ok m n \<Longrightarrow> Suc m < 2 ^ 64 - 1 \<Longrightarrow> fresh_next (nw_state n)"
  by (auto simp: net_ok_def fresh_next_def unat_word_ariths)

lemma request_id_below_next: "request_ok w q \<Longrightarrow> nr_id q = Some x \<Longrightarrow> unat x < unat (os_next w)"
  by (simp add: request_ok.simps)

lemma own_events_next:
  "own_events w q w' q' \<Longrightarrow> fresh_next w \<Longrightarrow>
     unat (os_next w) \<le> unat (os_next w') \<and> unat (os_next w') \<le> Suc (unat (os_next w))"
  by (auto simp: own_events_def fresh_next_def)

lemma own_events_others:
  assumes "own_events w q w' q'" "request_ok w p" "nr_id p = Some x" "nr_id q \<noteq> Some x"
  shows "nr_id q' \<noteq> Some x" "trace w' x = trace w x"
proof -
  show n: "nr_id q' \<noteq> Some x"
    using assms request_id_below_next [OF assms(2,3)] by (auto simp: own_events_def)
  show "trace w' x = trace w x" using assms(1) n by (auto simp: own_events_def)
qed

lemma ids_apart_put:
  assumes "ids_apart qs" "k < length qs" "\<And>p. p \<in> set qs \<Longrightarrow> request_ok w p" "own_events w (qs ! k) w' q'"
  shows "ids_apart (qs[k := q'])"
proof -
  have new: "nr_id q' \<noteq> Some x" if "j < length qs" "j \<noteq> k" "nr_id (qs ! j) = Some x" for j x
  proof (rule own_events_others(1) [OF assms(4) assms(3) that(3)])
    show "qs ! j \<in> set qs" using that(1) by simp
    show "nr_id (qs ! k) \<noteq> Some x"
      using assms(1,2) that unfolding ids_apart_def by (metis option.distinct(1))
  qed
  show ?thesis unfolding ids_apart_def
  proof (intro allI impI)
    fix i j
    assume ij: "i < length (qs[k := q'])" "j < length (qs[k := q'])" "i \<noteq> j" "nr_id (qs[k := q'] ! i) \<noteq> None"
    consider "i = k" | "j = k" | "i \<noteq> k" "j \<noteq> k" by blast
    then show "nr_id (qs[k := q'] ! i) \<noteq> nr_id (qs[k := q'] ! j)"
    proof cases
      case 1
      then show ?thesis using ij new [of j] by (cases "nr_id (qs ! j)") auto
    next
      case 2
      then show ?thesis using ij new [of i] by (cases "nr_id (qs ! i)") auto
    next
      case 3
      then show ?thesis using ij assms(1) by (simp add: ids_apart_def)
    qed
  qed
qed

lemma net_ok_put:
  assumes "net_ok m n" "k < length (nw_requests n)" "Suc m < 2 ^ 64 - 1"
    "request_ok w' q'" "own_events (nw_state n) (nw_requests n ! k) w' q'"
  shows "net_ok (Suc m) (net_put k q' w' n)"
proof -
  note parts = assms(1) [unfolded net_ok_def]
  have f: "fresh_next (nw_state n)" by (rule net_ok_fresh [OF assms(1,3)])
  note nx = own_events_next [OF assms(5) f]
  have apart: "ids_apart ((nw_requests n)[k := q'])"
    using ids_apart_put [OF _ assms(2) _ assms(5)] parts by blast
  have others: "request_ok w' (nw_requests n ! j)" if "j < length (nw_requests n)" "j \<noteq> k" for j
  proof (rule request_ok_frame)
    show ok: "request_ok (nw_state n) (nw_requests n ! j)" using parts that(1) by simp
    show "unat (os_next (nw_state n)) \<le> unat (os_next w')" using nx by simp
    show "trace w' x = trace (nw_state n) x" if "nr_id (nw_requests n ! j) = Some x" for x
    proof (rule own_events_others(2) [OF assms(5) ok that])
      show "nr_id (nw_requests n ! k) \<noteq> Some x"
        using parts \<open>j < length (nw_requests n)\<close> \<open>j \<noteq> k\<close> that assms(2) unfolding ids_apart_def
        by (metis option.distinct(1))
    qed
  qed
  have "request_ok w' p" if "p \<in> set ((nw_requests n)[k := q'])" for p
  proof -
    obtain i where i: "i < length (nw_requests n)" "p = (nw_requests n)[k := q'] ! i"
      using \<open>p \<in> _\<close> by (auto simp: in_set_conv_nth)
    show ?thesis using others [OF i(1)] assms(4) i by (cases "i = k") simp_all
  qed
  moreover have "trace w' x = []" if "unat (os_next w') \<le> unat x" for x
  proof -
    have "nr_id q' \<noteq> Some x" using request_id_below_next [OF assms(4)] that by auto
    then have "trace w' x = trace (nw_state n) x" using assms(5) by (auto simp: own_events_def)
    then show ?thesis using parts nx that by auto
  qed
  ultimately show ?thesis using apart nx parts by (auto simp: net_ok_def net_put_def)
qed

lemma net_ok_step:
  assumes "net_ok m n" "Suc m < 2 ^ 64 - 1"
  shows "net_ok (Suc m) (net_step to_str s n)"
proof (cases "net_target s")
  case (Some k)
  show ?thesis
  proof (cases "k < length (nw_requests n)")
    case True
    obtain q' w' where q: "net_request_step to_str s (nw_requests n ! k) (nw_state n) = (q', w')" by force
    have "request_ok (nw_state n) (nw_requests n ! k)" using assms(1) True by (simp add: net_ok_def)
    from request_step_ok [OF this net_ok_fresh [OF assms] q]
    have "net_ok (Suc m) (net_put k q' w' n)" using net_ok_put [OF assms(1) True assms(2)] by blast
    then show ?thesis by (simp add: net_step_def Some True q)
  next
    case False
    then show ?thesis using assms by (simp add: net_step_def Some net_ok_def)
  qed
next
  case None
  have keep: "request_ok w q \<Longrightarrow> request_ok (set_network_observer ob w) q" for ob and w :: "'a observer_state" and q
    by (erule request_ok_frame) (simp_all add: set_network_observer_def trace_def)
  show ?thesis
    using None assms
    by (cases s)
      (auto simp: net_step_def net_ok_def keep, auto simp: set_network_observer_def trace_def ids_apart_def nth_append request_ok.simps nr_id_def less_Suc_eq)
qed

lemma net_ok_run:
  assumes "m + length steps < 2 ^ 64 - 1" "net_ok m n"
  shows "net_ok (m + length steps) (fold (net_step to_str) steps n)"
  using assms
proof (induction steps arbitrary: m n)
  case (Cons s steps)
  have "net_ok (Suc m) (net_step to_str s n)" using net_ok_step [OF Cons.prems(2)] Cons.prems(1) by simp
  then show ?case using Cons.IH [of "Suc m" "net_step to_str s n"] Cons.prems(1) by simp
qed simp

lemma net_ok_run_net: "length steps < 2 ^ 64 - 1 \<Longrightarrow> net_ok (length steps) (run_net to_str steps)"
  using net_ok_run [OF _ net_ok_init] by (simp add: run_net_def)




section \<open>The report of a streamed response\<close>

text \<open>What the reading task tells the recorder: one chunk for each piece of data it takes, and the bytes handed over
  or still buffered are those of the chunks unless the consumer has gone.\<close>

definition told :: "nat \<Rightarrow> rec_event list \<Rightarrow> string list \<Rightarrow> stream_task \<Rightarrow> bool" where
  "told c rc cs t \<longleftrightarrow>
     st_rec t = rc @ map Rec_Chunk cs \<and> (c = 0 \<longrightarrow> st_buf t = []) \<and>
     (\<exists>bs. st_sent t = map Inr bs \<and> concat bs @ st_buf t = concat cs)"

lemma toldI:
  "st_rec t = rc @ map Rec_Chunk cs \<Longrightarrow> (c = 0 \<Longrightarrow> st_buf t = []) \<Longrightarrow> st_sent t = map Inr bs \<Longrightarrow>
     concat bs @ st_buf t = concat cs \<Longrightarrow> told c rc cs t"
  by (auto simp: told_def)

lemma tx_send_keeps [simp]: "st_rec (snd (tx_send m t)) = st_rec t" "st_buf (snd (tx_send m t)) = st_buf t"
  by (simp_all add: tx_send_def split: option.splits nat.splits)

lemma tx_send_sent: "st_sent (snd (tx_send m t)) = st_sent t @ (if fst (tx_send m t) then [m] else [])"
  by (simp add: tx_send_def split: option.splits nat.splits)

lemma forward_rec [simp]: "st_rec (snd (forward_or_buffer_chunk c d t)) = st_rec t"
  by (simp add: forward_or_buffer_chunk_def Let_def)

lemma forward_told:
  assumes "told c rc cs t" "fst (forward_or_buffer_chunk c d (st_note (Rec_Chunk d) t))"
  shows "told c rc (cs @ [d]) (snd (forward_or_buffer_chunk c d (st_note (Rec_Chunk d) t)))"
proof -
  obtain bs where b: "st_sent t = map Inr bs" "concat bs @ st_buf t = concat cs" and e: "c = 0 \<Longrightarrow> st_buf t = []"
    and r: "st_rec t = rc @ map Rec_Chunk cs"
    using assms(1) by (auto simp: told_def)
  let ?t = "st_note (Rec_Chunk d) t"
  have n: "st_rec ?t = rc @ map Rec_Chunk (cs @ [d])" "st_buf ?t = st_buf t" "st_sent ?t = st_sent t"
    using r by (simp_all add: st_note_def)
  consider (direct) "c = 0 \<or> (st_buf t = [] \<and> c \<le> length d)" "forward_or_buffer_chunk c d ?t = tx_send (Inr d) ?t"
    | (full) "0 < c" "forward_or_buffer_chunk c d ?t = tx_send (Inr (st_buf t @ d)) (?t\<lparr>st_buf := []\<rparr>)"
    | (keep) "0 < c" "forward_or_buffer_chunk c d ?t = (True, ?t\<lparr>st_buf := st_buf t @ d\<rparr>)"
  proof (cases "c = 0 \<or> (st_buf t = [] \<and> c \<le> length d)")
    case True
    then show ?thesis using direct by (simp add: forward_or_buffer_chunk_def n)
  next
    case False
    then show ?thesis
      using full keep by (cases "c \<le> length (st_buf t @ d)") (auto simp: forward_or_buffer_chunk_def Let_def n)
  qed
  then show ?thesis
  proof cases
    case direct
    then have "st_buf t = []" using e by blast
    then show ?thesis
      using assms(2) b unfolding direct(2) by (intro toldI [where bs = "bs @ [d]"]) (simp_all add: n tx_send_sent)
  next
    case full
    then show ?thesis
      using assms(2) b unfolding full(2) by (intro toldI [where bs = "bs @ [st_buf t @ d]"]) (simp_all add: n tx_send_sent)
  next
    case keep
    then show ?thesis using b by (intro toldI [where bs = bs]) (simp_all add: n flip: append_assoc)
  qed
qed

lemma stream_loop_told:
  assumes "told c rc cs t" "stream_loop c dl fs t = (e, u)"
  shows "\<exists>ds. st_rec u = rc @ map Rec_Chunk (cs @ ds) \<and> prefix (concat ds) (loop_data dl fs) \<and>
     (e \<noteq> Some Stream_Dropped \<longrightarrow> concat ds = loop_data dl fs \<and> told c rc (cs @ ds) u)"
  using assms
proof (induction c dl fs t arbitrary: cs rule: stream_loop.induct)
  case (1 c dl t)
  then show ?case by (auto simp: told_def intro!: exI [of _ "[]"])
next
  case (2 c dl now read rest t)
  have here: ?case if "loop_data dl ((now, read) # rest) = []" "u = t"
    using "2.prems"(1) that by (auto simp: told_def intro!: exI [of _ "[]"])
  show ?case
  proof (cases "body_frame_timeout dl now READ_FRAME_TIMEOUT")
    case (Inl err)
    show ?thesis by (rule here) (use "2.prems"(2) Inl in simp_all)
  next
    case (Inr p)
    obtain ft rl where p: "p = (ft, rl)" by (cases p)
    note b = Inr [unfolded p]
    show ?thesis
    proof (cases read)
      case (Frame_Data d)
      obtain ok v where v: "forward_or_buffer_chunk c d (st_note (Rec_Chunk d) t) = (ok, v)" by force
      show ?thesis
      proof (cases ok)
        case True
        have t: "told c rc (cs @ [d]) v" using forward_told [OF "2.prems"(1)] v True by (metis fst_conv snd_conv)
        have "stream_loop c dl rest v = (e, u)" using "2.prems"(2) b Frame_Data v True by simp
        from "2.IH"(1) [OF b refl Frame_Data v [symmetric] _ t this]
        obtain ds where "st_rec u = rc @ map Rec_Chunk ((cs @ [d]) @ ds)" "prefix (concat ds) (loop_data dl rest)"
          "e \<noteq> Some Stream_Dropped \<longrightarrow> concat ds = loop_data dl rest \<and> told c rc ((cs @ [d]) @ ds) u"
          using True by blast
        then show ?thesis using b Frame_Data by (intro exI [of _ "d # ds"]) simp
      next
        case False
        have e: "e = Some Stream_Dropped" "u = v" using "2.prems"(2) b Frame_Data v False by simp_all
        have "st_rec v = rc @ map Rec_Chunk (cs @ [d])"
          using forward_rec [of c d "st_note (Rec_Chunk d) t"] "2.prems"(1) unfolding v by (simp add: st_note_def told_def)
        then show ?thesis using b Frame_Data e by (intro exI [of _ "[d]"]) simp
      qed
    next
      case Frame_Trailers
      then have "stream_loop c dl rest t = (e, u)" using "2.prems" b by simp
      from "2.IH"(2) [OF b refl Frame_Trailers "2.prems"(1) this]
      show ?thesis using b Frame_Trailers by simp
    qed (rule here; use "2.prems"(2) b in simp; fail)+
  qed
qed

text \<open>How the recorder ends, given what the task told it last.\<close>

definition stream_outcome :: "stream_end \<Rightarrow> bool \<Rightarrow> network_outcome" where
  "stream_outcome fin taken =
     (case fin of
        Stream_Aborted \<Rightarrow> Aborted | Stream_Failed err \<Rightarrow> Failed err | Stream_Dropped \<Rightarrow> Dropped
      | Stream_Ended \<Rightarrow> if taken then Completed else Dropped)"

fun outcome_note :: "network_outcome \<Rightarrow> rec_event list" where
  "outcome_note Aborted = [Rec_Abort]"
| "outcome_note (Failed m) = [Rec_Fail m]"
| "outcome_note Completed = [Rec_Complete]"
| "outcome_note _ = []"

text \<open>The bytes of every piece of data sent to the consumer.\<close>

definition sent_bytes :: "stream_task \<Rightarrow> string" where
  "sent_bytes t = concat (map (\<lambda>m. case m of Inr b \<Rightarrow> b | Inl e \<Rightarrow> []) (st_sent t))"

lemma sent_bytes_Inr: "st_sent t = map Inr bs \<Longrightarrow> sent_bytes t = concat bs"
  by (simp add: sent_bytes_def comp_def)

lemma stream_flush_rec:
  "st_rec (stream_flush failed dropped t) =
     st_rec t @ (if \<not> failed \<and> \<not> dropped \<and> (st_buf t = [] \<or> fst (tx_send (Inr (st_buf t)) (t\<lparr>st_buf := []\<rparr>)))
                 then [Rec_Complete] else [])"
  by (simp add: stream_flush_def st_note_def case_prod_unfold)

lemma stream_flush_sent:
  "st_sent (stream_flush failed dropped t) =
     st_sent t @ (if st_buf t \<noteq> [] \<and> fst (tx_send (Inr (st_buf t)) (t\<lparr>st_buf := []\<rparr>)) then [Inr (st_buf t)] else [])"
  by (simp add: stream_flush_def st_note_def case_prod_unfold tx_send_sent)

lemma stream_finish_rec:
  assumes "fin \<noteq> Stream_Dropped \<longrightarrow> told c rc cs t" "st_rec t = rc @ map Rec_Chunk cs"
  shows "st_rec (stream_finish fin t) =
     rc @ map Rec_Chunk cs @ outcome_note (stream_outcome fin (sent_bytes (stream_finish fin t) = concat cs))"
proof (cases fin)
  case Stream_Ended
  then obtain bs where b: "st_sent t = map Inr bs" "concat bs @ st_buf t = concat cs" using assms(1) by (auto simp: told_def)
  have "sent_bytes (stream_finish fin t) = concat cs \<longleftrightarrow>
      st_buf t = [] \<or> fst (tx_send (Inr (st_buf t)) (t\<lparr>st_buf := []\<rparr>))"
    unfolding b(2) [symmetric]
    by (auto simp: sent_bytes_def Stream_Ended stream_finish_def stream_flush_sent b(1) comp_def)
  then show ?thesis
    using assms(2) by (simp add: Stream_Ended stream_finish_def stream_flush_rec stream_outcome_def)
qed (use assms(2) in \<open>simp_all add: stream_finish_def stream_flush_rec stream_outcome_def st_note_def\<close>)

definition report :: "'o active \<Rightarrow> network_event list \<Rightarrow> 'o observer_state \<Rightarrow> 'o observer_state" where
  "report a es w = w\<lparr>os_log := os_log w @ map (Pair (ac_observer a)) es\<rparr>"

lemma report_simps [simp]:
  "on_event (ac_observer a) e (report a es w) = report a (es @ [e]) w"
  "on_event (ac_observer a) e w = report a [e] w"
  "report a es (report a es' w) = report a (es' @ es) w"
  "report (a\<lparr>ac_response_bytes := k\<rparr>) es w = report a es w"
  by (simp_all add: report_def on_event_def)

lemma recorder_chunks:
  "fold (recorder_note version hs) (map Rec_Chunk cs) (Some a, w) =
     (Some (a\<lparr>ac_response_bytes := ac_response_bytes a + of_nat (length (concat cs))\<rparr>),
      report a (map (ResponseBodyChunk (ac_id a)) cs) w)"
proof (induction cs arbitrary: a w)
  case Nil
  then show ?case by (simp add: report_def)
next
  case (Cons c cs)
  then show ?case by (simp add: recorder_chunk_def add.assoc)
qed

text \<open>
  The report of a streamed response: when the reading task is over and its recorder dropped, the observer that saw
  the start has received the head, one event for each piece of data taken from the connection, and one end whose byte
  count is theirs. The end says completed exactly when the body came to its end and every byte of it was handed to the
  consumer; a failure and an abort are reported as such, and everything else as dropped. The data reported is the body
  up to the point where the task stopped.\<close>

theorem response_report_exact:
  assumes "run_stream_task c deadline frames (st_init room [Rec_Head status]) = (Some fin, t)"
    "case fold (recorder_note version hs) (st_rec t) (Some a, w) of (r, w') \<Rightarrow> recorder_drop r w' = (r'', w'')"
  shows "r'' = None \<and>
    (\<exists>chunks.
       prefix (concat chunks) (loop_data deadline frames) \<and>
       (fin \<noteq> Stream_Dropped \<longrightarrow> concat chunks = loop_data deadline frames) \<and>
       os_log w'' = os_log w @ map (Pair (ac_observer a))
         (ResponseHead (ac_id a) \<lparr>pt_status = status, pt_version = version, pt_headers = hs\<rparr> #
          map (ResponseBodyChunk (ac_id a)) chunks @
          [RequestEnd (ac_id a)
             (case fin of
                Stream_Aborted \<Rightarrow> Aborted | Stream_Failed err \<Rightarrow> Failed err | Stream_Dropped \<Rightarrow> Dropped
              | Stream_Ended \<Rightarrow> if sent_bytes t = loop_data deadline frames then Completed else Dropped)
             (ac_response_bytes a + of_nat (length (concat chunks)))]))"
proof -
  obtain u where u: "stream_loop c deadline frames (st_init room [Rec_Head status]) = (Some fin, u)" "t = stream_finish fin u"
    using assms(1) by (auto simp: run_stream_task_def split: prod.splits option.splits)
  have "told c [Rec_Head status] [] (st_init room [Rec_Head status])" by (simp add: told_def st_init_def)
  from stream_loop_told [OF this u(1)]
  obtain cs where cs: "st_rec u = [Rec_Head status] @ map Rec_Chunk cs" "prefix (concat cs) (loop_data deadline frames)"
    "fin \<noteq> Stream_Dropped \<longrightarrow> concat cs = loop_data deadline frames" "fin \<noteq> Stream_Dropped \<longrightarrow> told c [Rec_Head status] cs u"
    by auto
  define oc where "oc = stream_outcome fin (sent_bytes t = concat cs)"
  have rc: "st_rec t = [Rec_Head status] @ map Rec_Chunk cs @ outcome_note oc"
    using stream_finish_rec [OF cs(4,1)] by (simp add: u(2) oc_def)
  have oc_eq: "oc = (case fin of
                Stream_Aborted \<Rightarrow> Aborted | Stream_Failed err \<Rightarrow> Failed err | Stream_Dropped \<Rightarrow> Dropped
              | Stream_Ended \<Rightarrow> if sent_bytes t = loop_data deadline frames then Completed else Dropped)"
    using cs(3) by (cases fin) (simp_all add: oc_def stream_outcome_def)
  have nb: "oc \<noteq> Blocked m" for m by (simp add: oc_eq split: stream_end.split)
  let ?p = "\<lparr>pt_status = status, pt_version = version, pt_headers = hs\<rparr>"
  let ?n = "ac_response_bytes a + of_nat (length (concat cs))"
  have "r'' = None \<and> w'' = report a (ResponseHead (ac_id a) ?p # map (ResponseBodyChunk (ac_id a)) cs @
      [RequestEnd (ac_id a) oc ?n]) w"
    using assms(2) nb
    by (cases oc) (auto simp: rc recorder_chunks response_head_def recorder_defs)
  then show ?thesis using cs(2,3) unfolding oc_eq by (intro conjI exI [of _ cs]) (simp_all add: report_def)
qed

theorem response_report_exact_witness:
  "\<exists>chunks. concat chunks = ''abcd'' \<and>
     os_log (snd (recorder_drop None (report \<lparr>ac_observer = 7 :: nat, ac_id = 1, ac_response_bytes = 0\<rparr>
       [ResponseHead 1 \<lparr>pt_status = 200, pt_version = [], pt_headers = []\<rparr>, ResponseBodyChunk 1 ''ab'',
        ResponseBodyChunk 1 ''cd'', RequestEnd 1 Completed 4] observer_init))) =
     map (Pair 7) (ResponseHead 1 \<lparr>pt_status = 200, pt_version = [], pt_headers = []\<rparr> #
       map (ResponseBodyChunk 1) chunks @ [RequestEnd 1 Completed (of_nat (length (concat chunks)))])"
proof -
  let ?fs = "[(0, Frame_Data ''ab''), (1, Frame_Data ''cd''), (2, Frame_End)]"
  obtain t where t: "run_stream_task 0 None ?fs (st_init None [Rec_Head 200]) = (Some Stream_Ended, t)"
    "sent_bytes t = ''abcd''" "st_rec t = [Rec_Head 200, Rec_Chunk ''ab'', Rec_Chunk ''cd'', Rec_Complete]"
    by (simp add: run_stream_task_def body_frame_timeout_def forward_or_buffer_chunk_def stream_finish_def stream_flush_def
        tx_send_def st_note_def st_init_def sent_bytes_def)
  let ?a = "\<lparr>ac_observer = 7 :: nat, ac_id = 1, ac_response_bytes = 0\<rparr>"
  have d: "case fold (recorder_note [] []) (st_rec t) (Some ?a, observer_init) of
      (r, w') \<Rightarrow> recorder_drop r w' = (None, snd (recorder_drop None (report ?a
       [ResponseHead 1 \<lparr>pt_status = 200, pt_version = [], pt_headers = []\<rparr>, ResponseBodyChunk 1 ''ab'',
        ResponseBodyChunk 1 ''cd'', RequestEnd 1 Completed 4] observer_init)))"
    by (simp add: t(3) recorder_defs report_def on_event_def)
  show ?thesis
    using response_report_exact [OF t(1) d] by (auto simp: t(2) body_frame_timeout_def observer_init_def)
qed

section \<open>Denied requests and owners\<close>

text \<open>
  A denied request reports a start and an end and nothing else, to one observer.\<close>

theorem denied_request_reported:
  assumes "length steps < 2 ^ 64 - 1" "run_net to_str steps = n" "q \<in> set (nw_requests n)"
    "nr_phase q = Denied (Some (ob, x))"
  shows "life ob (trace (nw_state n) x) = Some Over"
proof -
  have "request_ok (nw_state n) q" using net_ok_run_net [OF assms(1), of to_str] assms(2,3) by (simp add: net_ok_def)
  then show ?thesis using assms(4) by (simp add: request_ok.simps)
qed

text \<open>Work moved to the executor sees the owner of the scope that started it, and none of the executor's own.\<close>

lemma owner_capture_restores:
  "owner_capture_scope (owner_capture scopes) current_network_owner [] = current_network_owner scopes"
  by (cases scopes) (simp_all add: owner_capture_scope_def owner_capture_def current_network_owner_def scope_network_owner_def)

text \<open>A chunk of the request body may be reported after the end of the request: the body outlives the recorder.\<close>

lemma body_chunk_after_end:
  "map (\<lambda>(ob, e). e) (os_log (nw_state (run_net Some
     [Net_Install (Some (7 :: nat)), Net_Prepare ''POST'' ''http://a/'' [] None, Net_Load 0, Net_Send 0 None, Net_Drop 0,
      Net_Pull 0 (Some ''x'')]))) \<noteq> [] \<and>
   snd (last (os_log (nw_state (run_net Some
     [Net_Install (Some (7 :: nat)), Net_Prepare ''POST'' ''http://a/'' [] None, Net_Load 0, Net_Send 0 None, Net_Drop 0,
      Net_Pull 0 (Some ''x'')])))) = RequestBodyChunk 1 ''x''"
  by code_simp

end
