(* ===== verification/Js_Value.thy ===== *)
theory Js_Value
  imports Host_Error
begin

text \<open>
  JavaScript values at the Rust boundary: the type tests of \<^verbatim>\<open>core/src/value/valuetype.rs\<close>, the conversions of
  \<^verbatim>\<open>core/src/value/convert.rs\<close> and \<^verbatim>\<open>core/src/value.rs\<close>, and the primitive converters of the QuickJS binding,
  \<^verbatim>\<open>quickjs/src/value.rs\<close>. A number is an \<^verbatim>\<open>f64\<close>; a finite one is \<open>m * 2 ^ e\<close>, and the sign of zero is left out. The
  engine's conversion of a value to a string is an argument.
\<close>

section \<open>Numbers\<close>

datatype f64_value = F64_NaN | F64_Inf bool | F64_Fin int int

text \<open>Rounding a finite number toward zero.\<close>

definition trunc_dyadic :: "int \<Rightarrow> int \<Rightarrow> int" where
  "trunc_dyadic m e = (if 0 \<le> e then m * 2 ^ nat e else sgn m * (\<bar>m\<bar> div 2 ^ nat (- e)))"

text \<open>The Rust casts \<^verbatim>\<open>f64 as i64\<close> and \<^verbatim>\<open>f64 as u64\<close>: NaN is zero and the rest saturates.\<close>

definition f64_as_int :: "int \<Rightarrow> int \<Rightarrow> f64_value \<Rightarrow> int" where
  "f64_as_int lo hi x =
     (case x of
        F64_NaN \<Rightarrow> 0
      | F64_Inf neg \<Rightarrow> if neg then lo else hi
      | F64_Fin m e \<Rightarrow> max lo (min hi (trunc_dyadic m e)))"

definition f64_as_i64 :: "f64_value \<Rightarrow> 64 word" where
  "f64_as_i64 x = word_of_int (f64_as_int (- (2 ^ 63)) (2 ^ 63 - 1) x)"

definition f64_as_u64 :: "f64_value \<Rightarrow> 64 word" where
  "f64_as_u64 x = word_of_int (f64_as_int 0 (2 ^ 64 - 1) x)"

definition f64_nonneg :: "f64_value \<Rightarrow> bool" where
  "f64_nonneg x = (case x of F64_NaN \<Rightarrow> False | F64_Inf neg \<Rightarrow> \<not> neg | F64_Fin m e \<Rightarrow> 0 \<le> m)"

text \<open>The cast of an integer to \<^verbatim>\<open>f64\<close> keeps fifty-three significant bits and rounds to the nearest, ties to even.\<close>

function excess_bits :: "nat \<Rightarrow> nat" where
  "excess_bits n = (if n < 2 ^ 53 then 0 else Suc (excess_bits (n div 2)))"
  by pat_completeness auto
termination by (relation "measure id") auto

declare excess_bits.simps [simp del]

definition round_nat :: "nat \<Rightarrow> nat" where
  "round_nat n =
     (let k = excess_bits n; q = n div 2 ^ k; r = n mod 2 ^ k in
      (if 2 ^ k < 2 * r \<or> 2 * r = 2 ^ k \<and> odd q then Suc q else q) * 2 ^ k)"

definition f64_of_int :: "int \<Rightarrow> f64_value" where
  "f64_of_int i = F64_Fin (sgn i * int (round_nat (nat \<bar>i\<bar>))) 0"

text \<open>ECMAScript's conversion of a number to 32 bits.\<close>

definition to_int32 :: "f64_value \<Rightarrow> 32 word" where
  "to_int32 x = (case x of F64_Fin m e \<Rightarrow> word_of_int (trunc_dyadic m e) | _ \<Rightarrow> 0)"

section \<open>Values and their types\<close>

text \<open>The classes of objects the engine tells apart, and the raw values.\<close>

datatype obj_class =
    C_Error | C_Promise | C_Array | C_Array_Buffer | C_Function bool | C_Constructor | C_Date | C_Proxy | C_Plain

datatype 'o js_raw =
    V_Undefined | V_Null | V_Bool bool | V_Number f64_value | V_BigInt int | V_String string | V_Symbol 'o
  | V_Object obj_class 'o

datatype qjs_value_type = Q_Error | Q_Exception | Q_Other

record 'o qjs_value =
  qv_value :: "'o js_raw"
  qv_type :: qjs_value_type

datatype js_value_type =
    T_Undefined | T_Null | T_Error | T_Exception | T_Boolean | T_Number | T_BigInt | T_String | T_Object | T_Array
  | T_ArrayBuffer | T_Function | T_Constructor | T_Promise | T_Symbol | T_Date | T_Unknown

fun js_value_type_name :: "js_value_type \<Rightarrow> string" where
  "js_value_type_name T_Undefined = ''undefined''"
| "js_value_type_name T_Null = ''null''"
| "js_value_type_name T_Error = ''error''"
| "js_value_type_name T_Exception = ''exception''"
| "js_value_type_name T_Boolean = ''boolean''"
| "js_value_type_name T_Number = ''number''"
| "js_value_type_name T_BigInt = ''bigint''"
| "js_value_type_name T_String = ''string''"
| "js_value_type_name T_Object = ''object''"
| "js_value_type_name T_Array = ''array''"
| "js_value_type_name T_ArrayBuffer = ''arrayBuffer''"
| "js_value_type_name T_Function = ''function''"
| "js_value_type_name T_Constructor = ''constructor''"
| "js_value_type_name T_Promise = ''promise''"
| "js_value_type_name T_Symbol = ''symbol''"
| "js_value_type_name T_Date = ''Date''"
| "js_value_type_name T_Unknown = ''unknown''"

text \<open>The tests of the QuickJS binding; a value marked as an error or an exception keeps its mark.\<close>

definition is_class :: "(obj_class \<Rightarrow> bool) \<Rightarrow> 'o qjs_value \<Rightarrow> bool" where
  "is_class P v = (case qv_value v of V_Object c _ \<Rightarrow> P c | _ \<Rightarrow> False)"

definition qjs_is_exception :: "'o qjs_value \<Rightarrow> bool" where "qjs_is_exception v \<longleftrightarrow> qv_type v = Q_Exception"
definition qjs_is_error :: "'o qjs_value \<Rightarrow> bool" where
  "qjs_is_error v \<longleftrightarrow> (if qv_type v = Q_Error then True else is_class ((=) C_Error) v)"
definition qjs_is_array :: "'o qjs_value \<Rightarrow> bool" where "qjs_is_array = is_class ((=) C_Array)"
definition qjs_is_array_buffer :: "'o qjs_value \<Rightarrow> bool" where "qjs_is_array_buffer = is_class ((=) C_Array_Buffer)"
definition qjs_is_promise :: "'o qjs_value \<Rightarrow> bool" where "qjs_is_promise = is_class ((=) C_Promise)"
definition qjs_is_function :: "'o qjs_value \<Rightarrow> bool" where
  "qjs_is_function = is_class (\<lambda>c. case c of C_Function _ \<Rightarrow> True | _ \<Rightarrow> False)"
definition qjs_is_constructor :: "'o qjs_value \<Rightarrow> bool" where
  "qjs_is_constructor = is_class (\<lambda>c. case c of C_Function b \<Rightarrow> b | C_Constructor \<Rightarrow> True | _ \<Rightarrow> False)"
definition qjs_is_date :: "'o qjs_value \<Rightarrow> bool" where "qjs_is_date = is_class ((=) C_Date)"
definition qjs_is_object :: "'o qjs_value \<Rightarrow> bool" where "qjs_is_object = is_class (\<lambda>c. True)"
definition qjs_is_undefined :: "'o qjs_value \<Rightarrow> bool" where
  "qjs_is_undefined v = (case qv_value v of V_Undefined \<Rightarrow> True | _ \<Rightarrow> False)"
definition qjs_is_null :: "'o qjs_value \<Rightarrow> bool" where
  "qjs_is_null v = (case qv_value v of V_Null \<Rightarrow> True | _ \<Rightarrow> False)"
definition qjs_is_boolean :: "'o qjs_value \<Rightarrow> bool" where
  "qjs_is_boolean v = (case qv_value v of V_Bool _ \<Rightarrow> True | _ \<Rightarrow> False)"
definition qjs_is_number :: "'o qjs_value \<Rightarrow> bool" where
  "qjs_is_number v = (case qv_value v of V_Number _ \<Rightarrow> True | _ \<Rightarrow> False)"
definition qjs_is_bigint :: "'o qjs_value \<Rightarrow> bool" where
  "qjs_is_bigint v = (case qv_value v of V_BigInt _ \<Rightarrow> True | _ \<Rightarrow> False)"
definition qjs_is_string :: "'o qjs_value \<Rightarrow> bool" where
  "qjs_is_string v = (case qv_value v of V_String _ \<Rightarrow> True | _ \<Rightarrow> False)"
definition qjs_is_symbol :: "'o qjs_value \<Rightarrow> bool" where
  "qjs_is_symbol v = (case qv_value v of V_Symbol _ \<Rightarrow> True | _ \<Rightarrow> False)"

lemmas qjs_test_defs = qjs_is_exception_def qjs_is_error_def qjs_is_array_def qjs_is_array_buffer_def qjs_is_promise_def
  qjs_is_function_def qjs_is_constructor_def qjs_is_date_def qjs_is_object_def qjs_is_undefined_def qjs_is_null_def
  qjs_is_boolean_def qjs_is_number_def qjs_is_bigint_def qjs_is_string_def qjs_is_symbol_def is_class_def

definition js_type_of :: "'o qjs_value \<Rightarrow> js_value_type" where
  "js_type_of v =
     (if qjs_is_exception v then T_Exception
      else if qjs_is_error v then T_Error
      else if qjs_is_promise v then T_Promise
      else if qjs_is_array v then T_Array
      else if qjs_is_array_buffer v then T_ArrayBuffer
      else if qjs_is_function v then T_Function
      else if qjs_is_constructor v then T_Constructor
      else if qjs_is_undefined v then T_Undefined
      else if qjs_is_null v then T_Null
      else if qjs_is_boolean v then T_Boolean
      else if qjs_is_number v then T_Number
      else if qjs_is_bigint v then T_BigInt
      else if qjs_is_string v then T_String
      else if qjs_is_date v then T_Date
      else if qjs_is_symbol v then T_Symbol
      else if qjs_is_object v then T_Object
      else T_Unknown)"

section \<open>Primitive converters\<close>

definition owned :: "'o js_raw \<Rightarrow> 'o qjs_value" where
  "owned r = \<lparr>qv_value = r, qv_type = Q_Other\<rparr>"

text \<open>The error of a converter that refuses: the wanted type and the type the value has. A converter in the binding
  answers with a status, \<^const>\<open>None\<close> when it is negative.\<close>

definition debug_name :: "js_value_type \<Rightarrow> string" where
  "debug_name t =
     (case t of
        T_Undefined \<Rightarrow> ''Undefined'' | T_Null \<Rightarrow> ''Null'' | T_Error \<Rightarrow> ''Error'' | T_Exception \<Rightarrow> ''Exception''
      | T_Boolean \<Rightarrow> ''Boolean'' | T_Number \<Rightarrow> ''Number'' | T_BigInt \<Rightarrow> ''BigInt'' | T_String \<Rightarrow> ''String''
      | T_Object \<Rightarrow> ''Object'' | T_Array \<Rightarrow> ''Array'' | T_ArrayBuffer \<Rightarrow> ''ArrayBuffer'' | T_Function \<Rightarrow> ''Function''
      | T_Constructor \<Rightarrow> ''Constructor'' | T_Promise \<Rightarrow> ''Promise'' | T_Symbol \<Rightarrow> ''Symbol'' | T_Date \<Rightarrow> ''Date''
      | T_Unknown \<Rightarrow> ''Unknown'')"

definition convert_with :: "string \<Rightarrow> ('o js_raw \<Rightarrow> 't option) \<Rightarrow> 'o qjs_value \<Rightarrow> 't js_result" where
  "convert_with rust_type to_fn v =
     (case to_fn (qv_value v) of
        None \<Rightarrow>
          Inl (Host (with_name ''TypeError'' (he_new E_TYPE
            (''Expected JSValue to be type '' @ rust_type @ '', but got '' @ debug_name (js_type_of v)))))
      | Some x \<Rightarrow> Inr x)"

definition qjs_to_bool :: "'o js_raw \<Rightarrow> bool option" where
  "qjs_to_bool r = (case r of V_Bool b \<Rightarrow> Some b | _ \<Rightarrow> None)"

definition qjs_to_i32 :: "'o js_raw \<Rightarrow> 32 word option" where
  "qjs_to_i32 r = (case r of V_Number x \<Rightarrow> Some (to_int32 x) | _ \<Rightarrow> None)"

definition qjs_to_u32 :: "'o js_raw \<Rightarrow> 32 word option" where
  "qjs_to_u32 r = (case r of V_Number x \<Rightarrow> Some (to_int32 x) | _ \<Rightarrow> None)"

definition qjs_to_i64 :: "'o js_raw \<Rightarrow> 64 word option" where
  "qjs_to_i64 r =
     (case r of V_BigInt i \<Rightarrow> Some (word_of_int i) | V_Number x \<Rightarrow> Some (f64_as_i64 x) | _ \<Rightarrow> None)"

definition qjs_to_u64 :: "'o js_raw \<Rightarrow> 64 word option" where
  "qjs_to_u64 r =
     (case r of
        V_BigInt i \<Rightarrow> Some (word_of_int i)
      | V_Number x \<Rightarrow> if f64_nonneg x then Some (f64_as_u64 x) else None
      | _ \<Rightarrow> None)"

definition qjs_to_f64 :: "'o js_raw \<Rightarrow> f64_value option" where
  "qjs_to_f64 r = (case r of V_Number x \<Rightarrow> Some x | _ \<Rightarrow> None)"

definition qjs_from_bool :: "bool \<Rightarrow> 'o qjs_value" where "qjs_from_bool b = owned (V_Bool b)"
definition qjs_from_i32 :: "32 word \<Rightarrow> 'o qjs_value" where "qjs_from_i32 w = owned (V_Number (f64_of_int (sint w)))"
definition qjs_from_u32 :: "32 word \<Rightarrow> 'o qjs_value" where "qjs_from_u32 w = owned (V_Number (f64_of_int (uint w)))"
definition qjs_from_f64 :: "f64_value \<Rightarrow> 'o qjs_value" where "qjs_from_f64 x = owned (V_Number x)"
definition qjs_from_str :: "string \<Rightarrow> 'o qjs_value" where "qjs_from_str s = owned (V_String s)"

definition JS_MAX_SAFE_INTEGER :: int where "JS_MAX_SAFE_INTEGER = 2 ^ 53 - 1"

definition qjs_from_i64 :: "64 word \<Rightarrow> 'o qjs_value" where
  "qjs_from_i64 w =
     (if - JS_MAX_SAFE_INTEGER \<le> sint w \<and> sint w \<le> JS_MAX_SAFE_INTEGER
      then owned (V_Number (f64_of_int (sint w)))
      else owned (V_BigInt (sint w)))"

definition qjs_from_u64 :: "64 word \<Rightarrow> 'o qjs_value" where
  "qjs_from_u64 w =
     (if uint w \<le> JS_MAX_SAFE_INTEGER then owned (V_Number (f64_of_int (uint w))) else owned (V_BigInt (uint w)))"

section \<open>Conversions of the core\<close>

definition js_create_null :: "'o qjs_value" where "js_create_null = owned V_Null"
definition js_create_undefined :: "'o qjs_value" where "js_create_undefined = owned V_Undefined"

definition bool_from_js :: "'o qjs_value \<Rightarrow> bool js_result" where "bool_from_js = convert_with ''bool'' qjs_to_bool"
definition i32_from_js :: "'o qjs_value \<Rightarrow> 32 word js_result" where "i32_from_js = convert_with ''i32'' qjs_to_i32"
definition u32_from_js :: "'o qjs_value \<Rightarrow> 32 word js_result" where "u32_from_js = convert_with ''u32'' qjs_to_u32"
definition i64_from_js :: "'o qjs_value \<Rightarrow> 64 word js_result" where "i64_from_js = convert_with ''i64'' qjs_to_i64"
definition u64_from_js :: "'o qjs_value \<Rightarrow> 64 word js_result" where "u64_from_js = convert_with ''u64'' qjs_to_u64"
definition f64_from_js :: "'o qjs_value \<Rightarrow> f64_value js_result" where "f64_from_js = convert_with ''f64'' qjs_to_f64"

definition string_from_js :: "('o js_raw \<Rightarrow> string option) \<Rightarrow> 'o qjs_value \<Rightarrow> string js_result" where
  "string_from_js to_cstring = convert_with ''alloc::string::String'' to_cstring"

definition unit_from_js :: "'o qjs_value \<Rightarrow> unit js_result" where "unit_from_js v = Inr ()"

definition option_from_js :: "('o qjs_value \<Rightarrow> 't js_result) \<Rightarrow> 'o qjs_value \<Rightarrow> 't option js_result" where
  "option_from_js from v = (if qjs_is_null v \<or> qjs_is_undefined v then Inr None else map_sum id Some (from v))"

definition option_into_js :: "('t \<Rightarrow> 'o qjs_value) \<Rightarrow> 't option \<Rightarrow> 'o qjs_value" where
  "option_into_js into x = (case x of Some v \<Rightarrow> into v | None \<Rightarrow> js_create_null)"

text \<open>The small integers go through a wider one; a value outside the range of the target is refused.\<close>

definition int_try_from :: "string \<Rightarrow> int \<Rightarrow> int \<Rightarrow> int \<Rightarrow> 'a::len word js_result" where
  "int_try_from rust_type lo hi i =
     (if lo \<le> i \<and> i \<le> hi then Inr (word_of_int i)
      else Inl (Host (range_error E_OUT_OF_RANGE
        (''Value '' @ string_of_int i @ '' is out of range for '' @ rust_type))))"

definition js_bind :: "'a js_result \<Rightarrow> ('a \<Rightarrow> 'b js_result) \<Rightarrow> 'b js_result" where
  "js_bind r f = (case r of Inl e \<Rightarrow> Inl e | Inr x \<Rightarrow> f x)"

definition i8_from_js :: "'o qjs_value \<Rightarrow> 8 word js_result" where
  "i8_from_js v = js_bind (i32_from_js v) (\<lambda>w. int_try_from ''i8'' (- (2 ^ 7)) (2 ^ 7 - 1) (sint w))"
definition u8_from_js :: "'o qjs_value \<Rightarrow> 8 word js_result" where
  "u8_from_js v = js_bind (u32_from_js v) (\<lambda>w. int_try_from ''u8'' 0 (2 ^ 8 - 1) (uint w))"
definition i16_from_js :: "'o qjs_value \<Rightarrow> 16 word js_result" where
  "i16_from_js v = js_bind (i32_from_js v) (\<lambda>w. int_try_from ''i16'' (- (2 ^ 15)) (2 ^ 15 - 1) (sint w))"
definition u16_from_js :: "'o qjs_value \<Rightarrow> 16 word js_result" where
  "u16_from_js v = js_bind (u32_from_js v) (\<lambda>w. int_try_from ''u16'' 0 (2 ^ 16 - 1) (uint w))"
definition usize_from_js :: "'o qjs_value \<Rightarrow> usize js_result" where
  "usize_from_js v = js_bind (u64_from_js v) (\<lambda>w. int_try_from ''usize'' 0 (2 ^ 64 - 1) (uint w))"
definition isize_from_js :: "'o qjs_value \<Rightarrow> 64 word js_result" where
  "isize_from_js v = js_bind (i64_from_js v) (\<lambda>w. int_try_from ''isize'' (- (2 ^ 63)) (2 ^ 63 - 1) (sint w))"

definition i8_into_js :: "8 word \<Rightarrow> 'o qjs_value" where "i8_into_js w = qjs_from_i32 (scast w)"
definition u8_into_js :: "8 word \<Rightarrow> 'o qjs_value" where "u8_into_js w = qjs_from_u32 (ucast w)"
definition i16_into_js :: "16 word \<Rightarrow> 'o qjs_value" where "i16_into_js w = qjs_from_i32 (scast w)"
definition u16_into_js :: "16 word \<Rightarrow> 'o qjs_value" where "u16_into_js w = qjs_from_u32 (ucast w)"
definition usize_into_js :: "usize \<Rightarrow> 'o qjs_value" where "usize_into_js w = qjs_from_u64 w"
definition isize_into_js :: "64 word \<Rightarrow> 'o qjs_value" where "isize_into_js w = qjs_from_i64 w"

section \<open>Printing a value\<close>

text \<open>\<^verbatim>\<open>Display\<close> for a value: the text of a boolean, a number, a string or a date, and the name of the type for the rest.
  The text Rust prints for an \<^verbatim>\<open>f64\<close> is an argument.\<close>

definition js_display :: "(f64_value \<Rightarrow> string) \<Rightarrow> ('o js_raw \<Rightarrow> string option) \<Rightarrow> 'o qjs_value \<Rightarrow> string" where
  "js_display f64_text to_cstring v =
     (case js_type_of v of
        T_Boolean \<Rightarrow> (case bool_from_js v of Inr b \<Rightarrow> if b then ''true'' else ''false'' | Inl _ \<Rightarrow> ''boolean'')
      | T_Number \<Rightarrow> (case f64_from_js v of Inr x \<Rightarrow> f64_text x | Inl _ \<Rightarrow> ''number'')
      | T_String \<Rightarrow> (case string_from_js to_cstring v of Inr s \<Rightarrow> s | Inl _ \<Rightarrow> ''string'')
      | T_Date \<Rightarrow> (case string_from_js to_cstring v of Inr s \<Rightarrow> s | Inl _ \<Rightarrow> ''Date'')
      | t \<Rightarrow> js_value_type_name t)"

section \<open>Round trips\<close>

lemma trunc_dyadic_int [simp]: "trunc_dyadic m 0 = m"
  by (simp add: trunc_dyadic_def)

lemma f64_of_int_exact: "\<bar>i\<bar> < 2 ^ 53 \<Longrightarrow> f64_of_int i = F64_Fin i 0"
proof -
  assume "\<bar>i\<bar> < 2 ^ 53"
  then have "excess_bits (nat \<bar>i\<bar>) = 0" by (subst excess_bits.simps) (simp add: nat_less_iff)
  then show ?thesis by (simp add: f64_of_int_def round_nat_def sgn_mult_abs)
qed

lemma to_int32_of_int: "\<bar>i\<bar> < 2 ^ 53 \<Longrightarrow> to_int32 (f64_of_int i) = word_of_int i"
  by (simp add: to_int32_def f64_of_int_exact)

lemma f64_nonneg_of_int: "\<bar>i\<bar> < 2 ^ 53 \<Longrightarrow> f64_nonneg (f64_of_int i) \<longleftrightarrow> 0 \<le> i"
  by (simp add: f64_nonneg_def f64_of_int_exact)

lemma f64_as_i64_of_int: "- (2 ^ 53) < i \<Longrightarrow> i < 2 ^ 53 \<Longrightarrow> f64_as_i64 (f64_of_int i) = word_of_int i"
  by (simp add: f64_as_i64_def f64_as_int_def f64_of_int_exact abs_less_iff)

lemma f64_as_u64_of_int: "0 \<le> i \<Longrightarrow> i < 2 ^ 53 \<Longrightarrow> f64_as_u64 (f64_of_int i) = word_of_int i"
  by (simp add: f64_as_u64_def f64_as_int_def f64_of_int_exact)

lemma sint_bounds:
  "- (2 ^ (LENGTH('a) - 1)) \<le> sint w" "sint w \<le> 2 ^ (LENGTH('a) - 1) - 1" for w :: "'a::len word"
  using sint_range_size [of w] by (simp_all add: word_size)

lemma uint_bound: "uint w \<le> 2 ^ LENGTH('a) - 1" for w :: "'a::len word"
  by (simp add: less_imp_le uint_lt2p)

lemmas converter_defs = convert_with_def qjs_to_bool_def qjs_to_i32_def qjs_to_u32_def qjs_to_i64_def qjs_to_u64_def
  qjs_to_f64_def owned_def qjs_from_bool_def qjs_from_i32_def qjs_from_u32_def qjs_from_f64_def qjs_from_str_def

lemmas from_js_defs = bool_from_js_def i32_from_js_def u32_from_js_def i64_from_js_def u64_from_js_def f64_from_js_def
  string_from_js_def js_bind_def int_try_from_def

lemma i32_roundtrip [simp]: "i32_from_js (qjs_from_i32 w) = Inr w"
  using sint_bounds [of w] by (simp add: from_js_defs converter_defs to_int32_of_int)

lemma u32_roundtrip [simp]: "u32_from_js (qjs_from_u32 w) = Inr w"
  using uint_bound [of w] by (simp add: from_js_defs converter_defs to_int32_of_int)

lemma i64_roundtrip [simp]: "i64_from_js (qjs_from_i64 w) = Inr w"
  by (simp add: from_js_defs converter_defs qjs_from_i64_def f64_as_i64_of_int JS_MAX_SAFE_INTEGER_def)

lemma u64_roundtrip [simp]: "u64_from_js (qjs_from_u64 w) = Inr w"
  by (simp add: from_js_defs converter_defs qjs_from_u64_def f64_as_u64_of_int f64_nonneg_of_int JS_MAX_SAFE_INTEGER_def)

lemma sint_scast_wider [simp]:
  "LENGTH('a) \<le> LENGTH('b) \<Longrightarrow> sint (scast w :: 'b::len word) = sint w" for w :: "'a::len word"
proof -
  assume "LENGTH('a) \<le> LENGTH('b)"
  then have "(2 :: int) ^ (LENGTH('a) - 1) \<le> 2 ^ (LENGTH('b) - 1)" by (intro power_increasing) auto
  then have "signed_take_bit (LENGTH('b) - 1) (sint w) = sint w"
    using sint_bounds [of w] by (intro signed_take_bit_int_eq_self) linarith+
  then show ?thesis by (simp add: signed_scast_eq)
qed

lemma uint_ucast_wider [simp]:
  "LENGTH('a) \<le> LENGTH('b) \<Longrightarrow> uint (ucast w :: 'b::len word) = uint w" for w :: "'a::len word"
proof -
  assume "LENGTH('a) \<le> LENGTH('b)"
  then have "(2 :: int) ^ LENGTH('a) \<le> 2 ^ LENGTH('b)" by (intro power_increasing) auto
  then have "take_bit LENGTH('b) (uint w) = uint w"
    using uint_bound [of w] by (intro take_bit_int_eq_self) (simp, linarith)
  then show ?thesis by (simp add: unsigned_ucast_eq)
qed

text \<open>
  C13. Every integer survives the trip to JavaScript and back: the eight-, sixteen-, thirty-two- and sixty-four-bit types
  and the pointer-sized ones, signed and unsigned, over their whole range, whether they travel as a number or, beyond
  fifty-three bits, as a big integer.\<close>

theorem integers_survive_javascript:
  "i8_from_js (i8_into_js a) = Inr a \<and> u8_from_js (u8_into_js b) = Inr b \<and>
   i16_from_js (i16_into_js c) = Inr c \<and> u16_from_js (u16_into_js d) = Inr d \<and>
   i32_from_js (qjs_from_i32 e) = Inr e \<and> u32_from_js (qjs_from_u32 f) = Inr f \<and>
   i64_from_js (qjs_from_i64 g) = Inr g \<and> u64_from_js (qjs_from_u64 h) = Inr h \<and>
   isize_from_js (isize_into_js i) = Inr i \<and> usize_from_js (usize_into_js j) = Inr j"
proof -
  have "i8_from_js (i8_into_js a) = Inr a"
    using sint_bounds [of a] by (simp add: i8_from_js_def i8_into_js_def js_bind_def int_try_from_def)
  moreover have "u8_from_js (u8_into_js b) = Inr b"
    using uint_bound [of b] by (simp add: u8_from_js_def u8_into_js_def js_bind_def int_try_from_def)
  moreover have "i16_from_js (i16_into_js c) = Inr c"
    using sint_bounds [of c] by (simp add: i16_from_js_def i16_into_js_def js_bind_def int_try_from_def)
  moreover have "u16_from_js (u16_into_js d) = Inr d"
    using uint_bound [of d] by (simp add: u16_from_js_def u16_into_js_def js_bind_def int_try_from_def)
  moreover have "isize_from_js (isize_into_js i) = Inr i"
    using sint_bounds [of i] by (simp add: isize_from_js_def isize_into_js_def js_bind_def int_try_from_def)
  moreover have "usize_from_js (usize_into_js j) = Inr j"
    using uint_bound [of j] by (simp add: usize_from_js_def usize_into_js_def js_bind_def int_try_from_def)
  ultimately show ?thesis by simp
qed

section \<open>Narrow integers\<close>

text \<open>A number too large for a byte is first reduced modulo two to the thirty-second, so the range check can pass.\<close>

lemma narrow_conversion_wraps:
  "u8_from_js (owned (V_Number (f64_of_int (2 ^ 32 + 5))) :: unit qjs_value) = Inr 5"
  by (simp add: u8_from_js_def from_js_defs converter_defs to_int32_of_int)

text \<open>A big integer prints as the name of its type, and so does an object.\<close>

lemma display_of_bigint: "js_display f64_text to_cstring (owned (V_BigInt i)) = ''bigint''"
  by (simp add: js_display_def js_type_of_def qjs_test_defs owned_def)

lemma display_of_string:
  "to_cstring (V_String s) = Some s \<Longrightarrow> js_display f64_text to_cstring (owned (V_String s)) = s"
  by (simp add: js_display_def js_type_of_def qjs_test_defs owned_def string_from_js_def convert_with_def)

end
