(* ===== verification/Js_Function.thy ===== *)
theory Js_Function
  imports Js_Value
begin

text \<open>
  Calling a Rust function from JavaScript, \<^verbatim>\<open>core/src/function.rs\<close> and \<^verbatim>\<open>core/src/function/parameter.rs\<close>: the accessor
  over the arguments, the kinds of parameters with what each requires, the extraction of a parameter list, and the
  callable with its check of the argument count and the closure that may be called once. The signature of a function
  is the list of its parameters in order; a parameter carries the conversion of its Rust type.
\<close>

section \<open>Parameters\<close>

record 'o params_accessor =
  pa_this :: "'o qjs_value"
  pa_args :: "'o qjs_value list"
  pa_is_last :: bool

definition accessor_new :: "'o qjs_value \<Rightarrow> 'o qjs_value list \<Rightarrow> 'o params_accessor" where
  "accessor_new this args = \<lparr>pa_this = this, pa_args = args, pa_is_last = False\<rparr>"

definition set_last_param :: "bool \<Rightarrow> 'o params_accessor \<Rightarrow> 'o params_accessor" where
  "set_last_param b a = a\<lparr>pa_is_last := b\<rparr>"

definition next_arg :: "'o params_accessor \<Rightarrow> 'o qjs_value option \<times> 'o params_accessor" where
  "next_arg a = (case pa_args a of [] \<Rightarrow> (None, a) | v # vs \<Rightarrow> (Some v, a\<lparr>pa_args := vs\<rparr>))"

text \<open>A parameter of each kind, with the conversion of its type into an argument of the Rust function. A missing class
  instance is told by the conversion of \<^verbatim>\<open>ThisMut\<close>.\<close>

datatype ('o, 'r) parameter =
    Regular "'o qjs_value \<Rightarrow> 'r js_result"
  | Context_Param 'r
  | This_Param "'o qjs_value \<Rightarrow> 'r js_result"
  | Optional_Param "'o qjs_value \<Rightarrow> 'r js_result"
  | Rest_Param "'o qjs_value \<Rightarrow> 'r js_result"

datatype 'r argument = Arg 'r | Arg_Optional "'r option" | Arg_Rest "'r list"

record param_requirement =
  pr_required_count :: nat
  pr_exhaustive :: bool

definition requirement_single :: param_requirement where
  "requirement_single = \<lparr>pr_required_count = 1, pr_exhaustive = True\<rparr>"
definition requirement_optional :: param_requirement where
  "requirement_optional = \<lparr>pr_required_count = 0, pr_exhaustive = False\<rparr>"
definition requirement_any :: param_requirement where
  "requirement_any = \<lparr>pr_required_count = 0, pr_exhaustive = False\<rparr>"

definition kind_requirement :: "('o, 'r) parameter \<Rightarrow> param_requirement" where
  "kind_requirement p =
     (case p of
        Regular _ \<Rightarrow> requirement_single
      | Optional_Param _ \<Rightarrow> requirement_optional
      | _ \<Rightarrow> requirement_any)"

definition param_requirements :: "('o, 'r) parameter list \<Rightarrow> param_requirement" where
  "param_requirements ps =
     foldl (\<lambda>req p.
         let r = kind_requirement p;
             req = req\<lparr>pr_required_count := pr_required_count req + pr_required_count r\<rparr>
         in if \<not> pr_exhaustive r then req\<lparr>pr_exhaustive := False\<rparr> else req)
       \<lparr>pr_required_count = 0, pr_exhaustive = True\<rparr> ps"

text \<open>An extraction either panics, or gives an error or the argument and what is left of the accessor.\<close>

datatype 'a outcome = Panics | Returns "'a js_result"

fun rest_loop :: "('o qjs_value \<Rightarrow> 'r js_result) \<Rightarrow> 'o qjs_value list \<Rightarrow> 'r list js_result" where
  "rest_loop from [] = Inr []"
| "rest_loop from (v # vs) = js_bind (from v) (\<lambda>x. js_bind (rest_loop from vs) (\<lambda>xs. Inr (x # xs)))"

fun get_param ::
  "('o, 'r) parameter \<Rightarrow> 'o params_accessor \<Rightarrow> ('r argument \<times> 'o params_accessor) outcome" where
  "get_param (Regular from) a =
     (case next_arg a of
        (None, _) \<Rightarrow> Panics
      | (Some v, a') \<Rightarrow> Returns (js_bind (from v) (\<lambda>x. Inr (Arg x, a'))))"
| "get_param (Context_Param c) a = Returns (Inr (Arg c, a))"
| "get_param (This_Param from) a = Returns (js_bind (from (pa_this a)) (\<lambda>x. Inr (Arg x, a)))"
| "get_param (Optional_Param from) a =
     (case next_arg a of
        (None, a') \<Rightarrow> Returns (Inr (Arg_Optional None, a'))
      | (Some v, a') \<Rightarrow>
          if qjs_is_undefined v then Returns (Inr (Arg_Optional None, a'))
          else Returns (js_bind (from v) (\<lambda>x. Inr (Arg_Optional (Some x), a'))))"
| "get_param (Rest_Param from) a =
     (if pa_is_last a
      then Returns (js_bind (rest_loop from (pa_args a)) (\<lambda>xs. Inr (Arg_Rest xs, a\<lparr>pa_args := []\<rparr>)))
      else Returns (Inr (Arg_Rest [], a)))"

fun from_params_at ::
  "('o, 'r) parameter list \<Rightarrow> 'o params_accessor \<Rightarrow> ('r argument list) outcome" where
  "from_params_at [] a = Returns (Inr [])"
| "from_params_at (p # ps) a =
     (case get_param p (set_last_param (ps = []) a) of
        Panics \<Rightarrow> Panics
      | Returns (Inl e) \<Rightarrow> Returns (Inl e)
      | Returns (Inr (x, a')) \<Rightarrow>
          (case from_params_at ps a' of
             Panics \<Rightarrow> Panics
           | Returns (Inl e) \<Rightarrow> Returns (Inl e)
           | Returns (Inr xs) \<Rightarrow> Returns (Inr (x # xs))))"

section \<open>The callable\<close>

text \<open>A closure that may be called any number of times, or once: its slot is emptied by the call. The body takes the
  extracted arguments.\<close>

datatype ('r, 'v) js_callable = Fn_Mut "'r argument list \<Rightarrow> 'v js_result" | Fn_Once "('r argument list \<Rightarrow> 'v js_result) option"

record ('o, 'r, 'v) rust_func =
  rf_params :: "('o, 'r) parameter list"
  rf_func :: "('r, 'v) js_callable"
  rf_required :: "32 word"

definition rust_func_new :: "('o, 'r) parameter list \<Rightarrow> ('r argument list \<Rightarrow> 'v js_result) \<Rightarrow> ('o, 'r, 'v) rust_func" where
  "rust_func_new ps f =
     \<lparr>rf_params = ps, rf_func = Fn_Mut f, rf_required = of_nat (pr_required_count (param_requirements ps))\<rparr>"

definition rust_func_new_once ::
  "('o, 'r) parameter list \<Rightarrow> ('r argument list \<Rightarrow> 'v js_result) \<Rightarrow> ('o, 'r, 'v) rust_func" where
  "rust_func_new_once ps f =
     \<lparr>rf_params = ps, rf_func = Fn_Once (Some f), rf_required = of_nat (pr_required_count (param_requirements ps))\<rparr>"

text \<open>The closure around a Rust function extracts the parameters and calls it.\<close>

definition run_closure ::
  "('o, 'r) parameter list \<Rightarrow> ('r argument list \<Rightarrow> 'v js_result) \<Rightarrow> 'o params_accessor \<Rightarrow> 'v outcome" where
  "run_closure ps f a =
     (case from_params_at ps a of
        Panics \<Rightarrow> Panics
      | Returns (Inl e) \<Rightarrow> Returns (Inl e)
      | Returns (Inr xs) \<Rightarrow> Returns (f xs))"

definition rust_func_call ::
  "('o, 'r, 'v) rust_func \<Rightarrow> 'o params_accessor \<Rightarrow> 'v outcome \<times> ('o, 'r, 'v) rust_func" where
  "rust_func_call rf a =
     (let num_args = of_nat (length (pa_args a)) :: 32 word in
      if num_args < rf_required rf then (Returns (Inl (Host (invalid_arg_count (rf_required rf) num_args))), rf)
      else
        (case rf_func rf of
           Fn_Mut f \<Rightarrow> (run_closure (rf_params rf) f a, rf)
         | Fn_Once None \<Rightarrow> (Returns (Inl (Host once_fn_called)), rf)
         | Fn_Once (Some f) \<Rightarrow> (run_closure (rf_params rf) f a, rf\<lparr>rf_func := Fn_Once None\<rparr>)))"

definition parameter_required_count :: "('o, 'r, 'v) rust_func \<Rightarrow> 32 word" where
  "parameter_required_count rf = rf_required rf"

section \<open>What the count check guarantees\<close>

definition is_regular :: "('o, 'r) parameter \<Rightarrow> bool" where
  "is_regular p = (case p of Regular _ \<Rightarrow> True | _ \<Rightarrow> False)"

definition is_optional :: "('o, 'r) parameter \<Rightarrow> bool" where
  "is_optional p = (case p of Optional_Param _ \<Rightarrow> True | _ \<Rightarrow> False)"

text \<open>No optional parameter stands before a regular one.\<close>

fun optionals_last :: "('o, 'r) parameter list \<Rightarrow> bool" where
  "optionals_last [] = True"
| "optionals_last (p # ps) = ((is_optional p \<longrightarrow> \<not> list_ex is_regular ps) \<and> optionals_last ps)"

lemma required_count_foldl:
  "pr_required_count (foldl (\<lambda>req p.
         let r = kind_requirement p;
             req = req\<lparr>pr_required_count := pr_required_count req + pr_required_count r\<rparr>
         in if \<not> pr_exhaustive r then req\<lparr>pr_exhaustive := False\<rparr> else req) req ps) =
   pr_required_count req + length (filter is_regular ps)"
  by (induction ps arbitrary: req)
    (auto simp: Let_def kind_requirement_def requirement_single_def requirement_optional_def requirement_any_def
      is_regular_def split: parameter.splits)

lemma required_count [simp]: "pr_required_count (param_requirements ps) = length (filter is_regular ps)"
  by (simp add: param_requirements_def required_count_foldl)

lemma get_param_args:
  assumes "get_param p a = Returns (Inr (x, a'))"
  shows "is_regular p \<Longrightarrow> length (pa_args a) = Suc (length (pa_args a'))"
    and "\<not> is_regular p \<Longrightarrow> \<not> is_optional p \<Longrightarrow> pa_args a' = pa_args a \<or> pa_is_last a"
  using assms
  by (cases p; auto simp: next_arg_def is_regular_def is_optional_def js_bind_def split: list.splits sum.splits if_splits)+

lemma get_param_no_panic: "(is_regular p \<Longrightarrow> pa_args a \<noteq> []) \<Longrightarrow> get_param p a \<noteq> Panics"
  by (cases p) (auto simp: next_arg_def is_regular_def split: list.splits)

lemma from_params_no_panic:
  "optionals_last ps \<Longrightarrow> length (filter is_regular ps) \<le> length (pa_args a) \<Longrightarrow> from_params_at ps a \<noteq> Panics"
proof (induction ps arbitrary: a)
  case (Cons p ps)
  let ?a = "set_last_param (ps = []) a"
  have l: "pa_args ?a = pa_args a" "pa_is_last ?a = (ps = [])" by (simp_all add: set_last_param_def)
  have np: "get_param p ?a \<noteq> Panics"
    by (rule get_param_no_panic) (use Cons.prems(2) l in auto)
  show ?case
  proof (cases "get_param p ?a")
    case (Returns r)
    show ?thesis
    proof (cases r)
      case (Inr y)
      obtain x a' where y: "y = (x, a')" by force
      note g = Returns [unfolded Inr y]
      have le: "length (filter is_regular ps) \<le> length (pa_args a')"
      proof (cases "is_regular p")
        case True
        then show ?thesis using get_param_args(1) [OF g True] Cons.prems(2) l by simp
      next
        case False
        show ?thesis
        proof (cases "is_optional p \<or> ps = []")
          case True
          then have "filter is_regular ps = []"
            using Cons.prems(1) by (auto simp: list_ex_iff filter_empty_conv)
          then show ?thesis by simp
        next
          case opt: False
          then show ?thesis using get_param_args(2) [OF g False] Cons.prems(2) l False by auto
        qed
      qed
      have "from_params_at ps a' \<noteq> Panics" using Cons.IH [OF _ le] Cons.prems(1) by simp
      then show ?thesis by (simp add: g split: outcome.splits sum.splits)
    qed (simp add: Returns)
  qed (use np in simp)
qed simp

text \<open>JavaScript may call the function any number of times, each time with its own receiver and arguments.\<close>

type_synonym 'o js_call = "'o qjs_value \<times> 'o qjs_value list"

fun run_calls :: "('o, 'r, 'v) rust_func \<Rightarrow> 'o js_call list \<Rightarrow> 'v outcome list" where
  "run_calls rf [] = []"
| "run_calls rf ((this, args) # calls) =
     (case rust_func_call rf (accessor_new this args) of (r, rf') \<Rightarrow> r # run_calls rf' calls)"

definition too_few :: "('o, 'r) parameter list \<Rightarrow> 'o js_call \<Rightarrow> bool" where
  "too_few ps c \<longleftrightarrow> length (snd c) < length (filter is_regular ps)"

definition count_error :: "('o, 'r) parameter list \<Rightarrow> 'o js_call \<Rightarrow> 'v outcome" where
  "count_error ps c =
     Returns (Inl (Host (invalid_arg_count (of_nat (length (filter is_regular ps))) (of_nat (length (snd c))))))"

definition closure_answer ::
  "('o, 'r) parameter list \<Rightarrow> ('r argument list \<Rightarrow> 'v js_result) \<Rightarrow> 'o js_call \<Rightarrow> 'v outcome" where
  "closure_answer ps f c = run_closure ps f (accessor_new (fst c) (snd c))"

lemma count_check:
  assumes "length ps < 2 ^ 32" "length (snd c) < 2 ^ 32"
  shows "(of_nat (length (snd c)) :: 32 word) < of_nat (length (filter is_regular ps)) \<longleftrightarrow> too_few ps c"
proof -
  have "length (filter is_regular ps) < 2 ^ 32" using assms(1) length_filter_le [of is_regular ps] by linarith
  then show ?thesis using assms(2) by (simp add: too_few_def word_less_nat_alt unat_of_nat take_bit_nat_eq_self)
qed

lemma call_simps:
  assumes "length ps < 2 ^ 32" "length args < 2 ^ 32"
  shows "rust_func_call (rust_func_new ps f) (accessor_new this args) =
      (if too_few ps (this, args) then count_error ps (this, args) else closure_answer ps f (this, args), rust_func_new ps f)"
    "rust_func_call (rust_func_new_once ps f) (accessor_new this args) =
      (if too_few ps (this, args) then (count_error ps (this, args), rust_func_new_once ps f)
       else (closure_answer ps f (this, args), (rust_func_new_once ps f)\<lparr>rf_func := Fn_Once None\<rparr>))"
    "rust_func_call ((rust_func_new_once ps f)\<lparr>rf_func := Fn_Once None\<rparr>) (accessor_new this args) =
      (if too_few ps (this, args) then count_error ps (this, args) else Returns (Inl (Host once_fn_called)),
       (rust_func_new_once ps f)\<lparr>rf_func := Fn_Once None\<rparr>)"
  using count_check [of ps "(this, args)"] assms
  by (simp_all add: rust_func_call_def rust_func_new_def rust_func_new_once_def accessor_new_def count_error_def
      closure_answer_def Let_def)

lemma closure_answers:
  assumes "optionals_last ps" "\<not> too_few ps c"
  shows "\<exists>r. from_params_at ps (accessor_new (fst c) (snd c)) = Returns r \<and> closure_answer ps f c = Returns (js_bind r f)"
  using from_params_no_panic [OF assms(1), of "accessor_new (fst c) (snd c)"] assms(2)
  by (cases "from_params_at ps (accessor_new (fst c) (snd c))")
     (auto simp: too_few_def accessor_new_def closure_answer_def run_closure_def js_bind_def split: sum.splits)

lemma run_calls_mut:
  "length ps < 2 ^ 32 \<Longrightarrow> \<forall>c \<in> set calls. length (snd c) < 2 ^ 32 \<Longrightarrow>
   run_calls (rust_func_new ps f) calls = map (\<lambda>c. if too_few ps c then count_error ps c else closure_answer ps f c) calls"
  by (induction calls) (auto simp: call_simps)

lemma run_calls_spent:
  "length ps < 2 ^ 32 \<Longrightarrow> \<forall>c \<in> set calls. length (snd c) < 2 ^ 32 \<Longrightarrow>
   run_calls ((rust_func_new_once ps f)\<lparr>rf_func := Fn_Once None\<rparr>) calls =
     map (\<lambda>c. if too_few ps c then count_error ps c else Returns (Inl (Host once_fn_called))) calls"
  by (induction calls) (auto simp: call_simps)

lemma run_calls_once:
  "length ps < 2 ^ 32 \<Longrightarrow> \<forall>c \<in> set calls. length (snd c) < 2 ^ 32 \<Longrightarrow>
   run_calls (rust_func_new_once ps f) calls =
     map (count_error ps) (takeWhile (too_few ps) calls) @
     (case dropWhile (too_few ps) calls of
        [] \<Rightarrow> []
      | c # cs \<Rightarrow>
          closure_answer ps f c #
          map (\<lambda>c. if too_few ps c then count_error ps c else Returns (Inl (Host once_fn_called))) cs)"
  by (induction calls) (auto simp: call_simps run_calls_spent)

text \<open>
  C15. A function whose optional parameters come after its regular ones never panics, however often JavaScript calls it
  and whatever the receivers and arguments of each call are: a call with fewer arguments than the function has regular
  parameters is answered by the argument-count error, and in any other call every regular parameter finds its argument,
  so that the answer is the first error of a conversion or else what the body returns for the converted arguments. A
  function that may be called once answers with the argument-count error until the first call that has enough arguments,
  which uses the function up: the body runs in that call if every parameter converts and otherwise never; every later
  call gets the argument-count error or the error of a function already called.\<close>

theorem host_call_never_panics:
  fixes ps :: "('o, 'r) parameter list" and f :: "'r argument list \<Rightarrow> 'c js_result"
  assumes "optionals_last ps" "length ps < 2 ^ 32" "\<forall>c \<in> set calls. length (snd c) < 2 ^ 32"
  shows "run_calls (rust_func_new ps f) calls =
      map (\<lambda>c. if too_few ps c then count_error ps c else closure_answer ps f c) calls \<and>
    run_calls (rust_func_new_once ps f) calls =
      map (count_error ps) (takeWhile (too_few ps) calls) @
      (case dropWhile (too_few ps) calls of
         [] \<Rightarrow> []
       | c # cs \<Rightarrow>
           closure_answer ps f c #
           map (\<lambda>c. if too_few ps c then count_error ps c else Returns (Inl (Host once_fn_called))) cs) \<and>
    Panics \<notin> set (run_calls (rust_func_new ps f) calls) \<and> Panics \<notin> set (run_calls (rust_func_new_once ps f) calls) \<and>
    (\<forall>c. \<not> too_few ps c \<longrightarrow>
       (\<exists>r. from_params_at ps (accessor_new (fst c) (snd c)) = Returns r \<and> closure_answer ps f c = Returns (js_bind r f)))"
proof -
  have a: "closure_answer ps f c \<noteq> Panics" if "\<not> too_few ps c" for c using closure_answers [OF assms(1) that, of f] by auto
  have e: "(count_error ps c :: 'c outcome) \<noteq> Panics" for c by (simp add: count_error_def)
  have "\<not> too_few ps c" if "c # cs = dropWhile (too_few ps) calls" for c cs
    using that [symmetric] hd_dropWhile [of "too_few ps" calls] by simp
  then have "Panics \<notin> set (run_calls (rust_func_new_once ps f) calls)"
    using a [symmetric] e [symmetric] by (auto simp: run_calls_once [OF assms(2,3)] split: list.splits)
  moreover have "Panics \<notin> set (run_calls (rust_func_new ps f) calls)"
    using a [symmetric] e [symmetric] by (auto simp: run_calls_mut [OF assms(2,3)])
  ultimately show ?thesis
    using run_calls_mut [OF assms(2,3)] run_calls_once [OF assms(2,3)] closure_answers [OF assms(1)] by blast
qed

text \<open>
  A function of a regular and an optional parameter that may be called once: a call without arguments leaves it whole, a
  call with \<^verbatim>\<open>null\<close> fails to convert and uses it up, and a good call afterwards comes too late.
\<close>

theorem host_call_never_panics_witness:
  "\<exists>e. run_calls (rust_func_new_once [Regular u32_from_js, Optional_Param u32_from_js] (\<lambda>xs. Inr (length xs)))
     [(js_create_undefined, [] :: unit qjs_value list), (js_create_undefined, [js_create_null]),
      (js_create_undefined, [qjs_from_u32 7])] =
   [Returns (Inl (Host (invalid_arg_count 1 0))), Returns (Inl e), Returns (Inl (Host once_fn_called))]"
  using host_call_never_panics [of "[Regular u32_from_js, Optional_Param u32_from_js]"
      "[(js_create_undefined, [] :: unit qjs_value list), (js_create_undefined, [js_create_null]),
        (js_create_undefined, [qjs_from_u32 7])]"
      "\<lambda>xs. Inr (length xs)"]
  by (simp add: too_few_def is_regular_def is_optional_def count_error_def closure_answer_def run_closure_def
      accessor_new_def set_last_param_def next_arg_def js_bind_def js_create_null_def owned_def
      u32_from_js_def convert_with_def qjs_to_u32_def)

text \<open>
  An optional parameter before a regular one breaks the guarantee: one argument passes the count check, the optional
  parameter consumes it, and the regular parameter panics.\<close>

lemma optional_before_regular_panics:
  "fst (rust_func_call (rust_func_new [Optional_Param u32_from_js, Regular u32_from_js] (\<lambda>xs. Inr (length xs)))
     (accessor_new js_create_undefined [qjs_from_u32 7 :: unit qjs_value])) = Panics"
  by (simp add: rust_func_call_def rust_func_new_def accessor_new_def is_regular_def run_closure_def next_arg_def
      set_last_param_def js_bind_def qjs_is_undefined_def qjs_from_u32_def owned_def Let_def
      u32_from_js_def convert_with_def qjs_to_u32_def)

end
