(* ===== verification/Invoke_Queue.thy ===== *)
theory Invoke_Queue
  imports Rong_Prelude "HOL-Library.Sublist"
begin

text \<open>
  The queue of JavaScript invocations of a context, \<^verbatim>\<open>core/src/invoke.rs\<close>: three queues by priority, events coalesced by
  key with the newest winning, and the loop that drains the channel in batches and runs one callback at a time. A
  callback is its identity; running it is an entry of the log.
\<close>

section \<open>The queues\<close>

datatype js_invoke_priority = High | Normal | Event

record 'c queue_item =
  qi_priority :: js_invoke_priority
  qi_dedup_key :: "string option"
  qi_generation :: u64
  qi_cb :: 'c

record 'c invoke_queue =
  q_high :: "'c queue_item list"
  q_norm :: "'c queue_item list"
  q_event :: "'c queue_item list"
  event_gen :: "string \<rightharpoonup> u64"
  next_gen :: u64

definition iq_init :: "'c invoke_queue" where
  "iq_init = \<lparr>q_high = [], q_norm = [], q_event = [], event_gen = Map.empty, next_gen = 1\<rparr>"

definition enqueue_item :: "'c queue_item \<Rightarrow> 'c invoke_queue \<Rightarrow> 'c invoke_queue" where
  "enqueue_item item q =
     (case qi_priority item of
        High \<Rightarrow> q\<lparr>q_high := q_high q @ [item]\<rparr>
      | Normal \<Rightarrow> q\<lparr>q_norm := q_norm q @ [item]\<rparr>
      | Event \<Rightarrow>
          (case qi_dedup_key item of
             Some key \<Rightarrow>
               (let generation = next_gen q in
                q\<lparr>next_gen := next_gen q + 1, event_gen := (event_gen q)(key \<mapsto> generation),
                  q_event := q_event q @ [item\<lparr>qi_generation := generation\<rparr>]\<rparr>)
           | None \<Rightarrow> q\<lparr>q_event := q_event q @ [item]\<rparr>))"

text \<open>An event is stale when a newer one with its key has been queued.\<close>

definition stale :: "(string \<rightharpoonup> u64) \<Rightarrow> 'c queue_item \<Rightarrow> bool" where
  "stale g ev =
     (case qi_dedup_key ev of
        None \<Rightarrow> False
      | Some key \<Rightarrow> (case g key of Some latest \<Rightarrow> qi_generation ev \<noteq> latest | None \<Rightarrow> False))"

fun pop_event :: "(string \<rightharpoonup> u64) \<Rightarrow> 'c queue_item list \<Rightarrow> 'c queue_item option \<times> 'c queue_item list" where
  "pop_event g [] = (None, [])"
| "pop_event g (ev # evs) = (if stale g ev then pop_event g evs else (Some ev, evs))"

definition dequeue_item :: "'c invoke_queue \<Rightarrow> 'c queue_item option \<times> 'c invoke_queue" where
  "dequeue_item q =
     (case q_high q of
        x # xs \<Rightarrow> (Some x, q\<lparr>q_high := xs\<rparr>)
      | [] \<Rightarrow>
          (case q_norm q of
             x # xs \<Rightarrow> (Some x, q\<lparr>q_norm := xs\<rparr>)
           | [] \<Rightarrow> (case pop_event (event_gen q) (q_event q) of (r, evs) \<Rightarrow> (r, q\<lparr>q_event := evs\<rparr>))))"

text \<open>The entry of a consumed event is removed, so the map does not grow with the keys ever used.\<close>

definition clean_generation :: "'c queue_item \<Rightarrow> 'c invoke_queue \<Rightarrow> 'c invoke_queue" where
  "clean_generation item q =
     (case qi_dedup_key item of
        None \<Rightarrow> q
      | Some key \<Rightarrow>
          if event_gen q key = Some (qi_generation item) then q\<lparr>event_gen := (event_gen q)(key := None)\<rparr> else q)"





section \<open>Termination of the loop\<close>

definition queued :: "'c invoke_queue \<Rightarrow> nat" where
  "queued q = length (q_high q) + length (q_norm q) + length (q_event q)"

lemma queued_enqueue [simp]: "queued (enqueue_item item q) = Suc (queued q)"
  by (simp add: queued_def enqueue_item_def Let_def split: js_invoke_priority.split option.split)

lemma queued_clean [simp]: "queued (clean_generation item q) = queued q"
  by (simp add: queued_def clean_generation_def split: option.split)








section \<open>What the queue promises\<close>

text \<open>
  The abstract queue: pending calls of each priority in the order they came, and for events at most one per key, the
  newest, at the place where it came.
\<close>

type_synonym 'c pending = "(string option \<times> 'c) list"

type_synonym 'c call = "js_invoke_priority \<times> string option \<times> 'c"

record 'c abstract_queue =
  aq_high :: "'c pending"
  aq_norm :: "'c pending"
  aq_event :: "'c pending"

fun spec_enqueue :: "'c call \<Rightarrow> 'c abstract_queue \<Rightarrow> 'c abstract_queue" where
  "spec_enqueue (High, k, c) a = a\<lparr>aq_high := aq_high a @ [(k, c)]\<rparr>"
| "spec_enqueue (Normal, k, c) a = a\<lparr>aq_norm := aq_norm a @ [(k, c)]\<rparr>"
| "spec_enqueue (Event, k, c) a =
     a\<lparr>aq_event := filter (\<lambda>(k', _). k = None \<or> k' \<noteq> k) (aq_event a) @ [(k, c)]\<rparr>"

fun spec_dequeue :: "'c abstract_queue \<Rightarrow> ('c call \<times> 'c abstract_queue) option" where
  "spec_dequeue a =
     (case aq_high a of
        c # cs \<Rightarrow> Some ((High, c), a\<lparr>aq_high := cs\<rparr>)
      | [] \<Rightarrow>
          (case aq_norm a of
             c # cs \<Rightarrow> Some ((Normal, c), a\<lparr>aq_norm := cs\<rparr>)
           | [] \<Rightarrow> (case aq_event a of c # es \<Rightarrow> Some ((Event, c), a\<lparr>aq_event := es\<rparr>) | [] \<Rightarrow> None)))"

definition ev_view :: "'c queue_item \<Rightarrow> string option \<times> 'c" where
  "ev_view ev = (qi_dedup_key ev, qi_cb ev)"

definition item_call :: "'c queue_item \<Rightarrow> 'c call" where
  "item_call item = (qi_priority item, qi_dedup_key item, qi_cb item)"

definition abs_queue :: "'c invoke_queue \<Rightarrow> 'c abstract_queue" where
  "abs_queue q =
     \<lparr>aq_high = map ev_view (q_high q), aq_norm = map ev_view (q_norm q),
      aq_event = map ev_view (filter (\<lambda>ev. \<not> stale (event_gen q) ev) (q_event q))\<rparr>"

text \<open>Keyed events carry growing generations below the next one, and the map knows a generation at least as new.\<close>

definition gens_ok :: "(string \<rightharpoonup> u64) \<Rightarrow> 'c queue_item list \<Rightarrow> bool" where
  "gens_ok g evs \<longleftrightarrow>
     sorted_wrt (<) (map qi_generation (filter (\<lambda>ev. qi_dedup_key ev \<noteq> None) evs)) \<and>
     (\<forall>ev \<in> set evs. \<forall>k. qi_dedup_key ev = Some k \<longrightarrow> (\<exists>latest. g k = Some latest \<and> qi_generation ev \<le> latest))"

definition iq_inv :: "'c invoke_queue \<Rightarrow> bool" where
  "iq_inv q \<longleftrightarrow>
     gens_ok (event_gen q) (q_event q) \<and> (\<forall>g \<in> ran (event_gen q). 0 < g \<and> g < next_gen q) \<and> 0 < next_gen q \<and>
     (\<forall>item \<in> set (q_high q) \<union> set (q_norm q). qi_generation item = 0) \<and>
     (\<forall>item \<in> set (q_high q). qi_priority item = High) \<and> (\<forall>item \<in> set (q_norm q). qi_priority item = Normal) \<and>
     (\<forall>item \<in> set (q_event q). qi_priority item = Event)"

lemma iq_inv_init: "iq_inv iq_init"
  by (simp add: iq_inv_def iq_init_def gens_ok_def)

lemma abs_init: "abs_queue iq_init = \<lparr>aq_high = [], aq_norm = [], aq_event = []\<rparr>"
  by (simp add: abs_queue_def iq_init_def)

lemma gens_ok_tail: "gens_ok g (ev # evs) \<Longrightarrow> gens_ok g evs"
  by (auto simp: gens_ok_def split: if_splits)

lemma pop_event_subset: "set (snd (pop_event g evs)) \<subseteq> set evs"
  by (induction evs) auto

text \<open>Popping skips the stale events and nothing else.\<close>

lemma pop_event_spec:
  assumes "gens_ok g evs"
  shows "case pop_event g evs of
      (None, rest) \<Rightarrow> rest = [] \<and> filter (\<lambda>ev. \<not> stale g ev) evs = []
    | (Some ev, rest) \<Rightarrow>
        \<not> stale g ev \<and> filter (\<lambda>ev. \<not> stale g ev) evs = ev # filter (\<lambda>ev. \<not> stale g ev) rest \<and> gens_ok g (ev # rest)"
  using assms
proof (induction evs)
  case (Cons ev evs)
  then show ?case using gens_ok_tail [OF Cons.prems] by (cases "stale g ev") (auto split: option.splits)
qed simp

text \<open>Once the newest event of a key is taken, no event of that key is left.\<close>

lemma taken_key_gone:
  assumes "gens_ok g (ev # rest)" "\<not> stale g ev" "qi_dedup_key ev = Some k" "x \<in> set rest"
  shows "qi_dedup_key x \<noteq> Some k"
proof
  assume k: "qi_dedup_key x = Some k"
  obtain latest where l: "g k = Some latest" "qi_generation x \<le> latest" using assms(1,4) k unfolding gens_ok_def by (metis list.set_intros(2))
  have "qi_generation ev = latest" using assms(2,3) l(1) by (simp add: stale_def)
  moreover have "qi_generation ev < qi_generation x"
    using assms(1,3,4) k by (auto simp: gens_ok_def)
  ultimately show False using l(2) by simp
qed

lemma stale_other_key: "qi_dedup_key x \<noteq> Some k \<Longrightarrow> stale (g(k := v)) x = stale g x"
  by (cases "qi_dedup_key x") (simp_all add: stale_def)

lemma enqueue_refines:
  assumes "iq_inv q" "unat (next_gen q) + 1 < 2 ^ 64" "qi_generation item = 0"
  shows "abs_queue (enqueue_item item q) = spec_enqueue (item_call item) (abs_queue q) \<and>
    iq_inv (enqueue_item item q) \<and> unat (next_gen (enqueue_item item q)) \<le> unat (next_gen q) + 1"
proof (cases "qi_priority item = Event \<and> qi_dedup_key item \<noteq> None")
  case False
  have "\<not> stale g item" if "qi_priority item = Event" for g using False that by (auto simp: stale_def)
  then show ?thesis using assms(1,3) False
    by (cases "qi_priority item")
      (auto simp: enqueue_item_def abs_queue_def item_call_def iq_inv_def gens_ok_def ev_view_def)
next
  case True
  then obtain k where k: "qi_dedup_key item = Some k" "qi_priority item = Event" by auto
  let ?n = "next_gen q" and ?g = "(event_gen q)(k \<mapsto> next_gen q)"
  let ?item = "item\<lparr>qi_generation := ?n\<rparr>"
  have q': "enqueue_item item q = q\<lparr>next_gen := ?n + 1, event_gen := ?g, q_event := q_event q @ [?item]\<rparr>"
    by (simp add: enqueue_item_def k Let_def)
  have lt: "qi_generation ev < ?n" if "ev \<in> set (q_event q)" "qi_dedup_key ev \<noteq> None" for ev
    using assms(1) that by (fastforce simp: iq_inv_def gens_ok_def ran_def)
  have st: "stale ?g ev \<longleftrightarrow> qi_dedup_key ev = Some k \<or> stale (event_gen q) ev" if "ev \<in> set (q_event q)" for ev
    using lt [OF that] by (cases "qi_dedup_key ev = Some k") (auto simp: stale_def stale_other_key split: option.splits)
  have "filter (\<lambda>ev. \<not> stale ?g ev) (q_event q) =
      filter (\<lambda>ev. qi_dedup_key ev \<noteq> Some k) (filter (\<lambda>ev. \<not> stale (event_gen q) ev) (q_event q))"
    by (auto simp: st intro: filter_cong)
  moreover have "\<not> stale ?g ?item" using k by (simp add: stale_def)
  ultimately have a: "abs_queue (enqueue_item item q) = spec_enqueue (Event, Some k, qi_cb item) (abs_queue q)"
    unfolding q' by (simp add: abs_queue_def ev_view_def k filter_map comp_def)
  have n: "unat (?n + 1) = unat ?n + 1" using assms(2) by (simp add: unat_word_ariths)
  have step: "?n < ?n + 1" using n by (simp add: word_less_nat_alt)
  have "gens_ok ?g (q_event q @ [?item])"
    using assms(1) lt unfolding iq_inv_def gens_ok_def
    by (auto simp: sorted_wrt_append k intro: less_imp_le)
  moreover have "0 < x \<and> x < ?n + 1" if "x \<in> ran ?g" for x
    using that assms(1) step by (auto simp: iq_inv_def ran_def split: if_splits intro: less_trans)
  ultimately have i: "iq_inv (enqueue_item item q)" 
    using assms(1) less_trans [OF _ step] unfolding q' by (simp add: iq_inv_def k)
  show ?thesis using a i n k unfolding q' by (simp add: item_call_def)
qed

lemma clean_plain:
  assumes "iq_inv q" "qi_generation item = 0"
  shows "clean_generation item q = q"
proof -
  have "event_gen q k \<noteq> Some 0" for k using assms(1) by (auto simp: iq_inv_def ran_def)
  then show ?thesis by (simp add: clean_generation_def assms(2) split: option.split)
qed

lemma clean_event:
  assumes "gens_ok g (ev # rest)" "\<not> stale g ev" "q_event q = rest" "event_gen q = g"
  shows "filter (\<lambda>x. \<not> stale (event_gen (clean_generation ev q)) x) rest = filter (\<lambda>x. \<not> stale g x) rest"
    "gens_ok (event_gen (clean_generation ev q)) rest" "ran (event_gen (clean_generation ev q)) \<subseteq> ran g"
proof -
  show "filter (\<lambda>x. \<not> stale (event_gen (clean_generation ev q)) x) rest = filter (\<lambda>x. \<not> stale g x) rest"
    using taken_key_gone [OF assms(1,2)] assms(4)
    by (auto simp: clean_generation_def stale_other_key split: option.split intro: filter_cong)
  show "gens_ok (event_gen (clean_generation ev q)) rest"
    using taken_key_gone [OF assms(1,2)] assms(4) gens_ok_tail [OF assms(1)]
    by (fastforce simp: clean_generation_def gens_ok_def split: option.split)
  show "ran (event_gen (clean_generation ev q)) \<subseteq> ran g"
    using assms(4) by (auto simp: clean_generation_def ran_def split: option.split if_splits)
qed

lemma clean_keeps [simp]:
  "q_high (clean_generation item q) = q_high q" "q_norm (clean_generation item q) = q_norm q"
  "q_event (clean_generation item q) = q_event q" "next_gen (clean_generation item q) = next_gen q"
  by (simp_all add: clean_generation_def split: option.split)

lemma dequeue_refines:
  assumes "iq_inv q" "dequeue_item q = (r, q')"
  shows "case r of
      None \<Rightarrow> spec_dequeue (abs_queue q) = None \<and> queued q' = 0
    | Some item \<Rightarrow>
        spec_dequeue (abs_queue q) = Some (item_call item, abs_queue (clean_generation item q')) \<and>
        iq_inv (clean_generation item q') \<and> next_gen (clean_generation item q') = next_gen q"
proof (cases "q_high q")
  case (Cons x xs)
  have i: "iq_inv (q\<lparr>q_high := xs\<rparr>)" using assms(1) Cons by (simp add: iq_inv_def)
  have x: "qi_generation x = 0" "qi_priority x = High" using assms(1) Cons by (simp_all add: iq_inv_def)
  from x(1) have "clean_generation x (q\<lparr>q_high := xs\<rparr>) = q\<lparr>q_high := xs\<rparr>" by (rule clean_plain [OF i])
  then show ?thesis using assms(2) Cons i x(2) by (auto simp: dequeue_item_def abs_queue_def item_call_def ev_view_def)
next
  case h: Nil
  show ?thesis
  proof (cases "q_norm q")
    case (Cons x xs)
    have i: "iq_inv (q\<lparr>q_norm := xs\<rparr>)" using assms(1) Cons by (simp add: iq_inv_def)
    have x: "qi_generation x = 0" "qi_priority x = Normal" using assms(1) Cons by (simp_all add: iq_inv_def)
    from x(1) have "clean_generation x (q\<lparr>q_norm := xs\<rparr>) = q\<lparr>q_norm := xs\<rparr>" by (rule clean_plain [OF i])
    then show ?thesis using assms(2) h Cons i x(2) by (auto simp: dequeue_item_def abs_queue_def item_call_def ev_view_def)
  next
    case n: Nil
    obtain s rest where p: "pop_event (event_gen q) (q_event q) = (s, rest)" by force
    have q': "r = s" "q' = q\<lparr>q_event := rest\<rparr>" using assms(2) h n p by (auto simp: dequeue_item_def)
    have g: "gens_ok (event_gen q) (q_event q)" using assms(1) by (simp add: iq_inv_def)
    show ?thesis
    proof (cases s)
      case None
      then show ?thesis using pop_event_spec [OF g] h n p q' by (simp add: abs_queue_def queued_def)
    next
      case (Some ev)
      have ev: "\<not> stale (event_gen q) ev" "gens_ok (event_gen q) (ev # rest)"
        "filter (\<lambda>ev. \<not> stale (event_gen q) ev) (q_event q) = ev # filter (\<lambda>ev. \<not> stale (event_gen q) ev) rest"
        using pop_event_spec [OF g] p Some by simp_all
      note c = clean_event [OF ev(2,1), of q']
      have "q_event q' = rest" "event_gen q' = event_gen q" "next_gen q' = next_gen q" "q_high q' = []" "q_norm q' = []"
        using q' h n by simp_all
      note e = this c [OF this(1,2)]
      have "iq_inv (clean_generation ev q')"
        using assms(1) e pop_event_subset [of "event_gen q" "q_event q"] p unfolding iq_inv_def by (auto simp: h n)
      moreover have "qi_priority ev = Event"
      proof -
        have "ev \<in> set (filter (\<lambda>ev. \<not> stale (event_gen q) ev) (q_event q))" unfolding ev(3) by simp
        then show ?thesis using assms(1) by (simp add: iq_inv_def)
      qed
      then have "spec_dequeue (abs_queue q) = Some (item_call ev, abs_queue (clean_generation ev q'))"
        by (simp add: abs_queue_def h n ev(3) e ev_view_def item_call_def)
      ultimately show ?thesis using e q' Some by simp
    qed
  qed
qed

section \<open>Runs of the queue\<close>

text \<open>An interleaving of arrivals and of turns that run a callback.\<close>

datatype 'c iq_op = Put "'c call" | Run

fun call_item :: "'c call \<Rightarrow> 'c queue_item" where
  "call_item (p, k, c) = \<lparr>qi_priority = p, qi_dedup_key = k, qi_generation = 0, qi_cb = c\<rparr>"

lemma call_item_simps [simp]: "item_call (call_item x) = x" "qi_generation (call_item x) = 0"
  by (cases x; simp add: item_call_def)+

fun run_ops :: "'c iq_op list \<Rightarrow> 'c invoke_queue \<Rightarrow> 'c call list \<times> 'c invoke_queue" where
  "run_ops [] q = ([], q)"
| "run_ops (Put x # ops) q = run_ops ops (enqueue_item (call_item x) q)"
| "run_ops (Run # ops) q =
     (case dequeue_item q of
        (None, q') \<Rightarrow> run_ops ops q'
      | (Some item, q') \<Rightarrow>
          (case run_ops ops (clean_generation item q') of (log, r) \<Rightarrow> (item_call item # log, r)))"

fun spec_run_ops :: "'c iq_op list \<Rightarrow> 'c abstract_queue \<Rightarrow> 'c call list \<times> 'c abstract_queue" where
  "spec_run_ops [] a = ([], a)"
| "spec_run_ops (Put x # ops) a = spec_run_ops ops (spec_enqueue x a)"
| "spec_run_ops (Run # ops) a =
     (case spec_dequeue a of
        None \<Rightarrow> spec_run_ops ops a
      | Some (x, a') \<Rightarrow> (case spec_run_ops ops a' of (log, r) \<Rightarrow> (x # log, r)))"

declare spec_dequeue.simps [simp del]

lemma dequeue_none:
  assumes "iq_inv q" "dequeue_item q = (None, q')"
  shows "spec_dequeue (abs_queue q) = None" "abs_queue q' = abs_queue q" "iq_inv q'" "next_gen q' = next_gen q"
proof -
  have h: "q_high q = []" "q_norm q = []" "pop_event (event_gen q) (q_event q) = (None, q_event q')"
    "q' = q\<lparr>q_event := q_event q'\<rparr>"
    using assms(2) by (auto simp: dequeue_item_def split: list.splits prod.splits)
  have g: "gens_ok (event_gen q) (q_event q)" using assms(1) by (simp add: iq_inv_def)
  have e: "q_event q' = []" "filter (\<lambda>ev. \<not> stale (event_gen q) ev) (q_event q) = []"
    using pop_event_spec [OF g] h(3) by simp_all
  have q': "q' = q\<lparr>q_event := []\<rparr>" using h(4) e(1) by simp
  show "spec_dequeue (abs_queue q) = None" using dequeue_refines [OF assms] by simp
  show "abs_queue q' = abs_queue q" "iq_inv q'" "next_gen q' = next_gen q"
    using assms(1) e(2) unfolding q' by (simp_all add: abs_queue_def iq_inv_def gens_ok_def)
qed

lemma run_ops_refines:
  assumes "iq_inv q" "unat (next_gen q) + length ops < 2 ^ 64"
  shows "map_prod id abs_queue (run_ops ops q) = spec_run_ops ops (abs_queue q)"
  using assms
proof (induction ops arbitrary: q)
  case (Cons op ops)
  show ?case
  proof (cases op)
    case (Put x)
    note e = enqueue_refines [OF Cons.prems(1), of "call_item x"]
    have "unat (next_gen q) + 1 < 2 ^ 64" using Cons.prems(2) by simp
    then show ?thesis using Put Cons.IH [of "enqueue_item (call_item x) q"] e Cons.prems(2) by simp
  next
    case Run
    obtain r q' where d: "dequeue_item q = (r, q')" by force
    show ?thesis
    proof (cases r)
      case None
      note n = dequeue_none [OF Cons.prems(1) d [unfolded None]]
      show ?thesis using Cons.IH [OF n(3)] n Cons.prems(2) by (simp add: Run d None)
    next
      case (Some item)
      have "map_prod id abs_queue (run_ops ops (clean_generation item q')) =
          spec_run_ops ops (abs_queue (clean_generation item q'))"
        using dequeue_refines [OF Cons.prems(1) d] Some Cons.prems(2) by (intro Cons.IH) simp_all
      then show ?thesis
        using dequeue_refines [OF Cons.prems(1) d] by (simp add: Run d Some split: prod.splits) auto
    qed
  qed
qed simp

text \<open>
  C11. The invocation queue implements the coalescing priority queue it is meant to be: for every interleaving of arrivals
  and of turns, the calls run, and the order in which they run, are those of a queue that serves high before normal
  before events, each first in first out, and keeps of the events with one key only the newest.\<close>

theorem invoke_queue_refines:
  assumes "length ops < 2 ^ 64 - 1"
  shows "map_prod id abs_queue (run_ops ops iq_init) = spec_run_ops ops \<lparr>aq_high = [], aq_norm = [], aq_event = []\<rparr>"
proof -
  have "unat (next_gen iq_init) + length ops < 2 ^ 64" using assms by (simp add: iq_init_def)
  from run_ops_refines [OF iq_inv_init this] show ?thesis by (simp add: abs_init)
qed

theorem invoke_queue_refines_witness:
  "fst (run_ops [Put (Event, Some ''k'', 1 :: nat), Put (Normal, None, 2), Put (Event, Some ''k'', 3), Put (High, None, 4),
      Run, Run, Run, Run] iq_init) = [(High, None, 4), (Normal, None, 2), (Event, Some ''k'', 3)]"
  using arg_cong [where f = fst, OF invoke_queue_refines [of "[Put (Event, Some ''k'', 1 :: nat), Put (Normal, None, 2),
      Put (Event, Some ''k'', 3), Put (High, None, 4), Run, Run, Run, Run]"]]
  by (simp add: spec_dequeue.simps)

section \<open>What the loop runs\<close>

definition of_prio :: "js_invoke_priority \<Rightarrow> 'c call list \<Rightarrow> 'c pending" where
  "of_prio p xs = map snd (filter (\<lambda>x. fst x = p) xs)"

definition of_key :: "string option \<Rightarrow> 'c pending \<Rightarrow> 'c pending" where
  "of_key k es = filter (\<lambda>e. fst e = k) es"

lemma of_prio_simps [simp]:
  "of_prio p [] = []" "of_prio p (xs @ ys) = of_prio p xs @ of_prio p ys"
  "of_prio p ((p', e) # xs) = (if p' = p then e # of_prio p xs else of_prio p xs)"
  by (simp_all add: of_prio_def)

lemma of_key_simps [simp]:
  "of_key k [] = []" "of_key k (xs @ ys) = of_key k xs @ of_key k ys"
  "of_key k (e # xs) = (if fst e = k then e # of_key k xs else of_key k xs)"
  by (simp_all add: of_key_def)



















end
