(* ===== verification/Js_Object.thy ===== *)
theory Js_Object
  imports Js_Value
begin

text \<open>
  Reading objects and arrays from Rust, \<^verbatim>\<open>core/src/value/object.rs\<close> and \<^verbatim>\<open>core/src/value/array.rs\<close>, over the primitive
  operations of the engine (\<^verbatim>\<open>JSObjectOps\<close>, \<^verbatim>\<open>JSArrayOps\<close>). The engine is a record of functions of an object's identity;
  an operation that throws gives the error the core makes of it. An index is the property of its decimal name.
\<close>

record 'o js_engine =
  je_to_cstring :: "'o js_raw \<Rightarrow> string option"
  je_f64_text :: "f64_value \<Rightarrow> string"
  je_has_property :: "'o \<Rightarrow> string \<Rightarrow> bool js_result"
  je_get_property :: "'o \<Rightarrow> string \<Rightarrow> 'o qjs_value option js_result"
  je_own_names :: "'o \<Rightarrow> string list js_result"
  je_array_len :: "'o \<Rightarrow> nat js_result"
  je_typed_bytes :: "'o \<Rightarrow> string option option"
  je_buffer_bytes :: "'o \<Rightarrow> string"
  je_is_signal :: "'o \<Rightarrow> bool"

section \<open>Objects\<close>

text \<open>The object behind a value, when it is one.\<close>

definition into_object :: "'o qjs_value \<Rightarrow> 'o option" where
  "into_object v = (case qv_value v of V_Object c x \<Rightarrow> Some x | _ \<Rightarrow> None)"

definition object_from_js :: "'o qjs_value \<Rightarrow> 'o js_result" where
  "object_from_js v = (case into_object v of Some x \<Rightarrow> Inr x | None \<Rightarrow> Inl (Host not_object))"

definition func_from_js :: "'o qjs_value \<Rightarrow> 'o js_result" where
  "func_from_js v = (if qjs_is_function v then object_from_js v else Inl (Host not_function))"

definition value_from_js :: "'o qjs_value \<Rightarrow> 'o qjs_value js_result" where
  "value_from_js v = Inr v"

definition obj_has_property :: "'o js_engine \<Rightarrow> 'o \<Rightarrow> string \<Rightarrow> bool js_result" where
  "obj_has_property e x k = je_has_property e x k"

text \<open>A property that reads as undefined is looked for again, so that a missing one can be told from one that is
  undefined.\<close>

definition obj_lookup :: "'o js_engine \<Rightarrow> 'o \<Rightarrow> string \<Rightarrow> 'o qjs_value option js_result" where
  "obj_lookup e x k =
     js_bind (je_get_property e x k) (\<lambda>value.
       case value of
         Some v \<Rightarrow>
           if \<not> qjs_is_undefined v then Inr (Some v)
           else js_bind (je_has_property e x k) (\<lambda>present. Inr (if present then Some v else None))
       | None \<Rightarrow>
           js_bind (je_has_property e x k) (\<lambda>present. Inr (if present then Some js_create_undefined else None)))"

definition obj_get :: "'o js_engine \<Rightarrow> ('o qjs_value \<Rightarrow> 't js_result) \<Rightarrow> 'o \<Rightarrow> string \<Rightarrow> 't js_result" where
  "obj_get e from x k =
     js_bind (obj_lookup e x k) (\<lambda>value.
       case value of None \<Rightarrow> Inl (Host (property_not_found k)) | Some v \<Rightarrow> from v)"

definition obj_get_opt :: "'o js_engine \<Rightarrow> ('o qjs_value \<Rightarrow> 't js_result) \<Rightarrow> 'o \<Rightarrow> string \<Rightarrow> 't option js_result" where
  "obj_get_opt e from x k =
     js_bind (obj_lookup e x k) (\<lambda>value.
       case value of None \<Rightarrow> Inr None | Some v \<Rightarrow> map_sum id Some (from v))"

fun collect :: "('a \<Rightarrow> 'b js_result) \<Rightarrow> 'a list \<Rightarrow> 'b list js_result" where
  "collect f [] = Inr []"
| "collect f (x # xs) = js_bind (f x) (\<lambda>y. js_bind (collect f xs) (\<lambda>ys. Inr (y # ys)))"

fun entries_loop :: "'o js_engine \<Rightarrow> 'o \<Rightarrow> string list \<Rightarrow> (string \<times> 'o qjs_value) list js_result" where
  "entries_loop e x [] = Inr []"
| "entries_loop e x (k # ks) =
     js_bind (je_get_property e x k) (\<lambda>value.
       js_bind (entries_loop e x ks) (\<lambda>rest.
         Inr (case value of Some v \<Rightarrow> (k, v) # rest | None \<Rightarrow> rest)))"

definition obj_entries :: "'o js_engine \<Rightarrow> 'o \<Rightarrow> (string \<times> 'o qjs_value) list js_result" where
  "obj_entries e x = js_bind (je_own_names e x) (entries_loop e x)"

definition obj_entries_as ::
  "'o js_engine \<Rightarrow> ('o qjs_value \<Rightarrow> 't js_result) \<Rightarrow> 'o \<Rightarrow> (string \<times> 't) list js_result" where
  "obj_entries_as e from x =
     js_bind (obj_entries e x) (collect (\<lambda>(k, v). js_bind (from v) (\<lambda>y. Inr (k, y))))"

section \<open>Arrays\<close>

definition array_from_object :: "'o qjs_value \<Rightarrow> 'o option" where
  "array_from_object v = (if qjs_is_array v then into_object v else None)"

definition array_len :: "'o js_engine \<Rightarrow> 'o \<Rightarrow> nat js_result" where
  "array_len e x = je_array_len e x"

definition array_get_value :: "'o js_engine \<Rightarrow> 'o \<Rightarrow> nat \<Rightarrow> 'o qjs_value js_result" where
  "array_get_value e x i =
     js_bind (je_get_property e x (string_of_nat i)) (\<lambda>v. Inr (case v of Some v \<Rightarrow> v | None \<Rightarrow> js_create_undefined))"

definition array_get_opt ::
  "'o js_engine \<Rightarrow> ('o qjs_value \<Rightarrow> 't js_result) \<Rightarrow> 'o \<Rightarrow> nat \<Rightarrow> 't option js_result" where
  "array_get_opt e from x i =
     js_bind (je_has_property e x (string_of_nat i)) (\<lambda>present.
       if \<not> present then Inr None
       else js_bind (array_get_value e x i) (\<lambda>v. map_sum id Some (from v)))"

definition array_iter_values :: "'o js_engine \<Rightarrow> 'o \<Rightarrow> 'o qjs_value js_result list js_result" where
  "array_iter_values e x = js_bind (array_len e x) (\<lambda>n. Inr (map (array_get_value e x) [0..<n]))"

section \<open>Lemmas\<close>

lemma js_bind_simps [simp]: "js_bind (Inl e) f = Inl e" "js_bind (Inr x) f = f x"
  by (simp_all add: js_bind_def)

lemma js_bind_Inr_iff: "js_bind r f = Inr y \<longleftrightarrow> (\<exists>x. r = Inr x \<and> f x = Inr y)"
  by (cases r) simp_all

lemma collect_Inr: "(\<And>x. x \<in> set xs \<Longrightarrow> f x = Inr (g x)) \<Longrightarrow> collect f xs = Inr (map g xs)"
  by (induction xs) simp_all

text \<open>A missing property is an error for one reader and nothing for the other; a present one that is undefined is a value
  for both.\<close>

lemma obj_get_missing:
  "je_get_property e x k = Inr None \<Longrightarrow> je_has_property e x k = Inr False \<Longrightarrow>
     obj_get e from x k = Inl (Host (property_not_found k)) \<and> obj_get_opt e from x k = Inr None"
  by (simp add: obj_get_def obj_get_opt_def obj_lookup_def)

lemma obj_get_agrees:
  "obj_get e from x k = Inr y \<Longrightarrow> obj_get_opt e from x k = Inr (Some y)"
  by (auto simp: obj_get_def obj_get_opt_def js_bind_Inr_iff split: option.splits)

end
