(* ===== verification/Posix_Words.thy ===== *)
theory Posix_Words
  imports Rust_String
begin

text \<open>
  How a POSIX shell splits a simple command into words, as the specification the escaping of \<^verbatim>\<open>rong_command\<close> is
  measured by: blanks separate words, single quotes hold everything, double quotes hold everything but the dollar, the
  backquote and the backslash, a backslash holds the next character. Anything the shell would interpret (an expansion,
  an operator, a comment, a pattern, a new line) is no list of plain words, the value \<^const>\<open>None\<close>.
\<close>

datatype quoting = Unquoted | Escaped | Single | Double | Double_Escaped

text \<open>Characters with no meaning to the shell outside quotes.\<close>

definition sh_plain :: "char \<Rightarrow> bool" where
  "sh_plain c \<longleftrightarrow>
     c \<notin> set ''|&;<>()$`*?[]#~=%!{}'' \<and> c \<notin> {CHR 0x09, CHR 0x0A, CHR 0x20, CHR 0x22, CHR 0x27, CHR 0x5C}"

definition sh_blank :: "char \<Rightarrow> bool" where "sh_blank c \<longleftrightarrow> c = CHR 0x20 \<or> c = CHR 0x09"
definition sh_quote :: char where "sh_quote = CHR 0x27"
definition sh_dquote :: char where "sh_dquote = CHR 0x22"
definition sh_backslash :: char where "sh_backslash = CHR 0x5C"
definition sh_expands :: "char \<Rightarrow> bool" where "sh_expands c \<longleftrightarrow> c = CHR ''$'' \<or> c = CHR ''`''"
definition sh_escapable :: "char \<Rightarrow> bool" where
  "sh_escapable c \<longleftrightarrow> sh_expands c \<or> c = sh_dquote \<or> c = sh_backslash"

lemmas sh_char_defs = sh_blank_def sh_quote_def sh_dquote_def sh_backslash_def sh_expands_def sh_escapable_def sh_plain_def

text \<open>The state between characters: the quoting, the word being read if one has begun, and the words read.\<close>

type_synonym sh_state = "quoting \<times> string option \<times> string list"

definition add_char :: "char \<Rightarrow> string option \<Rightarrow> string option" where
  "add_char c w = Some (case w of None \<Rightarrow> [c] | Some s \<Rightarrow> s @ [c])"

definition open_word :: "string option \<Rightarrow> string option" where
  "open_word w = Some (case w of None \<Rightarrow> [] | Some s \<Rightarrow> s)"

definition close_word :: "string option \<Rightarrow> string list \<Rightarrow> string list" where
  "close_word w ws = (case w of None \<Rightarrow> ws | Some s \<Rightarrow> ws @ [s])"

fun sh_step :: "char \<Rightarrow> sh_state \<Rightarrow> sh_state option" where
  "sh_step c (Unquoted, w, ws) =
     (if sh_blank c then Some (Unquoted, None, close_word w ws)
      else if c = sh_quote then Some (Single, open_word w, ws)
      else if c = sh_dquote then Some (Double, open_word w, ws)
      else if c = sh_backslash then Some (Escaped, open_word w, ws)
      else if sh_plain c then Some (Unquoted, add_char c w, ws)
      else None)"
| "sh_step c (Escaped, w, ws) = (if c = CHR 0x0A then None else Some (Unquoted, add_char c w, ws))"
| "sh_step c (Single, w, ws) = Some (if c = sh_quote then (Unquoted, w, ws) else (Single, add_char c w, ws))"
| "sh_step c (Double, w, ws) =
     (if c = sh_dquote then Some (Unquoted, w, ws)
      else if sh_expands c then None
      else if c = sh_backslash then Some (Double_Escaped, w, ws)
      else Some (Double, add_char c w, ws))"
| "sh_step c (Double_Escaped, w, ws) =
     Some (Double, if sh_escapable c then add_char c w else add_char c (add_char sh_backslash w), ws)"

fun sh_scan :: "string \<Rightarrow> sh_state \<Rightarrow> sh_state option" where
  "sh_scan [] st = Some st"
| "sh_scan (c # cs) st = (case sh_step c st of None \<Rightarrow> None | Some st' \<Rightarrow> sh_scan cs st')"

definition sh_words :: "string \<Rightarrow> string list option" where
  "sh_words s =
     (case sh_scan s (Unquoted, None, []) of Some (Unquoted, w, ws) \<Rightarrow> Some (close_word w ws) | _ \<Rightarrow> None)"

section \<open>Single-quoted text\<close>

text \<open>\<^verbatim>\<open>str::replace\<close> of one character.\<close>

definition replace_char :: "char \<Rightarrow> string \<Rightarrow> string \<Rightarrow> string" where
  "replace_char c r s = concat (map (\<lambda>x. if x = c then r else [x]) s)"

lemma sh_chars [simp]:
  "\<not> sh_blank sh_quote" "\<not> sh_blank sh_backslash" "sh_backslash \<noteq> sh_quote" "sh_quote \<noteq> sh_backslash"
  "sh_dquote \<noteq> sh_quote" "sh_quote \<noteq> sh_dquote" "sh_backslash \<noteq> sh_dquote" "sh_quote \<noteq> CHR 0x0A" "sh_blank (CHR 0x20)"
  by (simp_all add: sh_char_defs)

lemma replace_char_simps [simp]:
  "replace_char c r [] = []" "replace_char c r (x # s) = (if x = c then r else [x]) @ replace_char c r s"
  by (simp_all add: replace_char_def)

lemma add_char_some [simp]: "add_char c (Some s) = Some (s @ [c])"
  by (simp add: add_char_def)

lemma scan_quoted_body:
  "sh_scan (replace_char sh_quote [sh_quote, sh_backslash, sh_quote, sh_quote] s @ sh_quote # rest) (Single, Some w, ws) =
   sh_scan rest (Unquoted, Some (w @ s), ws)"
  by (induction s arbitrary: w) (simp_all add: open_word_def)

text \<open>
  What a quoting promises: quoted text adds exactly itself to the word that is being read, wherever it stands outside
  quotes. Words quoted one by one are read back as they are.
\<close>

lemma sh_scan_append: "sh_scan a st = Some st' \<Longrightarrow> sh_scan (a @ b) st = sh_scan b st'"
  by (induction a arbitrary: st) (auto split: option.splits)

text \<open>Texts put at a place outside quotes, separated by blanks: the first continues the word of the place, the last stays open.\<close>

fun words_at :: "string list \<Rightarrow> string option \<Rightarrow> string list \<Rightarrow> sh_state" where
  "words_at [] w ws = (Unquoted, w, ws)"
| "words_at [s] w ws = (Unquoted, Some ((case w of None \<Rightarrow> [] | Some v \<Rightarrow> v) @ s), ws)"
| "words_at (s # t # ss) w ws = words_at (t # ss) None (ws @ [(case w of None \<Rightarrow> [] | Some v \<Rightarrow> v) @ s])"

locale literal_quoting =
  fixes quote :: "string \<Rightarrow> string"
  assumes scan_quote: "sh_scan (quote s @ rest) (Unquoted, w, ws) =
    sh_scan rest (Unquoted, Some ((case w of None \<Rightarrow> [] | Some v \<Rightarrow> v) @ s), ws)"
begin

lemma scan_quoted_words:
  "sh_scan (join_with '' '' (map quote (s # ss))) (Unquoted, None, ws) =
   Some (Unquoted, Some (last (s # ss)), ws @ butlast (s # ss))"
proof (induction ss arbitrary: s ws)
  case Nil
  then show ?case using scan_quote [of s "[]"] by simp
next
  case (Cons t ss)
  have "sh_scan (quote s @ '' '' @ join_with '' '' (map quote (t # ss))) (Unquoted, None, ws) =
      sh_scan (join_with '' '' (map quote (t # ss))) (Unquoted, None, ws @ [s])"
    by (simp add: scan_quote close_word_def)
  then show ?case using Cons.IH [of t "ws @ [s]"] by simp
qed

text \<open>Quoted words after a command that leaves no quote open are its last words.\<close>

lemma words_of_command:
  assumes "sh_scan c (Unquoted, None, []) = Some (Unquoted, w, ws)"
  shows "sh_words (c @ '' '' @ join_with '' '' (map quote ss)) = Some (close_word w ws @ ss)"
proof -
  have s: "sh_scan (c @ '' '' @ join_with '' '' (map quote ss)) (Unquoted, None, []) =
      sh_scan (join_with '' '' (map quote ss)) (Unquoted, None, close_word w ws)"
    using sh_scan_append [OF assms] by simp
  show ?thesis
  proof (cases ss)
    case Nil
    then show ?thesis using s by (simp add: sh_words_def close_word_def)
  next
    case (Cons x xs)
    show ?thesis unfolding sh_words_def s unfolding Cons scan_quoted_words
      by (simp add: close_word_def del: last.simps butlast.simps)
  qed
qed

lemma words_of_quoted: "sh_words (join_with '' '' (map quote ss)) = Some ss"
proof (cases ss)
  case Nil
  then show ?thesis by (simp add: sh_words_def close_word_def)
next
  case (Cons s ts)
  show ?thesis unfolding Cons sh_words_def scan_quoted_words [of s ts "[]"]
    by (simp add: close_word_def del: last.simps butlast.simps)
qed

lemma quoted_place:
  assumes "sh_scan c st = Some (Unquoted, w, ws)"
  shows "sh_scan (c @ quote t) st = Some (Unquoted, Some ((case w of None \<Rightarrow> [] | Some v \<Rightarrow> v) @ t), ws)"
  using scan_quote [of t "[]" w ws] by (simp add: sh_scan_append [OF assms])

lemma quoted_words_at: "sh_scan (join_with '' '' (map quote ss)) (Unquoted, w, ws) = Some (words_at ss w ws)"
proof (induction ss w ws rule: words_at.induct)
  case (2 s w ws)
  show ?case using scan_quote [of s "[]"] by simp
next
  case (3 s t ss w ws)
  then show ?case by (simp add: scan_quote close_word_def)
qed simp

end

end
