(* ===== verification/Child_Process.thy ===== *)
theory Child_Process
  imports Js_Object Posix_Words
begin

text \<open>
  Processes of \<^verbatim>\<open>modules/rong_command\<close>: the authority of \<^verbatim>\<open>lib.rs\<close>, and \<^verbatim>\<open>child_process.rs\<close> with the options of a spawn,
  the handle of a child, the command given to the system, the loop that waits for the output of \<^verbatim>\<open>exec\<close> and the task
  that watches a spawned child. The Unix variants are modelled. The operating system answers through arguments: what
  one turn of a loop sees is an element of a list, and the signals sent are a log.
\<close>

section \<open>Authority\<close>

text \<open>What the installed authority answers at a moment: \<^const>\<open>None\<close> when none is installed, and otherwise a refusal or
  leave.\<close>

type_synonym authority = "(string + unit) option"

definition authorize_process_with :: "string + unit \<Rightarrow> unit js_result" where
  "authorize_process_with a = (case a of Inl m \<Rightarrow> Inl (Host (he_new E_PERMISSION_DENIED m)) | Inr _ \<Rightarrow> Inr ())"

definition authorize_installed_process :: "authority \<Rightarrow> unit js_result" where
  "authorize_installed_process a = (case a of Some x \<Rightarrow> authorize_process_with x | None \<Rightarrow> Inr ())"

definition authorize_process :: "authority \<Rightarrow> unit js_result" where
  "authorize_process a = authorize_installed_process a"

definition revoked :: "authority \<Rightarrow> bool" where
  "revoked a \<longleftrightarrow> (\<exists>m. a = Some (Inl m))"

lemma revoked_code [code]: "revoked a = (case a of Some (Inl m) \<Rightarrow> True | _ \<Rightarrow> False)"
  by (auto simp: revoked_def split: option.split sum.split)

text \<open>A context is sealed once: the service slot, the answer of the new authority, and the installation of the names.\<close>

definition init_with_authority ::
  "'a option \<Rightarrow> ('a \<Rightarrow> string + unit) \<Rightarrow> 'a \<Rightarrow> unit js_result \<Rightarrow> unit js_result \<times> 'a option" where
  "init_with_authority service authorize a install =
     (case service of
        Some _ \<Rightarrow>
          (Inl (Host (he_new E_ALREADY_EXISTS ''process authority is already sealed for this context'')), service)
      | None \<Rightarrow>
          (case authorize a of
             Inl m \<Rightarrow> (Inl (Host (he_new E_PERMISSION_DENIED m)), service)
           | Inr _ \<Rightarrow> (install, Some a)))"

text \<open>Each poll of a pipe asks the authority first.\<close>

definition authority_io_poll :: "authority \<Rightarrow> (string + 't) \<Rightarrow> string + 't" where
  "authority_io_poll a inner = (case a of Some (Inl m) \<Rightarrow> Inl m | _ \<Rightarrow> inner)"

section \<open>Options of a spawn\<close>

record spawn_options =
  so_cwd :: "string option"
  so_env :: "(string \<rightharpoonup> string) option"
  so_shell :: "bool option"
  so_timeout :: "u64 option"

definition spawn_options_default :: spawn_options where
  "spawn_options_default = \<lparr>so_cwd = None, so_env = None, so_shell = None, so_timeout = None\<rparr>"

definition te :: "string \<Rightarrow> rong_js_error" where
  "te m = Host (type_error E_TYPE m)"

text \<open>\<^verbatim>\<open>map_err\<close> with a type error.\<close>

definition or_type_error :: "string \<Rightarrow> 't js_result \<Rightarrow> 't js_result" where
  "or_type_error m r = (case r of Inr x \<Rightarrow> Inr x | Inl _ \<Rightarrow> Inl (te m))"

definition js_string :: "'o js_engine \<Rightarrow> 'o qjs_value \<Rightarrow> string js_result" where
  "js_string e = string_from_js (je_to_cstring e)"

text \<open>The check of a timeout: finite, not negative, cut to whole milliseconds.\<close>

definition timeout_of_f64 :: "f64_value \<Rightarrow> u64 js_result" where
  "timeout_of_f64 x =
     (case x of
        F64_Fin m ex \<Rightarrow>
          if m < 0 then Inl (te ''options.timeout must be a non-negative number'') else Inr (f64_as_u64 x)
      | _ \<Rightarrow> Inl (te ''options.timeout must be a non-negative number''))"

text \<open>A property that is read only when it is present.\<close>

definition when_present ::
  "'o js_engine \<Rightarrow> 'o \<Rightarrow> string \<Rightarrow> ('s \<Rightarrow> 's js_result) \<Rightarrow> 's \<Rightarrow> 's js_result" where
  "when_present e x k f s = js_bind (obj_has_property e x k) (\<lambda>present. if present then f s else Inr s)"

definition spawn_options_from_js :: "'o js_engine \<Rightarrow> 'o \<Rightarrow> spawn_options js_result" where
  "spawn_options_from_js e x =
     js_bind
       (when_present e x ''cwd'' (\<lambda>s.
          js_bind (or_type_error ''options.cwd must be a string'' (obj_get e (js_string e) x ''cwd''))
            (\<lambda>cwd. Inr (s\<lparr>so_cwd := Some cwd\<rparr>))) spawn_options_default) (\<lambda>s.
     js_bind
       (when_present e x ''shell'' (\<lambda>s.
          js_bind (or_type_error ''options.shell must be a boolean'' (obj_get e bool_from_js x ''shell''))
            (\<lambda>b. Inr (s\<lparr>so_shell := Some b\<rparr>))) s) (\<lambda>s.
     js_bind
       (when_present e x ''env'' (\<lambda>s.
          js_bind (or_type_error ''options.env must be an object of string values'' (obj_get e object_from_js x ''env''))
            (\<lambda>env. js_bind (or_type_error ''options.env must be an object of string values''
                      (obj_entries_as e (js_string e) env))
               (\<lambda>es. Inr (s\<lparr>so_env := Some (map_of (rev es))\<rparr>)))) s) (\<lambda>s.
     when_present e x ''timeout'' (\<lambda>s.
       js_bind (or_type_error ''options.timeout must be a non-negative number'' (obj_get e f64_from_js x ''timeout''))
         (\<lambda>t. js_bind (timeout_of_f64 t) (\<lambda>ms. Inr (s\<lparr>so_timeout := Some ms\<rparr>)))) s)))"

section \<open>The handle of a child\<close>

record child_process =
  cp_pid :: "nat option"
  cp_exit_code :: "int option"
  cp_exited :: bool
  cp_killed :: bool

definition child_process_new :: child_process where
  "child_process_new = \<lparr>cp_pid = None, cp_exit_code = None, cp_exited = False, cp_killed = False\<rparr>"

definition cp_authorize :: "authority \<Rightarrow> unit js_result" where
  "cp_authorize a = (case a of Some x \<Rightarrow> authorize_process_with x | None \<Rightarrow> Inr ())"

definition get_pid :: "authority \<Rightarrow> child_process \<Rightarrow> nat option js_result" where
  "get_pid a c = js_bind (cp_authorize a) (\<lambda>_. Inr (cp_pid c))"
definition get_exit_code :: "authority \<Rightarrow> child_process \<Rightarrow> int option js_result" where
  "get_exit_code a c = js_bind (cp_authorize a) (\<lambda>_. Inr (cp_exit_code c))"
definition get_killed :: "authority \<Rightarrow> child_process \<Rightarrow> bool js_result" where
  "get_killed a c = js_bind (cp_authorize a) (\<lambda>_. Inr (cp_killed c))"
definition get_signal_code :: "authority \<Rightarrow> int option js_result" where
  "get_signal_code a = js_bind (cp_authorize a) (\<lambda>_. Inr None)"
definition get_success :: "authority \<Rightarrow> child_process \<Rightarrow> bool js_result" where
  "get_success a c = js_bind (cp_authorize a) (\<lambda>_. Inr (cp_exit_code c = Some 0))"
definition cp_unref :: "authority \<Rightarrow> unit js_result" where
  "cp_unref a = cp_authorize a"

datatype signal =
    SIGTERM | SIGKILL | SIGINT | SIGHUP | SIGUSR1 | SIGUSR2 | SIGQUIT | SIGSTOP | SIGCONT | Sig_Number int

text \<open>\<^verbatim>\<open>parse::<i32>\<close> is an argument; the names are those the match lists.\<close>

definition named_signals :: "(string \<times> signal) list" where
  "named_signals =
     [(''TERM'', SIGTERM), (''KILL'', SIGKILL), (''INT'', SIGINT), (''HUP'', SIGHUP), (''USR1'', SIGUSR1),
      (''USR2'', SIGUSR2), (''QUIT'', SIGQUIT), (''STOP'', SIGSTOP), (''CONT'', SIGCONT)]"

definition signal_of :: "(string \<Rightarrow> int option) \<Rightarrow> string option \<Rightarrow> signal option" where
  "signal_of parse_i32 name =
     (case name of
        None \<Rightarrow> Some SIGTERM
      | Some s \<Rightarrow>
          (case strip_prefix ''SIG'' s of
             Some stripped \<Rightarrow> map_of named_signals stripped
           | None \<Rightarrow> map_option Sig_Number (parse_i32 s)))"

datatype os_event = Sent_Signal nat signal | Start_Kill | Kill_Group nat | Kill_On_Drop "nat option"

text \<open>Sending a signal succeeds or not as the system says.\<close>

definition kill_unchecked ::
  "(string \<Rightarrow> int option) \<Rightarrow> bool \<Rightarrow> string option \<Rightarrow> child_process \<Rightarrow> bool \<times> child_process \<times> os_event list" where
  "kill_unchecked parse_i32 sent name c =
     (case cp_pid c of
        None \<Rightarrow> (False, c, [])
      | Some pid \<Rightarrow>
          (case signal_of parse_i32 name of
             None \<Rightarrow> (False, c, [])
           | Some sig \<Rightarrow> (sent, if sent then c\<lparr>cp_killed := True\<rparr> else c, [Sent_Signal pid sig])))"

definition cp_kill ::
  "(string \<Rightarrow> int option) \<Rightarrow> authority \<Rightarrow> bool \<Rightarrow> string option \<Rightarrow> child_process \<Rightarrow>
     bool js_result \<times> child_process \<times> os_event list" where
  "cp_kill parse_i32 a sent name c =
     (case cp_authorize a of
        Inl err \<Rightarrow> (Inl err, c, [])
      | Inr _ \<Rightarrow> (case kill_unchecked parse_i32 sent name c of (b, c', ev) \<Rightarrow> (Inr b, c', ev)))"

section \<open>The command\<close>

definition shell_escape :: "string \<Rightarrow> string" where
  "shell_escape s = (if s = [] then [sh_quote, sh_quote]
      else [sh_quote] @ replace_char sh_quote [sh_quote, sh_backslash, sh_quote, sh_quote] s @ [sh_quote])"

datatype stdio = Piped | Null | Inherited

record os_command =
  oc_program :: string
  oc_args :: "string list"
  oc_cwd :: "string option"
  oc_env :: "(string \<rightharpoonup> string) option"
  oc_stdin :: stdio
  oc_stdout :: stdio
  oc_stderr :: stdio
  oc_own_group :: bool

definition build_command :: "string \<Rightarrow> string list \<Rightarrow> spawn_options \<Rightarrow> bool \<Rightarrow> os_command" where
  "build_command command args options use_shell =
     \<lparr>oc_program = (if use_shell then ''sh'' else command),
      oc_args =
        (if use_shell
         then [''-c'', if args = [] then command else command @ '' '' @ join_with '' '' (map shell_escape args)]
         else args),
      oc_cwd = so_cwd options, oc_env = so_env options,
      oc_stdin = Piped, oc_stdout = Piped, oc_stderr = Piped, oc_own_group = True\<rparr>"

fun string_elements :: "'o js_engine \<Rightarrow> string \<Rightarrow> 'o \<Rightarrow> nat list \<Rightarrow> string list js_result" where
  "string_elements e m x [] = Inr []"
| "string_elements e m x (i # is) =
     js_bind (array_get_opt e (js_string e) x i) (\<lambda>v.
       case v of
         None \<Rightarrow> Inl (te m)
       | Some s \<Rightarrow> js_bind (string_elements e m x is) (\<lambda>ss. Inr (s # ss)))"

definition parse_args :: "'o js_engine \<Rightarrow> 'o qjs_value option \<Rightarrow> string list js_result" where
  "parse_args e args =
     (case args of
        None \<Rightarrow> Inr []
      | Some v \<Rightarrow>
          if qjs_is_null v \<or> qjs_is_undefined v then Inr []
          else
            (case array_from_object v of
               Some x \<Rightarrow> js_bind (array_len e x) (\<lambda>n. string_elements e ''args must be an array of strings'' x [0..<n])
             | None \<Rightarrow> Inl (te ''args must be an array of strings'')))"

section \<open>Leases and termination\<close>

text \<open>The lease on a process tree: dropping it kills the group unless it has been disarmed.\<close>

type_synonym process_lease = "nat option"

definition lease_new :: "nat option \<Rightarrow> process_lease" where "lease_new pid = pid"
definition lease_disarm :: "process_lease \<Rightarrow> process_lease" where "lease_disarm l = None"
definition kill_process_tree_by_pid :: "nat \<Rightarrow> os_event list" where "kill_process_tree_by_pid pid = [Kill_Group pid]"
definition lease_drop :: "process_lease \<Rightarrow> os_event list" where
  "lease_drop l = (case l of None \<Rightarrow> [] | Some pid \<Rightarrow> kill_process_tree_by_pid pid)"

definition terminate_child_process_tree :: "nat option \<Rightarrow> os_event list" where
  "terminate_child_process_tree pid = Start_Kill # (case pid of Some p \<Rightarrow> [Kill_Group p] | None \<Rightarrow> [])"

section \<open>Waiting for the output\<close>

text \<open>What one turn of a waiting loop sees: the authority, the milliseconds since the start, and the answer of
  \<^verbatim>\<open>try_wait\<close> (an error, an exit status, or that the child still runs).\<close>

record poll_view =
  pv_authority :: authority
  pv_elapsed :: nat
  pv_try_wait :: "string + int option option"

definition timed_out :: "u64 option \<Rightarrow> nat \<Rightarrow> bool" where
  "timed_out timeout elapsed = (case timeout of Some ms \<Rightarrow> unat ms \<le> elapsed | None \<Rightarrow> False)"

text \<open>The loop of \<^verbatim>\<open>run_command_with_output\<close>: the status or an error, with the signals sent, the drop of the lease
  included; \<^const>\<open>None\<close> while it waits. The result of a status is the two outputs as the reading tasks give them.\<close>

fun output_loop ::
  "nat option \<Rightarrow> u64 option \<Rightarrow> poll_view list \<Rightarrow> process_lease \<Rightarrow> (int option js_result \<times> os_event list) option" where
  "output_loop pid timeout [] lease = None"
| "output_loop pid timeout (v # vs) lease =
     (case pv_authority v of
        Some (Inl m) \<Rightarrow>
          Some (Inl (Host (he_new E_PERMISSION_DENIED m)),
                terminate_child_process_tree pid @ lease_drop (lease_disarm lease))
      | _ \<Rightarrow>
          if timed_out timeout (pv_elapsed v)
          then Some (Inl (Host (he_new E_TIMEOUT ''Command timed out'')),
                     terminate_child_process_tree pid @ lease_drop (lease_disarm lease))
          else
            (case pv_try_wait v of
               Inl m \<Rightarrow> Some (Inl (Host (he_new E_IO m)), lease_drop lease)
             | Inr (Some status) \<Rightarrow> Some (Inr status, lease_drop (lease_disarm lease))
             | Inr None \<Rightarrow> output_loop pid timeout vs lease))"

text \<open>A reading task fails to join or gives an I/O error or the bytes.\<close>

definition task_bytes :: "(string + (string + string)) \<Rightarrow> string js_result" where
  "task_bytes r =
     (case r of
        Inl m \<Rightarrow> Inl (Host (he_new E_INTERNAL m))
      | Inr (Inl m) \<Rightarrow> Inl (Host (he_new E_IO m))
      | Inr (Inr bytes) \<Rightarrow> Inr bytes)"

definition run_command_with_output ::
  "nat option \<Rightarrow> u64 option \<Rightarrow> poll_view list \<Rightarrow> (string + (string + string)) \<Rightarrow> (string + (string + string)) \<Rightarrow>
     ((int option \<times> string \<times> string) js_result \<times> os_event list) option" where
  "run_command_with_output pid timeout views out err =
     map_option (\<lambda>(r, ev).
         (js_bind r (\<lambda>status. js_bind (task_bytes out) (\<lambda>o_bytes. js_bind (task_bytes err) (\<lambda>e_bytes.
            Inr (status, o_bytes, e_bytes)))), ev))
       (output_loop pid timeout views (lease_new pid))"

record exec_result =
  er_stdout :: string
  er_stderr :: string
  er_code :: "int option"

text \<open>The process environment of the child: the option's, or what \<^verbatim>\<open>Rong.env\<close> holds.\<close>

definition get_process_env :: "'o js_engine \<Rightarrow> 'o option \<Rightarrow> (string \<rightharpoonup> string) option" where
  "get_process_env e rong_env =
     (case rong_env of
        None \<Rightarrow> None
      | Some x \<Rightarrow>
          Some (case obj_entries_as e (js_string e) x of Inr es \<Rightarrow> map_of (rev es) | Inl _ \<Rightarrow> Map.empty))"

definition native_options ::
  "'o js_engine \<Rightarrow> 'o option \<Rightarrow> 'o option \<Rightarrow> spawn_options js_result" where
  "native_options e rong_env options =
     js_bind (case options of Some x \<Rightarrow> spawn_options_from_js e x | None \<Rightarrow> Inr spawn_options_default) (\<lambda>o1.
       Inr (if so_env o1 = None then o1\<lparr>so_env := get_process_env e rong_env\<rparr> else o1))"

definition exec_command :: "string \<Rightarrow> spawn_options \<Rightarrow> os_command" where
  "exec_command command opts =
     \<lparr>oc_program = ''sh'', oc_args = [''-c'', command], oc_cwd = so_cwd opts, oc_env = so_env opts,
      oc_stdin = Inherited, oc_stdout = Piped, oc_stderr = Piped, oc_own_group = True\<rparr>"

text \<open>What the system does with a command: it fails to start, or there is a process with what its loop will see and its
  outputs.\<close>

record process_run =
  pn_pid :: "nat option"
  pn_views :: "poll_view list"
  pn_stdout :: "string + (string + string)"
  pn_stderr :: "string + (string + string)"

definition exec_native ::
  "'o js_engine \<Rightarrow> authority \<Rightarrow> 'o option \<Rightarrow> (os_command \<Rightarrow> string + process_run) \<Rightarrow> string \<Rightarrow> 'o option \<Rightarrow>
     (exec_result js_result \<times> os_event list) option" where
  "exec_native e a rong_env os command options =
     (case authorize_process a of
        Inl err \<Rightarrow> Some (Inl err, [])
      | Inr _ \<Rightarrow>
          (case native_options e rong_env options of
             Inl err \<Rightarrow> Some (Inl err, [])
           | Inr opts \<Rightarrow>
               (case os (exec_command command opts) of
                  Inl m \<Rightarrow> Some (Inl (Host (he_new E_IO m)), [])
                | Inr p \<Rightarrow>
                    map_option (\<lambda>(r, ev).
                        (js_bind r (\<lambda>(status, out, err).
                           Inr \<lparr>er_stdout = from_utf8_lossy out, er_stderr = from_utf8_lossy err, er_code = status\<rparr>), ev))
                      (run_command_with_output (pn_pid p) (so_timeout opts) (pn_views p) (pn_stdout p) (pn_stderr p)))))"

section \<open>The watching task of a spawned child\<close>

text \<open>
  The task's state: the handle it shares, whether it has been polled, its lease, the exits it has announced and the
  signals sent to the child. The lease is made by the first poll.
\<close>

record watch =
  wt_child :: child_process
  wt_started :: bool
  wt_lease :: process_lease
  wt_exits :: "int option list"
  wt_events :: "os_event list"
  wt_done :: bool

definition emit_exit :: "int option \<Rightarrow> watch \<Rightarrow> watch" where
  "emit_exit code w =
     w\<lparr>wt_child := (wt_child w)\<lparr>cp_exit_code := code, cp_exited := True\<rparr>, wt_exits := wt_exits w @ [code]\<rparr>"

text \<open>The end of the task drops the lease, and then the child, which is spawned with \<^verbatim>\<open>kill_on_drop\<close>: one that has not been
  reaped is killed, by itself.\<close>

definition end_watch :: "bool \<Rightarrow> watch \<Rightarrow> watch" where
  "end_watch reaped w =
     w\<lparr>wt_events := wt_events w @ lease_drop (wt_lease w) @ (if reaped then [] else [Kill_On_Drop (cp_pid (wt_child w))]),
       wt_lease := None, wt_done := True\<rparr>"

definition watch_begin :: "watch \<Rightarrow> watch" where
  "watch_begin w = (if wt_started w then w else w\<lparr>wt_started := True, wt_lease := lease_new (cp_pid (wt_child w))\<rparr>)"

definition watch_turn :: "u64 option \<Rightarrow> poll_view \<Rightarrow> watch \<Rightarrow> watch" where
  "watch_turn timeout v w =
     (let w = watch_begin w;
          w =
        (if revoked (pv_authority v) \<or> timed_out timeout (pv_elapsed v)
         then w\<lparr>wt_child := (wt_child w)\<lparr>cp_killed := True\<rparr>,
                wt_events := wt_events w @ terminate_child_process_tree (cp_pid (wt_child w))\<rparr>
         else w) in
      case pv_try_wait v of
        Inr (Some code) \<Rightarrow> end_watch True (emit_exit code (w\<lparr>wt_lease := lease_disarm (wt_lease w)\<rparr>))
      | Inl _ \<Rightarrow> end_watch False (emit_exit None w)
      | Inr None \<Rightarrow> w)"

text \<open>
  What happens to the task and its handle, in any order: a turn of the loop, a call of \<^verbatim>\<open>kill\<close> on the handle, and the end of
  the task between two turns (or before the first) when its context is shut down.
\<close>

datatype watch_event = Turn poll_view | Kill_Call authority bool "string option" | Task_Dropped

definition watch_event_step :: "(string \<Rightarrow> int option) \<Rightarrow> u64 option \<Rightarrow> watch_event \<Rightarrow> watch \<Rightarrow> watch" where
  "watch_event_step parse_i32 timeout ev w =
     (case ev of
        Turn v \<Rightarrow> if wt_done w then w else watch_turn timeout v w
      | Kill_Call a sent name \<Rightarrow>
          (case cp_kill parse_i32 a sent name (wt_child w) of
             (_, c, evs) \<Rightarrow> w\<lparr>wt_child := c, wt_events := wt_events w @ evs\<rparr>)
      | Task_Dropped \<Rightarrow> if wt_done w then w else end_watch False w)"

fun watch_run :: "(string \<Rightarrow> int option) \<Rightarrow> u64 option \<Rightarrow> watch_event list \<Rightarrow> watch \<Rightarrow> watch" where
  "watch_run parse_i32 timeout [] w = w"
| "watch_run parse_i32 timeout (ev # evs) w = watch_run parse_i32 timeout evs (watch_event_step parse_i32 timeout ev w)"

definition watch_start :: "nat option \<Rightarrow> watch" where
  "watch_start pid =
     \<lparr>wt_child = child_process_new\<lparr>cp_pid := pid\<rparr>, wt_started = False, wt_lease = None, wt_exits = [], wt_events = [],
      wt_done = False\<rparr>"

definition spawn_native ::
  "'o js_engine \<Rightarrow> authority \<Rightarrow> 'o option \<Rightarrow> (os_command \<Rightarrow> string + nat option) \<Rightarrow> string \<Rightarrow> 'o qjs_value option \<Rightarrow>
     'o option \<Rightarrow> (watch \<times> u64 option) js_result" where
  "spawn_native e a rong_env os command args options =
     js_bind (authorize_process a) (\<lambda>_.
     js_bind (parse_args e args) (\<lambda>args_vec.
     js_bind (native_options e rong_env options) (\<lambda>opts.
       let use_shell = (case so_shell opts of Some b \<Rightarrow> b | None \<Rightarrow> False) in
       case os (build_command command args_vec opts use_shell) of
         Inl m \<Rightarrow> Inl (Host (he_new E_IO m))
       | Inr pid \<Rightarrow> Inr (watch_start pid, so_timeout opts))))"

section \<open>Waiting on the handle\<close>

text \<open>
  \<^verbatim>\<open>wait_authorized\<close> against the announcement of the exit, interleaved: the watching task stores the code, then the flag,
  then wakes the waiters; the waiter takes a ticket before it reads the flag. A ticket is the number of wakings so far,
  and it is honoured by a later one.
\<close>

datatype exit_pc = X_Running | X_Coded | X_Flagged | X_Notified

record exit_cell =
  xc_pc :: exit_pc
  xc_code :: "int option"
  xc_exited :: bool
  xc_wakings :: nat

datatype waiter = W_Loop | W_Ticket nat | W_Waiting nat | W_Result "int option js_result"

definition exit_step :: "int option \<Rightarrow> exit_cell \<Rightarrow> exit_cell" where
  "exit_step code x =
     (case xc_pc x of
        X_Running \<Rightarrow> x\<lparr>xc_pc := X_Coded, xc_code := code\<rparr>
      | X_Coded \<Rightarrow> x\<lparr>xc_pc := X_Flagged, xc_exited := True\<rparr>
      | X_Flagged \<Rightarrow> x\<lparr>xc_pc := X_Notified, xc_wakings := xc_wakings x + 1\<rparr>
      | X_Notified \<Rightarrow> x)"

definition wait_authorized_step :: "authority \<Rightarrow> exit_cell \<Rightarrow> waiter \<Rightarrow> waiter" where
  "wait_authorized_step a x w =
     (case w of
        W_Loop \<Rightarrow> W_Ticket (xc_wakings x)
      | W_Ticket t \<Rightarrow>
          if xc_exited x then W_Result (js_bind (cp_authorize a) (\<lambda>_. Inr (xc_code x))) else W_Waiting t
      | W_Waiting t \<Rightarrow>
          if t < xc_wakings x then W_Loop
          else if revoked a then W_Result (js_bind (cp_authorize a) (\<lambda>_. Inr (xc_code x)))
          else W_Waiting t
      | W_Result r \<Rightarrow> W_Result r)"

datatype wait_move = Exit_Moves | Waiter_Moves authority

fun wait_run :: "int option \<Rightarrow> wait_move list \<Rightarrow> exit_cell \<times> waiter \<Rightarrow> exit_cell \<times> waiter" where
  "wait_run code [] s = s"
| "wait_run code (Exit_Moves # ms) (x, w) = wait_run code ms (exit_step code x, w)"
| "wait_run code (Waiter_Moves a # ms) (x, w) = wait_run code ms (x, wait_authorized_step a x w)"

definition wait_start :: "exit_cell \<times> waiter" where
  "wait_start = (\<lparr>xc_pc = X_Running, xc_code = None, xc_exited = False, xc_wakings = 0\<rparr>, W_Loop)"

definition cell_ok :: "int option \<Rightarrow> exit_cell \<Rightarrow> bool" where
  "cell_ok code x \<longleftrightarrow>
     (xc_wakings x = (if xc_pc x = X_Notified then 1 else 0)) \<and>
     (xc_exited x \<longleftrightarrow> xc_pc x = X_Flagged \<or> xc_pc x = X_Notified) \<and> (xc_pc x \<noteq> X_Running \<longrightarrow> xc_code x = code)"

definition waiter_ok :: "int option \<Rightarrow> exit_cell \<Rightarrow> waiter \<Rightarrow> bool" where
  "waiter_ok code x w =
     (case w of
        W_Loop \<Rightarrow> True
      | W_Ticket t \<Rightarrow> t \<le> xc_wakings x
      | W_Waiting t \<Rightarrow> t = 0
      | W_Result r \<Rightarrow> (case r of Inr c \<Rightarrow> xc_exited x \<and> c = code | Inl _ \<Rightarrow> True))"

lemma wait_ok_step:
  assumes "cell_ok code x" "waiter_ok code x w"
  shows "cell_ok code (exit_step code x) \<and> waiter_ok code (exit_step code x) w"
    and "waiter_ok code x (wait_authorized_step a x w)"
  using assms
  by (auto simp: cell_ok_def waiter_ok_def exit_step_def wait_authorized_step_def js_bind_def cp_authorize_def
      authorize_process_with_def revoked_def split: exit_pc.splits waiter.splits option.splits sum.splits if_splits)

lemma wait_ok_run:
  "cell_ok code x \<Longrightarrow> waiter_ok code x w \<Longrightarrow> wait_run code ms (x, w) = (x', w') \<Longrightarrow> cell_ok code x' \<and> waiter_ok code x' w'"
proof (induction ms arbitrary: x w)
  case (Cons m ms)
  then show ?case by (cases m) (auto dest: wait_ok_step)
qed simp

text \<open>
  A waiter never misses the exit of its child, however its steps and those of the watching task interleave: once the
  exit has been announced, four more steps of the waiter end it, with the code of the child when the authority allows it
  and with the refusal otherwise; and no waiter ever gets another code or gets one before the exit.\<close>

theorem waiter_never_misses_exit:
  assumes "wait_run code ms wait_start = (x, w)"
  shows "(\<forall>c. w = W_Result (Inr c) \<longrightarrow> xc_exited x \<and> c = code) \<and>
    (xc_pc x = X_Notified \<longrightarrow>
       (\<exists>r. snd (wait_run code [Waiter_Moves a, Waiter_Moves a, Waiter_Moves a, Waiter_Moves a] (x, w)) = W_Result r \<and>
            (w \<noteq> W_Result r \<and> \<not> revoked a \<longrightarrow> r = Inr code)))"
proof -
  have ok: "cell_ok code x" "waiter_ok code x w"
    using wait_ok_run [of code "fst wait_start" "snd wait_start" ms x w] assms
    by (auto simp: wait_start_def cell_ok_def waiter_ok_def)
  have n: "xc_wakings x = 1 \<and> xc_exited x \<and> xc_code x = code" if "xc_pc x = X_Notified"
    using ok(1) that by (simp add: cell_ok_def)
  have "\<not> revoked a \<Longrightarrow> cp_authorize a = Inr ()"
    by (cases a) (auto simp: revoked_def cp_authorize_def authorize_process_with_def split: sum.split)
  then show ?thesis
    using ok n by (cases w) (auto simp: waiter_ok_def wait_authorized_step_def js_bind_def split: sum.splits)
qed

theorem waiter_never_misses_exit_witness:
  "\<exists>x w. wait_run (Some 3) [Waiter_Moves None, Waiter_Moves None, Exit_Moves, Exit_Moves, Exit_Moves] wait_start = (x, w) \<and>
     snd (wait_run (Some 3) [Waiter_Moves None, Waiter_Moves None, Waiter_Moves None, Waiter_Moves None] (x, w)) =
       W_Result (Inr (Some 3))"
proof -
  obtain x w where r:
    "wait_run (Some 3) [Waiter_Moves None, Waiter_Moves None, Exit_Moves, Exit_Moves, Exit_Moves] wait_start = (x, w)"
    "xc_pc x = X_Notified" "w = W_Waiting 0"
    by (simp add: wait_start_def wait_authorized_step_def exit_step_def revoked_def)
  show ?thesis
    using waiter_never_misses_exit [OF r(1), of None] r by (auto simp: revoked_def)
qed

section \<open>What the watching task does\<close>

text \<open>The views it acts on, up to the first that ends it, and the calls of \<^verbatim>\<open>kill\<close> that sent a signal.\<close>

fun seen_views :: "watch_event list \<Rightarrow> poll_view list" where
  "seen_views [] = []"
| "seen_views (Task_Dropped # evs) = []"
| "seen_views (Kill_Call a sent name # evs) = seen_views evs"
| "seen_views (Turn v # evs) = v # (if pv_try_wait v = Inr None then seen_views evs else [])"

fun kill_sent :: "(string \<Rightarrow> int option) \<Rightarrow> watch_event \<Rightarrow> bool" where
  "kill_sent parse_i32 (Kill_Call a sent name) \<longleftrightarrow> cp_authorize a = Inr () \<and> signal_of parse_i32 name \<noteq> None \<and> sent"
| "kill_sent parse_i32 ev \<longleftrightarrow> False"

definition must_kill :: "u64 option \<Rightarrow> poll_view \<Rightarrow> bool" where
  "must_kill timeout v \<longleftrightarrow> revoked (pv_authority v) \<or> timed_out timeout (pv_elapsed v)"

text \<open>What holds while the task watches.\<close>

definition watch_ok :: "nat \<Rightarrow> watch \<Rightarrow> bool" where
  "watch_ok p w \<longleftrightarrow>
     cp_pid (wt_child w) = Some p \<and> wt_exits w = [] \<and> \<not> cp_exited (wt_child w) \<and>
     wt_lease w = (if wt_started w then Some p else None) \<and> \<not> wt_done w"

lemma watch_ok_start: "watch_ok p (watch_start (Some p))"
  by (simp add: watch_ok_def watch_start_def child_process_new_def)

text \<open>A call of \<^verbatim>\<open>kill\<close> changes the flag and nothing else of the task.\<close>

lemma kill_call_step:
  assumes "cp_pid (wt_child w) = Some p"
  shows "\<exists>evs. watch_event_step parse_i32 timeout (Kill_Call a sent name) w =
     w\<lparr>wt_child := (wt_child w)\<lparr>cp_killed := cp_killed (wt_child w) \<or> kill_sent parse_i32 (Kill_Call a sent name)\<rparr>,
       wt_events := wt_events w @ evs\<rparr>"
  using assms
  by (intro exI [of _ "snd (snd (cp_kill parse_i32 a sent name (wt_child w)))"])
     (cases "cp_authorize a"; cases "signal_of parse_i32 name"; cases "wt_child w"; cases w;
      simp add: watch_event_step_def cp_kill_def kill_unchecked_def)

text \<open>The announcement and the signals stand once the task is over.\<close>

lemma watch_run_done:
  assumes "wt_done w" "cp_pid (wt_child w) = Some p"
  shows "\<exists>evs. watch_run parse_i32 timeout es w =
     w\<lparr>wt_child := (wt_child w)\<lparr>cp_killed := cp_killed (wt_child w) \<or> (\<exists>k \<in> set es. kill_sent parse_i32 k)\<rparr>,
       wt_events := wt_events w @ evs\<rparr>"
  using assms
proof (induction es arbitrary: w)
  case (Cons e es)
  show ?case
  proof (cases e)
    case (Kill_Call a sent name)
    obtain evs where e: "watch_event_step parse_i32 timeout e w =
     w\<lparr>wt_child := (wt_child w)\<lparr>cp_killed := cp_killed (wt_child w) \<or> kill_sent parse_i32 e\<rparr>,
       wt_events := wt_events w @ evs\<rparr>" using kill_call_step [OF Cons.prems(2)] Kill_Call by blast
    show ?thesis
      using Cons.IH [of "watch_event_step parse_i32 timeout e w"] Cons.prems unfolding watch_run.simps
      by (fastforce simp: e disj_assoc)
  qed (use Cons.IH [of w] Cons.prems in \<open>simp_all add: watch_event_step_def\<close>)
qed (rule exI [of _ "[]"], simp)

text \<open>What a run of the task from a watching state has done.\<close>

definition watched ::
  "nat \<Rightarrow> (string \<Rightarrow> int option) \<Rightarrow> u64 option \<Rightarrow> watch_event list \<Rightarrow> watch \<Rightarrow> watch \<Rightarrow> bool" where
  "watched p parse_i32 timeout es w w' \<longleftrightarrow>
     cp_killed (wt_child w') =
       (cp_killed (wt_child w) \<or> (\<exists>v \<in> set (seen_views es). must_kill timeout v) \<or> (\<exists>k \<in> set es. kill_sent parse_i32 k)) \<and>
     set (wt_events w) \<subseteq> set (wt_events w') \<and>
     ((\<exists>v \<in> set (seen_views es). must_kill timeout v) \<longrightarrow> Kill_Group p \<in> set (wt_events w')) \<and>
     cp_exited (wt_child w') = (wt_exits w' \<noteq> []) \<and> length (wt_exits w') \<le> 1 \<and>
     (\<forall>code \<in> set (wt_exits w'). cp_exit_code (wt_child w') = code) \<and>
     (wt_done w' \<longrightarrow>
        (\<exists>v \<in> set (seen_views es). \<exists>code. pv_try_wait v = Inr (Some code)) \<or> Kill_Group p \<in> set (wt_events w') \<or>
        \<not> wt_started w \<and> seen_views es = [] \<and> Kill_On_Drop (Some p) \<in> set (wt_events w'))"

lemma watch_turn_goes_on:
  assumes "watch_ok p w" "pv_try_wait v = Inr None"
  shows "watch_ok p (watch_turn timeout v w)" "wt_started (watch_turn timeout v w)"
    "cp_killed (wt_child (watch_turn timeout v w)) = (cp_killed (wt_child w) \<or> must_kill timeout v)"
    "set (wt_events w) \<subseteq> set (wt_events (watch_turn timeout v w))"
    "must_kill timeout v \<Longrightarrow> Kill_Group p \<in> set (wt_events (watch_turn timeout v w))"
  using assms
  by (auto simp: watch_ok_def watch_turn_def watch_begin_def lease_new_def must_kill_def terminate_child_process_tree_def
      Let_def)

lemma watch_turn_ends:
  assumes "watch_ok p w" "pv_try_wait v \<noteq> Inr None"
  shows "watched p parse_i32 timeout [Turn v] w (watch_turn timeout v w) \<and> wt_done (watch_turn timeout v w) \<and>
    cp_pid (wt_child (watch_turn timeout v w)) = Some p"
proof -
  consider code where "pv_try_wait v = Inr (Some code)" | m where "pv_try_wait v = Inl m"
    using assms(2) by (metis not_None_eq sum.exhaust)
  then show ?thesis
    by cases (use assms(1) in \<open>auto simp: watch_ok_def watched_def watch_turn_def watch_begin_def lease_new_def must_kill_def
        emit_exit_def end_watch_def lease_disarm_def lease_drop_def kill_process_tree_by_pid_def
        terminate_child_process_tree_def Let_def\<close>)
qed

lemma watched_done:
  assumes "watched p parse_i32 timeout [e] w u" "wt_done u" "cp_pid (wt_child u) = Some p"
    "seen_views (e # es) = seen_views [e]"
  shows "watched p parse_i32 timeout (e # es) w (watch_run parse_i32 timeout es u)"
proof -
  obtain evs where "watch_run parse_i32 timeout es u =
     u\<lparr>wt_child := (wt_child u)\<lparr>cp_killed := cp_killed (wt_child u) \<or> (\<exists>k \<in> set es. kill_sent parse_i32 k)\<rparr>,
       wt_events := wt_events u @ evs\<rparr>" using watch_run_done [OF assms(2,3)] by blast
  then show ?thesis using assms(1,2) unfolding watched_def assms(4) by auto
qed

lemma watch_run_watched:
  "watch_ok p w \<Longrightarrow> watched p parse_i32 timeout es w (watch_run parse_i32 timeout es w)"
proof (induction es arbitrary: w)
  case Nil
  then show ?case by (auto simp: watched_def watch_ok_def)
next
  case (Cons e es)
  have nd: "\<not> wt_done w" using Cons.prems by (simp add: watch_ok_def)
  show ?case
  proof (cases e)
    case Task_Dropped
    have "watched p parse_i32 timeout [e] w (end_watch False w)"
      using Cons.prems Task_Dropped
      by (auto simp: watched_def watch_ok_def end_watch_def lease_drop_def kill_process_tree_by_pid_def)
    from watched_done [OF this] show ?thesis
      using Cons.prems nd Task_Dropped by (simp add: watch_event_step_def end_watch_def watch_ok_def)
  next
    case (Kill_Call a sent name)
    have pid: "cp_pid (wt_child w) = Some p" using Cons.prems by (simp add: watch_ok_def)
    obtain evs where u: "watch_event_step parse_i32 timeout e w =
     w\<lparr>wt_child := (wt_child w)\<lparr>cp_killed := cp_killed (wt_child w) \<or> kill_sent parse_i32 e\<rparr>,
       wt_events := wt_events w @ evs\<rparr>" using kill_call_step [OF pid] Kill_Call by blast
    have "watch_ok p (watch_event_step parse_i32 timeout e w)" using Cons.prems unfolding u by (simp add: watch_ok_def)
    from Cons.IH [OF this] show ?thesis
      unfolding watch_run.simps watched_def u by (auto simp: Kill_Call simp del: kill_sent.simps)
  next
    case (Turn v)
    have u: "watch_event_step parse_i32 timeout e w = watch_turn timeout v w" using nd Turn by (simp add: watch_event_step_def)
    show ?thesis
    proof (cases "pv_try_wait v = Inr None")
      case True
      note g = watch_turn_goes_on [OF Cons.prems True, where timeout = timeout]
      show ?thesis
        using Cons.IH [OF g(1)] g(2-5) True Turn unfolding watch_run.simps u watched_def by auto
    next
      case False
      note t = watch_turn_ends [OF Cons.prems False, of parse_i32 timeout]
      show ?thesis
        unfolding watch_run.simps u by (rule watched_done) (use t Turn False in auto)
    qed
  qed
qed

text \<open>
  C19. A spawned child is watched and fails closed, in whatever order the task is polled, the handle is told to \<^verbatim>\<open>kill\<close> and
  the context is shut down. The exit is announced at most once, and the handle then holds the code announced. The
  \<^verbatim>\<open>killed\<close> flag is set exactly when a turn saw the authority revoked or the time used up, or a call of \<^verbatim>\<open>kill\<close> sent a
  signal; after such a turn the whole process group has been killed. When the task is over, one of three things holds: a
  turn saw the child exit, and then the task leaves what the child may have started to itself; or the process group has
  been killed; or the task was dropped before it was first polled, and then the child itself, though not its group, has
  been killed.\<close>

theorem watched_child_fails_closed:
  assumes "watch_run parse_i32 timeout es (watch_start (Some p)) = w"
  shows "length (wt_exits w) \<le> 1 \<and> cp_exited (wt_child w) = (wt_exits w \<noteq> []) \<and>
    (\<forall>code \<in> set (wt_exits w). cp_exit_code (wt_child w) = code) \<and>
    cp_killed (wt_child w) =
      ((\<exists>v \<in> set (seen_views es). must_kill timeout v) \<or> (\<exists>k \<in> set es. kill_sent parse_i32 k)) \<and>
    ((\<exists>v \<in> set (seen_views es). must_kill timeout v) \<longrightarrow> Kill_Group p \<in> set (wt_events w)) \<and>
    (wt_done w \<longrightarrow>
       (\<exists>v \<in> set (seen_views es). \<exists>code. pv_try_wait v = Inr (Some code)) \<or> Kill_Group p \<in> set (wt_events w) \<or>
       seen_views es = [] \<and> Kill_On_Drop (Some p) \<in> set (wt_events w))"
proof -
  have "\<not> cp_killed (wt_child (watch_start (Some p)))" by (simp add: watch_start_def child_process_new_def)
  then show ?thesis
    using watch_run_watched [OF watch_ok_start, of p parse_i32 timeout es] unfolding assms watched_def by blast
qed

text \<open>A child told to terminate that does not, until its authority is revoked and its context shut down.\<close>

theorem watched_child_fails_closed_witness:
  "\<exists>w. watch_run (\<lambda>_. None) None
     [Turn \<lparr>pv_authority = Some (Inr ()), pv_elapsed = 0, pv_try_wait = Inr None\<rparr>,
      Kill_Call (Some (Inr ())) True None,
      Turn \<lparr>pv_authority = Some (Inl ''revoked''), pv_elapsed = 10, pv_try_wait = Inr None\<rparr>, Task_Dropped]
     (watch_start (Some 7)) = w \<and>
   cp_killed (wt_child w) \<and> Kill_Group 7 \<in> set (wt_events w) \<and> length (wt_exits w) \<le> 1"
  using watched_child_fails_closed [OF refl, of "\<lambda>_. None" None
      "[Turn \<lparr>pv_authority = Some (Inr ()), pv_elapsed = 0, pv_try_wait = Inr None\<rparr>,
        Kill_Call (Some (Inr ())) True None,
        Turn \<lparr>pv_authority = Some (Inl ''revoked''), pv_elapsed = 10, pv_try_wait = Inr None\<rparr>, Task_Dropped]" 7]
  by (simp add: must_kill_def revoked_def)

section \<open>What an executed command answers\<close>

definition undecided :: "u64 option \<Rightarrow> poll_view \<Rightarrow> bool" where
  "undecided timeout v \<longleftrightarrow> \<not> must_kill timeout v \<and> pv_try_wait v = Inr None"

text \<open>
  C39. An executed command answers with its exit status only while the authority holds and the time has not run out, and
  then no signal has been sent; a refusal, a timeout or a failure to wait is an error, and then the whole process group
  has been killed. The first turn that decides is the one that counts.\<close>

theorem executed_command_fails_closed:
  assumes "output_loop (Some p) timeout views (lease_new (Some p)) = Some (r, ev)"
  shows "\<exists>before v after. views = before @ v # after \<and> list_all (undecided timeout) before \<and>
    (case r of
       Inr status \<Rightarrow> \<not> must_kill timeout v \<and> pv_try_wait v = Inr (Some status) \<and> ev = []
     | Inl err \<Rightarrow> Kill_Group p \<in> set ev \<and>
         (revoked (pv_authority v) \<longrightarrow> (\<exists>m. pv_authority v = Some (Inl m) \<and> err = Host (he_new E_PERMISSION_DENIED m))) \<and>
         (\<not> revoked (pv_authority v) \<and> timed_out timeout (pv_elapsed v) \<longrightarrow>
            err = Host (he_new E_TIMEOUT ''Command timed out'')))"
  using assms
proof (induction views)
  case (Cons v views)
  show ?case
  proof (cases "undecided timeout v")
    case True
    then have "output_loop (Some p) timeout views (lease_new (Some p)) = Some (r, ev)"
      using Cons.prems by (auto simp: undecided_def must_kill_def revoked_def split: option.splits sum.splits)
    from Cons.IH [OF this] obtain before u after where
      s: "views = before @ u # after" "list_all (undecided timeout) before"
      and rest: "case r of
       Inr status \<Rightarrow> \<not> must_kill timeout u \<and> pv_try_wait u = Inr (Some status) \<and> ev = []
     | Inl err \<Rightarrow> Kill_Group p \<in> set ev \<and>
         (revoked (pv_authority u) \<longrightarrow> (\<exists>m. pv_authority u = Some (Inl m) \<and> err = Host (he_new E_PERMISSION_DENIED m))) \<and>
         (\<not> revoked (pv_authority u) \<and> timed_out timeout (pv_elapsed u) \<longrightarrow>
            err = Host (he_new E_TIMEOUT ''Command timed out''))" by blast
    show ?thesis by (intro exI [of _ "v # before"] exI [of _ u] exI [of _ after] conjI) (use s True rest in simp_all)
  next
    case False
    show ?thesis
      by (intro exI [of _ "[]"] exI [of _ v] exI [of _ views] conjI)
        (use Cons.prems False in \<open>auto simp: undecided_def must_kill_def revoked_def terminate_child_process_tree_def
          lease_drop_def lease_new_def lease_disarm_def kill_process_tree_by_pid_def split: option.splits sum.splits if_splits\<close>)
  qed
qed simp

theorem executed_command_fails_closed_witness:
  "\<exists>ev. output_loop (Some 7) (Some 50)
     [\<lparr>pv_authority = None, pv_elapsed = 0, pv_try_wait = Inr None\<rparr>,
      \<lparr>pv_authority = None, pv_elapsed = 60, pv_try_wait = Inr None\<rparr>] (lease_new (Some 7)) =
     Some (Inl (Host (he_new E_TIMEOUT ''Command timed out'')), ev) \<and> Kill_Group 7 \<in> set ev"
proof -
  let ?vs = "[\<lparr>pv_authority = None, pv_elapsed = 0, pv_try_wait = Inr None\<rparr>,
      \<lparr>pv_authority = None, pv_elapsed = 60, pv_try_wait = Inr None\<rparr>]"
  obtain ev where e: "output_loop (Some 7) (Some 50) ?vs (lease_new (Some 7)) =
      Some (Inl (Host (he_new E_TIMEOUT ''Command timed out'')), ev)"
    by (simp add: timed_out_def)
  show ?thesis using executed_command_fails_closed [OF e] e by auto
qed

section \<open>The words of a command\<close>

interpretation argument_quoting: literal_quoting shell_escape
  by unfold_locales (simp add: shell_escape_def scan_quoted_body open_word_def)

text \<open>
  The arguments of a spawned command reach the program as they are: without a shell they are the argument vector, and
  through a shell the words the shell makes of the command line are those of the command followed by exactly the
  arguments, whatever characters they hold, as long as the command leaves no quote open.\<close>

theorem spawned_arguments_exact:
  assumes "sh_scan command (Unquoted, None, []) = Some (Unquoted, w, ws)"
  shows "oc_args (build_command command args opts False) = args \<and>
    oc_program (build_command command args opts True) = ''sh'' \<and>
    (\<exists>line. oc_args (build_command command args opts True) = [''-c'', line] \<and> sh_words line = Some (close_word w ws @ args))"
proof -
  have "sh_words command = Some (close_word w ws)" using assms by (simp add: sh_words_def)
  then show ?thesis
    using argument_quoting.words_of_command [OF assms, of args] by (auto simp: build_command_def)
qed

theorem spawned_arguments_exact_witness:
  "\<exists>line. oc_args (build_command ''echo -n'' [''a; rm -rf /'', [CHR 0x27]] spawn_options_default True) = [''-c'', line] \<and>
     sh_words line = Some [''echo'', ''-n'', ''a; rm -rf /'', [CHR 0x27]]"
proof -
  have "sh_scan ''echo -n'' (Unquoted, None, []) = Some (Unquoted, Some ''-n'', [''echo''])"
    by (simp add: sh_char_defs add_char_def close_word_def)
  from spawned_arguments_exact [OF this, of "[''a; rm -rf /'', [CHR 0x27]]" spawn_options_default]
  show ?thesis by (simp add: close_word_def)
qed

section \<open>The handle and the authority\<close>

text \<open>
  A handle whose authority has been revoked refuses everything: each of its properties and operations answers with
  the permission error, no signal is sent and the handle does not change; the pipes of the child give an error instead of
  data.\<close>

theorem revoked_handle_refuses:
  assumes "revoked a"
  shows "\<exists>m. a = Some (Inl m) \<and>
    (let denied = Host (he_new E_PERMISSION_DENIED m) in
     get_pid a c = Inl denied \<and> get_exit_code a c = Inl denied \<and> get_killed a c = Inl denied \<and>
     get_signal_code a = Inl denied \<and> get_success a c = Inl denied \<and> cp_unref a = Inl denied \<and>
     cp_kill parse_i32 a sent name c = (Inl denied, c, []) \<and> authority_io_poll a (inner :: string + 't) = Inl m)"
  using assms
  by (auto simp: revoked_def get_pid_def get_exit_code_def get_killed_def get_signal_code_def get_success_def cp_unref_def
      cp_kill_def authority_io_poll_def cp_authorize_def authorize_process_with_def Let_def)

theorem revoked_handle_refuses_witness:
  "cp_kill (\<lambda>_. None) (Some (Inl ''gone'')) True None (child_process_new\<lparr>cp_pid := Some 7\<rparr>) =
   (Inl (Host (he_new E_PERMISSION_DENIED ''gone'')), child_process_new\<lparr>cp_pid := Some 7\<rparr>, [])"
  using revoked_handle_refuses [of "Some (Inl ''gone'')" "child_process_new\<lparr>cp_pid := Some 7\<rparr>" "\<lambda>_. None" True None
      "Inr () :: string + unit"]
  by (auto simp: revoked_def Let_def)

text \<open>A name without the prefix is no signal, unless it is a number.\<close>

lemma bare_signal_name_refused: "signal_of (\<lambda>_. None) (Some ''TERM'') = None"
  by (simp add: signal_of_def strip_prefix_def starts_with_def)

text \<open>A signal is sent to the pid of a child that has already exited.\<close>

lemma kill_after_exit_signals_pid:
  "cp_kill (\<lambda>_. None) None True None (child_process_new\<lparr>cp_pid := Some 7, cp_exited := True\<rparr>) =
   (Inr True, child_process_new\<lparr>cp_pid := Some 7, cp_exited := True, cp_killed := True\<rparr>, [Sent_Signal 7 SIGTERM])"
  by (simp add: cp_kill_def cp_authorize_def kill_unchecked_def signal_of_def child_process_new_def)

text \<open>The authority of a context is installed at most once.\<close>

lemma authority_sealed:
  "init_with_authority (Some old) authorize new install =
     (Inl (Host (he_new E_ALREADY_EXISTS ''process authority is already sealed for this context'')), Some old)"
  by (simp add: init_with_authority_def)

end
