(* ===== verification/Sync_Process.thy ===== *)
theory Sync_Process
  imports Child_Process
begin

text \<open>
  The blocking spawn of \<^verbatim>\<open>modules/rong_command/src/sync_process.rs\<close>: its options, the command it builds, and the loop that
  waits for the child under the authority and the timeout.
\<close>

section \<open>Options\<close>

datatype stream_mode = Mode_Pipe | Mode_Ignore | Mode_Inherit

definition mode_message :: "string \<Rightarrow> string" where
  "mode_message key =
     ''options.'' @ key @ '' must be '' @ [sh_dquote] @ ''pipe'' @ [sh_dquote] @ '', '' @ [sh_dquote] @ ''ignore'' @
     [sh_dquote] @ '', or '' @ [sh_dquote] @ ''inherit'' @ [sh_dquote]"

definition mode_of_name :: "string \<Rightarrow> string \<Rightarrow> stream_mode js_result" where
  "mode_of_name key mode =
     (if mode = ''pipe'' then Inr Mode_Pipe
      else if mode = ''ignore'' then Inr Mode_Ignore
      else if mode = ''inherit'' then Inr Mode_Inherit
      else Inl (te (mode_message key)))"

definition stream_mode_from_js ::
  "'o js_engine \<Rightarrow> 'o \<Rightarrow> string \<Rightarrow> stream_mode \<Rightarrow> stream_mode js_result" where
  "stream_mode_from_js e x key fallback =
     js_bind (obj_has_property e x key) (\<lambda>present.
       if \<not> present then Inr fallback
       else
         js_bind (obj_get e value_from_js x key) (\<lambda>value.
           if qjs_is_null value \<or> qjs_is_undefined value then Inr Mode_Ignore
           else js_bind (or_type_error (mode_message key) (js_string e value)) (mode_of_name key)))"

record sync_options =
  sy_cmd :: "string list"
  sy_cwd :: "string option"
  sy_env :: "(string \<rightharpoonup> string) option"
  sy_shell :: bool
  sy_stdin :: "string option"
  sy_stdout :: stream_mode
  sy_stderr :: stream_mode
  sy_timeout :: "u64 option"

definition parse_string_array :: "'o js_engine \<Rightarrow> 'o qjs_value \<Rightarrow> string \<Rightarrow> string list js_result" where
  "parse_string_array e v label =
     (case into_object v of
        None \<Rightarrow> Inl (te (label @ '' must be an array of strings''))
      | Some _ \<Rightarrow>
          (case array_from_object v of
             None \<Rightarrow> Inl (te (label @ '' must be an array of strings''))
           | Some x \<Rightarrow>
               js_bind (array_len e x) (\<lambda>n. string_elements e (label @ '' must be an array of strings'') x [0..<n])))"

text \<open>Bytes of a value: nothing for null and undefined, the text of a value that is no object, the bytes of a typed array
  or a buffer, and an error for any other object.\<close>

definition sync_value_to_bytes :: "'o js_engine \<Rightarrow> 'o qjs_value \<Rightarrow> string \<Rightarrow> string option js_result" where
  "sync_value_to_bytes e v label =
     (if qjs_is_null v \<or> qjs_is_undefined v then Inr None
      else
        (case into_object v of
           None \<Rightarrow>
             js_bind (or_type_error (label @ '' must be a string, ArrayBuffer, or TypedArray'') (js_string e v))
               (\<lambda>s. Inr (Some s))
         | Some x \<Rightarrow>
             (case je_typed_bytes e x of
                Some (Some bytes) \<Rightarrow> Inr (Some bytes)
              | Some None \<Rightarrow> Inl (te (label @ '' contains an invalid TypedArray''))
              | None \<Rightarrow>
                  if qjs_is_array_buffer v then Inr (Some (je_buffer_bytes e x))
                  else Inl (te (label @ '' must be a string, ArrayBuffer, or TypedArray'')))))"

definition sync_options_default :: "string list \<Rightarrow> sync_options" where
  "sync_options_default cmd =
     \<lparr>sy_cmd = cmd, sy_cwd = None, sy_env = None, sy_shell = False, sy_stdin = None, sy_stdout = Mode_Pipe,
      sy_stderr = Mode_Pipe, sy_timeout = None\<rparr>"

definition sync_options_from_js :: "'o js_engine \<Rightarrow> 'o \<Rightarrow> sync_options js_result" where
  "sync_options_from_js e x =
     js_bind (obj_get e value_from_js x ''cmd'') (\<lambda>cmd_value.
     js_bind (parse_string_array e cmd_value ''options.cmd'') (\<lambda>cmd.
     if cmd = [] then Inl (Host (with_name ''TypeError'' (he_new E_INVALID_ARG ''options.cmd cannot be empty'')))
     else
       js_bind
         (when_present e x ''cwd'' (\<lambda>s.
            js_bind (or_type_error ''options.cwd must be a string'' (obj_get e (js_string e) x ''cwd''))
              (\<lambda>cwd. Inr (s\<lparr>sy_cwd := Some cwd\<rparr>))) (sync_options_default cmd)) (\<lambda>s.
       js_bind
         (when_present e x ''env'' (\<lambda>s.
            js_bind (or_type_error ''options.env must be an object'' (obj_get e object_from_js x ''env''))
              (\<lambda>env. js_bind (or_type_error ''options.env must contain string values''
                        (obj_entries_as e (js_string e) env))
                 (\<lambda>es. Inr (s\<lparr>sy_env := Some (map_of (rev es))\<rparr>)))) s) (\<lambda>s.
       js_bind
         (when_present e x ''shell'' (\<lambda>s.
            js_bind (or_type_error ''options.shell must be a boolean'' (obj_get e bool_from_js x ''shell''))
              (\<lambda>b. Inr (s\<lparr>sy_shell := b\<rparr>))) s) (\<lambda>s.
       js_bind
         (when_present e x ''stdin'' (\<lambda>s.
            js_bind (obj_get e value_from_js x ''stdin'') (\<lambda>v.
              js_bind (sync_value_to_bytes e v ''options.stdin'') (\<lambda>b. Inr (s\<lparr>sy_stdin := b\<rparr>)))) s) (\<lambda>s.
       js_bind (stream_mode_from_js e x ''stdout'' Mode_Pipe) (\<lambda>out.
       js_bind (stream_mode_from_js e x ''stderr'' Mode_Pipe) (\<lambda>err.
       when_present e x ''timeout'' (\<lambda>s.
         js_bind (or_type_error ''options.timeout must be a non-negative number'' (obj_get e f64_from_js x ''timeout''))
           (\<lambda>t. js_bind (timeout_of_f64 t) (\<lambda>ms. Inr (s\<lparr>sy_timeout := Some ms\<rparr>))))
         (s\<lparr>sy_stdout := out, sy_stderr := err\<rparr>)))))))))"

section \<open>The command\<close>

definition sync_shell_escape :: "string \<Rightarrow> string" where
  "sync_shell_escape input =
     (if input = [] then [sh_quote, sh_quote]
      else [sh_quote] @ replace_char sh_quote [sh_quote, sh_backslash, sh_quote, sh_quote] input @ [sh_quote])"

definition stdio_of_mode :: "stream_mode \<Rightarrow> stdio" where
  "stdio_of_mode m = (case m of Mode_Pipe \<Rightarrow> Piped | Mode_Ignore \<Rightarrow> Null | Mode_Inherit \<Rightarrow> Inherited)"

definition build_sync_command :: "sync_options \<Rightarrow> os_command" where
  "build_sync_command s =
     \<lparr>oc_program = (if sy_shell s then ''sh'' else hd (sy_cmd s)),
      oc_args = (if sy_shell s then [''-c'', join_with '' '' (map sync_shell_escape (sy_cmd s))] else tl (sy_cmd s)),
      oc_cwd = sy_cwd s, oc_env = sy_env s,
      oc_stdin = (case sy_stdin s of Some _ \<Rightarrow> Piped | None \<Rightarrow> Null),
      oc_stdout = stdio_of_mode (sy_stdout s), oc_stderr = stdio_of_mode (sy_stderr s), oc_own_group = True\<rparr>"

section \<open>Waiting\<close>

definition kill_sync_process_tree :: "nat \<Rightarrow> os_event list" where
  "kill_sync_process_tree pid = [Kill_Group pid, Start_Kill]"

text \<open>The last argument is the answer of the blocking wait after a kill.\<close>

fun wait_for_sync_child ::
  "nat \<Rightarrow> u64 option \<Rightarrow> (string + int option) \<Rightarrow> poll_view list \<Rightarrow> (int option js_result \<times> os_event list) option" where
  "wait_for_sync_child pid timeout waited [] = None"
| "wait_for_sync_child pid timeout waited (v # vs) =
     (case pv_authority v of
        Some (Inl m) \<Rightarrow> Some (Inl (Host (he_new E_PERMISSION_DENIED m)), kill_sync_process_tree pid)
      | _ \<Rightarrow>
          (case pv_try_wait v of
             Inl m \<Rightarrow> Some (Inl (Host (he_new E_IO m)), [])
           | Inr (Some status) \<Rightarrow> Some (Inr status, [])
           | Inr None \<Rightarrow>
               if timed_out timeout (pv_elapsed v)
               then Some (case waited of Inl m \<Rightarrow> Inl (Host (he_new E_IO m)) | Inr status \<Rightarrow> Inr status,
                          kill_sync_process_tree pid)
               else wait_for_sync_child pid timeout waited vs))"

record spawn_sync_result =
  ss_exit_code :: "int option"
  ss_success :: bool
  ss_stdout :: string
  ss_stderr :: string

definition build_spawn_sync_result :: "int option \<Rightarrow> string \<Rightarrow> string \<Rightarrow> spawn_sync_result" where
  "build_spawn_sync_result code out err =
     \<lparr>ss_exit_code = code, ss_success = (code = Some 0), ss_stdout = out, ss_stderr = err\<rparr>"

text \<open>A started child: its pid, whether writing the input fails, what the loop sees, the answer of a blocking wait, and
  what the two reading threads collect.\<close>

record sync_run =
  sr_pid :: nat
  sr_write :: "string + unit"
  sr_views :: "poll_view list"
  sr_waited :: "string + int option"
  sr_stdout :: string
  sr_stderr :: string

definition spawn_sync_native ::
  "'o js_engine \<Rightarrow> authority \<Rightarrow> (os_command \<Rightarrow> string + sync_run) \<Rightarrow> 'o \<Rightarrow>
     (spawn_sync_result js_result \<times> os_event list) option" where
  "spawn_sync_native e a os options =
     (case authorize_process a of
        Inl err \<Rightarrow> Some (Inl err, [])
      | Inr _ \<Rightarrow>
          (case sync_options_from_js e options of
             Inl err \<Rightarrow> Some (Inl err, [])
           | Inr s \<Rightarrow>
               (case os (build_sync_command s) of
                  Inl m \<Rightarrow> Some (Inl (Host (he_new E_IO m)), [])
                | Inr p \<Rightarrow>
                    (case (sy_stdin s, sr_write p) of
                       (Some _, Inl m) \<Rightarrow> Some (Inl (Host (he_new E_IO m)), [])
                     | _ \<Rightarrow>
                         map_option (\<lambda>(r, ev).
                             (js_bind r (\<lambda>status. Inr (build_spawn_sync_result status (sr_stdout p) (sr_stderr p))), ev))
                           (wait_for_sync_child (sr_pid p) (sy_timeout s) (sr_waited p) (sr_views p))))))"

section \<open>Properties\<close>

interpretation sync_quoting: literal_quoting sync_shell_escape
  by unfold_locales (simp add: sync_shell_escape_def scan_quoted_body open_word_def)

text \<open>
  The command of a blocking spawn is run as given: without a shell the first element is the program and the rest its
  arguments, and through a shell the words the shell makes of the line are exactly the elements, the program included, so
  nothing in them is interpreted.\<close>

theorem sync_command_exact:
  "(sy_shell s \<longrightarrow> (\<exists>line. oc_program (build_sync_command s) = ''sh'' \<and> oc_args (build_sync_command s) = [''-c'', line] \<and>
                       sh_words line = Some (sy_cmd s))) \<and>
   (\<not> sy_shell s \<longrightarrow> sy_cmd s \<noteq> [] \<longrightarrow> oc_program (build_sync_command s) # oc_args (build_sync_command s) = sy_cmd s)"
  by (simp add: build_sync_command_def sync_quoting.words_of_quoted)

theorem sync_command_exact_witness:
  "sh_words (oc_args (build_sync_command ((sync_options_default [''echo'', ''$(id)'', [CHR 0x27]])\<lparr>sy_shell := True\<rparr>)) ! 1) =
     Some [''echo'', ''$(id)'', [CHR 0x27]]"
  using sync_command_exact [of "(sync_options_default [''echo'', ''$(id)'', [CHR 0x27]])\<lparr>sy_shell := True\<rparr>"]
  by (auto simp: sync_options_default_def)

text \<open>
  A blocking spawn fails closed: it answers with a status or an error; when the authority is revoked before the child
  has exited the answer is the permission error and the process group has been killed; a timeout kills the group too, but
  is answered with the status the child then has; and nothing is killed when the child exits by itself.\<close>

theorem sync_child_fails_closed:
  assumes "wait_for_sync_child pid timeout waited views = Some (r, ev)"
  shows "\<exists>before v after. views = before @ v # after \<and> list_all (undecided timeout) before \<and>
    (revoked (pv_authority v) \<longrightarrow>
       (\<exists>m. pv_authority v = Some (Inl m) \<and> r = Inl (Host (he_new E_PERMISSION_DENIED m))) \<and> Kill_Group pid \<in> set ev) \<and>
    (\<not> revoked (pv_authority v) \<longrightarrow>
       (case pv_try_wait v of
          Inr (Some status) \<Rightarrow> r = Inr status \<and> ev = []
        | Inl m \<Rightarrow> r = Inl (Host (he_new E_IO m)) \<and> ev = []
        | Inr None \<Rightarrow> timed_out timeout (pv_elapsed v) \<and> Kill_Group pid \<in> set ev \<and>
            (case waited of Inr status \<Rightarrow> r = Inr status | Inl m \<Rightarrow> r = Inl (Host (he_new E_IO m)))))"
  using assms
proof (induction views)
  case (Cons v views)
  show ?case
  proof (cases "undecided timeout v")
    case True
    then have "wait_for_sync_child pid timeout waited views = Some (r, ev)"
      using Cons.prems by (auto simp: undecided_def must_kill_def revoked_def split: option.splits sum.splits)
    from Cons.IH [OF this] obtain before u after where u: "views = before @ u # after"
      "list_all (undecided timeout) before"
      "revoked (pv_authority u) \<longrightarrow>
       (\<exists>m. pv_authority u = Some (Inl m) \<and> r = Inl (Host (he_new E_PERMISSION_DENIED m))) \<and> Kill_Group pid \<in> set ev"
      "\<not> revoked (pv_authority u) \<longrightarrow>
       (case pv_try_wait u of
          Inr (Some status) \<Rightarrow> r = Inr status \<and> ev = []
        | Inl m \<Rightarrow> r = Inl (Host (he_new E_IO m)) \<and> ev = []
        | Inr None \<Rightarrow> timed_out timeout (pv_elapsed u) \<and> Kill_Group pid \<in> set ev \<and>
            (case waited of Inr status \<Rightarrow> r = Inr status | Inl m \<Rightarrow> r = Inl (Host (he_new E_IO m))))" by blast
    show ?thesis
      by (intro exI [of _ "v # before"] exI [of _ u] exI [of _ after] conjI) (use u True in simp_all)
  next
    case False
    show ?thesis
      by (intro exI [of _ "[]"] exI [of _ v] exI [of _ views] conjI)
        (use Cons.prems False in \<open>auto simp: undecided_def must_kill_def revoked_def kill_sync_process_tree_def
          split: option.splits sum.splits if_splits\<close>)
  qed
qed simp

theorem sync_child_fails_closed_witness:
  "\<exists>ev. wait_for_sync_child 7 None (Inr None) [\<lparr>pv_authority = Some (Inl ''gone''), pv_elapsed = 0, pv_try_wait = Inr None\<rparr>] =
     Some (Inl (Host (he_new E_PERMISSION_DENIED ''gone'')), ev) \<and> Kill_Group 7 \<in> set ev"
proof -
  let ?v = "\<lparr>pv_authority = Some (Inl ''gone''), pv_elapsed = 0, pv_try_wait = Inr None\<rparr>"
  obtain ev where e: "wait_for_sync_child 7 None (Inr None) [?v] =
      Some (Inl (Host (he_new E_PERMISSION_DENIED ''gone'')), ev)" by simp
  obtain before v after where "[?v] = before @ v # after" "revoked (pv_authority v) \<longrightarrow> Kill_Group 7 \<in> set ev"
    using sync_child_fails_closed [OF e] by blast
  then show ?thesis using e by (auto simp: revoked_def Cons_eq_append_conv)
qed

end
