(* ===== verification/Shell.thy ===== *)
theory Shell
  imports Sync_Process
begin

text \<open>
  The shell interface of \<^verbatim>\<open>modules/rong_command/src/shell.rs\<close>: the options of \<^verbatim>\<open>Rong.spawn\<close> and \<^verbatim>\<open>Rong.spawnSync\<close>, the
  template tag \<^verbatim>\<open>Rong.$\<close> with its escaping, the defaults and overrides of a command, what running one gives, and the
  streams of a child. A value that is printed prints as in \<^verbatim>\<open>Js_Value\<close>.
\<close>

section \<open>Defaults and data\<close>

record shell_defaults =
  sd_cwd :: "string option"
  sd_env :: "(string \<rightharpoonup> string) option"
  sd_throws :: bool
  sd_quiet :: bool

definition shell_defaults_ensure :: "shell_defaults option \<Rightarrow> shell_defaults \<times> shell_defaults option" where
  "shell_defaults_ensure service =
     (case service of
        Some s \<Rightarrow> (s, service)
      | None \<Rightarrow>
          (let s = \<lparr>sd_cwd = None, sd_env = None, sd_throws = True, sd_quiet = False\<rparr> in (s, Some s)))"

datatype spawn_stdin_mode = Stdin_AutoClose | Stdin_Pipe | Stdin_Payload string

datatype process_stream_mode = PS_Pipe | PS_Ignore | PS_Inherit

record 'o normalized_spawn =
  nz_cmd :: "string list"
  nz_cwd :: "string option"
  nz_env :: "(string \<rightharpoonup> string) option"
  nz_shell :: "bool option"
  nz_timeout :: "u64 option"
  nz_stdin :: spawn_stdin_mode
  nz_stdout :: process_stream_mode
  nz_stderr :: process_stream_mode
  nz_kill_signal :: "string option"
  nz_signal :: "'o option"
  nz_on_exit :: "'o option"

record shell_result_data =
  rd_stdout :: string
  rd_stderr :: string
  rd_exit_code :: "int option"

record shell_command =
  sc_command :: string
  sc_cwd :: "string option"
  sc_env :: "(string \<rightharpoonup> string) option"
  sc_throws :: bool
  sc_quiet :: bool

record shell_error =
  se_message :: string
  se_command :: string
  se_exit_code :: "int option"
  se_stdout :: string
  se_stderr :: string

definition js_text :: "'o js_engine \<Rightarrow> 'o qjs_value \<Rightarrow> string" where
  "js_text e v = js_display (je_f64_text e) (je_to_cstring e) v"

section \<open>Reading values\<close>

definition js_array_to_strings :: "'o js_engine \<Rightarrow> 'o \<Rightarrow> string \<Rightarrow> string list js_result" where
  "js_array_to_strings e x label =
     js_bind (array_len e x) (\<lambda>_.
       js_bind (array_len e x) (\<lambda>n. string_elements e (label @ '' must be an array of strings'') x [0..<n]))"

definition js_value_to_command_vec :: "'o js_engine \<Rightarrow> 'o qjs_value \<Rightarrow> string \<Rightarrow> string list js_result" where
  "js_value_to_command_vec e v label =
     (case into_object v of
        None \<Rightarrow> Inl (te (label @ '' must be an array of strings''))
      | Some _ \<Rightarrow>
          (case array_from_object v of
             None \<Rightarrow> Inl (te (label @ '' must be an array of strings''))
           | Some x \<Rightarrow> js_array_to_strings e x label))"

definition js_value_to_bytes :: "'o js_engine \<Rightarrow> 'o qjs_value \<Rightarrow> string \<Rightarrow> string option js_result" where
  "js_value_to_bytes e v label =
     (if qjs_is_null v \<or> qjs_is_undefined v then Inr None
      else
        (let text = js_bind (or_type_error (label @ '' must be a string, ArrayBuffer, or TypedArray'') (js_string e v))
                      (\<lambda>s. Inr (Some s)) in
         case into_object v of
           Some x \<Rightarrow>
             (case je_typed_bytes e x of
                Some (Some bytes) \<Rightarrow> Inr (Some bytes)
              | Some None \<Rightarrow> Inl (te (label @ '' contains an invalid TypedArray''))
              | None \<Rightarrow> if qjs_is_array_buffer v then Inr (Some (je_buffer_bytes e x)) else text)
         | None \<Rightarrow> text))"

definition normalize_env_map :: "'o js_engine \<Rightarrow> 'o \<Rightarrow> (string \<rightharpoonup> string) js_result" where
  "normalize_env_map e x =
     js_bind (obj_entries_as e value_from_js x) (\<lambda>es.
       Inr (foldl (\<lambda>m (k, v). if qjs_is_null v \<or> qjs_is_undefined v then m else m(k \<mapsto> js_text e v)) Map.empty es))"

definition ps_of_name :: "string \<Rightarrow> string \<Rightarrow> process_stream_mode js_result" where
  "ps_of_name key mode =
     (if mode = ''pipe'' then Inr PS_Pipe
      else if mode = ''ignore'' then Inr PS_Ignore
      else if mode = ''inherit'' then Inr PS_Inherit
      else Inl (te (mode_message key)))"

definition parse_stream_mode :: "'o js_engine \<Rightarrow> 'o \<Rightarrow> string \<Rightarrow> process_stream_mode js_result" where
  "parse_stream_mode e x key =
     js_bind (obj_has_property e x key) (\<lambda>present.
       if \<not> present then Inr PS_Pipe
       else
         js_bind (obj_get e value_from_js x key) (\<lambda>value.
           if qjs_is_null value \<or> qjs_is_undefined value then Inr PS_Pipe
           else js_bind (or_type_error (mode_message key) (js_string e value)) (ps_of_name key)))"

section \<open>Options of a spawn\<close>

definition spawn_cmd ::
  "'o js_engine \<Rightarrow> 'o qjs_value \<Rightarrow> 'o option \<Rightarrow> (string list \<times> 'o option) js_result" where
  "spawn_cmd e cmd_or_options options =
     (case into_object cmd_or_options of
        None \<Rightarrow> Inl (te ''Rong.spawn() expects a command array or an options object with cmd'')
      | Some x \<Rightarrow>
          (case array_from_object cmd_or_options of
             Some arr \<Rightarrow> js_bind (js_array_to_strings e arr ''cmd'') (\<lambda>cmd. Inr (cmd, options))
           | None \<Rightarrow>
               js_bind (obj_get e value_from_js x ''cmd'') (\<lambda>v.
                 js_bind (js_value_to_command_vec e v ''options.cmd'') (\<lambda>cmd. Inr (cmd, Some x)))))"

text \<open>The input of the child: the conversion to a string is tried first.\<close>

definition parse_stdin :: "'o js_engine \<Rightarrow> 'o qjs_value \<Rightarrow> spawn_stdin_mode \<Rightarrow> spawn_stdin_mode js_result" where
  "parse_stdin e v current =
     (case js_string e v of
        Inr mode \<Rightarrow>
          if mode = ''pipe'' then Inr Stdin_Pipe
          else if mode = ''inherit''
            then Inl (te (''Rong.spawn() does not support stdin: '' @ [sh_dquote] @ ''inherit'' @ [sh_dquote] @ '' yet''))
          else Inr (Stdin_Payload mode)
      | Inl _ \<Rightarrow>
          js_bind (js_value_to_bytes e v ''options.stdin'') (\<lambda>bytes.
            Inr (case bytes of Some b \<Rightarrow> Stdin_Payload b | None \<Rightarrow> current)))"

definition spawn_init :: "string list \<Rightarrow> 'o normalized_spawn" where
  "spawn_init cmd =
     \<lparr>nz_cmd = cmd, nz_cwd = None, nz_env = None, nz_shell = None, nz_timeout = None, nz_stdin = Stdin_AutoClose,
      nz_stdout = PS_Pipe, nz_stderr = PS_Pipe, nz_kill_signal = None, nz_signal = None, nz_on_exit = None\<rparr>"

definition signal_from_js :: "'o js_engine \<Rightarrow> 'o qjs_value \<Rightarrow> 'o js_result" where
  "signal_from_js e v =
     (case into_object v of
        Some x \<Rightarrow> if je_is_signal e x then Inr x else Inl (Host not_object)
      | None \<Rightarrow> Inl (Host not_object))"

definition parse_spawn_options ::
  "'o js_engine \<Rightarrow> 'o qjs_value \<Rightarrow> 'o option \<Rightarrow> 'o normalized_spawn js_result" where
  "parse_spawn_options e cmd_or_options options =
     js_bind (spawn_cmd e cmd_or_options options) (\<lambda>(cmd, opts).
     if cmd = [] then Inl (te ''Rong.spawn() requires a non-empty command array'')
     else
       (case opts of
          None \<Rightarrow> Inr (spawn_init cmd)
        | Some x \<Rightarrow>
            js_bind (when_present e x ''cwd'' (\<lambda>s.
              js_bind (or_type_error ''options.cwd must be a string'' (obj_get e (js_string e) x ''cwd''))
                (\<lambda>cwd. Inr (s\<lparr>nz_cwd := Some cwd\<rparr>))) (spawn_init cmd)) (\<lambda>s.
            js_bind (when_present e x ''env'' (\<lambda>s.
              js_bind (or_type_error ''options.env must be an object'' (obj_get e object_from_js x ''env''))
                (\<lambda>env. js_bind (normalize_env_map e env) (\<lambda>m. Inr (s\<lparr>nz_env := Some m\<rparr>)))) s) (\<lambda>s.
            js_bind (when_present e x ''shell'' (\<lambda>s.
              js_bind (or_type_error ''options.shell must be a boolean'' (obj_get e bool_from_js x ''shell''))
                (\<lambda>b. Inr (s\<lparr>nz_shell := Some b\<rparr>))) s) (\<lambda>s.
            js_bind (when_present e x ''timeout'' (\<lambda>s.
              js_bind (or_type_error ''options.timeout must be a non-negative number'' (obj_get e f64_from_js x ''timeout''))
                (\<lambda>t. js_bind (timeout_of_f64 t) (\<lambda>ms. Inr (s\<lparr>nz_timeout := Some ms\<rparr>)))) s) (\<lambda>s.
            js_bind (when_present e x ''stdin'' (\<lambda>s.
              js_bind (obj_get e value_from_js x ''stdin'') (\<lambda>v.
                js_bind (parse_stdin e v (nz_stdin s)) (\<lambda>m. Inr (s\<lparr>nz_stdin := m\<rparr>)))) s) (\<lambda>s.
            js_bind (parse_stream_mode e x ''stdout'') (\<lambda>out.
            js_bind (parse_stream_mode e x ''stderr'') (\<lambda>err.
            js_bind (when_present e x ''killSignal'' (\<lambda>s.
              js_bind (obj_get e value_from_js x ''killSignal'') (\<lambda>v. Inr (s\<lparr>nz_kill_signal := Some (js_text e v)\<rparr>)))
                (s\<lparr>nz_stdout := out, nz_stderr := err\<rparr>)) (\<lambda>s.
            js_bind (when_present e x ''signal'' (\<lambda>s.
              js_bind (or_type_error ''options.signal must be an AbortSignal'' (obj_get e (signal_from_js e) x ''signal''))
                (\<lambda>sig. Inr (s\<lparr>nz_signal := Some sig\<rparr>))) s) (\<lambda>s.
            when_present e x ''onExit'' (\<lambda>s.
              js_bind (or_type_error ''options.onExit must be a function'' (obj_get e func_from_js x ''onExit''))
                (\<lambda>f. Inr (s\<lparr>nz_on_exit := Some f\<rparr>))) s)))))))))))"

text \<open>The object of options handed on, as the properties set on it.\<close>

datatype native_prop =
    NP_String string | NP_Env "string \<rightharpoonup> string" | NP_Bool bool | NP_Millis u64 | NP_Null | NP_Bytes string
  | NP_Strings "string list"

definition build_native_spawn_options :: "'o normalized_spawn \<Rightarrow> (string \<times> native_prop) list option" where
  "build_native_spawn_options s =
     (let props =
        (case nz_cwd s of Some cwd \<Rightarrow> [(''cwd'', NP_String cwd)] | None \<Rightarrow> []) @
        (case nz_env s of Some env \<Rightarrow> [(''env'', NP_Env env)] | None \<Rightarrow> []) @
        (case nz_shell s of Some b \<Rightarrow> [(''shell'', NP_Bool b)] | None \<Rightarrow> []) @
        (case nz_timeout s of Some t \<Rightarrow> [(''timeout'', NP_Millis t)] | None \<Rightarrow> []) in
      if props = [] then None else Some props)"

definition ps_name :: "process_stream_mode \<Rightarrow> string" where
  "ps_name m = (case m of PS_Pipe \<Rightarrow> ''pipe'' | PS_Ignore \<Rightarrow> ''ignore'' | PS_Inherit \<Rightarrow> ''inherit'')"

definition sync_native_options :: "'o normalized_spawn \<Rightarrow> (string \<times> native_prop) list" where
  "sync_native_options s =
     [(''cmd'', NP_Strings (nz_cmd s))] @
     (case nz_cwd s of Some cwd \<Rightarrow> [(''cwd'', NP_String cwd)] | None \<Rightarrow> []) @
     (case nz_env s of Some env \<Rightarrow> [(''env'', NP_Env env)] | None \<Rightarrow> []) @
     (case nz_shell s of Some b \<Rightarrow> [(''shell'', NP_Bool b)] | None \<Rightarrow> []) @
     (case nz_timeout s of Some t \<Rightarrow> [(''timeout'', NP_Millis t)] | None \<Rightarrow> []) @
     [(''stdin'', case nz_stdin s of Stdin_Payload b \<Rightarrow> NP_Bytes b | _ \<Rightarrow> NP_Null),
      (''stdout'', NP_String (ps_name (nz_stdout s))), (''stderr'', NP_String (ps_name (nz_stderr s)))]"

section \<open>Streams of a child\<close>

text \<open>\<^verbatim>\<open>split\<close> at a character.\<close>

fun split_at :: "char \<Rightarrow> string \<Rightarrow> string list" where
  "split_at c [] = [[]]"
| "split_at c (x # xs) =
     (if x = c then [] # split_at c xs else (case split_at c xs of w # ws \<Rightarrow> (x # w) # ws | [] \<Rightarrow> [[x]]))"

definition make_lines_iterator :: "string \<Rightarrow> string list" where
  "make_lines_iterator text =
     (let ls = split_at (CHR 0x0A) (filter (\<lambda>c. c \<noteq> CHR 0x0D) text) in
      if last ls = [] then butlast ls else ls)"

text \<open>One read of the stream's reader: an error, the end, or a value.\<close>

datatype 'o stream_read = SR_Error rong_js_error | SR_Done | SR_Value "'o qjs_value"

text \<open>The bytes of a stream, \<^const>\<open>None\<close> while it waits for more.\<close>

fun collect_stream_bytes :: "'o js_engine \<Rightarrow> 'o stream_read list \<Rightarrow> string \<Rightarrow> string js_result option" where
  "collect_stream_bytes e [] out = None"
| "collect_stream_bytes e (SR_Error err # rs) out = Some (Inl err)"
| "collect_stream_bytes e (SR_Done # rs) out = Some (Inr out)"
| "collect_stream_bytes e (SR_Value v # rs) out =
     (case js_value_to_bytes e v ''stream chunk'' of
        Inl err \<Rightarrow> Some (Inl err)
      | Inr None \<Rightarrow> collect_stream_bytes e rs out
      | Inr (Some b) \<Rightarrow> collect_stream_bytes e rs (out @ b))"

definition drain_stream :: "process_stream_mode \<Rightarrow> string js_result \<Rightarrow> unit js_result \<times> string" where
  "drain_stream target bytes =
     (case bytes of
        Inl err \<Rightarrow> (Inl err, [])
      | Inr b \<Rightarrow> (Inr (), if target = PS_Inherit \<and> b \<noteq> [] then b else []))"

text \<open>The operations a decorated input performs on its stream; the writer is taken once and kept.\<close>

datatype writer_op = Op_Get_Writer | Op_Write string | Op_Close

definition ensure_writer :: "(writer_op \<Rightarrow> unit js_result) \<Rightarrow> bool \<Rightarrow> unit js_result \<times> bool \<times> writer_op list" where
  "ensure_writer io taken =
     (if taken then (Inr (), True, [])
      else (case io Op_Get_Writer of Inl err \<Rightarrow> (Inl err, False, [Op_Get_Writer]) | Inr _ \<Rightarrow> (Inr (), True, [Op_Get_Writer])))"

definition stdin_write ::
  "'o js_engine \<Rightarrow> (writer_op \<Rightarrow> unit js_result) \<Rightarrow> 'o qjs_value \<Rightarrow> bool \<Rightarrow> unit js_result \<times> bool \<times> writer_op list" where
  "stdin_write e io v taken =
     (case ensure_writer io taken of
        (Inl err, t, ops) \<Rightarrow> (Inl err, t, ops)
      | (Inr _, t, ops) \<Rightarrow>
          (case js_value_to_bytes e v ''stdin'' of
             Inl err \<Rightarrow> (Inl err, t, ops)
           | Inr None \<Rightarrow> (Inl (te ''stdin must be a string, ArrayBuffer, or TypedArray''), t, ops)
           | Inr (Some payload) \<Rightarrow> (io (Op_Write payload), t, ops @ [Op_Write payload])))"

definition stdin_end :: "(writer_op \<Rightarrow> unit js_result) \<Rightarrow> bool \<Rightarrow> unit js_result \<times> bool \<times> writer_op list" where
  "stdin_end io taken =
     (case ensure_writer io taken of
        (Inl err, t, ops) \<Rightarrow> (Inl err, t, ops)
      | (Inr _, t, ops) \<Rightarrow> (io Op_Close, t, ops @ [Op_Close]))"

text \<open>What \<^verbatim>\<open>spawn\<close> does with the input of the child: nothing for a pipe, the end at once, or the payload and the end.\<close>

definition feed_stdin :: "(writer_op \<Rightarrow> unit js_result) \<Rightarrow> spawn_stdin_mode \<Rightarrow> writer_op list" where
  "feed_stdin io mode =
     (case mode of
        Stdin_Pipe \<Rightarrow> []
      | Stdin_AutoClose \<Rightarrow> snd (snd (stdin_end io False))
      | Stdin_Payload b \<Rightarrow>
          (case ensure_writer io False of
             (Inl err, t, ops) \<Rightarrow> ops @ snd (snd (stdin_end io t))
           | (Inr _, t, ops) \<Rightarrow> ops @ [Op_Write b] @ snd (snd (stdin_end io t))))"

text \<open>The abort of a spawned child: at once when the signal has fired, when it fires otherwise.\<close>

definition setup_abort ::
  "(string \<Rightarrow> int option) \<Rightarrow> authority \<Rightarrow> bool \<Rightarrow> bool option \<Rightarrow> bool \<Rightarrow> string option \<Rightarrow> child_process \<Rightarrow>
     child_process \<times> os_event list" where
  "setup_abort parse_i32 a sent signal fires kill_signal c =
     (case signal of
        None \<Rightarrow> (c, [])
      | Some aborted \<Rightarrow>
          if aborted \<or> fires
          then (case cp_kill parse_i32 a sent (Some (case kill_signal of Some s \<Rightarrow> s | None \<Rightarrow> ''SIGTERM'')) c of
                  (_, c', ev) \<Rightarrow> (c', ev))
          else (c, []))"

section \<open>Escaping\<close>

definition escape_cmd_literal :: "string \<Rightarrow> string" where
  "escape_cmd_literal text =
     (if text = [] then [sh_quote, sh_quote]
      else [sh_quote] @ replace_char sh_quote [sh_quote, sh_backslash, sh_quote, sh_quote] text @ [sh_quote])"

text \<open>The variant for Windows.\<close>

definition contains_whitespace :: "string \<Rightarrow> bool" where
  "contains_whitespace s \<longleftrightarrow> list_ex (\<lambda>k. ws_at (drop k s) \<noteq> 0) [0..<length s]"

definition escape_cmd_literal_windows :: "string \<Rightarrow> string" where
  "escape_cmd_literal_windows text =
     (if text = [] then [sh_dquote, sh_dquote]
      else if \<not> (contains_whitespace text \<or> list_ex (\<lambda>c. c \<in> set ''^&|<>()%'') text) then text
      else [sh_dquote] @ replace_char sh_dquote [sh_dquote, sh_dquote] (replace_char (CHR ''%'') ''%%'' text) @ [sh_dquote])"

text \<open>The recursion over nested arrays is bounded by fuel: \<^const>\<open>None\<close> when the nesting is deeper, which is a recursion that
  does not return when an array contains itself.\<close>

fun shell_escape_value :: "nat \<Rightarrow> 'o js_engine \<Rightarrow> 'o qjs_value \<Rightarrow> string js_result option"
  and escape_items :: "nat \<Rightarrow> 'o js_engine \<Rightarrow> 'o qjs_value js_result list \<Rightarrow> string list js_result option" where
  "shell_escape_value 0 e v = None"
| "shell_escape_value (Suc n) e v =
     (let literal = Some (Inr (escape_cmd_literal (js_text e v))) in
      case into_object v of
        None \<Rightarrow> literal
      | Some x \<Rightarrow>
          (case array_from_object v of
             Some arr \<Rightarrow>
               (case js_bind (array_len e arr) (\<lambda>_. array_iter_values e arr) of
                  Inl err \<Rightarrow> Some (Inl err)
                | Inr items \<Rightarrow>
                    map_option (\<lambda>r. js_bind r (\<lambda>parts. Inr (join_with '' '' parts))) (escape_items n e items))
           | None \<Rightarrow>
               (case obj_has_property e x ''raw'' of
                  Inl err \<Rightarrow> Some (Inl err)
                | Inr True \<Rightarrow> Some (js_bind (obj_get e value_from_js x ''raw'') (\<lambda>raw. Inr (js_text e raw)))
                | Inr False \<Rightarrow> literal)))"
| "escape_items n e [] = Some (Inr [])"
| "escape_items n e (item # items) =
     (case item of
        Inl err \<Rightarrow> Some (Inl err)
      | Inr v \<Rightarrow>
          (case shell_escape_value n e v of
             None \<Rightarrow> None
           | Some (Inl err) \<Rightarrow> Some (Inl err)
           | Some (Inr s) \<Rightarrow> map_option (\<lambda>r. js_bind r (\<lambda>parts. Inr (s # parts))) (escape_items n e items)))"

text \<open>The raw strings of a template when it has them, each followed by the escaped value of its place.\<close>

fun compose_loop :: "nat \<Rightarrow> 'o js_engine \<Rightarrow> string list \<Rightarrow> 'o qjs_value list \<Rightarrow> string \<Rightarrow> string js_result option" where
  "compose_loop n e [] values command = Some (Inr command)"
| "compose_loop n e (chunk # chunks) [] command = compose_loop n e chunks [] (command @ chunk)"
| "compose_loop n e (chunk # chunks) (v # values) command =
     (case shell_escape_value n e v of
        None \<Rightarrow> None
      | Some (Inl err) \<Rightarrow> Some (Inl err)
      | Some (Inr s) \<Rightarrow> compose_loop n e chunks values (command @ chunk @ s))"

definition compose_shell_command :: "nat \<Rightarrow> 'o js_engine \<Rightarrow> 'o \<Rightarrow> 'o qjs_value list \<Rightarrow> string js_result option" where
  "compose_shell_command n e strings values =
     (case obj_get e value_from_js strings ''raw'' of
        Inl err \<Rightarrow> Some (Inl err)
      | Inr raw_candidate \<Rightarrow>
          (let raw_strings = (case array_from_object raw_candidate of Some arr \<Rightarrow> arr | None \<Rightarrow> strings) in
           case js_array_to_strings e raw_strings ''template strings'' of
             Inl err \<Rightarrow> Some (Inl err)
           | Inr cooked \<Rightarrow> compose_loop n e cooked values []))"

section \<open>Commands\<close>

definition shell_tag ::
  "nat \<Rightarrow> 'o js_engine \<Rightarrow> authority \<Rightarrow> 'o qjs_value \<Rightarrow> 'o qjs_value list \<Rightarrow> shell_defaults option \<Rightarrow>
     (shell_command js_result \<times> shell_defaults option) option" where
  "shell_tag n e a first rest service =
     (case authorize_process a of
        Inl err \<Rightarrow> Some (Inl err, service)
      | Inr _ \<Rightarrow>
          (case (case array_from_object first of
                   Some arr \<Rightarrow> compose_shell_command n e arr rest
                 | None \<Rightarrow> Some (Inr (js_text e first))) of
             None \<Rightarrow> None
           | Some (Inl err) \<Rightarrow> Some (Inl err, service)
           | Some (Inr command) \<Rightarrow>
               (case shell_defaults_ensure service of
                  (s, service') \<Rightarrow>
                    Some (Inr \<lparr>sc_command = command, sc_cwd = sd_cwd s, sc_env = sd_env s, sc_throws = sd_throws s,
                               sc_quiet = sd_quiet s\<rparr>, service'))))"

text \<open>The setters of the defaults give back the tag itself, and the getters the value; \<^const>\<open>None\<close> is undefined.\<close>

datatype default_answer = DA_Tag | DA_Cwd "string option" | DA_Env "(string \<rightharpoonup> string) option"

definition with_defaults ::
  "authority \<Rightarrow> (shell_defaults \<Rightarrow> (default_answer \<times> shell_defaults) js_result) \<Rightarrow> shell_defaults option \<Rightarrow>
     default_answer js_result \<times> shell_defaults option" where
  "with_defaults a f service =
     (case authorize_process a of
        Inl err \<Rightarrow> (Inl err, service)
      | Inr _ \<Rightarrow>
          (case shell_defaults_ensure service of
             (s, service') \<Rightarrow>
               (case f s of Inl err \<Rightarrow> (Inl err, service') | Inr (answer, s') \<Rightarrow> (Inr answer, Some s'))))"

definition shell_default_cwd ::
  "authority \<Rightarrow> string option \<Rightarrow> shell_defaults option \<Rightarrow> default_answer js_result \<times> shell_defaults option" where
  "shell_default_cwd a path =
     with_defaults a (\<lambda>s. case path of
       Some p \<Rightarrow> Inr (DA_Tag, s\<lparr>sd_cwd := Some p\<rparr>) | None \<Rightarrow> Inr (DA_Cwd (sd_cwd s), s))"

definition shell_default_env ::
  "'o js_engine \<Rightarrow> authority \<Rightarrow> 'o option \<Rightarrow> shell_defaults option \<Rightarrow> default_answer js_result \<times> shell_defaults option" where
  "shell_default_env e a env =
     with_defaults a (\<lambda>s. case env of
       Some x \<Rightarrow> js_bind (normalize_env_map e x) (\<lambda>m. Inr (DA_Tag, s\<lparr>sd_env := Some m\<rparr>))
     | None \<Rightarrow> Inr (DA_Env (sd_env s), s))"

definition shell_default_throws ::
  "authority \<Rightarrow> bool option \<Rightarrow> shell_defaults option \<Rightarrow> default_answer js_result \<times> shell_defaults option" where
  "shell_default_throws a value =
     with_defaults a (\<lambda>s. Inr (DA_Tag, s\<lparr>sd_throws := (case value of Some b \<Rightarrow> b | None \<Rightarrow> True)\<rparr>))"

definition shell_default_nothrow ::
  "authority \<Rightarrow> shell_defaults option \<Rightarrow> default_answer js_result \<times> shell_defaults option" where
  "shell_default_nothrow a = with_defaults a (\<lambda>s. Inr (DA_Tag, s\<lparr>sd_throws := False\<rparr>))"

definition shell_default_quiet ::
  "authority \<Rightarrow> shell_defaults option \<Rightarrow> default_answer js_result \<times> shell_defaults option" where
  "shell_default_quiet a = with_defaults a (\<lambda>s. Inr (DA_Tag, s\<lparr>sd_quiet := True\<rparr>))"

definition with_overrides ::
  "string option option \<Rightarrow> (string \<rightharpoonup> string) option \<Rightarrow> bool option \<Rightarrow> bool option \<Rightarrow> shell_command \<Rightarrow> shell_command" where
  "with_overrides cwd env throws quiet c =
     \<lparr>sc_command = sc_command c,
      sc_cwd = (case cwd of Some x \<Rightarrow> x | None \<Rightarrow> sc_cwd c),
      sc_env = (case env of Some m \<Rightarrow> Some m | None \<Rightarrow> sc_env c),
      sc_throws = (case throws of Some b \<Rightarrow> b | None \<Rightarrow> sc_throws c),
      sc_quiet = (case quiet of Some b \<Rightarrow> b | None \<Rightarrow> sc_quiet c)\<rparr>"

definition command_cwd :: "authority \<Rightarrow> string \<Rightarrow> shell_command \<Rightarrow> shell_command js_result" where
  "command_cwd a path c = js_bind (authorize_process a) (\<lambda>_. Inr (with_overrides (Some (Some path)) None None None c))"

definition command_env :: "'o js_engine \<Rightarrow> authority \<Rightarrow> 'o \<Rightarrow> shell_command \<Rightarrow> shell_command js_result" where
  "command_env e a values c =
     js_bind (authorize_process a) (\<lambda>_.
       js_bind (normalize_env_map e values) (\<lambda>m.
         Inr (with_overrides None (Some ((case sc_env c of Some old \<Rightarrow> old | None \<Rightarrow> Map.empty) ++ m)) None None c)))"

definition command_quiet :: "authority \<Rightarrow> shell_command \<Rightarrow> shell_command js_result" where
  "command_quiet a c = js_bind (authorize_process a) (\<lambda>_. Inr (with_overrides None None None (Some True) c))"

definition command_nothrow :: "authority \<Rightarrow> shell_command \<Rightarrow> shell_command js_result" where
  "command_nothrow a c = js_bind (authorize_process a) (\<lambda>_. Inr (with_overrides None None (Some False) None c))"

definition command_throws :: "authority \<Rightarrow> bool option \<Rightarrow> shell_command \<Rightarrow> shell_command js_result" where
  "command_throws a value c =
     js_bind (authorize_process a) (\<lambda>_.
       Inr (with_overrides None None (Some (case value of Some b \<Rightarrow> b | None \<Rightarrow> True)) None c))"

section \<open>Running a command\<close>

definition shell_error_new :: "string \<Rightarrow> int option \<Rightarrow> string \<Rightarrow> string \<Rightarrow> shell_error" where
  "shell_error_new command exit_code out err =
     \<lparr>se_message = ''Shell command failed with exit code '' @
        (case exit_code of Some c \<Rightarrow> string_of_int c | None \<Rightarrow> ''null'') @ '': '' @ command,
      se_command = command, se_exit_code = exit_code, se_stdout = out, se_stderr = err\<rparr>"

definition command_options :: "shell_command \<Rightarrow> (string \<times> native_prop) list option" where
  "command_options c =
     (let props = (case sc_cwd c of Some cwd \<Rightarrow> [(''cwd'', NP_String cwd)] | None \<Rightarrow> []) @
                  (case sc_env c of Some env \<Rightarrow> [(''env'', NP_Env env)] | None \<Rightarrow> []) in
      if props = [] then None else Some props)"

text \<open>The answer of a run: a runtime error, the shell error thrown for a failed command, or the data with what is written
  to the error stream of the process. The execution of the command is an argument.\<close>

datatype run_answer = Run_Error rong_js_error | Run_Throws shell_error | Run_Data shell_result_data string

definition run_internal ::
  "authority \<Rightarrow> (string \<Rightarrow> (string \<times> native_prop) list option \<Rightarrow> exec_result js_result) \<Rightarrow> shell_command \<Rightarrow> run_answer" where
  "run_internal a exec c =
     (case authorize_process a of
        Inl err \<Rightarrow> Run_Error err
      | Inr _ \<Rightarrow>
          (case exec (sc_command c) (command_options c) of
             Inl err \<Rightarrow> Run_Error err
           | Inr r \<Rightarrow>
               if er_code r \<noteq> Some 0 \<and> sc_throws c
               then Run_Throws (shell_error_new (sc_command c) (er_code r) (er_stdout r) (er_stderr r))
               else Run_Data \<lparr>rd_stdout = er_stdout r, rd_stderr = er_stderr r, rd_exit_code = er_code r\<rparr>
                      (if \<not> sc_quiet c \<and> er_stderr r \<noteq> [] then er_stderr r else [])))"

definition run_success :: "shell_result_data \<Rightarrow> bool" where
  "run_success d \<longleftrightarrow> rd_exit_code d = Some 0"

definition run_text :: "shell_result_data \<Rightarrow> string" where
  "run_text d = from_utf8_lossy (rd_stdout d)"

definition run_lines :: "shell_result_data \<Rightarrow> string list" where
  "run_lines d = make_lines_iterator (run_text d)"

section \<open>Interpolated values are literal\<close>

interpretation literals: literal_quoting escape_cmd_literal
  by unfold_locales (simp add: escape_cmd_literal_def scan_quoted_body open_word_def)

text \<open>The documented behaviour of the engine this rests on: a string converts to itself.\<close>

definition strings_convert :: "'o js_engine \<Rightarrow> bool" where
  "strings_convert e \<longleftrightarrow> (\<forall>s. je_to_cstring e (V_String s) = Some s)"

lemma escape_string_value:
  "strings_convert e \<Longrightarrow> shell_escape_value (Suc n) e (owned (V_String s)) = Some (Inr (escape_cmd_literal s))"
  by (simp add: strings_convert_def js_text_def display_of_string into_object_def owned_def Let_def)
    (simp add: js_display_def js_type_of_def qjs_test_defs string_from_js_def convert_with_def)

text \<open>
  The values a template protects: a value that is no object, or a plain object without a \<^verbatim>\<open>raw\<close> property, stands for its
  text, and an array of such values for the texts of its elements, as so many words.
\<close>

datatype template_value = TV_Text string | TV_Words "string list"

definition stands_for_text :: "'o js_engine \<Rightarrow> 'o qjs_value \<Rightarrow> string \<Rightarrow> bool" where
  "stands_for_text e v t \<longleftrightarrow> js_text e v = t \<and>
     (case into_object v of None \<Rightarrow> True | Some x \<Rightarrow> array_from_object v = None \<and> obj_has_property e x ''raw'' = Inr False)"

definition stands_for :: "'o js_engine \<Rightarrow> 'o qjs_value \<Rightarrow> template_value \<Rightarrow> bool" where
  "stands_for e v tv \<longleftrightarrow>
     (case tv of
        TV_Text t \<Rightarrow> stands_for_text e v t
      | TV_Words ts \<Rightarrow>
          \<exists>x us. array_from_object v = Some x \<and> array_len e x = Inr (length us) \<and>
            array_iter_values e x = Inr (map Inr us) \<and> list_all2 (stands_for_text e) us ts)"

text \<open>
  What a template means: its chunks are read by the shell as plain words and quoted strings, and each value adds its
  text, or the words of its array, at its place, which must lie outside quotes.
\<close>

definition tv_texts :: "template_value \<Rightarrow> string list" where
  "tv_texts tv = (case tv of TV_Text t \<Rightarrow> [t] | TV_Words ts \<Rightarrow> ts)"

fun template_scan :: "string list \<Rightarrow> template_value list \<Rightarrow> sh_state \<Rightarrow> sh_state option" where
  "template_scan [] tvs st = Some st"
| "template_scan (c # cs) [] st = (case sh_scan c st of None \<Rightarrow> None | Some st' \<Rightarrow> template_scan cs [] st')"
| "template_scan (c # cs) (tv # tvs) st =
     (case sh_scan c st of
        Some (Unquoted, w, ws) \<Rightarrow> template_scan cs tvs (words_at (tv_texts tv) w ws)
      | _ \<Rightarrow> None)"

lemma escape_text:
  "stands_for_text e v t \<Longrightarrow> shell_escape_value (Suc n) e v = Some (Inr (escape_cmd_literal t))"
  by (auto simp: stands_for_text_def Let_def split: option.splits)

lemma escape_texts:
  "list_all2 (stands_for_text e) us ts \<Longrightarrow>
   escape_items (Suc n) e (map Inr us) = Some (Inr (map escape_cmd_literal ts))"
  by (induction rule: list_all2_induct) (simp_all add: escape_text del: shell_escape_value.simps)

lemma escape_value_scan:
  assumes "stands_for e v tv"
  shows "\<exists>s. shell_escape_value (Suc (Suc n)) e v = Some (Inr s) \<and>
    sh_scan s (Unquoted, w, ws) = Some (words_at (tv_texts tv) w ws)"
proof (cases tv)
  case (TV_Text t)
  then show ?thesis
    using escape_text [of e v t "Suc n"] literals.quoted_words_at [of "[t]" w ws] assms
    by (simp add: stands_for_def tv_texts_def del: shell_escape_value.simps)
next
  case (TV_Words ts)
  then obtain x us where v: "array_from_object v = Some x" "array_len e x = Inr (length us)"
    "array_iter_values e x = Inr (map Inr us)" "list_all2 (stands_for_text e) us ts"
    using assms by (auto simp: stands_for_def)
  moreover have "into_object v = Some x" using v(1) by (auto simp: array_from_object_def split: if_splits)
  ultimately have "shell_escape_value (Suc (Suc n)) e v = Some (Inr (join_with '' '' (map escape_cmd_literal ts)))"
    using escape_texts [of e us ts n] by (simp add: Let_def del: escape_items.simps)
  then show ?thesis using literals.quoted_words_at [of ts w ws] TV_Words by (simp add: tv_texts_def)
qed

lemma compose_loop_scan:
  assumes "template_scan chunks tvs st = Some st'" "sh_scan before st0 = Some st" "list_all2 (stands_for e) vals tvs"
  shows "\<exists>command. compose_loop (Suc (Suc n)) e chunks vals before = Some (Inr command) \<and> sh_scan command st0 = Some st'"
  using assms
proof (induction chunks tvs st arbitrary: before vals rule: template_scan.induct)
  case (2 c cs st)
  then show ?case by (auto simp: sh_scan_append split: option.splits)
next
  case (3 c cs tv tvs st)
  obtain w ws where sc: "sh_scan c st = Some (Unquoted, w, ws)"
    and rest: "template_scan cs tvs (words_at (tv_texts tv) w ws) = Some st'"
    using "3.prems"(1) by (auto split: option.splits quoting.splits prod.splits)
  obtain v vs where v: "vals = v # vs" "stands_for e v tv" "list_all2 (stands_for e) vs tvs"
    using "3.prems"(3) by (auto simp: list_all2_Cons2)
  obtain s where s: "shell_escape_value (Suc (Suc n)) e v = Some (Inr s)"
    "sh_scan s (Unquoted, w, ws) = Some (words_at (tv_texts tv) w ws)"
    using escape_value_scan [OF v(2)] by blast
  have "sh_scan (before @ c @ s) st0 = Some (words_at (tv_texts tv) w ws)"
    using sh_scan_append [OF "3.prems"(2), of "c @ s"] sh_scan_append [OF sc, of s] s(2) by simp
  from "3.IH" [OF sc refl refl refl rest this v(3)]
  show ?case by (simp add: v(1) s(1) del: shell_escape_value.simps)
qed auto

text \<open>
  C18. What is interpolated into a shell template is never interpreted by a POSIX shell. This holds for the values the escaping
  covers: everything that is no object, objects without a \<^verbatim>\<open>raw\<close> property, and arrays of these (an object with a \<^verbatim>\<open>raw\<close>
  property is inserted as it is, by design); and for templates whose own text is made of plain words and quoted strings,
  with every place outside quotes. Then the words the shell makes of the composed command are those of the template's
  own text with each value added, character for character, to the word at its place, an array adding as many words as it
  has elements: no value can end a word, start a command or be expanded, whatever it holds.\<close>

theorem template_values_are_literal:
  assumes "obj_get e value_from_js strings ''raw'' = Inr raw" "array_from_object raw = Some arr"
    "js_array_to_strings e arr ''template strings'' = Inr chunks"
    "list_all2 (stands_for e) vals tvs"
    "template_scan chunks tvs (Unquoted, None, []) = Some (Unquoted, w, ws)"
  shows "\<exists>command. compose_shell_command (Suc (Suc n)) e strings vals = Some (Inr command) \<and>
    sh_words command = Some (close_word w ws)"
proof -
  obtain command where "compose_loop (Suc (Suc n)) e chunks vals [] = Some (Inr command)"
    "sh_scan command (Unquoted, None, []) = Some (Unquoted, w, ws)"
    using compose_loop_scan [OF assms(5) _ assms(4), of "[]" "(Unquoted, None, [])" n] by auto
  then show ?thesis using assms(1-3) by (simp add: compose_shell_command_def sh_words_def)
qed

text \<open>An engine with one template object: its raw strings are an array of two chunks.\<close>

definition demo_engine :: "nat js_engine" where
  "demo_engine =
     \<lparr>je_to_cstring = (\<lambda>r. case r of V_String s \<Rightarrow> Some s | V_Object _ i \<Rightarrow> Some ''1,2'' | V_Null \<Rightarrow> Some ''null'' | _ \<Rightarrow> None),
      je_f64_text = (\<lambda>_. ''0''),
      je_has_property = (\<lambda>x k. Inr (x = 0 \<and> k = ''raw'' \<or> x = 1 \<and> (k = ''0'' \<or> k = ''1'') \<or> x = 2 \<and> k = ''stdin'' \<or>
                                    x = 4 \<and> k = ''0'')),
      je_get_property = (\<lambda>x k. Inr (
         if x = 0 \<and> k = ''raw'' then Some (owned (V_Object C_Array 1))
         else if x = 1 \<and> k = ''0'' then Some (owned (V_String ''rm -- x''))
         else if x = 1 \<and> k = ''1'' then Some (owned (V_String '' y''))
         else if x = 2 \<and> k = ''stdin'' then Some (owned (V_Object C_Plain 3))
         else if x = 4 \<and> k = ''0'' then Some (owned (V_Object C_Array 4))
         else None)),
      je_own_names = (\<lambda>_. Inr []),
      je_array_len = (\<lambda>x. Inr (if x = 1 then 2 else if x = 4 then 1 else 0)),
      je_typed_bytes = (\<lambda>x. if x = 3 then Some (Some [CHR 0x01, CHR 0x02]) else None),
      je_buffer_bytes = (\<lambda>_. []), je_is_signal = (\<lambda>_. False)\<rparr>"

lemma demo_names: "string_of_nat 0 = ''0''" "string_of_nat 1 = ''1''" "string_of_nat (Suc 0) = ''1''"
  by code_simp+

lemma demo_template:
  "strings_convert demo_engine" "obj_get demo_engine value_from_js 0 ''raw'' = Inr (owned (V_Object C_Array 1))"
  "array_from_object (owned (V_Object C_Array 1) :: nat qjs_value) = Some 1"
  "js_array_to_strings demo_engine 1 ''template strings'' = Inr [''rm -- x'', '' y'']"
  by (simp_all add: strings_convert_def demo_engine_def obj_get_def obj_lookup_def value_from_js_def qjs_is_undefined_def
      owned_def array_from_object_def qjs_is_array_def is_class_def into_object_def js_array_to_strings_def array_len_def
      array_get_opt_def array_get_value_def js_string_def string_from_js_def convert_with_def demo_names upt_rec)

lemma string_stands_for: "strings_convert e \<Longrightarrow> stands_for_text e (owned (V_String t)) t"
  by (simp add: stands_for_text_def strings_convert_def js_text_def display_of_string into_object_def owned_def)
    (simp add: js_display_def js_type_of_def qjs_test_defs string_from_js_def convert_with_def)

text \<open>The template with the string \<^verbatim>\<open>; rm -rf /\<close> at its place, and the same with the array of its own two chunks.\<close>

theorem template_values_are_literal_witness:
  "\<exists>command1 command2.
     compose_shell_command 2 demo_engine 0 [owned (V_String ''; rm -rf /'')] = Some (Inr command1) \<and>
     sh_words command1 = Some [''rm'', ''--'', ''x; rm -rf /'', ''y''] \<and>
     compose_shell_command 2 demo_engine 0 [owned (V_Object C_Array 1)] = Some (Inr command2) \<and>
     sh_words command2 = Some [''rm'', ''--'', ''xrm -- x'', '' y'', ''y'']"
proof -
  note tx = string_stands_for [OF demo_template(1)]
  have "template_scan [''rm -- x'', '' y''] [TV_Text ''; rm -rf /''] (Unquoted, None, []) =
      Some (Unquoted, Some ''y'', [''rm'', ''--'', ''x; rm -rf /''])"
    "template_scan [''rm -- x'', '' y''] [TV_Words [''rm -- x'', '' y'']] (Unquoted, None, []) =
      Some (Unquoted, Some ''y'', [''rm'', ''--'', ''xrm -- x'', '' y''])"
    by (simp_all add: sh_char_defs add_char_def close_word_def open_word_def tv_texts_def)
  moreover have "list_all2 (stands_for demo_engine) [owned (V_String ''; rm -rf /'')] [TV_Text ''; rm -rf /'']"
    using tx by (simp add: stands_for_def)
  moreover have "list_all2 (stands_for demo_engine) [owned (V_Object C_Array 1)] [TV_Words [''rm -- x'', '' y'']]"
  proof -
    have "array_iter_values demo_engine 1 = Inr (map Inr [owned (V_String ''rm -- x''), owned (V_String '' y'')])"
      by (simp add: array_iter_values_def array_len_def array_get_value_def demo_engine_def demo_names upt_rec)
    moreover have "array_len demo_engine 1 = Inr (length [owned (V_String ''rm -- x'') :: nat qjs_value, owned (V_String '' y'')])"
      by (simp add: array_len_def demo_engine_def)
    ultimately show ?thesis using demo_template(3) tx [of "''rm -- x''"] tx [of "'' y''"]
      unfolding stands_for_def by (auto intro!: exI [of _ "[owned (V_String ''rm -- x''), owned (V_String '' y'')]"])
  qed
  ultimately show ?thesis
    using template_values_are_literal [OF demo_template(2-4), of "[owned (V_String ''; rm -rf /'')]" "[TV_Text ''; rm -rf /'']" _ _ 0]
      template_values_are_literal [OF demo_template(2-4), of "[owned (V_Object C_Array 1)]" "[TV_Words [''rm -- x'', '' y'']]" _ _ 0]
    by (simp add: close_word_def numeral_2_eq_2)
qed

text \<open>An object with a \<^verbatim>\<open>raw\<close> property is inserted as it is, also when the shell interprets its text.\<close>

lemma raw_value_unescaped:
  assumes "into_object v = Some x" "array_from_object v = None" "obj_has_property e x ''raw'' = Inr True"
    "obj_get e value_from_js x ''raw'' = Inr raw"
  shows "shell_escape_value (Suc n) e v = Some (Inr (js_text e raw))"
  using assms by (simp add: js_bind_def Let_def)

text \<open>Inside double quotes the value is not protected: the shell expands what stands between them.\<close>

lemma quoted_place_expands:
  "sh_words (''echo '' @ [sh_dquote] @ escape_cmd_literal ''$(id)'' @ [sh_dquote]) = None"
  by (simp add: escape_cmd_literal_def sh_words_def sh_char_defs add_char_def open_word_def close_word_def)

text \<open>On Windows a text with a double quote and nothing else special is left as it is.\<close>

lemma windows_quote_unescaped: "escape_cmd_literal_windows [sh_dquote] = [sh_dquote]"
  by (simp add: escape_cmd_literal_windows_def contains_whitespace_def ws_at_def byte_of_def sh_dquote_def)

text \<open>Bytes given as the input of a child are sent as the text they convert to, because the conversion to a string is tried
  before the bytes; and a null input is sent as the word null.\<close>

lemma stdin_bytes_become_text:
  "parse_stdin demo_engine (owned (V_Object C_Plain 3)) Stdin_AutoClose = Inr (Stdin_Payload ''1,2'')"
  "js_value_to_bytes demo_engine (owned (V_Object C_Plain 3)) ''options.stdin'' = Inr (Some [CHR 0x01, CHR 0x02])"
  "parse_stdin demo_engine (owned V_Null) Stdin_AutoClose = Inr (Stdin_Payload ''null'')"
  by (simp_all add: parse_stdin_def js_string_def string_from_js_def convert_with_def demo_engine_def owned_def
      js_value_to_bytes_def qjs_is_null_def qjs_is_undefined_def into_object_def Let_def)

text \<open>An array that contains itself is escaped forever.\<close>

lemma cyclic_array_never_returns: "shell_escape_value n demo_engine (owned (V_Object C_Array 4)) = None"
proof (induction n)
  case (Suc n)
  have "array_iter_values demo_engine 4 = Inr [Inr (owned (V_Object C_Array 4))]"
    by (simp add: array_iter_values_def array_len_def array_get_value_def demo_engine_def demo_names)
  then show ?case using Suc
    by (simp add: into_object_def owned_def array_from_object_def qjs_is_array_def is_class_def array_len_def demo_engine_def)
qed simp

end
