(* ===== verification/Cron_Schedule.thy ===== *)
theory Cron_Schedule
  imports Js_Object Rust_String
begin

text \<open>
  Cron expressions of \<^verbatim>\<open>modules/rong_cron/src/lib.rs\<close>: nicknames, long names and field count, the expressions handed to
  the scheduler, and \<^verbatim>\<open>cron.parse\<close>. The parser and the scheduler are third-party crates (\<^verbatim>\<open>croner\<close>,
  \<^verbatim>\<open>tokio_cron_scheduler\<close>): when an expression is due is a parameter.
\<close>

section \<open>Strings\<close>

text \<open>\<^verbatim>\<open>str::replace\<close>: the matches from the left, not overlapping.\<close>

function replace_str :: "string \<Rightarrow> string \<Rightarrow> string \<Rightarrow> string" where
  "replace_str p r s =
     (if s = [] \<or> p = [] then s
      else if starts_with p s then r @ replace_str p r (drop (length p) s)
      else hd s # replace_str p r (tl s))"
  by auto
termination by (relation "measure (\<lambda>(p, r, s). length s)") auto

declare replace_str.simps [simp del]

text \<open>\<^verbatim>\<open>split_whitespace\<close>, with the word read so far.\<close>

function split_words :: "string \<Rightarrow> string \<Rightarrow> string list" where
  "split_words cur s =
     (if s = [] then (if cur = [] then [] else [cur])
      else if ws_at s = 0 then split_words (cur @ [hd s]) (tl s)
      else (if cur = [] then [] else [cur]) @ split_words [] (drop (ws_at s) s))"
  by auto
termination by (relation "measure (\<lambda>(cur, s). length s)") auto

declare split_words.simps [simp del]

definition split_whitespace :: "string \<Rightarrow> string list" where
  "split_whitespace s = split_words [] s"

section \<open>Expressions\<close>

definition cron_error :: "string \<Rightarrow> rong_js_error" where
  "cron_error m = Host (with_name ''TypeError'' (he_new E_TYPE m))"

definition nickname :: "string \<Rightarrow> string option" where
  "nickname n =
     map_of [(''@YEARLY'', ''0 0 1 1 *''), (''@ANNUALLY'', ''0 0 1 1 *''), (''@MONTHLY'', ''0 0 1 * *''),
             (''@WEEKLY'', ''0 0 * * 0''), (''@DAILY'', ''0 0 * * *''), (''@MIDNIGHT'', ''0 0 * * *''),
             (''@HOURLY'', ''0 * * * *'')] n"

definition long_names :: "(string \<times> string) list" where
  "long_names =
     [(''SUNDAY'', ''SUN''), (''MONDAY'', ''MON''), (''TUESDAY'', ''TUE''), (''WEDNESDAY'', ''WED''),
      (''THURSDAY'', ''THU''), (''FRIDAY'', ''FRI''), (''SATURDAY'', ''SAT''), (''JANUARY'', ''JAN''),
      (''FEBRUARY'', ''FEB''), (''MARCH'', ''MAR''), (''APRIL'', ''APR''), (''JUNE'', ''JUN''), (''JULY'', ''JUL''),
      (''AUGUST'', ''AUG''), (''SEPTEMBER'', ''SEP''), (''OCTOBER'', ''OCT''), (''NOVEMBER'', ''NOV''),
      (''DECEMBER'', ''DEC'')]"

definition shorten_names :: "string \<Rightarrow> string" where
  "shorten_names s = foldl (\<lambda>s (full, short). replace_str full short s) s long_names"

definition normalize_expression :: "string \<Rightarrow> string js_result" where
  "normalize_expression expression =
     (let normalized = to_ascii_uppercase (trim expression) in
      if normalized = [] then Inl (cron_error ''Cron expression must not be empty'')
      else
        js_bind
          (case nickname normalized of
             Some e \<Rightarrow> Inr e
           | None \<Rightarrow>
               if starts_with ''@'' normalized
               then Inl (cron_error (''Unsupported cron nickname: '' @ trim expression))
               else Inr normalized)
          (\<lambda>normalized.
             let normalized = shorten_names normalized in
             if length (split_whitespace normalized) \<noteq> 5
             then Inl (cron_error ''Cron expression must be a 5-field expression or a supported nickname'')
             else Inr normalized))"

definition parse_cron :: "(string \<Rightarrow> 'c option) \<Rightarrow> string \<Rightarrow> 'c js_result" where
  "parse_cron parser expression =
     js_bind (normalize_expression expression) (\<lambda>normalized.
       case parser normalized of
         None \<Rightarrow> Inl (cron_error (''Invalid cron expression: '' @ expression))
       | Some c \<Rightarrow> Inr c)"

definition scheduler_expressions :: "string \<Rightarrow> string list js_result" where
  "scheduler_expressions expression =
     js_bind (normalize_expression expression) (\<lambda>normalized.
       case split_whitespace normalized of
         [minute, hour, day, month, dow] \<Rightarrow>
           if day \<noteq> ''*'' \<and> dow \<noteq> ''*''
           then Inr [''0 '' @ minute @ '' '' @ hour @ '' '' @ day @ '' '' @ month @ '' *'',
                     ''0 '' @ minute @ '' '' @ hour @ '' * '' @ month @ '' '' @ dow]
           else Inr [''0 '' @ normalized]
       | _ \<Rightarrow> Inl (cron_error ''Cron expression must be a 5-field expression or a supported nickname''))"

section \<open>The next occurrence\<close>

definition f64_is_finite :: "f64_value \<Rightarrow> bool" where
  "f64_is_finite x = (case x of F64_Fin _ _ \<Rightarrow> True | _ \<Rightarrow> False)"

text \<open>The range of \<^verbatim>\<open>chrono\<close> is an argument: the time of a number of milliseconds, when there is one.\<close>

definition date_time_from_epoch_ms :: "(64 word \<Rightarrow> 't option) \<Rightarrow> f64_value \<Rightarrow> 't js_result" where
  "date_time_from_epoch_ms timestamp ms =
     (if \<not> f64_is_finite ms then Inl (cron_error ''Cron relativeDate must be a finite number or Date'')
      else
        (case timestamp (f64_as_i64 ms) of
           None \<Rightarrow> Inl (cron_error ''Cron relativeDate is outside the supported Date range'')
         | Some t \<Rightarrow> Inr t))"

text \<open>The milliseconds to start from: now, the time of a Date (what its \<^verbatim>\<open>getTime\<close> answers), or a number.\<close>

definition relative_date_ms ::
  "f64_value \<Rightarrow> ('o qjs_value \<Rightarrow> f64_value js_result) \<Rightarrow> 'o qjs_value option \<Rightarrow> f64_value js_result" where
  "relative_date_ms now get_time v =
     (case v of
        None \<Rightarrow> Inr now
      | Some v \<Rightarrow>
          if qjs_is_undefined v \<or> qjs_is_null v then Inr now
          else if qjs_is_date v
          then js_bind (get_time v) (\<lambda>time.
                 if f64_is_finite time then Inr time
                 else Inl (cron_error ''Cron relativeDate must be a valid Date''))
          else
            (case f64_from_js v of
               Inl _ \<Rightarrow> Inl (cron_error ''Cron relativeDate must be a finite number or Date'')
             | Inr time \<Rightarrow>
                 if f64_is_finite time then Inr time
                 else Inl (cron_error ''Cron relativeDate must be a finite number or Date'')))"

text \<open>The answer: the milliseconds of the next occurrence, or \<^const>\<open>None\<close> for null.\<close>

definition cron_parse ::
  "(string \<Rightarrow> 'c option) \<Rightarrow> (64 word \<Rightarrow> 't option) \<Rightarrow> ('c \<Rightarrow> 't \<Rightarrow> int option) \<Rightarrow> f64_value \<Rightarrow>
     ('o qjs_value \<Rightarrow> f64_value js_result) \<Rightarrow> string \<Rightarrow> 'o qjs_value option \<Rightarrow> f64_value option js_result" where
  "cron_parse parser timestamp next now get_time expression relative_date =
     js_bind (parse_cron parser expression) (\<lambda>cron.
     js_bind (relative_date_ms now get_time relative_date) (\<lambda>ms.
     js_bind (date_time_from_epoch_ms timestamp ms) (\<lambda>start.
       Inr (map_option f64_of_int (next cron start)))))"

section \<open>Words\<close>

lemma ws_at_append: "ws_at u \<noteq> 0 \<Longrightarrow> ws_at (u @ x) = ws_at u"
  by (cases u; cases "tl u"; cases "tl (tl u)") (auto simp: ws_at_def split: if_splits)

lemma ws_at_before_space: "u \<noteq> [] \<Longrightarrow> ws_at u = 0 \<Longrightarrow> ws_at (u @ CHR '' '' # r) = 0"
  by (cases u; cases "tl u"; cases "tl (tl u)"; cases r) (auto simp: ws_at_def byte_of_def split: if_splits)

lemma ws_at_space [simp]: "ws_at (CHR '' '' # r) = 1"
  by (simp add: ws_at_def byte_of_def)

text \<open>A word: not empty, and no white space starts in it.\<close>

definition word :: "string \<Rightarrow> bool" where
  "word w \<longleftrightarrow> w \<noteq> [] \<and> (\<forall>i < length w. ws_at (drop i w) = 0)"

lemma split_words_inner:
  assumes "\<forall>i < length w. ws_at (drop i w @ r) = 0"
  shows "split_words cur (w @ r) = split_words (cur @ w) r"
  using assms
proof (induction w arbitrary: cur)
  case (Cons c w)
  have "ws_at (c # w @ r) = 0" using Cons.prems by force
  moreover have "\<forall>i < length w. ws_at (drop i w @ r) = 0" using Cons.prems by force
  ultimately show ?case using Cons.IH [of "cur @ [c]"] by (subst split_words.simps) simp
qed simp

lemma split_words_space: "word w \<Longrightarrow> split_words [] (w @ CHR '' '' # r) = w # split_words [] r"
proof -
  assume w: "word w"
  have "\<forall>i < length w. ws_at (drop i w @ CHR '' '' # r) = 0"
    using w ws_at_before_space by (auto simp: word_def)
  then have "split_words [] (w @ CHR '' '' # r) = split_words w (CHR '' '' # r)"
    using split_words_inner [of w "CHR '' '' # r" "[]"] by simp
  also have "\<dots> = w # split_words [] r" using w by (subst split_words.simps) (simp add: word_def)
  finally show ?thesis .
qed

lemma split_words_single: "word w \<Longrightarrow> split_words [] w = [w]"
  using split_words_inner [of w "[]" "[]"] by (simp add: word_def split_words.simps)

lemma split_words_are_words:
  assumes "\<forall>i < length cur. ws_at (drop i cur @ s) = 0" "w \<in> set (split_words cur s)"
  shows "word w"
  using assms
proof (induction cur s rule: split_words.induct)
  case (1 cur s)
  have cur: "word cur" if "cur \<noteq> []"
    using that "1.prems"(1) ws_at_append by (force simp: word_def)
  show ?case
  proof (cases "s = []")
    case True
    then show ?thesis using cur "1.prems"(2) by (auto simp: split_words.simps [of cur] split: if_splits)
  next
    case False
    show ?thesis
    proof (cases "ws_at s = 0")
      case True
      have "\<forall>i < length (cur @ [hd s]). ws_at (drop i (cur @ [hd s]) @ tl s) = 0"
        using "1.prems"(1) False True by (auto simp: less_Suc_eq)
      then show ?thesis
        using "1.IH"(1) [OF False True] "1.prems"(2) False True by (simp add: split_words.simps [of cur s])
    next
      case nz: False
      then show ?thesis
        using "1.IH"(2) [OF False nz] "1.prems"(2) False cur
        by (auto simp: split_words.simps [of cur s] split: if_splits)
    qed
  qed
qed

lemma split_whitespace_words: "w \<in> set (split_whitespace s) \<Longrightarrow> word w"
  using split_words_are_words [of "[]" s w] by (simp add: split_whitespace_def)

section \<open>What the scheduler is told\<close>

text \<open>
  The documented behaviour of the two crates. A field of an expression tells when it is met, a star always, and in the two
  day fields a question mark is a star. The scheduler runs a job when all six fields are met; the parser's five fields
  are met when minute, hour and month are and, as cron has it, either of the two day fields when both are restricted and
  both otherwise.
\<close>

datatype field = F_Second | F_Minute | F_Hour | F_Day | F_Month | F_Weekday

definition all_fields_met :: "(field \<Rightarrow> string \<Rightarrow> 't \<Rightarrow> bool) \<Rightarrow> (string \<Rightarrow> 't \<Rightarrow> bool) \<Rightarrow> bool" where
  "all_fields_met met due \<longleftrightarrow>
     (\<forall>e t sec minute hour day month dow. split_whitespace e = [sec, minute, hour, day, month, dow] \<longrightarrow>
        due e t = (met F_Second sec t \<and> met F_Minute minute t \<and> met F_Hour hour t \<and> met F_Day day t \<and>
                   met F_Month month t \<and> met F_Weekday dow t))"

definition wildcard :: "string \<Rightarrow> bool" where
  "wildcard s \<longleftrightarrow> s = ''*'' \<or> s = ''?''"

lemma wildcards [simp]: "wildcard ''*''" "wildcard ''?''"
  by (simp_all add: wildcard_def)

definition either_day_met :: "(field \<Rightarrow> string \<Rightarrow> 't \<Rightarrow> bool) \<Rightarrow> (string \<Rightarrow> 't \<Rightarrow> bool) \<Rightarrow> bool" where
  "either_day_met met due \<longleftrightarrow>
     (\<forall>e t minute hour day month dow. split_whitespace e = [minute, hour, day, month, dow] \<longrightarrow>
        due e t = (met F_Minute minute t \<and> met F_Hour hour t \<and> met F_Month month t \<and>
                   (if \<not> wildcard day \<and> \<not> wildcard dow then met F_Day day t \<or> met F_Weekday dow t
                    else met F_Day day t \<and> met F_Weekday dow t)))"

definition star_always_met :: "(field \<Rightarrow> string \<Rightarrow> 't \<Rightarrow> bool) \<Rightarrow> bool" where
  "star_always_met met \<longleftrightarrow> (\<forall>f t. met f ''*'' t) \<and> (\<forall>t. met F_Day ''?'' t \<and> met F_Weekday ''?'' t)"

text \<open>One day field is a question mark and the other is restricted.\<close>

definition question_beside_day :: "string \<Rightarrow> bool" where
  "question_beside_day n =
     (case split_whitespace n of
        [minute, hour, day, month, dow] \<Rightarrow> day = ''?'' \<and> \<not> wildcard dow \<or> dow = ''?'' \<and> \<not> wildcard day
      | _ \<Rightarrow> False)"

lemma word_chars [simp]: "word ''0''" "word ''*''"
  by (simp_all add: word_def ws_at_def byte_of_def)

lemma five_words: "length xs = 5 \<Longrightarrow> \<exists>a b c d e. xs = [a, b, c, d, e]"
  by (auto simp: length_Suc_conv numeral_eq_Suc)

text \<open>A normalized expression always gives the scheduler expressions of six fields.\<close>

lemma scheduler_fields:
  assumes "normalize_expression expression = Inr n"
  obtains minute hour day month dow where
    "split_whitespace n = [minute, hour, day, month, dow]"
    "word minute" "word hour" "word day" "word month" "word dow"
proof -
  have "length (split_whitespace n) = 5"
    using assms by (auto simp: normalize_expression_def Let_def js_bind_Inr_iff split: if_splits)
  from five_words [OF this] obtain a b c d e where w: "split_whitespace n = [a, b, c, d, e]" by blast
  then have "\<forall>x \<in> {a, b, c, d, e}. word x" using split_whitespace_words [of _ n] by simp
  then show ?thesis using that w by simp
qed

text \<open>What the jobs of an expression do, field by field.\<close>

lemma scheduled_fields:
  assumes "all_fields_met met fires" "star_always_met met" "normalize_expression expression = Inr n"
    "split_whitespace n = [minute, hour, day, month, dow]"
    "word minute" "word hour" "word day" "word month" "word dow"
  shows "\<exists>es. scheduler_expressions expression = Inr es \<and>
    (\<forall>t. (\<exists>e \<in> set es. fires e t) =
      (met F_Second ''0'' t \<and> met F_Minute minute t \<and> met F_Hour hour t \<and> met F_Month month t \<and>
       (if day \<noteq> ''*'' \<and> dow \<noteq> ''*'' then met F_Day day t \<or> met F_Weekday dow t
        else met F_Day day t \<and> met F_Weekday dow t)))"
proof -
  note w = assms(4-9)
  have split6: "fires e t = (met F_Second a t \<and> met F_Minute b t \<and> met F_Hour c t \<and> met F_Day d t \<and>
      met F_Month m t \<and> met F_Weekday v t)" if "split_words [] e = [a, b, c, d, m, v]" for e t a b c d m v
    using assms(1) that by (simp add: all_fields_met_def split_whitespace_def)
  have e1: "split_words [] (''0 '' @ minute @ '' '' @ hour @ '' '' @ day @ '' '' @ month @ '' *'') =
      [''0'', minute, hour, day, month, ''*'']"
    using w split_words_space [of "''0''"] by (simp add: split_words_space split_words_single)
  have e2: "split_words [] (''0 '' @ minute @ '' '' @ hour @ '' * '' @ month @ '' '' @ dow) =
      [''0'', minute, hour, ''*'', month, dow]"
    using w split_words_space [of "''0''"] split_words_space [of "''*''"] by (simp add: split_words_space split_words_single)
  have e3: "split_words [] (''0 '' @ n) = [''0'', minute, hour, day, month, dow]"
    using w(1) split_words_space [of "''0''"] by (simp add: split_whitespace_def)
  have star: "met f ''*'' t" for f t using assms(2) by (simp add: star_always_met_def)
  show ?thesis
  proof (cases "day \<noteq> ''*'' \<and> dow \<noteq> ''*''")
    case True
    then have "scheduler_expressions expression = Inr [''0 '' @ minute @ '' '' @ hour @ '' '' @ day @ '' '' @ month @ '' *'',
        ''0 '' @ minute @ '' '' @ hour @ '' * '' @ month @ '' '' @ dow]"
      using assms(3) w(1) by (simp add: scheduler_expressions_def)
    then show ?thesis using split6 [OF e1] split6 [OF e2] True star by (intro exI conjI) (assumption, auto)
  next
    case False
    then have "scheduler_expressions expression = Inr [''0 '' @ n]"
      using assms(3) w(1) by (simp add: scheduler_expressions_def)
    then show ?thesis using split6 [OF e3] False by (intro exI conjI) (assumption, auto)
  qed
qed

text \<open>
  C24. The jobs a schedule gives the scheduler run at the full minutes at which the schedule is due, although the
  scheduler wants all fields to be met and a schedule that restricts both the day of the month and the day of the week
  is due when either is. Every expression that can be normalized is translated, no due minute is lost, and none is added
  unless one day field is a question mark and the other is restricted.\<close>

theorem scheduled_exactly_when_due:
  assumes "all_fields_met met fires" "either_day_met met due" "star_always_met met"
    "normalize_expression expression = Inr n"
  shows "\<exists>es. scheduler_expressions expression = Inr es \<and>
    (\<forall>t. met F_Second ''0'' t \<and> due n t \<longrightarrow> (\<exists>e \<in> set es. fires e t)) \<and>
    (\<not> question_beside_day n \<longrightarrow> (\<forall>t. (\<exists>e \<in> set es. fires e t) = (met F_Second ''0'' t \<and> due n t)))"
proof -
  obtain minute hour day month dow where w: "split_whitespace n = [minute, hour, day, month, dow]"
    "word minute" "word hour" "word day" "word month" "word dow"
    using scheduler_fields [OF assms(4)] by blast
  have due: "due n t = (met F_Minute minute t \<and> met F_Hour hour t \<and> met F_Month month t \<and>
      (if \<not> wildcard day \<and> \<not> wildcard dow then met F_Day day t \<or> met F_Weekday dow t
       else met F_Day day t \<and> met F_Weekday dow t))" for t
    using assms(2) w(1) by (simp add: either_day_met_def)
  obtain es where es: "scheduler_expressions expression = Inr es"
    "\<And>t. (\<exists>e \<in> set es. fires e t) =
      (met F_Second ''0'' t \<and> met F_Minute minute t \<and> met F_Hour hour t \<and> met F_Month month t \<and>
       (if day \<noteq> ''*'' \<and> dow \<noteq> ''*'' then met F_Day day t \<or> met F_Weekday dow t
        else met F_Day day t \<and> met F_Weekday dow t))"
    using scheduled_fields [OF assms(1,3,4) w] by blast
  have wild: "wildcard day \<Longrightarrow> met F_Day day t" "wildcard dow \<Longrightarrow> met F_Weekday dow t" for t
    using assms(3) by (auto simp: star_always_met_def wildcard_def)
  have "(\<exists>e \<in> set es. fires e t) = (met F_Second ''0'' t \<and> due n t)" if "\<not> question_beside_day n" for t
    using that wild [of t] unfolding es(2) due question_beside_day_def w(1) by (auto simp: wildcard_def)
  moreover have "\<exists>e \<in> set es. fires e t" if "met F_Second ''0'' t \<and> due n t" for t
    using that wild [of t] unfolding es(2) due by (auto split: if_splits)
  ultimately show ?thesis using es(1) by blast
qed

text \<open>With a question mark beside a restricted day the schedule runs every day: the code takes the question mark for a
  restriction, and the job made for it is met on any day.\<close>

lemma question_mark_runs_daily:
  assumes "all_fields_met met fires" "star_always_met met" "normalize_expression expression = Inr n"
    "split_whitespace n = [minute, hour, ''?'', month, dow]" "dow \<noteq> ''*''"
  shows "\<exists>es. scheduler_expressions expression = Inr es \<and>
    (\<forall>t. (\<exists>e \<in> set es. fires e t) =
      (met F_Second ''0'' t \<and> met F_Minute minute t \<and> met F_Hour hour t \<and> met F_Month month t))"
proof -
  have w: "word minute" "word hour" "word ''?''" "word month" "word dow"
    using split_whitespace_words [of _ n] assms(4) by simp_all
  have "met F_Day ''?'' t" for t using assms(2) by (simp add: star_always_met_def)
  then show ?thesis using scheduled_fields [OF assms(1-4) w] assms(5) by simp
qed

text \<open>Numbers and stars alone, at a time given by its six components.\<close>

definition plain_met :: "field \<Rightarrow> string \<Rightarrow> (field \<Rightarrow> nat) \<Rightarrow> bool" where
  "plain_met f s t \<longleftrightarrow> s = ''*'' \<or> s = ''?'' \<or> s = string_of_nat (t f)"

definition plain_fires :: "string \<Rightarrow> (field \<Rightarrow> nat) \<Rightarrow> bool" where
  "plain_fires e t =
     (case split_whitespace e of
        [sec, minute, hour, day, month, dow] \<Rightarrow>
          plain_met F_Second sec t \<and> plain_met F_Minute minute t \<and> plain_met F_Hour hour t \<and> plain_met F_Day day t \<and>
          plain_met F_Month month t \<and> plain_met F_Weekday dow t
      | _ \<Rightarrow> False)"

definition plain_due :: "string \<Rightarrow> (field \<Rightarrow> nat) \<Rightarrow> bool" where
  "plain_due e t =
     (case split_whitespace e of
        [minute, hour, day, month, dow] \<Rightarrow>
          plain_met F_Minute minute t \<and> plain_met F_Hour hour t \<and> plain_met F_Month month t \<and>
          (if \<not> wildcard day \<and> \<not> wildcard dow then plain_met F_Day day t \<or> plain_met F_Weekday dow t
           else plain_met F_Day day t \<and> plain_met F_Weekday dow t)
      | _ \<Rightarrow> False)"

text \<open>The thirteenth of the month or a Friday at nine, on a Friday.\<close>

definition friday_at_nine :: "field \<Rightarrow> nat" where
  "friday_at_nine f = (case f of F_Hour \<Rightarrow> 9 | F_Day \<Rightarrow> 7 | F_Month \<Rightarrow> 8 | F_Weekday \<Rightarrow> 5 | _ \<Rightarrow> 0)"

lemma replace_str_absent: "p \<noteq> [] \<Longrightarrow> hd p \<notin> set s \<Longrightarrow> replace_str p r s = s"
proof (induction p r s rule: replace_str.induct)
  case (1 p r s)
  have "\<not> starts_with p s" if "s \<noteq> []"
    using that "1.prems" by (cases s; cases p) (auto simp: starts_with_def)
  moreover have "hd p \<notin> set (tl s)" using "1.prems"(2) by (cases s) auto
  ultimately show ?case using 1 by (subst replace_str.simps) auto
qed

lemma plain_words: "split_whitespace ''0 9 13 * 5'' = [''0'', ''9'', ''13'', ''*'', ''5'']"
proof -
  have w: "word ''9''" "word ''13''" "word ''5''"
    by (simp_all add: word_def ws_at_def byte_of_def less_Suc_eq)
  show ?thesis
    using split_words_space [of "''0''" "''9 13 * 5''"] split_words_space [OF w(1), of "''13 * 5''"]
      split_words_space [OF w(2), of "''* 5''"] split_words_space [of "''*''" "''5''"] split_words_single [OF w(3)]
    by (simp add: split_whitespace_def)
qed

lemma plain_normalized: "normalize_expression '' 0 9 13 * 5'' = Inr ''0 9 13 * 5''"
proof -
  have "trim_start '' 0 9 13 * 5'' = ''0 9 13 * 5''"
    by (subst trim_start.simps, subst trim_start.simps) (simp add: ws_at_def byte_of_def)
  moreover have "trim_end ''0 9 13 * 5'' = ''0 9 13 * 5''"
    using ws_end_graphic [of "CHR ''5''" "''0 9 13 * ''"] by (subst trim_end.simps) (simp add: graphic_def byte_of_def)
  ultimately have "trim '' 0 9 13 * 5'' = ''0 9 13 * 5''" by (simp add: trim_def)
  moreover have "to_ascii_uppercase ''0 9 13 * 5'' = ''0 9 13 * 5''"
    by (simp add: to_ascii_uppercase_def ascii_upper_def byte_of_def)
  moreover have "nickname ''0 9 13 * 5'' = None" "\<not> starts_with ''@'' ''0 9 13 * 5''"
    by (simp_all add: nickname_def starts_with_def)
  moreover have "shorten_names ''0 9 13 * 5'' = ''0 9 13 * 5''"
    by (simp add: shorten_names_def long_names_def replace_str_absent)
  ultimately show ?thesis by (simp add: normalize_expression_def Let_def plain_words)
qed

theorem scheduled_exactly_when_due_witness:
  "\<exists>es. scheduler_expressions '' 0 9 13 * 5'' = Inr es \<and> (\<exists>e \<in> set es. plain_fires e friday_at_nine)"
proof -
  have "all_fields_met plain_met plain_fires" by (simp add: all_fields_met_def plain_fires_def)
  moreover have "either_day_met plain_met plain_due" by (simp add: either_day_met_def plain_due_def)
  moreover have "star_always_met plain_met" by (simp add: star_always_met_def plain_met_def)
  moreover have "plain_met F_Second ''0'' friday_at_nine \<and> plain_due ''0 9 13 * 5'' friday_at_nine" by code_simp
  ultimately show ?thesis
    using scheduled_exactly_when_due [OF _ _ _ plain_normalized, of plain_met plain_fires plain_due] by blast
qed

end
