(* ===== verification/Cron_Jobs.thy ===== *)
theory Cron_Jobs
  imports Cron_Schedule
begin

text \<open>
  The jobs of \<^verbatim>\<open>modules/rong_cron/src/lib.rs\<close>: the registry of a context, the ticks the scheduler starts for a job, the
  channel they send invocations through, the task that runs the callbacks one after the other, and stopping and
  shutdown. A run is a list of operations: the script's calls, and the atomic steps of the tasks in any order. The
  scheduler (\<^verbatim>\<open>tokio_cron_scheduler\<close>) may fire a job it holds at any moment. Callbacks are identified by their job; what
  they do is a sequence of further operations.
\<close>

section \<open>State\<close>

text \<open>The flags of a job are shared by its entry and its ticks, and outlive the entry. An entry is the index of its
  job.\<close>

record cron_job =
  cj_id :: "32 word"
  cj_schedules :: nat
  cj_active :: bool
  cj_running :: bool
  cj_refed :: bool

text \<open>A tick between its atomic steps: before it looks whether the job is active, before it claims the job, before it
  sends its invocation, waiting for the answer, before it releases the job, and over.\<close>

datatype tick_pc = Tick_Start | Tick_Live | Tick_Claimed | Tick_Waiting | Tick_Answered | Tick_Over

record tick =
  ti_job :: nat
  ti_pc :: tick_pc

datatype receiver = Rc_Idle | Rc_Calling nat nat | Rc_Gone

datatype call_event = Call_Start nat | Call_End nat

record cron_state =
  cr_next_id :: "32 word"
  cr_jobs :: "cron_job list"
  cr_entries :: "32 word \<rightharpoonup> nat"
  cr_started :: bool
  cr_scheduled :: "(nat \<times> nat) list"
  cr_adding :: "nat list"
  cr_removing :: "nat list"
  cr_ticks :: "tick list"
  cr_queue :: "(32 word \<times> nat) list"
  cr_receiver :: receiver
  cr_calls :: "call_event list"

definition registry_new :: cron_state where
  "registry_new =
     \<lparr>cr_next_id = 1, cr_jobs = [], cr_entries = Map.empty, cr_started = False, cr_scheduled = [], cr_adding = [],
      cr_removing = [], cr_ticks = [], cr_queue = [], cr_receiver = Rc_Idle, cr_calls = []\<rparr>"

definition update_job :: "nat \<Rightarrow> (cron_job \<Rightarrow> cron_job) \<Rightarrow> cron_state \<Rightarrow> cron_state" where
  "update_job n f s = s\<lparr>cr_jobs := (cr_jobs s)[n := f (cr_jobs s ! n)]\<rparr>"

definition set_tick :: "nat \<Rightarrow> tick_pc \<Rightarrow> cron_state \<Rightarrow> cron_state" where
  "set_tick i pc s = s\<lparr>cr_ticks := (cr_ticks s)[i := (cr_ticks s ! i)\<lparr>ti_pc := pc\<rparr>]\<rparr>"

section \<open>The registry\<close>

definition next_id :: "cron_state \<Rightarrow> 32 word \<times> cron_state" where
  "next_id s = (cr_next_id s, s\<lparr>cr_next_id := cr_next_id s + 1\<rparr>)"

text \<open>The callback to run for an identifier: none when the entry is gone or inactive.\<close>

definition cron_callback :: "32 word \<Rightarrow> cron_state \<Rightarrow> nat option" where
  "cron_callback i s =
     (case cr_entries s i of
        None \<Rightarrow> None
      | Some n \<Rightarrow> if cj_active (cr_jobs s ! n) then Some n else None)"

text \<open>Removing from the scheduler is left to a task, and only when there is a scheduler.\<close>

definition stop_job :: "32 word \<Rightarrow> cron_state \<Rightarrow> cron_state" where
  "stop_job i s =
     (case cr_entries s i of
        None \<Rightarrow> s
      | Some n \<Rightarrow>
          let s = update_job n (\<lambda>j. j\<lparr>cj_active := False\<rparr>) (s\<lparr>cr_entries := (cr_entries s)(i := None)\<rparr>) in
          if cr_started s then s\<lparr>cr_removing := cr_removing s @ [n]\<rparr> else s)"

definition set_refed :: "32 word \<Rightarrow> bool \<Rightarrow> cron_state \<Rightarrow> cron_state" where
  "set_refed i b s =
     (case cr_entries s i of None \<Rightarrow> s | Some n \<Rightarrow> update_job n (\<lambda>j. j\<lparr>cj_refed := b\<rparr>) s)"

text \<open>Shutdown drains the entries.\<close>

definition registered :: "cron_state \<Rightarrow> nat list" where
  "registered s = filter (\<lambda>n. cr_entries s (cj_id (cr_jobs s ! n)) = Some n) [0..<length (cr_jobs s)]"

definition cron_shutdown :: "cron_state \<Rightarrow> cron_state" where
  "cron_shutdown s =
     (let ns = registered s;
          s = s\<lparr>cr_entries := Map.empty,
                cr_jobs := map (\<lambda>n. if n \<in> set ns then (cr_jobs s ! n)\<lparr>cj_active := False\<rparr> else cr_jobs s ! n)
                             [0..<length (cr_jobs s)]\<rparr> in
      if cr_started s then s\<lparr>cr_removing := cr_removing s @ ns\<rparr> else s)"

section \<open>Creating a job\<close>

text \<open>\<open>parse_now\<close> is \<^const>\<open>cron_parse\<close> from the present, and \<open>job_ok\<close> tells whether the scheduler takes an expression. The
  answer is the job with the text of its handle.\<close>

definition create_cron_job ::
  "(string \<Rightarrow> f64_value option js_result) \<Rightarrow> (string \<Rightarrow> bool) \<Rightarrow> string \<Rightarrow> cron_state \<Rightarrow>
     (nat \<times> string) js_result \<times> cron_state" where
  "create_cron_job parse_now job_ok schedule s =
     (case normalize_expression schedule of
        Inl e \<Rightarrow> (Inl e, s)
      | Inr normalized \<Rightarrow>
          (case scheduler_expressions schedule of
             Inl e \<Rightarrow> (Inl e, s)
           | Inr es \<Rightarrow>
               (case parse_now schedule of
                  Inl e \<Rightarrow> (Inl e, s)
                | Inr None \<Rightarrow> (Inl (cron_error (''Cron expression has no future occurrences: '' @ schedule)), s)
                | Inr (Some _) \<Rightarrow>
                    (case next_id s of
                       (i, s) \<Rightarrow>
                         if \<not> list_all job_ok es
                         then (Inl (cron_error (''Invalid cron expression: '' @ schedule)), s)
                         else
                           let n = length (cr_jobs s);
                               job = \<lparr>cj_id = i, cj_schedules = length es, cj_active = True, cj_running = False,
                                      cj_refed = True\<rparr> in
                           (Inr (n, normalized),
                            s\<lparr>cr_jobs := cr_jobs s @ [job], cr_entries := (cr_entries s)(i \<mapsto> n),
                              cr_adding := cr_adding s @ [n]\<rparr>)))))"

text \<open>\<^verbatim>\<open>Rong.cron(schedule, handler)\<close>; an argument that is undefined counts as missing.\<close>

definition cron_call ::
  "'o js_engine \<Rightarrow> (string \<Rightarrow> f64_value option js_result) \<Rightarrow> (string \<Rightarrow> bool) \<Rightarrow> 'o qjs_value \<Rightarrow> 'o qjs_value option \<Rightarrow>
     'o qjs_value option \<Rightarrow> cron_state \<Rightarrow> (nat \<times> string) js_result \<times> cron_state" where
  "cron_call e parse_now job_ok first second third s =
     (case string_from_js (je_to_cstring e) first of
        Inl _ \<Rightarrow> (Inl (cron_error ''Rong.cron expects a schedule string''), s)
      | Inr schedule \<Rightarrow>
          if third \<noteq> None then (Inl (cron_error ''OS-level cron registration is not supported''), s)
          else
            (case second of
               None \<Rightarrow> (Inl (cron_error ''Rong.cron expects a handler function''), s)
             | Some handler \<Rightarrow>
                 (case func_from_js handler of
                    Inl _ \<Rightarrow> (Inl (cron_error ''Rong.cron expects a handler function''), s)
                  | Inr _ \<Rightarrow> create_cron_job parse_now job_ok schedule s)))"

text \<open>The task that adds the job to the scheduler: it may fail to start one, or an addition may fail after \<open>m\<close> others.\<close>

definition run_adding :: "nat \<Rightarrow> bool \<Rightarrow> nat \<Rightarrow> cron_state \<Rightarrow> cron_state" where
  "run_adding n starts m s =
     (if n \<notin> set (cr_adding s) then s
      else
        let s = s\<lparr>cr_adding := remove1 n (cr_adding s)\<rparr> in
        if \<not> starts \<and> \<not> cr_started s then update_job n (\<lambda>j. j\<lparr>cj_active := False\<rparr>) s
        else
          let total = cj_schedules (cr_jobs s ! n);
              s = s\<lparr>cr_started := True, cr_scheduled := cr_scheduled s @ map (Pair n) [0..<min m total]\<rparr> in
          if m < total then update_job n (\<lambda>j. j\<lparr>cj_active := False\<rparr>) s else s)"

definition run_removing :: "nat \<Rightarrow> cron_state \<Rightarrow> cron_state" where
  "run_removing n s =
     (if n \<in> set (cr_removing s)
      then s\<lparr>cr_removing := remove1 n (cr_removing s), cr_scheduled := filter (\<lambda>p. fst p \<noteq> n) (cr_scheduled s)\<rparr>
      else s)"

section \<open>Ticks and the receiver\<close>

definition fire :: "nat \<Rightarrow> nat \<Rightarrow> cron_state \<Rightarrow> cron_state" where
  "fire n k s =
     (if (n, k) \<in> set (cr_scheduled s) then s\<lparr>cr_ticks := cr_ticks s @ [\<lparr>ti_job = n, ti_pc = Tick_Start\<rparr>]\<rparr> else s)"

definition tick_step :: "nat \<Rightarrow> cron_state \<Rightarrow> cron_state" where
  "tick_step i s =
     (if length (cr_ticks s) \<le> i then s
      else
        let n = ti_job (cr_ticks s ! i); j = cr_jobs s ! n in
        case ti_pc (cr_ticks s ! i) of
          Tick_Start \<Rightarrow> set_tick i (if cj_active j then Tick_Live else Tick_Over) s
        | Tick_Live \<Rightarrow>
            if cj_running j then set_tick i Tick_Over s
            else set_tick i Tick_Claimed (update_job n (\<lambda>j. j\<lparr>cj_running := True\<rparr>) s)
        | Tick_Claimed \<Rightarrow>
            if cr_receiver s = Rc_Gone then set_tick i Tick_Answered s
            else set_tick i Tick_Waiting (s\<lparr>cr_queue := cr_queue s @ [(cj_id j, i)]\<rparr>)
        | Tick_Waiting \<Rightarrow> s
        | Tick_Answered \<Rightarrow> set_tick i Tick_Over (update_job n (\<lambda>j. j\<lparr>cj_running := False\<rparr>) s)
        | Tick_Over \<Rightarrow> s)"

text \<open>The receiver takes an invocation and calls its callback, or answers at once when there is none.\<close>

definition receive :: "cron_state \<Rightarrow> cron_state" where
  "receive s =
     (case cr_receiver s of
        Rc_Idle \<Rightarrow>
          (case cr_queue s of
             [] \<Rightarrow> s
           | (w, i) # q \<Rightarrow>
               let s = s\<lparr>cr_queue := q\<rparr> in
               (case cron_callback w s of
                  Some n \<Rightarrow> s\<lparr>cr_receiver := Rc_Calling i n, cr_calls := cr_calls s @ [Call_Start n]\<rparr>
                | None \<Rightarrow> set_tick i Tick_Answered s))
      | _ \<Rightarrow> s)"

definition call_ends :: "cron_state \<Rightarrow> cron_state" where
  "call_ends s =
     (case cr_receiver s of
        Rc_Calling i n \<Rightarrow>
          set_tick i Tick_Answered (s\<lparr>cr_receiver := Rc_Idle, cr_calls := cr_calls s @ [Call_End n]\<rparr>)
      | _ \<Rightarrow> s)"

text \<open>The shutdown of the context drops the receiving task: whoever waits for an answer learns that none will come.\<close>

definition cron_drop_receiver :: "cron_state \<Rightarrow> cron_state" where
  "cron_drop_receiver s =
     s\<lparr>cr_receiver := Rc_Gone, cr_queue := [],
       cr_ticks := map (\<lambda>t. if ti_pc t = Tick_Waiting then t\<lparr>ti_pc := Tick_Answered\<rparr> else t) (cr_ticks s)\<rparr>"

datatype cron_op =
    Create string
  | Stop nat
  | Refed nat bool
  | Adding nat bool nat
  | Removing nat
  | Fire nat nat
  | Tick nat
  | Receive
  | Call_Ends
  | Shutdown
  | Drop_Receiver

fun cron_do ::
  "(string \<Rightarrow> f64_value option js_result) \<Rightarrow> (string \<Rightarrow> bool) \<Rightarrow> cron_op \<Rightarrow> cron_state \<Rightarrow> cron_state" where
  "cron_do p ok (Create schedule) s = snd (create_cron_job p ok schedule s)"
| "cron_do p ok (Stop n) s = (if n < length (cr_jobs s) then stop_job (cj_id (cr_jobs s ! n)) s else s)"
| "cron_do p ok (Refed n b) s = (if n < length (cr_jobs s) then set_refed (cj_id (cr_jobs s ! n)) b s else s)"
| "cron_do p ok (Adding n starts m) s = run_adding n starts m s"
| "cron_do p ok (Removing n) s = run_removing n s"
| "cron_do p ok (Fire n k) s = fire n k s"
| "cron_do p ok (Tick i) s = tick_step i s"
| "cron_do p ok Receive s = receive s"
| "cron_do p ok Call_Ends s = call_ends s"
| "cron_do p ok Shutdown s = cron_shutdown s"
| "cron_do p ok Drop_Receiver s = cron_drop_receiver s"

fun cron_run ::
  "(string \<Rightarrow> f64_value option js_result) \<Rightarrow> (string \<Rightarrow> bool) \<Rightarrow> cron_op list \<Rightarrow> cron_state \<Rightarrow> cron_state" where
  "cron_run p ok [] s = s"
| "cron_run p ok (x # xs) s = cron_run p ok xs (cron_do p ok x s)"

lemma cron_run_append [simp]: "cron_run p ok (xs @ ys) s = cron_run p ok ys (cron_run p ok xs s)"
  by (induction xs arbitrary: s) simp_all

section \<open>Views of the state\<close>

definition job_ids :: "cron_state \<Rightarrow> 32 word list" where "job_ids s = map cj_id (cr_jobs s)"
definition actives :: "cron_state \<Rightarrow> bool list" where "actives s = map cj_active (cr_jobs s)"
definition runnings :: "cron_state \<Rightarrow> bool list" where "runnings s = map cj_running (cr_jobs s)"

lemma length_views [simp]:
  "length (actives s) = length (job_ids s)" "length (runnings s) = length (job_ids s)" "length (cr_jobs s) = length (job_ids s)"
  by (simp_all add: job_ids_def actives_def runnings_def)

lemma nth_views:
  "n < length (job_ids s) \<Longrightarrow> cj_id (cr_jobs s ! n) = job_ids s ! n"
  "n < length (job_ids s) \<Longrightarrow> cj_active (cr_jobs s ! n) = actives s ! n"
  "n < length (job_ids s) \<Longrightarrow> cj_running (cr_jobs s ! n) = runnings s ! n"
  by (simp_all add: job_ids_def actives_def runnings_def del: length_views)

lemma map_update_same [simp]: "(map g xs)[n := g (xs ! n)] = map g xs"
  by (cases "n < length xs") (simp_all add: list_update_same_conv list_update_beyond)

lemma update_job_active [simp]:
  "job_ids (update_job n (\<lambda>j. j\<lparr>cj_active := b\<rparr>) s) = job_ids s"
  "actives (update_job n (\<lambda>j. j\<lparr>cj_active := b\<rparr>) s) = (actives s)[n := b]"
  "runnings (update_job n (\<lambda>j. j\<lparr>cj_active := b\<rparr>) s) = runnings s"
  by (simp_all add: job_ids_def actives_def runnings_def update_job_def map_update)

lemma update_job_running [simp]:
  "job_ids (update_job n (\<lambda>j. j\<lparr>cj_running := b\<rparr>) s) = job_ids s"
  "actives (update_job n (\<lambda>j. j\<lparr>cj_running := b\<rparr>) s) = actives s"
  "runnings (update_job n (\<lambda>j. j\<lparr>cj_running := b\<rparr>) s) = (runnings s)[n := b]"
  by (simp_all add: job_ids_def actives_def runnings_def update_job_def map_update)

lemma update_job_refed [simp]:
  "job_ids (update_job n (\<lambda>j. j\<lparr>cj_refed := b\<rparr>) s) = job_ids s"
  "actives (update_job n (\<lambda>j. j\<lparr>cj_refed := b\<rparr>) s) = actives s"
  "runnings (update_job n (\<lambda>j. j\<lparr>cj_refed := b\<rparr>) s) = runnings s"
  by (simp_all add: job_ids_def actives_def runnings_def update_job_def map_update)

lemma update_job_rest [simp]:
  "cr_next_id (update_job n f s) = cr_next_id s" "cr_entries (update_job n f s) = cr_entries s"
  "cr_started (update_job n f s) = cr_started s" "cr_scheduled (update_job n f s) = cr_scheduled s"
  "cr_adding (update_job n f s) = cr_adding s" "cr_removing (update_job n f s) = cr_removing s"
  "cr_ticks (update_job n f s) = cr_ticks s" "cr_queue (update_job n f s) = cr_queue s"
  "cr_receiver (update_job n f s) = cr_receiver s" "cr_calls (update_job n f s) = cr_calls s"
  by (simp_all add: update_job_def)

lemma set_tick_rest [simp]:
  "cr_next_id (set_tick i pc s) = cr_next_id s" "cr_entries (set_tick i pc s) = cr_entries s"
  "cr_started (set_tick i pc s) = cr_started s" "cr_scheduled (set_tick i pc s) = cr_scheduled s"
  "cr_adding (set_tick i pc s) = cr_adding s" "cr_removing (set_tick i pc s) = cr_removing s"
  "cr_jobs (set_tick i pc s) = cr_jobs s" "cr_queue (set_tick i pc s) = cr_queue s"
  "cr_receiver (set_tick i pc s) = cr_receiver s" "cr_calls (set_tick i pc s) = cr_calls s"
  "job_ids (set_tick i pc s) = job_ids s" "actives (set_tick i pc s) = actives s" "runnings (set_tick i pc s) = runnings s"
  by (simp_all add: set_tick_def job_ids_def actives_def runnings_def)

lemma views_of_updates [simp]:
  "job_ids (s\<lparr>cr_entries := e\<rparr>) = job_ids s" "job_ids (s\<lparr>cr_removing := x\<rparr>) = job_ids s"
  "job_ids (s\<lparr>cr_adding := x\<rparr>) = job_ids s" "job_ids (s\<lparr>cr_started := b\<rparr>) = job_ids s"
  "job_ids (s\<lparr>cr_scheduled := y\<rparr>) = job_ids s" "job_ids (s\<lparr>cr_ticks := t\<rparr>) = job_ids s"
  "job_ids (s\<lparr>cr_queue := q\<rparr>) = job_ids s" "job_ids (s\<lparr>cr_receiver := r\<rparr>) = job_ids s"
  "job_ids (s\<lparr>cr_calls := c\<rparr>) = job_ids s" "job_ids (s\<lparr>cr_next_id := w\<rparr>) = job_ids s"
  "actives (s\<lparr>cr_entries := e\<rparr>) = actives s" "actives (s\<lparr>cr_removing := x\<rparr>) = actives s"
  "actives (s\<lparr>cr_adding := x\<rparr>) = actives s" "actives (s\<lparr>cr_started := b\<rparr>) = actives s"
  "actives (s\<lparr>cr_scheduled := y\<rparr>) = actives s" "actives (s\<lparr>cr_ticks := t\<rparr>) = actives s"
  "actives (s\<lparr>cr_queue := q\<rparr>) = actives s" "actives (s\<lparr>cr_receiver := r\<rparr>) = actives s"
  "actives (s\<lparr>cr_calls := c\<rparr>) = actives s" "actives (s\<lparr>cr_next_id := w\<rparr>) = actives s"
  "runnings (s\<lparr>cr_entries := e\<rparr>) = runnings s" "runnings (s\<lparr>cr_removing := x\<rparr>) = runnings s"
  "runnings (s\<lparr>cr_adding := x\<rparr>) = runnings s" "runnings (s\<lparr>cr_started := b\<rparr>) = runnings s"
  "runnings (s\<lparr>cr_scheduled := y\<rparr>) = runnings s" "runnings (s\<lparr>cr_ticks := t\<rparr>) = runnings s"
  "runnings (s\<lparr>cr_queue := q\<rparr>) = runnings s" "runnings (s\<lparr>cr_receiver := r\<rparr>) = runnings s"
  "runnings (s\<lparr>cr_calls := c\<rparr>) = runnings s" "runnings (s\<lparr>cr_next_id := w\<rparr>) = runnings s"
  by (simp_all add: job_ids_def actives_def runnings_def)

section \<open>Invariant of the registry\<close>

text \<open>Identifiers are used once, the entries know their jobs, and a job without an entry is not active.\<close>

definition registry_ok :: "32 word \<Rightarrow> (32 word \<rightharpoonup> nat) \<Rightarrow> 32 word list \<Rightarrow> bool list \<Rightarrow> bool" where
  "registry_ok nx en ids act \<longleftrightarrow>
     distinct ids \<and> (\<forall>w \<in> set ids. unat w < unat nx) \<and> (\<forall>w n. en w = Some n \<longrightarrow> n < length ids \<and> ids ! n = w) \<and>
     (\<forall>n < length ids. act ! n \<longrightarrow> en (ids ! n) = Some n)"

definition cron_reg_ok :: "cron_state \<Rightarrow> bool" where
  "cron_reg_ok s = registry_ok (cr_next_id s) (cr_entries s) (job_ids s) (actives s)"

definition created :: "cron_op list \<Rightarrow> nat" where
  "created ops = length (filter (\<lambda>x. case x of Create _ \<Rightarrow> True | _ \<Rightarrow> False) ops)"

lemma registry_ok_remove:
  "registry_ok nx en ids act \<Longrightarrow> length act = length ids \<Longrightarrow> en w = Some n \<Longrightarrow> registry_ok nx (en(w := None)) ids (act[n := False])"
  by (auto simp: registry_ok_def nth_list_update distinct_conv_nth)

lemma registry_ok_inactive:
  "registry_ok nx en ids act \<Longrightarrow> length act = length ids \<Longrightarrow> registry_ok nx en ids (act[n := False])"
  by (cases "n < length act") (auto simp: registry_ok_def nth_list_update list_update_beyond)

lemma registry_ok_insert:
  assumes "registry_ok nx en ids act" "length act = length ids" "unat nx + 1 < 2 ^ 32"
  shows "registry_ok (nx + 1) (en(nx \<mapsto> length ids)) (ids @ [nx]) (act @ [True])"
proof -
  have "unat (nx + 1) = unat nx + 1" using assms(3) by (simp add: unat_word_ariths)
  moreover have "nx \<notin> set ids" using assms(1) by (auto simp: registry_ok_def)
  ultimately show ?thesis
    using assms(1,2) by (auto simp: registry_ok_def nth_append less_Suc_eq distinct_conv_nth)
qed

lemma registry_ok_next:
  assumes "registry_ok nx en ids act" "unat nx + 1 < 2 ^ 32"
  shows "registry_ok (nx + 1) en ids act"
proof -
  have "unat (nx + 1) = unat nx + 1" using assms(2) by (simp add: unat_word_ariths)
  then show ?thesis using assms(1) by (auto simp: registry_ok_def)
qed

definition reg :: "cron_state \<Rightarrow> 32 word \<times> (32 word \<rightharpoonup> nat) \<times> 32 word list \<times> bool list" where
  "reg s = (cr_next_id s, cr_entries s, job_ids s, actives s)"

lemma cron_reg_ok_reg: "reg s' = reg s \<Longrightarrow> cron_reg_ok s' = cron_reg_ok s"
  by (simp add: reg_def cron_reg_ok_def)

lemma reg_tick_step [simp]: "reg (tick_step i s) = reg s"
  by (simp add: reg_def tick_step_def Let_def split: tick_pc.split)

lemma reg_receive [simp]: "reg (receive s) = reg s"
  by (simp add: reg_def receive_def Let_def split: receiver.split list.split option.split)

lemma reg_call_ends [simp]: "reg (call_ends s) = reg s"
  by (simp add: reg_def call_ends_def split: receiver.split)

lemma reg_others [simp]:
  "reg (cron_drop_receiver s) = reg s" "reg (fire n k s) = reg s" "reg (run_removing n s) = reg s" "reg (set_refed w b s) = reg s"
  by (simp_all add: reg_def cron_drop_receiver_def fire_def run_removing_def set_refed_def split: option.split)

lemma reg_stop_job:
  "reg (stop_job w s) =
     (case cr_entries s w of
        None \<Rightarrow> reg s
      | Some n \<Rightarrow> (cr_next_id s, (cr_entries s)(w := None), job_ids s, (actives s)[n := False]))"
  by (simp add: reg_def stop_job_def Let_def split: option.split)

lemma reg_run_adding: "reg (run_adding n b m s) = reg s \<or> reg (run_adding n b m s) = (cr_next_id s, cr_entries s, job_ids s, (actives s)[n := False])"
  by (simp add: reg_def run_adding_def Let_def)

lemma shutdown_views:
  "job_ids (cron_shutdown s) = job_ids s" "runnings (cron_shutdown s) = runnings s"
  "actives (cron_shutdown s) = map (\<lambda>n. n \<notin> set (registered s) \<and> actives s ! n) [0..<length (job_ids s)]"
  by (auto simp: job_ids_def runnings_def actives_def cron_shutdown_def Let_def simp del: length_views split: if_splits
      intro!: nth_equalityI)

lemma shutdown_rest [simp]:
  "cr_next_id (cron_shutdown s) = cr_next_id s" "cr_entries (cron_shutdown s) = Map.empty"
  "cr_ticks (cron_shutdown s) = cr_ticks s" "cr_queue (cron_shutdown s) = cr_queue s"
  "cr_receiver (cron_shutdown s) = cr_receiver s" "cr_calls (cron_shutdown s) = cr_calls s"
  "cr_scheduled (cron_shutdown s) = cr_scheduled s" "cr_adding (cron_shutdown s) = cr_adding s"
  by (simp_all add: cron_shutdown_def Let_def)

lemma shutdown_stops_all: "cron_reg_ok s \<Longrightarrow> n < length (job_ids s) \<Longrightarrow> \<not> actives (cron_shutdown s) ! n"
  by (auto simp: shutdown_views cron_reg_ok_def registry_ok_def registered_def nth_views)

text \<open>A job is created with the next identifier, or the state keeps its jobs.\<close>

definition with_job :: "nat \<Rightarrow> cron_state \<Rightarrow> cron_state" where
  "with_job k s =
     s\<lparr>cr_next_id := cr_next_id s + 1,
       cr_jobs := cr_jobs s @ [\<lparr>cj_id = cr_next_id s, cj_schedules = k, cj_active = True, cj_running = False, cj_refed = True\<rparr>],
       cr_entries := (cr_entries s)(cr_next_id s \<mapsto> length (cr_jobs s)), cr_adding := cr_adding s @ [length (cr_jobs s)]\<rparr>"

lemma create_shape:
  "snd (create_cron_job p ok schedule s) = s \<or>
   snd (create_cron_job p ok schedule s) = s\<lparr>cr_next_id := cr_next_id s + 1\<rparr> \<or>
   (\<exists>k. snd (create_cron_job p ok schedule s) = with_job k s)"
proof -
  have "snd (if \<not> list_all ok es then (Inl e, s') else (Inr r, t)) = (if \<not> list_all ok es then s' else t)"
    for es and e :: rong_js_error and r :: "nat \<times> string" and s' t :: cron_state
    by simp
  then show ?thesis
    by (auto simp: create_cron_job_def next_id_def Let_def with_job_def split: sum.split option.split)
qed

lemma create_cases:
  obtains "reg (snd (create_cron_job p ok schedule s)) = reg s" "runnings (snd (create_cron_job p ok schedule s)) = runnings s"
  | "reg (snd (create_cron_job p ok schedule s)) = (cr_next_id s + 1, cr_entries s, job_ids s, actives s)"
    "runnings (snd (create_cron_job p ok schedule s)) = runnings s"
  | "reg (snd (create_cron_job p ok schedule s)) =
       (cr_next_id s + 1, (cr_entries s)(cr_next_id s \<mapsto> length (job_ids s)), job_ids s @ [cr_next_id s], actives s @ [True])"
    "runnings (snd (create_cron_job p ok schedule s)) = runnings s @ [False]"
proof -
  from create_shape [of p ok schedule s] consider
    "snd (create_cron_job p ok schedule s) = s"
    | "snd (create_cron_job p ok schedule s) = s\<lparr>cr_next_id := cr_next_id s + 1\<rparr>"
    | k where "snd (create_cron_job p ok schedule s) = with_job k s"
    by blast
  then show ?thesis
  proof cases
    case 3
    then show ?thesis using that(3) by (simp add: with_job_def reg_def job_ids_def actives_def runnings_def del: length_views)
  qed (use that in \<open>simp_all add: reg_def\<close>)
qed

lemma create_rest [simp]:
  "cr_ticks (snd (create_cron_job p ok schedule s)) = cr_ticks s" "cr_queue (snd (create_cron_job p ok schedule s)) = cr_queue s"
  "cr_receiver (snd (create_cron_job p ok schedule s)) = cr_receiver s" "cr_calls (snd (create_cron_job p ok schedule s)) = cr_calls s"
  "cr_scheduled (snd (create_cron_job p ok schedule s)) = cr_scheduled s"
  by (simp_all add: create_cron_job_def next_id_def Let_def split: sum.split option.split)

lemma cron_reg_ok_do:
  assumes "cron_reg_ok s" "unat (cr_next_id s) + created [x] < 2 ^ 32"
  shows "cron_reg_ok (cron_do p ok x s) \<and> unat (cr_next_id (cron_do p ok x s)) \<le> unat (cr_next_id s) + created [x]"
proof -
  have keep: ?thesis if "reg (cron_do p ok x s) = reg s"
    using cron_reg_ok_reg [OF that] assms(1) that by (simp add: reg_def)
  show ?thesis
  proof (cases x)
    case (Create schedule)
    have b: "unat (cr_next_id s) + 1 < 2 ^ 32" using assms(2) Create by (simp add: created_def)
    then have u: "unat (cr_next_id s + 1) = unat (cr_next_id s) + 1" by (simp add: unat_word_ariths)
    show ?thesis
      by (rule create_cases [of p ok schedule s])
        (use assms(1) b u Create registry_ok_insert [of "cr_next_id s" "cr_entries s" "job_ids s" "actives s"]
            registry_ok_next [of "cr_next_id s" "cr_entries s" "job_ids s" "actives s"] in
          \<open>simp_all add: reg_def cron_reg_ok_def created_def\<close>)
  next
    case (Stop n)
    show ?thesis
    proof (cases "cr_entries s (cj_id (cr_jobs s ! n))")
      case (Some m)
      then show ?thesis
        using Stop assms(1) reg_stop_job [of "cj_id (cr_jobs s ! n)" s] registry_ok_remove [of _ _ "job_ids s" "actives s"]
        by (simp add: reg_def cron_reg_ok_def)
    qed (use keep Stop reg_stop_job [of "cj_id (cr_jobs s ! n)" s] in simp)
  next
    case (Adding n b m)
    then show ?thesis
      using keep reg_run_adding [of n b m s] assms(1) registry_ok_inactive [of _ _ "job_ids s" "actives s"]
      by (auto simp: reg_def cron_reg_ok_def)
  next
    case Shutdown
    then show ?thesis
      using assms(1) shutdown_stops_all [OF assms(1)]
      by (simp add: cron_reg_ok_def registry_ok_def shutdown_views(1))
  qed (use keep in simp_all)
qed

lemma cron_reg_ok_run:
  assumes "cron_reg_ok s" "unat (cr_next_id s) + created ops < 2 ^ 32"
  shows "cron_reg_ok (cron_run p ok ops s) \<and> unat (cr_next_id (cron_run p ok ops s)) \<le> unat (cr_next_id s) + created ops"
  using assms
proof (induction ops arbitrary: s)
  case (Cons x xs)
  have c: "created (x # xs) = created [x] + created xs" by (simp add: created_def)
  then have step: "cron_reg_ok (cron_do p ok x s)" "unat (cr_next_id (cron_do p ok x s)) \<le> unat (cr_next_id s) + created [x]"
    using cron_reg_ok_do [of s x p ok] Cons.prems by simp_all
  have "unat (cr_next_id (cron_do p ok x s)) + created xs < 2 ^ 32" using step(2) Cons.prems(2) c by linarith
  then show ?case using Cons.IH [OF step(1)] step(2) c by simp
qed (simp add: created_def)

lemma cron_reg_ok_new: "cron_reg_ok registry_new"
  by (simp add: cron_reg_ok_def registry_ok_def registry_new_def job_ids_def)

section \<open>A stopped job is not called\<close>

text \<open>The jobs keep their places and a job once inactive stays so; a call starts only for an active job.\<close>

definition retired :: "nat \<Rightarrow> cron_state \<Rightarrow> bool" where
  "retired n s \<longleftrightarrow> n < length (job_ids s) \<and> \<not> actives s ! n"

lemma retired_reg: "reg s' = reg s \<Longrightarrow> retired n s' = retired n s"
  by (simp add: reg_def retired_def)

lemma update_False [simp]: "\<not> xs ! n \<Longrightarrow> \<not> xs[m := False] ! n"
  by (cases "m < length xs"; cases "m = n") (simp_all add: list_update_beyond)

lemma retired_do:
  assumes "retired n s"
  shows "retired n (cron_do p ok x s)"
proof -
  have keep: ?thesis if "reg (cron_do p ok x s) = reg s" using retired_reg [OF that] assms by simp
  show ?thesis
  proof (cases x)
    case (Create schedule)
    show ?thesis
      by (rule create_cases [of p ok schedule s]) (use assms Create in \<open>simp_all add: reg_def retired_def nth_append\<close>)
  next
    case (Stop m)
    then show ?thesis
      using assms reg_stop_job [of "cj_id (cr_jobs s ! m)" s] by (simp add: reg_def retired_def split: option.splits)
  next
    case (Adding m b k)
    then show ?thesis using assms reg_run_adding [of m b k s] by (auto simp: reg_def retired_def)
  next
    case Shutdown
    then show ?thesis using assms by (simp add: retired_def shutdown_views)
  qed (use keep in simp_all)
qed

text \<open>What an operation adds to the log of calls.\<close>

definition new_calls :: "cron_op \<Rightarrow> cron_state \<Rightarrow> call_event list" where
  "new_calls x s =
     (case x of
        Receive \<Rightarrow>
          (case (cr_receiver s, cr_queue s) of
             (Rc_Idle, (w, i) # q) \<Rightarrow> (case cron_callback w s of Some n \<Rightarrow> [Call_Start n] | None \<Rightarrow> [])
           | _ \<Rightarrow> [])
      | Call_Ends \<Rightarrow> (case cr_receiver s of Rc_Calling i n \<Rightarrow> [Call_End n] | _ \<Rightarrow> [])
      | _ \<Rightarrow> [])"

lemma callback_queue [simp]: "cron_callback w (s\<lparr>cr_queue := q\<rparr>) = cron_callback w s"
  by (simp add: cron_callback_def split: option.split)

lemma calls_do: "cr_calls (cron_do p ok x s) = cr_calls s @ new_calls x s"
proof (cases x)
  case Receive
  then show ?thesis
    by (auto simp: new_calls_def receive_def Let_def split: receiver.split list.split option.split)
next
  case Call_Ends
  then show ?thesis by (auto simp: new_calls_def call_ends_def split: receiver.split)
next
  case (Stop n)
  then show ?thesis by (simp add: new_calls_def stop_job_def Let_def split: option.split)
next
  case (Refed n b)
  then show ?thesis by (simp add: new_calls_def set_refed_def split: option.split)
next
  case (Adding n b m)
  then show ?thesis by (simp add: new_calls_def run_adding_def Let_def)
next
  case (Tick i)
  then show ?thesis by (simp add: new_calls_def tick_step_def Let_def split: tick_pc.split)
qed (simp_all add: new_calls_def run_removing_def fire_def cron_drop_receiver_def)

lemma no_call_when_retired:
  assumes "cron_reg_ok s" "retired n s"
  shows "Call_Start n \<notin> set (new_calls x s)"
proof -
  have "Some n \<noteq> cron_callback w s" for w
    using assms by (auto simp: cron_callback_def retired_def nth_views split: option.splits)
  then show ?thesis by (auto simp: new_calls_def split: cron_op.splits receiver.splits list.splits option.splits)
qed

lemma calls_when_retired:
  assumes "cron_reg_ok s" "unat (cr_next_id s) + created ops < 2 ^ 32" "retired n s"
  shows "\<exists>later. cr_calls (cron_run p ok ops s) = cr_calls s @ later \<and> Call_Start n \<notin> set later"
  using assms
proof (induction ops arbitrary: s)
  case (Cons x xs)
  have c: "created (x # xs) = created [x] + created xs" by (simp add: created_def)
  have s': "cron_reg_ok (cron_do p ok x s)" "unat (cr_next_id (cron_do p ok x s)) + created xs < 2 ^ 32"
    using cron_reg_ok_do [of s x p ok] Cons.prems c by simp_all
  from Cons.IH [OF s' retired_do [OF Cons.prems(3)]] obtain later where
    "cr_calls (cron_run p ok xs (cron_do p ok x s)) = cr_calls (cron_do p ok x s) @ later" "Call_Start n \<notin> set later"
    by blast
  then show ?case
    using no_call_when_retired [OF Cons.prems(1,3), of x] by (intro exI [of _ "new_calls x s @ later"]) (simp add: calls_do)
qed simp

lemma stop_retires:
  assumes "cron_reg_ok s" "n < length (cr_jobs s)"
  shows "retired n (cron_do p ok (Stop n) s)"
proof -
  have "actives s ! n \<Longrightarrow> cr_entries s (job_ids s ! n) = Some n"
    using assms by (simp add: cron_reg_ok_def registry_ok_def)
  then show ?thesis
    using assms(2) reg_stop_job [of "job_ids s ! n" s] by (cases "actives s ! n")
      (auto simp: reg_def retired_def nth_views nth_list_update split: option.splits)
qed

text \<open>
  C22. A cron job that has been stopped is never called again: whatever ticks of it are under way or queued when the script
  stops it, and however the tasks go on, the calls that follow are those of other jobs. Identifiers are counted in
  thirty-two bits, so this holds in a context with fewer than \<open>2 ^ 32 - 1\<close> jobs.\<close>

theorem stopped_job_never_called:
  assumes "created (ops @ later) < 2 ^ 32 - 1" "s = cron_run p ok ops registry_new" "n < length (cr_jobs s)"
  shows "\<exists>calls. cr_calls (cron_run p ok (Stop n # later) s) = cr_calls s @ calls \<and> Call_Start n \<notin> set calls"
proof -
  have c: "created (ops @ later) = created ops + created later" by (simp add: created_def)
  have r: "cron_reg_ok s" "unat (cr_next_id s) + created later < 2 ^ 32"
    using cron_reg_ok_run [OF cron_reg_ok_new, of ops p ok] assms(1,2) c by (simp_all add: registry_new_def)
  have "created [Stop n] = 0" by (simp add: created_def)
  then have s': "cron_reg_ok (cron_do p ok (Stop n) s)" "unat (cr_next_id (cron_do p ok (Stop n) s)) + created later < 2 ^ 32"
    using cron_reg_ok_do [of s "Stop n" p ok] r by simp_all
  show ?thesis
    using calls_when_retired [OF s' stop_retires [OF r(1) assms(3)], of p ok] calls_do [of p ok "Stop n" s]
    by (simp add: new_calls_def del: cron_do.simps)
qed

text \<open>A job with two schedules, one tick of which waits for the receiver.\<close>

definition demo_now :: "string \<Rightarrow> f64_value option js_result" where "demo_now e = Inr (Some (F64_Fin 0 0))"

definition demo_ops :: "cron_op list" where
  "demo_ops = [Create '' 0 9 13 * 5'', Adding 0 True 2, Fire 0 1, Tick 0, Tick 0, Tick 0]"

lemma demo_create: "snd (create_cron_job demo_now (\<lambda>_. True) '' 0 9 13 * 5'' s) = with_job 2 s"
  by (simp add: create_cron_job_def demo_now_def scheduler_expressions_def plain_normalized plain_words next_id_def
      with_job_def Let_def list_all_iff)

lemma demo_run:
  "cron_run demo_now (\<lambda>_. True) demo_ops registry_new =
     \<lparr>cr_next_id = 2, cr_jobs = [\<lparr>cj_id = 1, cj_schedules = 2, cj_active = True, cj_running = True, cj_refed = True\<rparr>],
      cr_entries = [1 \<mapsto> 0], cr_started = True, cr_scheduled = [(0, 0), (0, 1)], cr_adding = [], cr_removing = [],
      cr_ticks = [\<lparr>ti_job = 0, ti_pc = Tick_Waiting\<rparr>], cr_queue = [(1, 0)], cr_receiver = Rc_Idle, cr_calls = []\<rparr>"
  by (simp add: demo_ops_def demo_create with_job_def registry_new_def run_adding_def fire_def tick_step_def set_tick_def
      update_job_def Let_def upt_rec)

theorem stopped_job_never_called_witness:
  "\<exists>calls. cr_calls (cron_run demo_now (\<lambda>_. True) [Stop 0, Receive] (cron_run demo_now (\<lambda>_. True) demo_ops registry_new)) = calls \<and>
     Call_Start 0 \<notin> set calls"
  using stopped_job_never_called [of demo_ops "[Receive]" _ demo_now "\<lambda>_. True" 0, OF _ refl]
  by (simp add: demo_run) (simp add: created_def demo_ops_def)

section \<open>Ticks\<close>

definition in_flight :: "tick_pc \<Rightarrow> bool" where
  "in_flight pc \<longleftrightarrow> pc = Tick_Claimed \<or> pc = Tick_Waiting \<or> pc = Tick_Answered"

definition flying :: "nat \<Rightarrow> tick list \<Rightarrow> nat" where
  "flying n ts = length (filter (\<lambda>t. ti_job t = n \<and> in_flight (ti_pc t)) ts)"

text \<open>The tick whose call is under way and those queued.\<close>

definition pending :: "cron_state \<Rightarrow> nat list" where
  "pending s = (case cr_receiver s of Rc_Calling i n \<Rightarrow> [i] | _ \<Rightarrow> []) @ map snd (cr_queue s)"

text \<open>Every tick and every scheduled or queued item belongs to a job; a job is running exactly when one of its ticks is in
  flight, and then only one; the ticks that wait are those queued and the one being called.\<close>

definition jobs_known :: "cron_state \<Rightarrow> bool" where
  "jobs_known s \<longleftrightarrow>
     (\<forall>t \<in> set (cr_ticks s). ti_job t < length (job_ids s)) \<and> (\<forall>(n, k) \<in> set (cr_scheduled s). n < length (job_ids s)) \<and>
     (\<forall>n \<in> set (cr_adding s). n < length (job_ids s))"

definition claims_ok :: "bool list \<Rightarrow> tick list \<Rightarrow> bool" where
  "claims_ok rn ts \<longleftrightarrow> (\<forall>n < length rn. flying n ts = of_bool (rn ! n))"

definition queue_ok :: "cron_state \<Rightarrow> bool" where
  "queue_ok s \<longleftrightarrow>
     distinct (pending s) \<and> (\<forall>i. i \<in> set (pending s) \<longleftrightarrow> i < length (cr_ticks s) \<and> ti_pc (cr_ticks s ! i) = Tick_Waiting) \<and>
     (\<forall>(w, i) \<in> set (cr_queue s). w = job_ids s ! ti_job (cr_ticks s ! i)) \<and>
     (cr_receiver s = Rc_Gone \<longrightarrow> cr_queue s = [])"

lemma length_filter_update:
  "i < length xs \<Longrightarrow> length (filter P (xs[i := x])) + of_bool (P (xs ! i)) = length (filter P xs) + of_bool (P x)"
proof (induction xs arbitrary: i)
  case (Cons y ys)
  then show ?case by (cases i) auto
qed simp

lemma flying_set:
  "i < length ts \<Longrightarrow>
   flying n (ts[i := (ts ! i)\<lparr>ti_pc := pc\<rparr>]) + of_bool (ti_job (ts ! i) = n \<and> in_flight (ti_pc (ts ! i))) =
   flying n ts + of_bool (ti_job (ts ! i) = n \<and> in_flight pc)"
  using length_filter_update [of i ts "\<lambda>t. ti_job t = n \<and> in_flight (ti_pc t)" "(ts ! i)\<lparr>ti_pc := pc\<rparr>"]
  by (simp add: flying_def)

lemma claims_keep:
  assumes "claims_ok rn ts" "i < length ts" "in_flight pc = in_flight (ti_pc (ts ! i))"
  shows "claims_ok rn (ts[i := (ts ! i)\<lparr>ti_pc := pc\<rparr>])"
  using assms flying_set [OF assms(2), of _ pc] by (simp add: claims_ok_def)

lemma claims_change:
  assumes "claims_ok rn ts" "i < length ts" "ti_job (ts ! i) < length rn" "in_flight pc \<noteq> in_flight (ti_pc (ts ! i))"
    "rn ! ti_job (ts ! i) \<noteq> in_flight pc"
  shows "claims_ok (rn[ti_job (ts ! i) := in_flight pc]) (ts[i := (ts ! i)\<lparr>ti_pc := pc\<rparr>])"
  unfolding claims_ok_def
proof (intro allI impI)
  fix n assume "n < length (rn[ti_job (ts ! i) := in_flight pc])"
  then show "flying n (ts[i := (ts ! i)\<lparr>ti_pc := pc\<rparr>]) = of_bool ((rn[ti_job (ts ! i) := in_flight pc]) ! n)"
    using assms flying_set [OF assms(2), of n pc] by (cases "ti_job (ts ! i) = n") (auto simp: claims_ok_def)
qed

definition cron_inv :: "cron_state \<Rightarrow> bool" where
  "cron_inv s \<longleftrightarrow> cron_reg_ok s \<and> jobs_known s \<and> claims_ok (runnings s) (cr_ticks s) \<and> queue_ok s"

lemma flying_pos: "t \<in> set ts \<Longrightarrow> in_flight (ti_pc t) \<Longrightarrow> 0 < flying (ti_job t) ts"
  by (auto simp: flying_def filter_empty_conv)

lemma cr_ticks_set_tick [simp]: "cr_ticks (set_tick i pc s) = (cr_ticks s)[i := (cr_ticks s ! i)\<lparr>ti_pc := pc\<rparr>]"
  by (simp add: set_tick_def)

lemma pending_cong: "cr_receiver s' = cr_receiver s \<Longrightarrow> cr_queue s' = cr_queue s \<Longrightarrow> pending s' = pending s"
  by (simp add: pending_def)

text \<open>Operations that leave the ticks, the queue and the receiver alone, and may add a job.\<close>

lemma inv_frame:
  assumes "jobs_known s" "claims_ok (runnings s) (cr_ticks s)" "queue_ok s"
    "cr_ticks s' = cr_ticks s" "cr_queue s' = cr_queue s" "cr_receiver s' = cr_receiver s"
    "job_ids s' = job_ids s @ ids" "runnings s' = runnings s @ map (\<lambda>_. False) ids"
  shows "claims_ok (runnings s') (cr_ticks s') \<and> queue_ok s'"
proof -
  have "flying n (cr_ticks s) = 0" if "length (job_ids s) \<le> n" for n
    using assms(1) that by (auto simp: flying_def jobs_known_def filter_empty_conv)
  then have "claims_ok (runnings s') (cr_ticks s')"
    using assms(2,4,8) by (auto simp: claims_ok_def nth_append)
  moreover have "i \<in> set (pending s)" if "(w, i) \<in> set (cr_queue s)" for w i
    using that by (force simp: pending_def)
  then have "ti_job (cr_ticks s ! i) < length (job_ids s)" if "(w, i) \<in> set (cr_queue s)" for w i
    using that assms(1,3) by (auto simp: queue_ok_def jobs_known_def)
  then have "queue_ok s'"
    using assms(3-7) pending_cong [of s' s] by (auto simp: queue_ok_def nth_append)
  ultimately show ?thesis by blast
qed

lemma queue_ok_set:
  assumes "queue_ok s" "i < length (cr_ticks s)" "ti_pc (cr_ticks s ! i) \<noteq> Tick_Waiting" "pc \<noteq> Tick_Waiting"
    "cr_ticks s' = (cr_ticks s)[i := (cr_ticks s ! i)\<lparr>ti_pc := pc\<rparr>]" "cr_queue s' = cr_queue s" "cr_receiver s' = cr_receiver s"
    "job_ids s' = job_ids s"
  shows "queue_ok s'"
proof -
  have "ti_job (cr_ticks s' ! j) = ti_job (cr_ticks s ! j)" for j
    using assms(2,5) by (cases "j = i") simp_all
  moreover have "(j < length (cr_ticks s') \<and> ti_pc (cr_ticks s' ! j) = Tick_Waiting) =
      (j < length (cr_ticks s) \<and> ti_pc (cr_ticks s ! j) = Tick_Waiting)" for j
    using assms(2-5) by (cases "j = i") auto
  ultimately show ?thesis using assms(1,6-8) pending_cong [of s' s] by (simp add: queue_ok_def)
qed

lemma jobs_known_set: "jobs_known s \<Longrightarrow> jobs_known (set_tick i pc s)"
proof -
  assume k: "jobs_known s"
  have "ti_job t < length (job_ids s)" if "t \<in> set ((cr_ticks s)[i := (cr_ticks s ! i)\<lparr>ti_pc := pc\<rparr>])" for t
  proof (cases "i < length (cr_ticks s)")
    case True
    have "t \<in> insert ((cr_ticks s ! i)\<lparr>ti_pc := pc\<rparr>) (set (cr_ticks s))"
      using that set_update_subset_insert [of "cr_ticks s" i "(cr_ticks s ! i)\<lparr>ti_pc := pc\<rparr>"] by blast
    then show ?thesis using k True by (auto simp: jobs_known_def)
  qed (use k that in \<open>simp add: jobs_known_def list_update_beyond\<close>)
  then show ?thesis using k by (simp add: jobs_known_def)
qed

lemma jobs_known_cong:
  "jobs_known s \<Longrightarrow> cr_ticks s' = cr_ticks s \<Longrightarrow> cr_scheduled s' = cr_scheduled s \<Longrightarrow> cr_adding s' = cr_adding s \<Longrightarrow>
   length (job_ids s) \<le> length (job_ids s') \<Longrightarrow> jobs_known s'"
  by (fastforce simp: jobs_known_def)

lemma inv_tick_step:
  assumes "jobs_known s" "claims_ok (runnings s) (cr_ticks s)" "queue_ok s"
  shows "jobs_known (tick_step i s) \<and> claims_ok (runnings (tick_step i s)) (cr_ticks (tick_step i s)) \<and> queue_ok (tick_step i s)"
proof (cases "i < length (cr_ticks s)")
  case i: True
  define n where "n = ti_job (cr_ticks s ! i)"
  have n: "n < length (job_ids s)" using assms(1) i by (simp add: jobs_known_def n_def)
  have known: "jobs_known (set_tick i pc (update_job n f s))" if "job_ids (update_job n f s) = job_ids s" for pc f
    by (rule jobs_known_set [OF jobs_known_cong [OF assms(1)]]) (simp_all add: that)
  have qs: "queue_ok (set_tick i pc s)" if "ti_pc (cr_ticks s ! i) \<noteq> Tick_Waiting" "pc \<noteq> Tick_Waiting" for pc
    by (rule queue_ok_set [OF assms(3) i that]) simp_all
  have qu: "queue_ok (set_tick i pc (update_job n f s))"
    if "job_ids (update_job n f s) = job_ids s" "ti_pc (cr_ticks s ! i) \<noteq> Tick_Waiting" "pc \<noteq> Tick_Waiting" for pc f
    by (rule queue_ok_set [OF assms(3) i that(2,3)]) (simp_all add: that(1))
  show ?thesis
  proof (cases "ti_pc (cr_ticks s ! i)")
    case Tick_Start
    then show ?thesis
      using i assms jobs_known_set [OF assms(1)] claims_keep [OF assms(2) i] qs
      by (simp add: tick_step_def Let_def in_flight_def)
  next
    case Tick_Live
    show ?thesis
    proof (cases "runnings s ! n")
      case True
      then show ?thesis
        using i n Tick_Live assms jobs_known_set [OF assms(1)] claims_keep [OF assms(2) i] qs qu
        by (simp add: tick_step_def Let_def in_flight_def nth_views n_def [symmetric])
    next
      case False
      then show ?thesis
        using i n Tick_Live known [of "\<lambda>j. j\<lparr>cj_running := True\<rparr>" Tick_Claimed]
          claims_change [OF assms(2) i, of Tick_Claimed] qs qu
        by (simp add: tick_step_def Let_def in_flight_def nth_views n_def [symmetric])
    qed
  next
    case Tick_Claimed
    show ?thesis
    proof (cases "cr_receiver s = Rc_Gone")
      case True
      then show ?thesis
        using i Tick_Claimed assms jobs_known_set [OF assms(1)] claims_keep [OF assms(2) i] qs qu
        by (simp add: tick_step_def Let_def in_flight_def)
    next
      case False
      let ?s = "set_tick i Tick_Waiting (s\<lparr>cr_queue := cr_queue s @ [(job_ids s ! n, i)]\<rparr>)"
      have st: "tick_step i s = ?s"
        using i n Tick_Claimed False by (simp add: tick_step_def Let_def nth_views n_def [symmetric])
      have p: "pending ?s = pending s @ [i]" by (simp add: pending_def)
      have "i \<notin> set (pending s)" using assms(3) Tick_Claimed by (simp add: queue_ok_def)
      moreover have "ti_job (cr_ticks ?s ! j) = ti_job (cr_ticks s ! j)" for j using i by (cases "j = i") simp_all
      moreover have "j \<in> set (pending ?s) \<longleftrightarrow> j < length (cr_ticks ?s) \<and> ti_pc (cr_ticks ?s ! j) = Tick_Waiting" for j
        unfolding p using i assms(3) by (cases "j = i") (simp_all add: queue_ok_def)
      ultimately have "queue_ok ?s" using assms(3) False unfolding queue_ok_def p by (simp add: n_def)
      moreover have "jobs_known ?s" by (rule jobs_known_set [OF jobs_known_cong [OF assms(1)]]) simp_all
      moreover have "claims_ok (runnings ?s) (cr_ticks ?s)"
        using claims_keep [OF assms(2) i, of Tick_Waiting] Tick_Claimed by (simp add: in_flight_def)
      ultimately show ?thesis unfolding st by blast
    qed
  next
    case Tick_Answered
    have "runnings s ! n"
      using flying_pos [of "cr_ticks s ! i" "cr_ticks s"] i n Tick_Answered assms(2)
      by (auto simp: claims_ok_def in_flight_def n_def)
    then show ?thesis
      using i n Tick_Answered known [of "\<lambda>j. j\<lparr>cj_running := False\<rparr>" Tick_Over]
        claims_change [OF assms(2) i, of Tick_Over] qs qu
      by (simp add: tick_step_def Let_def in_flight_def n_def [symmetric])
  qed (use i assms in \<open>simp_all add: tick_step_def Let_def\<close>)
qed (use assms in \<open>simp add: tick_step_def\<close>)

text \<open>The head of the pending ticks is answered.\<close>

lemma queue_ok_answer:
  assumes "distinct (i # rest)"
    "\<forall>j. j \<in> set (i # rest) \<longleftrightarrow> j < length (cr_ticks s) \<and> ti_pc (cr_ticks s ! j) = Tick_Waiting"
    "\<forall>(w, j) \<in> set (cr_queue s'). w = job_ids s ! ti_job (cr_ticks s ! j)" "pending s' = rest"
    "cr_ticks s' = (cr_ticks s)[i := (cr_ticks s ! i)\<lparr>ti_pc := Tick_Answered\<rparr>]" "job_ids s' = job_ids s" "cr_receiver s' \<noteq> Rc_Gone"
  shows "queue_ok s'"
proof -
  have i: "i < length (cr_ticks s)" using assms(2) by auto
  have "ti_job (cr_ticks s' ! j) = ti_job (cr_ticks s ! j)" for j using assms(5) i by (cases "j = i") simp_all
  moreover have "j \<in> set rest \<longleftrightarrow> j < length (cr_ticks s') \<and> ti_pc (cr_ticks s' ! j) = Tick_Waiting" for j
    using assms(1,2,5) i by (cases "j = i") auto
  ultimately show ?thesis using assms(1,3,4,6,7) by (simp add: queue_ok_def)
qed

lemma inv_receive:
  assumes "jobs_known s" "claims_ok (runnings s) (cr_ticks s)" "queue_ok s"
  shows "jobs_known (receive s) \<and> claims_ok (runnings (receive s)) (cr_ticks (receive s)) \<and> queue_ok (receive s)"
proof (cases "cr_receiver s = Rc_Idle \<and> cr_queue s \<noteq> []")
  case True
  then obtain w i q where q: "cr_queue s = (w, i) # q" by (cases "cr_queue s") auto
  have p: "pending s = i # map snd q" using True q by (simp add: pending_def)
  have i: "i < length (cr_ticks s)" "ti_pc (cr_ticks s ! i) = Tick_Waiting"
    using assms(3) p by (auto simp: queue_ok_def)
  show ?thesis
  proof (cases "cron_callback w s")
    case None
    let ?s = "set_tick i Tick_Answered (s\<lparr>cr_queue := q\<rparr>)"
    have st: "receive s = ?s" using True q None by (simp add: receive_def)
    have "queue_ok ?s"
      by (rule queue_ok_answer [of i "map snd q" s]) (use assms(3) p q True in \<open>auto simp: queue_ok_def pending_def\<close>)
    moreover have "jobs_known ?s" by (rule jobs_known_set [OF jobs_known_cong [OF assms(1)]]) simp_all
    moreover have "claims_ok (runnings ?s) (cr_ticks ?s)"
      using claims_keep [OF assms(2) i(1), of Tick_Answered] i(2) by (simp add: in_flight_def)
    ultimately show ?thesis unfolding st by blast
  next
    case (Some n)
    let ?s = "s\<lparr>cr_queue := q, cr_receiver := Rc_Calling i n, cr_calls := cr_calls s @ [Call_Start n]\<rparr>"
    have st: "receive s = ?s" using True q Some by (simp add: receive_def)
    have "pending ?s = pending s" using p by (simp add: pending_def)
    then have "queue_ok ?s" using assms(3) q by (auto simp: queue_ok_def)
    moreover have "jobs_known ?s" by (rule jobs_known_cong [OF assms(1)]) simp_all
    ultimately show ?thesis unfolding st using assms(2) by simp
  qed
next
  case False
  then have "receive s = s" by (auto simp: receive_def split: receiver.split list.split)
  then show ?thesis using assms by simp
qed

lemma inv_call_ends:
  assumes "jobs_known s" "claims_ok (runnings s) (cr_ticks s)" "queue_ok s"
  shows "jobs_known (call_ends s) \<and> claims_ok (runnings (call_ends s)) (cr_ticks (call_ends s)) \<and> queue_ok (call_ends s)"
proof (cases "cr_receiver s")
  case (Rc_Calling i n)
  let ?s = "set_tick i Tick_Answered (s\<lparr>cr_receiver := Rc_Idle, cr_calls := cr_calls s @ [Call_End n]\<rparr>)"
  have st: "call_ends s = ?s" using Rc_Calling by (simp add: call_ends_def)
  have p: "pending s = i # map snd (cr_queue s)" using Rc_Calling by (simp add: pending_def)
  have i: "i < length (cr_ticks s)" "ti_pc (cr_ticks s ! i) = Tick_Waiting"
    using assms(3) p by (auto simp: queue_ok_def)
  have "queue_ok ?s"
    by (rule queue_ok_answer [of i "map snd (cr_queue s)" s])
      (use assms(3) p Rc_Calling in \<open>auto simp: queue_ok_def pending_def\<close>)
  moreover have "jobs_known ?s" by (rule jobs_known_set [OF jobs_known_cong [OF assms(1)]]) simp_all
  moreover have "claims_ok (runnings ?s) (cr_ticks ?s)"
    using claims_keep [OF assms(2) i(1), of Tick_Answered] i(2) by (simp add: in_flight_def)
  ultimately show ?thesis unfolding st by blast
qed (use assms in \<open>simp_all add: call_ends_def\<close>)

lemma inv_drop_receiver:
  assumes "jobs_known s" "claims_ok (runnings s) (cr_ticks s)" "queue_ok s"
  shows "jobs_known (cron_drop_receiver s) \<and> claims_ok (runnings (cron_drop_receiver s)) (cr_ticks (cron_drop_receiver s)) \<and>
    queue_ok (cron_drop_receiver s)"
proof -
  have "flying n (map (\<lambda>t. if ti_pc t = Tick_Waiting then t\<lparr>ti_pc := Tick_Answered\<rparr> else t) ts) = flying n ts" for n ts
    by (induction ts) (auto simp: flying_def in_flight_def)
  then have "flying n (cr_ticks (cron_drop_receiver s)) = flying n (cr_ticks s)" for n
    by (simp add: cron_drop_receiver_def)
  moreover have "runnings (cron_drop_receiver s) = runnings s" "job_ids (cron_drop_receiver s) = job_ids s"
    by (simp_all add: cron_drop_receiver_def)
  moreover have "pending (cron_drop_receiver s) = []" by (simp add: cron_drop_receiver_def pending_def)
  moreover have "ti_pc (cr_ticks (cron_drop_receiver s) ! i) \<noteq> Tick_Waiting" if "i < length (cr_ticks (cron_drop_receiver s))" for i
    using that by (auto simp: cron_drop_receiver_def)
  ultimately show ?thesis
    using assms by (auto simp: claims_ok_def queue_ok_def jobs_known_def cron_drop_receiver_def)
qed

lemma inv_other:
  assumes "jobs_known s" "claims_ok (runnings s) (cr_ticks s)" "queue_ok s"
    "x \<notin> {Receive, Call_Ends, Drop_Receiver}" "\<forall>i. x \<noteq> Tick i" "\<forall>n k. x \<noteq> Fire n k"
  shows "jobs_known (cron_do p ok x s) \<and> claims_ok (runnings (cron_do p ok x s)) (cr_ticks (cron_do p ok x s)) \<and>
    queue_ok (cron_do p ok x s)"
proof -
  have same: ?thesis
    if "cr_ticks (cron_do p ok x s) = cr_ticks s" "cr_queue (cron_do p ok x s) = cr_queue s"
      "cr_receiver (cron_do p ok x s) = cr_receiver s" "job_ids (cron_do p ok x s) = job_ids s" "runnings (cron_do p ok x s) = runnings s"
      "set (cr_scheduled (cron_do p ok x s)) \<subseteq> set (cr_scheduled s) \<union> {(n, k). n \<in> set (cr_adding s)}"
      "set (cr_adding (cron_do p ok x s)) \<subseteq> set (cr_adding s)"
    using that assms(1) inv_frame [OF assms(1-3) that(1-3), of "[]"] by (fastforce simp: jobs_known_def)
  show ?thesis
  proof (cases x)
    case (Create schedule)
    have adds: "set (cr_adding (with_job k s)) \<subseteq> set (cr_adding s) \<union> {length (job_ids s)}" for k
      by (simp add: with_job_def)
    have grow: "job_ids (with_job k s) = job_ids s @ [cr_next_id s]" "runnings (with_job k s) = runnings s @ map (\<lambda>_. False) [cr_next_id s]" for k
      by (simp_all add: with_job_def job_ids_def runnings_def del: length_views)
    from create_shape [of p ok schedule s] consider
      "cron_do p ok x s = s" | "cron_do p ok x s = s\<lparr>cr_next_id := cr_next_id s + 1\<rparr>" | k where "cron_do p ok x s = with_job k s"
      using Create by auto
    then show ?thesis
    proof cases
      case (3 k)
      have "jobs_known (with_job k s)"
        using assms(1) adds [of k] grow(1) [of k] by (auto simp: jobs_known_def with_job_def dest: less_SucI)
      moreover have "claims_ok (runnings (with_job k s)) (cr_ticks (with_job k s)) \<and> queue_ok (with_job k s)"
        by (rule inv_frame [OF assms(1-3) _ _ _ grow]) (simp_all add: with_job_def)
      ultimately show ?thesis using 3 by simp
    qed (use same in simp_all)
  next
    case (Stop n)
    show ?thesis by (rule same) (simp_all add: Stop stop_job_def Let_def split: option.split)
  next
    case (Refed n b)
    show ?thesis by (rule same) (simp_all add: Refed set_refed_def split: option.split)
  next
    case (Adding n b m)
    show ?thesis
      by (rule same) (use set_remove1_subset [of n "cr_adding s"] in \<open>auto simp: Adding run_adding_def Let_def\<close>)
  next
    case (Removing n)
    show ?thesis by (rule same) (auto simp: Removing run_removing_def)
  next
    case Shutdown
    show ?thesis by (rule same) (simp_all add: Shutdown shutdown_views)
  qed (use assms(4-6) in auto)
qed

lemma inv_fire:
  assumes "jobs_known s" "claims_ok (runnings s) (cr_ticks s)" "queue_ok s"
  shows "jobs_known (fire n k s) \<and> claims_ok (runnings (fire n k s)) (cr_ticks (fire n k s)) \<and> queue_ok (fire n k s)"
proof -
  have "flying m (ts @ [\<lparr>ti_job = n, ti_pc = Tick_Start\<rparr>]) = flying m ts" for m ts
    by (simp add: flying_def in_flight_def)
  moreover have "i < length (cr_ticks s)" if "i \<in> set (pending s)" for i using assms(3) that by (simp add: queue_ok_def)
  then have "i < length (cr_ticks s)" if "(w, i) \<in> set (cr_queue s)" for w i
    using that by (force simp: pending_def)
  moreover have "pending (fire n k s) = pending s" by (rule pending_cong) (simp_all add: fire_def)
  ultimately show ?thesis
    using assms by (auto simp: fire_def jobs_known_def claims_ok_def queue_ok_def nth_append less_Suc_eq)
qed

lemma cron_inv_do:
  assumes "cron_inv s" "unat (cr_next_id s) + created [x] < 2 ^ 32"
  shows "cron_inv (cron_do p ok x s)"
proof -
  have i: "jobs_known s" "claims_ok (runnings s) (cr_ticks s)" "queue_ok s" using assms(1) by (simp_all add: cron_inv_def)
  have "jobs_known (cron_do p ok x s) \<and> claims_ok (runnings (cron_do p ok x s)) (cr_ticks (cron_do p ok x s)) \<and>
      queue_ok (cron_do p ok x s)"
  proof (cases "x \<in> {Receive, Call_Ends, Drop_Receiver} \<or> (\<exists>i. x = Tick i) \<or> (\<exists>n k. x = Fire n k)")
    case True
    then show ?thesis using inv_receive [OF i] inv_call_ends [OF i] inv_drop_receiver [OF i] inv_tick_step [OF i] inv_fire [OF i] by auto
  qed (use inv_other [OF i, of x p ok] in blast)
  then show ?thesis using cron_reg_ok_do [of s x p ok] assms by (simp add: cron_inv_def)
qed

lemma cron_inv_run:
  assumes "cron_inv s" "unat (cr_next_id s) + created ops < 2 ^ 32"
  shows "cron_inv (cron_run p ok ops s)"
  using assms
proof (induction ops arbitrary: s)
  case (Cons x xs)
  have c: "created (x # xs) = created [x] + created xs" by (simp add: created_def)
  have "cron_inv (cron_do p ok x s)" using cron_inv_do [of s x p ok] Cons.prems c by simp
  moreover have "unat (cr_next_id (cron_do p ok x s)) + created xs < 2 ^ 32"
    using cron_reg_ok_do [of s x p ok] Cons.prems c by (simp add: cron_inv_def)
  ultimately show ?case using Cons.IH by simp
qed simp

lemma cron_inv_new: "cron_inv registry_new"
  by (simp add: cron_inv_def cron_reg_ok_new) (simp add: jobs_known_def claims_ok_def queue_ok_def pending_def registry_new_def runnings_def)

lemma cron_inv_reachable: "created ops < 2 ^ 32 - 1 \<Longrightarrow> cron_inv (cron_run p ok ops registry_new)"
  by (rule cron_inv_run [OF cron_inv_new]) (simp add: registry_new_def)

section \<open>Calls do not overlap\<close>

text \<open>The call open after a log, \<^const>\<open>None\<close> when the log is not a sequence of calls.\<close>

definition call_step :: "nat option option \<Rightarrow> call_event \<Rightarrow> nat option option" where
  "call_step st e =
     (case (st, e) of
        (Some None, Call_Start n) \<Rightarrow> Some (Some n)
      | (Some (Some m), Call_End n) \<Rightarrow> if m = n then Some None else None
      | _ \<Rightarrow> None)"

definition open_call :: "call_event list \<Rightarrow> nat option option" where
  "open_call log = foldl call_step (Some None) log"

definition calls_ok :: "cron_state \<Rightarrow> bool" where
  "calls_ok s =
     (case cr_receiver s of
        Rc_Idle \<Rightarrow> open_call (cr_calls s) = Some None
      | Rc_Calling i n \<Rightarrow> open_call (cr_calls s) = Some (Some n)
      | Rc_Gone \<Rightarrow> open_call (cr_calls s) \<noteq> None)"

lemma receiver_do:
  "x \<notin> {Receive, Call_Ends, Drop_Receiver} \<Longrightarrow> cr_receiver (cron_do p ok x s) = cr_receiver s"
proof (cases x)
  case (Tick i)
  then show ?thesis by (simp add: tick_step_def Let_def split: tick_pc.split)
qed (simp_all add: stop_job_def set_refed_def run_adding_def run_removing_def fire_def Let_def split: option.split)

lemma calls_ok_do: "calls_ok s \<Longrightarrow> calls_ok (cron_do p ok x s)"
proof (cases "x \<in> {Receive, Call_Ends, Drop_Receiver}")
  case True
  assume "calls_ok s"
  then show ?thesis
    using True
    by (auto simp: calls_ok_def receive_def call_ends_def cron_drop_receiver_def open_call_def call_step_def Let_def
        split: receiver.splits list.splits option.splits)
next
  case False
  assume a: "calls_ok s"
  have "new_calls x s = []" using False by (simp add: new_calls_def split: cron_op.split)
  then show ?thesis using a receiver_do [OF False, of p ok s] calls_do [of p ok x s]
    by (auto simp: calls_ok_def simp del: cron_do.simps split: receiver.splits)
qed

lemma calls_ok_run: "calls_ok s \<Longrightarrow> calls_ok (cron_run p ok ops s)"
  by (induction ops arbitrary: s) (simp_all add: calls_ok_do del: cron_do.simps)

lemma queue_fst_distinct:
  assumes "cron_inv s"
  shows "distinct (map fst (cr_queue s)) \<and> length (cr_queue s) \<le> length (cr_jobs s)"
proof -
  have inv: "jobs_known s" "claims_ok (runnings s) (cr_ticks s)" "queue_ok s" and ids: "distinct (job_ids s)"
    using assms by (simp_all add: cron_inv_def cron_reg_ok_def registry_ok_def)
  have tick: "i < length (cr_ticks s)" "ti_pc (cr_ticks s ! i) = Tick_Waiting" "w = job_ids s ! ti_job (cr_ticks s ! i)"
    "ti_job (cr_ticks s ! i) < length (job_ids s)" if "(w, i) \<in> set (cr_queue s)" for w i
  proof -
    have "i \<in> set (pending s)" using that by (force simp: pending_def)
    then show "i < length (cr_ticks s)" "ti_pc (cr_ticks s ! i) = Tick_Waiting" using inv(3) by (simp_all add: queue_ok_def)
    then show "ti_job (cr_ticks s ! i) < length (job_ids s)" using inv(1) by (simp add: jobs_known_def)
    show "w = job_ids s ! ti_job (cr_ticks s ! i)" using inv(3) that by (auto simp: queue_ok_def)
  qed
  have one: "i = i'" if q: "(w, i) \<in> set (cr_queue s)" "(w, i') \<in> set (cr_queue s)" for w i i'
  proof (rule ccontr)
    assume ne: "i \<noteq> i'"
    define n where "n = ti_job (cr_ticks s ! i)"
    have n: "n < length (job_ids s)" "ti_job (cr_ticks s ! i') = n"
      using tick [OF q(1)] tick [OF q(2)] nth_eq_iff_index_eq [OF ids] by (simp_all add: n_def)
    let ?P = "\<lambda>t. ti_job t = n \<and> in_flight (ti_pc t)"
    have "{i, i'} \<subseteq> {j. j < length (cr_ticks s) \<and> ?P (cr_ticks s ! j)}"
      using tick [OF q(1)] tick [OF q(2)] n(2) by (simp add: in_flight_def n_def)
    then have "card {i, i'} \<le> flying n (cr_ticks s)"
      unfolding flying_def length_filter_conv_card by (rule card_mono [rotated]) simp
    moreover have "flying n (cr_ticks s) \<le> 1" using inv(2) n(1) by (simp add: claims_ok_def)
    ultimately show False using ne by simp
  qed
  have "distinct (map snd (cr_queue s))" using inv(3) by (simp add: queue_ok_def pending_def)
  then have dq: "distinct (cr_queue s)" by (simp add: distinct_map)
  have "inj_on fst (set (cr_queue s))" using one by (force simp: inj_on_def)
  then have d: "distinct (map fst (cr_queue s))" using dq by (simp add: distinct_map)
  have "set (map fst (cr_queue s)) \<subseteq> set (job_ids s)" using tick(3,4) by force
  then have "card (set (map fst (cr_queue s))) \<le> card (set (job_ids s))" by (intro card_mono) simp_all
  then show ?thesis using d distinct_card [OF d] distinct_card [OF ids] by simp
qed

text \<open>
  C23. The runs of a cron job never overlap and never pile up, however often its schedules fire while it runs: at most one
  tick of a job is between claiming and releasing it, exactly when its running flag is up; the channel holds at most one
  invocation per job; and the calls of all jobs of a context follow each other, each ending before the next begins.\<close>

theorem job_runs_never_overlap:
  assumes "created ops < 2 ^ 32 - 1" "s = cron_run p ok ops registry_new"
  shows "(\<forall>n < length (cr_jobs s). flying n (cr_ticks s) = of_bool (cj_running (cr_jobs s ! n))) \<and>
    distinct (map fst (cr_queue s)) \<and> length (cr_queue s) \<le> length (cr_jobs s) \<and> open_call (cr_calls s) \<noteq> None"
proof -
  have inv: "cron_inv s" using cron_inv_reachable [OF assms(1)] assms(2) by simp
  have "calls_ok registry_new" by (simp add: calls_ok_def registry_new_def open_call_def)
  then have "calls_ok s" using calls_ok_run assms(2) by simp
  then have "open_call (cr_calls s) \<noteq> None" by (auto simp: calls_ok_def split: receiver.splits)
  moreover have "flying n (cr_ticks s) = of_bool (cj_running (cr_jobs s ! n))" if "n < length (cr_jobs s)" for n
    using inv that by (simp add: cron_inv_def claims_ok_def nth_views)
  ultimately show ?thesis using queue_fst_distinct [OF inv] by blast
qed

theorem job_runs_never_overlap_witness:
  "flying 0 (cr_ticks (cron_run demo_now (\<lambda>_. True) (demo_ops @ [Fire 0 0, Tick 1, Tick 1, Tick 1]) registry_new)) = 1 \<and>
   length (cr_queue (cron_run demo_now (\<lambda>_. True) (demo_ops @ [Fire 0 0, Tick 1, Tick 1, Tick 1]) registry_new)) \<le> 1"
proof -
  have "created (demo_ops @ [Fire 0 0, Tick 1, Tick 1, Tick 1]) < 2 ^ 32 - 1" by (simp add: created_def demo_ops_def)
  from job_runs_never_overlap [OF this refl, of demo_now "\<lambda>_. True"] show ?thesis
    by (simp add: demo_run fire_def tick_step_def set_tick_def update_job_def Let_def del: length_views)
qed

text \<open>
  No tick waits for ever while the receiver lives and callbacks end: from every reachable state, letting the receiver
  finish the call under way and take the queued invocations one by one empties the channel, and every tick that waited
  has its answer.\<close>

theorem receiver_answers_all:
  assumes "created ops < 2 ^ 32 - 1" "s = cron_run p ok ops registry_new" "cr_receiver s \<noteq> Rc_Gone"
  shows "\<exists>s'. s' = cron_run p ok (Call_Ends # concat (replicate (length (cr_queue s)) [Receive, Call_Ends])) s \<and>
    cr_queue s' = [] \<and> (\<forall>t \<in> set (cr_ticks s'). ti_pc t \<noteq> Tick_Waiting)"
proof -
  have rest: "cr_queue (call_ends s) = cr_queue s" "cr_receiver s \<noteq> Rc_Gone \<Longrightarrow> cr_receiver (call_ends s) = Rc_Idle" for s
    by (simp_all add: call_ends_def split: receiver.split)
  have turn: "cr_queue (call_ends (receive s)) = tl (cr_queue s) \<and> cr_receiver (call_ends (receive s)) = Rc_Idle"
    if "cr_receiver s = Rc_Idle" for s
    using that by (auto simp: receive_def call_ends_def Let_def split: list.split option.split)
  have drain: "cr_queue (cron_run p ok (concat (replicate k [Receive, Call_Ends])) s) = drop k (cr_queue s) \<and>
      cr_receiver (cron_run p ok (concat (replicate k [Receive, Call_Ends])) s) = Rc_Idle"
    if "cr_receiver s = Rc_Idle" for k s
    using that
  proof (induction k arbitrary: s)
    case (Suc k)
    then show ?case using turn [of s] by (simp add: drop_Suc)
  qed simp
  define xs where "xs = Call_Ends # concat (replicate (length (cr_queue s)) [Receive, Call_Ends])"
  let ?s = "cron_run p ok xs s"
  have idle: "cr_receiver (call_ends s) = Rc_Idle" using assms(3) rest(2) by blast
  then have q: "cr_queue ?s = []" "cr_receiver ?s = Rc_Idle" using drain [OF idle] rest(1) by (simp_all add: xs_def)
  have "created (concat (replicate k [Receive, Call_Ends])) = 0" for k by (induction k) (simp_all add: created_def)
  then have "created xs = 0" by (simp add: xs_def created_def)
  then have "created (ops @ xs) < 2 ^ 32 - 1" using assms(1) by (simp add: created_def)
  from cron_inv_reachable [OF this, of p ok] have "queue_ok ?s" using assms(2) by (simp add: cron_inv_def)
  then have "ti_pc (cr_ticks ?s ! i) \<noteq> Tick_Waiting" if "i < length (cr_ticks ?s)" for i
    using q that by (auto simp: queue_ok_def pending_def)
  then have "\<forall>t \<in> set (cr_ticks ?s). ti_pc t \<noteq> Tick_Waiting" by (auto simp: in_set_conv_nth)
  then show ?thesis using q(1) by (auto simp: xs_def)
qed

theorem receiver_answers_all_witness:
  "cr_queue (cron_run demo_now (\<lambda>_. True) [Call_Ends, Receive, Call_Ends] (cron_run demo_now (\<lambda>_. True) demo_ops registry_new)) = []"
proof -
  have "created demo_ops < 2 ^ 32 - 1" by (simp add: created_def demo_ops_def)
  moreover have "cr_receiver (cron_run demo_now (\<lambda>_. True) demo_ops registry_new) \<noteq> Rc_Gone"
    "length (cr_queue (cron_run demo_now (\<lambda>_. True) demo_ops registry_new)) = 1"
    by (simp_all add: demo_run)
  ultimately show ?thesis using receiver_answers_all [of demo_ops _ demo_now "\<lambda>_. True", OF _ refl] by auto
qed

text \<open>A job stopped before the task that adds it has run is added all the same: there is no scheduler yet to remove it
  from, and it stays there for ever, each tick ending at once.\<close>

lemma stopped_job_stays_scheduled:
  "cr_scheduled (cron_run demo_now (\<lambda>_. True) [Create '' 0 9 13 * 5'', Stop 0, Adding 0 True 2] registry_new) = [(0, 0), (0, 1)]"
  "cr_removing (cron_run demo_now (\<lambda>_. True) [Create '' 0 9 13 * 5'', Stop 0, Adding 0 True 2] registry_new) = []"
  by (simp_all add: demo_create with_job_def registry_new_def stop_job_def run_adding_def update_job_def Let_def upt_rec
      del: length_views)

end
