(* ===== verification/Worker_Exit.thy ===== *)
theory Worker_Exit
  imports Rong_Prelude
begin

text \<open>
  The end of a web worker's thread in \<^verbatim>\<open>modules/rong_worker/src/lib.rs\<close>: the guard the thread drops last, the reaper that
  waits for it a bounded time and then detaches it, and the process-wide counters of detached threads. Both sides are
  divided into their atomic operations, which interleave in any order; any number of workers share the counters.
\<close>

section \<open>State\<close>

text \<open>Where a thread is: running, after the store of \<open>stopped\<close>, after the swap of \<open>detached\<close> with what it was, before the
  announcement of its exit, and gone.\<close>

datatype exit_thread_pc = TE_Running | TE_Stopped | TE_Swapped bool | TE_Announce | TE_Exited

text \<open>Where a reaper is. At the end it has counted the thread as detached, or has not.\<close>

datatype reaper_pc =
    RP_None | RP_Waiting | RP_Join | RP_Late | RP_Added | RP_Lost | RP_Claimed | RP_Undo | RP_Undone | RP_Count | RP_Counted | RP_Released

record worker_exit =
  we_stopped :: bool
  we_detached :: bool
  we_exit_sent :: bool
  we_thread :: exit_thread_pc
  we_reaper :: reaper_pc

record detached_world =
  dw_active :: usize
  dw_total :: usize
  dw_workers :: "worker_exit list"

definition worker_exit_new :: worker_exit where
  "worker_exit_new =
     \<lparr>we_stopped = False, we_detached = False, we_exit_sent = False, we_thread = TE_Running, we_reaper = RP_None\<rparr>"

definition detached_init :: detached_world where
  "detached_init = \<lparr>dw_active = 0, dw_total = 0, dw_workers = []\<rparr>"

section \<open>Operations\<close>

definition decrement_active_detached_worker_threads :: "usize \<Rightarrow> usize" where
  "decrement_active_detached_worker_threads active = (if active = 0 then active else active - 1)"

text \<open>One step of the drop of \<^verbatim>\<open>WorkerThreadExit\<close>.\<close>

definition thread_exit_step :: "usize \<Rightarrow> worker_exit \<Rightarrow> usize \<times> worker_exit" where
  "thread_exit_step active w =
     (case we_thread w of
        TE_Running \<Rightarrow> (active, w\<lparr>we_stopped := True, we_thread := TE_Stopped\<rparr>)
      | TE_Stopped \<Rightarrow> (active, w\<lparr>we_detached := False, we_thread := TE_Swapped (we_detached w)\<rparr>)
      | TE_Swapped was_detached \<Rightarrow>
          ((if was_detached then decrement_active_detached_worker_threads active else active), w\<lparr>we_thread := TE_Announce\<rparr>)
      | TE_Announce \<Rightarrow> (active, w\<lparr>we_exit_sent := True, we_thread := TE_Exited\<rparr>)
      | TE_Exited \<Rightarrow> (active, w))"

text \<open>The wait of the reaper ends well only when the thread has stopped or announced its exit, and badly at any moment.\<close>

definition wait_for_worker_thread_exit :: "bool \<Rightarrow> worker_exit \<Rightarrow> worker_exit" where
  "wait_for_worker_thread_exit in_time w =
     (if \<not> in_time then w\<lparr>we_reaper := RP_Late\<rparr>
      else if we_stopped w \<or> we_exit_sent w then w\<lparr>we_reaper := RP_Join\<rparr>
      else w)"

text \<open>One step of \<^verbatim>\<open>mark_worker_thread_detached\<close>.\<close>

definition mark_detached_step :: "usize \<Rightarrow> usize \<Rightarrow> worker_exit \<Rightarrow> usize \<times> usize \<times> worker_exit" where
  "mark_detached_step active tot w =
     (case we_reaper w of
        RP_Late \<Rightarrow> (active + 1, tot, w\<lparr>we_reaper := RP_Added\<rparr>)
      | RP_Added \<Rightarrow>
          if we_detached w then (active, tot, w\<lparr>we_reaper := RP_Lost\<rparr>)
          else (active, tot, w\<lparr>we_detached := True, we_reaper := RP_Claimed\<rparr>)
      | RP_Lost \<Rightarrow> (decrement_active_detached_worker_threads active, tot, w\<lparr>we_reaper := RP_Released\<rparr>)
      | RP_Claimed \<Rightarrow> (active, tot, w\<lparr>we_reaper := if we_stopped w then RP_Undo else RP_Count\<rparr>)
      | RP_Undo \<Rightarrow>
          (active, tot, w\<lparr>we_detached := False, we_reaper := if we_detached w then RP_Undone else RP_Released\<rparr>)
      | RP_Undone \<Rightarrow> (decrement_active_detached_worker_threads active, tot, w\<lparr>we_reaper := RP_Released\<rparr>)
      | RP_Count \<Rightarrow> (active, tot + 1, w\<lparr>we_reaper := RP_Counted\<rparr>)
      | _ \<Rightarrow> (active, tot, w))"

datatype exit_op = New_Worker | Thread_Step nat | Spawn_Reaper nat | Wait_Ends nat bool | Reaper_Step nat

fun exit_do :: "exit_op \<Rightarrow> detached_world \<Rightarrow> detached_world" where
  "exit_do New_Worker d = d\<lparr>dw_workers := dw_workers d @ [worker_exit_new]\<rparr>"
| "exit_do (Thread_Step i) d =
     (if length (dw_workers d) \<le> i then d
      else (case thread_exit_step (dw_active d) (dw_workers d ! i) of
              (a, w) \<Rightarrow> d\<lparr>dw_active := a, dw_workers := (dw_workers d)[i := w]\<rparr>))"
| "exit_do (Spawn_Reaper i) d =
     (if length (dw_workers d) \<le> i \<or> we_reaper (dw_workers d ! i) \<noteq> RP_None then d
      else d\<lparr>dw_workers := (dw_workers d)[i := (dw_workers d ! i)\<lparr>we_reaper := RP_Waiting\<rparr>]\<rparr>)"
| "exit_do (Wait_Ends i in_time) d =
     (if length (dw_workers d) \<le> i \<or> we_reaper (dw_workers d ! i) \<noteq> RP_Waiting then d
      else d\<lparr>dw_workers := (dw_workers d)[i := wait_for_worker_thread_exit in_time (dw_workers d ! i)]\<rparr>)"
| "exit_do (Reaper_Step i) d =
     (if length (dw_workers d) \<le> i then d
      else (case mark_detached_step (dw_active d) (dw_total d) (dw_workers d ! i) of
              (a, t, w) \<Rightarrow> d\<lparr>dw_active := a, dw_total := t, dw_workers := (dw_workers d)[i := w]\<rparr>))"

fun exit_run :: "exit_op list \<Rightarrow> detached_world \<Rightarrow> detached_world" where
  "exit_run [] d = d"
| "exit_run (x # xs) d = exit_run xs (exit_do x d)"

section \<open>Accounting\<close>

text \<open>What a worker has in the counter of active detached threads at a moment: the flag stands for one, and so does a side
  that has yet to take it back.\<close>

fun reaper_owes :: "reaper_pc \<Rightarrow> bool" where
  "reaper_owes RP_Added = True"
| "reaper_owes RP_Lost = True"
| "reaper_owes RP_Undone = True"
| "reaper_owes _ = False"

fun thread_owes :: "exit_thread_pc \<Rightarrow> bool" where
  "thread_owes (TE_Swapped b) = b"
| "thread_owes _ = False"

definition debt :: "worker_exit \<Rightarrow> nat" where
  "debt w = of_bool (we_detached w \<or> thread_owes (we_thread w) \<or> reaper_owes (we_reaper w))"

definition counted :: "worker_exit \<Rightarrow> nat" where
  "counted w = of_bool (we_reaper w = RP_Counted)"

text \<open>The places of the two sides that go together with the flag.\<close>

fun before_swap :: "exit_thread_pc \<Rightarrow> bool" where
  "before_swap TE_Running = True"
| "before_swap TE_Stopped = True"
| "before_swap _ = False"

fun places_ok :: "reaper_pc \<Rightarrow> exit_thread_pc \<Rightarrow> bool \<Rightarrow> bool" where
  "places_ok RP_Lost t det = False"
| "places_ok RP_Claimed t det = (\<not> (det \<and> thread_owes t) \<and> (before_swap t \<longrightarrow> det))"
| "places_ok RP_Undo t det = (\<not> (det \<and> thread_owes t) \<and> t \<noteq> TE_Running)"
| "places_ok RP_Count t det = (det = before_swap t)"
| "places_ok RP_Counted t det = (det = before_swap t)"
| "places_ok RP_Released t det = (\<not> det)"
| "places_ok _ t det = (\<not> det \<and> \<not> thread_owes t)"

definition exit_ok :: "worker_exit \<Rightarrow> bool" where
  "exit_ok w \<longleftrightarrow>
     we_stopped w = (we_thread w \<noteq> TE_Running) \<and> we_exit_sent w = (we_thread w = TE_Exited) \<and>
     places_ok (we_reaper w) (we_thread w) (we_detached w)"

lemma exit_ok_new: "exit_ok worker_exit_new" "debt worker_exit_new = 0" "counted worker_exit_new = 0"
  by (simp_all add: exit_ok_def debt_def counted_def worker_exit_new_def)

lemma decrement_debt: "unat active \<noteq> 0 \<Longrightarrow> unat (decrement_active_detached_worker_threads active) + 1 = unat active"
proof -
  assume a: "unat active \<noteq> 0"
  then have "active \<noteq> 0" by auto
  then have d: "decrement_active_detached_worker_threads active = active - 1" "unat (active - 1) = unat active - 1"
    by (simp_all add: decrement_active_detached_worker_threads_def unat_minus_one)
  show ?thesis unfolding d using a by linarith
qed

text \<open>A step moves the counter by exactly what the debt of its worker moves.\<close>

lemma thread_exit_step_ok:
  assumes "exit_ok w" "debt w \<le> unat active"
  shows "exit_ok (snd (thread_exit_step active w)) \<and>
    unat (fst (thread_exit_step active w)) + debt w = unat active + debt (snd (thread_exit_step active w)) \<and>
    counted (snd (thread_exit_step active w)) = counted w"
proof -
  obtain st det ex t r where w: "w = \<lparr>we_stopped = st, we_detached = det, we_exit_sent = ex, we_thread = t, we_reaper = r\<rparr>"
    by (cases w)
  have down: "debt w = 1 \<Longrightarrow> unat (decrement_active_detached_worker_threads active) + 1 = unat active"
    using assms(2) by (intro decrement_debt) simp
  show ?thesis
    using assms(1) down unfolding w
    by (cases t; cases r; cases det) (simp_all add: thread_exit_step_def exit_ok_def debt_def counted_def)
qed

lemma mark_detached_step_ok:
  assumes "exit_ok w" "debt w \<le> unat active" "unat active + 1 < 2 ^ 64" "unat tot + 1 < 2 ^ 64"
    "mark_detached_step active tot w = (a, t, w')"
  shows "exit_ok w' \<and> unat a + debt w = unat active + debt w' \<and> unat t + counted w = unat tot + counted w'"
proof -
  have up: "unat (active + 1) = unat active + 1" "unat (tot + 1) = unat tot + 1"
    using assms(3,4) by (simp_all add: unat_word_ariths)
  obtain st det ex th r where w: "w = \<lparr>we_stopped = st, we_detached = det, we_exit_sent = ex, we_thread = th, we_reaper = r\<rparr>"
    by (cases w)
  have down: "debt w = 1 \<Longrightarrow> unat (decrement_active_detached_worker_threads active) + 1 = unat active"
    using assms(2) by (intro decrement_debt) simp
  have "case mark_detached_step active tot w of (a, t, w') \<Rightarrow>
      exit_ok w' \<and> unat a + debt w = unat active + debt w' \<and> unat t + counted w = unat tot + counted w'"
    using assms(1) up down unfolding w
    by (cases r; cases th; cases det) (simp_all add: mark_detached_step_def exit_ok_def debt_def counted_def)
  then show ?thesis using assms(5) by simp
qed

lemma wait_ok:
  assumes "exit_ok w" "we_reaper w = RP_Waiting"
  shows "exit_ok (wait_for_worker_thread_exit b w) \<and> debt (wait_for_worker_thread_exit b w) = debt w \<and>
    counted (wait_for_worker_thread_exit b w) = counted w"
  using assms by (auto simp: wait_for_worker_thread_exit_def exit_ok_def debt_def counted_def)

definition detached_ok :: "detached_world \<Rightarrow> bool" where
  "detached_ok d \<longleftrightarrow>
     (\<forall>w \<in> set (dw_workers d). exit_ok w) \<and> unat (dw_active d) = sum_list (map debt (dw_workers d)) \<and>
     unat (dw_total d) = sum_list (map counted (dw_workers d))"

lemma sum_list_update_nat:
  "i < length xs \<Longrightarrow> sum_list (map f (xs[i := x])) + f (xs ! i) = sum_list (map f xs) + (f x :: nat)"
proof (induction xs arbitrary: i)
  case (Cons y ys)
  then show ?case by (cases i) auto
qed simp

lemma sum_list_bound: "(\<forall>x \<in> set xs. f x \<le> (1 :: nat)) \<Longrightarrow> sum_list (map f xs) \<le> length xs"
  by (induction xs) auto

lemma unit_sums: "sum_list (map debt ws) \<le> length ws" "sum_list (map counted ws) \<le> length ws"
  by (rule sum_list_bound, simp add: debt_def counted_def)+

lemma detached_ok_update:
  assumes "detached_ok d" "i < length (dw_workers d)" "exit_ok w"
    "unat a + debt (dw_workers d ! i) = unat (dw_active d) + debt w"
    "unat t + counted (dw_workers d ! i) = unat (dw_total d) + counted w"
  shows "detached_ok (d\<lparr>dw_active := a, dw_total := t, dw_workers := (dw_workers d)[i := w]\<rparr>)"
  using assms sum_list_update_nat [OF assms(2), of debt w] sum_list_update_nat [OF assms(2), of counted w]
  by (auto simp: detached_ok_def dest!: set_update_subset_insert [THEN subsetD])

lemma detached_ok_do:
  assumes ok: "detached_ok d" and small: "length (dw_workers d) + 1 < 2 ^ 64"
  shows "detached_ok (exit_do x d)"
proof -
  have bounds: "unat (dw_active d) + 1 < 2 ^ 64" "unat (dw_total d) + 1 < 2 ^ 64"
    using ok small unit_sums [of "dw_workers d"] by (simp_all add: detached_ok_def)
  have worker: "exit_ok (dw_workers d ! i)" "debt (dw_workers d ! i) \<le> unat (dw_active d)" if "i < length (dw_workers d)" for i
    using ok that member_le_sum_list [of "debt (dw_workers d ! i)" "map debt (dw_workers d)"] by (auto simp: detached_ok_def)
  show ?thesis
  proof (cases x)
    case New_Worker
    then show ?thesis using ok exit_ok_new by (simp add: detached_ok_def)
  next
    case (Thread_Step i)
    let ?r = "thread_exit_step (dw_active d) (dw_workers d ! i)"
    show ?thesis
      using Thread_Step ok thread_exit_step_ok [OF worker, of i] detached_ok_update [OF ok, of i "snd ?r" "fst ?r" "dw_total d"]
      by (simp add: case_prod_unfold)
  next
    case (Spawn_Reaper i)
    let ?w = "(dw_workers d ! i)\<lparr>we_reaper := RP_Waiting\<rparr>"
    have "i < length (dw_workers d) \<Longrightarrow> we_reaper (dw_workers d ! i) = RP_None \<Longrightarrow>
        exit_ok ?w \<and> debt ?w = debt (dw_workers d ! i) \<and> counted ?w = counted (dw_workers d ! i)"
      using worker(1) [of i] by (auto simp: exit_ok_def debt_def counted_def)
    then show ?thesis
      using Spawn_Reaper ok detached_ok_update [OF ok, of i ?w "dw_active d" "dw_total d"] by auto
  next
    case (Wait_Ends i b)
    then show ?thesis
      using ok wait_ok [OF worker(1), of i b]
        detached_ok_update [OF ok, of i "wait_for_worker_thread_exit b (dw_workers d ! i)" "dw_active d" "dw_total d"] by auto
  next
    case (Reaper_Step i)
    obtain a t w where "mark_detached_step (dw_active d) (dw_total d) (dw_workers d ! i) = (a, t, w)" by (cases rule: prod_cases3)
    then show ?thesis
      using Reaper_Step ok mark_detached_step_ok [OF worker bounds, of i a t w]
        detached_ok_update [OF ok, of i w a t] by simp
  qed
qed

lemma length_exit_do: "length (dw_workers (exit_do x d)) \<le> Suc (length (dw_workers d))"
  by (cases x) (auto split: prod.split)

lemma detached_ok_run:
  "detached_ok d \<Longrightarrow> length (dw_workers d) + length ops < 2 ^ 64 \<Longrightarrow> detached_ok (exit_run ops d)"
proof (induction ops arbitrary: d)
  case (Cons x xs)
  then show ?case using detached_ok_do [of d x] length_exit_do [of x d] by simp
qed simp

text \<open>A worker between races: its thread runs or is gone, and its reaper has not begun to detach it or is done.\<close>

definition settled :: "worker_exit \<Rightarrow> bool" where
  "settled w \<longleftrightarrow> we_thread w \<in> {TE_Running, TE_Exited} \<and> we_reaper w \<in> {RP_None, RP_Waiting, RP_Join, RP_Counted, RP_Released}"

text \<open>
  C14. Detached worker threads are counted exactly, however threads that exit and reapers that give up on them race: at every
  moment the active count is the number of workers that have been counted in, or are about to be counted out by one of
  the two sides, so it never runs below zero or wraps; and whenever no race is under way the active count is the number
  of detached threads that still run and the total is the number ever detached.\<close>

theorem detached_threads_counted:
  assumes "length ops < 2 ^ 64" "d = exit_run ops detached_init"
  shows "unat (dw_active d) = sum_list (map debt (dw_workers d)) \<and>
    ((\<forall>w \<in> set (dw_workers d). settled w) \<longrightarrow>
       unat (dw_active d) = length (filter (\<lambda>w. we_reaper w = RP_Counted \<and> we_thread w = TE_Running) (dw_workers d)) \<and>
       unat (dw_total d) = length (filter (\<lambda>w. we_reaper w = RP_Counted) (dw_workers d)))"
proof -
  have "detached_ok detached_init" by (simp add: detached_ok_def detached_init_def)
  then have ok: "detached_ok d" using detached_ok_run assms by (simp add: detached_init_def)
  have cnt: "sum_list (map (\<lambda>x. of_bool (P x)) xs) = length (filter P xs)" for P and xs :: "worker_exit list"
    by (induction xs) auto
  have "debt w = of_bool (we_reaper w = RP_Counted \<and> we_thread w = TE_Running)" if "settled w" "exit_ok w" for w
    using that by (cases "we_thread w"; cases "we_reaper w") (auto simp: settled_def exit_ok_def debt_def)
  then have active: "unat (dw_active d) = length (filter (\<lambda>w. we_reaper w = RP_Counted \<and> we_thread w = TE_Running) (dw_workers d))"
    if "\<forall>w \<in> set (dw_workers d). settled w"
    using ok that cnt [of "\<lambda>w. we_reaper w = RP_Counted \<and> we_thread w = TE_Running" "dw_workers d"]
    by (simp add: detached_ok_def cong: map_cong)
  have total_count: "unat (dw_total d) = length (filter (\<lambda>w. we_reaper w = RP_Counted) (dw_workers d))"
    using ok cnt [of "\<lambda>w. we_reaper w = RP_Counted" "dw_workers d"] by (simp add: detached_ok_def counted_def cong: map_cong)
  have "unat (dw_active d) = sum_list (map debt (dw_workers d))" using ok by (simp add: detached_ok_def)
  then show ?thesis using active total_count by blast
qed

text \<open>Two workers: one exits just after its reaper has claimed it, the other is detached and still runs.\<close>

definition demo_exits :: "exit_op list" where
  "demo_exits =
     [New_Worker, New_Worker, Spawn_Reaper 0, Wait_Ends 0 False, Reaper_Step 0, Thread_Step 0, Reaper_Step 0, Thread_Step 0,
      Reaper_Step 0, Thread_Step 0, Reaper_Step 0, Thread_Step 0, Spawn_Reaper 1, Wait_Ends 1 False, Reaper_Step 1, Reaper_Step 1,
      Reaper_Step 1, Reaper_Step 1]"

theorem detached_threads_counted_witness:
  "unat (dw_active (exit_run demo_exits detached_init)) = 1 \<and> unat (dw_total (exit_run demo_exits detached_init)) = 1"
proof -
  have l: "length demo_exits < 2 ^ 64" by (simp add: demo_exits_def)
  have s: "\<forall>w \<in> set (dw_workers (exit_run demo_exits detached_init)). settled w"
    "length (filter (\<lambda>w. we_reaper w = RP_Counted \<and> we_thread w = TE_Running) (dw_workers (exit_run demo_exits detached_init))) = 1"
    "length (filter (\<lambda>w. we_reaper w = RP_Counted) (dw_workers (exit_run demo_exits detached_init))) = 1"
    by code_simp+
  show ?thesis using detached_threads_counted [OF l refl] s by simp
qed

end
