(* ===== verification/Web_Worker.thy ===== *)
theory Web_Worker
  imports Worker_Exit Interrupt Js_Object "HOL-Library.Sublist"
begin

text \<open>
  Web workers of \<^verbatim>\<open>modules/rong_worker/src/lib.rs\<close>: values crossing between two runtimes, the loop of the worker's thread,
  the channels of messages, the loop of the main side that calls the handlers, termination, and the registry of a
  context. A run is a list of events: what the scripts do, and which of its ready branches each task takes. The
  scripts, the JSON of the engine and the handlers are parameters of the events.
\<close>

section \<open>Values\<close>

datatype serialized_worker_value =
    Ser_Json string
  | Ser_Undefined
  | Ser_BigInt string
  | Ser_Number f64_value

text \<open>\<open>stringify\<close> is the JSON of the engine, for objects and for other values. The sign of a zero is not part of the model of
  numbers, so negative zero is not told apart.\<close>

definition serialize_worker_value ::
  "'o js_engine \<Rightarrow> ('o qjs_value \<Rightarrow> string js_result) \<Rightarrow> 'o qjs_value \<Rightarrow> serialized_worker_value js_result" where
  "serialize_worker_value e stringify data =
     (if qjs_is_undefined data then Inr Ser_Undefined
      else if qjs_is_bigint data then map_sum id Ser_BigInt (string_from_js (je_to_cstring e) data)
      else
        js_bind
          (if qjs_is_number data
           then js_bind (f64_from_js data) (\<lambda>x. Inr (case x of F64_Fin _ _ \<Rightarrow> None | _ \<Rightarrow> Some (Ser_Number x)))
           else Inr None)
          (\<lambda>special. case special of Some v \<Rightarrow> Inr v | None \<Rightarrow> map_sum id Ser_Json (stringify data)))"

definition deserialize_worker_value ::
  "(string \<Rightarrow> 'o qjs_value js_result) \<Rightarrow> (string \<Rightarrow> 'o qjs_value js_result) \<Rightarrow> serialized_worker_value \<Rightarrow> 'o qjs_value js_result" where
  "deserialize_worker_value parse_json bigint data =
     (case data of
        Ser_Json json \<Rightarrow> parse_json json
      | Ser_Undefined \<Rightarrow> Inr js_create_undefined
      | Ser_BigInt text \<Rightarrow> bigint text
      | Ser_Number x \<Rightarrow> Inr (qjs_from_f64 x))"

text \<open>The documented behaviour this rests on: a big integer is read back from its text, and JSON from its text.\<close>

definition bigint_text_ok :: "'o js_engine \<Rightarrow> (string \<Rightarrow> 'o qjs_value js_result) \<Rightarrow> bool" where
  "bigint_text_ok e bigint \<longleftrightarrow> (\<forall>i. \<exists>s. je_to_cstring e (V_BigInt i) = Some s \<and> bigint s = Inr (owned (V_BigInt i)))"

definition json_keeps ::
  "('o qjs_value \<Rightarrow> string js_result) \<Rightarrow> (string \<Rightarrow> 'o qjs_value js_result) \<Rightarrow> 'o qjs_value \<Rightarrow> bool" where
  "json_keeps stringify parse_json v \<longleftrightarrow> (\<exists>s. stringify v = Inr s \<and> parse_json s = Inr v)"

text \<open>What JSON is asked to keep: everything but undefined, big integers and the numbers that are not finite.\<close>

definition goes_as_json :: "'o js_raw \<Rightarrow> bool" where
  "goes_as_json r =
     (case r of V_Undefined \<Rightarrow> False | V_BigInt _ \<Rightarrow> False | V_Number (F64_Fin _ _) \<Rightarrow> True | V_Number _ \<Rightarrow> False | _ \<Rightarrow> True)"

text \<open>
  A value posted to a worker or back arrives as it was: undefined, big integers, NaN and the infinities, which JSON
  cannot express, by their own encoding, and every other value whenever the engine's JSON keeps it.\<close>

theorem posted_value_arrives:
  assumes "bigint_text_ok e bigint" "qv_type v = Q_Other"
    "goes_as_json (qv_value v) \<Longrightarrow> json_keeps stringify parse_json v"
  shows "\<exists>d. serialize_worker_value e stringify v = Inr d \<and> deserialize_worker_value parse_json bigint d = Inr v"
proof -
  have v: "v = owned (qv_value v)" using assms(2) by (simp add: owned_def)
  show ?thesis
  proof (cases "qv_value v")
    case (V_Number x)
    then show ?thesis
      using assms(2,3) v by (cases x) (auto simp: serialize_worker_value_def deserialize_worker_value_def qjs_test_defs goes_as_json_def
          json_keeps_def f64_from_js_def convert_with_def qjs_to_f64_def js_bind_def qjs_from_f64_def)
  next
    case (V_BigInt i)
    obtain s where "je_to_cstring e (V_BigInt i) = Some s" "bigint s = Inr (owned (V_BigInt i))"
      using assms(1) by (auto simp: bigint_text_ok_def)
    then show ?thesis
      using V_BigInt v by (simp add: serialize_worker_value_def deserialize_worker_value_def qjs_test_defs string_from_js_def convert_with_def)
  next
    case V_Undefined
    then show ?thesis
      using v by (simp add: serialize_worker_value_def deserialize_worker_value_def qjs_test_defs js_create_undefined_def)
  qed (use assms(3) in \<open>auto simp: serialize_worker_value_def deserialize_worker_value_def qjs_test_defs goes_as_json_def json_keeps_def js_bind_def\<close>)
qed

text \<open>An engine that prints a big integer in strokes.\<close>

definition strokes :: "int \<Rightarrow> string" where
  "strokes i = (if i < 0 then CHR ''-'' # replicate (nat (- i)) (CHR ''1'') else replicate (nat i) (CHR ''1''))"

definition of_strokes :: "string \<Rightarrow> int" where
  "of_strokes s = (case s of c # r \<Rightarrow> if c = CHR ''-'' then - int (length r) else int (length s) | [] \<Rightarrow> 0)"

definition stroke_engine :: "unit js_engine" where
  "stroke_engine =
     \<lparr>je_to_cstring = (\<lambda>r. case r of V_BigInt i \<Rightarrow> Some (strokes i) | _ \<Rightarrow> None), je_f64_text = (\<lambda>_. []),
      je_has_property = (\<lambda>_ _. Inr False), je_get_property = (\<lambda>_ _. Inr None), je_own_names = (\<lambda>_. Inr []),
      je_array_len = (\<lambda>_. Inr 0), je_typed_bytes = (\<lambda>_. None), je_buffer_bytes = (\<lambda>_. []), je_is_signal = (\<lambda>_. False)\<rparr>"

lemma of_strokes_strokes: "of_strokes (strokes i) = i"
  by (cases "nat i") (auto simp: strokes_def of_strokes_def)

theorem posted_value_arrives_witness:
  "\<exists>d. serialize_worker_value stroke_engine (\<lambda>_. Inr ''null'') (owned (V_BigInt (- 5))) = Inr d \<and>
     deserialize_worker_value (\<lambda>_. Inr (owned V_Null)) (\<lambda>s. Inr (owned (V_BigInt (of_strokes s)))) d = Inr (owned (V_BigInt (- 5)) :: unit qjs_value)"
proof (rule posted_value_arrives)
  show "bigint_text_ok stroke_engine (\<lambda>s. Inr (owned (V_BigInt (of_strokes s))))"
    by (simp add: bigint_text_ok_def stroke_engine_def of_strokes_strokes)
qed (simp_all add: owned_def goes_as_json_def)

section \<open>The two sides of a worker\<close>

text \<open>Where the worker's thread is. A send remembers whether the loop goes on after it.\<close>

datatype thread_pc = P_Start | P_Init | P_Load | P_Eval | P_Loop | P_Wait | P_Handle | P_Send string bool | P_End

text \<open>Where the polling task of the main side is: not started, at the head of its loop, waiting, in a handler of messages or
  of errors, and over.\<close>

datatype poll_pc = M_None | M_Loop | M_Wait | M_Calling | M_Failing | M_End

datatype 'm from_worker = From_Message 'm | From_Error string

text \<open>The channel that tells the thread to end is its last value and whether the thread has yet to see a change of it. The
  logs keep what the two channels carried, what the receivers took from them, and the calls of the handlers. While a script
  is running it occupies the thread, and none of the thread's tasks can move.\<close>

record 'm web_worker =
  ww_script :: string
  ww_terminated :: bool
  ww_termination_started :: bool
  ww_interrupt :: interrupt_handle
  ww_term_value :: bool
  ww_term_changed :: bool
  ww_stopped :: bool
  ww_handle :: bool
  ww_dropped :: bool
  ww_reapers :: nat
  ww_running :: bool
  ww_pc :: thread_pc
  ww_poll :: poll_pc
  ww_poll_started :: bool
  ww_to :: "'m list"
  ww_from :: "'m from_worker list"
  ww_to_sent :: "'m list"
  ww_to_taken :: "'m list"
  ww_handled :: "'m list"
  ww_delivered :: "'m list"

definition CHANNEL_SIZE :: nat where "CHANNEL_SIZE = 256"

definition worker_start :: "string \<Rightarrow> 'm web_worker" where
  "worker_start script =
     \<lparr>ww_script = script, ww_terminated = False, ww_termination_started = False, ww_interrupt = ih_new, ww_term_value = False,
      ww_term_changed = False, ww_stopped = False, ww_handle = True, ww_dropped = False, ww_reapers = 0, ww_running = False, ww_pc = P_Start, ww_poll = M_None,
      ww_poll_started = False, ww_to = [], ww_from = [], ww_to_sent = [], ww_to_taken = [], ww_handled = [], ww_delivered = []\<rparr>"

section \<open>Operations of the main side\<close>

text \<open>A reaper is spawned with the thread's handle, which is there once.\<close>

definition ww_terminate :: "'m web_worker \<Rightarrow> 'm web_worker" where
  "ww_terminate w =
     (let w = w\<lparr>ww_terminated := True\<rparr> in
      if ww_termination_started w then w
      else
        let w = w\<lparr>ww_termination_started := True, ww_interrupt := ih_interrupt (ww_interrupt w)\<rparr>;
            w = (if ww_stopped w then w else w\<lparr>ww_term_value := True, ww_term_changed := True\<rparr>);
            w = (if ww_poll w = M_None then w else w\<lparr>ww_poll := M_End\<rparr>) in
        if ww_handle w then w\<lparr>ww_handle := False, ww_reapers := ww_reapers w + 1\<rparr> else w)"

text \<open>The drop of the JavaScript object terminates the worker and drops the receiver of its messages.\<close>

definition worker_drop :: "'m web_worker \<Rightarrow> 'm web_worker" where
  "worker_drop w = (ww_terminate w)\<lparr>ww_dropped := True\<rparr>"

text \<open>A message is serialized at the call and sent by a task; the sending task completes when the channel has room, or gives
  the message up when the thread is gone.\<close>

definition post_message :: "'m js_result \<Rightarrow> 'm web_worker \<Rightarrow> 'm option js_result" where
  "post_message data w = (if ww_terminated w then Inr None else map_sum id Some data)"

definition post_task_sends :: "'m \<Rightarrow> 'm web_worker \<Rightarrow> 'm web_worker option" where
  "post_task_sends m w =
     (if ww_pc w = P_End then Some w
      else if length (ww_to w) < CHANNEL_SIZE then Some (w\<lparr>ww_to := ww_to w @ [m], ww_to_sent := ww_to_sent w @ [m]\<rparr>)
      else None)"

definition ensure_polling :: "'m web_worker \<Rightarrow> 'm web_worker" where
  "ensure_polling w = (if ww_poll_started w then w else w\<lparr>ww_poll_started := True, ww_poll := M_Loop\<rparr>)"

text \<open>The polling task: \<open>Poll_Go\<close> is the head of the loop, \<open>Poll_Receive\<close> a reception with whether the value could be read and
  which handlers are set, \<open>Poll_Returned\<close> the end of a handler, with whether it failed and an error handler is set.\<close>

datatype poll_event = Poll_Go | Poll_Receive bool bool bool | Poll_Closed | Poll_Returned bool bool

definition poll_step :: "poll_event \<Rightarrow> 'm web_worker \<Rightarrow> 'm web_worker option" where
  "poll_step ev w =
     (case (ww_poll w, ev) of
        (M_Loop, Poll_Go) \<Rightarrow> Some (w\<lparr>ww_poll := if ww_terminated w then M_End else M_Wait\<rparr>)
      | (M_Wait, Poll_Receive readable has_message has_error) \<Rightarrow>
          (case ww_from w of
             [] \<Rightarrow> None
           | From_Message m # q \<Rightarrow>
               let w = w\<lparr>ww_from := q\<rparr> in
               Some (if ww_terminated w then w\<lparr>ww_poll := M_End\<rparr>
                     else if readable \<and> has_message then w\<lparr>ww_poll := M_Calling, ww_delivered := ww_delivered w @ [m]\<rparr>
                     else w\<lparr>ww_poll := M_Loop\<rparr>)
           | From_Error e # q \<Rightarrow> Some (w\<lparr>ww_from := q, ww_poll := if has_error then M_Failing else M_Loop\<rparr>))
      | (M_Wait, Poll_Closed) \<Rightarrow>
          if ww_pc w = P_End \<and> ww_from w = [] then Some (w\<lparr>ww_poll := M_End\<rparr>) else None
      | (M_Calling, Poll_Returned failed has_error) \<Rightarrow>
          Some (w\<lparr>ww_poll := if failed \<and> has_error then M_Failing else M_Loop\<rparr>)
      | (M_Failing, Poll_Returned failed has_error) \<Rightarrow> Some (w\<lparr>ww_poll := M_Loop\<rparr>)
      | _ \<Rightarrow> None)"

section \<open>The worker's thread\<close>

text \<open>\<open>close()\<close> of the worker's script.\<close>

definition worker_close :: "'m web_worker \<Rightarrow> 'm web_worker" where
  "worker_close w = w\<lparr>ww_terminated := True, ww_term_value := True, ww_term_changed := True\<rparr>"

text \<open>\<open>postMessage\<close> of the worker's script: the message, an error when it cannot be serialized; the sending task completes
  when there is room, or gives the message up when the receiver is gone.\<close>

definition worker_post_message :: "string + 'm \<Rightarrow> 'm from_worker" where
  "worker_post_message data =
     (case data of Inr m \<Rightarrow> From_Message m | Inl e \<Rightarrow> From_Error (''postMessage serialization failed: '' @ e))"

definition worker_post_sends :: "'m from_worker \<Rightarrow> 'm web_worker \<Rightarrow> 'm web_worker option" where
  "worker_post_sends m w =
     (if ww_pc w = P_End then None
      else if ww_dropped w then Some w
      else if length (ww_from w) < CHANNEL_SIZE then Some (w\<lparr>ww_from := ww_from w @ [m]\<rparr>)
      else None)"

datatype reception = Rx_Handler | Rx_No_Handler | Rx_Unreadable string

datatype thread_event =
    Th_Go
  | Th_Changed
  | Th_Init "string + unit"
  | Th_Loaded "string + unit"
  | Th_Evaluated "string + unit"
  | Th_Receive reception
  | Th_Closed
  | Th_Called "string + unit"

definition goto :: "thread_pc \<Rightarrow> 'm web_worker \<Rightarrow> 'm web_worker option" where
  "goto pc w = Some (w\<lparr>ww_pc := pc\<rparr>)"

text \<open>One step of \<^verbatim>\<open>run_worker_thread\<close> between two points where it can wait; \<^const>\<open>None\<close> when the event is not ready, and
  always while a script occupies the thread: the branches of a \<^verbatim>\<open>select!\<close> are looked at only when it has yielded.\<close>

definition thread_step :: "thread_event \<Rightarrow> 'm web_worker \<Rightarrow> 'm web_worker option" where
  "thread_step ev w =
     (if ww_running w then None else
      case (ww_pc w, ev) of
        (P_Start, Th_Go) \<Rightarrow> goto (if ww_term_value w then P_End else P_Init) w
      | (P_Init, Th_Init r) \<Rightarrow>
          goto (case r of Inl m \<Rightarrow> P_Send (''initializer failed: '' @ m) False | Inr _ \<Rightarrow> P_Load) w
      | (P_Load, Th_Changed) \<Rightarrow> if ww_term_changed w then goto P_End w else None
      | (P_Load, Th_Loaded r) \<Rightarrow>
          goto (case r of Inl m \<Rightarrow> P_Send (''failed to load '' @ ww_script w @ '': '' @ m) False | Inr _ \<Rightarrow> P_Eval) w
      | (P_Eval, Th_Changed) \<Rightarrow> if ww_term_changed w then goto P_End w else None
      | (P_Eval, Th_Evaluated r) \<Rightarrow>
          goto (case r of
                  Inr _ \<Rightarrow> P_Loop
                | Inl m \<Rightarrow> if ww_terminated w then P_End else P_Send (''script error in '' @ ww_script w @ '': '' @ m) False) w
      | (P_Loop, Th_Go) \<Rightarrow> goto (if ww_terminated w then P_End else P_Wait) w
      | (P_Wait, Th_Changed) \<Rightarrow>
          if ww_term_changed w then goto (if ww_term_value w then P_End else P_Loop) (w\<lparr>ww_term_changed := False\<rparr>) else None
      | (P_Wait, Th_Receive rx) \<Rightarrow>
          (case ww_to w of
             [] \<Rightarrow> None
           | m # q \<Rightarrow>
               let w = w\<lparr>ww_to := q, ww_to_taken := ww_to_taken w @ [m]\<rparr> in
               (case rx of
                  Rx_Handler \<Rightarrow> goto P_Handle (w\<lparr>ww_handled := ww_handled w @ [m]\<rparr>)
                | Rx_No_Handler \<Rightarrow> goto P_Loop w
                | Rx_Unreadable e \<Rightarrow> goto (P_Send (''worker message deserialization failed: '' @ e) True) w))
      | (P_Wait, Th_Closed) \<Rightarrow> if ww_to w = [] then goto P_End w else None
      | (P_Handle, Th_Changed) \<Rightarrow> if ww_term_changed w then goto P_End w else None
      | (P_Handle, Th_Called r) \<Rightarrow>
          goto (case r of
                  Inr _ \<Rightarrow> P_Loop
                | Inl m \<Rightarrow> if ww_terminated w then P_End else P_Send (''worker onmessage handler error: '' @ m) True) w
      | (P_Send m again, Th_Go) \<Rightarrow>
          if ww_dropped w then goto (if again then P_Loop else P_End) w
          else if length (ww_from w) < CHANNEL_SIZE
          then goto (if again then P_Loop else P_End) (w\<lparr>ww_from := ww_from w @ [From_Error m]\<rparr>)
          else None
      | _ \<Rightarrow> None)"

text \<open>Where the thread waits, so that a task of its own, the script or a callback of it can run on it.\<close>

fun waits :: "thread_pc \<Rightarrow> bool" where
  "waits P_Load = True"
| "waits P_Eval = True"
| "waits P_Wait = True"
| "waits P_Handle = True"
| "waits (P_Send _ _) = True"
| "waits _ = False"

text \<open>Everything that happens to a worker. An event that is not ready changes nothing. A script that runs yields by itself or is
  stopped by the engine; both are the event \<open>Script_Yields\<close>.\<close>

datatype 'm worker_event =
    Terminate
  | Dropped
  | Post_Sends 'm
  | Set_Handler
  | Poll poll_event
  | Close
  | Worker_Posts "'m from_worker"
  | Script_Runs
  | Script_Yields
  | Thread thread_event
  | Thread_Gone

definition or_stay :: "'m web_worker option \<Rightarrow> 'm web_worker \<Rightarrow> 'm web_worker" where
  "or_stay r w = (case r of Some w' \<Rightarrow> w' | None \<Rightarrow> w)"

fun worker_do :: "'m worker_event \<Rightarrow> 'm web_worker \<Rightarrow> 'm web_worker" where
  "worker_do Terminate w = ww_terminate w"
| "worker_do Dropped w = worker_drop w"
| "worker_do (Post_Sends m) w = or_stay (post_task_sends m w) w"
| "worker_do Set_Handler w = ensure_polling w"
| "worker_do (Poll ev) w = or_stay (poll_step ev w) w"
| "worker_do Close w = (if ww_pc w \<in> {P_Eval, P_Loop, P_Wait, P_Handle} then worker_close w else w)"
| "worker_do (Worker_Posts m) w = or_stay (worker_post_sends m w) w"
| "worker_do Script_Runs w = (if waits (ww_pc w) then w\<lparr>ww_running := True\<rparr> else w)"
| "worker_do Script_Yields w = w\<lparr>ww_running := False\<rparr>"
| "worker_do (Thread ev) w = or_stay (thread_step ev w) w"
| "worker_do Thread_Gone w = (if ww_pc w = P_End then w\<lparr>ww_stopped := True\<rparr> else w)"

fun worker_run :: "'m worker_event list \<Rightarrow> 'm web_worker \<Rightarrow> 'm web_worker" where
  "worker_run [] w = w"
| "worker_run (ev # evs) w = worker_run evs (worker_do ev w)"

lemma worker_run_append [simp]: "worker_run (xs @ ys) w = worker_run ys (worker_run xs w)"
  by (induction xs arbitrary: w) simp_all

section \<open>Termination\<close>

text \<open>What holds of a worker all along: a stopped thread has left its function, messages to the worker keep their order,
  and once termination has started the thread, unless it has ended, has a change of the termination channel to see.\<close>

definition told_to_end :: "'m web_worker \<Rightarrow> bool" where
  "told_to_end w \<longleftrightarrow>
     ww_terminated w \<and> ih_is_interrupted (ww_interrupt w) \<and> \<not> ww_handle w \<and> ww_reapers w = 1 \<and>
     (ww_pc w \<noteq> P_End \<longrightarrow> ww_term_value w \<and> ww_term_changed w) \<and> ww_poll w \<in> {M_None, M_Loop, M_End}"

definition not_told :: "'m web_worker \<Rightarrow> bool" where
  "not_told w \<longleftrightarrow> ww_handle w \<and> ww_reapers w = 0"

definition worker_ok :: "'m web_worker \<Rightarrow> bool" where
  "worker_ok w \<longleftrightarrow>
     (ww_stopped w \<longrightarrow> ww_pc w = P_End) \<and> (ww_termination_started w \<longrightarrow> told_to_end w) \<and> (\<not> ww_termination_started w \<longrightarrow> not_told w) \<and>
     ww_to_taken w @ ww_to w = ww_to_sent w \<and> subseq (ww_handled w) (ww_to_taken w)"

lemmas worker_ok_defs = worker_ok_def told_to_end_def not_told_def

lemma worker_ok_start: "worker_ok (worker_start s)"
  by (simp add: worker_ok_defs worker_start_def)

lemma worker_ok_terminate: "worker_ok w \<Longrightarrow> worker_ok (ww_terminate w)"
  by (auto simp: worker_ok_defs ww_terminate_def Let_def ih_interrupt_def ih_is_interrupted_def)

lemma terminate_starts: "ww_termination_started (ww_terminate w)"
  by (simp add: ww_terminate_def Let_def)


lemma or_stay_cases: "(\<And>w'. r = Some w' \<Longrightarrow> P w') \<Longrightarrow> (r = None \<Longrightarrow> P w) \<Longrightarrow> P (or_stay r w)"
  by (cases r) (simp_all add: or_stay_def)

lemmas thread_splits = sum.splits if_splits list.splits reception.splits

text \<open>What the thread leaves to the main side.\<close>

definition main_view :: "'m web_worker \<Rightarrow> 'm web_worker" where
  "main_view w =
     w\<lparr>ww_pc := P_End, ww_term_changed := False, ww_to := [], ww_to_taken := [], ww_handled := [], ww_from := []\<rparr>"

lemma thread_step_frame: "thread_step ev w = Some w' \<Longrightarrow> main_view w' = main_view w"
  by (cases "ww_pc w"; cases ev) (auto simp: thread_step_def goto_def Let_def main_view_def split: thread_splits)

lemma main_view_selectors:
  assumes "main_view w' = main_view w"
  shows "ww_terminated w' = ww_terminated w" "ww_termination_started w' = ww_termination_started w"
    "ww_interrupt w' = ww_interrupt w" "ww_term_value w' = ww_term_value w" "ww_stopped w' = ww_stopped w"
    "ww_handle w' = ww_handle w" "ww_reapers w' = ww_reapers w" "ww_poll w' = ww_poll w" "ww_to_sent w' = ww_to_sent w"
    "ww_delivered w' = ww_delivered w" "ww_dropped w' = ww_dropped w"
  using assms by (cases w; cases w'; simp add: main_view_def)+

lemmas thread_frame = main_view_selectors [OF thread_step_frame]

lemma thread_step_queue:
  "thread_step ev w = Some w' \<Longrightarrow> ww_to_taken w @ ww_to w = q \<Longrightarrow> subseq (ww_handled w) (ww_to_taken w) \<Longrightarrow>
     ww_to_taken w' @ ww_to w' = q \<and> subseq (ww_handled w') (ww_to_taken w')"
  by (cases "ww_pc w"; cases ev) (auto simp: thread_step_def goto_def Let_def split: thread_splits)

lemma thread_step_changed:
  "thread_step ev w = Some w' \<Longrightarrow> ww_term_value w \<Longrightarrow> ww_term_changed w \<Longrightarrow> ww_pc w' = P_End \<or> ww_term_changed w'"
  by (cases "ww_pc w"; cases ev) (auto simp: thread_step_def goto_def Let_def split: thread_splits)

lemma thread_step_end: "ww_pc w = P_End \<Longrightarrow> thread_step ev w = None"
  by (simp add: thread_step_def)

lemma worker_ok_thread: "worker_ok w \<Longrightarrow> thread_step ev w = Some w' \<Longrightarrow> worker_ok w'"
  using thread_step_queue [of ev w w' "ww_to_sent w"] thread_step_changed [of ev w w'] thread_step_end [of w ev]
  by (auto simp: worker_ok_defs thread_frame)

lemma worker_ok_poll: "worker_ok w \<Longrightarrow> poll_step ev w = Some w' \<Longrightarrow> worker_ok w'"
  by (cases "ww_poll w"; cases ev) (auto simp: worker_ok_defs poll_step_def Let_def split: if_splits list.splits from_worker.splits)

lemma worker_ok_post: "worker_ok w \<Longrightarrow> post_task_sends m w = Some w' \<Longrightarrow> worker_ok w'"
  by (auto simp: worker_ok_defs post_task_sends_def split: if_splits)

lemma worker_ok_worker_posts: "worker_ok w \<Longrightarrow> worker_post_sends m w = Some w' \<Longrightarrow> worker_ok w'"
  by (auto simp: worker_ok_defs worker_post_sends_def split: if_splits)

lemma worker_ok_dropped [simp]:
  "worker_ok (w\<lparr>ww_dropped := d\<rparr>) = worker_ok w" "worker_ok (w\<lparr>ww_running := d\<rparr>) = worker_ok w"
  by (simp_all add: worker_ok_defs)

lemma worker_ok_do: "worker_ok w \<Longrightarrow> worker_ok (worker_do ev w)"
proof (cases ev)
  case Dropped
  then show "worker_ok w \<Longrightarrow> ?thesis" by (simp add: worker_drop_def worker_ok_terminate)
next
  case Close
  then show "worker_ok w \<Longrightarrow> ?thesis" by (auto simp: worker_ok_defs worker_close_def)
next
  case Set_Handler
  then show "worker_ok w \<Longrightarrow> ?thesis" by (simp add: worker_ok_defs ensure_polling_def)
next
  case Thread_Gone
  then show "worker_ok w \<Longrightarrow> ?thesis" by (simp add: worker_ok_defs)
qed (auto intro: worker_ok_terminate or_stay_cases worker_ok_thread worker_ok_poll worker_ok_post worker_ok_worker_posts)

lemma worker_ok_run: "worker_ok w \<Longrightarrow> worker_ok (worker_run evs w)"
  by (induction evs arbitrary: w) (simp_all add: worker_ok_do)

text \<open>How many steps a thread that has been told to end can still take.\<close>

fun thread_rank :: "thread_pc \<Rightarrow> nat" where
  "thread_rank P_End = 0"
| "thread_rank P_Start = 1"
| "thread_rank P_Loop = 1"
| "thread_rank (P_Send _ _) = 2"
| "thread_rank P_Handle = 3"
| "thread_rank P_Eval = 3"
| "thread_rank P_Wait = 4"
| "thread_rank P_Load = 4"
| "thread_rank P_Init = 5"

lemma thread_rank_le: "thread_rank pc \<le> 5"
  by (cases pc) simp_all

definition told :: "'m web_worker \<Rightarrow> bool" where
  "told w \<longleftrightarrow> worker_ok w \<and> ww_termination_started w"

lemma told_facts:
  assumes "told w"
  shows "ww_terminated w" "ww_reapers w = 1" "ih_is_interrupted (ww_interrupt w)" "ww_poll w \<in> {M_None, M_Loop, M_End}"
    "ww_pc w \<noteq> P_End \<Longrightarrow> ww_term_value w" "ww_pc w \<noteq> P_End \<Longrightarrow> ww_term_changed w"
  using assms by (simp_all add: told_def worker_ok_defs)

lemma told_thread_descends:
  "thread_step ev w = Some w' \<Longrightarrow> told w \<Longrightarrow> thread_rank (ww_pc w') < thread_rank (ww_pc w)"
  by (cases "ww_pc w"; cases ev) (auto simp: thread_step_def goto_def Let_def told_facts split: thread_splits)

text \<open>Only a thread that was already waiting can take a message.\<close>

definition may_handle :: "thread_pc \<Rightarrow> nat" where
  "may_handle pc = (if pc = P_Wait then 1 else 0)"

lemma told_thread_handles:
  "thread_step ev w = Some w' \<Longrightarrow> told w \<Longrightarrow>
     length (ww_handled w') + may_handle (ww_pc w') \<le> length (ww_handled w) + may_handle (ww_pc w)"
  by (cases "ww_pc w"; cases ev) (auto simp: thread_step_def goto_def Let_def told_facts may_handle_def split: thread_splits)

lemma poll_step_frame:
  assumes "poll_step ev w = Some w'"
  shows "ww_pc w' = ww_pc w" "ww_handled w' = ww_handled w" "ww_termination_started w' = ww_termination_started w"
  using assms by (cases "ww_poll w"; cases ev; auto simp: poll_step_def Let_def split: if_splits list.splits from_worker.splits)+

lemma told_poll_delivers: "poll_step ev w = Some w' \<Longrightarrow> told w \<Longrightarrow> ww_delivered w' = ww_delivered w"
  using told_facts(4) [of w]
  by (cases "ww_poll w"; cases ev) (auto simp: poll_step_def Let_def split: if_splits)

lemma or_stay_same: "(\<And>w'. r = Some w' \<Longrightarrow> f w' = f w) \<Longrightarrow> f (or_stay r w) = f w"
  by (cases r) (simp_all add: or_stay_def)

text \<open>Everything but a step of the thread leaves it where it is.\<close>

lemma terminate_frame [simp]:
  "ww_pc (ww_terminate w) = ww_pc w" "ww_handled (ww_terminate w) = ww_handled w" "ww_delivered (ww_terminate w) = ww_delivered w"
  by (simp_all add: ww_terminate_def Let_def)

lemma main_frame:
  "ww_pc (ensure_polling w) = ww_pc w" "ww_handled (ensure_polling w) = ww_handled w"
  "ww_delivered (ensure_polling w) = ww_delivered w" "ww_termination_started (ensure_polling w) = ww_termination_started w"
  "ww_pc (worker_close w) = ww_pc w" "ww_handled (worker_close w) = ww_handled w"
  "ww_delivered (worker_close w) = ww_delivered w" "ww_termination_started (worker_close w) = ww_termination_started w"
  by (simp_all add: ensure_polling_def worker_close_def)

lemma post_frame:
  "ww_pc (or_stay (post_task_sends m w) w) = ww_pc w" "ww_handled (or_stay (post_task_sends m w) w) = ww_handled w"
  "ww_delivered (or_stay (post_task_sends m w) w) = ww_delivered w"
  "ww_termination_started (or_stay (post_task_sends m w) w) = ww_termination_started w"
  by (simp_all add: or_stay_def post_task_sends_def)

lemma worker_post_frame:
  "ww_pc (or_stay (worker_post_sends m w) w) = ww_pc w" "ww_handled (or_stay (worker_post_sends m w) w) = ww_handled w"
  "ww_delivered (or_stay (worker_post_sends m w) w) = ww_delivered w"
  "ww_termination_started (or_stay (worker_post_sends m w) w) = ww_termination_started w"
  by (simp_all add: or_stay_def worker_post_sends_def)

lemma poll_frame:
  "ww_pc (or_stay (poll_step ev w) w) = ww_pc w" "ww_handled (or_stay (poll_step ev w) w) = ww_handled w"
  "ww_termination_started (or_stay (poll_step ev w) w) = ww_termination_started w"
  by (rule or_stay_same, erule poll_step_frame)+

lemmas do_frames = main_frame post_frame worker_post_frame poll_frame

lemma do_frame:
  assumes "\<And>t. ev \<noteq> Thread t"
  shows "ww_pc (worker_do ev w) = ww_pc w \<and> ww_handled (worker_do ev w) = ww_handled w"
  using assms by (cases ev) (auto simp: worker_drop_def do_frames)

lemma do_keeps_started: "ww_termination_started w \<Longrightarrow> ww_termination_started (worker_do ev w)"
  using or_stay_same [of _ ww_termination_started w, OF thread_frame(2)]
  by (cases ev) (simp_all add: worker_drop_def terminate_starts do_frames)

lemma told_do: "told w \<Longrightarrow> told (worker_do ev w)"
  by (simp add: told_def worker_ok_do do_keeps_started)

lemma told_do_delivers: "told w \<Longrightarrow> ww_delivered (worker_do ev w) = ww_delivered w"
  using or_stay_same [of _ ww_delivered w, OF thread_frame(10)] or_stay_same [of _ ww_delivered w, OF told_poll_delivers]
  by (cases ev) (simp_all add: worker_drop_def do_frames)

text \<open>The steps of the thread in a run.\<close>

fun thread_steps :: "'m worker_event list \<Rightarrow> 'm web_worker \<Rightarrow> nat" where
  "thread_steps [] w = 0"
| "thread_steps (ev # evs) w =
     (case ev of Thread t \<Rightarrow> if thread_step t w = None then 0 else 1 | _ \<Rightarrow> 0) + thread_steps evs (worker_do ev w)"

lemma told_do_rank:
  assumes "told w"
  shows "(case ev of Thread t \<Rightarrow> if thread_step t w = None then 0 else 1 | _ \<Rightarrow> 0) + thread_rank (ww_pc (worker_do ev w)) \<le> thread_rank (ww_pc w)"
proof (cases "\<exists>t. ev = Thread t")
  case True
  then obtain t where "ev = Thread t" ..
  then show ?thesis
    using told_thread_descends [of t w, OF _ assms] by (cases "thread_step t w") (auto simp: or_stay_def Suc_le_eq)
next
  case False
  then show ?thesis using do_frame [of ev w] by (auto split: worker_event.split)
qed

lemma told_do_handles:
  assumes "told w"
  shows "length (ww_handled (worker_do ev w)) + may_handle (ww_pc (worker_do ev w)) \<le> length (ww_handled w) + may_handle (ww_pc w)"
proof (cases "\<exists>t. ev = Thread t")
  case True
  then obtain t where "ev = Thread t" ..
  then show ?thesis
    using told_thread_handles [of t w, OF _ assms] by (cases "thread_step t w") (auto simp: or_stay_def)
next
  case False
  then show ?thesis using do_frame [of ev w] by auto
qed

lemma told_run: "told w \<Longrightarrow> told (worker_run evs w)"
  by (induction evs arbitrary: w) (simp_all add: told_do)

lemma told_run_steps: "told w \<Longrightarrow> thread_steps evs w + thread_rank (ww_pc (worker_run evs w)) \<le> thread_rank (ww_pc w)"
proof (induction evs arbitrary: w)
  case (Cons ev evs)
  then show ?case using Cons.IH [OF told_do [OF Cons.prems], of ev] told_do_rank [of w ev] by simp
qed simp

lemma told_run_handles:
  "told w \<Longrightarrow> length (ww_handled (worker_run evs w)) + may_handle (ww_pc (worker_run evs w)) \<le> length (ww_handled w) + may_handle (ww_pc w)"
proof (induction evs arbitrary: w)
  case (Cons ev evs)
  then show ?case using Cons.IH [OF told_do [OF Cons.prems], of ev] told_do_handles [of w ev] by simp
qed simp

lemma told_run_delivers: "told w \<Longrightarrow> ww_delivered (worker_run evs w) = ww_delivered w"
  by (induction evs arbitrary: w) (simp_all add: told_do told_do_delivers)

lemma told_terminated: "told (worker_do Terminate (worker_run evs (worker_start s)))"
  using worker_ok_do [OF worker_ok_run [OF worker_ok_start], of Terminate]
  by (simp add: told_def terminate_starts)

text \<open>What can keep a thread from going on: a full channel to a main side that is still there.\<close>

definition send_blocked :: "'m web_worker \<Rightarrow> bool" where
  "send_blocked w =
     (case ww_pc w of P_Send _ _ \<Rightarrow> \<not> ww_dropped w \<and> CHANNEL_SIZE \<le> length (ww_from w) | _ \<Rightarrow> False)"

definition thread_ready :: "'m web_worker \<Rightarrow> bool" where
  "thread_ready w = (\<exists>ev \<in> {Th_Go, Th_Changed, Th_Init (Inr ())}. thread_step ev w \<noteq> None)"

lemma told_thread_ready:
  "told w \<Longrightarrow> \<not> ww_running w \<Longrightarrow> ww_pc w = P_End \<or> send_blocked w \<or> thread_ready w"
  by (cases "ww_pc w") (simp_all add: thread_ready_def send_blocked_def thread_step_def goto_def told_facts not_less)

text \<open>
  C20. After terminate() a worker's thread ends as soon as its scripts let it. Whatever the scripts, the messages and the
  main side do from then on, the thread takes at most five more steps of its own; and at any moment when no script
  occupies it, in particular as soon as a running one yields or is stopped by the engine, it has ended or has a step
  ready that depends on no script, unless it is reporting an error into a full channel that nobody reads. While a
  script runs without yielding the thread takes no step, however long that is; the request to interrupt it stands all
  the while, and it is for the engine to act on it.\<close>

theorem terminated_thread_ends:
  "let w = worker_do Terminate (worker_run before (worker_start script)); w' = worker_run later w;
       yielded = worker_do Script_Yields w' in
     thread_steps later w \<le> 5 \<and>
     (ww_running w' \<or> ww_pc w' = P_End \<or> send_blocked w' \<or> thread_ready w') \<and>
     (ww_running w' \<longrightarrow> ih_is_interrupted (ww_interrupt w') \<and>
        (ww_pc yielded = P_End \<or> send_blocked yielded \<or> thread_ready yielded))"
proof -
  let ?w = "worker_do Terminate (worker_run before (worker_start script))"
  let ?w' = "worker_run later ?w"
  have t: "told ?w" "told ?w'" using told_terminated told_run [OF told_terminated] by blast+
  have "thread_steps later ?w \<le> 5"
    using told_run_steps [OF t(1), of later] thread_rank_le [of "ww_pc ?w"] by linarith
  then show ?thesis
    using told_thread_ready [OF t(2)] told_thread_ready [OF told_do [OF t(2), of Script_Yields]] told_facts(3) [OF t(2)]
    unfolding Let_def by auto
qed

text \<open>The script runs a loop when terminate() is called: nothing moves until it yields, and then the thread ends.\<close>

theorem terminated_thread_ends_witness:
  "let before = [Thread Th_Go, Thread (Th_Init (Inr ())), Thread (Th_Loaded (Inr ())), Script_Runs];
       w = worker_do Terminate (worker_run before (worker_start ''loop.js'' :: nat web_worker));
       w' = worker_run [Thread Th_Changed, Thread Th_Changed] w in
     ww_running w' \<and> ih_is_interrupted (ww_interrupt w') \<and> thread_ready (worker_do Script_Yields w')"
proof -
  let ?before = "[Thread Th_Go, Thread (Th_Init (Inr ())), Thread (Th_Loaded (Inr ())), Script_Runs] :: nat worker_event list"
  let ?later = "[Thread Th_Changed, Thread Th_Changed] :: nat worker_event list"
  have w: "worker_run ?later (worker_do Terminate (worker_run ?before (worker_start ''loop.js''))) =
      ww_terminate ((worker_start ''loop.js'')\<lparr>ww_pc := P_Eval, ww_running := True\<rparr>)"
    by (simp add: worker_start_def thread_step_def goto_def or_stay_def ww_terminate_def Let_def)
  have "\<not> (ww_pc (worker_do Script_Yields (worker_run ?later (worker_do Terminate (worker_run ?before (worker_start ''loop.js'')))))
      = P_End)"
    "\<not> send_blocked (worker_do Script_Yields (worker_run ?later (worker_do Terminate (worker_run ?before (worker_start ''loop.js'')))))"
    "ww_running (worker_run ?later (worker_do Terminate (worker_run ?before (worker_start ''loop.js''))))"
    unfolding w by (simp_all add: worker_start_def ww_terminate_def send_blocked_def Let_def)
  then show ?thesis
    using terminated_thread_ends [of ?before "''loop.js''" ?later] unfolding Let_def by blast
qed

text \<open>
  C21. A terminated worker is silent: no further message reaches the handlers of the main side, at most one more is handed to
  the worker's handler, the interrupt of its engine stays requested, and exactly one task waits for its thread.\<close>

theorem terminated_worker_silent:
  "let w = worker_do Terminate (worker_run before (worker_start script)); w' = worker_run later w in
     ww_delivered w' = ww_delivered w \<and> length (ww_handled w') \<le> length (ww_handled w) + 1 \<and>
     ih_is_interrupted (ww_interrupt w') \<and> ww_reapers w' = 1"
  using told_run_delivers [OF told_terminated, of later before script] told_run_handles [OF told_terminated, of later before script]
    told_facts(2,3) [OF told_run [OF told_terminated], of later before script]
  by (simp add: Let_def may_handle_def split: if_splits)

text \<open>
  The worker's script sees the messages posted to it in the order in which they were sent, each at most once.\<close>

theorem worker_messages_in_order:
  fixes evs :: "'m worker_event list"
  shows "let w = worker_run evs (worker_start script) in
     ww_to_taken w @ ww_to w = ww_to_sent w \<and> subseq (ww_handled w) (ww_to_sent w)"
proof -
  define w where "w = worker_run evs (worker_start script :: 'm web_worker)"
  have "worker_ok w" unfolding w_def by (rule worker_ok_run [OF worker_ok_start])
  then have taken: "ww_to_taken w @ ww_to w = ww_to_sent w" and "subseq (ww_handled w) (ww_to_taken w)"
    by (simp_all add: worker_ok_def)
  then have "subseq (ww_handled w) (ww_to_taken w @ ww_to w)" by blast
  with taken show ?thesis by (simp add: Let_def w_def)
qed

text \<open>A message the worker posts and follows with close() is lost when the main side is at the head of its loop, and when it
  has been taken but not handed on.\<close>

lemma close_loses_posted_message:
  "ww_delivered (worker_run [Set_Handler, Thread Th_Go, Thread (Th_Init (Inr ())), Thread (Th_Loaded (Inr ())),
     Worker_Posts (worker_post_message (Inr m)), Close, Poll Poll_Go, Poll (Poll_Receive True True True)] (worker_start s)) = []"
  by (simp add: worker_start_def ensure_polling_def thread_step_def goto_def worker_post_sends_def worker_post_message_def
      worker_close_def poll_step_def or_stay_def CHANNEL_SIZE_def)

text \<open>A thread that reports an error into a full channel while nothing reads it is not told to end by terminate(): the send has
  no branch for it, and the state is reached by a script that posts 256 messages before its handler throws.\<close>

lemma blocked_thread_stays: "send_blocked w \<Longrightarrow> thread_step ev w = None \<and> send_blocked (worker_do Terminate w)"
  by (cases "ww_pc w") (auto simp: send_blocked_def thread_step_def goto_def ww_terminate_def Let_def split: thread_event.splits)

lemma worker_posts_many:
  "ww_pc w \<noteq> P_End \<Longrightarrow> \<not> ww_dropped w \<Longrightarrow> length (ww_from w) + n \<le> CHANNEL_SIZE \<Longrightarrow>
     worker_run (replicate n (Worker_Posts m)) w = w\<lparr>ww_from := ww_from w @ replicate n m\<rparr>"
  by (induction n arbitrary: w) (simp_all add: worker_post_sends_def or_stay_def)

lemma blocked_thread_reached:
  fixes m :: "'m from_worker"
  shows "send_blocked (worker_run ([Thread Th_Go, Thread (Th_Init (Inr ())), Thread (Th_Loaded (Inr ()))] @
     replicate CHANNEL_SIZE (Worker_Posts m) @ [Thread (Th_Evaluated (Inl ''thrown'')), Terminate]) (worker_start s))"
proof -
  define w where "w = (worker_start s :: 'm web_worker)\<lparr>ww_pc := P_Eval\<rparr>"
  have eval: "worker_run [Thread Th_Go, Thread (Th_Init (Inr ())), Thread (Th_Loaded (Inr ()))] (worker_start s) = w"
    by (simp add: worker_start_def thread_step_def goto_def or_stay_def w_def)
  have posts: "worker_run (replicate CHANNEL_SIZE (Worker_Posts m)) w = w\<lparr>ww_from := replicate CHANNEL_SIZE m\<rparr>"
    using worker_posts_many [of w CHANNEL_SIZE m] by (simp add: w_def worker_start_def)
  have "send_blocked (worker_do (Thread (Th_Evaluated (Inl ''thrown''))) (w\<lparr>ww_from := replicate CHANNEL_SIZE m\<rparr>))"
    by (simp add: w_def send_blocked_def worker_start_def thread_step_def goto_def or_stay_def)
  from conjunct2 [OF blocked_thread_stays [OF this]] show ?thesis
    unfolding worker_run_append eval posts by simp
qed

section \<open>The registry of a context\<close>

text \<open>The registry keeps weak references: a list of workers with whether each is still held. Shutdown terminates those that
  are.\<close>

definition registry_register :: "nat \<Rightarrow> (nat \<times> bool) list \<Rightarrow> (nat \<times> bool) list" where
  "registry_register i ws = filter snd ws @ [(i, True)]"

definition registry_on_shutdown ::
  "(nat \<times> bool) list \<Rightarrow> (nat \<Rightarrow> 'm web_worker) \<Rightarrow> (nat \<Rightarrow> 'm web_worker) \<times> (nat \<times> bool) list" where
  "registry_on_shutdown ws world =
     (foldl (\<lambda>f (i, held). if held then f(i := ww_terminate (f i)) else f) world ws, [])"

lemma terminate_again: "ww_termination_started w \<Longrightarrow> ww_terminated w \<Longrightarrow> ww_terminate w = w"
  by (simp add: ww_terminate_def Let_def)

lemma terminate_twice: "ww_terminate (ww_terminate w) = ww_terminate w"
  by (rule terminate_again) (simp_all add: ww_terminate_def Let_def)

text \<open>Every worker still held ends up terminated, once, and the others as they were.\<close>

lemma registry_shutdown_exact:
  "fst (registry_on_shutdown ws world) i = (if (i, True) \<in> set ws then ww_terminate (world i) else world i) \<and>
   snd (registry_on_shutdown ws world) = []"
proof -
  have "foldl (\<lambda>f (i, held). if held then f(i := ww_terminate (f i)) else f) world ws i =
      (if (i, True) \<in> set ws then ww_terminate (world i) else world i)"
  proof (induction ws arbitrary: world)
    case (Cons p ws)
    then show ?case by (cases p; cases "snd p") (auto simp: terminate_twice)
  qed simp
  then show ?thesis by (simp add: registry_on_shutdown_def)
qed

lemma registered_is_terminated:
  "ww_termination_started (fst (registry_on_shutdown (registry_register i ws) world) i)"
  by (simp add: registry_shutdown_exact registry_register_def terminate_starts)

end
