(* ===== verification/Network_Access.thy ===== *)
theory Network_Access
  imports Http_Client Host_Error
begin

text \<open>
  Who may talk to which host: the guard a thread installs (\<^verbatim>\<open>modules/rong_http/src/security.rs\<close>), the guard of a request and
  the sending functions of \<^verbatim>\<open>rong_rt/src/http.rs\<close>, and the guard \<^verbatim>\<open>fetch\<close> attaches (\<^verbatim>\<open>modules/rong_http/src/client.rs\<close>).
  A policy of the embedder is a function from hosts to an error or nothing.
\<close>

section \<open>The guard of a thread\<close>

type_synonym access_guard = "string \<Rightarrow> unit js_result"

definition default_network_access_guard :: access_guard where
  "default_network_access_guard domain = Inr ()"

text \<open>The thread-local cell holds one guard; a scope remembers the one it replaced, until it is dropped.\<close>

definition set_network_access_guard :: "access_guard \<Rightarrow> access_guard \<Rightarrow> access_guard" where
  "set_network_access_guard guard current = guard"

definition set_network_access_guard_scoped :: "access_guard \<Rightarrow> access_guard \<Rightarrow> access_guard option \<times> access_guard" where
  "set_network_access_guard_scoped guard current = (Some current, guard)"

definition guard_scope_drop :: "access_guard option \<Rightarrow> access_guard \<Rightarrow> access_guard" where
  "guard_scope_drop prev current = (case prev of Some g \<Rightarrow> g | None \<Rightarrow> current)"

definition grant_network_access :: "string \<Rightarrow> access_guard \<Rightarrow> unit js_result" where
  "grant_network_access domain current = current domain"

text \<open>A block of host code: it installs guards and opens scopes, each closed at the end of its own block.\<close>

datatype guard_block = Install access_guard | Scoped access_guard "guard_block list"

fun run_block :: "guard_block \<Rightarrow> access_guard \<Rightarrow> access_guard" and run_blocks :: "guard_block list \<Rightarrow> access_guard \<Rightarrow> access_guard" where
  "run_block (Install g) current = set_network_access_guard g current"
| "run_block (Scoped g body) current =
     (case set_network_access_guard_scoped g current of (prev, inner) \<Rightarrow> guard_scope_drop prev (run_blocks body inner))"
| "run_blocks [] current = current"
| "run_blocks (b # bs) current = run_blocks bs (run_block b current)"

text \<open>Whatever happens inside a scope, also a guard installed without one, the guard before it is back at its end.\<close>

lemma scope_restores: "run_block (Scoped g body) current = current"
  by (simp add: set_network_access_guard_scoped_def guard_scope_drop_def)

section \<open>Errors of requests\<close>

datatype http_error_kind = Transport | Json | AccessDenied

record http_error =
  hx_kind :: http_error_kind
  hx_message :: string

definition http_error_json :: "string \<Rightarrow> http_error" where
  "http_error_json m = \<lparr>hx_kind = Json, hx_message = m\<rparr>"

definition access_denied :: "string \<Rightarrow> http_error" where
  "access_denied m = \<lparr>hx_kind = AccessDenied, hx_message = m\<rparr>"

definition http_error_from :: "string \<Rightarrow> http_error" where
  "http_error_from m = \<lparr>hx_kind = Transport, hx_message = m\<rparr>"

section \<open>Options and the check\<close>

text \<open>A \<^verbatim>\<open>Uri\<close> of the \<^verbatim>\<open>http\<close> crate: its text and its host. A guard of a request sees the whole of it.\<close>

record uri =
  ur_text :: string
  ur_host :: "string option"

type_synonym uri_guard = "uri \<Rightarrow> http_error + unit"

record request_options =
  ro_request_timeout :: "duration option"
  ro_connect_timeout :: "duration option"
  ro_abort :: bool
  ro_guard :: "uri_guard option"

definition request_options_new :: request_options where
  "request_options_new = \<lparr>ro_request_timeout = None, ro_connect_timeout = None, ro_abort = False, ro_guard = None\<rparr>"

definition options_with_request_timeout :: "duration \<Rightarrow> request_options \<Rightarrow> request_options" where
  "options_with_request_timeout t opts = opts\<lparr>ro_request_timeout := Some t\<rparr>"

definition options_with_connect_timeout :: "duration \<Rightarrow> request_options \<Rightarrow> request_options" where
  "options_with_connect_timeout t opts = opts\<lparr>ro_connect_timeout := Some t\<rparr>"

definition with_abort_opt :: "bool \<Rightarrow> request_options \<Rightarrow> request_options" where
  "with_abort_opt a opts = opts\<lparr>ro_abort := a\<rparr>"

definition with_network_access_guard :: "uri_guard \<Rightarrow> request_options \<Rightarrow> request_options" where
  "with_network_access_guard g opts = opts\<lparr>ro_guard := Some g\<rparr>"

definition into_parts :: "request_options \<Rightarrow> request_timeouts \<times> bool \<times> uri_guard option" where
  "into_parts opts =
     (\<lparr>rt_request = ro_request_timeout opts, rt_connect = ro_connect_timeout opts\<rparr>, ro_abort opts, ro_guard opts)"

text \<open>\<open>scope\<close> is the guard of the enclosing \<^verbatim>\<open>scope_network_access_guard\<close>, if any.\<close>

definition effective_guard :: "uri_guard option \<Rightarrow> request_options \<Rightarrow> uri_guard option" where
  "effective_guard scope opts = (case ro_guard opts of Some g \<Rightarrow> Some g | None \<Rightarrow> scope)"

definition check_network_access :: "uri_guard option \<Rightarrow> uri \<Rightarrow> http_error + unit" where
  "check_network_access guard u = (case guard of None \<Rightarrow> Inr () | Some g \<Rightarrow> g u)"

section \<open>Sending\<close>

text \<open>The transport is told whether a guard is in scope, the limit of small bodies, the coalescing target, the timeouts and
  whether the request can be aborted. The second component of the answers says what reached it.\<close>

type_synonym 'q transport = "bool \<Rightarrow> nat \<Rightarrow> nat \<Rightarrow> request_timeouts \<Rightarrow> bool \<Rightarrow> 'q \<Rightarrow> string + http_response"

definition send_with ::
  "nat \<Rightarrow> nat \<Rightarrow> 'q transport \<Rightarrow> uri_guard option \<Rightarrow> ('q \<Rightarrow> uri) \<Rightarrow> 'q \<Rightarrow> request_options \<Rightarrow> (http_error + http_response) \<times> 'q list" where
  "send_with small coalesce net scope uri_of rq opts =
     (case into_parts opts of
        (timeouts, abort, _) \<Rightarrow>
          let guard = effective_guard scope opts in
          (case check_network_access guard (uri_of rq) of
             Inl e \<Rightarrow> (Inl e, [])
           | Inr _ \<Rightarrow> (map_sum http_error_from id (net (guard \<noteq> None) small coalesce timeouts abort rq), [rq])))"

definition DEFAULT_BLOCKING_BODY_LIMIT :: nat where "DEFAULT_BLOCKING_BODY_LIMIT = 512 * 1024"

definition send :: "'q transport \<Rightarrow> uri_guard option \<Rightarrow> ('q \<Rightarrow> uri) \<Rightarrow> 'q \<Rightarrow> request_options \<Rightarrow> (http_error + http_response) \<times> 'q list" where
  "send net = send_with DEFAULT_BLOCKING_BODY_LIMIT DEFAULT_STREAM_COALESCE_TARGET net"

definition send_with_small_body_limit ::
  "nat \<Rightarrow> 'q transport \<Rightarrow> uri_guard option \<Rightarrow> ('q \<Rightarrow> uri) \<Rightarrow> 'q \<Rightarrow> request_options \<Rightarrow> (http_error + http_response) \<times> 'q list" where
  "send_with_small_body_limit small net = send_with small DEFAULT_STREAM_COALESCE_TARGET net"

definition send_stream :: "'q transport \<Rightarrow> uri_guard option \<Rightarrow> ('q \<Rightarrow> uri) \<Rightarrow> 'q \<Rightarrow> request_options \<Rightarrow> (http_error + http_response) \<times> 'q list" where
  "send_stream net = send_with 0 0 net"

section \<open>Whole bodies\<close>

fun collect_chunks :: "(string + string) list \<Rightarrow> string \<Rightarrow> http_error + string" where
  "collect_chunks [] out = Inr out"
| "collect_chunks (Inl e # cs) out = Inl (http_error_from e)"
| "collect_chunks (Inr c # cs) out = collect_chunks cs (out @ c)"

definition collect_body :: "http_body \<Rightarrow> http_error + string" where
  "collect_body b =
     (case b of HB_Empty \<Rightarrow> Inr [] | HB_Small bytes \<Rightarrow> Inr bytes | HB_Stream chunks \<Rightarrow> collect_chunks chunks [])"

record 'b body_response =
  br_status :: nat
  br_headers :: "(string \<times> string) list"
  br_body :: 'b

definition send_bytes ::
  "'q transport \<Rightarrow> uri_guard option \<Rightarrow> ('q \<Rightarrow> uri) \<Rightarrow> 'q \<Rightarrow> request_options \<Rightarrow> (http_error + string body_response) \<times> 'q list" where
  "send_bytes net scope uri_of rq opts =
     (case send net scope uri_of rq opts of
        (Inl e, sent) \<Rightarrow> (Inl e, sent)
      | (Inr r, sent) \<Rightarrow>
          (map_sum id (\<lambda>b. \<lparr>br_status = rs_status r, br_headers = rs_headers r, br_body = b\<rparr>) (collect_body (rs_body r)), sent))"

definition send_json ::
  "(string \<Rightarrow> string + 'j) \<Rightarrow> 'q transport \<Rightarrow> uri_guard option \<Rightarrow> ('q \<Rightarrow> uri) \<Rightarrow> 'q \<Rightarrow> request_options \<Rightarrow>
     (http_error + 'j body_response) \<times> 'q list" where
  "send_json from_slice net scope uri_of rq opts =
     (case send_bytes net scope uri_of rq opts of
        (Inl e, sent) \<Rightarrow> (Inl e, sent)
      | (Inr r, sent) \<Rightarrow>
          (map_sum http_error_json (\<lambda>j. \<lparr>br_status = br_status r, br_headers = br_headers r, br_body = j\<rparr>) (from_slice (br_body r)), sent))"

section \<open>The guard of fetch\<close>

definition fetch_network_access_guard :: "access_guard \<Rightarrow> uri_guard" where
  "fetch_network_access_guard current u =
     (case ur_host u of
        None \<Rightarrow> Inl (access_denied ''Network access denied: URL has no host'')
      | Some h \<Rightarrow> map_sum (\<lambda>e. access_denied (js_error_text e)) id (grant_network_access h current))"

definition send_fetch_request ::
  "access_guard \<Rightarrow> 'q transport \<Rightarrow> uri_guard option \<Rightarrow> ('q \<Rightarrow> uri) \<Rightarrow> 'q \<Rightarrow> nat \<Rightarrow> bool \<Rightarrow> (http_error + http_response) \<times> 'q list" where
  "send_fetch_request current net scope uri_of rq small abort =
     send_with_small_body_limit small net scope uri_of rq
       (with_network_access_guard (fetch_network_access_guard current) (with_abort_opt abort request_options_new))"

lemmas send_defs = send_def send_with_small_body_limit_def send_stream_def send_with_def

lemma send_with_reaches:
  "snd (send_with small coalesce net scope uri_of rq opts) =
     (if check_network_access (effective_guard scope opts) (uri_of rq) = Inr () then [rq] else [])"
  by (simp add: send_with_def into_parts_def Let_def split: sum.split)

lemma fetch_guard_allows:
  "fetch_network_access_guard current u = Inr () \<longleftrightarrow> (\<exists>h. ur_host u = Some h \<and> current h = Inr ())"
  by (cases "ur_host u"; cases "current (the (ur_host u))") (simp_all add: fetch_network_access_guard_def grant_network_access_def)

lemma send_fetch_reaches:
  "snd (send_fetch_request current net scope uri_of rq small abort) =
     (if \<exists>h. ur_host (uri_of rq) = Some h \<and> current h = Inr () then [rq] else [])"
  unfolding send_fetch_request_def send_with_small_body_limit_def send_with_reaches
  by (simp add: effective_guard_def with_network_access_guard_def check_network_access_def fetch_guard_allows)

text \<open>
  A request whose guard denies its address never reaches the transport, by whichever function it is sent: the caller gets
  the guard's error and nothing is sent. The guard of the request itself takes precedence over that of the enclosing
  scope, and without either every address is allowed.\<close>

theorem denied_request_not_sent:
  "case (case ro_guard opts of Some g \<Rightarrow> Some g | None \<Rightarrow> scope) of
      Some g \<Rightarrow>
        (case g (uri_of rq) of
           Inl e \<Rightarrow>
             send net scope uri_of rq opts = (Inl e, []) \<and> send_stream net scope uri_of rq opts = (Inl e, []) \<and>
             send_with_small_body_limit small net scope uri_of rq opts = (Inl e, []) \<and>
             send_bytes net scope uri_of rq opts = (Inl e, []) \<and> send_json from_slice net scope uri_of rq opts = (Inl e, [])
         | Inr _ \<Rightarrow> snd (send_json from_slice net scope uri_of rq opts) = [rq])
    | None \<Rightarrow> snd (send_json from_slice net scope uri_of rq opts) = [rq]"
  by (auto simp: send_json_def send_bytes_def send_defs check_network_access_def into_parts_def Let_def effective_guard_def
      split: option.split sum.split prod.split)

end
