(* ===== verification/Http_Request.thy ===== *)
theory Http_Request
  imports Network_Access Headers Readable_Stream Js_Value
begin

text \<open>
  \<^verbatim>\<open>modules/rong_http/src/request.rs\<close>: the \<^verbatim>\<open>Request\<close> object of scripts, the options it is built from, its clones and the
  single use of its body. Streams are numbered objects in a store, as every clone of a request shares them. The URL crates,
  the syntax of methods and what scripts pass in are parameters.
\<close>

section \<open>The crates\<close>

record url_value =
  pu_text :: string
  pu_scheme :: string
  pu_host :: "string option"
  pu_port :: "nat option"

text \<open>\<open>uc_parse\<close> is \<^verbatim>\<open>url::Url::parse\<close>, \<open>uc_join\<close> resolves a reference, \<open>uc_uri\<close> is \<^verbatim>\<open>http::Uri::try_from\<close>, \<open>uc_method\<close> says which
  strings are methods. Ports have the default of their scheme filled in.\<close>

record url_crates =
  uc_parse :: "string \<Rightarrow> string + url_value"
  uc_join :: "url_value \<Rightarrow> string \<Rightarrow> string + url_value"
  uc_uri :: "string \<Rightarrow> string + uri"
  uc_method :: "string \<Rightarrow> bool"

section \<open>The object\<close>

datatype request_redirect = Redirect_Follow | Redirect_Error | Redirect_Manual

text \<open>A body as a script gives it: a stream of the store, null or undefined, or a value of another kind.\<close>

datatype 'v body_value = BV_Stream nat | BV_Nothing | BV_Value 'v

record 'v request =
  rq_url :: uri
  rq_method :: string
  rq_headers :: header_map
  rq_body :: "'v body_value option"
  rq_redirect :: request_redirect
  rq_signal :: "nat option"
  rq_consumed :: bool

type_synonym streams = "nat \<Rightarrow> readable_stream"

definition type_error_host :: "string \<Rightarrow> string \<Rightarrow> rong_js_error" where
  "type_error_host code m = Host (with_name ''TypeError'' (he_new code m))"

definition invalid_url :: "string \<Rightarrow> rong_js_error" where
  "invalid_url url = type_error_host E_INVALID_ARG (''Invalid URL: '' @ url)"

definition parse_url :: "url_crates \<Rightarrow> string \<Rightarrow> uri js_result" where
  "parse_url U url =
     (case uc_parse U url of
        Inl _ \<Rightarrow> Inl (invalid_url url)
      | Inr _ \<Rightarrow> (case uc_uri U url of Inl _ \<Rightarrow> Inl (invalid_url url) | Inr u \<Rightarrow> Inr u))"

definition request_default :: "'v request" where
  "request_default =
     \<lparr>rq_url = \<lparr>ur_text = ''about:blank'', ur_host = None\<rparr>, rq_method = ''GET'', rq_headers = Map.empty, rq_body = None,
      rq_redirect = Redirect_Follow, rq_signal = None, rq_consumed = False\<rparr>"

definition request_domain :: "'v request \<Rightarrow> string js_result" where
  "request_domain rq =
     (case ur_host (rq_url rq) of None \<Rightarrow> Inl (type_error_host E_INVALID_ARG ''URL has no host'') | Some h \<Rightarrow> Inr h)"

definition body_used :: "streams \<Rightarrow> 'v request \<Rightarrow> bool" where
  "body_used S rq =
     (rq_consumed rq \<or> (case rq_body rq of Some (BV_Stream i) \<Rightarrow> readable_stream_is_locked (S i) | _ \<Rightarrow> False))"

definition has_streaming_body :: "'v request \<Rightarrow> bool" where
  "has_streaming_body rq = (case rq_body rq of Some (BV_Stream _) \<Rightarrow> True | _ \<Rightarrow> False)"

definition try_clone :: "streams \<Rightarrow> 'v request \<Rightarrow> 'v request js_result" where
  "try_clone S rq =
     (if body_used S rq then Inl (type_error_host E_INVALID_STATE ''Cannot clone a Request whose body is already used'')
      else if has_streaming_body rq
      then Inl (type_error_host E_INVALID_STATE ''Request.clone() does not support streaming bodies; tee the stream before cloning'')
      else Inr (rq\<lparr>rq_consumed := False\<rparr>))"

section \<open>Options\<close>

record 'v request_init =
  in_method :: "string option"
  in_headers :: "header_map option"
  in_body :: "'v body_value option"
  in_redirect :: "request_redirect option"
  in_signal :: "nat option"

definition assign_request :: "'v request_init \<Rightarrow> 'v request \<Rightarrow> 'v request" where
  "assign_request init rq =
     (let rq = (case in_method init of Some m \<Rightarrow> rq\<lparr>rq_method := m\<rparr> | None \<Rightarrow> rq);
          rq = (case in_headers init of Some h \<Rightarrow> rq\<lparr>rq_headers := h\<rparr> | None \<Rightarrow> rq);
          rq = (case in_body init of Some b \<Rightarrow> rq\<lparr>rq_body := Some b\<rparr> | None \<Rightarrow> rq);
          rq = (case in_redirect init of Some r \<Rightarrow> rq\<lparr>rq_redirect := r\<rparr> | None \<Rightarrow> rq) in
      case in_signal init of Some s \<Rightarrow> rq\<lparr>rq_signal := Some s\<rparr> | None \<Rightarrow> rq)"

text \<open>What a script passes as options, as the engine shows it: each property that can be read, or the failure to.\<close>

datatype signal_value = Sig_Nullish | Sig_Signal nat | Sig_Other

record 'v init_view =
  iv_method :: "string js_result"
  iv_headers :: "headers_init js_result"
  iv_body :: "'v body_value js_result"
  iv_redirect :: "string js_result"
  iv_has_signal :: "bool js_result"
  iv_signal :: "signal_value js_result"

definition init_method :: "url_crates \<Rightarrow> string \<Rightarrow> string js_result" where
  "init_method U m =
     (let upper = to_ascii_uppercase m in
      if upper \<in> {''CONNECT'', ''TRACE'', ''TRACK''} then Inl (type_error_host E_INVALID_ARG (''Forbidden method: '' @ m))
      else
        let normalized = (if upper \<in> {''DELETE'', ''GET'', ''HEAD'', ''OPTIONS'', ''POST'', ''PUT''} then upper else m) in
        if uc_method U normalized then Inr normalized
        else Inl (type_error_host E_INVALID_ARG (''Invalid method: '' @ m)))"

definition init_redirect :: "string \<Rightarrow> request_redirect js_result" where
  "init_redirect r =
     (if r = ''follow'' then Inr Redirect_Follow
      else if r = ''error'' then Inr Redirect_Error
      else if r = ''manual'' then Inr Redirect_Manual
      else Inl (type_error_host E_INVALID_ARG (''Invalid redirect: '' @ r)))"

text \<open>A property that can be read is converted, and its error reported; one that cannot is left out.\<close>

definition when_readable :: "'a js_result \<Rightarrow> ('a \<Rightarrow> 'b js_result) \<Rightarrow> 'b option js_result" where
  "when_readable r f = (case r of Inl _ \<Rightarrow> Inr None | Inr x \<Rightarrow> map_sum id Some (f x))"

definition init_signal :: "bool js_result \<Rightarrow> signal_value js_result \<Rightarrow> nat option js_result" where
  "init_signal has v =
     js_bind has (\<lambda>b. if \<not> b then Inr None
       else js_bind v (\<lambda>x.
         case x of
           Sig_Nullish \<Rightarrow> Inr None
         | Sig_Signal i \<Rightarrow> Inr (Some i)
         | Sig_Other \<Rightarrow> Inl (type_error_host E_INVALID_ARG ''RequestInit.signal must be an AbortSignal'')))"

definition request_init_from :: "http_types \<Rightarrow> url_crates \<Rightarrow> 'v init_view option \<Rightarrow> 'v request_init js_result" where
  "request_init_from T U view =
     (case view of
        None \<Rightarrow> Inl (type_error_host E_INVALID_ARG ''Invalid RequestInit'')
      | Some v \<Rightarrow>
          js_bind (when_readable (iv_method v) (init_method U)) (\<lambda>m.
          js_bind (when_readable (iv_headers v) (\<lambda>h. hd_new T (Some h))) (\<lambda>h.
          js_bind (when_readable (iv_body v) Inr) (\<lambda>b.
          js_bind (when_readable (iv_redirect v) init_redirect) (\<lambda>r.
          js_bind (init_signal (iv_has_signal v) (iv_signal v)) (\<lambda>s.
          Inr \<lparr>in_method = m, in_headers = h, in_body = b, in_redirect = r, in_signal = s\<rparr>))))))"

section \<open>Construction\<close>

text \<open>The first argument: a request, a URL object or anything else with its conversion to a string.\<close>

datatype 'v request_input = Input_Request "'v request" | Input_Url string | Input_Value "string js_result"

definition input_request :: "url_crates \<Rightarrow> streams \<Rightarrow> 'v request_input \<Rightarrow> 'v request js_result" where
  "input_request U S input =
     (case input of
        Input_Request rq \<Rightarrow> try_clone S rq
      | Input_Url s \<Rightarrow> map_sum id (\<lambda>u. request_default\<lparr>rq_url := u\<rparr>) (parse_url U s)
      | Input_Value r \<Rightarrow> js_bind r (\<lambda>s. map_sum id (\<lambda>u. request_default\<lparr>rq_url := u\<rparr>) (parse_url U s)))"

definition has_body :: "'v request \<Rightarrow> bool" where
  "has_body rq = (case rq_body rq of None \<Rightarrow> False | Some BV_Nothing \<Rightarrow> False | Some _ \<Rightarrow> True)"

definition request_new ::
  "url_crates \<Rightarrow> streams \<Rightarrow> 'v request_input \<Rightarrow> 'v request_init option \<Rightarrow> 'v request js_result" where
  "request_new U S input init =
     js_bind (input_request U S input) (\<lambda>rq.
       let rq = (case init of Some i \<Rightarrow> assign_request i rq | None \<Rightarrow> rq) in
       if rq_method rq \<in> {''GET'', ''HEAD''} \<and> has_body rq
       then Inl (type_error_host E_INVALID_ARG ''Request with GET/HEAD method cannot have body'')
       else Inr (if has_body rq then rq else rq\<lparr>rq_body := None\<rparr>))"

section \<open>Bodies as bytes\<close>

text \<open>
  \<^verbatim>\<open>HttpBody::to_bytes\<close> of \<^verbatim>\<open>modules/rong_http/src/body.rs\<close>, with the boundary of a form. \<open>content\<close> is what the receiver of a stream
  delivers, \<open>other\<close> converts the values that are not streams: search parameters, buffers, blobs, forms and, for anything
  else, the engine's string conversion.\<close>

fun collect_stream :: "(string + string) list \<Rightarrow> string \<Rightarrow> string + string" where
  "collect_stream [] out = Inr out"
| "collect_stream (Inl e # cs) out = Inl e"
| "collect_stream (Inr c # cs) out = collect_stream cs (out @ c)"

definition http_body_to_bytes ::
  "('v \<Rightarrow> (string \<times> string option) js_result) \<Rightarrow> (nat \<Rightarrow> (string + string) list) \<Rightarrow> 'v body_value \<Rightarrow> streams \<Rightarrow>
     (string \<times> string option) js_result \<times> streams" where
  "http_body_to_bytes other content b S =
     (case b of
        BV_Nothing \<Rightarrow> (Inr ([], None), S)
      | BV_Value v \<Rightarrow> (other v, S)
      | BV_Stream i \<Rightarrow>
          (case readable_stream_take_receiver (S i) of
             (False, s) \<Rightarrow> (Inl (type_error_host E_INVALID_STATE ''ReadableStream body already used''), S(i := s))
           | (True, s) \<Rightarrow>
               (map_sum (\<lambda>e. type_error_host E_STREAM e) (\<lambda>b. (b, None)) (collect_stream (content i) []), S(i := s))))"

section \<open>Reading the body\<close>

text \<open>\<open>read\<close> is what the body is converted to; the methods differ in what they make of the bytes. The request is marked
  before anything is read, so that a second reader is refused whether or not the first succeeds.\<close>

definition read_request_body ::
  "string \<Rightarrow> (unit \<Rightarrow> 'r js_result) \<Rightarrow> 'r \<Rightarrow> streams \<Rightarrow> 'v request \<Rightarrow> 'r js_result \<times> 'v request" where
  "read_request_body what read nothing S rq =
     (if body_used S rq then (Inl (type_error_host E_INVALID_STATE (''body used already for: '' @ what)), rq)
      else
        (case rq_body rq of Some _ \<Rightarrow> read () | None \<Rightarrow> Inr nothing, rq\<lparr>rq_consumed := True\<rparr>))"

definition request_text :: "(unit \<Rightarrow> string js_result) \<Rightarrow> (string \<Rightarrow> string) \<Rightarrow> streams \<Rightarrow> 'v request \<Rightarrow> string js_result \<times> 'v request" where
  "request_text to_bytes lossy S rq = read_request_body ''text'' (\<lambda>_. map_sum id lossy (to_bytes ())) [] S rq"

definition request_json ::
  "(unit \<Rightarrow> string js_result) \<Rightarrow> (string \<Rightarrow> string) \<Rightarrow> (string \<Rightarrow> 'j js_result) \<Rightarrow> streams \<Rightarrow> 'v request \<Rightarrow> 'j js_result \<times> 'v request" where
  "request_json to_bytes lossy parse S rq =
     (case request_text to_bytes lossy S rq of (r, rq') \<Rightarrow> (js_bind r parse, rq'))"

definition request_array_buffer :: "(unit \<Rightarrow> string js_result) \<Rightarrow> streams \<Rightarrow> 'v request \<Rightarrow> string js_result \<times> 'v request" where
  "request_array_buffer to_bytes S rq = read_request_body ''arrayBuffer'' to_bytes [] S rq"

section \<open>Properties\<close>

lemma try_clone_fields:
  "try_clone S rq = Inr rq' \<Longrightarrow> rq' = rq\<lparr>rq_consumed := False\<rparr> \<and> \<not> rq_consumed rq \<and> \<not> has_streaming_body rq"
  by (auto simp: try_clone_def body_used_def split: if_splits)

text \<open>A request a script can build: no body with GET or HEAD, a body that is one, and a method that is not forbidden.\<close>

definition body_allowed :: "'v request \<Rightarrow> bool" where
  "body_allowed rq \<longleftrightarrow>
     (rq_method rq \<in> {''GET'', ''HEAD''} \<longrightarrow> rq_body rq = None) \<and> rq_body rq \<noteq> Some BV_Nothing"

lemma request_new_allowed: "request_new U S input init = Inr rq \<Longrightarrow> body_allowed rq"
  by (cases "input_request U S input")
    (auto simp: request_new_def js_bind_def Let_def body_allowed_def has_body_def split: if_splits option.splits body_value.splits)

text \<open>No forbidden method comes out of the options, in any spelling.\<close>

lemma init_method_spelling: "init_method U m = Inr m' \<Longrightarrow> to_ascii_uppercase m' = to_ascii_uppercase m"
proof -
  assume "init_method U m = Inr m'"
  then have "m' = to_ascii_uppercase m \<or> m' = m" by (auto simp: init_method_def Let_def split: if_splits)
  then show ?thesis by (auto simp: uppercase_twice)
qed

lemma init_method_allowed:
  assumes "init_method U m = Inr m'"
  shows "to_ascii_uppercase m' \<notin> {''CONNECT'', ''TRACE'', ''TRACK''}"
  unfolding init_method_spelling [OF assms] using assms by (auto simp: init_method_def Let_def split: if_splits)

text \<open>A body is read at most once, whatever the readers are.\<close>

lemma read_request_body_once:
  assumes "read_request_body what read nothing S rq = (r, rq')"
  shows "fst (read_request_body what' read' nothing' S' rq') = Inl (type_error_host E_INVALID_STATE (''body used already for: '' @ what'))
    \<or> (body_used S rq \<and> rq' = rq)"
  using assms by (auto simp: read_request_body_def body_used_def split: if_splits)

end
