(* ===== verification/Http_Response.thy ===== *)
theory Http_Response
  imports Http_Request
begin

text \<open>
  \<^verbatim>\<open>modules/rong_http/src/response.rs\<close> and the host bodies of \<^verbatim>\<open>body.rs\<close>: the \<^verbatim>\<open>Response\<close> object, its three kinds of body, the
  stream made of it on demand, and the methods that read it. A streaming body of the host and the stream object a
  script sees share one slot with the receiver: both are the stream with the same number in the store.
\<close>

section \<open>The object\<close>

datatype 'v body_kind = BK_Buffered string | BK_Channel nat | BK_JS "'v body_value"

record 'v response =
  rp_url :: uri
  rp_method :: string
  rp_headers :: header_map
  rp_status :: nat
  rp_status_text :: string
  rp_body :: "'v body_kind option"
  rp_consumed :: bool
  rp_redirected :: bool
  rp_type :: string
  rp_abort :: bool
  rp_body_stream :: "nat option"

definition response_default :: "'v response" where
  "response_default =
     \<lparr>rp_url = \<lparr>ur_text = ''/'', ur_host = None\<rparr>, rp_method = ''GET'', rp_headers = Map.empty, rp_status = 0, rp_status_text = [],
      rp_body = None, rp_consumed = False, rp_redirected = False, rp_type = [], rp_abort = False, rp_body_stream = None\<rparr>"

text \<open>The store: the streams, the next unused number, and what the receiver of each stream delivers.\<close>

record body_world =
  bw_streams :: streams
  bw_next :: nat
  bw_content :: "nat \<Rightarrow> (string + string) list"

text \<open>\<^verbatim>\<open>HostBodyStream::is_consumed\<close>, with the failure to lock taken for consumed as every caller does.\<close>

definition slot_consumed :: "readable_stream \<Rightarrow> bool" where
  "slot_consumed s = (rs_poisoned s \<or> \<not> rs_slot s)"

section \<open>Construction\<close>

record response_init =
  pi_status :: "nat option"
  pi_status_text :: "string option"
  pi_headers :: "header_map option"

text \<open>The options of the constructor, as the engine shows them; what cannot be read is left out.\<close>

definition init_option_from :: "http_types \<Rightarrow> (nat js_result \<times> string js_result \<times> headers_init js_result) option \<Rightarrow> response_init js_result" where
  "init_option_from T view =
     (case view of
        None \<Rightarrow> Inl (type_error_host E_INVALID_ARG ''Invalid Response Option'')
      | Some (status, status_text, headers) \<Rightarrow>
          let ok = (\<lambda>r. case r of Inl _ \<Rightarrow> None | Inr x \<Rightarrow> Some x) in
          Inr \<lparr>pi_status = (case status of Inl _ \<Rightarrow> None | Inr n \<Rightarrow> Some n), pi_status_text = ok status_text,
               pi_headers = (case headers of Inl _ \<Rightarrow> None | Inr h \<Rightarrow> (case hd_new T (Some h) of Inl _ \<Rightarrow> None | Inr m \<Rightarrow> Some m))\<rparr>)"

definition has_response_body :: "'v response \<Rightarrow> bool" where
  "has_response_body rp =
     (case rp_body rp of
        None \<Rightarrow> False
      | Some (BK_JS b) \<Rightarrow> b \<noteq> BV_Nothing
      | Some (BK_Buffered bytes) \<Rightarrow> bytes \<noteq> []
      | Some (BK_Channel _) \<Rightarrow> True)"

definition assign_status :: "nat option \<Rightarrow> 'v response \<Rightarrow> 'v response js_result" where
  "assign_status s rp =
     (case s of
        None \<Rightarrow> Inr rp
      | Some n \<Rightarrow>
          if \<not> (200 \<le> n \<and> n \<le> 599)
          then Inl (Host (with_name ''RangeError'' (he_new E_OUT_OF_RANGE (''Invalid status code: '' @ string_of_nat n))))
          else Inr (rp\<lparr>rp_status := n\<rparr>))"

definition assign_status_text :: "string option \<Rightarrow> 'v response \<Rightarrow> 'v response js_result" where
  "assign_status_text s rp =
     (case s of
        None \<Rightarrow> Inr rp
      | Some m \<Rightarrow>
          if CHR 0x0D \<in> set m \<or> CHR 0x0A \<in> set m
          then Inl (type_error_host E_INVALID_ARG ''statusText must not contain CR or LF characters'')
          else Inr (rp\<lparr>rp_status_text := m\<rparr>))"

definition response_new :: "'v body_value option \<Rightarrow> response_init option \<Rightarrow> 'v response js_result" where
  "response_new body init =
     (let rp = response_default\<lparr>rp_status := 200, rp_type := ''default'', rp_body := map_option BK_JS body\<rparr> in
      js_bind
        (case init of
           None \<Rightarrow> Inr rp
         | Some i \<Rightarrow>
             js_bind (assign_status (pi_status i) rp) (\<lambda>rp.
             js_bind (assign_status_text (pi_status_text i) rp) (\<lambda>rp.
             Inr (case pi_headers i of Some h \<Rightarrow> rp\<lparr>rp_headers := h\<rparr> | None \<Rightarrow> rp))))
        (\<lambda>rp.
          if has_response_body rp \<and> rp_status rp \<in> {204, 205, 304}
          then Inl (type_error_host E_INVALID_ARG (''Response with status '' @ string_of_nat (rp_status rp) @ '' cannot have body''))
          else Inr (if has_response_body rp then rp else rp\<lparr>rp_body := None\<rparr>)))"

definition response_error :: "'v response" where
  "response_error = response_default\<lparr>rp_status := 0, rp_status_text := [], rp_type := ''error''\<rparr>"

definition is_redirect_status :: "nat \<Rightarrow> bool" where
  "is_redirect_status n = (n \<in> {301, 302, 303, 307, 308})"

definition response_redirect :: "http_types \<Rightarrow> url_crates \<Rightarrow> string \<Rightarrow> nat option \<Rightarrow> 'v response js_result" where
  "response_redirect T U url status =
     (let status = (case status of Some n \<Rightarrow> n | None \<Rightarrow> 302) in
      if \<not> is_redirect_status status
      then Inl (type_error_host E_INVALID_ARG (''Invalid redirect status: '' @ string_of_nat status))
      else
        js_bind (parse_url U url) (\<lambda>u.
        js_bind (hd_set T ''Location'' url Map.empty) (\<lambda>h.
        Inr (response_default\<lparr>rp_url := u, rp_status := status, rp_headers := h, rp_redirected := True, rp_type := ''default''\<rparr>))))"

text \<open>The response of the network. Headers are set one by one, in the order in which the map of the crate gives them;
  \<open>reason\<close> is the canonical reason of a status.\<close>

definition set_if_text :: "http_types \<Rightarrow> string \<times> string \<Rightarrow> header_map \<Rightarrow> header_map" where
  "set_if_text T nv h =
     (case ht_to_str T (snd nv) of
        None \<Rightarrow> h
      | Some s \<Rightarrow> (case hd_set T (fst nv) s h of Inl _ \<Rightarrow> h | Inr h' \<Rightarrow> h'))"

definition from_meta ::
  "http_types \<Rightarrow> (nat \<Rightarrow> string option) \<Rightarrow> nat \<Rightarrow> (string \<times> string) list \<Rightarrow> 'v body_kind \<Rightarrow> bool \<Rightarrow> string \<Rightarrow> uri \<Rightarrow> bool \<Rightarrow> string \<Rightarrow> 'v response" where
  "from_meta T reason status headers_in body abort method url redirected ty =
     response_default\<lparr>rp_url := url, rp_method := method, rp_headers := fold (set_if_text T) headers_in Map.empty,
       rp_status := status, rp_status_text := (case reason status of Some m \<Rightarrow> m | None \<Rightarrow> []), rp_body := Some body,
       rp_redirected := redirected, rp_type := ty, rp_abort := abort\<rparr>"

section \<open>The state of the body\<close>

definition response_body_used :: "body_world \<Rightarrow> 'v response \<Rightarrow> bool" where
  "response_body_used W rp =
     (rp_consumed rp \<or>
      (case rp_body_stream rp of
         Some i \<Rightarrow> readable_stream_is_locked (bw_streams W i)
       | None \<Rightarrow> (case rp_body rp of Some (BK_Channel i) \<Rightarrow> slot_consumed (bw_streams W i) | _ \<Rightarrow> False)))"

definition response_streaming :: "'v response \<Rightarrow> bool" where
  "response_streaming rp =
     (case rp_body rp of Some (BK_Channel _) \<Rightarrow> True | Some (BK_JS (BV_Stream _)) \<Rightarrow> True | _ \<Rightarrow> False)"

definition response_clone :: "body_world \<Rightarrow> 'v response \<Rightarrow> 'v response js_result" where
  "response_clone W rp =
     (if response_body_used W rp
      then Inl (type_error_host E_INVALID_STATE ''Cannot clone a Response whose body is already used'')
      else if response_streaming rp
      then Inl (type_error_host E_INVALID_STATE ''Response.clone() does not support streaming bodies; tee the stream before cloning'')
      else Inr (rp\<lparr>rp_body_stream := None\<rparr>))"

text \<open>A stream of its own, with a receiver that will deliver the given chunks.\<close>

definition new_stream :: "(string + string) list \<Rightarrow> body_world \<Rightarrow> nat \<times> body_world" where
  "new_stream chunks W =
     (let i = bw_next W in
      (i, W\<lparr>bw_streams := (bw_streams W)(i := rs_constructor False), bw_next := i + 1, bw_content := (bw_content W)(i := chunks)\<rparr>))"

text \<open>The bytes of a script's value, \<open>other\<close> converting the values that are not streams.\<close>

definition js_bytes ::
  "('v \<Rightarrow> (string \<times> string option) js_result) \<Rightarrow> 'v body_value \<Rightarrow> body_world \<Rightarrow> string js_result \<times> body_world" where
  "js_bytes other b W =
     (case http_body_to_bytes other (bw_content W) b (bw_streams W) of
        (r, S) \<Rightarrow> (map_sum id fst r, W\<lparr>bw_streams := S\<rparr>))"

text \<open>\<open>Response.body\<close>: the stream made before, or one made now. The task that converts a script's value runs at once here.\<close>

definition response_body ::
  "('v \<Rightarrow> (string \<times> string option) js_result) \<Rightarrow> 'v response \<Rightarrow> body_world \<Rightarrow> nat option \<times> 'v response \<times> body_world" where
  "response_body other rp W =
     (case rp_body_stream rp of
        Some i \<Rightarrow> (Some i, rp, W)
      | None \<Rightarrow>
          (case rp_body rp of
             None \<Rightarrow> (None, rp, W)
           | Some (BK_Channel i) \<Rightarrow>
               if slot_consumed (bw_streams W i) then (None, rp, W) else (Some i, rp\<lparr>rp_body_stream := Some i\<rparr>, W)
           | Some (BK_Buffered b) \<Rightarrow>
               (case new_stream [Inr b] W of (i, W') \<Rightarrow> (Some i, rp\<lparr>rp_body_stream := Some i\<rparr>, W'))
           | Some (BK_JS b) \<Rightarrow>
               (case js_bytes other b W of
                  (r, W) \<Rightarrow>
                    (case new_stream [map_sum js_error_text id r] W of
                       (i, W') \<Rightarrow> (Some i, rp\<lparr>rp_body_stream := Some i\<rparr>, W')))))"

section \<open>Reading\<close>

text \<open>\<open>gunzip\<close> is the decoder of the \<^verbatim>\<open>flate2\<close> crate.\<close>

definition decompress_bytes :: "http_types \<Rightarrow> (string \<Rightarrow> string + string) \<Rightarrow> header_map \<Rightarrow> string \<Rightarrow> string js_result" where
  "decompress_bytes T gunzip headers b =
     (case hm_get_all ''content-encoding'' headers of
        [] \<Rightarrow> Inr b
      | v # _ \<Rightarrow>
          (case ht_to_str T v of
             None \<Rightarrow> Inr b
           | Some enc \<Rightarrow>
               if enc = ''gzip''
               then map_sum (\<lambda>e. Host (he_new E_IO (''Failed to decompress gzip: '' @ e))) id (gunzip b)
               else Inl (Host (he_new E_NOT_SUPPORTED (''Unsupported content-encoding: '' @ enc)))))"

text \<open>The chunks of a channel; an abort that arrives before the given reception wins over it.\<close>

fun collect_items :: "(nat \<times> rong_js_error) option \<Rightarrow> (string + string) list \<Rightarrow> string \<Rightarrow> string js_result" where
  "collect_items (Some (0, reason)) items out = Inl reason"
| "collect_items abort [] out = Inr out"
| "collect_items abort (Inl e # items) out = Inl (Host (he_new E_IO e))"
| "collect_items abort (Inr b # items) out = collect_items (map_option (apfst (\<lambda>n. n - 1)) abort) items (out @ b)"

definition take_slot :: "nat \<Rightarrow> body_world \<Rightarrow> bool \<times> body_world" where
  "take_slot i W =
     (case readable_stream_take_receiver (bw_streams W i) of (b, s) \<Rightarrow> (b, W\<lparr>bw_streams := (bw_streams W)(i := s)\<rparr>))"

definition body_to_bytes ::
  "http_types \<Rightarrow> (string \<Rightarrow> string + string) \<Rightarrow> ('v \<Rightarrow> (string \<times> string option) js_result) \<Rightarrow> (nat \<times> rong_js_error) option \<Rightarrow>
     'v response \<Rightarrow> body_world \<Rightarrow> string js_result \<times> body_world" where
  "body_to_bytes T gunzip other abort rp W =
     (case rp_body rp of
        None \<Rightarrow> (Inr [], W)
      | Some (BK_JS b) \<Rightarrow> js_bytes other b W
      | Some (BK_Buffered b) \<Rightarrow> (decompress_bytes T gunzip (rp_headers rp) b, W)
      | Some (BK_Channel i) \<Rightarrow>
          (case (case rp_body_stream rp of Some j \<Rightarrow> (j, take_slot j W) | None \<Rightarrow> (i, False, W)) of
             (j, taken, W) \<Rightarrow>
               if taken
               then (js_bind (collect_items (if rp_abort rp then abort else None) (bw_content W j) [])
                       (decompress_bytes T gunzip (rp_headers rp)), W)
               else if rs_poisoned (bw_streams W i) then (Inl (Host (he_new E_INTERNAL ''failed to lock streaming body'')), W)
               else
                 (case take_slot i W of
                    (True, W) \<Rightarrow>
                      (js_bind (collect_items (if rp_abort rp then abort else None) (bw_content W i) [])
                         (decompress_bytes T gunzip (rp_headers rp)), W)
                  | (False, W) \<Rightarrow> (Inr [], W))))"

text \<open>The reading methods differ in their name and in what they make of the bytes: text, JSON, a blob, a buffer, a form.\<close>

definition response_read ::
  "string \<Rightarrow> (string \<Rightarrow> 'r js_result) \<Rightarrow> http_types \<Rightarrow> (string \<Rightarrow> string + string) \<Rightarrow> ('v \<Rightarrow> (string \<times> string option) js_result) \<Rightarrow>
     (nat \<times> rong_js_error) option \<Rightarrow> 'v response \<Rightarrow> body_world \<Rightarrow> 'r js_result \<times> 'v response \<times> body_world" where
  "response_read what convert T gunzip other abort rp W =
     (if response_body_used W rp
      then (Inl (type_error_host E_INVALID_STATE (''body used already for: '' @ what)), rp, W)
      else
        (case body_to_bytes T gunzip other abort rp W of
           (r, W') \<Rightarrow> (js_bind r convert, rp\<lparr>rp_consumed := True\<rparr>, W')))"

section \<open>Responses of the host\<close>

datatype host_body = Host_Empty | Host_Bytes string | Host_Stream nat

definition host_as_bytes :: "host_body \<Rightarrow> string option" where
  "host_as_bytes b = (case b of Host_Empty \<Rightarrow> Some [] | Host_Bytes s \<Rightarrow> Some s | Host_Stream _ \<Rightarrow> None)"

definition is_definitely_empty :: "host_body \<Rightarrow> bool" where
  "is_definitely_empty b = (case b of Host_Empty \<Rightarrow> True | Host_Bytes s \<Rightarrow> s = [] | Host_Stream _ \<Rightarrow> False)"

definition into_receiver :: "nat \<Rightarrow> body_world \<Rightarrow> (string + nat) \<times> body_world" where
  "into_receiver i W =
     (if rs_poisoned (bw_streams W i) then (Inl ''failed to lock streaming body'', W)
      else
        (case take_slot i W of (True, W') \<Rightarrow> (Inr i, W') | (False, W') \<Rightarrow> (Inl ''streaming body already consumed'', W')))"

definition host_into_bytes :: "host_body \<Rightarrow> body_world \<Rightarrow> (string + string) \<times> body_world" where
  "host_into_bytes b W =
     (case b of
        Host_Empty \<Rightarrow> (Inr [], W)
      | Host_Bytes s \<Rightarrow> (Inr s, W)
      | Host_Stream i \<Rightarrow>
          (case into_receiver i W of
             (Inl e, W') \<Rightarrow> (Inl e, W')
           | (Inr i, W') \<Rightarrow> (collect_stream (bw_content W' i) [], W')))"

record host_response =
  hp_url :: string
  hp_method :: string
  hp_status :: nat
  hp_headers :: header_map
  hp_body :: host_body

definition from_response_parts ::
  "url_crates \<Rightarrow> (nat \<Rightarrow> string option) \<Rightarrow> host_response \<Rightarrow> body_world \<Rightarrow> 'v response js_result" where
  "from_response_parts U reason p W =
     (case uc_uri U (hp_url p) of
        Inl _ \<Rightarrow> Inl (invalid_url (hp_url p))
      | Inr u \<Rightarrow>
          if \<not> uc_method U (hp_method p) then Inl (type_error_host E_INVALID_ARG (''Invalid method: '' @ hp_method p))
          else if \<not> (100 \<le> hp_status p \<and> hp_status p \<le> 999)
          then Inl (Host (with_name ''RangeError'' (he_new E_INVALID_ARG (''Invalid status code: '' @ string_of_nat (hp_status p)))))
          else
            js_bind
              (case hp_body p of
                 Host_Empty \<Rightarrow> Inr None
               | Host_Bytes b \<Rightarrow> Inr (Some (BK_Buffered b))
               | Host_Stream i \<Rightarrow>
                   if rs_poisoned (bw_streams W i) then Inl (type_error_host E_INVALID_STATE ''failed to lock streaming body'')
                   else if \<not> rs_slot (bw_streams W i)
                   then Inl (type_error_host E_INVALID_STATE ''streaming response body already consumed'')
                   else Inr (Some (BK_Channel i)))
              (\<lambda>b. Inr (response_default\<lparr>rp_url := u, rp_method := hp_method p, rp_headers := hp_headers p, rp_status := hp_status p,
                 rp_status_text := (case reason (hp_status p) of Some m \<Rightarrow> m | None \<Rightarrow> []), rp_body := b, rp_type := ''default''\<rparr>)))"

definition extract_response_parts ::
  "('v \<Rightarrow> (string \<times> string option) js_result) \<Rightarrow> 'v response \<Rightarrow> body_world \<Rightarrow> host_response js_result \<times> body_world" where
  "extract_response_parts other rp W =
     (case (case rp_body rp of
              None \<Rightarrow> (Inr Host_Empty, W)
            | Some (BK_Buffered b) \<Rightarrow> (Inr (Host_Bytes b), W)
            | Some (BK_Channel i) \<Rightarrow> (Inr (Host_Stream i), W)
            | Some (BK_JS (BV_Stream i)) \<Rightarrow>
                (case take_slot i W of
                   (True, W) \<Rightarrow> (case new_stream (bw_content W i) W of (j, W) \<Rightarrow> (Inr (Host_Stream j), W))
                 | (False, W) \<Rightarrow> (Inl (Host (he_new E_INVALID_STATE ''ReadableStream response body already used'')), W))
            | Some (BK_JS b) \<Rightarrow> (case js_bytes other b W of (r, W) \<Rightarrow> (map_sum id Host_Bytes r, W))) of
        (r, W) \<Rightarrow>
          (map_sum id (\<lambda>b. \<lparr>hp_url = ur_text (rp_url rp), hp_method = rp_method rp, hp_status = rp_status rp,
             hp_headers = rp_headers rp, hp_body = b\<rparr>) r, W))"

section \<open>Requests of the host\<close>

record host_request =
  pq_url :: string
  pq_method :: string
  pq_headers :: header_map
  pq_body :: host_body

text \<open>\<open>array_buffer\<close> makes the engine's buffer for the given bytes.\<close>

definition from_request_parts ::
  "(string \<Rightarrow> 'v js_result) \<Rightarrow> url_crates \<Rightarrow> host_request \<Rightarrow> body_world \<Rightarrow> 'v request js_result" where
  "from_request_parts array_buffer U p W =
     (case uc_uri U (pq_url p) of
        Inl _ \<Rightarrow> Inl (invalid_url (pq_url p))
      | Inr u \<Rightarrow>
          if \<not> uc_method U (pq_method p) then Inl (type_error_host E_INVALID_ARG (''Invalid method: '' @ pq_method p))
          else
            js_bind
              (case pq_body p of
                 Host_Empty \<Rightarrow> Inr None
               | Host_Bytes b \<Rightarrow> map_sum id (\<lambda>v. Some (BV_Value v)) (array_buffer b)
               | Host_Stream i \<Rightarrow>
                   if rs_poisoned (bw_streams W i) then Inl (type_error_host E_INVALID_STATE ''failed to lock streaming body'')
                   else if \<not> rs_slot (bw_streams W i)
                   then Inl (type_error_host E_INVALID_STATE ''streaming request body already consumed'')
                   else Inr (Some (BV_Stream i)))
              (\<lambda>b. Inr \<lparr>rq_url = u, rq_method = pq_method p, rq_headers = pq_headers p, rq_body = b, rq_redirect = Redirect_Follow,
                 rq_signal = None, rq_consumed = False\<rparr>))"

text \<open>A stream that was taken is refused, never replaced by an empty one; a stream that is there can be read by the script.\<close>

lemma consumed_stream_refused:
  "pq_body p = Host_Stream i \<Longrightarrow> slot_consumed (bw_streams W i) \<Longrightarrow> from_request_parts array_buffer U p W \<noteq> Inr rq"
  by (auto simp: from_request_parts_def slot_consumed_def js_bind_def split: sum.splits)

lemma host_stream_readable:
  assumes "pq_body p = Host_Stream i" "from_request_parts array_buffer U p W = Inr rq"
  shows "rq_body rq = Some (BV_Stream i)"
    "fst (http_body_to_bytes other (bw_content W) (BV_Stream i) (bw_streams W)) =
       map_sum (\<lambda>e. type_error_host E_STREAM e) (\<lambda>b. (b, None)) (collect_stream (bw_content W i) [])"
proof -
  have r: "rq_body rq = Some (BV_Stream i) \<and> \<not> rs_poisoned (bw_streams W i) \<and> rs_slot (bw_streams W i)"
    using assms by (auto simp: from_request_parts_def js_bind_def split: sum.splits if_splits)
  then show "rq_body rq = Some (BV_Stream i)" ..
  show "fst (http_body_to_bytes other (bw_content W) (BV_Stream i) (bw_streams W)) =
       map_sum (\<lambda>e. type_error_host E_STREAM e) (\<lambda>b. (b, None)) (collect_stream (bw_content W i) [])"
    using r by (simp add: http_body_to_bytes_def readable_stream_take_receiver_def run_initializer_def Let_def split: prod.splits)
qed

section \<open>Properties\<close>

text \<open>A stream that was never lazy stays so: it is locked exactly when its receiver is away.\<close>

lemma stream_step_eager: "stream_step s s' \<Longrightarrow> \<not> rs_init s \<Longrightarrow> \<not> rs_init s'"
proof (induction rule: stream_step.induct)
  case (taken_recv s item s')
  then show ?case by (auto simp: recv_def deliver_def split: list.splits option.splits)
qed (auto simp: get_reader_def stream_cancel_def readable_stream_take_receiver_def run_initializer_def next_begin_def next_end_def
    read_begin_def read_end_def release_lock_def reader_cancel_def take_channel_def drop_rx_def enqueue_def controller_close_def
    controller_error_def forward_take_def forward_send_def forward_stop_def recv_def deliver_def set_reader_def Let_def
    split: if_splits list.splits option.splits prod.splits sum.splits)

text \<open>What happens to a response whose body is the channel \<open>i\<close>: a script asks for its stream or reads it, and anybody uses
  streams, which may change what is left in them.\<close>

inductive response_step ::
  "http_types \<Rightarrow> (string \<Rightarrow> string + string) \<Rightarrow> ('v \<Rightarrow> (string \<times> string option) js_result) \<Rightarrow>
     'v response \<times> body_world \<Rightarrow> 'v response \<times> body_world \<Rightarrow> bool"
  for T gunzip other where
  asked: "response_step T gunzip other (rp, W) (snd (response_body other rp W))"
| read: "response_step T gunzip other (rp, W) (snd (response_read what (Inr :: string \<Rightarrow> string js_result) T gunzip other abort rp W))"
| stream: "stream_step (bw_streams W k) s \<Longrightarrow>
    response_step T gunzip other (rp, W) (rp, W\<lparr>bw_streams := (bw_streams W)(k := s), bw_content := (bw_content W)(k := c)\<rparr>)"

definition channel_ok :: "nat \<Rightarrow> 'v response \<times> body_world \<Rightarrow> bool" where
  "channel_ok i x \<longleftrightarrow>
     rp_body (fst x) = Some (BK_Channel i) \<and> rp_body_stream (fst x) \<in> {None, Some i} \<and> \<not> rs_init (bw_streams (snd x) i)"

lemma take_slot_eager: "\<not> rs_init (bw_streams W i) \<Longrightarrow> \<not> rs_init (bw_streams (snd (take_slot j W)) i)"
  by (auto simp: take_slot_def readable_stream_take_receiver_def run_initializer_def Let_def)

lemma channel_ok_step: "response_step T gunzip other x y \<Longrightarrow> channel_ok i x \<Longrightarrow> channel_ok i y"
proof (induction rule: response_step.induct)
  case (asked rp W)
  then show ?case by (auto simp: channel_ok_def response_body_def split: if_splits)
next
  case (read rp W what abort)
  then show ?case
    using take_slot_eager [of W i i] take_slot_eager [of "snd (take_slot i W)" i i]
    by (auto simp: channel_ok_def response_read_def body_to_bytes_def split: prod.splits bool.splits)
next
  case (stream W k s rp c)
  then show ?case using stream_step_eager by (auto simp: channel_ok_def)
qed

lemma channel_ok_steps: "(response_step T gunzip other)\<^sup>*\<^sup>* x y \<Longrightarrow> channel_ok i x \<Longrightarrow> channel_ok i y"
  by (induction rule: rtranclp_induct) (auto intro: channel_ok_step)

lemma take_slot_free:
  assumes "\<not> slot_consumed (bw_streams W i)"
  shows "fst (take_slot i W)" "bw_content (snd (take_slot i W)) = bw_content W"
    "rs_slot (bw_streams (snd (take_slot i W)) i) = False" "rs_poisoned (bw_streams (snd (take_slot i W)) i) = False"
  using assms by (simp_all add: take_slot_def readable_stream_take_receiver_def run_initializer_def slot_consumed_def Let_def)

lemma unused_slot: "channel_ok i (rp, W) \<Longrightarrow> \<not> response_body_used W rp \<Longrightarrow> \<not> slot_consumed (bw_streams W i)"
  by (auto simp: channel_ok_def response_body_used_def readable_stream_is_locked_def slot_consumed_def split: if_splits)

lemma channel_bytes:
  assumes "channel_ok i (rp, W)" "\<not> response_body_used W rp"
  shows "body_to_bytes T gunzip other abort rp W =
    (js_bind (collect_items (if rp_abort rp then abort else None) (bw_content W i) []) (decompress_bytes T gunzip (rp_headers rp)),
     snd (take_slot i W))"
proof -
  have free: "\<not> slot_consumed (bw_streams W i)" by (rule unused_slot [OF assms])
  obtain W' where W': "take_slot i W = (True, W')" using take_slot_free(1) [OF free] by (cases "take_slot i W") auto
  have "bw_content W' = bw_content W" "\<not> rs_poisoned (bw_streams W i)"
    using take_slot_free(2) [OF free] free by (simp_all add: W' slot_consumed_def)
  then show ?thesis using assms(1) by (auto simp: channel_ok_def body_to_bytes_def W')
qed

lemma read_used:
  "channel_ok i (rp, W) \<Longrightarrow> rp_consumed rp \<Longrightarrow>
     fst (response_read what convert T gunzip other abort rp W) = Inl (type_error_host E_INVALID_STATE (''body used already for: '' @ what))"
  by (simp add: response_read_def response_body_used_def)

text \<open>
  C28. The streamed body of a response is never lost silently: in every state scripts can bring a response to, by asking for
  its stream, reading it or using the stream, a reader that is not refused gets all the chunks still in the channel, in
  order and decoded, or the error that cut them short, never an empty body in their place; from then on every reader
  is refused and the receiver cannot be taken again.\<close>

theorem streamed_body_complete:
  assumes "(response_step T gunzip other)\<^sup>*\<^sup>*
      (from_meta T reason status headers (BK_Channel i) has_abort method url redirected ty, W0) (rp, W)"
    and "\<not> rs_init (bw_streams W0 i)"
    and "fst (response_read what convert T gunzip other abort rp W) = answer" "snd (response_read what convert T gunzip other abort rp W) = (rp', W')"
  shows "if response_body_used W rp
     then answer = Inl (type_error_host E_INVALID_STATE (''body used already for: '' @ what)) \<and> rp' = rp \<and> W' = W
     else answer = js_bind (js_bind (collect_items (if rp_abort rp then abort else None) (bw_content W i) [])
            (decompress_bytes T gunzip (rp_headers rp))) convert \<and>
          response_body_used W' rp' \<and> slot_consumed (bw_streams W' i)"
proof -
  have "channel_ok i (from_meta T reason status headers (BK_Channel i) has_abort method url redirected ty :: 'a response, W0)"
    using assms(2) by (simp add: channel_ok_def from_meta_def response_default_def)
  then have ok: "channel_ok i (rp, W)" using channel_ok_steps [OF assms(1)] by simp
  show ?thesis
  proof (cases "response_body_used W rp")
    case True
    then show ?thesis using assms(3,4) by (simp add: response_read_def)
  next
    case False
    note b = channel_bytes [OF ok False, of T gunzip other abort]
    have "rp' = rp\<lparr>rp_consumed := True\<rparr>" "W' = snd (take_slot i W)"
      using assms(4) False by (simp_all add: response_read_def b)
    then show ?thesis
      using assms(3) False take_slot_free(3) [OF unused_slot [OF ok False]]
      by (simp add: response_read_def b response_body_used_def slot_consumed_def)
  qed
qed

definition two_chunks :: body_world where
  "two_chunks = \<lparr>bw_streams = (\<lambda>_. rs_constructor False), bw_next = 1, bw_content = (\<lambda>_. [Inr ''ab'', Inr ''cd''])\<rparr>"

definition ok_response :: "unit response" where
  "ok_response = from_meta ascii_types (\<lambda>_. None) 200 [] (BK_Channel 0) False ''GET'' \<lparr>ur_text = ''http://a/'', ur_host = Some ''a''\<rparr> False ''basic''"

theorem streamed_body_complete_witness:
  "fst (response_read ''text'' (Inr :: string \<Rightarrow> string js_result) ascii_types Inr (\<lambda>_. Inr ([], None)) None ok_response two_chunks) = Inr ''abcd''"
proof -
  let ?rd = "response_read ''text'' (Inr :: string \<Rightarrow> string js_result) ascii_types Inr (\<lambda>_. Inr ([], None)) None ok_response two_chunks"
  have s: "(response_step ascii_types Inr (\<lambda>_. Inr ([], None)))\<^sup>*\<^sup>* (ok_response, two_chunks) (ok_response, two_chunks)" by simp
  have i: "\<not> rs_init (bw_streams two_chunks 0)" by (simp add: two_chunks_def rs_constructor_def)
  have used: "\<not> response_body_used two_chunks ok_response"
    by (simp add: response_body_used_def two_chunks_def ok_response_def from_meta_def response_default_def slot_consumed_def rs_constructor_def)
  have "\<exists>rp' W'. snd ?rd = (rp', W')" by (cases "snd ?rd") blast
  then obtain rp' W' where e: "snd ?rd = (rp', W')" by blast
  have "fst ?rd = js_bind (js_bind (collect_items None [Inr ''ab'', Inr ''cd''] []) (decompress_bytes ascii_types Inr Map.empty)) Inr"
    using streamed_body_complete [OF s [unfolded ok_response_def] i refl e [unfolded ok_response_def]] used
    by (simp add: ok_response_def from_meta_def response_default_def two_chunks_def split: if_splits)
  then show ?thesis by (simp add: js_bind_def decompress_bytes_def hm_get_all_def)
qed

text \<open>
  What a host hands to a script as a response comes back as it was given: address, method, status, every header with all
  its values, and the body, a stream still unread, where the address is spelled as the crate prints it. Nothing but an invalid address, method or status and a stream that
  was taken before is refused.\<close>

theorem response_parts_roundtrip:
  assumes "\<And>u. uc_uri U (hp_url p) = Inr u \<Longrightarrow> ur_text u = hp_url p"
  shows "(case uc_uri U (hp_url p) of Inl _ \<Rightarrow> False | Inr _ \<Rightarrow> uc_method U (hp_method p) \<and> 100 \<le> hp_status p \<and> hp_status p \<le> 999) \<and>
       (case hp_body p of Host_Stream i \<Rightarrow> \<not> slot_consumed (bw_streams W i) | _ \<Rightarrow> True) \<longleftrightarrow>
     (\<exists>rp. from_response_parts U reason p W = Inr rp \<and> extract_response_parts other rp W = (Inr p, W))"
  using assms
  by (cases "uc_uri U (hp_url p)"; cases "hp_body p")
    (auto simp: from_response_parts_def extract_response_parts_def js_bind_def slot_consumed_def response_default_def)

definition plain_crates :: url_crates where
  "plain_crates =
     \<lparr>uc_parse = (\<lambda>s. Inr \<lparr>pu_text = s, pu_scheme = ''http'', pu_host = Some s, pu_port = Some 80\<rparr>),
      uc_join = (\<lambda>b s. Inr \<lparr>pu_text = s, pu_scheme = ''http'', pu_host = Some s, pu_port = Some 80\<rparr>),
      uc_uri = (\<lambda>s. Inr \<lparr>ur_text = s, ur_host = Some s\<rparr>), uc_method = (\<lambda>m. m \<noteq> [])\<rparr>"

theorem response_parts_roundtrip_witness:
  "\<exists>rp :: unit response.
     from_response_parts plain_crates (\<lambda>_. None) \<lparr>hp_url = ''h'', hp_method = ''GET'', hp_status = 200, hp_headers = Map.empty, hp_body = Host_Stream 0\<rparr> two_chunks = Inr rp \<and>
     extract_response_parts (\<lambda>_. Inr ([], None)) rp two_chunks =
       (Inr \<lparr>hp_url = ''h'', hp_method = ''GET'', hp_status = 200, hp_headers = Map.empty, hp_body = Host_Stream 0\<rparr>, two_chunks)"
proof (rule iffD1 [OF response_parts_roundtrip])
  fix u
  show "uc_uri plain_crates (hp_url \<lparr>hp_url = ''h'', hp_method = ''GET'', hp_status = 200, hp_headers = Map.empty, hp_body = Host_Stream 0\<rparr>) = Inr u \<Longrightarrow>
      ur_text u = hp_url \<lparr>hp_url = ''h'', hp_method = ''GET'', hp_status = 200, hp_headers = Map.empty, hp_body = Host_Stream 0\<rparr>"
    by (auto simp: plain_crates_def)
qed (simp add: plain_crates_def two_chunks_def slot_consumed_def rs_constructor_def)

text \<open>Headers of the network that occur more than once keep their last value only, cookies among them.\<close>

lemma repeated_header_collapses:
  assumes "ht_name T ''set-cookie'' = Some ''set-cookie''" "ht_to_str T a = Some a" "ht_to_str T b = Some b"
    "ht_value T a = Some a" "ht_value T b = Some b" "CHR 0x00 \<notin> set a" "CHR 0x00 \<notin> set b"
  shows "get_set_cookie T (rp_headers (from_meta T reason status [(''set-cookie'', a), (''set-cookie'', b)] body abort method url redirected ty)) = [b]"
  using assms by (simp add: get_set_cookie_def from_meta_def response_default_def set_if_text_def hd_set_def hm_insert_def hm_get_all_def
      List.map_filter_def)

text \<open>A small compressed body is decoded by the reading methods and handed out compressed by the stream.\<close>

lemma buffered_stream_not_decoded:
  assumes "rp_body rp = Some (BK_Buffered b)" "rp_body_stream rp = None"
  shows "bw_content (snd (snd (response_body other rp W))) (bw_next W) = [Inr b] \<and>
    fst (body_to_bytes T gunzip other abort rp W) = decompress_bytes T gunzip (rp_headers rp) b"
  using assms by (simp add: response_body_def new_stream_def body_to_bytes_def Let_def)

end
