(* ===== verification/Fetch.thy ===== *)
theory Fetch
  imports Http_Response Observer
begin

text \<open>
  \<^verbatim>\<open>fetch\<close> of \<^verbatim>\<open>modules/rong_http/src/fetch.rs\<close> with the owner of its requests (\<^verbatim>\<open>observer.rs\<close>): from a request object to the
  requests sent, hop by hop along redirects, each checked against the guard in force at that moment. What the outside
  does during a hop (the network, the guards, an abort, the conversion of the body) is a record; a fetch runs on the
  list of its hops and still waits when the list is used up.
\<close>

section \<open>Outgoing requests\<close>

datatype hyper_body = Full_Body string | Stream_Body nat

record hyper_request =
  hq_method :: string
  hq_uri :: uri
  hq_headers :: header_map
  hq_body :: hyper_body
  hq_tag :: "network_request_tag option"

definition form_content_type :: "string \<Rightarrow> string" where
  "form_content_type boundary = ''multipart/form-data; boundary='' @ boundary"

text \<open>The builder keeps an invalid user agent as its error and has no headers from then on.\<close>

definition builder_headers :: "http_types \<Rightarrow> string \<Rightarrow> header_map \<Rightarrow> header_map option" where
  "builder_headers T user_agent headers =
     map_option (\<lambda>ua.
       fold (\<lambda>(k, v). hm_append k v) (hm_iter T headers)
         (hm_append ''accept-encoding'' ''gzip'' (hm_append ''accept'' ''*/*'' (hm_append ''user-agent'' ua Map.empty))))
     (ht_value T user_agent)"

definition finish_request :: "header_map option \<Rightarrow> hyper_body \<Rightarrow> 'v request \<Rightarrow> hyper_request js_result" where
  "finish_request headers body rq =
     (case headers of
        None \<Rightarrow> Inl (type_error_host E_INVALID_ARG ''Failed to build request: invalid HTTP header'')
      | Some h \<Rightarrow> Inr \<lparr>hq_method = rq_method rq, hq_uri = rq_url rq, hq_headers = h, hq_body = body, hq_tag = None\<rparr>)"

definition insert_boundary :: "http_types \<Rightarrow> string option \<Rightarrow> header_map option \<Rightarrow> header_map option js_result" where
  "insert_boundary T boundary headers =
     (case (boundary, headers) of
        (Some b, Some h) \<Rightarrow>
          (case ht_value T (form_content_type b) of
             None \<Rightarrow> Inl (Host (he_new E_INTERNAL ''Invalid content-type header: failed to parse header value''))
           | Some v \<Rightarrow> Inr (Some (hm_insert ''content-type'' v h)))
      | _ \<Rightarrow> Inr headers)"

text \<open>\<open>converted\<close> is what converting a body that is not a stream gives.\<close>

definition to_hyper_request ::
  "http_types \<Rightarrow> string \<Rightarrow> (string \<times> string option) js_result \<Rightarrow> 'v request \<Rightarrow> streams \<Rightarrow> hyper_request js_result \<times> streams" where
  "to_hyper_request T user_agent converted rq S =
     (let headers = builder_headers T user_agent (rq_headers rq) in
      case rq_body rq of
        None \<Rightarrow> (finish_request headers (Full_Body []) rq, S)
      | Some (BV_Stream i) \<Rightarrow>
          (case readable_stream_take_receiver (S i) of
             (True, s) \<Rightarrow> (finish_request headers (Stream_Body i) rq, S(i := s))
           | (False, s) \<Rightarrow> (Inl (type_error_host E_INVALID_STATE ''ReadableStream request body already used''), S(i := s)))
      | Some _ \<Rightarrow>
          (js_bind converted (\<lambda>(bytes, boundary).
             js_bind (insert_boundary T boundary headers) (\<lambda>headers. finish_request headers (Full_Body bytes) rq)), S))"

section \<open>The owner of a fetch\<close>

record fetch_owner =
  fo_owner :: "string option"
  fo_hop :: "u64 option"

text \<open>\<open>observed\<close> is the identifier given out when an observer is installed, \<^const>\<open>None\<close> when none is.\<close>

definition fetch_tag :: "u64 option \<Rightarrow> fetch_owner \<Rightarrow> fetch_owner \<times> network_request_tag option" where
  "fetch_tag observed ow =
     (case observed of
        None \<Rightarrow> (ow\<lparr>fo_hop := None\<rparr>, None)
      | Some i \<Rightarrow>
          (ow\<lparr>fo_hop := Some i\<rparr>,
           Some (with_redirected_from (fo_hop ow)
             (with_owner (fo_owner ow) \<lparr>tag_id = i, tag_owner = None, tag_kind = Kind_Fetch, tag_redirected_from = None\<rparr>))))"

record blocked_report =
  bl_method :: string
  bl_uri :: uri
  bl_headers :: header_map
  bl_reason :: string
  bl_tag :: network_request_tag

definition fetch_blocked ::
  "u64 option \<Rightarrow> string \<Rightarrow> uri \<Rightarrow> header_map \<Rightarrow> string \<Rightarrow> fetch_owner \<Rightarrow> fetch_owner \<times> blocked_report option" where
  "fetch_blocked observed method u headers why ow =
     (case observed of
        None \<Rightarrow> (ow, None)
      | Some _ \<Rightarrow>
          (case fetch_tag observed ow of
             (ow, tag) \<Rightarrow> (ow, map_option (\<lambda>t. \<lparr>bl_method = method, bl_uri = u, bl_headers = headers, bl_reason = why, bl_tag = t\<rparr>) tag)))"

section \<open>Redirects\<close>

definition MAX_REDIRECTS :: nat where "MAX_REDIRECTS = 20"

definition network_error :: "string \<Rightarrow> rong_js_error" where
  "network_error m = Host (he_new E_NETWORK m)"

fun delete_headers :: "http_types \<Rightarrow> string list \<Rightarrow> header_map \<Rightarrow> header_map js_result" where
  "delete_headers T [] h = Inr h"
| "delete_headers T (n # ns) h = js_bind (hd_delete T n h) (delete_headers T ns)"

definition cross_host :: "url_value \<Rightarrow> url_value \<Rightarrow> bool" where
  "cross_host base next = (pu_host base \<noteq> pu_host next \<or> pu_port base \<noteq> pu_port next)"

definition CREDENTIALS :: "string list" where
  "CREDENTIALS = [''authorization'', ''proxy-authorization'', ''cookie'', ''host'']"

definition strip_credentials :: "http_types \<Rightarrow> url_value \<Rightarrow> url_value \<Rightarrow> header_map \<Rightarrow> header_map js_result" where
  "strip_credentials T base next h = (if cross_host base next then delete_headers T CREDENTIALS h else Inr h)"

definition should_switch_to_get :: "nat \<Rightarrow> string \<Rightarrow> bool" where
  "should_switch_to_get status method =
     (if status = 303 then method \<noteq> ''GET'' \<and> method \<noteq> ''HEAD''
      else if status = 301 \<or> status = 302 then method = ''POST''
      else False)"

definition switch_to_get :: "http_types \<Rightarrow> nat \<Rightarrow> 'v request \<Rightarrow> 'v request js_result" where
  "switch_to_get T status rq =
     (if should_switch_to_get status (rq_method rq)
      then map_sum id (\<lambda>h. rq\<lparr>rq_method := ''GET'', rq_body := None, rq_headers := h\<rparr>)
             (delete_headers T [''content-length'', ''content-type'', ''transfer-encoding''] (rq_headers rq))
      else Inr rq)"

text \<open>The request after a redirect to \<open>location\<close>, or the error with the report of a denied address.\<close>

definition redirect_request ::
  "http_types \<Rightarrow> url_crates \<Rightarrow> nat \<Rightarrow> string \<Rightarrow> access_guard \<Rightarrow> u64 option \<Rightarrow> fetch_owner \<Rightarrow> 'v request \<Rightarrow>
     (rong_js_error \<times> blocked_report option) + 'v request" where
  "redirect_request T U status location guard observed ow rq =
     (case uc_parse U (ur_text (rq_url rq)) of
        Inl e \<Rightarrow> Inl (Host (he_new E_INTERNAL (''Invalid base URL: '' @ e)), None)
      | Inr base \<Rightarrow>
     (case uc_join U base location of
        Inl e \<Rightarrow> Inl (network_error (''Invalid redirect URL: '' @ e), None)
      | Inr next \<Rightarrow>
     if pu_scheme next \<noteq> ''http'' \<and> pu_scheme next \<noteq> ''https''
     then Inl (type_error_host E_NETWORK (''Unsupported redirect URL scheme: '' @ pu_scheme next), None)
     else
     (case strip_credentials T base next (rq_headers rq) of
        Inl e \<Rightarrow> Inl (e, None)
      | Inr h \<Rightarrow>
     (case pu_host next of
        None \<Rightarrow> Inl (type_error_host E_NETWORK ''Redirect URL has no host'', None)
      | Some host \<Rightarrow>
     (case grant_network_access host guard of
        Inl e \<Rightarrow>
          Inl (e, case uc_uri U (pu_text next) of Inl _ \<Rightarrow> None
                  | Inr u \<Rightarrow> snd (fetch_blocked observed (rq_method rq) u h (js_error_text e) ow))
      | Inr _ \<Rightarrow>
     (case uc_uri U (pu_text next) of
        Inl e \<Rightarrow> Inl (Host (he_new E_INTERNAL (''Invalid URI: '' @ e)), None)
      | Inr u \<Rightarrow>
     (case switch_to_get T status (rq\<lparr>rq_headers := h, rq_url := u\<rparr>) of
        Inl e \<Rightarrow> Inl (e, None)
      | Inr rq' \<Rightarrow> Inr rq')))))))"

section \<open>One hop\<close>

text \<open>An abort can arrive before the request is handed on or while the network works on it.\<close>

datatype hop_abort = No_Abort | Abort_Before rong_js_error | Abort_During rong_js_error

record hop =
  hop_converted :: "(string \<times> string option) js_result"
  hop_observed :: "u64 option"
  hop_guard :: access_guard
  hop_abort :: hop_abort
  hop_net :: "string + http_response"
  hop_next_guard :: access_guard
  hop_next_observed :: "u64 option"

text \<open>What a fetch leaves behind: the requests that reached the transport, the reports of denied addresses, and how many
  tasks that carry an abort to the transport were started and told to stop.\<close>

record fetch_log =
  fl_sent :: "hyper_request list"
  fl_blocked :: "blocked_report list"
  fl_bridges :: nat
  fl_stopped :: nat

definition SMALL_THRESHOLD :: nat where "SMALL_THRESHOLD = 256 * 1024"

definition fetch_failed :: "http_error \<Rightarrow> rong_js_error" where
  "fetch_failed e =
     Host (with_data (err_data_object [(''detail'', ed_from_string (hx_message e))]) (with_name ''TypeError'' (he_new E_IO ''fetch failed'')))"

definition fetch_send :: "bool \<Rightarrow> hop \<Rightarrow> hyper_request \<Rightarrow> http_response js_result \<times> hyper_request list" where
  "fetch_send signal h q =
     (case (if signal then hop_abort h else No_Abort) of
        Abort_Before reason \<Rightarrow> (Inl reason, [])
      | other \<Rightarrow>
          (case send_fetch_request (hop_guard h) (\<lambda>_ _ _ _ _ _. hop_net h) None hq_uri q SMALL_THRESHOLD signal of
             (r, sent) \<Rightarrow>
               (case other of
                  Abort_During reason \<Rightarrow> (if sent = [] then map_sum fetch_failed id r else Inl reason, sent)
                | _ \<Rightarrow> (map_sum fetch_failed id r, sent))))"

text \<open>What to do with a response: hand it out, fail, or follow it.\<close>

datatype verdict = Hand_Out | Fail_With rong_js_error | Follow_To string

definition judge :: "http_types \<Rightarrow> nat \<Rightarrow> request_redirect \<Rightarrow> http_response \<Rightarrow> verdict" where
  "judge T redirect_count redirect r =
     (if \<not> is_redirect_status (rs_status r) then Hand_Out
      else
        (case redirect of
           Redirect_Error \<Rightarrow> Fail_With (type_error_host E_NETWORK ''Redirects not allowed in 'error' mode'')
         | Redirect_Manual \<Rightarrow> Hand_Out
         | Redirect_Follow \<Rightarrow>
             if MAX_REDIRECTS \<le> redirect_count
             then Fail_With (Host (with_name ''NetworkError'' (he_new E_NETWORK ''Maximum redirect count exceeded'')))
             else
               (case Option.bind (map_of (rs_headers r) ''location'') (ht_to_str T) of
                  None \<Rightarrow> Hand_Out
                | Some location \<Rightarrow> Follow_To location)))"

text \<open>The body of a response handed out; a streamed one becomes the stream \<open>i\<close> of the store.\<close>

definition fetch_body_kind :: "nat \<Rightarrow> http_body \<Rightarrow> 'v body_kind" where
  "fetch_body_kind i b =
     (case b of HB_Small bytes \<Rightarrow> BK_Buffered bytes | HB_Stream _ \<Rightarrow> BK_Channel i | HB_Empty \<Rightarrow> BK_Buffered [])"

section \<open>The loop\<close>

text \<open>One round of the loop: how it ends, the owner and the streams after it, and what it adds to the log. \<open>reason\<close> is the
  canonical reason of a status and \<open>fresh\<close> the number of the stream a streamed body becomes.\<close>

datatype 'v hop_end = Ended "'v response js_result" | Goes_On "'v request"

record 'v hop_result =
  hr_end :: "'v hop_end"
  hr_owner :: fetch_owner
  hr_streams :: streams
  hr_sent :: "hyper_request list"
  hr_blocked :: "blocked_report list"
  hr_bridges :: nat
  hr_stopped :: nat

definition after_answer ::
  "http_types \<Rightarrow> url_crates \<Rightarrow> (nat \<Rightarrow> string option) \<Rightarrow> nat \<Rightarrow> hop \<Rightarrow> nat \<Rightarrow> fetch_owner \<Rightarrow> 'v request \<Rightarrow> hyper_request \<Rightarrow>
     http_response js_result \<Rightarrow> 'v hop_end \<times> blocked_report list \<times> bool" where
  "after_answer T U reason fresh h redirect_count ow rq q answer =
     (case answer of
        Inl e \<Rightarrow> (Ended (Inl e), [], False)
      | Inr r \<Rightarrow>
          (case judge T redirect_count (rq_redirect rq) r of
             Hand_Out \<Rightarrow>
               (Ended (Inr (from_meta T reason (rs_status r) (rs_headers r) (fetch_body_kind fresh (rs_body r)) (rq_signal rq \<noteq> None)
                  (hq_method q) (hq_uri q) (0 < redirect_count) ''basic'')), [], False)
           | Fail_With e \<Rightarrow> (Ended (Inl e), [], True)
           | Follow_To location \<Rightarrow>
               (case redirect_request T U (rs_status r) location (hop_next_guard h) (hop_next_observed h) ow rq of
                  Inl (e, denied) \<Rightarrow> (Ended (Inl e), case denied of Some b \<Rightarrow> [b] | None \<Rightarrow> [], True)
                | Inr rq' \<Rightarrow> (Goes_On rq', [], True))))"

definition fetch_hop ::
  "http_types \<Rightarrow> url_crates \<Rightarrow> string \<Rightarrow> (nat \<Rightarrow> string option) \<Rightarrow> nat \<Rightarrow> hop \<Rightarrow> nat \<Rightarrow> fetch_owner \<Rightarrow> 'v request \<Rightarrow> streams \<Rightarrow> 'v hop_result" where
  "fetch_hop T U ua reason fresh h redirect_count ow rq S =
     (case to_hyper_request T ua (hop_converted h) rq S of
        (Inl e, S) \<Rightarrow>
          \<lparr>hr_end = Ended (Inl e), hr_owner = ow, hr_streams = S, hr_sent = [], hr_blocked = [], hr_bridges = 0, hr_stopped = 0\<rparr>
      | (Inr q, S) \<Rightarrow>
          let ow' = fst (fetch_tag (hop_observed h) ow);
              q = q\<lparr>hq_tag := snd (fetch_tag (hop_observed h) ow)\<rparr>;
              signal = rq_signal rq \<noteq> None;
              answered = fetch_send signal h q;
              after = after_answer T U reason fresh h redirect_count ow' rq q (fst answered) in
          \<lparr>hr_end = fst after, hr_owner = ow', hr_streams = S, hr_sent = snd answered, hr_blocked = fst (snd after),
           hr_bridges = of_bool signal, hr_stopped = of_bool (signal \<and> snd (snd after))\<rparr>)"

definition log_hop :: "'v hop_result \<Rightarrow> fetch_log \<Rightarrow> fetch_log" where
  "log_hop r lg =
     \<lparr>fl_sent = fl_sent lg @ hr_sent r, fl_blocked = fl_blocked lg @ hr_blocked r,
      fl_bridges = fl_bridges lg + hr_bridges r, fl_stopped = fl_stopped lg + hr_stopped r\<rparr>"

fun fetch_loop ::
  "http_types \<Rightarrow> url_crates \<Rightarrow> string \<Rightarrow> (nat \<Rightarrow> string option) \<Rightarrow> nat \<Rightarrow> hop list \<Rightarrow> nat \<Rightarrow> fetch_owner \<Rightarrow> 'v request \<Rightarrow> streams \<Rightarrow>
     fetch_log \<Rightarrow> 'v response js_result option \<times> fetch_log" where
  "fetch_loop T U ua reason fresh [] redirect_count ow rq S lg = (None, lg)"
| "fetch_loop T U ua reason fresh (h # hs) redirect_count ow rq S lg =
     (let r = fetch_hop T U ua reason fresh h redirect_count ow rq S in
      case hr_end r of
        Ended a \<Rightarrow> (Some a, log_hop r lg)
      | Goes_On rq' \<Rightarrow> fetch_loop T U ua reason fresh hs (redirect_count + 1) (hr_owner r) rq' (hr_streams r) (log_hop r lg))"

text \<open>The start: the request is built and its address checked before anything else. \<open>usable\<close> says whether a signal object can
  be borrowed.\<close>

definition empty_log :: fetch_log where
  "empty_log = \<lparr>fl_sent = [], fl_blocked = [], fl_bridges = 0, fl_stopped = 0\<rparr>"

record fetch_start =
  fs_owner :: "string option"
  fs_guard :: access_guard
  fs_observed :: "u64 option"
  fs_usable :: "nat \<Rightarrow> bool"

definition fetch ::
  "http_types \<Rightarrow> url_crates \<Rightarrow> string \<Rightarrow> (nat \<Rightarrow> string option) \<Rightarrow> nat \<Rightarrow> 'v request_input \<Rightarrow> 'v request_init option \<Rightarrow> fetch_start \<Rightarrow>
     hop list \<Rightarrow> streams \<Rightarrow> 'v response js_result option \<times> fetch_log" where
  "fetch T U ua reason fresh input init st hops S =
     (case request_new U S input init of
        Inl e \<Rightarrow> (Some (Inl (type_error_host E_INVALID_ARG (js_error_text e))), empty_log)
      | Inr rq \<Rightarrow>
          let ow = \<lparr>fo_owner = fs_owner st, fo_hop = None\<rparr> in
          (case request_domain rq of
             Inl e \<Rightarrow> (Some (Inl e), empty_log)
           | Inr domain \<Rightarrow>
          (case grant_network_access domain (fs_guard st) of
             Inl e \<Rightarrow>
               (Some (Inl e), empty_log\<lparr>fl_blocked :=
                  (case snd (fetch_blocked (fs_observed st) (rq_method rq) (rq_url rq) (rq_headers rq) (js_error_text e) ow) of
                     Some b \<Rightarrow> [b] | None \<Rightarrow> [])\<rparr>)
           | Inr _ \<Rightarrow>
               (case rq_signal rq of
                  Some s \<Rightarrow>
                    if \<not> fs_usable st s then (Some (Inl (type_error_host E_INVALID_ARG ''Request.signal is not usable'')), empty_log)
                    else fetch_loop T U ua reason fresh hops 0 ow rq S empty_log
                | None \<Rightarrow> fetch_loop T U ua reason fresh hops 0 ow rq S empty_log))))"

section \<open>One round\<close>

text \<open>What a round that sends knows of the request it sends.\<close>

definition guarded_by :: "hop \<Rightarrow> hyper_request \<Rightarrow> bool" where
  "guarded_by h q \<longleftrightarrow> (\<exists>host. ur_host (hq_uri q) = Some host \<and> hop_guard h host = Inr ())"

lemma to_hyper_fields:
  assumes "to_hyper_request T ua c rq S = (Inr q, S')"
  shows "hq_method q = rq_method rq" "hq_uri q = rq_url rq" "rq_body rq = None \<Longrightarrow> hq_body q = Full_Body []"
  using assms
  by (auto simp: to_hyper_request_def finish_request_def js_bind_def Let_def split: option.splits body_value.splits prod.splits bool.splits sum.splits)

lemma fetch_send_sends:
  "snd (fetch_send signal h q) = [] \<or>
   (snd (fetch_send signal h q) = [q] \<and> (\<exists>host. ur_host (hq_uri q) = Some host \<and> hop_guard h host = Inr ()))"
  using send_fetch_reaches [of "hop_guard h" "\<lambda>_ _ _ _ _ _. hop_net h" None hq_uri q SMALL_THRESHOLD signal]
  by (auto simp: fetch_send_def split: hop_abort.split prod.split if_splits)

lemma fetch_send_answers: "fst (fetch_send signal h q) = Inr r \<Longrightarrow> snd (fetch_send signal h q) = [q]"
proof -
  assume a: "fst (fetch_send signal h q) = Inr r"
  obtain x sent where p: "send_fetch_request (hop_guard h) (\<lambda>_ _ _ _ _ _. hop_net h) None hq_uri q SMALL_THRESHOLD signal = (x, sent)"
    by fastforce
  have "x = Inr r \<Longrightarrow> sent = [q]"
    using p by (auto simp: send_fetch_request_def send_defs into_parts_def Let_def split: sum.splits)
  moreover have "map_sum fetch_failed id x = Inr r \<longleftrightarrow> x = Inr r" by (cases x) auto
  ultimately show ?thesis using a p by (auto simp: fetch_send_def split: hop_abort.splits if_splits)
qed

text \<open>A round that goes on has sent its request and follows a redirect.\<close>

lemma after_goes_on:
  assumes "fst (after_answer T U reason fresh h n ow rq q answer) = Goes_On rq'"
  shows "\<exists>r location. answer = Inr r \<and> judge T n (rq_redirect rq) r = Follow_To location \<and>
    redirect_request T U (rs_status r) location (hop_next_guard h) (hop_next_observed h) ow rq = Inr rq'"
  using assms by (auto simp: after_answer_def split: sum.splits verdict.splits prod.splits)

lemma fetch_hop_sent:
  assumes "hr_sent (fetch_hop T U ua reason fresh h n ow rq S) \<noteq> []"
  shows "\<exists>q S'. to_hyper_request T ua (hop_converted h) rq S = (Inr q, S') \<and>
    hr_sent (fetch_hop T U ua reason fresh h n ow rq S) = [q\<lparr>hq_tag := snd (fetch_tag (hop_observed h) ow)\<rparr>] \<and>
    guarded_by h q"
  unfolding guarded_by_def using assms fetch_send_sends
  by (fastforce simp: fetch_hop_def Let_def split: prod.splits sum.splits)

lemma fetch_hop_goes_on:
  assumes "hr_end (fetch_hop T U ua reason fresh h n ow rq S) = Goes_On rq'"
  shows "hr_sent (fetch_hop T U ua reason fresh h n ow rq S) \<noteq> []"
    "\<exists>r location. judge T n (rq_redirect rq) r = Follow_To location \<and>
      redirect_request T U (rs_status r) location (hop_next_guard h) (hop_next_observed h) (fst (fetch_tag (hop_observed h) ow)) rq = Inr rq'"
proof -
  obtain q S' where q: "to_hyper_request T ua (hop_converted h) rq S = (Inr q, S')"
    using assms by (auto simp: fetch_hop_def split: prod.splits sum.splits)
  let ?ow = "fst (fetch_tag (hop_observed h) ow)" and ?q = "q\<lparr>hq_tag := snd (fetch_tag (hop_observed h) ow)\<rparr>"
  obtain r location where r: "fst (fetch_send (rq_signal rq \<noteq> None) h ?q) = Inr r" "judge T n (rq_redirect rq) r = Follow_To location"
    "redirect_request T U (rs_status r) location (hop_next_guard h) (hop_next_observed h) ?ow rq = Inr rq'"
    using after_goes_on [of T U reason fresh h n ?ow rq ?q "fst (fetch_send (rq_signal rq \<noteq> None) h ?q)" rq'] assms
    by (auto simp: fetch_hop_def q Let_def)
  show "hr_sent (fetch_hop T U ua reason fresh h n ow rq S) \<noteq> []"
    using fetch_send_answers [OF r(1)] by (simp add: fetch_hop_def q Let_def)
  show "\<exists>r location. judge T n (rq_redirect rq) r = Follow_To location \<and>
      redirect_request T U (rs_status r) location (hop_next_guard h) (hop_next_observed h) ?ow rq = Inr rq'"
    using r(2,3) by blast
qed

section \<open>All rounds\<close>

text \<open>The requests of a run, and what an invariant of the request object along redirects says of them.\<close>

lemma log_hop_sent [simp]: "fl_sent (log_hop r lg) = fl_sent lg @ hr_sent r"
  by (simp add: log_hop_def)

definition made_from :: "http_types \<Rightarrow> string \<Rightarrow> ('v request \<Rightarrow> bool) \<Rightarrow> hyper_request \<Rightarrow> bool" where
  "made_from T ua P q \<longleftrightarrow>
     (\<exists>rq c S q0 S' tag. P rq \<and> to_hyper_request T ua c rq S = (Inr q0, S') \<and> q = q0\<lparr>hq_tag := tag\<rparr>)"

lemma fetch_hop_made:
  assumes "q \<in> set (hr_sent (fetch_hop T U ua reason fresh h n ow rq S))" "P rq"
  shows "made_from T ua P q" "guarded_by h q"
proof -
  have "hr_sent (fetch_hop T U ua reason fresh h n ow rq S) \<noteq> []" using assms(1) by auto
  from fetch_hop_sent [OF this] obtain q0 S' where q0: "to_hyper_request T ua (hop_converted h) rq S = (Inr q0, S')"
    "hr_sent (fetch_hop T U ua reason fresh h n ow rq S) = [q0\<lparr>hq_tag := snd (fetch_tag (hop_observed h) ow)\<rparr>]"
    "guarded_by h q0"
    by (elim exE conjE) (rule that)
  have q: "q = q0\<lparr>hq_tag := snd (fetch_tag (hop_observed h) ow)\<rparr>" using assms(1) q0(2) by simp
  show "made_from T ua P q" unfolding made_from_def
    by (intro exI conjI) (rule assms(2), rule q0(1), rule q)
  show "guarded_by h q" using q0(3) by (simp add: guarded_by_def q)
qed

definition kept_by_redirects :: "http_types \<Rightarrow> url_crates \<Rightarrow> ('v request \<Rightarrow> bool) \<Rightarrow> bool" where
  "kept_by_redirects T U P \<longleftrightarrow>
     (\<forall>status location g o' ow rq rq'. P rq \<longrightarrow> redirect_request T U status location g o' ow rq = Inr rq' \<longrightarrow> P rq')"

lemma fetch_loop_sent:
  assumes "P rq" and step: "kept_by_redirects T U P"
  shows "\<exists>new. fl_sent (snd (fetch_loop T U ua reason fresh hops n ow rq S lg)) = fl_sent lg @ new \<and>
    length new \<le> length hops \<and> (n \<le> MAX_REDIRECTS \<longrightarrow> length new \<le> MAX_REDIRECTS + 1 - n) \<and>
    (\<forall>k < length new. made_from T ua P (new ! k) \<and> guarded_by (hops ! k) (new ! k))"
  using assms(1)
proof (induction hops arbitrary: n ow rq S lg)
  case (Cons h hs)
  let ?r = "fetch_hop T U ua reason fresh h n ow rq S"
  have len: "length (hr_sent ?r) \<le> 1" using fetch_hop_sent [of T U ua reason fresh h n ow rq S] by (cases "hr_sent ?r = []") auto
  have made: "\<forall>q \<in> set (hr_sent ?r). made_from T ua P q \<and> guarded_by h q"
    by (intro ballI conjI) (erule fetch_hop_made [where P = P and rq = rq, OF _ Cons.prems])+
  show ?case
  proof (cases "hr_end ?r")
    case (Ended a)
    have "made_from T ua P (hr_sent ?r ! k) \<and> guarded_by ((h # hs) ! k) (hr_sent ?r ! k)" if "k < length (hr_sent ?r)" for k
      using made len that by (cases k) auto
    then show ?thesis using Ended len by (intro exI [of _ "hr_sent ?r"]) (auto simp: Let_def)
  next
    case (Goes_On rq')
    from fetch_hop_goes_on(2) [OF Goes_On] obtain r location where j: "judge T n (rq_redirect rq) r = Follow_To location"
      and rr: "redirect_request T U (rs_status r) location (hop_next_guard h) (hop_next_observed h) (fst (fetch_tag (hop_observed h) ow)) rq = Inr rq'"
      by (elim exE conjE) (rule that)
    have "P rq'" using step [unfolded kept_by_redirects_def] Cons.prems rr by simp
    obtain q where q: "hr_sent ?r = [q]" "made_from T ua P q" "guarded_by h q"
      using fetch_hop_goes_on(1) [OF Goes_On] len made by (cases "hr_sent ?r") auto
    have n: "n < MAX_REDIRECTS" using j by (auto simp: judge_def split: if_splits request_redirect.splits option.splits)
    obtain new where new: "fl_sent (snd (fetch_loop T U ua reason fresh hs (Suc n) (hr_owner ?r) rq' (hr_streams ?r) (log_hop ?r lg))) =
        fl_sent (log_hop ?r lg) @ new" "length new \<le> length hs" "length new \<le> MAX_REDIRECTS + 1 - Suc n"
      "\<forall>k < length new. made_from T ua P (new ! k) \<and> guarded_by (hs ! k) (new ! k)"
      using Cons.IH [OF \<open>P rq'\<close>, of "Suc n" "hr_owner ?r" "hr_streams ?r" "log_hop ?r lg"] n by auto
    have "made_from T ua P ((q # new) ! k) \<and> guarded_by ((h # hs) ! k) ((q # new) ! k)" if "k < length (q # new)" for k
      using q(2,3) new(4) that by (cases k) auto
    moreover have "length (q # new) \<le> MAX_REDIRECTS + 1 - n" using new(3) n by simp
    moreover have "fl_sent (snd (fetch_loop T U ua reason fresh (h # hs) n ow rq S lg)) = fl_sent lg @ (q # new)"
      using new(1) q(1) Goes_On by (simp add: Let_def)
    ultimately show ?thesis using new(2) by (intro exI [of _ "q # new"]) auto
  qed
qed simp

text \<open>The rest of a fetch only adds the checks that come before the loop.\<close>

lemma fetch_cases:
  obtains (early) e lg where "fetch T U ua reason fresh input init st hops S = (Some (Inl e), lg)" "fl_sent lg = []" "fl_bridges lg = 0" "fl_stopped lg = 0"
  | (looping) rq where "request_new U S input init = Inr rq"
      "fetch T U ua reason fresh input init st hops S =
         fetch_loop T U ua reason fresh hops 0 \<lparr>fo_owner = fs_owner st, fo_hop = None\<rparr> rq S empty_log"
proof (cases "request_new U S input init")
  case (Inl e)
  then show ?thesis using that(1) by (simp add: fetch_def empty_log_def)
next
  case (Inr rq)
  show ?thesis
  proof (cases "request_domain rq")
    case (Inl e)
    then show ?thesis using that(1) Inr by (simp add: fetch_def empty_log_def Let_def)
  next
    case (Inr domain)
    note dom = this
    show ?thesis
    proof (cases "grant_network_access domain (fs_guard st)")
      case (Inl e)
      then show ?thesis using that(1) \<open>request_new U S input init = Inr rq\<close> dom by (simp add: fetch_def empty_log_def Let_def)
    next
      case (Inr u)
      then show ?thesis
        using that \<open>request_new U S input init = Inr rq\<close> dom
        by (cases "rq_signal rq"; cases "fs_usable st (the (rq_signal rq))") (simp_all add: fetch_def empty_log_def Let_def)
    qed
  qed
qed

lemma fetch_made:
  assumes "request_new U S input init = Inr rq" "P rq"
    "kept_by_redirects T U P" "q \<in> set (fl_sent (snd (fetch T U ua reason fresh input init st hops S)))"
  shows "made_from T ua P q"
proof (cases rule: fetch_cases [of T U ua reason fresh input init st hops S])
  case (looping rq1)
  have "P rq1" using looping(1) assms(1,2) by simp
  from fetch_loop_sent [where P = P and T = T and U = U and rq = rq1 and hops = hops and n = 0 and S = S and lg = empty_log, OF this assms(3)]
  obtain new where "fl_sent (snd (fetch T U ua reason fresh input init st hops S)) = fl_sent empty_log @ new"
    "\<forall>k < length new. made_from T ua P (new ! k)"
    unfolding looping(2) by blast
  then show ?thesis using assms(4) by (auto simp: empty_log_def in_set_conv_nth)
qed (use assms(4) in simp)

text \<open>
  C25. Nothing a script fetches leaves the process unless the guard in force at that moment allows its host: every request
  that reaches the network, the first as well as those of redirects, has a host, and the guard installed when it is
  sent allows that host. A fetch sends at most twenty-one requests, however the servers redirect it.\<close>

theorem fetch_respects_guard:
  "let sent = fl_sent (snd (fetch T U ua reason fresh input init st hops S)) in
     length sent \<le> MAX_REDIRECTS + 1 \<and>
     (\<forall>k < length sent. \<exists>host. ur_host (hq_uri (sent ! k)) = Some host \<and> hop_guard (hops ! k) host = Inr ())"
proof (cases rule: fetch_cases [of T U ua reason fresh input init st hops S])
  case (looping rq)
  then show ?thesis
    using fetch_loop_sent [of "\<lambda>_. True" rq T U ua reason fresh hops 0 "\<lparr>fo_owner = fs_owner st, fo_hop = None\<rparr>" S empty_log]
    by (auto simp: Let_def guarded_by_def empty_log_def kept_by_redirects_def)
qed (simp add: Let_def)

section \<open>Headers along redirects\<close>

lemma hd_delete_result: "hd_delete T n h = Inr h' \<Longrightarrow> (\<forall>m. h' m \<noteq> None \<longrightarrow> h' m = h m) \<and> (ht_name T n = Some n \<longrightarrow> h' n = None)"
  by (auto simp: hd_delete_def header_error_def hm_remove_def split: option.splits if_splits)

lemma delete_headers_result:
  "delete_headers T ns h = Inr h' \<Longrightarrow>
     (\<forall>m. h' m \<noteq> None \<longrightarrow> h' m = h m) \<and> (\<forall>n \<in> set ns. ht_name T n = Some n \<longrightarrow> h' n = None)"
proof (induction ns arbitrary: h)
  case (Cons n ns)
  then obtain h1 where h1: "hd_delete T n h = Inr h1" "delete_headers T ns h1 = Inr h'"
    by (auto simp: js_bind_def split: sum.splits)
  show ?case using hd_delete_result [OF h1(1)] Cons.IH [OF h1(2)] by (metis set_ConsD)
qed simp

lemma append_all_dom: "fold (\<lambda>(k, v). hm_append k v) nvs h n \<noteq> None \<Longrightarrow> h n \<noteq> None \<or> n \<in> fst ` set nvs"
proof (induction nvs arbitrary: h)
  case (Cons nv nvs)
  then show ?case using Cons.IH [of "hm_append (fst nv) (snd nv) h"] by (cases nv) (auto simp: hm_append_def split: if_splits)
qed simp

lemma iter_names: "n \<in> fst ` set (hm_iter T h) \<Longrightarrow> h n \<noteq> None"
  by (cases "h n") (auto simp: hm_iter_def hm_get_all_def split: option.splits)

definition OWN_HEADERS :: "string set" where
  "OWN_HEADERS = {''user-agent'', ''accept'', ''accept-encoding'', ''content-type''}"

lemma builder_headers_dom: "builder_headers T ua h = Some h' \<Longrightarrow> h' n \<noteq> None \<Longrightarrow> n \<in> OWN_HEADERS \<or> h n \<noteq> None"
  using append_all_dom [of "hm_iter T h" _ n] iter_names [of n T h]
  by (fastforce simp: builder_headers_def OWN_HEADERS_def hm_append_def split: if_splits)

lemma insert_boundary_dom:
  "insert_boundary T b h = Inr h' \<Longrightarrow> h' = Some g \<Longrightarrow> g n \<noteq> None \<Longrightarrow> n \<in> OWN_HEADERS \<or> (\<exists>f. h = Some f \<and> f n \<noteq> None)"
  by (auto simp: insert_boundary_def OWN_HEADERS_def hm_insert_def split: option.splits if_splits)

lemma finish_request_headers: "finish_request h b rq = Inr q \<Longrightarrow> h = Some (hq_headers q)"
  by (auto simp: finish_request_def split: option.splits)

lemma to_hyper_headers:
  assumes "to_hyper_request T ua c rq S = (Inr q, S')" "hq_headers q n \<noteq> None" "n \<notin> OWN_HEADERS"
  shows "rq_headers rq n \<noteq> None"
proof -
  obtain h where h: "builder_headers T ua (rq_headers rq) = Some h" "h n \<noteq> None"
  proof -
    have "\<exists>h. builder_headers T ua (rq_headers rq) = Some h \<and> h n \<noteq> None"
      using assms finish_request_headers insert_boundary_dom
      by (fastforce simp: to_hyper_request_def js_bind_def Let_def split: option.splits body_value.splits prod.splits bool.splits sum.splits)
    then show thesis using that by blast
  qed
  then show ?thesis using builder_headers_dom assms(3) by blast
qed

text \<open>What a followed redirect does to the request.\<close>

lemma redirect_request_facts:
  assumes "redirect_request T U status location g o' ow rq = Inr rq'"
  shows "\<exists>base next h u. uc_parse U (ur_text (rq_url rq)) = Inr base \<and> uc_join U base location = Inr next \<and>
    strip_credentials T base next (rq_headers rq) = Inr h \<and> uc_uri U (pu_text next) = Inr u \<and>
    switch_to_get T status (rq\<lparr>rq_headers := h, rq_url := u\<rparr>) = Inr rq'"
  using assms by (auto simp: redirect_request_def split: sum.splits if_splits option.splits)

lemma switch_to_get_facts:
  assumes "switch_to_get T status rq = Inr rq'"
  shows "rq_url rq' = rq_url rq" "\<And>n. rq_headers rq' n \<noteq> None \<Longrightarrow> rq_headers rq n \<noteq> None"
    "rq_signal rq' = rq_signal rq" "rq_redirect rq' = rq_redirect rq"
    "rq_method rq' = (if should_switch_to_get status (rq_method rq) then ''GET'' else rq_method rq)"
    "rq_body rq' = (if should_switch_to_get status (rq_method rq) then None else rq_body rq)"
proof -
  consider "\<not> should_switch_to_get status (rq_method rq)" "rq' = rq"
    | h where "should_switch_to_get status (rq_method rq)" "rq' = rq\<lparr>rq_method := ''GET'', rq_body := None, rq_headers := h\<rparr>"
        "delete_headers T [''content-length'', ''content-type'', ''transfer-encoding''] (rq_headers rq) = Inr h"
    using assms
    by (cases "delete_headers T [''content-length'', ''content-type'', ''transfer-encoding''] (rq_headers rq)")
      (auto simp: switch_to_get_def split: if_splits)
  note c = this
  show "rq_headers rq n \<noteq> None" if "rq_headers rq' n \<noteq> None" for n
    using c by cases (use that delete_headers_result in fastforce)+
  show "rq_url rq' = rq_url rq" "rq_signal rq' = rq_signal rq" "rq_redirect rq' = rq_redirect rq"
    "rq_method rq' = (if should_switch_to_get status (rq_method rq) then ''GET'' else rq_method rq)"
    "rq_body rq' = (if should_switch_to_get status (rq_method rq) then None else rq_body rq)"
    using c by (cases; simp)+
qed

section \<open>What follows\<close>

definition fetch_origin :: "url_crates \<Rightarrow> uri \<Rightarrow> (string option \<times> nat option) option" where
  "fetch_origin U u = (case uc_parse U (ur_text u) of Inl _ \<Rightarrow> None | Inr p \<Rightarrow> Some (pu_host p, pu_port p))"

text \<open>The documented behaviour this rests on: a resolved URL that is printed and read again, as a URI and as a URL, keeps its
  host and port; names of headers in lower case are their own canonical spelling.\<close>

definition urls_reparse :: "url_crates \<Rightarrow> bool" where
  "urls_reparse U \<longleftrightarrow>
     (\<forall>b l p u. uc_join U b l = Inr p \<and> uc_uri U (pu_text p) = Inr u \<longrightarrow> fetch_origin U u = Some (pu_host p, pu_port p))"

definition lower_names_plain :: "http_types \<Rightarrow> bool" where
  "lower_names_plain T \<longleftrightarrow> (\<forall>n \<in> set CREDENTIALS. ht_name T n = Some n)"

definition credentials_at :: "url_crates \<Rightarrow> (string option \<times> nat option) option \<Rightarrow> 'v request \<Rightarrow> bool" where
  "credentials_at U o0 rq \<longleftrightarrow> (\<forall>n \<in> set CREDENTIALS. rq_headers rq n \<noteq> None \<longrightarrow> fetch_origin U (rq_url rq) = o0)"

lemma credentials_at_step:
  assumes "urls_reparse U" "lower_names_plain T" "credentials_at U o0 rq" "redirect_request T U status location g o' ow rq = Inr rq'"
  shows "credentials_at U o0 rq'"
proof -
  obtain base nxt h u where f: "uc_parse U (ur_text (rq_url rq)) = Inr base" "uc_join U base location = Inr nxt"
    "strip_credentials T base nxt (rq_headers rq) = Inr h" "uc_uri U (pu_text nxt) = Inr u"
    "switch_to_get T status (rq\<lparr>rq_headers := h, rq_url := u\<rparr>) = Inr rq'"
    using redirect_request_facts [OF assms(4)] by (elim exE conjE) (rule that)
  have url: "rq_url rq' = u" and hd: "\<And>n. rq_headers rq' n \<noteq> None \<Longrightarrow> h n \<noteq> None"
    using switch_to_get_facts(1,2) [OF f(5)] by simp_all
  have org: "fetch_origin U u = Some (pu_host nxt, pu_port nxt)" using assms(1) f(2,4) by (auto simp: urls_reparse_def)
  show ?thesis
  proof (cases "cross_host base nxt")
    case True
    then have none: "h n = None" if "n \<in> set CREDENTIALS" for n
      using f(3) that assms(2) delete_headers_result [of T CREDENTIALS "rq_headers rq" h]
      by (auto simp: strip_credentials_def lower_names_plain_def)
    have "rq_headers rq' n = None" if "n \<in> set CREDENTIALS" for n
      using hd [of n] none [OF that] by (cases "rq_headers rq' n") simp_all
    then show ?thesis by (simp add: credentials_at_def)
  next
    case False
    then have "h = rq_headers rq" "fetch_origin U (rq_url rq) = fetch_origin U u"
      using f(1,3) org by (simp_all add: strip_credentials_def cross_host_def fetch_origin_def)
    then show ?thesis using assms(3) hd url by (auto simp: credentials_at_def)
  qed
qed

lemma credentials_kept: "urls_reparse U \<Longrightarrow> lower_names_plain T \<Longrightarrow> kept_by_redirects T U (credentials_at U o0)"
  unfolding kept_by_redirects_def by (intro allI impI) (rule credentials_at_step)

lemma credentials_not_own: "n \<in> set CREDENTIALS \<Longrightarrow> n \<notin> OWN_HEADERS"
  by (auto simp: CREDENTIALS_def OWN_HEADERS_def)

text \<open>
  C26. Credentials stay at home: whatever chain of redirects the servers send a fetch along, a request that reaches the
  network with an authorization, a proxy authorization, a cookie or a host header goes to the host and port the
  script asked for.\<close>

theorem credentials_stay_home:
  fixes rq :: "'v request"
  assumes "urls_reparse U" "lower_names_plain T" "request_new U S input init = Inr rq"
    "q \<in> set (fl_sent (snd (fetch T U ua reason fresh input init st hops S)))" "n \<in> set CREDENTIALS" "hq_headers q n \<noteq> None"
  shows "fetch_origin U (hq_uri q) = fetch_origin U (rq_url rq)"
proof -
  let ?P = "credentials_at U (fetch_origin U (rq_url rq)) :: 'v request \<Rightarrow> bool"
  have "made_from T ua ?P q"
    by (rule fetch_made [OF assms(3) _ credentials_kept [OF assms(1,2)] assms(4)]) (simp add: credentials_at_def)
  then obtain rq2 c S2 q0 S3 tag where m: "?P rq2" "to_hyper_request T ua c rq2 S2 = (Inr q0, S3)" "q = q0\<lparr>hq_tag := tag\<rparr>"
    unfolding made_from_def by (elim exE conjE) (rule that)
  have "rq_headers rq2 n \<noteq> None"
    using to_hyper_headers [OF m(2)] assms(5,6) credentials_not_own m(3) by simp
  then have "fetch_origin U (rq_url rq2) = fetch_origin U (rq_url rq)"
    using m(1) assms(5) by (auto simp: credentials_at_def)
  then show ?thesis using to_hyper_fields(2) [OF m(2)] m(3) by simp
qed

text \<open>A body never travels with GET or HEAD, along redirects as little as at the start.\<close>

lemma body_allowed_kept: "kept_by_redirects T U body_allowed"
  unfolding kept_by_redirects_def
proof (intro allI impI)
  fix status location g o' ow rq rq'
  assume ok: "body_allowed rq" and r: "redirect_request T U status location g o' ow rq = Inr rq'"
  obtain h u where "switch_to_get T status (rq\<lparr>rq_headers := h, rq_url := u\<rparr>) = Inr rq'"
    using redirect_request_facts [OF r] by (elim exE conjE) (rule that)
  from switch_to_get_facts(5,6) [OF this] show "body_allowed rq'" using ok by (simp add: body_allowed_def)
qed

lemma made_ok_body: "made_from T ua body_allowed q \<Longrightarrow> hq_method q \<in> {''GET'', ''HEAD''} \<Longrightarrow> hq_body q = Full_Body []"
  unfolding made_from_def using to_hyper_fields by (fastforce simp: body_allowed_def)

text \<open>What the last round tells of a response.\<close>

lemma fetch_hop_response:
  assumes "hr_end (fetch_hop T U ua reason fresh h n ow rq S) = Ended (Inr rp)"
  shows "\<exists>q. hr_sent (fetch_hop T U ua reason fresh h n ow rq S) = [q] \<and> rp_url rp = hq_uri q \<and> rp_method rp = hq_method q \<and>
    rp_redirected rp = (0 < n) \<and> hr_bridges (fetch_hop T U ua reason fresh h n ow rq S) = hr_stopped (fetch_hop T U ua reason fresh h n ow rq S) + of_bool (rp_abort rp)"
proof -
  obtain q S' where q: "to_hyper_request T ua (hop_converted h) rq S = (Inr q, S')"
    using assms by (auto simp: fetch_hop_def split: prod.splits sum.splits)
  let ?ow = "fst (fetch_tag (hop_observed h) ow)" and ?q = "q\<lparr>hq_tag := snd (fetch_tag (hop_observed h) ow)\<rparr>"
  let ?a = "fetch_send (rq_signal rq \<noteq> None) h ?q"
  have a: "fst (after_answer T U reason fresh h n ?ow rq ?q (fst ?a)) = Ended (Inr rp)"
    using assms by (simp add: fetch_hop_def q Let_def)
  then obtain r where r: "fst ?a = Inr r" by (cases "fst ?a") (auto simp: after_answer_def)
  have j: "judge T n (rq_redirect rq) r = Hand_Out"
    using a [unfolded r] by (auto simp: after_answer_def split: verdict.splits sum.splits prod.splits)
  show ?thesis
    using a fetch_send_answers [OF r]
    by (intro exI [of _ ?q]) (auto simp: fetch_hop_def q Let_def after_answer_def r j from_meta_def response_default_def simp del: not_None_eq)
qed

lemma fetch_hop_on:
  assumes "hr_end (fetch_hop T U ua reason fresh h n ow rq S) = Goes_On rq'"
  shows "length (hr_sent (fetch_hop T U ua reason fresh h n ow rq S)) = 1"
    "hr_bridges (fetch_hop T U ua reason fresh h n ow rq S) = hr_stopped (fetch_hop T U ua reason fresh h n ow rq S)"
proof -
  show "length (hr_sent (fetch_hop T U ua reason fresh h n ow rq S)) = 1"
    using fetch_hop_sent [OF fetch_hop_goes_on(1) [OF assms]] by auto
  show "hr_bridges (fetch_hop T U ua reason fresh h n ow rq S) = hr_stopped (fetch_hop T U ua reason fresh h n ow rq S)"
    using assms by (auto simp: fetch_hop_def Let_def after_answer_def split: prod.splits sum.splits verdict.splits)
qed

lemma log_hop_bridges [simp]:
  "fl_bridges (log_hop r lg) = fl_bridges lg + hr_bridges r" "fl_stopped (log_hop r lg) = fl_stopped lg + hr_stopped r"
  by (simp_all add: log_hop_def)

lemma fetch_loop_response:
  "fst (fetch_loop T U ua reason fresh hops n ow rq S lg) = Some (Inr rp) \<Longrightarrow> length (fl_sent lg) = n \<Longrightarrow> fl_bridges lg = fl_stopped lg \<Longrightarrow>
   (let lg' = snd (fetch_loop T U ua reason fresh hops n ow rq S lg) in
     fl_sent lg' \<noteq> [] \<and> rp_url rp = hq_uri (last (fl_sent lg')) \<and> rp_method rp = hq_method (last (fl_sent lg')) \<and>
     rp_redirected rp = (1 < length (fl_sent lg')) \<and> fl_bridges lg' = fl_stopped lg' + of_bool (rp_abort rp))"
proof (induction hops arbitrary: n ow rq S lg)
  case (Cons h hs)
  let ?r = "fetch_hop T U ua reason fresh h n ow rq S"
  show ?case
  proof (cases "hr_end ?r")
    case (Ended a)
    then have "hr_end ?r = Ended (Inr rp)" using Cons.prems(1) by (simp add: Let_def)
    from fetch_hop_response [OF this] show ?thesis using Cons.prems Ended by (auto simp: Let_def)
  next
    case (Goes_On rq')
    have "length (fl_sent (log_hop ?r lg)) = n + 1" "fl_bridges (log_hop ?r lg) = fl_stopped (log_hop ?r lg)"
      using fetch_hop_on [OF Goes_On] Cons.prems(2,3) by simp_all
    then show ?thesis using Cons.IH [of "n + 1" "hr_owner ?r" rq' "hr_streams ?r" "log_hop ?r lg"] Cons.prems(1) Goes_On by (simp add: Let_def)
  qed
qed simp

text \<open>
  The response of a fetch speaks of the request it answers: its address and method are those of the last request that was
  sent, it calls itself redirected exactly when there was more than one, a request with method GET or HEAD went out
  without a body at every hop, and of the tasks that carry an abort to the network all but the one of this response
  have been told to stop.\<close>

theorem fetch_response_faithful:
  assumes "fst (fetch T U ua reason fresh input init st hops S) = Some (Inr rp)"
  shows "let lg = snd (fetch T U ua reason fresh input init st hops S) in
     fl_sent lg \<noteq> [] \<and> rp_url rp = hq_uri (last (fl_sent lg)) \<and> rp_method rp = hq_method (last (fl_sent lg)) \<and>
     rp_redirected rp = (1 < length (fl_sent lg)) \<and>
     (\<forall>q \<in> set (fl_sent lg). hq_method q \<in> {''GET'', ''HEAD''} \<longrightarrow> hq_body q = Full_Body []) \<and>
     fl_bridges lg = fl_stopped lg + of_bool (rp_abort rp)"
proof (cases rule: fetch_cases [of T U ua reason fresh input init st hops S])
  case (looping rq)
  have "\<forall>q \<in> set (fl_sent (snd (fetch T U ua reason fresh input init st hops S))). hq_method q \<in> {''GET'', ''HEAD''} \<longrightarrow> hq_body q = Full_Body []"
    using made_ok_body fetch_made [OF looping(1) request_new_allowed [OF looping(1)] body_allowed_kept] by blast
  then show ?thesis
    using fetch_loop_response [of T U ua reason fresh hops 0 "\<lparr>fo_owner = fs_owner st, fo_hop = None\<rparr>" rq S empty_log rp] assms
    by (simp add: looping(2) Let_def empty_log_def)
qed (use assms in simp)

section \<open>A redirected fetch\<close>

definition demo_hop :: "nat \<Rightarrow> (string \<times> string) list \<Rightarrow> hop" where
  "demo_hop status headers =
     \<lparr>hop_converted = Inr ([], None), hop_observed = None, hop_guard = (\<lambda>_. Inr ()), hop_abort = No_Abort,
      hop_net = Inr \<lparr>rs_status = status, rs_headers = headers, rs_body = HB_Empty\<rparr>, hop_next_guard = (\<lambda>_. Inr ()),
      hop_next_observed = None\<rparr>"

definition demo_init :: "unit request_init" where
  "demo_init =
     \<lparr>in_method = None, in_headers = Some [''authorization'' \<mapsto> [''secret'']], in_body = None, in_redirect = None, in_signal = None\<rparr>"

definition demo_types :: http_types where
  "demo_types = \<lparr>ht_name = Some, ht_value = Some, ht_to_str = Some, ht_order = (\<lambda>m. filter (\<lambda>n. m n \<noteq> None) [''authorization''])\<rparr>"

definition demo_fetch :: "unit response js_result option \<times> fetch_log" where
  "demo_fetch =
     fetch demo_types plain_crates ''agent'' (\<lambda>_. None) 0 (Input_Url ''a'') (Some demo_init)
       \<lparr>fs_owner = None, fs_guard = (\<lambda>_. Inr ()), fs_observed = None, fs_usable = (\<lambda>_. True)\<rparr>
       [demo_hop 302 [(''location'', ''b'')], demo_hop 200 []] (\<lambda>_. rs_constructor False)"

definition demo_request :: "string \<Rightarrow> header_map \<Rightarrow> unit request" where
  "demo_request url h = request_default\<lparr>rq_url := \<lparr>ur_text = url, ur_host = Some url\<rparr>, rq_headers := h\<rparr>"

definition demo_secret :: header_map where "demo_secret = [''authorization'' \<mapsto> [''secret'']]"

lemma demo_new: "request_new plain_crates (\<lambda>_. rs_constructor False) (Input_Url ''a'') (Some demo_init) = Inr (demo_request ''a'' demo_secret)"
  by (simp add: request_new_def input_request_def parse_url_def plain_crates_def demo_init_def assign_request_def js_bind_def
      has_body_def request_default_def demo_request_def demo_secret_def Let_def)

lemma demo_redirect:
  "redirect_request demo_types plain_crates 302 ''b'' (\<lambda>_. Inr ()) None ow (demo_request ''a'' demo_secret) = Inr (demo_request ''b'' Map.empty)"
  by (simp add: redirect_request_def plain_crates_def demo_request_def request_default_def strip_credentials_def cross_host_def
      CREDENTIALS_def hd_delete_def hm_remove_def js_bind_def demo_types_def grant_network_access_def switch_to_get_def
      should_switch_to_get_def demo_secret_def)

lemma demo_hyper:
  "to_hyper_request demo_types ''agent'' c (demo_request url h) S =
     (Inr \<lparr>hq_method = ''GET'', hq_uri = \<lparr>ur_text = url, ur_host = Some url\<rparr>, hq_headers = the (builder_headers demo_types ''agent'' h),
        hq_body = Full_Body [], hq_tag = None\<rparr>, S)"
  by (simp add: to_hyper_request_def demo_request_def request_default_def finish_request_def builder_headers_def demo_types_def)

lemma demo_hop_result:
  "fetch_hop demo_types plain_crates ''agent'' (\<lambda>_. None) 0 (demo_hop status headers) n ow (demo_request url h) S =
     (let q = \<lparr>hq_method = ''GET'', hq_uri = \<lparr>ur_text = url, ur_host = Some url\<rparr>, hq_headers = the (builder_headers demo_types ''agent'' h),
                hq_body = Full_Body [], hq_tag = None\<rparr>;
          after = after_answer demo_types plain_crates (\<lambda>_. None) 0 (demo_hop status headers) n (ow\<lparr>fo_hop := None\<rparr>) (demo_request url h) q
                    (Inr \<lparr>rs_status = status, rs_headers = headers, rs_body = HB_Empty\<rparr>) in
      \<lparr>hr_end = fst after, hr_owner = ow\<lparr>fo_hop := None\<rparr>, hr_streams = S, hr_sent = [q], hr_blocked = fst (snd after),
       hr_bridges = 0, hr_stopped = 0\<rparr>)"
proof -
  have s: "rq_signal (demo_request url h) = None" by (simp add: demo_request_def request_default_def)
  have f: "fetch_send False (demo_hop status headers) q = (Inr \<lparr>rs_status = status, rs_headers = headers, rs_body = HB_Empty\<rparr>, [q])"
    if "ur_host (hq_uri q) = Some x" for q x
    using that by (simp add: fetch_send_def demo_hop_def send_fetch_request_def send_defs into_parts_def effective_guard_def
        with_network_access_guard_def with_abort_opt_def request_options_new_def check_network_access_def
        fetch_network_access_guard_def grant_network_access_def Let_def)
  show ?thesis by (simp add: fetch_hop_def demo_hyper s f fetch_tag_def Let_def) (simp add: demo_hop_def)
qed

lemma demo_judge:
  "judge demo_types 0 Redirect_Follow \<lparr>rs_status = 302, rs_headers = [(''location'', ''b'')], rs_body = HB_Empty\<rparr> = Follow_To ''b''"
  "judge demo_types n Redirect_Follow \<lparr>rs_status = 200, rs_headers = [], rs_body = HB_Empty\<rparr> = Hand_Out"
  by (simp_all add: judge_def is_redirect_status_def MAX_REDIRECTS_def demo_types_def)

definition demo_sent :: "string \<Rightarrow> header_map \<Rightarrow> hyper_request" where
  "demo_sent url h =
     \<lparr>hq_method = ''GET'', hq_uri = \<lparr>ur_text = url, ur_host = Some url\<rparr>, hq_headers = the (builder_headers demo_types ''agent'' h),
      hq_body = Full_Body [], hq_tag = None\<rparr>"

lemma demo_fetch_run:
  "fl_sent (snd demo_fetch) = [demo_sent ''a'' demo_secret, demo_sent ''b'' Map.empty] \<and> (\<exists>rp. fst demo_fetch = Some (Inr rp))"
proof -
  have e: "hop_next_guard (demo_hop s hs) = (\<lambda>_. Inr ())" "hop_next_observed (demo_hop s hs) = None"
    "rq_redirect (demo_request url h) = Redirect_Follow" for s hs url h
    by (simp_all add: demo_hop_def demo_request_def request_default_def)
  have one: "after_answer demo_types plain_crates (\<lambda>_. None) 0 (demo_hop 302 [(''location'', ''b'')]) 0 ow (demo_request ''a'' demo_secret) q
      (Inr \<lparr>rs_status = 302, rs_headers = [(''location'', ''b'')], rs_body = HB_Empty\<rparr>) = (Goes_On (demo_request ''b'' Map.empty), [], True)" for ow q
    by (simp add: after_answer_def e demo_judge demo_redirect)
  have two: "\<exists>rp. fst (after_answer demo_types plain_crates (\<lambda>_. None) 0 (demo_hop 200 []) n ow (demo_request ''b'' Map.empty) q
      (Inr \<lparr>rs_status = 200, rs_headers = [], rs_body = HB_Empty\<rparr>)) = Ended (Inr rp)" for n ow q
    by (simp add: after_answer_def e demo_judge)
  have three: "\<exists>rp. hr_end (fetch_hop demo_types plain_crates ''agent'' (\<lambda>_. None) 0 (demo_hop 200 []) n ow (demo_request ''b'' Map.empty) S) = Ended (Inr rp)" for n ow S
    using two by (simp add: demo_hop_result Let_def)
  have start: "request_domain (demo_request ''a'' demo_secret) = Inr ''a''" "rq_signal (demo_request ''a'' demo_secret) = None"
    by (simp_all add: request_domain_def demo_request_def request_default_def)
  obtain rp where rp: "hr_end (fetch_hop demo_types plain_crates ''agent'' (\<lambda>_. None) 0 (demo_hop 200 []) 1 \<lparr>fo_owner = None, fo_hop = None\<rparr>
      (demo_request ''b'' Map.empty) (\<lambda>_. rs_constructor False)) = Ended (Inr rp)"
    using three by blast
  have sent: "hr_sent (fetch_hop demo_types plain_crates ''agent'' (\<lambda>_. None) 0 (demo_hop 200 []) n ow (demo_request ''b'' Map.empty) S) =
      [demo_sent ''b'' Map.empty]" for n ow S
    by (simp add: demo_hop_result Let_def demo_sent_def)
  let ?r = "fetch_hop demo_types plain_crates ''agent'' (\<lambda>_. None) 0 (demo_hop 302 [(''location'', ''b'')]) 0 \<lparr>fo_owner = None, fo_hop = None\<rparr>
      (demo_request ''a'' demo_secret) (\<lambda>_. rs_constructor False)"
  have first: "hr_end ?r = Goes_On (demo_request ''b'' Map.empty)" "hr_owner ?r = \<lparr>fo_owner = None, fo_hop = None\<rparr>"
    "hr_streams ?r = (\<lambda>_. rs_constructor False)" "hr_sent ?r = [demo_sent ''a'' demo_secret]"
    by (simp_all add: demo_hop_result one demo_sent_def Let_def)
  show ?thesis
    using rp by (simp add: demo_fetch_def fetch_def demo_new start grant_network_access_def first sent Let_def empty_log_def)
qed

lemma demo_assumptions: "urls_reparse plain_crates" "lower_names_plain demo_types"
  by (auto simp: urls_reparse_def plain_crates_def fetch_origin_def lower_names_plain_def demo_types_def)

theorem fetch_respects_guard_witness:
  "\<exists>host. ur_host (hq_uri (fl_sent (snd demo_fetch) ! 1)) = Some host \<and> hop_guard (demo_hop 200 []) host = Inr ()"
  using fetch_respects_guard [of demo_types plain_crates "''agent''" "\<lambda>_. None" 0 "Input_Url ''a''" "Some demo_init"
      "\<lparr>fs_owner = None, fs_guard = (\<lambda>_. Inr ()), fs_observed = None, fs_usable = (\<lambda>_. True)\<rparr>"
      "[demo_hop 302 [(''location'', ''b'')], demo_hop 200 []]" "\<lambda>_. rs_constructor False"] demo_fetch_run
  unfolding demo_fetch_def [symmetric] by (auto simp: Let_def)

theorem credentials_stay_home_witness:
  "\<exists>q \<in> set (fl_sent (snd demo_fetch)). hq_headers q ''authorization'' \<noteq> None \<and> fetch_origin plain_crates (hq_uri q) = Some (Some ''a'', Some 80)"
proof -
  have q: "demo_sent ''a'' demo_secret \<in> set (fl_sent (snd demo_fetch))" using demo_fetch_run by simp
  have h: "hq_headers (demo_sent ''a'' demo_secret) ''authorization'' \<noteq> None"
    by (simp add: demo_sent_def builder_headers_def demo_types_def demo_secret_def hm_iter_def hm_append_def hm_get_all_def)
  have "fetch_origin plain_crates (hq_uri (demo_sent ''a'' demo_secret)) = fetch_origin plain_crates (rq_url (demo_request ''a'' demo_secret))"
    using credentials_stay_home [OF demo_assumptions demo_new q [unfolded demo_fetch_def] _ h] by (simp add: CREDENTIALS_def)
  also have "\<dots> = Some (Some ''a'', Some 80)"
    by (simp add: fetch_origin_def plain_crates_def demo_request_def request_default_def)
  finally show ?thesis using q h by blast
qed

theorem fetch_response_faithful_witness:
  "\<exists>rp. fst demo_fetch = Some (Inr rp) \<and> rp_redirected rp \<and> ur_text (rp_url rp) = ''b''"
proof -
  obtain rp where rp: "fst demo_fetch = Some (Inr rp)" using demo_fetch_run by blast
  have "rp_url rp = hq_uri (last (fl_sent (snd demo_fetch)))" "rp_redirected rp = (1 < length (fl_sent (snd demo_fetch)))"
    using fetch_response_faithful [OF rp [unfolded demo_fetch_def]] unfolding demo_fetch_def [symmetric] by (simp_all add: Let_def)
  then show ?thesis using rp demo_fetch_run by (simp add: demo_sent_def)
qed

end
