(* ===== verification/Form_Data.thy ===== *)
theory Form_Data
  imports Multimap Rust_String Js_Value "HOL-Library.Sublist"
begin

text \<open>
  Blobs and files (\<^verbatim>\<open>modules/rong_buffer/src/blob.rs\<close>, \<^verbatim>\<open>file.rs\<close>) and forms (\<^verbatim>\<open>modules/rong_http/src/formdata.rs\<close>): the entries
  of a form, a third implementation of \<open>Multimap\<close>, and their multipart encoding, written and read byte by byte. The boundary
  and the clock are parameters.
\<close>

section \<open>Blobs\<close>

record blob =
  bl_mime :: string
  bl_data :: string

text \<open>A part of a new blob, as the engine shows it; the line endings of a string are rewritten on request.\<close>

datatype blob_part = Part_Bytes string | Part_Detached | Part_String string | Part_Other

fun native_endings :: "string \<Rightarrow> string" where
  "native_endings [] = []"
| "native_endings (c # s) =
     (if c = CHR 0x0D then CHR 0x0A # (case s of d # r \<Rightarrow> if d = CHR 0x0A then native_endings r else native_endings s | [] \<Rightarrow> [])
      else c # native_endings s)"

fun process_blob_part :: "bool \<Rightarrow> blob_part js_result list \<Rightarrow> string \<Rightarrow> string js_result" where
  "process_blob_part native [] out = Inr out"
| "process_blob_part native (Inl e # ps) out = Inl e"
| "process_blob_part native (Inr p # ps) out =
     (case p of
        Part_Bytes b \<Rightarrow> process_blob_part native ps (out @ b)
      | Part_Detached \<Rightarrow> process_blob_part native ps out
      | Part_String s \<Rightarrow> process_blob_part native ps (out @ (if native then native_endings s else s))
      | Part_Other \<Rightarrow> Inl (Host (with_name ''TypeError'' (he_new E_INVALID_ARG ''Unsupported Blob part type''))))"

text \<open>The range excludes its end.\<close>

definition normalize_type :: "string \<Rightarrow> string" where
  "normalize_type s = (if list_all (\<lambda>c. 32 \<le> byte_of c \<and> byte_of c < 126) s then to_ascii_lowercase s else [])"

text \<open>The options of the constructors, as the engine shows them; what cannot be read is left out.\<close>

record blob_options =
  bo_type :: "string js_result"
  bo_endings :: "string js_result"
  bo_modified :: "f64_value js_result"

definition blob_new :: "blob_part js_result list option \<Rightarrow> blob_options option \<Rightarrow> blob js_result" where
  "blob_new parts options =
     (let mime = (case options of None \<Rightarrow> [] | Some opts \<Rightarrow> (case bo_type opts of Inl _ \<Rightarrow> [] | Inr t \<Rightarrow> normalize_type t));
          native = (case options of None \<Rightarrow> False | Some opts \<Rightarrow> bo_endings opts = Inr ''native'') in
      case (case parts of None \<Rightarrow> Inr [] | Some ps \<Rightarrow> process_blob_part native ps []) of
        Inl e \<Rightarrow> Inl (Host (with_name ''TypeError'' (he_new E_INVALID_ARG (''Failed to process blob parts: '' @ js_error_text e))))
      | Inr data \<Rightarrow> Inr \<lparr>bl_mime = mime, bl_data = data\<rparr>)"

text \<open>\<open>why\<close> is the text of the decoding error.\<close>

definition blob_text :: "string \<Rightarrow> blob \<Rightarrow> string js_result" where
  "blob_text why b =
     (if is_utf8 (bl_data b) then Inr (bl_data b) else Inl (Host (he_new E_INVALID_DATA (''Invalid UTF-8 sequence: '' @ why))))"

definition blob_slice :: "int option \<Rightarrow> int option \<Rightarrow> string option \<Rightarrow> blob \<Rightarrow> blob" where
  "blob_slice start stop content_type b =
     (let len = int (length (bl_data b));
          start = (case start of Some i \<Rightarrow> i | None \<Rightarrow> 0);
          stop = (case stop of Some i \<Rightarrow> i | None \<Rightarrow> len);
          start = (if start < 0 then max (len + start) 0 else min start len);
          stop = (if stop < 0 then max (len + stop) 0 else min stop len) in
      if stop < start then \<lparr>bl_mime = (case content_type of Some t \<Rightarrow> t | None \<Rightarrow> []), bl_data = []\<rparr>
      else \<lparr>bl_mime = (case content_type of Some t \<Rightarrow> t | None \<Rightarrow> bl_mime b),
            bl_data = take (nat stop - nat start) (drop (nat start) (bl_data b))\<rparr>)"

record js_file =
  fi_blob :: blob
  fi_name :: string
  fi_modified :: int

definition empty_file_name :: rong_js_error where
  "empty_file_name = Host (with_name ''TypeError'' (he_new E_INVALID_ARG ''File name cannot be empty''))"

definition file_from_parts :: "int js_result \<Rightarrow> string \<Rightarrow> string \<Rightarrow> string \<Rightarrow> int option \<Rightarrow> js_file js_result" where
  "file_from_parts now mime data name modified =
     (if name = [] then Inl empty_file_name
      else
        (case now of
           Inl e \<Rightarrow> Inl e
         | Inr t \<Rightarrow>
             Inr \<lparr>fi_blob = \<lparr>bl_mime = mime, bl_data = data\<rparr>, fi_name = name,
                  fi_modified = (case modified of Some m \<Rightarrow> m | None \<Rightarrow> t)\<rparr>))"

text \<open>A date given as a number is cut to 64 bits.\<close>

definition file_new :: "int js_result \<Rightarrow> blob_part js_result list \<Rightarrow> string \<Rightarrow> blob_options option \<Rightarrow> js_file js_result" where
  "file_new now data name options =
     (if name = [] then Inl empty_file_name
      else
        (case now of
           Inl e \<Rightarrow> Inl e
         | Inr t \<Rightarrow>
             (case blob_new (Some data) options of
                Inl e \<Rightarrow> Inl e
              | Inr b \<Rightarrow>
                  Inr \<lparr>fi_blob = b, fi_name = name,
                       fi_modified =
                         (case options of
                            None \<Rightarrow> t
                          | Some opts \<Rightarrow> (case bo_modified opts of Inl _ \<Rightarrow> t | Inr x \<Rightarrow> sint (f64_as_i64 x)))\<rparr>)))"

section \<open>Forms\<close>

datatype form_value = FV_File js_file | FV_Blob blob | FV_String string

type_synonym form_entry = "string \<times> form_value \<times> string"

definition entry_filename :: "form_value \<Rightarrow> string option \<Rightarrow> string" where
  "entry_filename v filename =
     (case v of
        FV_File f \<Rightarrow> (case filename of Some n \<Rightarrow> n | None \<Rightarrow> fi_name f)
      | FV_Blob _ \<Rightarrow> (case filename of Some n \<Rightarrow> n | None \<Rightarrow> ''blob'')
      | FV_String _ \<Rightarrow> [])"

definition fd_append :: "string \<Rightarrow> form_value \<Rightarrow> string option \<Rightarrow> form_entry list \<Rightarrow> form_entry list" where
  "fd_append name v filename es = es @ [(name, v, entry_filename v filename)]"

definition fd_delete :: "string \<Rightarrow> form_entry list \<Rightarrow> form_entry list" where
  "fd_delete name es = filter (\<lambda>e. fst e \<noteq> name) es"

definition fd_get :: "string \<Rightarrow> form_entry list \<Rightarrow> form_value option" where
  "fd_get name es = map_option (\<lambda>e. fst (snd e)) (List.find (\<lambda>e. fst e = name) es)"

definition fd_get_all :: "string \<Rightarrow> form_entry list \<Rightarrow> form_value list" where
  "fd_get_all name es = map (\<lambda>e. fst (snd e)) (filter (\<lambda>e. fst e = name) es)"

definition fd_has :: "string \<Rightarrow> form_entry list \<Rightarrow> bool" where
  "fd_has name es = list_ex (\<lambda>e. fst e = name) es"

text \<open>The first entry of the name is overwritten in place, the others are taken out.\<close>

fun fd_replace :: "form_entry \<Rightarrow> form_entry list \<Rightarrow> form_entry list" where
  "fd_replace x [] = []"
| "fd_replace x (e # es) = (if fst e = fst x then x # filter (\<lambda>e. fst e \<noteq> fst x) es else e # fd_replace x es)"

definition fd_set :: "string \<Rightarrow> form_value \<Rightarrow> string option \<Rightarrow> form_entry list \<Rightarrow> form_entry list" where
  "fd_set name v filename es =
     (let x = (name, v, entry_filename v filename) in if fd_has name es then fd_replace x es else es @ [x])"

definition fd_keys :: "form_entry list \<Rightarrow> string list" where
  "fd_keys es = map fst es"

definition fd_values :: "form_entry list \<Rightarrow> form_value list" where
  "fd_values es = map (\<lambda>e. fst (snd e)) es"

section \<open>Writing\<close>

abbreviation crlf :: string where "crlf \<equiv> [CHR 0x0D, CHR 0x0A]"

definition quoted :: "string \<Rightarrow> string" where
  "quoted s = CHR 0x22 # s @ [CHR 0x22]"

definition file_part :: "string \<Rightarrow> string \<Rightarrow> blob \<Rightarrow> string" where
  "file_part name filename b =
     ''Content-Disposition: form-data; name='' @ quoted name @ ''; filename='' @ quoted filename @ crlf @
     ''Content-Type: '' @ bl_mime b @ crlf @ crlf @ bl_data b"

definition serialize_entry :: "string \<Rightarrow> form_entry \<Rightarrow> string" where
  "serialize_entry boundary e =
     (case e of
        (name, v, filename) \<Rightarrow>
          ''--'' @ boundary @ crlf @
          (case v of
             FV_File f \<Rightarrow> file_part name filename (fi_blob f)
           | FV_Blob b \<Rightarrow> file_part name filename b
           | FV_String s \<Rightarrow> ''Content-Disposition: form-data; name='' @ quoted name @ crlf @ crlf @ s) @ crlf)"

definition serialize_form :: "string \<Rightarrow> form_entry list \<Rightarrow> string" where
  "serialize_form boundary es = concat (map (serialize_entry boundary) es) @ ''--'' @ boundary @ ''--'' @ crlf"

section \<open>Reading\<close>

text \<open>The first place at which a pattern occurs.\<close>

fun find_sub :: "string \<Rightarrow> string \<Rightarrow> nat option" where
  "find_sub p [] = None"
| "find_sub p (x # xs) = (if take (length p) (x # xs) = p then Some 0 else map_option Suc (find_sub p xs))"

definition find_subslice :: "string \<Rightarrow> string \<Rightarrow> nat \<Rightarrow> nat option" where
  "find_subslice haystack needle start =
     (if needle = [] \<or> length haystack < length needle \<or> length haystack \<le> start then None
      else map_option (\<lambda>i. i + start) (find_sub needle (drop start haystack)))"

lemma find_sub_bound: "find_sub p s = Some i \<Longrightarrow> p \<noteq> [] \<Longrightarrow> i + length p \<le> length s \<and> take (length p) (drop i s) = p"
proof (induction s arbitrary: i)
  case (Cons x s)
  show ?case
  proof (cases "take (length p) (x # s) = p")
    case True
    then have "length p \<le> length (x # s)" by (metis length_take min.absorb_iff2 min.commute)
    then show ?thesis using Cons True by simp
  next
    case False
    then show ?thesis using Cons by auto
  qed
qed simp

lemma find_subslice_bound: "find_subslice s p start = Some i \<Longrightarrow> start \<le> i \<and> start < length s"
  by (auto simp: find_subslice_def split: if_splits)

text \<open>\<^verbatim>\<open>split\<close> at a string and at a character.\<close>

function split_str :: "string \<Rightarrow> string \<Rightarrow> string list" where
  "split_str sep s =
     (case if sep = [] then None else find_sub sep s of
        None \<Rightarrow> [s]
      | Some i \<Rightarrow> take i s # split_str sep (drop (i + length sep) s))"
  by auto
termination
proof (relation "measure (length o snd)")
  fix sep s :: string and i
  assume "(if sep = [] then None else find_sub sep s) = Some i"
  then have "i + length sep \<le> length s" "sep \<noteq> []" using find_sub_bound by (auto split: if_splits)
  then show "((sep, drop (i + length sep) s), (sep, s)) \<in> measure (length \<circ> snd)" by (cases sep) auto
qed simp

declare split_str.simps [simp del]

fun split_char :: "char \<Rightarrow> string \<Rightarrow> string list" where
  "split_char c [] = [[]]"
| "split_char c (x # xs) = (if x = c then [] # split_char c xs else (case split_char c xs of w # ws \<Rightarrow> (x # w) # ws | [] \<Rightarrow> [[x]]))"

definition trim_matches :: "char \<Rightarrow> string \<Rightarrow> string" where
  "trim_matches c s = rev (dropWhile (\<lambda>x. x = c) (rev (dropWhile (\<lambda>x. x = c) s)))"

definition parse_header_line :: "string \<Rightarrow> (string \<rightharpoonup> string) \<Rightarrow> (string \<rightharpoonup> string)" where
  "parse_header_line line headers =
     (case split_once (CHR '':'') line of
        None \<Rightarrow> headers
      | Some (name, v) \<Rightarrow> headers(to_ascii_lowercase (trim name) \<mapsto> trim v))"

definition parse_headers :: "string \<Rightarrow> (string \<rightharpoonup> string)" where
  "parse_headers raw = fold parse_header_line (split_str crlf (from_utf8_lossy raw)) Map.empty"

definition disposition_part :: "string \<Rightarrow> string option \<times> string option \<Rightarrow> string option \<times> string option" where
  "disposition_part part nf =
     (case split_once (CHR ''='') (trim part) of
        None \<Rightarrow> nf
      | Some (key, raw) \<Rightarrow>
          let key = to_ascii_lowercase (trim key); val = trim_matches (CHR 0x22) (trim raw) in
          if key = ''name'' then (Some val, snd nf) else if key = ''filename'' then (fst nf, Some val) else nf)"

definition parse_content_disposition :: "string \<Rightarrow> string option \<times> string option" where
  "parse_content_disposition v = fold disposition_part (tl (split_char (CHR '';'') v)) (None, None)"

definition form_error :: "string \<Rightarrow> rong_js_error" where
  "form_error m = Host (with_name ''TypeError'' (he_new E_INVALID_ARG m))"

text \<open>One part: its headers and its content.\<close>

definition multipart_entry :: "int js_result \<Rightarrow> string \<Rightarrow> string \<Rightarrow> form_entry js_result" where
  "multipart_entry now raw content =
     (let headers = parse_headers raw in
      case headers ''content-disposition'' of
        None \<Rightarrow> Inl (form_error ''Missing Content-Disposition header'')
      | Some disposition \<Rightarrow>
          (case parse_content_disposition disposition of
             (None, _) \<Rightarrow> Inl (form_error ''Content-Disposition missing name'')
           | (Some name, filename) \<Rightarrow>
               (case filename of
                  Some filename \<Rightarrow>
                    (case file_from_parts now (case headers ''content-type'' of Some t \<Rightarrow> t | None \<Rightarrow> []) content filename None of
                       Inl e \<Rightarrow> Inl e
                     | Inr f \<Rightarrow> Inr (name, FV_File f, filename))
                | None \<Rightarrow> Inr (name, FV_String (from_utf8_lossy content), []))))"

definition at_pos :: "string \<Rightarrow> string \<Rightarrow> nat \<Rightarrow> bool" where
  "at_pos s body pos \<longleftrightarrow> pos + length s \<le> length body \<and> take (length s) (drop pos body) = s"

definition skip_crlf :: "string \<Rightarrow> nat \<Rightarrow> nat" where
  "skip_crlf body pos = (if at_pos crlf body pos then pos + 2 else pos)"

function multipart_loop :: "int js_result \<Rightarrow> string \<Rightarrow> string \<Rightarrow> nat \<Rightarrow> form_entry list \<Rightarrow> form_entry list js_result" where
  "multipart_loop now delimiter body pos es =
     (case find_subslice body (crlf @ crlf) pos of
        None \<Rightarrow> Inl (form_error ''Invalid multipart body: missing header terminator'')
      | Some header_end \<Rightarrow>
          (case find_subslice body delimiter (header_end + 4) of
             None \<Rightarrow> Inl (form_error ''Invalid multipart body: missing boundary'')
           | Some next_boundary \<Rightarrow>
               (case multipart_entry now (take (header_end - pos) (drop pos body))
                       (take (next_boundary - (header_end + 4)) (drop (header_end + 4) body)) of
                  Inl e \<Rightarrow> Inl e
                | Inr e \<Rightarrow>
                    let pos = next_boundary + length delimiter in
                    if at_pos ''--'' body pos then Inr (es @ [e])
                    else multipart_loop now delimiter body (skip_crlf body pos) (es @ [e]))))"
  by pat_completeness auto
termination
proof (relation "measure (\<lambda>(now, delimiter, body, pos, es). length body - pos)")
  fix now :: "int js_result" and delimiter body :: string and pos header_end next_boundary x es and e :: form_entry
  assume "find_subslice body (crlf @ crlf) pos = Some header_end" "find_subslice body delimiter (header_end + 4) = Some next_boundary"
    "x = next_boundary + length delimiter"
  then have "pos < length body" "header_end + 4 \<le> next_boundary" "pos \<le> header_end" "x = next_boundary + length delimiter"
    by (simp_all add: find_subslice_bound)
  then show "((now, delimiter, body, skip_crlf body x, es @ [e]), (now, delimiter, body, pos, es)) \<in>
      measure (\<lambda>(now, delimiter, body, pos, es). length body - pos)"
    by (auto simp: skip_crlf_def)
qed simp

declare multipart_loop.simps [simp del]

definition from_multipart :: "int js_result \<Rightarrow> string \<Rightarrow> string \<Rightarrow> form_entry list js_result" where
  "from_multipart now body boundary =
     (let delimiter = ''--'' @ boundary in
      if \<not> starts_with delimiter body then Inl (form_error ''Invalid multipart body: missing starting boundary'')
      else if at_pos ''--'' body (length delimiter) then Inr []
      else multipart_loop now (crlf @ delimiter) body (skip_crlf body (length delimiter)) [])"

text \<open>\<open>urlencoded\<close> is the parser of the \<^verbatim>\<open>form_urlencoded\<close> crate.\<close>

fun find_boundary :: "string list \<Rightarrow> string option" where
  "find_boundary [] = None"
| "find_boundary (p # ps) =
     (case split_once (CHR ''='') (trim p) of
        None \<Rightarrow> find_boundary ps
      | Some (key, v) \<Rightarrow>
          if to_ascii_lowercase (trim key) = ''boundary'' then Some (trim_matches (CHR 0x22) (trim v)) else find_boundary ps)"

definition parse_boundary :: "string \<Rightarrow> string option" where
  "parse_boundary content_type =
     (if \<not> starts_with ''multipart/form-data'' (to_ascii_lowercase content_type) then None
      else find_boundary (tl (split_char (CHR '';'') content_type)))"

definition form_from_bytes ::
  "(string \<Rightarrow> (string \<times> string) list) \<Rightarrow> int js_result \<Rightarrow> string \<Rightarrow> string \<Rightarrow> form_entry list js_result" where
  "form_from_bytes urlencoded now body content_type =
     (case parse_boundary content_type of
        Some boundary \<Rightarrow> from_multipart now body boundary
      | None \<Rightarrow>
          if starts_with ''application/x-www-form-urlencoded'' (to_ascii_lowercase content_type)
          then Inr (map (\<lambda>(k, v). (k, FV_String v, [])) (urlencoded (from_utf8_lossy body)))
          else Inl (form_error ''Unsupported Content-Type for formData()''))"

section \<open>Entries\<close>

lemma fd_get_all_Cons: "fd_get_all k (e # es) = (if fst e = k then fst (snd e) # fd_get_all k es else fd_get_all k es)" "fd_get_all k [] = []"
  by (simp_all add: fd_get_all_def)

lemma fd_get_all_filter: "fd_get_all k (filter (\<lambda>e. fst e \<noteq> k') es) = (if k = k' then [] else fd_get_all k es)"
  by (induction es) (auto simp: fd_get_all_Cons)

lemma fd_get_all_replace:
  "fd_get_all k (fd_replace (k', v, f) es) =
     (if k = k' then (if fd_has k' es then [v] else []) else fd_get_all k es)"
  by (induction es) (auto simp: fd_get_all_Cons fd_get_all_filter fd_has_def)

interpretation fd: multimap fd_get_all "\<lambda>k v. fd_append k v None" fd_delete "\<lambda>k v. fd_set k v None"
proof
  fix k k' v es
  show "fd_get_all k (fd_append k' v None es) = (if k' = k then fd_get_all k es @ [v] else fd_get_all k es)"
    by (simp add: fd_get_all_def fd_append_def)
  show "fd_get_all k (fd_delete k' es) = (if k' = k then [] else fd_get_all k es)"
    by (auto simp: fd_delete_def fd_get_all_filter)
  show "fd_get_all k (fd_set k' v None es) = (if k' = k then [v] else fd_get_all k es)"
  proof (cases "fd_has k' es")
    case True
    then show ?thesis by (auto simp: fd_set_def Let_def fd_get_all_replace)
  next
    case False
    then have "filter (\<lambda>e. fst e = k') es = []" by (auto simp: fd_has_def list_ex_iff filter_empty_conv)
    then show ?thesis using False by (auto simp: fd_set_def Let_def fd_get_all_def)
  qed
qed

lemma fd_get_first: "fd_get k es = (case fd_get_all k es of [] \<Rightarrow> None | v # _ \<Rightarrow> Some v)"
  by (induction es) (auto simp: fd_get_def fd_get_all_def)

lemma fd_has_values: "fd_has k es \<longleftrightarrow> fd_get_all k es \<noteq> []"
  by (auto simp: fd_has_def fd_get_all_def list_ex_iff filter_empty_conv)

text \<open>
  A form keeps under every name exactly the values a script has put there: after any sequence of append, delete and set
  the values of a name are those its own updates leave, in order, and get, getAll and has agree on them.\<close>

theorem form_keeps_values:
  "let es' = fold fd.apply_op ops es in
     fd_get_all k es' = mm_spec k ops (fd_get_all k es) \<and>
     fd_get k es' = (case mm_spec k ops (fd_get_all k es) of [] \<Rightarrow> None | v # _ \<Rightarrow> Some v) \<and>
     fd_has k es' = (mm_spec k ops (fd_get_all k es) \<noteq> [])"
  by (simp add: Let_def fd.get_run fd_get_first fd_has_values)

section \<open>Searching\<close>

lemma find_sub_skip:
  "CHR 0x0D \<notin> set h \<Longrightarrow> find_sub (CHR 0x0D # p) (h @ s) = map_option (\<lambda>i. i + length h) (find_sub (CHR 0x0D # p) s)"
  by (induction h) (auto simp: option.map_comp comp_def option.map_ident)

lemma find_sub_here: "find_sub (c # p) (c # p @ s) = Some 0"
  by simp

lemma find_sub_none: "CHR 0x0D \<notin> set s \<Longrightarrow> find_sub (CHR 0x0D # p) s = None"
  by (induction s) auto

text \<open>A pattern that starts with the only carriage return in it is found behind a text that does not contain it.\<close>

lemma find_sub_after:
  assumes "CHR 0x0D \<notin> set p" "\<not> sublist (CHR 0x0D # p) c"
  shows "find_sub (CHR 0x0D # p) (c @ CHR 0x0D # p @ s) = Some (length c)"
  using assms(2)
proof (induction c)
  case Nil
  then show ?case by simp
next
  case (Cons x c)
  let ?p = "CHR 0x0D # p" and ?s = "(x # c) @ CHR 0x0D # p @ s"
  have "take (length ?p) ?s \<noteq> ?p"
  proof
    assume a: "take (length ?p) ?s = ?p"
    show False
    proof (cases "length ?p \<le> length (x # c)")
      case True
      then have "take (length ?p) (x # c) = ?p" using a by simp
      then have "prefix ?p (x # c)" by (metis take_is_prefix)
      then show False using Cons.prems by (simp add: sublist_Cons_right)
    next
      case False
      then have "?p ! length (x # c) = ?s ! length (x # c)" by (metis a linorder_not_le nth_take)
      then have "p ! length c = CHR 0x0D" by (simp add: nth_append)
      moreover have "length c < length p" using False by simp
      ultimately show False using assms(1) by (metis nth_mem)
    qed
  qed
  moreover have "\<not> sublist ?p c" using Cons.prems by (simp add: sublist_Cons_right)
  ultimately show ?case using Cons.IH by simp
qed

lemma find_subslice_at:
  assumes "drop pos body = s" "find_sub p s = Some i" "p \<noteq> []"
  shows "find_subslice body p pos = Some (i + pos)"
proof -
  have "i + length p \<le> length body - pos" using find_sub_bound [OF assms(2,3)] assms(1) by (metis length_drop)
  moreover have "0 < length p" using assms(3) by simp
  ultimately have "\<not> (length body < length p \<or> length body \<le> pos)" by linarith
  then show ?thesis using assms by (simp add: find_subslice_def)
qed

section \<open>Headers of a part\<close>

lemma split_str_none: "CHR 0x0D \<notin> set s \<Longrightarrow> split_str crlf s = [s]"
  by (subst split_str.simps) (simp add: find_sub_none)

lemma split_str_once:
  "CHR 0x0D \<notin> set a \<Longrightarrow> CHR 0x0D \<notin> set b \<Longrightarrow> split_str crlf (a @ crlf @ b) = [a, b]"
  by (subst split_str.simps) (simp add: find_sub_skip split_str_none)

lemma split_char_none: "c \<notin> set a \<Longrightarrow> split_char c a = [a]"
  by (induction a) auto

lemma split_char_append: "c \<notin> set a \<Longrightarrow> split_char c (a @ c # s) = a # split_char c s"
  by (induction a) auto

lemma ws_at_quote: "ws_at [CHR 0x22] = 0" "ws_at [x, CHR 0x22] \<noteq> 2" "ws_at [x, y, CHR 0x22] \<noteq> 3"
  by (simp_all add: ws_at_def byte_of_def split: if_splits)

lemma ws_end_quote: "ws_end (s @ [CHR 0x22]) = 0"
proof (cases s rule: rev_cases)
  case (snoc r y)
  then show ?thesis using ws_at_quote by (cases r rule: rev_cases) (simp_all add: ws_end_def)
qed (simp add: ws_end_def ws_at_quote)

lemma trim_end_quote: "trim_end (s @ [CHR 0x22]) = s @ [CHR 0x22]"
  by (subst trim_end.simps) (simp add: ws_end_quote)

lemma trim_space: "trim (CHR 0x20 # s) = trim s"
proof -
  have "ws_at (CHR 0x20 # s) = 1" by (simp add: ws_at_def byte_of_def)
  then show ?thesis unfolding trim_def by (subst trim_start.simps) simp
qed

lemma trim_quoted_end: "ws_at s = 0 \<Longrightarrow> s = r @ [CHR 0x22] \<Longrightarrow> trim s = s"
  unfolding trim_def by (subst trim_start.simps) (simp add: trim_end_quote)

lemma trim_quoted: "trim (quoted s) = quoted s"
  by (rule trim_quoted_end [where r = "CHR 0x22 # s"]) (simp_all add: quoted_def ws_at_def byte_of_def)

lemma trim_matches_quoted:
  assumes "s \<noteq> [] \<Longrightarrow> hd s \<noteq> CHR 0x22 \<and> last s \<noteq> CHR 0x22"
  shows "trim_matches (CHR 0x22) (quoted s) = s"
proof (cases s rule: rev_cases)
  case (snoc r y)
  then have "y \<noteq> CHR 0x22" "dropWhile (\<lambda>x. x = CHR 0x22) (r @ [y, CHR 0x22]) = r @ [y, CHR 0x22]"
    using assms by (cases r; auto)+
  then show ?thesis using snoc by (simp add: trim_matches_def quoted_def)
qed (simp add: trim_matches_def quoted_def)

text \<open>Names that survive: valid, without a carriage return or a semicolon, without quotes at their ends.\<close>

definition plain_name :: "string \<Rightarrow> bool" where
  "plain_name s \<longleftrightarrow> is_utf8 s \<and> CHR 0x0D \<notin> set s \<and> CHR '';'' \<notin> set s \<and> (s \<noteq> [] \<longrightarrow> hd s \<noteq> CHR 0x22 \<and> last s \<noteq> CHR 0x22)"

definition plain_type :: "string \<Rightarrow> bool" where
  "plain_type s \<longleftrightarrow> is_utf8 s \<and> CHR 0x0D \<notin> set s \<and> trim s = s"

lemma disposition_value:
  assumes "plain_name s" "CHR ''='' \<notin> set key" "trim key = key" "ws_at (key @ ''='' @ quoted s) = 0"
  shows "disposition_part (CHR 0x20 # key @ ''='' @ quoted s) nf =
    (if to_ascii_lowercase key = ''name'' then (Some s, snd nf)
     else if to_ascii_lowercase key = ''filename'' then (fst nf, Some s) else nf)"
proof -
  have "trim (CHR 0x20 # key @ ''='' @ quoted s) = key @ ''='' @ quoted s"
    using trim_quoted_end [OF assms(4), of "key @ ''='' @ CHR 0x22 # s"] by (simp add: trim_space quoted_def)
  moreover have "split_once (CHR ''='') (key @ ''='' @ quoted s) = Some (key, quoted s)"
    using split_once_append [OF assms(2), of "quoted s"] by simp
  moreover have "trim_matches (CHR 0x22) (quoted s) = s"
    using assms(1) by (intro trim_matches_quoted) (auto simp: plain_name_def)
  ultimately show ?thesis by (simp add: disposition_part_def assms(3) trim_quoted Let_def)
qed

lemma key_facts:
  "trim ''name'' = ''name''" "trim ''filename'' = ''filename''" "to_ascii_lowercase ''name'' = ''name''" "to_ascii_lowercase ''filename'' = ''filename''"
  "to_ascii_lowercase (trim ''Content-Disposition'') = ''content-disposition''" "to_ascii_lowercase (trim ''Content-Type'') = ''content-type''"
  by code_simp+

lemma key_starts: "ws_at (CHR ''n'' # s) = 0" "ws_at (CHR ''f'' # s) = 0"
  by (simp_all add: ws_at_def byte_of_def)

lemma quoted_chars: "set (quoted s) = insert (CHR 0x22) (set s)"
  by (auto simp: quoted_def)

lemma name_disposition:
  assumes "plain_name n"
  shows "parse_content_disposition (''form-data; name='' @ quoted n) = (Some n, None)"
proof -
  have "split_char (CHR '';'') (''form-data'' @ CHR '';'' # '' name='' @ quoted n) = [''form-data'', '' name='' @ quoted n]"
    using assms by (subst split_char_append) (auto simp: split_char_none plain_name_def quoted_chars)
  then show ?thesis
    using disposition_value [OF assms, of "''name''" "(None, None)"] by (simp add: parse_content_disposition_def key_facts key_starts del: split_char.simps)
qed

lemma file_disposition:
  assumes "plain_name n" "plain_name f"
  shows "parse_content_disposition (''form-data; name='' @ quoted n @ ''; filename='' @ quoted f) = (Some n, Some f)"
proof -
  have "split_char (CHR '';'') (''form-data'' @ CHR '';'' # ('' name='' @ quoted n) @ CHR '';'' # '' filename='' @ quoted f) =
      [''form-data'', '' name='' @ quoted n, '' filename='' @ quoted f]"
    using assms by (subst split_char_append, simp, subst split_char_append) (auto simp: split_char_none plain_name_def quoted_chars)
  then show ?thesis
    using disposition_value [OF assms(1), of "''name''" "(None, None)"] disposition_value [OF assms(2), of "''filename''" "(Some n, None)"]
    by (simp add: parse_content_disposition_def key_facts key_starts del: split_char.simps)
qed

lemma header_line:
  assumes "CHR '':'' \<notin> set k" "trim d = d"
  shows "parse_header_line (k @ CHR '':'' # CHR 0x20 # d) h = h(to_ascii_lowercase (trim k) \<mapsto> d)"
  using split_once_append [OF assms(1), of "CHR 0x20 # d"] assms(2) by (simp add: parse_header_line_def trim_space)

definition name_line :: "string \<Rightarrow> string" where
  "name_line n = ''form-data; name='' @ quoted n"

definition file_line :: "string \<Rightarrow> string \<Rightarrow> string" where
  "file_line n f = ''form-data; name='' @ quoted n @ ''; filename='' @ quoted f"

definition part_headers :: "form_entry \<Rightarrow> string" where
  "part_headers e =
     (case e of
        (n, FV_String s, f) \<Rightarrow> ''Content-Disposition'' @ CHR '':'' # CHR 0x20 # name_line n
      | (n, FV_File x, f) \<Rightarrow>
          (''Content-Disposition'' @ CHR '':'' # CHR 0x20 # file_line n f) @ crlf @ (''Content-Type'' @ CHR '':'' # CHR 0x20 # bl_mime (fi_blob x))
      | (n, FV_Blob x, f) \<Rightarrow>
          (''Content-Disposition'' @ CHR '':'' # CHR 0x20 # file_line n f) @ crlf @ (''Content-Type'' @ CHR '':'' # CHR 0x20 # bl_mime x))"

definition part_content :: "form_value \<Rightarrow> string" where
  "part_content v = (case v of FV_String s \<Rightarrow> s | FV_File x \<Rightarrow> bl_data (fi_blob x) | FV_Blob x \<Rightarrow> bl_data x)"

lemma trim_lines: "trim (name_line n) = name_line n" "trim (file_line n f) = file_line n f"
proof -
  show "trim (name_line n) = name_line n"
    by (rule trim_quoted_end [where r = "''form-data; name='' @ CHR 0x22 # n"]) (simp_all add: name_line_def quoted_def key_starts)
  show "trim (file_line n f) = file_line n f"
    by (rule trim_quoted_end [where r = "''form-data; name='' @ quoted n @ ''; filename='' @ CHR 0x22 # f"])
      (simp_all add: file_line_def quoted_def key_starts)
qed

lemma is_utf8_quoted: "is_utf8 s \<Longrightarrow> is_utf8 (quoted s)"
  using is_utf8_append [of "[CHR 0x22]" "s @ [CHR 0x22]"] is_utf8_append [of s "[CHR 0x22]"] is_utf8_ascii [of "[CHR 0x22]"]
  by (simp add: quoted_def is_ascii_def byte_of_def)

lemma is_utf8_ascii_append: "is_ascii a \<Longrightarrow> is_utf8 s \<Longrightarrow> is_utf8 (a @ s)"
  by (rule is_utf8_append [OF is_utf8_ascii])

lemma is_utf8_lines:
  "is_utf8 n \<Longrightarrow> is_utf8 (name_line n)" "is_utf8 n \<Longrightarrow> is_utf8 f \<Longrightarrow> is_utf8 (file_line n f)"
  unfolding name_line_def file_line_def
  by (intro is_utf8_ascii_append is_utf8_append is_utf8_quoted; simp add: is_ascii_def byte_of_def)+

text \<open>The headers of a part are read as they were written.\<close>

lemma string_headers:
  assumes "plain_name n"
  shows "parse_headers (part_headers (n, FV_String s, f)) = [''content-disposition'' \<mapsto> name_line n]"
proof -
  let ?l = "''Content-Disposition'' @ CHR '':'' # CHR 0x20 # name_line n"
  have "is_utf8 ((''Content-Disposition'' @ [CHR '':'', CHR 0x20]) @ name_line n)"
    using assms is_utf8_lines(1) [of n] by (intro is_utf8_ascii_append) (simp_all add: is_ascii_def byte_of_def plain_name_def)
  then have "from_utf8_lossy ?l = ?l" by (intro from_utf8_lossy_utf8) simp
  moreover have "split_str crlf ?l = [?l]"
    using assms by (intro split_str_none) (simp add: name_line_def quoted_chars plain_name_def)
  moreover have "parse_header_line ?l Map.empty = [''content-disposition'' \<mapsto> name_line n]"
    by (subst header_line) (simp_all only: trim_lines key_facts, simp)
  ultimately show ?thesis by (simp only: parse_headers_def part_headers_def prod.case form_value.case fold.simps comp_def id_def)
qed

lemma file_headers:
  assumes "plain_name n" "plain_name f" "plain_type m"
  shows "parse_headers ((''Content-Disposition'' @ CHR '':'' # CHR 0x20 # file_line n f) @ crlf @ (''Content-Type'' @ CHR '':'' # CHR 0x20 # m)) =
    [''content-disposition'' \<mapsto> file_line n f, ''content-type'' \<mapsto> m]"
proof -
  let ?a = "''Content-Disposition'' @ CHR '':'' # CHR 0x20 # file_line n f" and ?b = "''Content-Type'' @ CHR '':'' # CHR 0x20 # m"
  have "is_utf8 ((''Content-Disposition'' @ [CHR '':'', CHR 0x20]) @ file_line n f)"
    using assms is_utf8_lines(2) [of n f] by (intro is_utf8_ascii_append) (simp_all add: is_ascii_def byte_of_def plain_name_def)
  then have a: "is_utf8 ?a" by simp
  have "is_utf8 ((''Content-Type'' @ [CHR '':'', CHR 0x20]) @ m)"
    using assms by (intro is_utf8_ascii_append) (simp_all add: is_ascii_def byte_of_def plain_type_def)
  then have b: "is_utf8 ?b" by simp
  have c: "is_utf8 crlf" by (rule is_utf8_ascii) (simp add: is_ascii_def byte_of_def)
  have "from_utf8_lossy (?a @ crlf @ ?b) = ?a @ crlf @ ?b"
    by (rule from_utf8_lossy_utf8 [OF is_utf8_append [OF a is_utf8_append [OF c b]]])
  moreover have "split_str crlf (?a @ crlf @ ?b) = [?a, ?b]"
    using assms by (intro split_str_once) (simp_all add: file_line_def quoted_chars plain_name_def plain_type_def)
  moreover have "parse_header_line ?a h = h(''content-disposition'' \<mapsto> file_line n f)" "parse_header_line ?b h = h(''content-type'' \<mapsto> m)" for h
    using assms(3) by (subst header_line; simp add: trim_lines key_facts plain_type_def)+
  ultimately show ?thesis by (simp only: parse_headers_def fold.simps comp_def id_def)
qed

section \<open>The round trip\<close>

text \<open>Entries that survive: plain names, a file name for anything but a string, and contents the boundary does not occur in. A
  blob comes back as a file, and files are dated by their reception.\<close>

definition delimiter_of :: "string \<Rightarrow> string" where
  "delimiter_of boundary = crlf @ ''--'' @ boundary"

definition entry_ok :: "string \<Rightarrow> form_entry \<Rightarrow> bool" where
  "entry_ok boundary e =
     (case e of
        (n, v, f) \<Rightarrow>
          plain_name n \<and> \<not> sublist (delimiter_of boundary) (part_content v) \<and>
          (case v of
             FV_String s \<Rightarrow> is_utf8 s
           | FV_File x \<Rightarrow> plain_name f \<and> f \<noteq> [] \<and> plain_type (bl_mime (fi_blob x))
           | FV_Blob x \<Rightarrow> plain_name f \<and> f \<noteq> [] \<and> plain_type (bl_mime x)))"

definition received :: "int \<Rightarrow> form_entry \<Rightarrow> form_entry" where
  "received now e =
     (case e of
        (n, FV_String s, f) \<Rightarrow> (n, FV_String s, [])
      | (n, FV_File x, f) \<Rightarrow> (n, FV_File \<lparr>fi_blob = fi_blob x, fi_name = f, fi_modified = now\<rparr>, f)
      | (n, FV_Blob x, f) \<Rightarrow> (n, FV_File \<lparr>fi_blob = x, fi_name = f, fi_modified = now\<rparr>, f))"

lemma file_entry_read:
  assumes "plain_name n" "plain_name f" "f \<noteq> []" "plain_type (bl_mime x)"
  shows "multipart_entry (Inr now)
    ((''Content-Disposition'' @ CHR '':'' # CHR 0x20 # file_line n f) @ crlf @ (''Content-Type'' @ CHR '':'' # CHR 0x20 # bl_mime x)) (bl_data x) =
    Inr (n, FV_File \<lparr>fi_blob = x, fi_name = f, fi_modified = now\<rparr>, f)"
  unfolding multipart_entry_def file_headers [OF assms(1,2,4)] Let_def
  using file_disposition [OF assms(1,2)] assms(3) by (simp add: file_line_def [symmetric] file_from_parts_def del: append.simps)

lemma entry_read:
  assumes "entry_ok boundary e"
  shows "multipart_entry (Inr now) (part_headers e) (part_content (fst (snd e))) = Inr (received now e)"
proof -
  obtain n v f where e: "e = (n, v, f)" by (cases e) auto
  show ?thesis
  proof (cases v)
    case (FV_String s)
    have "plain_name n" "is_utf8 s" using assms by (simp_all add: e FV_String entry_ok_def)
    then show ?thesis
      unfolding multipart_entry_def e FV_String string_headers [OF \<open>plain_name n\<close>] Let_def
      using name_disposition [of n] by (simp add: name_line_def [symmetric] received_def part_content_def from_utf8_lossy_utf8 del: append.simps)
  next
    case (FV_File x)
    then have "plain_name n" "plain_name f" "f \<noteq> []" "plain_type (bl_mime (fi_blob x))" using assms by (simp_all add: e entry_ok_def)
    from file_entry_read [OF this, of now] show ?thesis
      by (simp only: e FV_File part_headers_def part_content_def received_def prod.case form_value.case fst_conv snd_conv)
  next
    case (FV_Blob x)
    then have "plain_name n" "plain_name f" "f \<noteq> []" "plain_type (bl_mime x)" using assms by (simp_all add: e entry_ok_def)
    from file_entry_read [OF this, of now] show ?thesis
      by (simp only: e FV_Blob part_headers_def part_content_def received_def prod.case form_value.case fst_conv snd_conv)
  qed
qed

lemma find_sub_blank_line:
  assumes "CHR 0x0D \<notin> set a" "CHR 0x0D \<notin> set b" "b = x # b'"
  shows "find_sub (crlf @ crlf) ((a @ crlf @ b) @ crlf @ crlf @ s) = Some (length (a @ crlf @ b))"
proof -
  have "find_sub (crlf @ crlf) (crlf @ b @ crlf @ crlf @ s) = Some (2 + length b)"
    using assms(2,3) find_sub_skip [of b "[CHR 0x0A, CHR 0x0D, CHR 0x0A]" "crlf @ crlf @ s"] by (auto simp: numeral_eq_Suc)
  then show ?thesis using find_sub_skip [OF assms(1), of "[CHR 0x0A, CHR 0x0D, CHR 0x0A]" "crlf @ b @ crlf @ crlf @ s"] by simp
qed

lemma headers_end:
  assumes "entry_ok boundary e"
  shows "find_sub (crlf @ crlf) (part_headers e @ crlf @ crlf @ s) = Some (length (part_headers e))"
proof -
  obtain n v f where e: "e = (n, v, f)" by (cases e) auto
  have filed: "find_sub (crlf @ crlf) (((''Content-Disposition'' @ CHR '':'' # CHR 0x20 # file_line n f) @ crlf @ (''Content-Type'' @ CHR '':'' # CHR 0x20 # m)) @ crlf @ crlf @ s) =
      Some (length ((''Content-Disposition'' @ CHR '':'' # CHR 0x20 # file_line n f) @ crlf @ (''Content-Type'' @ CHR '':'' # CHR 0x20 # m)))"
    if "plain_name n" "plain_name f" "plain_type m" for m
    using that by (intro find_sub_blank_line) (simp_all add: file_line_def quoted_chars plain_name_def plain_type_def)
  show ?thesis
  proof (cases v)
    case (FV_String t)
    then have "CHR 0x0D \<notin> set (part_headers e)"
      using assms by (simp add: e entry_ok_def part_headers_def name_line_def quoted_chars plain_name_def)
    from find_sub_skip [OF this, of "[CHR 0x0A, CHR 0x0D, CHR 0x0A]" "crlf @ crlf @ s"] show ?thesis by simp
  next
    case (FV_File x)
    then have "plain_name n" "plain_name f" "plain_type (bl_mime (fi_blob x))" using assms by (simp_all add: e entry_ok_def)
    from filed [OF this] show ?thesis by (simp only: e FV_File part_headers_def prod.case form_value.case)
  next
    case (FV_Blob x)
    then have "plain_name n" "plain_name f" "plain_type (bl_mime x)" using assms by (simp_all add: e entry_ok_def)
    from filed [OF this] show ?thesis by (simp only: e FV_Blob part_headers_def prod.case form_value.case)
  qed
qed

fun form_tail :: "string \<Rightarrow> form_entry list \<Rightarrow> string" where
  "form_tail boundary [] = ''--'' @ crlf"
| "form_tail boundary (e # es) =
     crlf @ part_headers e @ crlf @ crlf @ part_content (fst (snd e)) @ delimiter_of boundary @ form_tail boundary es"

lemma serialize_entry_parts:
  "serialize_entry boundary e = ''--'' @ boundary @ crlf @ part_headers e @ crlf @ crlf @ part_content (fst (snd e)) @ crlf"
  by (cases e; cases "fst (snd e)")
    (simp_all add: serialize_entry_def part_headers_def part_content_def file_part_def name_line_def file_line_def)

lemma serialize_tail: "serialize_form boundary es = ''--'' @ boundary @ form_tail boundary es"
proof (induction es)
  case (Cons e es)
  have "serialize_form boundary (e # es) = serialize_entry boundary e @ serialize_form boundary es" by (simp add: serialize_form_def)
  then show ?case unfolding Cons.IH serialize_entry_parts by (simp add: delimiter_of_def)
qed (simp add: serialize_form_def)

lemma at_pos_drop: "s \<noteq> [] \<Longrightarrow> at_pos s body pos \<longleftrightarrow> take (length s) (drop pos body) = s"
proof -
  assume "s \<noteq> []"
  moreover have "pos + length s \<le> length body" if "take (length s) (drop pos body) = s" "s \<noteq> []"
  proof -
    have "length s \<le> length body - pos" using arg_cong [OF that(1), of length] by simp
    moreover have "0 < length s" using that(2) by simp
    ultimately show ?thesis by linarith
  qed
  ultimately show ?thesis by (auto simp: at_pos_def)
qed

lemma loop_step:
  assumes b: "CHR 0x0D \<notin> set boundary" and ok: "entry_ok boundary e"
    and d: "drop pos body = part_headers e @ crlf @ crlf @ part_content (fst (snd e)) @ delimiter_of boundary @ rest"
  obtains p where "drop p body = rest"
    "multipart_loop (Inr now) (delimiter_of boundary) body pos acc =
       (if at_pos ''--'' body p then Inr (acc @ [received now e])
        else multipart_loop (Inr now) (delimiter_of boundary) body (skip_crlf body p) (acc @ [received now e]))"
proof -
  let ?h = "part_headers e" and ?c = "part_content (fst (snd e))" and ?d = "delimiter_of boundary"
  have he: "find_subslice body (crlf @ crlf) pos = Some (length ?h + pos)"
    by (rule find_subslice_at [OF d headers_end [OF ok]]) simp
  have dc: "drop (length ?h + pos + 4) body = ?c @ ?d @ rest"
  proof -
    have "drop (length ?h + pos + 4) body = drop (length ?h + 4) (drop pos body)" by (simp add: ac_simps)
    also have "\<dots> = drop (length (?h @ crlf @ crlf)) ((?h @ crlf @ crlf) @ ?c @ ?d @ rest)" by (simp add: d)
    finally show ?thesis by simp
  qed
  have "\<not> sublist ?d ?c" using ok by (auto simp: entry_ok_def split: prod.splits)
  then have "find_sub ?d (?c @ ?d @ rest) = Some (length ?c)"
    using find_sub_after [of "CHR 0x0A # ''--'' @ boundary" ?c rest] b by (simp add: delimiter_of_def)
  then have nb: "find_subslice body ?d (length ?h + pos + 4) = Some (length ?c + (length ?h + pos + 4))"
    by (rule find_subslice_at [OF dc]) (simp add: delimiter_of_def)
  let ?p = "length ?c + (length ?h + pos + 4) + length ?d"
  have "drop ?p body = drop (length ?c + length ?d) (drop (length ?h + pos + 4) body)" by (simp add: ac_simps)
  then have r: "drop ?p body = rest" by (simp add: dc)
  have "take (length ?h) (drop pos body) = ?h" by (simp add: d)
  moreover have "take (length ?c) (drop (length ?h + pos + 4) body) = ?c" by (simp add: dc)
  ultimately have "multipart_loop (Inr now) ?d body pos acc =
      (if at_pos ''--'' body ?p then Inr (acc @ [received now e])
       else multipart_loop (Inr now) ?d body (skip_crlf body ?p) (acc @ [received now e]))"
    using entry_read [OF ok, of now] by (subst multipart_loop.simps) (simp add: he nb Let_def del: append.simps)
  with r show thesis by (rule that)
qed

lemma loop_reads:
  assumes b: "CHR 0x0D \<notin> set boundary"
  shows "entry_ok boundary e \<Longrightarrow> \<forall>x \<in> set es. entry_ok boundary x \<Longrightarrow>
    drop pos body = part_headers e @ crlf @ crlf @ part_content (fst (snd e)) @ delimiter_of boundary @ form_tail boundary es \<Longrightarrow>
    multipart_loop (Inr now) (delimiter_of boundary) body pos acc = Inr (acc @ map (received now) (e # es))"
proof (induction es arbitrary: e pos acc)
  case Nil
  obtain p where p: "drop p body = form_tail boundary []"
    "multipart_loop (Inr now) (delimiter_of boundary) body pos acc =
       (if at_pos ''--'' body p then Inr (acc @ [received now e])
        else multipart_loop (Inr now) (delimiter_of boundary) body (skip_crlf body p) (acc @ [received now e]))"
    using loop_step [OF b Nil.prems(1,3)] by metis
  have "at_pos ''--'' body p" by (simp add: at_pos_drop p(1))
  then show ?case using p(2) by simp
next
  case (Cons e' es)
  obtain p where p: "drop p body = form_tail boundary (e' # es)"
    "multipart_loop (Inr now) (delimiter_of boundary) body pos acc =
       (if at_pos ''--'' body p then Inr (acc @ [received now e])
        else multipart_loop (Inr now) (delimiter_of boundary) body (skip_crlf body p) (acc @ [received now e]))"
    using loop_step [OF b Cons.prems(1,3)] by metis
  have "\<not> at_pos ''--'' body p" "skip_crlf body p = p + 2" by (simp_all add: skip_crlf_def at_pos_drop p(1))
  moreover have "drop (p + 2) body = part_headers e' @ crlf @ crlf @ part_content (fst (snd e')) @ delimiter_of boundary @ form_tail boundary es"
    using p(1) drop_drop [of 2 p body] by (simp add: add.commute del: drop_drop)
  ultimately show ?case using Cons.IH [of e' "p + 2" "acc @ [received now e]"] Cons.prems(2) p(2) by simp
qed

lemma serialized_form_read:
  assumes "CHR 0x0D \<notin> set boundary" "\<forall>e \<in> set es. entry_ok boundary e"
  shows "from_multipart (Inr now) (serialize_form boundary es) boundary = Inr (map (received now) es)"
proof -
  let ?b = "serialize_form boundary es" and ?n = "length (''--'' @ boundary)"
  have s: "starts_with (''--'' @ boundary) ?b" and d: "drop ?n ?b = form_tail boundary es"
    by (simp_all add: serialize_tail starts_with_def)
  show ?thesis
  proof (cases es)
    case Nil
    then have "at_pos ''--'' ?b ?n" using d by (simp add: at_pos_drop)
    then show ?thesis using s Nil by (simp only: from_multipart_def Let_def) simp
  next
    case (Cons e es')
    have "\<not> at_pos ''--'' ?b ?n" "skip_crlf ?b ?n = ?n + 2" using d by (simp_all add: skip_crlf_def at_pos_drop Cons)
    moreover have "drop (?n + 2) ?b = part_headers e @ crlf @ crlf @ part_content (fst (snd e)) @ delimiter_of boundary @ form_tail boundary es'"
      using d drop_drop [of 2 ?n ?b] by (simp add: Cons add.commute del: drop_drop)
    ultimately show ?thesis
      using loop_reads [OF assms(1), of e es' "?n + 2" ?b now "[]"] assms(2) s Cons
      by (simp only: from_multipart_def Let_def) (simp add: delimiter_of_def)
  qed
qed

text \<open>
  A form survives its multipart encoding: reading back what was written gives the same entries in the same order, names,
  file names, types and contents byte for byte, binary contents included, whenever the boundary occurs in no content,
  names are free of carriage returns, semicolons and outer quotes, and file names are not empty. Blobs come back as
  files, dated by their reception.\<close>

theorem form_multipart_roundtrip:
  assumes "CHR 0x0D \<notin> set boundary" "\<forall>e \<in> set es. entry_ok boundary e"
  shows "from_multipart (Inr now) (serialize_form boundary es) boundary = Inr (map (received now) es)"
  using assms by (rule serialized_form_read)

definition demo_form :: "form_entry list" where
  "demo_form = [(''a'', FV_String ''hi'', []), (''f'', FV_Blob \<lparr>bl_mime = ''text/plain'', bl_data = ''xy''\<rparr>, ''b.txt'')]"

lemma short_no_delimiter: "length s \<le> 3 \<Longrightarrow> \<not> sublist (delimiter_of boundary) s"
  by (auto simp: delimiter_of_def dest: sublist_length_le)

lemma demo_form_ok: "\<forall>e \<in> set demo_form. entry_ok ''B'' e"
proof -
  have "trim ''text/plain'' = ''text/plain''" by code_simp
  then show ?thesis
    by (simp add: demo_form_def entry_ok_def plain_name_def plain_type_def part_content_def short_no_delimiter is_utf8_ascii is_ascii_def byte_of_def)
qed

theorem form_multipart_roundtrip_witness:
  "from_multipart (Inr 7) (serialize_form ''B'' demo_form) ''B'' =
     Inr [(''a'', FV_String ''hi'', []),
          (''f'', FV_File \<lparr>fi_blob = \<lparr>bl_mime = ''text/plain'', bl_data = ''xy''\<rparr>, fi_name = ''b.txt'', fi_modified = 7\<rparr>, ''b.txt'')]"
  using form_multipart_roundtrip [OF _ demo_form_ok, of 7] by (simp add: demo_form_def received_def)

text \<open>Without the conditions on names the encoding is ambiguous: quotes are not escaped, and a field name can pose as a file.\<close>

lemma name_forges_file_name: "name_line (n @ [CHR 0x22] @ ''; filename='' @ CHR 0x22 # f) = file_line n f"
  by (simp add: name_line_def file_line_def quoted_def)

section \<open>Slices and types\<close>

text \<open>
  The slice of a blob is the part of its bytes between the two positions, counted from the end where they are negative
  and cut to the blob where they are outside it: it never reads past the data, and byte \<open>i\<close> of the slice is byte
  \<open>start + i\<close> of the blob.\<close>

theorem blob_slice_exact:
  "let n = int (length (bl_data b)); at = (\<lambda>i. if i < 0 then max 0 (n + i) else min i n);
       lo = at (case start of Some i \<Rightarrow> i | None \<Rightarrow> 0); hi = at (case stop of Some i \<Rightarrow> i | None \<Rightarrow> n); s = bl_data (blob_slice start stop t b) in
   0 \<le> lo \<and> hi \<le> n \<and> int (length s) = max 0 (hi - lo) \<and> (\<forall>i < length s. s ! i = bl_data b ! (nat lo + i))"
proof -
  define n where "n = int (length (bl_data b))"
  define lo hi where "lo = (let i = case start of Some i \<Rightarrow> i | None \<Rightarrow> 0 in if i < 0 then max 0 (n + i) else min i n)"
    and "hi = (let i = case stop of Some i \<Rightarrow> i | None \<Rightarrow> n in if i < 0 then max 0 (n + i) else min i n)"
  have b: "0 \<le> lo" "lo \<le> n" "0 \<le> hi" "hi \<le> n" by (auto simp: lo_def hi_def n_def Let_def)
  have s: "bl_data (blob_slice start stop t b) = (if hi < lo then [] else take (nat hi - nat lo) (drop (nat lo) (bl_data b)))"
    unfolding blob_slice_def lo_def hi_def n_def Let_def by (simp only: max.commute if_distrib [of bl_data] blob.select_convs)
  have l: "int (length (bl_data (blob_slice start stop t b))) = max 0 (hi - lo)"
  proof (cases "hi < lo")
    case False
    then have "nat hi - nat lo \<le> length (bl_data b) - nat lo" using b by (simp add: n_def)
    then show ?thesis using False b by (simp add: s n_def min_def)
  qed (simp add: s)
  have "\<forall>i < length (bl_data (blob_slice start stop t b)). bl_data (blob_slice start stop t b) ! i = bl_data b ! (nat lo + i)"
    using b by (simp add: s n_def nth_drop)
  with l b(1,4) show ?thesis unfolding Let_def lo_def hi_def n_def by (simp only: simp_thms)
qed

theorem blob_slice_exact_witness:
  "bl_data (blob_slice (Some (-3)) None None \<lparr>bl_mime = [], bl_data = ''hello''\<rparr>) = ''llo'' \<and>
   int (length (bl_data (blob_slice (Some (-3)) None None \<lparr>bl_mime = [], bl_data = ''hello''\<rparr>))) = 3"
proof
  show "bl_data (blob_slice (Some (-3)) None None \<lparr>bl_mime = [], bl_data = ''hello''\<rparr>) = ''llo''" by code_simp
  show "int (length (bl_data (blob_slice (Some (-3)) None None \<lparr>bl_mime = [], bl_data = ''hello''\<rparr>))) = 3"
    using blob_slice_exact [of "\<lparr>bl_mime = [], bl_data = ''hello''\<rparr>" "Some (-3)" None None] by (simp add: Let_def)
qed

text \<open>Without rewriting of line endings a blob is its parts, one after the other; detached buffers count as empty.\<close>

fun part_bytes :: "blob_part \<Rightarrow> string" where
  "part_bytes (Part_Bytes b) = b"
| "part_bytes (Part_String s) = s"
| "part_bytes _ = []"

lemma process_transparent:
  "Part_Other \<notin> set ps \<Longrightarrow> process_blob_part False (map Inr ps) out = Inr (out @ concat (map part_bytes ps))"
proof (induction ps arbitrary: out)
  case (Cons p ps)
  then show ?case by (cases p) auto
qed simp

lemma blob_new_transparent:
  "Part_Other \<notin> set ps \<Longrightarrow> blob_new (Some (map Inr ps)) None = Inr \<lparr>bl_mime = [], bl_data = concat (map part_bytes ps)\<rparr>"
  by (simp add: blob_new_def process_transparent)

text \<open>A tilde, the last character the documentation allows in a type, is rejected.\<close>

lemma tilde_rejected: "normalize_type ''a~'' = []"
  by (simp add: normalize_type_def byte_of_def)

end
