(* ===== verification/Form_Body.thy ===== *)
theory Form_Body
  imports Fetch Form_Data
begin

text \<open>
  Forms as the bodies of requests and responses: \<^verbatim>\<open>Request.formData\<close> (\<^verbatim>\<open>modules/rong_http/src/request.rs\<close>), \<^verbatim>\<open>Response.formData\<close>
  (\<^verbatim>\<open>response.rs\<close>), and the way of a posted form from the script that sends it to the script that receives it.
\<close>

section \<open>Reading a form\<close>

definition form_of_body ::
  "(string \<Rightarrow> (string \<times> string) list) \<Rightarrow> int js_result \<Rightarrow> http_types \<Rightarrow> header_map \<Rightarrow> string \<Rightarrow> form_entry list js_result" where
  "form_of_body urlencoded now T headers bytes =
     js_bind (hd_get T ''Content-Type'' headers)
       (\<lambda>ct. form_from_bytes urlencoded now bytes (case ct of Some t \<Rightarrow> t | None \<Rightarrow> []))"

text \<open>\<open>form_of\<close> gives the entries of a value that is a form; \<open>to_bytes\<close> is what the body is converted to.\<close>

definition request_form_data ::
  "('v \<Rightarrow> form_entry list option) \<Rightarrow> (unit \<Rightarrow> string js_result) \<Rightarrow> (string \<Rightarrow> (string \<times> string) list) \<Rightarrow> int js_result \<Rightarrow> http_types \<Rightarrow>
     streams \<Rightarrow> 'v request \<Rightarrow> form_entry list js_result \<times> 'v request" where
  "request_form_data form_of to_bytes urlencoded now T S rq =
     (if body_used S rq then (Inl (type_error_host E_INVALID_STATE ''body used already for: formData''), rq)
      else
        (let parsed = js_bind (case rq_body rq of Some _ \<Rightarrow> to_bytes () | None \<Rightarrow> Inr []) (form_of_body urlencoded now T (rq_headers rq)) in
         case rq_body rq of
           Some (BV_Value v) \<Rightarrow> (case form_of v of Some es \<Rightarrow> Inr es | None \<Rightarrow> parsed)
         | _ \<Rightarrow> parsed, rq\<lparr>rq_consumed := True\<rparr>))"

definition response_form_data ::
  "(string \<Rightarrow> (string \<times> string) list) \<Rightarrow> int js_result \<Rightarrow> http_types \<Rightarrow> (string \<Rightarrow> string + string) \<Rightarrow> ('v \<Rightarrow> (string \<times> string option) js_result) \<Rightarrow>
     (nat \<times> rong_js_error) option \<Rightarrow> 'v response \<Rightarrow> body_world \<Rightarrow> form_entry list js_result \<times> 'v response \<times> body_world" where
  "response_form_data urlencoded now T gunzip other abort rp W =
     response_read ''formData'' (form_of_body urlencoded now T (rp_headers rp)) T gunzip other abort rp W"

section \<open>The boundary in the type\<close>

text \<open>Boundaries are UUIDs; all that matters is that they are made of visible characters other than quotes and semicolons.\<close>

definition boundary_ok :: "string \<Rightarrow> bool" where
  "boundary_ok b \<longleftrightarrow> b \<noteq> [] \<and> list_all (\<lambda>c. graphic c \<and> c \<noteq> CHR 0x22 \<and> c \<noteq> CHR '';'') b"

lemma boundary_trim: "boundary_ok b \<Longrightarrow> trim b = b" "boundary_ok b \<Longrightarrow> trim (''boundary='' @ b) = ''boundary='' @ b"
  "boundary_ok b \<Longrightarrow> trim_matches (CHR 0x22) b = b" "boundary_ok b \<Longrightarrow> CHR 0x0D \<notin> set b"
proof -
  assume b: "boundary_ok b"
  then have h: "graphic (hd b)" "graphic (last b)" "hd b \<noteq> CHR 0x22" "last b \<noteq> CHR 0x22" "b \<noteq> []"
    by (auto simp: boundary_ok_def list_all_iff)
  show "trim b = b" using h by (simp add: trim_graphic)
  show "trim (''boundary='' @ b) = ''boundary='' @ b" using h by (intro trim_graphic) (simp_all add: graphic_def byte_of_def)
  have "dropWhile (\<lambda>x. x = CHR 0x22) b = b" "dropWhile (\<lambda>x. x = CHR 0x22) (rev b) = rev b"
    using h by (simp_all add: dropWhile_eq_self_iff hd_rev)
  then show "trim_matches (CHR 0x22) b = b" by (simp add: trim_matches_def)
  have "\<not> graphic (CHR 0x0D)" by (simp add: graphic_def byte_of_def)
  then show "CHR 0x0D \<notin> set b" using b unfolding boundary_ok_def list_all_iff by blast
qed

lemma boundary_key: "to_ascii_lowercase (trim ''boundary'') = ''boundary''" "starts_with ''multipart/form-data'' (to_ascii_lowercase (''multipart/form-data'' @ s))"
proof -
  show "to_ascii_lowercase (trim ''boundary'') = ''boundary''" by code_simp
  have "to_ascii_lowercase ''multipart/form-data'' = ''multipart/form-data''" by code_simp
  then show "starts_with ''multipart/form-data'' (to_ascii_lowercase (''multipart/form-data'' @ s))"
    by (simp only: starts_with_def to_ascii_lowercase_def map_append append_eq_conv_conj take_append) simp
qed

lemma parse_form_content_type:
  assumes "boundary_ok b"
  shows "parse_boundary (form_content_type b) = Some b"
proof -
  have "CHR '';'' \<notin> set b" using assms by (auto simp: boundary_ok_def list_all_iff)
  then have "split_char (CHR '';'') (''multipart/form-data'' @ CHR '';'' # '' boundary='' @ b) = [''multipart/form-data'', '' boundary='' @ b]"
    by (subst split_char_append) (auto simp: split_char_none)
  then have s: "split_char (CHR '';'') (form_content_type b) = [''multipart/form-data'', '' boundary='' @ b]"
    by (simp add: form_content_type_def del: split_char.simps)
  have t: "trim ('' boundary='' @ b) = ''boundary='' @ b" using boundary_trim(2) [OF assms] by (simp add: trim_space)
  have o: "split_once (CHR ''='') (''boundary='' @ b) = Some (''boundary'', b)"
    using split_once_append [of "CHR ''=''" "''boundary''" b] by simp
  have "starts_with ''multipart/form-data'' (to_ascii_lowercase (form_content_type b))"
    using boundary_key(2) [of "''; boundary='' @ b"] by (simp add: form_content_type_def)
  then show ?thesis
    unfolding parse_boundary_def s by (simp add: t o boundary_key boundary_trim [OF assms] del: append.simps)
qed

section \<open>A posted form\<close>

lemma to_hyper_form:
  assumes "rq_body rq = Some (BV_Value v)" "ht_value T (form_content_type b) = Some ct"
    "fst (to_hyper_request T ua (Inr (bytes, Some b)) rq S) = Inr q"
  shows "hq_body q = Full_Body bytes" "hm_get_all ''content-type'' (hq_headers q) = [ct]"
  using assms
  by (auto simp: to_hyper_request_def Let_def js_bind_def insert_boundary_def finish_request_def hm_insert_def hm_get_all_def
      split: option.splits)

lemma form_read_back:
  assumes "boundary_ok b" "\<forall>e \<in> set es. entry_ok b e" "ht_name T ''Content-Type'' = Some ''content-type''"
    "hm_get_all ''content-type'' headers = [ct]" "ht_to_str T ct = Some (form_content_type b)"
  shows "form_of_body urlencoded (Inr now) T headers (serialize_form b es) = Inr (map (received now) es)"
  using serialized_form_read [OF boundary_trim(4) [OF assms(1)] assms(2), of now] parse_form_content_type [OF assms(1)] assms(3,4,5)
  by (simp add: form_of_body_def hd_get_def js_bind_def form_from_bytes_def map_filter_simps)

text \<open>
  C27. A form posted by a script is read back by the script that receives the request, for forms whose entries the multipart
  headers can carry, since the encoder escapes nothing: names and file names are valid UTF-8 without carriage returns,
  semicolons and quotes at their ends, and file names are not empty; types of files are valid UTF-8 without carriage
  returns and outer white space; texts are valid UTF-8; no content holds the delimiter; and the boundary consists of visible characters other than quotes and semicolons. Then the
  request that goes out carries the encoded entries under a content type that names their boundary, whatever type the
  sender had set, and \<^verbatim>\<open>formData\<close> of a request with these headers and bytes gives one entry for each entry sent, in
  the same order, with its name and its content, type and file name; texts stay texts, files and blobs come back as files
  whose date is that of the reception; and the request is marked used.\<close>

theorem posted_form_arrives:
  assumes "boundary_ok b" "\<forall>e \<in> set es. entry_ok b e"
    and "ht_name T ''Content-Type'' = Some ''content-type''" "ht_value T (form_content_type b) = Some ct" "ht_to_str T ct = Some (form_content_type b)"
    and "rq_body rq = Some (BV_Value v)" "fst (to_hyper_request T ua (Inr (serialize_form b es, Some b)) rq S) = Inr q"
    and "rq_headers rq' = hq_headers q" "rq_body rq' = Some (BV_Value v')" "form_of v' = None" "\<not> rq_consumed rq'"
    and "to_bytes () = (case hq_body q of Full_Body bytes \<Rightarrow> Inr bytes | Stream_Body _ \<Rightarrow> Inl other)"
  shows "request_form_data form_of to_bytes urlencoded (Inr now) T S' rq' = (Inr (map (received now) es), rq'\<lparr>rq_consumed := True\<rparr>)"
  using form_read_back [OF assms(1,2,3) to_hyper_form(2) [OF assms(6,4,7)] assms(5), of urlencoded now]
    to_hyper_form(1) [OF assms(6,4,7)] assms(8-)
  by (simp add: request_form_data_def body_used_def js_bind_def)

definition lower_types :: http_types where
  "lower_types = \<lparr>ht_name = (\<lambda>s. Some (to_ascii_lowercase s)), ht_value = Some, ht_to_str = Some, ht_order = (\<lambda>_. [])\<rparr>"

definition demo_post :: "header_map \<Rightarrow> unit request" where
  "demo_post h = request_default\<lparr>rq_method := ''POST'', rq_headers := h, rq_body := Some (BV_Value ())\<rparr>"

definition demo_posted :: hyper_request where
  "demo_posted =
     \<lparr>hq_method = ''POST'', hq_uri = rq_url (demo_post Map.empty),
      hq_headers = hm_insert ''content-type'' (form_content_type ''B'') (the (builder_headers lower_types ''agent'' Map.empty)),
      hq_body = Full_Body (serialize_form ''B'' demo_form), hq_tag = None\<rparr>"

theorem posted_form_arrives_witness:
  "fst (request_form_data (\<lambda>_. None) (\<lambda>_. Inr (serialize_form ''B'' demo_form)) (\<lambda>_. []) (Inr 7) lower_types (\<lambda>_. rs_constructor False)
      (demo_post (hq_headers demo_posted))) =
     Inr [(''a'', FV_String ''hi'', []),
          (''f'', FV_File \<lparr>fi_blob = \<lparr>bl_mime = ''text/plain'', bl_data = ''xy''\<rparr>, fi_name = ''b.txt'', fi_modified = 7\<rparr>, ''b.txt'')]"
proof -
  have "boundary_ok ''B''" by (simp add: boundary_ok_def graphic_def byte_of_def)
  moreover have "ht_name lower_types ''Content-Type'' = Some ''content-type''" by code_simp
  moreover have "fst (to_hyper_request lower_types ''agent'' (Inr (serialize_form ''B'' demo_form, Some ''B'')) (demo_post Map.empty) (\<lambda>_. rs_constructor False)) = Inr demo_posted"
    by (simp add: to_hyper_request_def demo_post_def request_default_def demo_posted_def builder_headers_def lower_types_def js_bind_def
        insert_boundary_def finish_request_def)
  ultimately show ?thesis
    using posted_form_arrives [of "''B''" demo_form lower_types "form_content_type ''B''" "demo_post Map.empty" "()" "''agent''" "\<lambda>_. rs_constructor False"
        demo_posted "demo_post (hq_headers demo_posted)" "()" "\<lambda>_. None" "\<lambda>_. Inr (serialize_form ''B'' demo_form)" _ "\<lambda>_. []" 7 "\<lambda>_. rs_constructor False"]
      demo_form_ok
    by (simp add: demo_post_def request_default_def lower_types_def demo_posted_def demo_form_def received_def)
qed

end
