(* ===== verification/Spec2Isabelle.thy ===== *)
theory Spec2Isabelle
  imports Pinned_Worker Sse Timer Stream_Pipe Download Storage Abort Context_Life Promise_Future Url_Params Headers Observer
    Js_Function Invoke_Queue Shell Cron_Jobs Web_Worker Form_Body
begin

text \<open>
  \<^bold>\<open>Rong\<close> embeds JavaScript engines in Rust programs. Its core runs JavaScript on pools of worker threads, carries
  errors and thrown values between the two languages and can interrupt a running script; its modules give scripts
  timers, events, streams, storage, URLs, forms, fetch, processes, schedules and workers. This development models the
  parts of it that have logic of their own and proves what makes them correct. Engines, the network, the operating system and third-party crates are
  parameters of the definitions.

  \<^bold>\<open>Parts and theories.\<close>

  \<^item> \<^verbatim>\<open>Rong_Prelude\<close>: machine words with Rust's saturating and clamping operations, decimal printing, list and option
    lemmas, and contracts as locales: \<open>exclusive_loan\<close> of everything lent to one holder at a time, \<open>atomic_step\<close> of operations
    that take effect or fail, \<open>prepaid\<close> of amortized work. \<^verbatim>\<open>Multimap\<close> adds the contract of collections with several
    values per name.
  \<^item> \<^verbatim>\<open>Thrown_Store\<close> (\<^verbatim>\<open>core/src/context/thrown_store.rs\<close> and the operations of \<^verbatim>\<open>core/src/context.rs\<close> on it): the
    generational arena that keeps JavaScript values thrown into Rust. It refines a partial map from handles to values;
    spent handles stay dead although slots are reused and generations wrap.
  \<^item> \<^verbatim>\<open>Interrupt\<close> (\<^verbatim>\<open>core/src/interrupt.rs\<close>): persistent and scoped requests of any number of holders. The flag the engine
    polls is exact, and dropping a guard withdraws only its own request.
  \<^item> \<^verbatim>\<open>Host_Error\<close> (\<^verbatim>\<open>core/src/error.rs\<close>): host errors, error data, thrown values and their exits to JavaScript. A
    thrown value comes back unchanged, once, and conversions release what they captured.
  \<^item> \<^verbatim>\<open>Task_Scope\<close> (the task registry of \<^verbatim>\<open>core/src/context.rs\<close> and the host promises of \<^verbatim>\<open>core/src/promise.rs\<close>): tasks
    grouped in scopes, as a step relation of the host, the scripts and the executor. Work of a cancelled scope never
    resumes, cancelling aborts exactly the scope's own tasks, the lists of handles are kept at a constant price per push.
  \<^item> \<^verbatim>\<open>Context_Life\<close> (services, handles and evaluation in \<^verbatim>\<open>core/src/context.rs\<close>): a context is shut down once, with its
    last owner, and every service is notified once; no evaluation reports success under an interrupt.
  \<^item> \<^verbatim>\<open>Promise_Future\<close> (\<^verbatim>\<open>core/src/promise.rs\<close>): the future that awaits a JavaScript promise misses and repeats nothing.
  \<^item> \<^verbatim>\<open>Task_Control\<close>, \<^verbatim>\<open>Shared_Worker\<close>, \<^verbatim>\<open>Worker_Guarantees\<close> (\<^verbatim>\<open>core/src/shared.rs\<close>): the control of one task (its phases,
    its deadline), the worker's loop with submission, deadlines, termination, drain and stop as one step relation on
    the state the threads share. The end of a task takes three steps, as other threads can run between them: its control
    is finished and its result decided, the result is sent, the task is counted out. The invariant is proved by rule
    induction, and from it: exact accounting, one answer per task that never changes, one winner between deadline and
    completion, no interrupt left behind, a loop that cannot panic, a drain that answers every queued task.
  \<^item> \<^verbatim>\<open>Worker_Pool\<close> (the pool in \<^verbatim>\<open>core/src/shared.rs\<close>, \<^verbatim>\<open>core/src/rong.rs\<close>, \<^verbatim>\<open>core/src/worker_thread.rs\<close>): building,
    dispatch, shutdown and the waits of the engine-timer loop.
  \<^item> \<^verbatim>\<open>Pinned_Worker\<close> (\<^verbatim>\<open>core/src/pinned.rs\<close>): workers with state per key. The locale \<open>forgets\<close> states what a refinement
    by forgetting gives, and its interpretation carries the guarantees of the shared worker over; the per-key state is
    owned by one task at a time, and a stored state stays until it is handed to a task of its key.
  \<^item> \<^verbatim>\<open>Rust_String\<close>, \<^verbatim>\<open>Sse\<close> (\<^verbatim>\<open>rong_rt/src/sse.rs\<close>): strings as bytes with lossy UTF-8 decoding, the event-stream parser
    and the reconnecting worker. The parser does not depend on how the stream was cut, events survive a round trip,
    delays are bounded, and the worker gives up after the configured number of retries.
  \<^item> \<^verbatim>\<open>Http_Client\<close> (\<^verbatim>\<open>rong_rt/src/client.rs\<close>): proxies, the cache of connection pools, deadlines and the task that streams a
    body. A consumer gets the bytes in order; guarded requests share their pool with nobody.
  \<^item> \<^verbatim>\<open>Download\<close> (\<^verbatim>\<open>rong_rt/src/download.rs\<close>): redirects, the part file, resuming and the sink, on an explicit file system in
    which every call may fail. A download that reports success has committed exactly the content, resumed any number
    of times from its own part file; one that fails leaves the destination alone.
  \<^item> \<^verbatim>\<open>Event_Emitter\<close> (\<^verbatim>\<open>modules/rong_event/src/event_emitter.rs\<close>): listeners, emission over a snapshot, once-listeners and
    throwing callbacks. A callback is an arbitrary function that may change the emitter.
  \<^item> \<^verbatim>\<open>Abort\<close> (\<^verbatim>\<open>modules/rong_abort/src\<close>): controllers and signals over the emitter. Every receiver has its reason before
    the first listener is called, and a combined signal follows its inputs.
  \<^item> \<^verbatim>\<open>Timer\<close> (\<^verbatim>\<open>modules/rong_timer/src\<close>): the registry, the task of each timer and the receiver that runs callbacks. A
    timeout fires exactly once, a cleared timer never again, and ticks do not pile up.
  \<^item> \<^verbatim>\<open>Readable_Stream\<close>, \<^verbatim>\<open>Writable_Stream\<close>, \<^verbatim>\<open>Stream_Pipe\<close> (\<^verbatim>\<open>modules/rong_stream/src\<close>): who owns the ends of a stream's channel,
    the order in which chunks are delivered, writers, pipes and the branches of a split stream.
  \<^item> \<^verbatim>\<open>Storage\<close> (\<^verbatim>\<open>modules/rong_storage/src\<close>): limits, the encoding of values and every operation on the rows. A storage
    never grows past its limits, whatever it was opened on, operations are atomic, the storage refines a map, and values come back as they were stored.
  \<^item> \<^verbatim>\<open>Url_Params\<close>, \<^verbatim>\<open>Headers\<close> (\<^verbatim>\<open>modules/rong_url/src\<close>, \<^verbatim>\<open>modules/rong_http/src/header.rs\<close>): two implementations of \<open>Multimap\<close>;
    a URL follows its parameters.
  \<^item> \<^verbatim>\<open>Network_Access\<close> (\<^verbatim>\<open>rong_rt/src/http.rs\<close>, \<^verbatim>\<open>modules/rong_http/src/security.rs\<close>): the functions that send requests and
    the guards they ask. A request whose guard denies its address is not sent.
  \<^item> \<^verbatim>\<open>Http_Request\<close>, \<^verbatim>\<open>Http_Response\<close> (\<^verbatim>\<open>request.rs\<close>, \<^verbatim>\<open>response.rs\<close>, \<^verbatim>\<open>body.rs\<close> of \<^verbatim>\<open>modules/rong_http/src\<close>): their construction,
    cloning and reading methods, and the exchange with the host. A body is read once and completely or not at all.
  \<^item> \<^verbatim>\<open>Fetch\<close> (\<^verbatim>\<open>modules/rong_http/src/fetch.rs\<close>): the loop of redirects with its guard, aborts and reports. Every hop is asked
    of the guard before it is sent, and credentials stay with the host they were meant for.
  \<^item> \<^verbatim>\<open>Form_Data\<close>, \<^verbatim>\<open>Form_Body\<close> (\<^verbatim>\<open>modules/rong_http/src/formdata.rs\<close>, \<^verbatim>\<open>modules/rong_buffer/src\<close>): forms, the third implementation
    of \<open>Multimap\<close>, their multipart encoding in both directions, blobs and files, and forms as bodies. A form whose names
    and types its headers can carry is read back as it was posted.
  \<^item> \<^verbatim>\<open>Js_Value\<close>, \<^verbatim>\<open>Js_Object\<close>, \<^verbatim>\<open>Js_Function\<close> (\<^verbatim>\<open>core/src/value\<close>, \<^verbatim>\<open>core/src/function.rs\<close>, \<^verbatim>\<open>quickjs/src\<close>): values of the
    QuickJS binding and their conversions, property access over a table of engine operations, arrays and typed arrays,
    and calls of host functions with their arguments. Integers survive the trip through JavaScript, and a host function
    whose optional parameters come last cannot unwind into the engine.
  \<^item> \<^verbatim>\<open>Invoke_Queue\<close> (\<^verbatim>\<open>core/src/invoke.rs\<close>): callbacks queued from other threads; a refinement of
    a simple queue and a loop that runs everything it is sent while a sender is alive.
  \<^item> \<^verbatim>\<open>Observer\<close> (\<^verbatim>\<open>rong_rt/src/observer/mod.rs\<close> and its callers): what an observer of network activity is told of each request.
  \<^item> \<^verbatim>\<open>Posix_Words\<close>, \<^verbatim>\<open>Child_Process\<close>, \<^verbatim>\<open>Sync_Process\<close>, \<^verbatim>\<open>Shell\<close> (\<^verbatim>\<open>modules/rong_command/src\<close>): a reference of how a shell splits
    a line into words, the locale \<open>literal_quoting\<close> of quoting it undoes, with an interpretation for each quoting of the code,
    the life of a spawned process with its output, time limit and waiters, synchronous runs, and the shell template.
  \<^item> \<^verbatim>\<open>Cron_Schedule\<close>, \<^verbatim>\<open>Cron_Jobs\<close> (\<^verbatim>\<open>modules/rong_cron/src/lib.rs\<close>): expressions and what is handed to the scheduler, then the
    registry of jobs, the ticks of the scheduler and the receiver that calls the script, as tasks that interleave.
  \<^item> \<^verbatim>\<open>Worker_Exit\<close>, \<^verbatim>\<open>Web_Worker\<close> (\<^verbatim>\<open>modules/rong_worker/src/lib.rs\<close>): the race between a thread that exits and the reaper that
    gives up on it, with the counters of detached threads; then the worker itself, its channels, its loop, the loop of the
    main side and termination. A script that runs occupies the thread; a terminated worker is silent, and its thread ends
    once no script occupies it.

  \<^bold>\<open>How the parts interact.\<close> A task of a worker runs on an engine whose interrupt handle its deadline raises
  (\<open>Task_Control\<close> uses \<open>Interrupt\<close>); its result and its timeout are the errors of \<open>Host_Error\<close>, which may own a handle
  of \<open>Thrown_Store\<close>. The pinned worker runs the same loop (\<open>Pinned_Worker\<close> is defined over \<open>Shared_Worker\<close>). Evaluation in a
  context polls the same interrupt handle (\<open>Context_Life\<close>), and the context's shutdown closes the registry of
  \<open>Task_Scope\<close>, in which the promises of every asynchronous host function run. Downloads read the bodies of \<open>Http_Client\<close>;
  a fetch takes its headers from \<open>Headers\<close>, its bodies from \<open>Readable_Stream\<close>, its answers from \<open>Http_Client\<close> and reports
  to the recorder of \<open>Observer\<close>. Abort signals emit through \<open>Event_Emitter\<close>, a web worker is ended through the interrupt handle of its engine, its reaper is
  the one of \<open>Worker_Exit\<close>, and the modules report failures with the same errors.

  \<^bold>\<open>Conventions.\<close> A struct is a record, an enum a datatype, an operation a function from the state to its answer and
  the new state. A fallible operation answers in \<open>js_result\<close> (\<open>Inl\<close> the error). \<^const>\<open>None\<close> in place of an answer is
  a panic of the code, or an operation that still waits; each definition says which. Counters keep their width
  (\<open>usize\<close> is 64 bits). Concurrency is a step relation whose steps are the stretches of code between two points
  where another thread or task can run; atomics are sequentially consistent, as the code requests. Channels,
  notifications and abort handles of \<^verbatim>\<open>tokio\<close> and \<^verbatim>\<open>futures\<close> appear by their documented behaviour inside the steps.

  \<^bold>\<open>Bounds.\<close> Two definitions use fuel: the broadcast of \<open>Abort\<close>, whose argument bounds the depth of signals that abort each
  other; the theorems hold for every depth from one on; and the escaping of a template value in \<open>Shell\<close>, whose argument
  bounds the nesting of arrays, two being enough for arrays of plain values. Every other recursive function is structural or has a
  termination proof. Where a counter can wrap, the theorem says so: fewer than \<open>2 ^ 64\<close> outstanding tasks for a worker's
  idle state, fewer than \<open>2 ^ 32 - 1\<close> insertions for a spent handle, at most \<open>2 ^ 32\<close> timers for an exact account of each
  timeout, fewer than \<open>2 ^ 64\<close> events in the life of a context, fewer than \<open>2 ^ 32 - 1\<close> cron jobs in a context and
  fewer than \<open>2 ^ 64\<close> steps of the ends of web workers. The thread of a worker told to end takes at most
  five more steps of its own. Scope numbers are counted in 64 bits and the call that
  would exceed them panics. A download follows at most ten redirects, a fetch twenty. The workers of \<open>Sse\<close> and the task of
  \<open>Http_Client\<close> run on a finite list of what the network answers; the theorems hold of every list.

  \<^bold>\<open>Not modelled.\<close> The engines and their C interfaces: the JavaScriptCore and ArkJS bindings are foreign calls without logic
  that the sources define, and of the QuickJS binding the calls are parameters. Class registration rests on raw
  pointers held by the engine. Module loading, TLS, the HTTP protocol and URL parsing, databases, cryptography,
  compression and file access are calls of third-party crates or the operating system. The procedural macros, the
  type generator and the build scripts run before the program. Logging and tracing have no effect on the state. Time
  is not modelled: a delay may elapse at any moment. Of readable streams, the task that fills a channel from an
  asynchronous reader and the registry that aborts it are left out.
\<close>

end
